(* ===== verification/Prelude.thy ===== *)
theory Prelude
  imports Main "HOL-Library.Word" "HOL-Library.Monad_Syntax"
begin

text \<open>
  Shared ground of the development: the names of the machine types, the checked memory
  operations every component uses (a Rust index, slice or \<open>expect\<close> that fails is \<open>None\<close>),
  the loops (\<open>foldM\<close>), saturating arithmetic, the decimal printer behind \<open>format!\<close>, and the
  generic lemmas the component proofs rest on.  It also holds \<open>env\<close>, the record of everything
  the sources take from third-party crates (Unicode tables, \<open>CompactString\<close> capacities, URL
  parsing) or from the allocator; every definition that uses one of them takes it as an argument.
\<close>

section \<open>Machine types\<close>

type_synonym u8 = "8 word"
type_synonym u16 = "16 word"
type_synonym scalar = nat  \<comment> \<open>a Rust \<open>char\<close>: a Unicode scalar value\<close>
type_synonym str = "scalar list"  \<comment> \<open>a Rust \<open>str\<close> as its sequence of scalar values\<close>

text \<open>The largest \<open>usize\<close> and \<open>u64\<close> of a 64-bit target.\<close>

definition usize_max :: nat where
  "usize_max = 2 ^ 64 - 1"

definition sat_add :: "nat \<Rightarrow> nat \<Rightarrow> nat" where
  "sat_add a b = min (a + b) usize_max"

definition sat_mul :: "nat \<Rightarrow> nat \<Rightarrow> nat" where
  "sat_mul a b = min (a * b) usize_max"

text \<open>\<open>checked_add\<close> and \<open>checked_mul\<close> of \<open>usize\<close>.\<close>

definition checked_add :: "nat \<Rightarrow> nat \<Rightarrow> nat option" where
  "checked_add a b = (if a + b \<le> usize_max then Some (a + b) else None)"

definition checked_mul :: "nat \<Rightarrow> nat \<Rightarrow> nat option" where
  "checked_mul a b = (if a * b \<le> usize_max then Some (a * b) else None)"

text \<open>
  Subtraction of \<open>usize\<close> values.  An underflow panics in a checked build; the model makes it
  \<open>None\<close>, and the safety theorems show that it is never reached.  \<open>checked_sub\<close> of the sources
  is the same function.
\<close>

definition checked_sub :: "nat \<Rightarrow> nat \<Rightarrow> nat option" where
  "checked_sub a b = (if b \<le> a then Some (a - b) else None)"

lemma sat_add_exact [simp]: "a + b \<le> usize_max \<Longrightarrow> sat_add a b = a + b"
  by (simp add: sat_add_def)

lemma sat_add_0_right [simp]: "a \<le> usize_max \<Longrightarrow> sat_add a 0 = a"
  by (simp add: sat_add_def)

lemma sat_add_le: "sat_add a b \<le> usize_max"
  by (simp add: sat_add_def)

lemma checked_sub_Some [simp]: "b \<le> a \<Longrightarrow> checked_sub a b = Some (a - b)"
  by (simp add: checked_sub_def)

lemma checked_sub_None [simp]: "a < b \<Longrightarrow> checked_sub a b = None"
  by (simp add: checked_sub_def)

section \<open>What the sources take from elsewhere\<close>

text \<open>
  \<^item> \<open>char_width\<close>: \<open>UnicodeWidthChar::width\<close>; \<open>str_width\<close>: \<open>UnicodeWidthStr::width\<close>;
  \<^item> \<open>graphemes\<close>: the number of extended grapheme clusters, \<open>graphemes(true).count()\<close>;
  \<^item> \<open>const_cap s\<close>: the capacity of a \<open>CompactString\<close> holding the fresh text \<open>s\<close>;
  \<^item> \<open>edit_cap ss\<close>: the capacity of a \<open>CompactString\<close> that was created (or cloned) as the first text
    of \<open>ss\<close> and then edited in place into each of the others in turn;
  \<^item> \<open>vec_grow c n\<close>: the capacity of a \<open>Vec\<close> of capacity \<open>c\<close> after it grew to \<open>n\<close> elements;
  \<^item> \<open>vec_shrink c n\<close>: its capacity after \<open>shrink_to_fit\<close> with \<open>n\<close> elements;
  \<^item> \<open>size_cell\<close>, \<open>size_line\<close>, \<open>size_usize\<close>: \<open>size_of\<close> for \<open>Cell\<close>, \<open>LogicalLine\<close>, \<open>usize\<close>;
  \<^item> \<open>alloc\<close>: whether \<open>try_reserve_exact\<close> for so many elements succeeds;
  \<^item> \<open>url_parse\<close>: \<open>url::Url::parse\<close>, reduced to what \<open>normalize_external_web_url\<close> and \<open>file_uri\<close> read of
    the result: scheme, host, user name, password, path and the printed URL.
\<close>

record web_url =
  wu_scheme :: str
  wu_host :: "str option"
  wu_username :: str
  wu_password :: "str option"
  wu_path :: str
  wu_string :: str

record env =
  char_width :: "scalar \<Rightarrow> nat option"
  str_width :: "str \<Rightarrow> nat"
  graphemes :: "str \<Rightarrow> nat"
  const_cap :: "str \<Rightarrow> nat"
  edit_cap :: "str list \<Rightarrow> nat"
  vec_grow :: "nat \<Rightarrow> nat \<Rightarrow> nat"
  vec_shrink :: "nat \<Rightarrow> nat \<Rightarrow> nat"
  size_cell :: nat
  size_line :: nat
  size_usize :: nat
  alloc :: "nat \<Rightarrow> bool"
  url_parse :: "str \<Rightarrow> web_url option"

section \<open>Failure: the option monad and its weakest precondition\<close>

text \<open>
  An operation that can panic returns an \<open>option\<close>.  \<open>ok P m\<close> says that \<open>m\<close> does not panic and
  that its result satisfies \<open>P\<close>; the rules push it through binds, so that \<open>simp\<close> computes the
  weakest precondition of a straight-line operation.
\<close>

definition ok :: "('a \<Rightarrow> bool) \<Rightarrow> 'a option \<Rightarrow> bool" where
  "ok P m = (case m of None \<Rightarrow> False | Some x \<Rightarrow> P x)"

lemma ok_Some [simp]: "ok P (Some x) = P x"
  by (simp add: ok_def)

lemma ok_None [simp]: "\<not> ok P None"
  by (simp add: ok_def)

lemma ok_bind [simp]: "ok P (m \<bind> f) = ok (\<lambda>x. ok P (f x)) m"
  by (cases m) simp_all

lemma ok_if: "ok P (if b then m else n) = (if b then ok P m else ok P n)"
  by simp

lemma ok_mono: "ok P m \<Longrightarrow> (\<And>x. P x \<Longrightarrow> Q x) \<Longrightarrow> ok Q m"
  by (cases m) simp_all

lemma ok_conj: "ok P m \<Longrightarrow> ok Q m \<Longrightarrow> ok (\<lambda>x. P x \<and> Q x) m"
  by (cases m) simp_all

lemma ok_iff: "ok P m \<longleftrightarrow> (\<exists>x. m = Some x \<and> P x)"
  by (cases m) simp_all

lemma okI: "m = Some x \<Longrightarrow> P x \<Longrightarrow> ok P m"
  by simp

lemma ok_SomeD: "ok P m \<Longrightarrow> m = Some x \<Longrightarrow> P x"
  by simp

section \<open>Loops\<close>

primrec foldM :: "('a \<Rightarrow> 's \<Rightarrow> 's option) \<Rightarrow> 'a list \<Rightarrow> 's \<Rightarrow> 's option" where
  "foldM f [] s = Some s"
| "foldM f (x # xs) s = f x s \<bind> foldM f xs"

lemma foldM_append: "foldM f (xs @ ys) s = foldM f xs s \<bind> foldM f ys"
  by (induction xs arbitrary: s) (auto split: bind_splits)

lemma foldM_inv:
  assumes "P s" and "\<And>x s. x \<in> set xs \<Longrightarrow> P s \<Longrightarrow> ok P (f x s)"
  shows "ok P (foldM f xs s)"
  using assms
proof (induction xs arbitrary: s)
  case Nil
  then show ?case by simp
next
  case (Cons x xs)
  from Cons.prems have "ok P (f x s)" by simp
  then show ?case
    using Cons.IH Cons.prems(2) by (auto simp: ok_iff)
qed

text \<open>A loop that is a total function at every step it reaches is a fold.\<close>

lemma foldM_fold:
  assumes "P s" and "\<And>x s. x \<in> set xs \<Longrightarrow> P s \<Longrightarrow> f x s = Some (g x s) \<and> P (g x s)"
  shows "foldM f xs s = Some (fold g xs s) \<and> P (fold g xs s)"
  using assms by (induction xs arbitrary: s) auto

section \<open>Checked memory\<close>

text \<open>\<open>xs[i]\<close>, \<open>xs[i] = v\<close>, \<open>&xs[a..b]\<close>, \<open>xs[a..b].fill(v)\<close> and \<open>xs[a..].copy_from_slice\<close>.\<close>

definition rd :: "'a list \<Rightarrow> nat \<Rightarrow> 'a option" where
  "rd xs i = (if i < length xs then Some (xs ! i) else None)"

definition wr :: "'a list \<Rightarrow> nat \<Rightarrow> 'a \<Rightarrow> 'a list option" where
  "wr xs i v = (if i < length xs then Some (xs[i := v]) else None)"

definition slice :: "nat \<Rightarrow> nat \<Rightarrow> 'a list \<Rightarrow> 'a list" where
  "slice a n xs = take n (drop a xs)"

definition rd_range :: "'a list \<Rightarrow> nat \<Rightarrow> nat \<Rightarrow> 'a list option" where
  "rd_range xs a b = (if a \<le> b \<and> b \<le> length xs then Some (slice a (b - a) xs) else None)"

definition blit :: "nat \<Rightarrow> 'a list \<Rightarrow> 'a list \<Rightarrow> 'a list" where
  "blit a ys xs = take a xs @ ys @ drop (a + length ys) xs"

definition wr_range :: "'a list \<Rightarrow> nat \<Rightarrow> 'a list \<Rightarrow> 'a list option" where
  "wr_range xs a ys = (if a + length ys \<le> length xs then Some (blit a ys xs) else None)"

definition fill_range :: "'a list \<Rightarrow> nat \<Rightarrow> nat \<Rightarrow> 'a \<Rightarrow> 'a list option" where
  "fill_range xs a b v =
     (if a \<le> b \<and> b \<le> length xs then Some (blit a (replicate (b - a) v) xs) else None)"

text \<open>The position of the last element satisfying \<open>P\<close> plus one, or zero: \<open>rposition\<close> and
  \<open>map_or(0, |i| i + 1)\<close>.\<close>

fun extent :: "('a \<Rightarrow> bool) \<Rightarrow> 'a list \<Rightarrow> nat" where
  "extent P [] = 0"
| "extent P (x # xs) = (let n = extent P xs in if n = 0 then (if P x then 1 else 0) else Suc n)"

section \<open>Text\<close>

text \<open>\<open>char::len_utf8\<close> and \<open>str::len\<close>.\<close>

definition len_utf8 :: "scalar \<Rightarrow> nat" where
  "len_utf8 c = (if c < 0x80 then 1 else if c < 0x800 then 2 else if c < 0x10000 then 3 else 4)"

definition str_len :: "str \<Rightarrow> nat" where
  "str_len s = sum_list (map len_utf8 s)"

text \<open>The UTF-8 bytes of a scalar value and of a string (\<open>as_bytes\<close>, \<open>into_bytes\<close>).\<close>

definition u8_of_nat :: "nat \<Rightarrow> u8" where
  "u8_of_nat n = word_of_nat n"

definition encode_utf8 :: "scalar \<Rightarrow> u8 list" where
  "encode_utf8 c =
     (if c < 0x80 then [u8_of_nat c]
      else if c < 0x800 then [u8_of_nat (0xc0 + c div 0x40), u8_of_nat (0x80 + c mod 0x40)]
      else if c < 0x10000 then
        [u8_of_nat (0xe0 + c div 0x1000), u8_of_nat (0x80 + c div 0x40 mod 0x40),
         u8_of_nat (0x80 + c mod 0x40)]
      else
        [u8_of_nat (0xf0 + c div 0x40000), u8_of_nat (0x80 + c div 0x1000 mod 0x40),
         u8_of_nat (0x80 + c div 0x40 mod 0x40), u8_of_nat (0x80 + c mod 0x40)])"

definition str_bytes :: "str \<Rightarrow> u8 list" where
  "str_bytes s = concat (map encode_utf8 s)"

text \<open>A scalar value: a code point that is not a surrogate.\<close>

definition is_scalar :: "nat \<Rightarrow> bool" where
  "is_scalar c = (c < 0xd800 \<or> 0xe000 \<le> c \<and> c < 0x110000)"

text \<open>\<open>char::is_control\<close>: the general category \<open>Cc\<close>.\<close>

definition is_control :: "scalar \<Rightarrow> bool" where
  "is_control c = (c < 0x20 \<or> 0x7f \<le> c \<and> c < 0xa0)"

definition replacement_character :: scalar where
  "replacement_character = 0xfffd"

text \<open>Byte-string literals, and \<open>{}\<close> of an unsigned number.\<close>

definition ascii :: "string \<Rightarrow> u8 list" where
  "ascii s = map of_char s"

fun decimal :: "nat \<Rightarrow> u8 list" where
  "decimal n = (if n < 10 then [u8_of_nat (0x30 + n)]
                else decimal (n div 10) @ [u8_of_nat (0x30 + n mod 10)])"

declare decimal.simps [simp del]

section \<open>Extents\<close>

text \<open>
  The position past the last element of a list that has a property (\<open>extent\<close>): the occupied width of a
  row, the start of a line.
\<close>

lemma extent_le: "extent P xs \<le> length xs"
  by (induction xs) (auto simp: Let_def)

lemma extent_above: "extent P xs \<le> i \<Longrightarrow> i < length xs \<Longrightarrow> \<not> P (xs ! i)"
  by (induction xs arbitrary: i) (auto simp: Let_def nth_Cons' split: if_splits)

lemma extent_unique:
  "n \<le> length xs \<Longrightarrow> (0 < n \<Longrightarrow> P (xs ! (n - 1))) \<Longrightarrow> (\<And>i. n \<le> i \<Longrightarrow> i < length xs \<Longrightarrow> \<not> P (xs ! i)) \<Longrightarrow> extent P xs = n"
proof (induction xs arbitrary: n)
  case (Cons x xs)
  show ?case
  proof (cases n)
    case 0
    then have "extent P xs = 0" using Cons.IH [of 0] Cons.prems(3) by (metis Suc_less_eq length_Cons less_nat_zero_code nth_Cons_Suc zero_le)
    then show ?thesis using Cons.prems(3) [of 0] 0 by (simp add: Let_def)
  next
    case (Suc k)
    have above: "\<not> P (xs ! i)" if "k \<le> i" "i < length xs" for i using Cons.prems(3) [of "Suc i"] Suc that by simp
    have "extent P xs = k"
    proof (cases k)
      case 0
      then show ?thesis using Cons.IH [of 0] above by simp
    next
      case (Suc j)
      then show ?thesis using Cons.IH [of k] Cons.prems(1,2) \<open>n = Suc k\<close> above by simp
    qed
    then show ?thesis using Cons.prems(2) Suc by (cases k) (auto simp: Let_def)
  qed
qed simp

lemma extent_0: "extent P xs = 0 \<longleftrightarrow> (\<forall>x \<in> set xs. \<not> P x)"
  by (induction xs) (auto simp: Let_def)

lemma extent_append: "extent P (xs @ ys) = (if extent P ys = 0 then extent P xs else length xs + extent P ys)"
  by (induction xs) (auto simp: Let_def)

lemma extent_last: "0 < extent P xs \<Longrightarrow> P (xs ! (extent P xs - 1))"
  by (induction xs) (auto simp: Let_def nth_Cons' split: if_splits)

end
