(* ===== verification/Cell.thy ===== *)
theory Cell
  imports Prelude
begin

text \<open>
  The value types of \<open>festerm-core\<close>: dimensions and cursor (\<open>lib.rs\<close>), colours, attributes and
  cells (\<open>cell.rs\<close>), modes (\<open>modes.rs\<close>) and the reported colour scheme (\<open>colors.rs\<close>).
\<close>

unbundle bit_operations_syntax

section \<open>Dimensions and cursor\<close>

definition MAX_CELL_COUNT :: nat where
  "MAX_CELL_COUNT = 4 * 1024 * 1024"

record dimensions =
  columns :: nat
  rows :: nat
  cell_count :: nat

datatype dimensions_error =
    TooFewColumns nat
  | ZeroRows
  | CellCountOverflow nat nat
  | TooManyCells nat nat

definition dimensions_new :: "nat \<Rightarrow> nat \<Rightarrow> dimensions_error + dimensions" where
  "dimensions_new c r =
     (if c < 2 then Inl (TooFewColumns c)
      else if r = 0 then Inl ZeroRows
      else case checked_mul c r of
             None \<Rightarrow> Inl (CellCountOverflow c r)
           | Some n \<Rightarrow>
               if MAX_CELL_COUNT < n then Inl (TooManyCells n MAX_CELL_COUNT)
               else Inr \<lparr>columns = c, rows = r, cell_count = n\<rparr>)"

text \<open>What a value of the type satisfies: its fields are private, so it came from
  \<open>Dimensions::new\<close>.\<close>

definition dims_ok :: "dimensions \<Rightarrow> bool" where
  "dims_ok d \<longleftrightarrow> 2 \<le> columns d \<and> 1 \<le> rows d \<and> cell_count d = columns d * rows d
     \<and> cell_count d \<le> MAX_CELL_COUNT"

lemma dimensions_new_ok: "dimensions_new c r = Inr d \<Longrightarrow> dims_ok d \<and> columns d = c \<and> rows d = r"
  by (auto simp: dimensions_new_def dims_ok_def checked_mul_def split: if_splits)

lemma dimensions_new_complete:
  "dims_ok d \<Longrightarrow> dimensions_new (columns d) (rows d) = Inr d"
  by (cases d) (auto simp: dimensions_new_def dims_ok_def checked_mul_def usize_max_def MAX_CELL_COUNT_def)

record cursor =
  column :: nat
  row :: nat

definition home :: cursor where
  "home = \<lparr>column = 0, row = 0\<rparr>"

section \<open>Cells\<close>

datatype color = Default | Indexed u8 | Rgb u8 u8 u8

type_synonym attributes = u16

definition NONE :: attributes where "NONE = 0"
definition BOLD :: attributes where "BOLD = 1"
definition FAINT :: attributes where "FAINT = 2"
definition ITALIC :: attributes where "ITALIC = 4"
definition UNDERLINE :: attributes where "UNDERLINE = 8"
definition DOUBLE_UNDERLINE :: attributes where "DOUBLE_UNDERLINE = 16"
definition SLOW_BLINK :: attributes where "SLOW_BLINK = 32"
definition RAPID_BLINK :: attributes where "RAPID_BLINK = 64"
definition INVERSE :: attributes where "INVERSE = 128"
definition CONCEALED :: attributes where "CONCEALED = 256"
definition STRIKETHROUGH :: attributes where "STRIKETHROUGH = 512"
definition PROTECTED :: attributes where "PROTECTED = 1024"

lemmas attribute_defs = NONE_def BOLD_def FAINT_def ITALIC_def UNDERLINE_def DOUBLE_UNDERLINE_def
  SLOW_BLINK_def RAPID_BLINK_def INVERSE_def CONCEALED_def STRIKETHROUGH_def PROTECTED_def

definition attr_contains :: "attributes \<Rightarrow> attributes \<Rightarrow> bool" where
  "attr_contains a b \<longleftrightarrow> a AND b = b"

definition attr_with :: "attributes \<Rightarrow> attributes \<Rightarrow> attributes" where
  "attr_with a b = a OR b"

definition attr_without :: "attributes \<Rightarrow> attributes \<Rightarrow> attributes" where
  "attr_without a b = a AND NOT b"

datatype cell_width = Single | Double | Continuation

definition width_columns :: "cell_width \<Rightarrow> nat" where
  "width_columns w = (case w of Single \<Rightarrow> 1 | Double \<Rightarrow> 2 | Continuation \<Rightarrow> 0)"

record cell =
  c_text :: str
  c_capacity :: nat  \<comment> \<open>\<open>text_capacity_bytes\<close>\<close>
  c_width :: cell_width
  c_foreground :: color
  c_background :: color
  c_attributes :: attributes
  c_hyperlink :: "str option"

definition MAX_GRAPHEME_BYTES :: nat where
  "MAX_GRAPHEME_BYTES = 256"

definition MAX_CELL_TEXT_CAPACITY_BYTES :: nat where
  "MAX_CELL_TEXT_CAPACITY_BYTES = MAX_GRAPHEME_BYTES * 2"

definition cell_character :: "cell \<Rightarrow> scalar" where
  "cell_character c = (case c_text c of [] \<Rightarrow> 0x20 | x # _ \<Rightarrow> x)"

definition is_continuation :: "cell \<Rightarrow> bool" where
  "is_continuation c \<longleftrightarrow> c_width c = Continuation"

definition cell_valid :: "cell \<Rightarrow> bool" where
  "cell_valid c \<longleftrightarrow>
     \<not> MAX_GRAPHEME_BYTES < str_len (c_text c) \<and>
     \<not> c_capacity c < str_len (c_text c) \<and>
     \<not> MAX_CELL_TEXT_CAPACITY_BYTES < c_capacity c"

definition blank_cell :: "env \<Rightarrow> cell" where
  "blank_cell e =
     \<lparr>c_text = [0x20], c_capacity = const_cap e [0x20], c_width = Single, c_foreground = Default,
      c_background = Default, c_attributes = NONE, c_hyperlink = None\<rparr>"

definition is_structural_blank :: "cell \<Rightarrow> bool" where
  "is_structural_blank c \<longleftrightarrow>
     c_text c = [0x20] \<and> c_width c = Single \<and> c_foreground c = Default \<and>
     c_background c = Default \<and> c_attributes c = NONE \<and> c_hyperlink c = None"

lemma blank_cell_width [simp]: "c_width (blank_cell e) = Single"
  by (simp add: blank_cell_def)

lemma is_structural_blank_blank [simp]: "is_structural_blank (blank_cell e)"
  by (simp add: blank_cell_def is_structural_blank_def)

section \<open>Modes\<close>

datatype cursor_style =
  BlinkingBlock | SteadyBlock | BlinkingUnderline | SteadyUnderline | BlinkingBar | SteadyBar

datatype mouse_tracking_mode = MouseNone | X10 | ButtonEvent | ButtonMotion | AnyMotion

record terminal_modes =
  auto_wrap :: bool
  reverse_wrap :: bool
  origin_mode :: bool
  left_right_margin_mode :: bool
  insert_mode :: bool
  line_feed_new_line :: bool
  keyboard_locked :: bool
  backarrow_sends_backspace :: bool
  alternate_screen :: bool
  cursor_visible :: bool
  application_cursor :: bool
  application_keypad :: bool
  bracketed_paste :: bool
  focus_reporting :: bool
  mouse_tracking :: mouse_tracking_mode
  sgr_mouse :: bool

definition default_modes :: terminal_modes where
  "default_modes =
     \<lparr>auto_wrap = True, reverse_wrap = False, origin_mode = False, left_right_margin_mode = False,
      insert_mode = False, line_feed_new_line = False, keyboard_locked = False,
      backarrow_sends_backspace = False, alternate_screen = False, cursor_visible = True,
      application_cursor = False, application_keypad = False, bracketed_paste = False,
      focus_reporting = False, mouse_tracking = MouseNone, sgr_mouse = False\<rparr>"

section \<open>Reported colours\<close>

record rgb =
  red :: u8
  green :: u8
  blue :: u8

definition rgb_new :: "u8 \<Rightarrow> u8 \<Rightarrow> u8 \<Rightarrow> rgb" where
  "rgb_new r g b = \<lparr>red = r, green = g, blue = b\<rparr>"

text \<open>\<open>{:x}\<close> and \<open>{:X}\<close> of one digit, and the four-digit forms.\<close>

definition hex_digit :: "nat \<Rightarrow> u8" where
  "hex_digit n = (if n < 10 then u8_of_nat (0x30 + n) else u8_of_nat (0x61 + (n - 10)))"

definition hex_digit_upper :: "nat \<Rightarrow> u8" where
  "hex_digit_upper n = (if n < 10 then u8_of_nat (0x30 + n) else u8_of_nat (0x41 + (n - 10)))"

definition hex4 :: "(nat \<Rightarrow> u8) \<Rightarrow> u16 \<Rightarrow> u8 list" where
  "hex4 f w = (let n = unat w in
     [f (n div 0x1000 mod 16), f (n div 0x100 mod 16), f (n div 16 mod 16), f (n mod 16)])"

definition to_xparsecolor :: "rgb \<Rightarrow> u8 list" where
  "to_xparsecolor c =
     (let scale = (\<lambda>x :: u8. (ucast x :: u16) * 0x101)
      in ascii ''rgb:'' @ hex4 hex_digit (scale (red c)) @ ascii ''/''
         @ hex4 hex_digit (scale (green c)) @ ascii ''/'' @ hex4 hex_digit (scale (blue c)))"

record color_scheme =
  cs_foreground :: rgb
  cs_background :: rgb
  cs_cursor :: rgb
  cs_ansi :: "rgb list"

definition DEFAULT_ANSI :: "rgb list" where
  "DEFAULT_ANSI =
     [rgb_new 0 0 0, rgb_new 205 49 49, rgb_new 13 188 121, rgb_new 229 229 16,
      rgb_new 36 114 200, rgb_new 188 63 188, rgb_new 17 168 205, rgb_new 229 229 229,
      rgb_new 102 102 102, rgb_new 241 76 76, rgb_new 35 209 139, rgb_new 245 245 67,
      rgb_new 59 142 234, rgb_new 214 112 214, rgb_new 41 184 219, rgb_new 255 255 255]"

definition DEFAULT_FOREGROUND :: rgb where
  "DEFAULT_FOREGROUND = rgb_new 0xe8 0xed 0xf2"

definition DEFAULT_BACKGROUND :: rgb where
  "DEFAULT_BACKGROUND = rgb_new 0x11 0x16 0x1e"

definition default_color_scheme :: color_scheme where
  "default_color_scheme =
     \<lparr>cs_foreground = DEFAULT_FOREGROUND, cs_background = DEFAULT_BACKGROUND,
      cs_cursor = DEFAULT_FOREGROUND, cs_ansi = DEFAULT_ANSI\<rparr>"

text \<open>The scheme stores \<open>[Rgb; 16]\<close>; the model keeps the array as a list of that length.\<close>

definition scheme_ok :: "color_scheme \<Rightarrow> bool" where
  "scheme_ok s \<longleftrightarrow> length (cs_ansi s) = 16"

definition palette_levels :: "u8 list" where
  "palette_levels = [0, 95, 135, 175, 215, 255]"

definition palette :: "color_scheme \<Rightarrow> u8 \<Rightarrow> rgb" where
  "palette s index =
     (if index \<le> 15 then cs_ansi s ! unat index
      else if index \<le> 231 then
        (let value = unat (index - 16)
         in rgb_new (palette_levels ! (value div 36)) (palette_levels ! (value div 6 mod 6))
              (palette_levels ! (value mod 6)))
      else let level = 8 + (index - 232) * 10 in rgb_new level level level)"

definition resolve :: "color_scheme \<Rightarrow> color \<Rightarrow> rgb \<Rightarrow> rgb" where
  "resolve s c dflt =
     (case c of Default \<Rightarrow> dflt | Indexed i \<Rightarrow> palette s i | Rgb r g b \<Rightarrow> rgb_new r g b)"

lemma default_scheme_ok [simp]: "scheme_ok default_color_scheme"
  by (simp add: scheme_ok_def default_color_scheme_def DEFAULT_ANSI_def)

text \<open>The gray ramp never wraps: the level of entry \<open>i\<close> is \<open>8 + 10 (i - 232)\<close> exactly.\<close>

lemma palette_gray_level:
  assumes "231 < index"
  shows "palette s index = rgb_new (word_of_nat (8 + 10 * (unat index - 232)))
           (word_of_nat (8 + 10 * (unat index - 232))) (word_of_nat (8 + 10 * (unat index - 232)))
       \<and> 8 + 10 * (unat index - 232) \<le> 238"
proof -
  from assms have n: "231 < unat index" "unat index < 256"
    using unsigned_less [of index, where ?'a = nat] by (simp_all add: word_less_nat_alt)
  have eq: "8 + (index - 232) * 10 = word_of_nat (8 + 10 * (unat index - 232))"
    using n by (simp add: of_nat_diff algebra_simps)
  have "\<not> index \<le> 15" "\<not> index \<le> 231"
    using n by (simp_all add: word_le_nat_alt)
  then have "palette s index = (let level = 8 + (index - 232) * 10 in rgb_new level level level)"
    by (simp only: palette_def if_False)
  moreover have "8 + 10 * (unat index - 232) \<le> 238"
    using n by linarith
  ultimately show ?thesis
    by (simp only: Let_def eq)
qed

end
