(* ===== verification/Utf8.thy ===== *)
theory Utf8
  imports Cell
begin

text \<open>
  The strict incremental UTF-8 decoder of \<open>unicode.rs\<close> and \<open>std::str::from_utf8\<close>, with the proofs
  that both invert the encoding exactly: every scalar value round-trips through the decoder, and
  nothing but the encoding of a scalar value is accepted.
\<close>

section \<open>\<open>std::str::from_utf8\<close>\<close>

definition cont :: "u8 \<Rightarrow> bool" where
  "cont b \<longleftrightarrow> 0x80 \<le> b \<and> b \<le> 0xbf"

text \<open>The admissible second bytes after a given first byte (no overlong form, no surrogate,
  nothing above U+10FFFF).\<close>

definition valid_second :: "u8 \<Rightarrow> u8 \<Rightarrow> bool" where
  "valid_second b0 b =
     (if b0 = 0xe0 then 0xa0 \<le> b \<and> b \<le> 0xbf
      else if b0 = 0xed then 0x80 \<le> b \<and> b \<le> 0x9f
      else if b0 = 0xf0 then 0x90 \<le> b \<and> b \<le> 0xbf
      else if b0 = 0xf4 then 0x80 \<le> b \<and> b \<le> 0x8f
      else 0x80 \<le> b \<and> b \<le> 0xbf)"

definition scalar2 :: "u8 \<Rightarrow> u8 \<Rightarrow> scalar" where
  "scalar2 b0 b1 = (unat b0 - 0xc0) * 0x40 + (unat b1 - 0x80)"

definition scalar3 :: "u8 \<Rightarrow> u8 \<Rightarrow> u8 \<Rightarrow> scalar" where
  "scalar3 b0 b1 b2 = (unat b0 - 0xe0) * 0x1000 + (unat b1 - 0x80) * 0x40 + (unat b2 - 0x80)"

definition scalar4 :: "u8 \<Rightarrow> u8 \<Rightarrow> u8 \<Rightarrow> u8 \<Rightarrow> scalar" where
  "scalar4 b0 b1 b2 b3 =
     (unat b0 - 0xf0) * 0x40000 + (unat b1 - 0x80) * 0x1000 + (unat b2 - 0x80) * 0x40
     + (unat b3 - 0x80)"

text \<open>One scalar value off the front of a byte string.\<close>

definition decode_step :: "u8 list \<Rightarrow> (scalar \<times> nat) option" where
  "decode_step bs =
     (case bs of
        [] \<Rightarrow> None
      | b0 # r \<Rightarrow>
          if b0 < 0x80 then Some (unat b0, 1)
          else if 0xc2 \<le> b0 \<and> b0 \<le> 0xdf then
            (case r of b1 # _ \<Rightarrow> if cont b1 then Some (scalar2 b0 b1, 2) else None | _ \<Rightarrow> None)
          else if 0xe0 \<le> b0 \<and> b0 \<le> 0xef then
            (case r of b1 # b2 # _ \<Rightarrow>
               if valid_second b0 b1 \<and> cont b2 then Some (scalar3 b0 b1 b2, 3) else None
             | _ \<Rightarrow> None)
          else if 0xf0 \<le> b0 \<and> b0 \<le> 0xf4 then
            (case r of b1 # b2 # b3 # _ \<Rightarrow>
               if valid_second b0 b1 \<and> cont b2 \<and> cont b3 then Some (scalar4 b0 b1 b2 b3, 4)
               else None
             | _ \<Rightarrow> None)
          else None)"

lemma decode_step_consumes: "decode_step bs = Some (c, n) \<Longrightarrow> 0 < n \<and> n \<le> length bs"
  by (auto simp: decode_step_def split: list.splits if_splits)

function from_utf8 :: "u8 list \<Rightarrow> str option" where
  "from_utf8 bs =
     (if bs = [] then Some []
      else case decode_step bs of
             None \<Rightarrow> None
           | Some (c, n) \<Rightarrow> map_option ((#) c) (from_utf8 (drop n bs)))"
  by pat_completeness auto
termination
  by (relation "measure length") (auto dest: decode_step_consumes)

declare from_utf8.simps [simp del]

section \<open>The incremental decoder\<close>

datatype utf8_advance = Pending | Character scalar | Invalid

record utf8_decoder =
  u_bytes :: "u8 list"
  u_length :: nat
  u_expected :: nat

definition utf8_new :: utf8_decoder where
  "utf8_new = \<lparr>u_bytes = [0, 0, 0, 0], u_length = 0, u_expected = 0\<rparr>"

definition utf8_pending :: "utf8_decoder \<Rightarrow> bool" where
  "utf8_pending d \<longleftrightarrow> u_expected d \<noteq> 0"

definition utf8_start :: "utf8_decoder \<Rightarrow> u8 \<Rightarrow> (bool \<times> utf8_decoder) option" where
  "utf8_start d byte =
     (let begin_seq = (\<lambda>n. do {
            bytes \<leftarrow> wr (u_bytes d) 0 byte;
            Some (True, d\<lparr>u_expected := n, u_bytes := bytes, u_length := 1\<rparr>) })
      in if 0xc2 \<le> byte \<and> byte \<le> 0xdf then begin_seq 2
         else if 0xe0 \<le> byte \<and> byte \<le> 0xef then begin_seq 3
         else if 0xf0 \<le> byte \<and> byte \<le> 0xf4 then begin_seq 4
         else Some (False, d))"

definition utf8_reset :: "utf8_decoder \<Rightarrow> utf8_decoder" where
  "utf8_reset d = d\<lparr>u_length := 0, u_expected := 0\<rparr>"

definition utf8_advance :: "utf8_decoder \<Rightarrow> u8 \<Rightarrow> (utf8_advance \<times> utf8_decoder) option" where
  "utf8_advance d byte = do {
     b0 \<leftarrow> rd (u_bytes d) 0;
     if \<not> cont byte \<or> (u_length d = 1 \<and> \<not> valid_second b0 byte)
     then Some (Invalid, utf8_reset d)
     else do {
       bytes \<leftarrow> wr (u_bytes d) (u_length d) byte;
       let d = d\<lparr>u_bytes := bytes, u_length := u_length d + 1\<rparr>;
       if u_length d < u_expected d then Some (Pending, d)
       else do {
         text \<leftarrow> rd_range (u_bytes d) 0 (u_expected d);
         Some (case from_utf8 text of
                 Some (c # _) \<Rightarrow> (Character c, utf8_reset d)
               | _ \<Rightarrow> (Invalid, utf8_reset d)) } } }"

text \<open>\<open>validate_recovery_state\<close>: whether it returns \<open>Ok\<close> (the wording of the message is not
  modelled).\<close>

fun utf8_replay :: "utf8_decoder \<Rightarrow> u8 list \<Rightarrow> bool" where
  "utf8_replay d [] = True"
| "utf8_replay d (b # bs) =
     (case utf8_advance d b of Some (Pending, d') \<Rightarrow> utf8_replay d' bs | _ \<Rightarrow> False)"

definition utf8_valid :: "utf8_decoder \<Rightarrow> bool" where
  "utf8_valid d =
     (if length (u_bytes d) < u_expected d then False
      else if u_expected d = 0 then u_length d = 0
      else if u_length d = 0 \<or> u_expected d < u_length d then False
      else let b0 = u_bytes d ! 0 in
        (if u_expected d = 2 then 0xc2 \<le> b0 \<and> b0 \<le> 0xdf
         else if u_expected d = 3 then 0xe0 \<le> b0 \<and> b0 \<le> 0xef
         else if u_expected d = 4 then 0xf0 \<le> b0 \<and> b0 \<le> 0xf4
         else False) \<and>
        (case utf8_start utf8_new b0 of
           Some (True, d') \<Rightarrow>
             u_expected d' = u_expected d \<and>
             utf8_replay d' (slice 1 (u_length d - 1) (u_bytes d))
         | _ \<Rightarrow> False))"

section \<open>Bytes as numbers\<close>

lemma unat_u8_less [simp]: "unat (b :: u8) < 256"
  using unsigned_less [of b, where ?'a = nat] by simp

lemma unat_u8_of_nat [simp]: "n < 256 \<Longrightarrow> unat (u8_of_nat n) = n"
  by (simp add: u8_of_nat_def unat_of_nat take_bit_eq_mod)

lemma u8_of_nat_unat: "n = unat b \<Longrightarrow> u8_of_nat n = b"
  by (simp add: u8_of_nat_def)

lemma cont_iff: "cont b \<longleftrightarrow> 0x80 \<le> unat b \<and> unat b \<le> 0xbf"
  by (simp add: cont_def word_le_nat_alt)

lemmas u8_nat = word_le_nat_alt word_less_nat_alt cont_iff

section \<open>Decoding inverts encoding\<close>

lemma valid_second_nat:
  "valid_second b0 b =
     (if unat b0 = 0xe0 then 0xa0 \<le> unat b \<and> unat b \<le> 0xbf
      else if unat b0 = 0xed then 0x80 \<le> unat b \<and> unat b \<le> 0x9f
      else if unat b0 = 0xf0 then 0x90 \<le> unat b \<and> unat b \<le> 0xbf
      else if unat b0 = 0xf4 then 0x80 \<le> unat b \<and> unat b \<le> 0x8f
      else 0x80 \<le> unat b \<and> unat b \<le> 0xbf)"
  by (simp add: valid_second_def word_le_nat_alt word_unat_eq_iff)

lemma div_nest: "(c::nat) div 0x1000 = c div 0x40 div 0x40" "c div 0x40000 = c div 0x40 div 0x40 div 0x40"
  by (simp_all add: div_mult2_eq [symmetric])

lemma base64_digits:
  fixes y z :: nat
  assumes "y < 0x40"
  shows "(x * 0x40 + y) div 0x40 = x" "(x * 0x40 + y) mod 0x40 = y"
  using assms by simp_all

lemma decode_step_encode:
  assumes "is_scalar c"
  shows "decode_step (encode_utf8 c @ r) = Some (c, length (encode_utf8 c))"
proof -
  consider "c < 0x80" | "0x80 \<le> c" "c < 0x800" | "0x800 \<le> c" "c < 0x10000"
    | "0x10000 \<le> c" "c < 0x110000"
    using assms by (fastforce simp: is_scalar_def)
  then show ?thesis
  proof cases
    case 1
    then show ?thesis by (simp add: encode_utf8_def decode_step_def u8_nat)
  next
    case 2
    then have "c div 0x40 < 0x20" "2 \<le> c div 0x40" by auto
    then show ?thesis using 2
      by (simp add: encode_utf8_def decode_step_def u8_nat scalar2_def)
  next
    case 3
    define x y z where "x = c div 0x1000" and "y = c div 0x40 mod 0x40" and "z = c mod 0x40"
    have e: "c = 0x1000 * x + 0x40 * y + z"
      using div_mult_mod_eq [of c "0x40"] div_mult_mod_eq [of "c div 0x40" "0x40"]
      unfolding x_def y_def z_def div_nest by linarith
    have b: "y < 0x40" "z < 0x40" by (simp_all add: y_def z_def)
    then have "x < 0x10" "x = 0 \<Longrightarrow> 0x20 \<le> y" "x = 13 \<Longrightarrow> y < 0x20"
      using 3 assms e unfolding is_scalar_def by linarith+
    moreover have "encode_utf8 c = [u8_of_nat (0xe0 + x), u8_of_nat (0x80 + y), u8_of_nat (0x80 + z)]"
      using 3 by (simp add: encode_utf8_def x_def y_def z_def)
    ultimately show ?thesis using b e
      by (auto simp: decode_step_def u8_nat scalar3_def valid_second_nat)
  next
    case 4
    define x y z w where "x = c div 0x40000" and "y = c div 0x1000 mod 0x40"
      and "z = c div 0x40 mod 0x40" and "w = c mod 0x40"
    have e: "c = 0x40000 * x + 0x1000 * y + 0x40 * z + w"
      using div_mult_mod_eq [of c "0x40"] div_mult_mod_eq [of "c div 0x40" "0x40"]
        div_mult_mod_eq [of "c div 0x40 div 0x40" "0x40"]
      unfolding x_def y_def z_def w_def div_nest by linarith
    have b: "y < 0x40" "z < 0x40" "w < 0x40" by (simp_all add: y_def z_def w_def)
    then have "x < 5" "x = 0 \<Longrightarrow> 0x10 \<le> y" "x = 4 \<Longrightarrow> y < 0x10"
      using 4 e by linarith+
    moreover have "encode_utf8 c =
        [u8_of_nat (0xf0 + x), u8_of_nat (0x80 + y), u8_of_nat (0x80 + z), u8_of_nat (0x80 + w)]"
      using 4 by (simp add: encode_utf8_def x_def y_def z_def w_def)
    ultimately show ?thesis using b e
      by (auto simp: decode_step_def u8_nat scalar4_def valid_second_nat)
  qed
qed

lemma decode_step_sound:
  assumes "decode_step bs = Some (c, n)"
  shows "is_scalar c \<and> take n bs = encode_utf8 c"
proof -
  from assms obtain b0 r where bs: "bs = b0 # r" by (auto simp: decode_step_def split: list.splits)
  consider (1) "unat b0 < 0x80" "c = unat b0" "n = 1"
    | (2) b1 r' where "0xc2 \<le> unat b0" "unat b0 \<le> 0xdf" "cont b1" "r = b1 # r'" "c = scalar2 b0 b1" "n = 2"
    | (3) b1 b2 r' where "0xe0 \<le> unat b0" "unat b0 \<le> 0xef" "valid_second b0 b1" "cont b2"
        "r = b1 # b2 # r'" "c = scalar3 b0 b1 b2" "n = 3"
    | (4) b1 b2 b3 r' where "0xf0 \<le> unat b0" "unat b0 \<le> 0xf4" "valid_second b0 b1" "cont b2" "cont b3"
        "r = b1 # b2 # b3 # r'" "c = scalar4 b0 b1 b2 b3" "n = 4"
    using assms unfolding bs decode_step_def
    by (auto simp: word_le_nat_alt word_less_nat_alt split: list.splits if_splits)
  then show ?thesis
  proof cases
    case 1
    then show ?thesis by (simp add: bs is_scalar_def encode_utf8_def u8_of_nat_unat)
  next
    case 2
    define x y where "x = unat b0 - 0xc0" and "y = unat b1 - 0x80"
    with 2 have xy: "unat b0 = 0xc0 + x" "unat b1 = 0x80 + y" "2 \<le> x" "x < 0x20" "y < 0x40"
      by (auto simp: cont_iff)
    have c: "c = x * 0x40 + y" using 2 by (simp add: scalar2_def x_def y_def)
    have d: "c div 0x40 = x" "c mod 0x40 = y" unfolding c using xy by simp_all
    have r: "0x80 \<le> c" "c < 0x800" using xy c by linarith+
    have "b0 = u8_of_nat (0xc0 + x)" "b1 = u8_of_nat (0x80 + y)"
      using xy by (simp_all add: word_unat_eq_iff)
    then show ?thesis using 2(4,6) r
      by (simp add: bs is_scalar_def encode_utf8_def d)
  next
    case 3
    define x y z where "x = unat b0 - 0xe0" and "y = unat b1 - 0x80" and "z = unat b2 - 0x80"
    with 3 have xy: "unat b0 = 0xe0 + x" "unat b1 = 0x80 + y" "unat b2 = 0x80 + z"
      "x < 0x10" "y < 0x40" "z < 0x40" "x = 0 \<Longrightarrow> 0x20 \<le> y" "x = 13 \<Longrightarrow> y < 0x20"
      by (auto simp: cont_iff valid_second_nat split: if_splits)
    have c: "c = x * 0x1000 + y * 0x40 + z" using 3 by (simp add: scalar3_def x_def y_def z_def)
    have d: "c div 0x1000 = x" "c div 0x40 mod 0x40 = y" "c mod 0x40 = z"
      using base64_digits [of z "x * 0x40 + y"] base64_digits [of y x] xy(4-6)
      unfolding c div_nest by (simp_all add: algebra_simps)
    have r: "0x800 \<le> c" "c < 0x10000" "is_scalar c"
      using xy(4-8) c unfolding is_scalar_def by (cases "x = 0"; cases "x = 13"; linarith)+
    have "b0 = u8_of_nat (0xe0 + x)" "b1 = u8_of_nat (0x80 + y)" "b2 = u8_of_nat (0x80 + z)"
      using xy by (simp_all add: word_unat_eq_iff)
    then show ?thesis using 3(5,7) r
      by (simp add: bs encode_utf8_def d)
  next
    case 4
    define x y z w where "x = unat b0 - 0xf0" and "y = unat b1 - 0x80" and "z = unat b2 - 0x80"
      and "w = unat b3 - 0x80"
    with 4 have xy: "unat b0 = 0xf0 + x" "unat b1 = 0x80 + y" "unat b2 = 0x80 + z" "unat b3 = 0x80 + w"
      "x < 5" "y < 0x40" "z < 0x40" "w < 0x40" "x = 0 \<Longrightarrow> 0x10 \<le> y" "x = 4 \<Longrightarrow> y < 0x10"
      by (auto simp: cont_iff valid_second_nat split: if_splits)
    have c: "c = x * 0x40000 + y * 0x1000 + z * 0x40 + w"
      using 4 by (simp add: scalar4_def x_def y_def z_def w_def)
    have d: "c div 0x40000 = x" "c div 0x1000 mod 0x40 = y" "c div 0x40 mod 0x40 = z" "c mod 0x40 = w"
      using base64_digits [of w "(x * 0x40 + y) * 0x40 + z"] base64_digits [of z "x * 0x40 + y"]
        base64_digits [of y x] xy(5-8)
      unfolding c div_nest by (simp_all add: algebra_simps)
    have r: "0x10000 \<le> c" "c < 0x110000"
      using xy(5-10) c by (cases "x = 0"; cases "x = 4"; linarith)+
    have "b0 = u8_of_nat (0xf0 + x)" "b1 = u8_of_nat (0x80 + y)" "b2 = u8_of_nat (0x80 + z)"
      "b3 = u8_of_nat (0x80 + w)"
      using xy by (simp_all add: word_unat_eq_iff)
    then show ?thesis using 4(6,8) r
      by (simp add: bs is_scalar_def encode_utf8_def d)
  qed
qed

lemma encode_utf8_nonempty [simp]: "encode_utf8 c \<noteq> []"
  by (simp add: encode_utf8_def)

lemma from_utf8_Nil [simp]: "from_utf8 [] = Some []"
  by (simp add: from_utf8.simps)

lemma from_utf8_encode_append:
  "is_scalar c \<Longrightarrow> from_utf8 (encode_utf8 c @ bs) = map_option ((#) c) (from_utf8 bs)"
  by (subst from_utf8.simps) (simp add: decode_step_encode)

lemma from_utf8_str_bytes: "\<forall>c \<in> set s. is_scalar c \<Longrightarrow> from_utf8 (str_bytes s) = Some s"
  by (induction s) (simp_all add: str_bytes_def from_utf8_encode_append)

lemma from_utf8_sound: "from_utf8 bs = Some s \<Longrightarrow> str_bytes s = bs \<and> (\<forall>c \<in> set s. is_scalar c)"
proof (induction bs arbitrary: s rule: from_utf8.induct)
  case (1 bs)
  show ?case
  proof (cases "bs = []")
    case True
    with 1 show ?thesis by (simp add: str_bytes_def)
  next
    case False
    with "1.prems" obtain c n s' where
      d: "decode_step bs = Some (c, n)" and s': "from_utf8 (drop n bs) = Some s'" "s = c # s'"
      by (subst (asm) from_utf8.simps) (auto split: option.splits)
    from "1.IH" [OF False d refl s'(1)] have "str_bytes s' = drop n bs \<and> (\<forall>c \<in> set s'. is_scalar c)"
      by simp
    with decode_step_sound [OF d] s' show ?thesis
      by (auto simp: str_bytes_def) (metis append_take_drop_id)
  qed
qed

section \<open>The decoder's invariant\<close>

text \<open>The length a leading byte announces.\<close>

definition lead_len :: "u8 \<Rightarrow> nat" where
  "lead_len b = (if 0xc2 \<le> b \<and> b \<le> 0xdf then 2 else if 0xe0 \<le> b \<and> b \<le> 0xef then 3
                 else if 0xf0 \<le> b \<and> b \<le> 0xf4 then 4 else 0)"

text \<open>The bytes of a multi-byte sequence that has not gone wrong yet.\<close>

fun seq_prefix :: "u8 list \<Rightarrow> bool" where
  "seq_prefix [] = False"
| "seq_prefix [b0] = (lead_len b0 \<noteq> 0)"
| "seq_prefix (b0 # b1 # bs) =
     (lead_len b0 \<noteq> 0 \<and> valid_second b0 b1 \<and> (\<forall>b \<in> set bs. cont b) \<and> length bs + 2 \<le> lead_len b0)"

definition utf8_ok :: "utf8_decoder \<Rightarrow> bool" where
  "utf8_ok d \<longleftrightarrow> length (u_bytes d) = 4 \<and>
     (if u_expected d = 0 then u_length d = 0
      else 0 < u_length d \<and> u_length d < u_expected d \<and> u_expected d = lead_len (u_bytes d ! 0) \<and>
           seq_prefix (take (u_length d) (u_bytes d)))"

lemma lead_len_le: "lead_len b \<le> 4"
  by (simp add: lead_len_def)

lemma valid_second_cont: "valid_second b0 b1 \<Longrightarrow> cont b1"
  by (auto simp: valid_second_nat cont_iff split: if_splits)

lemma lead_len_cases:
  assumes "lead_len b \<noteq> 0"
  obtains (two) "lead_len b = 2" "0xc2 \<le> unat b" "unat b \<le> 0xdf"
    | (three) "lead_len b = 3" "0xe0 \<le> unat b" "unat b \<le> 0xef"
    | (four) "lead_len b = 4" "0xf0 \<le> unat b" "unat b \<le> 0xf4"
  using assms by (auto simp: lead_len_def word_le_nat_alt split: if_splits)

lemma seq_prefix_decode:
  assumes "seq_prefix (b0 # t)" and "Suc (length t) = lead_len b0"
  shows "\<exists>c. decode_step (b0 # t) = Some (c, Suc (length t))"
proof -
  have "lead_len b0 \<noteq> 0" using assms by simp
  then show ?thesis
  proof (cases rule: lead_len_cases)
    case two
    then obtain b1 where "t = [b1]" using assms(2) by (cases t) auto
    then show ?thesis using assms(1) two valid_second_cont
      by (simp add: decode_step_def word_le_nat_alt word_less_nat_alt)
  next
    case three
    then obtain b1 b2 where "t = [b1, b2]"
      using assms(2) by (auto simp: length_Suc_conv eval_nat_numeral)
    then show ?thesis using assms(1) three
      by (simp add: decode_step_def word_le_nat_alt word_less_nat_alt)
  next
    case four
    then obtain b1 b2 b3 where "t = [b1, b2, b3]"
      using assms(2) by (auto simp: length_Suc_conv eval_nat_numeral)
    then show ?thesis using assms(1) four
      by (simp add: decode_step_def word_le_nat_alt word_less_nat_alt)
  qed
qed

lemma valid_second_low: "b0 \<le> 0xdf \<Longrightarrow> cont b1 \<Longrightarrow> valid_second b0 b1"
  by (auto simp: valid_second_nat cont_iff word_le_nat_alt)

lemma decode_step_prefix:
  assumes "decode_step (b0 # t) = Some (c, n)" and "0x80 \<le> c"
  shows "n = lead_len b0 \<and> seq_prefix (take n (b0 # t))"
proof -
  have "\<not> b0 < 0x80"
    using assms by (auto simp: decode_step_def word_less_nat_alt)
  then show ?thesis using assms(1)
    by (auto simp: decode_step_def lead_len_def valid_second_low split: if_splits list.splits)
qed

lemma seq_prefix_take: "seq_prefix bs \<Longrightarrow> 0 < n \<Longrightarrow> seq_prefix (take n bs)"
proof (cases bs rule: seq_prefix.cases)
  case (3 b0 b1 r)
  assume "seq_prefix bs" "0 < n"
  then show ?thesis using 3
    by (cases n; cases "n - 1") (auto dest: in_set_takeD)
qed (auto simp: take_Cons')

lemma seq_prefix_encode:
  assumes "is_scalar c" and "0x80 \<le> c"
  shows "seq_prefix (encode_utf8 c) \<and> length (encode_utf8 c) = lead_len (encode_utf8 c ! 0)"
proof -
  obtain b0 t where e: "encode_utf8 c = b0 # t" by (cases "encode_utf8 c") simp_all
  have "decode_step (encode_utf8 c @ []) = Some (c, length (encode_utf8 c))"
    using assms(1) by (rule decode_step_encode)
  then have "decode_step (b0 # t) = Some (c, Suc (length t))"
    by (simp add: e)
  from decode_step_prefix [OF this assms(2)] show ?thesis by (simp add: e)
qed

lemma seq_prefix_snoc:
  assumes "seq_prefix bs"
  shows "seq_prefix (bs @ [b]) \<longleftrightarrow>
    length bs < lead_len (bs ! 0) \<and> cont b \<and> (length bs = 1 \<longrightarrow> valid_second (bs ! 0) b)"
  using assms
  by (cases bs rule: seq_prefix.cases) (auto simp: valid_second_cont lead_len_def split: if_splits)

lemma utf8_start_ok:
  assumes "utf8_ok d"
  shows "ok (\<lambda>(started, d').
           if started then lead_len b \<noteq> 0 \<and> utf8_ok d' \<and> utf8_pending d'
              \<and> take (u_length d') (u_bytes d') = [b]
           else lead_len b = 0 \<and> d' = d) (utf8_start d b)"
proof -
  obtain x y z w where d: "u_bytes d = [x, y, z, w]"
    using assms by (auto simp: utf8_ok_def length_Suc_conv numeral_eq_Suc)
  show ?thesis
    by (auto simp: utf8_start_def utf8_ok_def utf8_pending_def lead_len_def wr_def d Let_def)
qed

lemma utf8_reset_ok [simp]:
  "length (u_bytes d) = 4 \<Longrightarrow> utf8_ok (utf8_reset d)" "\<not> utf8_pending (utf8_reset d)"
  by (simp_all add: utf8_reset_def utf8_ok_def utf8_pending_def)

lemma utf8_pendingD:
  assumes "utf8_ok d" "utf8_pending d"
  shows "length (u_bytes d) = 4" "0 < u_length d" "u_length d < u_expected d"
    "u_expected d = lead_len (u_bytes d ! 0)" "u_expected d \<le> 4"
    "seq_prefix (take (u_length d) (u_bytes d))"
  using assms lead_len_le by (auto simp: utf8_ok_def utf8_pending_def)

lemma take_Suc_update: "n < length xs \<Longrightarrow> take (Suc n) (xs[n := x]) = take n xs @ [x]"
  by (simp add: take_Suc_conv_app_nth)

lemma utf8_advance_spec:
  fixes b :: u8
  assumes d: "utf8_ok d" "utf8_pending d"
  defines "seen \<equiv> take (u_length d) (u_bytes d) @ [b]"
  shows "ok (\<lambda>(r, d'). utf8_ok d' \<and>
           (case r of
              Pending \<Rightarrow> utf8_pending d' \<and> take (u_length d') (u_bytes d') = seen
            | Character c \<Rightarrow> \<not> utf8_pending d' \<and> is_scalar c \<and> encode_utf8 c = seen
            | Invalid \<Rightarrow> \<not> utf8_pending d' \<and> \<not> seq_prefix seen)) (utf8_advance d b)"
proof -
  note D = utf8_pendingD [OF d]
  let ?n = "u_length d" and ?bs = "(u_bytes d)[u_length d := b]"
  have n4: "?n < length (u_bytes d)" using D by simp
  have seen: "take (Suc ?n) ?bs = seen" by (simp add: seen_def take_Suc_update n4)
  have hd: "take ?n (u_bytes d) ! 0 = u_bytes d ! 0" "?bs ! 0 = u_bytes d ! 0"
    using D by simp_all
  have len: "length (take ?n (u_bytes d)) = ?n" using n4 by simp
  have pre: "seq_prefix seen \<longleftrightarrow> cont b \<and> (?n = 1 \<longrightarrow> valid_second (u_bytes d ! 0) b)"
    unfolding seen_def using seq_prefix_snoc [OF D(6)] D(3,4) len hd by auto
  show ?thesis
  proof (cases "seq_prefix seen")
    case False
    then show ?thesis using D(1) pre
      by (simp add: utf8_advance_def rd_def)
  next
    case good: True
    show ?thesis
    proof (cases "Suc ?n < u_expected d")
      case True
      then show ?thesis using D n4 good pre seen hd
        by (simp add: utf8_advance_def rd_def wr_def utf8_ok_def utf8_pending_def Let_def)
    next
      case False
      then have exp: "u_expected d = Suc ?n" using D(3) by simp
      obtain t where t: "seen = (u_bytes d ! 0) # t"
        using D(2) n4 unfolding seen_def by (cases "u_bytes d"; cases "u_length d") auto
      have "Suc (length t) = lead_len (u_bytes d ! 0)"
        using t exp D(4) len by (metis length_Cons length_append_singleton seen_def)
      with good t obtain c where c: "decode_step seen = Some (c, length seen)"
        using seq_prefix_decode by force
      then have "from_utf8 seen = Some [c]" by (subst from_utf8.simps) (simp add: t)
      moreover have "is_scalar c" "encode_utf8 c = seen"
        using decode_step_sound [OF c] by simp_all
      moreover have "rd_range ?bs 0 (Suc ?n) = Some seen"
        using n4 seen by (simp add: rd_range_def slice_def)
      ultimately show ?thesis using D n4 good pre exp
        by (simp add: utf8_advance_def rd_def wr_def Let_def)
    qed
  qed
qed

section \<open>Round trip and recovery\<close>

text \<open>The decoder over a run of continuation bytes.\<close>

fun utf8_feed :: "utf8_decoder \<Rightarrow> u8 list \<Rightarrow> (utf8_advance \<times> utf8_decoder) option" where
  "utf8_feed d [] = Some (Pending, d)"
| "utf8_feed d (b # bs) =
     (case utf8_advance d b of
        Some (Pending, d') \<Rightarrow> utf8_feed d' bs
      | Some (r, d') \<Rightarrow> (if bs = [] then Some (r, d') else None)
      | None \<Rightarrow> None)"

lemma utf8_feed_prefix:
  assumes "utf8_ok d" "utf8_pending d" "is_scalar c"
    and "encode_utf8 c = take (u_length d) (u_bytes d) @ bs" and "bs \<noteq> []" and "0x80 \<le> c"
  shows "ok (\<lambda>(r, d'). r = Character c \<and> utf8_ok d' \<and> \<not> utf8_pending d') (utf8_feed d bs)"
  using assms
proof (induction bs arbitrary: d)
  case Nil
  then show ?case by simp
next
  case (Cons b bs)
  let ?seen = "take (u_length d) (u_bytes d) @ [b]"
  have enc: "encode_utf8 c = ?seen @ bs" using Cons.prems(4) by simp
  have "seq_prefix (encode_utf8 c)" "length (encode_utf8 c) = lead_len (encode_utf8 c ! 0)"
    using seq_prefix_encode Cons.prems by blast+
  then have pre: "seq_prefix ?seen"
    using seq_prefix_take [of "encode_utf8 c" "length ?seen"] enc
    by (metis append_eq_conv_conj length_greater_0_conv snoc_eq_iff_butlast)
  from utf8_advance_spec [OF Cons.prems(1,2), of b] obtain r d' where
    r: "utf8_advance d b = Some (r, d')" and d': "utf8_ok d'"
    and case_r: "case r of Pending \<Rightarrow> utf8_pending d' \<and> take (u_length d') (u_bytes d') = ?seen
      | Character c \<Rightarrow> \<not> utf8_pending d' \<and> is_scalar c \<and> encode_utf8 c = ?seen
      | Invalid \<Rightarrow> \<not> utf8_pending d' \<and> \<not> seq_prefix ?seen"
    by (auto simp: ok_iff)
  show ?case
  proof (cases r)
    case Pending
    then have pend: "utf8_pending d'" and tk: "take (u_length d') (u_bytes d') = ?seen"
      using case_r by simp_all
    have "bs \<noteq> []"
    proof
      assume "bs = []"
      then have "length ?seen = lead_len (?seen ! 0)"
        using enc \<open>length (encode_utf8 c) = _\<close> by simp
      moreover have "length ?seen < u_expected d'"
        unfolding tk [symmetric] using utf8_pendingD [OF d' pend] by simp
      moreover have "u_expected d' = lead_len (u_bytes d' ! 0)"
        using utf8_pendingD [OF d' pend] by simp
      moreover have "?seen ! 0 = u_bytes d' ! 0"
        using tk utf8_pendingD [OF d' pend] by (metis nth_take)
      ultimately show False by simp
    qed
    then show ?thesis
      using Cons.IH [OF d' pend Cons.prems(3) _ _ Cons.prems(6)] enc tk r Pending by simp
  next
    case (Character c')
    then have "encode_utf8 c' = ?seen" "is_scalar c'" using case_r by simp_all
    then have "decode_step (encode_utf8 c' @ bs) = Some (c', length ?seen)"
      using decode_step_encode by metis
    moreover have "decode_step (encode_utf8 c @ []) = Some (c, length (encode_utf8 c))"
      using decode_step_encode Cons.prems by blast
    ultimately have "c' = c \<and> length ?seen = length (encode_utf8 c)"
      using enc \<open>encode_utf8 c' = ?seen\<close> by simp
    then show ?thesis using r Character d' case_r enc by simp
  next
    case Invalid
    then show ?thesis using case_r pre by simp
  qed
qed

lemma utf8_roundtrip:
  assumes "utf8_ok d" "is_scalar c" "0x80 \<le> c"
  shows "ok (\<lambda>(started, d1). started \<and>
           ok (\<lambda>(r, d2). r = Character c \<and> utf8_ok d2 \<and> \<not> utf8_pending d2)
             (utf8_feed d1 (tl (encode_utf8 c))))
         (utf8_start d (hd (encode_utf8 c)))"
proof -
  obtain b0 t where e: "encode_utf8 c = b0 # t" by (cases "encode_utf8 c") simp_all
  have sp: "seq_prefix (b0 # t)" "Suc (length t) = lead_len b0"
    using seq_prefix_encode [OF assms(2,3)] by (simp_all add: e)
  then have t: "t \<noteq> []" by (auto simp: lead_len_def split: if_splits)
  show ?thesis
    by (rule ok_mono [OF utf8_start_ok [OF assms(1)]])
      (use sp(2) in \<open>auto simp: e split: if_splits intro!: utf8_feed_prefix [OF _ _ assms(2) _ t assms(3)]\<close>)
qed

lemma utf8_replay_ok:
  assumes "utf8_ok d" "utf8_pending d" "seq_prefix (take (u_length d) (u_bytes d) @ bs)"
    "u_length d + length bs < u_expected d"
  shows "utf8_replay d bs"
  using assms
proof (induction bs arbitrary: d)
  case (Cons b bs)
  note D = utf8_pendingD [OF Cons.prems(1,2)]
  let ?seen = "take (u_length d) (u_bytes d) @ [b]"
  have pre: "seq_prefix ?seen"
    using seq_prefix_take [OF Cons.prems(3), of "length ?seen"] D by simp
  have len: "length ?seen = Suc (u_length d)" using D by simp
  have hd: "?seen ! 0 = u_bytes d ! 0" using D by (cases "u_bytes d"; cases "u_length d") auto
  from utf8_advance_spec [OF Cons.prems(1,2), of b] obtain r d' where
    r: "utf8_advance d b = Some (r, d')" and d': "utf8_ok d'"
    and case_r: "case r of Pending \<Rightarrow> utf8_pending d' \<and> take (u_length d') (u_bytes d') = ?seen
      | Character c \<Rightarrow> \<not> utf8_pending d' \<and> is_scalar c \<and> encode_utf8 c = ?seen
      | Invalid \<Rightarrow> \<not> utf8_pending d' \<and> \<not> seq_prefix ?seen"
    by (auto simp: ok_iff)
  have not_char: "r \<noteq> Character c" for c
  proof
    assume "r = Character c"
    then have c: "is_scalar c" "encode_utf8 c = ?seen" using case_r by simp_all
    have "\<not> c < 0x80" using c(2) len D(2) by (auto simp: encode_utf8_def)
    then have "length ?seen = lead_len (?seen ! 0)"
      using seq_prefix_encode [OF c(1)] unfolding c(2) by simp
    then show False using len hd D(4) Cons.prems(4) by simp
  qed
  then have P: "r = Pending" using case_r pre by (cases r) auto
  then have d'': "utf8_pending d'" "take (u_length d') (u_bytes d') = ?seen" using case_r by simp_all
  note D' = utf8_pendingD [OF d' d''(1)]
  have "u_length d' = Suc (u_length d)"
    using d''(2) len D' by (metis length_take less_imp_le less_le_trans min.absorb2)
  moreover have "u_bytes d' ! 0 = u_bytes d ! 0" using d''(2) hd D' by (metis nth_take)
  ultimately have "utf8_replay d' bs"
    using Cons.IH [OF d' d''(1)] Cons.prems(3,4) d''(2) D' D by simp
  then show ?case using r P by simp
qed simp

lemma utf8_ok_valid:
  assumes "utf8_ok d"
  shows "utf8_valid d"
proof (cases "utf8_pending d")
  case False
  then show ?thesis using assms by (auto simp: utf8_ok_def utf8_valid_def utf8_pending_def)
next
  case True
  note D = utf8_pendingD [OF assms True]
  let ?b0 = "u_bytes d ! 0"
  have new: "utf8_ok utf8_new" by (simp add: utf8_ok_def utf8_new_def)
  have lead: "lead_len ?b0 \<noteq> 0" using D by simp
  from utf8_start_ok [OF new, of ?b0] lead obtain d1 where
    d1: "utf8_start utf8_new ?b0 = Some (True, d1)" "utf8_ok d1" "utf8_pending d1"
      "take (u_length d1) (u_bytes d1) = [?b0]"
    by (auto simp: ok_iff split: if_splits)
  note D1 = utf8_pendingD [OF d1(2,3)]
  have l1: "u_length d1 = 1" and b1: "u_bytes d1 ! 0 = ?b0"
    using arg_cong [OF d1(4), of length] arg_cong [OF d1(4), of "\<lambda>xs. xs ! 0"] D1 by simp_all
  have sp: "seq_prefix (?b0 # slice 1 (u_length d - 1) (u_bytes d))"
    using D by (cases "u_bytes d"; cases "u_length d") (auto simp: slice_def)
  have "utf8_replay d1 (slice 1 (u_length d - 1) (u_bytes d))"
    by (rule utf8_replay_ok [OF d1(2,3)]) (use sp d1(4) l1 b1 D D1 in \<open>auto simp: slice_def\<close>)
  moreover have "u_expected d1 = u_expected d" using D1 D b1 by simp
  ultimately show ?thesis using D d1(1) lead
    by (cases rule: lead_len_cases [OF lead]) (auto simp: utf8_valid_def Let_def word_le_nat_alt)
qed

end
