(* ===== verification/Hyperlink.thy ===== *)
theory Hyperlink
  imports Utf8
begin

text \<open>
  Hyperlink targets: \<open>normalize_external_web_url\<close> of \<open>lib.rs\<close> and the file-URI policy of
  \<open>hyperlink.rs\<close>.  \<open>url::Url::parse\<close> is the argument \<open>url_parse\<close> of the environment.  The
  lemmas show that a path handed out is absolute, free of control and bidirectional formatting
  characters, and has no \<open>.\<close>, \<open>..\<close> or device segment, whatever the URL parser does.
\<close>

section \<open>String helpers of the standard library\<close>

definition lit :: "string \<Rightarrow> str" where
  "lit s = map of_char s"

definition is_ascii :: "str \<Rightarrow> bool" where
  "is_ascii s \<longleftrightarrow> (\<forall>c \<in> set s. c < 0x80)"

definition is_ascii_whitespace :: "scalar \<Rightarrow> bool" where
  "is_ascii_whitespace c \<longleftrightarrow> c = 0x20 \<or> c = 0x09 \<or> c = 0x0a \<or> c = 0x0c \<or> c = 0x0d"

definition is_ascii_control :: "scalar \<Rightarrow> bool" where
  "is_ascii_control c \<longleftrightarrow> c < 0x20 \<or> c = 0x7f"

definition is_ascii_alphabetic :: "scalar \<Rightarrow> bool" where
  "is_ascii_alphabetic c \<longleftrightarrow> 0x41 \<le> c \<and> c \<le> 0x5a \<or> 0x61 \<le> c \<and> c \<le> 0x7a"

definition is_ascii_digit :: "scalar \<Rightarrow> bool" where
  "is_ascii_digit c \<longleftrightarrow> 0x30 \<le> c \<and> c \<le> 0x39"

definition to_ascii_uppercase :: "scalar \<Rightarrow> scalar" where
  "to_ascii_uppercase c = (if 0x61 \<le> c \<and> c \<le> 0x7a then c - 0x20 else c)"

definition eq_ignore_ascii_case :: "str \<Rightarrow> str \<Rightarrow> bool" where
  "eq_ignore_ascii_case s t \<longleftrightarrow> map to_ascii_uppercase s = map to_ascii_uppercase t"

text \<open>\<open>split_once\<close> and \<open>split\<close> on one separator.\<close>

fun split_once :: "'a \<Rightarrow> 'a list \<Rightarrow> ('a list \<times> 'a list) option" where
  "split_once d [] = None"
| "split_once d (x # xs) =
     (if x = d then Some ([], xs)
      else map_option (\<lambda>(a, b). (x # a, b)) (split_once d xs))"

fun split_on :: "'a \<Rightarrow> 'a list \<Rightarrow> 'a list list" where
  "split_on d [] = [[]]"
| "split_on d (x # xs) =
     (if x = d then [] # split_on d xs
      else case split_on d xs of [] \<Rightarrow> [[x]] | y # ys \<Rightarrow> (x # y) # ys)"

definition ends_with_char :: "str \<Rightarrow> scalar \<Rightarrow> bool" where
  "ends_with_char s c \<longleftrightarrow> s \<noteq> [] \<and> last s = c"

definition trim_end_char :: "scalar \<Rightarrow> str \<Rightarrow> str" where
  "trim_end_char c s = rev (dropWhile (\<lambda>x. x = c) (rev s))"

definition strip_prefix :: "'a list \<Rightarrow> 'a list \<Rightarrow> 'a list option" where
  "strip_prefix p s = (if take (length p) s = p then Some (drop (length p) s) else None)"

section \<open>External web targets\<close>

definition normalize_external_web_url :: "env \<Rightarrow> str \<Rightarrow> str option" where
  "normalize_external_web_url e target =
     (if 2048 < str_len target \<or> \<not> is_ascii target \<or> (\<exists>c \<in> set target. is_ascii_whitespace c)
      then None
      else case url_parse e target of
             None \<Rightarrow> None
           | Some parsed \<Rightarrow>
               if (wu_scheme parsed = lit ''http'' \<or> wu_scheme parsed = lit ''https'')
                  \<and> wu_host parsed \<noteq> None \<and> wu_username parsed = [] \<and> wu_password parsed = None
               then Some (wu_string parsed) else None)"

section \<open>File URIs\<close>

definition hex_value :: "u8 \<Rightarrow> nat option" where
  "hex_value b = (let n = unat b in
     if 0x30 \<le> n \<and> n \<le> 0x39 then Some (n - 0x30)
     else if 0x41 \<le> n \<and> n \<le> 0x46 then Some (n - 0x41 + 10)
     else if 0x61 \<le> n \<and> n \<le> 0x66 then Some (n - 0x61 + 10)
     else None)"

fun percent_decode :: "u8 list \<Rightarrow> u8 list option" where
  "percent_decode [] = Some []"
| "percent_decode (b # bs) =
     (if b = 0x25 then
        (case bs of
           h # l # r \<Rightarrow> do {
             high \<leftarrow> hex_value h;
             low \<leftarrow> hex_value l;
             rest \<leftarrow> percent_decode r;
             Some (u8_of_nat (high * 16 + low) # rest) }
         | _ \<Rightarrow> None)
      else map_option ((#) b) (percent_decode bs))"

definition decode_path :: "str \<Rightarrow> str option" where
  "decode_path path = percent_decode (str_bytes path) \<bind> from_utf8"

definition bidi_control :: "scalar \<Rightarrow> bool" where
  "bidi_control c \<longleftrightarrow> c = 0x061c \<or> c = 0x200e \<or> c = 0x200f \<or> 0x202a \<le> c \<and> c \<le> 0x202e
     \<or> 0x2066 \<le> c \<and> c \<le> 0x2069"

definition drive_part :: "str \<Rightarrow> bool" where
  "drive_part part \<longleftrightarrow> str_len part = 2
     \<and> (case str_bytes part of b # _ \<Rightarrow> is_ascii_alphabetic (unat b) | [] \<Rightarrow> False)
     \<and> ends_with_char part 0x3a"

definition part_stem :: "str \<Rightarrow> str" where
  "part_stem part = map to_ascii_uppercase (trim_end_char 0x20 (hd (split_on 0x2e part)))"

definition device_suffixes :: "str list" where
  "device_suffixes = map lit [''1'', ''2'', ''3'', ''4'', ''5'', ''6'', ''7'', ''8'', ''9'']
     @ [[0xb9], [0xb2], [0xb3]]"

definition device_stem :: "str \<Rightarrow> bool" where
  "device_stem stem \<longleftrightarrow>
     stem \<in> set (map lit [''CON'', ''PRN'', ''AUX'', ''NUL'', ''CONIN$'', ''CONOUT$''])
     \<or> (\<exists>prefix \<in> set (map lit [''COM'', ''LPT'']).
          case strip_prefix prefix stem of Some suffix \<Rightarrow> suffix \<in> set device_suffixes | None \<Rightarrow> False)"

definition safe_part :: "nat \<Rightarrow> str \<Rightarrow> bool" where
  "safe_part index part \<longleftrightarrow>
     index = 0 \<and> drive_part part \<or>
     (\<forall>c \<in> set part. c \<notin> set [0x3a, 0x2a, 0x3f, 0x22, 0x3c, 0x3e, 0x7c])
     \<and> \<not> (ends_with_char part 0x20 \<or> ends_with_char part 0x2e)
     \<and> \<not> device_stem (part_stem part)"

definition safe_file_path :: "str \<Rightarrow> bool" where
  "safe_file_path path \<longleftrightarrow>
     take 1 path = lit ''/''
     \<and> take 2 path \<noteq> lit ''//''
     \<and> 0x5c \<notin> set path
     \<and> (\<forall>c \<in> set path. \<not> (is_control c \<or> bidi_control c))
     \<and> (\<forall>(index, part) \<in> set (enumerate 0 (drop 1 (split_on 0x2f path))). safe_part index part)"

definition file_uri :: "env \<Rightarrow> str \<Rightarrow> bool \<Rightarrow> web_url option" where
  "file_uri e target local_only =
     (if 2048 < str_len target \<or> \<not> is_ascii target
         \<or> (\<exists>c \<in> set target. is_ascii_whitespace c \<or> is_ascii_control c)
         \<or> length target < 7
         \<or> \<not> eq_ignore_ascii_case (take 7 target) (lit ''file://'')
         \<or> (\<exists>c \<in> set target. c = 0x5c \<or> c = 0x3f \<or> c = 0x23)
      then None
      else do {
        (authority, path) \<leftarrow> split_once 0x2f (drop 7 target);
        if (local_only \<and> authority \<noteq> [] \<and> \<not> eq_ignore_ascii_case authority (lit ''localhost''))
           \<or> (\<exists>c \<in> set authority.
                \<not> (is_ascii_alphabetic c \<or> is_ascii_digit c \<or> c = 0x2d \<or> c = 0x2e))
           \<or> path = [] \<or> take 1 path = lit ''/''
        then None
        else do {
          decoded \<leftarrow> decode_path (lit ''/'' @ path);
          if \<not> safe_file_path decoded then None
          else do {
            uri \<leftarrow> url_parse e target;
            if authority \<noteq> [] \<and> \<not> eq_ignore_ascii_case authority (lit ''localhost'')
               \<and> \<not> (case wu_host uri of Some host \<Rightarrow> eq_ignore_ascii_case host authority
                                      | None \<Rightarrow> False)
            then None
            else do {
              final \<leftarrow> decode_path (wu_path uri);
              if safe_file_path final then Some uri else None } } } })"

definition normalize_terminal_hyperlink :: "env \<Rightarrow> str \<Rightarrow> str option" where
  "normalize_terminal_hyperlink e target =
     (case normalize_external_web_url e target of
        Some u \<Rightarrow> Some u
      | None \<Rightarrow> map_option wu_string (file_uri e target False))"

definition local_file_hyperlink_path :: "env \<Rightarrow> str \<Rightarrow> str option" where
  "local_file_hyperlink_path e target = file_uri e target True \<bind> (\<lambda>uri. decode_path (wu_path uri))"

section \<open>What a local path satisfies\<close>

lemma split_on_nonempty [simp]: "split_on d xs \<noteq> []"
  by (induction xs) (auto split: list.splits)

lemma split_on_no_sep: "part \<in> set (split_on d xs) \<Longrightarrow> d \<notin> set part"
  by (induction xs arbitrary: part) (auto split: list.splits if_splits)

lemma safe_part_not_dots:
  assumes "safe_part i part"
  shows "part \<noteq> lit ''.'' \<and> part \<noteq> lit ''..''"
proof -
  have "\<not> drive_part (lit ''.'')" "\<not> drive_part (lit ''..'')"
    "ends_with_char (lit ''.'') 0x2e" "ends_with_char (lit ''..'') 0x2e"
    by (simp_all add: drive_part_def lit_def str_len_def len_utf8_def ends_with_char_def)
  then show ?thesis using assms by (auto simp: safe_part_def)
qed

lemma local_file_hyperlink_path_safe:
  "local_file_hyperlink_path e target = Some p \<Longrightarrow> safe_file_path p"
  by (auto simp: local_file_hyperlink_path_def file_uri_def split: bind_splits if_splits)

lemma safe_file_path_segments:
  assumes "safe_file_path p" "part \<in> set (drop 1 (split_on 0x2f p))"
  shows "part \<noteq> lit ''.'' \<and> part \<noteq> lit ''..''"
proof -
  obtain i where "(i, part) \<in> set (enumerate 0 (drop 1 (split_on 0x2f p)))"
    using assms(2) by (metis in_set_conv_nth in_set_enumerate_eq add_0 fst_conv snd_conv le0 length_enumerate nth_enumerate_eq nth_mem)
  then have "safe_part i part" using assms(1) by (fastforce simp: safe_file_path_def)
  then show ?thesis by (rule safe_part_not_dots)
qed

end
