(* ===== verification/Sample.thy ===== *)
theory Sample
  imports Hyperlink
begin

text \<open>
  A concrete environment for the witnesses: the characters U+1100 to U+115F are two columns wide and
  the combining marks U+0300 to U+036F none, strings live inline up to 24 bytes, vectors grow to the
  size asked for, every allocation succeeds, and one file URL parses.
\<close>

definition sample_width :: "scalar \<Rightarrow> nat option" where
  "sample_width c = (if c < 0x20 then None else if 0x1100 \<le> c \<and> c < 0x1160 then Some 2
     else if 0x300 \<le> c \<and> c < 0x370 then Some 0 else Some 1)"

definition sample_file_url :: web_url where
  "sample_file_url = \<lparr>wu_scheme = lit ''file'', wu_host = None, wu_username = [], wu_password = None,
     wu_path = lit ''/a'', wu_string = lit ''file:///a''\<rparr>"

definition sample_env :: env where
  "sample_env =
     \<lparr>char_width = sample_width,
      str_width = (\<lambda>s. sum_list (map (\<lambda>c. case sample_width c of None \<Rightarrow> 0 | Some w \<Rightarrow> w) s)),
      graphemes = (\<lambda>s. length (filter (\<lambda>c. sample_width c \<noteq> Some 0) s)),
      const_cap = (\<lambda>s. max 24 (str_len s)),
      edit_cap = (\<lambda>ss. foldr (\<lambda>s n. max (str_len s) n) ss 24),
      vec_grow = max, vec_shrink = (\<lambda>c n. n),
      size_cell = 64, size_line = 64, size_usize = 8, alloc = (\<lambda>n. True),
      url_parse = (\<lambda>s. if s = lit ''file:///a'' then Some sample_file_url else None)\<rparr>"

end
