(* ===== verification/Text_Props.thy ===== *)
theory Text_Props
  imports Sample
begin

text \<open>The correctness statements about text: the incremental UTF-8 decoder and hyperlink targets.\<close>

text \<open>
  C23. Whatever state the decoder is in, feeding it the UTF-8 encoding of a non-ASCII scalar value byte by
  byte (\<open>start\<close> on the first byte, \<open>advance\<close> on the rest) never panics, reports \<open>Pending\<close> until the last
  byte and then exactly that character, and leaves the decoder idle.
\<close>

theorem utf8_decoder_roundtrip:
  assumes "utf8_ok d" "is_scalar c" "0x80 \<le> c"
  shows "\<exists>d1 d2. utf8_start d (hd (encode_utf8 c)) = Some (True, d1) \<and>
    utf8_feed d1 (tl (encode_utf8 c)) = Some (Character c, d2) \<and> utf8_ok d2 \<and> \<not> utf8_pending d2"
  using utf8_roundtrip [OF assms] by (fastforce simp: ok_iff)

theorem utf8_decoder_roundtrip_witness:
  "\<exists>d1 d2. utf8_start utf8_new (hd (encode_utf8 0x20ac)) = Some (True, d1) \<and>
    utf8_feed d1 (tl (encode_utf8 0x20ac)) = Some (Character 0x20ac, d2) \<and> utf8_ok d2 \<and> \<not> utf8_pending d2"
  by (rule utf8_decoder_roundtrip) (simp_all add: utf8_ok_def utf8_new_def is_scalar_def)

text \<open>
  C24. One \<open>advance\<close> of a pending decoder never panics and never accepts an ill-formed sequence: a reported
  character is a scalar value whose encoding is exactly the bytes seen; \<open>Pending\<close> keeps all bytes seen;
  \<open>Invalid\<close> is reported only when the bytes seen are not a prefix of a well-formed sequence.  The state
  after it is one that recovery accepts.
\<close>

theorem utf8_advance_exact:
  assumes "utf8_ok d" "utf8_pending d"
  shows "\<exists>r d'. utf8_advance d b = Some (r, d') \<and> utf8_ok d' \<and> utf8_valid d' \<and>
    (let seen = take (u_length d) (u_bytes d) @ [b]
     in case r of
          Pending \<Rightarrow> utf8_pending d' \<and> take (u_length d') (u_bytes d') = seen
        | Character c \<Rightarrow> \<not> utf8_pending d' \<and> is_scalar c \<and> encode_utf8 c = seen
        | Invalid \<Rightarrow> \<not> utf8_pending d' \<and> \<not> seq_prefix seen)"
  using utf8_advance_spec [OF assms, of b] utf8_ok_valid by (fastforce simp: ok_iff Let_def)

theorem utf8_advance_exact_witness:
  "\<exists>r d'. utf8_advance \<lparr>u_bytes = [0xe2, 0, 0, 0], u_length = 1, u_expected = 3\<rparr> 0x41 = Some (r, d') \<and>
    utf8_ok d' \<and> utf8_valid d' \<and>
    (let seen = take 1 [0xe2, 0, 0, 0] @ [0x41]
     in case r of
          Pending \<Rightarrow> utf8_pending d' \<and> take (u_length d') (u_bytes d') = seen
        | Character c \<Rightarrow> \<not> utf8_pending d' \<and> is_scalar c \<and> encode_utf8 c = seen
        | Invalid \<Rightarrow> \<not> utf8_pending d' \<and> \<not> seq_prefix seen)"
  using utf8_advance_exact [where d = "\<lparr>u_bytes = [0xe2, 0, 0, 0], u_length = 1, u_expected = 3\<rparr>" and b = "0x41"]
  by (simp add: utf8_ok_def utf8_pending_def lead_len_def)

text \<open>
  A local path taken out of a terminal hyperlink is absolute, is not a network path, has no backslash,
  no control or bidirectional-control character, and no \<open>.\<close> or \<open>..\<close> segment: percent-encoding cannot
  smuggle any of them past the check, because the check is repeated on the decoded path.
\<close>

theorem hyperlink_path_confined:
  assumes "local_file_hyperlink_path e target = Some p"
  shows "take 1 p = lit ''/'' \<and> take 2 p \<noteq> lit ''//'' \<and> 0x5c \<notin> set p \<and>
    (\<forall>c \<in> set p. \<not> is_control c \<and> \<not> bidi_control c) \<and>
    (\<forall>part \<in> set (drop 1 (split_on 0x2f p)). part \<noteq> lit ''.'' \<and> part \<noteq> lit ''..'')"
  using local_file_hyperlink_path_safe [OF assms] safe_file_path_segments [of p]
  by (auto simp: safe_file_path_def)

theorem hyperlink_path_confined_witness:
  "local_file_hyperlink_path sample_env (lit ''file:///a'') = Some (lit ''/a'') \<and>
   take 1 (lit ''/a'') = lit ''/'' \<and> take 2 (lit ''/a'') \<noteq> lit ''//'' \<and> 0x5c \<notin> set (lit ''/a'')"
proof -
  have h: "local_file_hyperlink_path sample_env (lit ''file:///a'') = Some (lit ''/a'')"
  proof -
    have "decode_path (lit ''/a'') = Some (lit ''/a'')"
      by (simp add: decode_path_def str_bytes_def encode_utf8_def u8_of_nat_def lit_def decode_step_def from_utf8.simps)
    moreover have "safe_file_path (lit ''/a'')" by (simp add: safe_file_path_def safe_part_def drive_part_def lit_def is_control_def bidi_control_def
        ends_with_char_def device_stem_def part_stem_def trim_end_char_def to_ascii_uppercase_def strip_prefix_def str_len_def len_utf8_def)
    ultimately show ?thesis
      by (simp add: local_file_hyperlink_path_def file_uri_def sample_env_def sample_file_url_def lit_def str_len_def len_utf8_def
          is_ascii_def is_ascii_whitespace_def is_ascii_control_def eq_ignore_ascii_case_def to_ascii_uppercase_def)
  qed
  show ?thesis using h hyperlink_path_confined [OF h] by blast
qed

end
