(* ===== verification/Parser.thy ===== *)
theory Parser
  imports Hyperlink
begin

text \<open>
  The bounded ESC/CSI/OSC/DCS parser of \<open>parser.rs\<close>: parameters, typed operations, the state
  machine \<open>Parser::advance\<close> and the string protocols.  An operation that would index outside an
  array, or reach an \<open>unreachable!\<close>, is \<open>None\<close>.
\<close>

definition MAX_CSI_PARAMETERS :: nat where "MAX_CSI_PARAMETERS = 32"
definition MAX_CSI_INTERMEDIATES :: nat where "MAX_CSI_INTERMEDIATES = 2"
definition MAX_STRING_BYTES :: nat where "MAX_STRING_BYTES = 4096"
definition MAX_COLOR_QUERIES :: nat where "MAX_COLOR_QUERIES = 64"

section \<open>Device control strings and operating system commands\<close>

datatype dcs_action = RequestStatusString "u8 list"

definition parse_dcs :: "u8 list \<Rightarrow> dcs_action option" where
  "parse_dcs payload = map_option RequestStatusString (strip_prefix (ascii ''$q'') payload)"

datatype color_query = Palette u8 | Foreground | Background | CursorColor

datatype string_terminator = StringTerminator | Bell

definition terminator_bytes :: "string_terminator \<Rightarrow> u8 list" where
  "terminator_bytes t = (case t of StringTerminator \<Rightarrow> [0x1b, 0x5c] | Bell \<Rightarrow> [0x07])"

datatype osc_action =
    SetTitle str
  | SetHyperlink "str option"
  | ReportColors "color_query list" string_terminator

definition color_action :: "color_query list \<Rightarrow> string_terminator \<Rightarrow> osc_action option" where
  "color_action queries terminator =
     (if queries \<noteq> [] then Some (ReportColors queries terminator) else None)"

text \<open>\<open>parse::<u8>\<close> on a non-empty run of at most three digits.\<close>

definition digits_value :: "u8 list \<Rightarrow> nat" where
  "digits_value ds = foldl (\<lambda>n d. n * 10 + (unat d - 0x30)) 0 ds"

definition parse_palette_index :: "u8 list \<Rightarrow> u8 option" where
  "parse_palette_index field =
     (if field = [] \<or> 3 < length field \<or> (\<exists>b \<in> set field. \<not> is_ascii_digit (unat b)) then None
      else let n = digits_value field in if n < 256 then Some (u8_of_nat n) else None)"

fun palette_queries_loop :: "u8 list list \<Rightarrow> color_query list \<Rightarrow> color_query list" where
  "palette_queries_loop (index # specification # rest) queries =
     (if length queries = MAX_COLOR_QUERIES then queries
      else if specification \<noteq> [0x3f] then palette_queries_loop rest queries
      else case parse_palette_index index of
             Some i \<Rightarrow> palette_queries_loop rest (queries @ [Palette i])
           | None \<Rightarrow> palette_queries_loop rest queries)"
| "palette_queries_loop _ queries = queries"

definition parse_palette_queries :: "u8 list \<Rightarrow> color_query list" where
  "parse_palette_queries data = palette_queries_loop (split_on 0x3b data) []"

definition dynamic_query :: "nat \<Rightarrow> color_query option" where
  "dynamic_query selector =
     (if selector = 10 then Some Foreground else if selector = 11 then Some Background
      else if selector = 12 then Some CursorColor else None)"

definition parse_dynamic_queries :: "nat \<Rightarrow> u8 list \<Rightarrow> color_query list" where
  "parse_dynamic_queries first data =
     List.map_filter (\<lambda>(offset, field). checked_add first offset \<bind> dynamic_query)
       (filter (\<lambda>(_, field). field = [0x3f])
          (take MAX_COLOR_QUERIES (enumerate 0 (split_on 0x3b data))))"

definition sanitize_title :: "str \<Rightarrow> str" where
  "sanitize_title value = take 256 (filter (\<lambda>c. \<not> is_control c) value)"

definition parse_osc8 :: "env \<Rightarrow> u8 list \<Rightarrow> str option option" where
  "parse_osc8 e data =
     (case split_once 0x3b data of
        None \<Rightarrow> None
      | Some (_, uri) \<Rightarrow>
          if uri = [] then Some None
          else case from_utf8 uri of
                 None \<Rightarrow> Some None
               | Some target \<Rightarrow> Some (normalize_terminal_hyperlink e target))"

definition parse_osc :: "env \<Rightarrow> u8 list \<Rightarrow> string_terminator \<Rightarrow> osc_action option" where
  "parse_osc e payload terminator =
     (case split_once 0x3b payload of
        None \<Rightarrow> None
      | Some (command, data) \<Rightarrow>
          if command = ascii ''0'' \<or> command = ascii ''2'' then
            map_option (SetTitle \<circ> sanitize_title) (from_utf8 data)
          else if command = ascii ''4'' then color_action (parse_palette_queries data) terminator
          else if command = ascii ''10'' \<or> command = ascii ''11'' \<or> command = ascii ''12'' then
            (let first = (if command = ascii ''10'' then 10
                          else if command = ascii ''11'' then 11 else 12)
             in color_action (parse_dynamic_queries first data) terminator)
          else if command = ascii ''8'' then map_option SetHyperlink (parse_osc8 e data)
          else None)"

section \<open>CSI parameters\<close>

datatype parameter_separator = Start | Semicolon | Colon

record csi_parameters =
  cp_values :: "u16 list"
  cp_separators :: "parameter_separator list"
  cp_length :: nat

definition default_parameters :: csi_parameters where
  "default_parameters =
     \<lparr>cp_values = replicate MAX_CSI_PARAMETERS 0,
      cp_separators = replicate MAX_CSI_PARAMETERS Start, cp_length = 0\<rparr>"

definition param_value :: "csi_parameters \<Rightarrow> nat \<Rightarrow> u16 option" where
  "param_value p index = (if index < cp_length p then rd (cp_values p) index else None)"

definition param_separator :: "csi_parameters \<Rightarrow> nat \<Rightarrow> parameter_separator option" where
  "param_separator p index = (if index < cp_length p then rd (cp_separators p) index else None)"

definition params_empty :: "csi_parameters \<Rightarrow> bool" where
  "params_empty p \<longleftrightarrow> cp_length p = 0"

definition has_colon :: "csi_parameters \<Rightarrow> bool" where
  "has_colon p \<longleftrightarrow> Colon \<in> set (take (cp_length p) (cp_separators p))"

definition param_begin ::
  "csi_parameters \<Rightarrow> parameter_separator \<Rightarrow> (bool \<times> csi_parameters) option" where
  "param_begin p separator =
     (if cp_length p = MAX_CSI_PARAMETERS then Some (False, p)
      else do {
        seps \<leftarrow> wr (cp_separators p) (cp_length p) separator;
        vals \<leftarrow> wr (cp_values p) (cp_length p) 0;
        Some (True, p\<lparr>cp_separators := seps, cp_values := vals, cp_length := cp_length p + 1\<rparr>) })"

definition append_separator ::
  "csi_parameters \<Rightarrow> parameter_separator \<Rightarrow> (bool \<times> csi_parameters) option" where
  "append_separator p separator = do {
     (started, p) \<leftarrow> (if cp_length p = 0 then param_begin p Start else Some (True, p));
     if \<not> started then Some (False, p) else param_begin p separator }"

definition append_digit :: "csi_parameters \<Rightarrow> u8 \<Rightarrow> (bool \<times> csi_parameters) option" where
  "append_digit p digit = do {
     (started, p) \<leftarrow> (if cp_length p = 0 then param_begin p Start else Some (True, p));
     if \<not> started then Some (False, p)
     else do {
       index \<leftarrow> checked_sub (cp_length p) 1;
       current \<leftarrow> rd (cp_values p) index;
       let value = unat current * 10 + unat digit;
       if value < 2 ^ 16
       then do {
         vals \<leftarrow> wr (cp_values p) index (word_of_nat value);
         Some (True, p\<lparr>cp_values := vals\<rparr>) }
       else Some (False, p) } }"

text \<open>\<open>checked_mul(10)\<close> followed by \<open>checked_add\<close> fails exactly when the sum leaves \<open>u16\<close>: the
  digit is at most 9, so a failing product already makes the sum too large.\<close>

section \<open>Operations\<close>

datatype terminal_op =
    Print scalar
  | CarriageReturn | LineFeed | Backspace | Tab
  | CursorForwardTab csi_parameters | CursorBackwardTab csi_parameters
  | Index | NextLine | ReverseIndex | SaveDec | RestoreDec | SetTabStop
  | SetApplicationKeypad bool
  | SetCursorStyle csi_parameters
  | CursorUp csi_parameters | CursorDown csi_parameters
  | CursorForward csi_parameters | CursorBack csi_parameters
  | CursorNextLine csi_parameters | CursorPreviousLine csi_parameters
  | CursorHorizontalAbsolute csi_parameters | HorizontalPositionAbsolute csi_parameters
  | CursorPosition csi_parameters | VerticalPositionAbsolute csi_parameters
  | EraseDisplay csi_parameters | EraseLine csi_parameters | EraseCharacters csi_parameters
  | InsertCharacters csi_parameters | DeleteCharacters csi_parameters
  | InsertLines csi_parameters | DeleteLines csi_parameters
  | ScrollUp csi_parameters | ScrollDown csi_parameters
  | SetScrollRegion csi_parameters
  | SaveAnsiOrSetHorizontalMargins csi_parameters
  | RestoreAnsi
  | SetGraphicsRendition csi_parameters
  | SetModes bool bool csi_parameters  \<comment> \<open>private, enabled\<close>
  | DeviceStatus csi_parameters | DecDeviceStatus csi_parameters
  | RepeatPrecedingCharacter csi_parameters
  | ScreenAlignmentPattern
  | DeviceAttributes bool  \<comment> \<open>secondary\<close>
  | ClearTabStops csi_parameters
  | SetProtection bool bool  \<comment> \<open>iso, protected\<close>
  | SelectiveEraseDisplay csi_parameters | SelectiveEraseLine csi_parameters
  | CopyRectangle csi_parameters | FillRectangle csi_parameters
  | EraseRectangle csi_parameters bool  \<comment> \<open>selective\<close>
  | InsertColumns csi_parameters | DeleteColumns csi_parameters
  | BackIndex | ForwardIndex
  | RequestMode bool csi_parameters  \<comment> \<open>private\<close>
  | SoftReset
  | RequestRectangleChecksum csi_parameters
  | WindowOperation csi_parameters
  | Ignored

section \<open>Parser state\<close>

datatype string_kind = Osc | Dcs | Other

datatype charset_slot = G0 | G1

datatype charset = Ascii | DecSpecialGraphics

datatype parser_state =
    Ground
  | Escape
  | EscapeIntermediate u8
  | CharsetDesignate charset_slot
  | CsiEntry
  | CsiParam
  | CsiIntermediate
  | CsiIgnore
  | StringState string_kind nat
  | StringEscape string_kind nat

record parser =
  p_state :: parser_state
  p_parameters :: csi_parameters
  p_parameter_digits :: u8
  p_private :: bool
  p_secondary :: bool
  p_intermediates :: "u8 list"
  p_intermediate_length :: nat
  p_string_payload :: "u8 list"
  p_osc_action :: "osc_action option"
  p_dcs_action :: "dcs_action option"
  p_g0_charset :: charset
  p_g1_charset :: charset
  p_shifted_to_g1 :: bool

definition parser_new :: parser where
  "parser_new =
     \<lparr>p_state = Ground, p_parameters = default_parameters, p_parameter_digits = 0,
      p_private = False, p_secondary = False,
      p_intermediates = replicate MAX_CSI_INTERMEDIATES 0, p_intermediate_length = 0,
      p_string_payload = [], p_osc_action = None, p_dcs_action = None,
      p_g0_charset = Ascii, p_g1_charset = Ascii, p_shifted_to_g1 = False\<rparr>"

definition is_ground :: "parser \<Rightarrow> bool" where
  "is_ground p \<longleftrightarrow> p_state p = Ground"

text \<open>The DEC Special Graphics characters of \<open>0x60..=0x7e\<close>, in order.\<close>

definition dec_special_table :: "scalar list" where
  "dec_special_table =
     [0x25c6, 0x2592, 0x2409, 0x240c, 0x240d, 0x240a, 0x00b0, 0x00b1, 0x2424, 0x240b, 0x2518,
      0x2510, 0x250c, 0x2514, 0x253c, 0x23ba, 0x23bb, 0x2500, 0x23bc, 0x23bd, 0x251c, 0x2524,
      0x2534, 0x252c, 0x2502, 0x2264, 0x2265, 0x03c0, 0x2260, 0x00a3, 0x00b7]"

definition dec_special_graphics :: "u8 \<Rightarrow> scalar" where
  "dec_special_graphics byte =
     (if 0x60 \<le> byte \<and> byte \<le> 0x7e then dec_special_table ! (unat byte - 0x60) else unat byte)"

definition translate_printable :: "parser \<Rightarrow> u8 \<Rightarrow> scalar" where
  "translate_printable p byte =
     (case (if p_shifted_to_g1 p then p_g1_charset p else p_g0_charset p) of
        Ascii \<Rightarrow> unat byte
      | DecSpecialGraphics \<Rightarrow> dec_special_graphics byte)"

definition designate_charset :: "parser \<Rightarrow> charset_slot \<Rightarrow> u8 \<Rightarrow> parser" where
  "designate_charset p slot byte =
     (let charset = (if byte = 0x30 then DecSpecialGraphics else Ascii)
      in case slot of G0 \<Rightarrow> p\<lparr>p_g0_charset := charset\<rparr> | G1 \<Rightarrow> p\<lparr>p_g1_charset := charset\<rparr>)"

definition c0_operation :: "u8 \<Rightarrow> terminal_op option" where
  "c0_operation byte =
     (if byte = 0x0d then Some CarriageReturn
      else if byte = 0x0a then Some LineFeed
      else if byte = 0x08 then Some Backspace
      else if byte = 0x09 then Some Tab
      else if byte = 0x0b \<or> byte = 0x0c then Some LineFeed
      else None)"

definition clear_csi :: "parser \<Rightarrow> parser" where
  "clear_csi p = p\<lparr>p_parameters := default_parameters, p_parameter_digits := 0, p_private := False,
     p_secondary := False, p_intermediate_length := 0\<rparr>"

definition ignore_csi :: "parser \<Rightarrow> terminal_op \<times> parser" where
  "ignore_csi p = (Ignored, clear_csi (p\<lparr>p_state := CsiIgnore\<rparr>))"

definition append_csi_digit :: "parser \<Rightarrow> u8 \<Rightarrow> (terminal_op \<times> parser) option" where
  "append_csi_digit p byte = do {
     let digits = (if p_parameter_digits p = 255 then 255 else p_parameter_digits p + 1);
     let p = p\<lparr>p_parameter_digits := digits\<rparr>;
     if 5 < digits then Some (ignore_csi p)
     else do {
       (appended, params) \<leftarrow> append_digit (p_parameters p) (byte - 0x30);
       let p = p\<lparr>p_parameters := params\<rparr>;
       Some (if \<not> appended then ignore_csi p else (Ignored, p\<lparr>p_state := CsiParam\<rparr>)) } }"

definition append_csi_separator ::
  "parser \<Rightarrow> parameter_separator \<Rightarrow> (terminal_op \<times> parser) option" where
  "append_csi_separator p separator = do {
     (appended, params) \<leftarrow> append_separator (p_parameters p) separator;
     let p = p\<lparr>p_parameters := params\<rparr>;
     Some (if \<not> appended then ignore_csi p
           else (Ignored, p\<lparr>p_parameter_digits := 0, p_state := CsiParam\<rparr>)) }"

definition append_csi_intermediate :: "parser \<Rightarrow> u8 \<Rightarrow> (terminal_op \<times> parser) option" where
  "append_csi_intermediate p byte =
     (if p_intermediate_length p = MAX_CSI_INTERMEDIATES then Some (ignore_csi p)
      else do {
        ints \<leftarrow> wr (p_intermediates p) (p_intermediate_length p) byte;
        Some (Ignored, p\<lparr>p_intermediates := ints,
                         p_intermediate_length := p_intermediate_length p + 1,
                         p_state := CsiIntermediate\<rparr>) })"

definition csi_intermediate_op :: "bool \<Rightarrow> nat \<Rightarrow> u8 \<Rightarrow> u8 \<Rightarrow> csi_parameters \<Rightarrow> terminal_op" where
  "csi_intermediate_op private n intermediate final_byte ps =
     (if \<not> private \<and> n = 1 \<and> intermediate = 0x20 \<and> final_byte = 0x71 \<and> \<not> has_colon ps
        then SetCursorStyle ps
      else if \<not> private \<and> n = 1 \<and> intermediate = 0x21 \<and> final_byte = 0x70 then SoftReset
      else if \<not> private \<and> n = 1 \<and> intermediate = 0x2a \<and> final_byte = 0x79
        then RequestRectangleChecksum ps
      else if \<not> private \<and> n = 1 \<and> intermediate = 0x22 \<and> final_byte = 0x71
        then SetProtection False (param_value ps 0 = Some 1)
      else if n = 1 \<and> intermediate = 0x24 \<and> final_byte = 0x70 then RequestMode private ps
      else if \<not> private \<and> n = 1 \<and> intermediate = 0x24 \<and> final_byte = 0x76 then CopyRectangle ps
      else if \<not> private \<and> n = 1 \<and> intermediate = 0x24 \<and> final_byte = 0x78 then FillRectangle ps
      else if \<not> private \<and> n = 1 \<and> intermediate = 0x24 \<and> final_byte = 0x7a
        then EraseRectangle ps False
      else if \<not> private \<and> n = 1 \<and> intermediate = 0x24 \<and> final_byte = 0x7b
        then EraseRectangle ps True
      else if \<not> private \<and> n = 1 \<and> intermediate = 0x27 \<and> final_byte = 0x7d then InsertColumns ps
      else if \<not> private \<and> n = 1 \<and> intermediate = 0x27 \<and> final_byte = 0x7e then DeleteColumns ps
      else Ignored)"

definition csi_private_op :: "u8 \<Rightarrow> csi_parameters \<Rightarrow> terminal_op" where
  "csi_private_op final_byte ps =
     (if final_byte = 0x68 then SetModes True True ps
      else if final_byte = 0x6c then SetModes True False ps
      else if final_byte = 0x4a then SelectiveEraseDisplay ps
      else if final_byte = 0x4b then SelectiveEraseLine ps
      else if final_byte = 0x6e then DecDeviceStatus ps
      else Ignored)"

definition csi_plain_op :: "u8 \<Rightarrow> csi_parameters \<Rightarrow> terminal_op" where
  "csi_plain_op final_byte ps =
     (if final_byte = 0x41 then CursorUp ps
      else if final_byte = 0x42 then CursorDown ps
      else if final_byte = 0x43 then CursorForward ps
      else if final_byte = 0x44 then CursorBack ps
      else if final_byte = 0x45 then CursorNextLine ps
      else if final_byte = 0x46 then CursorPreviousLine ps
      else if final_byte = 0x47 then CursorHorizontalAbsolute ps
      else if final_byte = 0x60 then HorizontalPositionAbsolute ps
      else if final_byte = 0x61 then CursorForward ps
      else if final_byte = 0x65 then CursorDown ps
      else if final_byte = 0x49 then CursorForwardTab ps
      else if final_byte = 0x5a then CursorBackwardTab ps
      else if final_byte = 0x48 \<or> final_byte = 0x66 then CursorPosition ps
      else if final_byte = 0x4a then EraseDisplay ps
      else if final_byte = 0x4b then EraseLine ps
      else if final_byte = 0x4c then InsertLines ps
      else if final_byte = 0x4d then DeleteLines ps
      else if final_byte = 0x50 then DeleteCharacters ps
      else if final_byte = 0x53 then ScrollUp ps
      else if final_byte = 0x54 then ScrollDown ps
      else if final_byte = 0x58 then EraseCharacters ps
      else if final_byte = 0x40 then InsertCharacters ps
      else if final_byte = 0x64 then VerticalPositionAbsolute ps
      else if final_byte = 0x6d then SetGraphicsRendition ps
      else if final_byte = 0x6e then DeviceStatus ps
      else if final_byte = 0x62 then RepeatPrecedingCharacter ps
      else if final_byte = 0x63 then DeviceAttributes False
      else if final_byte = 0x67 then ClearTabStops ps
      else if final_byte = 0x74 then WindowOperation ps
      else if final_byte = 0x72 then SetScrollRegion ps
      else if final_byte = 0x73 then SaveAnsiOrSetHorizontalMargins ps
      else if final_byte = 0x75 \<and> params_empty ps then RestoreAnsi
      else if final_byte = 0x68 then SetModes False True ps
      else if final_byte = 0x6c then SetModes False False ps
      else Ignored)"

definition complete_csi :: "parser \<Rightarrow> u8 \<Rightarrow> (terminal_op \<times> parser) option" where
  "complete_csi p final_byte = do {
     let ps = p_parameters p;
     let p' = clear_csi (p\<lparr>p_state := Ground\<rparr>);
     if p_intermediate_length p \<noteq> 0 then do {
       i0 \<leftarrow> rd (p_intermediates p) 0;
       Some (csi_intermediate_op (p_private p) (p_intermediate_length p) i0 final_byte ps, p') }
     else if has_colon ps \<and> final_byte \<noteq> 0x6d then Some (Ignored, p')
     else if p_private p then Some (csi_private_op final_byte ps, p')
     else if p_secondary p then
       Some (if final_byte = 0x63 then DeviceAttributes True else Ignored, p')
     else Some (csi_plain_op final_byte ps, p') }"

definition advance_csi_param :: "parser \<Rightarrow> u8 \<Rightarrow> (terminal_op \<times> parser) option" where
  "advance_csi_param p byte =
     (if 0x30 \<le> byte \<and> byte \<le> 0x39 then append_csi_digit p byte
      else if byte = 0x3b then append_csi_separator p Semicolon
      else if byte = 0x3a then append_csi_separator p Colon
      else if 0x20 \<le> byte \<and> byte \<le> 0x2f then append_csi_intermediate p byte
      else if 0x40 \<le> byte \<and> byte \<le> 0x7e then complete_csi p byte
      else Some (ignore_csi p))"

definition advance_csi_entry :: "parser \<Rightarrow> u8 \<Rightarrow> (terminal_op \<times> parser) option" where
  "advance_csi_entry p byte =
     (if byte = 0x3f \<and> \<not> p_private p \<and> \<not> p_secondary p \<and> params_empty (p_parameters p)
      then Some (Ignored, p\<lparr>p_private := True\<rparr>)
      else if byte = 0x3e \<and> \<not> p_private p \<and> \<not> p_secondary p \<and> params_empty (p_parameters p)
      then Some (Ignored, p\<lparr>p_secondary := True\<rparr>)
      else if 0x30 \<le> byte \<and> byte \<le> 0x39 then append_csi_digit p byte
      else if byte = 0x3b then append_csi_separator p Semicolon
      else if byte = 0x3a then append_csi_separator p Colon
      else if 0x20 \<le> byte \<and> byte \<le> 0x2f then append_csi_intermediate p byte
      else if 0x40 \<le> byte \<and> byte \<le> 0x7e then complete_csi p byte
      else Some (ignore_csi p))"

definition advance_csi_intermediate :: "parser \<Rightarrow> u8 \<Rightarrow> (terminal_op \<times> parser) option" where
  "advance_csi_intermediate p byte =
     (if 0x20 \<le> byte \<and> byte \<le> 0x2f then append_csi_intermediate p byte
      else if 0x40 \<le> byte \<and> byte \<le> 0x7e then complete_csi p byte
      else Some (ignore_csi p))"

section \<open>Escapes and strings\<close>

definition start_string :: "parser \<Rightarrow> string_kind \<Rightarrow> parser" where
  "start_string p kind = p\<lparr>p_string_payload := [], p_state := StringState kind 0\<rparr>"

definition escape_op :: "u8 \<Rightarrow> terminal_op" where
  "escape_op byte =
     (if byte = 0x44 then Index
      else if byte = 0x45 then NextLine
      else if byte = 0x4d then ReverseIndex
      else if byte = 0x37 then SaveDec
      else if byte = 0x38 then RestoreDec
      else if byte = 0x48 then SetTabStop
      else if byte = 0x36 then BackIndex
      else if byte = 0x39 then ForwardIndex
      else if byte = 0x56 then SetProtection True True
      else if byte = 0x57 then SetProtection True False
      else if byte = 0x3d then SetApplicationKeypad True
      else if byte = 0x3e then SetApplicationKeypad False
      else Ignored)"

definition advance_escape :: "parser \<Rightarrow> u8 \<Rightarrow> terminal_op \<times> parser" where
  "advance_escape p byte =
     (let p = (if byte = 0x5b then (clear_csi p)\<lparr>p_state := CsiEntry\<rparr>
               else if byte = 0x5d then start_string p Osc
               else if byte = 0x50 then start_string p Dcs
               else if byte = 0x58 \<or> byte = 0x5e \<or> byte = 0x5f then start_string p Other
               else if byte = 0x28 then p\<lparr>p_state := CharsetDesignate G0\<rparr>
               else if byte = 0x29 then p\<lparr>p_state := CharsetDesignate G1\<rparr>
               else if 0x20 \<le> byte \<and> byte \<le> 0x2f then p\<lparr>p_state := EscapeIntermediate byte\<rparr>
               else p\<lparr>p_state := Ground\<rparr>)
      in (escape_op byte, p))"

definition abandon_string :: "parser \<Rightarrow> parser" where
  "abandon_string p = clear_csi (p\<lparr>p_string_payload := [], p_state := Escape\<rparr>)"

definition advance_string_payload :: "parser \<Rightarrow> string_kind \<Rightarrow> nat \<Rightarrow> u8 list \<Rightarrow> parser" where
  "advance_string_payload p kind n payload =
     (case checked_add n (length payload) of
        None \<Rightarrow> p\<lparr>p_state := Ground\<rparr>
      | Some n \<Rightarrow>
          let p = (if kind = Osc \<or> kind = Dcs
                   then p\<lparr>p_string_payload := p_string_payload p @ payload\<rparr> else p)
          in p\<lparr>p_state := if MAX_STRING_BYTES \<le> n then Ground else StringState kind n\<rparr>)"

definition finish_string ::
  "env \<Rightarrow> parser \<Rightarrow> string_kind \<Rightarrow> string_terminator \<Rightarrow> terminal_op \<times> parser" where
  "finish_string e p kind terminator =
     (Ignored,
      case kind of
        Osc \<Rightarrow> p\<lparr>p_osc_action := parse_osc e (p_string_payload p) terminator, p_string_payload := []\<rparr>
      | Dcs \<Rightarrow> p\<lparr>p_dcs_action := parse_dcs (p_string_payload p), p_string_payload := []\<rparr>
      | Other \<Rightarrow> p\<lparr>p_string_payload := []\<rparr>)"

definition advance_string :: "env \<Rightarrow> parser \<Rightarrow> u8 \<Rightarrow> (terminal_op \<times> parser) option" where
  "advance_string e p byte =
     (case p_state p of
        StringState kind n \<Rightarrow>
          if kind = Osc \<and> byte = 0x07 then Some (finish_string e (p\<lparr>p_state := Ground\<rparr>) kind Bell)
          else if byte = 0x1b then Some (Ignored, p\<lparr>p_state := StringEscape kind n\<rparr>)
          else Some (Ignored, advance_string_payload p kind n [byte])
      | StringEscape kind _ \<Rightarrow>
          if byte = 0x5c then
            Some (finish_string e (p\<lparr>p_state := Ground\<rparr>) kind StringTerminator)
          else let p = abandon_string p in
            if byte = 0x1b then Some (Ignored, p) else Some (advance_escape p byte)
      | _ \<Rightarrow> None)"

definition in_string :: "parser_state \<Rightarrow> bool" where
  "in_string s = (case s of StringState _ _ \<Rightarrow> True | StringEscape _ _ \<Rightarrow> True | _ \<Rightarrow> False)"

definition advance_dispatch :: "parser \<Rightarrow> u8 \<Rightarrow> (terminal_op \<times> parser) option" where
  "advance_dispatch p byte =
     (case p_state p of
        Ground \<Rightarrow>
          Some (if 0x20 \<le> byte \<and> byte \<le> 0x7e then Print (translate_printable p byte) else Ignored, p)
      | Escape \<Rightarrow> Some (advance_escape p byte)
      | EscapeIntermediate intermediate \<Rightarrow>
          Some (if intermediate = 0x23 \<and> byte = 0x38 then ScreenAlignmentPattern else Ignored,
                p\<lparr>p_state := Ground\<rparr>)
      | CharsetDesignate slot \<Rightarrow> Some (Ignored, designate_charset (p\<lparr>p_state := Ground\<rparr>) slot byte)
      | CsiEntry \<Rightarrow> advance_csi_entry p byte
      | CsiParam \<Rightarrow> advance_csi_param p byte
      | CsiIntermediate \<Rightarrow> advance_csi_intermediate p byte
      | CsiIgnore \<Rightarrow>
          Some (Ignored,
                if 0x40 \<le> byte \<and> byte \<le> 0x7e then clear_csi (p\<lparr>p_state := Ground\<rparr>) else p)
      | _ \<Rightarrow> None)"

definition advance :: "env \<Rightarrow> parser \<Rightarrow> u8 \<Rightarrow> (terminal_op \<times> parser) option" where
  "advance e p byte =
     (if byte = 0x18 \<or> byte = 0x1a then Some (Ignored, clear_csi (p\<lparr>p_state := Ground\<rparr>))
      else if in_string (p_state p) then
        (case c0_operation byte of
           Some operation \<Rightarrow> Some (operation, p)
         | None \<Rightarrow> advance_string e p byte)
      else if byte = 0x1b then Some (Ignored, clear_csi (p\<lparr>p_state := Escape\<rparr>))
      else if byte = 0x0e then Some (Ignored, p\<lparr>p_shifted_to_g1 := True\<rparr>)
      else if byte = 0x0f then Some (Ignored, p\<lparr>p_shifted_to_g1 := False\<rparr>)
      else case c0_operation byte of
             Some operation \<Rightarrow> Some (operation, p)
           | None \<Rightarrow> advance_dispatch p byte)"

definition take_osc_action :: "parser \<Rightarrow> osc_action option \<times> parser" where
  "take_osc_action p = (p_osc_action p, p\<lparr>p_osc_action := None\<rparr>)"

definition take_dcs_action :: "parser \<Rightarrow> dcs_action option \<times> parser" where
  "take_dcs_action p = (p_dcs_action p, p\<lparr>p_dcs_action := None\<rparr>)"

text \<open>\<open>Parser::validate_recovery_state\<close>: whether it returns \<open>Ok\<close>.\<close>

definition parser_valid :: "parser \<Rightarrow> bool" where
  "parser_valid p \<longleftrightarrow>
     \<not> MAX_CSI_PARAMETERS < cp_length (p_parameters p) \<and>
     \<not> 5 < p_parameter_digits p \<and>
     \<not> MAX_CSI_INTERMEDIATES < p_intermediate_length p \<and>
     \<not> MAX_STRING_BYTES < length (p_string_payload p) \<and>
     (case p_state p of
        StringState _ n \<Rightarrow> \<not> MAX_STRING_BYTES < n \<and> \<not> n < length (p_string_payload p)
      | StringEscape _ n \<Rightarrow> \<not> MAX_STRING_BYTES < n \<and> \<not> n < length (p_string_payload p)
      | _ \<Rightarrow> True)"

end
