(* ===== verification/Parser_Proofs.thy ===== *)
theory Parser_Proofs
  imports Parser
begin

text \<open>
  The parser is total and bounded: \<open>parser_ok\<close> is its invariant, \<open>advance_ok\<close> shows that no byte
  makes \<open>advance\<close> panic or leave it, \<open>csi_run\<close> that a printed control sequence comes back as the
  operation it encodes, and \<open>parse_osc_bounded\<close> what any OSC payload can amount to.
\<close>

section \<open>The parser's bounds\<close>

definition params_ok :: "csi_parameters \<Rightarrow> bool" where
  "params_ok ps \<longleftrightarrow> length (cp_values ps) = 32 \<and> length (cp_separators ps) = 32 \<and> cp_length ps \<le> 32"

definition string_bounded :: "parser_state \<Rightarrow> nat \<Rightarrow> bool" where
  "string_bounded s n = (case s of StringState _ m \<Rightarrow> m < 4096 \<and> n \<le> m
                         | StringEscape _ m \<Rightarrow> m < 4096 \<and> n \<le> m | _ \<Rightarrow> True)"

definition parser_ok :: "parser \<Rightarrow> bool" where
  "parser_ok p \<longleftrightarrow> params_ok (p_parameters p) \<and> p_parameter_digits p \<le> 5 \<and>
     length (p_intermediates p) = 2 \<and> p_intermediate_length p \<le> 2 \<and>
     length (p_string_payload p) \<le> 4096 \<and>
     string_bounded (p_state p) (length (p_string_payload p))"

lemmas parser_bounds = MAX_CSI_PARAMETERS_def MAX_CSI_INTERMEDIATES_def MAX_STRING_BYTES_def

lemma default_parameters_ok [simp]: "params_ok default_parameters"
  by (simp add: params_ok_def default_parameters_def parser_bounds)

lemma parser_new_ok [simp]: "parser_ok parser_new"
  by (simp add: parser_ok_def parser_new_def parser_bounds string_bounded_def)

lemma parser_ok_valid: "parser_ok p \<Longrightarrow> parser_valid p"
  by (auto simp: parser_ok_def parser_valid_def params_ok_def parser_bounds string_bounded_def
      split: parser_state.splits)

lemma param_begin_ok:
  "params_ok ps \<Longrightarrow> ok (\<lambda>(started, ps'). params_ok ps' \<and>
     (if started then cp_length ps' = Suc (cp_length ps) else ps' = ps \<and> cp_length ps = 32))
     (param_begin ps sep)"
  by (auto simp: param_begin_def params_ok_def parser_bounds wr_def)

lemma append_separator_ok: "params_ok ps \<Longrightarrow> ok (\<lambda>(_, ps'). params_ok ps') (append_separator ps sep)"
  by (auto simp: append_separator_def param_begin_def params_ok_def parser_bounds wr_def)

lemma append_digit_ok: "params_ok ps \<Longrightarrow> ok (\<lambda>(_, ps'). params_ok ps') (append_digit ps d)"
  by (auto simp: append_digit_def param_begin_def params_ok_def parser_bounds wr_def rd_def Let_def)

lemma string_bounded_simps [simp]:
  "\<not> in_string s \<Longrightarrow> string_bounded s n"
  "string_bounded (StringState k m) n \<longleftrightarrow> m < 4096 \<and> n \<le> m"
  "string_bounded (StringEscape k m) n \<longleftrightarrow> m < 4096 \<and> n \<le> m"
  by (auto simp: string_bounded_def in_string_def split: parser_state.splits)

lemma in_string_simps [simp]:
  "\<not> in_string Ground" "\<not> in_string Escape" "\<not> in_string (EscapeIntermediate b)"
  "\<not> in_string (CharsetDesignate sl)" "\<not> in_string CsiEntry" "\<not> in_string CsiParam"
  "\<not> in_string CsiIntermediate" "\<not> in_string CsiIgnore"
  "in_string (StringState k n)" "in_string (StringEscape k n)"
  by (simp_all add: in_string_def)

lemma parser_ok_clear [simp]:
  "parser_ok p \<Longrightarrow> \<not> in_string s \<Longrightarrow> parser_ok (clear_csi (p\<lparr>p_state := s\<rparr>))"
  by (simp add: parser_ok_def clear_csi_def)

lemma parser_ok_state [simp]:
  "parser_ok p \<Longrightarrow> \<not> in_string s \<Longrightarrow> parser_ok (p\<lparr>p_state := s\<rparr>)"
  by (simp add: parser_ok_def)

lemma ignore_csi_ok: "parser_ok p \<Longrightarrow> parser_ok (snd (ignore_csi p))"
  by (simp add: ignore_csi_def)

lemma append_csi_digit_ok:
  assumes "parser_ok p"
  shows "ok (\<lambda>(_, p'). parser_ok p') (append_csi_digit p b)"
proof (cases "p_parameter_digits p < 5")
  case True
  then have d: "p_parameter_digits p + 1 \<le> 5" "p_parameter_digits p \<noteq> 255"
    by (auto intro: inc_le)
  have "ok (\<lambda>(_, ps'). params_ok ps') (append_digit (p_parameters p) (b - 0x30))"
    using assms by (intro append_digit_ok) (simp add: parser_ok_def)
  then show ?thesis using assms d
    by (auto simp: append_csi_digit_def Let_def parser_ok_def ok_iff ignore_csi_def clear_csi_def)
next
  case False
  then have "5 < p_parameter_digits p + 1 \<and> p_parameter_digits p \<noteq> 255"
    using assms by (auto simp: parser_ok_def) 
  then show ?thesis using assms
    by (auto simp: append_csi_digit_def Let_def parser_ok_def ignore_csi_def clear_csi_def)
qed

lemma append_csi_separator_ok:
  "parser_ok p \<Longrightarrow> ok (\<lambda>(_, p'). parser_ok p') (append_csi_separator p sep)"
  using append_separator_ok [of "p_parameters p" sep]
  by (auto simp: append_csi_separator_def Let_def parser_ok_def ok_iff ignore_csi_def clear_csi_def)

lemma append_csi_intermediate_ok:
  "parser_ok p \<Longrightarrow> ok (\<lambda>(_, p'). parser_ok p') (append_csi_intermediate p b)"
  by (auto simp: append_csi_intermediate_def parser_ok_def wr_def parser_bounds ignore_csi_def clear_csi_def)

lemma complete_csi_ok: "parser_ok p \<Longrightarrow> ok (\<lambda>(_, p'). parser_ok p' \<and> p_state p' = Ground) (complete_csi p b)"
  by (auto simp: complete_csi_def Let_def rd_def parser_ok_def clear_csi_def)

lemma complete_csi_ok': "parser_ok p \<Longrightarrow> ok (\<lambda>(_, p'). parser_ok p') (complete_csi p b)"
  by (rule ok_mono [OF complete_csi_ok]) auto

lemma ignore_csi_ok': "parser_ok p \<Longrightarrow> ok (\<lambda>(_, p'). parser_ok p') (Some (ignore_csi p))"
  by (simp add: ignore_csi_def)

lemmas csi_steps_ok = append_csi_digit_ok append_csi_separator_ok append_csi_intermediate_ok
  complete_csi_ok' ignore_csi_ok'

lemma parser_ok_flags [simp]:
  "parser_ok (p\<lparr>p_private := a\<rparr>) = parser_ok p" "parser_ok (p\<lparr>p_secondary := a\<rparr>) = parser_ok p"
  "parser_ok (p\<lparr>p_shifted_to_g1 := a\<rparr>) = parser_ok p"
  "parser_ok (p\<lparr>p_g0_charset := c\<rparr>) = parser_ok p" "parser_ok (p\<lparr>p_g1_charset := c\<rparr>) = parser_ok p"
  by (simp_all add: parser_ok_def)

lemma start_string_ok: "parser_ok p \<Longrightarrow> parser_ok (start_string p k)"
  by (simp add: start_string_def parser_ok_def)

lemma advance_escape_ok: "parser_ok p \<Longrightarrow> parser_ok (snd (advance_escape p b))"
  by (auto simp: advance_escape_def Let_def start_string_ok parser_ok_def clear_csi_def start_string_def)

lemma advance_string_payload_ok:
  assumes "parser_ok p" "p_state p = StringState k n"
  shows "parser_ok (advance_string_payload p k n [b])"
  using assms
  by (auto simp: advance_string_payload_def parser_ok_def checked_add_def usize_max_def parser_bounds Let_def)

lemma advance_string_ok:
  assumes "parser_ok p" "in_string (p_state p)"
  shows "ok (\<lambda>(_, p'). parser_ok p') (advance_string e p b)"
proof (cases "p_state p")
  case (StringState k n)
  then show ?thesis using assms advance_string_payload_ok [OF assms(1) StringState]
    by (auto simp: advance_string_def finish_string_def parser_ok_def split: string_kind.splits)
next
  case (StringEscape k n)
  have a: "parser_ok (abandon_string p)" using assms by (simp add: abandon_string_def parser_ok_def clear_csi_def)
  show ?thesis using assms StringEscape a advance_escape_ok [OF a, of b]
    by (auto simp: advance_string_def finish_string_def parser_ok_def Let_def split: string_kind.splits prod.splits)
qed (use assms in simp_all)

lemma advance_csi_ok:
  assumes "parser_ok p"
  shows "ok (\<lambda>(_, p'). parser_ok p') (advance_csi_entry p b)"
    and "ok (\<lambda>(_, p'). parser_ok p') (advance_csi_param p b)"
    and "ok (\<lambda>(_, p'). parser_ok p') (advance_csi_intermediate p b)"
  using assms csi_steps_ok [OF assms]
  by (simp_all add: advance_csi_entry_def advance_csi_param_def advance_csi_intermediate_def
      del: ok_Some split_paired_All) simp_all

lemma advance_dispatch_ok:
  assumes "parser_ok p" "\<not> in_string (p_state p)"
  shows "ok (\<lambda>(_, p'). parser_ok p') (advance_dispatch p b)"
  using assms advance_csi_ok [OF assms(1), of b] advance_escape_ok [OF assms(1), of b]
  by (cases "p_state p")
     (simp_all add: advance_dispatch_def designate_charset_def Let_def case_prod_unfold
        split: charset_slot.splits)

lemma advance_ok:
  assumes "parser_ok p"
  shows "ok (\<lambda>(_, p'). parser_ok p') (advance e p b)"
  using assms advance_string_ok [OF assms] advance_dispatch_ok [OF assms]
  by (simp add: advance_def split: option.split)

section \<open>Whole inputs\<close>

text \<open>The operations the parser emits for a run of bytes, \<open>Ignored\<close> included.\<close>

fun parser_run :: "env \<Rightarrow> parser \<Rightarrow> u8 list \<Rightarrow> (terminal_op list \<times> parser) option" where
  "parser_run e p [] = Some ([], p)"
| "parser_run e p (b # bs) = do {
     (operation, p) \<leftarrow> advance e p b;
     (operations, p) \<leftarrow> parser_run e p bs;
     Some (operation # operations, p) }"

lemma parser_run_ok:
  "parser_ok p \<Longrightarrow> ok (\<lambda>(ops, p'). parser_ok p' \<and> length ops = length bs) (parser_run e p bs)"
proof (induction bs arbitrary: p)
  case (Cons b bs)
  then obtain op p1 where a: "advance e p b = Some (op, p1)" "parser_ok p1"
    using advance_ok [of p e b] by (auto simp: ok_iff)
  from Cons.IH [OF a(2)] a(1) show ?case by (auto simp: ok_iff)
qed simp

lemma parser_run_append:
  "parser_run e p bs = Some (ops, p') \<Longrightarrow>
   parser_run e p (bs @ cs) =
     map_option (\<lambda>(ops', q). (ops @ ops', q)) (parser_run e p' cs)"
proof (induction bs arbitrary: p ops)
  case (Cons b bs)
  then show ?case by (auto simp: map_option_case split: bind_splits prod.splits option.splits)
qed (auto simp: map_option_case split: option.splits)

section \<open>Control sequences round-trip\<close>

text \<open>The parameter block that holds the numbers \<open>ns\<close>.\<close>

definition params_of :: "nat list \<Rightarrow> csi_parameters" where
  "params_of ns =
     \<lparr>cp_values = map word_of_nat ns @ replicate (32 - length ns) 0,
      cp_separators = (if ns = [] then [] else Start # replicate (length ns - 1) Semicolon)
                      @ replicate (32 - length ns) Start,
      cp_length = length ns\<rparr>"

fun print_params :: "nat list \<Rightarrow> u8 list" where
  "print_params [] = []"
| "print_params [n] = decimal n"
| "print_params (n # ns) = decimal n @ 0x3b # print_params ns"

text \<open>A control sequence under construction.\<close>

definition csi_at :: "parser \<Rightarrow> parser_state \<Rightarrow> nat list \<Rightarrow> u8 \<Rightarrow> parser" where
  "csi_at p s ns k = (clear_csi p)\<lparr>p_state := s, p_parameters := params_of ns, p_parameter_digits := k\<rparr>"

lemma params_of_Nil: "params_of [] = default_parameters"
  by (simp add: params_of_def default_parameters_def parser_bounds)

lemma replicate_update_0 [simp]: "0 < n \<Longrightarrow> (replicate n x)[0 := y] = y # replicate (n - 1) x"
  by (cases n) simp_all

lemma params_begin:
  assumes "length ns < 32"
  shows "param_begin (params_of ns) (if ns = [] then Start else Semicolon) =
         Some (True, params_of (ns @ [0]))"
  using assms
  by (cases ns)
     (auto simp: param_begin_def params_of_def parser_bounds wr_def list_update_append
        Suc_diff_Suc simp flip: replicate_append_same)

lemma unat_word_of_nat_16 [simp]: "n < 65536 \<Longrightarrow> unat (word_of_nat n :: 16 word) = n"
  by (simp add: unat_of_nat)

lemma params_digit:
  assumes "length vs < 32" "v * 10 + d < 65536" "d < 10"
  shows "append_digit (params_of (vs @ [v])) (u8_of_nat d) = Some (True, params_of (vs @ [v * 10 + d]))"
proof -
  have "unat (u8_of_nat d) = d" using assms by (simp add: u8_of_nat_def unat_of_nat)
  then show ?thesis using assms
    by (simp add: append_digit_def params_of_def rd_def wr_def nth_append list_update_append Let_def)
qed

lemma params_first_digit:
  "d < 10 \<Longrightarrow> append_digit (params_of []) (u8_of_nat d) = Some (True, params_of [d])"
proof -
  assume d: "d < 10"
  have "append_digit (params_of []) (u8_of_nat d) = append_digit (params_of [0]) (u8_of_nat d)"
    using params_begin [of "[]"] by (simp add: append_digit_def params_of_def)
  then show ?thesis using params_digit [of "[]" 0 d] d by simp
qed

lemma params_separator:
  assumes "length vs < 31"
  shows "append_separator (params_of (vs @ [v])) Semicolon = Some (True, params_of (vs @ [v, 0]))"
  using params_begin [of "vs @ [v]"] assms by (simp add: append_separator_def params_of_def)

lemma digit_byte:
  assumes "d < 10"
  shows "0x30 \<le> u8_of_nat (0x30 + d)" "u8_of_nat (0x30 + d) \<le> 0x39"
    "u8_of_nat (0x30 + d) - 0x30 = u8_of_nat d"
    "c0_operation (u8_of_nat (0x30 + d)) = None" "u8_of_nat (0x30 + d) \<notin> {0x18, 0x1a, 0x1b, 0x0e, 0x0f}"
proof -
  have "d \<in> {0,1,2,3,4,5,6,7,8,9}" using assms by auto
  then show "0x30 \<le> u8_of_nat (0x30 + d)" "u8_of_nat (0x30 + d) \<le> 0x39"
    "u8_of_nat (0x30 + d) - 0x30 = u8_of_nat d"
    "c0_operation (u8_of_nat (0x30 + d)) = None" "u8_of_nat (0x30 + d) \<notin> {0x18, 0x1a, 0x1b, 0x0e, 0x0f}"
    by (auto simp: u8_of_nat_def c0_operation_def)
qed

lemma advance_digit_csi:
  assumes "d < 10" "s = CsiEntry \<or> s = CsiParam"
  shows "advance e (csi_at p s ns k) (u8_of_nat (0x30 + d)) =
         append_csi_digit (csi_at p s ns k) (u8_of_nat (0x30 + d))"
proof -
  have "u8_of_nat (0x30 + d) \<noteq> 0x3f" "u8_of_nat (0x30 + d) \<noteq> 0x3e"
    using digit_byte(2) [OF assms(1)] by auto
  then show ?thesis using assms digit_byte [OF assms(1)]
    by (auto simp: advance_def advance_dispatch_def csi_at_def advance_csi_entry_def advance_csi_param_def)
qed

lemma csi_digit:
  assumes "length vs < 32" "v * 10 + d < 65536" "d < 10" "k < 5"
  shows "advance e (csi_at p CsiParam (vs @ [v]) k) (u8_of_nat (0x30 + d)) =
         Some (Ignored, csi_at p CsiParam (vs @ [v * 10 + d]) (k + 1))"
proof -
  have k: "(k = 255) = False" "(5 < k + 1) = False"
    using assms(4) by (auto intro: inc_le simp: not_less)
  show ?thesis
    using params_digit [OF assms(1-3)] digit_byte [OF assms(3)] assms(3)
    by (simp add: advance_digit_csi) (simp add: append_csi_digit_def csi_at_def clear_csi_def Let_def k)
qed

lemma csi_first_digit:
  assumes "d < 10"
  shows "advance e (csi_at p CsiEntry [] 0) (u8_of_nat (0x30 + d)) =
         Some (Ignored, csi_at p CsiParam [d] 1)"
  using params_first_digit [OF assms] digit_byte [OF assms] assms
  by (simp add: advance_digit_csi) (simp add: append_csi_digit_def csi_at_def clear_csi_def Let_def)

text \<open>A printed number, read either at the start of the sequence or into a fresh parameter.\<close>

lemma decimal_length: "n < 10 ^ k \<Longrightarrow> 0 < k \<Longrightarrow> length (decimal n) \<le> k"
proof (induction n arbitrary: k rule: decimal.induct)
  case (1 n)
  show ?case
  proof (cases "n < 10")
    case True
    then show ?thesis using 1 by (simp add: decimal.simps [of n])
  next
    case False
    then obtain k' where k: "k = Suc (Suc k')" using 1(2,3)
      by (cases k; cases "k - 1") auto
    have "n div 10 < 10 ^ Suc k'" using 1(2) k by (simp add: less_mult_imp_div_less)
    then have "length (decimal (n div 10)) \<le> Suc k'" using 1(1) False by blast
    then show ?thesis using False k by (simp add: decimal.simps [of n])
  qed
qed

lemma decimal_nonempty [simp]: "decimal n \<noteq> []"
  by (simp add: decimal.simps [of n])

lemma csi_number:
  assumes start: "\<And>d. d < 10 \<Longrightarrow> advance e q (u8_of_nat (0x30 + d)) = Some (Ignored, csi_at p CsiParam (vs @ [d]) 1)"
    and "length vs < 32" "n < 65536"
  shows "parser_run e q (decimal n) =
         Some (replicate (length (decimal n)) Ignored,
               csi_at p CsiParam (vs @ [n]) (word_of_nat (length (decimal n))))"
  using assms(3)
proof (induction n rule: decimal.induct)
  case (1 n)
  show ?case
  proof (cases "n < 10")
    case True
    then show ?thesis using start by (simp add: decimal.simps [of n])
  next
    case False
    then have IH: "parser_run e q (decimal (n div 10)) =
         Some (replicate (length (decimal (n div 10))) Ignored,
               csi_at p CsiParam (vs @ [n div 10]) (word_of_nat (length (decimal (n div 10)))))"
      using 1 by simp
    have len: "length (decimal (n div 10)) \<le> 4"
      by (rule decimal_length) (use 1(2) in auto)
    have "word_of_nat (length (decimal (n div 10))) < (5 :: u8)"
      using len by (simp add: word_less_nat_alt unat_of_nat)
    moreover have "n div 10 * 10 + n mod 10 = n" by simp
    ultimately have step: "advance e (csi_at p CsiParam (vs @ [n div 10]) (word_of_nat (length (decimal (n div 10)))))
        (u8_of_nat (0x30 + n mod 10)) = Some (Ignored, csi_at p CsiParam (vs @ [n])
          (word_of_nat (length (decimal (n div 10))) + 1))"
      using csi_digit [of vs "n div 10" "n mod 10"] assms(2) 1(2) by simp
    show ?thesis
      using False step parser_run_append [OF IH, of "[u8_of_nat (0x30 + n mod 10)]"]
      by (simp add: decimal.simps [of n] add.commute replicate_append_same)
  qed
qed

lemma csi_separator:
  assumes "length vs < 31"
  shows "advance e (csi_at p CsiParam (vs @ [v]) k) 0x3b = Some (Ignored, csi_at p CsiParam (vs @ [v, 0]) 0)"
  using params_separator [OF assms]
  by (simp add: advance_def c0_operation_def advance_dispatch_def csi_at_def advance_csi_param_def
      append_csi_separator_def clear_csi_def)

lemma csi_params_tail:
  assumes "length vs + length ns \<le> 32" "\<forall>n \<in> set ns. n < 65536" "ns \<noteq> []"
  shows "\<exists>k. parser_run e (csi_at p CsiParam (vs @ [0]) 0) (print_params ns) =
         Some (replicate (length (print_params ns)) Ignored, csi_at p CsiParam (vs @ ns) k)"
  using assms
proof (induction ns arbitrary: vs rule: print_params.induct)
  case (2 n)
  then show ?case using csi_digit [of vs 0] by (auto simp: csi_number)
next
  case (3 n m ns)
  have num: "parser_run e (csi_at p CsiParam (vs @ [0]) 0) (decimal n) =
     Some (replicate (length (decimal n)) Ignored,
           csi_at p CsiParam (vs @ [n]) (word_of_nat (length (decimal n))))"
    using 3(2,3) csi_digit [of vs 0] by (intro csi_number) auto
  obtain k where "parser_run e (csi_at p CsiParam ((vs @ [n]) @ [0]) 0) (print_params (m # ns)) =
         Some (replicate (length (print_params (m # ns))) Ignored, csi_at p CsiParam ((vs @ [n]) @ m # ns) k)"
    using 3(1) [of "vs @ [n]"] 3(2,3) by auto
  then show ?case
    using parser_run_append [OF num, of "0x3b # print_params (m # ns)"] 3(2)
    by (auto simp: csi_separator replicate_add [symmetric] simp flip: replicate_Suc)
qed simp


lemma csi_params:
  assumes "length ns \<le> 32" "\<forall>n \<in> set ns. n < 65536"
  shows "\<exists>s k. (s = CsiEntry \<or> s = CsiParam) \<and>
         parser_run e (csi_at p CsiEntry [] 0) (print_params ns) =
         Some (replicate (length (print_params ns)) Ignored, csi_at p s ns k)"
proof (cases ns)
  case (Cons n ms)
  have num: "parser_run e (csi_at p CsiEntry [] 0) (decimal n) =
     Some (replicate (length (decimal n)) Ignored,
           csi_at p CsiParam ([] @ [n]) (word_of_nat (length (decimal n))))"
    using assms Cons csi_first_digit by (intro csi_number) auto
  show ?thesis
  proof (cases ms)
    case (Cons m ms')
    obtain k where "parser_run e (csi_at p CsiParam ([n] @ [0]) 0) (print_params ms) =
         Some (replicate (length (print_params ms)) Ignored, csi_at p CsiParam ([n] @ ms) k)"
      using csi_params_tail [of "[n]" ms e p] assms \<open>ns = n # ms\<close> Cons by auto
    then show ?thesis
      using parser_run_append [OF num, of "0x3b # print_params ms"] \<open>ns = n # ms\<close> Cons
        csi_separator [of "[]" e p n]
      by (auto simp: replicate_add [symmetric] simp flip: replicate_Suc)
  qed (use num Cons in auto)
qed auto

lemma csi_entry:
  assumes "\<not> in_string (p_state p)"
  shows "parser_run e p [0x1b, 0x5b] = Some ([Ignored, Ignored], csi_at p CsiEntry [] 0)"
  using assms
  by (simp add: advance_def advance_dispatch_def advance_escape_def escape_op_def c0_operation_def
      csi_at_def clear_csi_def params_of_Nil Let_def)

lemma params_of_no_colon [simp]: "\<not> has_colon (params_of ns)"
  by (auto simp: has_colon_def params_of_def dest!: in_set_takeD)

lemma csi_final:
  assumes "s = CsiEntry \<or> s = CsiParam" "0x40 \<le> f" "f \<le> 0x7e"
  shows "advance e (csi_at p s ns k) f = Some (csi_plain_op f (params_of ns), clear_csi (p\<lparr>p_state := Ground\<rparr>))"
proof -
  have f: "f \<notin> {0x18, 0x1a, 0x1b, 0x0e, 0x0f, 0x3f, 0x3e, 0x3b, 0x3a}" "\<not> f \<le> 0x39" "\<not> f \<le> 0x2f"
    using assms(2) by (auto simp: word_le_nat_alt)
  have "c0_operation f = None" using assms(2) by (auto simp: c0_operation_def)
  then show ?thesis using assms f
    by (auto simp: advance_def advance_dispatch_def csi_at_def advance_csi_entry_def
        advance_csi_param_def complete_csi_def clear_csi_def Let_def)
qed

lemma csi_run:
  assumes "\<not> in_string (p_state p)" "length ns \<le> 32" "\<forall>n \<in> set ns. n < 65536"
    "0x40 \<le> f" "f \<le> 0x7e"
  shows "parser_run e p ([0x1b, 0x5b] @ print_params ns @ [f]) =
         Some (replicate (2 + length (print_params ns)) Ignored @ [csi_plain_op f (params_of ns)],
               clear_csi (p\<lparr>p_state := Ground\<rparr>))"
proof -
  obtain s k where s: "s = CsiEntry \<or> s = CsiParam"
    and run: "parser_run e (csi_at p CsiEntry [] 0) (print_params ns) =
         Some (replicate (length (print_params ns)) Ignored, csi_at p s ns k)"
    using csi_params [OF assms(2,3)] by blast
  have "parser_run e (csi_at p CsiEntry [] 0) (print_params ns @ [f]) =
        Some (replicate (length (print_params ns)) Ignored @ [csi_plain_op f (params_of ns)],
              clear_csi (p\<lparr>p_state := Ground\<rparr>))"
    using parser_run_append [OF run, of "[f]"] csi_final [OF s assms(4,5), of e p ns k] by simp
  then show ?thesis
    using parser_run_append [OF csi_entry [OF assms(1)], of e "print_params ns @ [f]"] by simp
qed

lemma params_of_value:
  assumes "length ns \<le> 32" "\<forall>n \<in> set ns. n < 65536"
  shows "param_value (params_of ns) i = (if i < length ns then Some (word_of_nat (ns ! i)) else None)"
  using assms by (simp add: param_value_def params_of_def rd_def nth_append)

section \<open>Strings\<close>

lemma sanitize_title_bound: "length (sanitize_title s) \<le> 256 \<and> (\<forall>c \<in> set (sanitize_title s). \<not> is_control c)"
  by (auto simp: sanitize_title_def dest!: in_set_takeD)

lemma palette_loop_bound:
  "length qs \<le> 64 \<Longrightarrow> length (palette_queries_loop fs qs) \<le> 64"
  by (induction fs qs rule: palette_queries_loop.induct)
     (auto simp: MAX_COLOR_QUERIES_def split: option.splits)

lemma dynamic_bound: "length (parse_dynamic_queries n d) \<le> 64"
proof -
  have "length (List.map_filter f xs) \<le> length xs" for f :: "nat \<times> u8 list \<Rightarrow> color_query option" and xs
    by (simp add: List.map_filter_def)
  note * = this
  have "length (filter P (take 64 xs)) \<le> 64" for P and xs :: "(nat \<times> u8 list) list"
    by (rule order.trans [OF length_filter_le]) simp
  then show ?thesis unfolding parse_dynamic_queries_def MAX_COLOR_QUERIES_def
    by (rule order.trans [OF *])
qed

text \<open>What any OSC payload can make of a title, a hyperlink or a colour report.\<close>

definition osc_bounded :: "osc_action \<Rightarrow> bool" where
  "osc_bounded a = (case a of
      SetTitle t \<Rightarrow> length t \<le> 256 \<and> (\<forall>c \<in> set t. \<not> is_control c)
    | SetHyperlink _ \<Rightarrow> True
    | ReportColors qs _ \<Rightarrow> qs \<noteq> [] \<and> length qs \<le> 64)"

lemma parse_osc_bounded: "parse_osc e payload t = Some a \<Longrightarrow> osc_bounded a"
  using sanitize_title_bound palette_loop_bound [of "[]"] dynamic_bound
  by (auto simp: parse_osc_def osc_bounded_def color_action_def parse_palette_queries_def Let_def
      split: option.splits prod.splits if_splits)

end
