(* ===== verification/Input.thy ===== *)
theory Input
  imports Parser_Proofs
begin

text \<open>
  The bounded transport queues of \<open>replies.rs\<close> and the typed input events of \<open>input.rs\<close>: key,
  modified-key, paste and mouse encodings, and the inert prepared batch.  \<open>alloc\<close> stands for the
  allocator's answer to \<open>try_reserve\<close>.
\<close>

section \<open>Transport queues\<close>

definition TRANSPORT_QUEUE_HIGH_WATERMARK :: nat where
  "TRANSPORT_QUEUE_HIGH_WATERMARK = 64 * 1024"

record queue_push_result =
  accepted :: nat
  overflowed :: bool

definition queue_transport_bytes ::
  "env \<Rightarrow> u8 list \<Rightarrow> u8 list \<Rightarrow> queue_push_result \<times> u8 list" where
  "queue_transport_bytes e queue bytes =
     (case checked_sub TRANSPORT_QUEUE_HIGH_WATERMARK (length queue) of
        None \<Rightarrow> (\<lparr>accepted = 0, overflowed = True\<rparr>, queue)
      | Some remaining \<Rightarrow>
          if remaining < length bytes \<or> \<not> alloc e (length bytes)
          then (\<lparr>accepted = 0, overflowed = True\<rparr>, queue)
          else (\<lparr>accepted = length bytes, overflowed = False\<rparr>, queue @ bytes))"

section \<open>Keys\<close>

datatype keypad_key =
    KpDigit u8 | KpDecimal | KpEnter | KpAdd | KpSubtract | KpMultiply | KpDivide | KpEqual | KpSeparator

datatype key =
    KeyCharacter scalar
  | KeyControl scalar
  | KeyEnter | KeyTab | KeyBackspace | KeyEscape
  | KeyArrowUp | KeyArrowDown | KeyArrowRight | KeyArrowLeft
  | KeyPageUp | KeyPageDown | KeyHome | KeyEnd | KeyInsert | KeyDelete
  | KeyFunction u8
  | KeyKeypad keypad_key

datatype focus_event = FocusIn | FocusOut

datatype mouse_button = LeftButton | MiddleButton | RightButton

datatype mouse_wheel = WheelUp | WheelDown

datatype mouse_event_kind =
    Press mouse_button
  | Release mouse_button
  | Move "mouse_button option"
  | Wheel mouse_wheel

text \<open>\<open>Modifiers\<close> is its \<open>bits\<close>.\<close>

type_synonym modifiers = u8

definition NO_MODIFIERS :: modifiers where "NO_MODIFIERS = 0"
definition SHIFT :: modifiers where "SHIFT = 1"
definition ALT :: modifiers where "ALT = 2"
definition CONTROL :: modifiers where "CONTROL = 4"

lemmas modifier_defs = NO_MODIFIERS_def SHIFT_def ALT_def CONTROL_def

unbundle bit_operations_syntax

definition mod_contains :: "modifiers \<Rightarrow> modifiers \<Rightarrow> bool" where
  "mod_contains m other \<longleftrightarrow> m AND other = other"

definition mod_with :: "modifiers \<Rightarrow> modifiers \<Rightarrow> modifiers" where
  "mod_with m other = m OR other"

definition mouse_bits :: "modifiers \<Rightarrow> u8" where
  "mouse_bits m = (if mod_contains m SHIFT then 4 else 0) OR (if mod_contains m ALT then 8 else 0)
                  OR (if mod_contains m CONTROL then 16 else 0)"

record mouse_event =
  me_kind :: mouse_event_kind
  me_column :: nat
  me_row :: nat
  me_modifiers :: modifiers

datatype input_event =
    KeyEvent key
  | ModifiedKey key modifiers
  | Paste str
  | Focus focus_event
  | Mouse mouse_event

datatype input_event_outcome =
    Encoded nat
  | SelectionAllowed
  | SelectionClaimed
  | QueueOverflow
  | Rejected

definition control_byte :: "scalar \<Rightarrow> u8 option" where
  "control_byte c =
     (if 0x61 \<le> c \<and> c \<le> 0x7a then Some (u8_of_nat (c - 0x20) - 0x41 + 1)
      else if 0x41 \<le> c \<and> c \<le> 0x5a then Some (u8_of_nat c - 0x41 + 1)
      else if c = 0x20 then Some 0x00
      else if c = 0x5b then Some 0x1b
      else if c = 0x5c then Some 0x1c
      else if c = 0x5d then Some 0x1d
      else None)"

datatype function_code = Ss3 u8 | Tilde u8

definition function_key_code :: "u8 \<Rightarrow> function_code option" where
  "function_key_code number =
     (if 1 \<le> number \<and> number \<le> 4 then Some (Ss3 (0x50 + number - 1))
      else if number = 5 then Some (Tilde 15)
      else if 6 \<le> number \<and> number \<le> 10 then Some (Tilde (11 + number))
      else if number = 11 \<or> number = 12 then Some (Tilde (12 + number))
      else None)"

definition cursor_key_bytes :: "u8 \<Rightarrow> bool \<Rightarrow> u8 list" where
  "cursor_key_bytes final_byte application =
     (if application then [0x1b, 0x4f, final_byte] else [0x1b, 0x5b, final_byte])"

definition keypad_normal :: "keypad_key \<Rightarrow> u8 list option" where
  "keypad_normal k = (case k of
      KpDigit digit \<Rightarrow> if digit \<le> 9 then Some [0x30 + digit] else None
    | KpDecimal \<Rightarrow> Some (ascii ''.'') | KpEnter \<Rightarrow> Some [0x0d] | KpAdd \<Rightarrow> Some (ascii ''+'')
    | KpSubtract \<Rightarrow> Some (ascii ''-'') | KpMultiply \<Rightarrow> Some (ascii ''*'')
    | KpDivide \<Rightarrow> Some (ascii ''/'') | KpEqual \<Rightarrow> Some (ascii ''='') | KpSeparator \<Rightarrow> Some (ascii '',''))"

definition keypad_final :: "keypad_key \<Rightarrow> u8 option" where
  "keypad_final k = (case k of
      KpDigit digit \<Rightarrow>
        (if digit = 0 then Some 0x70 else if digit = 1 then Some 0x71 else if digit = 2 then Some 0x72
         else if digit = 3 then Some 0x73 else if digit = 4 then Some 0x74
         else if digit = 5 then Some 0x75 else if digit = 6 then Some 0x76
         else if digit = 7 then Some 0x77 else if digit = 8 then Some 0x78
         else if digit = 9 then Some 0x79 else None)
    | KpDecimal \<Rightarrow> Some 0x6e | KpEnter \<Rightarrow> Some 0x4d | KpAdd \<Rightarrow> Some 0x6b | KpSubtract \<Rightarrow> Some 0x6d
    | KpMultiply \<Rightarrow> Some 0x6a | KpDivide \<Rightarrow> Some 0x6f | KpEqual \<Rightarrow> Some 0x58 | KpSeparator \<Rightarrow> Some 0x6c)"

definition keypad_key_bytes :: "keypad_key \<Rightarrow> bool \<Rightarrow> u8 list option" where
  "keypad_key_bytes k application = do {
     normal \<leftarrow> keypad_normal k;
     if \<not> application then Some normal
     else do { final_byte \<leftarrow> keypad_final k; Some [0x1b, 0x4f, final_byte] } }"

definition encode_key :: "key \<Rightarrow> terminal_modes \<Rightarrow> u8 list option" where
  "encode_key k modes =
     (if keyboard_locked modes then None
      else case k of
        KeyCharacter character \<Rightarrow> Some (encode_utf8 character)
      | KeyControl character \<Rightarrow> do { b \<leftarrow> control_byte character; Some [b] }
      | KeyEnter \<Rightarrow> Some [0x0d]
      | KeyTab \<Rightarrow> Some [0x09]
      | KeyBackspace \<Rightarrow> Some [if backarrow_sends_backspace modes then 0x08 else 0x7f]
      | KeyEscape \<Rightarrow> Some [0x1b]
      | KeyArrowUp \<Rightarrow> Some (cursor_key_bytes 0x41 (application_cursor modes))
      | KeyArrowDown \<Rightarrow> Some (cursor_key_bytes 0x42 (application_cursor modes))
      | KeyArrowRight \<Rightarrow> Some (cursor_key_bytes 0x43 (application_cursor modes))
      | KeyArrowLeft \<Rightarrow> Some (cursor_key_bytes 0x44 (application_cursor modes))
      | KeyPageUp \<Rightarrow> Some (0x1b # ascii ''[5~'')
      | KeyPageDown \<Rightarrow> Some (0x1b # ascii ''[6~'')
      | KeyHome \<Rightarrow> Some (cursor_key_bytes 0x48 (application_cursor modes))
      | KeyEnd \<Rightarrow> Some (cursor_key_bytes 0x46 (application_cursor modes))
      | KeyInsert \<Rightarrow> Some (0x1b # ascii ''[2~'')
      | KeyDelete \<Rightarrow> Some (0x1b # ascii ''[3~'')
      | KeyFunction number \<Rightarrow>
          (case function_key_code number of
             None \<Rightarrow> None
           | Some (Ss3 final_byte) \<Rightarrow> Some [0x1b, 0x4f, final_byte]
           | Some (Tilde code) \<Rightarrow> Some ([0x1b, 0x5b] @ decimal (unat code) @ [0x7e]))
      | KeyKeypad kp \<Rightarrow> keypad_key_bytes kp (application_keypad modes))"

definition modifier_parameter :: "modifiers \<Rightarrow> u8" where
  "modifier_parameter m = 1 + (if mod_contains m SHIFT then 1 else 0)
     + 2 * (if mod_contains m ALT then 1 else 0) + 4 * (if mod_contains m CONTROL then 1 else 0)"

text \<open>The two \<open>match\<close>es of \<open>encode_modified_key\<close>: the outer option is the \<open>?\<close> of
  \<open>function_key_code\<close>.\<close>

definition cursor_final :: "key \<Rightarrow> u8 option option" where
  "cursor_final k = (case k of
      KeyHome \<Rightarrow> Some (Some 0x48)
    | KeyEnd \<Rightarrow> Some (Some 0x46)
    | KeyFunction number \<Rightarrow>
        (case function_key_code number of None \<Rightarrow> None
         | Some (Ss3 final_byte) \<Rightarrow> Some (Some final_byte) | Some (Tilde _) \<Rightarrow> Some None)
    | KeyArrowUp \<Rightarrow> Some (Some 0x41)
    | KeyArrowDown \<Rightarrow> Some (Some 0x42)
    | KeyArrowRight \<Rightarrow> Some (Some 0x43)
    | KeyArrowLeft \<Rightarrow> Some (Some 0x44)
    | _ \<Rightarrow> Some None)"

definition tilde_code :: "key \<Rightarrow> u8 option option" where
  "tilde_code k = (case k of
      KeyInsert \<Rightarrow> Some (Some 2)
    | KeyDelete \<Rightarrow> Some (Some 3)
    | KeyPageUp \<Rightarrow> Some (Some 5)
    | KeyPageDown \<Rightarrow> Some (Some 6)
    | KeyFunction number \<Rightarrow>
        (case function_key_code number of None \<Rightarrow> None
         | Some (Tilde code) \<Rightarrow> Some (Some code) | Some (Ss3 _) \<Rightarrow> Some None)
    | _ \<Rightarrow> Some None)"

definition is_character_key :: "key \<Rightarrow> bool" where
  "is_character_key k = (case k of KeyCharacter _ \<Rightarrow> True | KeyControl _ \<Rightarrow> True | _ \<Rightarrow> False)"

definition encode_modified_key :: "key \<Rightarrow> modifiers \<Rightarrow> terminal_modes \<Rightarrow> u8 list option" where
  "encode_modified_key k m modes =
     (if keyboard_locked modes then None
      else if m = NO_MODIFIERS then encode_key k modes
      else if k = KeyTab \<and> m = SHIFT then Some (0x1b # ascii ''[Z'')
      else case cursor_final k of
        None \<Rightarrow> None
      | Some (Some final_byte) \<Rightarrow>
          Some ([0x1b, 0x5b, 0x31, 0x3b] @ decimal (unat (modifier_parameter m)) @ [final_byte])
      | Some None \<Rightarrow>
          (case tilde_code k of
             None \<Rightarrow> None
           | Some (Some code) \<Rightarrow>
               Some ([0x1b, 0x5b] @ decimal (unat code) @ [0x3b]
                     @ decimal (unat (modifier_parameter m)) @ [0x7e])
           | Some None \<Rightarrow>
               if mod_contains m SHIFT \<and> \<not> is_character_key k then None
               else do {
                 k' \<leftarrow> (if mod_contains m CONTROL then
                          (case k of KeyCharacter c \<Rightarrow> Some (KeyControl c)
                           | KeyControl c \<Rightarrow> Some (KeyControl c) | _ \<Rightarrow> None)
                        else Some k);
                 bytes \<leftarrow> encode_key k' modes;
                 Some (if mod_contains m ALT then 0x1b # bytes else bytes) }))"

section \<open>Paste\<close>

text \<open>The \<open>retain_mut\<close> closure and its captured \<open>previous_was_cr\<close>.\<close>

fun normalize_breaks :: "bool \<Rightarrow> u8 list \<Rightarrow> u8 list" where
  "normalize_breaks previous_was_cr [] = []"
| "normalize_breaks previous_was_cr (b # bs) =
     (let crlf_end = previous_was_cr \<and> b = 0x0a;
          out = (if b = 0x0a then 0x0d else b);
          rest = normalize_breaks (b = 0x0d) bs
      in if crlf_end then rest else out # rest)"

fun crlf_pairs :: "u8 list \<Rightarrow> nat" where
  "crlf_pairs (a # b # bs) = (if a = 0x0d \<and> b = 0x0a then 1 else 0) + crlf_pairs (b # bs)"
| "crlf_pairs _ = 0"

definition PASTE_START :: "u8 list" where "PASTE_START = 0x1b # ascii ''[200~''"
definition PASTE_END :: "u8 list" where "PASTE_END = 0x1b # ascii ''[201~''"

definition paste_encoded_length :: "str \<Rightarrow> terminal_modes \<Rightarrow> nat option" where
  "paste_encoded_length text modes =
     (if bracketed_paste modes
      then do { n \<leftarrow> checked_add (length (str_bytes text)) (length PASTE_START);
                checked_add n (length PASTE_END) }
      else Some (length (str_bytes text) - crlf_pairs (str_bytes text)))"

definition encode_paste :: "env \<Rightarrow> str \<Rightarrow> terminal_modes \<Rightarrow> u8 list option" where
  "encode_paste e text modes =
     (if \<not> bracketed_paste modes then Some (normalize_breaks False (str_bytes text))
      else do {
        capacity \<leftarrow> paste_encoded_length text modes;
        if alloc e capacity then Some (PASTE_START @ str_bytes text @ PASTE_END) else None })"

section \<open>Mouse\<close>

definition mouse_event_is_reported :: "mouse_event_kind \<Rightarrow> mouse_tracking_mode \<Rightarrow> bool" where
  "mouse_event_is_reported kind tracking = (case kind of
      Press _ \<Rightarrow> True
    | Wheel _ \<Rightarrow> True
    | Release _ \<Rightarrow> tracking \<noteq> X10
    | Move (Some _) \<Rightarrow> tracking = ButtonMotion \<or> tracking = AnyMotion
    | Move None \<Rightarrow> tracking = AnyMotion)"

definition mouse_button_code :: "mouse_button \<Rightarrow> u8" where
  "mouse_button_code b = (case b of LeftButton \<Rightarrow> 0 | MiddleButton \<Rightarrow> 1 | RightButton \<Rightarrow> 2)"

definition mouse_code :: "mouse_event \<Rightarrow> bool \<Rightarrow> u8 \<times> u8" where
  "mouse_code ev sgr =
     (let m = mouse_bits (me_modifiers ev)
      in case me_kind ev of
           Press button \<Rightarrow> (mouse_button_code button OR m, 0x4d)
         | Release button \<Rightarrow>
             ((if sgr then mouse_button_code button else 3) OR m, if sgr then 0x6d else 0x4d)
         | Move button \<Rightarrow>
             ((case button of None \<Rightarrow> 3 | Some b \<Rightarrow> mouse_button_code b) OR m OR 32, 0x4d)
         | Wheel WheelUp \<Rightarrow> (64 OR m, 0x4d)
         | Wheel WheelDown \<Rightarrow> (65 OR m, 0x4d))"

definition encode_sgr_mouse :: "mouse_event \<Rightarrow> u8 list option" where
  "encode_sgr_mouse ev = do {
     column \<leftarrow> checked_add (me_column ev) 1;
     row \<leftarrow> checked_add (me_row ev) 1;
     let (code, final_byte) = mouse_code ev True;
     Some ([0x1b, 0x5b, 0x3c] @ decimal (unat code) @ [0x3b] @ decimal column @ [0x3b]
           @ decimal row @ [final_byte]) }"

definition MAX_LEGACY_COORDINATE :: nat where "MAX_LEGACY_COORDINATE = 222"

definition encode_legacy_mouse :: "mouse_event \<Rightarrow> u8 list option" where
  "encode_legacy_mouse ev =
     (if MAX_LEGACY_COORDINATE < me_column ev \<or> MAX_LEGACY_COORDINATE < me_row ev then None
      else let (code, _) = mouse_code ev False in
        Some [0x1b, 0x5b, 0x4d, code + 32, u8_of_nat (me_column ev) + 33, u8_of_nat (me_row ev) + 33])"

section \<open>Prepared batches\<close>

definition MAX_PREPARED_INPUT_EVENTS :: nat where "MAX_PREPARED_INPUT_EVENTS = 64"

datatype input_preparation_error =
  PrepEmpty | PrepTooManyEvents | PrepTooLarge | PrepUnsupportedEvent | PrepRejected | PrepAllocation

record prepared_input =
  pi_bytes :: "u8 list"
  pi_modes :: terminal_modes

definition ok_or :: "'a option \<Rightarrow> 'b \<Rightarrow> 'b + 'a" where
  "ok_or m err = (case m of None \<Rightarrow> Inl err | Some x \<Rightarrow> Inr x)"

definition encode_event ::
  "env \<Rightarrow> terminal_modes \<Rightarrow> nat \<Rightarrow> input_event \<Rightarrow> input_preparation_error + u8 list" where
  "encode_event e modes remaining event = (case event of
      KeyEvent k \<Rightarrow> ok_or (encode_key k modes) PrepRejected
    | ModifiedKey k m \<Rightarrow> ok_or (encode_modified_key k m modes) PrepRejected
    | Paste text \<Rightarrow>
        if sat_mul remaining 2 < length (str_bytes text) then Inl PrepTooLarge
        else (case paste_encoded_length text modes of
                None \<Rightarrow> Inl PrepTooLarge
              | Some n \<Rightarrow>
                  if remaining < n then Inl PrepTooLarge
                  else if \<not> alloc e (length (str_bytes text)) then Inl PrepAllocation
                  else ok_or (encode_paste e text modes) PrepAllocation)
    | Focus _ \<Rightarrow> Inl PrepUnsupportedEvent
    | Mouse _ \<Rightarrow> Inl PrepUnsupportedEvent)"

text \<open>The loop; the outer option is the panic of an underflowing \<open>limit - bytes.len()\<close>.\<close>

fun prepare_loop ::
  "env \<Rightarrow> terminal_modes \<Rightarrow> nat \<Rightarrow> input_event list \<Rightarrow> u8 list \<Rightarrow>
     (input_preparation_error + u8 list) option" where
  "prepare_loop e modes limit [] bytes = Some (Inr bytes)"
| "prepare_loop e modes limit (event # events) bytes = do {
     remaining \<leftarrow> checked_sub limit (length bytes);
     case encode_event e modes remaining event of
       Inl err \<Rightarrow> Some (Inl err)
     | Inr encoded \<Rightarrow>
         if remaining < length encoded then Some (Inl PrepTooLarge)
         else if \<not> alloc e (length encoded) then Some (Inl PrepAllocation)
         else prepare_loop e modes limit events (bytes @ encoded) }"

definition prepare_input ::
  "env \<Rightarrow> terminal_modes \<Rightarrow> input_event list \<Rightarrow> nat \<Rightarrow> (input_preparation_error + prepared_input) option"
where
  "prepare_input e modes events max_bytes =
     (if events = [] then Some (Inl PrepEmpty)
      else if MAX_PREPARED_INPUT_EVENTS < length events then Some (Inl PrepTooManyEvents)
      else do {
        r \<leftarrow> prepare_loop e modes (min max_bytes TRANSPORT_QUEUE_HIGH_WATERMARK) events [];
        Some (case r of
                Inl err \<Rightarrow> Inl err
              | Inr bytes \<Rightarrow> if bytes = [] then Inl PrepEmpty
                            else Inr \<lparr>pi_bytes = bytes, pi_modes = modes\<rparr>) })"

section \<open>The queue contract\<close>

text \<open>
  What every transport queue promises: a write is accepted whole or not at all, the result says
  which, and what is accepted never takes the queue past its limit.
\<close>

fun push_all :: "('q \<Rightarrow> u8 list \<Rightarrow> queue_push_result \<times> 'q) \<Rightarrow> 'q \<Rightarrow> u8 list list \<Rightarrow> queue_push_result list \<times> 'q"
where
  "push_all push q [] = ([], q)"
| "push_all push q (bs # bss) =
     (let (r, q) = push q bs; (rs, q) = push_all push q bss in (r # rs, q))"

fun accepted_bytes :: "queue_push_result list \<Rightarrow> u8 list list \<Rightarrow> u8 list" where
  "accepted_bytes (r # rs) (bs # bss) = (if overflowed r then [] else bs) @ accepted_bytes rs bss"
| "accepted_bytes _ _ = []"

locale bounded_queue =
  fixes push :: "'q \<Rightarrow> u8 list \<Rightarrow> queue_push_result \<times> 'q"
    and contents :: "'q \<Rightarrow> u8 list"
    and limit :: nat
  assumes push_accept: "push q bs = (r, q') \<Longrightarrow> \<not> overflowed r \<Longrightarrow>
      accepted r = length bs \<and> contents q' = contents q @ bs \<and> length (contents q') \<le> limit"
    and push_reject: "push q bs = (r, q') \<Longrightarrow> overflowed r \<Longrightarrow> accepted r = 0 \<and> q' = q"
begin

lemma push_bounded: "push q bs = (r, q') \<Longrightarrow> length (contents q) \<le> limit \<Longrightarrow> length (contents q') \<le> limit"
  by (cases "overflowed r") (auto dest: push_accept push_reject)

lemma push_all_contents:
  "push_all push q bss = (rs, q') \<Longrightarrow>
     contents q' = contents q @ accepted_bytes rs bss \<and>
     sum_list (map accepted rs) = length (accepted_bytes rs bss) \<and>
     (length (contents q) \<le> limit \<longrightarrow> length (contents q') \<le> limit)"
proof (induction bss arbitrary: q rs q')
  case (Cons bs bss)
  obtain r q1 where p: "push q bs = (r, q1)" by force
  obtain rs1 q2 where a: "push_all push q1 bss = (rs1, q2)" by force
  have eq: "rs = r # rs1" "q' = q2" using Cons.prems p a by auto
  from Cons.IH [OF a] push_accept [OF p] push_reject [OF p] show ?case
    unfolding eq by (cases "overflowed r") auto
qed simp

end

interpretation tq: bounded_queue "queue_transport_bytes e" "\<lambda>q. q" TRANSPORT_QUEUE_HIGH_WATERMARK for e
  by unfold_locales
     (auto simp: queue_transport_bytes_def checked_sub_def split: if_splits)

section \<open>Paste\<close>

lemma normalize_breaks_length:
  "length (normalize_breaks prev bs) + crlf_pairs bs + (if prev \<and> bs \<noteq> [] \<and> hd bs = 0x0a then 1 else 0) = length bs"
proof (induction bs arbitrary: prev)
  case (Cons b bs)
  show ?case using Cons [of "b = 0x0d"] by (cases bs) (auto simp: Let_def)
qed simp

lemma crlf_pairs_hd:
  "2 * crlf_pairs bs + (if bs \<noteq> [] \<and> hd bs = 0x0a then 1 else 0) \<le> length bs"
  by (induction bs rule: crlf_pairs.induct) (auto split: if_splits)

lemma crlf_pairs_le: "2 * crlf_pairs bs \<le> length bs"
  using crlf_pairs_hd [of bs] by simp

text \<open>The reference: cut at CRLF, CR and LF, join with CR.\<close>

fun break_lines :: "u8 list \<Rightarrow> u8 list list" where
  "break_lines [] = [[]]"
| "break_lines (b # bs) =
     (if b = 0x0d \<and> bs \<noteq> [] \<and> hd bs = 0x0a then [] # break_lines (tl bs)
      else if b = 0x0d \<or> b = 0x0a then [] # break_lines bs
      else case break_lines bs of [] \<Rightarrow> [] | l # ls \<Rightarrow> (b # l) # ls)"

fun join_cr :: "u8 list list \<Rightarrow> u8 list" where
  "join_cr [] = []"
| "join_cr [l] = l"
| "join_cr (l # ls) = l @ 0x0d # join_cr ls"

lemma break_lines_nonempty [simp]: "break_lines bs \<noteq> []"
  by (induction bs rule: break_lines.induct) (auto split: list.splits)

lemma join_cr_Cons: "ls \<noteq> [] \<Longrightarrow> join_cr (l # ls) = l @ 0x0d # join_cr ls"
  by (cases ls) simp_all

lemma join_cr_push: "join_cr ((b # l) # ls) = b # join_cr (l # ls)"
  by (cases ls) simp_all

lemma normalize_breaks_lines: "normalize_breaks False bs = join_cr (break_lines bs)"
proof (induction bs rule: break_lines.induct)
  case (2 b bs)
  have skip: "normalize_breaks True bs = normalize_breaks False (if bs \<noteq> [] \<and> hd bs = 0x0a then tl bs else bs)"
    by (cases bs) (simp_all add: Let_def)
  show ?case
  proof (cases "b = 0x0d \<or> b = 0x0a")
    case True
    then show ?thesis using 2 skip by (auto simp: Let_def join_cr_Cons)
  next
    case False
    obtain l ls where "break_lines bs = l # ls" by (cases "break_lines bs") auto
    then show ?thesis using 2(3) False by (simp add: Let_def join_cr_push)
  qed
qed simp

lemma normalize_breaks_no_lf: "0x0a \<notin> set (normalize_breaks prev bs)"
  by (induction bs arbitrary: prev) (auto simp: Let_def)

lemma encode_paste_length:
  "encode_paste e text modes = Some bs \<Longrightarrow> paste_encoded_length text modes = Some (length bs)"
  using normalize_breaks_length [of False "str_bytes text"]
  by (auto simp: encode_paste_def paste_encoded_length_def checked_add_def split: if_splits bind_splits)

section \<open>Prepared batches\<close>

definition event_bytes :: "env \<Rightarrow> terminal_modes \<Rightarrow> input_event \<Rightarrow> u8 list option" where
  "event_bytes e modes event = (case event of
      KeyEvent k \<Rightarrow> encode_key k modes
    | ModifiedKey k m \<Rightarrow> encode_modified_key k m modes
    | Paste text \<Rightarrow> encode_paste e text modes
    | _ \<Rightarrow> None)"

lemma encode_event_sound: "encode_event e modes n ev = Inr bs \<Longrightarrow> event_bytes e modes ev = Some bs"
  by (auto simp: encode_event_def event_bytes_def ok_or_def split: input_event.splits option.splits if_splits)

text \<open>The length test ahead of the exact one never refuses a paste that fits.\<close>

lemma encode_event_complete:
  assumes "event_bytes e modes ev = Some bs" "length bs \<le> n" "n \<le> TRANSPORT_QUEUE_HIGH_WATERMARK" "\<forall>k. alloc e k"
  shows "encode_event e modes n ev = Inr bs"
proof (cases ev)
  case (Paste t)
  then have enc: "encode_paste e t modes = Some bs" using assms by (simp add: event_bytes_def)
  have "length (str_bytes t) \<le> 2 * length bs"
  proof (cases "bracketed_paste modes")
    case True
    then show ?thesis using enc by (auto simp: encode_paste_def split: bind_splits if_splits)
  next
    case False
    then show ?thesis
      using enc normalize_breaks_length [of False "str_bytes t"] crlf_pairs_le [of "str_bytes t"]
      by (auto simp: encode_paste_def)
  qed
  then have "\<not> sat_mul n 2 < length (str_bytes t)"
    using assms(2,3) by (simp add: sat_mul_def usize_max_def TRANSPORT_QUEUE_HIGH_WATERMARK_def)
  then show ?thesis using Paste enc encode_paste_length [OF enc] assms(2,4)
    by (simp add: encode_event_def ok_or_def)
qed (use assms in \<open>auto simp: encode_event_def event_bytes_def ok_or_def\<close>)

text \<open>What a batch that was prepared consists of.\<close>

definition batch_post :: "env \<Rightarrow> terminal_modes \<Rightarrow> nat \<Rightarrow> input_event list \<Rightarrow> u8 list \<Rightarrow> input_preparation_error + u8 list \<Rightarrow> bool" where
  "batch_post e modes limit evs bytes r = (case r of Inl _ \<Rightarrow> True | Inr out \<Rightarrow> length out \<le> limit \<and>
     (\<exists>bss. map (event_bytes e modes) evs = map Some bss \<and> out = bytes @ concat bss))"

lemma batch_post_step:
  assumes "event_bytes e modes ev = Some enc" "batch_post e modes limit evs (bytes @ enc) r"
  shows "batch_post e modes limit (ev # evs) bytes r"
proof (cases r)
  case (Inr out)
  then obtain bss where "map (event_bytes e modes) evs = map Some bss" "out = (bytes @ enc) @ concat bss"
    "length out \<le> limit" using assms by (auto simp: batch_post_def)
  then show ?thesis using Inr assms(1) by (auto simp: batch_post_def intro!: exI [of _ "enc # bss"])
qed (simp add: batch_post_def)

lemma prepare_loop_sound:
  "length bytes \<le> limit \<Longrightarrow> ok (batch_post e modes limit evs bytes) (prepare_loop e modes limit evs bytes)"
proof (induction evs arbitrary: bytes)
  case (Cons ev evs)
  show ?case
  proof (cases "encode_event e modes (limit - length bytes) ev")
    case (Inr enc)
    have "ok (batch_post e modes limit evs (bytes @ enc)) (prepare_loop e modes limit evs (bytes @ enc))"
      if "length enc \<le> limit - length bytes"
      using Cons.prems that by (intro Cons.IH) simp
    then have "ok (batch_post e modes limit (ev # evs) bytes) (prepare_loop e modes limit evs (bytes @ enc))"
      if "length enc \<le> limit - length bytes"
      by (rule ok_mono [OF _ batch_post_step [OF encode_event_sound [OF Inr]]]) (use that in auto)
    moreover have "batch_post e modes limit (ev # evs) bytes (Inl err)" for err
      by (simp add: batch_post_def)
    ultimately show ?thesis using Cons.prems Inr by (simp add: not_less)
  qed (use Cons in \<open>simp add: batch_post_def\<close>)
qed (simp add: batch_post_def)

lemma prepare_loop_complete:
  assumes "map (event_bytes e modes) evs = map Some bss" "length (bytes @ concat bss) \<le> limit"
    "limit \<le> TRANSPORT_QUEUE_HIGH_WATERMARK" "\<forall>k. alloc e k"
  shows "prepare_loop e modes limit evs bytes = Some (Inr (bytes @ concat bss))"
  using assms(1,2)
proof (induction evs arbitrary: bss bytes)
  case (Cons ev evs)
  then obtain bs bss' where b: "bss = bs # bss'" "event_bytes e modes ev = Some bs"
      "map (event_bytes e modes) evs = map Some bss'" by (cases bss) auto
  have "encode_event e modes (limit - length bytes) ev = Inr bs"
    using b(2) Cons.prems(2) assms(3,4) b(1) by (intro encode_event_complete) auto
  then show ?case using Cons.IH [OF b(3), of "bytes @ bs"] Cons.prems(2) b(1) assms(4) by simp
qed simp

section \<open>Keys and pointer\<close>

lemma mask_bit:
  assumes "n < 8"
  shows "(m AND 2 ^ n = (2 ^ n :: u8)) = bit m n"
proof
  assume "m AND 2 ^ n = (2 ^ n :: u8)"
  then have "bit (m AND 2 ^ n) n = bit (2 ^ n :: u8) n" by simp
  then show "bit m n" using assms by (simp add: bit_and_iff bit_exp_iff)
next
  assume "bit m n"
  then show "m AND 2 ^ n = (2 ^ n :: u8)"
    by (intro bit_word_eqI) (auto simp: bit_and_iff bit_exp_iff)
qed

lemma mod_contains_bits:
  "mod_contains m SHIFT \<longleftrightarrow> bit m 0" "mod_contains m ALT \<longleftrightarrow> bit m 1" "mod_contains m CONTROL \<longleftrightarrow> bit m 2"
  using mask_bit [of 0 m] mask_bit [of 1 m] mask_bit [of 2 m] by (simp_all add: mod_contains_def modifier_defs)

lemma mouse_bits_le: "mouse_bits m \<in> {0, 4, 8, 12, 16, 20, 24, 28}"
  by (auto simp: mouse_bits_def)

lemma mouse_code_bound: "unat (fst (mouse_code ev sgr)) \<le> 93"
proof -
  have "mouse_bits (me_modifiers ev) \<in> {0, 4, 8, 12, 16, 20, 24, 28}" by (rule mouse_bits_le)
  then show ?thesis
    by (auto simp: mouse_code_def mouse_button_code_def Let_def
        split: mouse_event_kind.split mouse_button.split mouse_wheel.split option.split)
qed

end
