(* ===== verification/Input_Props.thy ===== *)
theory Input_Props
  imports Input Sample
begin

text \<open>The correctness statements about typed input and the transport queues.\<close>

text \<open>
  C25. The transport queues are atomic and bounded: after any sequence of pushes the queue holds its old
  contents followed by exactly the byte strings that were accepted, in order and unsplit; the accepted
  counts add up to what was appended; a rejected push leaves the queue as it was; and a queue within the
  64 KiB watermark stays within it.
\<close>

theorem transport_queue_atomic:
  assumes "push_all (queue_transport_bytes e) q bss = (rs, q')"
  shows "q' = q @ accepted_bytes rs bss \<and> sum_list (map accepted rs) = length (accepted_bytes rs bss) \<and>
    (length q \<le> TRANSPORT_QUEUE_HIGH_WATERMARK \<longrightarrow> length q' \<le> TRANSPORT_QUEUE_HIGH_WATERMARK)"
  using tq.push_all_contents [OF assms] .

theorem transport_queue_atomic_witness:
  "push_all (queue_transport_bytes sample_env) [1] [[2, 3], [4]] =
     ([\<lparr>accepted = 2, overflowed = False\<rparr>, \<lparr>accepted = 1, overflowed = False\<rparr>], [1, 2, 3, 4]) \<and>
   length [1, 2, 3, 4 :: u8] \<le> TRANSPORT_QUEUE_HIGH_WATERMARK"
proof -
  have h: "push_all (queue_transport_bytes sample_env) [1] [[2, 3], [4]] =
     ([\<lparr>accepted = 2, overflowed = False\<rparr>, \<lparr>accepted = 1, overflowed = False\<rparr>], [1, 2, 3, 4])"
    by (simp add: queue_transport_bytes_def TRANSPORT_QUEUE_HIGH_WATERMARK_def sample_env_def)
  have "length [1 :: u8] \<le> TRANSPORT_QUEUE_HIGH_WATERMARK" by (simp add: TRANSPORT_QUEUE_HIGH_WATERMARK_def)
  then show ?thesis using h transport_queue_atomic [OF h] by blast
qed

text \<open>
  An unbracketed paste is the pasted text with every line break, CR, LF or CRLF, sent as one CR: it
  equals the lines of the text joined by CR, never contains a line feed, and has exactly the length that
  was computed before encoding.
\<close>

theorem paste_is_lines_joined_by_cr:
  assumes "\<not> bracketed_paste modes"
  shows "\<exists>bs. encode_paste e text modes = Some bs \<and> bs = join_cr (break_lines (str_bytes text)) \<and>
    0x0a \<notin> set bs \<and> paste_encoded_length text modes = Some (length bs)"
proof -
  have "encode_paste e text modes = Some (normalize_breaks False (str_bytes text))"
    using assms by (simp add: encode_paste_def)
  then show ?thesis
    using normalize_breaks_lines normalize_breaks_no_lf encode_paste_length by metis
qed

theorem paste_is_lines_joined_by_cr_witness:
  "\<exists>bs. encode_paste sample_env [0x61, 0x0d, 0x0a, 0x62] default_modes = Some bs \<and>
    bs = join_cr (break_lines (str_bytes [0x61, 0x0d, 0x0a, 0x62])) \<and>
    0x0a \<notin> set bs \<and> paste_encoded_length [0x61, 0x0d, 0x0a, 0x62] default_modes = Some (length bs)"
  by (rule paste_is_lines_joined_by_cr) (simp add: default_modes_def)

text \<open>
  Preparing a batch of input never panics and is all-or-nothing: an accepted batch is exactly the
  concatenation of what each event encodes to, in order, not empty and no longer than the caller's limit
  and the queue watermark.
\<close>

theorem prepared_input_exact:
  "\<exists>r. prepare_input e modes events max_bytes = Some r \<and>
    (case r of
       Inl _ \<Rightarrow> True
     | Inr prepared \<Rightarrow> pi_modes prepared = modes \<and> pi_bytes prepared \<noteq> [] \<and>
         length (pi_bytes prepared) \<le> max_bytes \<and> length (pi_bytes prepared) \<le> TRANSPORT_QUEUE_HIGH_WATERMARK \<and>
         (\<exists>bss. map (event_bytes e modes) events = map Some bss \<and> pi_bytes prepared = concat bss))"
proof -
  obtain r where "prepare_loop e modes (min max_bytes TRANSPORT_QUEUE_HIGH_WATERMARK) events [] = Some r"
    "batch_post e modes (min max_bytes TRANSPORT_QUEUE_HIGH_WATERMARK) events [] r"
    using prepare_loop_sound [of "[]" "min max_bytes TRANSPORT_QUEUE_HIGH_WATERMARK" e modes events] by (auto simp: ok_iff)
  then show ?thesis by (cases r) (auto simp: prepare_input_def batch_post_def)
qed

text \<open>
  Conversely a batch of 1 to 64 events is refused only for cause: when memory is available and every
  event encodes, and the encodings are not empty and fit the limit, the batch is accepted.
\<close>

theorem prepared_input_complete:
  assumes "events \<noteq> []" "length events \<le> MAX_PREPARED_INPUT_EVENTS"
    "map (event_bytes e modes) events = map Some bss" "concat bss \<noteq> []"
    "length (concat bss) \<le> max_bytes" "length (concat bss) \<le> TRANSPORT_QUEUE_HIGH_WATERMARK" "\<forall>k. alloc e k"
  shows "prepare_input e modes events max_bytes = Some (Inr \<lparr>pi_bytes = concat bss, pi_modes = modes\<rparr>)"
  using prepare_loop_complete [OF assms(3), of "[]" "min max_bytes TRANSPORT_QUEUE_HIGH_WATERMARK"] assms
  by (simp add: prepare_input_def)

theorem prepared_input_complete_witness:
  "prepare_input sample_env default_modes [KeyEvent (KeyCharacter 0x61), Paste [0x62, 0x0a]] 10 =
     Some (Inr \<lparr>pi_bytes = concat [[0x61], [0x62, 0x0d]], pi_modes = default_modes\<rparr>)"
  by (rule prepared_input_complete)
     (simp_all add: MAX_PREPARED_INPUT_EVENTS_def TRANSPORT_QUEUE_HIGH_WATERMARK_def event_bytes_def encode_key_def
        encode_paste_def default_modes_def str_bytes_def encode_utf8_def u8_of_nat_def sample_env_def Let_def)

text \<open>
  A legacy mouse report never wraps a byte: the six bytes carry the button code plus 32 and the
  one-based coordinates plus 32 exactly, and a position beyond the protocol's range is refused, not
  truncated.
\<close>

theorem legacy_mouse_exact:
  "encode_legacy_mouse ev =
     (if me_column ev \<le> 222 \<and> me_row ev \<le> 222
      then Some (map u8_of_nat [0x1b, 0x5b, 0x4d, unat (fst (mouse_code ev False)) + 32, me_column ev + 33, me_row ev + 33])
      else None) \<and>
   unat (fst (mouse_code ev False)) + 32 < 256"
proof -
  have b: "unat (fst (mouse_code ev False)) + 32 < 256" using mouse_code_bound [of ev False] by linarith
  have c: "fst (mouse_code ev False) + 32 = u8_of_nat (unat (fst (mouse_code ev False)) + 32)"
    by (simp add: u8_of_nat_def)
  have s: "u8_of_nat n + 33 = u8_of_nat (n + 33)" for n by (simp add: u8_of_nat_def)
  show ?thesis
    using b by (auto simp: encode_legacy_mouse_def MAX_LEGACY_COORDINATE_def s case_prod_unfold c) (simp_all add: u8_of_nat_def)
qed

end
