(* ===== verification/Screen.thy ===== *)
theory Screen
  imports Input
begin

text \<open>
  The visible grid of \<open>screen.rs\<close>: a flat cell array used as a ring of rows (\<open>top\<close> is the physical
  row that holds logical row 0), the occupied markers, and the dirty, soft-wrap and extent metadata.
  Every operation is in the option monad; \<open>None\<close> is an out-of-range index or slice, a subtraction
  that underflows or a failed \<open>expect\<close>.
\<close>

section \<open>State\<close>

datatype terminal_error =
    Allocation string
  | InvalidSnapshot string

record screen =
  s_dimensions :: dimensions
  s_top :: nat
  s_cells :: "cell list"
  s_occupied_cells :: "bool list"
  s_dirty_rows :: "bool list"
  s_soft_wrapped_rows :: "bool list"
  s_occupied_columns :: "nat list"

abbreviation s_columns :: "screen \<Rightarrow> nat" where
  "s_columns s \<equiv> columns (s_dimensions s)"

abbreviation s_rows :: "screen \<Rightarrow> nat" where
  "s_rows s \<equiv> rows (s_dimensions s)"

record screen_row =
  sr_cells :: "cell list"
  sr_soft_wrapped :: bool

record column_span =
  cs_left :: nat
  cs_right :: nat

record rectangle =
  r_top :: nat
  r_left :: nat
  r_bottom :: nat
  r_right :: nat

definition span_new :: "nat \<Rightarrow> nat \<Rightarrow> column_span" where
  "span_new l r = \<lparr>cs_left = l, cs_right = r\<rparr>"

definition span_full :: "nat \<Rightarrow> column_span option" where
  "span_full cols = do { r \<leftarrow> checked_sub cols 1; Some (span_new 0 r) }"

definition span_width :: "column_span \<Rightarrow> nat option" where
  "span_width sp = checked_sub (cs_right sp + 1) (cs_left sp)"

definition span_is_full :: "column_span \<Rightarrow> nat \<Rightarrow> bool" where
  "span_is_full sp cols \<longleftrightarrow> cs_left sp = 0 \<and> cs_right sp + 1 = cols"

definition screen_new :: "env \<Rightarrow> dimensions \<Rightarrow> terminal_error + screen" where
  "screen_new e d =
     (if \<not> alloc e (cell_count d) then Inl (Allocation ''screen cells'')
      else if \<not> alloc e (rows d) then Inl (Allocation ''screen dirty rows'')
      else if \<not> alloc e (rows d) then Inl (Allocation ''screen wrap metadata'')
      else Inr \<lparr>s_dimensions = d, s_top = 0, s_cells = replicate (cell_count d) (blank_cell e),
                s_occupied_cells = replicate (cell_count d) False,
                s_dirty_rows = replicate (rows d) True,
                s_soft_wrapped_rows = replicate (rows d) False,
                s_occupied_columns = replicate (rows d) 0\<rparr>)"

section \<open>Addressing\<close>

definition physical_row :: "screen \<Rightarrow> nat \<Rightarrow> nat" where
  "physical_row s logical_row = (s_top s + logical_row) mod s_rows s"

definition physical_row_start :: "screen \<Rightarrow> nat \<Rightarrow> nat" where
  "physical_row_start s logical_row = physical_row s logical_row * s_columns s"

definition cell_index :: "screen \<Rightarrow> nat \<Rightarrow> nat \<Rightarrow> nat option" where
  "cell_index s col r =
     (if col < s_columns s \<and> r < s_rows s then Some (physical_row_start s r + col) else None)"

definition logical_linear_to_physical :: "screen \<Rightarrow> nat \<Rightarrow> nat" where
  "logical_linear_to_physical s linear =
     physical_row_start s (linear div s_columns s) + linear mod s_columns s"

section \<open>Reading\<close>

definition cell_ref :: "screen \<Rightarrow> nat \<Rightarrow> nat \<Rightarrow> cell option" where
  "cell_ref s col r = do { i \<leftarrow> cell_index s col r; rd (s_cells s) i }"

text \<open>Accessors that return an \<open>Option\<close> and can also panic have two layers of option: the outer
  one is the panic.\<close>

definition row_text :: "screen \<Rightarrow> nat \<Rightarrow> str option option" where
  "row_text s r =
     (if s_rows s \<le> r then Some None
      else do {
        let start = physical_row_start s r;
        cs \<leftarrow> rd_range (s_cells s) start (start + s_columns s);
        Some (Some (map cell_character cs)) })"

definition row_soft_wrapped :: "screen \<Rightarrow> nat \<Rightarrow> bool option option" where
  "row_soft_wrapped s r =
     (if r < s_rows s then map_option Some (rd (s_soft_wrapped_rows s) (physical_row s r))
      else Some None)"

definition row_occupied_columns :: "screen \<Rightarrow> nat \<Rightarrow> nat option option" where
  "row_occupied_columns s r =
     (if r < s_rows s then map_option Some (rd (s_occupied_columns s) (physical_row s r))
      else Some None)"

definition is_row_dirty :: "screen \<Rightarrow> nat \<Rightarrow> bool option" where
  "is_row_dirty s r = rd (s_dirty_rows s) r"

definition take_dirty_rows :: "screen \<Rightarrow> nat list \<times> screen" where
  "take_dirty_rows s =
     (map fst (filter snd (enumerate 0 (s_dirty_rows s))),
      s\<lparr>s_dirty_rows := map (\<lambda>_. False) (s_dirty_rows s)\<rparr>)"

definition mark_all_dirty :: "screen \<Rightarrow> screen" where
  "mark_all_dirty s = s\<lparr>s_dirty_rows := map (\<lambda>_. True) (s_dirty_rows s)\<rparr>"

definition mark_dirty :: "nat \<Rightarrow> screen \<Rightarrow> screen option" where
  "mark_dirty r s = do { d \<leftarrow> wr (s_dirty_rows s) r True; Some (s\<lparr>s_dirty_rows := d\<rparr>) }"

definition mark_dirty_range :: "nat \<Rightarrow> nat \<Rightarrow> screen \<Rightarrow> screen option" where
  "mark_dirty_range first final s =
     do { d \<leftarrow> fill_range (s_dirty_rows s) first (final + 1) True; Some (s\<lparr>s_dirty_rows := d\<rparr>) }"

fun mapM :: "('a \<Rightarrow> 'b option) \<Rightarrow> 'a list \<Rightarrow> 'b list option" where
  "mapM f [] = Some []"
| "mapM f (x # xs) = do { y \<leftarrow> f x; ys \<leftarrow> mapM f xs; Some (y # ys) }"

definition occupied_row_count :: "screen \<Rightarrow> nat option" where
  "occupied_row_count s = do {
     ns \<leftarrow> mapM (\<lambda>r. rd (s_occupied_columns s) (physical_row s r)) [0..<s_rows s];
     Some (extent (\<lambda>n. 0 < n) ns) }"

definition occupied_row_cells :: "screen \<Rightarrow> nat \<Rightarrow> cell list option" where
  "occupied_row_cells s r = do {
     n \<leftarrow> rd (s_occupied_columns s) (physical_row s r);
     rd_range (s_cells s) (physical_row_start s r) (physical_row_start s r + n) }"

definition extract_row :: "screen \<Rightarrow> nat \<Rightarrow> screen_row option" where
  "extract_row s r = do {
     cs \<leftarrow> occupied_row_cells s r;
     w \<leftarrow> rd (s_soft_wrapped_rows s) (physical_row s r);
     Some \<lparr>sr_cells = cs, sr_soft_wrapped = w\<rparr> }"

definition to_rows :: "screen \<Rightarrow> screen_row list option" where
  "to_rows s = mapM (extract_row s) [0..<s_rows s]"

section \<open>Writing cells\<close>

text \<open>The pair of assignments to \<open>cells\<close> and \<open>occupied_cells\<close> that every write makes, for one index
  and for a range.\<close>

definition set_cell :: "nat \<Rightarrow> cell \<Rightarrow> bool \<Rightarrow> screen \<Rightarrow> screen option" where
  "set_cell i c oc s = do {
     cs \<leftarrow> wr (s_cells s) i c;
     os \<leftarrow> wr (s_occupied_cells s) i oc;
     Some (s\<lparr>s_cells := cs, s_occupied_cells := os\<rparr>) }"

definition fill_cells :: "nat \<Rightarrow> nat \<Rightarrow> cell \<Rightarrow> bool \<Rightarrow> screen \<Rightarrow> screen option" where
  "fill_cells a b c oc s = do {
     cs \<leftarrow> fill_range (s_cells s) a b c;
     os \<leftarrow> fill_range (s_occupied_cells s) a b oc;
     Some (s\<lparr>s_cells := cs, s_occupied_cells := os\<rparr>) }"

definition set_soft_wrapped :: "nat \<Rightarrow> bool \<Rightarrow> screen \<Rightarrow> screen option" where
  "set_soft_wrapped r b s = do {
     w \<leftarrow> wr (s_soft_wrapped_rows s) (physical_row s r) b;
     Some (s\<lparr>s_soft_wrapped_rows := w\<rparr>) }"

definition set_extent :: "nat \<Rightarrow> nat \<Rightarrow> screen \<Rightarrow> screen option" where
  "set_extent r n s = do {
     x \<leftarrow> wr (s_occupied_columns s) (physical_row s r) n;
     Some (s\<lparr>s_occupied_columns := x\<rparr>) }"

abbreviation mark_soft_wrapped :: "nat \<Rightarrow> screen \<Rightarrow> screen option" where
  "mark_soft_wrapped r \<equiv> set_soft_wrapped r True"

abbreviation clear_soft_wrapped :: "nat \<Rightarrow> screen \<Rightarrow> screen option" where
  "clear_soft_wrapped r \<equiv> set_soft_wrapped r False"

definition row_extent :: "bool \<Rightarrow> nat \<Rightarrow> nat" where
  "row_extent occupied cols = (if occupied then cols else 0)"

definition repair_cell :: "nat \<Rightarrow> cell \<Rightarrow> nat \<Rightarrow> screen \<Rightarrow> screen option" where
  "repair_cell r fill col s = do {
     let cols = s_columns s;
     let index = physical_row_start s r + col;
     c \<leftarrow> rd (s_cells s) index;
     invalid \<leftarrow> (case c_width c of
         Double \<Rightarrow>
           if col + 1 = cols then Some True
           else do { n \<leftarrow> rd (s_cells s) (index + 1); Some (c_width n \<noteq> Continuation) }
       | Continuation \<Rightarrow>
           if col = 0 then Some True
           else do { i \<leftarrow> checked_sub index 1; p \<leftarrow> rd (s_cells s) i; Some (c_width p \<noteq> Double) }
       | Single \<Rightarrow> Some False);
     if invalid then set_cell index fill (\<not> is_structural_blank fill) s else Some s }"

definition recompute_occupied :: "nat \<Rightarrow> screen \<Rightarrow> screen option" where
  "recompute_occupied r s = do {
     let start = physical_row_start s r;
     os \<leftarrow> rd_range (s_occupied_cells s) start (start + s_columns s);
     set_extent r (extent id os) s }"

definition repair_row :: "env \<Rightarrow> nat \<Rightarrow> screen \<Rightarrow> screen option" where
  "repair_row e r s = do {
     s \<leftarrow> foldM (repair_cell r (blank_cell e)) [0..<s_columns s] s;
     recompute_occupied r s }"

definition repair_wide_cells :: "env \<Rightarrow> screen \<Rightarrow> screen option" where
  "repair_wide_cells e s = foldM (repair_row e) [0..<s_rows s] s"

definition repair_neighborhood :: "nat \<Rightarrow> nat \<Rightarrow> cell \<Rightarrow> screen \<Rightarrow> screen option" where
  "repair_neighborhood r boundary fill s = do {
     let first = boundary - 1;
     m \<leftarrow> checked_sub (s_columns s) 1;
     let final = min (sat_add boundary 1) m;
     if final < first then Some s else foldM (repair_cell r fill) [first..<final + 1] s }"

definition repair_span_edges :: "env \<Rightarrow> nat \<Rightarrow> column_span \<Rightarrow> screen \<Rightarrow> screen option" where
  "repair_span_edges e r sp s = do {
     s \<leftarrow> repair_neighborhood r (cs_left sp) (blank_cell e) s;
     repair_neighborhood r (cs_right sp + 1) (blank_cell e) s }"

section \<open>Whole screens\<close>

text \<open>\<open>from_rows\<close> and \<open>resized\<close> write row by row into a fresh, unrotated screen.\<close>

definition from_rows_row :: "nat \<times> screen_row \<Rightarrow> screen \<Rightarrow> screen option" where
  "from_rows_row = (\<lambda>(r, sr) s. do {
     let cols = s_columns s;
     let start = r * cols;
     let len = min (length (sr_cells sr)) cols;
     cs \<leftarrow> wr_range (s_cells s) start (take len (sr_cells sr));
     os \<leftarrow> fill_range (s_occupied_cells s) start (start + len) True;
     w \<leftarrow> wr (s_soft_wrapped_rows s) r (sr_soft_wrapped sr);
     x \<leftarrow> wr (s_occupied_columns s) r len;
     Some (s\<lparr>s_cells := cs, s_occupied_cells := os, s_soft_wrapped_rows := w,
             s_occupied_columns := x\<rparr>) })"

definition from_rows :: "env \<Rightarrow> dimensions \<Rightarrow> screen_row list \<Rightarrow> (terminal_error + screen) option" where
  "from_rows e d rs =
     (case screen_new e d of
        Inl err \<Rightarrow> Some (Inl err)
      | Inr s \<Rightarrow> do {
          s \<leftarrow> foldM from_rows_row (enumerate 0 (take (rows d) rs)) s;
          s \<leftarrow> repair_wide_cells e s;
          Some (Inr (mark_all_dirty s)) })"

definition resized_row :: "screen \<Rightarrow> nat \<Rightarrow> nat \<Rightarrow> screen \<Rightarrow> screen option" where
  "resized_row old preserved_columns r s = do {
     let old_start = physical_row_start old r;
     let new_start = r * s_columns s;
     let p = physical_row old r;
     old_cells \<leftarrow> rd_range (s_cells old) old_start (old_start + preserved_columns);
     cs \<leftarrow> wr_range (s_cells s) new_start old_cells;
     old_occupied \<leftarrow> rd_range (s_occupied_cells old) old_start (old_start + preserved_columns);
     os \<leftarrow> wr_range (s_occupied_cells s) new_start old_occupied;
     old_wrap \<leftarrow> rd (s_soft_wrapped_rows old) p;
     w \<leftarrow> wr (s_soft_wrapped_rows s) r (old_wrap \<and> preserved_columns = s_columns old);
     old_extent \<leftarrow> rd (s_occupied_columns old) p;
     x \<leftarrow> wr (s_occupied_columns s) r (min old_extent preserved_columns);
     Some (s\<lparr>s_cells := cs, s_occupied_cells := os, s_soft_wrapped_rows := w,
             s_occupied_columns := x\<rparr>) }"

definition screen_resized :: "env \<Rightarrow> screen \<Rightarrow> dimensions \<Rightarrow> (terminal_error + screen) option" where
  "screen_resized e old d =
     (case screen_new e d of
        Inl err \<Rightarrow> Some (Inl err)
      | Inr s \<Rightarrow> do {
          let preserved_rows = min (s_rows old) (rows d);
          let preserved_columns = min (s_columns old) (columns d);
          s \<leftarrow> foldM (resized_row old preserved_columns) [0..<preserved_rows] s;
          s \<leftarrow> repair_wide_cells e s;
          Some (Inr s) })"

definition clear_all :: "cell \<Rightarrow> screen \<Rightarrow> screen" where
  "clear_all c s =
     (let occupied = (if is_structural_blank c then 0 else s_columns s);
          s = s\<lparr>s_cells := map (\<lambda>_. c) (s_cells s),
                s_occupied_cells := map (\<lambda>_. occupied \<noteq> 0) (s_occupied_cells s),
                s_soft_wrapped_rows := map (\<lambda>_. False) (s_soft_wrapped_rows s),
                s_occupied_columns := map (\<lambda>_. occupied) (s_occupied_columns s)\<rparr>
      in (mark_all_dirty s)\<lparr>s_top := 0\<rparr>)"

section \<open>Clusters\<close>

definition replace_cell :: "nat \<Rightarrow> nat \<Rightarrow> cell \<Rightarrow> screen \<Rightarrow> screen option" where
  "replace_cell col r c s = do {
     index \<leftarrow> cell_index s col r;
     s \<leftarrow> set_cell index c True s;
     s \<leftarrow> recompute_occupied r s;
     mark_dirty r s }"

definition continuation_of :: "env \<Rightarrow> cell \<Rightarrow> cell" where
  "continuation_of e c =
     \<lparr>c_text = [], c_capacity = const_cap e [], c_width = Continuation,
      c_foreground = c_foreground c, c_background = c_background c,
      c_attributes = c_attributes c, c_hyperlink = c_hyperlink c\<rparr>"

definition extend_occupied_or_recompute :: "nat \<Rightarrow> nat \<Rightarrow> nat \<Rightarrow> screen \<Rightarrow> screen option" where
  "extend_occupied_or_recompute r col width s = do {
     n \<leftarrow> rd (s_occupied_columns s) (physical_row s r);
     if n \<le> col then set_extent r (col + width) s else recompute_occupied r s }"

definition replace_cluster :: "env \<Rightarrow> nat \<Rightarrow> nat \<Rightarrow> cell \<Rightarrow> screen \<Rightarrow> screen option" where
  "replace_cluster e col r c s = do {
     index \<leftarrow> cell_index s col r;
     let cluster_columns = width_columns (c_width c);
     s \<leftarrow> set_cell index c True s;
     s \<leftarrow> (if cluster_columns = 2 then do {
             continuation \<leftarrow> cell_index s (col + 1) r;
             set_cell continuation (continuation_of e c) True s }
           else Some s);
     s \<leftarrow> mark_dirty r s;
     s \<leftarrow> repair_neighborhood r col (blank_cell e) s;
     s \<leftarrow> repair_neighborhood r (col + cluster_columns) (blank_cell e) s;
     extend_occupied_or_recompute r col cluster_columns s }"

section \<open>Fills\<close>

definition fill_sparing :: "cell \<Rightarrow> bool \<Rightarrow> bool \<Rightarrow> nat \<Rightarrow> screen \<Rightarrow> screen option" where
  "fill_sparing c occupied spare_protected i s = do {
     old \<leftarrow> rd (s_cells s) i;
     if spare_protected \<and> attr_contains (c_attributes old) PROTECTED then Some s
     else set_cell i c occupied s }"

definition fill_rectangle :: "env \<Rightarrow> rectangle \<Rightarrow> cell \<Rightarrow> bool \<Rightarrow> screen \<Rightarrow> screen option" where
  "fill_rectangle e rc c spare_protected s = do {
     let occupied = (\<not> is_structural_blank c);
     let sp = span_new (r_left rc) (r_right rc);
     s \<leftarrow> foldM (\<lambda>r s. do {
            let start = physical_row_start s r + r_left rc;
            width \<leftarrow> span_width sp;
            s \<leftarrow> foldM (\<lambda>offset. fill_sparing c occupied spare_protected (start + offset)) [0..<width] s;
            s \<leftarrow> repair_span_edges e r sp s;
            recompute_occupied r s }) [r_top rc..<r_bottom rc + 1] s;
     mark_dirty_range (r_top rc) (r_bottom rc) s }"

definition copy_rectangle :: "env \<Rightarrow> rectangle \<Rightarrow> nat \<Rightarrow> nat \<Rightarrow> screen \<Rightarrow> screen option" where
  "copy_rectangle e src dst_top dst_left s = do {
     h \<leftarrow> checked_sub (r_bottom src + 1) (r_top src);
     hmax \<leftarrow> checked_sub (s_rows s) dst_top;
     w \<leftarrow> checked_sub (r_right src + 1) (r_left src);
     wmax \<leftarrow> checked_sub (s_columns s) dst_left;
     let height = min h hmax;
     let width = min w wmax;
     if height = 0 \<or> width = 0 then Some s
     else do {
       copied \<leftarrow> mapM (\<lambda>(r, offset). do {
           let start = physical_row_start s (r_top src + r) + r_left src;
           c \<leftarrow> rd (s_cells s) (start + offset);
           oc \<leftarrow> rd (s_occupied_cells s) (start + offset);
           Some (c, oc) }) (List.product [0..<height] [0..<width]);
       let sp = span_new dst_left (dst_left + width - 1);
       s \<leftarrow> foldM (\<lambda>r s. do {
              let start = physical_row_start s (dst_top + r) + dst_left;
              s \<leftarrow> foldM (\<lambda>offset s. do {
                     (c, oc) \<leftarrow> rd copied (r * width + offset);
                     set_cell (start + offset) c oc s }) [0..<width] s;
              s \<leftarrow> repair_span_edges e (dst_top + r) sp s;
              recompute_occupied (dst_top + r) s }) [0..<height] s;
       mark_dirty_range dst_top (dst_top + height - 1) s } }"

text \<open>One row of a linear fill.  The sparing walk leaves protected cells in place, but the whole
  range of occupied markers is filled either way.\<close>

definition spare_fill :: "cell \<Rightarrow> cell list \<Rightarrow> cell list" where
  "spare_fill c = map (\<lambda>old. if attr_contains (c_attributes old) PROTECTED then old else c)"

definition fill_linear_row :: "nat \<Rightarrow> nat \<Rightarrow> cell \<Rightarrow> bool \<Rightarrow> screen \<Rightarrow> screen option" where
  "fill_linear_row physical_start physical_end c spare_protected s = do {
     cs \<leftarrow> (if spare_protected then do {
              old \<leftarrow> rd_range (s_cells s) physical_start physical_end;
              wr_range (s_cells s) physical_start (spare_fill c old) }
            else fill_range (s_cells s) physical_start physical_end c);
     os \<leftarrow> fill_range (s_occupied_cells s) physical_start physical_end (\<not> is_structural_blank c);
     Some (s\<lparr>s_cells := cs, s_occupied_cells := os\<rparr>) }"

definition fill_linear_with :: "nat \<Rightarrow> nat \<Rightarrow> cell \<Rightarrow> bool \<Rightarrow> screen \<Rightarrow> screen option" where
  "fill_linear_with start stop c spare_protected s =
     (if stop \<le> start then Some s
      else do {
        let cols = s_columns s;
        let first_row = start div cols;
        let last_row = (stop - 1) div cols;
        let first_column = start mod cols;
        last_column \<leftarrow> checked_sub stop (last_row * cols);
        s \<leftarrow> foldM (\<lambda>r s. do {
               let row_start = (if r = first_row then first_column else 0);
               let row_end = (if r = last_row then last_column else cols);
               if row_end \<le> row_start then Some s
               else do {
                 let physical_start = logical_linear_to_physical s (r * cols + row_start);
                 let physical_end = physical_start + (row_end - row_start);
                 fill_linear_row physical_start physical_end c spare_protected s } })
             [first_row..<last_row + 1] s;
        s \<leftarrow> mark_dirty_range first_row last_row s;
        s \<leftarrow> repair_neighborhood first_row first_column c s;
        s \<leftarrow> repair_neighborhood last_row last_column c s;
        foldM recompute_occupied [first_row..<last_row + 1] s })"

abbreviation fill_linear :: "nat \<Rightarrow> nat \<Rightarrow> cell \<Rightarrow> screen \<Rightarrow> screen option" where
  "fill_linear start stop c \<equiv> fill_linear_with start stop c False"

abbreviation fill_linear_sparing_protected :: "nat \<Rightarrow> nat \<Rightarrow> cell \<Rightarrow> screen \<Rightarrow> screen option" where
  "fill_linear_sparing_protected start stop c \<equiv> fill_linear_with start stop c True"

section \<open>Characters within a row\<close>

definition move_one :: "nat \<Rightarrow> nat \<Rightarrow> nat \<Rightarrow> screen \<Rightarrow> screen option" where
  "move_one source destination offset s = do {
     c \<leftarrow> rd (s_cells s) (source + offset);
     oc \<leftarrow> rd (s_occupied_cells s) (source + offset);
     set_cell (destination + offset) c oc s }"

definition move_cells_within_row :: "nat \<Rightarrow> nat \<Rightarrow> nat \<Rightarrow> screen \<Rightarrow> screen option" where
  "move_cells_within_row source_start source_end destination s = do {
     len \<leftarrow> checked_sub source_end source_start;
     foldM (move_one source_start destination)
       (if source_start < destination then rev [0..<len] else [0..<len]) s }"

definition insert_characters ::
  "nat \<Rightarrow> nat \<Rightarrow> nat \<Rightarrow> cell \<Rightarrow> column_span \<Rightarrow> screen \<Rightarrow> screen option" where
  "insert_characters col r count c sp s = do {
     m \<leftarrow> checked_sub (s_columns s) 1;
     let right = min (cs_right sp) m;
     if right < col then Some s
     else do {
       let count = min count (right + 1 - col);
       let row_start = physical_row_start s r;
       let row_end = row_start + right + 1;
       let start = row_start + col;
       source_end \<leftarrow> checked_sub row_end count;
       s \<leftarrow> move_cells_within_row start source_end (start + count) s;
       s \<leftarrow> fill_cells start (start + count) c (\<not> is_structural_blank c) s;
       s \<leftarrow> mark_dirty r s;
       s \<leftarrow> repair_neighborhood r col c s;
       s \<leftarrow> repair_neighborhood r (col + count) c s;
       s \<leftarrow> repair_neighborhood r (right + 1) c s;
       recompute_occupied r s } }"

definition delete_characters ::
  "nat \<Rightarrow> nat \<Rightarrow> nat \<Rightarrow> cell \<Rightarrow> column_span \<Rightarrow> screen \<Rightarrow> screen option" where
  "delete_characters col r count c sp s = do {
     m \<leftarrow> checked_sub (s_columns s) 1;
     let right = min (cs_right sp) m;
     if right < col then Some s
     else do {
       let count = min count (right + 1 - col);
       let row_start = physical_row_start s r;
       let row_end = row_start + right + 1;
       let start = row_start + col;
       s \<leftarrow> move_cells_within_row (start + count) row_end start s;
       fill_start \<leftarrow> checked_sub row_end count;
       s \<leftarrow> fill_cells fill_start row_end c (\<not> is_structural_blank c) s;
       s \<leftarrow> mark_dirty r s;
       s \<leftarrow> repair_neighborhood r col c s;
       boundary \<leftarrow> checked_sub (right + 1) count;
       s \<leftarrow> repair_neighborhood r boundary c s;
       s \<leftarrow> repair_neighborhood r (right + 1) c s;
       recompute_occupied r s } }"

section \<open>Rows\<close>

text \<open>\<open>split_at_mut\<close> only separates the two rows for the borrow checker: the copy reads the source
  row and writes the destination row.\<close>

definition copy_row :: "nat \<Rightarrow> nat \<Rightarrow> screen \<Rightarrow> screen option" where
  "copy_row source_row destination_row s = do {
     let cols = s_columns s;
     let source_start = physical_row_start s source_row;
     let destination_start = physical_row_start s destination_row;
     if source_start = destination_start then Some s
     else do {
       source_cells \<leftarrow> rd_range (s_cells s) source_start (source_start + cols);
       cs \<leftarrow> wr_range (s_cells s) destination_start source_cells;
       source_occupied \<leftarrow> rd_range (s_occupied_cells s) source_start (source_start + cols);
       os \<leftarrow> wr_range (s_occupied_cells s) destination_start source_occupied;
       let s = s\<lparr>s_cells := cs, s_occupied_cells := os\<rparr>;
       w \<leftarrow> rd (s_soft_wrapped_rows s) (physical_row s source_row);
       s \<leftarrow> set_soft_wrapped destination_row w s;
       x \<leftarrow> rd (s_occupied_columns s) (physical_row s source_row);
       set_extent destination_row x s } }"

definition fill_row :: "cell \<Rightarrow> nat \<Rightarrow> screen \<Rightarrow> screen option" where
  "fill_row c r s = do {
     let cols = s_columns s;
     let start = physical_row_start s r;
     let occupied = (\<not> is_structural_blank c);
     s \<leftarrow> fill_cells start (start + cols) c occupied s;
     s \<leftarrow> set_soft_wrapped r False s;
     set_extent r (row_extent occupied cols) s }"

definition copy_row_span :: "env \<Rightarrow> column_span \<Rightarrow> nat \<Rightarrow> nat \<Rightarrow> screen \<Rightarrow> screen option" where
  "copy_row_span e sp source_row destination_row s = do {
     let source_start = physical_row_start s source_row + cs_left sp;
     let destination_start = physical_row_start s destination_row + cs_left sp;
     if source_start = destination_start then Some s
     else do {
       width \<leftarrow> span_width sp;
       s \<leftarrow> foldM (move_one source_start destination_start) [0..<width] s;
       s \<leftarrow> repair_span_edges e destination_row sp s;
       recompute_occupied destination_row s } }"

definition fill_row_span :: "env \<Rightarrow> column_span \<Rightarrow> cell \<Rightarrow> nat \<Rightarrow> screen \<Rightarrow> screen option" where
  "fill_row_span e sp c r s = do {
     let start = physical_row_start s r + cs_left sp;
     let occupied = (\<not> is_structural_blank c);
     width \<leftarrow> span_width sp;
     s \<leftarrow> fill_cells start (start + width) c occupied s;
     s \<leftarrow> repair_span_edges e r sp s;
     recompute_occupied r s }"

text \<open>The two loops every region shift runs: copy rows in an order, then fill the rows it frees.\<close>

definition shift_rows ::
  "env \<Rightarrow> column_span \<Rightarrow> cell \<Rightarrow> (nat \<times> nat) list \<Rightarrow> nat list \<Rightarrow> screen \<Rightarrow> screen option" where
  "shift_rows e sp c copies fills s =
     (if span_is_full sp (s_columns s) then do {
        s \<leftarrow> foldM (\<lambda>(source, destination). copy_row source destination) copies s;
        foldM (fill_row c) fills s }
      else do {
        s \<leftarrow> foldM (\<lambda>(source, destination). copy_row_span e sp source destination) copies s;
        foldM (fill_row_span e sp c) fills s })"

definition insert_lines ::
  "env \<Rightarrow> nat \<Rightarrow> nat \<Rightarrow> nat \<Rightarrow> cell \<Rightarrow> column_span \<Rightarrow> screen \<Rightarrow> screen option" where
  "insert_lines e r bottom count c sp s = do {
     n \<leftarrow> checked_sub bottom r;
     let count = min count (n + 1);
     s \<leftarrow> shift_rows e sp c (map (\<lambda>logical. (logical, logical + count)) (rev [r..<bottom + 1 - count]))
            [r..<r + count] s;
     mark_dirty_range r bottom s }"

definition delete_lines ::
  "env \<Rightarrow> nat \<Rightarrow> nat \<Rightarrow> nat \<Rightarrow> cell \<Rightarrow> column_span \<Rightarrow> screen \<Rightarrow> screen option" where
  "delete_lines e r bottom count c sp s = do {
     n \<leftarrow> checked_sub bottom r;
     let count = min count (n + 1);
     s \<leftarrow> shift_rows e sp c (map (\<lambda>logical. (logical, logical - count)) [r + count..<bottom + 1])
            [bottom + 1 - count..<bottom + 1] s;
     mark_dirty_range r bottom s }"

definition scroll_down ::
  "env \<Rightarrow> nat \<Rightarrow> nat \<Rightarrow> nat \<Rightarrow> cell \<Rightarrow> column_span \<Rightarrow> screen \<Rightarrow> screen option" where
  "scroll_down e first bottom count c sp s = do {
     n \<leftarrow> checked_sub bottom first;
     let count = min count (n + 1);
     s \<leftarrow> shift_rows e sp c (map (\<lambda>logical. (logical, logical + count)) (rev [first..<bottom + 1 - count]))
            [first..<first + count] s;
     mark_dirty_range first bottom s }"

definition scroll_up ::
  "env \<Rightarrow> nat \<Rightarrow> nat \<Rightarrow> nat \<Rightarrow> cell \<Rightarrow> column_span \<Rightarrow> screen \<Rightarrow> (screen_row list \<times> screen) option" where
  "scroll_up e first bottom count c sp s = do {
     n \<leftarrow> checked_sub bottom first;
     let count = min count (n + 1);
     let copies = map (\<lambda>logical. (logical, logical - count)) [first + count..<bottom + 1];
     let fills = [bottom + 1 - count..<bottom + 1];
     if \<not> span_is_full sp (s_columns s) then do {
       s \<leftarrow> shift_rows e sp c copies fills s;
       s \<leftarrow> mark_dirty_range first bottom s;
       Some ([], s) }
     else do {
       removed \<leftarrow> mapM (extract_row s) [first..<first + count];
       s \<leftarrow> (if first = 0 \<and> bottom + 1 = s_rows s then do {
               s \<leftarrow> foldM (fill_row c) [0..<count] s;
               Some (s\<lparr>s_top := (s_top s + count) mod s_rows s\<rparr>) }
             else shift_rows e sp c copies fills s);
       s \<leftarrow> mark_dirty_range first bottom s;
       Some (removed, s) } }"

section \<open>Recovery and comparison\<close>

definition pair_valid :: "nat \<Rightarrow> cell list \<Rightarrow> nat \<Rightarrow> bool" where
  "pair_valid cols cs col = (case c_width (cs ! col) of
      Continuation \<Rightarrow> \<not> (col = 0 \<or> c_width (cs ! (col - 1)) \<noteq> Double)
    | Double \<Rightarrow> \<not> (cols \<le> col + 1 \<or> c_width (cs ! (col + 1)) \<noteq> Continuation)
    | Single \<Rightarrow> True)"

definition screen_row_valid :: "screen \<Rightarrow> nat \<Rightarrow> bool" where
  "screen_row_valid s r =
     (let cols = s_columns s;
          start = physical_row_start s r;
          cs = slice start cols (s_cells s);
          n = s_occupied_columns s ! physical_row s r
      in \<not> cols < n \<and> n = extent id (slice start cols (s_occupied_cells s)) \<and>
         (\<forall>col < cols. cell_valid (cs ! col) \<and> pair_valid cols cs col))"

text \<open>\<open>Screen::validate_recovery_state\<close>: whether it returns \<open>Ok\<close>.\<close>

definition screen_valid :: "screen \<Rightarrow> bool" where
  "screen_valid s \<longleftrightarrow>
     (case dimensions_new (s_columns s) (s_rows s) of Inl _ \<Rightarrow> False | Inr d \<Rightarrow> d = s_dimensions s) \<and>
     s_top s < s_rows s \<and>
     length (s_cells s) = cell_count (s_dimensions s) \<and>
     length (s_occupied_cells s) = cell_count (s_dimensions s) \<and>
     length (s_dirty_rows s) = s_rows s \<and>
     length (s_soft_wrapped_rows s) = s_rows s \<and>
     length (s_occupied_columns s) = s_rows s \<and>
     (\<forall>r < s_rows s. screen_row_valid s r)"

text \<open>\<open>PartialEq\<close>: logical content, independent of the rotation.\<close>

definition screen_eq :: "screen \<Rightarrow> screen \<Rightarrow> bool" where
  "screen_eq s t \<longleftrightarrow> s_dimensions s = s_dimensions t \<and>
     (\<forall>r < s_rows s.
        slice (physical_row_start s r) (s_columns s) (s_cells s)
          = slice (physical_row_start t r) (s_columns s) (s_cells t) \<and>
        slice (physical_row_start s r) (s_columns s) (s_occupied_cells s)
          = slice (physical_row_start t r) (s_columns s) (s_occupied_cells t) \<and>
        s_dirty_rows s ! r = s_dirty_rows t ! r \<and>
        s_soft_wrapped_rows s ! physical_row s r = s_soft_wrapped_rows t ! physical_row t r \<and>
        s_occupied_columns s ! physical_row s r = s_occupied_columns t ! physical_row t r)"

end
