(* ===== verification/Screen_Rows.thy ===== *)
theory Screen_Rows
  imports Screen
begin

text \<open>
  The ring as a store of rows.  \<open>get_row\<close> and \<open>put_row\<close> read and write one logical row through the
  rotation; the locale \<open>row_store\<close> states what independent rows promise and is interpreted on them;
  every screen operation is then shown to be total and to be a function of the rows: \<open>*_row\<close> for an
  operation on one row, \<open>*_local\<close> for one on many, \<open>scroll_up_rotates\<close> for the rotation.
\<close>

section \<open>Slices\<close>

lemma length_slice [simp]: "length (slice a n xs) = min n (length xs - a)"
  by (simp add: slice_def)

lemma nth_slice [simp]: "i < n \<Longrightarrow> a + i < length xs \<Longrightarrow> slice a n xs ! i = xs ! (a + i)"
  by (simp add: slice_def add.commute)

lemma length_blit [simp]: "a + length ys \<le> length xs \<Longrightarrow> length (blit a ys xs) = length xs"
  by (simp add: blit_def)

lemma nth_blit:
  assumes "a + length ys \<le> length xs" "i < length xs"
  shows "blit a ys xs ! i = (if a \<le> i \<and> i < a + length ys then ys ! (i - a) else xs ! i)"
  using assms by (auto simp: blit_def nth_append min_def)

lemma slice_blit_same [simp]:
  "a + length ys \<le> length xs \<Longrightarrow> n = length ys \<Longrightarrow> slice a n (blit a ys xs) = ys"
  by (rule nth_equalityI) (auto simp: nth_blit)

lemma slice_blit_other:
  assumes "a + length ys \<le> length xs" "b + n \<le> a \<or> a + length ys \<le> b"
  shows "slice b n (blit a ys xs) = slice b n xs"
proof (rule nth_equalityI)
  fix i assume "i < length (slice b n (blit a ys xs))"
  then show "slice b n (blit a ys xs) ! i = slice b n xs ! i"
    using assms by (auto simp: nth_blit)
qed (use assms in simp)

lemma blit_slice [simp]: "a + n \<le> length xs \<Longrightarrow> blit a (slice a n xs) xs = xs"
  by (rule nth_equalityI) (auto simp: nth_blit)

lemma blit_blit:
  assumes "a + length ys \<le> length xs" "length zs = length ys"
  shows "blit a zs (blit a ys xs) = blit a zs xs"
  using assms by (intro nth_equalityI) (auto simp: nth_blit)

lemma blit_in_slice:
  assumes "a + n \<le> length xs" "c + length zs \<le> n"
  shows "blit (a + c) zs xs = blit a (blit c zs (slice a n xs)) xs"
  using assms by (intro nth_equalityI) (auto simp: nth_blit)

lemma update_in_slice:
  assumes "a + n \<le> length xs" "c < n"
  shows "xs[a + c := v] = blit a ((slice a n xs)[c := v]) xs"
  using assms by (intro nth_equalityI) (auto simp: nth_blit nth_list_update)

lemma rd_in_slice:
  "a + n \<le> length xs \<Longrightarrow> c < n \<Longrightarrow> rd xs (a + c) = Some (slice a n xs ! c)"
  by (simp add: rd_def)

section \<open>The logical grid\<close>

text \<open>One logical row with its metadata, and the screen as the list of its rows.\<close>

record grid_row =
  gr_cells :: "cell list"
  gr_occupied :: "bool list"
  gr_wrapped :: bool
  gr_extent :: nat
  gr_dirty :: bool

definition get_row :: "screen \<Rightarrow> nat \<Rightarrow> grid_row" where
  "get_row s r =
     \<lparr>gr_cells = slice (physical_row_start s r) (s_columns s) (s_cells s),
      gr_occupied = slice (physical_row_start s r) (s_columns s) (s_occupied_cells s),
      gr_wrapped = s_soft_wrapped_rows s ! physical_row s r,
      gr_extent = s_occupied_columns s ! physical_row s r,
      gr_dirty = s_dirty_rows s ! r\<rparr>"

definition put_row :: "screen \<Rightarrow> nat \<Rightarrow> grid_row \<Rightarrow> screen" where
  "put_row s r g = s\<lparr>
      s_cells := blit (physical_row_start s r) (gr_cells g) (s_cells s),
      s_occupied_cells := blit (physical_row_start s r) (gr_occupied g) (s_occupied_cells s),
      s_soft_wrapped_rows := (s_soft_wrapped_rows s)[physical_row s r := gr_wrapped g],
      s_occupied_columns := (s_occupied_columns s)[physical_row s r := gr_extent g],
      s_dirty_rows := (s_dirty_rows s)[r := gr_dirty g]\<rparr>"

definition grid :: "screen \<Rightarrow> grid_row list" where
  "grid s = map (get_row s) [0..<s_rows s]"

definition shape :: "screen \<Rightarrow> bool" where
  "shape s \<longleftrightarrow> dims_ok (s_dimensions s) \<and> s_top s < s_rows s \<and>
     length (s_cells s) = s_rows s * s_columns s \<and>
     length (s_occupied_cells s) = s_rows s * s_columns s \<and>
     length (s_dirty_rows s) = s_rows s \<and> length (s_soft_wrapped_rows s) = s_rows s \<and>
     length (s_occupied_columns s) = s_rows s"

definition fits :: "nat \<Rightarrow> grid_row \<Rightarrow> bool" where
  "fits cols g \<longleftrightarrow> length (gr_cells g) = cols \<and> length (gr_occupied g) = cols"

lemma dims_pos: "dims_ok d \<Longrightarrow> 0 < rows d" "dims_ok d \<Longrightarrow> 2 \<le> columns d" "dims_ok d \<Longrightarrow> 0 < columns d"
  by (auto simp: dims_ok_def)

lemma shape_dims: "shape s \<Longrightarrow> dims_ok (s_dimensions s)"
  by (simp add: shape_def)

lemma physical_row_less: "shape s \<Longrightarrow> physical_row s r < s_rows s"
  by (simp add: physical_row_def shape_def dims_pos)

lemma physical_row_inj:
  assumes "shape s" "r < s_rows s" "r' < s_rows s" "physical_row s r = physical_row s r'"
  shows "r = r'"
proof -
  have "(s_top s + r) mod s_rows s = (if s_top s + r < s_rows s then s_top s + r else s_top s + r - s_rows s)"
    "(s_top s + r') mod s_rows s = (if s_top s + r' < s_rows s then s_top s + r' else s_top s + r' - s_rows s)"
    using assms(1-3) by (auto simp: shape_def mod_if)
  then show ?thesis using assms by (auto simp: physical_row_def split: if_splits)
qed

lemma row_start_le:
  assumes "shape s"
  shows "physical_row_start s r + s_columns s \<le> s_rows s * s_columns s"
proof -
  have "(physical_row s r + 1) * s_columns s \<le> s_rows s * s_columns s"
    using physical_row_less [OF assms, of r] by (intro mult_right_mono) auto
  then show ?thesis by (simp add: physical_row_start_def algebra_simps)
qed

lemma row_start_disjoint:
  assumes "shape s" "r < s_rows s" "r' < s_rows s" "r \<noteq> r'"
  shows "physical_row_start s r + s_columns s \<le> physical_row_start s r' \<or>
         physical_row_start s r' + s_columns s \<le> physical_row_start s r"
proof -
  have "p < q \<Longrightarrow> p * s_columns s + s_columns s \<le> q * s_columns s" for p q :: nat
    by (metis Suc_leI add.commute mult_Suc mult_le_mono1)
  then show ?thesis
    using physical_row_inj [OF assms(1-3)] assms(4)
    unfolding physical_row_start_def by (meson linorder_neqE_nat)
qed

lemma length_grid [simp]: "length (grid s) = s_rows s"
  by (simp add: grid_def)

lemma grid_nth [simp]: "r < s_rows s \<Longrightarrow> grid s ! r = get_row s r"
  by (simp add: grid_def)

lemma get_row_fits: "shape s \<Longrightarrow> fits (s_columns s) (get_row s r)"
  using row_start_le [of s r] by (simp add: fits_def get_row_def shape_def)

lemma put_row_dims [simp]:
  "s_dimensions (put_row s r g) = s_dimensions s" "s_top (put_row s r g) = s_top s"
  by (simp_all add: put_row_def)

lemma put_row_addr [simp]:
  "physical_row (put_row s r g) = physical_row s" "physical_row_start (put_row s r g) = physical_row_start s"
  by (simp_all add: fun_eq_iff physical_row_def physical_row_start_def)

lemma put_row_shape:
  assumes "shape s" "fits (s_columns s) g"
  shows "shape (put_row s r g)"
  using assms row_start_le [OF assms(1), of r]
  by (simp add: shape_def put_row_def fits_def)

lemma get_put_same:
  assumes "shape s" "r < s_rows s" "fits (s_columns s) g"
  shows "get_row (put_row s r g) r = g"
  using assms row_start_le [OF assms(1), of r] physical_row_less [OF assms(1), of r]
  by (simp add: get_row_def put_row_def fits_def shape_def physical_row_start_def physical_row_def)

lemma get_put_other:
  assumes "shape s" "r < s_rows s" "r' < s_rows s" "fits (s_columns s) g" "r \<noteq> r'"
  shows "get_row (put_row s r g) r' = get_row s r'"
proof -
  have ne: "physical_row s r \<noteq> physical_row s r'" using physical_row_inj assms by blast
  have a: "physical_row (put_row s r g) r' = physical_row s r'"
    "physical_row_start (put_row s r g) r' = physical_row_start s r'" by simp_all
  show ?thesis
    using assms row_start_le [OF assms(1), of r] row_start_disjoint [OF assms(1,2,3,5)] ne
    unfolding get_row_def a
    by (simp add: put_row_def fits_def shape_def slice_blit_other disj_commute)
qed

lemma grid_put:
  assumes "shape s" "r < s_rows s" "fits (s_columns s) g"
  shows "grid (put_row s r g) = (grid s)[r := g]"
  by (rule nth_equalityI) (use assms get_put_same get_put_other in \<open>auto simp: nth_list_update\<close>)

lemma put_put:
  assumes "shape s" "r < s_rows s" "fits (s_columns s) g" "fits (s_columns s) h"
  shows "put_row (put_row s r g) r h = put_row s r h"
proof -
  have a: "physical_row (put_row s r g) r = physical_row s r"
    "physical_row_start (put_row s r g) r = physical_row_start s r" by simp_all
  show ?thesis using assms row_start_le [OF assms(1), of r]
    unfolding put_row_def [of _ r h] a
    by (simp add: put_row_def fits_def shape_def blit_blit)
qed

lemma put_get [simp]:
  assumes "shape s" "r < s_rows s"
  shows "put_row s r (get_row s r) = s"
  using assms row_start_le [OF assms(1), of r] physical_row_less [OF assms(1), of r]
  by (simp add: put_row_def get_row_def shape_def)

lemma screen_eq_grid: "screen_eq s t \<longleftrightarrow> s_dimensions s = s_dimensions t \<and> grid s = grid t"
  by (auto simp: screen_eq_def grid_def get_row_def)

text \<open>A screen is its dimensions, its rotation and its logical grid.\<close>

lemma screen_ext:
  assumes "shape s" "shape t" "s_dimensions s = s_dimensions t" "s_top s = s_top t" "grid s = grid t"
  shows "s = t"
proof -
  have row: "get_row s r = get_row t r" if "r < s_rows s" for r
    using assms(3,5) that by (metis grid_nth)
  have pr: "physical_row t = physical_row s" "physical_row_start t = physical_row_start s"
    using assms by (auto simp: fun_eq_iff physical_row_def physical_row_start_def)
  have surj: "\<exists>r < s_rows s. physical_row s r = p" if "p < s_rows s" for p
  proof -
    let ?r = "(p + (s_rows s - s_top s)) mod s_rows s"
    have "physical_row s ?r = p" using that assms(1)
      by (simp add: physical_row_def mod_add_right_eq shape_def)
    then show ?thesis using that by (metis mod_less_divisor not_less_zero bot_nat_0.not_eq_extremum)
  qed
  have cell: "s_cells s ! i = s_cells t ! i \<and> s_occupied_cells s ! i = s_occupied_cells t ! i"
    if "i < s_rows s * s_columns s" for i
  proof -
    have c: "i mod s_columns s < s_columns s" using dims_pos(3) [OF shape_dims [OF assms(1)]] by simp
    have "i div s_columns s < s_rows s" using that by (simp add: less_mult_imp_div_less)
    then obtain r where r: "r < s_rows s" "physical_row s r = i div s_columns s" using surj by blast
    then have i: "physical_row_start s r + i mod s_columns t = i"
      using assms(3) by (simp add: physical_row_start_def)
    have "gr_cells (get_row s r) ! (i mod s_columns s) = gr_cells (get_row t r) ! (i mod s_columns s)"
      "gr_occupied (get_row s r) ! (i mod s_columns s) = gr_occupied (get_row t r) ! (i mod s_columns s)"
      using row [OF r(1)] by simp_all
    then show ?thesis using assms(1-3) that c row_start_le [OF assms(1), of r]
      by (simp add: get_row_def shape_def pr i)
  qed
  have meta: "s_soft_wrapped_rows s ! p = s_soft_wrapped_rows t ! p \<and>
     s_occupied_columns s ! p = s_occupied_columns t ! p" if "p < s_rows s" for p
    using surj [OF that] row by (auto simp: get_row_def pr)
  have dirty: "s_dirty_rows s ! r = s_dirty_rows t ! r" if "r < s_rows s" for r
    using row [OF that] by (simp add: get_row_def)
  show ?thesis
    using assms(1-4) cell meta dirty
    by (intro screen.equality) (auto intro!: nth_equalityI simp: shape_def)
qed

section \<open>Row stores\<close>

text \<open>
  What the operations need of the ring: rows that are read and written independently.  \<open>acts r f m\<close>
  says that the operation \<open>m\<close> never fails and is exactly the row function \<open>f\<close> applied to row \<open>r\<close>.
\<close>

locale row_store =
  fixes valid :: "'s \<Rightarrow> bool"
    and count :: nat
    and get :: "'s \<Rightarrow> nat \<Rightarrow> 'g"
    and put :: "'s \<Rightarrow> nat \<Rightarrow> 'g \<Rightarrow> 's"
    and fit :: "'g \<Rightarrow> bool"
  assumes get_fit: "valid s \<Longrightarrow> r < count \<Longrightarrow> fit (get s r)"
    and put_valid: "valid s \<Longrightarrow> r < count \<Longrightarrow> fit g \<Longrightarrow> valid (put s r g)"
    and get_put: "valid s \<Longrightarrow> r < count \<Longrightarrow> fit g \<Longrightarrow> get (put s r g) r = g"
    and get_put_ne: "valid s \<Longrightarrow> r < count \<Longrightarrow> r' < count \<Longrightarrow> fit g \<Longrightarrow> r \<noteq> r' \<Longrightarrow>
                     get (put s r g) r' = get s r'"
    and put_put: "valid s \<Longrightarrow> r < count \<Longrightarrow> fit g \<Longrightarrow> fit h \<Longrightarrow> put (put s r g) r h = put s r h"
    and put_get: "valid s \<Longrightarrow> r < count \<Longrightarrow> put s r (get s r) = s"
begin

definition acts :: "nat \<Rightarrow> ('g \<Rightarrow> 'g) \<Rightarrow> ('s \<Rightarrow> 's option) \<Rightarrow> bool" where
  "acts r f m \<longleftrightarrow> r < count \<and> (\<forall>g. fit g \<longrightarrow> fit (f g)) \<and>
     (\<forall>s. valid s \<longrightarrow> m s = Some (put s r (f (get s r))))"

lemma actsD: "acts r f m \<Longrightarrow> valid s \<Longrightarrow> m s = Some (put s r (f (get s r)))"
  by (simp add: acts_def)

lemma acts_valid: "acts r f m \<Longrightarrow> valid s \<Longrightarrow> valid (put s r (f (get s r)))"
  by (simp add: acts_def put_valid get_fit)

lemma acts_Some: "r < count \<Longrightarrow> acts r (\<lambda>g. g) Some"
  by (simp add: acts_def put_get)

lemma acts_bind:
  assumes "acts r f m" "acts r g n"
  shows "acts r (\<lambda>x. g (f x)) (\<lambda>s. m s \<bind> n)"
  using assms by (auto simp: acts_def put_valid get_fit get_put put_put)

lemma acts_put: "acts r f m \<Longrightarrow> valid s \<Longrightarrow> fit g \<Longrightarrow> m (put s r g) = Some (put s r (f g))"
  by (simp add: acts_def put_valid get_put put_put)

lemma acts_foldM:
  assumes "r < count" "\<And>x. x \<in> set xs \<Longrightarrow> acts r (f x) (m x)"
  shows "acts r (fold f xs) (foldM m xs)"
  using assms(2)
proof (induction xs)
  case Nil
  then show ?case using acts_Some [OF assms(1)] by (simp add: acts_def)
next
  case (Cons x xs)
  have "acts r (f x) (m x)" "acts r (fold f xs) (foldM m xs)" using Cons by simp_all
  from acts_bind [OF this] show ?case by (simp add: acts_def)
qed

definition listing :: "'s \<Rightarrow> 'g list" where
  "listing s = map (get s) [0..<count]"

lemma listing_put:
  assumes "valid s" "r < count" "fit g"
  shows "listing (put s r g) = (listing s)[r := g]"
  by (rule nth_equalityI)
     (use assms get_put get_put_ne in \<open>auto simp: listing_def nth_list_update\<close>)

lemma listing_nth: "r < count \<Longrightarrow> listing s ! r = get s r"
  by (simp add: listing_def)

lemma listing_acts:
  assumes "acts r f m" "valid s"
  shows "ok (\<lambda>s'. valid s' \<and> listing s' = (listing s)[r := f (listing s ! r)]) (m s)"
  using assms acts_valid [OF assms]
  by (auto simp: acts_def listing_put get_fit listing_nth)

text \<open>A loop over rows is the fold of the row updates.\<close>

lemma listing_foldM:
  assumes "\<And>r. r \<in> set rs \<Longrightarrow> acts r (f r) (m r)" "valid s"
  shows "ok (\<lambda>s'. valid s' \<and> listing s' = fold (\<lambda>r G. G[r := f r (G ! r)]) rs (listing s)) (foldM m rs s)"
  using assms
proof (induction rs arbitrary: s)
  case (Cons r rs)
  from listing_acts [OF Cons.prems(1) Cons.prems(2), of r] obtain s1
    where s1: "m r s = Some s1" "valid s1" "listing s1 = (listing s)[r := f r (listing s ! r)]"
    by (auto simp: ok_iff)
  with Cons.IH [of s1] Cons.prems(1) show ?case by simp
qed simp

end

interpretation rs: row_store "\<lambda>s. shape s \<and> s_dimensions s = d \<and> s_top s = t" "rows d"
  get_row put_row "fits (columns d)" for d t
  by unfold_locales
     (auto simp: get_row_fits put_row_shape get_put_same get_put_other put_put)

lemma rs_listing: "s_dimensions s = d \<Longrightarrow> rs.listing d s = grid s"
  by (simp add: rs.listing_def grid_def)

section \<open>Row functions\<close>

definition row_set :: "nat \<Rightarrow> cell \<Rightarrow> bool \<Rightarrow> grid_row \<Rightarrow> grid_row" where
  "row_set c x oc g = g\<lparr>gr_cells := (gr_cells g)[c := x], gr_occupied := (gr_occupied g)[c := oc]\<rparr>"

definition row_blit :: "nat \<Rightarrow> cell list \<Rightarrow> bool list \<Rightarrow> grid_row \<Rightarrow> grid_row" where
  "row_blit a xs os g = g\<lparr>gr_cells := blit a xs (gr_cells g), gr_occupied := blit a os (gr_occupied g)\<rparr>"

definition row_bad :: "cell list \<Rightarrow> nat \<Rightarrow> bool" where
  "row_bad cs c \<longleftrightarrow> \<not> pair_valid (length cs) cs c"

definition row_repair :: "cell \<Rightarrow> nat \<Rightarrow> grid_row \<Rightarrow> grid_row" where
  "row_repair fill c g = (if row_bad (gr_cells g) c then row_set c fill (\<not> is_structural_blank fill) g else g)"

definition row_neighborhood :: "nat \<Rightarrow> cell \<Rightarrow> grid_row \<Rightarrow> grid_row" where
  "row_neighborhood b fill g = fold (row_repair fill) [b - 1..<min (b + 2) (length (gr_cells g))] g"

definition row_recompute :: "grid_row \<Rightarrow> grid_row" where
  "row_recompute g = g\<lparr>gr_extent := extent id (gr_occupied g)\<rparr>"

lemma row_fits [simp]:
  "fits n (row_set c x oc g) = fits n g"
  "fits n (row_repair fill c g) = fits n g"
  "fits n (row_recompute g) = fits n g"
  "fits n (g\<lparr>gr_wrapped := w\<rparr>) = fits n g" "fits n (g\<lparr>gr_extent := k\<rparr>) = fits n g"
  "fits n (g\<lparr>gr_dirty := b\<rparr>) = fits n g"
  by (simp_all add: fits_def row_set_def row_repair_def row_recompute_def)

lemma row_blit_fits:
  "fits n g \<Longrightarrow> a + length xs \<le> n \<Longrightarrow> length os = length xs \<Longrightarrow> fits n (row_blit a xs os g)"
  by (simp add: fits_def row_blit_def)

lemma row_fold_repair_fits [simp]: "fits n (fold (row_repair fill) cs g) = fits n g"
  by (induction cs arbitrary: g) simp_all

lemma row_neighborhood_fits [simp]: "fits n (row_neighborhood b fill g) = fits n g"
  by (simp add: row_neighborhood_def)

section \<open>Screen operations as row functions\<close>

lemma set_cell_row:
  assumes "shape s" "r < s_rows s" "c < s_columns s"
  shows "set_cell (physical_row_start s r + c) x oc s = Some (put_row s r (row_set c x oc (get_row s r)))"
proof -
  let ?i = "physical_row_start s r + c"
  have i: "?i < s_rows s * s_columns s" using row_start_le [OF assms(1), of r] assms(3) by simp
  show ?thesis
    using assms i row_start_le [OF assms(1), of r] physical_row_less [OF assms(1), of r]
    by (simp add: set_cell_def wr_def shape_def put_row_def row_set_def get_row_def
        update_in_slice [where n = "s_columns s"])
qed

lemma blit_row:
  assumes "shape s" "r < s_rows s" "c + length xs \<le> s_columns s" "length os = length xs"
  shows "s\<lparr>s_cells := blit (physical_row_start s r + c) xs (s_cells s),
           s_occupied_cells := blit (physical_row_start s r + c) os (s_occupied_cells s)\<rparr>
         = put_row s r (row_blit c xs os (get_row s r))"
  using assms row_start_le [OF assms(1), of r] physical_row_less [OF assms(1), of r]
  by (simp add: shape_def put_row_def row_blit_def get_row_def blit_in_slice [where n = "s_columns s"])

lemma fill_cells_row:
  assumes "shape s" "r < s_rows s" "c + n \<le> s_columns s"
  shows "fill_cells (physical_row_start s r + c) (physical_row_start s r + c + n) x oc s =
         Some (put_row s r (row_blit c (replicate n x) (replicate n oc) (get_row s r)))"
proof -
  have "physical_row_start s r + c + n \<le> s_rows s * s_columns s"
    using row_start_le [OF assms(1), of r] assms(3) by simp
  then show ?thesis
    using assms blit_row [of s r c "replicate n x" "replicate n oc"]
    by (simp add: fill_cells_def fill_range_def shape_def)
qed

lemma rd_cell_row:
  assumes "shape s" "c < s_columns s"
  shows "rd (s_cells s) (physical_row_start s r + c) = Some (gr_cells (get_row s r) ! c)"
    "rd (s_occupied_cells s) (physical_row_start s r + c) = Some (gr_occupied (get_row s r) ! c)"
  using assms row_start_le [OF assms(1), of r]
  by (simp_all add: rd_in_slice [where n = "s_columns s"] shape_def get_row_def)

lemma set_extent_row:
  assumes "shape s" "r < s_rows s"
  shows "set_extent r n s = Some (put_row s r ((get_row s r)\<lparr>gr_extent := n\<rparr>))"
  using assms row_start_le [OF assms(1), of r] physical_row_less [OF assms(1), of r]
  by (simp add: set_extent_def wr_def put_row_def get_row_def shape_def)

lemma set_soft_wrapped_row:
  assumes "shape s" "r < s_rows s"
  shows "set_soft_wrapped r b s = Some (put_row s r ((get_row s r)\<lparr>gr_wrapped := b\<rparr>))"
  using assms row_start_le [OF assms(1), of r] physical_row_less [OF assms(1), of r]
  by (simp add: set_soft_wrapped_def wr_def put_row_def get_row_def shape_def)

lemma mark_dirty_row:
  assumes "shape s" "r < s_rows s"
  shows "mark_dirty r s = Some (put_row s r ((get_row s r)\<lparr>gr_dirty := True\<rparr>))"
  using assms row_start_le [OF assms(1), of r] physical_row_less [OF assms(1), of r]
  by (simp add: mark_dirty_def wr_def put_row_def get_row_def shape_def)

lemma recompute_occupied_row:
  assumes "shape s" "r < s_rows s"
  shows "recompute_occupied r s = Some (put_row s r (row_recompute (get_row s r)))"
  using assms row_start_le [OF assms(1), of r] set_extent_row [OF assms]
  by (simp add: recompute_occupied_def rd_range_def shape_def row_recompute_def get_row_def Let_def)

lemma repair_cell_row:
  assumes "shape s" "r < s_rows s" "c < s_columns s"
  shows "repair_cell r fill c s = Some (put_row s r (row_repair fill c (get_row s r)))"
proof -
  let ?g = "get_row s r"
  have len: "length (gr_cells ?g) = s_columns s" using get_row_fits [OF assms(1)] by (simp add: fits_def)
  have nxt: "rd (s_cells s) (physical_row_start s r + c + 1) = Some (gr_cells ?g ! (c + 1))"
    if "c + 1 \<noteq> s_columns s"
    using rd_cell_row(1) [OF assms(1), of "c + 1" r] that assms(3) by simp
  have prv: "rd (s_cells s) (physical_row_start s r + c - 1) = Some (gr_cells ?g ! (c - 1))" if "c \<noteq> 0"
    using rd_cell_row(1) [OF assms(1), of "c - 1" r] that assms(3) by simp
  show ?thesis
    using assms rd_cell_row(1) [OF assms(1,3), of r] nxt prv set_cell_row [OF assms] len
    by (cases "c_width (gr_cells ?g ! c)")
       (auto simp: repair_cell_def Let_def row_repair_def row_bad_def pair_valid_def split: if_splits)
qed

lemma repair_neighborhood_row:
  assumes "shape s" "r < s_rows s" "b < usize_max"
  shows "repair_neighborhood r b fill s = Some (put_row s r (row_neighborhood b fill (get_row s r)))"
proof -
  let ?d = "s_dimensions s" and ?cols = "s_columns s"
  have "rs.acts ?d (s_top s) r (row_repair fill c) (repair_cell r fill c)" if "c < ?cols" for c
    unfolding rs.acts_def using that assms(2) by (auto simp: repair_cell_row)
  then have "rs.acts ?d (s_top s) r (fold (row_repair fill) [b - 1..<min (b + 2) ?cols])
      (foldM (repair_cell r fill) [b - 1..<min (b + 2) ?cols])"
    using assms(2) by (intro rs.acts_foldM) auto
  from rs.actsD [OF this, of s] assms(1)
  have "foldM (repair_cell r fill) [b - 1..<min (b + 2) ?cols] s =
        Some (put_row s r (row_neighborhood b fill (get_row s r)))"
    using get_row_fits [OF assms(1), of r] by (simp add: row_neighborhood_def fits_def)
  moreover have "min (sat_add b 1) (?cols - 1) + 1 = min (b + 2) ?cols"
    using assms(3) dims_pos(3) [OF shape_dims [OF assms(1)]] by (auto simp: min_def)
  moreover have "1 \<le> ?cols" using dims_pos(3) [OF shape_dims [OF assms(1)]] by simp
  ultimately show ?thesis
    by (auto simp: repair_neighborhood_def Let_def row_neighborhood_def)
qed

text \<open>The same facts for a screen one of whose rows was just written.\<close>

lemma row_ops_put:
  assumes "shape s" "r < s_rows s" "fits (s_columns s) g"
  shows "recompute_occupied r (put_row s r g) = Some (put_row s r (row_recompute g))"
    "mark_dirty r (put_row s r g) = Some (put_row s r (g\<lparr>gr_dirty := True\<rparr>))"
    "set_extent r n (put_row s r g) = Some (put_row s r (g\<lparr>gr_extent := n\<rparr>))"
    "set_soft_wrapped r w (put_row s r g) = Some (put_row s r (g\<lparr>gr_wrapped := w\<rparr>))"
    "b < usize_max \<Longrightarrow> repair_neighborhood r b fill (put_row s r g) = Some (put_row s r (row_neighborhood b fill g))"
    "c < s_columns s \<Longrightarrow> repair_cell r fill c (put_row s r g) = Some (put_row s r (row_repair fill c g))"
    "c < s_columns s \<Longrightarrow> set_cell (physical_row_start s r + c) x oc (put_row s r g) = Some (put_row s r (row_set c x oc g))"
    "c + k \<le> s_columns s \<Longrightarrow> fill_cells (physical_row_start s r + c) (physical_row_start s r + c + k) x oc (put_row s r g) =
       Some (put_row s r (row_blit c (replicate k x) (replicate k oc) g))"
    "c < s_columns s \<Longrightarrow> rd (s_cells (put_row s r g)) (physical_row_start s r + c) = Some (gr_cells g ! c)"
    "c < s_columns s \<Longrightarrow> rd (s_occupied_cells (put_row s r g)) (physical_row_start s r + c) = Some (gr_occupied g ! c)"
proof -
  have sh: "shape (put_row s r g)" using assms put_row_shape by blast
  note facts = assms sh get_put_same [OF assms] put_put [OF assms]
  show "recompute_occupied r (put_row s r g) = Some (put_row s r (row_recompute g))"
    using recompute_occupied_row [OF sh] facts by simp
  show "mark_dirty r (put_row s r g) = Some (put_row s r (g\<lparr>gr_dirty := True\<rparr>))"
    using mark_dirty_row [OF sh] facts by simp
  show "set_extent r n (put_row s r g) = Some (put_row s r (g\<lparr>gr_extent := n\<rparr>))"
    using set_extent_row [OF sh] facts by simp
  show "set_soft_wrapped r w (put_row s r g) = Some (put_row s r (g\<lparr>gr_wrapped := w\<rparr>))"
    using set_soft_wrapped_row [OF sh] facts by simp
  show "b < usize_max \<Longrightarrow> repair_neighborhood r b fill (put_row s r g) = Some (put_row s r (row_neighborhood b fill g))"
    using repair_neighborhood_row [OF sh] facts by simp
  show "c < s_columns s \<Longrightarrow> repair_cell r fill c (put_row s r g) = Some (put_row s r (row_repair fill c g))"
    using repair_cell_row [OF sh] facts by simp
  show "c < s_columns s \<Longrightarrow> set_cell (physical_row_start s r + c) x oc (put_row s r g) = Some (put_row s r (row_set c x oc g))"
    using set_cell_row [OF sh] facts by simp
  show "c + k \<le> s_columns s \<Longrightarrow> fill_cells (physical_row_start s r + c) (physical_row_start s r + c + k) x oc (put_row s r g) =
       Some (put_row s r (row_blit c (replicate k x) (replicate k oc) g))"
    using fill_cells_row [OF sh] facts by (simp add: row_blit_fits)
  show "c < s_columns s \<Longrightarrow> rd (s_cells (put_row s r g)) (physical_row_start s r + c) = Some (gr_cells g ! c)"
    "c < s_columns s \<Longrightarrow> rd (s_occupied_cells (put_row s r g)) (physical_row_start s r + c) = Some (gr_occupied g ! c)"
    using rd_cell_row [OF sh, of c r] facts by simp_all
qed

section \<open>Memory moves\<close>

lemma move_up:
  assumes "b \<le> a" "a + n \<le> length xs"
  shows "fold (\<lambda>i xs. xs[b + i := xs ! (a + i)]) [0..<n] xs = blit b (slice a n xs) xs"
  using assms(2)
proof (induction n)
  case 0
  then show ?case by (simp add: blit_def slice_def)
next
  case (Suc n)
  then show ?case using assms(1)
    by (auto intro!: nth_equalityI simp: nth_blit nth_list_update less_Suc_eq) (simp add: slice_def)
qed

lemma move_down:
  assumes "a \<le> b" "b + n \<le> length xs"
  shows "fold (\<lambda>i xs. xs[b + i := xs ! (a + i)]) (rev [0..<n]) xs = blit b (slice a n xs) xs"
proof -
  have "k \<le> n \<Longrightarrow> fold (\<lambda>i xs. xs[b + i := xs ! (a + i)]) (rev [k..<n]) xs = blit (b + k) (slice (a + k) (n - k) xs) xs" for k
  proof (induction "n - k" arbitrary: k)
    case 0
    then show ?case using assms(2) by (simp add: blit_def slice_def)
  next
    case (Suc m)
    then have "k < n" "m = n - Suc k" by auto
    then show ?case using Suc(1) [of "Suc k"] assms
      by (auto intro!: nth_equalityI simp: upt_conv_Cons nth_blit nth_list_update Suc_diff_Suc
          simp del: upt_Suc)
  qed
  from this [of 0] show ?thesis by simp
qed

text \<open>A run of \<open>move_one\<close> steps inside one row.\<close>

definition row_move1 :: "nat \<Rightarrow> nat \<Rightarrow> nat \<Rightarrow> grid_row \<Rightarrow> grid_row" where
  "row_move1 a b i g = row_set (b + i) (gr_cells g ! (a + i)) (gr_occupied g ! (a + i)) g"

lemma row_move1_fold:
  "fold (row_move1 a b) is g =
     g\<lparr>gr_cells := fold (\<lambda>i xs. xs[b + i := xs ! (a + i)]) is (gr_cells g),
       gr_occupied := fold (\<lambda>i xs. xs[b + i := xs ! (a + i)]) is (gr_occupied g)\<rparr>"
  by (induction "is" arbitrary: g) (simp_all add: row_move1_def row_set_def)

lemma row_move1_fits [simp]: "fits n (row_move1 a b i g) = fits n g"
  by (simp add: row_move1_def)

lemma row_moves_fits [simp]: "fits n (fold (row_move1 a b) is g) = fits n g"
  by (induction "is" arbitrary: g) simp_all

lemma move_one_put:
  assumes "shape s" "r < s_rows s" "fits (s_columns s) g" "a + i < s_columns s" "b + i < s_columns s"
  shows "move_one (physical_row_start s r + a) (physical_row_start s r + b) i (put_row s r g) =
         Some (put_row s r (row_move1 a b i g))"
  using assms row_ops_put(7,9,10) [OF assms(1-3)]
  by (simp add: move_one_def row_move1_def add.assoc)

lemma move_foldM_put:
  assumes "shape s" "r < s_rows s" "fits (s_columns s) g"
    "\<And>i. i \<in> set is \<Longrightarrow> a + i < s_columns s \<and> b + i < s_columns s"
  shows "foldM (move_one (physical_row_start s r + a) (physical_row_start s r + b)) is (put_row s r g) =
         Some (put_row s r (fold (row_move1 a b) is g))"
  using assms(3,4)
  by (induction "is" arbitrary: g) (simp_all add: move_one_put assms(1,2))

lemma move_cells_row:
  assumes "shape s" "r < s_rows s" "a + n \<le> s_columns s" "b + n \<le> s_columns s"
  shows "move_cells_within_row (physical_row_start s r + a) (physical_row_start s r + a + n)
           (physical_row_start s r + b) s =
         Some (put_row s r (row_blit b (slice a n (gr_cells (get_row s r)))
                                       (slice a n (gr_occupied (get_row s r))) (get_row s r)))"
proof -
  let ?g = "get_row s r"
  have fit: "fits (s_columns s) ?g" by (rule get_row_fits [OF assms(1)])
  then have len: "length (gr_cells ?g) = s_columns s" "length (gr_occupied ?g) = s_columns s"
    by (simp_all add: fits_def)
  have up: "foldM (move_one (physical_row_start s r + a) (physical_row_start s r + b)) [0..<n] s =
      Some (put_row s r (fold (row_move1 a b) [0..<n] ?g))"
    using move_foldM_put [OF assms(1,2) fit, of "[0..<n]" a b] assms by simp
  have down: "foldM (move_one (physical_row_start s r + a) (physical_row_start s r + b)) (rev [0..<n]) s =
      Some (put_row s r (fold (row_move1 a b) (rev [0..<n]) ?g))"
    using move_foldM_put [OF assms(1,2) fit, of "rev [0..<n]" a b] assms by simp
  show ?thesis
    using up down len assms
    by (auto simp: move_cells_within_row_def row_move1_fold move_up move_down row_blit_def)
qed

section \<open>Operations on one row\<close>

lemma dims_le:
  assumes "dims_ok d"
  shows "columns d \<le> 4194304" "rows d \<le> 4194304"
proof -
  have p: "1 * rows d \<le> columns d * rows d" "columns d * 1 \<le> columns d * rows d"
    using assms by (intro mult_le_mono; simp add: dims_ok_def)+
  have "columns d * rows d \<le> 4194304" using assms by (simp add: dims_ok_def MAX_CELL_COUNT_def)
  then show "columns d \<le> 4194304" "rows d \<le> 4194304"
    using p by linarith+
qed

lemma col_usize: "shape s \<Longrightarrow> c \<le> s_columns s + 2 \<Longrightarrow> c < usize_max"
  using dims_le [of "s_dimensions s"] by (simp add: shape_def usize_max_def)

lemma row_meta [simp]:
  "gr_extent (row_set c x oc g) = gr_extent g" "gr_extent (row_blit a xs os g) = gr_extent g"
  "gr_extent (row_repair fill c g) = gr_extent g"
  "gr_dirty (row_set c x oc g) = gr_dirty g" "gr_dirty (row_blit a xs os g) = gr_dirty g"
  "gr_dirty (row_repair fill c g) = gr_dirty g" "gr_dirty (row_recompute g) = gr_dirty g"
  "gr_wrapped (row_set c x oc g) = gr_wrapped g" "gr_wrapped (row_blit a xs os g) = gr_wrapped g"
  "gr_wrapped (row_repair fill c g) = gr_wrapped g" "gr_wrapped (row_recompute g) = gr_wrapped g"
  by (simp_all add: row_set_def row_blit_def row_repair_def row_recompute_def)

lemma row_repairs_meta [simp]:
  "gr_extent (fold (row_repair fill) cs g) = gr_extent g"
  "gr_dirty (fold (row_repair fill) cs g) = gr_dirty g"
  "gr_wrapped (fold (row_repair fill) cs g) = gr_wrapped g"
  by (induction cs arbitrary: g) simp_all

lemma row_neighborhood_meta [simp]:
  "gr_extent (row_neighborhood b fill g) = gr_extent g"
  "gr_dirty (row_neighborhood b fill g) = gr_dirty g"
  "gr_wrapped (row_neighborhood b fill g) = gr_wrapped g"
  by (simp_all add: row_neighborhood_def)

definition row_cluster :: "env \<Rightarrow> nat \<Rightarrow> cell \<Rightarrow> grid_row \<Rightarrow> grid_row" where
  "row_cluster e col c g =
     (let w = width_columns (c_width c);
          g1 = row_set col c True g;
          g2 = (if w = 2 then row_set (col + 1) (continuation_of e c) True g1 else g1)\<lparr>gr_dirty := True\<rparr>;
          g3 = row_neighborhood (col + w) (blank_cell e) (row_neighborhood col (blank_cell e) g2)
      in if gr_extent g \<le> col then g3\<lparr>gr_extent := col + w\<rparr> else row_recompute g3)"

lemma extent_rd_put:
  assumes "shape s" "r < s_rows s" "fits (s_columns s) g"
  shows "rd (s_occupied_columns (put_row s r g)) (physical_row s r) = Some (gr_extent g)"
  using assms physical_row_less [OF assms(1), of r]
  by (simp add: rd_def put_row_def shape_def)

lemma replace_cluster_row:
  assumes "shape s" "r < s_rows s" "col < s_columns s"
    "c_width c = Single \<or> c_width c = Double \<and> col + 1 < s_columns s"
  shows "replace_cluster e col r c s = Some (put_row s r (row_cluster e col c (get_row s r)))"
proof -
  have fit: "fits (s_columns s) (get_row s r)" by (rule get_row_fits [OF assms(1)])
  have w: "width_columns (c_width c) \<in> {1, 2}" "width_columns (c_width c) = 2 \<Longrightarrow> col + 1 < s_columns s"
    using assms(4) by (auto simp: width_columns_def split: cell_width.splits)
  have us: "col < usize_max" "col + width_columns (c_width c) < usize_max"
    using assms(3) w(1) by (auto intro!: col_usize [OF assms(1)])
  note ops = row_ops_put [OF assms(1,2)] extent_rd_put [OF assms(1,2)] set_cell_row [OF assms(1,2)]
  note next_cell = row_ops_put(7) [OF assms(1,2), where c = "Suc col", simplified]
  have idx: "cell_index (put_row s r g) (col + 1) r = Some (physical_row_start s r + (col + 1))"
    if "col + 1 < s_columns s" for g using that assms(2) by (simp add: cell_index_def)
  show ?thesis
    using assms(2,3) w us fit idx
    by (simp add: replace_cluster_def cell_index_def ops next_cell Let_def row_cluster_def
        extend_occupied_or_recompute_def)
qed

definition row_replace :: "nat \<Rightarrow> cell \<Rightarrow> grid_row \<Rightarrow> grid_row" where
  "row_replace col c g = (row_recompute (row_set col c True g))\<lparr>gr_dirty := True\<rparr>"

lemma replace_cell_row:
  assumes "shape s" "r < s_rows s" "col < s_columns s"
  shows "replace_cell col r c s = Some (put_row s r (row_replace col c (get_row s r)))"
  using assms get_row_fits [OF assms(1), of r] row_ops_put [OF assms(1,2)] set_cell_row [OF assms]
  by (simp add: replace_cell_def cell_index_def row_replace_def)

definition row_edges :: "env \<Rightarrow> column_span \<Rightarrow> grid_row \<Rightarrow> grid_row" where
  "row_edges e sp g =
     row_neighborhood (cs_right sp + 1) (blank_cell e) (row_neighborhood (cs_left sp) (blank_cell e) g)"

lemma row_edges_fits [simp]: "fits n (row_edges e sp g) = fits n g"
  by (simp add: row_edges_def)

lemma row_edges_meta [simp]:
  "gr_extent (row_edges e sp g) = gr_extent g" "gr_dirty (row_edges e sp g) = gr_dirty g"
  "gr_wrapped (row_edges e sp g) = gr_wrapped g"
  by (simp_all add: row_edges_def)

lemma repair_span_edges_put:
  assumes "shape s" "r < s_rows s" "fits (s_columns s) g" "cs_left sp \<le> cs_right sp" "cs_right sp < s_columns s"
  shows "repair_span_edges e r sp (put_row s r g) = Some (put_row s r (row_edges e sp g))"
proof -
  have "cs_left sp < usize_max" "cs_right sp + 1 < usize_max"
    using assms(4,5) by (auto intro!: col_usize [OF assms(1)])
  then show ?thesis using assms(3) by (simp add: repair_span_edges_def row_ops_put [OF assms(1,2)] row_edges_def)
qed

definition row_fill_span :: "env \<Rightarrow> column_span \<Rightarrow> cell \<Rightarrow> grid_row \<Rightarrow> grid_row" where
  "row_fill_span e sp c g =
     (let w = cs_right sp + 1 - cs_left sp in
      row_recompute (row_edges e sp
        (row_blit (cs_left sp) (replicate w c) (replicate w (\<not> is_structural_blank c)) g)))"

lemma fill_row_span_row:
  assumes "shape s" "r < s_rows s" "cs_left sp \<le> cs_right sp" "cs_right sp < s_columns s"
  shows "fill_row_span e sp c r s = Some (put_row s r (row_fill_span e sp c (get_row s r)))"
proof -
  let ?w = "cs_right sp + 1 - cs_left sp"
  have w: "cs_left sp + ?w \<le> s_columns s" using assms(3,4) by simp
  have fit: "fits (s_columns s) (row_blit (cs_left sp) (replicate ?w c) (replicate ?w (\<not> is_structural_blank c)) (get_row s r))"
    by (rule row_blit_fits [OF get_row_fits [OF assms(1)]]) (use w in simp_all)
  show ?thesis
    using assms(3) fill_cells_row [OF assms(1,2) w] fit
    by (simp add: fill_row_span_def span_width_def Let_def row_fill_span_def
        repair_span_edges_put [OF assms(1,2) _ assms(3,4)] row_ops_put [OF assms(1,2)])
qed

definition row_fill :: "cell \<Rightarrow> grid_row \<Rightarrow> grid_row" where
  "row_fill c g = g\<lparr>gr_cells := replicate (length (gr_cells g)) c,
     gr_occupied := replicate (length (gr_occupied g)) (\<not> is_structural_blank c),
     gr_wrapped := False, gr_extent := row_extent (\<not> is_structural_blank c) (length (gr_cells g))\<rparr>"

lemma row_fill_fits [simp]: "fits n (row_fill c g) = fits n g"
  by (simp add: row_fill_def fits_def)

lemma fill_row_row:
  assumes "shape s" "r < s_rows s"
  shows "fill_row c r s = Some (put_row s r (row_fill c (get_row s r)))"
proof -
  let ?g = "get_row s r" and ?n = "s_columns s"
  have fit: "fits ?n ?g" by (rule get_row_fits [OF assms(1)])
  have "fits ?n (row_blit 0 (replicate ?n c) (replicate ?n (\<not> is_structural_blank c)) ?g)"
    using fit by (rule row_blit_fits) simp_all
  moreover have "row_blit 0 (replicate ?n c) (replicate ?n (\<not> is_structural_blank c)) ?g =
      ?g\<lparr>gr_cells := replicate ?n c, gr_occupied := replicate ?n (\<not> is_structural_blank c)\<rparr>"
    using fit by (simp add: row_blit_def blit_def fits_def)
  ultimately show ?thesis
    using fill_cells_row [OF assms, of 0 ?n] fit
    by (simp add: fill_row_def Let_def row_ops_put [OF assms] row_fill_def fits_def)
qed

lemma foldM_Nil_eta [simp]: "foldM f [] = Some"
  by (simp add: fun_eq_iff)

section \<open>Row-wise steps\<close>

text \<open>\<open>local_step s F s'\<close>: from \<open>s\<close> to \<open>s'\<close> every logical row \<open>i\<close> became \<open>F i\<close> of itself, and neither the
  dimensions nor the rotation changed.\<close>

definition local_step :: "screen \<Rightarrow> (nat \<Rightarrow> grid_row \<Rightarrow> grid_row) \<Rightarrow> screen \<Rightarrow> bool" where
  "local_step s F s' \<longleftrightarrow> shape s' \<and> s_dimensions s' = s_dimensions s \<and> s_top s' = s_top s \<and>
     (\<forall>i < s_rows s. get_row s' i = F i (get_row s i))"

lemma local_step_refl: "shape s \<Longrightarrow> local_step s (\<lambda>i g. g) s"
  by (simp add: local_step_def)

lemma local_step_trans:
  "local_step s F s1 \<Longrightarrow> local_step s1 F' s2 \<Longrightarrow> local_step s (\<lambda>i g. F' i (F i g)) s2"
  by (simp add: local_step_def)

lemma local_step_cong:
  "local_step s F s' \<Longrightarrow> (\<And>i. i < s_rows s \<Longrightarrow> F i (get_row s i) = F' i (get_row s i)) \<Longrightarrow> local_step s F' s'"
  by (simp add: local_step_def)

lemma ok_local_trans:
  assumes "ok (local_step s F) m" "\<And>s1. local_step s F s1 \<Longrightarrow> ok (local_step s1 F') (n s1)"
  shows "ok (local_step s (\<lambda>i g. F' i (F i g))) (m \<bind> n)"
  using assms local_step_trans by (fastforce simp: ok_iff)

lemma put_local:
  assumes "shape s" "r < s_rows s" "fits (s_columns s) (f (get_row s r))"
  shows "local_step s (\<lambda>i g. if i = r then f g else g) (put_row s r (f (get_row s r)))"
  using assms by (auto simp: local_step_def put_row_shape get_put_same get_put_other)

lemma row_local:
  assumes "m s = Some (put_row s r (f (get_row s r)))" "shape s" "r < s_rows s" "fits (s_columns s) (f (get_row s r))"
  shows "ok (local_step s (\<lambda>i g. if i = r then f g else g)) (m s)"
  using assms put_local by simp

lemma fold_update_nth:
  assumes "distinct rs" "\<And>r. r \<in> set rs \<Longrightarrow> r < length G" "i < length G"
  shows "fold (\<lambda>r G. G[r := f r (G ! r)]) rs G ! i = (if i \<in> set rs then f i (G ! i) else G ! i)"
  using assms
proof (induction rs arbitrary: G)
  case (Cons r rs)
  then show ?case by (auto simp: nth_list_update)
qed simp

lemma rows_local:
  assumes "distinct rs" "\<And>r. r \<in> set rs \<Longrightarrow> rs.acts (s_dimensions s) (s_top s) r (f r) (m r)" "shape s"
  shows "ok (local_step s (\<lambda>i g. if i \<in> set rs then f i g else g)) (foldM m rs s)"
proof -
  let ?d = "s_dimensions s"
  have less: "r < s_rows s" if "r \<in> set rs" for r using assms(2) [OF that] by (simp add: rs.acts_def)
  have "\<forall>i < s_rows s. get_row s' i = (if i \<in> set rs then f i (get_row s i) else get_row s i)"
    if "rs.listing ?d s' = fold (\<lambda>r G. G[r := f r (G ! r)]) rs (rs.listing ?d s)" "s_dimensions s' = ?d" for s'
  proof (intro allI impI)
    fix i assume i: "i < s_rows s"
    have "grid s' ! i = fold (\<lambda>r G. G[r := f r (G ! r)]) rs (grid s) ! i"
      using that by (simp add: rs_listing)
    then show "get_row s' i = (if i \<in> set rs then f i (get_row s i) else get_row s i)"
      using fold_update_nth [OF assms(1), of "grid s" i f] i that(2) less by simp
  qed
  then show ?thesis
    using rs.listing_foldM [OF assms(2), of rs s] assms(3) by (auto simp: ok_iff local_step_def)
qed

lemma actsI:
  "r < rows d \<Longrightarrow> (\<And>g. fits (columns d) g \<Longrightarrow> fits (columns d) (f g)) \<Longrightarrow>
   (\<And>s. shape s \<Longrightarrow> s_dimensions s = d \<Longrightarrow> s_top s = t \<Longrightarrow> m s = Some (put_row s r (f (get_row s r)))) \<Longrightarrow>
   rs.acts d t r f m"
  by (simp add: rs.acts_def)

lemma mark_dirty_range_local:
  assumes "shape s" "a \<le> b" "b < s_rows s"
  shows "ok (local_step s (\<lambda>i g. if a \<le> i \<and> i \<le> b then g\<lparr>gr_dirty := True\<rparr> else g)) (mark_dirty_range a b s)"
  using assms
  by (auto simp: mark_dirty_range_def fill_range_def shape_def local_step_def get_row_def physical_row_def
      physical_row_start_def nth_blit dims_ok_def)

section \<open>Characters\<close>

definition row_shift_finish :: "nat list \<Rightarrow> cell \<Rightarrow> grid_row \<Rightarrow> grid_row" where
  "row_shift_finish bs c g = row_recompute (fold (\<lambda>b. row_neighborhood b c) bs (g\<lparr>gr_dirty := True\<rparr>))"

definition row_insert :: "nat \<Rightarrow> nat \<Rightarrow> nat \<Rightarrow> cell \<Rightarrow> grid_row \<Rightarrow> grid_row" where
  "row_insert col right n c g =
     row_shift_finish [col, col + n, right + 1] c
       (row_blit col (replicate n c) (replicate n (\<not> is_structural_blank c))
         (row_blit (col + n) (slice col (right + 1 - col - n) (gr_cells g))
            (slice col (right + 1 - col - n) (gr_occupied g)) g))"

definition row_delete :: "nat \<Rightarrow> nat \<Rightarrow> nat \<Rightarrow> cell \<Rightarrow> grid_row \<Rightarrow> grid_row" where
  "row_delete col right n c g =
     row_shift_finish [col, right + 1 - n, right + 1] c
       (row_blit (right + 1 - n) (replicate n c) (replicate n (\<not> is_structural_blank c))
         (row_blit col (slice (col + n) (right + 1 - col - n) (gr_cells g))
            (slice (col + n) (right + 1 - col - n) (gr_occupied g)) g))"

lemma insert_characters_row:
  assumes "shape s" "r < s_rows s" "right = min (cs_right sp) (s_columns s - 1)" "col \<le> right"
  shows "insert_characters col r count c sp s =
         Some (put_row s r (row_insert col right (min count (right + 1 - col)) c (get_row s r)))"
proof -
  define n where "n = min count (right + 1 - col)"
  let ?k = "right + 1 - col - n" and ?g = "get_row s r"
  have cols: "1 \<le> s_columns s" using dims_pos(3) [OF shape_dims [OF assms(1)]] by simp
  have right: "right < s_columns s" using assms(3) cols by simp
  have n: "n \<le> right + 1 - col" by (simp add: n_def)
  have fit: "fits (s_columns s) ?g" by (rule get_row_fits [OF assms(1)])
  let ?g1 = "row_blit (col + n) (slice col ?k (gr_cells ?g)) (slice col ?k (gr_occupied ?g)) ?g"
  have g1: "fits (s_columns s) ?g1"
    by (rule row_blit_fits [OF fit]) (use fit n right assms(4) in \<open>auto simp: fits_def\<close>)
  let ?g2 = "row_blit col (replicate n c) (replicate n (\<not> is_structural_blank c)) ?g1"
  have g2: "fits (s_columns s) ?g2"
    by (rule row_blit_fits [OF g1]) (use n right assms(4) in auto)
  have e: "physical_row_start s r + right + 1 - n = physical_row_start s r + col + ?k"
    "n \<le> physical_row_start s r + right + 1" "physical_row_start s r + col + n = physical_row_start s r + (col + n)"
    using n assms(4) by auto
  have mv: "move_cells_within_row (physical_row_start s r + col) (physical_row_start s r + right + 1 - n)
      (physical_row_start s r + col + n) s = Some (put_row s r ?g1)"
    unfolding e using move_cells_row [OF assms(1,2), of col ?k "col + n"] n right assms(4) by simp
  have us: "col < usize_max" "col + n < usize_max" "right + 1 < usize_max"
    using n right assms(4) by (auto intro!: col_usize [OF assms(1)])
  have fc: "fill_cells (physical_row_start s r + col) (physical_row_start s r + col + n) c
      (\<not> is_structural_blank c) (put_row s r ?g1) = Some (put_row s r ?g2)"
    using row_ops_put(8) [OF assms(1,2) g1, of col n c] n right assms(4) by simp
  have norm: "min (cs_right sp) (s_columns s - Suc 0) = right" "min count (Suc right - col) = n"
    using assms(3) by (simp_all add: n_def)
  have "insert_characters col r count c sp s =
     (do { s \<leftarrow> fill_cells (physical_row_start s r + col) (physical_row_start s r + col + n) c (\<not> is_structural_blank c) (put_row s r ?g1);
       s \<leftarrow> mark_dirty r s;
       s \<leftarrow> repair_neighborhood r col c s;
       s \<leftarrow> repair_neighborhood r (col + n) c s;
       s \<leftarrow> repair_neighborhood r (right + 1) c s;
       recompute_occupied r s })"
    using cols assms(4) e(2) mv
    by (simp add: insert_characters_def Let_def norm)
  also have "\<dots> = Some (put_row s r (row_insert col right n c ?g))"
    using g2 us fc by (simp add: row_ops_put [OF assms(1,2)] row_insert_def row_shift_finish_def)
  finally show ?thesis by (simp add: n_def)
qed

lemma delete_characters_row:
  assumes "shape s" "r < s_rows s" "right = min (cs_right sp) (s_columns s - 1)" "col \<le> right"
  shows "delete_characters col r count c sp s =
         Some (put_row s r (row_delete col right (min count (right + 1 - col)) c (get_row s r)))"
proof -
  define n where "n = min count (right + 1 - col)"
  let ?k = "right + 1 - col - n" and ?g = "get_row s r"
  have cols: "1 \<le> s_columns s" using dims_pos(3) [OF shape_dims [OF assms(1)]] by simp
  have right: "right < s_columns s" using assms(3) cols by simp
  have n: "n \<le> right + 1 - col" by (simp add: n_def)
  have fit: "fits (s_columns s) ?g" by (rule get_row_fits [OF assms(1)])
  let ?g1 = "row_blit col (slice (col + n) ?k (gr_cells ?g)) (slice (col + n) ?k (gr_occupied ?g)) ?g"
  have g1: "fits (s_columns s) ?g1"
    by (rule row_blit_fits [OF fit]) (use fit n right assms(4) in \<open>auto simp: fits_def\<close>)
  let ?g2 = "row_blit (right + 1 - n) (replicate n c) (replicate n (\<not> is_structural_blank c)) ?g1"
  have g2: "fits (s_columns s) ?g2"
    by (rule row_blit_fits [OF g1]) (use n right assms(4) in auto)
  have e: "physical_row_start s r + right + 1 = physical_row_start s r + (col + n) + ?k"
    "physical_row_start s r + right + 1 - n = physical_row_start s r + (right + 1 - n)"
    "physical_row_start s r + (right + 1 - n) + n = physical_row_start s r + right + 1"
    "n \<le> physical_row_start s r + right + 1" "n \<le> right + 1"
    using n assms(4) by auto
  have mv: "move_cells_within_row (physical_row_start s r + col + n) (physical_row_start s r + right + 1)
      (physical_row_start s r + col) s = Some (put_row s r ?g1)"
    unfolding e(1) using move_cells_row [OF assms(1,2), of "col + n" ?k col] n right assms(4)
    by (simp add: add.assoc)
  have us: "col < usize_max" "right + 1 - n < usize_max" "right + 1 < usize_max"
    using n right assms(4) by (auto intro!: col_usize [OF assms(1)])
  have fc: "fill_cells (physical_row_start s r + right + 1 - n) (physical_row_start s r + right + 1) c
      (\<not> is_structural_blank c) (put_row s r ?g1) = Some (put_row s r ?g2)"
    using row_ops_put(8) [OF assms(1,2) g1, of "right + 1 - n" n c] right e by simp
  have norm: "min (cs_right sp) (s_columns s - Suc 0) = right" "min count (Suc right - col) = n"
    using assms(3) by (simp_all add: n_def)
  have "delete_characters col r count c sp s =
     (do { s \<leftarrow> fill_cells (physical_row_start s r + right + 1 - n) (physical_row_start s r + right + 1) c (\<not> is_structural_blank c) (put_row s r ?g1);
       s \<leftarrow> mark_dirty r s;
       s \<leftarrow> repair_neighborhood r col c s;
       s \<leftarrow> repair_neighborhood r (right + 1 - n) c s;
       s \<leftarrow> repair_neighborhood r (right + 1) c s;
       recompute_occupied r s })"
    using cols assms(4) e(4,5) mv
    by (simp add: delete_characters_def Let_def norm)
  also have "\<dots> = Some (put_row s r (row_delete col right n c ?g))"
    using g2 us fc by (simp add: row_ops_put [OF assms(1,2)] row_delete_def row_shift_finish_def)
  finally show ?thesis by (simp add: n_def)
qed

section \<open>Copies between rows\<close>

definition row_copy :: "grid_row \<Rightarrow> grid_row \<Rightarrow> grid_row" where
  "row_copy src g = src\<lparr>gr_dirty := gr_dirty g\<rparr>"

lemma copy_row_row:
  assumes "shape s" "a < s_rows s" "b < s_rows s"
  shows "copy_row a b s = Some (put_row s b (row_copy (get_row s a) (get_row s b)))"
proof (cases "a = b")
  case True
  then have "row_copy (get_row s a) (get_row s b) = get_row s b" by (simp add: row_copy_def get_row_def)
  then show ?thesis using True assms by (simp add: copy_row_def Let_def)
next
  case False
  have ne: "physical_row_start s a \<noteq> physical_row_start s b"
    using row_start_disjoint [OF assms False] dims_pos(3) [OF shape_dims [OF assms(1)]] by auto
  let ?g = "get_row s a"
  have len: "length (gr_cells ?g) = s_columns s" "length (gr_occupied ?g) = s_columns s"
    using get_row_fits [OF assms(1), of a] by (simp_all add: fits_def)
  show ?thesis
    using ne len row_start_le [OF assms(1), of a] row_start_le [OF assms(1), of b]
      physical_row_less [OF assms(1)] assms
    by (simp add: copy_row_def Let_def rd_range_def wr_range_def shape_def set_soft_wrapped_def set_extent_def
        wr_def rd_def physical_row_def put_row_def row_copy_def get_row_def)
qed

definition row_copy_span :: "env \<Rightarrow> column_span \<Rightarrow> grid_row \<Rightarrow> grid_row \<Rightarrow> grid_row" where
  "row_copy_span e sp src g =
     (let w = cs_right sp + 1 - cs_left sp in
      row_recompute (row_edges e sp
        (row_blit (cs_left sp) (slice (cs_left sp) w (gr_cells src)) (slice (cs_left sp) w (gr_occupied src)) g)))"

lemma row_set_blit:
  assumes "fits n g" "l + k < n" "length xs = k" "length os = k"
  shows "row_set (l + k) x oc (row_blit l xs os g) = row_blit l (xs @ [x]) (os @ [oc]) g"
proof -
  have *: "(blit l ys zs)[l + k := y] = blit l (ys @ [y]) zs" if "length zs = n" "length ys = k" for ys zs and y :: 'b
    by (rule nth_equalityI) (use that assms(2) in \<open>auto simp: nth_blit nth_list_update nth_append\<close>)
  show ?thesis using assms by (simp add: row_set_def row_blit_def fits_def *)
qed

lemma copy_span_loop:
  assumes "shape s" "a < s_rows s" "b < s_rows s" "a \<noteq> b" "l + k \<le> s_columns s"
  shows "foldM (move_one (physical_row_start s a + l) (physical_row_start s b + l)) [0..<k] s =
         Some (put_row s b (row_blit l (slice l k (gr_cells (get_row s a))) (slice l k (gr_occupied (get_row s a))) (get_row s b)))"
  using assms(5)
proof (induction k)
  case 0
  have "row_blit l (slice l 0 (gr_cells (get_row s a))) (slice l 0 (gr_occupied (get_row s a))) (get_row s b) = get_row s b"
    by (simp add: row_blit_def slice_def blit_def)
  then show ?case using assms(1,3) by simp
next
  case (Suc k)
  let ?x = "slice l k (gr_cells (get_row s a))" and ?o = "slice l k (gr_occupied (get_row s a))"
  let ?g = "row_blit l ?x ?o (get_row s b)"
  have fa: "length (gr_cells (get_row s a)) = s_columns s" "length (gr_occupied (get_row s a)) = s_columns s"
    using get_row_fits [OF assms(1), of a] by (simp_all add: fits_def)
  have fb: "fits (s_columns s) (get_row s b)" by (rule get_row_fits [OF assms(1)])
  have fg: "fits (s_columns s) ?g" by (rule row_blit_fits [OF fb]) (use fa Suc.prems in auto)
  have sh: "shape (put_row s b ?g)" by (rule put_row_shape [OF assms(1) fg])
  have rd: "rd (s_cells (put_row s b ?g)) (physical_row_start s a + (l + k)) = Some (gr_cells (get_row s a) ! (l + k))"
    "rd (s_occupied_cells (put_row s b ?g)) (physical_row_start s a + (l + k)) = Some (gr_occupied (get_row s a) ! (l + k))"
    using rd_cell_row [OF sh, of "l + k" a] get_put_other [OF assms(1,3,2) fg] assms(4) Suc.prems by auto
  have snoc: "slice l (Suc k) xs = slice l k xs @ [xs ! (l + k)]" if "length xs = s_columns s" for xs :: "'z list"
    using that Suc.prems by (simp add: slice_def take_Suc_conv_app_nth)
  have "foldM (move_one (physical_row_start s a + l) (physical_row_start s b + l)) [0..<Suc k] s =
      move_one (physical_row_start s a + l) (physical_row_start s b + l) k (put_row s b ?g)"
    using Suc by (simp add: foldM_append)
  also have "\<dots> = Some (put_row s b (row_set (l + k) (gr_cells (get_row s a) ! (l + k)) (gr_occupied (get_row s a) ! (l + k)) ?g))"
    using rd row_ops_put(7) [OF assms(1,3) fg, of "l + k"] Suc.prems by (simp add: move_one_def add.assoc)
  finally show ?case
    using row_set_blit [OF fb, of l k ?x ?o] fa Suc.prems by (simp add: snoc)
qed

lemma copy_row_span_row:
  assumes "shape s" "a < s_rows s" "b < s_rows s" "a \<noteq> b" "cs_left sp \<le> cs_right sp" "cs_right sp < s_columns s"
  shows "copy_row_span e sp a b s = Some (put_row s b (row_copy_span e sp (get_row s a) (get_row s b)))"
proof -
  let ?w = "cs_right sp + 1 - cs_left sp"
  have w: "cs_left sp + ?w \<le> s_columns s" using assms(5,6) by simp
  have ne: "physical_row_start s a \<noteq> physical_row_start s b"
    using row_start_disjoint [OF assms(1-4)] dims_pos(3) [OF shape_dims [OF assms(1)]] by auto
  let ?g = "row_blit (cs_left sp) (slice (cs_left sp) ?w (gr_cells (get_row s a))) (slice (cs_left sp) ?w (gr_occupied (get_row s a))) (get_row s b)"
  have fit: "fits (s_columns s) ?g"
    by (rule row_blit_fits [OF get_row_fits [OF assms(1)]])
       (use w get_row_fits [OF assms(1), of a] in \<open>auto simp: fits_def\<close>)
  show ?thesis
    using ne assms(5) copy_span_loop [OF assms(1-4) w] fit
    by (simp add: copy_row_span_def Let_def span_width_def row_copy_span_def
        repair_span_edges_put [OF assms(1,3) _ assms(5,6)] row_ops_put [OF assms(1,3)])
qed

lemma copy_row_span_self: "copy_row_span e sp a a s = Some s"
  by (simp add: copy_row_span_def Let_def)

lemma ok_local_cong:
  "ok (local_step s F) m \<Longrightarrow> (\<And>i. i < s_rows s \<Longrightarrow> F i (get_row s i) = F' i (get_row s i)) \<Longrightarrow>
   ok (local_step s F') m"
  by (auto simp: ok_iff local_step_def)

section \<open>Shifting regions\<close>

text \<open>The contract of a row copy: on every screen of the given dimensions, copying row \<open>a\<close> onto a
  different row \<open>b\<close> is \<open>h\<close> of the two rows.\<close>

definition copies_by :: "dimensions \<Rightarrow> (nat \<Rightarrow> nat \<Rightarrow> screen \<Rightarrow> screen option) \<Rightarrow> (grid_row \<Rightarrow> grid_row \<Rightarrow> grid_row) \<Rightarrow> bool" where
  "copies_by d cp h \<longleftrightarrow>
     (\<forall>s a b. shape s \<and> s_dimensions s = d \<and> a < rows d \<and> b < rows d \<and> a \<noteq> b \<longrightarrow>
        cp a b s = Some (put_row s b (h (get_row s a) (get_row s b)))) \<and>
     (\<forall>x y. fits (columns d) x \<and> fits (columns d) y \<longrightarrow> fits (columns d) (h x y))"

lemma copies_step:
  assumes "copies_by (s_dimensions s) cp h" "local_step s F s1" "a < s_rows s" "b < s_rows s" "a \<noteq> b"
  shows "ok (local_step s (\<lambda>i g. if i = b then h (F a (get_row s a)) (F b g) else F i g)) (cp a b s1)"
proof -
  have s1: "shape s1" "s_dimensions s1 = s_dimensions s" using assms(2) by (simp_all add: local_step_def)
  have "cp a b s1 = Some (put_row s1 b (h (get_row s1 a) (get_row s1 b)))"
    using assms s1 by (simp add: copies_by_def)
  moreover have fit: "fits (s_columns s1) (h (get_row s1 a) (get_row s1 b))"
    using assms(1) get_row_fits [OF s1(1)] s1(2) by (simp add: copies_by_def)
  moreover have "shape (put_row s1 b (h (get_row s1 a) (get_row s1 b)))" by (rule put_row_shape [OF s1(1) fit])
  ultimately show ?thesis
    using assms(2-4) s1 by (auto simp: local_step_def get_put_same get_put_other)
qed

lemma copies_up:
  assumes "copies_by (s_dimensions s) cp h" "shape s" "0 < n" "m \<le> s_rows s"
  shows "ok (local_step s (\<lambda>i g. if t \<le> i \<and> i + n < m then h (get_row s (i + n)) g else g))
            (foldM (\<lambda>(a, b). cp a b) (map (\<lambda>l. (l, l - n)) [t + n..<m]) s)"
  using assms(4)
proof (induction m)
  case 0
  then show ?case using local_step_refl [OF assms(2)] by simp
next
  case (Suc m)
  show ?case
  proof (cases "t + n \<le> m")
    case False
    then have "(\<lambda>i g. if t \<le> i \<and> i + n < Suc m then h (get_row s (i + n)) g else g) = (\<lambda>i g. g)"
      by (auto simp: fun_eq_iff)
    then show ?thesis using False local_step_refl [OF assms(2)] by simp
  next
    case True
    let ?F = "\<lambda>i g. if t \<le> i \<and> i + n < m then h (get_row s (i + n)) g else g"
    obtain s1 where s1: "foldM (\<lambda>(a, b). cp a b) (map (\<lambda>l. (l, l - n)) [t + n..<m]) s = Some s1" "local_step s ?F s1"
      using Suc by (auto simp: ok_iff)
    have "ok (local_step s (\<lambda>i g. if i = m - n then h (?F m (get_row s m)) (?F (m - n) g) else ?F i g)) (cp m (m - n) s1)"
      by (rule copies_step [OF assms(1) s1(2)]) (use True Suc.prems assms(3) in auto)
    then have "ok (local_step s (\<lambda>i g. if t \<le> i \<and> i + n < Suc m then h (get_row s (i + n)) g else g)) (cp m (m - n) s1)"
      by (rule ok_local_cong) (use True assms(3) in auto)
    then show ?thesis using True s1(1) by (simp add: foldM_append)
  qed
qed

lemma copies_down:
  assumes "copies_by (s_dimensions s) cp h" "shape s" "0 < n" "m + n \<le> s_rows s" "t \<le> m"
  shows "ok (local_step s (\<lambda>i g. if t + n \<le> i \<and> i < m + n then h (get_row s (i - n)) g else g))
            (foldM (\<lambda>(a, b). cp a b) (map (\<lambda>l. (l, l + n)) (rev [t..<m])) s)"
  using assms(5)
proof (induction "m - t" arbitrary: t)
  case 0
  then have "(\<lambda>i g. if t + n \<le> i \<and> i < m + n then h (get_row s (i - n)) g else g) = (\<lambda>i g. g)"
    by (auto simp: fun_eq_iff)
  then show ?case using 0 local_step_refl [OF assms(2)] by simp
next
  case (Suc k)
  let ?F = "\<lambda>i g. if Suc t + n \<le> i \<and> i < m + n then h (get_row s (i - n)) g else g"
  have t: "t < m" using Suc.hyps(2) by simp
  have "k = m - Suc t" "Suc t \<le> m" using Suc.hyps(2) by auto
  from Suc.hyps(1) [OF this] obtain s1
    where s1: "foldM (\<lambda>(a, b). cp a b) (map (\<lambda>l. (l, l + n)) (rev [Suc t..<m])) s = Some s1" "local_step s ?F s1"
    by (auto simp: ok_iff)
  have "ok (local_step s (\<lambda>i g. if i = t + n then h (?F t (get_row s t)) (?F (t + n) g) else ?F i g)) (cp t (t + n) s1)"
    by (rule copies_step [OF assms(1) s1(2)]) (use t assms(3,4) in auto)
  then have "ok (local_step s (\<lambda>i g. if t + n \<le> i \<and> i < m + n then h (get_row s (i - n)) g else g)) (cp t (t + n) s1)"
    by (rule ok_local_cong) (use t assms(3) in auto)
  then show ?case using t s1(1) by (simp add: upt_conv_Cons foldM_append del: upt_Suc)
qed

definition span_ok :: "dimensions \<Rightarrow> column_span \<Rightarrow> bool" where
  "span_ok d sp \<longleftrightarrow> cs_left sp \<le> cs_right sp \<and> cs_right sp < columns d"

definition shift_copy :: "env \<Rightarrow> nat \<Rightarrow> column_span \<Rightarrow> grid_row \<Rightarrow> grid_row \<Rightarrow> grid_row" where
  "shift_copy e cols sp src g = (if span_is_full sp cols then row_copy src g else row_copy_span e sp src g)"

definition shift_fill :: "env \<Rightarrow> nat \<Rightarrow> column_span \<Rightarrow> cell \<Rightarrow> grid_row \<Rightarrow> grid_row" where
  "shift_fill e cols sp c g = (if span_is_full sp cols then row_fill c g else row_fill_span e sp c g)"

lemma row_copy_fits: "fits n x \<Longrightarrow> fits n (row_copy x y)"
  by (simp add: row_copy_def)

lemma row_copy_span_fits:
  assumes "fits (columns d) x" "fits (columns d) y" "span_ok d sp"
  shows "fits (columns d) (row_copy_span e sp x y)"
  using assms by (auto simp: row_copy_span_def Let_def span_ok_def intro!: row_blit_fits) (auto simp: fits_def)

lemma row_fill_span_fits:
  assumes "fits (columns d) g" "span_ok d sp"
  shows "fits (columns d) (row_fill_span e sp c g)"
  using assms by (auto simp: row_fill_span_def Let_def span_ok_def intro!: row_blit_fits)

lemma copies_by_full: "copies_by d copy_row row_copy"
  by (auto simp: copies_by_def copy_row_row row_copy_fits)

lemma copies_by_span: "span_ok d sp \<Longrightarrow> copies_by d (copy_row_span e sp) (row_copy_span e sp)"
  by (auto simp: copies_by_def span_ok_def copy_row_span_row intro!: row_copy_span_fits [unfolded span_ok_def])

lemma fills_local:
  assumes "shape s" "span_ok (s_dimensions s) sp" "b \<le> s_rows s"
  shows "ok (local_step s (\<lambda>i g. if a \<le> i \<and> i < b then shift_fill e (s_columns s) sp c g else g))
     (if span_is_full sp (s_columns s) then foldM (fill_row c) [a..<b] s else foldM (fill_row_span e sp c) [a..<b] s)"
proof -
  have "rs.acts (s_dimensions s) (s_top s) r (row_fill c) (fill_row c r)" if "r < b" for r
    using that assms(3) by (intro actsI) (auto simp: fill_row_row)
  moreover have "rs.acts (s_dimensions s) (s_top s) r (row_fill_span e sp c) (fill_row_span e sp c r)" if "r < b" for r
    using that assms(2,3) by (intro actsI) (auto simp: fill_row_span_row span_ok_def intro!: row_fill_span_fits)
  ultimately have
    "ok (local_step s (\<lambda>i g. if i \<in> set [a..<b] then row_fill c g else g)) (foldM (fill_row c) [a..<b] s)"
    "ok (local_step s (\<lambda>i g. if i \<in> set [a..<b] then row_fill_span e sp c g else g)) (foldM (fill_row_span e sp c) [a..<b] s)"
    using assms(1) by (intro rows_local; simp)+
  then show ?thesis by (auto simp: shift_fill_def cong: if_cong)
qed

text \<open>Copies followed by fills, whichever way the region moves.\<close>

lemma shift_rows_local:
  assumes "shape s" "span_ok (s_dimensions s) sp" "b \<le> s_rows s"
    and full: "ok (local_step s (F row_copy)) (foldM (\<lambda>(x, y). copy_row x y) copies s)"
    and span: "ok (local_step s (F (row_copy_span e sp))) (foldM (\<lambda>(x, y). copy_row_span e sp x y) copies s)"
  shows "ok (local_step s (\<lambda>i g. if a \<le> i \<and> i < b then shift_fill e (s_columns s) sp c (F (shift_copy e (s_columns s) sp) i g)
                                 else F (shift_copy e (s_columns s) sp) i g))
     (shift_rows e sp c copies [a..<b] s)"
proof -
  have eta: "shift_copy e (s_columns s) sp = (if span_is_full sp (s_columns s) then row_copy else row_copy_span e sp)"
    by (simp add: fun_eq_iff shift_copy_def)
  have step: "ok (local_step s1 (\<lambda>i g. if a \<le> i \<and> i < b then shift_fill e (s_columns s) sp c g else g))
     (if span_is_full sp (s_columns s) then foldM (fill_row c) [a..<b] s1 else foldM (fill_row_span e sp c) [a..<b] s1)"
    if "local_step s G s1" for s1 G
  proof -
    have "shape s1" "s_dimensions s1 = s_dimensions s" using that by (simp_all add: local_step_def)
    then show ?thesis using fills_local [of s1 sp b a e c] assms(2,3) by (simp cong: if_cong)
  qed
  show ?thesis
    using ok_local_trans [OF full step] ok_local_trans [OF span step]
    by (auto simp: shift_rows_def eta cong: if_cong)
qed

lemma shift_zero:
  "foldM (\<lambda>(x, y). copy_row x y) (map (\<lambda>l. (l, l)) ls) s = Some s"
  "foldM (\<lambda>(x, y). copy_row_span e sp x y) (map (\<lambda>l. (l, l)) ls) s = Some s"
  by (induction ls) (simp_all add: copy_row_def copy_row_span_def Let_def)

text \<open>The region \<open>t..=b\<close> moves up by \<open>n\<close>: what row \<open>i\<close> becomes.\<close>

definition region_up :: "screen \<Rightarrow> env \<Rightarrow> column_span \<Rightarrow> cell \<Rightarrow> nat \<Rightarrow> nat \<Rightarrow> nat \<Rightarrow> nat \<Rightarrow> grid_row \<Rightarrow> grid_row" where
  "region_up s e sp c n t b i g =
     (if n = 0 then g
      else if t \<le> i \<and> i + n \<le> b then shift_copy e (s_columns s) sp (get_row s (i + n)) g
      else if b < i + n \<and> i \<le> b then shift_fill e (s_columns s) sp c g
      else g)"

definition region_down :: "screen \<Rightarrow> env \<Rightarrow> column_span \<Rightarrow> cell \<Rightarrow> nat \<Rightarrow> nat \<Rightarrow> nat \<Rightarrow> nat \<Rightarrow> grid_row \<Rightarrow> grid_row" where
  "region_down s e sp c n t b i g =
     (if n = 0 then g
      else if t + n \<le> i \<and> i \<le> b then shift_copy e (s_columns s) sp (get_row s (i - n)) g
      else if t \<le> i \<and> i < t + n then shift_fill e (s_columns s) sp c g
      else g)"

lemma shift_up_local:
  assumes "shape s" "span_ok (s_dimensions s) sp" "t \<le> b" "b < s_rows s" "n \<le> b + 1 - t"
  shows "ok (local_step s (region_up s e sp c n t b))
    (shift_rows e sp c (map (\<lambda>l. (l, l - n)) [t + n..<b + 1]) [b + 1 - n..<b + 1] s)"
proof (cases "n = 0")
  case True
  then show ?thesis using assms(1) shift_zero(1) [of "[t..<b + 1]" s] shift_zero(2) [of e sp "[t..<b + 1]" s]
    by (simp add: shift_rows_def region_up_def local_step_def)
next
  case False
  let ?F = "\<lambda>h i g. if t \<le> i \<and> i + n < b + 1 then h (get_row s (i + n)) g else g"
  have "ok (local_step s (?F row_copy)) (foldM (\<lambda>(x, y). copy_row x y) (map (\<lambda>l. (l, l - n)) [t + n..<b + 1]) s)"
    by (rule copies_up [OF copies_by_full]) (use False assms in auto)
  moreover have "ok (local_step s (?F (row_copy_span e sp))) (foldM (\<lambda>(x, y). copy_row_span e sp x y) (map (\<lambda>l. (l, l - n)) [t + n..<b + 1]) s)"
    by (rule copies_up [OF copies_by_span]) (use False assms in auto)
  ultimately have "ok (local_step s (\<lambda>i g. if b + 1 - n \<le> i \<and> i < b + 1
        then shift_fill e (s_columns s) sp c (?F (shift_copy e (s_columns s) sp) i g)
        else ?F (shift_copy e (s_columns s) sp) i g))
     (shift_rows e sp c (map (\<lambda>l. (l, l - n)) [t + n..<b + 1]) [b + 1 - n..<b + 1] s)"
    using assms by (intro shift_rows_local) auto
  then show ?thesis by (rule ok_local_cong) (use False assms(3,5) in \<open>auto simp: region_up_def\<close>)
qed

lemma shift_down_local:
  assumes "shape s" "span_ok (s_dimensions s) sp" "t \<le> b" "b < s_rows s" "n \<le> b + 1 - t"
  shows "ok (local_step s (region_down s e sp c n t b))
    (shift_rows e sp c (map (\<lambda>l. (l, l + n)) (rev [t..<b + 1 - n])) [t..<t + n] s)"
proof (cases "n = 0")
  case True
  then show ?thesis using assms(1) shift_zero(1) [of "rev [t..<b + 1]" s] shift_zero(2) [of e sp "rev [t..<b + 1]" s]
    by (simp add: shift_rows_def region_down_def local_step_def)
next
  case False
  let ?F = "\<lambda>h i g. if t + n \<le> i \<and> i < b + 1 - n + n then h (get_row s (i - n)) g else g"
  have "ok (local_step s (?F row_copy)) (foldM (\<lambda>(x, y). copy_row x y) (map (\<lambda>l. (l, l + n)) (rev [t..<b + 1 - n])) s)"
    by (rule copies_down [OF copies_by_full]) (use False assms in auto)
  moreover have "ok (local_step s (?F (row_copy_span e sp))) (foldM (\<lambda>(x, y). copy_row_span e sp x y) (map (\<lambda>l. (l, l + n)) (rev [t..<b + 1 - n])) s)"
    by (rule copies_down [OF copies_by_span]) (use False assms in auto)
  ultimately have "ok (local_step s (\<lambda>i g. if t \<le> i \<and> i < t + n
        then shift_fill e (s_columns s) sp c (?F (shift_copy e (s_columns s) sp) i g)
        else ?F (shift_copy e (s_columns s) sp) i g))
     (shift_rows e sp c (map (\<lambda>l. (l, l + n)) (rev [t..<b + 1 - n])) [t..<t + n] s)"
    using assms by (intro shift_rows_local) auto
  then show ?thesis by (rule ok_local_cong) (use False assms(3,5) in \<open>auto simp: region_down_def\<close>)
qed

definition dirty_range :: "nat \<Rightarrow> nat \<Rightarrow> nat \<Rightarrow> grid_row \<Rightarrow> grid_row" where
  "dirty_range a b i g = (if a \<le> i \<and> i \<le> b then g\<lparr>gr_dirty := True\<rparr> else g)"

lemma then_dirty:
  assumes "ok (local_step s F) m" "a \<le> b" "b < s_rows s"
  shows "ok (local_step s (\<lambda>i g. dirty_range a b i (F i g))) (m \<bind> mark_dirty_range a b)"
proof -
  obtain s1 where s1: "m = Some s1" "local_step s F s1" using assms(1) by (auto simp: ok_iff)
  then have "ok (local_step s1 (dirty_range a b)) (mark_dirty_range a b s1)"
    using mark_dirty_range_local [of s1 a b] assms(2,3) unfolding dirty_range_def by (simp add: local_step_def)
  then show ?thesis using s1 local_step_trans by (fastforce simp: ok_iff)
qed

lemma line_ops_local:
  assumes "shape s" "span_ok (s_dimensions s) sp" "t \<le> b" "b < s_rows s" and n_def: "n = min count (b - t + 1)"
  shows "ok (local_step s (\<lambda>i g. dirty_range t b i (region_down s e sp c n t b i g))) (insert_lines e t b count c sp s)"
    "ok (local_step s (\<lambda>i g. dirty_range t b i (region_up s e sp c n t b i g))) (delete_lines e t b count c sp s)"
    "ok (local_step s (\<lambda>i g. dirty_range t b i (region_down s e sp c n t b i g))) (scroll_down e t b count c sp s)"
proof -
  have n: "n \<le> b + 1 - t" using assms(3) by (auto simp: n_def)
  note up = then_dirty [OF shift_up_local [OF assms(1-4) n, of e c] assms(3,4)]
  note down = then_dirty [OF shift_down_local [OF assms(1-4) n, of e c] assms(3,4)]
  show "ok (local_step s (\<lambda>i g. dirty_range t b i (region_down s e sp c n t b i g))) (insert_lines e t b count c sp s)"
    "ok (local_step s (\<lambda>i g. dirty_range t b i (region_up s e sp c n t b i g))) (delete_lines e t b count c sp s)"
    "ok (local_step s (\<lambda>i g. dirty_range t b i (region_down s e sp c n t b i g))) (scroll_down e t b count c sp s)"
    using up down assms(3)
    by (simp_all add: insert_lines_def delete_lines_def scroll_down_def Let_def n_def)
qed

section \<open>Scrolling\<close>

definition row_content :: "grid_row \<Rightarrow> screen_row" where
  "row_content g = \<lparr>sr_cells = take (gr_extent g) (gr_cells g), sr_soft_wrapped = gr_wrapped g\<rparr>"

lemma extract_row_content:
  assumes "shape s" "r < s_rows s" "gr_extent (get_row s r) \<le> s_columns s"
  shows "extract_row s r = Some (row_content (get_row s r))"
  using assms row_start_le [OF assms(1), of r] physical_row_less [OF assms(1), of r]
  by (simp add: extract_row_def occupied_row_cells_def rd_def rd_range_def shape_def row_content_def get_row_def slice_def)

lemma mapM_Some: "(\<And>x. x \<in> set xs \<Longrightarrow> f x = Some (g x)) \<Longrightarrow> mapM f xs = Some (map g xs)"
  by (induction xs) simp_all

text \<open>The rotation: row \<open>i\<close> of the rotated screen is row \<open>i + n\<close> of the old one, wrapping around;
  the dirty flags stay with the logical rows.\<close>

lemma rotate_row:
  assumes "shape s" "i < s_rows s" "n \<le> s_rows s"
  shows "get_row (s\<lparr>s_top := (s_top s + n) mod s_rows s\<rparr>) i =
         (get_row s ((i + n) mod s_rows s))\<lparr>gr_dirty := s_dirty_rows s ! i\<rparr>"
proof -
  have "((s_top s + n) mod s_rows s + i) mod s_rows s = (s_top s + (i + n) mod s_rows s) mod s_rows s"
    by (simp add: mod_simps algebra_simps)
  then have "physical_row (s\<lparr>s_top := (s_top s + n) mod s_rows s\<rparr>) i = physical_row s ((i + n) mod s_rows s)"
    by (simp add: physical_row_def)
  then show ?thesis by (simp add: get_row_def physical_row_start_def)
qed

text \<open>A full-width scroll of the whole screen, by rotation: the grid loses its first rows and gains
  filled ones at the bottom.\<close>

lemma scroll_up_rotates:
  assumes "shape s" "span_is_full sp (s_columns s)" "n = min count (s_rows s)"
    "\<And>r. r < s_rows s \<Longrightarrow> gr_extent (get_row s r) \<le> s_columns s"
  shows "ok (\<lambda>(removed, s'). removed = map (row_content \<circ> get_row s) [0..<n] \<and> shape s' \<and>
      s_dimensions s' = s_dimensions s \<and>
      (\<forall>i < s_rows s. get_row s' i =
         (if i + n < s_rows s then get_row s (i + n) else row_fill c (get_row s (i + n - s_rows s)))\<lparr>gr_dirty := True\<rparr>))
     (scroll_up e 0 (s_rows s - 1) count c sp s)"
proof -
  let ?R = "s_rows s"
  have R: "0 < ?R" using dims_pos(1) [OF shape_dims [OF assms(1)]] .
  have n: "n \<le> ?R" "min count (?R - Suc 0 + 1) = n" using assms(3) R by auto
  have rem: "mapM (extract_row s) [0..<n] = Some (map (row_content \<circ> get_row s) [0..<n])"
    using n(1) assms by (intro mapM_Some) (simp add: extract_row_content)
  have "ok (local_step s (\<lambda>i g. if i \<in> set [0..<n] then row_fill c g else g)) (foldM (fill_row c) [0..<n] s)"
    using n(1) assms(1) by (intro rows_local actsI) (auto simp: fill_row_row)
  then obtain s1 where s1: "foldM (fill_row c) [0..<n] s = Some s1"
      "local_step s (\<lambda>i g. if i < n then row_fill c g else g) s1"
    by (auto simp: ok_iff)
  let ?s2 = "s1\<lparr>s_top := (s_top s1 + n) mod s_rows s1\<rparr>"
  have sh1: "shape s1" "s_dimensions s1 = s_dimensions s" using s1(2) by (simp_all add: local_step_def)
  have sh2: "shape ?s2" using sh1(1) R by (simp add: shape_def sh1(2))
  obtain s3 where s3: "mark_dirty_range 0 (?R - 1) ?s2 = Some s3"
      "local_step ?s2 (\<lambda>i g. if 0 \<le> i \<and> i \<le> ?R - 1 then g\<lparr>gr_dirty := True\<rparr> else g) s3"
    using mark_dirty_range_local [OF sh2, of 0 "?R - 1"] R sh1(2) by (auto simp: ok_iff)
  have row: "get_row s3 i = (if i + n < ?R then get_row s (i + n) else row_fill c (get_row s (i + n - ?R)))\<lparr>gr_dirty := True\<rparr>"
    if i: "i < ?R" for i
  proof -
    have "get_row s3 i = (get_row s1 ((i + n) mod ?R))\<lparr>gr_dirty := True\<rparr>"
      using s3(2) rotate_row [OF sh1(1), of i n] i n(1) sh1(2) by (simp add: local_step_def)
    moreover have "(i + n) mod ?R = (if i + n < ?R then i + n else i + n - ?R)"
      using i n(1) by (simp add: mod_if)
    ultimately show ?thesis using s1(2) i n(1) by (auto simp: local_step_def)
  qed
  have "scroll_up e 0 (?R - 1) count c sp s = Some (map (row_content \<circ> get_row s) [0..<n], s3)"
    using R n(2) rem s1(1) s3(1) assms(2) by (simp add: scroll_up_def Let_def sh1(2))
  then show ?thesis using row s3(2) sh1(2) by (simp add: local_step_def)
qed

text \<open>Any other scroll shifts rows in place.\<close>

lemma scroll_up_local:
  assumes "shape s" "span_ok (s_dimensions s) sp" "t \<le> b" "b < s_rows s" "n = min count (b - t + 1)"
    "\<not> (span_is_full sp (s_columns s) \<and> t = 0 \<and> b + 1 = s_rows s)"
    "\<And>r. r < s_rows s \<Longrightarrow> gr_extent (get_row s r) \<le> s_columns s"
  shows "ok (\<lambda>(removed, s'). local_step s (\<lambda>i g. dirty_range t b i (region_up s e sp c n t b i g)) s' \<and>
      removed = (if span_is_full sp (s_columns s) then map (row_content \<circ> get_row s) [t..<t + n] else []))
     (scroll_up e t b count c sp s)"
proof -
  have n: "n \<le> b + 1 - t" "t + n \<le> s_rows s" using assms(3,4,5) by auto
  have rem: "mapM (extract_row s) [t..<t + n] = Some (map (row_content \<circ> get_row s) [t..<t + n])"
    using n(2) assms(1,7) by (intro mapM_Some) (simp add: extract_row_content)
  have up: "ok (local_step s (\<lambda>i g. dirty_range t b i (region_up s e sp c n t b i g)))
     (shift_rows e sp c (map (\<lambda>l. (l, l - n)) [t + n..<b + 1]) [b + 1 - n..<b + 1] s \<bind> mark_dirty_range t b)"
    by (rule then_dirty [OF shift_up_local [OF assms(1-4) n(1)] assms(3,4)])
  then obtain s1 where s1: "shift_rows e sp c (map (\<lambda>l. (l, l - n)) [t + n..<b + 1]) [b + 1 - n..<b + 1] s \<bind> mark_dirty_range t b = Some s1"
    "local_step s (\<lambda>i g. dirty_range t b i (region_up s e sp c n t b i g)) s1" by (auto simp: ok_iff)
  then obtain s0 where s0: "shift_rows e sp c (map (\<lambda>l. (l, l - n)) [t + n..<b + 1]) [b + 1 - n..<b + 1] s = Some s0"
    "mark_dirty_range t b s0 = Some s1" by (auto simp: bind_eq_Some_conv)
  have norm: "min count (b - t + 1) = n" by (simp add: assms(5))
  have "scroll_up e t b count c sp s =
      Some (if span_is_full sp (s_columns s) then map (row_content \<circ> get_row s) [t..<t + n] else [], s1)"
    using s0 rem assms(3,6) norm
    by (cases "span_is_full sp (s_columns s)"; simp add: scroll_up_def Let_def del: upt_Suc; auto)
  then show ?thesis using s1(2) by simp
qed

section \<open>Linear fills\<close>

definition row_linear :: "nat \<Rightarrow> nat \<Rightarrow> cell \<Rightarrow> bool \<Rightarrow> grid_row \<Rightarrow> grid_row" where
  "row_linear a b c spare g =
     row_blit a (if spare then spare_fill c (slice a (b - a) (gr_cells g)) else replicate (b - a) c)
       (replicate (b - a) (\<not> is_structural_blank c)) g"

lemma row_linear_fits: "fits n g \<Longrightarrow> a \<le> b \<Longrightarrow> b \<le> n \<Longrightarrow> fits n (row_linear a b c spare g)"
  by (auto simp: row_linear_def spare_fill_def fits_def intro!: row_blit_fits [unfolded fits_def])
     (auto simp: row_blit_def)

lemma fill_linear_row_row:
  assumes "shape s" "r < s_rows s" "a \<le> b" "b \<le> s_columns s"
  shows "fill_linear_row (physical_row_start s r + a) (physical_row_start s r + b) c spare s =
         Some (put_row s r (row_linear a b c spare (get_row s r)))"
proof -
  let ?x = "if spare then spare_fill c (slice a (b - a) (gr_cells (get_row s r))) else replicate (b - a) c"
  let ?o = "replicate (b - a) (\<not> is_structural_blank c)"
  have fit: "length (gr_cells (get_row s r)) = s_columns s"
    using get_row_fits [OF assms(1), of r] by (simp add: fits_def)
  have len: "length ?x = b - a" using fit assms(3,4) by (simp add: spare_fill_def)
  have le: "physical_row_start s r + b \<le> s_rows s * s_columns s"
    using row_start_le [OF assms(1), of r] assms(4) by simp
  have sl: "slice (physical_row_start s r + a) (b - a) (s_cells s) = slice a (b - a) (gr_cells (get_row s r))"
    using assms row_start_le [OF assms(1), of r] le
    by (intro nth_equalityI) (auto simp: get_row_def shape_def add.assoc)
  have "s\<lparr>s_cells := blit (physical_row_start s r + a) ?x (s_cells s),
          s_occupied_cells := blit (physical_row_start s r + a) ?o (s_occupied_cells s)\<rparr> =
        put_row s r (row_linear a b c spare (get_row s r))"
    using blit_row [OF assms(1,2), of a ?x ?o] len assms(3,4) unfolding row_linear_def by simp
  then show ?thesis
    using assms le len sl
    by (auto simp: fill_linear_row_def rd_range_def wr_range_def fill_range_def shape_def spare_fill_def)
qed

definition linear_bounds :: "nat \<Rightarrow> nat \<Rightarrow> nat \<Rightarrow> nat \<Rightarrow> nat \<times> nat" where
  "linear_bounds cols start stop r =
     (if r = start div cols then start mod cols else 0,
      if r = (stop - 1) div cols then stop - (stop - 1) div cols * cols else cols)"

definition linear_fill :: "nat \<Rightarrow> nat \<Rightarrow> nat \<Rightarrow> cell \<Rightarrow> bool \<Rightarrow> nat \<Rightarrow> grid_row \<Rightarrow> grid_row" where
  "linear_fill cols start stop c spare r g =
     (let (a, b) = linear_bounds cols start stop r in row_linear a b c spare g)"

lemma linear_bounds_ok:
  assumes "start < stop" "stop \<le> n * cols" "start div cols \<le> r" "r \<le> (stop - 1) div cols" "0 < cols"
  shows "fst (linear_bounds cols start stop r) < snd (linear_bounds cols start stop r)"
    "snd (linear_bounds cols start stop r) \<le> cols"
proof -
  let ?l = "(stop - 1) div cols"
  have l: "stop - ?l * cols = (stop - 1) mod cols + 1"
  proof -
    have "stop - 1 - ?l * cols = (stop - 1) mod cols" by (rule minus_div_mult_eq_mod)
    moreover have "?l * cols \<le> stop - 1" by (rule div_times_less_eq_dividend)
    ultimately show ?thesis using assms(1) by linarith
  qed
  have m: "(stop - 1) mod cols < cols" "start mod cols < cols" using assms(5) by auto
  have same: "start mod cols \<le> (stop - 1) mod cols" if "start div cols = ?l"
  proof -
    have "start \<le> stop - 1" using assms(1) by simp
    then show ?thesis using that by (metis add_le_cancel_left div_mult_mod_eq)
  qed
  show "fst (linear_bounds cols start stop r) < snd (linear_bounds cols start stop r)"
    "snd (linear_bounds cols start stop r) \<le> cols"
    using l m same assms(5) by (auto simp: linear_bounds_def Suc_le_eq)
qed

definition linear_result :: "nat \<Rightarrow> nat \<Rightarrow> nat \<Rightarrow> cell \<Rightarrow> bool \<Rightarrow> nat \<Rightarrow> grid_row \<Rightarrow> grid_row" where
  "linear_result cols start stop c spare r g =
     (if start < stop \<and> start div cols \<le> r \<and> r \<le> (stop - 1) div cols then
        (let g1 = (linear_fill cols start stop c spare r g)\<lparr>gr_dirty := True\<rparr>;
             g2 = (if r = start div cols then row_neighborhood (start mod cols) c g1 else g1);
             g3 = (if r = (stop - 1) div cols
                   then row_neighborhood (stop - (stop - 1) div cols * cols) c g2 else g2)
         in row_recompute g3)
      else g)"

lemma fill_linear_local:
  assumes "shape s" "stop \<le> s_rows s * s_columns s"
  shows "ok (local_step s (linear_result (s_columns s) start stop c spare)) (fill_linear_with start stop c spare s)"
proof (cases "start < stop")
  case False
  then show ?thesis using assms(1) by (simp add: fill_linear_with_def local_step_def linear_result_def)
next
  case True
  let ?cols = "s_columns s" and ?d = "s_dimensions s"
  let ?f = "start div ?cols" and ?l = "(stop - 1) div ?cols"
  let ?rs = "[?f..<?l + 1]"
  have cols: "0 < ?cols" using dims_pos(3) [OF shape_dims [OF assms(1)]] .
  have l: "?l < s_rows s" using True assms(2) by (simp add: less_mult_imp_div_less)
  have fl: "?f \<le> ?l" using True by (simp add: div_le_mono)
  have le: "?l * ?cols \<le> stop" using div_times_less_eq_dividend [of "stop - 1" ?cols] by linarith
  define body where "body = (\<lambda>r s. do {
               let row_start = (if r = ?f then start mod ?cols else 0);
               let row_end = (if r = ?l then stop - ?l * ?cols else ?cols);
               if row_end \<le> row_start then Some s
               else do {
                 let physical_start = logical_linear_to_physical s (r * ?cols + row_start);
                 let physical_end = physical_start + (row_end - row_start);
                 fill_linear_row physical_start physical_end c spare s } })"
  have acts: "rs.acts ?d (s_top s) r (linear_fill ?cols start stop c spare r) (body r)" if "r \<in> set ?rs" for r
  proof -
    obtain a b where ab: "linear_bounds ?cols start stop r = (a, b)" by force
    have lt: "a < b" "b \<le> ?cols" using linear_bounds_ok [OF True assms(2) _ _ cols, of r] that ab by auto
    have ab': "a = (if r = ?f then start mod ?cols else 0)" "b = (if r = ?l then stop - ?l * ?cols else ?cols)"
      using ab by (auto simp: linear_bounds_def)
    have r: "r < s_rows s" using that l by auto
    have addr: "logical_linear_to_physical t (r * ?cols + a) = physical_row_start t r + a" if "s_dimensions t = ?d" for t
      using that lt cols by (simp add: logical_linear_to_physical_def)
    have "body r t = Some (put_row t r (row_linear a b c spare (get_row t r)))" if "shape t" "s_dimensions t = ?d" for t
      using fill_linear_row_row [OF that(1), of r a b c spare] that(2) lt r addr [OF that(2)]
      unfolding body_def ab' [symmetric] by (simp add: Let_def)
    then show ?thesis using that l lt ab
      by (intro actsI) (auto simp: linear_fill_def intro: row_linear_fits)
  qed
  have us: "start mod ?cols < usize_max" "stop - ?l * ?cols < usize_max"
  proof -
    show "start mod ?cols < usize_max"
      by (rule col_usize [OF assms(1) order.trans [OF less_imp_le [OF mod_less_divisor [OF cols]]]]) simp
    show "stop - ?l * ?cols < usize_max"
      using linear_bounds_ok(2) [OF True assms(2) fl _ cols] fl
      by (auto intro!: col_usize [OF assms(1)] simp: linear_bounds_def)
  qed
  have s1: "ok (local_step s (\<lambda>i g. if i \<in> set ?rs then linear_fill ?cols start stop c spare i g else g)) (foldM body ?rs s)"
    using assms(1) acts by (intro rows_local) auto
  have dirty: "ok (local_step t (dirty_range ?f ?l)) (mark_dirty_range ?f ?l t)" if "local_step s F t" for t F
    using mark_dirty_range_local [of t ?f ?l] that fl l unfolding dirty_range_def local_step_def by simp
  have neigh: "ok (local_step t (\<lambda>i g. if i = r then row_neighborhood b c g else g)) (repair_neighborhood r b c t)"
    if "local_step s F t" "r < s_rows s" "b < usize_max" for t F r b
  proof -
    have t: "shape t" "s_dimensions t = s_dimensions s" using that(1) by (simp_all add: local_step_def)
    show ?thesis using that(2,3) t get_row_fits [OF t(1), of r]
      by (intro row_local repair_neighborhood_row) simp_all
  qed
  have rec: "ok (local_step t (\<lambda>i g. if i \<in> set ?rs then row_recompute g else g)) (foldM recompute_occupied ?rs t)"
    if "local_step s F t" for t F
    using that l by (intro rows_local actsI) (auto simp: local_step_def recompute_occupied_row)
  note all = ok_local_trans [OF ok_local_trans [OF ok_local_trans [OF ok_local_trans [OF s1 dirty] neigh] neigh] rec]
  have eq: "fill_linear_with start stop c spare s =
      foldM body ?rs s \<bind> mark_dirty_range ?f ?l \<bind> repair_neighborhood ?f (start mod ?cols) c
        \<bind> repair_neighborhood ?l (stop - ?l * ?cols) c \<bind> foldM recompute_occupied ?rs"
    using True le unfolding body_def by (simp add: fill_linear_with_def Let_def bind_assoc del: upt_Suc cong: if_cong)
  show ?thesis unfolding eq
    by (rule ok_local_cong [OF all])
       (use fl l us True in \<open>auto simp: linear_result_def dirty_range_def Let_def\<close>)
qed

section \<open>Rectangles\<close>

definition row_sparing :: "cell \<Rightarrow> bool \<Rightarrow> nat \<Rightarrow> grid_row \<Rightarrow> grid_row" where
  "row_sparing c spare i g =
     (if spare \<and> attr_contains (c_attributes (gr_cells g ! i)) PROTECTED then g
      else row_set i c (\<not> is_structural_blank c) g)"

lemma row_sparing_fits [simp]: "fits n (row_sparing c spare i g) = fits n g"
  by (simp add: row_sparing_def)

lemma row_sparings_fits [simp]: "fits n (fold (\<lambda>i. row_sparing c spare (f i)) is g) = fits n g"
  by (induction "is" arbitrary: g) simp_all

definition row_rect :: "env \<Rightarrow> nat \<Rightarrow> nat \<Rightarrow> cell \<Rightarrow> bool \<Rightarrow> grid_row \<Rightarrow> grid_row" where
  "row_rect e l r c spare g =
     row_recompute (row_edges e (span_new l r) (fold (\<lambda>i. row_sparing c spare (l + i)) [0..<r + 1 - l] g))"

lemma fill_sparing_put:
  assumes "shape s" "r < s_rows s" "fits (s_columns s) g" "i < s_columns s"
  shows "fill_sparing c (\<not> is_structural_blank c) spare (physical_row_start s r + i) (put_row s r g) =
         Some (put_row s r (row_sparing c spare i g))"
  using assms row_ops_put [OF assms(1-3)] by (simp add: fill_sparing_def row_sparing_def)

lemma fill_sparing_loop:
  assumes "shape s" "r < s_rows s" "fits (s_columns s) g" "\<And>i. i \<in> set is \<Longrightarrow> l + i < s_columns s"
  shows "foldM (\<lambda>i. fill_sparing c (\<not> is_structural_blank c) spare (physical_row_start s r + l + i)) is (put_row s r g) =
         Some (put_row s r (fold (\<lambda>i. row_sparing c spare (l + i)) is g))"
  using assms(3,4)
  by (induction "is" arbitrary: g)
     (use fill_sparing_put [OF assms(1,2)] in \<open>simp_all add: add.assoc\<close>)

definition in_rect :: "rectangle \<Rightarrow> dimensions \<Rightarrow> bool" where
  "in_rect rc d \<longleftrightarrow> r_left rc \<le> r_right rc \<and> r_right rc < columns d \<and> r_top rc \<le> r_bottom rc \<and> r_bottom rc < rows d"

lemma fill_rectangle_local:
  assumes "shape s" "in_rect rc (s_dimensions s)"
  shows "ok (local_step s (\<lambda>i g. dirty_range (r_top rc) (r_bottom rc) i
       (if r_top rc \<le> i \<and> i \<le> r_bottom rc then row_rect e (r_left rc) (r_right rc) c spare g else g)))
     (fill_rectangle e rc c spare s)"
proof -
  let ?sp = "span_new (r_left rc) (r_right rc)" and ?rs = "[r_top rc..<r_bottom rc + 1]"
  let ?w = "r_right rc + 1 - r_left rc"
  define body where "body = (\<lambda>r s. do {
            let start = physical_row_start s r + r_left rc;
            width \<leftarrow> span_width ?sp;
            s \<leftarrow> foldM (\<lambda>offset. fill_sparing c (\<not> is_structural_blank c) spare (start + offset)) [0..<width] s;
            s \<leftarrow> repair_span_edges e r ?sp s;
            recompute_occupied r s })"
  have rect: "r_left rc \<le> r_right rc" "r_right rc < s_columns s" "r_top rc \<le> r_bottom rc" "r_bottom rc < s_rows s"
    using assms(2) by (auto simp: in_rect_def)
  have body: "body r t = Some (put_row t r (row_rect e (r_left rc) (r_right rc) c spare (get_row t r)))"
    if "shape t" "s_dimensions t = s_dimensions s" "r < s_rows s" for t r
  proof -
    have fit: "fits (s_columns t) (get_row t r)" by (rule get_row_fits [OF that(1)])
    have "foldM (\<lambda>i. fill_sparing c (\<not> is_structural_blank c) spare (physical_row_start t r + r_left rc + i)) [0..<?w] t =
       Some (put_row t r (fold (\<lambda>i. row_sparing c spare (r_left rc + i)) [0..<?w] (get_row t r)))"
      using fill_sparing_loop [OF that(1) _ fit, of r "[0..<?w]" "r_left rc"] that rect by auto
    then show ?thesis
      using rect(1) that fit rect(2) repair_span_edges_put [OF that(1), of r _ ?sp e] row_ops_put(1) [OF that(1), of r]
      by (simp add: body_def Let_def span_width_def span_new_def row_rect_def del: upt_Suc)
  qed
  have "rs.acts (s_dimensions s) (s_top s) r (row_rect e (r_left rc) (r_right rc) c spare) (body r)" if "r \<in> set ?rs" for r
    using that rect body by (intro actsI) (auto simp: row_rect_def)
  then have "ok (local_step s (\<lambda>i g. if i \<in> set ?rs then row_rect e (r_left rc) (r_right rc) c spare g else g)) (foldM body ?rs s)"
    using assms(1) by (intro rows_local) auto
  from then_dirty [OF this rect(3,4)]
  have "ok (local_step s (\<lambda>i g. dirty_range (r_top rc) (r_bottom rc) i
       (if i \<in> set ?rs then row_rect e (r_left rc) (r_right rc) c spare g else g))) (fill_rectangle e rc c spare s)"
    unfolding fill_rectangle_def Let_def body_def by (simp del: upt_Suc)
  then show ?thesis by (rule ok_local_cong) (auto simp: dirty_range_def)
qed

end
