(* ===== verification/Screen_Inv.thy ===== *)
theory Screen_Inv
  imports Screen_Rows
begin

text \<open>
  The rest of the screen: rectangle copies, fresh, loaded and resized screens, and the invariant
  \<open>screen_inv\<close> (array lengths, valid cells, exact occupied extents), which every operation of
  \<open>screen.rs\<close> is shown to keep without ever failing (\<open>*_inv\<close>).  \<open>row_cluster_exact\<close> shows that the
  constant-time extent update after a print equals the full recomputation.
\<close>

section \<open>Copying rectangles\<close>

lemma foldM_map: "foldM f (map g xs) = foldM (\<lambda>x. f (g x)) xs"
proof (induction xs)
  case (Cons x xs)
  show ?case by (rule ext) (simp add: Cons)
qed simp

lemma mapM_length: "mapM f xs = Some ys \<Longrightarrow> length ys = length xs"
  by (induction xs arbitrary: ys) (auto simp: bind_eq_Some_conv)

definition row_paste :: "env \<Rightarrow> nat \<Rightarrow> nat \<Rightarrow> nat \<Rightarrow> grid_row \<Rightarrow> grid_row \<Rightarrow> grid_row" where
  "row_paste e src_left dst_left width src g =
     row_recompute (row_edges e (span_new dst_left (dst_left + width - 1))
       (row_blit dst_left (slice src_left width (gr_cells src)) (slice src_left width (gr_occupied src)) g))"

lemma paste_loop:
  assumes "shape s" "r < s_rows s" "l + length xs \<le> s_columns s" "k \<le> length xs"
    "\<And>i. i < length xs \<Longrightarrow> rd copied (base + i) = Some (xs ! i, os ! i)" "length os = length xs"
  shows "foldM (\<lambda>offset u. do { (c, oc) \<leftarrow> rd copied (base + offset);
                                set_cell (physical_row_start s r + l + offset) c oc u }) [0..<k] s =
         Some (put_row s r (row_blit l (take k xs) (take k os) (get_row s r)))"
  using assms(4)
proof (induction k)
  case 0
  have "row_blit l (take 0 xs) (take 0 os) (get_row s r) = get_row s r"
    by (simp add: row_blit_def blit_def)
  then show ?case using assms(1,2) by simp
next
  case (Suc k)
  let ?g = "row_blit l (take k xs) (take k os) (get_row s r)"
  have fb: "fits (s_columns s) (get_row s r)" by (rule get_row_fits [OF assms(1)])
  have fg: "fits (s_columns s) ?g" by (rule row_blit_fits [OF fb]) (use assms(3,6) Suc.prems in auto)
  show ?case
    using Suc assms(3,5,6) row_ops_put(7) [OF assms(1,2) fg, of "l + k"] row_set_blit [OF fb, of l k "take k xs" "take k os"]
    by (simp add: foldM_append add.assoc take_Suc_conv_app_nth)
qed

lemma copy_rectangle_local:
  assumes "shape s" "in_rect src (s_dimensions s)" "dt < s_rows s" "dl < s_columns s"
    and hw: "h = min (r_bottom src + 1 - r_top src) (s_rows s - dt)" "w = min (r_right src + 1 - r_left src) (s_columns s - dl)"
  shows "ok (local_step s (\<lambda>i g. dirty_range dt (dt + h - 1) i
       (if dt \<le> i \<and> i < dt + h then row_paste e (r_left src) dl w (get_row s (r_top src + (i - dt))) g else g)))
     (copy_rectangle e src dt dl s)"
proof -
  have rect: "r_left src \<le> r_right src" "r_right src < s_columns s" "r_top src \<le> r_bottom src" "r_bottom src < s_rows s"
    using assms(2) by (auto simp: in_rect_def)
  have pos: "0 < h" "0 < w" using rect assms(3,4) hw by auto
  have le: "dt + h \<le> s_rows s" "dl + w \<le> s_columns s" "r_left src + w \<le> s_columns s" "r_top src + h \<le> s_rows s"
    using rect assms(3,4) hw by auto
  let ?sp = "span_new dl (dl + w - 1)"
  let ?cell = "\<lambda>(r, i). (gr_cells (get_row s (r_top src + r)) ! (r_left src + i), gr_occupied (get_row s (r_top src + r)) ! (r_left src + i))"
  define copied where "copied = map ?cell (List.product [0..<h] [0..<w])"
  have cp: "mapM (\<lambda>(r, offset). do {
           let start = physical_row_start s (r_top src + r) + r_left src;
           c \<leftarrow> rd (s_cells s) (start + offset);
           oc \<leftarrow> rd (s_occupied_cells s) (start + offset);
           Some (c, oc) }) (List.product [0..<h] [0..<w]) = Some copied"
    unfolding copied_def
    by (rule mapM_Some) (use le rd_cell_row [OF assms(1), of "r_left src + _"] in \<open>auto simp: add.assoc Let_def\<close>)
  have rd: "rd copied (r * w + i) = Some (?cell (r, i))" if "r < h" "i < w" for r i
  proof -
    have "r * w + i < h * w"
    proof -
      have "Suc r * w \<le> h * w" using that(1) by (intro mult_le_mono1) simp
      then show ?thesis using that(2) by simp
    qed
    then show ?thesis using that by (simp add: rd_def copied_def product_nth)
  qed
  define body where "body = (\<lambda>r s. do {
              let start = physical_row_start s r + dl;
              s \<leftarrow> foldM (\<lambda>offset s. do {
                     (c, oc) \<leftarrow> rd copied ((r - dt) * w + offset);
                     set_cell (start + offset) c oc s }) [0..<w] s;
              s \<leftarrow> repair_span_edges e r ?sp s;
              recompute_occupied r s })"
  let ?f = "\<lambda>i. row_paste e (r_left src) dl w (get_row s (r_top src + (i - dt)))"
  have acts: "rs.acts (s_dimensions s) (s_top s) r (?f r) (body r)" if "r \<in> set [dt..<dt + h]" for r
  proof (rule actsI)
    show "r < s_rows s" using that le(1) by simp
    let ?src = "get_row s (r_top src + (r - dt))"
    let ?xs = "slice (r_left src) w (gr_cells ?src)" and ?os = "slice (r_left src) w (gr_occupied ?src)"
    have fsrc: "length (gr_cells ?src) = s_columns s" "length (gr_occupied ?src) = s_columns s"
      using get_row_fits [OF assms(1)] by (simp_all add: fits_def)
    have len: "length ?xs = w" "length ?os = w" using fsrc le(3) by auto
    have sp: "cs_left ?sp \<le> cs_right ?sp" "cs_right ?sp < s_columns s" using le(2) pos(2) by (auto simp: span_new_def)
    show "fits (s_columns s) (?f r g)" if "fits (s_columns s) g" for g
      using row_blit_fits [OF that, of dl ?xs ?os] len le(2) by (simp add: row_paste_def)
    show "body r t = Some (put_row t r (?f r (get_row t r)))"
      if t: "shape t" "s_dimensions t = s_dimensions s" for t
    proof -
      have r: "r < s_rows t" "r - dt < h" using \<open>r \<in> set [dt..<dt + h]\<close> le(1) t by auto
      have cells: "rd copied ((r - dt) * w + i) = Some (?xs ! i, ?os ! i)" if "i < length ?xs" for i
        using rd [OF r(2), of i] that fsrc le(3) by simp
      let ?g = "row_blit dl ?xs ?os (get_row t r)"
      have fit: "fits (s_columns t) ?g"
        by (rule row_blit_fits [OF get_row_fits [OF t(1)]]) (use len le(2) t(2) in auto)
      have "foldM (\<lambda>offset s. do { (c, oc) \<leftarrow> rd copied ((r - dt) * w + offset);
                     set_cell (physical_row_start t r + dl + offset) c oc s }) [0..<w] t = Some (put_row t r ?g)"
        using paste_loop [OF t(1) r(1), where l = dl and xs = ?xs and k = w and os = ?os and copied = copied
            and base = "(r - dt) * w", OF _ _ cells] len le(2) t(2) by simp
      then show ?thesis
        using repair_span_edges_put [OF t(1) r(1) fit, of ?sp e] sp t(2) row_ops_put(1) [OF t(1) r(1)] fit
        by (simp add: body_def Let_def row_paste_def)
    qed
  qed
  have "ok (local_step s (\<lambda>i g. if i \<in> set [dt..<dt + h] then ?f i g else g)) (foldM body [dt..<dt + h] s)"
    using assms(1) acts by (intro rows_local) auto
  moreover have "foldM body [dt..<dt + h] s = foldM (\<lambda>r. body (dt + r)) [0..<h] s"
    using foldM_map [of body "\<lambda>r. r + dt" "[0..<h]"] by (simp add: map_add_upt add.commute [of dt])
  ultimately have "ok (local_step s (\<lambda>i g. if i \<in> set [dt..<dt + h] then ?f i g else g)) (foldM (\<lambda>r. body (dt + r)) [0..<h] s)"
    by simp
  note main = then_dirty [OF this, of dt "dt + h - 1"]
  have norm: "min (Suc (r_bottom src) - r_top src) (s_rows s - dt) = h"
    "min (Suc (r_right src) - r_left src) (s_columns s - dl) = w" using hw by simp_all
  have "copy_rectangle e src dt dl s = foldM (\<lambda>r. body (dt + r)) [0..<h] s \<bind> mark_dirty_range dt (dt + h - 1)"
    using rect pos le cp assms(3,4) by (simp add: copy_rectangle_def Let_def body_def norm)
  then have "ok (local_step s (\<lambda>i g. dirty_range dt (dt + h - 1) i (if i \<in> set [dt..<dt + h] then ?f i g else g)))
     (copy_rectangle e src dt dl s)"
    using main pos le by simp
  then show ?thesis by (rule ok_local_cong) (auto simp: dirty_range_def)
qed

section \<open>Whole screens\<close>

lemma clear_all_local:
  assumes "shape s"
  shows "shape (clear_all c s) \<and> s_dimensions (clear_all c s) = s_dimensions s \<and> s_top (clear_all c s) = 0 \<and>
    (\<forall>i < s_rows s. get_row (clear_all c s) i = (row_fill c (get_row s i))\<lparr>gr_dirty := True\<rparr>)"
proof -
  have R: "0 < s_rows s" "2 \<le> s_columns s" using dims_pos [OF shape_dims [OF assms]] by auto
  have shape: "shape (clear_all c s)" using assms R by (simp add: clear_all_def mark_all_dirty_def shape_def Let_def)
  have dims: "s_dimensions (clear_all c s) = s_dimensions s" "s_top (clear_all c s) = 0"
    by (simp_all add: clear_all_def mark_all_dirty_def Let_def)
  have "get_row (clear_all c s) i = (row_fill c (get_row s i))\<lparr>gr_dirty := True\<rparr>" if i: "i < s_rows s" for i
  proof -
    have len: "length (gr_cells (get_row s i)) = s_columns s" "length (gr_occupied (get_row s i)) = s_columns s"
      using get_row_fits [OF assms] by (simp_all add: fits_def)
    have start: "i * s_columns s + s_columns s \<le> s_rows s * s_columns s"
      using i by (metis Suc_leI add.commute mult_Suc mult_le_mono1)
    have sl: "slice (i * s_columns s) (s_columns s) (map (\<lambda>_. v) xs) = replicate (s_columns s) v"
      if "length xs = s_rows s * s_columns s" for v :: 'v and xs :: "'w list"
      by (rule nth_equalityI) (use that start in auto)
    show ?thesis using assms i len R
      by (auto simp: sl get_row_def clear_all_def mark_all_dirty_def Let_def physical_row_def physical_row_start_def
          row_fill_def row_extent_def shape_def)
  qed
  then show ?thesis using shape dims by blast
qed

definition new_row :: "env \<Rightarrow> nat \<Rightarrow> grid_row" where
  "new_row e cols = \<lparr>gr_cells = replicate cols (blank_cell e), gr_occupied = replicate cols False,
     gr_wrapped = False, gr_extent = 0, gr_dirty = True\<rparr>"

lemma screen_new_rows:
  assumes "dims_ok d" "screen_new e d = Inr s"
  shows "shape s" "s_dimensions s = d" "s_top s = 0" "i < rows d \<Longrightarrow> get_row s i = new_row e (columns d)"
proof -
  show sh: "shape s" and dm: "s_dimensions s = d" and tp: "s_top s = 0"
    using assms by (auto simp: screen_new_def shape_def dims_ok_def mult.commute split: if_splits)
  assume i: "i < rows d"
  have start: "i * columns d + columns d \<le> rows d * columns d"
    using i by (metis Suc_leI add.commute mult_Suc mult_le_mono1)
  have sl: "slice (i * columns d) (columns d) (replicate (columns d * rows d) v) = replicate (columns d) v" for v :: 'v
    by (rule nth_equalityI) (use start in \<open>auto simp: mult.commute\<close>)
  show "get_row s i = new_row e (columns d)"
    using assms i
    by (auto simp: sl get_row_def screen_new_def physical_row_def physical_row_start_def new_row_def dims_ok_def
        split: if_splits)
qed

definition row_repair_all :: "env \<Rightarrow> grid_row \<Rightarrow> grid_row" where
  "row_repair_all e g = row_recompute (fold (row_repair (blank_cell e)) [0..<length (gr_cells g)] g)"

lemma row_repair_all_fits [simp]: "fits n (row_repair_all e g) = fits n g"
  by (simp add: row_repair_all_def)

lemma repair_row_row:
  assumes "shape s" "r < s_rows s"
  shows "repair_row e r s = Some (put_row s r (row_repair_all e (get_row s r)))"
proof -
  have fit: "fits (s_columns s) (get_row s r)" by (rule get_row_fits [OF assms(1)])
  have "rs.acts (s_dimensions s) (s_top s) r (row_repair (blank_cell e) c) (repair_cell r (blank_cell e) c)"
    if "c < s_columns s" for c
    using that assms(2) by (intro actsI) (auto simp: repair_cell_row)
  then have "rs.acts (s_dimensions s) (s_top s) r (fold (row_repair (blank_cell e)) [0..<s_columns s])
      (foldM (repair_cell r (blank_cell e)) [0..<s_columns s])"
    using assms(2) by (intro rs.acts_foldM) auto
  from rs.actsD [OF this, of s] show ?thesis
    using assms fit row_ops_put(1) [OF assms] fits_def [THEN iffD1, OF fit]
    by (simp add: repair_row_def row_repair_all_def)
qed

lemma repair_wide_cells_local:
  assumes "shape s"
  shows "ok (local_step s (\<lambda>i. row_repair_all e)) (repair_wide_cells e s)"
proof -
  have "ok (local_step s (\<lambda>i g. if i \<in> set [0..<s_rows s] then row_repair_all e g else g)) (foldM (repair_row e) [0..<s_rows s] s)"
    using assms by (intro rows_local actsI) (auto simp: repair_row_row)
  then show ?thesis unfolding repair_wide_cells_def by (rule ok_local_cong) simp
qed

lemma unrotated: "shape s \<Longrightarrow> s_top s = 0 \<Longrightarrow> r < s_rows s \<Longrightarrow> physical_row s r = r \<and> physical_row_start s r = r * s_columns s"
  by (simp add: physical_row_def physical_row_start_def)

definition row_load :: "screen_row \<Rightarrow> grid_row \<Rightarrow> grid_row" where
  "row_load sr g = (let n = min (length (sr_cells sr)) (length (gr_cells g)) in
     g\<lparr>gr_cells := blit 0 (take n (sr_cells sr)) (gr_cells g), gr_occupied := blit 0 (replicate n True) (gr_occupied g),
       gr_wrapped := sr_soft_wrapped sr, gr_extent := n\<rparr>)"

lemma row_load_fits: "fits n g \<Longrightarrow> fits n (row_load sr g)"
  by (auto simp: fits_def row_load_def Let_def)

lemma from_rows_row_row:
  assumes "shape s" "s_top s = 0" "r < s_rows s"
  shows "from_rows_row (r, sr) s = Some (put_row s r (row_load sr (get_row s r)))"
proof -
  let ?n = "min (length (sr_cells sr)) (s_columns s)"
  have u: "physical_row s r = r" "physical_row_start s r = r * s_columns s" using unrotated assms by auto
  have le: "r * s_columns s + s_columns s \<le> s_rows s * s_columns s" using row_start_le [OF assms(1), of r] u by simp
  have len: "length (gr_cells (get_row s r)) = s_columns s" using get_row_fits [OF assms(1)] by (simp add: fits_def)
  have b: "s\<lparr>s_cells := blit (r * s_columns s) (take ?n (sr_cells sr)) (s_cells s),
            s_occupied_cells := blit (r * s_columns s) (replicate ?n True) (s_occupied_cells s)\<rparr> =
         put_row s r (row_blit 0 (take ?n (sr_cells sr)) (replicate ?n True) (get_row s r))"
    using blit_row [OF assms(1,3), of 0 "take ?n (sr_cells sr)" "replicate ?n True"] u by simp
  have "from_rows_row (r, sr) s =
      Some (put_row s r (row_blit 0 (take ?n (sr_cells sr)) (replicate ?n True) (get_row s r))
        \<lparr>s_soft_wrapped_rows := (s_soft_wrapped_rows s)[r := sr_soft_wrapped sr],
          s_occupied_columns := (s_occupied_columns s)[r := ?n]\<rparr>)"
    unfolding b [symmetric] using assms le
    by (auto simp: from_rows_row_def Let_def wr_range_def fill_range_def wr_def shape_def)
  also have "\<dots> = Some (put_row s r (row_load sr (get_row s r)))"
    using len u by (simp add: put_row_def row_blit_def row_load_def Let_def)
  finally show ?thesis .
qed

text \<open>Loading rows into a fresh screen, and repairing what the cut left behind.\<close>

lemma unrotated_loop:
  assumes "shape s" "s_top s = 0" "length xs \<le> s_rows s"
    and step: "\<And>t r. shape t \<Longrightarrow> s_dimensions t = s_dimensions s \<Longrightarrow> s_top t = 0 \<Longrightarrow> r < length xs \<Longrightarrow>
        m (r, xs ! r) t = Some (put_row t r (f (xs ! r) (get_row t r)))"
    and fit: "\<And>x g. x \<in> set xs \<Longrightarrow> fits (s_columns s) g \<Longrightarrow> fits (s_columns s) (f x g)"
  shows "ok (local_step s (\<lambda>i g. if i < length xs then f (xs ! i) g else g)) (foldM m (enumerate 0 xs) s)"
proof -
  have "ok (local_step s (\<lambda>i g. if i \<in> set [0..<length xs] then f (xs ! i) g else g)) (foldM (\<lambda>r. m (r, xs ! r)) [0..<length xs] s)"
    using assms(1-3) step fit by (intro rows_local actsI) (auto simp: assms(2))
  moreover have "foldM (\<lambda>r. m (r, xs ! r)) [0..<length xs] = foldM m (enumerate 0 xs)"
  proof -
    have "enumerate 0 xs = map (\<lambda>r. (r, xs ! r)) [0..<length xs]"
      by (rule nth_equalityI) (simp_all add: nth_enumerate_eq)
    then show ?thesis by (simp add: foldM_map)
  qed
  ultimately show ?thesis by (auto intro: ok_local_cong)
qed

section \<open>Building screens from rows\<close>

lemma from_rows_grid:
  assumes "dims_ok d" "screen_new e d = Inr s0"
  shows "ok (\<lambda>r. case r of Inl _ \<Rightarrow> False | Inr s \<Rightarrow> shape s \<and> s_dimensions s = d \<and> s_top s = 0 \<and>
      (\<forall>i < rows d. get_row s i = (row_repair_all e
          (if i < length rs then row_load (rs ! i) (new_row e (columns d)) else new_row e (columns d)))\<lparr>gr_dirty := True\<rparr>))
     (from_rows e d rs)"
proof -
  note new = screen_new_rows [OF assms]
  let ?xs = "take (rows d) rs"
  have "ok (local_step s0 (\<lambda>i g. if i < length ?xs then row_load (?xs ! i) g else g)) (foldM from_rows_row (enumerate 0 ?xs) s0)"
    by (rule unrotated_loop) (use new in \<open>auto simp: from_rows_row_row row_load_fits\<close>)
  then obtain s1 where s1: "foldM from_rows_row (enumerate 0 ?xs) s0 = Some s1"
      "local_step s0 (\<lambda>i g. if i < length ?xs then row_load (?xs ! i) g else g) s1" by (auto simp: ok_iff)
  then obtain s2 where s2: "repair_wide_cells e s1 = Some s2" "local_step s1 (\<lambda>i. row_repair_all e) s2"
    using repair_wide_cells_local [of s1 e] by (auto simp: ok_iff local_step_def)
  have s3: "shape (mark_all_dirty s2)" "s_dimensions (mark_all_dirty s2) = d" "s_top (mark_all_dirty s2) = 0"
    using s1(2) s2(2) new by (auto simp: local_step_def mark_all_dirty_def shape_def)
  have dirty: "get_row (mark_all_dirty s2) i = (get_row s2 i)\<lparr>gr_dirty := True\<rparr>" if "i < rows d" for i
    using s1(2) s2(2) new that
    by (simp add: get_row_def mark_all_dirty_def physical_row_def physical_row_start_def local_step_def shape_def)
  have "get_row (mark_all_dirty s2) i = (row_repair_all e
      (if i < length rs then row_load (rs ! i) (new_row e (columns d)) else new_row e (columns d)))\<lparr>gr_dirty := True\<rparr>"
    if "i < rows d" for i
    using dirty [OF that] s1(2) s2(2) new that by (simp add: local_step_def)
  then show ?thesis using s1(1) s2(1) s3 by (simp add: from_rows_def assms(2))
qed

definition row_resize :: "nat \<Rightarrow> bool \<Rightarrow> grid_row \<Rightarrow> grid_row \<Rightarrow> grid_row" where
  "row_resize n same old g =
     g\<lparr>gr_cells := blit 0 (take n (gr_cells old)) (gr_cells g), gr_occupied := blit 0 (take n (gr_occupied old)) (gr_occupied g),
       gr_wrapped := gr_wrapped old \<and> same, gr_extent := min (gr_extent old) n\<rparr>"

lemma resized_row_row:
  assumes "shape s" "s_top s = 0" "r < s_rows s" "shape old" "r < s_rows old" "n \<le> s_columns s" "n \<le> s_columns old"
  shows "resized_row old n r s = Some (put_row s r (row_resize n (n = s_columns old) (get_row old r) (get_row s r)))"
proof -
  have u: "physical_row s r = r" "physical_row_start s r = r * s_columns s" using unrotated assms by auto
  have le: "r * s_columns s + s_columns s \<le> s_rows s * s_columns s" using row_start_le [OF assms(1), of r] u by simp
  let ?o = "get_row old r"
  have len: "length (gr_cells ?o) = s_columns old" "length (gr_occupied ?o) = s_columns old"
    "length (gr_cells (get_row s r)) = s_columns s" "length (gr_occupied (get_row s r)) = s_columns s"
    using get_row_fits [OF assms(4), of r] get_row_fits [OF assms(1), of r] by (simp_all add: fits_def)
  have tk: "slice (physical_row_start old r) n (s_cells old) = take n (gr_cells ?o)"
    "slice (physical_row_start old r) n (s_occupied_cells old) = take n (gr_occupied ?o)"
    using assms(7) by (simp_all add: get_row_def slice_def min_def)
  have b: "s\<lparr>s_cells := blit (r * s_columns s) (take n (gr_cells ?o)) (s_cells s),
            s_occupied_cells := blit (r * s_columns s) (take n (gr_occupied ?o)) (s_occupied_cells s)\<rparr> =
         put_row s r (row_blit 0 (take n (gr_cells ?o)) (take n (gr_occupied ?o)) (get_row s r))"
    using blit_row [OF assms(1,3), of 0 "take n (gr_cells ?o)" "take n (gr_occupied ?o)"] u len assms(6,7) by simp
  have "resized_row old n r s =
      Some (put_row s r (row_blit 0 (take n (gr_cells ?o)) (take n (gr_occupied ?o)) (get_row s r))
        \<lparr>s_soft_wrapped_rows := (s_soft_wrapped_rows s)[r := gr_wrapped ?o \<and> n = s_columns old],
          s_occupied_columns := (s_occupied_columns s)[r := min (gr_extent ?o) n]\<rparr>)"
    unfolding b [symmetric]
    using assms le len row_start_le [OF assms(4), of r] physical_row_less [OF assms(4), of r] tk
    by (simp add: resized_row_def Let_def wr_range_def rd_range_def wr_def rd_def shape_def)
       (simp add: get_row_def)
  also have "\<dots> = Some (put_row s r (row_resize n (n = s_columns old) ?o (get_row s r)))"
    using u by (simp add: put_row_def row_blit_def row_resize_def)
  finally show ?thesis .
qed

lemma resized_grid:
  assumes "dims_ok d" "screen_new e d = Inr s0" "shape old"
  shows "ok (\<lambda>r. case r of Inl _ \<Rightarrow> False | Inr s \<Rightarrow> shape s \<and> s_dimensions s = d \<and> s_top s = 0 \<and>
      (\<forall>i < rows d. get_row s i = row_repair_all e
          (if i < s_rows old then row_resize (min (s_columns old) (columns d)) (s_columns old \<le> columns d)
              (get_row old i) (new_row e (columns d)) else new_row e (columns d))))
     (screen_resized e old d)"
proof -
  note new = screen_new_rows [OF assms(1,2)]
  let ?k = "min (s_rows old) (rows d)" and ?n = "min (s_columns old) (columns d)"
  have fitr: "fits (columns d) (row_resize ?n b (get_row old r) g)" if "fits (columns d) g" for b r g
    using that get_row_fits [OF assms(3), of r] by (auto simp: fits_def row_resize_def)
  have "ok (local_step s0 (\<lambda>i g. if i \<in> set [0..<?k] then row_resize ?n (?n = s_columns old) (get_row old i) g else g))
     (foldM (resized_row old ?n) [0..<?k] s0)"
    using new assms(3) fitr by (intro rows_local actsI) (auto simp: resized_row_row)
  then obtain s1 where s1: "foldM (resized_row old ?n) [0..<?k] s0 = Some s1"
      "local_step s0 (\<lambda>i g. if i \<in> set [0..<?k] then row_resize ?n (?n = s_columns old) (get_row old i) g else g) s1"
    by (auto simp: ok_iff)
  then obtain s2 where s2: "repair_wide_cells e s1 = Some s2" "local_step s1 (\<lambda>i. row_repair_all e) s2"
    using repair_wide_cells_local [of s1 e] by (auto simp: ok_iff local_step_def)
  have same: "(?n = s_columns old) = (s_columns old \<le> columns d)" by auto
  show ?thesis using s1 s2 new
    by (simp add: screen_resized_def assms(2) local_step_def same)
qed

section \<open>The row invariant\<close>

definition cells_ok :: "grid_row \<Rightarrow> bool" where
  "cells_ok g \<longleftrightarrow> (\<forall>c \<in> set (gr_cells g). cell_valid c)"

definition row_good :: "nat \<Rightarrow> grid_row \<Rightarrow> bool" where
  "row_good cols g \<longleftrightarrow> fits cols g \<and> cells_ok g \<and> gr_extent g = extent id (gr_occupied g)"

definition screen_inv :: "screen \<Rightarrow> bool" where
  "screen_inv s \<longleftrightarrow> shape s \<and> (\<forall>i < s_rows s. row_good (s_columns s) (get_row s i))"

lemma row_good_extent: "row_good cols g \<Longrightarrow> gr_extent g \<le> cols"
  using extent_le [of id "gr_occupied g"] by (simp add: row_good_def fits_def)

lemma cells_ok_set [simp]: "cells_ok g \<Longrightarrow> cell_valid c \<Longrightarrow> cells_ok (row_set i c oc g)"
  by (auto simp: cells_ok_def row_set_def dest: set_update_subset_insert [THEN subsetD])

lemma set_blit_subset: "set (blit a xs ys) \<subseteq> set xs \<union> set ys"
  by (auto simp: blit_def dest: in_set_takeD in_set_dropD)

lemma set_slice_subset: "set (slice a n xs) \<subseteq> set xs"
  by (auto simp: slice_def dest: in_set_takeD in_set_dropD)

lemma cells_ok_blit: "cells_ok g \<Longrightarrow> (\<And>c. c \<in> set xs \<Longrightarrow> cell_valid c) \<Longrightarrow> cells_ok (row_blit a xs os g)"
  using set_blit_subset [of a xs "gr_cells g"] by (auto simp: cells_ok_def row_blit_def)

lemma cells_ok_slice: "cells_ok g \<Longrightarrow> c \<in> set (slice a n (gr_cells g)) \<Longrightarrow> cell_valid c"
  using set_slice_subset [of a n "gr_cells g"] by (auto simp: cells_ok_def)

lemma cells_ok_meta [simp]:
  "cells_ok (g\<lparr>gr_dirty := b\<rparr>) = cells_ok g" "cells_ok (g\<lparr>gr_extent := n\<rparr>) = cells_ok g"
  "cells_ok (g\<lparr>gr_wrapped := w\<rparr>) = cells_ok g" "cells_ok (row_recompute g) = cells_ok g"
  by (simp_all add: cells_ok_def row_recompute_def)

lemma cells_ok_repair [simp]: "cells_ok g \<Longrightarrow> cell_valid fill \<Longrightarrow> cells_ok (row_repair fill c g)"
  by (simp add: row_repair_def)

lemma cells_ok_repairs [simp]: "cells_ok g \<Longrightarrow> cell_valid fill \<Longrightarrow> cells_ok (fold (row_repair fill) cs g)"
  by (induction cs arbitrary: g) simp_all

lemma cells_ok_neighborhood [simp]: "cells_ok g \<Longrightarrow> cell_valid fill \<Longrightarrow> cells_ok (row_neighborhood b fill g)"
  by (simp add: row_neighborhood_def)

lemma cells_ok_edges [simp]: "cells_ok g \<Longrightarrow> cell_valid (blank_cell e) \<Longrightarrow> cells_ok (row_edges e sp g)"
  by (simp add: row_edges_def)

lemma row_good_recompute: "fits cols g \<Longrightarrow> cells_ok g \<Longrightarrow> row_good cols (row_recompute g)"
  by (simp add: row_good_def) (simp add: row_recompute_def)

lemma row_good_dirty [simp]: "row_good cols (g\<lparr>gr_dirty := b\<rparr>) = row_good cols g"
  by (simp add: row_good_def)

lemma row_good_wrapped [simp]: "row_good cols (g\<lparr>gr_wrapped := b\<rparr>) = row_good cols g"
  by (simp add: row_good_def)

lemma row_goodD: "row_good cols g \<Longrightarrow> fits cols g" "row_good cols g \<Longrightarrow> cells_ok g"
  by (simp_all add: row_good_def)

lemma extent_replicate: "extent id (replicate n b) = (if b then n else 0)"
  by (induction n) (auto simp: Let_def)

lemma row_good_fill: "fits cols g \<Longrightarrow> cell_valid c \<Longrightarrow> row_good cols (row_fill c g)"
  by (auto simp: row_good_def row_fill_def fits_def cells_ok_def extent_replicate row_extent_def)

lemma row_good_new: "cell_valid (blank_cell e) \<Longrightarrow> row_good cols (new_row e cols)"
  by (auto simp: row_good_def new_row_def fits_def cells_ok_def extent_replicate)

lemma row_good_linear:
  assumes "row_good cols g" "cell_valid c" "stop \<le> n * cols" "0 < cols"
  shows "row_good cols (linear_result cols start stop c spare r g)"
proof (cases "start < stop \<and> start div cols \<le> r \<and> r \<le> (stop - 1) div cols")
  case True
  obtain a b where ab: "linear_bounds cols start stop r = (a, b)" by force
  have lt: "a < b" "b \<le> cols" using linear_bounds_ok [OF _ assms(3) _ _ assms(4), of start r] True ab by auto
  have "cell_valid x" if "x \<in> set (spare_fill c (slice a (b - a) (gr_cells g)))" for x
    using that assms(2) cells_ok_slice [OF row_goodD(2) [OF assms(1)], of x a "b - a"]
    by (auto simp: spare_fill_def split: if_splits)
  then have "cells_ok (row_linear a b c spare g)" unfolding row_linear_def
    by (intro cells_ok_blit row_goodD(2) [OF assms(1)]) (use assms(2) in \<open>auto split: if_splits\<close>)
  moreover have "fits cols (row_linear a b c spare g)"
    by (rule row_linear_fits [OF row_goodD(1) [OF assms(1)]]) (use lt in auto)
  ultimately show ?thesis using True ab assms(2)
    by (auto simp: linear_result_def linear_fill_def Let_def intro!: row_good_recompute)
qed (use assms(1) in \<open>auto simp: linear_result_def\<close>)

lemma row_good_copy: "row_good cols x \<Longrightarrow> row_good cols (row_copy x g)"
  by (simp add: row_copy_def)

lemma row_good_copy_span:
  assumes "row_good (columns d) x" "row_good (columns d) g" "span_ok d sp" "cell_valid (blank_cell e)"
  shows "row_good (columns d) (row_copy_span e sp x g)"
  using row_copy_span_fits [OF row_goodD(1) row_goodD(1), OF assms(1,2,3), of e] assms
  by (auto simp: row_copy_span_def Let_def intro!: row_good_recompute cells_ok_edges cells_ok_blit
      dest: row_goodD intro: cells_ok_slice)

lemma row_good_fill_span:
  assumes "row_good (columns d) g" "span_ok d sp" "cell_valid (blank_cell e)" "cell_valid c"
  shows "row_good (columns d) (row_fill_span e sp c g)"
  using row_fill_span_fits [OF row_goodD(1) [OF assms(1)] assms(2), of e c] assms
  by (auto simp: row_fill_span_def Let_def intro!: row_good_recompute cells_ok_edges cells_ok_blit
      dest: row_goodD)

lemma row_shift_finish_good:
  "fits cols g \<Longrightarrow> cells_ok g \<Longrightarrow> cell_valid c \<Longrightarrow> row_good cols (row_shift_finish bs c g)"
proof -
  have "fits cols g \<Longrightarrow> cells_ok g \<Longrightarrow> cell_valid c \<Longrightarrow>
      fits cols (fold (\<lambda>b. row_neighborhood b c) bs g) \<and> cells_ok (fold (\<lambda>b. row_neighborhood b c) bs g)" for g
    by (induction bs arbitrary: g) simp_all
  then show "fits cols g \<Longrightarrow> cells_ok g \<Longrightarrow> cell_valid c \<Longrightarrow> row_good cols (row_shift_finish bs c g)"
    by (simp add: row_shift_finish_def row_good_recompute)
qed

lemma row_good_insert:
  assumes "row_good cols g" "cell_valid c" "col \<le> right" "right < cols" "n \<le> right + 1 - col"
  shows "row_good cols (row_insert col right n c g)"
proof -
  let ?k = "right + 1 - col - n"
  let ?g1 = "row_blit (col + n) (slice col ?k (gr_cells g)) (slice col ?k (gr_occupied g)) g"
  have "fits cols ?g1" by (rule row_blit_fits [OF row_goodD(1) [OF assms(1)]])
      (use assms row_goodD(1) [OF assms(1)] in \<open>auto simp: fits_def\<close>)
  then have "fits cols (row_blit col (replicate n c) (replicate n (\<not> is_structural_blank c)) ?g1)"
    by (rule row_blit_fits) (use assms in auto)
  moreover have "cells_ok (row_blit col (replicate n c) (replicate n (\<not> is_structural_blank c)) ?g1)"
    using assms(2) by (intro cells_ok_blit row_goodD(2) [OF assms(1)])
      (auto intro: cells_ok_slice [OF row_goodD(2) [OF assms(1)]])
  ultimately show ?thesis unfolding row_insert_def using assms(2) by (intro row_shift_finish_good)
qed

lemma row_good_delete:
  assumes "row_good cols g" "cell_valid c" "col \<le> right" "right < cols" "n \<le> right + 1 - col"
  shows "row_good cols (row_delete col right n c g)"
proof -
  let ?k = "right + 1 - col - n"
  let ?g1 = "row_blit col (slice (col + n) ?k (gr_cells g)) (slice (col + n) ?k (gr_occupied g)) g"
  have "fits cols ?g1" by (rule row_blit_fits [OF row_goodD(1) [OF assms(1)]])
      (use assms row_goodD(1) [OF assms(1)] in \<open>auto simp: fits_def\<close>)
  then have "fits cols (row_blit (right + 1 - n) (replicate n c) (replicate n (\<not> is_structural_blank c)) ?g1)"
    by (rule row_blit_fits) (use assms in auto)
  moreover have "cells_ok (row_blit (right + 1 - n) (replicate n c) (replicate n (\<not> is_structural_blank c)) ?g1)"
    using assms(2) by (intro cells_ok_blit row_goodD(2) [OF assms(1)])
      (auto intro: cells_ok_slice [OF row_goodD(2) [OF assms(1)]])
  ultimately show ?thesis unfolding row_delete_def using assms(2) by (intro row_shift_finish_good)
qed

lemma row_good_rect:
  assumes "row_good cols g" "cell_valid c" "cell_valid (blank_cell e)"
  shows "row_good cols (row_rect e l r c spare g)"
proof -
  have "cells_ok g \<Longrightarrow> cells_ok (fold (\<lambda>i. row_sparing c spare (l + i)) is g)" for "is" g
    using assms(2) by (induction "is" arbitrary: g) (simp_all add: row_sparing_def)
  then show ?thesis using assms unfolding row_rect_def
    by (intro row_good_recompute) (auto dest: row_goodD)
qed

lemma row_good_paste:
  assumes "row_good cols src" "row_good cols g" "cell_valid (blank_cell e)" "dl + w \<le> cols" "sl + w \<le> cols"
  shows "row_good cols (row_paste e sl dl w src g)"
proof -
  have "fits cols (row_blit dl (slice sl w (gr_cells src)) (slice sl w (gr_occupied src)) g)"
    by (rule row_blit_fits [OF row_goodD(1) [OF assms(2)]])
       (use assms row_goodD(1) [OF assms(1)] in \<open>auto simp: fits_def\<close>)
  moreover have "cells_ok (row_blit dl (slice sl w (gr_cells src)) (slice sl w (gr_occupied src)) g)"
    by (intro cells_ok_blit row_goodD(2) [OF assms(2)]) (auto intro: cells_ok_slice [OF row_goodD(2) [OF assms(1)]])
  ultimately show ?thesis unfolding row_paste_def using assms(3) by (intro row_good_recompute) auto
qed

lemma row_good_repair_all: "fits cols g \<Longrightarrow> cells_ok g \<Longrightarrow> cell_valid (blank_cell e) \<Longrightarrow> row_good cols (row_repair_all e g)"
  unfolding row_repair_all_def by (intro row_good_recompute) auto

lemma row_good_replace:
  "row_good cols g \<Longrightarrow> cell_valid c \<Longrightarrow> row_good cols (row_replace col c g)"
  unfolding row_replace_def by (auto intro!: row_good_recompute dest: row_goodD)

section \<open>The extent shortcut\<close>

text \<open>What the two sweeps around a fresh cluster keep: the cluster itself, and nothing occupied to its
  right.\<close>

definition cluster_kept :: "nat \<Rightarrow> nat \<Rightarrow> grid_row \<Rightarrow> bool" where
  "cluster_kept col w g \<longleftrightarrow> 0 < w \<and> col + w \<le> length (gr_cells g) \<and> length (gr_occupied g) = length (gr_cells g) \<and>
     (\<forall>i. col \<le> i \<and> i < col + w \<longrightarrow> gr_occupied g ! i \<and> \<not> row_bad (gr_cells g) i) \<and>
     (\<forall>i. col + w \<le> i \<and> i < length (gr_cells g) \<longrightarrow> \<not> gr_occupied g ! i)"

lemma row_bad_update:
  assumes "row_bad cs c" "c < length cs" "c_width x = Single" "i < length cs"
  shows "row_bad (cs[c := x]) i \<longleftrightarrow> i \<noteq> c \<and> row_bad cs i"
  using assms
  by (auto simp: row_bad_def pair_valid_def nth_list_update split: cell_width.splits)

lemma cluster_kept_repair:
  assumes "cluster_kept col w g" "c < length (gr_cells g)"
  shows "cluster_kept col w (row_repair (blank_cell e) c g)"
proof (cases "row_bad (gr_cells g) c")
  case True
  then have "\<not> (col \<le> c \<and> c < col + w)" using assms(1) by (auto simp: cluster_kept_def)
  then show ?thesis using assms True row_bad_update [OF True assms(2), of "blank_cell e"]
    by (auto simp: cluster_kept_def row_repair_def row_set_def nth_list_update)
qed (use assms in \<open>simp add: row_repair_def\<close>)

lemma cluster_kept_neighborhood:
  assumes "cluster_kept col w g"
  shows "cluster_kept col w (row_neighborhood b (blank_cell e) g)"
proof -
  have len: "length (gr_cells (row_repair (blank_cell e) c g)) = length (gr_cells g)" for c g
    by (simp add: row_repair_def row_set_def)
  have "(\<forall>c \<in> set cs. c < length (gr_cells g)) \<Longrightarrow> cluster_kept col w g \<Longrightarrow> cluster_kept col w (fold (row_repair (blank_cell e)) cs g)" for cs g
    by (induction cs arbitrary: g) (simp_all add: cluster_kept_repair len)
  then show ?thesis using assms by (simp add: row_neighborhood_def)
qed

lemma cluster_kept_extent: "cluster_kept col w g \<Longrightarrow> extent id (gr_occupied g) = col + w"
  by (rule extent_unique) (auto simp: cluster_kept_def)

lemma row_cluster_exact:
  assumes "row_good cols g" "col < cols" "c_width c = Single \<or> c_width c = Double \<and> col + 1 < cols"
  shows "row_cluster e col c g =
    (let w = width_columns (c_width c);
         g1 = row_set col c True g;
         g2 = (if w = 2 then row_set (col + 1) (continuation_of e c) True g1 else g1)\<lparr>gr_dirty := True\<rparr>
     in row_recompute (row_neighborhood (col + w) (blank_cell e) (row_neighborhood col (blank_cell e) g2)))"
proof -
  let ?w = "width_columns (c_width c)"
  let ?g2 = "(if ?w = 2 then row_set (col + 1) (continuation_of e c) True (row_set col c True g) else row_set col c True g)\<lparr>gr_dirty := True\<rparr>"
  let ?g3 = "row_neighborhood (col + ?w) (blank_cell e) (row_neighborhood col (blank_cell e) ?g2)"
  have len: "length (gr_cells g) = cols" "length (gr_occupied g) = cols" using assms(1) by (auto simp: row_good_def fits_def)
  have "cluster_kept col ?w ?g2" if le: "gr_extent g \<le> col"
  proof -
    have above: "\<not> gr_occupied g ! i" if "col \<le> i" "i < cols" for i
      using extent_above [of id "gr_occupied g" i] that le assms(1) len by (simp add: row_good_def)
    show ?thesis using assms(2,3) len above
      by (auto simp: cluster_kept_def width_columns_def row_set_def row_bad_def pair_valid_def continuation_of_def
          nth_list_update less_Suc_eq split: cell_width.splits)
  qed
  then have "gr_extent g \<le> col \<Longrightarrow> extent id (gr_occupied ?g3) = col + ?w"
    by (intro cluster_kept_extent cluster_kept_neighborhood)
  then show ?thesis by (auto simp: row_cluster_def Let_def row_recompute_def)
qed

lemma row_good_cluster:
  assumes "row_good cols g" "col < cols" "c_width c = Single \<or> c_width c = Double \<and> col + 1 < cols"
    "cell_valid c" "cell_valid (continuation_of e c)" "cell_valid (blank_cell e)"
  shows "row_good cols (row_cluster e col c g)"
  unfolding row_cluster_exact [OF assms(1-3)] Let_def
  by (rule row_good_recompute) (use assms row_goodD in auto)

section \<open>Every operation keeps the screen invariant\<close>

text \<open>The blank cell and the continuation cells that clusters carry are valid cells: what the sources
  rely on of \<open>CompactString::capacity\<close>.\<close>

definition caps_ok :: "env \<Rightarrow> bool" where
  "caps_ok e \<longleftrightarrow> 1 \<le> const_cap e [0x20] \<and> const_cap e [0x20] \<le> 512 \<and> const_cap e [] \<le> 512"

lemma blank_valid [simp]: "caps_ok e \<Longrightarrow> cell_valid (blank_cell e)"
  by (simp add: caps_ok_def cell_valid_def blank_cell_def str_len_def len_utf8_def
      MAX_GRAPHEME_BYTES_def MAX_CELL_TEXT_CAPACITY_BYTES_def)

lemma continuation_valid [simp]: "caps_ok e \<Longrightarrow> cell_valid (continuation_of e c)"
  by (simp add: caps_ok_def cell_valid_def continuation_of_def str_len_def
      MAX_GRAPHEME_BYTES_def MAX_CELL_TEXT_CAPACITY_BYTES_def)

definition inv_like :: "screen \<Rightarrow> screen \<Rightarrow> bool" where
  "inv_like s s' \<longleftrightarrow> screen_inv s' \<and> s_dimensions s' = s_dimensions s"

lemma inv_like_refl: "screen_inv s \<Longrightarrow> inv_like s s"
  by (simp add: inv_like_def)

lemma screen_invD:
  "screen_inv s \<Longrightarrow> shape s" "screen_inv s \<Longrightarrow> i < s_rows s \<Longrightarrow> row_good (s_columns s) (get_row s i)"
  "screen_inv s \<Longrightarrow> i < s_rows s \<Longrightarrow> gr_extent (get_row s i) \<le> s_columns s"
  by (auto simp: screen_inv_def row_good_extent)

lemma local_inv:
  assumes "ok (local_step s F) m" "\<And>i. i < s_rows s \<Longrightarrow> row_good (s_columns s) (F i (get_row s i))"
  shows "ok (inv_like s) m"
  using assms by (auto simp: ok_iff local_step_def inv_like_def screen_inv_def)

lemma row_inv:
  assumes "m = Some (put_row s r g)" "screen_inv s" "r < s_rows s" "row_good (s_columns s) g"
  shows "ok (inv_like s) m"
proof -
  have fit: "fits (s_columns s) g" using assms(4) by (rule row_goodD(1))
  have "row_good (s_columns s) (get_row (put_row s r g) i)" if "i < s_rows s" for i
    using that assms screen_invD [OF assms(2)] fit by (cases "i = r") (auto simp: get_put_same get_put_other)
  then show ?thesis using assms(1) put_row_shape [OF screen_invD(1) [OF assms(2)] fit]
    by (simp add: inv_like_def screen_inv_def)
qed

lemma replace_cluster_inv:
  assumes "screen_inv s" "r < s_rows s" "col < s_columns s" "cell_valid c" "caps_ok e"
    "c_width c = Single \<or> c_width c = Double \<and> col + 1 < s_columns s"
  shows "ok (inv_like s) (replace_cluster e col r c s)"
  using assms screen_invD
  by (intro row_inv [OF replace_cluster_row] row_good_cluster) auto

lemma replace_cell_inv:
  assumes "screen_inv s" "r < s_rows s" "col < s_columns s" "cell_valid c"
  shows "ok (inv_like s) (replace_cell col r c s)"
  using assms screen_invD by (intro row_inv [OF replace_cell_row] row_good_replace) auto

lemma set_soft_wrapped_inv:
  assumes "screen_inv s" "r < s_rows s"
  shows "ok (inv_like s) (set_soft_wrapped r b s)"
  using assms screen_invD by (intro row_inv [OF set_soft_wrapped_row]) auto

lemma fill_linear_inv:
  assumes "screen_inv s" "stop \<le> s_rows s * s_columns s" "cell_valid c"
  shows "ok (inv_like s) (fill_linear_with start stop c spare s)"
  using assms screen_invD dims_pos(3) [OF shape_dims [of s]]
  by (intro local_inv [OF fill_linear_local]) (auto intro!: row_good_linear)

lemma fill_rectangle_inv:
  assumes "screen_inv s" "in_rect rc (s_dimensions s)" "cell_valid c" "caps_ok e"
  shows "ok (inv_like s) (fill_rectangle e rc c spare s)"
  using assms screen_invD
  by (intro local_inv [OF fill_rectangle_local]) (auto simp: dirty_range_def intro!: row_good_rect)

lemma copy_rectangle_inv:
  assumes "screen_inv s" "in_rect src (s_dimensions s)" "dt < s_rows s" "dl < s_columns s" "caps_ok e"
  shows "ok (inv_like s) (copy_rectangle e src dt dl s)"
  using assms
  by (intro local_inv [OF copy_rectangle_local [OF screen_invD(1) assms(2-4) refl refl]])
     (auto simp: dirty_range_def in_rect_def intro!: row_good_paste screen_invD(2))

lemma insert_characters_inv:
  assumes "screen_inv s" "r < s_rows s" "cell_valid c"
  shows "ok (inv_like s) (insert_characters col r count c sp s)"
proof -
  let ?right = "min (cs_right sp) (s_columns s - 1)"
  have cols: "1 \<le> s_columns s" using dims_pos(3) [OF shape_dims [OF screen_invD(1) [OF assms(1)]]] by simp
  show ?thesis
  proof (cases "col \<le> ?right")
    case True
    show ?thesis
      by (rule row_inv [OF insert_characters_row [OF screen_invD(1) [OF assms(1)] assms(2) refl True] assms(1,2)],
          rule row_good_insert [OF screen_invD(2) [OF assms(1,2)] assms(3) True])
         (use cols in auto)
  next
    case False
    then have "?right < col" by (simp only: not_le)
    then show ?thesis using cols inv_like_refl [OF assms(1)] by (simp add: insert_characters_def Let_def)
  qed
qed

lemma delete_characters_inv:
  assumes "screen_inv s" "r < s_rows s" "cell_valid c"
  shows "ok (inv_like s) (delete_characters col r count c sp s)"
proof -
  let ?right = "min (cs_right sp) (s_columns s - 1)"
  have cols: "1 \<le> s_columns s" using dims_pos(3) [OF shape_dims [OF screen_invD(1) [OF assms(1)]]] by simp
  show ?thesis
  proof (cases "col \<le> ?right")
    case True
    show ?thesis
      by (rule row_inv [OF delete_characters_row [OF screen_invD(1) [OF assms(1)] assms(2) refl True] assms(1,2)],
          rule row_good_delete [OF screen_invD(2) [OF assms(1,2)] assms(3) True])
         (use cols in auto)
  next
    case False
    then have "?right < col" by (simp only: not_le)
    then show ?thesis using cols inv_like_refl [OF assms(1)] by (simp add: delete_characters_def Let_def)
  qed
qed

lemma row_good_shift:
  assumes "caps_ok e" "span_ok d sp" "row_good (columns d) g"
  shows "row_good (columns d) x \<Longrightarrow> row_good (columns d) (shift_copy e (columns d) sp x g)"
    "cell_valid c \<Longrightarrow> row_good (columns d) (shift_fill e (columns d) sp c g)"
  using assms by (auto simp: shift_copy_def shift_fill_def row_good_copy row_good_copy_span row_good_fill_span
      intro: row_good_fill dest: row_goodD(1))

lemma region_good:
  assumes "screen_inv s" "caps_ok e" "span_ok (s_dimensions s) sp" "cell_valid c" "b < s_rows s" "i < s_rows s"
  shows "row_good (s_columns s) (region_up s e sp c n t b i (get_row s i))"
    "row_good (s_columns s) (region_down s e sp c n t b i (get_row s i))"
proof -
  note shift = row_good_shift [OF assms(2,3) screen_invD(2) [OF assms(1,6)]]
  show "row_good (s_columns s) (region_up s e sp c n t b i (get_row s i))"
    "row_good (s_columns s) (region_down s e sp c n t b i (get_row s i))"
    using assms by (auto simp: region_up_def region_down_def intro!: shift intro: screen_invD(2))
qed

lemma line_ops_inv:
  assumes "screen_inv s" "caps_ok e" "span_ok (s_dimensions s) sp" "cell_valid c" "t \<le> b" "b < s_rows s"
  shows "ok (inv_like s) (insert_lines e t b count c sp s)"
    "ok (inv_like s) (delete_lines e t b count c sp s)"
    "ok (inv_like s) (scroll_down e t b count c sp s)"
  by (rule local_inv [OF line_ops_local(1) [OF screen_invD(1) [OF assms(1)] assms(3,5,6) refl]]
           local_inv [OF line_ops_local(2) [OF screen_invD(1) [OF assms(1)] assms(3,5,6) refl]]
           local_inv [OF line_ops_local(3) [OF screen_invD(1) [OF assms(1)] assms(3,5,6) refl]];
      use region_good [OF assms(1-4,6)] in \<open>simp add: dirty_range_def\<close>)+

lemma row_content_valid: "row_good cols g \<Longrightarrow> x \<in> set (sr_cells (row_content g)) \<Longrightarrow> cell_valid x"
  by (auto simp: row_content_def row_good_def cells_ok_def dest!: in_set_takeD)

lemma row_content_length: "row_good cols g \<Longrightarrow> length (sr_cells (row_content g)) \<le> cols"
  by (simp add: row_content_def row_good_def fits_def)

definition rows_valid :: "nat \<Rightarrow> screen_row list \<Rightarrow> bool" where
  "rows_valid cols rs \<longleftrightarrow> (\<forall>r \<in> set rs. length (sr_cells r) \<le> cols \<and> (\<forall>c \<in> set (sr_cells r). cell_valid c))"

lemma row_contents_valid:
  "screen_inv s \<Longrightarrow> (\<forall>i \<in> set is. i < s_rows s) \<Longrightarrow> rows_valid (s_columns s) (map (row_content \<circ> get_row s) is)"
  by (auto simp: rows_valid_def intro: row_content_length row_content_valid screen_invD(2))

lemma scroll_up_inv:
  assumes "screen_inv s" "caps_ok e" "span_ok (s_dimensions s) sp" "cell_valid c" "t \<le> b" "b < s_rows s"
  shows "ok (\<lambda>(removed, s'). inv_like s s' \<and> rows_valid (s_columns s) removed) (scroll_up e t b count c sp s)"
proof (cases "span_is_full sp (s_columns s) \<and> t = 0 \<and> b + 1 = s_rows s")
  case True
  let ?n = "min count (s_rows s)"
  have b: "b = s_rows s - 1" "t = 0" using True by auto
  have good: "row_good (s_columns s) (if i + ?n < s_rows s then get_row s (i + ?n) else row_fill c (get_row s (i + ?n - s_rows s)))"
    if "i < s_rows s" for i
    using that assms(4) by (auto intro!: row_good_fill screen_invD(2) [OF assms(1)] row_goodD(1) [OF screen_invD(2) [OF assms(1)]])
  show ?thesis unfolding b
    by (rule ok_mono [OF scroll_up_rotates [OF screen_invD(1) [OF assms(1)] _ refl screen_invD(3) [OF assms(1)], of sp count c e]])
       (use True good in \<open>auto simp: inv_like_def screen_inv_def intro!: row_contents_valid [OF assms(1)]\<close>)
next
  case False
  have good: "row_good (s_columns s) (dirty_range t b i (region_up s e sp c n t b i (get_row s i)))" if "i < s_rows s" for i n
    using region_good(1) [OF assms(1-4,6) that] by (simp add: dirty_range_def)
  have removed: "rows_valid (s_columns s) (map (row_content \<circ> get_row s) [t..<t + min count (b - t + 1)])"
    using assms(5,6) by (intro row_contents_valid [OF assms(1)]) auto
  show ?thesis
    by (rule ok_mono [OF scroll_up_local [OF screen_invD(1) [OF assms(1)] assms(3,5,6) refl False screen_invD(3) [OF assms(1)], where e = e and c = c and count = count]])
       (use good removed in \<open>auto simp: inv_like_def screen_inv_def local_step_def rows_valid_def\<close>)
qed

lemma clear_all_inv: "screen_inv s \<Longrightarrow> cell_valid c \<Longrightarrow> inv_like s (clear_all c s)"
  using clear_all_local [OF screen_invD(1), of s c]
  by (auto simp: inv_like_def screen_inv_def intro!: row_good_fill dest: row_goodD(1))

lemma screen_new_inv:
  "dims_ok d \<Longrightarrow> caps_ok e \<Longrightarrow> screen_new e d = Inr s \<Longrightarrow> screen_inv s \<and> s_dimensions s = d"
  using screen_new_rows [of d e s] by (auto simp: screen_inv_def row_good_new)

lemma mark_all_dirty_inv: "screen_inv s \<Longrightarrow> inv_like s (mark_all_dirty s)"
  by (auto simp: inv_like_def screen_inv_def shape_def mark_all_dirty_def row_good_def fits_def cells_ok_def
      get_row_def physical_row_def physical_row_start_def)

lemma from_rows_inv:
  assumes "dims_ok d" "caps_ok e" "rows_valid n rs"
  shows "ok (\<lambda>r. case r of Inl _ \<Rightarrow> True | Inr s \<Rightarrow> screen_inv s \<and> s_dimensions s = d) (from_rows e d rs)"
proof (cases "screen_new e d")
  case (Inr s0)
  have load: "row_good (columns d) (row_repair_all e (row_load r (new_row e (columns d))))" if "r \<in> set rs" for r
  proof (rule row_good_repair_all)
    show "fits (columns d) (row_load r (new_row e (columns d)))" by (rule row_load_fits) (simp add: new_row_def fits_def)
    show "cells_ok (row_load r (new_row e (columns d)))"
      using assms(3) that blank_valid [OF assms(2)] set_blit_subset
      by (fastforce simp: cells_ok_def row_load_def Let_def new_row_def rows_valid_def dest!: in_set_takeD)
  qed (use assms(2) in simp)
  have new: "row_good (columns d) (row_repair_all e (new_row e (columns d)))"
    using row_good_new [of e "columns d"] assms(2) by (intro row_good_repair_all) (auto dest: row_goodD)
  show ?thesis
    by (rule ok_mono [OF from_rows_grid [OF assms(1) Inr, of rs]])
       (use load new in \<open>auto simp: screen_inv_def split: sum.splits\<close>)
qed (simp add: from_rows_def)

lemma resized_inv:
  assumes "dims_ok d" "caps_ok e" "screen_inv old"
  shows "ok (\<lambda>r. case r of Inl _ \<Rightarrow> True | Inr s \<Rightarrow> screen_inv s \<and> s_dimensions s = d) (screen_resized e old d)"
proof (cases "screen_new e d")
  case (Inr s0)
  let ?n = "min (s_columns old) (columns d)"
  have cut: "row_good (columns d) (row_repair_all e (row_resize ?n b (get_row old i) (new_row e (columns d))))"
    if "i < s_rows old" for i b
  proof (rule row_good_repair_all)
    have old: "row_good (s_columns old) (get_row old i)" using screen_invD(2) [OF assms(3) that] .
    show "fits (columns d) (row_resize ?n b (get_row old i) (new_row e (columns d)))"
      using row_goodD(1) [OF old] by (auto simp: fits_def row_resize_def new_row_def)
    show "cells_ok (row_resize ?n b (get_row old i) (new_row e (columns d)))"
      using row_goodD(2) [OF old] blank_valid [OF assms(2)] set_blit_subset
      by (fastforce simp: cells_ok_def row_resize_def new_row_def dest!: in_set_takeD)
  qed (use assms(2) in simp)
  have new: "row_good (columns d) (row_repair_all e (new_row e (columns d)))"
    using row_good_new [of e "columns d"] assms(2) by (intro row_good_repair_all) (auto dest: row_goodD)
  show ?thesis
    by (rule ok_mono [OF resized_grid [OF assms(1) Inr screen_invD(1) [OF assms(3)]]])
       (use cut new in \<open>auto simp: screen_inv_def split: sum.splits\<close>)
qed (simp add: screen_resized_def)

end
