(* ===== verification/History.thy ===== *)
theory History
  imports Screen_Inv
begin

text \<open>
  The bounded primary-screen history of \<open>history.rs\<close>: logical lines with their physical row
  boundaries, capacity-based accounting, eviction, front trimming of an open oversized line, reflow,
  anchors and the binary search for a physical row.  The capacities \<open>Vec\<close> reports are the
  environment's \<open>vec_grow\<close> and \<open>vec_shrink\<close>; every other quantity is computed as in the source.
\<close>

section \<open>Logical lines\<close>

definition DEFAULT_SCROLLBACK_LIMIT_BYTES :: nat where
  "DEFAULT_SCROLLBACK_LIMIT_BYTES = 64 * 1024 * 1024"

record logical_line =
  l_id :: nat
  l_cells :: "cell list"
  l_cell_capacity :: nat
  l_row_ends :: "nat list"
  l_row_end_capacity :: nat
  l_physical_rows :: nat
  l_hard_break :: bool
  l_charged_bytes :: nat
  l_cell_owned_bytes :: nat
  l_trimmed_offset :: nat

record logical_anchor =
  a_line_id :: nat
  a_line_index_hint :: nat
  a_offset :: nat
  a_end_boundary :: bool
  a_trimmed_offset_at_capture :: nat

definition cell_owned_charge :: "cell \<Rightarrow> nat" where
  "cell_owned_charge c =
     sat_add (c_capacity c) (case c_hyperlink c of None \<Rightarrow> 0 | Some target \<Rightarrow> str_len target)"

definition owned_sum :: "cell list \<Rightarrow> nat" where
  "owned_sum cs = foldl sat_add 0 (map cell_owned_charge cs)"

definition compact_line_charge :: "env \<Rightarrow> nat \<Rightarrow> nat \<Rightarrow> nat \<Rightarrow> nat" where
  "compact_line_charge e cell_capacity row_end_capacity cell_owned_bytes =
     sat_add (sat_add (sat_add (size_line e) (sat_mul (size_cell e) cell_capacity)) cell_owned_bytes)
       (sat_mul (size_usize e) row_end_capacity)"

definition recalculate_charge :: "env \<Rightarrow> logical_line \<Rightarrow> logical_line" where
  "recalculate_charge e l = l\<lparr>l_charged_bytes :=
     sat_add (sat_add (sat_add (size_line e) (sat_mul (size_cell e) (l_cell_capacity l)))
       (l_cell_owned_bytes l)) (sat_mul (size_usize e) (l_row_end_capacity l))\<rparr>"

text \<open>Where physical row \<open>r\<close> starts: \<open>checked_sub(1).and_then(get).unwrap_or(0)\<close>.\<close>

definition row_start_of :: "nat list \<Rightarrow> nat \<Rightarrow> nat" where
  "row_start_of ends r =
     (case checked_sub r 1 of None \<Rightarrow> 0
      | Some previous \<Rightarrow> (case rd ends previous of None \<Rightarrow> 0 | Some x \<Rightarrow> x))"

definition line_physical_row :: "logical_line \<Rightarrow> nat \<Rightarrow> cell list option option" where
  "line_physical_row l r =
     (case rd (l_row_ends l) r of
        None \<Rightarrow> Some None
      | Some stop \<Rightarrow> map_option Some (rd_range (l_cells l) (row_start_of (l_row_ends l) r) stop))"

definition line_physical_row_soft_wrapped :: "logical_line \<Rightarrow> nat \<Rightarrow> bool option" where
  "line_physical_row_soft_wrapped l r =
     (if r < l_physical_rows l then Some (r + 1 < l_physical_rows l \<or> \<not> l_hard_break l) else None)"

definition anchor_for_row :: "logical_line \<Rightarrow> nat \<Rightarrow> nat \<Rightarrow> logical_anchor" where
  "anchor_for_row l r col =
     (let start = row_start_of (l_row_ends l) r;
          stop = (case rd (l_row_ends l) r of None \<Rightarrow> length (l_cells l) | Some x \<Rightarrow> x);
          row_len = stop - start
      in \<lparr>a_line_id = l_id l, a_line_index_hint = 0,
          a_offset = l_trimmed_offset l + start + min col row_len,
          a_end_boundary = (row_len \<le> col),
          a_trimmed_offset_at_capture = l_trimmed_offset l\<rparr>)"

text \<open>\<open>partition_point\<close> on the (sorted) row ends is the length of the prefix that satisfies the test.
  The outer option is the underflow of \<open>offset - start\<close>.\<close>

definition locate_offset :: "logical_line \<Rightarrow> nat \<Rightarrow> bool \<Rightarrow> (nat \<times> nat) option option" where
  "locate_offset l offset end_boundary =
     (case checked_sub offset (l_trimmed_offset l) of
        None \<Rightarrow> Some None
      | Some offset \<Rightarrow> do {
          let offset = min offset (length (l_cells l));
          let r = min (length (takeWhile (\<lambda>x. if end_boundary then x < offset else x \<le> offset) (l_row_ends l)))
                      (length (l_row_ends l) - 1);
          col \<leftarrow> checked_sub offset (row_start_of (l_row_ends l) r);
          Some (Some (r, col)) })"

section \<open>Trimming an open line\<close>

text \<open>The loop of \<open>trim_oldest_physical_rows_to\<close>: rows and cells to drop and their owned bytes.\<close>

function trim_loop ::
  "env \<Rightarrow> logical_line \<Rightarrow> nat \<Rightarrow> nat \<Rightarrow> nat \<Rightarrow> nat \<Rightarrow> (nat \<times> nat \<times> nat) option" where
  "trim_loop e l target rows_to_drop cells_to_drop removed =
     (if \<not> rows_to_drop < l_physical_rows l then Some (rows_to_drop, cells_to_drop, removed)
      else if compact_line_charge e (length (l_cells l) - cells_to_drop)
                (length (l_row_ends l) - rows_to_drop) (l_cell_owned_bytes l - removed) \<le> target
              \<and> (0 < rows_to_drop \<or> l_charged_bytes l \<le> target)
      then Some (rows_to_drop, cells_to_drop, removed)
      else case rd (l_row_ends l) rows_to_drop of
             None \<Rightarrow> None
           | Some row_end \<Rightarrow>
               (case rd_range (l_cells l) cells_to_drop row_end of
                  None \<Rightarrow> None
                | Some cs \<Rightarrow> trim_loop e l target (rows_to_drop + 1) row_end (sat_add removed (owned_sum cs))))"
  by pat_completeness auto
termination
  by (relation "measure (\<lambda>(e, l, target, rows_to_drop, _). l_physical_rows l - rows_to_drop)") auto

declare trim_loop.simps [simp del]

definition trim_oldest_physical_rows_to ::
  "env \<Rightarrow> nat \<Rightarrow> logical_line \<Rightarrow> (nat \<times> logical_line) option" where
  "trim_oldest_physical_rows_to e target l = do {
     (rows_to_drop, cells_to_drop, removed) \<leftarrow> trim_loop e l target 0 0 0;
     if rows_to_drop = 0 then Some (0, l)
     else if length (l_cells l) < cells_to_drop \<or> length (l_row_ends l) < rows_to_drop then None
     else do {
       let cs = drop cells_to_drop (l_cells l);
       ends \<leftarrow> mapM (\<lambda>x. checked_sub x cells_to_drop) (drop rows_to_drop (l_row_ends l));
       let l = l\<lparr>l_cells := cs, l_row_ends := ends,
                 l_cell_capacity := vec_shrink e (l_cell_capacity l) (length cs),
                 l_row_end_capacity := vec_shrink e (l_row_end_capacity l) (length ends),
                 l_physical_rows := l_physical_rows l - rows_to_drop,
                 l_trimmed_offset := sat_add (l_trimmed_offset l) cells_to_drop,
                 l_cell_owned_bytes := l_cell_owned_bytes l - removed\<rparr>;
       Some (rows_to_drop, recalculate_charge e l) } }"

section \<open>Reflow of one line\<close>

text \<open>The cells the unit at \<open>index\<close> takes: a double-width cell and its continuation stay together.\<close>

definition unit_cells :: "cell list \<Rightarrow> nat \<Rightarrow> nat" where
  "unit_cells cs index =
     (if c_width (cs ! index) = Double \<and>
         (case rd cs (index + 1) of None \<Rightarrow> False | Some c \<Rightarrow> c_width c = Continuation)
      then 2 else 1)"

function reflow_loop :: "nat \<Rightarrow> cell list \<Rightarrow> nat \<Rightarrow> nat \<Rightarrow> nat list \<Rightarrow> nat list" where
  "reflow_loop cols cs index used ends =
     (if index < length cs then
        let n = unit_cells cs index;
            wrap = (0 < used \<and> cols < used + n);
            ends = (if wrap then ends @ [index] else ends);
            used = (if wrap then 0 else used)
        in reflow_loop cols cs (index + n) (used + n) ends
      else ends)"
  by pat_completeness auto
termination
  by (relation "measure (\<lambda>(cols, cs, index, _). length cs - index)") (auto simp: unit_cells_def)

declare reflow_loop.simps [simp del]

definition reflow_ends :: "nat \<Rightarrow> cell list \<Rightarrow> nat list" where
  "reflow_ends cols cs = (if cs = [] then [0] else reflow_loop (max cols 1) cs 0 0 [] @ [length cs])"

text \<open>The capacity of a fresh \<open>Vec\<close> after \<open>n\<close> single pushes.\<close>

definition pushed_capacity :: "env \<Rightarrow> nat \<Rightarrow> nat" where
  "pushed_capacity e n = foldl (\<lambda>c k. vec_grow e c k) 0 [1..<n + 1]"

definition line_reflow :: "env \<Rightarrow> nat \<Rightarrow> logical_line \<Rightarrow> logical_line" where
  "line_reflow e cols l =
     (let ends = reflow_ends cols (l_cells l)
      in recalculate_charge e (l\<lparr>l_physical_rows := length ends, l_row_ends := ends,
           l_row_end_capacity := pushed_capacity e (length ends)\<rparr>))"

section \<open>Scrollback\<close>

record scrollback =
  sb_limit_bytes :: nat
  sb_charged_bytes :: nat
  sb_lines :: "logical_line list"
  sb_next_id :: nat
  sb_evicted_lines :: nat
  sb_content_row_origin :: nat
  sb_screen_row_origin :: nat
  sb_oversize_lines :: nat
  sb_active_oversize_line :: "(nat \<times> nat) option"
  sb_line_row_starts :: "nat list"

definition scrollback_new :: "nat \<Rightarrow> scrollback" where
  "scrollback_new limit =
     \<lparr>sb_limit_bytes = limit, sb_charged_bytes = 0, sb_lines = [], sb_next_id = 0,
      sb_evicted_lines = 0, sb_content_row_origin = 0, sb_screen_row_origin = 0,
      sb_oversize_lines = 0, sb_active_oversize_line = None, sb_line_row_starts = []\<rparr>"

fun evict_loop :: "logical_line list \<Rightarrow> scrollback \<Rightarrow> scrollback" where
  "evict_loop [] sb = sb\<lparr>sb_lines := []\<rparr>"
| "evict_loop (l # ls) sb =
     (if sb_charged_bytes sb \<le> sb_limit_bytes sb \<or> \<not> l_hard_break l then sb\<lparr>sb_lines := l # ls\<rparr>
      else evict_loop ls
        (sb\<lparr>sb_line_row_starts := tl (sb_line_row_starts sb),
            sb_charged_bytes := sb_charged_bytes sb - l_charged_bytes l,
            sb_evicted_lines := sat_add (sb_evicted_lines sb) 1,
            sb_content_row_origin := sat_add (sb_content_row_origin sb) (l_physical_rows l)\<rparr>))"

definition evict_complete_lines :: "scrollback \<Rightarrow> scrollback" where
  "evict_complete_lines sb = evict_loop (sb_lines sb) sb"

text \<open>The trimming loop of \<open>enforce_limit\<close>, on the front line, the scrollback's charge and the rows
  removed so far.\<close>

lemma trim_decreases:
  assumes "trim_oldest_physical_rows_to e target l = Some (n, l')" "n \<noteq> 0" "0 < l_physical_rows l"
  shows "l_physical_rows l' < l_physical_rows l"
  using assms
  by (auto simp: trim_oldest_physical_rows_to_def recalculate_charge_def Let_def split: bind_splits if_splits)

function trim_front ::
  "env \<Rightarrow> nat \<Rightarrow> logical_line \<Rightarrow> nat \<Rightarrow> nat \<Rightarrow> (logical_line \<times> nat \<times> nat) option" where
  "trim_front e target l charged removed_rows =
     (if target < l_charged_bytes l \<and> 0 < l_physical_rows l then
        (case trim_oldest_physical_rows_to e target l of
           None \<Rightarrow> None
         | Some (n, l') \<Rightarrow>
             if n = 0 then Some (l', charged, removed_rows)
             else trim_front e target l' (charged - (l_charged_bytes l - l_charged_bytes l'))
                    (sat_add removed_rows n))
      else Some (l, charged, removed_rows))"
  by pat_completeness auto
termination
  by (relation "measure (\<lambda>(e, target, l, _). l_physical_rows l)") (auto intro: trim_decreases)

declare trim_front.simps [simp del]

definition add_front :: "nat \<Rightarrow> nat list \<Rightarrow> nat list" where
  "add_front n xs = (case xs of [] \<Rightarrow> [] | x # xs \<Rightarrow> sat_add x n # xs)"

definition enforce_limit :: "env \<Rightarrow> scrollback \<Rightarrow> scrollback option" where
  "enforce_limit e sb0 = do {
     let sb = evict_complete_lines sb0;
     if sb_charged_bytes sb \<le> sb_limit_bytes sb then Some sb
     else case sb_lines sb of
       [] \<Rightarrow> Some sb
     | line # rest \<Rightarrow> do {
         (l, charged, removed_rows) \<leftarrow>
           trim_front e (sb_limit_bytes sb div 2) line (sb_charged_bytes sb) 0;
         let sb = sb\<lparr>sb_charged_bytes := charged,
                     sb_content_row_origin := sat_add (sb_content_row_origin sb) removed_rows,
                     sb_line_row_starts := add_front removed_rows (sb_line_row_starts sb)\<rparr>;
         let sb = (if 0 < removed_rows then
                     sb\<lparr>sb_oversize_lines :=
                          (if map_option fst (sb_active_oversize_line sb) \<noteq> Some (l_id line)
                           then sat_add (sb_oversize_lines sb) 1 else sb_oversize_lines sb),
                        sb_active_oversize_line := Some (l_id line, l_trimmed_offset l)\<rparr>
                   else sb);
         Some (if l_physical_rows l = 0
               then sb\<lparr>sb_lines := rest, sb_line_row_starts := tl (sb_line_row_starts sb),
                       sb_charged_bytes := sb_charged_bytes sb - l_charged_bytes l\<rparr>
               else sb\<lparr>sb_lines := l # rest\<rparr>) } }"

definition set_limit_bytes :: "env \<Rightarrow> nat \<Rightarrow> scrollback \<Rightarrow> scrollback option" where
  "set_limit_bytes e limit sb = enforce_limit e (sb\<lparr>sb_limit_bytes := limit\<rparr>)"

definition new_line :: "env \<Rightarrow> nat \<Rightarrow> nat \<Rightarrow> logical_line" where
  "new_line e i trimmed =
     \<lparr>l_id = i, l_cells = [], l_cell_capacity = 0, l_row_ends = [], l_row_end_capacity = 0,
      l_physical_rows = 0, l_hard_break = False, l_charged_bytes = size_line e,
      l_cell_owned_bytes = 0, l_trimmed_offset = trimmed\<rparr>"

definition open_line :: "env \<Rightarrow> scrollback \<Rightarrow> scrollback" where
  "open_line e sb =
     (if sb_lines sb = [] \<or> l_hard_break (last (sb_lines sb)) then
        let sb = sb\<lparr>sb_line_row_starts := sb_line_row_starts sb @ [sb_screen_row_origin sb - 1]\<rparr>;
            (i, trimmed, sb) =
              (case (if sb_lines sb = [] then sb_active_oversize_line sb else None) of
                 Some (i, trimmed) \<Rightarrow> (i, trimmed, sb)
               | None \<Rightarrow> (sb_next_id sb, 0,
                   sb\<lparr>sb_active_oversize_line := None, sb_next_id := (sb_next_id sb + 1) mod 2 ^ 64\<rparr>))
        in sb\<lparr>sb_lines := sb_lines sb @ [new_line e i trimmed],
              sb_charged_bytes := sat_add (sb_charged_bytes sb) (size_line e)\<rparr>
      else sb)"

definition append_row :: "env \<Rightarrow> screen_row \<Rightarrow> logical_line \<Rightarrow> logical_line" where
  "append_row e r l =
     (let cs = l_cells l @ sr_cells r;
          ends = l_row_ends l @ [length cs]
      in recalculate_charge e (l\<lparr>
           l_cell_owned_bytes := sat_add (l_cell_owned_bytes l) (owned_sum (sr_cells r)),
           l_cells := cs, l_cell_capacity := vec_grow e (l_cell_capacity l) (length cs),
           l_row_ends := ends, l_row_end_capacity := vec_grow e (l_row_end_capacity l) (length ends),
           l_physical_rows := l_physical_rows l + 1, l_hard_break := \<not> sr_soft_wrapped r\<rparr>))"

definition shrink_line :: "env \<Rightarrow> logical_line \<Rightarrow> logical_line" where
  "shrink_line e l = recalculate_charge e (l\<lparr>
     l_cell_capacity := vec_shrink e (l_cell_capacity l) (length (l_cells l)),
     l_row_end_capacity := vec_shrink e (l_row_end_capacity l) (length (l_row_ends l))\<rparr>)"

definition push_row :: "env \<Rightarrow> screen_row \<Rightarrow> scrollback \<Rightarrow> scrollback option" where
  "push_row e r sb0 = do {
     let sb = sb0\<lparr>sb_screen_row_origin := sat_add (sb_screen_row_origin sb0) 1\<rparr>;
     let ends_line = (\<not> sr_soft_wrapped r);
     if sb_limit_bytes sb = 0 then
       Some (sb\<lparr>sb_content_row_origin := sb_screen_row_origin sb,
                sb_active_oversize_line := (if ends_line then None else sb_active_oversize_line sb)\<rparr>)
     else do {
       let sb = open_line e sb;
       let active = map_option fst (sb_active_oversize_line sb);
       let line = last (sb_lines sb);
       let l = append_row e r line;
       let l = (if ends_line \<or> (sb_limit_bytes sb < l_charged_bytes l \<and> active \<noteq> Some (l_id line))
                then shrink_line e l else l);
       sb \<leftarrow> enforce_limit e (sb\<lparr>
               sb_lines := butlast (sb_lines sb) @ [l],
               sb_charged_bytes := sat_add (sb_charged_bytes sb - l_charged_bytes line) (l_charged_bytes l)\<rparr>);
       Some (if ends_line then sb\<lparr>sb_active_oversize_line := None\<rparr> else sb) } }"

definition push_rows :: "env \<Rightarrow> screen_row list \<Rightarrow> scrollback \<Rightarrow> scrollback option" where
  "push_rows e rs sb = foldM (push_row e) rs sb"

definition sb_clear :: "scrollback \<Rightarrow> scrollback" where
  "sb_clear sb = sb\<lparr>sb_content_row_origin := sb_screen_row_origin sb, sb_lines := [],
     sb_line_row_starts := [], sb_charged_bytes := 0, sb_active_oversize_line := None\<rparr>"

fun sb_reflow_loop ::
  "env \<Rightarrow> nat \<Rightarrow> logical_line list \<Rightarrow> nat list \<Rightarrow> nat \<Rightarrow> nat \<Rightarrow> logical_line list \<times> nat list \<times> nat \<times> nat" where
  "sb_reflow_loop e cols (l # ls) (st # sts) cursor charged =
     (let l' = line_reflow e cols l;
          charged = sat_add (charged - l_charged_bytes l) (l_charged_bytes l');
          (ls', sts', cursor', charged') =
            sb_reflow_loop e cols ls sts (sat_add cursor (l_physical_rows l')) charged
      in (l' # ls', cursor # sts', cursor', charged'))"
| "sb_reflow_loop e cols ls sts cursor charged = (ls, sts, cursor, charged)"

definition sb_reflow :: "env \<Rightarrow> nat \<Rightarrow> scrollback \<Rightarrow> scrollback" where
  "sb_reflow e cols sb =
     (let (ls, sts, cursor, charged) =
        sb_reflow_loop e cols (sb_lines sb) (sb_line_row_starts sb) (sb_content_row_origin sb) (sb_charged_bytes sb)
      in sb\<lparr>sb_lines := ls, sb_line_row_starts := sts, sb_screen_row_origin := cursor,
            sb_charged_bytes := charged\<rparr>)"

definition total_physical_rows :: "scrollback \<Rightarrow> nat" where
  "total_physical_rows sb = sb_screen_row_origin sb - sb_content_row_origin sb"

section \<open>Looking rows up\<close>

function search_loop :: "nat list \<Rightarrow> nat \<Rightarrow> nat \<Rightarrow> nat \<Rightarrow> nat option" where
  "search_loop starts target low high =
     (if low < high then
        let mid = low + (high - low) div 2 in
        (case rd starts mid of
           None \<Rightarrow> None
         | Some x \<Rightarrow> if x \<le> target then search_loop starts target (mid + 1) high
                    else search_loop starts target low mid)
      else Some low)"
  by pat_completeness auto
termination
  by (relation "measure (\<lambda>(_, _, low, high). high - low)") auto

declare search_loop.simps [simp del]

definition line_index_for_absolute_row :: "scrollback \<Rightarrow> nat \<Rightarrow> nat option option" where
  "line_index_for_absolute_row sb target =
     (if sb_line_row_starts sb = [] then Some None
      else do { low \<leftarrow> search_loop (sb_line_row_starts sb) target 0 (length (sb_line_row_starts sb));
                Some (checked_sub low 1) })"

text \<open>The line a retained physical row belongs to, and the row within it.\<close>

definition locate_row :: "scrollback \<Rightarrow> nat \<Rightarrow> (nat \<times> logical_line \<times> nat) option option" where
  "locate_row sb target = do {
     found \<leftarrow> line_index_for_absolute_row sb target;
     case found of
       None \<Rightarrow> Some None
     | Some index \<Rightarrow> do {
         line \<leftarrow> rd (sb_lines sb) index;
         start \<leftarrow> rd (sb_line_row_starts sb) index;
         local \<leftarrow> checked_sub target start;
         Some (Some (index, line, local)) } }"

definition physical_row_cells :: "scrollback \<Rightarrow> nat \<Rightarrow> cell list option option" where
  "physical_row_cells sb r = do {
     found \<leftarrow> locate_row sb (sat_add (sb_content_row_origin sb) r);
     case found of None \<Rightarrow> Some None | Some (_, line, local) \<Rightarrow> line_physical_row line local }"

definition physical_row_soft_wrapped :: "scrollback \<Rightarrow> nat \<Rightarrow> bool option option" where
  "physical_row_soft_wrapped sb r = do {
     found \<leftarrow> locate_row sb (sat_add (sb_content_row_origin sb) r);
     case found of None \<Rightarrow> Some None
     | Some (_, line, local) \<Rightarrow> Some (line_physical_row_soft_wrapped line local) }"

definition line_and_offset_at :: "scrollback \<Rightarrow> nat \<Rightarrow> nat \<Rightarrow> logical_anchor option option" where
  "line_and_offset_at sb absolute_row col =
     (case checked_add (sb_content_row_origin sb) absolute_row of
        None \<Rightarrow> Some None
      | Some target \<Rightarrow> do {
          found \<leftarrow> locate_row sb target;
          case found of
            None \<Rightarrow> Some None
          | Some (index, line, r) \<Rightarrow>
              Some (if r < l_physical_rows line
                    then Some ((anchor_for_row line r col)\<lparr>a_line_index_hint := index\<rparr>) else None) })"

fun position :: "('a \<Rightarrow> bool) \<Rightarrow> 'a list \<Rightarrow> nat option" where
  "position P [] = None"
| "position P (x # xs) = (if P x then Some 0 else map_option Suc (position P xs))"

definition anchor_line_index :: "scrollback \<Rightarrow> logical_anchor \<Rightarrow> nat option" where
  "anchor_line_index sb a =
     (case rd (sb_lines sb) (a_line_index_hint a) of
        Some line \<Rightarrow> if l_id line = a_line_id a then Some (a_line_index_hint a)
                     else position (\<lambda>l. l_id l = a_line_id a) (sb_lines sb)
      | None \<Rightarrow> position (\<lambda>l. l_id l = a_line_id a) (sb_lines sb))"

definition resolve_anchor :: "scrollback \<Rightarrow> logical_anchor \<Rightarrow> (nat \<times> nat) option option" where
  "resolve_anchor sb a =
     (case anchor_line_index sb a of
        None \<Rightarrow> Some None
      | Some index \<Rightarrow> do {
          line \<leftarrow> rd (sb_lines sb) index;
          if a_end_boundary a \<and> a_trimmed_offset_at_capture a < l_trimmed_offset line
             \<and> a_offset a \<le> l_trimmed_offset line
          then Some None
          else do {
            found \<leftarrow> locate_offset line (a_offset a) (a_end_boundary a);
            case found of
              None \<Rightarrow> Some None
            | Some (r, col) \<Rightarrow> do {
                start \<leftarrow> rd (sb_line_row_starts sb) index;
                Some (case checked_sub start (sb_content_row_origin sb) of
                        None \<Rightarrow> None
                      | Some absolute \<Rightarrow> Some (col, absolute + r)) } } })"

section \<open>Splitting the tail off\<close>

definition line_rows :: "logical_line \<Rightarrow> nat list \<Rightarrow> screen_row list option" where
  "line_rows l = mapM (\<lambda>r. do {
     found \<leftarrow> line_physical_row l r;
     cs \<leftarrow> found;
     Some \<lparr>sr_cells = cs, sr_soft_wrapped = (r + 1 \<noteq> l_physical_rows l \<or> \<not> l_hard_break l)\<rparr> })"

definition keep_prefix :: "env \<Rightarrow> nat \<Rightarrow> logical_line \<Rightarrow> logical_line option" where
  "keep_prefix e keep_rows l = do {
     i \<leftarrow> checked_sub keep_rows 1;
     keep_cell_end \<leftarrow> rd (l_row_ends l) i;
     tail_cells \<leftarrow> rd_range (l_cells l) keep_cell_end (length (l_cells l));
     let cs = take keep_cell_end (l_cells l);
     let ends = take keep_rows (l_row_ends l);
     Some (recalculate_charge e (l\<lparr>
       l_cells := cs, l_row_ends := ends,
       l_cell_capacity := vec_shrink e (l_cell_capacity l) (length cs),
       l_row_end_capacity := vec_shrink e (l_row_end_capacity l) (length ends),
       l_physical_rows := keep_rows, l_hard_break := False,
       l_cell_owned_bytes := l_cell_owned_bytes l - owned_sum tail_cells\<rparr>)) }"

text \<open>The loop, on the reversed lines and row starts (\<open>pop_back\<close> is the head); \<open>segments\<close> holds the
  segments in the order they are pushed.\<close>

fun split_loop ::
  "env \<Rightarrow> nat \<Rightarrow> logical_line list \<Rightarrow> nat list \<Rightarrow> nat \<Rightarrow> screen_row list list \<Rightarrow>
     (logical_line list \<times> nat list \<times> nat \<times> screen_row list list) option" where
  "split_loop e remaining [] starts charged segments = Some ([], starts, charged, segments)"
| "split_loop e remaining (l # ls) starts charged segments =
     (if remaining = 0 then Some (l # ls, starts, charged, segments)
      else let charged = charged - l_charged_bytes l in
        if l_physical_rows l \<le> remaining then do {
          segment \<leftarrow> line_rows l [0..<l_physical_rows l];
          split_loop e (remaining - l_physical_rows l) ls (tl starts) charged (segments @ [segment]) }
        else do {
          let keep_rows = l_physical_rows l - remaining;
          segment \<leftarrow> line_rows l [keep_rows..<l_physical_rows l];
          kept \<leftarrow> keep_prefix e keep_rows l;
          line_start \<leftarrow> (case starts of [] \<Rightarrow> None | st # _ \<Rightarrow> Some st);
          Some (kept # ls, line_start # tl starts, sat_add charged (l_charged_bytes kept), segments @ [segment]) })"

definition split_off_tail :: "env \<Rightarrow> nat \<Rightarrow> scrollback \<Rightarrow> (screen_row list \<times> scrollback) option" where
  "split_off_tail e n sb = do {
     (ls, starts, charged, segments) \<leftarrow>
       split_loop e n (rev (sb_lines sb)) (rev (sb_line_row_starts sb)) (sb_charged_bytes sb) [];
     let rs = concat (rev segments);
     sb \<leftarrow> enforce_limit e (sb\<lparr>sb_lines := rev ls, sb_line_row_starts := rev starts, sb_charged_bytes := charged\<rparr>);
     Some (rs, sb\<lparr>sb_screen_row_origin := sb_screen_row_origin sb - length rs\<rparr>) }"

section \<open>Statistics and recovery\<close>

record scrollback_stats =
  st_limit_bytes :: nat
  st_charged_bytes :: nat
  st_logical_lines :: nat
  st_physical_rows :: nat
  st_content_row_origin :: nat
  st_screen_row_origin :: nat
  st_evicted_lines :: nat
  st_oversize_lines :: nat

definition sb_stats :: "scrollback \<Rightarrow> scrollback_stats" where
  "sb_stats sb =
     \<lparr>st_limit_bytes = sb_limit_bytes sb, st_charged_bytes = sb_charged_bytes sb,
      st_logical_lines = length (sb_lines sb), st_physical_rows = total_physical_rows sb,
      st_content_row_origin = sb_content_row_origin sb,
      st_screen_row_origin = sb_screen_row_origin sb,
      st_evicted_lines = sb_evicted_lines sb, st_oversize_lines = sb_oversize_lines sb\<rparr>"

definition width_sum :: "cell list \<Rightarrow> nat" where
  "width_sum cs = sum_list (map (\<lambda>c. width_columns (c_width c)) cs)"

fun line_rows_valid :: "nat \<Rightarrow> cell list \<Rightarrow> nat \<Rightarrow> nat list \<Rightarrow> bool" where
  "line_rows_valid cols cs previous_end [] = True"
| "line_rows_valid cols cs previous_end (row_end # ends) =
     (\<not> (row_end < previous_end \<or> length cs < row_end) \<and>
      (let segment = slice previous_end (row_end - previous_end) cs
       in (\<forall>c \<in> set segment. cell_valid c) \<and>
          (\<forall>i < length segment. pair_valid (length segment) segment i) \<and>
          width_sum segment \<le> cols) \<and>
      line_rows_valid cols cs row_end ends)"

text \<open>\<open>LogicalLine::validate_recovery_state\<close> and \<open>Scrollback::validate_recovery_state\<close>: whether they
  return \<open>Ok\<close>.\<close>

definition line_valid :: "env \<Rightarrow> nat \<Rightarrow> logical_line \<Rightarrow> bool" where
  "line_valid e cols l \<longleftrightarrow>
     l_physical_rows l \<noteq> 0 \<and> length (l_row_ends l) = l_physical_rows l \<and>
     \<not> l_cell_capacity l < length (l_cells l) \<and> \<not> l_row_end_capacity l < length (l_row_ends l) \<and>
     (if l_row_ends l = [] then 0 else last (l_row_ends l)) = length (l_cells l) \<and>
     line_rows_valid cols (l_cells l) 0 (l_row_ends l) \<and>
     l_cell_owned_bytes l = sum_list (map cell_owned_charge (l_cells l)) \<and>
     l_charged_bytes l =
       compact_line_charge e (l_cell_capacity l) (l_row_end_capacity l) (l_cell_owned_bytes l)"

fun expected_starts :: "nat \<Rightarrow> logical_line list \<Rightarrow> nat list \<times> nat" where
  "expected_starts cursor [] = ([], cursor)"
| "expected_starts cursor (l # ls) =
     (let (sts, stop) = expected_starts (sat_add cursor (l_physical_rows l)) ls in (cursor # sts, stop))"

definition scrollback_valid :: "env \<Rightarrow> nat \<Rightarrow> scrollback \<Rightarrow> bool" where
  "scrollback_valid e cols sb \<longleftrightarrow>
     length (sb_line_row_starts sb) = length (sb_lines sb) \<and>
     (\<forall>l \<in> set (sb_lines sb). line_valid e cols l) \<and>
     (let (sts, stop) = expected_starts (sb_content_row_origin sb) (sb_lines sb)
      in sb_line_row_starts sb = sts \<and> sb_screen_row_origin sb = stop) \<and>
     sb_charged_bytes sb = foldl sat_add 0 (map l_charged_bytes (sb_lines sb)) \<and>
     \<not> sb_limit_bytes sb < sb_charged_bytes sb \<and>
     \<not> (sb_lines sb = [] \<and> sb_active_oversize_line sb \<noteq> None) \<and>
     (case sb_active_oversize_line sb of
        None \<Rightarrow> True
      | Some (i, trimmed) \<Rightarrow>
          (case filter (\<lambda>l. l_id l = i) (sb_lines sb) of
             [] \<Rightarrow> False | ls \<Rightarrow> trimmed = l_trimmed_offset (last ls)))"

end
