(* ===== verification/Buffer.thy ===== *)
theory Buffer
  imports History
begin

text \<open>
  One screen buffer of \<open>terminal.rs\<close> (\<open>BufferState\<close>): the screen, its cursor, margins, pending wrap,
  grapheme anchor and saved cursors; construction, the rectangular resize, the logical reflow of the
  primary buffer, reset and recovery validation.
\<close>

section \<open>State\<close>

datatype protection_source = ProtNone | ProtDec | ProtIso

record saved_dec_state =
  sd_cursor :: cursor
  sd_pending_wrap :: bool
  sd_attributes :: attributes
  sd_foreground :: color
  sd_background :: color
  sd_origin_mode :: bool
  sd_protected :: bool
  sd_protection :: protection_source

record saved_ansi_cursor =
  sa_cursor :: cursor
  sa_protected :: bool
  sa_protection :: protection_source

record buffer =
  b_screen :: screen
  b_cursor :: cursor
  b_scroll_top :: nat
  b_scroll_bottom :: nat
  b_scroll_left :: nat
  b_scroll_right :: nat
  b_pending_wrap :: bool
  b_grapheme_anchor :: "cursor option"
  b_dec_saved :: "saved_dec_state option"
  b_ansi_saved :: "saved_ansi_cursor option"

record content_position =
  cp_column :: nat
  cp_absolute_row :: nat

abbreviation b_dimensions :: "buffer \<Rightarrow> dimensions" where
  "b_dimensions b \<equiv> s_dimensions (b_screen b)"

definition buffer_new :: "env \<Rightarrow> dimensions \<Rightarrow> (terminal_error + buffer) option" where
  "buffer_new e d =
     (case screen_new e d of
        Inl err \<Rightarrow> Some (Inl err)
      | Inr s \<Rightarrow> do {
          bottom \<leftarrow> checked_sub (rows d) 1;
          right \<leftarrow> checked_sub (columns d) 1;
          Some (Inr \<lparr>b_screen = s, b_cursor = home, b_scroll_top = 0, b_scroll_bottom = bottom,
                     b_scroll_left = 0, b_scroll_right = right, b_pending_wrap = False,
                     b_grapheme_anchor = None, b_dec_saved = None, b_ansi_saved = None\<rparr>) })"

section \<open>Resizing\<close>

definition resized_horizontal_margins :: "buffer \<Rightarrow> dimensions \<Rightarrow> (nat \<times> nat) option" where
  "resized_horizontal_margins b d = do {
     last_column \<leftarrow> checked_sub (columns d) 1;
     let was_full_width = (b_scroll_left b = 0 \<and> b_scroll_right b + 1 = columns (b_dimensions b));
     let left = min (b_scroll_left b) last_column;
     let right = min (b_scroll_right b) last_column;
     Some (if was_full_width \<or> (right \<le> left \<and> 1 < columns d) then (0, last_column) else (left, right)) }"

definition resized_vertical_margins :: "buffer \<Rightarrow> dimensions \<Rightarrow> (nat \<times> nat) option" where
  "resized_vertical_margins b d = do {
     last_row \<leftarrow> checked_sub (rows d) 1;
     let was_full_screen = (b_scroll_top b = 0 \<and> b_scroll_bottom b + 1 = rows (b_dimensions b));
     let region_top = min (b_scroll_top b) last_row;
     let region_bottom = min (b_scroll_bottom b) last_row;
     Some (if was_full_screen \<or> (region_bottom \<le> region_top \<and> 1 < rows d) then (0, last_row)
           else (region_top, region_bottom)) }"

text \<open>\<open>Ord::clamp\<close> panics when the bounds are crossed.\<close>

definition clamp :: "nat \<Rightarrow> nat \<Rightarrow> nat \<Rightarrow> nat option" where
  "clamp x lo hi = (if lo \<le> hi then Some (min (max x lo) hi) else None)"

definition clamp_cursor :: "dimensions \<Rightarrow> cursor \<Rightarrow> cursor option" where
  "clamp_cursor d c = do {
     last_column \<leftarrow> checked_sub (columns d) 1;
     last_row \<leftarrow> checked_sub (rows d) 1;
     Some \<lparr>column = min (column c) last_column, row = min (row c) last_row\<rparr> }"

definition clamp_dec :: "dimensions \<Rightarrow> buffer \<Rightarrow> saved_dec_state \<Rightarrow> saved_dec_state option" where
  "clamp_dec d b saved = do {
     c \<leftarrow> clamp_cursor d (sd_cursor saved);
     c \<leftarrow> (if sd_origin_mode saved
           then do { r \<leftarrow> clamp (row c) (b_scroll_top b) (b_scroll_bottom b); Some (c\<lparr>row := r\<rparr>) }
           else Some c);
     Some (saved\<lparr>sd_cursor := c,
                 sd_pending_wrap := (sd_pending_wrap saved \<and> column c + 1 = columns d)\<rparr>) }"

definition clamp_ansi :: "dimensions \<Rightarrow> saved_ansi_cursor \<Rightarrow> saved_ansi_cursor option" where
  "clamp_ansi d saved = do { c \<leftarrow> clamp_cursor d (sa_cursor saved); Some (saved\<lparr>sa_cursor := c\<rparr>) }"

definition option_mapM :: "('a \<Rightarrow> 'b option) \<Rightarrow> 'a option \<Rightarrow> 'b option option" where
  "option_mapM f m = (case m of None \<Rightarrow> Some None | Some x \<Rightarrow> map_option Some (f x))"

definition clamp_saved_states :: "dimensions \<Rightarrow> buffer \<Rightarrow> buffer option" where
  "clamp_saved_states d b = do {
     dec \<leftarrow> option_mapM (clamp_dec d b) (b_dec_saved b);
     ansi \<leftarrow> option_mapM (clamp_ansi d) (b_ansi_saved b);
     Some (b\<lparr>b_dec_saved := dec, b_ansi_saved := ansi\<rparr>) }"

definition grapheme_anchor_survives_resize :: "buffer \<Rightarrow> dimensions \<Rightarrow> cursor \<Rightarrow> bool" where
  "grapheme_anchor_survives_resize b d anchor =
     (if columns d \<le> column anchor \<or> rows d \<le> row anchor then False
      else case cell_ref (b_screen b) (column anchor) (row anchor) of
             None \<Rightarrow> False
           | Some c \<Rightarrow>
               (case c_width c of
                  Single \<Rightarrow> True
                | Double \<Rightarrow> column anchor + 1 < columns d \<and>
                    (case cell_ref (b_screen b) (column anchor + 1) (row anchor) of
                       None \<Rightarrow> False | Some n \<Rightarrow> is_continuation n)
                | Continuation \<Rightarrow> False))"

definition buffer_resized :: "env \<Rightarrow> dimensions \<Rightarrow> buffer \<Rightarrow> (terminal_error + buffer) option" where
  "buffer_resized e d b = do {
     (left, right) \<leftarrow> resized_horizontal_margins b d;
     resized \<leftarrow> screen_resized e (b_screen b) d;
     case resized of
       Inl err \<Rightarrow> Some (Inl err)
     | Inr s \<Rightarrow> do {
         c \<leftarrow> clamp_cursor d (b_cursor b);
         (region_top, region_bottom) \<leftarrow> resized_vertical_margins b d;
         b' \<leftarrow> clamp_saved_states d
           (b\<lparr>b_screen := s, b_cursor := c, b_scroll_top := region_top, b_scroll_bottom := region_bottom,
              b_scroll_left := left, b_scroll_right := right,
              b_pending_wrap := (b_pending_wrap b \<and> column c + 1 = columns d),
              b_grapheme_anchor :=
                (case b_grapheme_anchor b of None \<Rightarrow> None
                 | Some a \<Rightarrow> if grapheme_anchor_survives_resize b d a then Some a else None)\<rparr>);
         Some (Inr b') } }"

section \<open>Logical reflow of the primary buffer\<close>

definition position_row :: "nat \<Rightarrow> nat \<Rightarrow> nat \<Rightarrow> content_position \<Rightarrow> nat option" where
  "position_row rows_before_screen content_origin screen_origin p =
     (if cp_absolute_row p < screen_origin then do {
        r \<leftarrow> checked_sub (cp_absolute_row p) content_origin;
        if r < rows_before_screen then Some r else None }
      else checked_add rows_before_screen (cp_absolute_row p - screen_origin))"

definition position_anchor ::
  "scrollback \<Rightarrow> nat \<Rightarrow> nat option \<Rightarrow> nat \<Rightarrow> logical_anchor option option" where
  "position_anchor combined combined_rows relative col =
     (case relative of
        None \<Rightarrow> Some None
      | Some r \<Rightarrow> if r < combined_rows then line_and_offset_at combined r col else Some None)"

definition resolve_option :: "scrollback \<Rightarrow> logical_anchor option \<Rightarrow> (nat \<times> nat) option option" where
  "resolve_option sb a = (case a of None \<Rightarrow> Some None | Some a \<Rightarrow> resolve_anchor sb a)"

definition final_position ::
  "dimensions \<Rightarrow> nat \<Rightarrow> nat \<Rightarrow> nat \<Rightarrow> nat \<Rightarrow> (nat \<times> nat) option \<Rightarrow> content_position option" where
  "final_position d evicted_rows scrollback_rows retained_origin screen_origin p = do {
     (col, relative) \<leftarrow> p;
     adjusted \<leftarrow> checked_sub relative evicted_rows;
     let absolute = (if adjusted < scrollback_rows then sat_add retained_origin adjusted
                     else sat_add screen_origin (adjusted - scrollback_rows));
     if adjusted < scrollback_rows + rows d
     then Some \<lparr>cp_column = col, cp_absolute_row = absolute\<rparr> else None }"

definition reflow_cursor :: "dimensions \<Rightarrow> nat \<Rightarrow> nat \<Rightarrow> (nat \<times> nat) option \<Rightarrow> cursor option" where
  "reflow_cursor d evicted_rows scrollback_rows resolved = do {
     last_row \<leftarrow> checked_sub (rows d) 1;
     last_column \<leftarrow> checked_sub (columns d) 1;
     let default_cursor = \<lparr>column = 0, row = last_row\<rparr>;
     Some (case resolved of
             None \<Rightarrow> default_cursor
           | Some (col, r) \<Rightarrow>
               (case checked_sub r evicted_rows of
                  None \<Rightarrow> default_cursor
                | Some absolute \<Rightarrow>
                    if scrollback_rows \<le> absolute
                    then \<lparr>column = min col last_column, row = min (absolute - scrollback_rows) last_row\<rparr>
                    else default_cursor)) }"

text \<open>Folding, reflow and split: the rows of the new screen, the new history, where the cursor and
  the tracked positions went.\<close>

record reflow_result =
  rf_tail :: "screen_row list"
  rf_scrollback :: scrollback
  rf_cursor :: cursor
  rf_positions :: "content_position option list"

definition reflow_content ::
  "env \<Rightarrow> dimensions \<Rightarrow> scrollback \<Rightarrow> content_position list \<Rightarrow> buffer \<Rightarrow> reflow_result option" where
  "reflow_content e d sb positions b = do {
     let rows_before_screen = total_physical_rows sb;
     n \<leftarrow> occupied_row_count (b_screen b);
     let content_rows = min (rows (b_dimensions b)) (max n (row (b_cursor b) + 1));
     all_rows \<leftarrow> to_rows (b_screen b);
     combined \<leftarrow> set_limit_bytes e usize_max sb;
     combined \<leftarrow> push_rows e (take content_rows all_rows) combined;
     last_content \<leftarrow> checked_sub content_rows 1;
     cursor_anchor \<leftarrow> line_and_offset_at combined
       (rows_before_screen + min (row (b_cursor b)) last_content) (column (b_cursor b));
     position_anchors \<leftarrow> mapM (\<lambda>p. position_anchor combined (total_physical_rows combined)
         (position_row rows_before_screen (sb_content_row_origin sb) (sb_screen_row_origin sb) p)
         (cp_column p)) positions;
     let combined = (if columns d \<noteq> columns (b_dimensions b) then sb_reflow e (columns d) combined
                     else combined);
     resolved_cursor \<leftarrow> resolve_option combined cursor_anchor;
     resolved_positions \<leftarrow> mapM (resolve_option combined) position_anchors;
     let origin_before_split = sb_content_row_origin combined;
     (tail_rows, combined) \<leftarrow> split_off_tail e (rows d) combined;
     combined \<leftarrow> set_limit_bytes e (sb_limit_bytes sb) combined;
     let scrollback_rows = total_physical_rows combined;
     let evicted_rows = sb_content_row_origin combined - origin_before_split;
     c \<leftarrow> reflow_cursor d evicted_rows scrollback_rows resolved_cursor;
     Some \<lparr>rf_tail = tail_rows, rf_scrollback = combined, rf_cursor = c,
           rf_positions = map (final_position d evicted_rows scrollback_rows
             (sb_content_row_origin combined) (sb_screen_row_origin combined)) resolved_positions\<rparr> }"

text \<open>\<open>BufferState::reflowed\<close> with the history it leaves behind.  It takes the history out of the
  terminal before the new screen is allocated, so a failed allocation leaves an empty one.\<close>

definition buffer_reflowed ::
  "env \<Rightarrow> dimensions \<Rightarrow> scrollback \<Rightarrow> content_position list \<Rightarrow> buffer \<Rightarrow>
     (scrollback \<times> (terminal_error + (buffer \<times> content_position option list))) option" where
  "buffer_reflowed e d sb positions b = do {
     r \<leftarrow> reflow_content e d sb positions b;
     built \<leftarrow> from_rows e d (rf_tail r);
     case built of
       Inl err \<Rightarrow> Some (scrollback_new (sb_limit_bytes sb), Inl err)
     | Inr s \<Rightarrow> do {
         (region_top, region_bottom) \<leftarrow> resized_vertical_margins b d;
         (left, right) \<leftarrow> resized_horizontal_margins b d;
         let c = rf_cursor r;
         b' \<leftarrow> clamp_saved_states d
           (b\<lparr>b_screen := s, b_cursor := c, b_scroll_top := region_top, b_scroll_bottom := region_bottom,
              b_scroll_left := left, b_scroll_right := right,
              b_pending_wrap := (b_pending_wrap b \<and> column c + 1 = columns d),
              b_grapheme_anchor := None\<rparr>);
         Some (rf_scrollback r, Inr (b', rf_positions r)) } }"

section \<open>Reset and recovery\<close>

definition buffer_reset :: "env \<Rightarrow> buffer \<Rightarrow> buffer option" where
  "buffer_reset e b = do {
     bottom \<leftarrow> checked_sub (rows (b_dimensions b)) 1;
     right \<leftarrow> checked_sub (columns (b_dimensions b)) 1;
     Some (b\<lparr>b_screen := clear_all (blank_cell e) (b_screen b), b_cursor := home,
             b_scroll_top := 0, b_scroll_bottom := bottom, b_scroll_left := 0, b_scroll_right := right,
             b_pending_wrap := False, b_grapheme_anchor := None, b_dec_saved := None,
             b_ansi_saved := None\<rparr>) }"

definition cursor_in :: "dimensions \<Rightarrow> cursor \<Rightarrow> bool" where
  "cursor_in d c \<longleftrightarrow> \<not> (columns d \<le> column c \<or> rows d \<le> row c)"

definition scroll_region_valid :: "nat \<Rightarrow> nat \<Rightarrow> nat \<Rightarrow> bool" where
  "scroll_region_valid start stop limit \<longleftrightarrow> \<not> (limit \<le> start \<or> limit \<le> stop \<or> stop < start)"

definition buffer_valid :: "buffer \<Rightarrow> bool" where
  "buffer_valid b \<longleftrightarrow>
     screen_valid (b_screen b) \<and> cursor_in (b_dimensions b) (b_cursor b) \<and>
     scroll_region_valid (b_scroll_top b) (b_scroll_bottom b) (rows (b_dimensions b)) \<and>
     scroll_region_valid (b_scroll_left b) (b_scroll_right b) (columns (b_dimensions b)) \<and>
     \<not> (b_pending_wrap b \<and> column (b_cursor b) + 1 \<noteq> columns (b_dimensions b)) \<and>
     (case b_grapheme_anchor b of None \<Rightarrow> True | Some a \<Rightarrow> cursor_in (b_dimensions b) a) \<and>
     (case b_dec_saved b of None \<Rightarrow> True | Some sd \<Rightarrow> cursor_in (b_dimensions b) (sd_cursor sd)) \<and>
     (case b_ansi_saved b of None \<Rightarrow> True | Some sa \<Rightarrow> cursor_in (b_dimensions b) (sa_cursor sa))"

end
