(* ===== verification/Terminal_Core.thy ===== *)
theory Terminal_Core
  imports Buffer
begin

text \<open>
  The state of \<open>Terminal\<close> (\<open>terminal.rs\<close>), its construction, the margins and bounds every operation
  asks for, the scrolling primitives, and printing: grapheme extension, wrapping, insert mode and the
  cluster write.  \<open>None\<close> is a panic anywhere below.
\<close>

section \<open>State\<close>

datatype active_screen = Primary | Alternate

record terminal =
  t_parser :: parser
  t_utf8 :: utf8_decoder
  t_primary :: buffer
  t_alternate :: "buffer option"
  t_active_screen :: active_screen
  t_screen_generation :: nat
  t_modes :: terminal_modes
  t_cursor_style :: cursor_style
  t_last_graphic_character :: "scalar option"
  t_cursor_style_set :: bool
  t_tab_stops :: "bool list"
  t_current_attributes :: attributes
  t_current_protected :: bool
  t_protection :: protection_source
  t_current_foreground :: color
  t_current_background :: color
  t_title :: str
  t_current_hyperlink :: "str option"
  t_current_hyperlink_cells_remaining :: nat
  t_color_scheme :: color_scheme
  t_reply_queue :: "u8 list"
  t_input_queue :: "u8 list"
  t_reply_queue_overflowed :: bool
  t_input_queue_overflowed :: bool
  t_scrollback :: scrollback

definition default_tab_stop :: "nat \<Rightarrow> bool" where
  "default_tab_stop col \<longleftrightarrow> col \<noteq> 0 \<and> col mod 8 = 0"

definition default_tab_stops :: "dimensions \<Rightarrow> bool list" where
  "default_tab_stops d = map default_tab_stop [0..<columns d]"

definition resized_tab_stops :: "bool list \<Rightarrow> dimensions \<Rightarrow> bool list" where
  "resized_tab_stops existing d =
     map (\<lambda>col. case rd existing col of Some b \<Rightarrow> b | None \<Rightarrow> default_tab_stop col) [0..<columns d]"

definition initial_screen_generation :: nat where
  "initial_screen_generation = 1"

definition with_scrollback_limit :: "env \<Rightarrow> dimensions \<Rightarrow> nat \<Rightarrow> (terminal_error + terminal) option" where
  "with_scrollback_limit e d limit = do {
     made \<leftarrow> buffer_new e d;
     Some (case made of
       Inl err \<Rightarrow> Inl err
     | Inr b \<Rightarrow> Inr
         \<lparr>t_parser = parser_new, t_utf8 = utf8_new, t_primary = b, t_alternate = None,
          t_active_screen = Primary, t_screen_generation = initial_screen_generation,
          t_modes = default_modes, t_cursor_style = BlinkingBlock, t_last_graphic_character = None,
          t_cursor_style_set = False, t_tab_stops = default_tab_stops d,
          t_current_attributes = NONE, t_current_protected = False, t_protection = ProtNone,
          t_current_foreground = Default, t_current_background = Default, t_title = [],
          t_current_hyperlink = None, t_current_hyperlink_cells_remaining = 0,
          t_color_scheme = default_color_scheme, t_reply_queue = [], t_input_queue = [],
          t_reply_queue_overflowed = False, t_input_queue_overflowed = False,
          t_scrollback = scrollback_new limit\<rparr>) }"

definition terminal_new :: "env \<Rightarrow> dimensions \<Rightarrow> (terminal_error + terminal) option" where
  "terminal_new e d = with_scrollback_limit e d DEFAULT_SCROLLBACK_LIMIT_BYTES"

section \<open>The active buffer\<close>

definition t_dimensions :: "terminal \<Rightarrow> dimensions" where
  "t_dimensions t = b_dimensions (t_primary t)"

abbreviation t_columns :: "terminal \<Rightarrow> nat" where
  "t_columns t \<equiv> columns (t_dimensions t)"

abbreviation t_rows :: "terminal \<Rightarrow> nat" where
  "t_rows t \<equiv> rows (t_dimensions t)"

definition active_buffer :: "terminal \<Rightarrow> buffer option" where
  "active_buffer t = (case t_active_screen t of Primary \<Rightarrow> Some (t_primary t) | Alternate \<Rightarrow> t_alternate t)"

definition set_active :: "buffer \<Rightarrow> terminal \<Rightarrow> terminal" where
  "set_active b t =
     (case t_active_screen t of Primary \<Rightarrow> t\<lparr>t_primary := b\<rparr> | Alternate \<Rightarrow> t\<lparr>t_alternate := Some b\<rparr>)"

text \<open>\<open>active_buffer_mut\<close>: the buffer is changed in place.\<close>

definition with_active :: "(buffer \<Rightarrow> buffer option) \<Rightarrow> terminal \<Rightarrow> terminal option" where
  "with_active f t = do { b \<leftarrow> active_buffer t; b \<leftarrow> f b; Some (set_active b t) }"

definition on_screen :: "(screen \<Rightarrow> screen option) \<Rightarrow> buffer \<Rightarrow> buffer option" where
  "on_screen f b = do { s \<leftarrow> f (b_screen b); Some (b\<lparr>b_screen := s\<rparr>) }"

definition t_cursor :: "terminal \<Rightarrow> cursor" where
  "t_cursor t = (case t_active_screen t of
      Primary \<Rightarrow> b_cursor (t_primary t)
    | Alternate \<Rightarrow> (case t_alternate t of Some b \<Rightarrow> b_cursor b | None \<Rightarrow> b_cursor (t_primary t)))"

definition set_column :: "nat \<Rightarrow> buffer \<Rightarrow> buffer" where
  "set_column col b = b\<lparr>b_cursor := (b_cursor b)\<lparr>column := col\<rparr>\<rparr>"

definition set_row :: "nat \<Rightarrow> buffer \<Rightarrow> buffer" where
  "set_row r b = b\<lparr>b_cursor := (b_cursor b)\<lparr>row := r\<rparr>\<rparr>"

definition clear_pending_wrap :: "terminal \<Rightarrow> terminal option" where
  "clear_pending_wrap = with_active (\<lambda>b. Some (b\<lparr>b_pending_wrap := False\<rparr>))"

definition clear_grapheme_anchor :: "terminal \<Rightarrow> terminal option" where
  "clear_grapheme_anchor = with_active (\<lambda>b. Some (b\<lparr>b_grapheme_anchor := None\<rparr>))"

definition advance_screen_generation :: "terminal \<Rightarrow> terminal" where
  "advance_screen_generation t = t\<lparr>t_screen_generation := sat_add (t_screen_generation t) 1\<rparr>"

definition erase_cell :: "env \<Rightarrow> terminal \<Rightarrow> cell" where
  "erase_cell e t =
     \<lparr>c_text = [0x20], c_capacity = const_cap e [0x20], c_width = Single,
      c_foreground = t_current_foreground t, c_background = t_current_background t,
      c_attributes = t_current_attributes t, c_hyperlink = None\<rparr>"

section \<open>Margins and bounds\<close>

definition horizontal_margins :: "terminal \<Rightarrow> column_span option" where
  "horizontal_margins t =
     (if left_right_margin_mode (t_modes t) then do {
        b \<leftarrow> active_buffer t; Some \<lparr>cs_left = b_scroll_left b, cs_right = b_scroll_right b\<rparr> }
      else span_full (t_columns t))"

definition cursor_within_margins :: "terminal \<Rightarrow> bool option" where
  "cursor_within_margins t = do {
     margins \<leftarrow> horizontal_margins t;
     b \<leftarrow> active_buffer t;
     let col = column (b_cursor b);
     Some (cs_left margins \<le> col \<and> col \<le> cs_right margins) }"

definition carriage_return_column :: "terminal \<Rightarrow> nat option" where
  "carriage_return_column t = do {
     margins \<leftarrow> horizontal_margins t;
     b \<leftarrow> active_buffer t;
     Some (if origin_mode (t_modes t) \<or> cs_left margins \<le> column (b_cursor b) then cs_left margins else 0) }"

definition relative_horizontal_bounds :: "terminal \<Rightarrow> (nat \<times> nat) option" where
  "relative_horizontal_bounds t = do {
     margins \<leftarrow> horizontal_margins t;
     b \<leftarrow> active_buffer t;
     let col = column (b_cursor b);
     let left = (if cs_left margins \<le> col then cs_left margins else 0);
     last_column \<leftarrow> checked_sub (t_columns t) 1;
     Some (left, if col \<le> cs_right margins then cs_right margins else last_column) }"

definition vertical_bounds :: "terminal \<Rightarrow> (nat \<times> nat) option" where
  "vertical_bounds t =
     (if origin_mode (t_modes t) then do {
        b \<leftarrow> active_buffer t; Some (b_scroll_top b, b_scroll_bottom b) }
      else do { last_row \<leftarrow> checked_sub (t_rows t) 1; Some (0, last_row) })"

definition relative_vertical_bounds :: "terminal \<Rightarrow> (nat \<times> nat) option" where
  "relative_vertical_bounds t = do {
     b \<leftarrow> active_buffer t;
     let r = row (b_cursor b);
     let first = (if b_scroll_top b \<le> r then b_scroll_top b else 0);
     last_row \<leftarrow> checked_sub (t_rows t) 1;
     Some (first, if r \<le> b_scroll_bottom b then b_scroll_bottom b else last_row) }"

definition wrap_geometry :: "terminal \<Rightarrow> (nat \<times> nat) option" where
  "wrap_geometry t = do {
     within \<leftarrow> cursor_within_margins t;
     if within then do { margins \<leftarrow> horizontal_margins t; Some (cs_right margins + 1, cs_left margins) }
     else Some (t_columns t, 0) }"

section \<open>Scrolling by one line\<close>

definition retains_history :: "column_span \<Rightarrow> terminal \<Rightarrow> bool" where
  "retains_history sp t \<longleftrightarrow>
     t_active_screen t = Primary \<and> b_scroll_top (t_primary t) = 0 \<and>
     b_scroll_bottom (t_primary t) + 1 = t_rows t \<and> cs_left sp = 0 \<and> cs_right sp + 1 = t_columns t"

text \<open>\<open>Screen::scroll_up\<close> on the active buffer's region, and the push of what left the screen into
  the history when this scroll retains it.\<close>

definition scroll_region_up :: "env \<Rightarrow> nat \<Rightarrow> column_span \<Rightarrow> terminal \<Rightarrow> terminal option" where
  "scroll_region_up e count sp t = do {
     let retain = retains_history sp t;
     b \<leftarrow> active_buffer t;
     (removed, s) \<leftarrow> scroll_up e (b_scroll_top b) (b_scroll_bottom b) count (erase_cell e t) sp (b_screen b);
     let t = set_active (b\<lparr>b_screen := s\<rparr>) t;
     if retain then do {
       sb \<leftarrow> push_rows e removed (t_scrollback t);
       Some (t\<lparr>t_scrollback := sb\<rparr>) }
     else Some t }"

definition index :: "env \<Rightarrow> terminal \<Rightarrow> terminal option" where
  "index e t = do {
     sp \<leftarrow> horizontal_margins t;
     within_margins \<leftarrow> cursor_within_margins t;
     b \<leftarrow> active_buffer t;
     if row (b_cursor b) = b_scroll_bottom b then
       (if \<not> within_margins then Some t else scroll_region_up e 1 sp t)
     else if row (b_cursor b) + 1 < t_rows t then
       with_active (\<lambda>b. Some (set_row (row (b_cursor b) + 1) b)) t
     else Some t }"

definition reverse_index :: "env \<Rightarrow> terminal \<Rightarrow> terminal option" where
  "reverse_index e t = do {
     sp \<leftarrow> horizontal_margins t;
     within_margins \<leftarrow> cursor_within_margins t;
     with_active (\<lambda>b.
       if row (b_cursor b) = b_scroll_top b then
         (if \<not> within_margins then Some b
          else on_screen (scroll_down e (b_scroll_top b) (b_scroll_bottom b) 1 (erase_cell e t) sp) b)
       else Some (set_row (row (b_cursor b) - 1) b)) t }"

section \<open>Printing\<close>

definition place_cursor_after_cluster :: "cursor \<Rightarrow> nat \<Rightarrow> nat \<Rightarrow> bool \<Rightarrow> buffer \<Rightarrow> buffer" where
  "place_cursor_after_cluster anchor width wrap_limit wraps b =
     (let b = set_row (row anchor) b
      in if wrap_limit \<le> column anchor + width
         then (set_column (column anchor) b)\<lparr>b_pending_wrap := wraps\<rparr>
         else (set_column (column anchor + width) b)\<lparr>b_pending_wrap := False\<rparr>)"

definition extends_grapheme :: "env \<Rightarrow> str \<Rightarrow> scalar \<Rightarrow> bool" where
  "extends_grapheme e cluster c = (if c < 0x80 then False else graphemes e (cluster @ [c]) = 1)"

definition grapheme_width :: "env \<Rightarrow> str \<Rightarrow> nat" where
  "grapheme_width e cluster = min (str_width e cluster) 2"

text \<open>A cell whose text was cleared and replaced by U+FFFD; \<open>history\<close> is what the text was before.\<close>

definition replacement_cell :: "env \<Rightarrow> str list \<Rightarrow> cell \<Rightarrow> cell" where
  "replacement_cell e history c =
     c\<lparr>c_text := [replacement_character],
       c_capacity := edit_cap e (history @ [[], [replacement_character]]), c_width := Single\<rparr>"

text \<open>Wrapping: the row is marked soft-wrapped, the cursor goes to the wrap home of the next line.\<close>

definition wrap_line :: "env \<Rightarrow> nat \<Rightarrow> nat \<Rightarrow> terminal \<Rightarrow> terminal option" where
  "wrap_line e marked_row home_column t = do {
     t \<leftarrow> with_active (\<lambda>b. do {
            b \<leftarrow> on_screen (mark_soft_wrapped marked_row) b;
            Some ((set_column home_column b)\<lparr>b_pending_wrap := False\<rparr>) }) t;
     index e t }"

text \<open>The three ways a code point joins the cluster at \<open>anchor\<close>: the cluster became too long; it
  became double-width in the last column of a line; or it is rewritten in place.\<close>

definition extend_overlong :: "env \<Rightarrow> cursor \<Rightarrow> cell \<Rightarrow> terminal \<Rightarrow> terminal option" where
  "extend_overlong e anchor c t = do {
     (wrap_limit, _) \<leftarrow> wrap_geometry t;
     with_active (\<lambda>b. do {
       b \<leftarrow> on_screen (replace_cluster e (column anchor) (row anchor) (replacement_cell e [c_text c] c)) b;
       Some (place_cursor_after_cluster anchor 1 wrap_limit (auto_wrap (t_modes t))
               (b\<lparr>b_grapheme_anchor := None, b_pending_wrap := False\<rparr>)) }) t }"

definition extend_at_edge ::
  "env \<Rightarrow> cursor \<Rightarrow> str \<Rightarrow> cell \<Rightarrow> nat \<Rightarrow> nat \<Rightarrow> terminal \<Rightarrow> terminal option" where
  "extend_at_edge e anchor old_text c wrap_limit wrap_home t =
     (if \<not> auto_wrap (t_modes t) then
        with_active (\<lambda>b. do {
          b \<leftarrow> on_screen (replace_cluster e (column anchor) (row anchor)
                 (replacement_cell e [old_text, c_text c] c)) b;
          Some (b\<lparr>b_grapheme_anchor := Some anchor, b_pending_wrap := False\<rparr>) }) t
      else do {
        let linear = row anchor * t_columns t + column anchor;
        let fill = erase_cell e t;
        t \<leftarrow> with_active (on_screen (fill_linear linear (linear + 1) fill)) t;
        t \<leftarrow> wrap_line e (row anchor) wrap_home t;
        let cur = t_cursor t;
        with_active (\<lambda>b. do {
          b \<leftarrow> on_screen (replace_cluster e (column cur) (row cur) c) b;
          Some (place_cursor_after_cluster cur 2 wrap_limit True (b\<lparr>b_grapheme_anchor := Some cur\<rparr>)) }) t })"

definition extend_in_place ::
  "env \<Rightarrow> cursor \<Rightarrow> cell \<Rightarrow> nat \<Rightarrow> nat \<Rightarrow> nat \<Rightarrow> terminal \<Rightarrow> terminal option" where
  "extend_in_place e anchor c old_width new_width wrap_limit t =
     with_active (\<lambda>b. do {
       b \<leftarrow> on_screen (if old_width = new_width then replace_cell (column anchor) (row anchor) c
                       else replace_cluster e (column anchor) (row anchor) c) b;
       Some (place_cursor_after_cluster anchor new_width wrap_limit (auto_wrap (t_modes t))
               (b\<lparr>b_grapheme_anchor := Some anchor\<rparr>)) }) t"

definition try_extend_grapheme :: "env \<Rightarrow> scalar \<Rightarrow> terminal \<Rightarrow> (bool \<times> terminal) option" where
  "try_extend_grapheme e ch t = do {
     b \<leftarrow> active_buffer t;
     case b_grapheme_anchor b of
       None \<Rightarrow> Some (False, t)
     | Some anchor \<Rightarrow>
         (case cell_ref (b_screen b) (column anchor) (row anchor) of
            None \<Rightarrow> Some (False, t)
          | Some c \<Rightarrow>
              if is_continuation c \<or> \<not> extends_grapheme e (c_text c) ch then Some (False, t)
              else if MAX_GRAPHEME_BYTES < sat_add (str_len (c_text c)) (len_utf8 ch) then
                map_option (Pair True) (extend_overlong e anchor c t)
              else do {
                let joined = c_text c @ [ch];
                let old_width = width_columns (c_width c);
                let new_width = grapheme_width e joined;
                if new_width = 0 then Some (True, t)
                else do {
                  let c' = c\<lparr>c_text := joined, c_capacity := edit_cap e [c_text c, joined],
                             c_width := (if new_width = 2 then Double else Single)\<rparr>;
                  (wrap_limit, wrap_home) \<leftarrow> wrap_geometry t;
                  map_option (Pair True)
                    (if old_width = 1 \<and> new_width = 2 \<and> column anchor + 1 = wrap_limit
                     then extend_at_edge e anchor (c_text c) c' wrap_limit wrap_home t
                     else extend_in_place e anchor c' old_width new_width wrap_limit t) } }) }"

text \<open>The colours, attributes and link a printed cell takes; the link's cell budget is spent by one.\<close>

definition spend_hyperlink :: "terminal \<Rightarrow> terminal" where
  "spend_hyperlink t =
     (if 0 < t_current_hyperlink_cells_remaining t then
        let n = t_current_hyperlink_cells_remaining t - 1
        in t\<lparr>t_current_hyperlink_cells_remaining := n,
             t_current_hyperlink := (if n = 0 then None else t_current_hyperlink t)\<rparr>
      else t)"

definition printed_cell :: "env \<Rightarrow> scalar \<Rightarrow> nat \<Rightarrow> terminal \<Rightarrow> cell" where
  "printed_cell e ch width t =
     \<lparr>c_text = [ch], c_capacity = edit_cap e [[], [ch]],
      c_width = (if width = 2 then Double else Single),
      c_foreground = t_current_foreground t, c_background = t_current_background t,
      c_attributes = (if t_current_protected t then attr_with (t_current_attributes t) PROTECTED
                      else t_current_attributes t),
      c_hyperlink = t_current_hyperlink t\<rparr>"

definition print_cluster :: "env \<Rightarrow> scalar \<Rightarrow> nat \<Rightarrow> nat \<Rightarrow> terminal \<Rightarrow> terminal option" where
  "print_cluster e ch width wrap_limit t = do {
     t \<leftarrow> (if insert_mode (t_modes t) then do {
             last_column \<leftarrow> checked_sub wrap_limit 1;
             let cur = t_cursor t;
             with_active (on_screen (insert_characters (column cur) (row cur) width (erase_cell e t)
                            (span_new 0 last_column))) t }
           else Some t);
     let cur = t_cursor t;
     let c = printed_cell e ch width t;
     let t = spend_hyperlink t;
     with_active (\<lambda>b. do {
       b \<leftarrow> on_screen (replace_cluster e (column cur) (row cur) c) b;
       Some (place_cursor_after_cluster cur width wrap_limit (auto_wrap (t_modes t))
               (b\<lparr>b_grapheme_anchor := Some cur\<rparr>)) }) t }"

text \<open>
  \<open>print\<close> calls itself once, on U+FFFD, for a double-width character that does not fit and may not
  wrap.  \<open>print_step\<close> takes that call as an argument.  A second nested call would be made in the same
  state with the same character, so it would never return: \<open>print\<close> closes the recursion with \<open>None\<close>.
\<close>

definition print_step ::
  "env \<Rightarrow> (terminal \<Rightarrow> terminal option) \<Rightarrow> scalar \<Rightarrow> terminal \<Rightarrow> terminal option" where
  "print_step e print_replacement ch t = do {
     (extended, t) \<leftarrow> try_extend_grapheme e ch t;
     let width = (case char_width e ch of None \<Rightarrow> 0 | Some w \<Rightarrow> w);
     if extended then Some t
     else if width = 0 then clear_grapheme_anchor t
     else do {
       let t = t\<lparr>t_last_graphic_character := Some ch\<rparr>;
       b \<leftarrow> active_buffer t;
       t \<leftarrow> (if b_pending_wrap b \<and> auto_wrap (t_modes t) then do {
               (_, home_column) \<leftarrow> wrap_geometry t;
               wrap_line e (row (b_cursor b)) home_column t }
             else Some t);
       (wrap_limit, wrap_home) \<leftarrow> wrap_geometry t;
       let width = min width 2;
       if width = 2 \<and> column (t_cursor t) + 1 = wrap_limit then
         (if auto_wrap (t_modes t) then do {
            t \<leftarrow> wrap_line e (row (t_cursor t)) wrap_home t;
            print_cluster e ch width wrap_limit t }
          else print_replacement t)
       else print_cluster e ch width wrap_limit t } }"

definition print :: "env \<Rightarrow> scalar \<Rightarrow> terminal \<Rightarrow> terminal option" where
  "print e ch = print_step e (print_step e (\<lambda>_. None) replacement_character) ch"

end
