(* ===== verification/Terminal_Ops.thy ===== *)
theory Terminal_Ops
  imports Terminal_Core
begin

text \<open>
  The operations behind \<open>Terminal::apply\<close>: tabs, cursor motion, erasing, rectangles, insertion and
  deletion, margins, saved cursors, SGR, modes and the alternate screen, and the reports.
\<close>

section \<open>Parameters\<close>

definition parameter_or :: "csi_parameters \<Rightarrow> nat \<Rightarrow> nat \<Rightarrow> nat" where
  "parameter_or ps i dflt =
     (case param_value ps i of None \<Rightarrow> dflt | Some v \<Rightarrow> if v = 0 then dflt else unat v)"

definition raw_parameter :: "csi_parameters \<Rightarrow> nat \<Rightarrow> nat \<Rightarrow> nat" where
  "raw_parameter ps i dflt = (case param_value ps i of None \<Rightarrow> dflt | Some v \<Rightarrow> unat v)"

section \<open>Tabs and cursor style\<close>

definition tab :: "terminal \<Rightarrow> terminal option" where
  "tab t = do {
     let cursor_column = column (t_cursor t);
     margins \<leftarrow> horizontal_margins t;
     last_column \<leftarrow> checked_sub (t_columns t) 1;
     let limit = (if cs_right margins < cursor_column then last_column else cs_right margins);
     let found = position id (drop (cursor_column + 1) (t_tab_stops t));
     let next = (case found of Some i \<Rightarrow> cursor_column + 1 + i | None \<Rightarrow> limit);
     with_active (\<lambda>b. Some (set_column (min next (max limit cursor_column)) b)) t }"

definition backward_tab :: "terminal \<Rightarrow> terminal option" where
  "backward_tab t =
     with_active (\<lambda>b. Some (set_column (extent id (take (column (t_cursor t)) (t_tab_stops t)) - 1) b)) t"

definition set_tab_stop :: "terminal \<Rightarrow> terminal" where
  "set_tab_stop t = t\<lparr>t_tab_stops := (t_tab_stops t)[column (t_cursor t) := True]\<rparr>"

definition clear_tab_stops :: "csi_parameters \<Rightarrow> terminal \<Rightarrow> terminal" where
  "clear_tab_stops ps t =
     (let n = raw_parameter ps 0 0
      in if n = 0 then t\<lparr>t_tab_stops := (t_tab_stops t)[column (t_cursor t) := False]\<rparr>
         else if n = 3 then t\<lparr>t_tab_stops := map (\<lambda>_. False) (t_tab_stops t)\<rparr>
         else t)"

definition cursor_style_of :: "nat \<Rightarrow> cursor_style option" where
  "cursor_style_of n =
     (if n = 0 \<or> n = 1 then Some BlinkingBlock else if n = 2 then Some SteadyBlock
      else if n = 3 then Some BlinkingUnderline else if n = 4 then Some SteadyUnderline
      else if n = 5 then Some BlinkingBar else if n = 6 then Some SteadyBar else None)"

definition set_cursor_style :: "csi_parameters \<Rightarrow> terminal \<Rightarrow> terminal" where
  "set_cursor_style ps t =
     (case cursor_style_of (raw_parameter ps 0 0) of
        None \<Rightarrow> t
      | Some style \<Rightarrow> t\<lparr>t_cursor_style := style, t_cursor_style_set := True\<rparr>)"

section \<open>Cursor motion\<close>

text \<open>\<open>self.active_buffer_mut().cursor.column = self.carriage_return_column()\<close>.\<close>

definition carriage_return :: "terminal \<Rightarrow> terminal option" where
  "carriage_return t = do {
     col \<leftarrow> carriage_return_column t;
     with_active (\<lambda>b. Some (set_column col b)) t }"

definition drop_hyperlink :: "terminal \<Rightarrow> terminal" where
  "drop_hyperlink t = t\<lparr>t_current_hyperlink := None, t_current_hyperlink_cells_remaining := 0\<rparr>"

definition end_logical_line :: "terminal \<Rightarrow> terminal option" where
  "end_logical_line = with_active (\<lambda>b. on_screen (clear_soft_wrapped (row (b_cursor b))) b)"

definition move_vertical :: "csi_parameters \<Rightarrow> bool \<Rightarrow> terminal \<Rightarrow> terminal option" where
  "move_vertical ps down t = do {
     let count = parameter_or ps 0 1;
     (first, bottom) \<leftarrow> relative_vertical_bounds t;
     with_active (\<lambda>b.
       let r = row (b_cursor b);
           r = (if down then min (sat_add r count) bottom else max (r - count) first)
       in Some ((set_row r b)\<lparr>b_pending_wrap := False\<rparr>)) t }"

text \<open>One buffer, one climb: the loop of \<open>move_cursor_back\<close>.  It goes up a row each time round.\<close>

function back_loop :: "nat \<Rightarrow> nat \<Rightarrow> bool \<Rightarrow> nat \<Rightarrow> buffer \<Rightarrow> buffer option" where
  "back_loop left right reverse remaining b =
     (let col = column (b_cursor b);
          r = row (b_cursor b);
          step = min remaining (col - left);
          b = set_column (col - step) b;
          remaining = remaining - step
      in if remaining = 0 \<or> \<not> reverse \<or> r = b_scroll_top b \<or> r = 0 then Some b
         else do {
           wrapped \<leftarrow> row_soft_wrapped (b_screen b) (r - 1);
           if wrapped \<noteq> Some True then Some b
           else back_loop left right reverse (remaining - 1) (set_column right (set_row (r - 1) b)) })"
  by pat_completeness auto
termination
  by (relation "measure (\<lambda>(left, right, reverse, remaining, b). row (b_cursor b))")
     (auto simp: set_row_def set_column_def)

declare back_loop.simps [simp del]

definition move_cursor_back :: "nat \<Rightarrow> terminal \<Rightarrow> terminal option" where
  "move_cursor_back count t = do {
     (left, right) \<leftarrow> relative_horizontal_bounds t;
     t \<leftarrow> with_active (back_loop left right (reverse_wrap (t_modes t)) count) t;
     clear_pending_wrap t }"

definition move_horizontal :: "csi_parameters \<Rightarrow> bool \<Rightarrow> terminal \<Rightarrow> terminal option" where
  "move_horizontal ps forward t = do {
     let count = parameter_or ps 0 1;
     if \<not> forward then move_cursor_back count t
     else do {
       (_, right) \<leftarrow> relative_horizontal_bounds t;
       with_active (\<lambda>b. Some ((set_column (min (sat_add (column (b_cursor b)) count) right) b)
                                \<lparr>b_pending_wrap := False\<rparr>)) t } }"

definition absolute_column :: "nat \<Rightarrow> terminal \<Rightarrow> nat option" where
  "absolute_column requested t =
     (if origin_mode (t_modes t) then do {
        margins \<leftarrow> horizontal_margins t;
        Some (min (sat_add (cs_left margins) requested) (cs_right margins)) }
      else do { last_column \<leftarrow> checked_sub (t_columns t) 1; Some (min requested last_column) })"

definition absolute_row :: "nat \<Rightarrow> terminal \<Rightarrow> nat option" where
  "absolute_row requested t = do {
     (first, bottom) \<leftarrow> vertical_bounds t;
     Some (if origin_mode (t_modes t) then min (sat_add first requested) bottom else min requested bottom) }"

definition cursor_horizontal_absolute :: "csi_parameters \<Rightarrow> bool \<Rightarrow> terminal \<Rightarrow> terminal option" where
  "cursor_horizontal_absolute ps origin_relative t = do {
     requested \<leftarrow> checked_sub (parameter_or ps 0 1) 1;
     col \<leftarrow> (if origin_relative then absolute_column requested t
            else do { last_column \<leftarrow> checked_sub (t_columns t) 1; Some (min requested last_column) });
     with_active (\<lambda>b. Some ((set_column col b)\<lparr>b_pending_wrap := False\<rparr>)) t }"

definition cursor_position :: "csi_parameters \<Rightarrow> terminal \<Rightarrow> terminal option" where
  "cursor_position ps t = do {
     requested_row \<leftarrow> checked_sub (parameter_or ps 0 1) 1;
     requested_column \<leftarrow> checked_sub (parameter_or ps 1 1) 1;
     r \<leftarrow> absolute_row requested_row t;
     col \<leftarrow> absolute_column requested_column t;
     with_active (\<lambda>b. Some ((set_column col (set_row r b))\<lparr>b_pending_wrap := False\<rparr>)) t }"

definition vertical_position_absolute :: "csi_parameters \<Rightarrow> terminal \<Rightarrow> terminal option" where
  "vertical_position_absolute ps t = do {
     requested_row \<leftarrow> checked_sub (parameter_or ps 0 1) 1;
     r \<leftarrow> absolute_row requested_row t;
     with_active (\<lambda>b. Some ((set_row r b)\<lparr>b_pending_wrap := False\<rparr>)) t }"

definition home_cursor :: "terminal \<Rightarrow> terminal option" where
  "home_cursor t = do {
     margins \<leftarrow> horizontal_margins t;
     let origin = origin_mode (t_modes t);
     with_active (\<lambda>b. Some ((set_row (if origin then b_scroll_top b else 0)
                              (set_column (if origin then cs_left margins else 0) b))
                              \<lparr>b_pending_wrap := False\<rparr>)) t }"

section \<open>Erasing\<close>

definition spares_protected_cells :: "bool \<Rightarrow> terminal \<Rightarrow> bool" where
  "spares_protected_cells selective t \<longleftrightarrow> selective \<or> t_protection t = ProtIso"

definition erase_display :: "csi_parameters \<Rightarrow> bool \<Rightarrow> env \<Rightarrow> terminal \<Rightarrow> terminal option" where
  "erase_display ps selective e t =
     (let mode = raw_parameter ps 0 0 in
      if mode = 3 then
        Some (if t_active_screen t = Primary then t\<lparr>t_scrollback := sb_clear (t_scrollback t)\<rparr> else t)
      else
        let spare = spares_protected_cells selective t;
            cell = erase_cell e t;
            cur = t_cursor t;
            start = row cur * t_columns t + column cur;
            total = t_columns t * t_rows t
        in with_active (on_screen
             (if mode = 0 then fill_linear_with start total cell spare
              else if mode = 1 then fill_linear_with 0 (start + 1) cell spare
              else if mode = 2 then
                (if spare then fill_linear_with 0 total cell True else (\<lambda>s. Some (clear_all cell s)))
              else Some)) t)"

definition erase_line :: "csi_parameters \<Rightarrow> bool \<Rightarrow> env \<Rightarrow> terminal \<Rightarrow> terminal option" where
  "erase_line ps selective e t =
     (let mode = raw_parameter ps 0 0;
          spare = spares_protected_cells selective t;
          cell = erase_cell e t;
          cur = t_cursor t;
          start = row cur * t_columns t;
          fill = (\<lambda>from upto. with_active (on_screen (fill_linear_with from upto cell spare)) t)
      in if mode = 0 then fill (start + column cur) (start + t_columns t)
         else if mode = 1 then fill start (start + column cur + 1)
         else if mode = 2 then fill start (start + t_columns t)
         else Some t)"

definition erase_characters :: "csi_parameters \<Rightarrow> env \<Rightarrow> terminal \<Rightarrow> terminal option" where
  "erase_characters ps e t =
     (let count = parameter_or ps 0 1;
          cur = t_cursor t;
          start = row cur * t_columns t + column cur;
          stop = min (sat_add start count) ((row cur + 1) * t_columns t)
      in with_active (on_screen
           (fill_linear_with start stop (erase_cell e t) (spares_protected_cells False t))) t)"

section \<open>Rectangles\<close>

text \<open>The origin rectangle coordinates count from.  The outer option of \<open>rectangle_from\<close> is the
  panic, the inner one the source's \<open>Option\<close>.\<close>

definition rectangle_origin :: "terminal \<Rightarrow> (nat \<times> nat) option" where
  "rectangle_origin t =
     (if origin_mode (t_modes t) then do {
        margins \<leftarrow> horizontal_margins t;
        b \<leftarrow> active_buffer t;
        Some (b_scroll_top b, cs_left margins) }
      else Some (0, 0))"

definition rectangle_from :: "csi_parameters \<Rightarrow> nat \<Rightarrow> terminal \<Rightarrow> rectangle option option" where
  "rectangle_from ps first t = do {
     (row_origin, column_origin) \<leftarrow> rectangle_origin t;
     row_span \<leftarrow> checked_sub (t_rows t) row_origin;
     column_span \<leftarrow> checked_sub (t_columns t) column_origin;
     rtop \<leftarrow> checked_sub (row_origin + parameter_or ps first 1) 1;
     left \<leftarrow> checked_sub (column_origin + parameter_or ps (first + 1) 1) 1;
     bottom \<leftarrow> checked_sub (row_origin + parameter_or ps (first + 2) row_span) 1;
     right \<leftarrow> checked_sub (column_origin + parameter_or ps (first + 3) column_span) 1;
     last_row \<leftarrow> checked_sub (t_rows t) 1;
     last_column \<leftarrow> checked_sub (t_columns t) 1;
     if bottom < rtop \<or> right < left then Some None
     else do {
       let bottom = min bottom last_row;
       let right = min right last_column;
       Some (if bottom < rtop \<or> right < left then None
             else Some \<lparr>r_top = rtop, r_left = left, r_bottom = bottom, r_right = right\<rparr>) } }"

definition term_fill_rectangle :: "csi_parameters \<Rightarrow> env \<Rightarrow> terminal \<Rightarrow> terminal option" where
  "term_fill_rectangle ps e t =
     (case param_value ps 0 of
        None \<Rightarrow> Some t
      | Some v \<Rightarrow>
          if 32 \<le> v \<and> v \<le> 126 \<or> 160 \<le> v \<and> v \<le> 255 then do {
            found \<leftarrow> rectangle_from ps 1 t;
            case found of
              None \<Rightarrow> Some t
            | Some rectangle \<Rightarrow>
                let ch = unat v;
                    cell = (erase_cell e t)\<lparr>c_text := [ch], c_capacity := const_cap e [ch]\<rparr>
                in with_active (on_screen (fill_rectangle e rectangle cell False)) t }
          else Some t)"

definition erase_rectangle :: "csi_parameters \<Rightarrow> bool \<Rightarrow> env \<Rightarrow> terminal \<Rightarrow> terminal option" where
  "erase_rectangle ps selective e t = do {
     found \<leftarrow> rectangle_from ps 0 t;
     case found of
       None \<Rightarrow> Some t
     | Some rectangle \<Rightarrow>
         let spare = (if selective then t_protection t = ProtDec else spares_protected_cells False t)
         in with_active (on_screen (fill_rectangle e rectangle (erase_cell e t) spare)) t }"

definition term_copy_rectangle :: "csi_parameters \<Rightarrow> env \<Rightarrow> terminal \<Rightarrow> terminal option" where
  "term_copy_rectangle ps e t = do {
     found \<leftarrow> rectangle_from ps 0 t;
     case found of
       None \<Rightarrow> Some t
     | Some source \<Rightarrow> do {
         (row_origin, column_origin) \<leftarrow> rectangle_origin t;
         let corner = (\<lambda>i origin limit. do {
                v \<leftarrow> checked_sub (origin + parameter_or ps i 1) 1;
                m \<leftarrow> checked_sub limit 1;
                Some (min v m) });
         dst_top \<leftarrow> corner 5 row_origin (t_rows t);
         dst_left \<leftarrow> corner 6 column_origin (t_columns t);
         with_active (on_screen (copy_rectangle e source dst_top dst_left)) t } }"

section \<open>Insertion, deletion and scrolling\<close>

text \<open>The sideways shift of every row of the vertical region (DECIC, DECDC, DECBI, DECFI).\<close>

definition shift_region :: "(nat \<Rightarrow> screen \<Rightarrow> screen option) \<Rightarrow> terminal \<Rightarrow> terminal option" where
  "shift_region f = with_active (\<lambda>b. on_screen (foldM f [b_scroll_top b..<b_scroll_bottom b + 1]) b)"

definition insert_columns :: "csi_parameters \<Rightarrow> env \<Rightarrow> terminal \<Rightarrow> terminal option" where
  "insert_columns ps e t = do {
     let count = parameter_or ps 0 1;
     within \<leftarrow> cursor_within_margins t;
     if \<not> within then Some t
     else do {
       sp \<leftarrow> horizontal_margins t;
       shift_region (\<lambda>r. insert_characters (column (t_cursor t)) r count (erase_cell e t) sp) t } }"

definition delete_columns :: "csi_parameters \<Rightarrow> env \<Rightarrow> terminal \<Rightarrow> terminal option" where
  "delete_columns ps e t = do {
     let count = parameter_or ps 0 1;
     within \<leftarrow> cursor_within_margins t;
     if \<not> within then Some t
     else do {
       sp \<leftarrow> horizontal_margins t;
       shift_region (\<lambda>r. delete_characters (column (t_cursor t)) r count (erase_cell e t) sp) t } }"

definition back_index :: "env \<Rightarrow> terminal \<Rightarrow> terminal option" where
  "back_index e t = do {
     margins \<leftarrow> horizontal_margins t;
     let col = column (t_cursor t);
     if col = cs_left margins then
       shift_region (\<lambda>r. insert_characters (cs_left margins) r 1 (erase_cell e t) margins) t
     else if 0 < col then with_active (\<lambda>b. Some (set_column (column (b_cursor b) - 1) b)) t
     else Some t }"

definition forward_index :: "env \<Rightarrow> terminal \<Rightarrow> terminal option" where
  "forward_index e t = do {
     margins \<leftarrow> horizontal_margins t;
     let col = column (t_cursor t);
     if col = cs_right margins then
       shift_region (\<lambda>r. delete_characters (cs_left margins) r 1 (erase_cell e t) margins) t
     else if col + 1 < t_columns t then
       with_active (\<lambda>b. Some (set_column (column (b_cursor b) + 1) b)) t
     else Some t }"

text \<open>The shape ICH, DCH, IL and DL share: nothing outside the margins, else a screen operation with
  the parameter, the erase cell and the margins.\<close>

definition within_margins_do ::
  "csi_parameters \<Rightarrow> env \<Rightarrow> (nat \<Rightarrow> cell \<Rightarrow> column_span \<Rightarrow> buffer \<Rightarrow> buffer option) \<Rightarrow> terminal \<Rightarrow> terminal option" where
  "within_margins_do ps e f t = do {
     let count = parameter_or ps 0 1;
     within \<leftarrow> cursor_within_margins t;
     if \<not> within then Some t
     else do { sp \<leftarrow> horizontal_margins t; with_active (f count (erase_cell e t) sp) t } }"

definition term_insert_characters :: "csi_parameters \<Rightarrow> env \<Rightarrow> terminal \<Rightarrow> terminal option" where
  "term_insert_characters ps e = within_margins_do ps e (\<lambda>count cell sp b.
     on_screen (insert_characters (column (b_cursor b)) (row (b_cursor b)) count cell sp) b)"

definition term_delete_characters :: "csi_parameters \<Rightarrow> env \<Rightarrow> terminal \<Rightarrow> terminal option" where
  "term_delete_characters ps e = within_margins_do ps e (\<lambda>count cell sp b.
     on_screen (delete_characters (column (b_cursor b)) (row (b_cursor b)) count cell sp) b)"

definition in_scroll_region :: "buffer \<Rightarrow> bool" where
  "in_scroll_region b \<longleftrightarrow> b_scroll_top b \<le> row (b_cursor b) \<and> row (b_cursor b) \<le> b_scroll_bottom b"

definition term_insert_lines :: "csi_parameters \<Rightarrow> env \<Rightarrow> terminal \<Rightarrow> terminal option" where
  "term_insert_lines ps e = within_margins_do ps e (\<lambda>count cell sp b.
     if in_scroll_region b
     then on_screen (insert_lines e (row (b_cursor b)) (b_scroll_bottom b) count cell sp) b else Some b)"

definition term_delete_lines :: "csi_parameters \<Rightarrow> env \<Rightarrow> terminal \<Rightarrow> terminal option" where
  "term_delete_lines ps e = within_margins_do ps e (\<lambda>count cell sp b.
     if in_scroll_region b
     then on_screen (delete_lines e (row (b_cursor b)) (b_scroll_bottom b) count cell sp) b else Some b)"

definition term_scroll_up :: "csi_parameters \<Rightarrow> env \<Rightarrow> terminal \<Rightarrow> terminal option" where
  "term_scroll_up ps e t = do {
     sp \<leftarrow> horizontal_margins t;
     scroll_region_up e (parameter_or ps 0 1) sp t }"

definition term_scroll_down :: "csi_parameters \<Rightarrow> env \<Rightarrow> terminal \<Rightarrow> terminal option" where
  "term_scroll_down ps e t = do {
     sp \<leftarrow> horizontal_margins t;
     with_active (\<lambda>b. on_screen (scroll_down e (b_scroll_top b) (b_scroll_bottom b) (parameter_or ps 0 1)
                                   (erase_cell e t) sp) b) t }"

section \<open>Margins and saved cursors\<close>

definition set_scroll_region :: "csi_parameters \<Rightarrow> terminal \<Rightarrow> terminal option" where
  "set_scroll_region ps t = do {
     first \<leftarrow> checked_sub (parameter_or ps 0 1) 1;
     bottom \<leftarrow> checked_sub (parameter_or ps 1 (t_rows t)) 1;
     if bottom \<le> first \<or> t_rows t \<le> bottom then Some t
     else do {
       let origin = origin_mode (t_modes t);
       t \<leftarrow> with_active (\<lambda>b. Some ((set_row (if origin then first else 0) (set_column 0
              (b\<lparr>b_scroll_top := first, b_scroll_bottom := bottom\<rparr>)))\<lparr>b_pending_wrap := False\<rparr>)) t;
       home_cursor t } }"

definition set_horizontal_margins :: "csi_parameters \<Rightarrow> terminal \<Rightarrow> terminal option" where
  "set_horizontal_margins ps t = do {
     left \<leftarrow> checked_sub (parameter_or ps 0 1) 1;
     right \<leftarrow> checked_sub (parameter_or ps 1 (t_columns t)) 1;
     if right \<le> left \<or> t_columns t \<le> right then Some t
     else do {
       t \<leftarrow> with_active (\<lambda>b. Some (b\<lparr>b_scroll_left := left, b_scroll_right := right\<rparr>)) t;
       home_cursor t } }"

definition save_dec :: "terminal \<Rightarrow> terminal option" where
  "save_dec t = with_active (\<lambda>b. Some (b\<lparr>b_dec_saved := Some
     \<lparr>sd_cursor = b_cursor b, sd_pending_wrap = b_pending_wrap b,
      sd_attributes = t_current_attributes t, sd_foreground = t_current_foreground t,
      sd_background = t_current_background t, sd_origin_mode = origin_mode (t_modes t),
      sd_protected = t_current_protected t, sd_protection = t_protection t\<rparr>\<rparr>)) t"

definition restore_dec :: "terminal \<Rightarrow> terminal option" where
  "restore_dec t = do {
     b \<leftarrow> active_buffer t;
     case b_dec_saved b of
       None \<Rightarrow>
         with_active (\<lambda>b. Some (b\<lparr>b_cursor := home, b_pending_wrap := False\<rparr>))
           (t\<lparr>t_modes := (t_modes t)\<lparr>origin_mode := False\<rparr>, t_current_attributes := NONE,
              t_current_foreground := Default, t_current_background := Default,
              t_current_protected := False, t_protection := ProtNone\<rparr>)
     | Some saved \<Rightarrow> do {
         c \<leftarrow> clamp_cursor (t_dimensions t) (sd_cursor saved);
         c \<leftarrow> (if sd_origin_mode saved then do {
                 r \<leftarrow> clamp (row c) (b_scroll_top b) (b_scroll_bottom b); Some (c\<lparr>row := r\<rparr>) }
               else Some c);
         t \<leftarrow> with_active (\<lambda>b. Some (b\<lparr>b_cursor := c,
                b_pending_wrap := (sd_pending_wrap saved \<and> column c + 1 = t_columns t)\<rparr>)) t;
         Some (t\<lparr>t_current_attributes := sd_attributes saved, t_current_foreground := sd_foreground saved,
                 t_current_background := sd_background saved,
                 t_modes := (t_modes t)\<lparr>origin_mode := sd_origin_mode saved\<rparr>,
                 t_current_protected := sd_protected saved, t_protection := sd_protection saved\<rparr>) } }"

definition save_ansi :: "terminal \<Rightarrow> terminal option" where
  "save_ansi t = with_active (\<lambda>b. Some (b\<lparr>b_ansi_saved := Some
     \<lparr>sa_cursor = t_cursor t, sa_protected = t_current_protected t, sa_protection = t_protection t\<rparr>\<rparr>)) t"

definition restore_ansi :: "terminal \<Rightarrow> terminal option" where
  "restore_ansi t0 = do {
     let t = t0\<lparr>t_modes := (t_modes t0)\<lparr>origin_mode := False\<rparr>\<rparr>;
     b \<leftarrow> active_buffer t;
     case b_ansi_saved b of
       None \<Rightarrow>
         with_active (\<lambda>b. Some (b\<lparr>b_cursor := home, b_pending_wrap := False\<rparr>))
           (t\<lparr>t_current_protected := False, t_protection := ProtNone\<rparr>)
     | Some saved \<Rightarrow> do {
         c \<leftarrow> clamp_cursor (t_dimensions t) (sa_cursor saved);
         t \<leftarrow> with_active (\<lambda>b. Some (b\<lparr>b_cursor := c, b_pending_wrap := False\<rparr>)) t;
         Some (t\<lparr>t_current_protected := sa_protected saved, t_protection := sa_protection saved\<rparr>) } }"

end
