(* ===== verification/Terminal_Modes.thy ===== *)
theory Terminal_Modes
  imports Terminal_Ops
begin

text \<open>
  Graphic renditions (SGR), mode setting with the alternate screen, soft reset, and everything the
  terminal reports back: status, modes, rectangle checksums, colours and settings.
\<close>

section \<open>Graphic rendition\<close>

definition reset_graphics_rendition :: "terminal \<Rightarrow> terminal" where
  "reset_graphics_rendition t =
     t\<lparr>t_current_attributes := NONE, t_current_foreground := Default, t_current_background := Default,
       t_current_hyperlink := None, t_current_hyperlink_cells_remaining := 0\<rparr>"

definition map_attributes :: "(attributes \<Rightarrow> attributes) \<Rightarrow> terminal \<Rightarrow> terminal" where
  "map_attributes f t = t\<lparr>t_current_attributes := f (t_current_attributes t)\<rparr>"

text \<open>The attribute codes of the \<open>match\<close>: what each does to the attribute bits.\<close>

definition sgr_attributes :: "nat \<Rightarrow> (attributes \<Rightarrow> attributes) option" where
  "sgr_attributes code =
     (if code = 1 then Some (\<lambda>a. attr_with a BOLD)
      else if code = 2 then Some (\<lambda>a. attr_with a FAINT)
      else if code = 3 then Some (\<lambda>a. attr_with a ITALIC)
      else if code = 4 then Some (\<lambda>a. attr_with (attr_without a DOUBLE_UNDERLINE) UNDERLINE)
      else if code = 5 then Some (\<lambda>a. attr_with a SLOW_BLINK)
      else if code = 6 then Some (\<lambda>a. attr_with a RAPID_BLINK)
      else if code = 7 then Some (\<lambda>a. attr_with a INVERSE)
      else if code = 8 then Some (\<lambda>a. attr_with a CONCEALED)
      else if code = 9 then Some (\<lambda>a. attr_with a STRIKETHROUGH)
      else if code = 21 then Some (\<lambda>a. attr_with (attr_without a UNDERLINE) DOUBLE_UNDERLINE)
      else if code = 22 then Some (\<lambda>a. attr_without (attr_without a BOLD) FAINT)
      else if code = 23 then Some (\<lambda>a. attr_without a ITALIC)
      else if code = 24 then Some (\<lambda>a. attr_without (attr_without a UNDERLINE) DOUBLE_UNDERLINE)
      else if code = 25 then Some (\<lambda>a. attr_without (attr_without a SLOW_BLINK) RAPID_BLINK)
      else if code = 27 then Some (\<lambda>a. attr_without a INVERSE)
      else if code = 28 then Some (\<lambda>a. attr_without a CONCEALED)
      else if code = 29 then Some (\<lambda>a. attr_without a STRIKETHROUGH)
      else None)"

definition sgr_simple :: "nat \<Rightarrow> terminal \<Rightarrow> terminal" where
  "sgr_simple code t =
     (if code = 0 then reset_graphics_rendition t
      else case sgr_attributes code of
        Some f \<Rightarrow> map_attributes f t
      | None \<Rightarrow>
          if 30 \<le> code \<and> code \<le> 37 then t\<lparr>t_current_foreground := Indexed (u8_of_nat (code - 30))\<rparr>
          else if code = 39 then t\<lparr>t_current_foreground := Default\<rparr>
          else if 40 \<le> code \<and> code \<le> 47 then t\<lparr>t_current_background := Indexed (u8_of_nat (code - 40))\<rparr>
          else if code = 49 then t\<lparr>t_current_background := Default\<rparr>
          else if 90 \<le> code \<and> code \<le> 97 then t\<lparr>t_current_foreground := Indexed (u8_of_nat (code - 90 + 8))\<rparr>
          else if 100 \<le> code \<and> code \<le> 107 then t\<lparr>t_current_background := Indexed (u8_of_nat (code - 100 + 8))\<rparr>
          else t)"

definition u8_try_from :: "u16 \<Rightarrow> u8 option" where
  "u8_try_from v = (if v < 256 then Some (u8_of_nat (unat v)) else None)"

definition indexed_color :: "csi_parameters \<Rightarrow> nat \<Rightarrow> color option" where
  "indexed_color ps i = do { v \<leftarrow> param_value ps i; n \<leftarrow> u8_try_from v; Some (Indexed n) }"

definition rgb_color :: "csi_parameters \<Rightarrow> nat \<Rightarrow> color option" where
  "rgb_color ps i = do {
     r \<leftarrow> param_value ps i; g \<leftarrow> param_value ps (i + 1); b \<leftarrow> param_value ps (i + 2);
     r \<leftarrow> u8_try_from r; g \<leftarrow> u8_try_from g; b \<leftarrow> u8_try_from b;
     Some (Rgb r g b) }"

definition separators_are :: "parameter_separator \<Rightarrow> csi_parameters \<Rightarrow> nat list \<Rightarrow> bool" where
  "separators_are sep ps is \<longleftrightarrow> (\<forall>i \<in> set is. param_separator ps i = Some sep)"

definition extended_color :: "csi_parameters \<Rightarrow> nat \<Rightarrow> u16 \<Rightarrow> parameter_separator option \<Rightarrow> color option" where
  "extended_color ps i mode separator =
     (if separator = Some Semicolon \<and> mode = 5 \<and> separators_are Semicolon ps [i + 2]
        then indexed_color ps (i + 2)
      else if separator = Some Semicolon \<and> mode = 2 \<and> separators_are Semicolon ps [i + 2, i + 3, i + 4]
        then rgb_color ps (i + 2)
      else if separator = Some Colon \<and> mode = 5 \<and> separators_are Colon ps [i + 2]
        then indexed_color ps (i + 2)
      else if separator = Some Colon \<and> mode = 2 \<and> separators_are Colon ps [i + 2, i + 3, i + 4, i + 5]
        then rgb_color ps (i + 3)
      else if separator = Some Colon \<and> mode = 2 \<and> separators_are Colon ps [i + 2, i + 3, i + 4]
        then rgb_color ps (i + 2)
      else None)"

definition extended_next :: "csi_parameters \<Rightarrow> nat \<Rightarrow> u16 \<Rightarrow> parameter_separator option \<Rightarrow> nat" where
  "extended_next ps i mode separator =
     (if separator = Some Semicolon \<and> mode = 5 then i + 2
      else if separator = Some Semicolon \<and> mode = 2 then i + 4
      else if separator = Some Colon \<and> mode = 5 then i + 2
      else if separator = Some Colon \<and> mode = 2 \<and> param_separator ps (i + 5) = Some Colon then i + 5
      else if separator = Some Colon \<and> mode = 2 then i + 4
      else i)"

definition set_extended_color :: "csi_parameters \<Rightarrow> nat \<Rightarrow> bool \<Rightarrow> terminal \<Rightarrow> nat \<times> terminal" where
  "set_extended_color ps i foreground t =
     (case param_value ps (i + 1) of
        None \<Rightarrow> (i, t)
      | Some mode \<Rightarrow>
          let separator = param_separator ps (i + 1);
              t = (case extended_color ps i mode separator of
                     None \<Rightarrow> t
                   | Some c \<Rightarrow> if foreground then t\<lparr>t_current_foreground := c\<rparr>
                               else t\<lparr>t_current_background := c\<rparr>)
          in (extended_next ps i mode separator, t))"

lemma extended_next_ge: "i \<le> fst (set_extended_color ps i fg t)"
  by (simp add: set_extended_color_def extended_next_def Let_def split: option.split)

text \<open>The \<open>while\<close> loop; the index grows by at least one each time round.\<close>

function sgr_loop :: "csi_parameters \<Rightarrow> nat \<Rightarrow> terminal \<Rightarrow> terminal" where
  "sgr_loop ps i t =
     (if i < cp_length ps then
        (case param_value ps i of
           None \<Rightarrow> t
         | Some v \<Rightarrow>
             let code = unat v in
             if code = 38 \<or> code = 48 then
               let r = set_extended_color ps i (code = 38) t in sgr_loop ps (fst r + 1) (snd r)
             else sgr_loop ps (i + 1) (sgr_simple code t))
      else t)"
  by pat_completeness auto
termination
proof (relation "measure (\<lambda>(ps, i, t). cp_length ps - i)", goal_cases)
  case (2 ps i t v x r)
  then show ?case
    using extended_next_ge [of i ps "x = 38" t] by simp
qed auto

declare sgr_loop.simps [simp del]

definition set_graphics_rendition :: "csi_parameters \<Rightarrow> terminal \<Rightarrow> terminal" where
  "set_graphics_rendition ps t =
     (if params_empty ps then reset_graphics_rendition t else sgr_loop ps 0 t)"

section \<open>Modes\<close>

definition upd_modes :: "(terminal_modes \<Rightarrow> terminal_modes) \<Rightarrow> terminal \<Rightarrow> terminal" where
  "upd_modes f t = t\<lparr>t_modes := f (t_modes t)\<rparr>"

definition set_mouse_tracking :: "mouse_tracking_mode \<Rightarrow> bool \<Rightarrow> terminal \<Rightarrow> terminal" where
  "set_mouse_tracking requested enabled t =
     (if enabled then upd_modes (\<lambda>m. m\<lparr>mouse_tracking := requested\<rparr>) t
      else if mouse_tracking (t_modes t) = requested
      then upd_modes (\<lambda>m. m\<lparr>mouse_tracking := MouseNone\<rparr>) t else t)"

definition enter_alternate :: "env \<Rightarrow> bool \<Rightarrow> terminal \<Rightarrow> terminal option" where
  "enter_alternate e clear t0 =
     (if t_active_screen t0 = Alternate then Some t0
      else do {
        let t = drop_hyperlink t0;
        made \<leftarrow> (case t_alternate t of
                  Some b \<Rightarrow> Some (Inr b)
                | None \<Rightarrow> buffer_new e (t_dimensions t));
        case made of
          Inl _ \<Rightarrow> Some t
        | Inr alternate \<Rightarrow> do {
            alternate \<leftarrow> (if clear then do {
                bottom \<leftarrow> checked_sub (t_rows t) 1;
                Some (alternate\<lparr>b_screen := clear_all (erase_cell e t) (b_screen alternate),
                        b_cursor := home, b_scroll_top := 0, b_scroll_bottom := bottom,
                        b_pending_wrap := False, b_grapheme_anchor := None\<rparr>) }
              else Some alternate);
            let t = advance_screen_generation (t\<lparr>t_alternate := Some alternate, t_active_screen := Alternate\<rparr>);
            let t = upd_modes (\<lambda>m. m\<lparr>alternate_screen := True\<rparr>) t;
            with_active (on_screen (\<lambda>s. Some (mark_all_dirty s))) t } })"

definition leave_alternate :: "env \<Rightarrow> bool \<Rightarrow> terminal \<Rightarrow> terminal option" where
  "leave_alternate e reset t0 = do {
     let t = drop_hyperlink t0;
     let t = (if t_active_screen t = Alternate then
                (let t = advance_screen_generation (t\<lparr>t_active_screen := Primary\<rparr>);
                     b = t_primary t
                 in t\<lparr>t_primary := b\<lparr>b_screen := mark_all_dirty (b_screen b)\<rparr>\<rparr>)
              else t);
     t \<leftarrow> (case (if reset then t_alternate t else None) of
             None \<Rightarrow> Some t
           | Some alternate \<Rightarrow> do {
               alternate \<leftarrow> buffer_reset e alternate;
               Some (t\<lparr>t_alternate := Some alternate\<rparr>) });
     Some (upd_modes (\<lambda>m. m\<lparr>alternate_screen := False\<rparr>) t) }"

definition set_ansi_mode :: "bool \<Rightarrow> nat \<Rightarrow> terminal \<Rightarrow> terminal" where
  "set_ansi_mode enabled mode t =
     (if mode = 2 then upd_modes (\<lambda>m. m\<lparr>keyboard_locked := enabled\<rparr>) t
      else if mode = 4 then upd_modes (\<lambda>m. m\<lparr>insert_mode := enabled\<rparr>) t
      else if mode = 20 then upd_modes (\<lambda>m. m\<lparr>line_feed_new_line := enabled\<rparr>) t
      else t)"

text \<open>The private modes whose arm only writes a flag of \<open>modes\<close>.\<close>

definition set_flag_mode :: "bool \<Rightarrow> nat \<Rightarrow> terminal \<Rightarrow> terminal" where
  "set_flag_mode enabled mode t =
     (if mode = 1 then upd_modes (\<lambda>m. m\<lparr>application_cursor := enabled\<rparr>) t
      else if mode = 25 then upd_modes (\<lambda>m. m\<lparr>cursor_visible := enabled\<rparr>) t
      else if mode = 45 then upd_modes (\<lambda>m. m\<lparr>reverse_wrap := enabled\<rparr>) t
      else if mode = 66 then upd_modes (\<lambda>m. m\<lparr>application_keypad := enabled\<rparr>) t
      else if mode = 67 then upd_modes (\<lambda>m. m\<lparr>backarrow_sends_backspace := enabled\<rparr>) t
      else if mode = 9 then set_mouse_tracking X10 enabled t
      else if mode = 1000 then set_mouse_tracking ButtonEvent enabled t
      else if mode = 1002 then set_mouse_tracking ButtonMotion enabled t
      else if mode = 1003 then set_mouse_tracking AnyMotion enabled t
      else if mode = 1004 then upd_modes (\<lambda>m. m\<lparr>focus_reporting := enabled\<rparr>) t
      else if mode = 1006 then upd_modes (\<lambda>m. m\<lparr>sgr_mouse := enabled\<rparr>) t
      else if mode = 2004 then upd_modes (\<lambda>m. m\<lparr>bracketed_paste := enabled\<rparr>) t
      else t)"

definition set_margin_mode :: "bool \<Rightarrow> terminal \<Rightarrow> terminal option" where
  "set_margin_mode enabled t0 = do {
     let t = upd_modes (\<lambda>m. m\<lparr>left_right_margin_mode := enabled\<rparr>) t0;
     if enabled then Some t
     else do {
       right \<leftarrow> checked_sub (t_columns t) 1;
       with_active (\<lambda>b. Some (b\<lparr>b_scroll_left := 0, b_scroll_right := right\<rparr>)) t } }"

definition set_private_mode :: "env \<Rightarrow> bool \<Rightarrow> nat \<Rightarrow> terminal \<Rightarrow> terminal option" where
  "set_private_mode e enabled mode t =
     (if mode = 6 then home_cursor (upd_modes (\<lambda>m. m\<lparr>origin_mode := enabled\<rparr>) t)
      else if mode = 7 then
        (let t = upd_modes (\<lambda>m. m\<lparr>auto_wrap := enabled\<rparr>) t
         in if enabled then Some t else clear_pending_wrap t)
      else if mode = 69 then set_margin_mode enabled t
      else if mode = 47 then (if enabled then enter_alternate e False t else leave_alternate e False t)
      else if mode = 1047 then (if enabled then enter_alternate e True t else leave_alternate e True t)
      else if mode = 1048 then (if enabled then save_dec t else restore_dec t)
      else if mode = 1049 then
        (if enabled then save_dec t \<bind> enter_alternate e True
         else leave_alternate e True t \<bind> restore_dec)
      else Some (set_flag_mode enabled mode t))"

definition set_modes :: "env \<Rightarrow> bool \<Rightarrow> bool \<Rightarrow> csi_parameters \<Rightarrow> terminal \<Rightarrow> terminal option" where
  "set_modes e private enabled ps t =
     (if \<not> private then
        Some (fold (\<lambda>i t. case param_value ps i of None \<Rightarrow> t | Some v \<Rightarrow> set_ansi_mode enabled (unat v) t)
                [0..<cp_length ps] t)
      else foldM (\<lambda>i t. case param_value ps i of None \<Rightarrow> Some t
                         | Some v \<Rightarrow> set_private_mode e enabled (unat v) t) [0..<cp_length ps] t)"

definition soft_reset :: "terminal \<Rightarrow> terminal option" where
  "soft_reset t0 = do {
     let t = upd_modes (\<lambda>m. m\<lparr>origin_mode := False, auto_wrap := True, cursor_visible := True,
               application_cursor := False, application_keypad := False,
               left_right_margin_mode := False, insert_mode := False\<rparr>) t0;
     let t = reset_graphics_rendition (t\<lparr>t_current_protected := False, t_protection := ProtNone\<rparr>);
     bottom \<leftarrow> checked_sub (t_rows t) 1;
     right \<leftarrow> checked_sub (t_columns t) 1;
     with_active (\<lambda>b. Some (b\<lparr>b_scroll_top := 0, b_scroll_bottom := bottom, b_scroll_left := 0,
       b_scroll_right := right, b_pending_wrap := False, b_dec_saved := None, b_ansi_saved := None\<rparr>)) t }"

definition screen_alignment_pattern :: "env \<Rightarrow> terminal \<Rightarrow> terminal option" where
  "screen_alignment_pattern e t0 = do {
     bottom \<leftarrow> checked_sub (t_rows t0) 1;
     right \<leftarrow> checked_sub (t_columns t0) 1;
     let cell = \<lparr>c_text = [0x45], c_capacity = const_cap e [0x45], c_width = Single,
                 c_foreground = Default, c_background = Default, c_attributes = NONE, c_hyperlink = None\<rparr>;
     let t = upd_modes (\<lambda>m. m\<lparr>left_right_margin_mode := False\<rparr>) t0;
     with_active (\<lambda>b. on_screen (fill_rectangle e
         \<lparr>r_top = 0, r_left = 0, r_bottom = bottom, r_right = right\<rparr> cell False)
       (b\<lparr>b_scroll_top := 0, b_scroll_bottom := bottom, b_scroll_left := 0, b_scroll_right := right,
          b_cursor := home, b_pending_wrap := False\<rparr>)) t }"

section \<open>Reports\<close>

definition queue_reply :: "env \<Rightarrow> u8 list \<Rightarrow> terminal \<Rightarrow> queue_push_result \<times> terminal" where
  "queue_reply e bytes t =
     (let (result, q) = queue_transport_bytes e (t_reply_queue t) bytes
      in (result, t\<lparr>t_reply_queue := q,
                    t_reply_queue_overflowed := (t_reply_queue_overflowed t \<or> overflowed result)\<rparr>))"

abbreviation reply :: "env \<Rightarrow> u8 list \<Rightarrow> terminal \<Rightarrow> terminal" where
  "reply e bytes t \<equiv> snd (queue_reply e bytes t)"

definition esc :: "u8 list" where "esc = [0x1b]"
definition st :: "u8 list" where "st = [0x1b, 0x5c]"

definition checksum_cell :: "cell \<Rightarrow> u16" where
  "checksum_cell c = (if c_text c = [] then 0x20 else sum_list (map word_of_nat (c_text c)))"

text \<open>The sum over a rectangle; the addition of \<open>u16\<close> values wraps.\<close>

definition rectangle_checksum :: "screen \<Rightarrow> nat \<Rightarrow> nat \<Rightarrow> nat \<Rightarrow> nat \<Rightarrow> u16" where
  "rectangle_checksum s rtop left bottom right =
     sum_list (map (\<lambda>(r, col). case cell_ref s col r of None \<Rightarrow> 0 | Some c \<Rightarrow> checksum_cell c)
       (List.product [rtop..<bottom] [left..<right]))"

definition request_rectangle_checksum :: "csi_parameters \<Rightarrow> env \<Rightarrow> terminal \<Rightarrow> terminal option" where
  "request_rectangle_checksum ps e t = do {
     let identifier = raw_parameter ps 0 0;
     (row_origin, row_limit, column_origin, column_limit) \<leftarrow>
       (if origin_mode (t_modes t) then do {
          margins \<leftarrow> horizontal_margins t;
          b \<leftarrow> active_buffer t;
          Some (b_scroll_top b, b_scroll_bottom b + 1, cs_left margins, cs_right margins + 1) }
        else Some (0, t_rows t, 0, t_columns t));
     rtop \<leftarrow> checked_sub (row_origin + parameter_or ps 2 1) 1;
     left \<leftarrow> checked_sub (column_origin + parameter_or ps 3 1) 1;
     row_span \<leftarrow> checked_sub row_limit row_origin;
     column_span \<leftarrow> checked_sub column_limit column_origin;
     let rtop = min rtop row_limit;
     let left = min left column_limit;
     let bottom = min (row_origin + parameter_or ps 4 row_span) row_limit;
     let right = min (column_origin + parameter_or ps 5 column_span) column_limit;
     b \<leftarrow> active_buffer t;
     let checksum = (if rtop < bottom \<and> left < right
                     then rectangle_checksum (b_screen b) rtop left bottom right else 0);
     Some (reply e (esc @ ascii ''P'' @ decimal identifier @ ascii ''!~'' @ hex4 hex_digit_upper checksum @ st) t) }"

definition window_operation :: "csi_parameters \<Rightarrow> env \<Rightarrow> terminal \<Rightarrow> terminal option" where
  "window_operation ps e t = do {
     b \<leftarrow> active_buffer t;
     let d = b_dimensions b;
     let answer = (\<lambda>kind. Some (reply e (esc @ ascii ''['' @ decimal kind @ ascii '';'' @ decimal (rows d)
                     @ ascii '';'' @ decimal (columns d) @ ascii ''t'') t));
     case param_value ps 0 of
       None \<Rightarrow> Some t
     | Some v \<Rightarrow> if v = 18 then answer 8 else if v = 19 then answer 9 else Some t }"

definition cursor_report :: "terminal \<Rightarrow> (nat \<times> nat) option" where
  "cursor_report t = do {
     let cur = t_cursor t;
     r \<leftarrow> (if origin_mode (t_modes t) then do {
             b \<leftarrow> active_buffer t; Some (sat_add (row cur - b_scroll_top b) 1) }
           else Some (sat_add (row cur) 1));
     margins \<leftarrow> horizontal_margins t;
     Some (r, if origin_mode (t_modes t) \<and> cs_left margins \<le> column cur
              then column cur - cs_left margins + 1 else column cur + 1) }"

definition device_status :: "csi_parameters \<Rightarrow> env \<Rightarrow> terminal \<Rightarrow> terminal option" where
  "device_status ps e t =
     (case param_value ps 0 of
        None \<Rightarrow> Some t
      | Some v \<Rightarrow>
          if v = 5 then Some (reply e (esc @ ascii ''[0n'') t)
          else if v = 6 then do {
            (r, col) \<leftarrow> cursor_report t;
            Some (reply e (esc @ ascii ''['' @ decimal r @ ascii '';'' @ decimal col @ ascii ''R'') t) }
          else Some t)"

definition NOT_RECOGNIZED :: nat where "NOT_RECOGNIZED = 0"
definition MODE_SET :: nat where "MODE_SET = 1"
definition MODE_RESET :: nat where "MODE_RESET = 2"
definition PERMANENTLY_SET :: nat where "PERMANENTLY_SET = 3"
definition PERMANENTLY_RESET :: nat where "PERMANENTLY_RESET = 4"

definition mode_state :: "bool \<Rightarrow> nat" where
  "mode_state s = (if s then MODE_SET else MODE_RESET)"

definition ansi_mode_state :: "nat \<Rightarrow> terminal \<Rightarrow> nat" where
  "ansi_mode_state mode t =
     (let m = t_modes t in
      if mode = 2 then mode_state (keyboard_locked m)
      else if mode = 4 then mode_state (insert_mode m)
      else if mode = 20 then mode_state (line_feed_new_line m)
      else if mode = 12 then PERMANENTLY_SET
      else if mode \<in> set ([1, 5, 7, 10, 11] @ [13..<20]) then PERMANENTLY_RESET
      else NOT_RECOGNIZED)"

definition dec_mode_state :: "nat \<Rightarrow> terminal \<Rightarrow> nat" where
  "dec_mode_state mode t =
     (let m = t_modes t in
      if mode = 1 then mode_state (application_cursor m)
      else if mode = 6 then mode_state (origin_mode m)
      else if mode = 7 then mode_state (auto_wrap m)
      else if mode = 9 then mode_state (mouse_tracking m = X10)
      else if mode = 25 then mode_state (cursor_visible m)
      else if mode = 45 then mode_state (reverse_wrap m)
      else if mode = 47 \<or> mode = 1047 \<or> mode = 1049 then mode_state (alternate_screen m)
      else if mode = 66 then mode_state (application_keypad m)
      else if mode = 67 then mode_state (backarrow_sends_backspace m)
      else if mode = 69 then mode_state (left_right_margin_mode m)
      else if mode = 1000 then mode_state (mouse_tracking m = ButtonEvent)
      else if mode = 1002 then mode_state (mouse_tracking m = ButtonMotion)
      else if mode = 1003 then mode_state (mouse_tracking m = AnyMotion)
      else if mode = 1004 then mode_state (focus_reporting m)
      else if mode = 1006 then mode_state (sgr_mouse m)
      else if mode = 2004 then mode_state (bracketed_paste m)
      else if mode \<in> set ([2..<6] @ [8, 18, 19] @ [34..<37] @ [42, 57, 60, 61, 64, 68, 73, 81] @ [95..<107])
        then PERMANENTLY_RESET
      else NOT_RECOGNIZED)"

definition request_mode :: "bool \<Rightarrow> csi_parameters \<Rightarrow> env \<Rightarrow> terminal \<Rightarrow> terminal" where
  "request_mode private ps e t =
     (case param_value ps 0 of
        None \<Rightarrow> t
      | Some v \<Rightarrow>
          let mode = unat v;
              state = (if private then dec_mode_state mode t else ansi_mode_state mode t)
          in reply e (esc @ ascii ''['' @ (if private then ascii ''?'' else []) @ decimal mode @ ascii '';''
               @ decimal state @ ascii ''$y'') t)"

definition dec_device_status :: "csi_parameters \<Rightarrow> env \<Rightarrow> terminal \<Rightarrow> terminal" where
  "dec_device_status ps e t =
     (case param_value ps 0 of
        None \<Rightarrow> t
      | Some v \<Rightarrow>
          if v = 6 then
            reply e (esc @ ascii ''[?'' @ decimal (row (t_cursor t) + 1) @ ascii '';''
              @ decimal (column (t_cursor t) + 1) @ ascii ''R'') t
          else if v = 15 then reply e (esc @ ascii ''[?13n'') t
          else if v = 25 then reply e (esc @ ascii ''[?21n'') t
          else if v = 53 \<or> v = 55 then reply e (esc @ ascii ''[?50n'') t
          else if v = 56 then reply e (esc @ ascii ''[?57;0n'') t
          else if v = 62 then reply e (esc @ ascii ''[0*{'') t
          else if v = 63 then
            reply e (esc @ ascii ''P'' @ decimal (raw_parameter ps 1 0) @ ascii ''!~0000'' @ st) t
          else if v = 75 then reply e (esc @ ascii ''[?70n'') t
          else if v = 85 then reply e (esc @ ascii ''[?83n'') t
          else t)"

definition device_attributes :: "bool \<Rightarrow> env \<Rightarrow> terminal \<Rightarrow> terminal" where
  "device_attributes secondary e t =
     (if secondary then reply e (esc @ ascii ''[>0;0;0c'') t else reply e (esc @ ascii ''[?6c'') t)"

definition color_reply :: "color_query \<Rightarrow> string_terminator \<Rightarrow> terminal \<Rightarrow> u8 list" where
  "color_reply query terminator t =
     (let s = t_color_scheme t;
          (selector, index_part, c) = (case query of
              Palette i \<Rightarrow> (4, decimal (unat i) @ ascii '';'', palette s i)
            | Foreground \<Rightarrow> (10, [], cs_foreground s)
            | Background \<Rightarrow> (11, [], cs_background s)
            | CursorColor \<Rightarrow> (12, [], cs_cursor s))
      in esc @ ascii '']'' @ decimal selector @ ascii '';'' @ index_part @ to_xparsecolor c
         @ terminator_bytes terminator)"

definition report_colors :: "color_query list \<Rightarrow> string_terminator \<Rightarrow> env \<Rightarrow> terminal \<Rightarrow> terminal" where
  "report_colors queries terminator e t = fold (\<lambda>q t. reply e (color_reply q terminator t) t) queries t"

section \<open>DECRQSS\<close>

definition color_report :: "color \<Rightarrow> bool \<Rightarrow> u8 list option" where
  "color_report c background =
     (let extended = decimal (if background then 48 else 38) in
      case c of
        Default \<Rightarrow> None
      | Indexed i \<Rightarrow>
          if i < 8 then Some (decimal ((if background then 40 else 30) + unat i))
          else if i < 16 then Some (decimal ((if background then 100 else 90) + unat i - 8))
          else Some (extended @ ascii '':5:'' @ decimal (unat i))
      | Rgb r g b \<Rightarrow> Some (extended @ ascii '':2::'' @ decimal (unat r) @ ascii '':'' @ decimal (unat g)
                           @ ascii '':'' @ decimal (unat b)))"

definition report_attributes :: "(attributes \<times> nat) list" where
  "report_attributes = [(BOLD, 1), (FAINT, 2), (ITALIC, 3), (UNDERLINE, 4), (DOUBLE_UNDERLINE, 21),
     (SLOW_BLINK, 5), (RAPID_BLINK, 6), (INVERSE, 7), (CONCEALED, 8), (STRIKETHROUGH, 9)]"

fun join :: "u8 list \<Rightarrow> u8 list list \<Rightarrow> u8 list" where
  "join sep [] = []"
| "join sep [x] = x"
| "join sep (x # y # ys) = x @ sep @ join sep (y # ys)"

definition graphics_rendition_report :: "terminal \<Rightarrow> u8 list" where
  "graphics_rendition_report t =
     join (ascii '';'')
       ([ascii ''0'']
        @ map (\<lambda>(_, code). decimal code)
            (filter (\<lambda>(a, _). attr_contains (t_current_attributes t) a) report_attributes)
        @ List.map_filter id [color_report (t_current_foreground t) False,
                              color_report (t_current_background t) True])"

definition cursor_style_code :: "cursor_style \<Rightarrow> nat" where
  "cursor_style_code s = (case s of
      BlinkingBlock \<Rightarrow> 1 | SteadyBlock \<Rightarrow> 2 | BlinkingUnderline \<Rightarrow> 3 | SteadyUnderline \<Rightarrow> 4
    | BlinkingBar \<Rightarrow> 5 | SteadyBar \<Rightarrow> 6)"

definition status_report :: "u8 list \<Rightarrow> terminal \<Rightarrow> u8 list option option" where
  "status_report selector t =
     (if selector = ascii ''m'' then Some (Some (graphics_rendition_report t))
      else if selector = ascii ''r'' then do {
        b \<leftarrow> active_buffer t;
        Some (Some (decimal (b_scroll_top b + 1) @ ascii '';'' @ decimal (b_scroll_bottom b + 1))) }
      else if selector = ascii ''s'' then do {
        margins \<leftarrow> horizontal_margins t;
        Some (Some (decimal (cs_left margins + 1) @ ascii '';'' @ decimal (cs_right margins + 1))) }
      else if selector = 0x22 # ascii ''q'' then
        Some (Some (decimal (if t_current_protected t \<and> t_protection t = ProtDec then 1 else 0)))
      else if selector = ascii '' q'' then Some (Some (decimal (cursor_style_code (t_cursor_style t))))
      else Some None)"

text \<open>The selectors that get a report are ASCII, so \<open>from_utf8_lossy\<close> gives them back unchanged.\<close>

definition apply_dcs_action :: "dcs_action option \<Rightarrow> env \<Rightarrow> terminal \<Rightarrow> terminal option" where
  "apply_dcs_action action e t =
     (case action of
        None \<Rightarrow> Some t
      | Some (RequestStatusString selector) \<Rightarrow> do {
          report \<leftarrow> status_report selector t;
          Some (case report of
                  Some r \<Rightarrow> reply e (esc @ ascii ''P1$r'' @ r @ selector @ st) t
                | None \<Rightarrow> reply e (esc @ ascii ''P0$r'' @ st) t) })"

definition apply_osc_action :: "osc_action option \<Rightarrow> env \<Rightarrow> terminal \<Rightarrow> terminal" where
  "apply_osc_action action e t =
     (case action of
        None \<Rightarrow> t
      | Some (SetTitle title) \<Rightarrow> t\<lparr>t_title := title\<rparr>
      | Some (SetHyperlink link) \<Rightarrow>
          t\<lparr>t_current_hyperlink_cells_remaining := (if link \<noteq> None then 4096 else 0),
            t_current_hyperlink := link\<rparr>
      | Some (ReportColors queries terminator) \<Rightarrow> report_colors queries terminator e t)"

end
