(* ===== verification/Terminal.thy ===== *)
theory Terminal
  imports Terminal_Modes
begin

text \<open>
  The public face of \<open>Terminal\<close>: \<open>apply\<close>, byte ingestion, resizing, reset, the transport queues and
  typed input, the plain-text snapshot and recovery.
\<close>

section \<open>Applying an operation\<close>

definition keeps_anchor :: "terminal_op \<Rightarrow> bool" where
  "keeps_anchor operation = (case operation of
     Print _ \<Rightarrow> True | SetGraphicsRendition _ \<Rightarrow> True | Ignored \<Rightarrow> True | _ \<Rightarrow> False)"

fun times :: "nat \<Rightarrow> ('s \<Rightarrow> 's option) \<Rightarrow> 's \<Rightarrow> 's option" where
  "times 0 f s = Some s"
| "times (Suc n) f s = f s \<bind> times n f"

definition line_feed :: "env \<Rightarrow> terminal \<Rightarrow> terminal option" where
  "line_feed e t = do {
     t \<leftarrow> end_logical_line (drop_hyperlink t);
     t \<leftarrow> index e t;
     t \<leftarrow> (if line_feed_new_line (t_modes t) then carriage_return t else Some t);
     clear_pending_wrap t }"

definition repeat_preceding_character :: "csi_parameters \<Rightarrow> env \<Rightarrow> terminal \<Rightarrow> terminal option" where
  "repeat_preceding_character ps e t =
     (case t_last_graphic_character t of
        None \<Rightarrow> Some t
      | Some ch \<Rightarrow> times (parameter_or ps 0 1) (print e ch) t)"

definition set_protection :: "bool \<Rightarrow> bool \<Rightarrow> terminal \<Rightarrow> terminal" where
  "set_protection guarded prot t =
     t\<lparr>t_protection := (if guarded then ProtIso else ProtDec), t_current_protected := prot\<rparr>"

definition dispatch :: "env \<Rightarrow> terminal_op \<Rightarrow> terminal \<Rightarrow> terminal option" where
  "dispatch e operation t = (case operation of
     Print ch \<Rightarrow> print e ch t
   | CarriageReturn \<Rightarrow> carriage_return t \<bind> clear_pending_wrap
   | LineFeed \<Rightarrow> line_feed e t
   | Index \<Rightarrow> do { t \<leftarrow> end_logical_line (drop_hyperlink t); t \<leftarrow> index e t; clear_pending_wrap t }
   | Backspace \<Rightarrow> move_cursor_back 1 t
   | Tab \<Rightarrow> tab t \<bind> clear_pending_wrap
   | CursorForwardTab ps \<Rightarrow> times (parameter_or ps 0 1) tab t \<bind> clear_pending_wrap
   | CursorBackwardTab ps \<Rightarrow> times (parameter_or ps 0 1) backward_tab t \<bind> clear_pending_wrap
   | NextLine \<Rightarrow> do {
       t \<leftarrow> end_logical_line (drop_hyperlink t);
       t \<leftarrow> index e t; t \<leftarrow> carriage_return t; clear_pending_wrap t }
   | ReverseIndex \<Rightarrow> reverse_index e t \<bind> clear_pending_wrap
   | SaveDec \<Rightarrow> save_dec t
   | RestoreDec \<Rightarrow> restore_dec t
   | SetTabStop \<Rightarrow> Some (set_tab_stop t)
   | SetApplicationKeypad enabled \<Rightarrow> Some (upd_modes (\<lambda>m. m\<lparr>application_keypad := enabled\<rparr>) t)
   | SetCursorStyle ps \<Rightarrow> Some (set_cursor_style ps t)
   | CursorUp ps \<Rightarrow> move_vertical ps False t
   | CursorDown ps \<Rightarrow> move_vertical ps True t
   | CursorForward ps \<Rightarrow> move_horizontal ps True t
   | CursorBack ps \<Rightarrow> move_horizontal ps False t
   | CursorNextLine ps \<Rightarrow> move_vertical ps True t \<bind> carriage_return
   | CursorPreviousLine ps \<Rightarrow> move_vertical ps False t \<bind> carriage_return
   | CursorHorizontalAbsolute ps \<Rightarrow> cursor_horizontal_absolute ps True t
   | HorizontalPositionAbsolute ps \<Rightarrow> cursor_horizontal_absolute ps False t
   | CursorPosition ps \<Rightarrow> cursor_position ps t
   | VerticalPositionAbsolute ps \<Rightarrow> vertical_position_absolute ps t
   | EraseDisplay ps \<Rightarrow> erase_display ps False e t
   | EraseLine ps \<Rightarrow> erase_line ps False e t
   | EraseCharacters ps \<Rightarrow> erase_characters ps e t
   | InsertCharacters ps \<Rightarrow> term_insert_characters ps e t
   | DeleteCharacters ps \<Rightarrow> term_delete_characters ps e t
   | InsertLines ps \<Rightarrow> term_insert_lines ps e t
   | DeleteLines ps \<Rightarrow> term_delete_lines ps e t
   | ScrollUp ps \<Rightarrow> term_scroll_up ps e t
   | ScrollDown ps \<Rightarrow> term_scroll_down ps e t
   | SetScrollRegion ps \<Rightarrow> set_scroll_region ps t
   | SaveAnsiOrSetHorizontalMargins ps \<Rightarrow>
       (if left_right_margin_mode (t_modes t) then set_horizontal_margins ps t
        else if params_empty ps then save_ansi t else Some t)
   | RestoreAnsi \<Rightarrow> restore_ansi t
   | SetGraphicsRendition ps \<Rightarrow> Some (set_graphics_rendition ps t)
   | SetModes private enabled ps \<Rightarrow> set_modes e private enabled ps t
   | DeviceStatus ps \<Rightarrow> device_status ps e t
   | DecDeviceStatus ps \<Rightarrow> Some (dec_device_status ps e t)
   | RepeatPrecedingCharacter ps \<Rightarrow> repeat_preceding_character ps e t
   | ScreenAlignmentPattern \<Rightarrow> screen_alignment_pattern e t
   | DeviceAttributes secondary \<Rightarrow> Some (device_attributes secondary e t)
   | ClearTabStops ps \<Rightarrow> Some (clear_tab_stops ps t)
   | SetProtection guarded prot \<Rightarrow> Some (set_protection guarded prot t)
   | SelectiveEraseDisplay ps \<Rightarrow> erase_display ps True e t
   | SelectiveEraseLine ps \<Rightarrow> erase_line ps True e t
   | RequestMode private ps \<Rightarrow> Some (request_mode private ps e t)
   | SoftReset \<Rightarrow> soft_reset t
   | CopyRectangle ps \<Rightarrow> term_copy_rectangle ps e t
   | FillRectangle ps \<Rightarrow> term_fill_rectangle ps e t
   | EraseRectangle ps selective \<Rightarrow> erase_rectangle ps selective e t
   | InsertColumns ps \<Rightarrow> insert_columns ps e t
   | DeleteColumns ps \<Rightarrow> delete_columns ps e t
   | BackIndex \<Rightarrow> back_index e t \<bind> clear_pending_wrap
   | ForwardIndex \<Rightarrow> forward_index e t \<bind> clear_pending_wrap
   | RequestRectangleChecksum ps \<Rightarrow> request_rectangle_checksum ps e t
   | WindowOperation ps \<Rightarrow> window_operation ps e t
   | Ignored \<Rightarrow> Some t)"

definition apply_op :: "env \<Rightarrow> terminal_op \<Rightarrow> terminal \<Rightarrow> terminal option" where
  "apply_op e operation t = do {
     t \<leftarrow> (if keeps_anchor operation then Some t else clear_grapheme_anchor t);
     dispatch e operation t }"

section \<open>Ingestion\<close>

text \<open>The part of \<open>ingest_byte\<close> after the UTF-8 decoder had its say.\<close>

definition ingest_plain :: "env \<Rightarrow> u8 \<Rightarrow> terminal \<Rightarrow> terminal option" where
  "ingest_plain e byte t =
     (if is_ground (t_parser t) \<and> 0x80 \<le> byte then do {
        (started, u) \<leftarrow> utf8_start (t_utf8 t) byte;
        let t = t\<lparr>t_utf8 := u\<rparr>;
        if started then Some t else print e replacement_character t }
      else do {
        (operation, p) \<leftarrow> advance e (t_parser t) byte;
        t \<leftarrow> apply_op e operation (t\<lparr>t_parser := p\<rparr>);
        let (action, p) = take_osc_action (t_parser t);
        let t = apply_osc_action action e (t\<lparr>t_parser := p\<rparr>);
        let (request, p) = take_dcs_action (t_parser t);
        apply_dcs_action request e (t\<lparr>t_parser := p\<rparr>) })"

text \<open>A byte that ends an invalid sequence is ingested again; the decoder is idle by then, so the
  second round is \<open>ingest_plain\<close> (\<open>ingest_byte\<close> closes the recursion with the decoder's test).\<close>

definition ingest_step ::
  "env \<Rightarrow> (terminal \<Rightarrow> terminal option) \<Rightarrow> u8 \<Rightarrow> terminal \<Rightarrow> terminal option" where
  "ingest_step e again byte t =
     (if utf8_pending (t_utf8 t) then do {
        (result, u) \<leftarrow> utf8_advance (t_utf8 t) byte;
        let t = t\<lparr>t_utf8 := u\<rparr>;
        case result of
          Pending \<Rightarrow> Some t
        | Character ch \<Rightarrow> print e ch t
        | Invalid \<Rightarrow> print e replacement_character t \<bind> again }
      else ingest_plain e byte t)"

definition ingest_byte :: "env \<Rightarrow> u8 \<Rightarrow> terminal \<Rightarrow> terminal option" where
  "ingest_byte e byte = ingest_step e (ingest_step e (\<lambda>_. None) byte) byte"

definition ingest :: "env \<Rightarrow> u8 list \<Rightarrow> terminal \<Rightarrow> terminal option" where
  "ingest e bytes t = foldM (ingest_byte e) bytes t"

section \<open>Resize and reset\<close>

definition resize_with_content_positions ::
  "env \<Rightarrow> dimensions \<Rightarrow> content_position list \<Rightarrow> terminal \<Rightarrow>
     ((terminal_error + content_position option list) \<times> terminal) option" where
  "resize_with_content_positions e d positions t0 = do {
     (sb, reflowed) \<leftarrow> buffer_reflowed e d (t_scrollback t0) positions (t_primary t0);
     let t = t0\<lparr>t_scrollback := sb\<rparr>;
     case reflowed of
       Inl err \<Rightarrow> Some (Inl err, t)
     | Inr (primary, positions) \<Rightarrow> do {
         alternate \<leftarrow> (case t_alternate t of
             None \<Rightarrow> Some (Inr None)
           | Some b \<Rightarrow> map_option (map_sum id Some) (buffer_resized e d b));
         Some (case alternate of
             Inl err \<Rightarrow> (Inl err, t)
           | Inr alternate \<Rightarrow>
               (Inr positions, t\<lparr>t_primary := primary, t_alternate := alternate,
                  t_tab_stops := resized_tab_stops (t_tab_stops t) d\<rparr>)) } }"

definition resize ::
  "env \<Rightarrow> dimensions \<Rightarrow> terminal \<Rightarrow> ((terminal_error + unit) \<times> terminal) option" where
  "resize e d t = map_option (\<lambda>(r, t). (map_sum id (\<lambda>_. ()) r, t)) (resize_with_content_positions e d [] t)"

definition reset_to_initial_state :: "env \<Rightarrow> terminal \<Rightarrow> terminal option" where
  "reset_to_initial_state e t0 = do {
     primary \<leftarrow> buffer_reset e (t_primary t0);
     let t = advance_screen_generation
               (t0\<lparr>t_primary := primary, t_alternate := None, t_active_screen := Primary\<rparr>);
     Some (t\<lparr>t_modes := default_modes, t_cursor_style := BlinkingBlock, t_cursor_style_set := False,
             t_tab_stops := default_tab_stops (t_dimensions t0), t_current_attributes := NONE,
             t_current_foreground := Default, t_current_background := Default, t_title := [],
             t_current_hyperlink := None, t_current_hyperlink_cells_remaining := 0,
             t_parser := parser_new, t_utf8 := utf8_new\<rparr>) }"

definition set_scrollback_limit :: "env \<Rightarrow> nat \<Rightarrow> terminal \<Rightarrow> terminal option" where
  "set_scrollback_limit e limit t = do {
     sb \<leftarrow> set_limit_bytes e limit (t_scrollback t);
     Some (t\<lparr>t_scrollback := sb\<rparr>) }"

definition clear_scrollback :: "terminal \<Rightarrow> terminal" where
  "clear_scrollback t = t\<lparr>t_scrollback := sb_clear (t_scrollback t)\<rparr>"

definition term_take_dirty_rows :: "terminal \<Rightarrow> (nat list \<times> terminal) option" where
  "term_take_dirty_rows t = do {
     b \<leftarrow> active_buffer t;
     let (dirty, s) = take_dirty_rows (b_screen b);
     Some (dirty, set_active (b\<lparr>b_screen := s\<rparr>) t) }"

section \<open>Queues and typed input\<close>

definition queue_input :: "env \<Rightarrow> u8 list \<Rightarrow> terminal \<Rightarrow> queue_push_result \<times> terminal" where
  "queue_input e bytes t =
     (let (result, q) = queue_transport_bytes e (t_input_queue t) bytes
      in (result, t\<lparr>t_input_queue := q,
                    t_input_queue_overflowed := (t_input_queue_overflowed t \<or> overflowed result)\<rparr>))"

definition drain_input :: "terminal \<Rightarrow> u8 list \<times> terminal" where
  "drain_input t = (t_input_queue t, t\<lparr>t_input_queue := []\<rparr>)"

definition take_input_queue_overflowed :: "terminal \<Rightarrow> bool \<times> terminal" where
  "take_input_queue_overflowed t = (t_input_queue_overflowed t, t\<lparr>t_input_queue_overflowed := False\<rparr>)"

definition drain_replies :: "terminal \<Rightarrow> u8 list \<times> terminal" where
  "drain_replies t = (t_reply_queue t, t\<lparr>t_reply_queue := []\<rparr>)"

definition take_reply_queue_overflowed :: "terminal \<Rightarrow> bool \<times> terminal" where
  "take_reply_queue_overflowed t = (t_reply_queue_overflowed t, t\<lparr>t_reply_queue_overflowed := False\<rparr>)"

definition set_color_scheme :: "color_scheme \<Rightarrow> terminal \<Rightarrow> terminal" where
  "set_color_scheme scheme t = t\<lparr>t_color_scheme := scheme\<rparr>"

definition queue_encoded_input :: "env \<Rightarrow> u8 list \<Rightarrow> terminal \<Rightarrow> input_event_outcome \<times> terminal" where
  "queue_encoded_input e encoded t =
     (let (result, t) = queue_input e encoded t
      in (if overflowed result then QueueOverflow else Encoded (accepted result), t))"

definition handle_paste :: "env \<Rightarrow> str \<Rightarrow> terminal \<Rightarrow> input_event_outcome \<times> terminal" where
  "handle_paste e payload t =
     (let overflow = (QueueOverflow, t\<lparr>t_input_queue_overflowed := True\<rparr>) in
      case paste_encoded_length payload (t_modes t) of
        None \<Rightarrow> overflow
      | Some n \<Rightarrow>
          if TRANSPORT_QUEUE_HIGH_WATERMARK < n then overflow
          else case encode_paste e payload (t_modes t) of
                 None \<Rightarrow> overflow
               | Some encoded \<Rightarrow> queue_encoded_input e encoded t)"

definition handle_mouse :: "env \<Rightarrow> mouse_event \<Rightarrow> terminal \<Rightarrow> input_event_outcome \<times> terminal" where
  "handle_mouse e ev t =
     (let tracking = mouse_tracking (t_modes t) in
      if tracking = MouseNone then (SelectionAllowed, t)
      else if \<not> mouse_event_is_reported (me_kind ev) tracking then (SelectionClaimed, t)
      else case (if sgr_mouse (t_modes t) then encode_sgr_mouse ev else encode_legacy_mouse ev) of
             Some encoded \<Rightarrow> queue_encoded_input e encoded t
           | None \<Rightarrow> (Rejected, t))"

definition handle_input :: "env \<Rightarrow> input_event \<Rightarrow> terminal \<Rightarrow> input_event_outcome \<times> terminal" where
  "handle_input e event t =
     (let queue = (\<lambda>encoded. case encoded of None \<Rightarrow> (Rejected, t) | Some bs \<Rightarrow> queue_encoded_input e bs t) in
      case event of
        KeyEvent k \<Rightarrow> queue (encode_key k (t_modes t))
      | ModifiedKey k m \<Rightarrow> queue (encode_modified_key k m (t_modes t))
      | Paste payload \<Rightarrow> handle_paste e payload t
      | Focus focus \<Rightarrow>
          queue (if focus_reporting (t_modes t)
                 then Some (case focus of FocusIn \<Rightarrow> esc @ ascii ''[I'' | FocusOut \<Rightarrow> esc @ ascii ''[O'')
                 else None)
      | Mouse ev \<Rightarrow> handle_mouse e ev t)"

section \<open>Plain-text snapshots\<close>

datatype snapshot_refusal =
    TooLarge nat nat
  | TooManyLines nat nat
  | LineTooLong nat nat

record snapshot_bounds =
  sb_max_bytes :: nat
  sb_max_lines :: nat
  sb_max_line_bytes :: nat

record snapshot_accumulator =
  sa_text :: str
  sa_bytes :: nat
  sa_lines :: nat
  sa_current_line_bytes :: nat
  sa_trailing_newline :: bool
  sa_bounds :: "snapshot_bounds option"

definition accumulator :: "snapshot_bounds option \<Rightarrow> snapshot_accumulator" where
  "accumulator bounds =
     \<lparr>sa_text = [], sa_bytes = 0, sa_lines = 1, sa_current_line_bytes = 0, sa_trailing_newline = False,
      sa_bounds = bounds\<rparr>"

definition bound_or_max :: "(snapshot_bounds \<Rightarrow> nat) \<Rightarrow> snapshot_accumulator \<Rightarrow> nat" where
  "bound_or_max f a = (case sa_bounds a of None \<Rightarrow> usize_max | Some b \<Rightarrow> f b)"

definition exceeds :: "(snapshot_bounds \<Rightarrow> nat) \<Rightarrow> snapshot_accumulator \<Rightarrow> nat \<Rightarrow> bool" where
  "exceeds f a n = (case sa_bounds a of None \<Rightarrow> False | Some b \<Rightarrow> f b < n)"

definition start_line :: "snapshot_accumulator \<Rightarrow> snapshot_refusal + snapshot_accumulator" where
  "start_line a =
     (case checked_add (sa_lines a) 1 of
        None \<Rightarrow> Inl (TooManyLines usize_max (bound_or_max sb_max_lines a))
      | Some n \<Rightarrow>
          if exceeds sb_max_lines a n then Inl (TooManyLines n (bound_or_max sb_max_lines a))
          else Inr (a\<lparr>sa_trailing_newline := False, sa_lines := n\<rparr>))"

definition reserve_bytes :: "nat \<Rightarrow> snapshot_accumulator \<Rightarrow> snapshot_refusal + snapshot_accumulator" where
  "reserve_bytes added a =
     (case checked_add (sa_bytes a) added of
        None \<Rightarrow> Inl (TooLarge usize_max (bound_or_max sb_max_bytes a))
      | Some n \<Rightarrow>
          if exceeds sb_max_bytes a n then Inl (TooLarge n (bound_or_max sb_max_bytes a))
          else Inr (a\<lparr>sa_bytes := n\<rparr>))"

definition and_then :: "'e + 'a \<Rightarrow> ('a \<Rightarrow> 'e + 'b) \<Rightarrow> 'e + 'b" where
  "and_then m f = (case m of Inl err \<Rightarrow> Inl err | Inr x \<Rightarrow> f x)"

definition begin_text :: "snapshot_accumulator \<Rightarrow> snapshot_refusal + snapshot_accumulator" where
  "begin_text a = (if sa_trailing_newline a then start_line a else Inr a)"

definition push_cell_text :: "str \<Rightarrow> snapshot_accumulator \<Rightarrow> snapshot_refusal + snapshot_accumulator" where
  "push_cell_text s a0 =
     (if s = [] then Inr a0
      else and_then (begin_text a0) (\<lambda>a.
        case checked_add (sa_current_line_bytes a) (str_len s) of
          None \<Rightarrow> Inl (LineTooLong (sa_lines a) (bound_or_max sb_max_line_bytes a))
        | Some n \<Rightarrow>
            if exceeds sb_max_line_bytes a n
            then Inl (LineTooLong (sa_lines a) (bound_or_max sb_max_line_bytes a))
            else and_then (reserve_bytes (str_len s) a)
                   (\<lambda>a. Inr (a\<lparr>sa_current_line_bytes := n, sa_text := sa_text a @ s\<rparr>))))"

definition push_newline :: "snapshot_accumulator \<Rightarrow> snapshot_refusal + snapshot_accumulator" where
  "push_newline a0 =
     and_then (begin_text a0) (\<lambda>a. and_then (reserve_bytes 1 a)
       (\<lambda>a. Inr (a\<lparr>sa_text := sa_text a @ [0x0a], sa_current_line_bytes := 0,
                   sa_trailing_newline := True\<rparr>)))"

fun push_cells_text :: "cell list \<Rightarrow> snapshot_accumulator \<Rightarrow> snapshot_refusal + snapshot_accumulator" where
  "push_cells_text [] a = Inr a"
| "push_cells_text (c # cs) a =
     (if is_continuation c then push_cells_text cs a
      else and_then (push_cell_text (c_text c) a) (push_cells_text cs))"

text \<open>The rows \<open>0..content_rows\<close> of the visible screen; the option is the panic.\<close>

fun push_rows_text ::
  "screen \<Rightarrow> nat list \<Rightarrow> bool \<Rightarrow> snapshot_accumulator \<Rightarrow> (snapshot_refusal + snapshot_accumulator) option" where
  "push_rows_text s [] continuing a = Some (Inr a)"
| "push_rows_text s (r # rs) continuing a =
     (case (if \<not> continuing \<and> (0 < r \<or> (0 < sa_bytes a \<and> \<not> sa_trailing_newline a))
            then push_newline a else Inr a) of
        Inl refusal \<Rightarrow> Some (Inl refusal)
      | Inr a \<Rightarrow> do {
          cs \<leftarrow> occupied_row_cells s r;
          (case push_cells_text cs a of
             Inl refusal \<Rightarrow> Some (Inl refusal)
           | Inr a \<Rightarrow> do {
               wrapped \<leftarrow> row_soft_wrapped s r;
               push_rows_text s rs (wrapped = Some True) a }) })"

definition append_visible_screen_text ::
  "screen \<Rightarrow> nat \<Rightarrow> bool \<Rightarrow> snapshot_accumulator \<Rightarrow> (snapshot_refusal + snapshot_accumulator) option" where
  "append_visible_screen_text s cursor_row continue_first_row a = do {
     n \<leftarrow> occupied_row_count s;
     let content_rows = min (max n (cursor_row + 1)) (s_rows s);
     push_rows_text s [0..<content_rows] continue_first_row a }"

fun push_history_text ::
  "logical_line list \<Rightarrow> bool \<Rightarrow> snapshot_accumulator \<Rightarrow> snapshot_refusal + (bool \<times> snapshot_accumulator)" where
  "push_history_text [] continue_primary a = Inr (continue_primary, a)"
| "push_history_text (l # ls) continue_primary a =
     and_then (push_cells_text (l_cells l) a) (\<lambda>a.
       if l_hard_break l then and_then (push_newline a) (push_history_text ls False)
       else push_history_text ls True a)"

record text_snapshot =
  ts_text :: str
  ts_screen :: active_screen
  ts_evicted_logical_lines :: nat

definition snapshot_with_accumulator ::
  "snapshot_accumulator \<Rightarrow> terminal \<Rightarrow> (snapshot_refusal + text_snapshot) option" where
  "snapshot_with_accumulator a t =
     (case push_history_text (sb_lines (t_scrollback t)) False a of
        Inl refusal \<Rightarrow> Some (Inl refusal)
      | Inr (continue_primary, a) \<Rightarrow> do {
          let alt = alternate_screen (t_modes t);
          pushed \<leftarrow> (if alt then do {
                       b \<leftarrow> active_buffer t;
                       append_visible_screen_text (b_screen b) (row (t_cursor t)) False a }
                     else append_visible_screen_text (b_screen (t_primary t)) (row (b_cursor (t_primary t)))
                            continue_primary a);
          Some (case pushed of
                  Inl refusal \<Rightarrow> Inl refusal
                | Inr a \<Rightarrow> Inr \<lparr>ts_text = sa_text a, ts_screen = (if alt then Alternate else Primary),
                               ts_evicted_logical_lines = sb_evicted_lines (t_scrollback t)\<rparr>) })"

definition bounded_text_snapshot ::
  "nat \<Rightarrow> nat \<Rightarrow> nat \<Rightarrow> terminal \<Rightarrow> (snapshot_refusal + text_snapshot) option" where
  "bounded_text_snapshot max_bytes max_lines max_line_bytes t =
     snapshot_with_accumulator
       (accumulator (Some \<lparr>sb_max_bytes = max_bytes, sb_max_lines = max_lines,
                           sb_max_line_bytes = max_line_bytes\<rparr>)) t"

text \<open>\<open>text_snapshot\<close> panics when the unbounded accumulator refuses.\<close>

definition term_text_snapshot :: "terminal \<Rightarrow> text_snapshot option" where
  "term_text_snapshot t = do {
     r \<leftarrow> snapshot_with_accumulator (accumulator None) t;
     case r of Inl _ \<Rightarrow> None | Inr s \<Rightarrow> Some s }"

section \<open>Recovery\<close>

definition recovery_clone :: "terminal \<Rightarrow> terminal" where
  "recovery_clone t =
     (let dirty = (\<lambda>b. b\<lparr>b_screen := mark_all_dirty (b_screen b)\<rparr>)
      in t\<lparr>t_input_queue := [], t_reply_queue := [], t_input_queue_overflowed := False,
           t_reply_queue_overflowed := False, t_primary := dirty (t_primary t),
           t_alternate := map_option dirty (t_alternate t)\<rparr>)"

text \<open>\<open>validate_recovery_snapshot\<close>: whether it returns \<open>Ok\<close>.\<close>

definition terminal_valid :: "env \<Rightarrow> terminal \<Rightarrow> bool" where
  "terminal_valid e t \<longleftrightarrow>
     parser_valid (t_parser t) \<and> utf8_valid (t_utf8 t) \<and> buffer_valid (t_primary t) \<and>
     \<not> (t_active_screen t = Alternate \<and> t_alternate t = None) \<and>
     (case t_alternate t of None \<Rightarrow> True
      | Some b \<Rightarrow> buffer_valid b \<and> b_dimensions b = t_dimensions t) \<and>
     length (t_tab_stops t) = t_columns t \<and>
     \<not> (256 < str_len (t_title t) \<or> (\<exists>c \<in> set (t_title t). is_control c)) \<and>
     \<not> (t_current_hyperlink t = None \<and> t_current_hyperlink_cells_remaining t \<noteq> 0) \<and>
     \<not> (t_reply_queue_overflowed t \<or> t_input_queue_overflowed t \<or> t_reply_queue t \<noteq> [] \<or> t_input_queue t \<noteq> []) \<and>
     scrollback_valid e (t_columns t) (t_scrollback t)"

end
