(* ===== verification/History_Inv.thy ===== *)
theory History_Inv
  imports History
begin

text \<open>
  Safety of the history: the shape every line keeps (row ends sorted and within the cells, cells
  valid), and that pushing rows, enforcing the limit and trimming never fail and keep it.  No
  arithmetic assumption is needed here; \<open>History_Spec\<close> adds the accounting.
\<close>


section \<open>The shape of a line\<close>

definition line_shape :: "logical_line \<Rightarrow> bool" where
  "line_shape l \<longleftrightarrow> length (l_row_ends l) = l_physical_rows l \<and> sorted (l_row_ends l) \<and>
     (\<forall>x \<in> set (l_row_ends l). x \<le> length (l_cells l)) \<and>
     (\<forall>c \<in> set (l_cells l). cell_valid c)"

definition sb_shape :: "scrollback \<Rightarrow> bool" where
  "sb_shape sb \<longleftrightarrow> length (sb_line_row_starts sb) = length (sb_lines sb) \<and>
     (\<forall>l \<in> set (sb_lines sb). line_shape l)"

lemma recalculate_fields [simp]:
  "l_id (recalculate_charge e l) = l_id l" "l_cells (recalculate_charge e l) = l_cells l"
  "l_row_ends (recalculate_charge e l) = l_row_ends l"
  "l_physical_rows (recalculate_charge e l) = l_physical_rows l"
  "l_hard_break (recalculate_charge e l) = l_hard_break l"
  "l_cell_capacity (recalculate_charge e l) = l_cell_capacity l"
  "l_row_end_capacity (recalculate_charge e l) = l_row_end_capacity l"
  "l_cell_owned_bytes (recalculate_charge e l) = l_cell_owned_bytes l"
  "l_trimmed_offset (recalculate_charge e l) = l_trimmed_offset l"
  by (simp_all add: recalculate_charge_def)

lemma line_shape_recalculate [simp]: "line_shape (recalculate_charge e l) = line_shape l"
  by (simp add: line_shape_def)

text \<open>The trimming loop stops within the line, on a row boundary.\<close>

definition boundary :: "logical_line \<Rightarrow> nat \<Rightarrow> nat" where
  "boundary l r = (if r = 0 then 0 else l_row_ends l ! (r - 1))"

lemma boundary_le:
  "line_shape l \<Longrightarrow> r \<le> l_physical_rows l \<Longrightarrow> boundary l r \<le> length (l_cells l)"
  by (auto simp: boundary_def line_shape_def)

lemma boundary_mono:
  "line_shape l \<Longrightarrow> r \<le> r' \<Longrightarrow> r' \<le> l_physical_rows l \<Longrightarrow> boundary l r \<le> boundary l r'"
  by (auto simp: boundary_def line_shape_def intro!: sorted_nth_mono)

lemma row_start_boundary: "r \<le> length (l_row_ends l) \<Longrightarrow> row_start_of (l_row_ends l) r = boundary l r"
  by (auto simp: row_start_of_def boundary_def rd_def checked_sub_def)

lemma trim_loop_stops:
  assumes "line_shape l" "r \<le> l_physical_rows l"
  shows "\<exists>r' removed'. trim_loop e l target r (boundary l r) removed = Some (r', boundary l r', removed')
     \<and> r \<le> r' \<and> r' \<le> l_physical_rows l"
  using assms(2)
proof (induction "l_physical_rows l - r" arbitrary: r removed)
  case 0
  then show ?case by (subst trim_loop.simps) auto
next
  case (Suc n)
  then have r: "r < l_physical_rows l" "r < length (l_row_ends l)"
    using assms(1) by (auto simp: line_shape_def)
  have end': "rd (l_row_ends l) r = Some (boundary l (Suc r))"
    using r by (simp add: rd_def boundary_def)
  obtain cs where cs: "rd_range (l_cells l) (boundary l r) (boundary l (Suc r)) = Some cs"
    using boundary_mono [OF assms(1), of r "Suc r"] boundary_le [OF assms(1), of "Suc r"] r
    by (simp add: rd_range_def)
  have IH: "\<exists>r' removed'. trim_loop e l target (Suc r) (boundary l (Suc r)) x = Some (r', boundary l r', removed')
     \<and> Suc r \<le> r' \<and> r' \<le> l_physical_rows l" for x
    using Suc.hyps Suc.prems r by (intro Suc.hyps) auto
  show ?case
  proof (subst trim_loop.simps, cases "compact_line_charge e (length (l_cells l) - boundary l r)
                (length (l_row_ends l) - r) (l_cell_owned_bytes l - removed) \<le> target
              \<and> (0 < r \<or> l_charged_bytes l \<le> target)")
    case False
    then show "\<exists>r' removed'. (if \<not> r < l_physical_rows l then Some (r, boundary l r, removed)
      else if compact_line_charge e (length (l_cells l) - boundary l r)
                (length (l_row_ends l) - r) (l_cell_owned_bytes l - removed) \<le> target
              \<and> (0 < r \<or> l_charged_bytes l \<le> target)
      then Some (r, boundary l r, removed)
      else case rd (l_row_ends l) r of
             None \<Rightarrow> None
           | Some row_end \<Rightarrow>
               (case rd_range (l_cells l) (boundary l r) row_end of
                  None \<Rightarrow> None
                | Some cs \<Rightarrow> trim_loop e l target (r + 1) row_end (sat_add removed (owned_sum cs)))) =
       Some (r', boundary l r', removed') \<and> r \<le> r' \<and> r' \<le> l_physical_rows l"
      using IH [of "sat_add removed (owned_sum cs)"] r end' cs by auto
  qed (use r in auto)
qed

lemma trim_oldest_result:
  assumes "line_shape l"
  shows "\<exists>n removed. trim_loop e l target 0 0 0 = Some (n, boundary l n, removed) \<and> n \<le> l_physical_rows l \<and>
    trim_oldest_physical_rows_to e target l =
      Some (n, if n = 0 then l else recalculate_charge e
        (l\<lparr>l_cells := drop (boundary l n) (l_cells l),
           l_row_ends := map (\<lambda>x. x - boundary l n) (drop n (l_row_ends l)),
           l_cell_capacity := vec_shrink e (l_cell_capacity l) (length (l_cells l) - boundary l n),
           l_row_end_capacity := vec_shrink e (l_row_end_capacity l) (length (l_row_ends l) - n),
           l_physical_rows := l_physical_rows l - n,
           l_trimmed_offset := sat_add (l_trimmed_offset l) (boundary l n),
           l_cell_owned_bytes := l_cell_owned_bytes l - removed\<rparr>))"
proof -
  obtain n removed where n: "trim_loop e l target 0 0 0 = Some (n, boundary l n, removed)" "n \<le> l_physical_rows l"
    using trim_loop_stops [OF assms, of 0 e target 0] by (auto simp: boundary_def)
  have ends: "mapM (\<lambda>x. checked_sub x (boundary l n)) (drop n (l_row_ends l))
      = Some (map (\<lambda>x. x - boundary l n) (drop n (l_row_ends l)))"
  proof (rule mapM_Some)
    fix x assume "x \<in> set (drop n (l_row_ends l))"
    then obtain i where "i < length (l_row_ends l) - n" "x = l_row_ends l ! (n + i)"
      by (auto simp: in_set_conv_nth)
    then have "boundary l n \<le> x"
      using boundary_mono [OF assms, of n "Suc (n + i)"] assms by (simp add: boundary_def line_shape_def split: if_splits)
    then show "checked_sub x (boundary l n) = Some (x - boundary l n)" by simp
  qed
  have len: "length (l_row_ends l) = l_physical_rows l" using assms by (simp add: line_shape_def)
  show ?thesis
    using n ends boundary_le [OF assms n(2)] len
    by (auto simp: trim_oldest_physical_rows_to_def Let_def simp del: mapM.simps)
qed

lemma trim_oldest_shape:
  assumes "line_shape l"
  shows "ok (\<lambda>(n, l'). line_shape l' \<and> l_hard_break l' = l_hard_break l \<and> l_id l' = l_id l
     \<and> l_physical_rows l = n + l_physical_rows l') (trim_oldest_physical_rows_to e target l)"
proof -
  obtain n removed where n: "n \<le> l_physical_rows l" and r: "trim_oldest_physical_rows_to e target l =
      Some (n, if n = 0 then l else recalculate_charge e
        (l\<lparr>l_cells := drop (boundary l n) (l_cells l),
           l_row_ends := map (\<lambda>x. x - boundary l n) (drop n (l_row_ends l)),
           l_cell_capacity := vec_shrink e (l_cell_capacity l) (length (l_cells l) - boundary l n),
           l_row_end_capacity := vec_shrink e (l_row_end_capacity l) (length (l_row_ends l) - n),
           l_physical_rows := l_physical_rows l - n,
           l_trimmed_offset := sat_add (l_trimmed_offset l) (boundary l n),
           l_cell_owned_bytes := l_cell_owned_bytes l - removed\<rparr>))"
    using trim_oldest_result [OF assms] by metis
  have "sorted (map (\<lambda>x. x - boundary l n) (drop n (l_row_ends l)))"
    using assms by (auto simp: line_shape_def sorted_map intro: sorted_wrt_mono_rel [OF _ sorted_wrt_drop] diff_le_mono)
  then show ?thesis
    using assms n by (auto simp: r line_shape_def dest: in_set_dropD intro!: diff_le_mono)
qed

lemma trim_front_shape:
  "line_shape l \<Longrightarrow> ok (\<lambda>(l', charged', removed'). line_shape l' \<and> l_hard_break l' = l_hard_break l \<and> l_id l' = l_id l)
     (trim_front e target l charged removed)"
proof (induction e target l charged removed rule: trim_front.induct)
  case (1 e target l charged removed)
  obtain n l' where r: "trim_oldest_physical_rows_to e target l = Some (n, l')" "line_shape l'"
     "l_hard_break l' = l_hard_break l" "l_id l' = l_id l"
    using trim_oldest_shape [OF 1(2), of e target] by (auto simp: ok_iff)
  show ?case
    using 1(1) [OF _ r(1) refl] r 1(2) by (subst trim_front.simps) auto
qed

lemma evict_loop_shape:
  "length (sb_line_row_starts sb) = length ls \<Longrightarrow> \<forall>l \<in> set ls. line_shape l \<Longrightarrow> sb_shape (evict_loop ls sb)"
  by (induction ls sb rule: evict_loop.induct) (auto simp: sb_shape_def)

lemma add_front_length [simp]: "length (add_front n xs) = length xs"
  by (simp add: add_front_def split: list.split)

lemma enforce_limit_shape:
  assumes "sb_shape sb"
  shows "ok sb_shape (enforce_limit e sb)"
proof -
  let ?sb = "evict_complete_lines sb"
  have shape: "sb_shape ?sb"
    using assms by (auto simp: evict_complete_lines_def sb_shape_def intro!: evict_loop_shape [unfolded sb_shape_def])
  show ?thesis
  proof (cases "sb_charged_bytes ?sb \<le> sb_limit_bytes ?sb")
    case False
    show ?thesis
    proof (cases "sb_lines ?sb")
      case (Cons line rest)
      then have "line_shape line" using shape by (simp add: sb_shape_def)
      then obtain l charged removed where t: "trim_front e (sb_limit_bytes ?sb div 2) line (sb_charged_bytes ?sb) 0
          = Some (l, charged, removed)" and "line_shape l"
        using trim_front_shape [of line e "sb_limit_bytes ?sb div 2" "sb_charged_bytes ?sb" 0] by (auto simp: ok_iff)
      then show ?thesis
        using shape Cons False by (auto simp: enforce_limit_def Let_def sb_shape_def)
    qed (use shape False in \<open>simp add: enforce_limit_def Let_def\<close>)
  qed (use shape in \<open>simp add: enforce_limit_def Let_def\<close>)
qed


lemma set_limit_shape: "sb_shape sb \<Longrightarrow> ok sb_shape (set_limit_bytes e limit sb)"
  unfolding set_limit_bytes_def by (rule enforce_limit_shape) (simp add: sb_shape_def)

section \<open>Appending rows\<close>

lemma open_line_shape:
  assumes "sb_shape sb"
  shows "sb_shape (open_line e sb)" "sb_lines (open_line e sb) \<noteq> []"
    "sb_limit_bytes (open_line e sb) = sb_limit_bytes sb"
  using assms by (auto simp: open_line_def Let_def sb_shape_def line_shape_def new_line_def split: option.splits)

lemma append_row_shape:
  "line_shape l \<Longrightarrow> \<forall>c \<in> set (sr_cells r). cell_valid c \<Longrightarrow> line_shape (append_row e r l)"
  by (auto simp: append_row_def Let_def line_shape_def sorted_append)

lemma shrink_line_shape: "line_shape (shrink_line e l) = line_shape l"
  by (simp add: shrink_line_def line_shape_def)

lemma push_row_shape:
  assumes "sb_shape sb" "\<forall>c \<in> set (sr_cells r). cell_valid c"
  shows "ok sb_shape (push_row e r sb)"
proof (cases "sb_limit_bytes sb = 0")
  case True
  then show ?thesis using assms by (simp add: push_row_def Let_def sb_shape_def)
next
  case False
  let ?sb = "open_line e (sb\<lparr>sb_screen_row_origin := sat_add (sb_screen_row_origin sb) 1\<rparr>)"
  have open': "sb_shape ?sb" "sb_lines ?sb \<noteq> []" "sb_limit_bytes ?sb = sb_limit_bytes sb"
    using open_line_shape [of "sb\<lparr>sb_screen_row_origin := sat_add (sb_screen_row_origin sb) 1\<rparr>" e] assms(1)
    by (simp_all add: sb_shape_def)
  then have "line_shape (last (sb_lines ?sb))" by (simp add: sb_shape_def)
  note append_row_shape [OF this assms(2), of e]
  then have "ok sb_shape (enforce_limit e (?sb\<lparr>sb_lines := butlast (sb_lines ?sb) @ [l], sb_charged_bytes := n\<rparr>))"
    if "l = append_row e r (last (sb_lines ?sb)) \<or> l = shrink_line e (append_row e r (last (sb_lines ?sb)))" for l n
    using that open' by (intro enforce_limit_shape) (auto simp: sb_shape_def shrink_line_shape dest: in_set_butlastD)
  then have "ok (\<lambda>sb. sb_shape (if b then sb\<lparr>sb_active_oversize_line := None\<rparr> else sb))
      (enforce_limit e (?sb\<lparr>sb_lines := butlast (sb_lines ?sb) @ [l], sb_charged_bytes := n\<rparr>))"
    if "l = append_row e r (last (sb_lines ?sb)) \<or> l = shrink_line e (append_row e r (last (sb_lines ?sb)))" for l n b
    by (rule ok_mono [of sb_shape]) (use that in \<open>simp_all add: sb_shape_def\<close>)
  then show ?thesis
    using False by (simp add: push_row_def Let_def)
qed

lemma push_rows_shape:
  assumes "sb_shape sb" "rows_valid n rs"
  shows "ok sb_shape (push_rows e rs sb)"
  unfolding push_rows_def
  using assms by (intro foldM_inv) (auto simp: rows_valid_def intro: push_row_shape)

lemma sb_clear_shape: "sb_shape (sb_clear sb)"
  by (simp add: sb_clear_def sb_shape_def)

lemma scrollback_new_shape: "sb_shape (scrollback_new limit)"
  by (simp add: scrollback_new_def sb_shape_def)

end
