(* ===== verification/History_Spec.thy ===== *)
theory History_Spec
  imports History_Inv
begin

text \<open>
  The abstract history is the list of its physical rows, \<open>sb_view\<close>.  Pushing a row appends it and
  drops oldest rows until the byte limit holds; the row origins count exactly the rows dropped, and
  the charge is the sum of the line charges.
\<close>


section \<open>The abstract history: a list of rows\<close>

definition line_row :: "logical_line \<Rightarrow> nat \<Rightarrow> cell list" where
  "line_row l r = slice (boundary l r) (boundary l (r + 1) - boundary l r) (l_cells l)"

definition line_view :: "logical_line \<Rightarrow> screen_row list" where
  "line_view l = map (\<lambda>r. \<lparr>sr_cells = line_row l r,
      sr_soft_wrapped = (r + 1 < l_physical_rows l \<or> \<not> l_hard_break l)\<rparr>) [0..<l_physical_rows l]"

definition view :: "logical_line list \<Rightarrow> screen_row list" where
  "view ls = concat (map line_view ls)"

definition sb_view :: "scrollback \<Rightarrow> screen_row list" where
  "sb_view sb = view (sb_lines sb)"

abbreviation rows_total :: "logical_line list \<Rightarrow> nat" where
  "rows_total ls \<equiv> sum_list (map l_physical_rows ls)"

abbreviation charge_total :: "logical_line list \<Rightarrow> nat" where
  "charge_total ls \<equiv> sum_list (map l_charged_bytes ls)"

fun row_starts :: "nat \<Rightarrow> logical_line list \<Rightarrow> nat list" where
  "row_starts origin [] = []"
| "row_starts origin (l # ls) = origin # row_starts (origin + l_physical_rows l) ls"

lemma view_simps [simp]: "view [] = []" "view (l # ls) = line_view l @ view ls" "view (ls @ ls') = view ls @ view ls'"
  by (simp_all add: view_def)

lemma line_view_length [simp]: "length (line_view l) = l_physical_rows l"
  by (simp add: line_view_def)

lemma view_length [simp]: "length (view ls) = rows_total ls"
  by (induction ls) simp_all

lemma row_starts_length [simp]: "length (row_starts origin ls) = length ls"
  by (induction ls arbitrary: origin) simp_all

lemma row_starts_append:
  "row_starts origin (ls @ ls') = row_starts origin ls @ row_starts (origin + rows_total ls) ls'"
  by (induction ls arbitrary: origin) (simp_all add: add.assoc)

section \<open>What the history keeps\<close>

definition line_fine :: "env \<Rightarrow> logical_line \<Rightarrow> bool" where
  "line_fine e l \<longleftrightarrow> line_shape l \<and> boundary l (l_physical_rows l) = length (l_cells l) \<and>
     length (l_cells l) \<le> l_cell_capacity l \<and> length (l_row_ends l) \<le> l_row_end_capacity l \<and>
     l_charged_bytes l = compact_line_charge e (l_cell_capacity l) (l_row_end_capacity l) (l_cell_owned_bytes l)"

definition line_ok :: "env \<Rightarrow> logical_line \<Rightarrow> bool" where
  "line_ok e l \<longleftrightarrow> line_fine e l \<and> 0 < l_physical_rows l"

text \<open>Everything but the byte limit: lines well formed, only the newest one open, the row starts and
  origins the prefix sums of the physical rows, the charge the sum of the line charges, identifiers
  fresh.\<close>

definition sb_ok :: "env \<Rightarrow> scrollback \<Rightarrow> bool" where
  "sb_ok e sb \<longleftrightarrow>
     (\<forall>l \<in> set (sb_lines sb). line_ok e l) \<and>
     (\<forall>l \<in> set (butlast (sb_lines sb)). l_hard_break l) \<and>
     sb_line_row_starts sb = row_starts (sb_content_row_origin sb) (sb_lines sb) \<and>
     sb_screen_row_origin sb = sb_content_row_origin sb + rows_total (sb_lines sb) \<and>
     sb_screen_row_origin sb \<le> usize_max \<and>
     sb_charged_bytes sb = charge_total (sb_lines sb)"

definition vec_ok :: "env \<Rightarrow> bool" where
  "vec_ok e \<longleftrightarrow> (\<forall>c n. n \<le> c \<longrightarrow> n \<le> vec_shrink e c n \<and> vec_shrink e c n \<le> c) \<and>
     (\<forall>c n. n \<le> vec_grow e c n) \<and> 0 < size_line e"

lemma line_ok_shape: "line_ok e l \<Longrightarrow> line_shape l"
  by (simp add: line_ok_def line_fine_def)

lemma sb_ok_shape: "sb_ok e sb \<Longrightarrow> sb_shape sb"
  by (auto simp: sb_ok_def sb_shape_def intro: line_ok_shape)

lemma scrollback_new_ok: "sb_ok e (scrollback_new limit)"
  by (simp add: sb_ok_def scrollback_new_def)

lemma sb_clear_ok: "sb_ok e sb \<Longrightarrow> sb_ok e (sb_clear sb) \<and> sb_view (sb_clear sb) = []"
  by (simp add: sb_ok_def sb_clear_def sb_view_def)

section \<open>Charges\<close>

lemma sat_add_mono: "a \<le> b \<Longrightarrow> c \<le> d \<Longrightarrow> sat_add a c \<le> sat_add b d"
  by (simp add: sat_add_def min_def)

lemma sat_mul_mono:
  assumes "a \<le> b" "c \<le> d"
  shows "sat_mul a c \<le> sat_mul b d"
  using mult_le_mono [OF assms] by (simp add: sat_mul_def min_def)

lemma charge_mono:
  "a \<le> a' \<Longrightarrow> b \<le> b' \<Longrightarrow> c \<le> c' \<Longrightarrow> compact_line_charge e a b c \<le> compact_line_charge e a' b' c'"
  unfolding compact_line_charge_def by (intro sat_add_mono sat_mul_mono order_refl)

lemma recalculated_charge [simp]:
  "l_charged_bytes (recalculate_charge e l) =
     compact_line_charge e (l_cell_capacity l) (l_row_end_capacity l) (l_cell_owned_bytes l)"
  by (simp add: recalculate_charge_def compact_line_charge_def)


section \<open>Trimming the oldest line\<close>

lemma slice_drop: "slice a n (drop k xs) = slice (k + a) n xs"
  by (simp add: slice_def add.commute)

text \<open>\<open>l'\<close> is \<open>l\<close> without its first \<open>n\<close> rows.\<close>

definition trimmed :: "env \<Rightarrow> nat \<Rightarrow> logical_line \<Rightarrow> logical_line \<Rightarrow> bool" where
  "trimmed e n l l' \<longleftrightarrow> n \<le> l_physical_rows l \<and> l_physical_rows l' = l_physical_rows l - n \<and>
     line_view l' = drop n (line_view l) \<and> l_hard_break l' = l_hard_break l \<and> l_id l' = l_id l \<and>
     line_fine e l' \<and> l_charged_bytes l' \<le> l_charged_bytes l"

lemma trimmed_refl: "line_fine e l \<Longrightarrow> trimmed e 0 l l"
  by (simp add: trimmed_def)

lemma trimmed_trans: "trimmed e n l l' \<Longrightarrow> trimmed e m l' l'' \<Longrightarrow> trimmed e (n + m) l l''"
  by (auto simp: trimmed_def add.commute)

lemma drop_rows_view:
  assumes "line_shape l" "n \<le> l_physical_rows l"
    and "l_cells l' = drop (boundary l n) (l_cells l)"
    and "l_row_ends l' = map (\<lambda>x. x - boundary l n) (drop n (l_row_ends l))"
    and "l_physical_rows l' = l_physical_rows l - n" "l_hard_break l' = l_hard_break l"
  shows "\<And>r. r \<le> l_physical_rows l' \<Longrightarrow> boundary l' r = boundary l (n + r) - boundary l n"
    and "line_view l' = drop n (line_view l)"
proof -
  show b: "boundary l' r = boundary l (n + r) - boundary l n" if "r \<le> l_physical_rows l'" for r
    using that assms by (auto simp: boundary_def line_shape_def)
  have row: "line_row l' r = line_row l (n + r)" if "r < l_physical_rows l'" for r
    using that assms(5) b [of r] b [of "Suc r"] boundary_mono [OF assms(1), of n "n + r"] assms(2)
    by (simp add: line_row_def slice_drop assms(3))
  show "line_view l' = drop n (line_view l)"
    by (rule nth_equalityI) (use row assms(5,6) in \<open>auto simp: line_view_def\<close>)
qed

lemma trim_oldest_trimmed:
  assumes "line_fine e l" "vec_ok e" "target < l_charged_bytes l" "0 < l_physical_rows l"
  shows "ok (\<lambda>(n, l'). 0 < n \<and> trimmed e n l l') (trim_oldest_physical_rows_to e target l)"
proof -
  have shape: "line_shape l" using assms(1) by (simp add: line_fine_def)
  obtain n removed where loop: "trim_loop e l target 0 0 0 = Some (n, boundary l n, removed)"
    and n: "n \<le> l_physical_rows l" and r: "trim_oldest_physical_rows_to e target l =
      Some (n, if n = 0 then l else recalculate_charge e
        (l\<lparr>l_cells := drop (boundary l n) (l_cells l),
           l_row_ends := map (\<lambda>x. x - boundary l n) (drop n (l_row_ends l)),
           l_cell_capacity := vec_shrink e (l_cell_capacity l) (length (l_cells l) - boundary l n),
           l_row_end_capacity := vec_shrink e (l_row_end_capacity l) (length (l_row_ends l) - n),
           l_physical_rows := l_physical_rows l - n,
           l_trimmed_offset := sat_add (l_trimmed_offset l) (boundary l n),
           l_cell_owned_bytes := l_cell_owned_bytes l - removed\<rparr>))"
    using trim_oldest_result [OF shape] by metis
  have c1: "rd (l_row_ends l) 0 = Some (boundary l 1)"
    using shape assms(4) by (auto simp: line_shape_def rd_def boundary_def)
  have cs: "rd_range (l_cells l) 0 (boundary l 1) \<noteq> None"
    using assms(4) boundary_le [OF shape, of 1] by (simp add: rd_range_def)
  have pos: "0 < n"
  proof -
    obtain x where x: "rd_range (l_cells l) 0 (boundary l 1) = Some x" using cs by auto
    have "trim_loop e l target 0 0 0 = trim_loop e l target 1 (boundary l 1) (sat_add 0 (owned_sum x))"
      using assms(3,4) c1 x by (subst trim_loop.simps) simp
    then show ?thesis
      using trim_loop_stops [OF shape, of 1 e target "sat_add 0 (owned_sum x)"] assms(4) loop by auto
  qed
  define l' where "l' = recalculate_charge e
        (l\<lparr>l_cells := drop (boundary l n) (l_cells l),
           l_row_ends := map (\<lambda>x. x - boundary l n) (drop n (l_row_ends l)),
           l_cell_capacity := vec_shrink e (l_cell_capacity l) (length (l_cells l) - boundary l n),
           l_row_end_capacity := vec_shrink e (l_row_end_capacity l) (length (l_row_ends l) - n),
           l_physical_rows := l_physical_rows l - n,
           l_trimmed_offset := sat_add (l_trimmed_offset l) (boundary l n),
           l_cell_owned_bytes := l_cell_owned_bytes l - removed\<rparr>)"
  have res: "trim_oldest_physical_rows_to e target l = Some (n, l')" using r pos by (simp add: l'_def)
  have shape': "line_shape l'" using trim_oldest_shape [OF shape, of e target] by (simp add: res)
  have caps: "length (l_cells l) \<le> l_cell_capacity l" "length (l_row_ends l) \<le> l_row_end_capacity l"
    using assms(1) by (simp_all add: line_fine_def)
  have shrink: "k \<le> vec_shrink e c k \<and> vec_shrink e c k \<le> c" if "k \<le> c" for c k
    using that assms(2) by (simp add: vec_ok_def)
  have view: "line_view l' = drop n (line_view l)" "boundary l' (l_physical_rows l - n) = boundary l (l_physical_rows l) - boundary l n"
    using drop_rows_view [OF shape n, of l'] n by (simp_all add: l'_def)
  have fine: "line_fine e l'"
    unfolding line_fine_def
    using shape' view(2) assms(1) caps
      shrink [of "length (l_cells l) - boundary l n" "l_cell_capacity l"]
      shrink [of "length (l_row_ends l) - n" "l_row_end_capacity l"]
    by (simp add: l'_def line_fine_def)
  have "l_charged_bytes l' \<le> l_charged_bytes l"
    using assms(1) caps shrink [of "length (l_cells l) - boundary l n" "l_cell_capacity l"]
      shrink [of "length (l_row_ends l) - n" "l_row_end_capacity l"]
    by (simp add: l'_def line_fine_def charge_mono)
  then show ?thesis
    using pos n fine view by (simp add: res trimmed_def) (simp add: l'_def)
qed

lemma trim_front_trimmed:
  assumes "line_fine e l" "vec_ok e" "removed + l_physical_rows l \<le> usize_max"
  shows "ok (\<lambda>(l', charged', removed'). \<exists>n. trimmed e n l l' \<and> removed' = removed + n \<and>
      charged' = charged - (l_charged_bytes l - l_charged_bytes l') \<and>
      (l_charged_bytes l' \<le> target \<or> l_physical_rows l' = 0)) (trim_front e target l charged removed)"
  using assms
proof (induction e target l charged removed rule: trim_front.induct)
  case (1 e target l charged removed)
  show ?case
  proof (cases "target < l_charged_bytes l \<and> 0 < l_physical_rows l")
    case True
    obtain n l' where r: "trim_oldest_physical_rows_to e target l = Some (n, l')" "0 < n" "trimmed e n l l'"
      using trim_oldest_trimmed [OF 1(2,3), of target] True by (auto simp: ok_iff)
    have fits: "sat_add removed n = removed + n" "line_fine e l'" "removed + n + l_physical_rows l' \<le> usize_max"
      using r(3) 1(4) by (auto simp: trimmed_def)
    have "ok (\<lambda>(l'', charged', removed'). \<exists>m. trimmed e m l' l'' \<and> removed' = removed + n + m \<and>
      charged' = charged - (l_charged_bytes l - l_charged_bytes l') - (l_charged_bytes l' - l_charged_bytes l'') \<and>
      (l_charged_bytes l'' \<le> target \<or> l_physical_rows l'' = 0))
      (trim_front e target l' (charged - (l_charged_bytes l - l_charged_bytes l')) (removed + n))"
      using 1(1) [OF True r(1) refl] r(2) fits 1(3) by simp
    then have "ok (\<lambda>(l', charged', removed'). \<exists>n. trimmed e n l l' \<and> removed' = removed + n \<and>
      charged' = charged - (l_charged_bytes l - l_charged_bytes l') \<and>
      (l_charged_bytes l' \<le> target \<or> l_physical_rows l' = 0))
      (trim_front e target l' (charged - (l_charged_bytes l - l_charged_bytes l')) (removed + n))"
      by (rule ok_mono) (use r(3) trimmed_trans [OF r(3)] in \<open>fastforce simp: trimmed_def\<close>)
    then show ?thesis
      using True r fits by (subst trim_front.simps) simp
  next
    case False
    then show ?thesis
      using trimmed_refl [OF 1(2)] by (subst trim_front.simps) auto
  qed
qed


section \<open>Enforcing the limit\<close>

text \<open>\<open>sb'\<close> is \<open>sb\<close> without its \<open>n\<close> oldest rows.\<close>

definition dropped :: "env \<Rightarrow> nat \<Rightarrow> scrollback \<Rightarrow> scrollback \<Rightarrow> bool" where
  "dropped e n sb sb' \<longleftrightarrow> sb_ok e sb' \<and> sb_view sb' = drop n (sb_view sb) \<and> n \<le> length (sb_view sb) \<and>
     sb_content_row_origin sb' = sb_content_row_origin sb + n \<and>
     sb_screen_row_origin sb' = sb_screen_row_origin sb \<and> sb_limit_bytes sb' = sb_limit_bytes sb"

lemma evict_loop_ok:
  assumes "sb_ok e (sb\<lparr>sb_lines := ls\<rparr>)"
  shows "(\<exists>n. dropped e n (sb\<lparr>sb_lines := ls\<rparr>) (evict_loop ls sb)) \<and>
     (sb_charged_bytes (evict_loop ls sb) \<le> sb_limit_bytes sb \<or>
      (\<exists>l rest. sb_lines (evict_loop ls sb) = l # rest \<and> \<not> l_hard_break l))"
  using assms
proof (induction ls sb rule: evict_loop.induct)
  case (1 sb)
  then have "dropped e 0 (sb\<lparr>sb_lines := []\<rparr>) (sb\<lparr>sb_lines := []\<rparr>)" by (simp add: dropped_def)
  then show ?case using 1 by (auto simp: sb_ok_def)
next
  case (2 l ls sb)
  show ?case
  proof (cases "sb_charged_bytes sb \<le> sb_limit_bytes sb \<or> \<not> l_hard_break l")
    case True
    then have "dropped e 0 (sb\<lparr>sb_lines := l # ls\<rparr>) (sb\<lparr>sb_lines := l # ls\<rparr>)" using 2(2) by (simp add: dropped_def)
    with True show ?thesis by auto
  next
    case False
    let ?sb = "sb\<lparr>sb_line_row_starts := tl (sb_line_row_starts sb),
            sb_charged_bytes := sb_charged_bytes sb - l_charged_bytes l,
            sb_evicted_lines := sat_add (sb_evicted_lines sb) 1,
            sb_content_row_origin := sat_add (sb_content_row_origin sb) (l_physical_rows l)\<rparr>"
    have *: "sb_ok e (?sb\<lparr>sb_lines := ls\<rparr>)"
      using 2(2) by (auto simp: sb_ok_def split: if_splits)
    have "sat_add (sb_content_row_origin sb) (l_physical_rows l) = sb_content_row_origin sb + l_physical_rows l"
      using 2(2) by (simp add: sb_ok_def)
    moreover obtain n where "dropped e n (?sb\<lparr>sb_lines := ls\<rparr>) (evict_loop ls ?sb)"
      using 2(1) [OF False *] by auto
    ultimately have "dropped e (l_physical_rows l + n) (sb\<lparr>sb_lines := l # ls\<rparr>) (evict_loop ls ?sb)"
      by (auto simp: dropped_def sb_view_def)
    then show ?thesis
      using 2(1) [OF False *] False by auto
  qed
qed

lemma trimmed_ok:
  assumes "trimmed e n l l'" "sb_ok e sb" "sb_lines sb = l # rest" "sb_limit_bytes sb' = sb_limit_bytes sb"
    "sb_charged_bytes sb' = sb_charged_bytes sb - l_charged_bytes l + (if l_physical_rows l' = 0 then 0 else l_charged_bytes l')"
    "sb_content_row_origin sb' = sb_content_row_origin sb + n"
    "sb_screen_row_origin sb' = sb_screen_row_origin sb"
    "sb_lines sb' = (if l_physical_rows l' = 0 then rest else l' # rest)"
    "sb_line_row_starts sb' = (if l_physical_rows l' = 0 then tl (sb_line_row_starts sb)
       else (sb_content_row_origin sb + n) # tl (sb_line_row_starts sb))"
  shows "dropped e n sb sb'"
proof -
  have "line_ok e l'" if "0 < l_physical_rows l'" using that assms(1) by (simp add: line_ok_def trimmed_def)
  moreover have "\<forall>x \<in> set (butlast (sb_lines sb')). l_hard_break x"
    using assms(1,2,3,8) by (auto simp: sb_ok_def trimmed_def split: if_splits)
  ultimately show ?thesis
    using assms by (auto simp: dropped_def sb_view_def sb_ok_def trimmed_def)
qed

text \<open>The limit is enforced by dropping oldest rows only, and it is met.\<close>

lemma enforce_limit_ok:
  assumes "sb_ok e sb" "vec_ok e"
  shows "ok (\<lambda>sb'. (\<exists>n. dropped e n sb sb') \<and> sb_charged_bytes sb' \<le> sb_limit_bytes sb) (enforce_limit e sb)"
proof -
  let ?sb = "evict_complete_lines sb"
  have "sb_ok e (sb\<lparr>sb_lines := sb_lines sb\<rparr>)" using assms(1) by simp
  note ev = evict_loop_ok [OF this]
  obtain n where n: "dropped e n sb ?sb" using ev by (auto simp: evict_complete_lines_def)
  have limit: "sb_limit_bytes ?sb = sb_limit_bytes sb" "sb_ok e ?sb" using n by (simp_all add: dropped_def)
  show ?thesis
  proof (cases "sb_charged_bytes ?sb \<le> sb_limit_bytes ?sb")
    case True
    then show ?thesis using n limit by (auto simp: enforce_limit_def Let_def)
  next
    case False
    obtain line rest where lines: "sb_lines ?sb = line # rest" and soft: "\<not> l_hard_break line"
      using ev False limit by (auto simp: evict_complete_lines_def)
    have rest: "rest = []" using limit(2) lines soft by (cases rest) (auto simp: sb_ok_def)
    have fine: "line_fine e line" and rows: "0 < l_physical_rows line"
      "sb_content_row_origin ?sb + l_physical_rows line \<le> usize_max"
      "sb_charged_bytes ?sb = l_charged_bytes line"
      "sb_line_row_starts ?sb = [sb_content_row_origin ?sb]"
      using limit(2) lines rest by (auto simp: sb_ok_def line_ok_def)
    obtain l charged m where t: "trim_front e (sb_limit_bytes ?sb div 2) line (sb_charged_bytes ?sb) 0 = Some (l, charged, m)"
      "trimmed e m line l" "charged = l_charged_bytes l" "l_charged_bytes l \<le> sb_limit_bytes ?sb div 2 \<or> l_physical_rows l = 0"
      using trim_front_trimmed [OF fine assms(2), of 0 "sb_charged_bytes ?sb" "sb_limit_bytes ?sb div 2"] rows(2,3)
      by (fastforce simp: ok_iff trimmed_def)
    have m: "m \<le> l_physical_rows line" using t(2) by (simp add: trimmed_def)
    have sat: "sat_add (sb_content_row_origin ?sb) m = sb_content_row_origin ?sb + m" using m rows(2) by simp
    have "ok (\<lambda>sb'. sb_limit_bytes sb' = sb_limit_bytes ?sb \<and>
        sb_charged_bytes sb' = sb_charged_bytes ?sb - l_charged_bytes line + (if l_physical_rows l = 0 then 0 else l_charged_bytes l) \<and>
        sb_content_row_origin sb' = sb_content_row_origin ?sb + m \<and>
        sb_screen_row_origin sb' = sb_screen_row_origin ?sb \<and>
        sb_lines sb' = (if l_physical_rows l = 0 then rest else l # rest) \<and>
        sb_line_row_starts sb' = (if l_physical_rows l = 0 then tl (sb_line_row_starts ?sb)
          else (sb_content_row_origin ?sb + m) # tl (sb_line_row_starts ?sb))) (enforce_limit e sb)"
      using False lines t(1,3) sat rows rest by (auto simp: enforce_limit_def Let_def add_front_def)
    then have step: "ok (\<lambda>sb'. dropped e m ?sb sb' \<and> sb_charged_bytes sb' \<le> sb_limit_bytes sb) (enforce_limit e sb)"
      by (rule ok_mono) (use t(4) rows(3) limit(1) in \<open>auto intro!: trimmed_ok [OF t(2) limit(2) lines]\<close>)
    show ?thesis
      by (rule ok_mono [OF step], rule conjI, rule exI [of _ "n + m"])
        (use n in \<open>auto simp: dropped_def add.assoc add.commute drop_drop\<close>)
  qed
qed

section \<open>Nothing is forgotten without need\<close>

lemma owned_sum_eq: "owned_sum cs = min (sum_list (map cell_owned_charge cs)) usize_max"
proof -
  have "foldl sat_add a xs = min (a + sum_list xs) usize_max" if "a \<le> usize_max" for a xs
    using that by (induction xs arbitrary: a) (auto simp: sat_add_def min_def)
  then show ?thesis by (simp add: owned_sum_def)
qed

lemma owned_sum_append: "owned_sum (xs @ ys) = sat_add (owned_sum xs) (owned_sum ys)"
  by (simp add: owned_sum_eq sat_add_def min_def)

text \<open>The charge of a line in exact vectors once its \<open>j\<close> oldest rows are gone.\<close>

definition rest_charge :: "env \<Rightarrow> logical_line \<Rightarrow> nat \<Rightarrow> nat" where
  "rest_charge e l j = compact_line_charge e (length (l_cells l) - boundary l j) (length (l_row_ends l) - j)
     (l_cell_owned_bytes l - owned_sum (take (boundary l j) (l_cells l)))"

definition exact_shrink :: "env \<Rightarrow> bool" where
  "exact_shrink e \<longleftrightarrow> (\<forall>c n. n \<le> c \<longrightarrow> vec_shrink e c n = n)"

text \<open>
  \<open>kept\<close> is what remains of the lines \<open>ls\<close> when rows are forgotten only for the limit: complete lines go from
  the oldest on, and only while all that is left is charged more than the limit; beyond that, only a single
  unfinished line that alone exceeds the limit loses oldest rows, and (where vectors shrink exactly) no more of
  them than bring it under half the limit.
\<close>

definition overflow_only :: "env \<Rightarrow> nat \<Rightarrow> logical_line list \<Rightarrow> screen_row list \<Rightarrow> bool" where
  "overflow_only e limit ls kept \<longleftrightarrow> (\<exists>k \<le> length ls. (\<forall>j < k. limit < charge_total (drop j ls)) \<and>
     (kept = view (drop k ls) \<or>
      (\<exists>l n. drop k ls = [l] \<and> \<not> l_hard_break l \<and> limit < l_charged_bytes l \<and> kept = drop n (line_view l) \<and>
         (exact_shrink e \<longrightarrow> (\<forall>j. 0 < j \<and> j < n \<longrightarrow> limit div 2 < rest_charge e l j)))))"

lemma trim_loop_minimal:
  assumes "line_shape l" "trim_loop e l target r (boundary l r) (owned_sum (take (boundary l r) (l_cells l))) = Some (n, c, removed)"
    "r \<le> l_physical_rows l"
  shows "(\<forall>j. 0 < j \<and> r \<le> j \<and> j < n \<longrightarrow> target < rest_charge e l j) \<and> removed = owned_sum (take (boundary l n) (l_cells l)) \<and>
     (n < l_physical_rows l \<longrightarrow> rest_charge e l n \<le> target)"
  using assms(2,3)
proof (induction "l_physical_rows l - r" arbitrary: r)
  case 0
  then show ?case by (subst (asm) trim_loop.simps) auto
next
  case (Suc k)
  then have r: "r < l_physical_rows l" "r < length (l_row_ends l)" using assms(1) by (auto simp: line_shape_def)
  have end': "rd (l_row_ends l) r = Some (boundary l (Suc r))" using r by (simp add: rd_def boundary_def)
  have b: "boundary l r \<le> boundary l (Suc r)" "boundary l (Suc r) \<le> length (l_cells l)"
    using boundary_mono [OF assms(1), of r "Suc r"] boundary_le [OF assms(1), of "Suc r"] r by simp_all
  let ?cs = "slice (boundary l r) (boundary l (Suc r) - boundary l r) (l_cells l)"
  have cs: "rd_range (l_cells l) (boundary l r) (boundary l (Suc r)) = Some ?cs" using b by (simp add: rd_range_def)
  have "take (boundary l (Suc r)) (l_cells l) = take (boundary l r) (l_cells l) @ ?cs"
    using b(1) take_add [of "boundary l r" "boundary l (Suc r) - boundary l r" "l_cells l"] by (simp add: slice_def)
  then have sum: "sat_add (owned_sum (take (boundary l r) (l_cells l))) (owned_sum ?cs) = owned_sum (take (boundary l (Suc r)) (l_cells l))"
    by (simp add: owned_sum_append)
  show ?case
  proof (cases "rest_charge e l r \<le> target \<and> (0 < r \<or> l_charged_bytes l \<le> target)")
    case True
    then show ?thesis using Suc.prems r by (subst (asm) trim_loop.simps) (auto simp: rest_charge_def)
  next
    case False
    then have "trim_loop e l target r (boundary l r) (owned_sum (take (boundary l r) (l_cells l))) =
        trim_loop e l target (Suc r) (boundary l (Suc r)) (owned_sum (take (boundary l (Suc r)) (l_cells l)))"
      using r(1) end' cs sum by (subst trim_loop.simps) (auto simp: rest_charge_def)
    then have IH: "(\<forall>j. 0 < j \<and> Suc r \<le> j \<and> j < n \<longrightarrow> target < rest_charge e l j) \<and>
        removed = owned_sum (take (boundary l n) (l_cells l)) \<and> (n < l_physical_rows l \<longrightarrow> rest_charge e l n \<le> target)"
      using Suc.hyps(2) Suc.prems(1) r(1) by (intro Suc.hyps(1)) auto
    have "target < rest_charge e l j" if "0 < j" "r \<le> j" "j < n" for j
      using that IH False by (cases "j = r") auto
    then show ?thesis using IH by blast
  qed
qed

lemma trim_front_minimal:
  assumes "line_fine e l" "exact_shrink e" "trim_front e target l charged removed = Some (l', charged', removed')"
    "removed + l_physical_rows l \<le> usize_max"
  shows "\<forall>j. 0 < j \<and> j < removed' - removed \<longrightarrow> target < rest_charge e l j"
proof (cases "target < l_charged_bytes l \<and> 0 < l_physical_rows l")
  case True
  have shape: "line_shape l" and caps: "length (l_cells l) \<le> l_cell_capacity l" "length (l_row_ends l) \<le> l_row_end_capacity l"
    using assms(1) by (simp_all add: line_fine_def)
  obtain n owned where n: "trim_loop e l target 0 0 0 = Some (n, boundary l n, owned)" "n \<le> l_physical_rows l"
    and res: "trim_oldest_physical_rows_to e target l =
      Some (n, if n = 0 then l else recalculate_charge e
        (l\<lparr>l_cells := drop (boundary l n) (l_cells l),
           l_row_ends := map (\<lambda>x. x - boundary l n) (drop n (l_row_ends l)),
           l_cell_capacity := vec_shrink e (l_cell_capacity l) (length (l_cells l) - boundary l n),
           l_row_end_capacity := vec_shrink e (l_row_end_capacity l) (length (l_row_ends l) - n),
           l_physical_rows := l_physical_rows l - n,
           l_trimmed_offset := sat_add (l_trimmed_offset l) (boundary l n),
           l_cell_owned_bytes := l_cell_owned_bytes l - owned\<rparr>))" (is "_ = Some (n, if n = 0 then l else ?l)")
    using trim_oldest_result [OF shape, of e target] by metis
  have zero: "boundary l 0 = 0" "owned_sum [] = 0" by (simp_all add: boundary_def owned_sum_def)
  have min: "\<forall>j. 0 < j \<and> j < n \<longrightarrow> target < rest_charge e l j" "owned = owned_sum (take (boundary l n) (l_cells l))"
    "n < l_physical_rows l \<longrightarrow> rest_charge e l n \<le> target"
    using trim_loop_minimal [OF shape, of e target 0 n "boundary l n" owned] n(1) zero by simp_all
  have "l_charged_bytes ?l = rest_charge e l n"
    using caps assms(2) min(2) by (simp add: rest_charge_def exact_shrink_def le_diff_conv trans_le_add1)
  then have stop: "\<not> (target < l_charged_bytes ?l \<and> 0 < l_physical_rows ?l)" using min(3) by auto
  have "removed' = (if n = 0 then removed else removed + n)"
    using assms(3,4) True res n(2) stop
    by (subst (asm) trim_front.simps) (auto simp: trim_front.simps [of e target ?l] split: if_splits)
  then show ?thesis using min(1) by auto
qed (use assms(3) in \<open>auto simp: trim_front.simps [of e target l]\<close>)

lemma evict_loop_minimal:
  assumes "sb_charged_bytes sb = charge_total ls"
  shows "\<exists>k \<le> length ls. sb_lines (evict_loop ls sb) = drop k ls \<and>
     (\<forall>j < k. sb_limit_bytes sb < charge_total (drop j ls))"
  using assms
proof (induction ls sb rule: evict_loop.induct)
  case (2 l ls sb)
  show ?case
  proof (cases "sb_charged_bytes sb \<le> sb_limit_bytes sb \<or> \<not> l_hard_break l")
    case False
    then obtain k where k: "k \<le> length ls" "sb_lines (evict_loop (l # ls) sb) = drop k ls"
      "\<forall>j < k. sb_limit_bytes sb < charge_total (drop j ls)"
      using 2 by auto
    have "sb_limit_bytes sb < charge_total (drop j (l # ls))" if "j < Suc k" for j
      using that k(3) 2(2) False by (cases j) auto
    then show ?thesis using k by (intro exI [of _ "Suc k"]) auto
  qed auto
qed auto

lemma enforce_limit_needed:
  assumes "sb_ok e sb" "vec_ok e"
  shows "ok (\<lambda>sb'. overflow_only e (sb_limit_bytes sb) (sb_lines sb) (sb_view sb')) (enforce_limit e sb)"
proof -
  let ?sb = "evict_complete_lines sb"
  have "sb_ok e (sb\<lparr>sb_lines := sb_lines sb\<rparr>)" using assms(1) by simp
  note ev = evict_loop_ok [OF this]
  have limit: "sb_limit_bytes ?sb = sb_limit_bytes sb" "sb_ok e ?sb"
    using ev by (auto simp: dropped_def evict_complete_lines_def)
  obtain k where k: "k \<le> length (sb_lines sb)" "sb_lines ?sb = drop k (sb_lines sb)"
    "\<forall>j < k. sb_limit_bytes sb < charge_total (drop j (sb_lines sb))"
    using evict_loop_minimal [of sb "sb_lines sb"] assms(1) by (auto simp: sb_ok_def evict_complete_lines_def)
  show ?thesis
  proof (cases "sb_charged_bytes ?sb \<le> sb_limit_bytes ?sb")
    case True
    then show ?thesis using k by (auto simp: enforce_limit_def Let_def overflow_only_def sb_view_def)
  next
    case False
    obtain line rest where lines: "sb_lines ?sb = line # rest" and soft: "\<not> l_hard_break line"
      using ev False limit by (auto simp: evict_complete_lines_def)
    have rest: "rest = []" using limit(2) lines soft by (cases rest) (auto simp: sb_ok_def)
    have line: "line_fine e line" "l_physical_rows line \<le> usize_max" "sb_charged_bytes ?sb = l_charged_bytes line"
      using limit(2) lines rest by (auto simp: sb_ok_def line_ok_def)
    obtain l charged m where t: "trim_front e (sb_limit_bytes ?sb div 2) line (sb_charged_bytes ?sb) 0 = Some (l, charged, m)"
      "trimmed e m line l"
      using trim_front_trimmed [OF line(1) assms(2), of 0 "sb_charged_bytes ?sb" "sb_limit_bytes ?sb div 2"] line(2)
      by (fastforce simp: ok_iff)
    have minimal: "exact_shrink e \<Longrightarrow> \<forall>j. 0 < j \<and> j < m \<longrightarrow> sb_limit_bytes sb div 2 < rest_charge e line j"
      using trim_front_minimal [OF line(1) _ t(1)] line(2) limit(1) by simp
    have "line_view l = drop m (line_view line)" using t(2) by (simp add: trimmed_def)
    moreover have "l_physical_rows l = 0 \<Longrightarrow> line_view l = []" by (simp add: line_view_def)
    ultimately have "ok (\<lambda>sb'. sb_view sb' = drop m (line_view line)) (enforce_limit e sb)"
      using False lines t(1) rest by (auto simp: enforce_limit_def Let_def sb_view_def)
    then have kept: "ok (\<lambda>sb'. \<exists>l n. drop k (sb_lines sb) = [l] \<and> \<not> l_hard_break l \<and> sb_limit_bytes sb < l_charged_bytes l \<and>
        sb_view sb' = drop n (line_view l) \<and>
        (exact_shrink e \<longrightarrow> (\<forall>j. 0 < j \<and> j < n \<longrightarrow> sb_limit_bytes sb div 2 < rest_charge e l j))) (enforce_limit e sb)"
      by (rule ok_mono) (rule exI [of _ line], rule exI [of _ m], use k(2) False limit(1) line(3) lines rest soft minimal in auto)
    show ?thesis by (rule ok_mono [OF kept]) (use k in \<open>auto simp: overflow_only_def\<close>)
  qed
qed

section \<open>Appending a row\<close>

lemma boundary_append:
  "length (l_row_ends l) = l_physical_rows l \<Longrightarrow> r \<le> l_physical_rows l \<Longrightarrow> boundary (append_row e x l) r = boundary l r"
  by (auto simp: boundary_def append_row_def Let_def nth_append)

lemma append_row_view:
  assumes "line_fine e l" "\<not> l_hard_break l"
  shows "line_view (append_row e x l) = line_view l @ [x]"
proof -
  have len: "length (l_row_ends l) = l_physical_rows l" and shape: "line_shape l"
    and last': "boundary l (l_physical_rows l) = length (l_cells l)"
    using assms(1) by (simp_all add: line_fine_def line_shape_def)
  have row: "line_row (append_row e x l) r = line_row l r" if "r < l_physical_rows l" for r
    using that boundary_append [OF len, of _ e x] boundary_le [OF shape, of "Suc r"] boundary_mono [OF shape, of r "Suc r"]
    by (simp add: line_row_def) (simp add: append_row_def Let_def slice_def)
  have new: "line_row (append_row e x l) (l_physical_rows l) = sr_cells x"
    using boundary_append [OF len, of "l_physical_rows l" e x] last' len
    by (simp add: line_row_def) (simp add: append_row_def Let_def slice_def boundary_def nth_append)
  show ?thesis
    by (rule nth_equalityI)
      (use row new assms(2) in \<open>auto simp: line_view_def append_row_def Let_def nth_append less_Suc_eq
         simp del: upt_Suc\<close>)
qed

lemma append_row_fine:
  assumes "line_fine e l" "vec_ok e" "\<forall>c \<in> set (sr_cells x). cell_valid c"
  shows "line_ok e (append_row e x l)"
proof -
  have "line_shape (append_row e x l)" using append_row_shape assms by (simp add: line_fine_def)
  then show ?thesis
    using assms(1,2) by (auto simp: line_ok_def line_fine_def boundary_def line_shape_def vec_ok_def append_row_def Let_def nth_append)
qed

lemma shrink_line_ok:
  assumes "line_ok e l" "vec_ok e"
  shows "line_ok e (shrink_line e l)" "line_view (shrink_line e l) = line_view l"
    "l_charged_bytes (shrink_line e l) \<le> l_charged_bytes l"
  using assms
  by (auto simp: line_ok_def line_fine_def line_shape_def boundary_def shrink_line_def vec_ok_def line_view_def
      line_row_def intro!: charge_mono)

lemma open_line_fresh:
  assumes "sb_lines sb = [] \<or> l_hard_break (last (sb_lines sb))"
  shows "\<exists>i k. sb_lines (open_line e sb) = sb_lines sb @ [new_line e i k]"
    "sb_line_row_starts (open_line e sb) = sb_line_row_starts sb @ [sb_screen_row_origin sb - 1]"
    "sb_charged_bytes (open_line e sb) = sat_add (sb_charged_bytes sb) (size_line e)"
    "sb_content_row_origin (open_line e sb) = sb_content_row_origin sb"
    "sb_screen_row_origin (open_line e sb) = sb_screen_row_origin sb"
    "sb_limit_bytes (open_line e sb) = sb_limit_bytes sb"
  using assms
  by (cases "if sb_lines sb = [] then sb_active_oversize_line sb else None"; auto simp: open_line_def Let_def)+

text \<open>The line a row is appended to: the newest one if it is open, else a fresh one.\<close>

lemma open_line_ok:
  assumes "sb_ok e sb" "sb_charged_bytes sb + size_line e \<le> usize_max"
  defines "sb1 \<equiv> sb\<lparr>sb_screen_row_origin := sb_screen_row_origin sb + 1\<rparr>"
  shows "\<exists>older l. sb_lines (open_line e sb1) = older @ [l] \<and> \<not> l_hard_break l \<and> line_fine e l \<and>
     (\<forall>x \<in> set older. line_ok e x \<and> l_hard_break x) \<and> view (older @ [l]) = sb_view sb \<and>
     rows_total (older @ [l]) = rows_total (sb_lines sb) \<and>
     sb_line_row_starts (open_line e sb1) = row_starts (sb_content_row_origin sb) (older @ [l]) \<and>
     sb_charged_bytes (open_line e sb1) = charge_total (older @ [l]) \<and>
     sb_content_row_origin (open_line e sb1) = sb_content_row_origin sb \<and>
     sb_screen_row_origin (open_line e sb1) = sb_screen_row_origin sb + 1 \<and>
     sb_limit_bytes (open_line e sb1) = sb_limit_bytes sb"
proof (cases "sb_lines sb = [] \<or> l_hard_break (last (sb_lines sb))")
  case True
  have hard: "\<forall>x \<in> set (sb_lines sb). line_ok e x \<and> l_hard_break x"
    using assms(1) True by (cases "sb_lines sb" rule: rev_cases) (auto simp: sb_ok_def)
  have new: "line_fine e (new_line e i k)" "line_view (new_line e i k) = []" "l_charged_bytes (new_line e i k) = size_line e"
    "l_physical_rows (new_line e i k) = 0" "\<not> l_hard_break (new_line e i k)" for i k
    using assms(2) by (simp_all add: new_line_def line_fine_def line_shape_def boundary_def line_view_def
        compact_line_charge_def sat_add_def sat_mul_def)
  obtain i k where ik: "sb_lines (open_line e sb1) = sb_lines sb1 @ [new_line e i k]"
    using open_line_fresh(1) [of sb1 e] True by (auto simp: sb1_def)
  then show ?thesis
    using assms(1,2) hard new [of i k] open_line_fresh(2-6) [of sb1 e] True
    by (intro exI [of _ "sb_lines sb"] exI [of _ "new_line e i k"])
       (simp add: sb1_def sb_ok_def sb_view_def row_starts_append)
next
  case False
  then obtain older l where l: "sb_lines sb = older @ [l]" "\<not> l_hard_break l"
    by (cases "sb_lines sb" rule: rev_cases) auto
  then show ?thesis
    using False assms(1) by (auto simp: open_line_def sb1_def sb_ok_def sb_view_def line_ok_def)
qed

text \<open>No counter of the history overflows when this row is pushed.\<close>

definition push_fits :: "env \<Rightarrow> screen_row \<Rightarrow> scrollback \<Rightarrow> bool" where
  "push_fits e r sb \<longleftrightarrow> sb_screen_row_origin sb < usize_max \<and>
     sb_charged_bytes sb + size_line e + l_charged_bytes (append_row e r (last (sb_lines
       (open_line e (sb\<lparr>sb_screen_row_origin := sb_screen_row_origin sb + 1\<rparr>))))) \<le> usize_max"

definition pushed :: "env \<Rightarrow> screen_row \<Rightarrow> nat \<Rightarrow> scrollback \<Rightarrow> scrollback \<Rightarrow> bool" where
  "pushed e r n sb sb' \<longleftrightarrow> sb_ok e sb' \<and> sb_view sb' = drop n (sb_view sb @ [r]) \<and> n \<le> length (sb_view sb) + 1 \<and>
     sb_content_row_origin sb' = sb_content_row_origin sb + n \<and>
     sb_screen_row_origin sb' = sb_screen_row_origin sb + 1 \<and>
     sb_limit_bytes sb' = sb_limit_bytes sb \<and> sb_charged_bytes sb' \<le> sb_limit_bytes sb'"

lemma dropped_pushed:
  assumes "dropped e n mid sb'" "sb_charged_bytes sb' \<le> sb_limit_bytes mid" "sb_view mid = sb_view sb @ [r]"
    "sb_content_row_origin mid = sb_content_row_origin sb"
    "sb_screen_row_origin mid = sb_screen_row_origin sb + 1" "sb_limit_bytes mid = sb_limit_bytes sb"
  shows "pushed e r n sb (if b then sb'\<lparr>sb_active_oversize_line := None\<rparr> else sb')"
  using assms by (simp add: dropped_def pushed_def) (simp add: sb_ok_def sb_view_def)

lemma limit_zero_empty: "sb_ok e sb \<Longrightarrow> vec_ok e \<Longrightarrow> sb_charged_bytes sb = 0 \<Longrightarrow> sb_lines sb = []"
  by (cases "sb_lines sb")
     (auto simp: sb_ok_def line_ok_def line_fine_def compact_line_charge_def sat_add_def vec_ok_def usize_max_def)

text \<open>The history with a row appended, before its limit is enforced.\<close>

definition with_row :: "env \<Rightarrow> screen_row \<Rightarrow> scrollback \<Rightarrow> scrollback" where
  "with_row e r sb0 =
     (let sb = open_line e (sb0\<lparr>sb_screen_row_origin := sat_add (sb_screen_row_origin sb0) 1\<rparr>);
          line = last (sb_lines sb);
          l = append_row e r line;
          l = (if \<not> sr_soft_wrapped r \<or> (sb_limit_bytes sb < l_charged_bytes l \<and>
                 map_option fst (sb_active_oversize_line sb) \<noteq> Some (l_id line))
               then shrink_line e l else l)
      in sb\<lparr>sb_lines := butlast (sb_lines sb) @ [l],
            sb_charged_bytes := sat_add (sb_charged_bytes sb - l_charged_bytes line) (l_charged_bytes l)\<rparr>)"

lemma push_row_enforces:
  assumes "sb_limit_bytes sb \<noteq> 0"
  shows "push_row e r sb = map_option (\<lambda>sb. if sr_soft_wrapped r then sb else sb\<lparr>sb_active_oversize_line := None\<rparr>)
     (enforce_limit e (with_row e r sb))"
proof -
  have "sb_limit_bytes (sb\<lparr>sb_screen_row_origin := x\<rparr>) \<noteq> 0" for x using assms by simp
  then show ?thesis by (cases "enforce_limit e (with_row e r sb)") (simp_all add: push_row_def with_row_def Let_def)
qed

lemma with_row_lines:
  assumes "sb_ok e sb" "vec_ok e" "push_fits e r sb" "\<forall>c \<in> set (sr_cells r). cell_valid c"
  shows "\<exists>older l l'. sb_lines (open_line e (sb\<lparr>sb_screen_row_origin := sb_screen_row_origin sb + 1\<rparr>)) = older @ [l] \<and>
     (l' = append_row e r l \<or> l' = shrink_line e (append_row e r l)) \<and> line_ok e l' \<and> line_view l' = line_view l @ [r] \<and>
     l_physical_rows l' = l_physical_rows l + 1 \<and> l_charged_bytes l' \<le> l_charged_bytes (append_row e r l) \<and>
     with_row e r sb = (open_line e (sb\<lparr>sb_screen_row_origin := sb_screen_row_origin sb + 1\<rparr>))
       \<lparr>sb_lines := older @ [l'], sb_charged_bytes := sat_add (charge_total older) (l_charged_bytes l')\<rparr>"
proof -
  let ?sb = "open_line e (sb\<lparr>sb_screen_row_origin := sb_screen_row_origin sb + 1\<rparr>)"
  obtain older l where o: "sb_lines ?sb = older @ [l]" "\<not> l_hard_break l" "line_fine e l" "sb_charged_bytes ?sb = charge_total (older @ [l])"
    using open_line_ok [OF assms(1)] assms(3) by (auto simp: push_fits_def)
  note new = append_row_fine [OF o(3) assms(2,4)] append_row_view [OF o(3,2), of r]
  note shrunk = shrink_line_ok [OF new(1) assms(2)]
  have rows: "l_physical_rows (append_row e r l) = l_physical_rows l + 1"
    "l_physical_rows (shrink_line e (append_row e r l)) = l_physical_rows l + 1"
    by (simp_all add: append_row_def shrink_line_def Let_def)
  have eq: "with_row e r sb = ?sb\<lparr>sb_lines := older @ [l'], sb_charged_bytes := sat_add (charge_total older) (l_charged_bytes l')\<rparr>"
    if "l' = (if \<not> sr_soft_wrapped r \<or> (sb_limit_bytes ?sb < l_charged_bytes (append_row e r l) \<and>
                 map_option fst (sb_active_oversize_line ?sb) \<noteq> Some (l_id l))
               then shrink_line e (append_row e r l) else append_row e r l)" for l'
    using o assms(3) that by (simp add: with_row_def push_fits_def Let_def)
  show ?thesis
    by (rule exI [of _ older], rule exI [of _ l], rule exI, intro conjI; (rule eq [OF refl])?)
       (use o new shrunk rows in auto)
qed

text \<open>Appending a row adds exactly that row and keeps everything but the limit.\<close>

lemma with_row_ok:
  assumes "sb_ok e sb" "vec_ok e" "push_fits e r sb" "\<forall>c \<in> set (sr_cells r). cell_valid c"
  shows "sb_ok e (with_row e r sb)" "sb_view (with_row e r sb) = sb_view sb @ [r]"
    "sb_content_row_origin (with_row e r sb) = sb_content_row_origin sb"
    "sb_screen_row_origin (with_row e r sb) = sb_screen_row_origin sb + 1"
    "sb_limit_bytes (with_row e r sb) = sb_limit_bytes sb"
proof -
  let ?sb = "open_line e (sb\<lparr>sb_screen_row_origin := sb_screen_row_origin sb + 1\<rparr>)"
  obtain older l where o: "sb_lines ?sb = older @ [l]"
    "\<forall>x \<in> set older. line_ok e x \<and> l_hard_break x" "view (older @ [l]) = sb_view sb"
    "rows_total (older @ [l]) = rows_total (sb_lines sb)"
    "sb_line_row_starts ?sb = row_starts (sb_content_row_origin sb) (older @ [l])"
    "sb_charged_bytes ?sb = charge_total (older @ [l])"
    "sb_content_row_origin ?sb = sb_content_row_origin sb"
    "sb_screen_row_origin ?sb = sb_screen_row_origin sb + 1" "sb_limit_bytes ?sb = sb_limit_bytes sb"
    using open_line_ok [OF assms(1)] assms(3) by (auto simp: push_fits_def)
  obtain l' where l': "line_ok e l'" "line_view l' = line_view l @ [r]" "l_physical_rows l' = l_physical_rows l + 1"
    "l_charged_bytes l' \<le> l_charged_bytes (append_row e r l)"
    and eq: "with_row e r sb = ?sb\<lparr>sb_lines := older @ [l'], sb_charged_bytes := sat_add (charge_total older) (l_charged_bytes l')\<rparr>"
    using with_row_lines [OF assms] o(1) by auto
  have "sb_charged_bytes ?sb \<le> sb_charged_bytes sb + size_line e"
    by (auto simp: open_line_def Let_def sat_add_def split: option.split)
  then have "charge_total older + l_charged_bytes l' \<le> usize_max" using assms(3) o(1,6) l'(4) by (simp add: push_fits_def)
  then have sat: "sat_add (charge_total older) (l_charged_bytes l') = charge_total older + l_charged_bytes l'" by simp
  show "sb_ok e (with_row e r sb)"
    unfolding eq sat using o l' assms(1,3) by (auto simp: sb_ok_def row_starts_append push_fits_def)
  show "sb_view (with_row e r sb) = sb_view sb @ [r]" unfolding eq using o(3) l'(2) by (simp add: sb_view_def)
  show "sb_content_row_origin (with_row e r sb) = sb_content_row_origin sb"
    "sb_screen_row_origin (with_row e r sb) = sb_screen_row_origin sb + 1"
    "sb_limit_bytes (with_row e r sb) = sb_limit_bytes sb"
    unfolding eq using o by simp_all
qed

lemma sb_view_active [simp]: "sb_view (sb\<lparr>sb_active_oversize_line := x\<rparr>) = sb_view sb"
  by (simp add: sb_view_def)

lemma push_row_ok:
  assumes "sb_ok e sb" "sb_charged_bytes sb \<le> sb_limit_bytes sb" "vec_ok e" "push_fits e r sb"
    "\<forall>c \<in> set (sr_cells r). cell_valid c"
  shows "ok (\<lambda>sb'. (\<exists>n. pushed e r n sb sb') \<and>
     (sb_limit_bytes sb \<noteq> 0 \<longrightarrow> overflow_only e (sb_limit_bytes sb) (sb_lines (with_row e r sb)) (sb_view sb'))) (push_row e r sb)"
proof (cases "sb_limit_bytes sb = 0")
  case True
  have "sb_lines sb = []" using limit_zero_empty [OF assms(1,3)] assms(2) True by simp
  then have "ok (pushed e r 1 sb) (push_row e r sb)"
    using assms(1,4) True by (auto simp: push_row_def Let_def pushed_def sb_ok_def sb_view_def push_fits_def)
  then show ?thesis by (rule ok_mono) (use True in blast)
next
  case False
  note w = with_row_ok [OF assms(1,3,4,5)]
  obtain sb' n where sb': "enforce_limit e (with_row e r sb) = Some sb'" "dropped e n (with_row e r sb) sb'"
    "sb_charged_bytes sb' \<le> sb_limit_bytes (with_row e r sb)"
    "overflow_only e (sb_limit_bytes sb) (sb_lines (with_row e r sb)) (sb_view sb')"
    using enforce_limit_ok [OF w(1) assms(3)] enforce_limit_needed [OF w(1) assms(3)] w(5) by (auto simp: ok_iff)
  have "pushed e r n sb (if \<not> sr_soft_wrapped r then sb'\<lparr>sb_active_oversize_line := None\<rparr> else sb')"
    by (rule dropped_pushed [OF sb'(2,3) w(2-5)])
  then show ?thesis using False sb'(1,4) by (auto simp: push_row_enforces split: if_splits)
qed

end
