(* ===== verification/History_Lookup.thy ===== *)
theory History_Lookup
  imports History_Spec
begin

text \<open>
  The binary search over the line starts finds the partition point, row lookups read the abstract
  history, and the row ends a reflow computes cut a line into rows of at most the given width without
  separating a double-width cell from its continuation.
\<close>


section \<open>The binary search\<close>

lemma sorted_takeWhile_nth:
  assumes "sorted xs" "i < length xs"
  shows "xs ! i \<le> t \<longleftrightarrow> i < length (takeWhile (\<lambda>x. x \<le> t) xs)"
  using assms
proof (induction xs arbitrary: i)
  case (Cons x xs)
  then show ?case
    by (cases i) (auto, (meson nth_mem order_trans)+)
qed simp

text \<open>On any list the search stays in range and stops after a position it has seen at or below the
  target.\<close>

lemma search_loop_safe:
  assumes "high \<le> length starts" "low \<le> high" "low \<noteq> 0 \<longrightarrow> starts ! (low - 1) \<le> target"
  shows "ok (\<lambda>k. k \<le> length starts \<and> (k \<noteq> 0 \<longrightarrow> starts ! (k - 1) \<le> target)) (search_loop starts target low high)"
  using assms
proof (induction starts target low high rule: search_loop.induct)
  case (1 starts target low high)
  show ?case
  proof (cases "low < high")
    case True
    let ?mid = "low + (high - low) div 2"
    have mid: "rd starts ?mid = Some (starts ! ?mid)" "?mid < high" using True 1(3) by (auto simp: rd_def)
    show ?thesis
      using 1(1) [OF True refl mid(1)] 1(2) [OF True refl mid(1)] 1(3-5) mid True
      by (subst search_loop.simps) (simp add: Let_def)
  next
    case False
    then show ?thesis using 1(3-5) by (subst search_loop.simps) simp
  qed
qed

text \<open>On a sorted list it finds the partition point.\<close>

lemma search_loop_partition:
  assumes "sorted starts" "high \<le> length starts" "low \<le> length (takeWhile (\<lambda>x. x \<le> target) starts)"
    "length (takeWhile (\<lambda>x. x \<le> target) starts) \<le> high"
  shows "search_loop starts target low high = Some (length (takeWhile (\<lambda>x. x \<le> target) starts))"
  using assms
proof (induction starts target low high rule: search_loop.induct)
  case (1 starts target low high)
  show ?case
  proof (cases "low < high")
    case True
    let ?mid = "low + (high - low) div 2"
    have mid: "rd starts ?mid = Some (starts ! ?mid)" "?mid < high" "?mid < length starts" using True 1(4) by (auto simp: rd_def)
    show ?thesis
      using 1(1) [OF True refl mid(1)] 1(2) [OF True refl mid(1)] 1(3-6) mid True
        sorted_takeWhile_nth [OF 1(3) mid(3), of target]
      by (subst search_loop.simps) (auto simp: Let_def)
  next
    case False
    then show ?thesis using 1(3-6) by (subst search_loop.simps) simp
  qed
qed

section \<open>From a row number to its line\<close>

lemma row_starts_ge: "x \<in> set (row_starts origin ls) \<Longrightarrow> origin \<le> x"
  by (induction ls arbitrary: origin) fastforce+

lemma row_starts_sorted: "sorted (row_starts origin ls)"
  by (induction ls arbitrary: origin) (auto dest!: row_starts_ge)

lemma row_starts_split:
  assumes "\<forall>l \<in> set ls. 0 < l_physical_rows l" "ls \<noteq> []" "origin \<le> t"
  shows "\<exists>older l newer. ls = older @ l # newer \<and>
     length (takeWhile (\<lambda>x. x \<le> t) (row_starts origin ls)) = Suc (length older) \<and>
     origin + rows_total older \<le> t \<and> (t < origin + rows_total older + l_physical_rows l \<or> newer = [])"
  using assms
proof (induction ls arbitrary: origin)
  case (Cons l ls)
  show ?case
  proof (cases "ls = [] \<or> t < origin + l_physical_rows l")
    case True
    then have "length (takeWhile (\<lambda>x. x \<le> t) (row_starts (origin + l_physical_rows l) ls)) = 0"
      by (cases ls) auto
    then show ?thesis
      using Cons.prems True by (intro exI [of _ "[]"] exI [of _ l] exI [of _ ls]) auto
  next
    case False
    then obtain older m newer where "ls = older @ m # newer"
      "length (takeWhile (\<lambda>x. x \<le> t) (row_starts (origin + l_physical_rows l) ls)) = Suc (length older)"
      "origin + l_physical_rows l + rows_total older \<le> t"
      "t < origin + l_physical_rows l + rows_total older + l_physical_rows m \<or> newer = []"
      using Cons.IH [of "origin + l_physical_rows l"] Cons.prems by auto
    then show ?thesis
      using Cons.prems by (intro exI [of _ "l # older"] exI [of _ m] exI [of _ newer]) auto
  qed
qed simp

lemma row_starts_nth: "row_starts origin (older @ l # newer) ! length older = origin + rows_total older"
  by (simp add: row_starts_append nth_append)

text \<open>The line and the row within it, for a row number counted from the oldest retained row.\<close>

lemma locate_row_split:
  assumes "sb_ok e sb" "sb_lines sb \<noteq> []"
  shows "\<exists>older l newer. sb_lines sb = older @ l # newer \<and> rows_total older \<le> r \<and>
     (r < rows_total older + l_physical_rows l \<or> newer = []) \<and>
     locate_row sb (sb_content_row_origin sb + r) = Some (Some (length older, l, r - rows_total older))"
proof -
  have starts: "sb_line_row_starts sb = row_starts (sb_content_row_origin sb) (sb_lines sb)"
    using assms(1) by (simp add: sb_ok_def)
  obtain older l newer where s: "sb_lines sb = older @ l # newer"
     "length (takeWhile (\<lambda>x. x \<le> sb_content_row_origin sb + r) (sb_line_row_starts sb)) = Suc (length older)"
     "rows_total older \<le> r" "r < rows_total older + l_physical_rows l \<or> newer = []"
    using row_starts_split [of "sb_lines sb" "sb_content_row_origin sb" "sb_content_row_origin sb + r"] assms
    by (auto simp: sb_ok_def line_ok_def starts)
  have "search_loop (sb_line_row_starts sb) (sb_content_row_origin sb + r) 0 (length (sb_line_row_starts sb)) = Some (Suc (length older))"
    using search_loop_partition [of "sb_line_row_starts sb" "length (sb_line_row_starts sb)" 0 "sb_content_row_origin sb + r"]
      s(1,2) row_starts_sorted starts by (simp add: length_takeWhile_le)
  moreover have "sb_line_row_starts sb \<noteq> []" using s(1) starts by (cases older) simp_all
  moreover have "rd (sb_line_row_starts sb) (length older) = Some (sb_content_row_origin sb + rows_total older)"
    by (simp add: rd_def starts s(1) row_starts_nth)
  ultimately have "locate_row sb (sb_content_row_origin sb + r) = Some (Some (length older, l, r - rows_total older))"
    using s(3) by (simp add: locate_row_def line_index_for_absolute_row_def rd_def s(1))
  with s show ?thesis by blast
qed

lemma line_physical_row_ok:
  assumes "line_shape l"
  shows "line_physical_row l r = Some (map_option sr_cells (rd (line_view l) r))"
proof (cases "r < l_physical_rows l")
  case True
  then have "rd (l_row_ends l) r = Some (boundary l (Suc r))" "row_start_of (l_row_ends l) r = boundary l r"
    using assms row_start_boundary [of r l] by (auto simp: rd_def boundary_def line_shape_def)
  then show ?thesis
    using True boundary_mono [OF assms, of r "Suc r"] boundary_le [OF assms, of "Suc r"]
    by (simp add: line_physical_row_def rd_range_def rd_def line_view_def line_row_def)
next
  case False
  then show ?thesis using assms by (simp add: line_physical_row_def rd_def line_shape_def)
qed

lemma soft_wrapped_row_ok:
  "line_physical_row_soft_wrapped l r = map_option sr_soft_wrapped (rd (line_view l) r)"
  by (simp add: line_physical_row_soft_wrapped_def rd_def line_view_def)

text \<open>Row lookups read the abstract history.\<close>

lemma physical_row_cells_ok:
  assumes "sb_ok e sb" "sb_content_row_origin sb + r \<le> usize_max"
  shows "physical_row_cells sb r = Some (map_option sr_cells (rd (sb_view sb) r))"
    "physical_row_soft_wrapped sb r = Some (map_option sr_soft_wrapped (rd (sb_view sb) r))"
proof -
  have "physical_row_cells sb r = Some (map_option sr_cells (rd (sb_view sb) r)) \<and>
    physical_row_soft_wrapped sb r = Some (map_option sr_soft_wrapped (rd (sb_view sb) r))"
  proof (cases "sb_lines sb = []")
    case True
    then show ?thesis
      using assms by (simp add: physical_row_cells_def physical_row_soft_wrapped_def locate_row_def
          line_index_for_absolute_row_def sb_ok_def sb_view_def rd_def)
  next
    case False
    obtain older l newer where s: "sb_lines sb = older @ l # newer" "rows_total older \<le> r"
       "r < rows_total older + l_physical_rows l \<or> newer = []"
       "locate_row sb (sb_content_row_origin sb + r) = Some (Some (length older, l, r - rows_total older))"
      using locate_row_split [OF assms(1) False] by blast
    have v: "rd (sb_view sb) r = rd (line_view l) (r - rows_total older)"
      using s(2,3) by (auto simp: rd_def sb_view_def s(1) nth_append)
    have "line_shape l" using assms(1) s(1) by (auto simp: sb_ok_def intro: line_ok_shape)
    then show ?thesis
      using assms(2) s(4) v
      by (simp add: physical_row_cells_def physical_row_soft_wrapped_def line_physical_row_ok soft_wrapped_row_ok)
  qed
  then show "physical_row_cells sb r = Some (map_option sr_cells (rd (sb_view sb) r))"
    "physical_row_soft_wrapped sb r = Some (map_option sr_soft_wrapped (rd (sb_view sb) r))" by blast+
qed


section \<open>Reflow\<close>

text \<open>Row ends that cut \<open>n\<close> cells, from \<open>s\<close> on, into rows of at most \<open>cols\<close> cells.\<close>

fun cuts :: "nat \<Rightarrow> nat \<Rightarrow> nat \<Rightarrow> nat list \<Rightarrow> bool" where
  "cuts cols n s [] = False"
| "cuts cols n s [x] = (x = n \<and> s \<le> n \<and> n - s \<le> cols)"
| "cuts cols n s (x # y # zs) = (s < x \<and> x - s \<le> cols \<and> cuts cols n x (y # zs))"

text \<open>A position where one cluster ends and the next begins.\<close>

inductive unit_start :: "cell list \<Rightarrow> nat \<Rightarrow> bool" for cs where
  first: "unit_start cs 0"
| step: "unit_start cs i \<Longrightarrow> i < length cs \<Longrightarrow> unit_start cs (i + unit_cells cs i)"

inductive_cases unit_startE: "unit_start cs i"

lemma cuts_Cons: "s < x \<Longrightarrow> x - s \<le> cols \<Longrightarrow> cuts cols n x T \<Longrightarrow> cuts cols n s (x # T)"
  by (cases T) auto

lemma unit_cells_bound: "i < length cs \<Longrightarrow> 0 < unit_cells cs i \<and> unit_cells cs i \<le> 2 \<and> i + unit_cells cs i \<le> length cs"
  by (auto simp: unit_cells_def rd_def split: if_splits option.splits)

lemma reflow_loop_cuts:
  assumes "2 \<le> cols" "index \<le> length cs" "used \<le> cols" "used \<le> index" "unit_start cs index"
  shows "\<exists>T. reflow_loop cols cs index used ends @ [length cs] = ends @ T \<and> cuts cols (length cs) (index - used) T
     \<and> (\<forall>x \<in> set (butlast T). unit_start cs x)"
  using assms
proof (induction cols cs index used ends rule: reflow_loop.induct)
  case (1 cols cs index used ends)
  show ?case
  proof (cases "index < length cs")
    case True
    define n where "n = unit_cells cs index"
    define wrap where "wrap = (0 < used \<and> cols < used + n)"
    define ends' where "ends' = (if wrap then ends @ [index] else ends)"
    define used' where "used' = (if wrap then 0 else used)"
    have n: "0 < n" "n \<le> 2" "index + n \<le> length cs" using unit_cells_bound [OF True] by (simp_all add: n_def)
    have "unit_start cs (index + n)" unfolding n_def using 1(6) True by (rule unit_start.step)
    moreover have "used' + n \<le> cols" using n(2) 1(2,4) by (auto simp: used'_def wrap_def)
    moreover have "used' + n \<le> index + n" using 1(5) by (simp add: used'_def)
    ultimately obtain T where T: "reflow_loop cols cs (index + n) (used' + n) ends' @ [length cs] = ends' @ T"
      "cuts cols (length cs) (index + n - (used' + n)) T" "\<forall>x \<in> set (butlast T). unit_start cs x"
      using 1(1) [OF True n_def wrap_def ends'_def used'_def 1(2) n(3)] by blast
    have loop: "reflow_loop cols cs index used ends = reflow_loop cols cs (index + n) (used' + n) ends'"
      using True by (subst reflow_loop.simps) (simp add: n_def wrap_def ends'_def used'_def Let_def)
    show ?thesis
    proof (cases wrap)
      case True
      then have "cuts cols (length cs) (index - used) (index # T)"
        using T(2) 1(4,5) by (intro cuts_Cons) (auto simp: used'_def wrap_def)
      moreover have "\<forall>x \<in> set (butlast (index # T)). unit_start cs x" using T(3) 1(6) by auto
      ultimately show ?thesis
        using T(1) True by (intro exI [of _ "index # T"]) (simp add: loop ends'_def)
    next
      case False
      then show ?thesis using T by (intro exI [of _ T]) (simp add: loop ends'_def used'_def)
    qed
  next
    case False
    then show ?thesis using 1(2-6) by (subst reflow_loop.simps) (auto intro!: exI [of _ "[length cs]"])
  qed
qed

lemma reflow_ends_cuts:
  assumes "2 \<le> cols"
  shows "cuts cols (length cs) 0 (reflow_ends cols cs)" "\<forall>x \<in> set (reflow_ends cols cs). unit_start cs x \<or> x = length cs"
proof -
  have "cuts cols (length cs) 0 (reflow_ends cols cs) \<and> (\<forall>x \<in> set (butlast (reflow_ends cols cs)). unit_start cs x)"
    using reflow_loop_cuts [of cols 0 cs 0 "[]"] assms by (auto simp: reflow_ends_def max_def intro: unit_start.first)
  then have c: "cuts cols (length cs) 0 (reflow_ends cols cs)" and b: "\<forall>x \<in> set (butlast (reflow_ends cols cs)). unit_start cs x"
    by blast+
  show "cuts cols (length cs) 0 (reflow_ends cols cs)" by (rule c)
  have "\<exists>ys. reflow_ends cols cs = ys @ [length cs]"
    unfolding reflow_ends_def by (cases "cs = []") auto
  then obtain ys where ys: "reflow_ends cols cs = ys @ [length cs]" ..
  with b show "\<forall>x \<in> set (reflow_ends cols cs). unit_start cs x \<or> x = length cs" by auto
qed

lemma unit_start_not_inside:
  assumes "unit_start cs x" "0 < x" "x < length cs"
  shows "\<not> (c_width (cs ! (x - 1)) = Double \<and> c_width (cs ! x) = Continuation)"
  using assms(1)
proof cases
  case (step i)
  then show ?thesis
    using assms(2,3) by (auto simp: unit_cells_def rd_def split: if_splits)
qed (use assms(2) in simp)

lemma cuts_sorted:
  "cuts cols n s T \<Longrightarrow> T \<noteq> [] \<and> last T = n \<and> s \<le> hd T \<and> sorted T \<and> (\<forall>x \<in> set T. x \<le> n)"
  by (induction cols n s T rule: cuts.induct) auto

lemma cuts_gap: "cuts cols n s T \<Longrightarrow> i < length T \<Longrightarrow> T ! i - (s # T) ! i \<le> cols"
proof (induction cols n s T arbitrary: i rule: cuts.induct)
  case (3 cols n s x y zs)
  then show ?case by (cases i) auto
qed auto


lemma pushed_capacity_ge: "vec_ok e \<Longrightarrow> n \<le> pushed_capacity e n"
  by (cases n) (simp_all add: pushed_capacity_def vec_ok_def)

lemma reflow_boundary: "boundary (line_reflow e cols l) r = (0 # reflow_ends cols (l_cells l)) ! r"
  by (cases r) (simp_all add: boundary_def line_reflow_def Let_def)

lemma line_reflow_fields [simp]:
  "l_id (line_reflow e cols l) = l_id l" "l_cells (line_reflow e cols l) = l_cells l"
  "l_hard_break (line_reflow e cols l) = l_hard_break l" "l_trimmed_offset (line_reflow e cols l) = l_trimmed_offset l"
  "l_row_ends (line_reflow e cols l) = reflow_ends cols (l_cells l)"
  "l_physical_rows (line_reflow e cols l) = length (reflow_ends cols (l_cells l))"
  by (simp_all add: line_reflow_def Let_def)

lemma line_reflow_shape:
  assumes "line_shape l" "2 \<le> cols"
  shows "line_shape (line_reflow e cols l)"
  using assms(1) cuts_sorted [OF reflow_ends_cuts(1) [OF assms(2), of "l_cells l"]] by (simp add: line_shape_def)

lemma line_reflow_ok:
  assumes "line_ok e l" "vec_ok e" "2 \<le> cols"
  shows "line_ok e (line_reflow e cols l)"
proof -
  note c = cuts_sorted [OF reflow_ends_cuts(1) [OF assms(3), of "l_cells l"]]
  have "boundary (line_reflow e cols l) (length (reflow_ends cols (l_cells l))) = length (l_cells l)"
    using c last_conv_nth [of "reflow_ends cols (l_cells l)"] by (simp add: reflow_boundary nth_Cons')
  then show ?thesis
    using assms c line_reflow_shape [OF line_ok_shape [OF assms(1)] assms(3), of e] pushed_capacity_ge [OF assms(2)]
    by (simp add: line_ok_def line_fine_def) (simp add: line_reflow_def Let_def)
qed

text \<open>The rows of a reflowed line: all its cells, in order, in rows of at most \<open>cols\<close> cells; no row
  boundary falls between a double-width cell and its continuation.\<close>

lemma concat_slices:
  "cuts cols (length cs) s T \<Longrightarrow>
     concat (map (\<lambda>i. slice ((s # T) ! i) (T ! i - (s # T) ! i) cs) [0..<length T]) = drop s cs"
proof (induction cols "length cs" s T rule: cuts.induct)
  case (3 cols s x y zs)
  have "concat (map (\<lambda>i. slice ((s # x # y # zs) ! i) ((x # y # zs) ! i - (s # x # y # zs) ! i) cs) [0..<length (x # y # zs)])
     = slice s (x - s) cs @ concat (map (\<lambda>i. slice ((x # y # zs) ! i) ((y # zs) ! i - (x # y # zs) ! i) cs) [0..<length (y # zs)])"
  proof -
    have "[0..<length (x # y # zs)] = 0 # map Suc [0..<length (y # zs)]"
      by (simp add: map_Suc_upt upt_conv_Cons del: upt_Suc)
    then show ?thesis by (simp only: list.map concat.simps map_map comp_def nth_Cons_0 nth_Cons_Suc)
  qed
  also have "\<dots> = slice s (x - s) cs @ drop x cs" using 3 by simp
  also have "drop x cs = drop (x - s) (drop s cs)" using 3(2) by simp
  also have "slice s (x - s) cs @ drop (x - s) (drop s cs) = drop s cs" unfolding slice_def by (rule append_take_drop_id)
  finally show ?case .
qed (simp_all add: slice_def)

lemma reflow_line_rows:
  assumes "2 \<le> cols"
  shows "concat (map sr_cells (line_view (line_reflow e cols l))) = l_cells l"
    "\<forall>r \<in> set (line_view (line_reflow e cols l)). length (sr_cells r) \<le> cols"
proof -
  note c = reflow_ends_cuts(1) [OF assms, of "l_cells l"]
  show "concat (map sr_cells (line_view (line_reflow e cols l))) = l_cells l"
    using concat_slices [OF c] by (simp add: line_view_def line_row_def reflow_boundary comp_def)
  show "\<forall>r \<in> set (line_view (line_reflow e cols l)). length (sr_cells r) \<le> cols"
    using cuts_gap [OF c] by (auto simp: line_view_def line_row_def reflow_boundary slice_def intro: order_trans [OF min.cobounded2])
qed

end
