(* ===== verification/History_Reflow.thy ===== *)
theory History_Reflow
  imports History_Lookup
begin

text \<open>
  Reflow of the whole history, and stability of anchors: a cell anchored before a reflow is the cell
  its anchor resolves to afterwards.
\<close>


section \<open>Reflow of the history\<close>

lemma sb_reflow_loop_lines:
  "length ls = length sts \<Longrightarrow>
     fst (sb_reflow_loop e cols ls sts cursor charged) = map (line_reflow e cols) ls \<and>
     length (fst (snd (sb_reflow_loop e cols ls sts cursor charged))) = length ls"
  by (induction e cols ls sts cursor charged rule: sb_reflow_loop.induct) (auto simp: Let_def split: prod.split)

lemma sb_reflow_shape: "sb_shape sb \<Longrightarrow> 2 \<le> cols \<Longrightarrow> sb_shape (sb_reflow e cols sb)"
  using sb_reflow_loop_lines [of "sb_lines sb" "sb_line_row_starts sb" e cols "sb_content_row_origin sb" "sb_charged_bytes sb"]
  by (auto simp: sb_reflow_def sb_shape_def line_reflow_shape split: prod.split)

text \<open>No counter overflows: neither the row numbers nor the bytes charged while lines are replaced.\<close>

definition reflow_fits :: "env \<Rightarrow> nat \<Rightarrow> scrollback \<Rightarrow> bool" where
  "reflow_fits e cols sb \<longleftrightarrow>
     sb_content_row_origin sb + rows_total (map (line_reflow e cols) (sb_lines sb)) \<le> usize_max \<and>
     charge_total (sb_lines sb) + charge_total (map (line_reflow e cols) (sb_lines sb)) \<le> usize_max"

lemma sb_reflow_loop_exact:
  assumes "length ls = length sts" "cursor + rows_total (map (line_reflow e cols) ls) \<le> usize_max"
    "done' + charge_total ls + charge_total (map (line_reflow e cols) ls) \<le> usize_max"
  shows "sb_reflow_loop e cols ls sts cursor (done' + charge_total ls) =
     (map (line_reflow e cols) ls, row_starts cursor (map (line_reflow e cols) ls),
      cursor + rows_total (map (line_reflow e cols) ls), done' + charge_total (map (line_reflow e cols) ls))"
  using assms
proof (induction ls arbitrary: sts cursor done')
  case (Cons l ls)
  then obtain s sts' where sts: "sts = s # sts'" "length ls = length sts'" by (cases sts) auto
  let ?l = "line_reflow e cols l"
  have c: "done' + charge_total (l # ls) - l_charged_bytes l = done' + charge_total ls" by simp
  have sat: "sat_add (done' + charge_total ls) (l_charged_bytes ?l) = (done' + l_charged_bytes ?l) + charge_total ls"
    "sat_add cursor (l_physical_rows ?l) = cursor + l_physical_rows ?l"
    using Cons.prems by simp_all
  have IH: "sb_reflow_loop e cols ls sts' (cursor + l_physical_rows ?l) (done' + l_charged_bytes ?l + charge_total ls) =
     (map (line_reflow e cols) ls, row_starts (cursor + l_physical_rows ?l) (map (line_reflow e cols) ls),
      cursor + l_physical_rows ?l + rows_total (map (line_reflow e cols) ls),
      done' + l_charged_bytes ?l + charge_total (map (line_reflow e cols) ls))"
    by (rule Cons.IH) (use sts Cons.prems in simp_all)
  show ?case
    unfolding sts(1) sb_reflow_loop.simps Let_def c sat IH by (simp add: add.assoc)
qed simp

lemma sb_reflow_ok:
  assumes "sb_ok e sb" "vec_ok e" "2 \<le> cols" "reflow_fits e cols sb"
  shows "sb_ok e (sb_reflow e cols sb)" "sb_lines (sb_reflow e cols sb) = map (line_reflow e cols) (sb_lines sb)"
    "sb_content_row_origin (sb_reflow e cols sb) = sb_content_row_origin sb"
proof -
  have eq: "sb_reflow e cols sb = sb\<lparr>sb_lines := map (line_reflow e cols) (sb_lines sb),
      sb_line_row_starts := row_starts (sb_content_row_origin sb) (map (line_reflow e cols) (sb_lines sb)),
      sb_screen_row_origin := sb_content_row_origin sb + rows_total (map (line_reflow e cols) (sb_lines sb)),
      sb_charged_bytes := charge_total (map (line_reflow e cols) (sb_lines sb))\<rparr>"
    using sb_reflow_loop_exact [of "sb_lines sb" "sb_line_row_starts sb" "sb_content_row_origin sb" e cols 0] assms(1,4)
    by (simp add: sb_reflow_def sb_ok_def reflow_fits_def)
  show "sb_ok e (sb_reflow e cols sb)"
    using assms line_reflow_ok [of e] by (auto simp: eq sb_ok_def reflow_fits_def map_butlast [symmetric])
  show "sb_lines (sb_reflow e cols sb) = map (line_reflow e cols) (sb_lines sb)"
    "sb_content_row_origin (sb_reflow e cols sb) = sb_content_row_origin sb" by (simp_all add: eq)
qed

section \<open>Anchors survive a reflow\<close>

text \<open>The row and column of a cell offset: its row starts at or before it and ends after it (at or
  after it for an end anchor).\<close>

lemma locate_offset_ok:
  assumes "line_fine e l" "0 < l_physical_rows l" "n \<le> length (l_cells l)" "l_trimmed_offset l + n = k"
  shows "\<exists>r. locate_offset l k b = Some (Some (r, n - boundary l r)) \<and> r < l_physical_rows l \<and>
     boundary l r \<le> n \<and> (\<not> b \<and> n < length (l_cells l) \<longrightarrow> n < boundary l (r + 1)) \<and> n \<le> boundary l (r + 1)"
proof -
  define P where "P = (\<lambda>x. if b then x < n else x \<le> n)"
  define k' where "k' = length (takeWhile P (l_row_ends l))"
  define r where "r = min k' (length (l_row_ends l) - 1)"
  have shape: "line_shape l" and len: "length (l_row_ends l) = l_physical_rows l"
    and full: "boundary l (l_physical_rows l) = length (l_cells l)"
    using assms(1) by (simp_all add: line_fine_def line_shape_def)
  have r: "r < l_physical_rows l" using assms(2) len by (simp add: r_def)
  have below: "l_row_ends l ! i \<le> n" if "i < k'" for i
    using set_takeWhileD [OF nth_mem [OF that [unfolded k'_def]], unfolded takeWhile_nth [OF that [unfolded k'_def]]]
    by (auto simp: P_def split: if_splits)
  have start: "boundary l r \<le> n"
    using below [of "r - 1"] by (auto simp: boundary_def r_def)
  have next': "\<not> P (boundary l (r + 1)) \<or> boundary l (r + 1) = length (l_cells l)"
  proof (cases "k' < length (l_row_ends l)")
    case True
    then have "r = k'" by (simp add: r_def)
    then show ?thesis using nth_length_takeWhile [OF True [unfolded k'_def]] by (simp add: boundary_def k'_def)
  next
    case False
    then have "r + 1 = l_physical_rows l"
      using len assms(2) length_takeWhile_le [of P "l_row_ends l"] by (simp add: r_def k'_def)
    then show ?thesis using full by simp
  qed
  have "locate_offset l k b = Some (Some (r, n - boundary l r))"
  proof -
    have "checked_sub k (l_trimmed_offset l) = Some n" "min n (length (l_cells l)) = n" using assms(3,4) by auto
    moreover have "checked_sub n (row_start_of (l_row_ends l) r) = Some (n - boundary l r)"
      using start r row_start_boundary [of r l] len by simp
    ultimately show ?thesis
      by (simp add: locate_offset_def Let_def P_def [symmetric] k'_def [symmetric] r_def [unfolded One_nat_def, symmetric]
          del: if_split split del: if_split)
  qed
  then show ?thesis
    using r start next' assms(3) by (intro exI [of _ r]) (auto simp: P_def split: if_splits)
qed

text \<open>Cell \<open>col\<close> of row \<open>r\<close> of a line is cell \<open>boundary l r + col\<close> of the line.\<close>

lemma line_row_nth:
  assumes "line_shape l" "r < l_physical_rows l"
  shows "length (line_row l r) = boundary l (r + 1) - boundary l r"
    "col < length (line_row l r) \<Longrightarrow> line_row l r ! col = l_cells l ! (boundary l r + col)"
proof -
  show len: "length (line_row l r) = boundary l (r + 1) - boundary l r"
    using boundary_le [OF assms(1), of "r + 1"] assms(2) by (simp add: line_row_def slice_def)
  show "line_row l r ! col = l_cells l ! (boundary l r + col)" if "col < length (line_row l r)"
    using that boundary_le [OF assms(1), of r] assms(2) len by (simp add: line_row_def slice_def)
qed

lemma view_nth: "r < l_physical_rows l \<Longrightarrow> sr_cells (view (older @ l # newer) ! (rows_total older + r)) = line_row l r"
  by (simp add: nth_append line_view_def)

text \<open>An anchor taken at a cell, resolved after any reflow, is the same cell.\<close>

lemma anchor_reflow:
  assumes "sb_ok e sb" "vec_ok e" "2 \<le> cols" "reflow_fits e cols sb"
    "r < length (sb_view sb)" "col < length (sr_cells (sb_view sb ! r))"
  shows "\<exists>a r' col'. line_and_offset_at sb r col = Some (Some a) \<and>
     resolve_anchor (sb_reflow e cols sb) a = Some (Some (col', r')) \<and>
     r' < length (sb_view (sb_reflow e cols sb)) \<and>
     col' < length (sr_cells (sb_view (sb_reflow e cols sb) ! r')) \<and>
     sr_cells (sb_view (sb_reflow e cols sb) ! r') ! col' = sr_cells (sb_view sb ! r) ! col"
proof -
  let ?sb = "sb_reflow e cols sb"
  note re = sb_reflow_ok [OF assms(1-4)]
  have ne: "sb_lines sb \<noteq> []" using assms(5) by (auto simp: sb_view_def)
  obtain older l newer where s: "sb_lines sb = older @ l # newer" "rows_total older \<le> r"
      "r < rows_total older + l_physical_rows l \<or> newer = []"
      "locate_row sb (sb_content_row_origin sb + r) = Some (Some (length older, l, r - rows_total older))"
    using locate_row_split [OF assms(1) ne] by blast
  define q where "q = r - rows_total older"
  have q: "q < l_physical_rows l" "r = rows_total older + q"
    using s(2,3) assms(5) by (auto simp: q_def sb_view_def s(1))
  have l: "line_ok e l" "line_shape l" "length (l_row_ends l) = l_physical_rows l"
    using assms(1) s(1) line_ok_shape by (auto simp: sb_ok_def line_shape_def)
  have row: "sr_cells (sb_view sb ! r) = line_row l q" using q(1) by (simp only: q(2) sb_view_def s(1) view_nth)
  have col: "col < boundary l (q + 1) - boundary l q" using assms(6) line_row_nth(1) [OF l(2) q(1)] row by simp
  define n where "n = boundary l q + col"
  have n: "n < length (l_cells l)" using col boundary_le [OF l(2), of "q + 1"] q(1) by (simp add: n_def)
  let ?a = "(anchor_for_row l q col)\<lparr>a_line_index_hint := length older\<rparr>"
  have max: "sb_content_row_origin sb + r \<le> usize_max" using assms(1,5) by (auto simp: sb_ok_def sb_view_def)
  have "rd (l_row_ends l) q = Some (boundary l (q + 1))" using q(1) l(3) by (simp add: rd_def boundary_def)
  then have a: "a_line_id ?a = l_id l" "a_offset ?a = l_trimmed_offset l + n" "\<not> a_end_boundary ?a"
    using col row_start_boundary [of q l] q(1) l(3) by (simp_all add: anchor_for_row_def Let_def n_def)
  have at: "line_and_offset_at sb r col = Some (Some ?a)"
    using max s(4) q(1) by (simp add: line_and_offset_at_def checked_add_def q_def)
  let ?l = "line_reflow e cols l"
  have l': "line_ok e ?l" using line_reflow_ok [OF l(1) assms(2,3)] .
  obtain p where p: "locate_offset ?l (l_trimmed_offset l + n) False = Some (Some (p, n - boundary ?l p))"
     "p < l_physical_rows ?l" "boundary ?l p \<le> n" "n < boundary ?l (p + 1)"
    using locate_offset_ok [of e ?l n "l_trimmed_offset l + n" False] l' n by (auto simp: line_ok_def)
  let ?older = "map (line_reflow e cols) older"
  have lines: "sb_lines ?sb = ?older @ ?l # map (line_reflow e cols) newer" using re(2) s(1) by simp
  have start: "rd (sb_line_row_starts ?sb) (length older) = Some (sb_content_row_origin ?sb + rows_total ?older)"
    using re(1) row_starts_nth [of "sb_content_row_origin ?sb" ?older] by (simp add: sb_ok_def lines rd_def)
  have "resolve_anchor ?sb ?a = Some (Some (n - boundary ?l p, rows_total ?older + p))"
    using a p(1) start by (simp add: resolve_anchor_def anchor_line_index_def lines rd_def nth_append)
  moreover have "rows_total ?older + p < length (sb_view ?sb)" using p(2) by (simp add: sb_view_def lines)
  moreover have row': "sr_cells (sb_view ?sb ! (rows_total ?older + p)) = line_row ?l p"
    using p(2) by (simp only: sb_view_def lines view_nth)
  moreover have "n - boundary ?l p < length (line_row ?l p)"
    using line_row_nth(1) [OF line_ok_shape [OF l'] p(2)] p(3,4) by simp
  moreover have "line_row ?l p ! (n - boundary ?l p) = line_row l q ! col"
    using line_row_nth(2) [OF line_ok_shape [OF l'] p(2), of "n - boundary ?l p"] line_row_nth(2) [OF l(2) q(1), of col]
      calculation(4) p(3) assms(6) row by (simp add: n_def)
  ultimately show ?thesis
    using at row by (intro exI [of _ ?a] exI [of _ "rows_total ?older + p"] exI [of _ "n - boundary ?l p"]) simp
qed

end
