(* ===== verification/History_Split.thy ===== *)
theory History_Split
  imports History_Reflow
begin

text \<open>
  Splitting the newest rows off the history: exactly the last rows, in order, and the rest stays.
\<close>


section \<open>Splitting the newest rows off\<close>

lemma line_rows_view:
  assumes "line_shape l" "k \<le> l_physical_rows l"
  shows "line_rows l [k..<l_physical_rows l] = Some (drop k (line_view l))"
proof -
  have "line_rows l [k..<l_physical_rows l] = Some (map (\<lambda>r. line_view l ! r) [k..<l_physical_rows l])"
    unfolding line_rows_def
    by (rule mapM_Some) (auto simp: line_physical_row_ok [OF assms(1)] rd_def line_view_def)
  also have "map (\<lambda>r. line_view l ! r) [k..<l_physical_rows l] = drop k (line_view l)"
    by (rule nth_equalityI) simp_all
  finally show ?thesis .
qed

lemma keep_prefix_ok:
  assumes "line_ok e l" "vec_ok e" "0 < k" "k < l_physical_rows l"
  shows "\<exists>l'. keep_prefix e k l = Some l' \<and> line_ok e l' \<and> line_view l' = take k (line_view l) \<and>
     l_charged_bytes l' \<le> l_charged_bytes l \<and> \<not> l_hard_break l'"
proof -
  have shape: "line_shape l" and len: "length (l_row_ends l) = l_physical_rows l"
    and caps: "length (l_cells l) \<le> l_cell_capacity l" "length (l_row_ends l) \<le> l_row_end_capacity l"
    using assms(1) by (simp_all add: line_ok_def line_fine_def line_shape_def)
  have b: "boundary l k \<le> length (l_cells l)" using boundary_le [OF shape] assms(4) by simp
  have shrink: "m \<le> vec_shrink e c m \<and> vec_shrink e c m \<le> c" if "m \<le> c" for c m
    using that assms(2) by (simp add: vec_ok_def)
  define l' where "l' = recalculate_charge e (l\<lparr>
       l_cells := take (boundary l k) (l_cells l), l_row_ends := take k (l_row_ends l),
       l_cell_capacity := vec_shrink e (l_cell_capacity l) (length (take (boundary l k) (l_cells l))),
       l_row_end_capacity := vec_shrink e (l_row_end_capacity l) (length (take k (l_row_ends l))),
       l_physical_rows := k, l_hard_break := False,
       l_cell_owned_bytes := l_cell_owned_bytes l - owned_sum (drop (boundary l k) (l_cells l))\<rparr>)"
  have eq: "keep_prefix e k l = Some l'"
    using assms(3,4) len b by (auto simp: keep_prefix_def rd_def rd_range_def slice_def boundary_def l'_def Let_def)
  have bound: "boundary l' r = boundary l r" if "r \<le> k" for r
    using that by (auto simp: boundary_def l'_def)
  have mono: "boundary l r \<le> boundary l k" if "r \<le> k" for r using boundary_mono [OF shape that] assms(4) by simp
  have row: "line_row l' r = line_row l r" if "r < k" for r
  proof -
    have "slice (boundary l r) (boundary l (r + 1) - boundary l r) (take (boundary l k) (l_cells l))
        = slice (boundary l r) (boundary l (r + 1) - boundary l r) (l_cells l)"
      using mono [of "Suc r"] mono [of r] boundary_mono [OF shape, of r "Suc r"] that assms(4)
      by (simp add: slice_def drop_take min_def)
    moreover have "l_cells l' = take (boundary l k) (l_cells l)" by (simp add: l'_def)
    ultimately show ?thesis using that bound [of r] bound [of "r + 1"] by (simp add: line_row_def)
  qed
  have "\<forall>x \<in> set (take k (l_row_ends l)). x \<le> boundary l k"
    using mono assms(4) len by (auto simp: in_set_conv_nth boundary_def) (metis Suc_leI diff_Suc_1 nat.simps(3))
  then have shape': "line_shape l'"
    using shape b assms(4) len by (auto simp: line_shape_def l'_def sorted_wrt_take dest: in_set_takeD)
  have fields: "l_physical_rows l' = k" "\<not> l_hard_break l'" "length (l_cells l') = boundary l k" "length (l_row_ends l') = k"
    using b assms(4) len by (simp_all add: l'_def)
  have "length (take (boundary l k) (l_cells l)) \<le> l_cell_capacity l" "length (take k (l_row_ends l)) \<le> l_row_end_capacity l"
    using caps by auto
  note s = shrink [OF this(1)] shrink [OF this(2)]
  have "line_ok e l'"
    using shape' fields bound [of k] assms(3) s by (simp add: line_ok_def line_fine_def) (simp add: l'_def)
  moreover have "l_charged_bytes l' \<le> l_charged_bytes l"
    using assms(1) s by (simp add: l'_def line_ok_def line_fine_def charge_mono)
  moreover have "line_view l' = take k (line_view l)"
    by (rule nth_equalityI) (use fields row assms(4) in \<open>auto simp: line_view_def\<close>)
  ultimately show ?thesis using eq fields(2) by blast
qed

lemma split_loop_ok:
  assumes "vec_ok e" "\<forall>l \<in> set ls. line_ok e l" "\<forall>l \<in> set (butlast ls). l_hard_break l" "charge_total ls \<le> usize_max"
  shows "\<exists>ls' segs'. split_loop e n (rev ls) (rev (row_starts origin ls)) (charge_total ls) segs =
       Some (rev ls', rev (row_starts origin ls'), charge_total ls', segs @ segs') \<and>
     view ls' = take (rows_total ls - n) (view ls) \<and> concat (rev segs') = drop (rows_total ls - n) (view ls) \<and>
     (\<forall>l \<in> set ls'. line_ok e l) \<and> (\<forall>l \<in> set (butlast ls'). l_hard_break l) \<and> charge_total ls' \<le> charge_total ls"
  using assms(2-4)
proof (induction ls arbitrary: n segs rule: rev_induct)
  case (snoc l ls)
  have hard: "\<forall>l \<in> set ls. l_hard_break l" "\<forall>l \<in> set (butlast ls). l_hard_break l" using snoc.prems(2) by (auto dest: in_set_butlastD)
  show ?case
  proof (cases "n = 0")
    case True
    then show ?thesis
      using snoc.prems by (intro exI [of _ "ls @ [l]"] exI [of _ "[]"]) (simp add: row_starts_append)
  next
    case False
    show ?thesis
    proof (cases "l_physical_rows l \<le> n")
      case True
      have seg: "line_rows l [0..<l_physical_rows l] = Some (line_view l)"
        using line_rows_view [OF line_ok_shape, of e l 0] snoc.prems(1) by simp
      obtain ls' segs' where IH: "split_loop e (n - l_physical_rows l) (rev ls) (rev (row_starts origin ls)) (charge_total ls)
            (segs @ [line_view l]) = Some (rev ls', rev (row_starts origin ls'), charge_total ls', (segs @ [line_view l]) @ segs')"
          "view ls' = take (rows_total ls - (n - l_physical_rows l)) (view ls)"
          "concat (rev segs') = drop (rows_total ls - (n - l_physical_rows l)) (view ls)"
          "\<forall>l \<in> set ls'. line_ok e l" "\<forall>l \<in> set (butlast ls'). l_hard_break l" "charge_total ls' \<le> charge_total ls"
        using snoc.IH [of "n - l_physical_rows l" "segs @ [line_view l]"] snoc.prems hard by auto
      show ?thesis
        using IH False True seg
        by (intro exI [of _ ls'] exI [of _ "line_view l # segs'"]) (simp add: row_starts_append Let_def)
    next
      case less: False
      let ?k = "l_physical_rows l - n"
      obtain l' where l': "keep_prefix e ?k l = Some l'" "line_ok e l'" "line_view l' = take ?k (line_view l)"
          "l_charged_bytes l' \<le> l_charged_bytes l"
        using keep_prefix_ok [of e l ?k] snoc.prems(1) assms(1) False less by auto
      have seg: "line_rows l [?k..<l_physical_rows l] = Some (drop ?k (line_view l))"
        using line_rows_view [OF line_ok_shape, of e l ?k] snoc.prems(1) by simp
      have sat: "sat_add (charge_total ls) (l_charged_bytes l') = charge_total ls + l_charged_bytes l'"
        using snoc.prems(3) l'(4) by simp
      show ?thesis
        using False less seg l' sat snoc.prems hard
        by (intro exI [of _ "ls @ [l']"] exI [of _ "[drop ?k (line_view l)]"])
           (auto simp: row_starts_append Let_def)
    qed
  qed
qed simp

text \<open>Enforcing the limit does not look at the screen's row origin.\<close>

lemma evict_loop_screen:
  "evict_loop ls (sb\<lparr>sb_screen_row_origin := x\<rparr>) = (evict_loop ls sb)\<lparr>sb_screen_row_origin := x\<rparr>"
proof (induction ls arbitrary: sb)
  case (Cons l ls)
  show ?case
  proof (cases "sb_charged_bytes sb \<le> sb_limit_bytes sb \<or> \<not> l_hard_break l")
    case False
    let ?f = "\<lambda>sb. sb\<lparr>sb_line_row_starts := tl (sb_line_row_starts sb),
            sb_charged_bytes := sb_charged_bytes sb - l_charged_bytes l,
            sb_evicted_lines := sat_add (sb_evicted_lines sb) 1,
            sb_content_row_origin := sat_add (sb_content_row_origin sb) (l_physical_rows l)\<rparr>"
    have *: "?f (sb\<lparr>sb_screen_row_origin := x\<rparr>) = (?f sb)\<lparr>sb_screen_row_origin := x\<rparr>" by simp
    have "evict_loop (l # ls) (sb\<lparr>sb_screen_row_origin := x\<rparr>) = evict_loop ls (?f (sb\<lparr>sb_screen_row_origin := x\<rparr>))"
      using False by simp
    also have "\<dots> = (evict_loop ls (?f sb))\<lparr>sb_screen_row_origin := x\<rparr>" unfolding * by (rule Cons)
    also have "evict_loop ls (?f sb) = evict_loop (l # ls) sb" using False by simp
    finally show ?thesis .
  qed simp
qed simp

lemma enforce_limit_screen:
  "enforce_limit e (sb\<lparr>sb_screen_row_origin := x\<rparr>) = map_option (\<lambda>sb. sb\<lparr>sb_screen_row_origin := x\<rparr>) (enforce_limit e sb)"
proof -
  let ?sb = "evict_complete_lines sb"
  have ev: "evict_complete_lines (sb\<lparr>sb_screen_row_origin := x\<rparr>) = ?sb\<lparr>sb_screen_row_origin := x\<rparr>"
    by (simp add: evict_complete_lines_def evict_loop_screen)
  show ?thesis
  proof (cases "sb_lines ?sb")
    case (Cons line rest)
    then show ?thesis
      by (cases "trim_front e (sb_limit_bytes ?sb div 2) line (sb_charged_bytes ?sb) 0")
         (auto simp: enforce_limit_def ev Let_def)
  qed (simp add: enforce_limit_def ev Let_def)
qed


lemma enforce_limit_keeps_screen:
  assumes "enforce_limit e sb = Some sb'"
  shows "sb_screen_row_origin sb' = sb_screen_row_origin sb"
proof -
  have "sb' = sb'\<lparr>sb_screen_row_origin := sb_screen_row_origin sb\<rparr>"
    using enforce_limit_screen [where e = e and sb = sb and x = "sb_screen_row_origin sb"] assms by simp
  then show ?thesis by (metis scrollback.select_convs(7) scrollback.surjective scrollback.update_convs(7))
qed

text \<open>The newest \<open>n\<close> rows come off in order; the history keeps the rest, less what the limit evicts.\<close>

lemma split_off_tail_ok:
  assumes "sb_ok e sb" "vec_ok e" "sb_charged_bytes sb \<le> usize_max"
  shows "ok (\<lambda>(rs, sb'). rs = drop (length (sb_view sb) - n) (sb_view sb) \<and> sb_ok e sb' \<and>
     sb_charged_bytes sb' \<le> sb_limit_bytes sb \<and> sb_limit_bytes sb' = sb_limit_bytes sb \<and>
     (\<exists>k. sb_view sb' = drop k (take (length (sb_view sb) - n) (sb_view sb)) \<and>
       sb_content_row_origin sb' = sb_content_row_origin sb + k)) (split_off_tail e n sb)"
proof -
  have lines: "\<forall>l \<in> set (sb_lines sb). line_ok e l" "\<forall>l \<in> set (butlast (sb_lines sb)). l_hard_break l"
    "charge_total (sb_lines sb) \<le> usize_max"
    using assms(1,3) by (simp_all add: sb_ok_def)
  obtain ls segs where s: "split_loop e n (rev (sb_lines sb)) (rev (sb_line_row_starts sb)) (sb_charged_bytes sb) [] =
       Some (rev ls, rev (row_starts (sb_content_row_origin sb) ls), charge_total ls, segs)"
     "view ls = take (rows_total (sb_lines sb) - n) (sb_view sb)"
     "concat (rev segs) = drop (rows_total (sb_lines sb) - n) (sb_view sb)"
     "\<forall>l \<in> set ls. line_ok e l" "\<forall>l \<in> set (butlast ls). l_hard_break l"
    using split_loop_ok [OF assms(2) lines, of n "sb_content_row_origin sb" "[]"] assms(1) by (auto simp: sb_ok_def sb_view_def)
  have total: "rows_total (sb_lines sb) = length (sb_view sb)" by (simp add: sb_view_def)
  have rows: "rows_total ls = length (sb_view sb) - n" using arg_cong [OF s(2), of length] total by simp
  let ?mid = "sb\<lparr>sb_lines := ls, sb_line_row_starts := row_starts (sb_content_row_origin sb) ls, sb_charged_bytes := charge_total ls\<rparr>"
  let ?x = "sb_content_row_origin sb + rows_total ls"
  have "sb_ok e (?mid\<lparr>sb_screen_row_origin := ?x\<rparr>)"
    using s(4,5) assms(1) rows total by (auto simp: sb_ok_def)
  note en = enforce_limit_ok [OF this assms(2), unfolded enforce_limit_screen]
  obtain sb' where sb': "enforce_limit e ?mid = Some sb'" using en by (auto simp: ok_iff)
  have "\<exists>k. dropped e k (?mid\<lparr>sb_screen_row_origin := ?x\<rparr>) (sb'\<lparr>sb_screen_row_origin := ?x\<rparr>)"
    and limit: "sb_charged_bytes sb' \<le> sb_limit_bytes sb"
    using en by (simp_all add: sb')
  then obtain k where k: "dropped e k (?mid\<lparr>sb_screen_row_origin := ?x\<rparr>) (sb'\<lparr>sb_screen_row_origin := ?x\<rparr>)" by blast
  have "sb_screen_row_origin sb' = sb_screen_row_origin sb"
    using enforce_limit_keeps_screen [OF sb'] by simp
  moreover have "sb_screen_row_origin sb = sb_content_row_origin sb + length (sb_view sb)" using assms(1) by (simp add: sb_ok_def sb_view_def)
  ultimately have screen: "sb_screen_row_origin sb' - (length (sb_view sb) - (length (sb_view sb) - n)) = ?x"
    using rows by simp
  have eq: "split_off_tail e n sb = Some (drop (length (sb_view sb) - n) (sb_view sb), sb'\<lparr>sb_screen_row_origin := ?x\<rparr>)"
    using s(1,3) sb' screen total by (simp add: split_off_tail_def Let_def del: length_concat_rev)
  have "sb_ok e (sb'\<lparr>sb_screen_row_origin := ?x\<rparr>)" "sb_content_row_origin sb' = sb_content_row_origin sb + k"
    "sb_limit_bytes sb' = sb_limit_bytes sb"
    "sb_view (sb'\<lparr>sb_screen_row_origin := ?x\<rparr>) = drop k (take (length (sb_view sb) - n) (sb_view sb))"
  proof -
    have v: "sb_view (?mid\<lparr>sb_screen_row_origin := ?x\<rparr>) = view ls" by (simp add: sb_view_def)
    show "sb_view (sb'\<lparr>sb_screen_row_origin := ?x\<rparr>) = drop k (take (length (sb_view sb) - n) (sb_view sb))"
      using k by (simp only: dropped_def v s(2) total)
  qed (use k in \<open>simp_all add: dropped_def\<close>)
  then show ?thesis
    unfolding eq using limit by (simp only: ok_Some prod.case) auto
qed

section \<open>Splitting never fails\<close>

lemma keep_prefix_shape:
  assumes "line_shape l" "0 < k" "k \<le> l_physical_rows l"
  shows "ok line_shape (keep_prefix e k l)"
proof -
  have b: "boundary l k \<le> length (l_cells l)" and len: "length (l_row_ends l) = l_physical_rows l"
    using boundary_le [OF assms(1,3)] assms(1) by (simp_all add: line_shape_def)
  have "\<forall>x \<in> set (take k (l_row_ends l)). x \<le> boundary l k"
    using boundary_mono [OF assms(1) _ assms(3)] assms(3) len
    by (auto simp: in_set_conv_nth boundary_def) (metis Suc_leI diff_Suc_1 nat.simps(3))
  then show ?thesis
    using assms b len
    by (auto simp: keep_prefix_def rd_def rd_range_def Let_def boundary_def line_shape_def sorted_wrt_take dest: in_set_takeD)
qed

lemma line_view_valid: "line_shape l \<Longrightarrow> r \<in> set (line_view l) \<Longrightarrow> \<forall>c \<in> set (sr_cells r). cell_valid c"
  by (auto simp: line_view_def line_row_def line_shape_def slice_def dest!: in_set_takeD in_set_dropD)

lemma split_loop_shape:
  assumes "\<forall>l \<in> set ls. line_shape l" "length starts = length ls" "\<forall>s \<in> set segs. \<forall>r \<in> set s. \<forall>c \<in> set (sr_cells r). cell_valid c"
  shows "ok (\<lambda>(ls', starts', charged', segs'). (\<forall>l \<in> set ls'. line_shape l) \<and> length starts' = length ls' \<and>
     (\<forall>s \<in> set segs'. \<forall>r \<in> set s. \<forall>c \<in> set (sr_cells r). cell_valid c)) (split_loop e n ls starts charged segs)"
  using assms
proof (induction e n ls starts charged segs rule: split_loop.induct)
  case (2 e n l ls starts charged segs)
  have shape: "line_shape l" using 2(2) by simp
  have rows: "line_rows l [k..<l_physical_rows l] = Some (drop k (line_view l))" if "k \<le> l_physical_rows l" for k
    using line_rows_view [OF shape that] .
  show ?case
  proof (cases "n = 0 \<or> \<not> l_physical_rows l \<le> n")
    case True
    have "ok line_shape (keep_prefix e (l_physical_rows l - n) l)" if "n \<noteq> 0"
      using that True by (intro keep_prefix_shape shape) auto
    then show ?thesis
      using True 2(2-4) rows [of "l_physical_rows l - n"] line_view_valid [OF shape]
      by (cases starts) (auto simp: Let_def ok_iff dest!: in_set_dropD)
  next
    case False
    then show ?thesis
      using 2(1) [of "charged - l_charged_bytes l" "line_view l"] 2(2-4) rows [of 0] line_view_valid [OF shape]
      by (auto simp: Let_def)
  qed
qed simp

lemma split_off_tail_shape:
  assumes "sb_shape sb"
  shows "ok (\<lambda>(rs, sb'). sb_shape sb' \<and> (\<forall>r \<in> set rs. \<forall>c \<in> set (sr_cells r). cell_valid c)) (split_off_tail e n sb)"
proof -
  obtain ls starts charged segs where s: "split_loop e n (rev (sb_lines sb)) (rev (sb_line_row_starts sb)) (sb_charged_bytes sb) []
      = Some (ls, starts, charged, segs)" "\<forall>l \<in> set ls. line_shape l" "length starts = length ls"
      "\<forall>s \<in> set segs. \<forall>r \<in> set s. \<forall>c \<in> set (sr_cells r). cell_valid c"
    using split_loop_shape [of "rev (sb_lines sb)" "rev (sb_line_row_starts sb)" "[]" e n "sb_charged_bytes sb"] assms
    by (auto simp: ok_iff sb_shape_def)
  have "ok sb_shape (enforce_limit e (sb\<lparr>sb_lines := rev ls, sb_line_row_starts := rev starts, sb_charged_bytes := charged\<rparr>))"
    by (rule enforce_limit_shape) (use s in \<open>simp add: sb_shape_def\<close>)
  then show ?thesis
    using s by (auto simp: split_off_tail_def Let_def ok_iff sb_shape_def)
qed

end
