(* ===== verification/Terminal_Inv.thy ===== *)
theory Terminal_Inv
  imports Terminal History_Split
begin

text \<open>
  The invariant of a terminal and that printing keeps it: both buffers have well-formed screens of the
  terminal's dimensions, cursors and margins lie on them, the inactive buffer has no open grapheme, and
  an open grapheme of the active one starts at or before its cursor.  \<open>term_wf P\<close> is parametrised by
  what is known of the active buffer's open grapheme, because printing passes through states in which
  the old anchor is stale.
\<close>

section \<open>What the code relies on from elsewhere\<close>

text \<open>
  \<^item> \<open>caps_ok\<close> and the two clauses after it: a \<open>CompactString\<close> has room for its text, and texts of at
    most 256 bytes never get a capacity above 512 (capacities grow by at most half);
  \<^item> U+FFFD is one column wide (\<open>unicode-width\<close>).
\<close>

definition env_ok :: "env \<Rightarrow> bool" where
  "env_ok e \<longleftrightarrow> caps_ok e \<and>
     (\<forall>c. len_utf8 c \<le> const_cap e [c] \<and> const_cap e [c] \<le> 512) \<and>
     (\<forall>ss s. (\<forall>x \<in> set (ss @ [s]). str_len x \<le> 256) \<longrightarrow>
        str_len s \<le> edit_cap e (ss @ [s]) \<and> edit_cap e (ss @ [s]) \<le> 512) \<and>
     char_width e replacement_character = Some 1"

lemma env_ok_caps [simp]: "env_ok e \<Longrightarrow> caps_ok e"
  by (simp add: env_ok_def)

lemma ok_bindI: "ok Q m \<Longrightarrow> (\<And>x. Q x \<Longrightarrow> ok P (f x)) \<Longrightarrow> ok P (m \<bind> f)"
  by (cases m) simp_all

lemma ok_map_option [simp]: "ok P (map_option f m) = ok (\<lambda>x. P (f x)) m"
  by (cases m) simp_all

lemma len_utf8_le: "len_utf8 c \<le> 4" "1 \<le> len_utf8 c"
  by (simp_all add: len_utf8_def)

lemma edit_capD:
  "env_ok e \<Longrightarrow> \<forall>x \<in> set (ss @ [s]). str_len x \<le> 256 \<Longrightarrow>
     str_len s \<le> edit_cap e (ss @ [s]) \<and> edit_cap e (ss @ [s]) \<le> 512"
  by (simp add: env_ok_def)

lemma const_cap_valid:
  "env_ok e \<Longrightarrow> cell_valid (c\<lparr>c_text := [ch], c_capacity := const_cap e [ch]\<rparr>)"
  using len_utf8_le [of ch] by (simp add: env_ok_def cell_valid_def str_len_def MAX_GRAPHEME_BYTES_def
      MAX_CELL_TEXT_CAPACITY_BYTES_def not_less le_trans [of "len_utf8 ch" 4])

section \<open>One buffer\<close>

definition buffer_core :: "dimensions \<Rightarrow> buffer \<Rightarrow> bool" where
  "buffer_core d b \<longleftrightarrow> screen_inv (b_screen b) \<and> b_dimensions b = d \<and> cursor_in d (b_cursor b) \<and>
     b_scroll_top b \<le> b_scroll_bottom b \<and> b_scroll_bottom b < rows d \<and>
     b_scroll_left b < b_scroll_right b \<and> b_scroll_right b < columns d \<and>
     pred_option (\<lambda>sd. cursor_in d (sd_cursor sd)) (b_dec_saved b) \<and>
     pred_option (\<lambda>sa. cursor_in d (sa_cursor sa)) (b_ansi_saved b)"

text \<open>What may be known of the open grapheme: it starts at or before the cursor, or there is none.\<close>

definition anchored :: "dimensions \<Rightarrow> buffer \<Rightarrow> bool" where
  "anchored d b \<longleftrightarrow> pred_option (\<lambda>a. cursor_in d a \<and> column a \<le> column (b_cursor b)) (b_grapheme_anchor b)"

definition unanchored :: "buffer \<Rightarrow> bool" where
  "unanchored b \<longleftrightarrow> b_grapheme_anchor b = None"

abbreviation calm :: "dimensions \<Rightarrow> buffer \<Rightarrow> bool" where
  "calm d b \<equiv> buffer_core d b \<and> unanchored b"

lemma unanchored_anchored [simp]: "unanchored b \<Longrightarrow> anchored d b"
  by (simp add: anchored_def unanchored_def)

lemma cursor_in_iff: "cursor_in d c \<longleftrightarrow> column c < columns d \<and> row c < rows d"
  by (auto simp: cursor_in_def)

lemma buffer_coreD:
  assumes "buffer_core d b"
  shows "screen_inv (b_screen b)" "b_dimensions b = d" "column (b_cursor b) < columns d" "row (b_cursor b) < rows d"
    "b_scroll_top b \<le> b_scroll_bottom b" "b_scroll_bottom b < rows d" "b_scroll_left b < b_scroll_right b"
    "b_scroll_right b < columns d" "dims_ok d"
proof -
  show s: "screen_inv (b_screen b)" using assms by (simp add: buffer_core_def)
  show d: "b_dimensions b = d" using assms by (simp add: buffer_core_def)
  show "dims_ok d" using screen_invD(1) [OF s] d by (simp add: shape_def)
  show "column (b_cursor b) < columns d" "row (b_cursor b) < rows d"
    "b_scroll_top b \<le> b_scroll_bottom b" "b_scroll_bottom b < rows d" "b_scroll_left b < b_scroll_right b"
    "b_scroll_right b < columns d"
    using assms by (simp_all add: buffer_core_def cursor_in_iff)
qed

lemma core_updates [simp]:
  "buffer_core d (b\<lparr>b_pending_wrap := p\<rparr>) = buffer_core d b"
  "buffer_core d (b\<lparr>b_grapheme_anchor := a\<rparr>) = buffer_core d b"
  by (simp_all add: buffer_core_def)

lemma core_column [simp]: "buffer_core d b \<Longrightarrow> col < columns d \<Longrightarrow> buffer_core d (set_column col b)"
  by (simp add: buffer_core_def cursor_in_iff set_column_def)

lemma core_row [simp]: "buffer_core d b \<Longrightarrow> r < rows d \<Longrightarrow> buffer_core d (set_row r b)"
  by (simp add: buffer_core_def cursor_in_iff set_row_def)

lemma core_cursor [simp]: "buffer_core d b \<Longrightarrow> cursor_in d c \<Longrightarrow> buffer_core d (b\<lparr>b_cursor := c\<rparr>)"
  by (simp add: buffer_core_def)

lemma unanchored_updates [simp]:
  "unanchored (b\<lparr>b_pending_wrap := p\<rparr>) = unanchored b" "unanchored (set_column col b) = unanchored b"
  "unanchored (set_row r b) = unanchored b" "unanchored (b\<lparr>b_cursor := c\<rparr>) = unanchored b"
  "unanchored (b\<lparr>b_screen := s\<rparr>) = unanchored b" "unanchored (b\<lparr>b_grapheme_anchor := None\<rparr>)"
  "unanchored (b\<lparr>b_scroll_top := n\<rparr>) = unanchored b" "unanchored (b\<lparr>b_scroll_bottom := n\<rparr>) = unanchored b"
  "unanchored (b\<lparr>b_scroll_left := n\<rparr>) = unanchored b" "unanchored (b\<lparr>b_scroll_right := n\<rparr>) = unanchored b"
  "unanchored (b\<lparr>b_dec_saved := sd\<rparr>) = unanchored b" "unanchored (b\<lparr>b_ansi_saved := sa\<rparr>) = unanchored b"
  by (simp_all add: unanchored_def set_column_def set_row_def)

text \<open>A screen operation that keeps the screen's invariant keeps the buffer's.\<close>

lemma on_screen_core:
  assumes "buffer_core d b" "ok (inv_like (b_screen b)) (f (b_screen b))"
  shows "ok (\<lambda>b'. buffer_core d b' \<and> (\<exists>s. b' = b\<lparr>b_screen := s\<rparr>)) (on_screen f b)"
  using assms by (auto simp: on_screen_def ok_iff inv_like_def buffer_core_def)

lemma on_screen_calm:
  assumes "calm d b" "ok (inv_like (b_screen b)) (f (b_screen b))"
  shows "ok (calm d) (on_screen f b)"
  by (rule ok_mono [OF on_screen_core [of d b f]]) (use assms in auto)

section \<open>The terminal\<close>

definition term_wf :: "(buffer \<Rightarrow> bool) \<Rightarrow> dimensions \<Rightarrow> terminal \<Rightarrow> bool" where
  "term_wf P d t \<longleftrightarrow> parser_ok (t_parser t) \<and> utf8_ok (t_utf8 t) \<and> length (t_tab_stops t) = columns d \<and>
     sb_shape (t_scrollback t) \<and>
     (case t_active_screen t of
        Primary \<Rightarrow> buffer_core d (t_primary t) \<and> P (t_primary t) \<and> pred_option (calm d) (t_alternate t)
      | Alternate \<Rightarrow> calm d (t_primary t) \<and>
          (case t_alternate t of None \<Rightarrow> False | Some b \<Rightarrow> buffer_core d b \<and> P b))"

abbreviation term_inv :: "dimensions \<Rightarrow> terminal \<Rightarrow> bool" where
  "term_inv d \<equiv> term_wf (anchored d) d"

text \<open>No grapheme is open in either buffer: the state every operation but printing runs in.\<close>

abbreviation settled :: "dimensions \<Rightarrow> terminal \<Rightarrow> bool" where
  "settled d \<equiv> term_wf unanchored d"

lemma term_wf_mono: "term_wf P d t \<Longrightarrow> (\<And>b. buffer_core d b \<Longrightarrow> P b \<Longrightarrow> Q b) \<Longrightarrow> term_wf Q d t"
  by (auto simp: term_wf_def split: active_screen.splits option.splits)

lemma settled_inv: "settled d t \<Longrightarrow> term_inv d t"
  by (erule term_wf_mono) simp

lemma term_wf_active:
  assumes "term_wf P d t"
  obtains b where "active_buffer t = Some b" "buffer_core d b" "P b" "t_cursor t = b_cursor b" "t_dimensions t = d"
    "dims_ok d"
proof -
  have "\<exists>b. active_buffer t = Some b \<and> buffer_core d b \<and> P b \<and> t_cursor t = b_cursor b \<and> t_dimensions t = d"
    using assms by (auto simp: term_wf_def active_buffer_def t_cursor_def t_dimensions_def
        dest: buffer_coreD(2) split: active_screen.splits option.splits)
  then show ?thesis using that buffer_coreD(9) by blast
qed

lemma set_active_wf:
  assumes "term_wf P d t" "buffer_core d b"
  shows "Q b \<Longrightarrow> term_wf Q d (set_active b t)" "active_buffer (set_active b t) = Some b"
    "t_cursor (set_active b t) = b_cursor b" "t_dimensions (set_active b t) = d"
  using assms
  by (auto simp: term_wf_def set_active_def active_buffer_def t_cursor_def t_dimensions_def
      dest: buffer_coreD(2) split: active_screen.splits option.splits)

lemma set_active_fields [simp]:
  "t_modes (set_active b t) = t_modes t" "t_scrollback (set_active b t) = t_scrollback t"
  by (simp_all add: set_active_def split: active_screen.split)

lemma with_active_ok:
  assumes "term_wf P d t" "\<And>b. active_buffer t = Some b \<Longrightarrow> t_cursor t = b_cursor b \<Longrightarrow> buffer_core d b \<Longrightarrow> P b \<Longrightarrow>
      ok (\<lambda>b'. buffer_core d b' \<and> Q b') (f b)"
  shows "ok (\<lambda>t'. term_wf Q d t' \<and> t_modes t' = t_modes t \<and> (\<exists>b'. buffer_core d b' \<and> Q b' \<and> t' = set_active b' t))
      (with_active f t)"
proof -
  obtain b where b: "active_buffer t = Some b" "buffer_core d b" "P b" "t_cursor t = b_cursor b"
    using term_wf_active [OF assms(1)] by metis
  show ?thesis
    using assms(2) [OF b(1,4,2,3)] b set_active_wf(1) [OF assms(1), where Q = Q]
    by (auto simp: with_active_def ok_iff)
qed

lemma with_active_wf:
  assumes "term_wf P d t" "\<And>b. active_buffer t = Some b \<Longrightarrow> t_cursor t = b_cursor b \<Longrightarrow> buffer_core d b \<Longrightarrow> P b \<Longrightarrow>
      ok (\<lambda>b'. buffer_core d b' \<and> Q b') (f b)"
  shows "ok (term_wf Q d) (with_active f t)"
  by (rule ok_mono [OF with_active_ok [OF assms]]) auto

text \<open>Fields that no part of the invariant looks at.\<close>

lemma term_wf_fields [simp]:
  "term_wf P d (t\<lparr>t_modes := m\<rparr>) = term_wf P d t" "term_wf P d (t\<lparr>t_current_attributes := a\<rparr>) = term_wf P d t"
  "term_wf P d (t\<lparr>t_current_foreground := c\<rparr>) = term_wf P d t" "term_wf P d (t\<lparr>t_current_background := c\<rparr>) = term_wf P d t"
  "term_wf P d (t\<lparr>t_current_hyperlink := h\<rparr>) = term_wf P d t"
  "term_wf P d (t\<lparr>t_current_hyperlink_cells_remaining := n\<rparr>) = term_wf P d t"
  "term_wf P d (t\<lparr>t_current_protected := p\<rparr>) = term_wf P d t" "term_wf P d (t\<lparr>t_protection := s\<rparr>) = term_wf P d t"
  "term_wf P d (t\<lparr>t_cursor_style := cs\<rparr>) = term_wf P d t" "term_wf P d (t\<lparr>t_cursor_style_set := p\<rparr>) = term_wf P d t"
  "term_wf P d (t\<lparr>t_reply_queue := q\<rparr>) = term_wf P d t" "term_wf P d (t\<lparr>t_reply_queue_overflowed := p\<rparr>) = term_wf P d t"
  "term_wf P d (t\<lparr>t_screen_generation := n\<rparr>) = term_wf P d t" "term_wf P d (t\<lparr>t_title := x\<rparr>) = term_wf P d t"
  "term_wf P d (t\<lparr>t_last_graphic_character := lc\<rparr>) = term_wf P d t"
  "term_wf P d (t\<lparr>t_input_queue := q\<rparr>) = term_wf P d t" "term_wf P d (t\<lparr>t_input_queue_overflowed := p\<rparr>) = term_wf P d t"
  "term_wf P d (t\<lparr>t_color_scheme := sc\<rparr>) = term_wf P d t"
  by (simp_all add: term_wf_def split: active_screen.split)

lemma frame_fields [simp]:
  "t_cursor (t\<lparr>t_scrollback := sb\<rparr>) = t_cursor t" "active_buffer (t\<lparr>t_scrollback := sb\<rparr>) = active_buffer t"
  "t_cursor (t\<lparr>t_last_graphic_character := lc\<rparr>) = t_cursor t"
  "active_buffer (t\<lparr>t_last_graphic_character := lc\<rparr>) = active_buffer t"
  "t_cursor (t\<lparr>t_modes := m\<rparr>) = t_cursor t" "active_buffer (t\<lparr>t_modes := m\<rparr>) = active_buffer t"
  by (simp_all add: t_cursor_def active_buffer_def split: active_screen.split option.split)

lemma term_wf_scrollback: "term_wf P d t \<Longrightarrow> sb_shape sb \<Longrightarrow> term_wf P d (t\<lparr>t_scrollback := sb\<rparr>)"
  by (simp add: term_wf_def split: active_screen.splits)

lemma clear_grapheme_anchor_settled: "term_wf P d t \<Longrightarrow> ok (settled d) (clear_grapheme_anchor t)"
  unfolding clear_grapheme_anchor_def by (rule with_active_wf) simp_all

lemma clear_grapheme_anchor_inv: "term_wf P d t \<Longrightarrow> ok (term_inv d) (clear_grapheme_anchor t)"
  by (rule ok_mono [OF clear_grapheme_anchor_settled settled_inv])

lemma clear_pending_wrap_settled: "settled d t \<Longrightarrow> ok (settled d) (clear_pending_wrap t)"
  unfolding clear_pending_wrap_def by (rule with_active_wf) simp_all

lemma erase_cell_valid [simp]: "env_ok e \<Longrightarrow> cell_valid (erase_cell e t)"
  using blank_valid [OF env_ok_caps] by (simp add: cell_valid_def erase_cell_def blank_cell_def)

section \<open>Margins\<close>

lemma margins_ok:
  assumes "term_wf P d t"
  shows "ok (\<lambda>sp. span_ok d sp \<and> cs_left sp < cs_right sp) (horizontal_margins t)"
proof -
  obtain b where b: "active_buffer t = Some b" "buffer_core d b" "t_dimensions t = d" "dims_ok d"
    using term_wf_active [OF assms] by metis
  then have "b_scroll_left b < b_scroll_right b" "b_scroll_right b < columns d" "2 \<le> columns d"
    using buffer_coreD [OF b(2)] by (simp_all add: dims_ok_def)
  then show ?thesis
    using b(1,3) by (auto simp: horizontal_margins_def span_ok_def span_full_def span_new_def)
qed

lemma within_ok:
  assumes "term_wf P d t"
  shows "ok (\<lambda>_. True) (cursor_within_margins t)"
proof -
  obtain b where "active_buffer t = Some b" using term_wf_active [OF assms] by metis
  then show ?thesis using margins_ok [OF assms] by (auto simp: cursor_within_margins_def ok_iff Let_def)
qed

text \<open>Where a line wraps: within the screen, and at the screen's edge for a cursor in its last column.\<close>

lemma wrap_geometry_ok:
  assumes "term_wf P d t"
  shows "ok (\<lambda>(limit, start). limit \<le> columns d \<and> column (t_cursor t) < limit \<and> start + 1 < columns d) (wrap_geometry t)"
proof -
  obtain b where b: "active_buffer t = Some b" "buffer_core d b" "t_cursor t = b_cursor b" "t_dimensions t = d" "dims_ok d"
    using term_wf_active [OF assms] by metis
  obtain sp where sp: "horizontal_margins t = Some sp" "span_ok d sp" "cs_left sp < cs_right sp"
    using margins_ok [OF assms] by (auto simp: ok_iff)
  show ?thesis
    using b sp buffer_coreD(3) [OF b(2)]
    by (auto simp: wrap_geometry_def cursor_within_margins_def Let_def span_ok_def dims_ok_def)
qed

section \<open>Scrolling by one line\<close>

lemma rows_valid_push:
  assumes "rows_valid n rs" "sb_shape sb"
  shows "ok sb_shape (push_rows e rs sb)"
  using push_rows_shape assms by blast

text \<open>Scrolling touches the active screen and the history only.\<close>

lemma scroll_region_up_wf:
  assumes "term_wf P d t" "env_ok e" "span_ok d sp" "\<And>b s. P b \<Longrightarrow> P (b\<lparr>b_screen := s\<rparr>)"
  shows "ok (\<lambda>t'. term_wf P d t' \<and> t_modes t' = t_modes t \<and> t_cursor t' = t_cursor t) (scroll_region_up e n sp t)"
proof -
  obtain b where b: "active_buffer t = Some b" "buffer_core d b" "P b" "t_cursor t = b_cursor b"
    using term_wf_active [OF assms(1)] by metis
  note c = buffer_coreD [OF b(2)]
  have "ok (\<lambda>(removed, s'). inv_like (b_screen b) s' \<and> rows_valid (s_columns (b_screen b)) removed)
      (scroll_up e (b_scroll_top b) (b_scroll_bottom b) n (erase_cell e t) sp (b_screen b))"
    by (rule scroll_up_inv) (use c assms in simp_all)
  then obtain removed s where s: "scroll_up e (b_scroll_top b) (b_scroll_bottom b) n (erase_cell e t) sp (b_screen b) = Some (removed, s)"
    "inv_like (b_screen b) s" "rows_valid (columns d) removed"
    using c(2) by (auto simp: ok_iff)
  have core: "buffer_core d (b\<lparr>b_screen := s\<rparr>)" using s(2) b(2) by (simp add: buffer_core_def inv_like_def)
  have wf: "term_wf P d (set_active (b\<lparr>b_screen := s\<rparr>) t)" using set_active_wf(1) [OF assms(1) core] assms(4) [OF b(3)] by blast
  have "ok sb_shape (push_rows e removed (t_scrollback t))"
    using rows_valid_push [OF s(3)] assms(1) by (simp add: term_wf_def)
  then show ?thesis
    using s(1) b(1,4) wf set_active_wf(3) [OF assms(1) core]
    by (auto simp: scroll_region_up_def ok_iff Let_def intro: term_wf_scrollback)
qed

lemma index_wf:
  assumes "term_wf P d t" "env_ok e" "\<And>b s. P b \<Longrightarrow> P (b\<lparr>b_screen := s\<rparr>)" "\<And>b r. P b \<Longrightarrow> P (set_row r b)"
  shows "ok (\<lambda>t'. term_wf P d t' \<and> t_modes t' = t_modes t \<and> column (t_cursor t') = column (t_cursor t)) (index e t)"
proof -
  obtain b where b: "active_buffer t = Some b" "buffer_core d b" "P b" "t_cursor t = b_cursor b" "t_dimensions t = d"
    using term_wf_active [OF assms(1)] by metis
  obtain sp where sp: "horizontal_margins t = Some sp" "span_ok d sp" using margins_ok [OF assms(1)] by (auto simp: ok_iff)
  obtain w where w: "cursor_within_margins t = Some w" using within_ok [OF assms(1)] by (auto simp: ok_iff)
  have core: "row (b_cursor b) + 1 < rows d \<Longrightarrow> buffer_core d (set_row (row (b_cursor b) + 1) b)" using b(2) by simp
  show ?thesis
    using scroll_region_up_wf [OF assms(1,2) sp(2) assms(3), of 1] sp w b assms(1)
      set_active_wf(1) [OF assms(1) core, where Q = P] assms(4) [OF b(3)] set_active_wf(3) [OF assms(1) core]
    by (auto simp: index_def with_active_def ok_iff) (auto simp: set_row_def)
qed

lemma wrap_line_wf:
  assumes "term_wf P d t" "env_ok e" "r < rows d" "col < columns d"
  shows "ok (\<lambda>t'. term_wf (\<lambda>_. True) d t' \<and> t_modes t' = t_modes t \<and> column (t_cursor t') = col) (wrap_line e r col t)"
proof -
  have "ok (\<lambda>t'. term_wf (\<lambda>b. column (b_cursor b) = col) d t' \<and> t_modes t' = t_modes t \<and>
      (\<exists>b'. buffer_core d b' \<and> column (b_cursor b') = col \<and> t' = set_active b' t))
    (with_active (\<lambda>b. do { b \<leftarrow> on_screen (mark_soft_wrapped r) b; Some ((set_column col b)\<lparr>b_pending_wrap := False\<rparr>) }) t)"
  proof (rule with_active_ok [OF assms(1)])
    fix b assume b: "buffer_core d b"
    have "ok (\<lambda>b'. buffer_core d b' \<and> (\<exists>s. b' = b\<lparr>b_screen := s\<rparr>)) (on_screen (mark_soft_wrapped r) b)"
      by (rule on_screen_core [OF b], rule set_soft_wrapped_inv) (use assms buffer_coreD [OF b] in simp_all)
    then show "ok (\<lambda>b'. buffer_core d b' \<and> column (b_cursor b') = col)
        (do { b \<leftarrow> on_screen (mark_soft_wrapped r) b; Some ((set_column col b)\<lparr>b_pending_wrap := False\<rparr>) })"
      using assms(4) by (auto simp: ok_iff set_column_def buffer_core_def cursor_in_iff)
  qed
  then show ?thesis
    unfolding wrap_line_def ok_bind
  proof (rule ok_mono)
    fix t' assume t': "term_wf (\<lambda>b. column (b_cursor b) = col) d t' \<and> t_modes t' = t_modes t \<and>
      (\<exists>b'. buffer_core d b' \<and> column (b_cursor b') = col \<and> t' = set_active b' t)"
    then have "column (t_cursor t') = col" using set_active_wf(3) [OF assms(1)] by auto
    then show "ok (\<lambda>t'. term_wf (\<lambda>_. True) d t' \<and> t_modes t' = t_modes t \<and> column (t_cursor t') = col) (index e t')"
      using index_wf [of "\<lambda>_. True" d t' e] t' assms(2) by (auto intro: term_wf_mono simp: ok_iff)
  qed
qed

section \<open>Printing\<close>

lemma place_cursor_ok:
  assumes "buffer_core d b" "cursor_in d a" "limit \<le> columns d"
  shows "buffer_core d (place_cursor_after_cluster a w limit wraps b)"
    "b_grapheme_anchor (place_cursor_after_cluster a w limit wraps b) = b_grapheme_anchor b"
    "column a \<le> column (b_cursor (place_cursor_after_cluster a w limit wraps b))"
  using assms by (auto simp: place_cursor_after_cluster_def cursor_in_iff Let_def) (auto simp: set_column_def set_row_def)

text \<open>A cluster written at \<open>a\<close>, the cursor placed after it and the grapheme opened (or closed) there.\<close>

lemma write_cluster_ok:
  assumes "buffer_core d b" "env_ok e" "cursor_in d a" "limit \<le> columns d" "cell_valid c"
    "c_width c = Single \<or> c_width c = Double \<and> column a + 1 < columns d" "anchor = None \<or> anchor = Some a"
  shows "ok (\<lambda>b'. buffer_core d b' \<and> anchored d b')
    (do { b \<leftarrow> on_screen (replace_cluster e (column a) (row a) c) b;
          Some (place_cursor_after_cluster a w limit wraps (b\<lparr>b_grapheme_anchor := anchor\<rparr>)) })"
proof -
  have "ok (\<lambda>b'. buffer_core d b' \<and> (\<exists>s. b' = b\<lparr>b_screen := s\<rparr>)) (on_screen (replace_cluster e (column a) (row a) c) b)"
    by (rule on_screen_core [OF assms(1)], rule replace_cluster_inv)
       (use assms buffer_coreD [OF assms(1)] in \<open>auto simp: cursor_in_iff\<close>)
  then show ?thesis
    using place_cursor_ok [of d _ a limit w wraps] assms by (auto simp: ok_iff anchored_def)
qed

lemma with_written_cluster:
  assumes "term_wf P d t" "env_ok e" "cursor_in d a" "limit \<le> columns d" "cell_valid c"
    "c_width c = Single \<or> c_width c = Double \<and> column a + 1 < columns d" "anchor = None \<or> anchor = Some a"
  shows "ok (term_inv d) (with_active (\<lambda>b. do { b \<leftarrow> on_screen (replace_cluster e (column a) (row a) c) b;
          Some (place_cursor_after_cluster a w limit wraps (b\<lparr>b_grapheme_anchor := anchor\<rparr>)) }) t)"
  by (rule with_active_wf [OF assms(1)], rule write_cluster_ok) (use assms in simp_all)

lemma cell_ref_valid:
  assumes "screen_inv s" "cell_ref s col r = Some c"
  shows "cell_valid c" "col < s_columns s" "r < s_rows s"
proof -
  show b: "col < s_columns s" "r < s_rows s" using assms(2) by (auto simp: cell_ref_def cell_index_def split: if_splits)
  then have "c = gr_cells (get_row s r) ! col"
    using rd_cell_row(1) [OF screen_invD(1) [OF assms(1)] b(1), of r] assms(2) by (simp add: cell_ref_def cell_index_def)
  moreover have "row_good (s_columns s) (get_row s r)" by (rule screen_invD(2) [OF assms(1) b(2)])
  ultimately show "cell_valid c" using b(1) by (auto simp: row_good_def cells_ok_def fits_def)
qed

lemma replacement_cell_valid:
  assumes "env_ok e" "\<And>x. x \<in> set ss \<Longrightarrow> str_len x \<le> 256"
  shows "cell_valid (replacement_cell e ss c)" "c_width (replacement_cell e ss c) = Single"
  using edit_capD [of e "ss @ [[]]" "[replacement_character]"] assms
  by (auto simp: replacement_cell_def cell_valid_def str_len_def len_utf8_def replacement_character_def MAX_GRAPHEME_BYTES_def
      MAX_CELL_TEXT_CAPACITY_BYTES_def)

lemma printed_cell_valid:
  assumes "env_ok e"
  shows "cell_valid (printed_cell e ch w t)"
  using edit_capD [of e "[[]]" "[ch]"] assms len_utf8_le(1) [of ch]
  by (simp add: printed_cell_def cell_valid_def str_len_def MAX_GRAPHEME_BYTES_def MAX_CELL_TEXT_CAPACITY_BYTES_def)

lemma joined_cell_valid:
  assumes "env_ok e" "cell_valid c" "\<not> MAX_GRAPHEME_BYTES < sat_add (str_len (c_text c)) (len_utf8 ch)"
  shows "cell_valid (c\<lparr>c_text := c_text c @ [ch], c_capacity := edit_cap e [c_text c, c_text c @ [ch]], c_width := w\<rparr>)"
    "str_len (c_text c @ [ch]) \<le> 256" "str_len (c_text c) \<le> 256"
proof -
  show a: "str_len (c_text c) \<le> 256" using assms(2) by (simp add: cell_valid_def MAX_GRAPHEME_BYTES_def)
  show b: "str_len (c_text c @ [ch]) \<le> 256"
    using assms(3) a len_utf8_le(1) [of ch] by (simp add: MAX_GRAPHEME_BYTES_def str_len_def sat_add_def usize_max_def min_def split: if_splits)
  show "cell_valid (c\<lparr>c_text := c_text c @ [ch], c_capacity := edit_cap e [c_text c, c_text c @ [ch]], c_width := w\<rparr>)"
    using edit_capD [of e "[c_text c]" "c_text c @ [ch]"] assms(1) a b
    by (auto simp: cell_valid_def MAX_GRAPHEME_BYTES_def MAX_CELL_TEXT_CAPACITY_BYTES_def)
qed

lemma extend_overlong_wf:
  assumes "term_inv d t" "env_ok e" "cursor_in d a" "str_len (c_text c) \<le> 256"
  shows "ok (term_inv d) (extend_overlong e a c t)"
proof -
  have eq: "b\<lparr>b_grapheme_anchor := None, b_pending_wrap := False\<rparr> = (b\<lparr>b_pending_wrap := False\<rparr>)\<lparr>b_grapheme_anchor := None\<rparr>" for b :: buffer
    by simp
  have place: "place_cursor_after_cluster a 1 l w (b\<lparr>b_grapheme_anchor := None, b_pending_wrap := False\<rparr>) =
      place_cursor_after_cluster a 1 l w (b\<lparr>b_grapheme_anchor := None\<rparr>)" for l w b
    by (simp add: place_cursor_after_cluster_def set_row_def set_column_def Let_def)
  show ?thesis
    unfolding extend_overlong_def place ok_bind
    by (rule ok_mono [OF wrap_geometry_ok [OF assms(1)]])
       (auto intro!: with_written_cluster [OF assms(1-3)] replacement_cell_valid simp: assms(2,4) replacement_cell_valid)
qed

lemma extend_in_place_wf:
  assumes "term_inv d t" "env_ok e" "cursor_in d a" "cell_valid c" "limit \<le> columns d"
    "old = new \<or> c_width c = Single \<or> c_width c = Double \<and> column a + 1 < columns d"
  shows "ok (term_inv d) (extend_in_place e a c old new limit t)"
proof (cases "old = new")
  case True
  have "ok (\<lambda>b'. buffer_core d b' \<and> anchored d b')
      (do { b \<leftarrow> on_screen (replace_cell (column a) (row a) c) b;
            Some (place_cursor_after_cluster a new limit (auto_wrap (t_modes t)) (b\<lparr>b_grapheme_anchor := Some a\<rparr>)) })"
    if b: "buffer_core d b" for b
  proof -
    have "ok (\<lambda>b'. buffer_core d b' \<and> (\<exists>s. b' = b\<lparr>b_screen := s\<rparr>)) (on_screen (replace_cell (column a) (row a) c) b)"
      by (rule on_screen_core [OF b], rule replace_cell_inv) (use assms buffer_coreD [OF b] in \<open>auto simp: cursor_in_iff\<close>)
    then show ?thesis
      using place_cursor_ok [of d _ a limit new] assms by (auto simp: ok_iff anchored_def)
  qed
  then show ?thesis unfolding extend_in_place_def using True by (simp add: with_active_wf [OF assms(1)])
next
  case False
  then show ?thesis
    unfolding extend_in_place_def using assms with_written_cluster [OF assms(1-3,5,4), of "Some a" new] by simp
qed

lemma extend_at_edge_wf:
  assumes "term_inv d t" "env_ok e" "cursor_in d a" "cell_valid c" "c_width c = Double" "str_len old \<le> 256"
    "limit \<le> columns d" "start + 1 < columns d" "column a \<le> column (t_cursor t)"
  shows "ok (term_inv d) (extend_at_edge e a old c limit start t)"
proof (cases "auto_wrap (t_modes t)")
  case False
  have c: "str_len (c_text c) \<le> 256" using assms(4) by (simp add: cell_valid_def MAX_GRAPHEME_BYTES_def)
  have "ok (\<lambda>b'. buffer_core d b' \<and> anchored d b')
      (do { b \<leftarrow> on_screen (replace_cluster e (column a) (row a) (replacement_cell e [old, c_text c] c)) b;
            Some (b\<lparr>b_grapheme_anchor := Some a, b_pending_wrap := False\<rparr>) })"
    if b: "buffer_core d b" "t_cursor t = b_cursor b" for b
  proof -
    have "ok (\<lambda>b'. buffer_core d b' \<and> (\<exists>s. b' = b\<lparr>b_screen := s\<rparr>))
        (on_screen (replace_cluster e (column a) (row a) (replacement_cell e [old, c_text c] c)) b)"
      by (rule on_screen_core [OF b(1)], rule replace_cluster_inv)
         (use assms c buffer_coreD [OF b(1)] in \<open>auto simp: cursor_in_iff intro!: replacement_cell_valid\<close>)
    then show ?thesis using assms(3,9) b(2) by (auto simp: ok_iff anchored_def)
  qed
  then show ?thesis
    unfolding extend_at_edge_def using False by (simp add: with_active_wf [OF assms(1)])
next
  case True
  obtain b where b: "active_buffer t = Some b" "buffer_core d b" "t_dimensions t = d" "dims_ok d"
    using term_wf_active [OF assms(1)] by metis
  have fill: "row a * columns d + column a + 1 \<le> rows d * columns d"
  proof -
    have "row a * columns d + column a + 1 \<le> Suc (row a) * columns d" using assms(3) by (simp add: cursor_in_iff)
    also have "\<dots> \<le> rows d * columns d" using assms(3) by (intro mult_le_mono1) (simp add: cursor_in_iff Suc_le_eq)
    finally show ?thesis .
  qed
  have 1: "ok (term_wf (\<lambda>_. True) d) (with_active (on_screen (fill_linear (row a * columns d + column a)
      (row a * columns d + column a + 1) (erase_cell e t))) t)"
  proof (rule with_active_wf [OF assms(1)])
    fix b assume b: "buffer_core d b"
    have "ok (\<lambda>b'. buffer_core d b' \<and> (\<exists>s. b' = b\<lparr>b_screen := s\<rparr>)) (on_screen (fill_linear (row a * columns d + column a)
      (row a * columns d + column a + 1) (erase_cell e t)) b)"
      by (rule on_screen_core [OF b], rule fill_linear_inv) (use assms fill buffer_coreD [OF b] in auto)
    then show "ok (\<lambda>b'. buffer_core d b' \<and> True) (on_screen (fill_linear (row a * columns d + column a)
      (row a * columns d + column a + 1) (erase_cell e t)) b)" by (auto simp: ok_iff)
  qed
  have 2: "ok (\<lambda>t'. term_wf (\<lambda>_. True) d t' \<and> column (t_cursor t') = start) (wrap_line e (row a) start t1)"
    if "term_wf (\<lambda>_. True) d t1" for t1
    by (rule ok_mono [OF wrap_line_wf [OF that assms(2)]]) (use assms in \<open>auto simp: cursor_in_iff\<close>)
  have 3: "ok (term_inv d) (with_active (\<lambda>b. do {
          b \<leftarrow> on_screen (replace_cluster e (column (t_cursor t2)) (row (t_cursor t2)) c) b;
          Some (place_cursor_after_cluster (t_cursor t2) 2 limit True (b\<lparr>b_grapheme_anchor := Some (t_cursor t2)\<rparr>)) }) t2)"
    if t2: "term_wf (\<lambda>_. True) d t2" "column (t_cursor t2) = start" for t2
  proof -
    have "cursor_in d (t_cursor t2)" using term_wf_active [OF t2(1)] buffer_coreD(3,4) by (metis cursor_in_iff)
    then show ?thesis using with_written_cluster [OF t2(1) assms(2)] assms t2 by blast
  qed
  show ?thesis
    by (simp only: extend_at_edge_def True b(3) Let_def ok_bind if_False not_True_eq_False)
       (rule ok_mono [OF 1], rule ok_mono [OF 2], assumption, use 3 in blast)
qed

lemma try_extend_grapheme_wf:
  assumes "term_inv d t" "env_ok e"
  shows "ok (\<lambda>(extended, t'). term_inv d t' \<and> (extended \<or> t' = t)) (try_extend_grapheme e ch t)"
proof -
  obtain b where b: "active_buffer t = Some b" "buffer_core d b" "anchored d b" "t_cursor t = b_cursor b"
    using term_wf_active [OF assms(1)] by metis
  note core = buffer_coreD [OF b(2)]
  have main: "ok (\<lambda>(extended, t'). term_inv d t' \<and> (extended \<or> t' = t)) (try_extend_grapheme e ch t)"
    if a: "b_grapheme_anchor b = Some a" and c: "cell_ref (b_screen b) (column a) (row a) = Some c"
      and x: "\<not> is_continuation c" "extends_grapheme e (c_text c) ch" for a c
  proof -
    have ain: "cursor_in d a" "column a \<le> column (t_cursor t)" using b(3,4) a by (simp_all add: anchored_def)
    have valid: "cell_valid c" using cell_ref_valid(1) [OF core(1) c] .
    then have len: "str_len (c_text c) \<le> 256" by (simp add: cell_valid_def MAX_GRAPHEME_BYTES_def)
    obtain limit start where g: "wrap_geometry t = Some (limit, start)" "limit \<le> columns d" "column (t_cursor t) < limit"
      "start + 1 < columns d"
      using wrap_geometry_ok [OF assms(1)] by (auto simp: ok_iff)
    let ?w = "grapheme_width e (c_text c @ [ch])"
    let ?c = "c\<lparr>c_text := c_text c @ [ch], c_capacity := edit_cap e [c_text c, c_text c @ [ch]],
                c_width := (if ?w = 2 then Double else Single)\<rparr>"
    show ?thesis
    proof (cases "MAX_GRAPHEME_BYTES < sat_add (str_len (c_text c)) (len_utf8 ch)")
      case True
      then show ?thesis
        using extend_overlong_wf [OF assms ain(1) len] b(1) a c x by (simp add: try_extend_grapheme_def)
    next
      case False
      note vc = joined_cell_valid(1) [OF assms(2) valid False, of "if ?w = 2 then Double else Single"]
      have edge: "ok (term_inv d) (extend_at_edge e a (c_text c) ?c limit start t)" if "?w = 2"
        by (rule extend_at_edge_wf [OF assms ain(1) vc]) (use that len g ain in simp_all)
      have place: "ok (term_inv d) (extend_in_place e a ?c (width_columns (c_width c)) ?w limit t)"
        if "?w \<noteq> 0" "\<not> (width_columns (c_width c) = 1 \<and> ?w = 2 \<and> column a + 1 = limit)"
        by (rule extend_in_place_wf [OF assms ain(1) vc g(2)])
           (use that g ain x(1) in \<open>cases "c_width c"; auto simp: is_continuation_def width_columns_def grapheme_width_def\<close>)
      show ?thesis
        using edge place False b(1) a c x g(1) assms(1)
        by (auto simp: try_extend_grapheme_def Let_def)
    qed
  qed
  show ?thesis
  proof (cases "b_grapheme_anchor b")
    case None
    then show ?thesis using b(1) assms(1) by (simp add: try_extend_grapheme_def)
  next
    case (Some a)
    then show ?thesis
      using main [OF Some] b(1) assms(1) by (cases "cell_ref (b_screen b) (column a) (row a)") (auto simp: try_extend_grapheme_def)
  qed
qed

lemma spend_hyperlink_wf [simp]: "term_wf P d (spend_hyperlink t) = term_wf P d t"
  "t_modes (spend_hyperlink t) = t_modes t"
  by (simp_all add: spend_hyperlink_def Let_def)

lemma print_cluster_wf:
  assumes "term_wf P d t" "env_ok e" "limit \<le> columns d" "0 < limit" "w = 2 \<longrightarrow> column (t_cursor t) + 1 < columns d"
  shows "ok (term_inv d) (print_cluster e ch w limit t)"
proof -
  have step: "ok (term_inv d) (do { let c = printed_cell e ch w t1; let t = spend_hyperlink t1;
       with_active (\<lambda>b. do {
         b \<leftarrow> on_screen (replace_cluster e (column (t_cursor t1)) (row (t_cursor t1)) c) b;
         Some (place_cursor_after_cluster (t_cursor t1) w limit (auto_wrap (t_modes t)) (b\<lparr>b_grapheme_anchor := Some (t_cursor t1)\<rparr>)) }) t })"
    if t1: "term_wf (\<lambda>_. True) d t1" "t_cursor t1 = t_cursor t" for t1
  proof -
    have "cursor_in d (t_cursor t1)" using term_wf_active [OF t1(1)] buffer_coreD(3,4) by (metis cursor_in_iff)
    moreover have "c_width (printed_cell e ch w t1) = Single \<or>
        c_width (printed_cell e ch w t1) = Double \<and> column (t_cursor t1) + 1 < columns d"
      using assms(5) t1(2) by (simp add: printed_cell_def)
    ultimately show ?thesis
      unfolding Let_def by (intro with_written_cluster [of "\<lambda>_. True"]) (use assms t1 printed_cell_valid in simp_all)
  qed
  have ins: "ok (\<lambda>t1. term_wf (\<lambda>_. True) d t1 \<and> t_cursor t1 = t_cursor t)
      (with_active (on_screen (insert_characters (column (t_cursor t)) (row (t_cursor t)) w (erase_cell e t) sp)) t)" for sp
  proof -
    obtain b where b: "active_buffer t = Some b" "buffer_core d b" "t_cursor t = b_cursor b"
      using term_wf_active [OF assms(1)] by metis
    have "ok (\<lambda>b'. buffer_core d b' \<and> (\<exists>s. b' = b\<lparr>b_screen := s\<rparr>))
        (on_screen (insert_characters (column (t_cursor t)) (row (t_cursor t)) w (erase_cell e t) sp) b)"
      by (rule on_screen_core [OF b(2)], rule insert_characters_inv) (use b buffer_coreD [OF b(2)] assms in auto)
    then show ?thesis
      using b set_active_wf [OF assms(1)] by (auto simp: with_active_def ok_iff)
  qed
  have wf: "term_wf (\<lambda>_. True) d t" using assms(1) by (rule term_wf_mono) simp
  show ?thesis
  proof (cases "insert_mode (t_modes t)")
    case True
    have "ok (\<lambda>t1. term_wf (\<lambda>_. True) d t1 \<and> t_cursor t1 = t_cursor t) (do {
             last_column \<leftarrow> checked_sub limit 1;
             let cur = t_cursor t;
             with_active (on_screen (insert_characters (column cur) (row cur) w (erase_cell e t) (span_new 0 last_column))) t })"
      using ins assms(4) by (simp add: Let_def)
    then show ?thesis
      unfolding print_cluster_def if_P [OF True]
      by (rule ok_bindI) (use step in \<open>simp add: Let_def\<close>)
  next
    case False
    then show ?thesis using step [OF wf] by (simp add: print_cluster_def Let_def)
  qed
qed

text \<open>The state in which a character is about to be written: the line may just have wrapped.\<close>

lemma print_step_wf:
  assumes t: "term_inv d t" and e: "env_ok e"
    and r: "char_width e ch \<noteq> Some 1 \<Longrightarrow> (\<And>t. term_inv d t \<Longrightarrow> ok (term_inv d) (print_replacement t))"
  shows "ok (term_inv d) (print_step e print_replacement ch t)"
proof -
  define w where "w = (case char_width e ch of None \<Rightarrow> 0 | Some w \<Rightarrow> w)"
  have written: "ok (term_inv d) (do {
       (wrap_limit, wrap_home) \<leftarrow> wrap_geometry t1;
       let width = min w 2;
       if width = 2 \<and> column (t_cursor t1) + 1 = wrap_limit then
         (if auto_wrap (t_modes t1) then do {
            t \<leftarrow> wrap_line e (row (t_cursor t1)) wrap_home t1;
            print_cluster e ch width wrap_limit t }
          else print_replacement t1)
       else print_cluster e ch width wrap_limit t1 })"
    if t1: "term_wf (\<lambda>_. True) d t1" "auto_wrap (t_modes t1) \<or> term_inv d t1" for t1
  proof -
    obtain limit start where g: "wrap_geometry t1 = Some (limit, start)" "limit \<le> columns d" "column (t_cursor t1) < limit"
      "start + 1 < columns d"
      using wrap_geometry_ok [OF t1(1)] by (auto simp: ok_iff)
    have cur: "row (t_cursor t1) < rows d" using term_wf_active [OF t1(1)] buffer_coreD(4) by metis
    have wrapped: "ok (\<lambda>t. ok (term_inv d) (print_cluster e ch (min w 2) limit t)) (wrap_line e (row (t_cursor t1)) start t1)"
      by (rule ok_mono [OF wrap_line_wf [OF t1(1) e cur, of start]]) (use g e in \<open>auto intro!: print_cluster_wf\<close>)
    have "ok (term_inv d) (print_cluster e ch (min w 2) limit t1)" if "\<not> (min w 2 = 2 \<and> column (t_cursor t1) + 1 = limit)"
      by (rule print_cluster_wf [OF t1(1) e g(2)]) (use g that in auto)
    moreover have "ok (term_inv d) (print_replacement t1)" if "min w 2 = 2" "\<not> auto_wrap (t_modes t1)"
      using r t1(2) that by (auto simp: w_def split: option.splits)
    ultimately show ?thesis using wrapped g(1) by (auto simp: Let_def)
  qed
  have start: "ok (\<lambda>t1. term_wf (\<lambda>_. True) d t1 \<and> (auto_wrap (t_modes t1) \<or> term_inv d t1)) (do {
       b \<leftarrow> active_buffer t0;
       if b_pending_wrap b \<and> auto_wrap (t_modes t0) then do {
               (_, home_column) \<leftarrow> wrap_geometry t0;
               wrap_line e (row (b_cursor b)) home_column t0 }
             else Some t0 })" if t0: "term_inv d t0" for t0
  proof -
    obtain b where b: "active_buffer t0 = Some b" "buffer_core d b" using term_wf_active [OF t0] by metis
    obtain limit start where g: "wrap_geometry t0 = Some (limit, start)" "start + 1 < columns d"
      using wrap_geometry_ok [OF t0] by (auto simp: ok_iff)
    have "ok (\<lambda>t'. term_wf (\<lambda>_. True) d t' \<and> t_modes t' = t_modes t0 \<and> column (t_cursor t') = start) (wrap_line e (row (b_cursor b)) start t0)"
      by (rule wrap_line_wf [OF t0 e]) (use g(2) buffer_coreD(4) [OF b(2)] in simp_all)
    then show ?thesis using b(1) g(1) t0 by (auto simp: ok_iff intro: term_wf_mono)
  qed
  have printed: "ok (term_inv d) (do {
       let t = t0\<lparr>t_last_graphic_character := Some ch\<rparr>;
       b \<leftarrow> active_buffer t;
       t \<leftarrow> (if b_pending_wrap b \<and> auto_wrap (t_modes t) then do {
               (_, home_column) \<leftarrow> wrap_geometry t;
               wrap_line e (row (b_cursor b)) home_column t }
             else Some t);
       (wrap_limit, wrap_home) \<leftarrow> wrap_geometry t;
       let width = min w 2;
       if width = 2 \<and> column (t_cursor t) + 1 = wrap_limit then
         (if auto_wrap (t_modes t) then do {
            t \<leftarrow> wrap_line e (row (t_cursor t)) wrap_home t;
            print_cluster e ch width wrap_limit t }
          else print_replacement t)
       else print_cluster e ch width wrap_limit t })" if "term_inv d t0" for t0
    using ok_bindI [OF start [of "t0\<lparr>t_last_graphic_character := Some ch\<rparr>"] written] that
    unfolding Option.bind_assoc Let_def by simp
  show ?thesis
    unfolding print_step_def w_def [symmetric]
    by (rule ok_bindI [OF try_extend_grapheme_wf [OF t e]])
       (use printed clear_grapheme_anchor_inv in \<open>auto simp: Let_def\<close>)
qed

text \<open>
  The nested call prints U+FFFD, one column wide, so it never nests again: printing terminates.
\<close>

lemma print_wf: "term_inv d t \<Longrightarrow> env_ok e \<Longrightarrow> ok (term_inv d) (print e ch t)"
  unfolding print_def
  by (rule print_step_wf, assumption, assumption, rule print_step_wf) (simp_all add: env_ok_def)

end
