(* ===== verification/Terminal_Steps.thy ===== *)
theory Terminal_Steps
  imports Terminal_Inv
begin

text \<open>
  Every operation of \<open>Terminal_Ops\<close> runs without a panic on a terminal with no open grapheme and keeps
  the invariant.
\<close>

section \<open>Bounds\<close>

lemma last_ok:
  assumes "term_wf P d t"
  shows "checked_sub (t_columns t) 1 = Some (columns d - 1)" "checked_sub (t_rows t) 1 = Some (rows d - 1)"
    "t_columns t = columns d" "t_rows t = rows d" "2 \<le> columns d" "1 \<le> rows d"
  using term_wf_active [OF assms] by (metis checked_sub_Some dims_ok_def order_trans one_le_numeral)+

lemma cursor_ok:
  assumes "term_wf P d t"
  shows "column (t_cursor t) < columns d" "row (t_cursor t) < rows d"
  using term_wf_active [OF assms] buffer_coreD(3,4) by metis+

lemma active_ok:
  assumes "term_wf P d t"
  shows "ok (\<lambda>b. buffer_core d b \<and> P b \<and> t_cursor t = b_cursor b) (active_buffer t)"
  by (rule term_wf_active [OF assms]) simp

lemma carriage_return_column_ok:
  assumes "term_wf P d t"
  shows "ok (\<lambda>col. col < columns d) (carriage_return_column t)"
  using margins_ok [OF assms] active_ok [OF assms] last_ok(5) [OF assms]
  by (auto simp: carriage_return_column_def ok_iff span_ok_def)

lemma relative_horizontal_bounds_ok:
  assumes "term_wf P d t"
  shows "ok (\<lambda>(left, right). left \<le> column (t_cursor t) \<and> column (t_cursor t) \<le> right \<and> right < columns d)
    (relative_horizontal_bounds t)"
  using margins_ok [OF assms] active_ok [OF assms] last_ok [OF assms] cursor_ok [OF assms]
  by (auto simp: relative_horizontal_bounds_def ok_iff span_ok_def Let_def)

lemma vertical_bounds_ok:
  assumes "term_wf P d t"
  shows "ok (\<lambda>(first, bottom). first \<le> bottom \<and> bottom < rows d) (vertical_bounds t)"
  using active_ok [OF assms] last_ok [OF assms]
  by (auto simp: vertical_bounds_def ok_iff dest: buffer_coreD(5,6))

lemma relative_vertical_bounds_ok:
  assumes "term_wf P d t"
  shows "ok (\<lambda>(first, bottom). first \<le> row (t_cursor t) \<and> row (t_cursor t) \<le> bottom \<and> bottom < rows d)
    (relative_vertical_bounds t)"
proof -
  obtain b where b: "active_buffer t = Some b" "buffer_core d b" "t_cursor t = b_cursor b"
    using active_ok [OF assms] by (auto simp: ok_iff)
  show ?thesis
    using b buffer_coreD(4-6) [OF b(2)] last_ok [OF assms] by (auto simp: relative_vertical_bounds_def Let_def)
qed

lemma parameter_or_pos: "0 < dflt \<Longrightarrow> 1 \<le> parameter_or ps i dflt"
  by (auto simp: parameter_or_def unat_gt_0 Suc_le_eq split: option.split)

lemma parameter_sub [simp]:
  "0 < dflt \<Longrightarrow> checked_sub (k + parameter_or ps i dflt) (Suc 0) = Some (k + parameter_or ps i dflt - 1)"
  "0 < dflt \<Longrightarrow> checked_sub (parameter_or ps i dflt) (Suc 0) = Some (parameter_or ps i dflt - 1)"
  using parameter_or_pos [of dflt ps i] by simp_all

lemma absolute_column_ok: "term_wf P d t \<Longrightarrow> ok (\<lambda>col. col < columns d) (absolute_column n t)"
  using margins_ok [of P d t] last_ok [of P d t] by (auto simp: absolute_column_def ok_iff span_ok_def)

lemma absolute_row_ok: "term_wf P d t \<Longrightarrow> ok (\<lambda>r. r < rows d) (absolute_row n t)"
  using vertical_bounds_ok [of P d t] by (auto simp: absolute_row_def ok_iff)

lemma buffer_top_less: "buffer_core d b \<Longrightarrow> b_scroll_top b < rows d"
  using buffer_coreD(5,6) [of d b] by simp

section \<open>Tabs and cursor motion\<close>

text \<open>An operation that moves the cursor of the active buffer.\<close>

lemma move_settled:
  assumes "settled d t" "\<And>b. calm d b \<Longrightarrow> t_cursor t = b_cursor b \<Longrightarrow> calm d (g b)"
  shows "ok (settled d) (with_active (\<lambda>b. Some (g b)) t)"
  by (rule with_active_wf [OF assms(1)]) (use assms(2) in auto)

lemma carriage_return_settled: "settled d t \<Longrightarrow> ok (settled d) (carriage_return t)"
  unfolding carriage_return_def
  by (rule ok_bindI [OF carriage_return_column_ok], assumption, rule move_settled) auto

lemma tab_settled:
  assumes "settled d t"
  shows "ok (settled d) (tab t)"
proof -
  obtain sp where "horizontal_margins t = Some sp" "span_ok d sp"
    using margins_ok [OF assms] by (auto simp: ok_iff)
  then show ?thesis
    using last_ok [OF assms] cursor_ok [OF assms]
    by (auto simp: tab_def Let_def span_ok_def intro!: move_settled [OF assms])
qed

lemma backward_tab_settled:
  assumes "settled d t"
  shows "ok (settled d) (backward_tab t)"
  using extent_le [of id "take (column (t_cursor t)) (t_tab_stops t)"] cursor_ok [OF assms]
  by (auto simp: backward_tab_def intro!: move_settled [OF assms])

lemma times_inv: "P s \<Longrightarrow> (\<And>s. P s \<Longrightarrow> ok P (f s)) \<Longrightarrow> ok P (times n f s)"
proof (induction n arbitrary: s)
  case (Suc n)
  show ?case using Suc.IH [OF _ Suc.prems(2)] by (simp add: ok_bindI [OF Suc.prems(2) [OF Suc.prems(1)]] del: ok_bind)
qed simp

lemma tab_stops_settled [simp]:
  "settled d t \<Longrightarrow> settled d (set_tab_stop t)" "settled d t \<Longrightarrow> settled d (clear_tab_stops ps t)"
  by (auto simp: set_tab_stop_def clear_tab_stops_def term_wf_def Let_def split: active_screen.splits)

lemma drop_hyperlink_wf [simp]: "term_wf P d (drop_hyperlink t) = term_wf P d t"
  by (simp add: drop_hyperlink_def)

lemma end_logical_line_settled:
  assumes "settled d t"
  shows "ok (settled d) (end_logical_line t)"
  unfolding end_logical_line_def
proof (rule with_active_wf [OF assms])
  fix b assume b: "buffer_core d b" "unanchored b"
  show "ok (calm d) (on_screen (clear_soft_wrapped (row (b_cursor b))) b)"
    by (rule on_screen_calm, use b in simp, rule set_soft_wrapped_inv) (use buffer_coreD [OF b(1)] in simp_all)
qed

lemma index_settled: "settled d t \<Longrightarrow> env_ok e \<Longrightarrow> ok (settled d) (index e t)"
  by (rule ok_mono [OF index_wf [where P = unanchored and d = d]]) auto

lemma move_vertical_settled:
  assumes "settled d t"
  shows "ok (settled d) (move_vertical ps down t)"
  unfolding move_vertical_def Let_def
  by (rule ok_bindI [OF relative_vertical_bounds_ok [OF assms]]) (auto intro!: move_settled [OF assms])

lemma row_soft_wrapped_ok: "screen_inv s \<Longrightarrow> ok (\<lambda>_. True) (row_soft_wrapped s r)"
  using screen_invD(1) [of s] by (auto simp: row_soft_wrapped_def rd_def shape_def physical_row_def dims_ok_def)

lemma back_loop_calm:
  "calm d b \<Longrightarrow> right < columns d \<Longrightarrow> ok (calm d) (back_loop left right reverse n b)"
proof (induction left right reverse n b rule: back_loop.induct)
  case (1 left right reverse n b)
  let ?step = "min n (column (b_cursor b) - left)"
  let ?b = "set_column (column (b_cursor b) - ?step) b"
  have calm: "calm d ?b" using 1(2) buffer_coreD(3) [of d b] by auto
  obtain w where w: "row_soft_wrapped (b_screen ?b) (row (b_cursor b) - 1) = Some w"
    using row_soft_wrapped_ok [of "b_screen ?b" "row (b_cursor b) - 1"] buffer_coreD(1) [of d ?b] calm by (auto simp: ok_iff)
  have up: "calm d (set_column right (set_row (row (b_cursor b) - 1) ?b))"
    using calm 1(3) buffer_coreD(4) [of d b] 1(2) by auto
  show ?case
    using calm w 1(1) [OF refl refl refl refl refl _ w] up 1(3)
    by (subst back_loop.simps) (auto simp: Let_def)
qed

lemma move_cursor_back_settled:
  assumes "settled d t"
  shows "ok (settled d) (move_cursor_back n t)"
proof -
  have "ok (settled d) (with_active (back_loop left right rev n) t)" if "right < columns d" for left right rev
    by (rule with_active_wf [OF assms]) (use back_loop_calm that in auto)
  then show ?thesis
    unfolding move_cursor_back_def
    by (intro ok_bindI [OF relative_horizontal_bounds_ok [OF assms]]) (auto intro: ok_bindI clear_pending_wrap_settled simp del: ok_bind)
qed

lemma move_horizontal_settled:
  assumes "settled d t"
  shows "ok (settled d) (move_horizontal ps forward t)"
proof (cases forward)
  case True
  have "ok (settled d) (do { (_, right) \<leftarrow> relative_horizontal_bounds t;
       with_active (\<lambda>b. Some ((set_column (min (sat_add (column (b_cursor b)) (parameter_or ps 0 1)) right) b)
                                \<lparr>b_pending_wrap := False\<rparr>)) t })"
    by (rule ok_bindI [OF relative_horizontal_bounds_ok [OF assms]]) (auto intro!: move_settled [OF assms])
  then show ?thesis using True by (simp add: move_horizontal_def del: ok_bind)
next
  case False
  then show ?thesis using move_cursor_back_settled [OF assms] by (simp add: move_horizontal_def del: ok_bind)
qed

lemma cursor_moves_settled:
  assumes "settled d t"
  shows "ok (settled d) (cursor_horizontal_absolute ps rel t)" "ok (settled d) (cursor_position ps t)"
    "ok (settled d) (vertical_position_absolute ps t)" "ok (settled d) (home_cursor t)"
proof -
  have one: "checked_sub (parameter_or ps i 1) 1 = Some (parameter_or ps i 1 - 1)" for i by simp
  have col: "ok (\<lambda>col. col < columns d) (if rel then absolute_column n t
      else do { last_column \<leftarrow> checked_sub (t_columns t) 1; Some (min n last_column) })" for n
    using absolute_column_ok [OF assms] last_ok [OF assms] by auto
  show "ok (settled d) (cursor_horizontal_absolute ps rel t)"
    unfolding cursor_horizontal_absolute_def one bind.bind_lunit
    by (rule ok_bindI [OF col]) (auto intro!: move_settled [OF assms])
  show "ok (settled d) (cursor_position ps t)"
    unfolding cursor_position_def one bind.bind_lunit
    by (rule ok_bindI [OF absolute_row_ok [OF assms]], rule ok_bindI [OF absolute_column_ok [OF assms]])
       (auto intro!: move_settled [OF assms])
  show "ok (settled d) (vertical_position_absolute ps t)"
    unfolding vertical_position_absolute_def one bind.bind_lunit
    by (rule ok_bindI [OF absolute_row_ok [OF assms]]) (auto intro!: move_settled [OF assms])
  show "ok (settled d) (home_cursor t)"
    unfolding home_cursor_def Let_def
    by (rule ok_bindI [OF margins_ok [OF assms]])
       (use last_ok(5,6) [OF assms] in \<open>auto simp: span_ok_def Suc_le_eq buffer_top_less intro!: move_settled [OF assms]\<close>)
qed

section \<open>Erasing and rectangles\<close>

text \<open>A screen operation applied to the active buffer.\<close>

lemma on_screen_settled:
  assumes "settled d t" "\<And>s. screen_inv s \<Longrightarrow> s_dimensions s = d \<Longrightarrow> ok (inv_like s) (f s)"
  shows "ok (settled d) (with_active (on_screen f) t)"
proof (rule with_active_wf [OF assms(1)])
  fix b assume b: "buffer_core d b" "unanchored b"
  show "ok (calm d) (on_screen f b)"
    by (rule on_screen_calm) (use b assms(2) buffer_coreD(1,2) [OF b(1)] in auto)
qed

lemma buffer_screen_settled:
  assumes "settled d t"
    "\<And>b s. calm d b \<Longrightarrow> t_cursor t = b_cursor b \<Longrightarrow> screen_inv s \<Longrightarrow> s_dimensions s = d \<Longrightarrow> ok (inv_like s) (f b s)"
  shows "ok (settled d) (with_active (\<lambda>b. on_screen (f b) b) t)"
proof (rule with_active_wf [OF assms(1)])
  fix b assume b: "buffer_core d b" "unanchored b" "t_cursor t = b_cursor b"
  show "ok (calm d) (on_screen (f b) b)"
    by (rule on_screen_calm) (use b assms(2) buffer_coreD(1,2) [OF b(1)] in auto)
qed

lemma linear_le: "r < n \<Longrightarrow> c \<le> m \<Longrightarrow> r * m + c \<le> n * (m :: nat)"
  using mult_le_mono1 [of "Suc r" n m] by simp

lemma erase_settled:
  assumes "settled d t" "env_ok e"
  shows "ok (settled d) (erase_display ps sel e t)" "ok (settled d) (erase_line ps sel e t)"
    "ok (settled d) (erase_characters ps e t)"
proof -
  note l = last_ok [OF assms(1)] and c = cursor_ok [OF assms(1)]
  have fill: "ok (settled d) (with_active (on_screen (fill_linear_with lo hi (erase_cell e t) spare)) t)"
    if "hi \<le> rows d * columns d" for lo hi spare
    by (rule on_screen_settled [OF assms(1)], rule fill_linear_inv) (use that assms in auto)
  have whole: "row (t_cursor t) * columns d + columns d \<le> rows d * columns d"
    using linear_le [OF c(2) order.refl] .
  have part: "row (t_cursor t) * columns d + column (t_cursor t) + 1 \<le> rows d * columns d"
    using c(1) linear_le [OF c(2), of "column (t_cursor t) + 1" "columns d"] by simp
  have clear: "ok (settled d) (with_active (on_screen (\<lambda>s. Some (clear_all (erase_cell e t) s))) t)"
    by (rule on_screen_settled [OF assms(1)]) (use clear_all_inv assms in simp)
  have same: "ok (settled d) (with_active (on_screen Some) t)"
    by (rule on_screen_settled [OF assms(1)]) (simp add: inv_like_refl)
  show "ok (settled d) (erase_display ps sel e t)"
    using fill [of "columns d * rows d"] fill [OF part] clear same assms(1) l(3,4)
    by (auto simp: erase_display_def Let_def mult.commute intro: term_wf_scrollback sb_clear_shape)
  show "ok (settled d) (erase_line ps sel e t)"
    using fill [OF whole] fill [OF part] assms(1) l(3,4) by (auto simp: erase_line_def Let_def)
  show "ok (settled d) (erase_characters ps e t)"
    using fill [of "min (sat_add (row (t_cursor t) * columns d + column (t_cursor t)) (parameter_or ps 0 1))
        ((row (t_cursor t) + 1) * columns d)"] whole l(3)
    by (auto simp: erase_characters_def Let_def min_def)
qed

lemma rectangle_origin_ok:
  assumes "term_wf P d t"
  shows "ok (\<lambda>(r, c). r < rows d \<and> c < columns d) (rectangle_origin t)"
  using margins_ok [OF assms] active_ok [OF assms] last_ok(5,6) [OF assms]
  by (auto simp: rectangle_origin_def ok_iff span_ok_def dest: buffer_top_less)

lemma rectangle_from_ok:
  assumes "term_wf P d t"
  shows "ok (\<lambda>found. case found of None \<Rightarrow> True | Some rc \<Rightarrow> in_rect rc d) (rectangle_from ps n t)"
proof -
  obtain r c where o: "rectangle_origin t = Some (r, c)" "r < rows d" "c < columns d"
    using rectangle_origin_ok [OF assms] by (auto simp: ok_iff)
  note l = last_ok [OF assms]
  have pos: "0 < rows d - r" "0 < columns d - c" using o by simp_all
  show ?thesis
    using o l by (simp add: rectangle_from_def pos) (auto simp: in_rect_def Let_def not_less min_less_iff_disj)
qed

lemma rectangles_settled:
  assumes "settled d t" "env_ok e"
  shows "ok (settled d) (term_fill_rectangle ps e t)" "ok (settled d) (erase_rectangle ps sel e t)"
    "ok (settled d) (term_copy_rectangle ps e t)"
proof -
  have fill: "ok (settled d) (with_active (on_screen (fill_rectangle e rc c spare)) t)"
    if "in_rect rc d" "cell_valid c" for rc c spare
    by (rule on_screen_settled [OF assms(1)], rule fill_rectangle_inv) (use that assms in auto)
  have found: "ok (settled d) (rectangle_from ps n t \<bind> case_option (Some t) f)"
    if "\<And>rc. in_rect rc d \<Longrightarrow> ok (settled d) (f rc)" for n f
    by (rule ok_bindI [OF rectangle_from_ok [OF assms(1)]]) (use that assms(1) in \<open>auto split: option.splits\<close>)
  show "ok (settled d) (term_fill_rectangle ps e t)"
    using assms const_cap_valid [OF assms(2)]
    by (auto simp: term_fill_rectangle_def Let_def simp del: ok_bind intro!: found fill split: option.split)
  show "ok (settled d) (erase_rectangle ps sel e t)"
    unfolding erase_rectangle_def Let_def by (rule found, rule fill) (use assms in auto)
  show "ok (settled d) (term_copy_rectangle ps e t)"
    unfolding term_copy_rectangle_def
  proof (rule found)
    fix rc assume rc: "in_rect rc d"
    have copy: "ok (settled d) (with_active (on_screen (copy_rectangle e rc dt dl)) t)"
      if "dt < rows d" "dl < columns d" for dt dl
      by (rule on_screen_settled [OF assms(1)], rule copy_rectangle_inv) (use that rc assms in auto)
    note l = last_ok [OF assms(1)]
    show "ok (settled d) (do {
         (row_origin, column_origin) \<leftarrow> rectangle_origin t;
         let corner = (\<lambda>i origin limit. do {
                v \<leftarrow> checked_sub (origin + parameter_or ps i 1) 1;
                m \<leftarrow> checked_sub limit 1;
                Some (min v m) });
         dst_top \<leftarrow> corner 5 row_origin (t_rows t);
         dst_left \<leftarrow> corner 6 column_origin (t_columns t);
         with_active (on_screen (copy_rectangle e rc dst_top dst_left)) t })"
      by (rule ok_bindI [OF rectangle_origin_ok [OF assms(1)]]) (use l in \<open>auto simp: Let_def intro!: copy\<close>)
  qed
qed

section \<open>Insertion, deletion and scrolling\<close>

lemma shift_region_settled:
  assumes "settled d t" "\<And>r s. r < rows d \<Longrightarrow> screen_inv s \<Longrightarrow> s_dimensions s = d \<Longrightarrow> ok (inv_like s) (f r s)"
  shows "ok (settled d) (shift_region f t)"
  unfolding shift_region_def
proof (rule buffer_screen_settled [OF assms(1)])
  fix b s assume b: "calm d b" "screen_inv s" "s_dimensions s = d"
  have "ok (\<lambda>s'. screen_inv s' \<and> s_dimensions s' = d) (foldM f [b_scroll_top b..<b_scroll_bottom b + 1] s)"
  proof (rule foldM_inv)
    fix r s' assume r: "r \<in> set [b_scroll_top b..<b_scroll_bottom b + 1]" "screen_inv s' \<and> s_dimensions s' = d"
    have "r < rows d" using r(1) buffer_coreD(6) [of d b] b(1) by auto
    from assms(2) [OF this] r(2) show "ok (\<lambda>s'. screen_inv s' \<and> s_dimensions s' = d) (f r s')"
      by (auto simp: inv_like_def ok_iff)
  qed (use b in simp)
  then show "ok (inv_like s) (foldM f [b_scroll_top b..<b_scroll_bottom b + 1] s)"
    using b by (auto simp: inv_like_def ok_iff)
qed

lemma shift_characters:
  assumes "settled d t" "env_ok e"
  shows "ok (settled d) (shift_region (\<lambda>r. insert_characters col r n (erase_cell e t) sp) t)"
    "ok (settled d) (shift_region (\<lambda>r. delete_characters col r n (erase_cell e t) sp) t)"
  using assms by (auto intro!: shift_region_settled insert_characters_inv delete_characters_inv)

lemma column_ops_settled:
  assumes "settled d t" "env_ok e"
  shows "ok (settled d) (insert_columns ps e t)" "ok (settled d) (delete_columns ps e t)"
    "ok (settled d) (back_index e t)" "ok (settled d) (forward_index e t)"
proof -
  obtain w where w: "cursor_within_margins t = Some w" using within_ok [OF assms(1)] by (auto simp: ok_iff)
  obtain sp where sp: "horizontal_margins t = Some sp" using margins_ok [OF assms(1)] by (auto simp: ok_iff)
  note l = last_ok [OF assms(1)] and c = cursor_ok [OF assms(1)]
  have left: "ok (settled d) (with_active (\<lambda>b. Some (set_column (column (b_cursor b) - 1) b)) t)"
    by (rule move_settled [OF assms(1)]) (use c in auto)
  have right: "ok (settled d) (with_active (\<lambda>b. Some (set_column (column (b_cursor b) + 1) b)) t)"
    if "column (t_cursor t) + 1 < columns d"
    by (rule move_settled [OF assms(1)]) (use that in auto)
  show "ok (settled d) (insert_columns ps e t)" "ok (settled d) (delete_columns ps e t)"
    using w sp shift_characters [OF assms] assms(1) by (auto simp: insert_columns_def delete_columns_def)
  show "ok (settled d) (back_index e t)"
    using sp shift_characters [OF assms] left assms(1) by (auto simp: back_index_def Let_def)
  show "ok (settled d) (forward_index e t)"
    using sp shift_characters [OF assms] right assms(1) l by (auto simp: forward_index_def Let_def)
qed

lemma within_margins_settled:
  assumes "settled d t" "\<And>n c sp b. span_ok d sp \<Longrightarrow> cell_valid c \<Longrightarrow> calm d b \<Longrightarrow> ok (calm d) (f n c sp b)" "env_ok e"
  shows "ok (settled d) (within_margins_do ps e f t)"
proof -
  obtain w where w: "cursor_within_margins t = Some w" using within_ok [OF assms(1)] by (auto simp: ok_iff)
  obtain sp where sp: "horizontal_margins t = Some sp" "span_ok d sp" using margins_ok [OF assms(1)] by (auto simp: ok_iff)
  have "ok (settled d) (with_active (f (parameter_or ps 0 1) (erase_cell e t) sp) t)"
    by (rule with_active_wf [OF assms(1)]) (use assms sp in auto)
  then show ?thesis using w sp assms(1) by (simp add: within_margins_do_def)
qed

lemma character_ops_settled:
  assumes "settled d t" "env_ok e"
  shows "ok (settled d) (term_insert_characters ps e t)" "ok (settled d) (term_delete_characters ps e t)"
  unfolding term_insert_characters_def term_delete_characters_def
  by (rule within_margins_settled [OF assms(1) _ assms(2)], rule on_screen_calm, simp, 
      rule insert_characters_inv delete_characters_inv, auto dest: buffer_coreD)+

lemma line_ops_calm:
  assumes "calm d b" "env_ok e" "span_ok d sp" "cell_valid c" "r \<le> b_scroll_bottom b"
  shows "ok (calm d) (on_screen (insert_lines e r (b_scroll_bottom b) n c sp) b)"
    "ok (calm d) (on_screen (delete_lines e r (b_scroll_bottom b) n c sp) b)"
    "ok (calm d) (on_screen (scroll_down e r (b_scroll_bottom b) n c sp) b)"
  by (rule on_screen_calm [OF assms(1)], rule line_ops_inv; use assms buffer_coreD [of d b] in simp)+

lemma line_ops_settled:
  assumes "settled d t" "env_ok e"
  shows "ok (settled d) (term_insert_lines ps e t)" "ok (settled d) (term_delete_lines ps e t)"
    "ok (settled d) (term_scroll_up ps e t)" "ok (settled d) (term_scroll_down ps e t)" "ok (settled d) (reverse_index e t)"
proof -
  show "ok (settled d) (term_insert_lines ps e t)" "ok (settled d) (term_delete_lines ps e t)"
    unfolding term_insert_lines_def term_delete_lines_def
    by (rule within_margins_settled [OF assms(1) _ assms(2)];
        use line_ops_calm [OF _ assms(2)] in \<open>simp add: in_scroll_region_def\<close>)+
  show "ok (settled d) (term_scroll_up ps e t)"
    unfolding term_scroll_up_def
    by (rule ok_bindI [OF margins_ok [OF assms(1)]], rule ok_mono [OF scroll_region_up_wf [OF assms]]) auto
  show "ok (settled d) (term_scroll_down ps e t)"
    unfolding term_scroll_down_def
    by (rule ok_bindI [OF margins_ok [OF assms(1)]], rule with_active_wf [OF assms(1)])
       (use line_ops_calm(3) [OF _ assms(2)] assms buffer_coreD(5) in auto)
  show "ok (settled d) (reverse_index e t)"
  proof -
    obtain w where w: "cursor_within_margins t = Some w" using within_ok [OF assms(1)] by (auto simp: ok_iff)
    obtain sp where sp: "horizontal_margins t = Some sp" "span_ok d sp" using margins_ok [OF assms(1)] by (auto simp: ok_iff)
    have "ok (settled d) (with_active (\<lambda>b.
       if row (b_cursor b) = b_scroll_top b then
         (if \<not> w then Some b
          else on_screen (scroll_down e (b_scroll_top b) (b_scroll_bottom b) 1 (erase_cell e t) sp) b)
       else Some (set_row (row (b_cursor b) - 1) b)) t)"
      by (rule with_active_wf [OF assms(1)])
         (use line_ops_calm(3) [OF _ assms(2) sp(2)] assms buffer_coreD(4,5) [of d] in \<open>auto simp: less_imp_diff_less\<close>)
    then show ?thesis using w sp by (simp add: reverse_index_def)
  qed
qed

section \<open>Margins and saved cursors\<close>

lemma set_region_calm:
  assumes "calm d b" "first \<le> bottom" "bottom < rows d"
  shows "calm d (b\<lparr>b_scroll_top := first, b_scroll_bottom := bottom\<rparr>)"
  using assms by (simp add: buffer_core_def)

lemma set_scroll_region_settled:
  assumes "settled d t"
  shows "ok (settled d) (set_scroll_region ps t)"
proof -
  note l = last_ok [OF assms]
  have "ok (settled d) (do { t \<leftarrow> with_active (\<lambda>b. Some ((set_row (if origin then first else 0) (set_column 0
          (b\<lparr>b_scroll_top := first, b_scroll_bottom := bottom\<rparr>)))\<lparr>b_pending_wrap := False\<rparr>)) t; home_cursor t })"
    if "first < bottom" "bottom < rows d" for first bottom origin
  proof (rule ok_bindI [OF move_settled [OF assms]])
    fix b assume b: "calm d b" "t_cursor t = b_cursor b"
    show "calm d ((set_row (if origin then first else 0) (set_column 0
          (b\<lparr>b_scroll_top := first, b_scroll_bottom := bottom\<rparr>)))\<lparr>b_pending_wrap := False\<rparr>)"
      using set_region_calm [OF b(1), of first bottom] that l by simp
  qed (rule cursor_moves_settled)
  then show ?thesis
    using l assms by (auto simp: set_scroll_region_def Let_def not_le simp del: ok_bind)
qed

lemma set_horizontal_margins_settled:
  assumes "settled d t"
  shows "ok (settled d) (set_horizontal_margins ps t)"
proof -
  note l = last_ok [OF assms]
  have "ok (settled d) (do { t \<leftarrow> with_active (\<lambda>b. Some (b\<lparr>b_scroll_left := left, b_scroll_right := right\<rparr>)) t; home_cursor t })"
    if "left < right" "right < columns d" for left right
    by (rule ok_bindI [OF move_settled [OF assms]]) (use that cursor_moves_settled in \<open>auto simp: buffer_core_def\<close>)
  then show ?thesis
    using l assms by (auto simp: set_horizontal_margins_def Let_def not_le simp del: ok_bind)
qed

lemma clamp_cursor_ok: "dims_ok d \<Longrightarrow> ok (cursor_in d) (clamp_cursor d c)"
  by (auto simp: clamp_cursor_def dims_ok_def cursor_in_iff)

lemma save_settled:
  assumes "settled d t"
  shows "ok (settled d) (save_dec t)" "ok (settled d) (save_ansi t)"
  unfolding save_dec_def save_ansi_def
  by (rule move_settled [OF assms]; use cursor_ok [OF assms] in \<open>auto simp: buffer_core_def cursor_in_iff\<close>)+

lemma home_calm: "calm d b \<Longrightarrow> calm d (b\<lparr>b_cursor := home, b_pending_wrap := p\<rparr>)"
  using buffer_coreD(9) [of d b] by (auto simp: buffer_core_def cursor_in_iff home_def dims_ok_def)

lemma restore_dec_settled:
  assumes "settled d t"
  shows "ok (settled d) (restore_dec t)"
proof -
  obtain b where b: "active_buffer t = Some b" "calm d b" "t_dimensions t = d" "dims_ok d"
    using term_wf_active [OF assms] by metis
  note bb = buffer_coreD(5,6) [of d b]
  show ?thesis
  proof (cases "b_dec_saved b")
    case None
    have "ok (settled d) (with_active (\<lambda>b. Some (b\<lparr>b_cursor := home, b_pending_wrap := False\<rparr>)) t')" if "settled d t'" for t'
      by (rule move_settled [OF that]) (use home_calm in auto)
    then show ?thesis using None b(1) assms by (simp add: restore_dec_def)
  next
    case (Some saved)
    obtain c where c: "clamp_cursor d (sd_cursor saved) = Some c" "cursor_in d c"
      using clamp_cursor_ok [OF b(4)] by (auto simp: ok_iff)
    have c': "ok (cursor_in d) (if sd_origin_mode saved then do {
                 r \<leftarrow> clamp (row c) (b_scroll_top b) (b_scroll_bottom b); Some (c\<lparr>row := r\<rparr>) } else Some c)"
      using c(2) bb b(2) by (auto simp: clamp_def cursor_in_iff)
    have move: "ok (settled d) (with_active (\<lambda>b. Some (b\<lparr>b_cursor := c, b_pending_wrap := p\<rparr>)) t)" if "cursor_in d c" for c p
      by (rule move_settled [OF assms]) (use that in \<open>auto simp: buffer_core_def\<close>)
    have "ok (settled d) (do {
         c \<leftarrow> (if sd_origin_mode saved then do {
                 r \<leftarrow> clamp (row c) (b_scroll_top b) (b_scroll_bottom b); Some (c\<lparr>row := r\<rparr>) }
               else Some c);
         t \<leftarrow> with_active (\<lambda>b. Some (b\<lparr>b_cursor := c,
                b_pending_wrap := (sd_pending_wrap saved \<and> column c + 1 = t_columns t)\<rparr>)) t;
         Some (t\<lparr>t_current_attributes := sd_attributes saved, t_current_foreground := sd_foreground saved,
                 t_current_background := sd_background saved,
                 t_modes := (t_modes t)\<lparr>origin_mode := sd_origin_mode saved\<rparr>,
                 t_current_protected := sd_protected saved, t_protection := sd_protection saved\<rparr>) })"
      by (rule ok_bindI [OF c'], rule ok_bindI [OF move]) simp_all
    then show ?thesis
      using Some b(1,3) c(1) by (simp add: restore_dec_def del: ok_bind)
  qed
qed

lemma restore_ansi_settled:
  assumes "settled d t"
  shows "ok (settled d) (restore_ansi t)"
proof -
  obtain b where b: "active_buffer t = Some b" "calm d b" "t_dimensions t = d" "dims_ok d"
    using term_wf_active [OF assms] by metis
  have move: "ok (settled d) (with_active (\<lambda>b. Some (b\<lparr>b_cursor := c, b_pending_wrap := False\<rparr>)) t')"
    if "settled d t'" "cursor_in d c" for c t'
    by (rule move_settled [OF that(1)]) (use that(2) in \<open>auto simp: buffer_core_def\<close>)
  have home: "cursor_in d home" using b(4) by (simp add: cursor_in_iff home_def dims_ok_def)
  have dm: "t_dimensions (t\<lparr>t_modes := m\<rparr>) = d" for m using b(3) by (simp add: t_dimensions_def)
  have saved: "ok (settled d) (do {
         c \<leftarrow> clamp_cursor d c;
         t \<leftarrow> with_active (\<lambda>b. Some (b\<lparr>b_cursor := c, b_pending_wrap := False\<rparr>)) t';
         Some (t\<lparr>t_current_protected := p, t_protection := q\<rparr>) })" if "settled d t'" for c t' p q
    by (rule ok_bindI [OF clamp_cursor_ok [OF b(4)]], rule ok_bindI [OF move [OF that]]) simp_all
  show ?thesis
    using move [OF _ home] assms b(1) saved
    by (auto simp: restore_ansi_def dm Let_def simp del: ok_bind split: option.split)
qed

end
