(* ===== verification/Terminal_Total.thy ===== *)
theory Terminal_Total
  imports Terminal_Steps
begin

text \<open>
  Modes, resets and reports keep the invariant; therefore \<open>apply\<close> and the ingestion of any byte string
  do, and neither panics.
\<close>

section \<open>Renditions and modes\<close>

lemma sgr_simple_wf [simp]: "term_wf P d (sgr_simple code t) = term_wf P d t"
  by (simp add: sgr_simple_def reset_graphics_rendition_def map_attributes_def split: option.split)

lemma set_extended_color_wf [simp]: "term_wf P d (snd (set_extended_color ps i fg t)) = term_wf P d t"
  by (simp add: set_extended_color_def Let_def split: option.split)

lemma sgr_loop_wf [simp]: "term_wf P d (sgr_loop ps i t) = term_wf P d t"
proof (induction ps i t rule: sgr_loop.induct)
  case (1 ps i t)
  have "term_wf P d (sgr_loop ps (fst (set_extended_color ps i fg t) + 1) (snd (set_extended_color ps i fg t))) = term_wf P d t"
    if "i < cp_length ps" "param_value ps i = Some v" "unat v = 38 \<or> unat v = 48" "fg = (unat v = 38)" for v fg
    using 1(1) [OF that(1,2) refl that(3) refl] that(4) by simp
  moreover have "term_wf P d (sgr_loop ps (i + 1) (sgr_simple (unat v) t)) = term_wf P d t"
    if "i < cp_length ps" "param_value ps i = Some v" "\<not> (unat v = 38 \<or> unat v = 48)" for v
    using 1(2) [OF that(1,2) refl that(3)] by simp
  ultimately show ?case
    by (subst sgr_loop.simps) (simp add: Let_def split: option.split)
qed

lemma set_graphics_rendition_wf [simp]: "term_wf P d (set_graphics_rendition ps t) = term_wf P d t"
  by (simp add: set_graphics_rendition_def reset_graphics_rendition_def)

lemma upd_modes_wf [simp]: "term_wf P d (upd_modes f t) = term_wf P d t"
  by (simp add: upd_modes_def)

lemma flag_modes_wf [simp]:
  "term_wf P d (set_ansi_mode en m t) = term_wf P d t" "term_wf P d (set_flag_mode en m t) = term_wf P d t"
  by (simp_all add: set_ansi_mode_def set_flag_mode_def set_mouse_tracking_def)

lemma advance_screen_generation_wf [simp]: "term_wf P d (advance_screen_generation t) = term_wf P d t"
  by (simp add: advance_screen_generation_def)

lemma set_margin_mode_settled:
  assumes "settled d t"
  shows "ok (settled d) (set_margin_mode en t)"
proof -
  have u: "settled d (upd_modes f t)" for f using assms by simp
  have "ok (settled d) (with_active (\<lambda>b. Some (b\<lparr>b_scroll_left := 0, b_scroll_right := columns d - 1\<rparr>)) (upd_modes f t))" for f
    by (rule move_settled [OF u]) (use last_ok(5) [OF assms] in \<open>auto simp: buffer_core_def\<close>)
  then show ?thesis using u last_ok(1) [OF u] by (simp add: set_margin_mode_def Let_def)
qed

lemma buffer_new_calm:
  assumes "dims_ok d" "env_ok e"
  shows "ok (\<lambda>r. case r of Inl _ \<Rightarrow> True | Inr b \<Rightarrow> calm d b) (buffer_new e d)"
proof (cases "screen_new e d")
  case (Inr s)
  then have "screen_inv s \<and> s_dimensions s = d" using screen_new_inv [OF assms(1) env_ok_caps [OF assms(2)]] by simp
  then show ?thesis
    using Inr assms(1) by (auto simp: buffer_new_def buffer_core_def unanchored_def cursor_in_iff home_def dims_ok_def)
qed (simp add: buffer_new_def)

lemma dirty_calm: "calm d b \<Longrightarrow> calm d (b\<lparr>b_screen := mark_all_dirty (b_screen b)\<rparr>)"
  using mark_all_dirty_inv [of "b_screen b"] by (auto simp: buffer_core_def inv_like_def)

lemma enter_alternate_settled:
  assumes "settled d t" "env_ok e"
  shows "ok (settled d) (enter_alternate e clear t)"
proof (cases "t_active_screen t")
  case Primary
  let ?t = "drop_hyperlink t"
  have t: "settled d ?t" "t_active_screen ?t = Primary" using assms(1) Primary by (simp_all add: drop_hyperlink_def)
  note l = last_ok [OF t(1)]
  have dm: "t_dimensions ?t = d" "dims_ok d" using term_wf_active [OF t(1)] by metis+
  have made: "ok (\<lambda>r. case r of Inl _ \<Rightarrow> True | Inr b \<Rightarrow> calm d b)
      (case t_alternate ?t of Some b \<Rightarrow> Some (Inr b) | None \<Rightarrow> buffer_new e (t_dimensions ?t))"
    using buffer_new_calm [OF dm(2) assms(2)] t dm(1) by (auto simp: term_wf_def split: option.splits)
  have swap: "ok (settled d) (do {
            alternate \<leftarrow> (if clear then do {
                bottom \<leftarrow> checked_sub (t_rows ?t) 1;
                Some (b\<lparr>b_screen := clear_all (erase_cell e ?t) (b_screen b),
                        b_cursor := home, b_scroll_top := 0, b_scroll_bottom := bottom,
                        b_pending_wrap := False, b_grapheme_anchor := None\<rparr>) }
              else Some b);
            let t = advance_screen_generation (?t\<lparr>t_alternate := Some alternate, t_active_screen := Alternate\<rparr>);
            let t = upd_modes (\<lambda>m. m\<lparr>alternate_screen := True\<rparr>) t;
            with_active (on_screen (\<lambda>s. Some (mark_all_dirty s))) t })" if b: "calm d b" for b
  proof -
    have cl: "ok (calm d) (if clear then do {
                bottom \<leftarrow> checked_sub (t_rows ?t) 1;
                Some (b\<lparr>b_screen := clear_all (erase_cell e ?t) (b_screen b),
                        b_cursor := home, b_scroll_top := 0, b_scroll_bottom := bottom,
                        b_pending_wrap := False, b_grapheme_anchor := None\<rparr>) }
              else Some b)"
      using b l dm(2) clear_all_inv [of "b_screen b" "erase_cell e ?t"] assms(2)
      by (auto simp: buffer_core_def inv_like_def unanchored_def cursor_in_iff home_def dims_ok_def)
    have sw: "settled d (?t\<lparr>t_alternate := Some a, t_active_screen := Alternate\<rparr>)" if "calm d a" for a
      using t that by (auto simp: term_wf_def)
    show ?thesis
      unfolding Let_def
      by (rule ok_bindI [OF cl], rule on_screen_settled) (use sw mark_all_dirty_inv in simp_all)
  qed
  show ?thesis
    using Primary t swap made unfolding enter_alternate_def Let_def
    by (auto intro!: ok_bindI [OF made] simp del: ok_bind split: sum.split)
qed (use assms in \<open>simp add: enter_alternate_def\<close>)

lemma buffer_reset_calm:
  assumes "buffer_core d b" "env_ok e"
  shows "ok (calm d) (buffer_reset e b)"
  using buffer_coreD [OF assms(1)] clear_all_inv [of "b_screen b" "blank_cell e"] assms
  by (auto simp: buffer_reset_def buffer_core_def inv_like_def unanchored_def cursor_in_iff home_def dims_ok_def)

lemma leave_alternate_settled:
  assumes "settled d t" "env_ok e"
  shows "ok (settled d) (leave_alternate e reset t)"
proof -
  define t1 where "t1 = (let t = drop_hyperlink t in if t_active_screen t = Alternate then
                (let t = advance_screen_generation (t\<lparr>t_active_screen := Primary\<rparr>);
                     b = t_primary t
                 in t\<lparr>t_primary := b\<lparr>b_screen := mark_all_dirty (b_screen b)\<rparr>\<rparr>)
              else t)"
  have t1: "settled d t1" "t_active_screen t1 = Primary"
    using assms(1) dirty_calm [of d "t_primary t"]
    by (auto simp: t1_def term_wf_def drop_hyperlink_def advance_screen_generation_def Let_def split: active_screen.splits option.splits)
  have reset: "ok (settled d) (do { alternate \<leftarrow> buffer_reset e a; Some (t1\<lparr>t_alternate := Some alternate\<rparr>) })"
    if "t_alternate t1 = Some a" for a
  proof (rule ok_bindI [OF buffer_reset_calm [OF _ assms(2)]])
    show "buffer_core d a" using t1 that by (simp add: term_wf_def)
  qed (use t1 in \<open>simp add: term_wf_def\<close>)
  show ?thesis
    using t1 reset unfolding leave_alternate_def Let_def t1_def [unfolded Let_def, symmetric]
    by (auto split: option.split)
qed

lemma set_private_mode_settled:
  assumes "settled d t" "env_ok e"
  shows "ok (settled d) (set_private_mode e en mode t)"
  using assms cursor_moves_settled(4) [of d] clear_pending_wrap_settled [of d] set_margin_mode_settled [OF assms(1)]
    enter_alternate_settled [OF assms] leave_alternate_settled [OF assms] save_settled [OF assms(1)] restore_dec_settled [OF assms(1)]
  by (auto simp: set_private_mode_def Let_def simp del: ok_bind
      intro!: ok_bindI [OF save_settled(1)] ok_bindI [OF leave_alternate_settled] enter_alternate_settled restore_dec_settled)

lemma set_modes_settled:
  assumes "settled d t" "env_ok e"
  shows "ok (settled d) (set_modes e pr en ps t)"
proof (cases pr)
  case True
  have "ok (settled d) (foldM (\<lambda>i t. case param_value ps i of None \<Rightarrow> Some t
      | Some v \<Rightarrow> set_private_mode e en (unat v) t) [0..<cp_length ps] t)"
    by (rule foldM_inv) (use assms in \<open>auto intro: set_private_mode_settled split: option.split\<close>)
  then show ?thesis using True by (simp add: set_modes_def)
next
  case False
  have "settled d (fold (\<lambda>i t. case param_value ps i of None \<Rightarrow> t | Some v \<Rightarrow> set_ansi_mode en (unat v) t) xs t)" for xs
    using assms(1) by (induction xs arbitrary: t) (auto split: option.split)
  then show ?thesis using False by (simp add: set_modes_def)
qed

lemma soft_reset_settled:
  assumes "settled d t"
  shows "ok (settled d) (soft_reset t)"
proof -
  have "ok (settled d) (with_active (\<lambda>b. Some (b\<lparr>b_scroll_top := 0, b_scroll_bottom := rows d - 1, b_scroll_left := 0,
       b_scroll_right := columns d - 1, b_pending_wrap := False, b_dec_saved := None, b_ansi_saved := None\<rparr>)) t')"
    if "settled d t'" for t'
    by (rule move_settled [OF that]) (use last_ok(5,6) [OF that] in \<open>auto simp: buffer_core_def\<close>)
  moreover have u: "settled d (reset_graphics_rendition (upd_modes f t\<lparr>t_current_protected := p, t_protection := q\<rparr>))" for f p q
    using assms by (simp add: reset_graphics_rendition_def)
  ultimately show ?thesis
    using last_ok(1,2) [OF u] by (simp add: soft_reset_def Let_def)
qed

lemma screen_alignment_settled:
  assumes "settled d t" "env_ok e"
  shows "ok (settled d) (screen_alignment_pattern e t)"
proof -
  note l = last_ok [OF assms(1)]
  let ?c = "\<lparr>c_text = [0x45], c_capacity = const_cap e [0x45], c_width = Single,
                 c_foreground = Default, c_background = Default, c_attributes = NONE, c_hyperlink = None\<rparr> :: cell"
  have valid: "cell_valid ?c" using const_cap_valid [OF assms(2), where c = "?c" and ch = "0x45"] by simp
  have "ok (settled d) (with_active (\<lambda>b. on_screen (fill_rectangle e
         \<lparr>r_top = 0, r_left = 0, r_bottom = rows d - 1, r_right = columns d - 1\<rparr> ?c False)
       (b\<lparr>b_scroll_top := 0, b_scroll_bottom := rows d - 1, b_scroll_left := 0, b_scroll_right := columns d - 1,
          b_cursor := home, b_pending_wrap := False\<rparr>)) (upd_modes f t))" for f
  proof (rule with_active_wf)
    show "settled d (upd_modes f t)" using assms(1) by simp
    fix b assume b: "buffer_core d b" "unanchored b"
    let ?b = "b\<lparr>b_scroll_top := 0, b_scroll_bottom := rows d - 1, b_scroll_left := 0, b_scroll_right := columns d - 1,
          b_cursor := home, b_pending_wrap := False\<rparr>"
    have "calm d ?b" using b l by (auto simp: buffer_core_def cursor_in_iff home_def)
    then show "ok (calm d) (on_screen (fill_rectangle e
         \<lparr>r_top = 0, r_left = 0, r_bottom = rows d - 1, r_right = columns d - 1\<rparr> ?c False) ?b)"
      by (rule on_screen_calm, intro fill_rectangle_inv) (use buffer_coreD [OF b(1)] l valid assms(2) in \<open>auto simp: in_rect_def\<close>)
  qed
  then show ?thesis using l by (simp add: screen_alignment_pattern_def Let_def)
qed

section \<open>Reports\<close>

lemma queue_reply_wf [simp]: "term_wf P d (reply e bs t) = term_wf P d t"
  by (simp add: queue_reply_def split: prod.split)

lemma plain_reports_wf [simp]:
  "term_wf P d (request_mode pr ps e t) = term_wf P d t" "term_wf P d (dec_device_status ps e t) = term_wf P d t"
  "term_wf P d (device_attributes sec e t) = term_wf P d t" "term_wf P d (report_colors qs tm e t) = term_wf P d t"
  "term_wf P d (set_protection g p t) = term_wf P d t" "term_wf P d (set_cursor_style ps t) = term_wf P d t"
proof -
  show "term_wf P d (report_colors qs tm e t) = term_wf P d t"
    unfolding report_colors_def by (induction qs arbitrary: t) simp_all
qed (simp_all add: request_mode_def dec_device_status_def device_attributes_def Let_def set_protection_def set_cursor_style_def
      split: option.split)

lemma reports_wf:
  assumes "term_wf P d t"
  shows "ok (term_wf P d) (request_rectangle_checksum ps e t)" "ok (term_wf P d) (window_operation ps e t)"
    "ok (term_wf P d) (device_status ps e t)" "ok (term_wf P d) (apply_dcs_action action e t)"
proof -
  obtain b where b: "active_buffer t = Some b" "buffer_core d b" using term_wf_active [OF assms] by metis
  obtain sp where sp: "horizontal_margins t = Some sp" "span_ok d sp" using margins_ok [OF assms] by (auto simp: ok_iff)
  note bb = buffer_coreD(5,6) [OF b(2)]
  show "ok (term_wf P d) (window_operation ps e t)"
    using assms b by (auto simp: window_operation_def Let_def split: option.split)
  show "ok (term_wf P d) (device_status ps e t)"
    using assms b sp by (auto simp: device_status_def cursor_report_def Let_def split: option.split)
  show "ok (term_wf P d) (apply_dcs_action action e t)"
    using assms b sp by (auto simp: apply_dcs_action_def status_report_def split: option.split dcs_action.split)
  have "\<exists>r rl c cl. (if origin_mode (t_modes t) then do {
          margins \<leftarrow> horizontal_margins t;
          b \<leftarrow> active_buffer t;
          Some (b_scroll_top b, b_scroll_bottom b + 1, cs_left margins, cs_right margins + 1) }
        else Some (0, t_rows t, 0, t_columns t)) = Some (r, rl, c, cl) \<and> r \<le> rl \<and> c \<le> cl"
    using b sp bb by (auto simp: span_ok_def)
  then obtain r rl c cl where "(if origin_mode (t_modes t) then do {
          margins \<leftarrow> horizontal_margins t;
          b \<leftarrow> active_buffer t;
          Some (b_scroll_top b, b_scroll_bottom b + 1, cs_left margins, cs_right margins + 1) }
        else Some (0, t_rows t, 0, t_columns t)) = Some (r, rl, c, cl)" "r \<le> rl" "c \<le> cl" by blast
  then show "ok (term_wf P d) (request_rectangle_checksum ps e t)"
    using assms b(1) by (simp add: request_rectangle_checksum_def Let_def)
qed

section \<open>Applying an operation\<close>

lemma then_clear: "ok (settled d) m \<Longrightarrow> ok (settled d) (m \<bind> clear_pending_wrap)"
  by (erule ok_bindI) (rule clear_pending_wrap_settled)

lemma line_steps_settled:
  assumes "settled d t" "env_ok e"
  shows "ok (settled d) (do { t \<leftarrow> end_logical_line (drop_hyperlink t); index e t })"
    "ok (settled d) (line_feed e t)"
    "ok (settled d) (do { t \<leftarrow> end_logical_line (drop_hyperlink t); t \<leftarrow> index e t; clear_pending_wrap t })"
    "ok (settled d) (do { t \<leftarrow> end_logical_line (drop_hyperlink t); t \<leftarrow> index e t; t \<leftarrow> carriage_return t; clear_pending_wrap t })"
proof -
  have s: "ok (settled d) (end_logical_line (drop_hyperlink t))" using end_logical_line_settled assms(1) by simp
  note i = ok_bindI [OF index_settled [OF _ assms(2)]]
  show "ok (settled d) (do { t \<leftarrow> end_logical_line (drop_hyperlink t); index e t })"
    by (rule ok_bindI [OF s]) (rule index_settled [OF _ assms(2)])
  show "ok (settled d) (line_feed e t)"
    unfolding line_feed_def
    by (rule ok_bindI [OF s], rule i, assumption, rule ok_bindI [where Q = "settled d"])
       (auto intro: carriage_return_settled clear_pending_wrap_settled)
  show "ok (settled d) (do { t \<leftarrow> end_logical_line (drop_hyperlink t); t \<leftarrow> index e t; clear_pending_wrap t })"
    by (rule ok_bindI [OF s], rule i, assumption, rule clear_pending_wrap_settled)
  show "ok (settled d) (do { t \<leftarrow> end_logical_line (drop_hyperlink t); t \<leftarrow> index e t; t \<leftarrow> carriage_return t; clear_pending_wrap t })"
    by (rule ok_bindI [OF s], rule i, assumption, rule ok_bindI [OF carriage_return_settled], assumption, rule clear_pending_wrap_settled)
qed

lemma tabs_settled:
  assumes "settled d t"
  shows "ok (settled d) (times n tab t)" "ok (settled d) (times n backward_tab t)"
  by (rule times_inv [where P = "settled d", OF assms], erule tab_settled backward_tab_settled)+

lemma prints: "operation = Print ch \<or> operation = RepeatPrecedingCharacter ps \<Longrightarrow> term_inv d t \<Longrightarrow> env_ok e \<Longrightarrow>
    ok (term_inv d) (dispatch e operation t)"
  using times_inv [where P = "term_inv d", OF _ print_wf]
  by (auto simp: dispatch_def repeat_preceding_character_def intro: print_wf split: option.split)

lemma dispatch_settled:
  assumes t: "settled d t" and e: "env_ok e"
    and o: "\<And>ch. operation \<noteq> Print ch" "\<And>ps. operation \<noteq> RepeatPrecedingCharacter ps"
  shows "ok (settled d) (dispatch e operation t)"
proof (cases operation)
  case (CursorNextLine ps)
  then show ?thesis
    using ok_bindI [OF move_vertical_settled [OF t] carriage_return_settled] by (simp add: dispatch_def del: ok_bind)
next
  case (CursorPreviousLine ps)
  then show ?thesis
    using ok_bindI [OF move_vertical_settled [OF t] carriage_return_settled] by (simp add: dispatch_def del: ok_bind)
next
  case (SaveAnsiOrSetHorizontalMargins ps)
  then show ?thesis using set_horizontal_margins_settled [OF t] save_settled [OF t] t by (simp add: dispatch_def)
qed (insert t e o, simp_all add: dispatch_def del: ok_bind,
  auto simp del: ok_bind intro!: then_clear line_steps_settled tabs_settled carriage_return_settled move_cursor_back_settled tab_settled
    line_ops_settled save_settled restore_dec_settled restore_ansi_settled move_vertical_settled move_horizontal_settled cursor_moves_settled
    erase_settled character_ops_settled set_scroll_region_settled set_modes_settled reports_wf screen_alignment_settled
    soft_reset_settled rectangles_settled column_ops_settled)

theorem apply_op_wf:
  assumes "term_inv d t" "env_ok e"
  shows "ok (term_inv d) (apply_op e operation t)"
proof (cases "keeps_anchor operation")
  case True
  then show ?thesis
    using assms by (cases operation) (simp_all add: apply_op_def keeps_anchor_def dispatch_def print_wf)
next
  case False
  have "ok (term_inv d) (dispatch e operation t')" if "settled d t'" for t'
  proof (cases "(\<exists>ch. operation = Print ch) \<or> (\<exists>ps. operation = RepeatPrecedingCharacter ps)")
    case True
    then show ?thesis using prints [of operation _ _ d t' e] settled_inv [OF that] assms(2) by blast
  next
    case False
    then have "ok (settled d) (dispatch e operation t')" by (intro dispatch_settled [OF that assms(2)]) auto
    then show ?thesis by (rule ok_mono) (rule settled_inv)
  qed
  then show ?thesis
    unfolding apply_op_def if_not_P [OF False] by (rule ok_bindI [OF clear_grapheme_anchor_settled [OF assms(1)]])
qed

section \<open>Ingestion\<close>

lemma term_wf_parts:
  "term_wf P d t \<Longrightarrow> parser_ok p \<Longrightarrow> term_wf P d (t\<lparr>t_parser := p\<rparr>)"
  "term_wf P d t \<Longrightarrow> utf8_ok u \<Longrightarrow> term_wf P d (t\<lparr>t_utf8 := u\<rparr>)"
  "term_wf P d t \<Longrightarrow> parser_ok (t_parser t)" "term_wf P d t \<Longrightarrow> utf8_ok (t_utf8 t)"
  by (simp_all add: term_wf_def split: active_screen.splits)

lemma take_actions_ok:
  "parser_ok p \<Longrightarrow> parser_ok (snd (take_osc_action p))" "parser_ok p \<Longrightarrow> parser_ok (snd (take_dcs_action p))"
  by (simp_all add: take_osc_action_def take_dcs_action_def parser_ok_def)

lemma apply_osc_wf [simp]: "term_wf P d (apply_osc_action a e t) = term_wf P d t"
  by (simp add: apply_osc_action_def split: option.split osc_action.split)

lemma ingest_plain_wf:
  assumes t: "term_inv d t" and e: "env_ok e"
  shows "ok (term_inv d) (ingest_plain e byte t)"
proof (cases "is_ground (t_parser t) \<and> 0x80 \<le> byte")
  case True
  obtain started u where u: "utf8_start (t_utf8 t) byte = Some (started, u)" "utf8_ok u"
    using utf8_start_ok [OF term_wf_parts(4) [OF t], of byte] term_wf_parts(4) [OF t] by (auto simp: ok_iff split: if_splits)
  then show ?thesis
    using True print_wf [OF term_wf_parts(2) [OF t u(2)] e] term_wf_parts(2) [OF t u(2)] by (simp add: ingest_plain_def Let_def)
next
  case False
  obtain operation p where p: "advance e (t_parser t) byte = Some (operation, p)" "parser_ok p"
    using advance_ok [OF term_wf_parts(3) [OF t], of e byte] by (auto simp: ok_iff)
  obtain t1 where t1: "apply_op e operation (t\<lparr>t_parser := p\<rparr>) = Some t1" "term_inv d t1"
    using apply_op_wf [OF term_wf_parts(1) [OF t p(2)] e] by (auto simp: ok_iff)
  let ?t2 = "apply_osc_action (fst (take_osc_action (t_parser t1))) e (t1\<lparr>t_parser := snd (take_osc_action (t_parser t1))\<rparr>)"
  have t2: "term_inv d ?t2"
    using term_wf_parts(1) [OF t1(2) take_actions_ok(1) [OF term_wf_parts(3) [OF t1(2)]]] by simp
  have "ok (term_inv d) (apply_dcs_action (fst (take_dcs_action (t_parser ?t2))) e (?t2\<lparr>t_parser := snd (take_dcs_action (t_parser ?t2))\<rparr>))"
    by (rule reports_wf(4), rule term_wf_parts(1) [OF t2], rule take_actions_ok(2), rule term_wf_parts(3) [OF t2])
  then show ?thesis
    unfolding ingest_plain_def if_not_P [OF False] using p(1) t1(1) by (simp add: case_prod_unfold Let_def)
qed

text \<open>The byte that broke a sequence is taken again with the decoder idle, so the recursion ends.\<close>

definition wlp :: "('a \<Rightarrow> bool) \<Rightarrow> 'a option \<Rightarrow> bool" where
  "wlp P m = (case m of None \<Rightarrow> True | Some x \<Rightarrow> P x)"

lemma wlp_simps [simp]:
  "wlp P None" "wlp P (Some x) = P x" "wlp P (m \<bind> f) = wlp (\<lambda>x. wlp P (f x)) m"
  "wlp P (map_option g m) = wlp (\<lambda>x. P (g x)) m"
  by (auto simp: wlp_def split: option.split bind_split)

lemma wlp_mono: "wlp Q m \<Longrightarrow> (\<And>x. Q x \<Longrightarrow> P x) \<Longrightarrow> wlp P m"
  by (auto simp: wlp_def split: option.splits)

lemma wlp_triv: "(\<And>x. P x) \<Longrightarrow> wlp P m"
  by (simp add: wlp_def split: option.split)

lemma wlp_splits:
  "(c \<Longrightarrow> wlp P m) \<Longrightarrow> (\<not> c \<Longrightarrow> wlp P n) \<Longrightarrow> wlp P (if c then m else n)"
  "(x = None \<Longrightarrow> wlp P n) \<Longrightarrow> (\<And>y. x = Some y \<Longrightarrow> wlp P (f y)) \<Longrightarrow> wlp P (case x of None \<Rightarrow> n | Some y \<Rightarrow> f y)"
  by (auto split: option.split)

lemma wlp_reads:
  "(\<And>x. P1 x) \<Longrightarrow> wlp P1 (active_buffer t)" "(\<And>l h. P2 (l, h)) \<Longrightarrow> wlp P2 (wrap_geometry t)"
  "(\<And>x. P3 x) \<Longrightarrow> wlp P3 (checked_sub n k)" "(\<And>x. P4 x) \<Longrightarrow> wlp P4 (horizontal_margins t)"
  "(\<And>x. P5 x) \<Longrightarrow> wlp P5 (cursor_within_margins t)" "(\<And>x. P6 x) \<Longrightarrow> wlp P6 (push_rows e rs sb)"
  "(\<And>r s. P7 (r, s)) \<Longrightarrow> wlp P7 (scroll_up e lo hi n c sp scr)"
  by (auto intro: wlp_triv)

lemma wlp_with_active: "(\<And>t'. t_utf8 t' = t_utf8 t \<Longrightarrow> P t') \<Longrightarrow> wlp P (with_active f t)"
  by (simp add: with_active_def wlp_def set_active_def split: option.split bind_split active_screen.split)

lemma set_active_utf8 [simp]: "t_utf8 (set_active b t) = t_utf8 t"
  by (simp add: set_active_def split: active_screen.split)

lemmas wlp_intros = wlp_splits wlp_reads wlp_with_active

lemma wlp_index: "(\<And>t'. t_utf8 t' = t_utf8 t \<Longrightarrow> P t') \<Longrightarrow> wlp P (index e t)"
  unfolding index_def scroll_region_up_def Let_def by (auto intro!: wlp_intros)

lemma wlp_wrap_line: "(\<And>t'. t_utf8 t' = t_utf8 t \<Longrightarrow> P t') \<Longrightarrow> wlp P (wrap_line e r c t)"
  unfolding wrap_line_def by (auto intro!: wlp_intros wlp_index simp del: wlp_simps(3) simp: wlp_simps(3) [of _ "with_active _ _"])

lemma wlp_try_extend: "(\<And>x t'. t_utf8 t' = t_utf8 t \<Longrightarrow> P (x, t')) \<Longrightarrow> wlp P (try_extend_grapheme e ch t)"
  unfolding try_extend_grapheme_def extend_overlong_def extend_at_edge_def extend_in_place_def Let_def
  by (auto intro!: wlp_intros wlp_wrap_line)

lemma wlp_print_cluster: "(\<And>t'. t_utf8 t' = t_utf8 t \<Longrightarrow> P t') \<Longrightarrow> wlp P (print_cluster e ch w l t)"
proof -
  have s: "t_utf8 (spend_hyperlink t) = t_utf8 t" for t by (simp add: spend_hyperlink_def Let_def)
  show "(\<And>t'. t_utf8 t' = t_utf8 t \<Longrightarrow> P t') \<Longrightarrow> wlp P (print_cluster e ch w l t)"
    unfolding print_cluster_def Let_def by (auto intro!: wlp_intros simp: s)
qed

lemma wlp_print_step:
  assumes "\<And>P t. (\<And>t'. t_utf8 t' = t_utf8 t \<Longrightarrow> P t') \<Longrightarrow> wlp P (rep t)" "\<And>t'. t_utf8 t' = t_utf8 t \<Longrightarrow> P t'"
  shows "wlp P (print_step e rep ch t)"
  unfolding print_step_def clear_grapheme_anchor_def Let_def
  using assms(2)
  by (auto intro!: wlp_intros wlp_try_extend wlp_wrap_line wlp_print_cluster assms(1))

lemma print_utf8: "print e ch t = Some t' \<Longrightarrow> t_utf8 t' = t_utf8 t"
proof -
  have "wlp (\<lambda>t'. t_utf8 t' = t_utf8 t) (print e ch t)"
    unfolding print_def by (intro wlp_print_step) simp_all
  then show "print e ch t = Some t' \<Longrightarrow> t_utf8 t' = t_utf8 t" by simp
qed

lemma ingest_byte_wf:
  assumes t: "term_inv d t" and e: "env_ok e"
  shows "ok (term_inv d) (ingest_byte e byte t)"
proof (cases "utf8_pending (t_utf8 t)")
  case False
  then show ?thesis using ingest_plain_wf [OF t e] by (simp add: ingest_byte_def ingest_step_def)
next
  case True
  obtain r u where u: "utf8_advance (t_utf8 t) byte = Some (r, u)" "utf8_ok u" "r = Invalid \<Longrightarrow> \<not> utf8_pending u"
    using utf8_advance_spec [OF term_wf_parts(4) [OF t] True, of byte] by (fastforce simp: ok_iff)
  let ?t = "t\<lparr>t_utf8 := u\<rparr>"
  have t': "term_inv d ?t" by (rule term_wf_parts(2) [OF t u(2)])
  have again: "ok (term_inv d) (do { t \<leftarrow> print e replacement_character ?t; ingest_step e (\<lambda>_. None) byte t })" if "r = Invalid"
  proof -
    obtain t1 where t1: "print e replacement_character ?t = Some t1" "term_inv d t1"
      using print_wf [OF t' e] by (auto simp: ok_iff)
    then have "\<not> utf8_pending (t_utf8 t1)" using print_utf8 [OF t1(1)] u(3) that by simp
    then show ?thesis using t1 ingest_plain_wf [OF t1(2) e] by (simp add: ingest_step_def)
  qed
  show ?thesis
    using True u(1) t' again print_wf [OF t' e]
    by (cases r) (simp_all add: ingest_byte_def ingest_step_def [of _ "ingest_step _ _ _"] Let_def del: ok_bind)
qed

lemma ingest_wf: "term_inv d t \<Longrightarrow> env_ok e \<Longrightarrow> ok (term_inv d) (ingest e bytes t)"
  unfolding ingest_def by (rule foldM_inv) (auto intro: ingest_byte_wf)

end
