(* ===== verification/Terminal_Api.thy ===== *)
theory Terminal_Api
  imports Terminal_Total
begin

text \<open>
  The rest of the public interface: construction, resizing with its reflow, reset, history limits and
  typed input.  No call panics on a terminal that satisfies the invariant, whether or not memory runs out, and
  no operation on the alternate screen touches the primary buffer or the history.
\<close>

section \<open>Looking up and resolving positions\<close>

lemma locate_row_safe:
  assumes "sb_shape sb"
  shows "ok (\<lambda>_. True) (locate_row sb target)"
proof (cases "sb_line_row_starts sb = []")
  case False
  let ?starts = "sb_line_row_starts sb"
  obtain k where k: "search_loop ?starts target 0 (length ?starts) = Some k" "k \<le> length ?starts"
    "k \<noteq> 0 \<longrightarrow> ?starts ! (k - 1) \<le> target"
    using search_loop_safe [of "length ?starts" ?starts 0 target] by (auto simp: ok_iff)
  then show ?thesis
    using False assms by (cases k) (auto simp: locate_row_def line_index_for_absolute_row_def rd_def sb_shape_def)
qed (simp add: locate_row_def line_index_for_absolute_row_def)

lemma line_and_offset_safe: "sb_shape sb \<Longrightarrow> ok (\<lambda>_. True) (line_and_offset_at sb r col)"
  by (cases "checked_add (sb_content_row_origin sb) r")
     (auto simp: line_and_offset_at_def intro!: ok_mono [OF locate_row_safe] split: option.split)

lemma takeWhile_before:
  assumes "r \<le> length (takeWhile P xs)" "0 < r"
  shows "P (xs ! (r - 1))" "r - 1 < length xs"
proof -
  have l: "r - 1 < length (takeWhile P xs)" using assms by simp
  then show "P (xs ! (r - 1))" using set_takeWhileD [OF nth_mem [OF l]] takeWhile_nth [OF l] by simp
  show "r - 1 < length xs" using l length_takeWhile_le [of P xs] by simp
qed

lemma locate_offset_safe: "ok (\<lambda>_. True) (locate_offset l offset b)"
proof (cases "checked_sub offset (l_trimmed_offset l)")
  case (Some n)
  define n' where "n' = min n (length (l_cells l))"
  define P where "P = (\<lambda>x. if b then x < n' else x \<le> n')"
  define r where "r = min (length (takeWhile P (l_row_ends l))) (length (l_row_ends l) - 1)"
  have "row_start_of (l_row_ends l) r \<le> n'"
  proof (cases "r = 0")
    case False
    then have "P (l_row_ends l ! (r - 1))" "r - 1 < length (l_row_ends l)"
      using takeWhile_before [of r P "l_row_ends l"] by (simp_all add: r_def)
    then show ?thesis using False by (auto simp: row_start_of_def P_def rd_def checked_sub_def split: if_splits)
  qed (simp add: row_start_of_def checked_sub_def)
  then show ?thesis
    using Some by (simp add: locate_offset_def Let_def n'_def [symmetric] P_def [symmetric] r_def [unfolded One_nat_def, symmetric])
qed (simp add: locate_offset_def)

lemma position_less: "position P xs = Some i \<Longrightarrow> i < length xs"
  by (induction xs arbitrary: i) (auto split: if_splits)

lemma resolve_anchor_safe:
  assumes "sb_shape sb"
  shows "ok (\<lambda>_. True) (resolve_anchor sb a)"
proof (cases "anchor_line_index sb a")
  case (Some i)
  have i: "i < length (sb_lines sb)"
    using Some position_less [of _ "sb_lines sb"] by (auto simp: anchor_line_index_def rd_def split: if_splits)
  then show ?thesis
    using Some assms locate_offset_safe [of "sb_lines sb ! i" "a_offset a" "a_end_boundary a"]
    by (auto simp: resolve_anchor_def rd_def sb_shape_def ok_iff split: option.splits)
qed (simp add: resolve_anchor_def)

lemma resolve_option_safe: "sb_shape sb \<Longrightarrow> ok (\<lambda>_. True) (resolve_option sb a)"
  using resolve_anchor_safe by (simp add: resolve_option_def split: option.split)

lemma mapM_safe: "(\<And>x. x \<in> set xs \<Longrightarrow> ok (\<lambda>_. True) (f x)) \<Longrightarrow> ok (\<lambda>ys. length ys = length xs) (mapM f xs)"
proof (induction xs)
  case (Cons x xs)
  obtain y where "f x = Some y" using Cons.prems [of x] by (auto simp: ok_iff)
  moreover obtain ys where "mapM f xs = Some ys" "length ys = length xs" using Cons by (auto simp: ok_iff)
  ultimately show ?case by simp
qed simp

section \<open>Reflow\<close>

lemma to_rows_valid:
  assumes "screen_inv s"
  shows "ok (\<lambda>rs. rows_valid (s_columns s) rs \<and> length rs = s_rows s) (to_rows s)"
proof -
  have "to_rows s = Some (map (row_content \<circ> get_row s) [0..<s_rows s])"
    unfolding to_rows_def using extract_row_content [OF screen_invD(1) [OF assms]] screen_invD(3) [OF assms]
    by (intro mapM_Some) simp
  then show ?thesis using row_contents_valid [OF assms, of "[0..<s_rows s]"] by simp
qed

lemma occupied_row_count_safe:
  assumes "screen_inv s"
  shows "ok (\<lambda>n. n \<le> s_rows s) (occupied_row_count s)"
proof -
  have "mapM (\<lambda>r. rd (s_occupied_columns s) (physical_row s r)) [0..<s_rows s] =
      Some (map (\<lambda>r. s_occupied_columns s ! physical_row s r) [0..<s_rows s])"
    by (rule mapM_Some) (use physical_row_less [OF screen_invD(1) [OF assms]] screen_invD(1) [OF assms] in \<open>auto simp: rd_def shape_def\<close>)
  then show ?thesis using extent_le [of "\<lambda>n. 0 < n" "map (\<lambda>r. s_occupied_columns s ! physical_row s r) [0..<s_rows s]"]
    by (simp add: occupied_row_count_def)
qed

lemma reflow_cursor_in: "dims_ok d \<Longrightarrow> ok (cursor_in d) (reflow_cursor d ev n p)"
  by (auto simp: reflow_cursor_def dims_ok_def cursor_in_iff Let_def split: option.splits)

text \<open>What the reflow of the primary content leaves behind.\<close>

definition reflow_post :: "dimensions \<Rightarrow> content_position list \<Rightarrow> reflow_result \<Rightarrow> bool" where
  "reflow_post d ps r \<longleftrightarrow> sb_shape (rf_scrollback r) \<and> cursor_in d (rf_cursor r) \<and> length (rf_positions r) = length ps \<and>
     (\<forall>x \<in> set (rf_tail r). \<forall>c \<in> set (sr_cells x). cell_valid c)"

lemma reflow_content_ok:
  assumes b: "buffer_core d0 b" and sb: "sb_shape sb" and d: "dims_ok d"
  shows "ok (reflow_post d ps) (reflow_content e d sb ps b)"
proof -
  note c = buffer_coreD [OF b]
  obtain n where n: "occupied_row_count (b_screen b) = Some n"
    using occupied_row_count_safe [OF c(1)] by (auto simp: ok_iff)
  obtain rs where rs: "to_rows (b_screen b) = Some rs" "rows_valid (s_columns (b_screen b)) rs"
    using to_rows_valid [OF c(1)] by (auto simp: ok_iff)
  define k where "k = min (rows (b_dimensions b)) (max n (row (b_cursor b) + 1))"
  have k: "1 \<le> k" using c(2,4) by (auto simp: k_def)
  have taken: "rows_valid (s_columns (b_screen b)) (take k rs)" using rs(2) by (auto simp: rows_valid_def dest: in_set_takeD)
  obtain sb1 where sb1: "set_limit_bytes e usize_max sb = Some sb1" "sb_shape sb1"
    using set_limit_shape [OF sb] by (auto simp: ok_iff)
  obtain sb2 where sb2: "push_rows e (take k rs) sb1 = Some sb2" "sb_shape sb2"
    using push_rows_shape [OF sb1(2) taken] by (auto simp: ok_iff)
  obtain ca where ca: "line_and_offset_at sb2 (total_physical_rows sb + min (row (b_cursor b)) (k - 1)) (column (b_cursor b)) = Some ca"
    using line_and_offset_safe [OF sb2(2)] by (auto simp: ok_iff)
  let ?anchor = "\<lambda>p. position_anchor sb2 (total_physical_rows sb2)
         (position_row (total_physical_rows sb) (sb_content_row_origin sb) (sb_screen_row_origin sb) p) (cp_column p)"
  have "ok (\<lambda>ys. length ys = length ps) (mapM ?anchor ps)"
    by (rule mapM_safe) (use line_and_offset_safe [OF sb2(2)] in \<open>auto simp: position_anchor_def split: option.split\<close>)
  then obtain pa where pa: "mapM ?anchor ps = Some pa" "length pa = length ps" by (auto simp: ok_iff)
  define sb3 where "sb3 = (if columns d \<noteq> columns (b_dimensions b) then sb_reflow e (columns d) sb2 else sb2)"
  have sb3: "sb_shape sb3" using sb2(2) sb_reflow_shape d by (simp add: sb3_def dims_ok_def)
  obtain rc where rc: "resolve_option sb3 ca = Some rc" using resolve_option_safe [OF sb3] by (auto simp: ok_iff)
  obtain rp where rp: "mapM (resolve_option sb3) pa = Some rp" "length rp = length pa"
    using mapM_safe [of pa "resolve_option sb3"] resolve_option_safe [OF sb3] by (auto simp: ok_iff)
  obtain tl sb4 where sb4: "split_off_tail e (rows d) sb3 = Some (tl, sb4)" "sb_shape sb4"
    "\<forall>r \<in> set tl. \<forall>c \<in> set (sr_cells r). cell_valid c"
    using split_off_tail_shape [OF sb3, of e "rows d"] by (auto simp: ok_iff)
  obtain sb5 where sb5: "set_limit_bytes e (sb_limit_bytes sb) sb4 = Some sb5" "sb_shape sb5"
    using set_limit_shape [OF sb4(2)] by (auto simp: ok_iff)
  let ?ev = "sb_content_row_origin sb5 - sb_content_row_origin sb3"
  obtain cc where cc: "reflow_cursor d ?ev (total_physical_rows sb5) rc = Some cc" "cursor_in d cc"
    using reflow_cursor_in [OF d, of ?ev "total_physical_rows sb5" rc] by (auto simp: ok_iff)
  have eq: "reflow_content e d sb ps b = Some \<lparr>rf_tail = tl, rf_scrollback = sb5, rf_cursor = cc,
      rf_positions = map (final_position d ?ev (total_physical_rows sb5)
        (sb_content_row_origin sb5) (sb_screen_row_origin sb5)) rp\<rparr>"
    using k by (simp add: reflow_content_def n Let_def k_def [unfolded One_nat_def add_Suc_right add_0_right, symmetric] rs(1)
        sb1(1) sb2(1) ca [unfolded One_nat_def] pa(1) sb3_def [symmetric] rc rp(1) sb4(1) sb5(1) cc(1))
  show ?thesis unfolding eq using sb5(2) cc(2) sb4(3) rp(2) pa(2) by (simp add: reflow_post_def)
qed

section \<open>Resize\<close>

lemma resized_margins_ok:
  assumes "buffer_core d0 b" "dims_ok d"
  shows "ok (\<lambda>(left, right). left < right \<and> right < columns d) (resized_horizontal_margins b d)"
    "ok (\<lambda>(first, bottom). first \<le> bottom \<and> bottom < rows d) (resized_vertical_margins b d)"
  using buffer_coreD [OF assms(1)] assms(2)
  by (auto simp: resized_horizontal_margins_def resized_vertical_margins_def dims_ok_def Let_def)

lemma option_mapM_ok: "(\<And>x. ok P (f x)) \<Longrightarrow> ok (pred_option P) (option_mapM f m)"
  by (cases m) (simp_all add: option_mapM_def)

lemma clamp_saved_ok:
  assumes "dims_ok d" "b_scroll_top b \<le> b_scroll_bottom b" "b_scroll_bottom b < rows d"
  shows "ok (\<lambda>b'. (\<exists>sd sa. b' = b\<lparr>b_dec_saved := sd, b_ansi_saved := sa\<rparr> \<and>
      pred_option (\<lambda>sd. cursor_in d (sd_cursor sd)) sd \<and> pred_option (\<lambda>sa. cursor_in d (sa_cursor sa)) sa))
    (clamp_saved_states d b)"
proof -
  have dec: "ok (\<lambda>sd. cursor_in d (sd_cursor sd)) (clamp_dec d b saved)" for saved
    using clamp_cursor_ok [OF assms(1), of "sd_cursor saved"] assms(2,3)
    by (auto simp: clamp_dec_def ok_iff clamp_def cursor_in_iff)
  have ansi: "ok (\<lambda>sa. cursor_in d (sa_cursor sa)) (clamp_ansi d saved)" for saved
    using clamp_cursor_ok [OF assms(1), of "sa_cursor saved"] by (auto simp: clamp_ansi_def ok_iff)
  have "ok (\<lambda>b'. (\<exists>sd sa. b' = b\<lparr>b_dec_saved := sd, b_ansi_saved := sa\<rparr> \<and>
      pred_option (\<lambda>sd. cursor_in d (sd_cursor sd)) sd \<and> pred_option (\<lambda>sa. cursor_in d (sa_cursor sa)) sa))
     (do { dec \<leftarrow> option_mapM (clamp_dec d b) (b_dec_saved b); ansi \<leftarrow> option_mapM (clamp_ansi d) (b_ansi_saved b);
           Some (b\<lparr>b_dec_saved := dec, b_ansi_saved := ansi\<rparr>) })"
    by (rule ok_bindI [OF option_mapM_ok [OF dec]], rule ok_bindI [OF option_mapM_ok [OF ansi]]) auto
  then show ?thesis by (simp add: clamp_saved_states_def)
qed

lemma resized_buffer_core:
  assumes "dims_ok d" "screen_inv s" "s_dimensions s = d" "cursor_in d c" "first \<le> bottom" "bottom < rows d"
    "left < right" "right < columns d"
    and b': "b' = b\<lparr>b_screen := s, b_cursor := c, b_scroll_top := first, b_scroll_bottom := bottom,
       b_scroll_left := left, b_scroll_right := right, b_pending_wrap := p, b_grapheme_anchor := a\<rparr>"
  shows "ok (\<lambda>b''. buffer_core d b'' \<and> b_cursor b'' = c \<and> b_grapheme_anchor b'' = a) (clamp_saved_states d b')"
  by (rule ok_mono [OF clamp_saved_ok [OF assms(1)]]) (use assms in \<open>auto simp: buffer_core_def\<close>)

lemma buffer_resized_ok:
  assumes b: "buffer_core d0 b" and d: "dims_ok d" and e: "env_ok e"
  shows "ok (\<lambda>r. case r of Inl _ \<Rightarrow> True | Inr b' \<Rightarrow> buffer_core d b' \<and> (anchored d0 b \<longrightarrow> anchored d b') \<and>
      (unanchored b \<longrightarrow> unanchored b')) (buffer_resized e d b)"
proof -
  obtain left right where h: "resized_horizontal_margins b d = Some (left, right)" "left < right" "right < columns d"
    using resized_margins_ok(1) [OF b d] by (auto simp: ok_iff)
  obtain first bottom where v: "resized_vertical_margins b d = Some (first, bottom)" "first \<le> bottom" "bottom < rows d"
    using resized_margins_ok(2) [OF b d] by (auto simp: ok_iff)
  obtain c where c: "clamp_cursor d (b_cursor b) = Some c" "cursor_in d c" using clamp_cursor_ok [OF d] by (auto simp: ok_iff)
  have cc: "column c = min (column (b_cursor b)) (columns d - 1)" using c(1) d by (auto simp: clamp_cursor_def dims_ok_def)
  obtain r where r: "screen_resized e (b_screen b) d = Some r"
    "case r of Inl _ \<Rightarrow> True | Inr s \<Rightarrow> screen_inv s \<and> s_dimensions s = d"
    using resized_inv [OF d env_ok_caps [OF e] buffer_coreD(1) [OF b]] by (auto simp: ok_iff)
  define a where "a = (case b_grapheme_anchor b of None \<Rightarrow> None
      | Some a \<Rightarrow> if grapheme_anchor_survives_resize b d a then Some a else None)"
  have anc: "anchored d0 b \<Longrightarrow> pred_option (\<lambda>a. cursor_in d a \<and> column a \<le> column c) a"
    using cc by (auto simp: a_def anchored_def grapheme_anchor_survives_resize_def cursor_in_iff split: option.splits if_splits)
  have un: "unanchored b \<Longrightarrow> a = None" by (simp add: a_def unanchored_def)
  show ?thesis
  proof (cases r)
    case (Inr s)
    then have "screen_inv s" "s_dimensions s = d" using r(2) by simp_all
    note core = resized_buffer_core [OF d this c(2) v(2,3) h(2,3) refl, where b = b]
    show ?thesis
      using h(1) r(1) Inr c(1) v(1) anc un
      by (simp add: buffer_resized_def a_def [symmetric]) (rule ok_mono [OF core], auto simp: anchored_def unanchored_def)
  qed (use h r in \<open>simp add: buffer_resized_def\<close>)
qed

lemma buffer_reflowed_ok:
  assumes b: "buffer_core d0 b" and sb: "sb_shape sb" and d: "dims_ok d" and e: "env_ok e"
  shows "ok (\<lambda>(sb', r). sb_shape sb' \<and> (case r of Inl _ \<Rightarrow> True | Inr (b', ps') \<Rightarrow> calm d b' \<and> length ps' = length ps))
    (buffer_reflowed e d sb ps b)"
proof -
  obtain f where f: "reflow_content e d sb ps b = Some f" "reflow_post d ps f"
    using reflow_content_ok [OF b sb d, of ps e] by (auto simp: ok_iff)
  have "rows_valid (Max (insert 0 (length ` sr_cells ` set (rf_tail f)))) (rf_tail f)"
    using f(2) by (auto simp: rows_valid_def reflow_post_def)
  then obtain r where r: "from_rows e d (rf_tail f) = Some r" "case r of Inl _ \<Rightarrow> True | Inr s \<Rightarrow> screen_inv s \<and> s_dimensions s = d"
    using from_rows_inv [OF d env_ok_caps [OF e]] by (fastforce simp: ok_iff)
  obtain left right where h: "resized_horizontal_margins b d = Some (left, right)" "left < right" "right < columns d"
    using resized_margins_ok(1) [OF b d] by (auto simp: ok_iff)
  obtain first bottom where v: "resized_vertical_margins b d = Some (first, bottom)" "first \<le> bottom" "bottom < rows d"
    using resized_margins_ok(2) [OF b d] by (auto simp: ok_iff)
  show ?thesis
  proof (cases r)
    case (Inr s)
    then have "screen_inv s" "s_dimensions s = d" using r(2) by simp_all
    note core = resized_buffer_core [OF d this _ v(2,3) h(2,3) refl, where c = "rf_cursor f" and b = b]
    show ?thesis
      using h(1) r(1) Inr f v(1)
      by (simp add: buffer_reflowed_def Let_def) (rule ok_mono [OF core], auto simp: unanchored_def reflow_post_def)
  qed (use f r scrollback_new_shape in \<open>simp add: buffer_reflowed_def\<close>)
qed

lemma resized_tab_stops_length [simp]: "length (resized_tab_stops ts d) = columns d"
  by (simp add: resized_tab_stops_def)

text \<open>
  A resize that succeeds gives a terminal of the new dimensions; one that fails for lack of memory
  keeps the old ones.
\<close>

lemma resize_ok:
  assumes t: "term_inv d0 t" and d: "dims_ok d" and e: "env_ok e"
  shows "ok (\<lambda>(r, t'). case r of Inl _ \<Rightarrow> term_inv d0 t' | Inr ps' \<Rightarrow> term_inv d t' \<and> length ps' = length ps)
    (resize_with_content_positions e d ps t)"
proof -
  have prim: "buffer_core d0 (t_primary t)" "sb_shape (t_scrollback t)"
    using t by (auto simp: term_wf_def split: active_screen.splits)
  obtain sb r where r: "buffer_reflowed e d (t_scrollback t) ps (t_primary t) = Some (sb, r)" "sb_shape sb"
    "case r of Inl _ \<Rightarrow> True | Inr (b', ps') \<Rightarrow> calm d b' \<and> length ps' = length ps"
    using buffer_reflowed_ok [OF prim d e, of ps] by (auto simp: ok_iff)
  let ?t = "t\<lparr>t_scrollback := sb\<rparr>"
  have t1: "term_inv d0 ?t" using term_wf_scrollback [OF t r(2)] .
  show ?thesis
  proof (cases r)
    case (Inl err)
    then show ?thesis using r(1) t1 by (simp add: resize_with_content_positions_def Let_def)
  next
    case (Inr x)
    obtain b' ps' where x: "x = (b', ps')" by force
    have b': "calm d b'" "length ps' = length ps" using r(3) Inr x by auto
    have alt: "ok (\<lambda>a. case a of Inl _ \<Rightarrow> True | Inr m \<Rightarrow> (m = None \<longleftrightarrow> t_alternate t = None) \<and>
         pred_option (\<lambda>b. buffer_core d b \<and> anchored d b \<and> (t_active_screen t = Primary \<longrightarrow> unanchored b)) m)
       (case t_alternate ?t of None \<Rightarrow> Some (Inr None) | Some b \<Rightarrow> map_option (map_sum id Some) (buffer_resized e d b))"
    proof (cases "t_alternate t")
      case (Some b)
      have b: "buffer_core d0 b" "anchored d0 b" "t_active_screen t = Primary \<longrightarrow> unanchored b"
        using t Some by (auto simp: term_wf_def split: active_screen.splits)
      show ?thesis
        using Some b by (auto intro!: ok_mono [OF buffer_resized_ok [OF b(1) d e]] split: sum.splits)
    qed simp
    then obtain a where a: "(case t_alternate ?t of None \<Rightarrow> Some (Inr None)
         | Some b \<Rightarrow> map_option (map_sum id Some) (buffer_resized e d b)) = Some a"
      "case a of Inl _ \<Rightarrow> True | Inr m \<Rightarrow> (m = None \<longleftrightarrow> t_alternate t = None) \<and>
         pred_option (\<lambda>b. buffer_core d b \<and> anchored d b \<and> (t_active_screen t = Primary \<longrightarrow> unanchored b)) m"
      by (auto simp: ok_iff)
    have fin: "term_inv d (?t\<lparr>t_primary := b', t_alternate := m, t_tab_stops := resized_tab_stops ts d\<rparr>)" if "a = Inr m" for m ts
      using t1 a(2) b'(1) that by (auto simp: term_wf_def split: active_screen.splits option.splits)
    show ?thesis
      unfolding resize_with_content_positions_def r(1) Inr x Let_def using a(1) t1 fin b'(2) by (simp split: sum.split)
  qed
qed

section \<open>Construction, reset and the remaining calls\<close>

lemma with_scrollback_limit_ok:
  assumes "dims_ok d" "env_ok e"
  shows "ok (\<lambda>r. case r of Inl _ \<Rightarrow> True | Inr t \<Rightarrow> settled d t) (with_scrollback_limit e d limit)"
  unfolding with_scrollback_limit_def
  by (rule ok_bindI [OF buffer_new_calm [OF assms]])
     (auto simp: term_wf_def default_tab_stops_def scrollback_new_shape utf8_ok_def utf8_new_def split: sum.splits)

lemma reset_ok:
  assumes "term_inv d t" "env_ok e"
  shows "ok (settled d) (reset_to_initial_state e t)"
proof -
  have prim: "buffer_core d (t_primary t)" using assms(1) by (auto simp: term_wf_def split: active_screen.splits)
  have dm: "t_dimensions t = d" using term_wf_active [OF assms(1)] by metis
  show ?thesis
    unfolding reset_to_initial_state_def Let_def
    by (rule ok_bindI [OF buffer_reset_calm [OF prim assms(2)]])
       (use assms(1) dm in \<open>auto simp: term_wf_def default_tab_stops_def utf8_ok_def utf8_new_def advance_screen_generation_def split: active_screen.splits\<close>)
qed

lemma set_scrollback_limit_ok: "term_wf P d t \<Longrightarrow> ok (term_wf P d) (set_scrollback_limit e limit t)"
  unfolding set_scrollback_limit_def
  by (rule ok_bindI [OF set_limit_shape]) (auto simp: term_wf_scrollback term_wf_def [of P d t])

lemma clear_scrollback_wf: "term_wf P d t \<Longrightarrow> term_wf P d (clear_scrollback t)"
  unfolding clear_scrollback_def by (rule term_wf_scrollback [OF _ sb_clear_shape])

lemma take_dirty_inv: "screen_inv s \<Longrightarrow> inv_like s (snd (take_dirty_rows s))"
proof -
  assume s: "screen_inv s"
  have "get_row (snd (take_dirty_rows s)) i = (get_row s i)\<lparr>gr_dirty := map (\<lambda>_. False) (s_dirty_rows s) ! i\<rparr>" for i
    by (simp add: take_dirty_rows_def get_row_def physical_row_def physical_row_start_def)
  then show ?thesis using s by (auto simp: inv_like_def screen_inv_def take_dirty_rows_def shape_def)
qed

lemma term_take_dirty_rows_ok:
  assumes "term_inv d t"
  shows "ok (\<lambda>(_, t'). term_inv d t') (term_take_dirty_rows t)"
proof -
  obtain b where b: "active_buffer t = Some b" "buffer_core d b" "anchored d b" using term_wf_active [OF assms] by metis
  let ?b = "b\<lparr>b_screen := snd (take_dirty_rows (b_screen b))\<rparr>"
  have "buffer_core d ?b" using b(2) take_dirty_inv [OF buffer_coreD(1) [OF b(2)]] by (simp add: buffer_core_def inv_like_def)
  moreover have "anchored d ?b" using b(3) by (simp add: anchored_def)
  ultimately show ?thesis
    using b(1) set_active_wf(1) [OF assms, of ?b "anchored d"] by (simp add: term_take_dirty_rows_def case_prod_unfold Let_def)
qed

lemma queue_input_wf [simp]: "term_wf P d (snd (queue_input e bs t)) = term_wf P d t"
  by (simp add: queue_input_def split: prod.split)

lemma queue_encoded_wf [simp]: "term_wf P d (snd (queue_encoded_input e bs t)) = term_wf P d t"
  using queue_input_wf [of P d e bs t] by (simp add: queue_encoded_input_def case_prod_unfold Let_def)

lemma handle_input_wf [simp]: "term_wf P d (snd (handle_input e ev t)) = term_wf P d t"
  by (simp add: handle_input_def handle_paste_def handle_mouse_def Let_def split: option.split input_event.split)

lemma recovery_clone_wf:
  assumes "term_inv d t"
  shows "term_inv d (recovery_clone t)"
proof -
  have c: "buffer_core d b \<Longrightarrow> buffer_core d (b\<lparr>b_screen := mark_all_dirty (b_screen b)\<rparr>)" for b
    using mark_all_dirty_inv [of "b_screen b"] by (auto simp: buffer_core_def inv_like_def)
  show ?thesis
    using assms c by (auto simp: recovery_clone_def term_wf_def anchored_def Let_def option.pred_map comp_def
        split: active_screen.splits option.splits elim!: option.pred_mono_strong)
qed

section \<open>Reachable terminals\<close>

text \<open>
  The calls of the public interface that change a terminal.  \<open>restore_recovery_snapshot_allocations\<close> brings the
  real capacities of vectors and strings to the recorded ones; the state of the model has the recorded ones
  only, and stays as it is.
\<close>

datatype api_call =
    Ingest "u8 list"
  | Resize nat nat "content_position list"
  | Reset
  | SetScrollbackLimit nat
  | ClearScrollback
  | TakeDirtyRows
  | HandleInput input_event
  | QueueInput "u8 list"
  | DrainInput | DrainReplies | TakeInputOverflow | TakeReplyOverflow
  | SetColorScheme color_scheme
  | Apply terminal_op
  | QueueReply "u8 list"
  | RecoveryClone
  | RestoreRecoverySnapshotAllocations

fun call :: "env \<Rightarrow> api_call \<Rightarrow> terminal \<Rightarrow> terminal option" where
  "call e (Ingest bs) t = ingest e bs t"
| "call e (Resize c r ps) t = (case dimensions_new c r of Inl _ \<Rightarrow> Some t
     | Inr d \<Rightarrow> map_option snd (resize_with_content_positions e d ps t))"
| "call e Reset t = reset_to_initial_state e t"
| "call e (SetScrollbackLimit n) t = set_scrollback_limit e n t"
| "call e ClearScrollback t = Some (clear_scrollback t)"
| "call e TakeDirtyRows t = map_option snd (term_take_dirty_rows t)"
| "call e (HandleInput ev) t = Some (snd (handle_input e ev t))"
| "call e (QueueInput bs) t = Some (snd (queue_input e bs t))"
| "call e DrainInput t = Some (snd (drain_input t))"
| "call e DrainReplies t = Some (snd (drain_replies t))"
| "call e TakeInputOverflow t = Some (snd (take_input_queue_overflowed t))"
| "call e TakeReplyOverflow t = Some (snd (take_reply_queue_overflowed t))"
| "call e (SetColorScheme s) t = Some (set_color_scheme s t)"
| "call e (Apply operation) t = apply_op e operation t"
| "call e (QueueReply bs) t = Some (snd (queue_reply e bs t))"
| "call e RecoveryClone t = Some (recovery_clone t)"
| "call e RestoreRecoverySnapshotAllocations t = Some t"

text \<open>
  Every call runs in an environment of its own, so that the allocator may grant at one call what it refuses at
  another, and vectors may grow differently.
\<close>

inductive reachable :: "terminal \<Rightarrow> bool" where
  created: "env_ok e \<Longrightarrow> dimensions_new c r = Inr d \<Longrightarrow> with_scrollback_limit e d limit = Some (Inr t) \<Longrightarrow> reachable t"
| called: "reachable t \<Longrightarrow> env_ok e \<Longrightarrow> call e c t = Some t' \<Longrightarrow> reachable t'"

lemma sum_cases_imp: "(case r of Inl x \<Rightarrow> P x | Inr y \<Rightarrow> Q y) \<Longrightarrow> (\<exists>x. P x) \<or> (\<exists>y. Q y)"
  by (cases r) auto

lemma call_ok:
  assumes t: "term_inv d t" and e: "env_ok e"
  shows "ok (\<lambda>t'. \<exists>d'. term_inv d' t') (call e c t)"
proof (cases c)
  case (Ingest bs)
  then show ?thesis using ingest_wf [OF t e, of bs] by (auto simp: ok_iff)
next
  case (Resize cs r ps)
  show ?thesis
  proof (cases "dimensions_new cs r")
    case (Inr d')
    then have "dims_ok d'" using dimensions_new_ok by blast
    from resize_ok [OF t this e, of ps] show ?thesis
      using Resize Inr by (auto elim!: ok_mono dest!: sum_cases_imp)
  qed (use Resize t in auto)
next
  case Reset
  then show ?thesis using reset_ok [OF t e] settled_inv by (auto simp: ok_iff)
next
  case (SetScrollbackLimit n)
  then show ?thesis using set_scrollback_limit_ok [OF t, of e n] by (auto simp: ok_iff)
next
  case TakeDirtyRows
  then show ?thesis using term_take_dirty_rows_ok [OF t] by (auto simp: ok_iff)
next
  case (Apply operation)
  then show ?thesis using apply_op_wf [OF t e, of operation] by (auto simp: ok_iff)
qed (use t clear_scrollback_wf [OF t] recovery_clone_wf [OF t] in \<open>auto simp: drain_input_def drain_replies_def take_input_queue_overflowed_def
      take_reply_queue_overflowed_def set_color_scheme_def\<close>)

lemma reachable_inv:
  assumes "reachable t"
  shows "\<exists>d. term_inv d t"
  using assms
proof induction
  case (created e c r d limit t)
  then show ?case
    using with_scrollback_limit_ok [of d e limit] dimensions_new_ok [OF created(2)] settled_inv by auto
next
  case (called t e c t')
  then obtain d where "term_inv d t" by blast
  then show ?case using call_ok [of d t e c] called by simp
qed

section \<open>Operations on the alternate screen\<close>

text \<open>The alternate screen is shown, over this primary buffer and this history.\<close>

definition aside :: "buffer \<Rightarrow> scrollback \<Rightarrow> terminal \<Rightarrow> bool" where
  "aside p sb t \<longleftrightarrow> t_active_screen t = Alternate \<and> t_primary t = p \<and> t_scrollback t = sb"

definition aside_all :: "buffer \<Rightarrow> scrollback \<Rightarrow> terminal option \<Rightarrow> bool" where
  "aside_all p sb m \<longleftrightarrow> (\<forall>t. m = Some t \<longrightarrow> aside p sb t)"

lemma aside_primary: "aside p sb t \<Longrightarrow> t_active_screen t \<noteq> Primary"
  by (simp add: aside_def)

lemma aside_updates [simp]:
  "aside p sb (t\<lparr>t_parser := x1\<rparr>) = aside p sb t" "aside p sb (t\<lparr>t_modes := x2\<rparr>) = aside p sb t"
  "aside p sb (t\<lparr>t_tab_stops := x3\<rparr>) = aside p sb t" "aside p sb (t\<lparr>t_current_attributes := x4\<rparr>) = aside p sb t"
  "aside p sb (t\<lparr>t_current_protected := x5\<rparr>) = aside p sb t" "aside p sb (t\<lparr>t_protection := x6\<rparr>) = aside p sb t"
  "aside p sb (t\<lparr>t_current_foreground := x7\<rparr>) = aside p sb t" "aside p sb (t\<lparr>t_current_background := x8\<rparr>) = aside p sb t"
  "aside p sb (t\<lparr>t_current_hyperlink := x9\<rparr>) = aside p sb t" "aside p sb (t\<lparr>t_current_hyperlink_cells_remaining := x10\<rparr>) = aside p sb t"
  "aside p sb (t\<lparr>t_cursor_style := x11\<rparr>) = aside p sb t" "aside p sb (t\<lparr>t_cursor_style_set := x12\<rparr>) = aside p sb t"
  "aside p sb (t\<lparr>t_last_graphic_character := x13\<rparr>) = aside p sb t" "aside p sb (t\<lparr>t_reply_queue := x14\<rparr>) = aside p sb t"
  "aside p sb (t\<lparr>t_reply_queue_overflowed := x15\<rparr>) = aside p sb t"
  by (simp_all add: aside_def)

lemma aside_all_simps [simp]:
  "aside_all p sb None" "aside_all p sb (Some t) = aside p sb t"
  by (simp_all add: aside_all_def)

lemma aside_value: "aside_all p sb (m \<bind> f) = (\<forall>x. m = Some x \<longrightarrow> aside_all p sb (f x))"
  by (auto simp: aside_all_def split: bind_splits)

lemmas aside_values [simp] =
  aside_value [where m = m for m :: "nat option"] aside_value [where m = m for m :: "bool option"]
  aside_value [where m = m for m :: "(nat \<times> nat) option"] aside_value [where m = m for m :: "column_span option"]
  aside_value [where m = m for m :: "buffer option"] aside_value [where m = m for m :: "rectangle option option"]
  aside_value [where m = m for m :: "(screen_row list \<times> screen) option"] aside_value [where m = m for m :: "cursor option"]
  aside_value [where m = m for m :: "(nat \<times> nat \<times> nat \<times> nat) option"]

lemma aside_allD: "aside_all p sb m \<Longrightarrow> m = Some t \<Longrightarrow> aside p sb t"
  by (simp add: aside_all_def)

lemma with_active_aside: "aside p sb t \<Longrightarrow> aside_all p sb (with_active f t)"
  by (auto simp: with_active_def set_active_def aside_def)

text \<open>An operation that stays aside hands that on to the next one.\<close>

lemma aside_then [simp]:
  fixes m :: "terminal option"
  shows "aside_all p sb m \<Longrightarrow> aside_all p sb (m \<bind> f) = (\<forall>t. m = Some t \<longrightarrow> aside p sb t \<longrightarrow> aside_all p sb (f t))"
  using aside_value [of p sb m f] by (auto simp: aside_all_def)

declare with_active_aside [simp]

lemma queue_reply_aside [simp]: "aside p sb (reply e bs t) = aside p sb t"
  by (simp add: queue_reply_def split: prod.split)

lemma pure_aside [simp]:
  "aside p sb (upd_modes f t) = aside p sb t" "aside p sb (drop_hyperlink t) = aside p sb t" "aside p sb (set_tab_stop t) = aside p sb t"
  "aside p sb (clear_tab_stops ps t) = aside p sb t" "aside p sb (set_cursor_style ps t) = aside p sb t" "aside p sb (spend_hyperlink t) = aside p sb t"
  "aside p sb (reset_graphics_rendition t) = aside p sb t" "aside p sb (set_protection g r t) = aside p sb t"
  "aside p sb (set_mouse_tracking mt en t) = aside p sb t" 
  "aside p sb (request_mode pr ps e t) = aside p sb t" "aside p sb (dec_device_status ps e t) = aside p sb t"
  "aside p sb (device_attributes sec e t) = aside p sb t"
  by (simp_all add: upd_modes_def drop_hyperlink_def set_tab_stop_def clear_tab_stops_def set_cursor_style_def spend_hyperlink_def
      reset_graphics_rendition_def set_protection_def set_mouse_tracking_def request_mode_def dec_device_status_def
      device_attributes_def Let_def split: option.split)

lemma flag_modes_aside [simp]:
  "aside p sb (set_flag_mode en mode t) = aside p sb t" "aside p sb (set_ansi_mode en mode t) = aside p sb t"
  by (simp_all add: set_flag_mode_def set_ansi_mode_def)

lemma sgr_aside [simp]: "aside p sb (set_graphics_rendition ps t) = aside p sb t"
proof -
  have one: "aside p sb (sgr_simple code t) = aside p sb t" for code t
    by (simp add: sgr_simple_def map_attributes_def split: option.split)
  have ext: "aside p sb (snd (set_extended_color ps i fg t)) = aside p sb t" for ps i fg t
    by (simp add: set_extended_color_def Let_def split: option.split)
  have "aside p sb (sgr_loop ps i t) = aside p sb t" for i
    by (induction ps i t rule: sgr_loop.induct) (subst sgr_loop.simps, simp add: one ext Let_def split: option.split)
  then show ?thesis by (simp add: set_graphics_rendition_def)
qed

lemma scroll_up_aside [simp]: "aside p sb t \<Longrightarrow> aside_all p sb (scroll_region_up e count sp t)"
  by (auto simp: scroll_region_up_def Let_def retains_history_def set_active_def aside_def)

lemma simple_asides [simp]:
  assumes "aside p sb t"
  shows "aside_all p sb (clear_pending_wrap t)" "aside_all p sb (clear_grapheme_anchor t)" "aside_all p sb (carriage_return t)"
    "aside_all p sb (end_logical_line t)" "aside_all p sb (tab t)" "aside_all p sb (backward_tab t)" "aside_all p sb (index e t)"
    "aside_all p sb (reverse_index e t)" "aside_all p sb (save_dec t)" "aside_all p sb (save_ansi t)" "aside_all p sb (home_cursor t)"
    "aside_all p sb (shift_region f t)" "aside_all p sb (within_margins_do ps e g t)"
  using assms
  by (simp_all add: clear_pending_wrap_def clear_grapheme_anchor_def carriage_return_def end_logical_line_def tab_def backward_tab_def
      index_def reverse_index_def save_dec_def save_ansi_def home_cursor_def shift_region_def within_margins_do_def Let_def)

lemma compound_asides [simp]:
  assumes "aside p sb t"
  shows "aside_all p sb (line_feed e t)" "aside_all p sb (move_cursor_back n t)" "aside_all p sb (move_vertical ps down t)"
    "aside_all p sb (move_horizontal ps fw t)" "aside_all p sb (cursor_horizontal_absolute ps rel t)" "aside_all p sb (cursor_position ps t)"
    "aside_all p sb (vertical_position_absolute ps t)" "aside_all p sb (erase_display ps sel e t)" "aside_all p sb (erase_line ps sel e t)"
    "aside_all p sb (erase_characters ps e t)" "aside_all p sb (term_scroll_up ps e t)" "aside_all p sb (term_scroll_down ps e t)"
    "aside_all p sb (set_scroll_region ps t)" "aside_all p sb (set_horizontal_margins ps t)" "aside_all p sb (restore_dec t)"
    "aside_all p sb (restore_ansi t)" "aside_all p sb (device_status ps e t)" "aside_all p sb (screen_alignment_pattern e t)"
    "aside_all p sb (soft_reset t)" "aside_all p sb (term_copy_rectangle ps e t)" "aside_all p sb (term_fill_rectangle ps e t)"
    "aside_all p sb (erase_rectangle ps sel e t)" "aside_all p sb (insert_columns ps e t)" "aside_all p sb (delete_columns ps e t)"
    "aside_all p sb (back_index e t)" "aside_all p sb (forward_index e t)" "aside_all p sb (request_rectangle_checksum ps e t)"
    "aside_all p sb (window_operation ps e t)"
  using assms aside_primary [OF assms]
  by (simp_all add: line_feed_def move_cursor_back_def move_vertical_def move_horizontal_def cursor_horizontal_absolute_def
      cursor_position_def vertical_position_absolute_def erase_display_def erase_line_def erase_characters_def term_scroll_up_def
      term_scroll_down_def set_scroll_region_def set_horizontal_margins_def restore_dec_def restore_ansi_def device_status_def
      screen_alignment_pattern_def soft_reset_def term_copy_rectangle_def term_fill_rectangle_def erase_rectangle_def insert_columns_def
      delete_columns_def back_index_def forward_index_def request_rectangle_checksum_def window_operation_def Let_def
      split: option.split)

lemma times_aside [simp]: "(\<And>t. aside p sb t \<Longrightarrow> aside_all p sb (f t)) \<Longrightarrow> aside p sb t \<Longrightarrow> aside_all p sb (times n f t)"
  by (induction n arbitrary: t) simp_all

lemma wrap_line_aside [simp]: "aside p sb t \<Longrightarrow> aside_all p sb (wrap_line e r col t)"
  by (simp add: wrap_line_def)

lemma print_cluster_aside [simp]: "aside p sb t \<Longrightarrow> aside_all p sb (print_cluster e ch w limit t)"
  by (simp add: print_cluster_def Let_def)

lemma extend_asides [simp]:
  assumes "aside p sb t"
  shows "aside_all p sb (extend_overlong e a c t)" "aside_all p sb (extend_at_edge e a old c limit start t)"
    "aside_all p sb (extend_in_place e a c w w' limit t)"
  using assms by (simp_all add: extend_overlong_def extend_at_edge_def extend_in_place_def Let_def)

lemma try_extend_aside:
  assumes "aside p sb t" "try_extend_grapheme e ch t = Some (b, t')"
  shows "aside p sb t'"
  using assms(2) extend_asides [OF assms(1), THEN aside_allD] assms(1)
  by (auto simp: try_extend_grapheme_def Let_def split: bind_splits option.splits if_splits)

lemma print_aside [simp]:
  assumes "aside p sb t"
  shows "aside_all p sb (print e ch t)"
proof -
  have step: "aside_all p sb (print_step e again ch t)" if "\<And>t. aside p sb t \<Longrightarrow> aside_all p sb (again t)" "aside p sb t" for again ch t
    using that try_extend_aside [OF that(2), of e ch]
    by (auto simp: print_step_def aside_value [where m = "try_extend_grapheme e ch t"] Let_def)
  show ?thesis unfolding print_def by (intro step) (use assms in simp_all)
qed

text \<open>The modes that show the primary screen again, when they are reset.\<close>

definition leaves_alternate :: "terminal_op \<Rightarrow> bool" where
  "leaves_alternate operation = (case operation of
     SetModes prv enabled ps \<Rightarrow> prv \<and> \<not> enabled \<and>
       (\<exists>i < cp_length ps. case param_value ps i of None \<Rightarrow> False | Some v \<Rightarrow> unat v \<in> {47, 1047, 1049})
   | _ \<Rightarrow> False)"

lemma private_mode_aside:
  assumes "aside p sb t" "enabled \<or> mode \<notin> {47, 1047, 1049}"
  shows "aside_all p sb (set_private_mode e enabled mode t)"
proof -
  have "aside p sb t' \<Longrightarrow> aside_all p sb (enter_alternate e clear t')" for clear t' by (simp add: enter_alternate_def aside_def)
  then show ?thesis using assms by (auto simp: set_private_mode_def set_margin_mode_def Let_def)
qed

lemma set_modes_aside:
  assumes "aside p sb t" "\<not> leaves_alternate (SetModes prv enabled ps)"
  shows "aside_all p sb (set_modes e prv enabled ps t)"
proof (cases prv)
  case True
  have "aside_all p sb (foldM (\<lambda>i t. case param_value ps i of None \<Rightarrow> Some t | Some v \<Rightarrow> set_private_mode e enabled (unat v) t) js t)"
    if "\<forall>i \<in> set js. i < cp_length ps" for js
    using that assms(1)
  proof (induction js arbitrary: t)
    case (Cons i js)
    then have "aside_all p sb (case param_value ps i of None \<Rightarrow> Some t | Some v \<Rightarrow> set_private_mode e enabled (unat v) t)"
      using assms(2) True by (auto simp: leaves_alternate_def intro!: private_mode_aside split: option.splits)
    then show ?case using Cons by simp
  qed simp
  then show ?thesis using True by (simp add: set_modes_def)
next
  case False
  have "aside p sb (fold (\<lambda>i t. case param_value ps i of None \<Rightarrow> t | Some v \<Rightarrow> set_ansi_mode enabled (unat v) t) js t) = aside p sb t" for js
    by (induction js arbitrary: t) (simp_all split: option.split)
  then show ?thesis using False assms(1) by (simp add: set_modes_def)
qed

lemma apply_op_aside:
  assumes "aside p sb t" "\<not> leaves_alternate operation"
  shows "aside_all p sb (apply_op e operation t)"
proof -
  have "aside_all p sb (dispatch e operation t')" if "aside p sb t'" for t'
    using that assms(2) set_modes_aside
    by (cases operation) (simp_all add: dispatch_def term_insert_characters_def term_delete_characters_def term_insert_lines_def
        term_delete_lines_def repeat_preceding_character_def split: option.split)
  then show ?thesis using assms(1) by (simp add: apply_op_def)
qed

lemma apply_ops_aside:
  assumes "aside p sb t" "list_all (\<lambda>x. \<not> leaves_alternate x) operations"
  shows "aside_all p sb (foldM (apply_op e) operations t)"
  using assms
proof (induction operations arbitrary: t)
  case (Cons x xs)
  then show ?case using apply_op_aside [of p sb t x e] by simp
qed simp

end
