(* ===== verification/Snapshot.thy ===== *)
theory Snapshot
  imports Terminal_Api
begin

text \<open>
  The plain-text snapshot of history and screen: what its size limits guarantee, and that a bounded
  snapshot that is granted is the unbounded one.
\<close>

section \<open>Anything the two writing operations keep, the whole snapshot keeps\<close>

lemma and_then_Inr: "and_then m f = Inr y \<longleftrightarrow> (\<exists>x. m = Inr x \<and> f x = Inr y)"
  by (cases m) (simp_all add: and_then_def)

lemma push_rows_text_step:
  assumes "push_rows_text s (r # rs) b a = Some (Inr a')"
  shows "\<exists>a1 cs a2 w. (if \<not> b \<and> (0 < r \<or> 0 < sa_bytes a \<and> \<not> sa_trailing_newline a) then push_newline a else Inr a) = Inr a1 \<and>
    occupied_row_cells s r = Some cs \<and> push_cells_text cs a1 = Inr a2 \<and> row_soft_wrapped s r = Some w \<and>
    push_rows_text s rs (w = Some True) a2 = Some (Inr a')"
proof -
  let ?nl = "if \<not> b \<and> (0 < r \<or> 0 < sa_bytes a \<and> \<not> sa_trailing_newline a) then push_newline a else Inr a"
  obtain a1 where a1: "?nl = Inr a1" using assms by (cases ?nl) auto
  then have m: "(do { cs \<leftarrow> occupied_row_cells s r; (case push_cells_text cs a1 of Inl refusal \<Rightarrow> Some (Inl refusal)
      | Inr a \<Rightarrow> do { wrapped \<leftarrow> row_soft_wrapped s r; push_rows_text s rs (wrapped = Some True) a }) }) = Some (Inr a')"
    using assms by simp
  obtain cs where cs: "occupied_row_cells s r = Some cs" using m by (cases "occupied_row_cells s r") auto
  obtain a2 where a2: "push_cells_text cs a1 = Inr a2" using m cs by (cases "push_cells_text cs a1") auto
  obtain w where "row_soft_wrapped s r = Some w" using m cs a2 by (cases "row_soft_wrapped s r") auto
  then show ?thesis using a1 cs a2 m by auto
qed

locale text_sink =
  fixes good :: "str \<Rightarrow> bool" and inv :: "snapshot_accumulator \<Rightarrow> bool"
  assumes cell_text: "inv a \<Longrightarrow> good s \<Longrightarrow> push_cell_text s a = Inr a' \<Longrightarrow> inv a'"
    and newline: "inv a \<Longrightarrow> push_newline a = Inr a' \<Longrightarrow> inv a'"
begin

lemma cells:
  "inv a \<Longrightarrow> \<forall>c \<in> set cs. good (c_text c) \<Longrightarrow> push_cells_text cs a = Inr a' \<Longrightarrow> inv a'"
  by (induction cs arbitrary: a) (auto simp: and_then_Inr intro: cell_text split: if_splits)

lemma history:
  "inv a \<Longrightarrow> \<forall>l \<in> set ls. \<forall>c \<in> set (l_cells l). good (c_text c) \<Longrightarrow>
     push_history_text ls b a = Inr (b', a') \<Longrightarrow> inv a'"
proof (induction ls arbitrary: a b)
  case (Cons l ls)
  obtain a1 where a1: "push_cells_text (l_cells l) a = Inr a1" using Cons.prems(3) by (auto simp: and_then_Inr)
  have "inv a1" by (rule cells [OF Cons.prems(1) _ a1]) (use Cons.prems(2) in auto)
  then show ?case
    using Cons.prems(2,3) a1 newline Cons.IH by (auto simp: and_then_Inr split: if_splits)
qed simp

lemma screen_rows:
  "inv a \<Longrightarrow> \<forall>c \<in> set (s_cells s). good (c_text c) \<Longrightarrow> push_rows_text s rs b a = Some (Inr a') \<Longrightarrow> inv a'"
proof (induction rs arbitrary: a b)
  case (Cons r rs)
  obtain a1 cs a2 w where st: "(if \<not> b \<and> (0 < r \<or> 0 < sa_bytes a \<and> \<not> sa_trailing_newline a) then push_newline a else Inr a) = Inr a1"
    "occupied_row_cells s r = Some cs" "push_cells_text cs a1 = Inr a2" "push_rows_text s rs (w = Some True) a2 = Some (Inr a')"
    using push_rows_text_step [OF Cons.prems(3)] by blast
  have "inv a1" using st(1) Cons.prems(1) newline by (auto split: if_splits)
  moreover have "set cs \<subseteq> set (s_cells s)"
    using st(2) set_slice_subset by (fastforce simp: occupied_row_cells_def rd_range_def split: bind_splits if_splits)
  ultimately have "inv a2" using cells [OF _ _ st(3)] Cons.prems(2) by blast
  then show ?case using Cons.IH Cons.prems(2) st(4) by blast
qed simp

lemma visible:
  "inv a \<Longrightarrow> \<forall>c \<in> set (s_cells s). good (c_text c) \<Longrightarrow> append_visible_screen_text s r b a = Some (Inr a') \<Longrightarrow> inv a'"
  by (auto simp: append_visible_screen_text_def Let_def intro: screen_rows split: bind_splits)

lemma snapshot:
  assumes "inv a" "\<forall>l \<in> set (sb_lines (t_scrollback t)). \<forall>c \<in> set (l_cells l). good (c_text c)"
    "\<forall>c \<in> set (s_cells (b_screen (t_primary t))). good (c_text c)"
    "\<forall>b. active_buffer t = Some b \<longrightarrow> (\<forall>c \<in> set (s_cells (b_screen b)). good (c_text c))"
    "snapshot_with_accumulator a t = Some (Inr s)"
  shows "\<exists>a'. inv a' \<and> ts_text s = sa_text a'"
proof -
  obtain k a1 where a1: "push_history_text (sb_lines (t_scrollback t)) False a = Inr (k, a1)"
    using assms(5) by (auto simp: snapshot_with_accumulator_def split: sum.splits)
  have "inv a1" by (rule history [OF assms(1,2) a1])
  then show ?thesis
    using assms(3-5) a1 visible
    by (fastforce simp: snapshot_with_accumulator_def Let_def split: if_splits sum.splits bind_splits)
qed

end

section \<open>The bounds\<close>

text \<open>The accumulated text is as long as its counter says and within the byte limit.\<close>

definition bytes_within :: "nat \<Rightarrow> snapshot_accumulator \<Rightarrow> bool" where
  "bytes_within n a \<longleftrightarrow> sa_bytes a = str_len (sa_text a) \<and> sa_bytes a \<le> n \<and>
     (\<exists>b. sa_bounds a = Some b \<and> sb_max_bytes b = n)"

lemma str_len_append [simp]: "str_len (xs @ ys) = str_len xs + str_len ys"
  by (simp add: str_len_def)

lemma begin_text_fields:
  "begin_text a = Inr a' \<Longrightarrow> sa_text a' = sa_text a \<and> sa_bytes a' = sa_bytes a \<and> sa_bounds a' = sa_bounds a \<and>
     sa_current_line_bytes a' = sa_current_line_bytes a"
  by (auto simp: begin_text_def start_line_def split: if_splits option.splits)

lemma reserve_bytes_Inr:
  "reserve_bytes n a = Inr a' \<Longrightarrow> a' = a\<lparr>sa_bytes := sa_bytes a + n\<rparr> \<and>
     (case sa_bounds a of None \<Rightarrow> True | Some b \<Rightarrow> sa_bytes a + n \<le> sb_max_bytes b)"
  by (auto simp: reserve_bytes_def checked_add_def exceeds_def split: if_splits option.splits)

interpretation within: text_sink "\<lambda>_. True" "bytes_within n" for n
proof
  fix a s a'
  assume a: "bytes_within n a" and "push_cell_text s a = Inr a'"
  then show "bytes_within n a'"
    by (auto simp: push_cell_text_def and_then_Inr bytes_within_def split: if_splits option.splits
        dest!: reserve_bytes_Inr begin_text_fields)
next
  fix a a'
  assume "bytes_within n a" "push_newline a = Inr a'"
  then show "bytes_within n a'"
    by (auto simp: push_newline_def and_then_Inr bytes_within_def str_len_def len_utf8_def split: option.splits
        dest!: reserve_bytes_Inr begin_text_fields)
qed

text \<open>
  The text cut at its line feeds: as many lines as counted, the last as long as counted, none longer
  than allowed.  It holds when no cell itself contains a line feed.
\<close>

lemma split_on_plain: "d \<notin> set ys \<Longrightarrow> split_on d ys = [ys]"
  by (induction ys) auto

lemma split_on_append:
  "split_on d (xs @ ys) = butlast (split_on d xs) @ (last (split_on d xs) @ hd (split_on d ys)) # tl (split_on d ys)"
proof (induction xs)
  case (Cons x xs)
  obtain z zs where z: "split_on d xs = z # zs" by (cases "split_on d xs") auto
  then show ?case using Cons by (cases zs) auto
qed (cases "split_on d ys", auto)

definition lines_within :: "nat \<Rightarrow> nat \<Rightarrow> snapshot_accumulator \<Rightarrow> bool" where
  "lines_within ml n a \<longleftrightarrow> (let ls = split_on 0x0a (sa_text a) in
     length ls = sa_lines a + (if sa_trailing_newline a then 1 else 0) \<and>
     (sa_trailing_newline a \<longrightarrow> last ls = []) \<and> sa_lines a \<le> max 1 ml \<and>
     str_len (last ls) = sa_current_line_bytes a \<and> (\<forall>l \<in> set ls. str_len l \<le> n)) \<and>
     (\<exists>b. sa_bounds a = Some b \<and> sb_max_lines b = ml \<and> sb_max_line_bytes b = n)"

lemma begin_text_lines:
  assumes "lines_within ml n a" "begin_text a = Inr a'"
  shows "length (split_on 0x0a (sa_text a')) = sa_lines a' \<and> sa_lines a' \<le> max 1 ml \<and> \<not> sa_trailing_newline a' \<and>
    sa_text a' = sa_text a \<and> sa_current_line_bytes a' = sa_current_line_bytes a \<and> sa_bounds a' = sa_bounds a \<and> 0 < sa_lines a'"
  using assms split_on_nonempty [of "0x0a" "sa_text a", folded length_greater_0_conv]
  by (auto simp: begin_text_def start_line_def lines_within_def Let_def checked_add_def exceeds_def
      split: if_splits option.splits simp del: split_on_nonempty length_greater_0_conv)

interpretation lines: text_sink "\<lambda>s. 0x0a \<notin> set s" "lines_within ml n" for ml n
proof
  fix a s a'
  assume a: "lines_within ml n a" and s: "0x0a \<notin> set s" and p: "push_cell_text s a = Inr a'"
  show "lines_within ml n a'"
  proof (cases "s = []")
    case False
    then obtain a1 a2 where a1: "begin_text a = Inr a1" "reserve_bytes (str_len s) a1 = Inr a2"
      "sa_current_line_bytes a1 + str_len s \<le> n"
      "a' = a2\<lparr>sa_current_line_bytes := sa_current_line_bytes a1 + str_len s, sa_text := sa_text a2 @ s\<rparr>"
      using p a by (auto simp: push_cell_text_def and_then_Inr checked_add_def exceeds_def lines_within_def
          split: if_splits option.splits dest!: begin_text_fields)
    note b = begin_text_lines [OF a a1(1)]
    show ?thesis
      using a a1(3,4) b reserve_bytes_Inr [OF a1(2)] split_on_plain [OF s]
      by (auto simp: lines_within_def Let_def split_on_append dest: in_set_butlastD)
  qed (use p a in \<open>simp add: push_cell_text_def\<close>)
next
  fix a a'
  assume a: "lines_within ml n a" and p: "push_newline a = Inr a'"
  then obtain a1 a2 where a1: "begin_text a = Inr a1" "reserve_bytes 1 a1 = Inr a2"
    "a' = a2\<lparr>sa_text := sa_text a2 @ [0x0a], sa_current_line_bytes := 0, sa_trailing_newline := True\<rparr>"
    by (auto simp: push_newline_def and_then_Inr)
  note b = begin_text_lines [OF a a1(1)]
  have "\<forall>l \<in> set (split_on 0x0a (sa_text a)). str_len l \<le> n" using a by (simp add: lines_within_def Let_def)
  then have "str_len (last (split_on 0x0a (sa_text a))) \<le> n" by (rule bspec) simp
  then show "lines_within ml n a'"
    using a a1(3) b reserve_bytes_Inr [OF a1(2)]
    by (auto simp: lines_within_def Let_def split_on_append str_len_def dest: in_set_butlastD)
qed

section \<open>A granted bounded snapshot is the unbounded one\<close>

definition unbound :: "snapshot_accumulator \<Rightarrow> snapshot_accumulator" where
  "unbound a = a\<lparr>sa_bounds := None\<rparr>"

lemma unbound_fields [simp]:
  "sa_text (unbound a) = sa_text a" "sa_bytes (unbound a) = sa_bytes a" "sa_lines (unbound a) = sa_lines a"
  "sa_current_line_bytes (unbound a) = sa_current_line_bytes a" "sa_trailing_newline (unbound a) = sa_trailing_newline a"
  "\<not> exceeds f (unbound a) n"
  by (simp_all add: unbound_def exceeds_def)

lemma unbound_begin: "begin_text a = Inr a' \<Longrightarrow> begin_text (unbound a) = Inr (unbound a')"
  by (auto simp: begin_text_def start_line_def split: if_splits option.splits) (auto simp: unbound_def)

lemma unbound_reserve: "reserve_bytes n a = Inr a' \<Longrightarrow> reserve_bytes n (unbound a) = Inr (unbound a')"
  by (auto simp: reserve_bytes_def split: if_splits option.splits) (auto simp: unbound_def)

lemma unbound_cell:
  assumes "push_cell_text s a = Inr a'"
  shows "push_cell_text s (unbound a) = Inr (unbound a')"
proof (cases "s = []")
  case False
  then obtain a1 a2 n where a1: "begin_text a = Inr a1" "checked_add (sa_current_line_bytes a1) (str_len s) = Some n"
    "reserve_bytes (str_len s) a1 = Inr a2" "a' = a2\<lparr>sa_current_line_bytes := n, sa_text := sa_text a2 @ s\<rparr>"
    using assms by (auto simp: push_cell_text_def and_then_Inr split: if_splits option.splits)
  then show ?thesis
    using False unbound_begin [OF a1(1)] unbound_reserve [OF a1(3)]
    by (simp add: push_cell_text_def and_then_def) (simp add: unbound_def)
qed (use assms in \<open>simp add: push_cell_text_def\<close>)

lemma unbound_newline:
  assumes "push_newline a = Inr a'"
  shows "push_newline (unbound a) = Inr (unbound a')"
proof -
  obtain a1 a2 where a1: "begin_text a = Inr a1" "reserve_bytes 1 a1 = Inr a2"
    "a' = a2\<lparr>sa_text := sa_text a2 @ [0x0a], sa_current_line_bytes := 0, sa_trailing_newline := True\<rparr>"
    using assms by (auto simp: push_newline_def and_then_Inr)
  then show ?thesis
    using unbound_begin [OF a1(1)] unbound_reserve [OF a1(2)]
    by (simp add: push_newline_def and_then_def) (simp add: unbound_def)
qed

lemma unbound_cells: "push_cells_text cs a = Inr a' \<Longrightarrow> push_cells_text cs (unbound a) = Inr (unbound a')"
proof (induction cs arbitrary: a)
  case (Cons c cs)
  then show ?case using unbound_cell by (fastforce simp: and_then_Inr split: if_splits)
qed simp

lemma unbound_history:
  "push_history_text ls b a = Inr (b', a') \<Longrightarrow> push_history_text ls b (unbound a) = Inr (b', unbound a')"
proof (induction ls arbitrary: a b)
  case (Cons l ls)
  then show ?case
    using unbound_cells unbound_newline by (cases "l_hard_break l") (fastforce simp: and_then_Inr)+
qed simp

lemma unbound_rows:
  "push_rows_text s rs b a = Some (Inr a') \<Longrightarrow> push_rows_text s rs b (unbound a) = Some (Inr (unbound a'))"
proof (induction rs arbitrary: a b)
  case (Cons r rs)
  let ?nl = "\<not> b \<and> (0 < r \<or> (0 < sa_bytes a \<and> \<not> sa_trailing_newline a))"
  obtain a1 cs a2 w where a2: "occupied_row_cells s r = Some cs" "push_cells_text cs a1 = Inr a2"
    "row_soft_wrapped s r = Some w" "push_rows_text s rs (w = Some True) a2 = Some (Inr a')"
    and a1: "(if ?nl then push_newline a else Inr a) = Inr a1"
    using push_rows_text_step [OF Cons.prems] by blast
  have u1: "(if ?nl then push_newline (unbound a) else Inr (unbound a)) = Inr (unbound a1)"
    using a1 unbound_newline by (auto split: if_splits)
  show ?case using a2 Cons.IH [OF a2(4)] unbound_cells [OF a2(2)] u1 by simp
qed simp

lemma unbound_snapshot:
  assumes "snapshot_with_accumulator a t = Some (Inr s)"
  shows "snapshot_with_accumulator (unbound a) t = Some (Inr s)"
proof -
  obtain k a1 where a1: "push_history_text (sb_lines (t_scrollback t)) False a = Inr (k, a1)"
    using assms by (auto simp: snapshot_with_accumulator_def split: sum.splits)
  have v: "append_visible_screen_text s' r b a1 = Some (Inr a') \<Longrightarrow>
      append_visible_screen_text s' r b (unbound a1) = Some (Inr (unbound a'))" for s' r b a'
    using unbound_rows by (auto simp: append_visible_screen_text_def Let_def split: bind_splits)
  show ?thesis
    using assms a1 unbound_history [OF a1] v
    by (auto simp: snapshot_with_accumulator_def Let_def split: if_splits sum.splits bind_splits)
qed

section \<open>No snapshot panics\<close>

lemma occupied_row_cells_safe:
  assumes "screen_inv s" "r < s_rows s"
  shows "ok (\<lambda>_. True) (occupied_row_cells s r)"
proof -
  have "extract_row s r = Some (row_content (get_row s r))"
    by (rule extract_row_content) (use assms screen_invD in auto)
  then show ?thesis by (auto simp: extract_row_def split: bind_splits)
qed

lemma push_rows_text_safe:
  "screen_inv s \<Longrightarrow> \<forall>r \<in> set rs. r < s_rows s \<Longrightarrow> ok (\<lambda>_. True) (push_rows_text s rs b a)"
proof (induction rs arbitrary: a b)
  case (Cons r rs)
  obtain cs where cs: "occupied_row_cells s r = Some cs"
    using occupied_row_cells_safe [of s r] Cons.prems by (auto simp: ok_iff)
  obtain w where w: "row_soft_wrapped s r = Some w" using row_soft_wrapped_ok [of s r] Cons.prems by (auto simp: ok_iff)
  show ?case using cs w Cons by (auto split: sum.split)
qed simp

lemma append_visible_safe:
  assumes "screen_inv s"
  shows "ok (\<lambda>_. True) (append_visible_screen_text s r b a)"
  unfolding append_visible_screen_text_def Let_def
  by (rule ok_bindI [OF occupied_row_count_safe [OF assms]], rule push_rows_text_safe [OF assms]) auto

lemma snapshot_safe:
  assumes "term_inv d t"
  shows "ok (\<lambda>_. True) (snapshot_with_accumulator a t)"
proof -
  obtain b where b: "active_buffer t = Some b" "buffer_core d b" using term_wf_active [OF assms] by metis
  have p: "buffer_core d (t_primary t)" using assms by (auto simp: term_wf_def split: active_screen.splits)
  have v: "ok Q m \<Longrightarrow> ok (\<lambda>_. True) (m \<bind> (\<lambda>x. Some (f x)))" for Q m and f :: "'x \<Rightarrow> 'y"
    by (cases m) simp_all
  note safe = append_visible_safe [OF buffer_coreD(1) [OF b(2)]] append_visible_safe [OF buffer_coreD(1) [OF p]]
  show ?thesis
    using b(1) by (auto simp: snapshot_with_accumulator_def Let_def simp del: ok_bind split: sum.split intro!: ok_bindI [OF safe(1)] ok_bindI [OF safe(2)])
qed

end
