(* ===== verification/Wide.thy ===== *)
theory Wide
  imports Screen_Inv
begin

text \<open>
  Wide characters occupy two cells.  Recovery refuses a screen on which one half stands without the
  other, so every operation that can cut a pair repairs the cells around its edges.  This theory shows
  that the repairs suffice: every screen operation that does not spare protected cells takes a screen
  recovery accepts to one recovery accepts.
\<close>

section \<open>Broken boundaries and bad cells\<close>

text \<open>Boundary \<open>k\<close> lies between the columns \<open>k - 1\<close> and \<open>k\<close>; it is broken when exactly one side claims a pair.\<close>

definition broken :: "cell list \<Rightarrow> nat \<Rightarrow> bool" where
  "broken cs k \<longleftrightarrow> (k \<noteq> 0 \<and> c_width (cs ! (k - 1)) = Double) \<noteq> (k < length cs \<and> c_width (cs ! k) = Continuation)"

lemma row_bad_broken:
  "i < length cs \<Longrightarrow> row_bad cs i \<longleftrightarrow>
     c_width (cs ! i) = Continuation \<and> broken cs i \<or> c_width (cs ! i) = Double \<and> broken cs (i + 1)"
  by (cases "c_width (cs ! i)") (auto simp: row_bad_def pair_valid_def broken_def)

definition paired :: "cell list \<Rightarrow> bool" where
  "paired cs \<longleftrightarrow> (\<forall>i < length cs. \<not> row_bad cs i)"

lemma paired_broken: "paired cs \<longleftrightarrow> (\<forall>k \<le> length cs. \<not> broken cs k)"
proof
  assume p: "paired cs"
  show "\<forall>k \<le> length cs. \<not> broken cs k"
  proof (intro allI impI notI)
    fix k
    assume k: "k \<le> length cs" "broken cs k"
    then have "k \<noteq> 0 \<and> row_bad cs (k - 1) \<or> k < length cs \<and> row_bad cs k"
      by (cases k) (auto simp: row_bad_broken broken_def)
    then show False using p k(1) by (cases k) (auto simp: paired_def)
  qed
qed (auto simp: paired_def row_bad_broken)

section \<open>Repairing\<close>

lemma repair_length [simp]: "length (gr_cells (row_repair fill c g)) = length (gr_cells g)"
  by (simp add: row_repair_def row_set_def)

lemma repair_bad:
  assumes "c_width fill = Single" "c < length (gr_cells g)" "i < length (gr_cells g)"
  shows "row_bad (gr_cells (row_repair fill c g)) i \<longleftrightarrow> i \<noteq> c \<and> row_bad (gr_cells g) i"
  using row_bad_update [OF _ assms(2,1,3)] by (auto simp: row_repair_def row_set_def)

lemma repairs_length [simp]: "length (gr_cells (fold (row_repair fill) cs g)) = length (gr_cells g)"
  by (induction cs arbitrary: g) simp_all

lemma repairs_bad:
  assumes "c_width fill = Single" "\<forall>c \<in> set cs. c < length (gr_cells g)" "i < length (gr_cells g)"
  shows "row_bad (gr_cells (fold (row_repair fill) cs g)) i \<longleftrightarrow> i \<notin> set cs \<and> row_bad (gr_cells g) i"
  using assms by (induction cs arbitrary: g) (auto simp: repair_bad)

lemma neighborhood_length [simp]: "length (gr_cells (row_neighborhood b fill g)) = length (gr_cells g)"
  by (simp add: row_neighborhood_def)

lemma neighborhood_bad:
  assumes "c_width fill = Single" "i < length (gr_cells g)"
  shows "row_bad (gr_cells (row_neighborhood b fill g)) i \<longleftrightarrow> row_bad (gr_cells g) i \<and> \<not> (b \<le> i + 1 \<and> i \<le> b + 1)"
  using assms repairs_bad [of fill "[b - 1..<min (b + 2) (length (gr_cells g))]" g i]
  by (auto simp: row_neighborhood_def)

text \<open>Repairing around every broken boundary leaves no half of a pair behind.\<close>

lemma neighborhoods_paired:
  assumes "c_width fill = Single" "\<And>k. k \<le> length (gr_cells g) \<Longrightarrow> broken (gr_cells g) k \<Longrightarrow> k \<in> set bs"
  shows "paired (gr_cells (fold (\<lambda>b. row_neighborhood b fill) bs g))"
proof -
  have "length (gr_cells (fold (\<lambda>b. row_neighborhood b fill) bs g)) = length (gr_cells g) \<and>
     (i < length (gr_cells g) \<longrightarrow> (row_bad (gr_cells (fold (\<lambda>b. row_neighborhood b fill) bs g)) i \<longleftrightarrow>
        row_bad (gr_cells g) i \<and> (\<forall>b \<in> set bs. \<not> (b \<le> i + 1 \<and> i \<le> b + 1))))" for i g
    using assms(1) by (induction bs arbitrary: g) (auto simp: neighborhood_bad)
  note f = this [where g = g]
  show ?thesis unfolding paired_def
  proof (intro allI impI notI)
    fix i
    assume i: "i < length (gr_cells (fold (\<lambda>b. row_neighborhood b fill) bs g))"
      and bad: "row_bad (gr_cells (fold (\<lambda>b. row_neighborhood b fill) bs g)) i"
    then have "i < length (gr_cells g)" "row_bad (gr_cells g) i" "\<forall>b \<in> set bs. \<not> (b \<le> i + 1 \<and> i \<le> b + 1)"
      using f [of i] by auto
    then show False using assms(2) [of i] assms(2) [of "i + 1"] by (fastforce simp: row_bad_broken)
  qed
qed

lemma fields_paired [simp]:
  "gr_cells (row_recompute g) = gr_cells g" "gr_cells (g\<lparr>gr_dirty := d\<rparr>) = gr_cells g"
  by (simp_all add: row_recompute_def)

lemma edges_paired:
  assumes "\<And>k. k \<le> length (gr_cells g) \<Longrightarrow> broken (gr_cells g) k \<Longrightarrow> k = cs_left sp \<or> k = cs_right sp + 1"
  shows "paired (gr_cells (row_edges e sp g))"
  using neighborhoods_paired [of "blank_cell e" g "[cs_left sp, cs_right sp + 1]"] assms
  by (simp add: row_edges_def blank_cell_def)

section \<open>Moving and filling cells\<close>

text \<open>A run of cells that is whole inside: a piece of a paired row, or a fill.\<close>

definition whole :: "cell list \<Rightarrow> bool" where
  "whole xs \<longleftrightarrow> (\<forall>k. 0 < k \<and> k < length xs \<longrightarrow> \<not> broken xs k)"

lemma whole_slice: "paired cs \<Longrightarrow> whole (slice a n cs)"
  unfolding whole_def paired_broken
proof (intro allI impI)
  fix k
  assume p: "\<forall>k \<le> length cs. \<not> broken cs k" and k: "0 < k \<and> k < length (slice a n cs)"
  have "broken (slice a n cs) k = broken cs (a + k)" using k by (auto simp: broken_def)
  moreover have "a + k \<le> length cs" using k by auto
  ultimately show "\<not> broken (slice a n cs) k" using p by simp
qed

lemma whole_replicate: "c_width c = Single \<Longrightarrow> whole (replicate n c)"
  by (auto simp: whole_def broken_def)

lemma blit_broken:
  assumes "whole xs" "a + length xs \<le> length cs" "broken (blit a xs cs) k" "k \<le> length cs"
  shows "k = a \<or> k = a + length xs \<or> broken cs k \<and> \<not> (a \<le> k \<and> k \<le> a + length xs)"
proof -
  have inside: "broken (blit a xs cs) k = broken xs (k - a)" if "a < k" "k < a + length xs"
    using that assms(2) by (auto simp: broken_def nth_blit)
  have "blit a xs cs ! j = cs ! j" if "j < a \<or> a + length xs \<le> j" "j < length cs" for j
    using that assms(2) by (auto simp: nth_blit)
  then have outside: "broken (blit a xs cs) k = broken cs k" if "k < a \<or> a + length xs < k"
    using that assms(2,4) by (cases k) (auto simp: broken_def)
  show ?thesis using assms(1,3) inside outside by (fastforce simp: whole_def)
qed

lemma blit_paired_broken:
  assumes "paired cs" "whole xs" "a + length xs \<le> length cs" "broken (blit a xs cs) k" "k \<le> length cs"
  shows "k = a \<or> k = a + length xs"
  using blit_broken [OF assms(2-5)] assms(1,5) by (auto simp: paired_broken)

section \<open>Rows\<close>

lemma cluster_paired:
  assumes "row_good cols g" "paired (gr_cells g)" "col < cols"
    "c_width c = Single \<or> c_width c = Double \<and> col + 1 < cols"
  shows "paired (gr_cells (row_cluster e col c g))"
proof -
  have len: "length (gr_cells g) = cols" using assms(1) by (simp add: row_good_def fits_def)
  let ?w = "width_columns (c_width c)"
  let ?xs = "if ?w = 2 then [c, continuation_of e c] else [c]"
  let ?g2 = "(if ?w = 2 then row_set (col + 1) (continuation_of e c) True (row_set col c True g) else row_set col c True g)\<lparr>gr_dirty := True\<rparr>"
  have cells: "gr_cells ?g2 = blit col ?xs (gr_cells g)"
    by (rule nth_equalityI) (use assms(3,4) len in \<open>auto simp: row_set_def nth_blit nth_list_update width_columns_def nth_Cons'\<close>)
  have "whole ?xs" using assms(4)
    by (auto simp: whole_def broken_def width_columns_def continuation_of_def less_Suc_eq split: cell_width.splits)
  then have "k = col \<or> k = col + ?w" if "k \<le> cols" "broken (gr_cells ?g2) k" for k
    using blit_paired_broken [OF assms(2), of ?xs col k] that assms(3,4) len unfolding cells
    by (auto simp: width_columns_def split: if_splits)
  moreover have "length (gr_cells ?g2) = cols" using len by (simp add: row_set_def)
  ultimately have "paired (gr_cells (fold (\<lambda>b. row_neighborhood b (blank_cell e)) [col, col + ?w] ?g2))"
    by (intro neighborhoods_paired) (auto simp: blank_cell_def simp del: fields_paired)
  then show ?thesis unfolding row_cluster_exact [OF assms(1,3,4)] Let_def by simp
qed

lemma blit_edges_paired:
  assumes "paired (gr_cells g)" "whole xs" "a + length xs \<le> length (gr_cells g)" "cs_left sp = a" "cs_right sp + 1 = a + length xs"
  shows "paired (gr_cells (row_edges e sp (row_blit a xs os g)))"
  by (rule edges_paired) (use assms blit_paired_broken [OF assms(1-3)] in \<open>auto simp: row_blit_def\<close>)

lemma repair_all_paired: "paired (gr_cells (row_repair_all e g))"
  using repairs_bad [of "blank_cell e" "[0..<length (gr_cells g)]" g]
  by (auto simp: paired_def row_repair_all_def blank_cell_def)

lemma fill_paired: "c_width c = Single \<Longrightarrow> paired (gr_cells (row_fill c g))"
  by (auto simp: paired_broken broken_def row_fill_def)

lemma span_paired:
  assumes "span_ok d sp" "paired (gr_cells g)" "fits (columns d) g"
  shows "c_width c = Single \<Longrightarrow> paired (gr_cells (row_fill_span e sp c g))"
    "paired (gr_cells x) \<Longrightarrow> fits (columns d) x \<Longrightarrow> paired (gr_cells (row_copy_span e sp x g))"
  using assms whole_replicate whole_slice
  by (auto simp: row_fill_span_def row_copy_span_def Let_def span_ok_def fits_def intro!: blit_edges_paired)

lemma shift_paired:
  assumes "span_ok d sp" "paired (gr_cells g)" "fits (columns d) g"
  shows "c_width c = Single \<Longrightarrow> paired (gr_cells (shift_fill e (columns d) sp c g))"
    "paired (gr_cells x) \<Longrightarrow> fits (columns d) x \<Longrightarrow> paired (gr_cells (shift_copy e (columns d) sp x g))"
  using span_paired [OF assms] fill_paired by (simp_all add: shift_fill_def shift_copy_def row_copy_def)

lemma insert_delete_paired:
  assumes "fits cols g" "paired (gr_cells g)" "c_width c = Single" "col \<le> right" "right < cols" "n \<le> right + 1 - col"
  shows "paired (gr_cells (row_insert col right n c g))" "paired (gr_cells (row_delete col right n c g))"
proof -
  let ?k = "right + 1 - col - n" and ?cs = "gr_cells g"
  have len: "length ?cs = cols" using assms(1) by (simp add: fits_def)
  have ins: "k \<in> {col, col + n, right + 1}"
    if "k \<le> cols" "broken (blit col (replicate n c) (blit (col + n) (slice col ?k ?cs) ?cs)) k" for k
  proof -
    have "k = col \<or> k = col + n \<or> broken (blit (col + n) (slice col ?k ?cs) ?cs) k"
      using blit_broken [OF whole_replicate [OF assms(3)], of col n "blit (col + n) (slice col ?k ?cs) ?cs" k] that assms(4-6) len by auto
    then show ?thesis
      using blit_paired_broken [OF assms(2) whole_slice [OF assms(2)], of "col + n" col ?k k] that assms(4-6) len by auto
  qed
  have del: "k \<in> {col, right + 1 - n, right + 1}"
    if "k \<le> cols" "broken (blit (right + 1 - n) (replicate n c) (blit col (slice (col + n) ?k ?cs) ?cs)) k" for k
  proof -
    have "k = right + 1 - n \<or> k = right + 1 \<or> broken (blit col (slice (col + n) ?k ?cs) ?cs) k"
      using blit_broken [OF whole_replicate [OF assms(3)], of "right + 1 - n" n "blit col (slice (col + n) ?k ?cs) ?cs" k] that assms(4-6) len by auto
    then show ?thesis
      using blit_paired_broken [OF assms(2) whole_slice [OF assms(2)], of col "col + n" ?k k] that assms(4-6) len by auto
  qed
  show "paired (gr_cells (row_insert col right n c g))"
    unfolding row_insert_def row_shift_finish_def fields_paired
    by (rule neighborhoods_paired [OF assms(3)]) (use ins len assms(4-6) in \<open>auto simp: row_blit_def\<close>)
  show "paired (gr_cells (row_delete col right n c g))"
    unfolding row_delete_def row_shift_finish_def fields_paired
    by (rule neighborhoods_paired [OF assms(3)]) (use del len assms(4-6) in \<open>auto simp: row_blit_def\<close>)
qed

lemma linear_paired:
  assumes "fits cols g" "paired (gr_cells g)" "c_width c = Single" "stop \<le> n * cols" "0 < cols"
  shows "paired (gr_cells (linear_result cols start stop c False r g))"
proof (cases "start < stop \<and> start div cols \<le> r \<and> r \<le> (stop - 1) div cols")
  case True
  obtain a b where ab: "linear_bounds cols start stop r = (a, b)" by force
  have le: "a < b" "b \<le> cols" using linear_bounds_ok [of start stop n cols r] True assms ab by auto
  let ?bs = "(if r = start div cols then [start mod cols] else []) @
    (if r = (stop - 1) div cols then [stop - (stop - 1) div cols * cols] else [])"
  let ?g = "(linear_fill cols start stop c False r g)\<lparr>gr_dirty := True\<rparr>"
  have cells: "gr_cells ?g = blit a (replicate (b - a) c) (gr_cells g)"
    by (simp add: linear_fill_def ab row_linear_def row_blit_def)
  have len: "length (gr_cells g) = cols" using assms(1) by (simp add: fits_def)
  have ends: "(r = start div cols \<or> a = 0) \<and> (r = start div cols \<longrightarrow> a = start mod cols) \<and>
      (r = (stop - 1) div cols \<or> b = cols) \<and> (r = (stop - 1) div cols \<longrightarrow> b = stop - (stop - 1) div cols * cols)"
    using ab by (auto simp: linear_bounds_def split: if_splits)
  have in_bs: "k \<in> set ?bs" if "k \<le> cols" "broken (gr_cells ?g) k" for k
  proof -
    have "k = a \<or> k = b"
      using blit_paired_broken [OF assms(2) whole_replicate [OF assms(3)], of a "b - a" k] that le len unfolding cells by auto
    moreover have "\<not> broken (gr_cells ?g) 0" if "a = 0" using that le len assms(3) unfolding cells
      by (auto simp: broken_def nth_blit)
    moreover have "\<not> broken (gr_cells ?g) cols" if "b = cols" using that le len assms(3) unfolding cells
      by (auto simp: broken_def nth_blit)
    ultimately show ?thesis using that ends by auto
  qed
  have "length (gr_cells ?g) = cols" unfolding cells using le len by simp
  then have "paired (gr_cells (fold (\<lambda>b. row_neighborhood b c) ?bs ?g))"
    using in_bs by (intro neighborhoods_paired [OF assms(3)]) (simp del: fields_paired)
  then show ?thesis using True by (simp add: linear_result_def Let_def split: if_splits)
qed (use assms(2) in \<open>auto simp: linear_result_def\<close>)

lemma rect_paired:
  assumes "fits cols g" "paired (gr_cells g)" "c_width c = Single" "l \<le> r" "r < cols"
  shows "paired (gr_cells (row_rect e l r c False g))"
proof -
  have "k \<le> cols - l \<Longrightarrow> gr_cells (fold (\<lambda>i. row_sparing c False (l + i)) [0..<k] g) = blit l (replicate k c) (gr_cells g)" for k
  proof (induction k)
    case (Suc k)
    then show ?case
      using assms(1) by (auto intro!: nth_equalityI simp: row_sparing_def row_set_def nth_blit nth_list_update fits_def less_Suc_eq less_diff_conv2 simp del: replicate_Suc)
  qed (simp add: blit_def)
  then have cells: "gr_cells (fold (\<lambda>i. row_sparing c False (l + i)) [0..<r + 1 - l] g) = blit l (replicate (r + 1 - l) c) (gr_cells g)"
    using assms(4,5) by simp
  have len: "length (gr_cells g) = cols" using assms(1) by (simp add: fits_def)
  show ?thesis unfolding row_rect_def fields_paired
    by (rule edges_paired)
       (use blit_paired_broken [OF assms(2) whole_replicate [OF assms(3)], of l "r + 1 - l"] assms(4,5) len in \<open>auto simp: cells [simplified] span_new_def\<close>)
qed

lemma paste_paired:
  assumes "fits cols g" "paired (gr_cells g)" "paired (gr_cells src)" "fits cols src" "dl + w \<le> cols" "sl + w \<le> cols" "0 < w"
  shows "paired (gr_cells (row_paste e sl dl w src g))"
  using assms by (auto simp: row_paste_def span_new_def fits_def intro!: blit_edges_paired whole_slice)

section \<open>Screens\<close>

definition screen_paired :: "screen \<Rightarrow> bool" where
  "screen_paired s \<longleftrightarrow> (\<forall>i < s_rows s. paired (gr_cells (get_row s i)))"

text \<open>What recovery checks is the invariant and the pairing.\<close>

lemma row_valid_iff:
  assumes "shape s"
  shows "screen_row_valid s r \<longleftrightarrow> row_good (s_columns s) (get_row s r) \<and> paired (gr_cells (get_row s r))"
proof -
  let ?g = "get_row s r"
  have fit: "fits (s_columns s) ?g" by (rule get_row_fits [OF assms])
  then have len: "length (gr_cells ?g) = s_columns s" by (simp add: fits_def)
  have "screen_row_valid s r \<longleftrightarrow> gr_extent ?g \<le> s_columns s \<and> gr_extent ?g = extent id (gr_occupied ?g) \<and>
      (\<forall>col < s_columns s. cell_valid (gr_cells ?g ! col) \<and> \<not> row_bad (gr_cells ?g) col)"
    by (auto simp: screen_row_valid_def Let_def row_bad_def len) (simp_all add: get_row_def)
  then show ?thesis
    using fit extent_le [of id "gr_occupied ?g"]
    by (auto simp: row_good_def cells_ok_def paired_def len all_set_conv_all_nth fits_def)
qed

lemma screen_valid_iff: "screen_valid s \<longleftrightarrow> screen_inv s \<and> screen_paired s"
proof
  assume v: "screen_valid s"
  then have d: "dims_ok (s_dimensions s)"
    using dimensions_new_ok [of "s_columns s" "s_rows s" "s_dimensions s"] by (auto simp: screen_valid_def split: sum.splits)
  then have sh: "shape s" using v by (simp add: screen_valid_def shape_def dims_ok_def)
  then show "screen_inv s \<and> screen_paired s"
    using v row_valid_iff [OF sh] by (auto simp: screen_inv_def screen_paired_def screen_valid_def)
next
  assume i: "screen_inv s \<and> screen_paired s"
  then have sh: "shape s" and d: "dims_ok (s_dimensions s)" using screen_invD(1) shape_dims by auto
  then show "screen_valid s"
    using i row_valid_iff [OF sh] dimensions_new_complete [OF d]
    by (simp add: screen_valid_def shape_def dims_ok_def mult.commute screen_inv_def screen_paired_def)
qed

definition valid_like :: "screen \<Rightarrow> screen \<Rightarrow> bool" where
  "valid_like s s' \<longleftrightarrow> screen_valid s' \<and> s_dimensions s' = s_dimensions s"

lemma local_valid:
  assumes "ok (inv_like s) m" "ok (local_step s F) m" "\<And>i. i < s_rows s \<Longrightarrow> paired (gr_cells (F i (get_row s i)))"
  shows "ok (valid_like s) m"
  using ok_conj [OF assms(1,2)] assms(3)
  by (auto simp: ok_iff valid_like_def screen_valid_iff inv_like_def local_step_def screen_paired_def)

lemma row_valid:
  assumes "ok (inv_like s) m" "m = Some (put_row s r g)" "screen_valid s" "r < s_rows s" "paired (gr_cells g)" "fits (s_columns s) g"
  shows "ok (valid_like s) m"
proof -
  have sh: "shape s" using assms(3) screen_valid_iff screen_invD(1) by blast
  have "ok (local_step s (\<lambda>i h. if i = r then g else h)) m"
    using put_local [OF sh assms(4), of "\<lambda>_. g"] assms(2,6) by simp
  then show ?thesis by (rule local_valid [OF assms(1)]) (use assms(3,5) in \<open>auto simp: screen_valid_iff screen_paired_def\<close>)
qed

lemma region_paired:
  assumes "screen_valid s" "span_ok (s_dimensions s) sp" "c_width c = Single" "b < s_rows s" "i < s_rows s"
  shows "paired (gr_cells (region_up s e sp c n t b i (get_row s i)))"
    "paired (gr_cells (region_down s e sp c n t b i (get_row s i)))"
proof -
  have p: "paired (gr_cells (get_row s j))" "fits (s_columns s) (get_row s j)" if "j < s_rows s" for j
    using assms(1) that get_row_fits by (auto simp: screen_valid_iff screen_paired_def screen_inv_def)
  note sh = shift_paired [OF assms(2) p [OF assms(5)]]
  show "paired (gr_cells (region_up s e sp c n t b i (get_row s i)))"
    using sh assms(3,4) p [of "i + n"] p(1) [OF assms(5)] by (auto simp: region_up_def)
  show "paired (gr_cells (region_down s e sp c n t b i (get_row s i)))"
    using sh assms(3-5) p [of "i - n"] p(1) [OF assms(5)] by (auto simp: region_down_def)
qed

lemma dirty_range_cells [simp]: "gr_cells (dirty_range a b i g) = gr_cells g"
  by (simp add: dirty_range_def)

section \<open>Every operation of the screen\<close>

text \<open>
  The calls of \<open>Screen\<close> that change cells without sparing protected ones, with the arguments the terminal passes.
  \<open>replace_cell\<close> is called where a grapheme is extended, for a cluster as wide as the one before; where the width
  changes, the terminal calls \<open>replace_cluster\<close>.
\<close>

datatype screen_op =
    ReplaceCluster nat nat cell
  | ExtendCluster nat nat cell
  | FillLinear nat nat cell
  | FillRectangle rectangle cell
  | CopyRectangle rectangle nat nat
  | InsertCharacters nat nat nat cell column_span
  | DeleteCharacters nat nat nat cell column_span
  | InsertLines nat nat nat cell column_span
  | DeleteLines nat nat nat cell column_span
  | ScrollDown nat nat nat cell column_span
  | ScrollUp nat nat nat cell column_span
  | ClearAll cell
  | SetSoftWrapped nat bool

fun screen_do :: "env \<Rightarrow> screen_op \<Rightarrow> screen \<Rightarrow> screen option" where
  "screen_do e (ReplaceCluster col r c) s = replace_cluster e col r c s"
| "screen_do e (ExtendCluster col r c) s = do {
     old \<leftarrow> cell_ref s col r;
     if width_columns (c_width old) = width_columns (c_width c) then replace_cell col r c s
     else replace_cluster e col r c s }"
| "screen_do e (FillLinear start stop c) s = fill_linear_with start stop c False s"
| "screen_do e (FillRectangle rc c) s = fill_rectangle e rc c False s"
| "screen_do e (CopyRectangle rc t l) s = copy_rectangle e rc t l s"
| "screen_do e (InsertCharacters col r n c sp) s = insert_characters col r n c sp s"
| "screen_do e (DeleteCharacters col r n c sp) s = delete_characters col r n c sp s"
| "screen_do e (InsertLines t b n c sp) s = insert_lines e t b n c sp s"
| "screen_do e (DeleteLines t b n c sp) s = delete_lines e t b n c sp s"
| "screen_do e (ScrollDown t b n c sp) s = scroll_down e t b n c sp s"
| "screen_do e (ScrollUp t b n c sp) s = map_option snd (scroll_up e t b n c sp s)"
| "screen_do e (ClearAll c) s = Some (clear_all c s)"
| "screen_do e (SetSoftWrapped r w) s = set_soft_wrapped r w s"

definition fill_ok :: "cell \<Rightarrow> bool" where
  "fill_ok c \<longleftrightarrow> cell_valid c \<and> c_width c = Single"

fun screen_op_ok :: "dimensions \<Rightarrow> screen_op \<Rightarrow> bool" where
  "screen_op_ok d (ReplaceCluster col r c) \<longleftrightarrow> r < rows d \<and> col < columns d \<and> cell_valid c \<and>
     (c_width c = Single \<or> c_width c = Double \<and> col + 1 < columns d)"
| "screen_op_ok d (ExtendCluster col r c) \<longleftrightarrow> r < rows d \<and> col < columns d \<and> cell_valid c \<and>
     (c_width c = Single \<or> c_width c = Double \<and> col + 1 < columns d)"
| "screen_op_ok d (FillLinear start stop c) \<longleftrightarrow> stop \<le> rows d * columns d \<and> fill_ok c"
| "screen_op_ok d (FillRectangle rc c) \<longleftrightarrow> in_rect rc d \<and> fill_ok c"
| "screen_op_ok d (CopyRectangle rc t l) \<longleftrightarrow> in_rect rc d \<and> t < rows d \<and> l < columns d"
| "screen_op_ok d (InsertCharacters col r n c sp) \<longleftrightarrow> r < rows d \<and> fill_ok c"
| "screen_op_ok d (DeleteCharacters col r n c sp) \<longleftrightarrow> r < rows d \<and> fill_ok c"
| "screen_op_ok d (InsertLines t b n c sp) \<longleftrightarrow> span_ok d sp \<and> t \<le> b \<and> b < rows d \<and> fill_ok c"
| "screen_op_ok d (DeleteLines t b n c sp) \<longleftrightarrow> span_ok d sp \<and> t \<le> b \<and> b < rows d \<and> fill_ok c"
| "screen_op_ok d (ScrollDown t b n c sp) \<longleftrightarrow> span_ok d sp \<and> t \<le> b \<and> b < rows d \<and> fill_ok c"
| "screen_op_ok d (ScrollUp t b n c sp) \<longleftrightarrow> span_ok d sp \<and> t \<le> b \<and> b < rows d \<and> fill_ok c"
| "screen_op_ok d (ClearAll c) \<longleftrightarrow> fill_ok c"
| "screen_op_ok d (SetSoftWrapped r w) \<longleftrightarrow> r < rows d"

lemma screen_validD:
  assumes "screen_valid s"
  shows "screen_inv s" "shape s" "i < s_rows s \<Longrightarrow> paired (gr_cells (get_row s i))" "fits (s_columns s) (get_row s i)"
    "i < s_rows s \<Longrightarrow> row_good (s_columns s) (get_row s i)"
  using assms get_row_fits by (auto simp: screen_valid_iff screen_paired_def screen_inv_def)

lemma characters_valid:
  assumes "screen_valid s" "r < s_rows s" "fill_ok c"
  shows "ok (valid_like s) (insert_characters col r count c sp s)" "ok (valid_like s) (delete_characters col r count c sp s)"
proof -
  note v = screen_validD [OF assms(1)]
  let ?right = "min (cs_right sp) (s_columns s - 1)"
  have cols: "1 \<le> s_columns s" using dims_pos(3) [OF shape_dims [OF v(2)]] by simp
  have c: "cell_valid c" "c_width c = Single" using assms(3) by (auto simp: fill_ok_def)
  note inv = insert_characters_inv [OF v(1) assms(2) c(1), of col count sp]
    delete_characters_inv [OF v(1) assms(2) c(1), of col count sp]
  have "ok (valid_like s) (insert_characters col r count c sp s) \<and> ok (valid_like s) (delete_characters col r count c sp s)"
  proof (cases "col \<le> ?right")
    case True
    have r: "?right < s_columns s" using cols by auto
    note p = insert_delete_paired [OF v(4) v(3) [OF assms(2)] c(2) True r min.cobounded2]
    note g = row_good_insert [OF v(5) [OF assms(2)] c(1) True r min.cobounded2]
      row_good_delete [OF v(5) [OF assms(2)] c(1) True r min.cobounded2]
    show ?thesis
      using row_valid [OF inv(1) insert_characters_row [OF v(2) assms(2) refl True] assms(1,2) p(1) row_goodD(1) [OF g(1)]]
        row_valid [OF inv(2) delete_characters_row [OF v(2) assms(2) refl True] assms(1,2) p(2) row_goodD(1) [OF g(2)]] by blast
  next
    case False
    then have "?right < col" by (simp only: not_le)
    then show ?thesis using cols assms(1) by (simp add: insert_characters_def delete_characters_def Let_def valid_like_def)
  qed
  then show "ok (valid_like s) (insert_characters col r count c sp s)" "ok (valid_like s) (delete_characters col r count c sp s)"
    by blast+
qed

lemma lines_valid:
  assumes "screen_valid s" "caps_ok e" "span_ok (s_dimensions s) sp" "fill_ok c" "t \<le> b" "b < s_rows s"
  shows "ok (valid_like s) (insert_lines e t b count c sp s)" "ok (valid_like s) (delete_lines e t b count c sp s)"
    "ok (valid_like s) (scroll_down e t b count c sp s)" "ok (valid_like s) (map_option snd (scroll_up e t b count c sp s))"
proof -
  note v = screen_validD [OF assms(1)]
  have c: "cell_valid c" "c_width c = Single" using assms(4) by (auto simp: fill_ok_def)
  note inv = line_ops_inv [OF v(1) assms(2,3) c(1) assms(5,6), of count]
  note loc = line_ops_local [OF v(2) assms(3,5,6) refl, of e c count]
  note p = region_paired [OF assms(1,3) c(2) assms(6)]
  show "ok (valid_like s) (insert_lines e t b count c sp s)" "ok (valid_like s) (delete_lines e t b count c sp s)"
    "ok (valid_like s) (scroll_down e t b count c sp s)"
    by (rule local_valid [OF inv(1) loc(1)] local_valid [OF inv(2) loc(2)] local_valid [OF inv(3) loc(3)], simp add: p)+
  obtain x where x: "scroll_up e t b count c sp s = Some x" "inv_like s (snd x)"
    using scroll_up_inv [OF v(1) assms(2,3) c(1) assms(5,6), of count] by (auto simp: ok_iff)
  have ext: "\<And>r. r < s_rows s \<Longrightarrow> gr_extent (get_row s r) \<le> s_columns s" using screen_invD(3) [OF v(1)] .
  have "screen_paired (snd x)"
  proof (cases "span_is_full sp (s_columns s) \<and> t = 0 \<and> b + 1 = s_rows s")
    case True
    then have "b = s_rows s - 1" by linarith
    with True have "ok (\<lambda>(_, s'). screen_paired s') (scroll_up e t b count c sp s)"
      using scroll_up_rotates [OF v(2) _ refl ext, where sp = sp and count = count and e = e and c = c] fill_paired [OF c(2)] v(3)
      by (auto simp: ok_iff screen_paired_def)
    then show ?thesis using x by (auto simp: split_beta)
  next
    case False
    then show ?thesis
      using scroll_up_local [OF v(2) assms(3,5,6) refl False ext, where e = e and count = count and c = c] p x
      by (auto simp: ok_iff local_step_def screen_paired_def split_beta)
  qed
  then show "ok (valid_like s) (map_option snd (scroll_up e t b count c sp s))"
    using x by (simp add: valid_like_def screen_valid_iff inv_like_def)
qed

lemma cluster_valid:
  assumes "screen_valid s" "caps_ok e" "r < s_rows s" "col < s_columns s" "cell_valid c"
    "c_width c = Single \<or> c_width c = Double \<and> col + 1 < s_columns s"
  shows "ok (valid_like s) (replace_cluster e col r c s)"
proof -
  note v = screen_validD [OF assms(1)]
  show ?thesis
    by (rule row_valid [OF replace_cluster_inv [OF v(1) assms(3-5,2,6)] replace_cluster_row [OF v(2) assms(3,4,6)] assms(1,3)
          cluster_paired [OF v(5) [OF assms(3)] v(3) [OF assms(3)] assms(4,6)]])
       (rule row_goodD(1) [OF row_good_cluster [OF v(5) [OF assms(3)] assms(4,6,5)]], use assms(2) in auto)
qed

text \<open>A cell of the same width leaves every pair of the row as it was.\<close>

lemma same_width_paired:
  assumes "paired (gr_cells g)" "c_width c = c_width (gr_cells g ! col)"
  shows "paired (gr_cells (row_replace col c g))"
proof -
  have "c_width (gr_cells (row_replace col c g) ! k) = c_width (gr_cells g ! k)" for k
    using assms(2) by (cases "k = col \<and> col < length (gr_cells g)")
      (auto simp: row_replace_def row_set_def nth_list_update row_recompute_def list_update_beyond)
  moreover have "length (gr_cells (row_replace col c g)) = length (gr_cells g)" by (simp add: row_replace_def row_set_def row_recompute_def)
  ultimately show ?thesis using assms(1) by (simp add: paired_broken broken_def)
qed

lemma extend_cluster_valid:
  assumes "screen_valid s" "caps_ok e" "r < s_rows s" "col < s_columns s" "cell_valid c"
    "c_width c = Single \<or> c_width c = Double \<and> col + 1 < s_columns s"
  shows "ok (valid_like s) (screen_do e (ExtendCluster col r c) s)"
proof -
  note v = screen_validD [OF assms(1)]
  have old: "cell_ref s col r = Some (gr_cells (get_row s r) ! col)"
    using rd_cell_row(1) [OF v(2) assms(4), of r] assms(3,4) by (simp add: cell_ref_def cell_index_def)
  show ?thesis
  proof (cases "width_columns (c_width (gr_cells (get_row s r) ! col)) = width_columns (c_width c)")
    case True
    then have "c_width c = c_width (gr_cells (get_row s r) ! col)"
      using assms(6) by (auto simp: width_columns_def split: cell_width.splits)
    then have "ok (valid_like s) (replace_cell col r c s)"
      by (intro row_valid [OF replace_cell_inv [OF v(1) assms(3-5)] replace_cell_row [OF v(2) assms(3,4)] assms(1,3)]
            same_width_paired v(3) assms(3) row_goodD(1) [OF row_good_replace [OF v(5) [OF assms(3)] assms(5)]])
    then show ?thesis using old True by simp
  next
    case False
    then show ?thesis using old cluster_valid [OF assms] by simp
  qed
qed

lemma screen_do_valid:
  assumes "screen_valid s" "caps_ok e" "screen_op_ok (s_dimensions s) oper"
  shows "ok (valid_like s) (screen_do e oper s)"
proof -
  note v = screen_validD [OF assms(1)]
  have cols: "0 < s_columns s" using dims_pos(3) [OF shape_dims [OF v(2)]] .
  show ?thesis
  proof (cases oper)
    case (ReplaceCluster col r c)
    then have a: "r < s_rows s" "col < s_columns s" "cell_valid c" "c_width c = Single \<or> c_width c = Double \<and> col + 1 < s_columns s"
      using assms(3) by auto
    show ?thesis unfolding ReplaceCluster screen_do.simps by (rule cluster_valid [OF assms(1,2) a])
  next
    case (ExtendCluster col r c)
    then have a: "r < s_rows s" "col < s_columns s" "cell_valid c" "c_width c = Single \<or> c_width c = Double \<and> col + 1 < s_columns s"
      using assms(3) by auto
    show ?thesis unfolding ExtendCluster by (rule extend_cluster_valid [OF assms(1,2) a])
  next
    case (FillLinear start stop c)
    then have a: "stop \<le> s_rows s * s_columns s" "cell_valid c" "c_width c = Single" using assms(3) by (auto simp: fill_ok_def)
    show ?thesis unfolding FillLinear screen_do.simps
      by (rule local_valid [OF fill_linear_inv [OF v(1) a(1,2)] fill_linear_local [OF v(2) a(1)]])
         (rule linear_paired [OF v(4) v(3) a(3,1) cols])
  next
    case (FillRectangle rc c)
    then have a: "in_rect rc (s_dimensions s)" "cell_valid c" "c_width c = Single" using assms(3) by (auto simp: fill_ok_def)
    show ?thesis unfolding FillRectangle screen_do.simps
      by (rule local_valid [OF fill_rectangle_inv [OF v(1) a(1,2) assms(2)] fill_rectangle_local [OF v(2) a(1)]])
         (use rect_paired [OF v(4) v(3) a(3), of _ "r_left rc" "r_right rc" e] v(3) a(1) in \<open>auto simp: in_rect_def\<close>)
  next
    case (CopyRectangle rc t l)
    then have a: "in_rect rc (s_dimensions s)" "t < s_rows s" "l < s_columns s" using assms(3) by auto
    let ?h = "min (r_bottom rc + 1 - r_top rc) (s_rows s - t)" and ?w = "min (r_right rc + 1 - r_left rc) (s_columns s - l)"
    have src: "r_top rc + (i - t) < s_rows s" if "t \<le> i" "i < t + ?h" for i using that a(1) by (auto simp: in_rect_def)
    have w: "l + ?w \<le> s_columns s" "r_left rc + ?w \<le> s_columns s" "0 < ?w" using a(1,3) by (auto simp: in_rect_def)
    show ?thesis unfolding CopyRectangle screen_do.simps
      by (rule local_valid [OF copy_rectangle_inv [OF v(1) a assms(2)] copy_rectangle_local [OF v(2) a refl refl]])
         (use paste_paired [OF v(4) v(3) v(3) v(4) w] v(3) src in auto)
  next
    case (ClearAll c)
    then have a: "cell_valid c" "c_width c = Single" using assms(3) by (auto simp: fill_ok_def)
    then have "screen_paired (clear_all c s)"
      using clear_all_local [OF v(2), of c] fill_paired [OF a(2)] by (auto simp: screen_paired_def)
    then show ?thesis using clear_all_inv [OF v(1) a(1)] ClearAll by (simp add: valid_like_def screen_valid_iff inv_like_def)
  next
    case (SetSoftWrapped r w)
    then have a: "r < s_rows s" using assms(3) by auto
    show ?thesis unfolding SetSoftWrapped screen_do.simps
      by (rule row_valid [OF set_soft_wrapped_inv [OF v(1) a] set_soft_wrapped_row [OF v(2) a] assms(1) a]) (use v(3) [OF a] v(4) in auto)
  qed (use assms characters_valid lines_valid in auto)
qed

text \<open>Building a screen from rows or resizing one repairs every row, whatever the old cells were.\<close>

lemma built_screens_valid:
  assumes "dims_ok d" "caps_ok e"
  shows "rows_valid n rs \<Longrightarrow> ok (\<lambda>r. case r of Inl _ \<Rightarrow> True | Inr s \<Rightarrow> screen_valid s \<and> s_dimensions s = d) (from_rows e d rs)"
    and "screen_inv old \<Longrightarrow> ok (\<lambda>r. case r of Inl _ \<Rightarrow> True | Inr s \<Rightarrow> screen_valid s \<and> s_dimensions s = d) (screen_resized e old d)"
proof -
  have err: "screen_new e d = Inl x \<Longrightarrow> from_rows e d rs = Some (Inl x) \<and> screen_resized e old d = Some (Inl x)" for x
    by (simp add: from_rows_def screen_resized_def)
  show "ok (\<lambda>r. case r of Inl _ \<Rightarrow> True | Inr s \<Rightarrow> screen_valid s \<and> s_dimensions s = d) (from_rows e d rs)" if rs: "rows_valid n rs"
  proof (cases "screen_new e d")
    case (Inr s0)
    show ?thesis
      by (rule ok_mono [OF ok_conj [OF from_rows_inv [OF assms rs] from_rows_grid [OF assms(1) Inr]]])
         (simp add: screen_valid_iff screen_paired_def repair_all_paired split: sum.splits)
  qed (use err in simp)
  show "ok (\<lambda>r. case r of Inl _ \<Rightarrow> True | Inr s \<Rightarrow> screen_valid s \<and> s_dimensions s = d) (screen_resized e old d)" if old: "screen_inv old"
  proof (cases "screen_new e d")
    case (Inr s0)
    show ?thesis
      by (rule ok_mono [OF ok_conj [OF resized_inv [OF assms old] resized_grid [OF assms(1) Inr screen_invD(1) [OF old]]]])
         (simp add: screen_valid_iff screen_paired_def repair_all_paired split: sum.splits)
  qed (use err in simp)
qed

section \<open>The cells a cluster leaves\<close>

text \<open>A sweep blanks exactly the swept cells that were broken: blanking one half mends nothing else and breaks nothing.\<close>

lemma sweep_cells:
  assumes "c_width fill = Single" "\<forall>c \<in> set cs. c < length (gr_cells g)" "i < length (gr_cells g)"
  shows "gr_cells (fold (row_repair fill) cs g) ! i = (if i \<in> set cs \<and> row_bad (gr_cells g) i then fill else gr_cells g ! i)"
  using assms(2,3)
proof (induction cs arbitrary: g)
  case (Cons c cs)
  show ?case
  proof (cases "row_bad (gr_cells g) c")
    case True
    let ?g = "row_repair fill c g"
    have g: "gr_cells ?g = (gr_cells g)[c := fill]" using True by (simp add: row_repair_def row_set_def)
    have c: "c < length (gr_cells g)" using Cons.prems(1) by simp
    have len: "length (gr_cells ?g) = length (gr_cells g)" by (simp add: g)
    show ?thesis
      using Cons.IH [of ?g, unfolded len] Cons.prems c True row_bad_update [OF True c assms(1) Cons.prems(2)]
      by (cases "i = c") (auto simp: g)
  next
    case False
    then have "row_repair fill c g = g" by (simp add: row_repair_def)
    then show ?thesis using Cons.IH [of g] Cons.prems False by auto
  qed
qed simp

lemma neighborhood_cells:
  assumes "c_width fill = Single" "i < length (gr_cells g)"
  shows "gr_cells (row_neighborhood b fill g) ! i =
      (if (b \<le> i + 1 \<and> i \<le> b + 1) \<and> row_bad (gr_cells g) i then fill else gr_cells g ! i)"
  using sweep_cells [OF assms(1) _ assms(2), of "[b - 1..<min (b + 2) (length (gr_cells g))]"] assms(2)
  by (auto simp: row_neighborhood_def)

text \<open>A cluster written over whole characters breaks only the halves it leaves over, just before and just behind it.\<close>

lemma cluster_breaks:
  assumes "paired cs" "length cs' = length cs" "i < length cs" "col + w \<le> length cs" "w = 1 \<or> w = 2"
    "\<And>k. k < length cs \<Longrightarrow> cs' ! k = (if k = col then c else if w = 2 \<and> k = col + 1 then x else cs ! k)"
    "c_width c = (if w = 2 then Double else Single)" "c_width x = Continuation"
  shows "row_bad cs' i \<longleftrightarrow> \<not> (col \<le> i \<and> i < col + w) \<and>
      (i + 1 = col \<and> c_width (cs ! i) = Double \<or> i = col + w \<and> c_width (cs ! i) = Continuation)"
proof -
  have old: "(i \<noteq> 0 \<and> c_width (cs ! (i - 1)) = Double) = (c_width (cs ! i) = Continuation)"
    "(c_width (cs ! i) = Double) = (i + 1 < length cs \<and> c_width (cs ! (i + 1)) = Continuation)"
    using assms(1,3) by (auto simp: paired_broken broken_def dest: spec [of _ i] spec [of _ "i + 1"])
  have bad: "row_bad cs' i \<longleftrightarrow> c_width (cs' ! i) = Continuation \<and> \<not> (i \<noteq> 0 \<and> c_width (cs' ! (i - 1)) = Double) \<or>
      c_width (cs' ! i) = Double \<and> \<not> (i + 1 < length cs \<and> c_width (cs' ! (i + 1)) = Continuation)"
    using row_bad_broken [of i cs'] assms(2,3) by (auto simp: broken_def)
  have at: "i + 1 < length cs \<Longrightarrow> cs' ! (i + 1) = (if i + 1 = col then c else if w = 2 \<and> i = col then x else cs ! (i + 1))"
    using assms(6) [of "i + 1"] by simp
  have before: "i \<noteq> 0 \<Longrightarrow> cs' ! (i - 1) = (if i = col + 1 then c else if w = 2 \<and> i = col + 2 then x else cs ! (i - 1))"
    using assms(3) assms(6) [of "i - 1"] by (cases i) auto
  consider "i + 1 < col" | "i + 1 = col" | "i = col" | "i = col + 1" "w = 2" | "i = col + w" | "col + w < i" using assms(5) by linarith
  then show ?thesis
  proof cases
    case 5
    then have "c_width (cs' ! (i - 1)) \<noteq> Double" "cs' ! i = cs ! i" "i + 1 < length cs \<Longrightarrow> cs' ! (i + 1) = cs ! (i + 1)"
      using before at assms(3,5-8) by auto
    then show ?thesis unfolding bad using 5 old(2) assms(5) by auto
  qed (unfold bad, use old at before assms(3-8) in auto)
qed

text \<open>Writing a cluster into a row of whole characters: the cluster, blanks for the halves it leaves over, nothing else.\<close>

lemma row_cluster_cells:
  assumes "row_good cols g" "paired (gr_cells g)" "col < cols" "c_width c = Single \<or> c_width c = Double \<and> col + 1 < cols" "i < cols"
  defines "w \<equiv> width_columns (c_width c)"
  shows "gr_cells (row_cluster e col c g) ! i =
    (if i = col then c else if w = 2 \<and> i = col + 1 then continuation_of e c
     else if i + 1 = col \<and> c_width (gr_cells g ! i) = Double \<or> i = col + w \<and> c_width (gr_cells g ! i) = Continuation
     then blank_cell e else gr_cells g ! i)"
proof -
  have len: "length (gr_cells g) = cols" using assms(1) by (auto simp: row_good_def fits_def)
  define g2 where "g2 = (if w = 2 then row_set (col + 1) (continuation_of e c) True (row_set col c True g) else row_set col c True g)\<lparr>gr_dirty := True\<rparr>"
  have len2: "length (gr_cells g2) = cols" "length (gr_cells (row_neighborhood col (blank_cell e) g2)) = cols"
    using len by (simp_all add: g2_def row_set_def)
  have w: "w = 1 \<or> w = 2" "col + w \<le> cols" "c_width c = (if w = 2 then Double else Single)"
    using assms(3,4) by (auto simp: w_def width_columns_def)
  have blank: "c_width (blank_cell e) = Single" by (simp add: blank_cell_def)
  have cells: "gr_cells (row_cluster e col c g) ! i =
      (if (col \<le> i + 1 \<and> i < col + w + 2) \<and> row_bad (gr_cells g2) i then blank_cell e else gr_cells g2 ! i)"
    unfolding row_cluster_exact [OF assms(1,3,4)] Let_def w_def [symmetric] g2_def [symmetric]
    using neighborhood_cells [OF blank, of i g2 col] neighborhood_bad [OF blank, of i g2 col] neighborhood_cells [OF blank, of i "row_neighborhood col (blank_cell e) g2" "col + w"]
      len2 assms(5) w(1) by (simp add: row_recompute_def) arith
  have at: "gr_cells g2 ! k = (if k = col then c else if w = 2 \<and> k = col + 1 then continuation_of e c else gr_cells g ! k)" if "k < cols" for k
    using that len w(2) by (auto simp: g2_def row_set_def nth_list_update)
  note bad = cluster_breaks [OF assms(2), of "gr_cells g2" i col w c "continuation_of e c", unfolded len len2, OF refl assms(5) w(2,1) at w(3)]
  have cont: "c_width (continuation_of e c) = Continuation" by (simp add: continuation_of_def)
  have bad: "row_bad (gr_cells g2) i \<longleftrightarrow> \<not> (col \<le> i \<and> i < col + w) \<and>
      (i + 1 = col \<and> c_width (gr_cells g ! i) = Double \<or> i = col + w \<and> c_width (gr_cells g ! i) = Continuation)"
    by (rule bad [OF _ cont])
  show ?thesis unfolding cells bad at [OF assms(5)] using w(1) by auto
qed

lemma replace_cluster_cells:
  assumes "screen_valid s" "r < s_rows s" "col < s_columns s" "c_width c = Single \<or> c_width c = Double \<and> col + 1 < s_columns s"
    "i < s_columns s" "j < s_rows s" "replace_cluster e col r c s = Some s'" "caps_ok e" "cell_valid c"
  defines "w \<equiv> width_columns (c_width c)"
  shows "cell_ref s' i j =
    (if j = r \<and> i = col then Some c else if j = r \<and> w = 2 \<and> i = col + 1 then Some (continuation_of e c)
     else if j = r \<and> (i + 1 = col \<and> map_option c_width (cell_ref s i j) = Some Double \<or>
       i = col + w \<and> map_option c_width (cell_ref s i j) = Some Continuation) then Some (blank_cell e)
     else cell_ref s i j)"
proof -
  note v = screen_validD [OF assms(1)]
  let ?g = "row_cluster e col c (get_row s r)"
  have s': "s' = put_row s r ?g" using replace_cluster_row [OF v(2) assms(2-4), of e] assms(7) by simp
  have fit: "fits (s_columns s) ?g"
    by (rule row_goodD(1) [OF row_good_cluster [OF v(5) [OF assms(2)] assms(3,4,9)]]) (use assms(8) in auto)
  have sh: "shape s'" "s_dimensions s' = s_dimensions s" using put_row_shape [OF v(2) fit] by (simp_all add: s')
  have ref: "cell_ref x i j = Some (gr_cells (get_row x j) ! i)" if "shape x" "s_dimensions x = s_dimensions s" for x
    using rd_cell_row(1) [OF that(1), of i j] that(2) assms(5,6) by (simp add: cell_ref_def cell_index_def)
  have row: "get_row s' j = (if j = r then ?g else get_row s j)"
    using get_put_same [OF v(2) assms(2) fit] get_put_other [OF v(2) assms(2,6) fit] by (auto simp: s')
  show ?thesis
  proof (cases "j = r")
    case True
    note new = row_cluster_cells [OF v(5) [OF assms(2)] v(3) [OF assms(2)] assms(3-5), of e, folded w_def]
    have refs: "cell_ref s' i r = Some (gr_cells ?g ! i)" "cell_ref s i r = Some (gr_cells (get_row s r) ! i)"
      using ref [OF sh] ref [OF v(2) refl] row True by simp_all
    show ?thesis unfolding True refs new by (simp only: option.map option.inject simp_thms if_distrib [of Some])
  qed (simp add: ref [OF sh] ref [OF v(2) refl] row)
qed

end
