(* ===== verification/Sample_Facts.thy ===== *)
theory Sample_Facts
  imports Sample Snapshot Wide
begin

text \<open>
  The sample environment satisfies every hypothesis the theorems put on third-party code, and a small
  terminal built in it: two columns, one row, a kilobyte of history.
\<close>

lemma sample_len_utf8_le: "len_utf8 c \<le> 4"
  by (simp add: len_utf8_def)

lemma sample_caps_ok: "caps_ok sample_env"
  by (simp add: caps_ok_def sample_env_def str_len_def len_utf8_def)

lemma sample_env_ok: "env_ok sample_env"
proof -
  have cap: "str_len s \<le> foldr (\<lambda>s n. max (str_len s) n) (ss @ [s]) 24 \<and>
      foldr (\<lambda>s n. max (str_len s) n) (ss @ [s]) 24 \<le> 512" if "\<forall>x \<in> set (ss @ [s]). str_len x \<le> 256" for ss s
    using that by (induction ss) auto
  have one: "str_len [c] \<le> 4" for c using sample_len_utf8_le by (simp add: str_len_def)
  show ?thesis
    unfolding env_ok_def
  proof (intro conjI allI impI)
    fix c
    show "len_utf8 c \<le> const_cap sample_env [c]" "const_cap sample_env [c] \<le> 512"
      using one [of c] sample_len_utf8_le [of c] by (auto simp: sample_env_def)
  next
    fix ss s
    assume a: "\<forall>x \<in> set (ss @ [s]). str_len x \<le> 256"
    show "str_len s \<le> edit_cap sample_env (ss @ [s])" "edit_cap sample_env (ss @ [s]) \<le> 512"
      using cap [OF a] by (simp_all add: sample_env_def)
  qed (simp_all add: sample_caps_ok, simp add: sample_env_def sample_width_def replacement_character_def)
qed

lemma sample_vec_ok: "vec_ok sample_env"
  by (simp add: vec_ok_def sample_env_def)

definition sample_dims :: dimensions where
  "sample_dims = \<lparr>columns = 2, rows = 1, cell_count = 2\<rparr>"

lemma sample_dims_ok: "dims_ok sample_dims" "dimensions_new 2 1 = Inr sample_dims"
  by (simp_all add: dims_ok_def sample_dims_def MAX_CELL_COUNT_def dimensions_new_def checked_mul_def usize_max_def)

lemma sample_alloc [simp]: "alloc sample_env n"
  by (simp add: sample_env_def)

definition sample_screen :: screen where
  "sample_screen = \<lparr>s_dimensions = sample_dims, s_top = 0, s_cells = replicate 2 (blank_cell sample_env),
     s_occupied_cells = replicate 2 False, s_dirty_rows = [True], s_soft_wrapped_rows = [False],
     s_occupied_columns = [0]\<rparr>"

lemma sample_screen_new: "screen_new sample_env sample_dims = Inr sample_screen"
  by (simp add: screen_new_def sample_screen_def sample_dims_def)

lemma sample_screen_inv: "screen_inv sample_screen" "s_dimensions sample_screen = sample_dims"
  using screen_new_inv [OF sample_dims_ok(1) sample_caps_ok sample_screen_new] by simp_all

lemma sample_screen_valid: "screen_valid sample_screen"
proof -
  have "paired (gr_cells (get_row sample_screen i))" if "i < 1" for i
    using screen_new_rows(4) [OF sample_dims_ok(1) sample_screen_new, of i] that
    by (auto simp: sample_dims_def new_row_def paired_broken broken_def blank_cell_def nth_Cons' less_Suc_eq_le)
  then show ?thesis using sample_screen_inv by (simp add: screen_valid_iff screen_paired_def sample_dims_def)
qed

definition sample_buffer :: buffer where
  "sample_buffer = \<lparr>b_screen = sample_screen, b_cursor = home, b_scroll_top = 0, b_scroll_bottom = 0,
     b_scroll_left = 0, b_scroll_right = 1, b_pending_wrap = False, b_grapheme_anchor = None,
     b_dec_saved = None, b_ansi_saved = None\<rparr>"

definition sample_terminal :: terminal where
  "sample_terminal = projr (the (with_scrollback_limit sample_env sample_dims 1024))"

lemma sample_buffer_new: "buffer_new sample_env sample_dims = Some (Inr sample_buffer)"
  by (simp add: buffer_new_def sample_screen_new sample_buffer_def) (simp add: sample_dims_def)

lemma sample_terminal_new: "with_scrollback_limit sample_env sample_dims 1024 = Some (Inr sample_terminal)"
  by (simp add: sample_terminal_def with_scrollback_limit_def sample_buffer_new)

lemma sample_terminal_inv: "settled sample_dims sample_terminal" "term_inv sample_dims sample_terminal"
  using with_scrollback_limit_ok [OF sample_dims_ok(1) sample_env_ok, of 1024] settled_inv
  by (auto simp: sample_terminal_new)

lemma sample_reachable: "reachable sample_terminal"
  by (rule reachable.created [OF sample_env_ok sample_dims_ok(2) sample_terminal_new])

end
