(* ===== verification/Machine.thy ===== *)
theory Machine
  imports Prelude
begin

text \<open>
  Two contracts the components share: a machine that consumes inputs without ever failing on a valid
  state, and a log that keeps only the newest part of what is written to it.
\<close>

lemma foldM_concat: "foldM f (concat xss) s = foldM (foldM f) xss s"
proof (induction xss arbitrary: s)
  case (Cons xs xss)
  have "foldM f (concat xss) = foldM (foldM f) xss" using Cons.IH by (rule ext)
  then show ?case by (simp add: foldM_append)
qed simp

section \<open>Machines that never get stuck\<close>

locale machine =
  fixes step :: "'i \<Rightarrow> 's \<Rightarrow> 's option" and valid :: "'i \<Rightarrow> bool" and inv :: "'s \<Rightarrow> bool"
  assumes step_inv: "valid i \<Longrightarrow> inv s \<Longrightarrow> ok inv (step i s)"
begin

lemma run_inv: "inv s \<Longrightarrow> list_all valid is \<Longrightarrow> ok inv (foldM step is s)"
  by (rule foldM_inv) (auto simp: list_all_iff intro: step_inv)

text \<open>How the input is cut into chunks does not matter.\<close>

lemma run_chunks:
  "inv s \<Longrightarrow> list_all valid (concat iss) \<Longrightarrow>
     \<exists>s'. foldM step (concat iss) s = Some s' \<and> foldM (foldM step) iss s = Some s' \<and> inv s'"
  using run_inv [of s "concat iss"] by (auto simp: foldM_concat ok_iff)

end

section \<open>Logs that forget their oldest entries\<close>

locale bounded_log =
  fixes push :: "'r \<Rightarrow> 's \<Rightarrow> 's option"
    and fits :: "'r \<Rightarrow> 's \<Rightarrow> bool"
    and inv :: "'s \<Rightarrow> bool"
    and view :: "'s \<Rightarrow> 'r list"
    and origin :: "'s \<Rightarrow> nat"
    and needed :: "'r \<Rightarrow> 's \<Rightarrow> 's \<Rightarrow> bool"  \<comment> \<open>what was forgotten had to be\<close>
  assumes push_view: "inv s \<Longrightarrow> fits r s \<Longrightarrow>
      ok (\<lambda>s'. inv s' \<and> needed r s s' \<and>
        (\<exists>n \<le> length (view s) + 1. view s' = drop n (view s @ [r]) \<and> origin s' = origin s + n)) (push r s)"
begin

primrec all_fit :: "'r list \<Rightarrow> 's \<Rightarrow> bool" where
  "all_fit [] s \<longleftrightarrow> True"
| "all_fit (r # rs) s \<longleftrightarrow> fits r s \<and> (case push r s of None \<Rightarrow> True | Some s' \<Rightarrow> all_fit rs s')"

lemma push_all_view:
  "inv s \<Longrightarrow> all_fit rs s \<Longrightarrow>
     ok (\<lambda>s'. inv s' \<and> (\<exists>n \<le> length (view s) + length rs. view s' = drop n (view s @ rs) \<and> origin s' = origin s + n))
       (foldM push rs s)"
proof (induction rs arbitrary: s)
  case (Cons r rs)
  obtain s1 n where s1: "push r s = Some s1" "inv s1" "n \<le> length (view s) + 1"
    "view s1 = drop n (view s @ [r])" "origin s1 = origin s + n"
    using push_view [of s r] Cons.prems by (auto simp: ok_iff)
  have "all_fit rs s1" using Cons.prems(2) s1(1) by simp
  with Cons.IH [of s1] s1(2) obtain s2 m where s2: "foldM push rs s1 = Some s2" "inv s2"
    "m \<le> length (view s1) + length rs" "view s2 = drop m (view s1 @ rs)" "origin s2 = origin s1 + m"
    by (auto simp: ok_iff)
  have "view s1 @ rs = drop n (view s @ r # rs)" using s1(3,4) by (cases "n = length (view s) + 1") auto
  then have "view s2 = drop (n + m) (view s @ r # rs)" using s2(4) by (simp only: drop_drop add.commute)
  moreover have "n + m \<le> length (view s) + length (r # rs)" using s1(3,4) s2(3) by simp
  ultimately show ?case using s1(1,5) s2(1,2,5) by (auto intro!: exI [of _ "n + m"])
qed simp

text \<open>The law of what may be forgotten holds at every push of the sequence.\<close>

lemma push_all_needed:
  "inv s \<Longrightarrow> all_fit rs s \<Longrightarrow> i < length rs \<Longrightarrow>
     \<exists>a b. foldM push (take i rs) s = Some a \<and> push (rs ! i) a = Some b \<and> needed (rs ! i) a b"
proof (induction rs arbitrary: s i)
  case (Cons r rs)
  obtain s1 where s1: "push r s = Some s1" "inv s1" "needed r s s1"
    using push_view [of s r] Cons.prems by (auto simp: ok_iff)
  show ?case
  proof (cases i)
    case (Suc j)
    then show ?thesis using Cons.IH [of s1 j] Cons.prems s1 by auto
  qed (use s1 in simp)
qed simp

end

end
