(* ===== verification/Terminal_Props.thy ===== *)
theory Terminal_Props
  imports Sample_Facts Machine
begin

text \<open>The correctness statements about whole terminals: ingestion, printing, the public calls, resizing and snapshots.\<close>

interpretation tm: machine "ingest_byte e" "\<lambda>_. True" "\<lambda>t. term_inv d t \<and> env_ok e" for e d
  by unfold_locales (use ingest_byte_wf in \<open>fastforce simp: ok_iff\<close>)

interpretation am: machine "\<lambda>(e, c). call e c" "\<lambda>(e, c). env_ok e" "\<lambda>t. \<exists>d. term_inv d t"
  by unfold_locales (use call_ok in \<open>auto split: prod.splits\<close>)

text \<open>
  C1. Whatever bytes the program in the terminal writes, ingesting them never panics and never loops (no index,
  slice, subtraction or \<open>expect\<close> on the way fails, the nested \<open>print\<close> and \<open>ingest_byte\<close> calls end), keeps the
  terminal's invariant, and does not depend on how the byte stream was cut into chunks.
\<close>

theorem ingest_total:
  assumes "term_inv d t" "env_ok e"
  shows "\<exists>t'. ingest e (concat chunks) t = Some t' \<and> foldM (ingest e) chunks t = Some t' \<and> term_inv d t'"
proof -
  have "ingest e = foldM (ingest_byte e)" by (intro ext) (simp add: ingest_def)
  then show ?thesis using tm.run_chunks [of d t e chunks] assms by (auto simp: list_all_iff)
qed

theorem ingest_total_witness:
  "\<exists>t'. ingest sample_env (concat [[0x1b], [0x5b, 0x48, 0xe1], [0x84, 0x80]]) sample_terminal = Some t' \<and>
    foldM (ingest sample_env) [[0x1b], [0x5b, 0x48, 0xe1], [0x84, 0x80]] sample_terminal = Some t' \<and> term_inv sample_dims t'"
  by (rule ingest_total [OF sample_terminal_inv(2) sample_env_ok])

text \<open>
  C2. Every terminal a client can obtain by construction and any sequence of the public calls that change a
  terminal satisfies the invariant, and no further sequence of such calls on it panics.  Every call has its own
  environment: the allocator may grant at one call what it refuses at another (within one call its answer
  depends on the size asked for).
\<close>

theorem reachable_terminals_never_panic:
  assumes "reachable t" "list_all (\<lambda>(e, c). env_ok e) calls"
  shows "(\<exists>d. term_inv d t) \<and> (\<exists>t'. foldM (\<lambda>(e, c). call e c) calls t = Some t' \<and> (\<exists>d. term_inv d t'))"
  using reachable_inv [OF assms(1)] am.run_inv [OF reachable_inv [OF assms(1)] assms(2)] by (auto simp: ok_iff)

theorem reachable_terminals_never_panic_witness:
  "(\<exists>d. term_inv d sample_terminal) \<and>
    (\<exists>t'. foldM (\<lambda>(e, c). call e c)
      [(sample_env, Ingest [0x41]), (sample_env\<lparr>alloc := \<lambda>_. False\<rparr>, Resize 3 2 []), (sample_env, Resize 3 2 []),
       (sample_env, Apply (Print 0x42)),
       (sample_env, QueueReply [0x41]), (sample_env, Reset)] sample_terminal = Some t' \<and> (\<exists>d. term_inv d t'))"
proof -
  have "env_ok (sample_env\<lparr>alloc := x\<rparr>)" for x using sample_env_ok by (simp add: env_ok_def caps_ok_def)
  then show ?thesis by (intro reachable_terminals_never_panic [OF sample_reachable]) (simp add: sample_env_ok)
qed

text \<open>
  C19. A resize never panics.  When it succeeds, every buffer of the terminal has exactly the new dimensions and
  as many content positions come back as were given; when memory runs out, the error is returned and the
  terminal keeps its old dimensions and its invariant.
\<close>

theorem resize_total:
  assumes "term_inv d0 t" "dims_ok d" "env_ok e"
  shows "\<exists>r t'. resize_with_content_positions e d ps t = Some (r, t') \<and>
    (case r of Inl _ \<Rightarrow> term_inv d0 t' \<and> t_dimensions t' = d0
     | Inr ps' \<Rightarrow> term_inv d t' \<and> t_dimensions t' = d \<and> length ps' = length ps)"
proof -
  have dm: "term_inv d' t' \<Longrightarrow> t_dimensions t' = d'" for d' t' using term_wf_active by metis
  obtain r t' where r: "resize_with_content_positions e d ps t = Some (r, t')"
    "case r of Inl _ \<Rightarrow> term_inv d0 t' | Inr ps' \<Rightarrow> term_inv d t' \<and> length ps' = length ps"
    using resize_ok [OF assms, of ps] by (auto simp: ok_iff)
  then show ?thesis using dm by (cases r) auto
qed

theorem resize_total_witness:
  "\<exists>r t'. resize_with_content_positions sample_env sample_dims [] sample_terminal = Some (r, t') \<and>
    (case r of Inl _ \<Rightarrow> term_inv sample_dims t' \<and> t_dimensions t' = sample_dims
     | Inr ps' \<Rightarrow> term_inv sample_dims t' \<and> t_dimensions t' = sample_dims \<and> length ps' = length ([] :: content_position list))"
  by (rule resize_total [OF sample_terminal_inv(2) sample_dims_ok(1) sample_env_ok])

section \<open>Printing\<close>

lemma full_margins:
  assumes "term_wf P d t" "\<not> left_right_margin_mode (t_modes t)"
  shows "wrap_geometry t = Some (columns d, 0)"
proof -
  obtain b where "active_buffer t = Some b" "t_dimensions t = d" "dims_ok d" using term_wf_active [OF assms(1)] by metis
  then show ?thesis
    using assms(2) by (simp add: wrap_geometry_def cursor_within_margins_def horizontal_margins_def span_full_def span_new_def dims_ok_def)
qed

lemma spend_hyperlink_active: "active_buffer (spend_hyperlink t) = active_buffer t"
  by (simp add: spend_hyperlink_def active_buffer_def Let_def split: active_screen.split)

lemma last_graphic_active [simp]:
  "active_buffer (t\<lparr>t_last_graphic_character := c\<rparr>) = active_buffer t" "t_cursor (t\<lparr>t_last_graphic_character := c\<rparr>) = t_cursor t"
  by (simp_all add: active_buffer_def t_cursor_def split: active_screen.split option.split)

text \<open>What \<open>print\<close> leaves in the active buffer when the cluster fits and no wrap is pending.\<close>

definition printed_buffer :: "nat \<Rightarrow> nat \<Rightarrow> bool \<Rightarrow> screen \<Rightarrow> buffer \<Rightarrow> buffer" where
  "printed_buffer cols w wraps s b =
     b\<lparr>b_screen := s, b_grapheme_anchor := Some (b_cursor b),
       b_cursor := (b_cursor b)\<lparr>column := (if column (b_cursor b) + w < cols then column (b_cursor b) + w else column (b_cursor b))\<rparr>,
       b_pending_wrap := (cols \<le> column (b_cursor b) + w \<and> wraps)\<rparr>"

lemma print_core: "settled d t \<Longrightarrow> active_buffer t = Some b \<Longrightarrow> buffer_core d b"
  using term_wf_active by (metis option.inject)

lemma print_plain:
  assumes t: "settled d t" and e: "env_ok e" and w: "char_width e ch = Some w" "w = 1 \<or> w = 2"
    and b: "active_buffer t = Some b" and modes: "\<not> b_pending_wrap b" "\<not> insert_mode (t_modes t)" "\<not> left_right_margin_mode (t_modes t)"
    and room: "column (b_cursor b) + w \<le> columns d"
  shows "\<exists>s' t'. print e ch t = Some t' \<and>
    replace_cluster e (column (b_cursor b)) (row (b_cursor b)) (printed_cell e ch w t) (b_screen b) = Some s' \<and>
    active_buffer t' = Some (printed_buffer (columns d) w (auto_wrap (t_modes t)) s' b)"
proof -
  obtain b0 where b0: "active_buffer t = Some b0" "buffer_core d b0" "unanchored b0" "t_cursor t = b_cursor b0"
    using term_wf_active [OF t] by metis
  then have c: "buffer_core d b" "b_grapheme_anchor b = None" "t_cursor t = b_cursor b" using b by (auto simp: unanchored_def)
  note core = buffer_coreD [OF c(1)]
  let ?t = "spend_hyperlink (t\<lparr>t_last_graphic_character := Some ch\<rparr>)"
  have fields: "active_buffer ?t = Some b" "t_modes ?t = t_modes t" "active_buffer (t\<lparr>t_last_graphic_character := Some ch\<rparr>) = Some b"
    "t_cursor (t\<lparr>t_last_graphic_character := Some ch\<rparr>) = b_cursor b"
    "printed_cell e ch w (t\<lparr>t_last_graphic_character := Some ch\<rparr>) = printed_cell e ch w t"
    using b c(3) by (simp_all add: spend_hyperlink_active printed_cell_def)
  have wf: "term_wf unanchored d (t\<lparr>t_last_graphic_character := Some ch\<rparr>)" using t by (auto simp: term_wf_def split: active_screen.splits)
  have geo: "wrap_geometry (t\<lparr>t_last_graphic_character := Some ch\<rparr>) = Some (columns d, 0)"
    by (rule full_margins [OF wf]) (use modes in simp)
  have sd: "s_rows (b_screen b) = rows d" "s_columns (b_screen b) = columns d" using core(2) by simp_all
  obtain s' where s': "replace_cluster e (column (b_cursor b)) (row (b_cursor b)) (printed_cell e ch w t) (b_screen b) = Some s'"
    using replace_cluster_inv [of "b_screen b" "row (b_cursor b)" "column (b_cursor b)" "printed_cell e ch w t" e] core sd w room
      printed_cell_valid [OF e, of ch w t] env_ok_caps [OF e]
    by (auto simp: ok_iff printed_cell_def)
  have fit: "(w = 2 \<and> Suc (column (b_cursor b)) = columns d) = False" "min w 2 = w" "w \<noteq> 0" using w(2) room by auto
  have place: "place_cursor_after_cluster (b_cursor b) w (columns d) wraps (b\<lparr>b_screen := s', b_grapheme_anchor := Some (b_cursor b)\<rparr>) =
      printed_buffer (columns d) w wraps s' b" for wraps
    using room by (auto simp: place_cursor_after_cluster_def printed_buffer_def set_row_def set_column_def Let_def)
  have "print_step e again ch t = Some (set_active (printed_buffer (columns d) w (auto_wrap (t_modes t)) s' b) ?t)" for again
    using b c(2) w(1) modes fields geo fit s' place
    by (auto simp: print_step_def try_extend_grapheme_def print_cluster_def with_active_def on_screen_def Let_def)
  then have "print e ch t = Some (set_active (printed_buffer (columns d) w (auto_wrap (t_modes t)) s' b) ?t)"
    by (simp add: print_def)
  moreover have "active_buffer (set_active x ?t) = Some x" for x
    using fields(1) by (auto simp: active_buffer_def set_active_def split: active_screen.splits)
  ultimately show ?thesis using s' by blast
qed



lemma sample_active:
  "active_buffer sample_terminal = Some sample_buffer" "t_modes sample_terminal = default_modes" "\<not> b_pending_wrap sample_buffer"
  "b_cursor sample_buffer = home"
proof -
  have "t_primary sample_terminal = sample_buffer \<and> t_active_screen sample_terminal = Primary \<and> t_modes sample_terminal = default_modes"
    by (simp add: sample_terminal_def with_scrollback_limit_def sample_buffer_new)
  then show "active_buffer sample_terminal = Some sample_buffer" "t_modes sample_terminal = default_modes" "\<not> b_pending_wrap sample_buffer"
    "b_cursor sample_buffer = home"
    by (simp_all add: active_buffer_def sample_buffer_def)
qed

lemma sample_modes: "\<not> insert_mode default_modes" "\<not> left_right_margin_mode default_modes" "auto_wrap default_modes"
  by (simp_all add: default_modes_def)

lemma sample_style:
  "t_current_foreground sample_terminal = Default" "t_current_background sample_terminal = Default" "\<not> t_current_protected sample_terminal"
  "t_current_attributes sample_terminal = NONE" "t_current_hyperlink sample_terminal = None"
  by (simp_all add: sample_terminal_def with_scrollback_limit_def sample_buffer_new)


text \<open>
  C37. Recovery refuses states that ordinary output reaches: after a double-width character is printed into
  the last two columns of a line with automatic wrapping on, the wrap is pending while the cursor stands on
  the character's first column, and \<open>BufferState::validate_recovery_state\<close> demands that a pending wrap
  be in the very last column.
\<close>

theorem wide_character_at_edge_fails_recovery:
  assumes "settled d t" "env_ok e" "char_width e ch = Some 2" "active_buffer t = Some b" "\<not> b_pending_wrap b"
    "\<not> insert_mode (t_modes t)" "\<not> left_right_margin_mode (t_modes t)" "auto_wrap (t_modes t)"
    "column (b_cursor b) + 2 = columns d"
  shows "\<exists>t' b'. print e ch t = Some t' \<and> term_inv d t' \<and> active_buffer t' = Some b' \<and> b_pending_wrap b' \<and>
    column (b_cursor b') + 2 = columns d \<and> \<not> buffer_valid b'"
proof -
  obtain s' t' where p: "print e ch t = Some t'" "active_buffer t' = Some (printed_buffer (columns d) 2 True s' b)"
    using print_plain [OF assms(1-3) _ assms(4-7)] assms(8,9) by auto
  have inv: "term_inv d t'" using print_wf [OF settled_inv [OF assms(1)] assms(2), of ch] p(1) by simp
  then have "b_dimensions (printed_buffer (columns d) 2 True s' b) = d" using p(2) term_wf_active [OF inv] buffer_coreD(2) by (metis option.inject)
  then show ?thesis
    using p inv assms(9) by (auto simp: buffer_valid_def printed_buffer_def)
qed

theorem wide_character_at_edge_fails_recovery_witness:
  "\<exists>t' b'. print sample_env 0x1100 sample_terminal = Some t' \<and> term_inv sample_dims t' \<and> active_buffer t' = Some b' \<and>
    b_pending_wrap b' \<and> column (b_cursor b') + 2 = columns sample_dims \<and> \<not> buffer_valid b'"
  by (rule wide_character_at_edge_fails_recovery [OF sample_terminal_inv(1) sample_env_ok _ sample_active(1)])
     (use sample_active sample_modes in \<open>simp_all add: sample_env_def sample_width_def home_def sample_dims_def\<close>)

section \<open>Reset\<close>

lemma cleared_is_new:
  assumes "shape s" "s_dimensions s = d" "screen_new e d = Inr s0"
  shows "clear_all (blank_cell e) s = s0"
proof -
  have d: "dims_ok d" using assms(1,2) shape_dims by blast
  note n = screen_new_rows [OF d assms(3)]
  note c = clear_all_local [OF assms(1), of "blank_cell e"]
  have "get_row (clear_all (blank_cell e) s) i = new_row e (columns d)" if "i < rows d" for i
    using c get_row_fits [OF assms(1), of i] that assms(2)
    by (simp add: row_fill_def new_row_def row_extent_def fits_def is_structural_blank_def blank_cell_def NONE_def)
  then have "grid (clear_all (blank_cell e) s) = grid s0"
    using c n(2,4) assms(2) by (auto simp: grid_def)
  then show ?thesis using c n(1-3) assms(2) by (intro screen_ext) auto
qed

text \<open>
  C21. Resetting a terminal gives exactly a freshly constructed one of the same size: blank unrotated screen, home
  cursor, full margins, default modes, tab stops, colours, empty title, idle parser and decoder.  What survives
  is the history, the colour scheme and the queues, the advanced screen generation, and also the character
  protection state and the last graphic character.
\<close>

theorem reset_is_fresh_terminal:
  assumes "term_inv d t" "with_scrollback_limit e d limit = Some (Inr fresh)"
  shows "reset_to_initial_state e t = Some (fresh\<lparr>
    t_screen_generation := t_screen_generation (advance_screen_generation t), t_scrollback := t_scrollback t,
    t_color_scheme := t_color_scheme t, t_reply_queue := t_reply_queue t, t_input_queue := t_input_queue t,
    t_reply_queue_overflowed := t_reply_queue_overflowed t, t_input_queue_overflowed := t_input_queue_overflowed t,
    t_current_protected := t_current_protected t, t_protection := t_protection t,
    t_last_graphic_character := t_last_graphic_character t\<rparr>)"
proof -
  have p: "buffer_core d (t_primary t)" using assms(1) by (auto simp: term_wf_def split: active_screen.splits)
  note c = buffer_coreD [OF p]
  have dm: "t_dimensions t = d" using c(2) by (simp add: t_dimensions_def)
  obtain s0 where s0: "screen_new e d = Inr s0" using assms(2) by (cases "screen_new e d") (auto simp: with_scrollback_limit_def buffer_new_def)
  have clear: "clear_all (blank_cell e) (b_screen (t_primary t)) = s0"
    by (rule cleared_is_new [OF screen_invD(1) [OF c(1)] _ s0]) (use c(2) in simp)
  have "1 \<le> rows d" "1 \<le> columns d" using c(9) by (auto simp: dims_ok_def)
  then show ?thesis
    using assms(2) c(2) s0 clear dm
    by (auto simp: with_scrollback_limit_def buffer_new_def reset_to_initial_state_def buffer_reset_def advance_screen_generation_def
        split: sum.splits)
qed

theorem reset_is_fresh_terminal_witness:
  "reset_to_initial_state sample_env sample_terminal = Some (sample_terminal\<lparr>
    t_screen_generation := t_screen_generation (advance_screen_generation sample_terminal)\<rparr>)"
  using reset_is_fresh_terminal [OF sample_terminal_inv(2) sample_terminal_new] by simp

section \<open>The alternate screen\<close>

lemma clamp_cursor_inside: "cursor_in d c \<Longrightarrow> dims_ok d \<Longrightarrow> clamp_cursor d c = Some c"
  by (auto simp: clamp_cursor_def cursor_in_iff dims_ok_def)

text \<open>
  C20. The alternate screen leaves the primary one alone.  A program that enters it with DECSET 1049 (with origin
  mode off), applies any operations that do not reset one of the modes 47, 1047 and 1049, and leaves it with
  DECRST 1049 finds the primary buffer as it was: the same cells, cursor and margins, the same history, and the
  rendition that was current at the entry.  What differs is that every row is dirty, that the DEC saved position
  is the one of the entry, and that a pending wrap survives only in the last column.
\<close>

theorem alternate_screen_restores_primary:
  assumes "settled d t" "env_ok e" "t_active_screen t = Primary" "\<not> origin_mode (t_modes t)"
    "set_private_mode e True 1049 t = Some t1" "t_active_screen t1 = Alternate"
    "list_all (\<lambda>x. \<not> leaves_alternate x) operations"
  shows "\<exists>t2 t3. foldM (apply_op e) operations t1 = Some t2 \<and> set_private_mode e False 1049 t2 = Some t3 \<and>
    t_active_screen t3 = Primary \<and> t_scrollback t3 = t_scrollback t \<and>
    t_primary t3 = (t_primary t)\<lparr>b_screen := mark_all_dirty (b_screen (t_primary t)),
      b_dec_saved := Some \<lparr>sd_cursor = b_cursor (t_primary t), sd_pending_wrap = b_pending_wrap (t_primary t),
        sd_attributes = t_current_attributes t, sd_foreground = t_current_foreground t,
        sd_background = t_current_background t, sd_origin_mode = False,
        sd_protected = t_current_protected t, sd_protection = t_protection t\<rparr>,
      b_pending_wrap := (b_pending_wrap (t_primary t) \<and> column (b_cursor (t_primary t)) + 1 = columns d)\<rparr> \<and>
    t_current_attributes t3 = t_current_attributes t \<and> t_current_foreground t3 = t_current_foreground t \<and>
    t_current_background t3 = t_current_background t \<and> t_current_protected t3 = t_current_protected t"
proof -
  have p: "buffer_core d (t_primary t)" using assms(1,3) by (simp add: term_wf_def)
  note c = buffer_coreD [OF p]
  let ?saved = "\<lparr>sd_cursor = b_cursor (t_primary t), sd_pending_wrap = b_pending_wrap (t_primary t),
      sd_attributes = t_current_attributes t, sd_foreground = t_current_foreground t,
      sd_background = t_current_background t, sd_origin_mode = False,
      sd_protected = t_current_protected t, sd_protection = t_protection t\<rparr>"
  have save: "save_dec t = Some (t\<lparr>t_primary := (t_primary t)\<lparr>b_dec_saved := Some ?saved\<rparr>\<rparr>)"
    using assms(3,4) by (simp add: save_dec_def with_active_def active_buffer_def set_active_def)
  have t1: "t_primary t1 = (t_primary t)\<lparr>b_dec_saved := Some ?saved\<rparr>" "t_scrollback t1 = t_scrollback t"
    using assms(3,5,6) save
    by (auto simp: set_private_mode_def enter_alternate_def drop_hyperlink_def with_active_def on_screen_def active_buffer_def set_active_def
        upd_modes_def advance_screen_generation_def Let_def split: bind_splits sum.splits if_splits option.splits)
  have "term_inv d t1" using set_private_mode_settled [OF assms(1,2), of True 1049] assms(5) settled_inv by simp
  then obtain t2 where t2: "foldM (apply_op e) operations t1 = Some t2" "term_inv d t2"
    using foldM_inv [of "term_inv d" t1 operations "apply_op e"] apply_op_wf [OF _ assms(2)] by (auto simp: ok_iff)
  have aside: "t_active_screen t2 = Alternate" "t_primary t2 = t_primary t1" "t_scrollback t2 = t_scrollback t1"
    using aside_allD [OF apply_ops_aside [OF _ assms(7)] t2(1), of "t_primary t1" "t_scrollback t1"] assms(6) by (simp_all add: aside_def)
  obtain a where a: "t_alternate t2 = Some a" "buffer_core d a" using t2(2) aside(1) by (auto simp: term_wf_def split: option.splits)
  obtain a' where a': "buffer_reset e a = Some a'" using buffer_reset_calm [OF a(2) assms(2)] by (auto simp: ok_iff)
  have cc: "clamp_cursor d (b_cursor (t_primary t)) = Some (b_cursor (t_primary t))"
    by (rule clamp_cursor_inside) (use c cursor_in_iff in auto)
  show ?thesis
    by (rule exI [of _ t2])
       (use t2(1) aside t1 a(1) a' cc c(2) in \<open>simp add: set_private_mode_def leave_alternate_def drop_hyperlink_def advance_screen_generation_def
          upd_modes_def Let_def restore_dec_def with_active_def active_buffer_def set_active_def t_dimensions_def mark_all_dirty_def\<close>)
qed

theorem alternate_screen_restores_primary_witness:
  "\<exists>t1 t2 t3. set_private_mode sample_env True 1049 sample_terminal = Some t1 \<and> t_active_screen t1 = Alternate \<and>
    foldM (apply_op sample_env) [Print 0x41, LineFeed, Print 0x42, SaveDec, SoftReset] t1 = Some t2 \<and>
    set_private_mode sample_env False 1049 t2 = Some t3 \<and> t_active_screen t3 = Primary \<and>
    t_scrollback t3 = t_scrollback sample_terminal \<and> b_cursor (t_primary t3) = home"
proof -
  have act: "t_active_screen sample_terminal = Primary" "t_primary sample_terminal = sample_buffer" "t_alternate sample_terminal = None"
    by (simp_all add: sample_terminal_def with_scrollback_limit_def sample_buffer_new)
  have om: "\<not> origin_mode (t_modes sample_terminal)" using sample_active(2) by (simp add: default_modes_def)
  obtain t1 where t1: "set_private_mode sample_env True 1049 sample_terminal = Some t1"
    using set_private_mode_settled [OF sample_terminal_inv(1) sample_env_ok, of True 1049] by (auto simp: ok_iff)
  have dm: "b_dimensions sample_buffer = sample_dims" by (simp add: sample_buffer_def sample_screen_inv(2))
  have alt: "t_active_screen t1 = Alternate"
    using t1 act sample_buffer_new dm
    by (auto simp: set_private_mode_def save_dec_def enter_alternate_def drop_hyperlink_def with_active_def on_screen_def active_buffer_def
        set_active_def upd_modes_def advance_screen_generation_def t_dimensions_def Let_def split: bind_splits)
  have stay: "list_all (\<lambda>x. \<not> leaves_alternate x) [Print 0x41, LineFeed, Print 0x42, SaveDec, SoftReset]"
    by (simp add: leaves_alternate_def)
  show ?thesis
    using alternate_screen_restores_primary [OF sample_terminal_inv(1) sample_env_ok act(1) om t1 alt stay] t1 alt act(2) sample_active(4)
    by auto
qed

section \<open>Snapshots\<close>

text \<open>
  C22. A bounded text snapshot never panics.  When it is granted, its text is within the byte limit and it is
  exactly the snapshot the unbounded call returns: the limits refuse a snapshot, they never truncate one.
\<close>

theorem bounded_snapshot_exact:
  assumes "term_inv d t"
  shows "\<exists>r. bounded_text_snapshot max_bytes max_lines max_line_bytes t = Some r \<and>
    (case r of Inl _ \<Rightarrow> True | Inr s \<Rightarrow> str_len (ts_text s) \<le> max_bytes \<and> term_text_snapshot t = Some s)"
proof -
  let ?a = "accumulator (Some \<lparr>sb_max_bytes = max_bytes, sb_max_lines = max_lines, sb_max_line_bytes = max_line_bytes\<rparr>)"
  obtain r where r: "snapshot_with_accumulator ?a t = Some r" using snapshot_safe [OF assms, of ?a] by (auto simp: ok_iff)
  have "str_len (ts_text s) \<le> max_bytes \<and> term_text_snapshot t = Some s" if s: "r = Inr s" for s
  proof -
    have "bytes_within max_bytes ?a" by (simp add: bytes_within_def accumulator_def str_len_def)
    then have "\<exists>a'. bytes_within max_bytes a' \<and> ts_text s = sa_text a'"
      using r s by (intro within.snapshot) auto
    then show ?thesis
      using unbound_snapshot [of ?a t s] r s by (auto simp: bytes_within_def term_text_snapshot_def unbound_def accumulator_def)
  qed
  then show ?thesis using r by (auto simp: bounded_text_snapshot_def split: sum.split)
qed

theorem bounded_snapshot_exact_witness:
  "\<exists>r. bounded_text_snapshot 10 5 8 sample_terminal = Some r \<and>
    (case r of Inl _ \<Rightarrow> True | Inr s \<Rightarrow> str_len (ts_text s) \<le> 10 \<and> term_text_snapshot sample_terminal = Some s)"
  by (rule bounded_snapshot_exact [OF sample_terminal_inv(2)])

definition no_line_feeds :: "terminal \<Rightarrow> bool" where
  "no_line_feeds t \<longleftrightarrow> (\<forall>l \<in> set (sb_lines (t_scrollback t)). \<forall>c \<in> set (l_cells l). 0x0a \<notin> set (c_text c)) \<and>
     (\<forall>c \<in> set (s_cells (b_screen (t_primary t))). 0x0a \<notin> set (c_text c)) \<and>
     (case active_buffer t of None \<Rightarrow> True | Some b \<Rightarrow> \<forall>c \<in> set (s_cells (b_screen b)). 0x0a \<notin> set (c_text c))"

lemma trailing_line: "last (split_on d xs) = [] \<Longrightarrow> length (split_on d xs) = 1 \<or> ends_with_char xs d"
  by (cases xs rule: rev_cases) (auto simp: ends_with_char_def split_on_append split: if_splits)

text \<open>
  When no cell holds a line feed, a granted snapshot has at most the allowed number of lines (at least
  one is always allowed; a final line feed ends the last line) and no line is longer than the allowed number
  of bytes.
\<close>

theorem bounded_snapshot_lines:
  assumes "bounded_text_snapshot max_bytes max_lines max_line_bytes t = Some (Inr s)" "no_line_feeds t"
  shows "length (split_on 0x0a (ts_text s)) \<le> max 1 max_lines + (if ends_with_char (ts_text s) 0x0a then 1 else 0) \<and>
    (\<forall>line \<in> set (split_on 0x0a (ts_text s)). str_len line \<le> max_line_bytes)"
proof -
  let ?a = "accumulator (Some \<lparr>sb_max_bytes = max_bytes, sb_max_lines = max_lines, sb_max_line_bytes = max_line_bytes\<rparr>)"
  have "lines_within max_lines max_line_bytes ?a" by (simp add: lines_within_def accumulator_def str_len_def)
  then obtain a' where a': "lines_within max_lines max_line_bytes a'" "ts_text s = sa_text a'"
    using lines.snapshot [of max_lines max_line_bytes ?a t s] assms by (auto simp: bounded_text_snapshot_def no_line_feeds_def split: option.splits)
  then show ?thesis
    using trailing_line [of "0x0a" "sa_text a'"] by (auto simp: lines_within_def Let_def split: if_splits)
qed

lemma sample_snapshot:
  "bounded_text_snapshot 10 5 8 sample_terminal =
     Some (Inr \<lparr>ts_text = [], ts_screen = Primary, ts_evicted_logical_lines = 0\<rparr>)"
proof -
  have t: "t_primary sample_terminal = sample_buffer" "t_modes sample_terminal = default_modes" "t_scrollback sample_terminal = scrollback_new 1024"
    by (simp_all add: sample_terminal_def with_scrollback_limit_def sample_buffer_new)
  show ?thesis
    by (simp add: bounded_text_snapshot_def snapshot_with_accumulator_def t scrollback_new_def default_modes_def sample_buffer_def home_def
        append_visible_screen_text_def occupied_row_count_def sample_screen_def sample_dims_def physical_row_def rd_def
        occupied_row_cells_def physical_row_start_def rd_range_def slice_def row_soft_wrapped_def accumulator_def)
qed

theorem bounded_snapshot_lines_witness:
  "\<exists>s. bounded_text_snapshot 10 5 8 sample_terminal = Some (Inr s) \<and> no_line_feeds sample_terminal \<and>
    length (split_on 0x0a (ts_text s)) \<le> max 1 5 + (if ends_with_char (ts_text s) 0x0a then 1 else 0)"
proof -
  have "no_line_feeds sample_terminal"
    using sample_active(1) by (simp add: no_line_feeds_def sample_terminal_def with_scrollback_limit_def sample_buffer_new
        scrollback_new_def sample_buffer_def sample_screen_def blank_cell_def active_buffer_def)
  then show ?thesis using bounded_snapshot_lines [OF sample_snapshot] sample_snapshot by blast
qed

end
