(* ===== verification/Parser_Props.thy ===== *)
theory Parser_Props
  imports Parser_Proofs Sample
begin

text \<open>The correctness statements about the escape-sequence parser.\<close>

text \<open>Which bytes change the action an OSC left for the terminal: only the end of an OSC string.\<close>

lemma csi_helpers_osc:
  "p_osc_action (clear_csi p) = p_osc_action p" "p_osc_action (snd (ignore_csi p)) = p_osc_action p"
  "p_osc_action (start_string p k) = p_osc_action p" "p_osc_action (snd (advance_escape p b)) = p_osc_action p"
  "p_osc_action (designate_charset p sl b) = p_osc_action p" "p_osc_action (abandon_string p) = p_osc_action p"
  "p_osc_action (advance_string_payload p k n bs) = p_osc_action p"
  by (simp_all add: clear_csi_def ignore_csi_def start_string_def advance_escape_def designate_charset_def
      abandon_string_def advance_string_payload_def Let_def split: charset_slot.split option.split)

lemma csi_steps_osc:
  "append_csi_digit p b = Some (x, p') \<Longrightarrow> p_osc_action p' = p_osc_action p"
  "append_csi_separator p s = Some (x, p') \<Longrightarrow> p_osc_action p' = p_osc_action p"
  "append_csi_intermediate p b = Some (x, p') \<Longrightarrow> p_osc_action p' = p_osc_action p"
  "complete_csi p b = Some (x, p') \<Longrightarrow> p_osc_action p' = p_osc_action p"
  "ignore_csi p = (x, p') \<Longrightarrow> p_osc_action p' = p_osc_action p"
  "advance_escape p b = (x, p') \<Longrightarrow> p_osc_action p' = p_osc_action p"
  using csi_helpers_osc(4) [of p b]
  by (auto simp: append_csi_digit_def append_csi_separator_def append_csi_intermediate_def complete_csi_def
      Let_def ignore_csi_def clear_csi_def split: if_splits bind_splits prod.splits)

lemma dispatch_osc: "advance_dispatch p b = Some (x, p') \<Longrightarrow> p_osc_action p' = p_osc_action p"
  by (auto simp: advance_dispatch_def advance_csi_entry_def advance_csi_param_def advance_csi_intermediate_def
      csi_helpers_osc dest: csi_steps_osc split: parser_state.splits if_splits)

definition pending_osc_ok :: "parser \<Rightarrow> bool" where
  "pending_osc_ok p \<longleftrightarrow> pred_option osc_bounded (p_osc_action p)"

lemma finish_string_osc: "pending_osc_ok p \<Longrightarrow> pending_osc_ok (snd (finish_string e p k t))"
  using parse_osc_bounded [of e "p_string_payload p" t]
  by (cases "parse_osc e (p_string_payload p) t") (auto simp: pending_osc_ok_def finish_string_def split: string_kind.split)

lemma advance_string_osc:
  assumes "pending_osc_ok p" "advance_string e p b = Some (x, p')"
  shows "pending_osc_ok p'"
proof -
  have f: "pending_osc_ok (snd (finish_string e (p\<lparr>p_state := Ground\<rparr>) k t))" for k t
    by (rule finish_string_osc) (use assms(1) in \<open>simp add: pending_osc_ok_def\<close>)
  show ?thesis
    using assms f
    by (auto simp: advance_string_def Let_def csi_helpers_osc pending_osc_ok_def
        dest!: csi_steps_osc(6) split: parser_state.splits if_splits) (metis snd_conv)+
qed

lemma advance_osc:
  assumes "pending_osc_ok p" "advance e p b = Some (x, p')"
  shows "pending_osc_ok p'"
proof (cases "p_osc_action p' = p_osc_action p")
  case True
  then show ?thesis using assms(1) by (simp add: pending_osc_ok_def)
next
  case False
  then have "advance_string e p b = Some (x, p')"
    using assms(2) dispatch_osc [of p b x p'] by (auto simp: advance_def csi_helpers_osc split: if_splits option.splits)
  then show ?thesis using advance_string_osc [OF assms(1)] by blast
qed

lemma parser_run_osc:
  "pending_osc_ok p \<Longrightarrow> parser_run e p bs = Some (ops, p') \<Longrightarrow> pending_osc_ok p'"
proof (induction bs arbitrary: p ops)
  case (Cons b bs)
  then obtain x q ops' where "advance e p b = Some (x, q)" "parser_run e q bs = Some (ops', p')"
    by (auto split: bind_splits)
  then show ?case using Cons.IH [of q] advance_osc [OF Cons.prems(1)] by blast
qed simp

text \<open>
  C12. The parser is total and bounded: on any byte sequence it never panics, gives one operation per byte,
  and ends in a state that recovery accepts, with at most 32 parameters and 2 intermediates collected and
  at most 4096 string bytes buffered.
\<close>

theorem parser_total:
  "\<exists>ops p. parser_run e parser_new bs = Some (ops, p) \<and> length ops = length bs \<and> parser_valid p \<and>
     cp_length (p_parameters p) \<le> MAX_CSI_PARAMETERS \<and> p_intermediate_length p \<le> MAX_CSI_INTERMEDIATES \<and>
     length (p_string_payload p) \<le> MAX_STRING_BYTES"
  using parser_run_ok [OF parser_new_ok, of bs e] parser_ok_valid
  by (fastforce simp: ok_iff parser_ok_def params_ok_def parser_bounds)

text \<open>
  C13. Printing and parsing of control sequences agree: from any state outside a string, \<open>ESC [\<close>, at
  most 32 decimal parameters below 65536 with semicolons, and a final byte yield no operation before the last byte, exactly
  the operation of that final byte with exactly those parameters, and a parser back in the ground state.
\<close>

theorem csi_print_parse:
  assumes "\<not> in_string (p_state p)" "length ns \<le> 32" "\<forall>n \<in> set ns. n < 65536" "0x40 \<le> f" "f \<le> 0x7e"
  shows "\<exists>ps. parser_run e p ([0x1b, 0x5b] @ print_params ns @ [f]) =
      Some (replicate (2 + length (print_params ns)) Ignored @ [csi_plain_op f ps], clear_csi (p\<lparr>p_state := Ground\<rparr>)) \<and>
    cp_length ps = length ns \<and>
    (\<forall>i. param_value ps i = (if i < length ns then Some (word_of_nat (ns ! i)) else None))"
  using csi_run [OF assms] params_of_value [OF assms(2,3)] by (intro exI [of _ "params_of ns"]) (simp add: params_of_def)

theorem csi_print_parse_witness:
  "\<exists>ps. parser_run sample_env parser_new ([0x1b, 0x5b] @ print_params [12, 40] @ [0x48]) =
      Some (replicate (2 + length (print_params [12, 40])) Ignored @ [csi_plain_op 0x48 ps],
            clear_csi (parser_new\<lparr>p_state := Ground\<rparr>)) \<and>
    cp_length ps = length [12, 40 :: nat] \<and>
    (\<forall>i. param_value ps i = (if i < length [12, 40 :: nat] then Some (word_of_nat ([12, 40] ! i)) else None))"
  by (rule csi_print_parse) (simp_all add: parser_new_def)

text \<open>
  Cancel and substitute end whatever the parser was in the middle of, a string included: no operation
  is produced, the parser is in the ground state with no parameters, and neither the character sets nor a
  pending action change.
\<close>

theorem cancel_recovers:
  assumes "b \<in> {0x18, 0x1a}"
  shows "\<exists>p'. advance e p b = Some (Ignored, p') \<and> is_ground p' \<and> params_empty (p_parameters p') \<and>
    p_intermediate_length p' = 0 \<and> \<not> p_private p' \<and> translate_printable p' = translate_printable p \<and>
    p_osc_action p' = p_osc_action p \<and> p_dcs_action p' = p_dcs_action p"
  using assms by (auto simp: advance_def is_ground_def clear_csi_def default_parameters_def params_empty_def
      translate_printable_def fun_eq_iff)

theorem cancel_recovers_witness:
  "\<exists>p'. advance sample_env (parser_new\<lparr>p_state := StringState Osc 7\<rparr>) 0x18 = Some (Ignored, p') \<and> is_ground p' \<and>
    params_empty (p_parameters p') \<and> p_intermediate_length p' = 0 \<and> \<not> p_private p' \<and>
    translate_printable p' = translate_printable (parser_new\<lparr>p_state := StringState Osc 7\<rparr>) \<and>
    p_osc_action p' = p_osc_action (parser_new\<lparr>p_state := StringState Osc 7\<rparr>) \<and>
    p_dcs_action p' = p_dcs_action (parser_new\<lparr>p_state := StringState Osc 7\<rparr>)"
  by (rule cancel_recovers) simp

text \<open>
  Whatever bytes arrived, an operating-system command handed to the terminal is bounded: a title has at
  most 256 characters and none is a control character, and a colour report answers between 1 and 64 queries.
\<close>

theorem osc_actions_bounded:
  assumes "parser_run e parser_new bs = Some (ops, p)" "fst (take_osc_action p) = Some action"
  shows "case action of
      SetTitle t \<Rightarrow> length t \<le> 256 \<and> (\<forall>c \<in> set t. \<not> is_control c)
    | SetHyperlink _ \<Rightarrow> True
    | ReportColors qs _ \<Rightarrow> 1 \<le> length qs \<and> length qs \<le> 64"
proof -
  have "pending_osc_ok p"
    by (rule parser_run_osc [OF _ assms(1)]) (simp add: pending_osc_ok_def parser_new_def)
  then show ?thesis
    using assms(2) by (auto simp: take_osc_action_def pending_osc_ok_def osc_bounded_def Suc_le_eq split: osc_action.splits)
qed

definition title_bytes :: "u8 list" where
  "title_bytes = [0x1b, 0x5d] @ ascii ''2;hi'' @ [0x07]"

theorem osc_actions_bounded_witness:
  "\<exists>ops p. parser_run sample_env parser_new title_bytes = Some (ops, p) \<and>
     fst (take_osc_action p) = Some (SetTitle (lit ''hi'')) \<and> length (lit ''hi'') \<le> 256"
proof -
  obtain ops p where r: "parser_run sample_env parser_new title_bytes = Some (ops, p)" "fst (take_osc_action p) = Some (SetTitle (lit ''hi''))"
  proof -
    have "map_option (\<lambda>(_, p). fst (take_osc_action p)) (parser_run sample_env parser_new title_bytes) = Some (Some (SetTitle (lit ''hi'')))"
      by (simp add: title_bytes_def ascii_def advance_def c0_operation_def advance_dispatch_def advance_escape_def
          start_string_def advance_string_def in_string_def parser_new_def finish_string_def advance_string_payload_def
          clear_csi_def Let_def checked_add_def usize_max_def MAX_STRING_BYTES_def take_osc_action_def escape_op_def)
         code_simp
    then show thesis using that by auto
  qed
  then show ?thesis using osc_actions_bounded [OF r] by auto
qed

end
