(* ===== verification/Report_Props.thy ===== *)
theory Report_Props
  imports Terminal_Props Parser_Props
begin

text \<open>
  Properties that span the parser and the terminal: what the terminal reports about itself, fed back
  as a control sequence, restores what was reported.
\<close>

section \<open>From bytes to operations\<close>

text \<open>The states between a control sequence's introducer and its final byte, and the ground state.\<close>

definition plain_state :: "parser_state \<Rightarrow> bool" where
  "plain_state s \<longleftrightarrow> s \<in> {Ground, CsiEntry, CsiParam, CsiIntermediate, CsiIgnore}"

definition same_actions :: "parser \<Rightarrow> parser \<Rightarrow> bool" where
  "same_actions p p' \<longleftrightarrow> p_osc_action p' = p_osc_action p \<and> p_dcs_action p' = p_dcs_action p"

lemma csi_steps_plain:
  "plain_state (p_state p) \<Longrightarrow> append_csi_digit p b = Some (x, p') \<Longrightarrow> plain_state (p_state p') \<and> same_actions p p'"
  "plain_state (p_state p) \<Longrightarrow> append_csi_separator p s = Some (x, p') \<Longrightarrow> plain_state (p_state p') \<and> same_actions p p'"
  "plain_state (p_state p) \<Longrightarrow> append_csi_intermediate p b = Some (x, p') \<Longrightarrow> plain_state (p_state p') \<and> same_actions p p'"
  "plain_state (p_state p) \<Longrightarrow> complete_csi p b = Some (x, p') \<Longrightarrow> plain_state (p_state p') \<and> same_actions p p'"
  "plain_state (p_state p) \<Longrightarrow> ignore_csi p = (x, p') \<Longrightarrow> plain_state (p_state p') \<and> same_actions p p'"
  by (auto simp: append_csi_digit_def append_csi_separator_def append_csi_intermediate_def complete_csi_def plain_state_def same_actions_def
      Let_def ignore_csi_def clear_csi_def split: if_splits bind_splits prod.splits)

lemma plain_step:
  assumes "plain_state (p_state p)" "b \<noteq> 0x1b" "advance e p b = Some (x, p')"
  shows "plain_state (p_state p') \<and> same_actions p p'"
proof (cases "advance_dispatch p b = Some (x, p')")
  case True
  then show ?thesis
    using assms(1) csi_steps_plain [OF assms(1)]
    by (auto simp: advance_dispatch_def advance_csi_entry_def advance_csi_param_def advance_csi_intermediate_def plain_state_def
        same_actions_def clear_csi_def split: parser_state.splits if_splits)
next
  case False
  then show ?thesis
    using assms by (auto simp: advance_def plain_state_def in_string_def same_actions_def clear_csi_def split: if_splits option.splits)
qed

definition idle :: "terminal \<Rightarrow> bool" where
  "idle t \<longleftrightarrow> \<not> utf8_pending (t_utf8 t) \<and> p_osc_action (t_parser t) = None \<and> p_dcs_action (t_parser t) = None"

lemma ingest_operation:
  assumes "idle t" "b < 0x80" "advance e (t_parser t) b = Some (x, p')" "same_actions (t_parser t) p'"
    "apply_op e x (t\<lparr>t_parser := p'\<rparr>) = Some t'" "t_parser t' = p'"
  shows "ingest_byte e b t = Some t'"
proof -
  have none: "p_osc_action p' = None" "p_dcs_action p' = None" using assms(1,4) by (auto simp: idle_def same_actions_def)
  then have "p'\<lparr>p_osc_action := None\<rparr> = p'" "p'\<lparr>p_dcs_action := None\<rparr> = p'" by simp_all
  moreover have "t'\<lparr>t_parser := p'\<rparr> = t'" using assms(6) by simp
  moreover have "(0x80 \<le> b) = False" using assms(2) by (auto simp flip: not_le)
  ultimately show ?thesis
    using assms(1,3-6) none by (simp add: ingest_byte_def ingest_step_def idle_def ingest_plain_def take_osc_action_def take_dcs_action_def
        apply_osc_action_def apply_dcs_action_def Let_def)
qed

lemma ingest_ignored:
  assumes "idle t" "b < 0x80" "advance e (t_parser t) b = Some (Ignored, p')" "same_actions (t_parser t) p'"
  shows "ingest_byte e b t = Some (t\<lparr>t_parser := p'\<rparr>)" "idle (t\<lparr>t_parser := p'\<rparr>)"
  by (rule ingest_operation [OF assms], use assms in \<open>simp_all add: apply_op_def keeps_anchor_def dispatch_def idle_def same_actions_def\<close>)

lemma ingest_parameters:
  "idle t \<Longrightarrow> plain_state (p_state (t_parser t)) \<Longrightarrow> \<forall>b \<in> set bs. b \<noteq> 0x1b \<and> b < 0x80 \<Longrightarrow>
   parser_run e (t_parser t) bs = Some (replicate n Ignored, p') \<Longrightarrow>
   foldM (ingest_byte e) bs t = Some (t\<lparr>t_parser := p'\<rparr>) \<and> idle (t\<lparr>t_parser := p'\<rparr>) \<and> plain_state (p_state p')"
proof (induction bs arbitrary: t n)
  case (Cons b bs)
  obtain x p1 ops where s: "advance e (t_parser t) b = Some (x, p1)" "parser_run e p1 bs = Some (ops, p')" "replicate n Ignored = x # ops"
    using Cons.prems(4) by (auto split: bind_splits prod.splits)
  then have x: "x = Ignored" "ops = replicate (n - 1) Ignored" by (cases n, auto)+
  have b: "b \<noteq> 0x1b" "b < 0x80" using Cons.prems(3) by auto
  note st = plain_step [OF Cons.prems(2) b(1) s(1)]
  note i = ingest_ignored [OF Cons.prems(1) b(2) s(1) [unfolded x(1)] conjunct2 [OF st]]
  show ?case using Cons.IH [OF i(2), of "n - 1"] st s(2) x(2) i(1) Cons.prems(3) by simp
qed (auto simp: idle_def)

text \<open>A control sequence reaches the terminal as its operation, and as nothing before its final byte.\<close>

lemma printed_bytes: "b \<in> set (decimal n) \<Longrightarrow> 0x30 \<le> b \<and> b \<le> 0x39"
proof (induction n rule: decimal.induct)
  case (1 n)
  have "n mod 10 < 10" by simp
  then show ?case using 1 digit_byte(1,2) [of "n mod 10"] digit_byte(1,2) [of n] by (auto simp: decimal.simps [of n] split: if_splits)
qed

lemma print_params_bytes: "b \<in> set (print_params ns) \<Longrightarrow> 0x30 \<le> b \<and> b \<le> 0x3b"
proof (induction ns rule: print_params.induct)
  case (2 n)
  then show ?case using printed_bytes [of b n] by (auto intro: order_trans)
next
  case (3 n m ns)
  then show ?case using printed_bytes [of b n] by (auto intro: order_trans)
qed simp

lemma ingest_csi:
  assumes "idle t" "\<not> in_string (p_state (t_parser t))" "length ns \<le> 32" "\<forall>n \<in> set ns. n < 65536" "0x40 \<le> f" "f \<le> 0x7e"
    "apply_op e (csi_plain_op f (params_of ns)) (t\<lparr>t_parser := clear_csi ((t_parser t)\<lparr>p_state := Ground\<rparr>)\<rparr>) = Some t'"
    "t_parser t' = clear_csi ((t_parser t)\<lparr>p_state := Ground\<rparr>)"
  shows "ingest e ([0x1b, 0x5b] @ print_params ns @ [f]) t = Some t'"
proof -
  let ?p = "t_parser t"
  let ?p1 = "clear_csi (?p\<lparr>p_state := Escape\<rparr>)"
  let ?p2 = "csi_at ?p CsiEntry [] 0"
  have a1: "advance e ?p 0x1b = Some (Ignored, ?p1)" using assms(2) by (simp add: advance_def)
  have a2: "advance e ?p1 0x5b = Some (Ignored, ?p2)" using csi_entry [OF assms(2), of e] a1 by (auto split: bind_splits)
  have s1: "same_actions ?p ?p1" "same_actions ?p1 ?p2" by (simp_all add: same_actions_def clear_csi_def csi_at_def)
  note i1 = ingest_ignored [OF assms(1) _ a1 s1(1)]
  have i2: "ingest_byte e 0x5b (t\<lparr>t_parser := ?p1\<rparr>) = Some (t\<lparr>t_parser := ?p2\<rparr>)" "idle (t\<lparr>t_parser := ?p2\<rparr>)"
    using ingest_ignored [of "t\<lparr>t_parser := ?p1\<rparr>" "0x5b" e ?p2] i1(2) a2 s1(2) by simp_all
  obtain s k where s: "s = CsiEntry \<or> s = CsiParam"
    and run: "parser_run e ?p2 (print_params ns) = Some (replicate (length (print_params ns)) Ignored, csi_at ?p s ns k)"
    using csi_params [OF assms(3,4)] by blast
  let ?p3 = "csi_at ?p s ns k"
  have bytes: "\<forall>b \<in> set (print_params ns). b \<noteq> 0x1b \<and> b < 0x80"
    using print_params_bytes by (fastforce simp: not_le [symmetric] dest: order_trans)
  have plain: "plain_state (p_state ?p2)" by (simp add: plain_state_def csi_at_def)
  have i3: "foldM (ingest_byte e) (print_params ns) (t\<lparr>t_parser := ?p2\<rparr>) = Some (t\<lparr>t_parser := ?p3\<rparr>)"
    "idle (t\<lparr>t_parser := ?p3\<rparr>)" "plain_state (p_state ?p3)"
    using ingest_parameters [of "t\<lparr>t_parser := ?p2\<rparr>" "print_params ns" e "length (print_params ns)" ?p3] i2(2) plain bytes run by simp_all
  note fin = csi_final [OF s assms(5,6), of e ?p ns k]
  have "f < 0x80" using assms(6) by (rule le_less_trans) simp
  moreover have "f \<noteq> 0x1b" using assms(5) by auto
  ultimately have i4: "ingest_byte e f (t\<lparr>t_parser := ?p3\<rparr>) = Some t'"
    using ingest_operation [of "t\<lparr>t_parser := ?p3\<rparr>" f e "csi_plain_op f (params_of ns)" _ t'] i3(2,3) fin plain_step [of ?p3 f e] assms(7,8)
    by simp
  show ?thesis using i1(1) i2(1) i3(1) i4 by (simp add: ingest_def foldM_append)
qed

section \<open>The cursor position report\<close>

lemma report_parameter:
  assumes "length ns \<le> 32" "\<forall>m \<in> set ns. m < 65536" "i < length ns" "0 < ns ! i"
  shows "parameter_or (params_of ns) i 1 = ns ! i"
proof -
  have "unat (word_of_nat (ns ! i) :: u16) = ns ! i" using assms(2,3) by simp
  then show ?thesis using assms by (auto simp: parameter_or_def params_of_value unat_eq_zero [symmetric] simp del: unat_word_of_nat_16)
qed

lemma clear_anchor_position:
  assumes "active_buffer t = Some b"
  shows "apply_op e (CursorPosition ps) t = cursor_position ps (set_active (b\<lparr>b_grapheme_anchor := None\<rparr>) t)"
  using assms by (simp add: apply_op_def keeps_anchor_def clear_grapheme_anchor_def with_active_def dispatch_def)

text \<open>Where the cursor must be for a report in origin mode to describe it: inside the margins.\<close>

definition reportable :: "terminal \<Rightarrow> buffer \<Rightarrow> bool" where
  "reportable t b \<longleftrightarrow> (origin_mode (t_modes t) \<longrightarrow>
     b_scroll_top b \<le> row (b_cursor b) \<and> row (b_cursor b) \<le> b_scroll_bottom b \<and>
     (case horizontal_margins t of None \<Rightarrow> False | Some sp \<Rightarrow> cs_left sp \<le> column (b_cursor b) \<and> column (b_cursor b) \<le> cs_right sp))"

lemma position_from_report:
  assumes "term_inv d t" "active_buffer t = Some b" "reportable t b" "cursor_report t = Some (r, c)" "r < 65536" "c < 65536"
  shows "\<exists>t'. cursor_position (params_of [r, c]) t = Some t' \<and> t_cursor t' = t_cursor t \<and> t_parser t' = t_parser t \<and>
    active_buffer t' = Some (b\<lparr>b_pending_wrap := False\<rparr>)"
proof -
  obtain b0 where "active_buffer t = Some b0" "buffer_core d b0" "t_cursor t = b_cursor b0" "t_dimensions t = d" "dims_ok d"
    using term_wf_active [OF assms(1)] by metis
  then have b: "buffer_core d b" "t_cursor t = b_cursor b" "t_dimensions t = d" "dims_ok d" using assms(2) by auto
  note core = buffer_coreD [OF b(1)]
  obtain sp where sp: "horizontal_margins t = Some sp" "cs_right sp < columns d" using margins_ok [OF assms(1)] by (auto simp: ok_iff span_ok_def)
  have small: "columns d \<le> 4194304" "rows d \<le> 4194304" using dims_le [OF b(4)] by auto
  have sat: "x < rows d \<or> x < columns d \<Longrightarrow> sat_add x 1 = x + 1" for x using small by (auto simp: sat_add_def usize_max_def)
  have pos: "0 < r" "0 < c" using assms(4) b(2) by (auto simp: cursor_report_def Let_def sat_add_def usize_max_def split: bind_splits if_splits)
  have par: "parameter_or (params_of [r, c]) 0 1 = r" "parameter_or (params_of [r, c]) 1 1 = c"
    using report_parameter [of "[r, c]" 0] report_parameter [of "[r, c]" 1] assms(5,6) pos by simp_all
  have row: "absolute_row (r - 1) t = Some (row (b_cursor b))"
    using assms(2-4) b(2,3) core(4,5,6) sat [of "row (b_cursor b) - b_scroll_top b"] sat [of "row (b_cursor b)"] small
    by (auto simp: absolute_row_def vertical_bounds_def cursor_report_def reportable_def Let_def sat_add_def usize_max_def split: bind_splits if_splits)
  have col: "absolute_column (c - 1) t = Some (column (b_cursor b))"
    using assms(2-4) b(2,3) core(3) sp small
    by (auto simp: absolute_column_def cursor_report_def reportable_def Let_def sat_add_def usize_max_def split: bind_splits if_splits)
  have buf: "(set_column (column (b_cursor b)) (set_row (row (b_cursor b)) b)) = b" by (simp add: set_column_def set_row_def)
  have "cursor_position (params_of [r, c]) t = Some (set_active (b\<lparr>b_pending_wrap := False\<rparr>) t)"
    using par pos row col buf assms(2) by (simp add: cursor_position_def with_active_def)
  moreover have "buffer_core d (b\<lparr>b_pending_wrap := False\<rparr>)" using b(1) by (simp add: buffer_core_def)
  ultimately show ?thesis
    using set_active_wf(2,3) [OF assms(1), of "b\<lparr>b_pending_wrap := False\<rparr>"] b(2) by (auto simp: set_active_def split: active_screen.split)
qed

text \<open>
  C5. A cursor position report describes the cursor: the reply to \<open>CSI 6 n\<close> is \<open>CSI r ; c R\<close>, and feeding
  \<open>CSI r ; c H\<close> back to the terminal puts the cursor exactly where it was, with and without origin mode and
  margins, touching nothing of the active buffer but the pending wrap and the open grapheme.  The statement
  goes through the decimal printer, the escape-sequence parser and the cursor addressing.
\<close>

theorem cursor_report_roundtrip:
  assumes "term_inv d t" "idle t" "\<not> in_string (p_state (t_parser t))" "active_buffer t = Some b" "reportable t b"
    "cursor_report t = Some (r, c)" "r < 65536" "c < 65536"
  shows "device_status (params_of [6]) e t = Some (reply e ([0x1b, 0x5b] @ print_params [r, c] @ [0x52]) t) \<and>
    (\<exists>t'. ingest e ([0x1b, 0x5b] @ print_params [r, c] @ [0x48]) t = Some t' \<and> t_cursor t' = t_cursor t \<and>
      active_buffer t' = Some (b\<lparr>b_grapheme_anchor := None, b_pending_wrap := False\<rparr>))"
proof
  show "device_status (params_of [6]) e t = Some (reply e ([0x1b, 0x5b] @ print_params [r, c] @ [0x52]) t)"
    using assms(6) params_of_value [of "[6]" 0] by (simp add: device_status_def esc_def ascii_def of_char_of)
  let ?q = "clear_csi ((t_parser t)\<lparr>p_state := Ground\<rparr>)"
  let ?t = "t\<lparr>t_parser := ?q\<rparr>" and ?b = "b\<lparr>b_grapheme_anchor := None\<rparr>"
  have q: "parser_ok ?q" using advance_ok [OF term_wf_parts(3) [OF assms(1)], of e "0x18"] by (simp add: advance_def)
  have t: "term_inv d ?t" "active_buffer ?t = Some b" "t_dimensions ?t = t_dimensions t" "t_cursor ?t = t_cursor t"
    using term_wf_parts(1) [OF assms(1) q] assms(4)
    by (simp_all add: active_buffer_def t_dimensions_def t_cursor_def split: active_screen.splits option.splits)
  let ?t1 = "set_active ?b ?t"
  have b: "buffer_core d b" "t_cursor t = b_cursor b" using term_wf_active [OF assms(1)] assms(4) by (metis option.inject)+
  have core: "buffer_core d ?b" "anchored d ?b" using b(1) by (simp_all add: buffer_core_def anchored_def)
  note w = set_active_wf [OF t(1) core(1)]
  have dm: "t_dimensions ?t1 = t_dimensions t" using w(4) t(1,3) term_wf_active [OF t(1)] by metis
  have margins: "horizontal_margins ?t1 = horizontal_margins t" using w(2) dm assms(4) by (simp add: horizontal_margins_def)
  have rep: "cursor_report ?t1 = Some (r, c)"
    using assms(4,6) margins w(2,3) b(2) by (cases "origin_mode (t_modes t)") (auto simp: cursor_report_def Let_def split: bind_splits)
  have inside: "reportable ?t1 ?b" using assms(5) margins by (auto simp: reportable_def split: option.splits)
  obtain t' where t': "cursor_position (params_of [r, c]) ?t1 = Some t'" "t_cursor t' = t_cursor ?t1" "t_parser t' = t_parser ?t1"
    "active_buffer t' = Some (?b\<lparr>b_pending_wrap := False\<rparr>)"
    using position_from_report [OF w(1) [where Q = "anchored d", OF core(2)] w(2) inside rep assms(7,8)] by blast
  have "ingest e ([0x1b, 0x5b] @ print_params [r, c] @ [0x48]) t = Some t'"
    by (rule ingest_csi [OF assms(2,3)])
       (use assms(7,8) t' clear_anchor_position [OF t(2), of e] in \<open>simp_all add: csi_plain_op_def set_active_def split: active_screen.split\<close>)
  then show "\<exists>t'. ingest e ([0x1b, 0x5b] @ print_params [r, c] @ [0x48]) t = Some t' \<and> t_cursor t' = t_cursor t \<and>
      active_buffer t' = Some (b\<lparr>b_grapheme_anchor := None, b_pending_wrap := False\<rparr>)"
    using t'(2,4) w(3) b(2) by auto
qed

theorem cursor_report_roundtrip_witness:
  "device_status (params_of [6]) sample_env sample_terminal =
      Some (reply sample_env ([0x1b, 0x5b] @ print_params [1, 1] @ [0x52]) sample_terminal) \<and>
    (\<exists>t'. ingest sample_env ([0x1b, 0x5b] @ print_params [1, 1] @ [0x48]) sample_terminal = Some t' \<and>
      t_cursor t' = t_cursor sample_terminal \<and>
      active_buffer t' = Some (sample_buffer\<lparr>b_grapheme_anchor := None, b_pending_wrap := False\<rparr>))"
proof -
  have t: "t_active_screen sample_terminal = Primary" "t_primary sample_terminal = sample_buffer" "t_utf8 sample_terminal = utf8_new"
    "t_parser sample_terminal = parser_new"
    by (simp_all add: sample_terminal_def with_scrollback_limit_def sample_buffer_new)
  have "idle sample_terminal" "\<not> in_string (p_state (t_parser sample_terminal))"
    using t by (simp_all add: idle_def utf8_pending_def utf8_new_def parser_new_def in_string_def)
  moreover have "reportable sample_terminal sample_buffer" using sample_active(2) by (simp add: reportable_def default_modes_def)
  moreover have "cursor_report sample_terminal = Some (1, 1)"
    using sample_active t by (simp add: cursor_report_def t_cursor_def default_modes_def horizontal_margins_def span_full_def span_new_def
        t_dimensions_def sample_buffer_def home_def sample_screen_def sample_dims_def sat_add_def usize_max_def)
  ultimately show ?thesis
    by (intro cursor_report_roundtrip [OF sample_terminal_inv(2) _ _ sample_active(1)]) simp_all
qed

end
