(* ===== verification/History_Props.thy ===== *)
theory History_Props
  imports Sample_Facts Machine History_Split
begin

text \<open>The correctness statements about the scrollback history, over its abstract view: the list of retained rows.\<close>

interpretation hl: bounded_log "push_row e" "\<lambda>r sb. push_fits e r sb \<and> (\<forall>c \<in> set (sr_cells r). cell_valid c)"
  "\<lambda>sb. sb_ok e sb \<and> sb_charged_bytes sb \<le> sb_limit_bytes sb \<and> sb_limit_bytes sb = limit \<and> vec_ok e"
  sb_view sb_content_row_origin
  "\<lambda>r a b. limit \<noteq> 0 \<longrightarrow> overflow_only e limit (sb_lines (with_row e r a)) (sb_view b)" for e limit
  by unfold_locales (rule ok_mono [OF push_row_ok], auto simp: pushed_def)

text \<open>No counter of the history overflows while these rows are pushed one after the other.\<close>

primrec rows_fit :: "env \<Rightarrow> screen_row list \<Rightarrow> scrollback \<Rightarrow> bool" where
  "rows_fit e [] sb \<longleftrightarrow> True"
| "rows_fit e (r # rs) sb \<longleftrightarrow> push_fits e r sb \<and> (\<forall>c \<in> set (sr_cells r). cell_valid c) \<and>
     (case push_row e r sb of None \<Rightarrow> True | Some sb' \<Rightarrow> rows_fit e rs sb')"

lemma rows_fit_all: "rows_fit e rs sb = hl.all_fit e rs sb"
  by (induction rs arbitrary: sb) (auto split: option.split)

text \<open>A history of one line of three cells, wrapped at two columns.\<close>

definition sample_line :: logical_line where
  "sample_line = \<lparr>l_id = 0, l_cells = replicate 3 (blank_cell sample_env), l_cell_capacity = 3, l_row_ends = [2, 3],
     l_row_end_capacity = 2, l_physical_rows = 2, l_hard_break = True, l_charged_bytes = 272, l_cell_owned_bytes = 0,
     l_trimmed_offset = 0\<rparr>"

definition sample_history :: scrollback where
  "sample_history = (scrollback_new 1024)\<lparr>sb_lines := [sample_line], sb_line_row_starts := [0], sb_screen_row_origin := 2,
     sb_charged_bytes := 272, sb_next_id := 1\<rparr>"

lemma sample_history_ok: "sb_ok sample_env sample_history"
  using blank_valid [OF sample_caps_ok]
  by (simp add: sb_ok_def sample_history_def scrollback_new_def sample_line_def line_ok_def line_fine_def line_shape_def
      boundary_def compact_line_charge_def sample_env_def sat_add_def sat_mul_def usize_max_def)

lemma push_rows_view:
  assumes "sb_ok e sb" "sb_charged_bytes sb \<le> sb_limit_bytes sb" "vec_ok e" "rows_fit e rs sb"
  shows "\<exists>sb' n. push_rows e rs sb = Some sb' \<and> n \<le> length (sb_view sb) + length rs \<and>
    sb_view sb' = drop n (sb_view sb @ rs) \<and> sb_content_row_origin sb' = sb_content_row_origin sb + n \<and>
    sb_ok e sb' \<and> sb_limit_bytes sb' = sb_limit_bytes sb \<and> sb_charged_bytes sb' \<le> sb_limit_bytes sb"
  using hl.push_all_view [of e sb "sb_limit_bytes sb" rs] assms
  by (auto simp: rows_fit_all push_rows_def ok_iff)

text \<open>
  C10. The history is a log that forgets its oldest rows, and only for its byte limit.  After any rows are pushed, what
  it holds is the old content followed by those rows, less some oldest rows; it is well formed, its charged bytes are
  within the limit, and the number of its first row has grown by exactly the rows forgotten, so row numbers stay
  stable.  Pushing never panics.  And at every single push (unless the limit is zero, which keeps nothing) complete
  lines go only while all that is left, the new row included, is charged more than the limit; beyond that only an
  unfinished line that alone exceeds the limit loses oldest rows, where vectors shrink exactly no more than bring it
  down to half the limit.
\<close>

theorem history_keeps_newest_rows:
  assumes "sb_ok e sb" "sb_charged_bytes sb \<le> sb_limit_bytes sb" "vec_ok e" "rows_fit e rs sb"
  shows "(\<exists>sb' n. push_rows e rs sb = Some sb' \<and> n \<le> length (sb_view sb) + length rs \<and>
      sb_view sb' = drop n (sb_view sb @ rs) \<and> sb_content_row_origin sb' = sb_content_row_origin sb + n \<and>
      sb_ok e sb' \<and> sb_limit_bytes sb' = sb_limit_bytes sb \<and> sb_charged_bytes sb' \<le> sb_limit_bytes sb) \<and>
    (sb_limit_bytes sb \<noteq> 0 \<longrightarrow> (\<forall>i < length rs. \<exists>a b. push_rows e (take i rs) sb = Some a \<and> push_row e (rs ! i) a = Some b \<and>
      overflow_only e (sb_limit_bytes sb) (sb_lines (with_row e (rs ! i) a)) (sb_view b)))"
proof -
  have "\<exists>a b. push_rows e (take i rs) sb = Some a \<and> push_row e (rs ! i) a = Some b \<and>
      overflow_only e (sb_limit_bytes sb) (sb_lines (with_row e (rs ! i) a)) (sb_view b)" if "sb_limit_bytes sb \<noteq> 0" "i < length rs" for i
    using hl.push_all_needed [of e sb "sb_limit_bytes sb" rs i] that assms by (auto simp: rows_fit_all push_rows_def)
  then show ?thesis using push_rows_view [OF assms] by blast
qed

definition sample_row :: screen_row where
  "sample_row = \<lparr>sr_cells = [], sr_soft_wrapped = False\<rparr>"

lemma sample_rows_fit: "rows_fit sample_env [sample_row] (scrollback_new 1024)"
proof -
  have "push_fits sample_env sample_row (scrollback_new 1024)"
    by (simp add: push_fits_def scrollback_new_def open_line_def append_row_def new_line_def sample_row_def recalculate_charge_def
        compact_line_charge_def sample_env_def usize_max_def sat_add_def sat_mul_def Let_def owned_sum_def)
  then show ?thesis by (simp add: sample_row_def split: option.split)
qed

theorem history_keeps_newest_rows_witness:
  "\<exists>sb'. push_rows sample_env [sample_row] (scrollback_new 1024) = Some sb' \<and> sb_view sb' = [sample_row] \<and> sb_charged_bytes sb' \<le> 1024"
proof -
  let ?new = "scrollback_new 1024"
  have "sb_lines (with_row sample_env sample_row ?new) = [shrink_line sample_env (append_row sample_env sample_row (new_line sample_env 0 0))]"
    by (simp add: with_row_def open_line_def scrollback_new_def Let_def) (simp add: sample_row_def)
  moreover have "l_charged_bytes (shrink_line sample_env (append_row sample_env sample_row (new_line sample_env 0 0))) \<le> 1024"
    by (simp add: append_row_def shrink_line_def new_line_def sample_row_def compact_line_charge_def sample_env_def usize_max_def sat_add_def
        sat_mul_def Let_def owned_sum_def)
  ultimately have fit: "charge_total (sb_lines (with_row sample_env sample_row ?new)) \<le> 1024" by simp
  have all: "view (sb_lines (with_row sample_env sample_row ?new)) = [sample_row]"
    using with_row_ok(2) [OF scrollback_new_ok sample_vec_ok, of sample_row 1024] sample_rows_fit
    by (simp add: sb_view_def scrollback_new_def)
  have keeps: "overflow_only sample_env 1024 ls kept \<Longrightarrow> charge_total ls \<le> 1024 \<Longrightarrow> kept = view ls" for ls kept
  proof -
    assume a: "overflow_only sample_env 1024 ls kept" "charge_total ls \<le> 1024"
    then obtain k where k: "\<forall>j < k. 1024 < charge_total (drop j ls)" "kept = view (drop k ls) \<or>
        (\<exists>l n. drop k ls = [l] \<and> 1024 < l_charged_bytes l)" by (auto simp: overflow_only_def)
    have "k = 0" using k(1) a(2) by (cases k) auto
    then show ?thesis using k(2) a(2) by auto
  qed
  have l: "sb_limit_bytes ?new = 1024" "sb_charged_bytes ?new \<le> sb_limit_bytes ?new" by (simp_all add: scrollback_new_def)
  note p = history_keeps_newest_rows [OF scrollback_new_ok l(2) sample_vec_ok sample_rows_fit, unfolded l(1)]
  obtain sb' where sb': "push_rows sample_env [sample_row] ?new = Some sb'" "sb_charged_bytes sb' \<le> 1024" using p by blast
  obtain a b where "push_rows sample_env [] ?new = Some a" "push_row sample_env sample_row a = Some b"
      "overflow_only sample_env 1024 (sb_lines (with_row sample_env sample_row a)) (sb_view b)"
    using conjunct2 [OF p, rule_format, of 0] by (auto simp del: push_rows_def)
  then have "push_rows sample_env [sample_row] ?new = Some b" "sb_view b = [sample_row]" using keeps [OF _ fit] all by (simp_all add: push_rows_def)
  then show ?thesis using sb' by simp
qed

text \<open>
  Lowering (or raising) the byte limit forgets just enough oldest rows: the rest is unchanged, the charge
  is within the new limit, and the first row number advances by the rows forgotten.
\<close>

theorem limit_change_drops_oldest:
  assumes "sb_ok e sb" "vec_ok e"
  shows "\<exists>sb' n. set_limit_bytes e limit sb = Some sb' \<and> sb_ok e sb' \<and> sb_view sb' = drop n (sb_view sb) \<and>
    sb_content_row_origin sb' = sb_content_row_origin sb + n \<and> n \<le> length (sb_view sb) \<and>
    sb_screen_row_origin sb' = sb_screen_row_origin sb \<and> sb_charged_bytes sb' \<le> limit"
proof -
  have "sb_ok e (sb\<lparr>sb_limit_bytes := limit\<rparr>)" using assms(1) by (simp add: sb_ok_def)
  from enforce_limit_ok [OF this assms(2)] show ?thesis
    by (fastforce simp: set_limit_bytes_def ok_iff dropped_def sb_view_def)
qed

theorem limit_change_drops_oldest_witness:
  "\<exists>sb' n. set_limit_bytes sample_env 10 sample_history = Some sb' \<and> sb_ok sample_env sb' \<and>
    sb_view sb' = drop n (sb_view sample_history) \<and>
    sb_content_row_origin sb' = sb_content_row_origin sample_history + n \<and> n \<le> length (sb_view sample_history) \<and>
    sb_screen_row_origin sb' = sb_screen_row_origin sample_history \<and> sb_charged_bytes sb' \<le> 10"
  by (rule limit_change_drops_oldest [OF sample_history_ok sample_vec_ok])

text \<open>
  Row lookups agree with the abstract history: the binary search over the lines' first rows and the row
  bounds inside a line return exactly the cells and the soft-wrap flag of that retained row, and nothing
  past the end.
\<close>

theorem row_lookup_reads_history:
  assumes "sb_ok e sb" "sb_content_row_origin sb + r \<le> usize_max"
  shows "physical_row_cells sb r = Some (map_option sr_cells (rd (sb_view sb) r)) \<and>
    physical_row_soft_wrapped sb r = Some (map_option sr_soft_wrapped (rd (sb_view sb) r))"
  using physical_row_cells_ok [OF assms] by blast

theorem row_lookup_reads_history_witness:
  "physical_row_cells sample_history 1 = Some (map_option sr_cells (rd (sb_view sample_history) 1)) \<and>
    physical_row_soft_wrapped sample_history 1 = Some (map_option sr_soft_wrapped (rd (sb_view sample_history) 1))"
  by (rule row_lookup_reads_history [OF sample_history_ok]) (simp add: sample_history_def scrollback_new_def usize_max_def)

text \<open>
  C17. Reflowing the history to another width keeps every logical line's cells and their order, puts at most
  the new width into a row, never separates the two cells of a wide character, and leaves the history well
  formed.
\<close>

theorem reflow_preserves_content:
  assumes "sb_ok e sb" "vec_ok e" "2 \<le> cols" "reflow_fits e cols sb"
  shows "sb_ok e (sb_reflow e cols sb) \<and>
    map (\<lambda>l. concat (map sr_cells (line_view l))) (sb_lines (sb_reflow e cols sb)) = map l_cells (sb_lines sb) \<and>
    map l_id (sb_lines (sb_reflow e cols sb)) = map l_id (sb_lines sb) \<and>
    (\<forall>row \<in> set (sb_view (sb_reflow e cols sb)). length (sr_cells row) \<le> cols) \<and>
    (\<forall>l \<in> set (sb_lines (sb_reflow e cols sb)). \<forall>x \<in> set (l_row_ends l). 0 < x \<and> x < length (l_cells l) \<longrightarrow>
       \<not> (c_width (l_cells l ! (x - 1)) = Double \<and> c_width (l_cells l ! x) = Continuation))"
proof -
  note r = sb_reflow_ok [OF assms]
  note rows = reflow_line_rows [OF assms(3)]
  have ends: "\<not> (c_width (l_cells l ! (x - 1)) = Double \<and> c_width (l_cells l ! x) = Continuation)"
    if "x \<in> set (reflow_ends cols (l_cells l))" "0 < x" "x < length (l_cells l)" for l x
    using reflow_ends_cuts(2) [OF assms(3), of "l_cells l"] that unit_start_not_inside [of "l_cells l" x] by auto
  have ends': "\<forall>l \<in> set (map (line_reflow e cols) (sb_lines sb)). \<forall>x \<in> set (l_row_ends l). 0 < x \<and> x < length (l_cells l) \<longrightarrow>
       \<not> (c_width (l_cells l ! (x - 1)) = Double \<and> c_width (l_cells l ! x) = Continuation)"
    using ends by (simp del: One_nat_def) blast
  show ?thesis
    unfolding r(2) sb_view_def view_def using r(1) rows by (intro conjI ends') (auto simp: comp_def)
qed

lemma sample_reflow_ends: "reflow_ends 3 (replicate 3 (blank_cell e)) = [3]"
  by (simp add: reflow_ends_def reflow_loop.simps unit_cells_def blank_cell_def numeral_3_eq_3 rd_def)

lemma sample_reflow_fits: "reflow_fits sample_env 3 sample_history"
  by (simp add: reflow_fits_def sample_history_def scrollback_new_def sample_line_def line_reflow_def sample_reflow_ends)
     (simp add: compact_line_charge_def sample_env_def sat_add_def sat_mul_def usize_max_def pushed_capacity_def)

theorem reflow_preserves_content_witness:
  "sb_ok sample_env (sb_reflow sample_env 3 sample_history) \<and>
    map (\<lambda>l. concat (map sr_cells (line_view l))) (sb_lines (sb_reflow sample_env 3 sample_history)) =
      map l_cells (sb_lines sample_history) \<and>
    map l_id (sb_lines (sb_reflow sample_env 3 sample_history)) = map l_id (sb_lines sample_history)"
  using reflow_preserves_content [OF sample_history_ok sample_vec_ok _ sample_reflow_fits] by simp

text \<open>
  C18. Selections and search results survive a reflow: an anchor taken at a cell of the history and resolved
  after the history has been rewrapped to any width points at a row and column that hold the same cell.
\<close>

theorem anchors_survive_reflow:
  assumes "sb_ok e sb" "vec_ok e" "2 \<le> cols" "reflow_fits e cols sb"
    "r < length (sb_view sb)" "col < length (sr_cells (sb_view sb ! r))"
  shows "\<exists>a r' col'. line_and_offset_at sb r col = Some (Some a) \<and>
     resolve_anchor (sb_reflow e cols sb) a = Some (Some (col', r')) \<and>
     r' < length (sb_view (sb_reflow e cols sb)) \<and>
     col' < length (sr_cells (sb_view (sb_reflow e cols sb) ! r')) \<and>
     sr_cells (sb_view (sb_reflow e cols sb) ! r') ! col' = sr_cells (sb_view sb ! r) ! col"
  by (rule anchor_reflow [OF assms])

theorem anchors_survive_reflow_witness:
  "\<exists>a r' col'. line_and_offset_at sample_history 1 0 = Some (Some a) \<and>
     resolve_anchor (sb_reflow sample_env 3 sample_history) a = Some (Some (col', r')) \<and>
     r' < length (sb_view (sb_reflow sample_env 3 sample_history)) \<and>
     col' < length (sr_cells (sb_view (sb_reflow sample_env 3 sample_history) ! r')) \<and>
     sr_cells (sb_view (sb_reflow sample_env 3 sample_history) ! r') ! col' = sr_cells (sb_view sample_history ! 1) ! 0"
  by (rule anchors_survive_reflow [OF sample_history_ok sample_vec_ok _ sample_reflow_fits])
     (simp_all add: sample_history_def sb_view_def line_view_def sample_line_def line_row_def boundary_def)

text \<open>
  Taking the newest \<open>n\<close> rows back out of the history returns exactly those rows in order, and what stays
  behind is the rest, less possibly some oldest rows, well formed and within the limit.
\<close>

theorem tail_split_exact:
  assumes "sb_ok e sb" "vec_ok e" "sb_charged_bytes sb \<le> usize_max"
  shows "\<exists>rs sb' k. split_off_tail e n sb = Some (rs, sb') \<and> rs = drop (length (sb_view sb) - n) (sb_view sb) \<and>
    sb_ok e sb' \<and> sb_charged_bytes sb' \<le> sb_limit_bytes sb \<and>
    sb_view sb' = drop k (take (length (sb_view sb) - n) (sb_view sb)) \<and>
    sb_content_row_origin sb' = sb_content_row_origin sb + k"
  using split_off_tail_ok [OF assms, of n] by (auto simp: ok_iff)

theorem tail_split_exact_witness:
  "\<exists>rs sb' k. split_off_tail sample_env 1 sample_history = Some (rs, sb') \<and>
    rs = drop (length (sb_view sample_history) - 1) (sb_view sample_history) \<and>
    sb_ok sample_env sb' \<and> sb_charged_bytes sb' \<le> sb_limit_bytes sample_history \<and>
    sb_view sb' = drop k (take (length (sb_view sample_history) - 1) (sb_view sample_history)) \<and>
    sb_content_row_origin sb' = sb_content_row_origin sample_history + k"
  by (rule tail_split_exact [OF sample_history_ok sample_vec_ok]) (simp add: sample_history_def usize_max_def)

text \<open>
  When the byte limit is smaller than one line's fixed cost, a soft-wrapped row is trimmed away completely,
  but the marker of the open oversized line stays.  The history that results has no lines and yet an
  active oversized line, which recovery validation refuses: a snapshot of such a terminal cannot be restored.
\<close>

theorem exhausted_history_is_unrecoverable:
  assumes "vec_ok e" "0 < limit" "limit < size_line e" "push_fits e r (scrollback_new limit)"
    "sr_soft_wrapped r" "\<forall>c \<in> set (sr_cells r). cell_valid c"
  shows "\<exists>sb'. push_row e r (scrollback_new limit) = Some sb' \<and> sb_lines sb' = [] \<and>
    sb_active_oversize_line sb' \<noteq> None \<and> \<not> scrollback_valid e cols sb'"
proof -
  let ?l = "append_row e r (new_line e 0 0)" and ?l1 = "shrink_line e (append_row e r (new_line e 0 0))"
  have fits: "size_line e + l_charged_bytes ?l \<le> usize_max"
    using assms(4) by (simp add: push_fits_def scrollback_new_def open_line_def)
  have cost: "size_line e \<le> compact_line_charge e a b c" for a b c
    using fits by (auto simp: compact_line_charge_def sat_add_def)
  have new: "line_fine e (new_line e 0 0)" "l_physical_rows (new_line e 0 0) = 0"
    using fits by (simp_all add: new_line_def line_fine_def line_shape_def boundary_def compact_line_charge_def sat_add_def sat_mul_def)
  note l1 = shrink_line_ok [OF append_row_fine [OF new(1) assms(1,6)] assms(1)]
  have fine: "line_fine e ?l1" "l_physical_rows ?l1 = 1" "\<not> l_hard_break ?l1"
    using l1(1) new(2) assms(5) by (auto simp: line_ok_def shrink_line_def append_row_def Let_def)
  obtain l2 charged n where t: "trim_front e (limit div 2) ?l1 (l_charged_bytes ?l1) 0 = Some (l2, charged, n)"
    "trimmed e n ?l1 l2" "l_charged_bytes l2 \<le> limit div 2 \<or> l_physical_rows l2 = 0"
    using trim_front_trimmed [OF fine(1) assms(1), of 0 "l_charged_bytes ?l1" "limit div 2"] fine(2) by (auto simp: ok_iff usize_max_def)
  have "size_line e \<le> l_charged_bytes l2" using t(2) cost by (simp add: trimmed_def line_fine_def)
  then have gone: "l_physical_rows l2 = 0" "n = 1" using t(2,3) assms(3) fine(2) by (auto simp: trimmed_def)
  have big: "limit < l_charged_bytes ?l1" "limit < l_charged_bytes ?l"
    using fine(1) cost assms(3) append_row_fine [OF new(1) assms(1,6)]
    by (metis le_trans line_fine_def line_ok_def not_le)+
  have "\<exists>sb'. push_row e r (scrollback_new limit) = Some sb' \<and> sb_lines sb' = [] \<and> sb_active_oversize_line sb' \<noteq> None"
    using assms(2,5) big fits l1(3) t(1) gone fine(3)
    by (simp add: push_row_def scrollback_new_def open_line_def Let_def enforce_limit_def evict_complete_lines_def sat_add_def new_line_def)
  then show ?thesis by (auto simp: scrollback_valid_def)
qed

theorem exhausted_history_is_unrecoverable_witness:
  "\<exists>sb'. push_row sample_env \<lparr>sr_cells = [], sr_soft_wrapped = True\<rparr> (scrollback_new 1) = Some sb' \<and> sb_lines sb' = [] \<and>
    sb_active_oversize_line sb' \<noteq> None \<and> \<not> scrollback_valid sample_env 80 sb'"
  by (rule exhausted_history_is_unrecoverable [OF sample_vec_ok])
     (simp_all add: push_fits_def scrollback_new_def open_line_def append_row_def new_line_def recalculate_charge_def
        compact_line_charge_def sample_env_def usize_max_def sat_add_def sat_mul_def Let_def owned_sum_def)

end
