(* ===== verification/Screen_Props.thy ===== *)
theory Screen_Props
  imports Sample_Facts Machine
begin

text \<open>The correctness statements about the screen: the ring buffer, its operations and their repairs.\<close>

interpretation sm: machine "screen_do e" "screen_op_ok d" "\<lambda>s. screen_valid s \<and> s_dimensions s = d \<and> caps_ok e" for e d
  by unfold_locales (use screen_do_valid in \<open>fastforce simp: ok_iff valid_like_def\<close>)

text \<open>
  C4. Any sequence of the screen operations that change cells, other than the fills that spare protected cells (those
  can leave a wrong occupied extent), with the arguments the terminal passes, runs without a panic (no index, slice or subtraction fails) and leaves a screen that recovery
  validation accepts: sizes agree, every row's occupied extent is exact, every cell's text is bounded, and
  no half of a wide character stands without its other half.
\<close>

theorem screen_operations_keep_valid:
  assumes "screen_valid s" "caps_ok e" "list_all (screen_op_ok (s_dimensions s)) operations"
  shows "\<exists>s'. foldM (screen_do e) operations s = Some s' \<and> screen_valid s' \<and> s_dimensions s' = s_dimensions s"
  using sm.run_inv [of s "s_dimensions s" e operations] assms by (auto simp: ok_iff)

theorem screen_operations_keep_valid_witness:
  "\<exists>s'. foldM (screen_do sample_env)
      [ReplaceCluster 0 0 ((blank_cell sample_env)\<lparr>c_width := Double\<rparr>), InsertCharacters 1 0 1 (blank_cell sample_env) (span_new 0 1)]
      sample_screen = Some s' \<and> screen_valid s' \<and> s_dimensions s' = s_dimensions sample_screen"
  by (rule screen_operations_keep_valid [OF sample_screen_valid sample_caps_ok])
     (use blank_valid [OF sample_caps_ok] in \<open>simp add: sample_screen_inv(2) sample_dims_def fill_ok_def cell_valid_def blank_cell_def\<close>)

lemma scroll_rotation:
  assumes "screen_inv s" "span_is_full sp (s_columns s)"
  shows "\<exists>s'. scroll_up e 0 (s_rows s - 1) count c sp s = Some (map row_content (take count (grid s)), s') \<and> shape s' \<and>
    s_dimensions s' = s_dimensions s \<and>
    grid s' = map (\<lambda>g. g\<lparr>gr_dirty := True\<rparr>) (drop count (grid s) @ map (row_fill c) (take count (grid s)))"
proof -
  let ?n = "min count (s_rows s)"
  obtain s' where s': "scroll_up e 0 (s_rows s - 1) count c sp s = Some (map (row_content \<circ> get_row s) [0..<?n], s')"
    "shape s'" "s_dimensions s' = s_dimensions s"
    "\<forall>i < s_rows s. get_row s' i =
         (if i + ?n < s_rows s then get_row s (i + ?n) else row_fill c (get_row s (i + ?n - s_rows s)))\<lparr>gr_dirty := True\<rparr>"
    using scroll_up_rotates [OF screen_invD(1) [OF assms(1)] assms(2) refl screen_invD(3) [OF assms(1)], where e = e and count = count and c = c]
    by (auto simp: ok_iff)
  have t: "take count (grid s) = map (get_row s) [0..<?n]" 
    by (cases "count \<le> s_rows s") (simp_all add: grid_def take_map min_def)
  let ?G = "map (\<lambda>g. g\<lparr>gr_dirty := True\<rparr>) (drop count (grid s) @ map (row_fill c) (take count (grid s)))"
  have "grid s' ! i = ?G ! i" if i: "i < s_rows s" for i
  proof (cases "i + ?n < s_rows s")
    case True
    then have "count < s_rows s" "i < s_rows s - count" by (auto simp: min_def split: if_splits)
    then show ?thesis using True s'(3,4) i by (simp add: nth_append add.commute)
  next
    case False
    then have j: "i + ?n - s_rows s < ?n" "\<not> i < s_rows s - count" "i - (s_rows s - count) = i + ?n - s_rows s"
      using i by (auto simp: min_def split: if_splits)
    then have "i + ?n - s_rows s < length (take count (grid s))" "i + ?n - s_rows s < s_rows s" by (auto simp: min_def)
    then show ?thesis using False s'(3,4) i j by (simp add: nth_append)
  qed
  then have g: "grid s' = ?G" using s'(3) by (intro nth_equalityI) (auto simp: min_def)
  have "map row_content (take count (grid s)) = map (row_content \<circ> get_row s) [0..<?n]" unfolding t by simp
  then show ?thesis using s'(1-3) g by auto
qed

text \<open>
  Scrolling the whole screen only moves the ring's origin, yet it is exactly a rotation of the logical
  rows: the first \<open>n\<close> rows come back as history rows trimmed to their occupied extent, the others move up
  by \<open>n\<close>, the rows at the bottom are the recycled ones overwritten with the fill cell, and every row is dirty.
\<close>

theorem full_scroll_rotates_rows:
  assumes "screen_inv s" "span_is_full sp (s_columns s)"
  shows "\<exists>s'. scroll_up e 0 (s_rows s - 1) count c sp s = Some (map row_content (take count (grid s)), s') \<and> shape s' \<and>
    s_dimensions s' = s_dimensions s \<and>
    grid s' = map (\<lambda>g. g\<lparr>gr_dirty := True\<rparr>) (drop count (grid s) @ map (row_fill c) (take count (grid s)))"
  by (rule scroll_rotation [OF assms])

theorem full_scroll_rotates_rows_witness:
  "\<exists>s'. scroll_up sample_env 0 (s_rows sample_screen - 1) 1 (blank_cell sample_env) (span_new 0 1) sample_screen =
      Some (map row_content (take 1 (grid sample_screen)), s') \<and> shape s' \<and> s_dimensions s' = s_dimensions sample_screen \<and>
    grid s' = map (\<lambda>g. g\<lparr>gr_dirty := True\<rparr>) (drop 1 (grid sample_screen) @ map (row_fill (blank_cell sample_env)) (take 1 (grid sample_screen)))"
  by (rule full_scroll_rotates_rows [OF sample_screen_inv(1)]) (simp add: span_is_full_def span_new_def sample_screen_inv(2) sample_dims_def)

text \<open>
  Line operations in a scroll region move rows only inside the region and only inside the column
  margins.  Deleting \<open>n\<close> lines brings the row \<open>n\<close> below to each row that has one and fills the rest;
  inserting moves rows down the same way; rows outside the region are untouched, and exactly the rows of
  the region become dirty.
\<close>

theorem line_operations_shift_region:
  assumes "screen_inv s" "span_ok (s_dimensions s) sp" "t \<le> b" "b < s_rows s"
  shows "\<exists>s1 s2. delete_lines e t b count c sp s = Some s1 \<and> insert_lines e t b count c sp s = Some s2 \<and>
    grid s1 = map (\<lambda>i. dirty_range t b i (region_up s e sp c (min count (b - t + 1)) t b i (grid s ! i))) [0..<s_rows s] \<and>
    grid s2 = map (\<lambda>i. dirty_range t b i (region_down s e sp c (min count (b - t + 1)) t b i (grid s ! i))) [0..<s_rows s]"
  using line_ops_local(1,2) [OF screen_invD(1) [OF assms(1)] assms(2-4) refl, of e c count]
  by (fastforce simp: ok_iff local_step_def grid_def)

theorem line_operations_shift_region_witness:
  "\<exists>s1 s2. delete_lines sample_env 0 0 1 (blank_cell sample_env) (span_new 0 1) sample_screen = Some s1 \<and>
    insert_lines sample_env 0 0 1 (blank_cell sample_env) (span_new 0 1) sample_screen = Some s2 \<and>
    grid s1 = map (\<lambda>i. dirty_range 0 0 i (region_up sample_screen sample_env (span_new 0 1) (blank_cell sample_env)
        (min 1 (0 - 0 + 1)) 0 0 i (grid sample_screen ! i))) [0..<s_rows sample_screen] \<and>
    grid s2 = map (\<lambda>i. dirty_range 0 0 i (region_down sample_screen sample_env (span_new 0 1) (blank_cell sample_env)
        (min 1 (0 - 0 + 1)) 0 0 i (grid sample_screen ! i))) [0..<s_rows sample_screen]"
  by (rule line_operations_shift_region [OF sample_screen_inv(1)])
     (simp_all add: span_ok_def span_new_def sample_screen_inv(2) sample_dims_def)

text \<open>
  Writing a cluster takes a shortcut for the row's occupied extent when it lies at or past the old
  extent.  The shortcut is exact: the row that results is the one a full recount of the occupied cells
  gives, after the cluster's cells are set and both edges repaired.
\<close>

theorem cluster_extent_shortcut_exact:
  assumes "screen_inv s" "r < s_rows s" "col < s_columns s" "c_width c = Single \<or> c_width c = Double \<and> col + 1 < s_columns s"
  shows "\<exists>s'. replace_cluster e col r c s = Some s' \<and>
    (let w = width_columns (c_width c);
         g1 = row_set col c True (get_row s r);
         g2 = (if w = 2 then row_set (col + 1) (continuation_of e c) True g1 else g1)\<lparr>gr_dirty := True\<rparr>
     in grid s' = (grid s)[r := row_recompute (row_neighborhood (col + w) (blank_cell e) (row_neighborhood col (blank_cell e) g2))])"
proof -
  note sh = screen_invD(1) [OF assms(1)] and g = screen_invD(2) [OF assms(1,2)]
  have "fits (s_columns s) (row_cluster e col c (get_row s r))"
    unfolding row_cluster_exact [OF g assms(3,4)] Let_def using row_goodD(1) [OF g] by simp
  then have "grid (put_row s r (row_cluster e col c (get_row s r))) = (grid s)[r := row_cluster e col c (get_row s r)]"
    by (rule grid_put [OF sh assms(2)])
  then show ?thesis
    using replace_cluster_row [OF sh assms(2-4), of e] row_cluster_exact [OF g assms(3,4), of e] by (simp add: Let_def)
qed

theorem cluster_extent_shortcut_exact_witness:
  "\<exists>s'. replace_cluster sample_env 0 0 (blank_cell sample_env) sample_screen = Some s' \<and>
    (let w = width_columns (c_width (blank_cell sample_env));
         g1 = row_set 0 (blank_cell sample_env) True (get_row sample_screen 0);
         g2 = (if w = 2 then row_set (0 + 1) (continuation_of sample_env (blank_cell sample_env)) True g1 else g1)\<lparr>gr_dirty := True\<rparr>
     in grid s' = (grid sample_screen)[0 := row_recompute (row_neighborhood (0 + w) (blank_cell sample_env)
          (row_neighborhood 0 (blank_cell sample_env) g2))])"
  by (rule cluster_extent_shortcut_exact [OF sample_screen_inv(1)]) (simp_all add: sample_screen_inv(2) sample_dims_def blank_cell_def)

text \<open>
  Building a screen from history rows, and clipping or padding one to new dimensions, either fails for
  lack of memory or gives a screen of exactly the new dimensions that recovery validation accepts, even
  when the old screen had halves of wide characters or a row is cut in the middle of one.
\<close>

theorem rebuilt_screens_are_valid:
  assumes "dims_ok d" "caps_ok e" "rows_valid n rs" "screen_inv old"
  shows "\<exists>r1 r2. from_rows e d rs = Some r1 \<and> screen_resized e old d = Some r2 \<and>
    (\<forall>s. r1 = Inr s \<or> r2 = Inr s \<longrightarrow> screen_valid s \<and> s_dimensions s = d)"
  using built_screens_valid(1) [OF assms(1,2,3)] built_screens_valid(2) [OF assms(1,2,4)] by (auto simp: ok_iff)

theorem rebuilt_screens_are_valid_witness:
  "\<exists>r1 r2. from_rows sample_env sample_dims [] = Some r1 \<and> screen_resized sample_env sample_screen sample_dims = Some r2 \<and>
    (case r1 of Inl _ \<Rightarrow> True | Inr s \<Rightarrow> screen_valid s)"
  using rebuilt_screens_are_valid [OF sample_dims_ok(1) sample_caps_ok _ sample_screen_inv(1), of 2 "[]"]
  by (auto simp: rows_valid_def split: sum.split)

end
