(* ===== verification/Document_Props.thy ===== *)
theory Document_Props
  imports Terminal_Props History_Props Screen_Props
begin

text \<open>Properties that span the screen, the history and recovery validation.\<close>

text \<open>
  C3. Scrolling the primary screen loses nothing but the oldest history.  Read the history rows followed by the
  screen rows as one document: scrolling by \<open>count\<close> lines appends the rows that leave the screen to the
  history unchanged (trimmed to their occupied extent), moves the rest up, fills the bottom, and forgets only
  rows from the front of the history, of which the content origin keeps count.
\<close>

theorem scroll_conserves_content:
  assumes "settled d t" "vec_ok e" "retains_history sp t" "sb_ok e (t_scrollback t)"
    "sb_charged_bytes (t_scrollback t) \<le> sb_limit_bytes (t_scrollback t)"
    "rows_fit e (map row_content (take count (grid (b_screen (t_primary t))))) (t_scrollback t)"
  shows "\<exists>t' n. scroll_region_up e count sp t = Some t' \<and>
    sb_view (t_scrollback t') =
      drop n (sb_view (t_scrollback t) @ map row_content (take count (grid (b_screen (t_primary t))))) \<and>
    sb_content_row_origin (t_scrollback t') = sb_content_row_origin (t_scrollback t) + n \<and>
    grid (b_screen (t_primary t')) = map (\<lambda>g. g\<lparr>gr_dirty := True\<rparr>)
      (drop count (grid (b_screen (t_primary t))) @ map (row_fill (erase_cell e t)) (take count (grid (b_screen (t_primary t)))))"
proof -
  let ?s = "b_screen (t_primary t)" and ?c = "erase_cell e t" and ?sb = "t_scrollback t"
  have act: "t_active_screen t = Primary" "b_scroll_top (t_primary t) = 0" "b_scroll_bottom (t_primary t) + 1 = t_rows t"
    "cs_left sp = 0" "cs_right sp + 1 = t_columns t"
    using assms(3) by (simp_all add: retains_history_def)
  have core: "buffer_core d (t_primary t)" using assms(1) act(1) by (simp add: term_wf_def)
  note c = buffer_coreD [OF core]
  have dm: "t_dimensions t = s_dimensions ?s" by (simp add: t_dimensions_def)
  have full: "span_is_full sp (s_columns ?s)" using act(4,5) dm by (simp add: span_is_full_def)
  have bottom: "b_scroll_bottom (t_primary t) = s_rows ?s - 1" using act(3) dm by simp
  obtain s' where s': "scroll_up e 0 (s_rows ?s - 1) count ?c sp ?s = Some (map row_content (take count (grid ?s)), s')"
    "grid s' = map (\<lambda>g. g\<lparr>gr_dirty := True\<rparr>) (drop count (grid ?s) @ map (row_fill ?c) (take count (grid ?s)))"
    using scroll_rotation [OF c(1) full] by blast
  obtain sb' n where sb': "push_rows e (map row_content (take count (grid ?s))) ?sb = Some sb'"
    "sb_view sb' = drop n (sb_view ?sb @ map row_content (take count (grid ?s)))"
    "sb_content_row_origin sb' = sb_content_row_origin ?sb + n"
    using push_rows_view [OF assms(4,5,2,6)] by blast
  have "scroll_region_up e count sp t = Some (t\<lparr>t_primary := (t_primary t)\<lparr>b_screen := s'\<rparr>, t_scrollback := sb'\<rparr>)"
    using assms(3) act(1,2) bottom s'(1) sb'(1) by (simp add: scroll_region_up_def active_buffer_def set_active_def)
  then show ?thesis using s'(2) sb'(2,3) by auto
qed

theorem scroll_conserves_content_witness:
  "\<exists>t' n. scroll_region_up sample_env 1 (span_new 0 1) sample_terminal = Some t' \<and>
    sb_view (t_scrollback t') = drop n (sb_view (t_scrollback sample_terminal) @
      map row_content (take 1 (grid (b_screen (t_primary sample_terminal))))) \<and>
    sb_content_row_origin (t_scrollback t') = sb_content_row_origin (t_scrollback sample_terminal) + n \<and>
    grid (b_screen (t_primary t')) = map (\<lambda>g. g\<lparr>gr_dirty := True\<rparr>)
      (drop 1 (grid (b_screen (t_primary sample_terminal))) @
       map (row_fill (erase_cell sample_env sample_terminal)) (take 1 (grid (b_screen (t_primary sample_terminal)))))"
proof -
  have t: "t_active_screen sample_terminal = Primary" "t_primary sample_terminal = sample_buffer" "t_scrollback sample_terminal = scrollback_new 1024"
    by (simp_all add: sample_terminal_def with_scrollback_limit_def sample_buffer_new)
  have "retains_history (span_new 0 1) sample_terminal"
    using t by (simp add: retains_history_def sample_buffer_def t_dimensions_def sample_screen_def sample_dims_def span_new_def)
  moreover have "map row_content (take 1 (grid (b_screen sample_buffer))) = [sample_row]"
    by (simp add: sample_buffer_def grid_def sample_screen_def sample_dims_def row_content_def get_row_def sample_row_def physical_row_def)
  ultimately show ?thesis
    using sample_rows_fit scrollback_new_ok t
    by (intro scroll_conserves_content [OF sample_terminal_inv(1) sample_vec_ok]) (simp_all add: scrollback_new_def)
qed

text \<open>
  The parser keeps up to 256 characters of a window title, but recovery validation refuses a title of more
  than 256 bytes: a title of 256 two-byte characters passes the parser unchanged and fails recovery.
\<close>

theorem long_title_fails_recovery:
  "sanitize_title (replicate 256 0xe9) = replicate 256 0xe9 \<and> \<not> terminal_valid e (t\<lparr>t_title := sanitize_title (replicate 256 0xe9)\<rparr>)"
proof -
  have t: "sanitize_title (replicate 256 0xe9) = replicate 256 0xe9"
    by (simp add: sanitize_title_def is_control_def filter_replicate)
  have "str_len (replicate 256 0xe9) = 512" by (simp add: str_len_def len_utf8_def sum_list_replicate)
  then show ?thesis unfolding t by (simp add: terminal_valid_def)
qed

end
