(* ===== verification/Edit_Text.thy ===== *)
theory Edit_Text
  imports Utf8
begin

text \<open>
  The text of an editable document, \<open>festerm-document/src/text.rs\<close> and \<open>bounds.rs\<close>: Rust strings by
  their bytes with the character boundaries that slicing demands, lines, line endings, indentation,
  edits and the two ways an ordered set of edits is played over a text, forwards and backwards.
\<close>

section \<open>Rust strings\<close>

text \<open>
  A \<open>str\<close> is the list of its bytes; \<open>utf8\<close> is the validity every Rust string has.  A slice whose ends
  are not on character boundaries, or out of order, panics.  A \<open>String\<close> also has a capacity, which the
  undo history charges for.
\<close>

type_synonym bytes = "u8 list"

definition utf8 :: "bytes \<Rightarrow> bool" where
  "utf8 s \<longleftrightarrow> from_utf8 s \<noteq> None"

definition is_char_boundary :: "bytes \<Rightarrow> nat \<Rightarrow> bool" where
  "is_char_boundary s i \<longleftrightarrow> i = 0 \<or> i = length s \<or> (i < length s \<and> \<not> cont (s ! i))"

definition str_slice :: "bytes \<Rightarrow> nat \<Rightarrow> nat \<Rightarrow> bytes option" where
  "str_slice s i j =
     (if i \<le> j \<and> is_char_boundary s i \<and> is_char_boundary s j then Some (slice i (j - i) s) else None)"

definition replace_range :: "bytes \<Rightarrow> nat \<Rightarrow> nat \<Rightarrow> bytes \<Rightarrow> bytes option" where
  "replace_range s i j r =
     (if i \<le> j \<and> is_char_boundary s i \<and> is_char_boundary s j then Some (take i s @ r @ drop j s) else None)"

record rust_string =
  rs_bytes :: bytes
  rs_capacity :: nat

text \<open>\<open>str::lines\<close>: a line feed ends a line, a carriage return before it is dropped.\<close>

definition strip_cr :: "bytes \<Rightarrow> bytes" where
  "strip_cr l = (if l \<noteq> [] \<and> last l = 0x0d then butlast l else l)"

primrec lines_from :: "bytes \<Rightarrow> bytes \<Rightarrow> bytes list" where
  "lines_from [] line = (if line = [] then [] else [line])"
| "lines_from (b # bs) line =
     (if b = 0x0a then strip_cr line # lines_from bs [] else lines_from bs (line @ [b]))"

definition str_lines :: "bytes \<Rightarrow> bytes list" where
  "str_lines s = lines_from s []"

text \<open>\<open>str::find\<close> and the positions \<open>str::matches\<close> visits: leftmost, without overlap.\<close>

primrec find_sub :: "bytes \<Rightarrow> bytes \<Rightarrow> nat option" where
  "find_sub q [] = (if q = [] then Some 0 else None)"
| "find_sub q (b # bs) = (if take (length q) (b # bs) = q then Some 0 else map_option Suc (find_sub q bs))"

lemma find_sub_SomeD: "find_sub q s = Some i \<Longrightarrow> i + length q \<le> length s \<and> slice i (length q) s = q"
proof (induction s arbitrary: i)
  case Nil
  then show ?case by (auto simp: slice_def split: if_splits)
next
  case (Cons b bs)
  show ?case
  proof (cases "take (length q) (b # bs) = q")
    case True
    have "length q \<le> length (b # bs)" by (subst True [symmetric]) simp
    then show ?thesis using True Cons.prems by (auto simp: slice_def)
  next
    case False
    then obtain j where "find_sub q bs = Some j" "i = Suc j" using Cons.prems by auto
    then show ?thesis using Cons.IH by (auto simp: slice_def)
  qed
qed

function match_positions :: "bytes \<Rightarrow> bytes \<Rightarrow> nat \<Rightarrow> nat list" where
  "match_positions q s pos =
     (if q = [] then [] else
      case find_sub q (drop pos s) of
        None \<Rightarrow> []
      | Some found \<Rightarrow> (pos + found) # match_positions q s (pos + found + length q))"
  by pat_completeness auto
termination
  by (relation "measure (\<lambda>(q, s, n). length s + 1 - n)") (auto dest!: find_sub_SomeD simp flip: length_greater_0_conv)

declare match_positions.simps [simp del]

definition byte_count :: "u8 \<Rightarrow> bytes \<Rightarrow> nat" where
  "byte_count b s = length (filter ((=) b) s)"

section \<open>Bounds and refusals\<close>

record document_bounds =
  db_max_bytes :: nat
  db_max_lines :: nat
  db_max_line_bytes :: nat

definition default_bounds :: document_bounds where
  "default_bounds = \<lparr>db_max_bytes = 4 * 1024 * 1024, db_max_lines = 65536, db_max_line_bytes = 64 * 1024\<rparr>"

datatype refusal_reason =
    TooLarge nat nat
  | TooManyLines nat nat
  | LineTooLong nat nat
  | UndoStorageTooLarge nat nat
  | NotUtf8
  | BinaryContent

definition check_declared_size :: "document_bounds \<Rightarrow> nat \<Rightarrow> refusal_reason + unit" where
  "check_declared_size b n = (if db_max_bytes b < n then Inl (TooLarge n (db_max_bytes b)) else Inr ())"

section \<open>Line endings, encoding, indentation\<close>

datatype line_ending = Lf | Crlf | Cr

primrec ending_str :: "line_ending \<Rightarrow> bytes" where
  "ending_str Lf = [0x0a]"
| "ending_str Crlf = [0x0d, 0x0a]"
| "ending_str Cr = [0x0d]"

datatype encoding = Utf8 | Utf8Bom

datatype indentation = Spaces nat | Tabs

fun normalise_loop :: "bytes \<Rightarrow> bytes" where
  "normalise_loop [] = []"
| "normalise_loop [b] = [if b = 0x0d then 0x0a else b]"
| "normalise_loop (b # c # bs) =
     (if b = 0x0d then 0x0a # normalise_loop (if c = 0x0a then bs else c # bs) else b # normalise_loop (c # bs))"

definition normalise_line_endings :: "bytes \<Rightarrow> bytes" where
  "normalise_line_endings s = (if 0x0d \<notin> set s then s else normalise_loop s)"

definition detect_line_ending :: "bytes \<Rightarrow> line_ending option" where
  "detect_line_ending s = do {
     let crlf = length (match_positions [0x0d, 0x0a] s 0);
     cr \<leftarrow> checked_sub (byte_count 0x0d s) crlf;
     lf \<leftarrow> checked_sub (byte_count 0x0a s) crlf;
     Some (if lf \<le> crlf \<and> cr \<le> crlf \<and> 0 < crlf then Crlf else if lf < cr \<and> 0 < cr then Cr else Lf) }"

definition count_indent :: "bytes \<Rightarrow> nat \<times> nat list \<Rightarrow> nat \<times> nat list" where
  "count_indent line = (\<lambda>(tabs, widths).
     if line \<noteq> [] \<and> hd line = 0x09 then (tabs + 1, widths)
     else let spaces = length (takeWhile ((=) 0x20) line)
          in if 0 < spaces \<and> spaces \<le> 8 then (tabs, widths[spaces := widths ! spaces + 1]) else (tabs, widths))"

definition detect_indentation :: "bytes \<Rightarrow> indentation" where
  "detect_indentation s =
     (let (tabs, widths) = fold count_indent (str_lines s) (0, replicate 9 0)
      in if sum_list widths < tabs then Tabs
         else case filter (\<lambda>w. 0 < widths ! w) [1..<9] of [] \<Rightarrow> Spaces 4 | w # _ \<Rightarrow> Spaces w)"

primrec overlong_from :: "nat \<Rightarrow> bytes list \<Rightarrow> nat \<Rightarrow> nat option" where
  "overlong_from limit [] i = None"
| "overlong_from limit (l # ls) i = (if limit < length l then Some (i + 1) else overlong_from limit ls (i + 1))"

definition first_overlong_line :: "bytes \<Rightarrow> nat \<Rightarrow> nat option" where
  "first_overlong_line s limit = overlong_from limit (str_lines s) 0"

section \<open>Common parts of two texts\<close>

primrec floor_char_boundary :: "bytes \<Rightarrow> nat \<Rightarrow> nat" where
  "floor_char_boundary s 0 = 0"
| "floor_char_boundary s (Suc i) = (if is_char_boundary s (Suc i) then Suc i else floor_char_boundary s i)"

function ceil_char_boundary :: "bytes \<Rightarrow> nat \<Rightarrow> nat" where
  "ceil_char_boundary s i = (if i < length s \<and> \<not> is_char_boundary s i then ceil_char_boundary s (i + 1) else i)"
  by pat_completeness auto
termination by (relation "measure (\<lambda>(s, i). length s - i)") auto

declare ceil_char_boundary.simps [simp del]

fun common_len :: "bytes \<Rightarrow> bytes \<Rightarrow> nat" where
  "common_len (a # as) (b # bs) = (if a = b then Suc (common_len as bs) else 0)"
| "common_len _ _ = 0"

definition common_prefix :: "bytes \<Rightarrow> bytes \<Rightarrow> nat" where
  "common_prefix l r = floor_char_boundary l (common_len l r)"

definition common_suffix :: "bytes \<Rightarrow> bytes \<Rightarrow> nat" where
  "common_suffix l r = length l - ceil_char_boundary l (length l - common_len (rev l) (rev r))"

section \<open>Edits\<close>

record text_edit =
  te_start :: nat
  te_removed :: rust_string
  te_inserted :: rust_string

definition te_end :: "text_edit \<Rightarrow> nat" where
  "te_end x = te_start x + length (rs_bytes (te_removed x))"

datatype edit_direction = Forward | Undo

primrec edit_parts :: "edit_direction \<Rightarrow> text_edit \<Rightarrow> bytes \<times> bytes" where
  "edit_parts Forward x = (rs_bytes (te_removed x), rs_bytes (te_inserted x))"
| "edit_parts Undo x = (rs_bytes (te_inserted x), rs_bytes (te_removed x))"

definition rewritten_length :: "nat \<Rightarrow> text_edit list \<Rightarrow> edit_direction \<Rightarrow> nat option" where
  "rewritten_length n edits dir = do {
     (removed, inserted) \<leftarrow> foldM (\<lambda>x (removed, inserted). do {
         removed \<leftarrow> checked_add removed (length (fst (edit_parts dir x)));
         inserted \<leftarrow> checked_add inserted (length (snd (edit_parts dir x)));
         Some (removed, inserted) }) edits (0, 0);
     kept \<leftarrow> checked_sub n removed;
     checked_add kept inserted }"

definition rewrite_step :: "bytes \<Rightarrow> edit_direction \<Rightarrow> text_edit \<Rightarrow> bytes \<times> nat \<times> nat \<Rightarrow> (bytes \<times> nat \<times> nat) option" where
  "rewrite_step s dir x = (\<lambda>(result, original_cursor, source_cursor). do {
     gap \<leftarrow> checked_sub (te_start x) original_cursor;
     let untouched_end = source_cursor + gap;
     untouched \<leftarrow> str_slice s source_cursor untouched_end;
     Some (result @ untouched @ snd (edit_parts dir x), te_end x,
           untouched_end + length (fst (edit_parts dir x))) })"

definition rewrite_ordered_edits :: "bytes \<Rightarrow> text_edit list \<Rightarrow> edit_direction \<Rightarrow> bytes option" where
  "rewrite_ordered_edits s edits dir = do {
     _ \<leftarrow> rewritten_length (length s) edits dir;
     (result, _, source_cursor) \<leftarrow> foldM (rewrite_step s dir) edits ([], 0, 0);
     rest \<leftarrow> str_slice s source_cursor (length s);
     Some (result @ rest) }"

definition splice_edit :: "edit_direction \<Rightarrow> text_edit \<Rightarrow> bytes \<Rightarrow> bytes option" where
  "splice_edit dir x s =
     replace_range s (te_start x) (te_start x + length (fst (edit_parts dir x))) (snd (edit_parts dir x))"

definition replay_ordered_edits :: "bytes \<Rightarrow> text_edit list \<Rightarrow> edit_direction \<Rightarrow> bytes option" where
  "replay_ordered_edits s edits dir =
     (if length edits = 1 \<or>
         (\<forall>x \<in> set edits. length (rs_bytes (te_removed x)) = length (rs_bytes (te_inserted x)))
      then foldM (splice_edit dir) edits s
      else rewrite_ordered_edits s edits dir)"

end
