(* ===== verification/Edit_Undo.thy ===== *)
theory Edit_Undo
  imports Edit_Text
begin

text \<open>
  The undo history of a document, \<open>festerm-document/src/undo.rs\<close>: a bounded stack of transactions
  with a redo tail, its byte accounting by capacities, the staging of a new transaction (\<open>prepare\<close>,
  with coalescing and retirement of the oldest entries), its \<open>commit\<close>, and the steps back and
  forward.
\<close>

section \<open>What the history takes from the allocator\<close>

text \<open>
  \<^item> \<open>string_cap n\<close>, \<open>deque_cap n\<close>: the capacity of \<open>String::with_capacity(n)\<close> (also of a string cloned
    or owned from \<open>n\<close> bytes) and of \<open>VecDeque::with_capacity(n)\<close>, each at least \<open>n\<close>;
  \<^item> \<open>string_grow c n\<close>, \<open>deque_grow c n\<close>: the capacity after growing one of capacity \<open>c\<close> to hold \<open>n\<close>;
  \<^item> \<open>size_transaction\<close>, \<open>size_edit\<close>: \<open>size_of\<close> of \<open>Transaction\<close> and \<open>TextEdit\<close>.
\<close>

record heap_env =
  string_cap :: "nat \<Rightarrow> nat"
  string_grow :: "nat \<Rightarrow> nat \<Rightarrow> nat"
  deque_cap :: "nat \<Rightarrow> nat"
  deque_grow :: "nat \<Rightarrow> nat \<Rightarrow> nat"
  size_transaction :: nat
  size_edit :: nat

definition heap_ok :: "heap_env \<Rightarrow> bool" where
  "heap_ok h \<longleftrightarrow> (\<forall>n. n \<le> string_cap h n \<and> n \<le> deque_cap h n) \<and>
     (\<forall>c n. n \<le> string_grow h c n \<and> n \<le> deque_grow h c n) \<and> 0 < size_transaction h"

definition owned :: "heap_env \<Rightarrow> bytes \<Rightarrow> rust_string" where
  "owned h s = \<lparr>rs_bytes = s, rs_capacity = string_cap h (length s)\<rparr>"

definition push_str :: "heap_env \<Rightarrow> bytes \<Rightarrow> rust_string \<Rightarrow> rust_string" where
  "push_str h s r =
     (let n = length (rs_bytes r) + length s
      in \<lparr>rs_bytes = rs_bytes r @ s,
          rs_capacity = (if n \<le> rs_capacity r then rs_capacity r else string_grow h (rs_capacity r) n)\<rparr>)"

section \<open>Transactions and the history\<close>

record transaction =
  tx_serial :: nat
  tx_edits :: "text_edit list"
  tx_open :: bool

record undo_history =
  uh_entries :: "transaction list"
  uh_slots :: nat  \<comment> \<open>the capacity of \<open>entries\<close>\<close>
  uh_applied :: nat
  uh_base_token :: "nat option"
  uh_next_serial :: nat
  uh_max_entries :: nat
  uh_max_bytes :: nat
  uh_payload_bytes :: nat

record retention_plan =
  rp_retired :: nat
  rp_payload_bytes :: nat
  rp_slots :: "nat option"  \<comment> \<open>the capacity of the replacement queue\<close>

record prepared_undo =
  pu_edits :: "text_edit list"
  pu_open :: bool
  pu_merge :: bool
  pu_replacement :: "rust_string option"
  pu_retention :: retention_plan

definition edit_storage :: "heap_env \<Rightarrow> text_edit list \<Rightarrow> nat" where
  "edit_storage h xs =
     fold (\<lambda>x n. sat_add (sat_add n (rs_capacity (te_removed x))) (rs_capacity (te_inserted x))) xs
       (length xs * size_edit h)"

definition tx_weight :: "heap_env \<Rightarrow> transaction \<Rightarrow> nat" where
  "tx_weight h t = edit_storage h (tx_edits t)"

definition slot_storage :: "heap_env \<Rightarrow> nat \<Rightarrow> nat" where
  "slot_storage h n = sat_mul n (size_transaction h)"

definition DEFAULT_MAX_ENTRIES :: nat where
  "DEFAULT_MAX_ENTRIES = 2048"

definition DEFAULT_MAX_BYTES :: nat where
  "DEFAULT_MAX_BYTES = 8 * 1024 * 1024"

definition with_limits :: "nat \<Rightarrow> nat \<Rightarrow> undo_history" where
  "with_limits max_entries max_bytes =
     \<lparr>uh_entries = [], uh_slots = 0, uh_applied = 0, uh_base_token = None, uh_next_serial = 1,
      uh_max_entries = max max_entries 1, uh_max_bytes = max_bytes, uh_payload_bytes = 0\<rparr>"

definition undo_new :: undo_history where
  "undo_new = with_limits DEFAULT_MAX_ENTRIES DEFAULT_MAX_BYTES"

definition undo_token :: "undo_history \<Rightarrow> nat option" where
  "undo_token u =
     (if 0 < uh_applied u then map_option tx_serial (rd (uh_entries u) (uh_applied u - 1)) else uh_base_token u)"

definition can_undo :: "undo_history \<Rightarrow> bool" where
  "can_undo u \<longleftrightarrow> 0 < uh_applied u"

definition can_redo :: "undo_history \<Rightarrow> bool" where
  "can_redo u \<longleftrightarrow> uh_applied u < length (uh_entries u)"

definition close_transaction :: "undo_history \<Rightarrow> undo_history option" where
  "close_transaction u =
     (if 0 < uh_applied u then do {
        t \<leftarrow> rd (uh_entries u) (uh_applied u - 1);
        Some (u\<lparr>uh_entries := (uh_entries u)[uh_applied u - 1 := t\<lparr>tx_open := False\<rparr>]\<rparr>) }
      else Some u)"

definition mergeable :: "transaction \<Rightarrow> text_edit list \<Rightarrow> bool" where
  "mergeable t edits =
     (case edits of
        [next_edit] \<Rightarrow>
          tx_edits t \<noteq> [] \<and> rs_bytes (te_removed next_edit) = [] \<and> 0x0a \<notin> set (rs_bytes (te_inserted next_edit)) \<and>
          (let previous = last (tx_edits t)
           in rs_bytes (te_removed previous) = [] \<and>
              te_start previous + length (rs_bytes (te_inserted previous)) = te_start next_edit)
      | _ \<Rightarrow> False)"

section \<open>Staging a transaction\<close>

text \<open>The oldest applied entries are retired until the new payload and count fit; \<open>Inl\<close> is the
  number of bytes that would have been needed.\<close>

function retire_loop :: "heap_env \<Rightarrow> undo_history \<Rightarrow> nat \<Rightarrow> nat \<Rightarrow> nat \<Rightarrow> nat \<Rightarrow> (nat + nat \<times> nat \<times> nat) option" where
  "retire_loop h u protected payload count retired =
     (if uh_max_entries u < count \<or> uh_max_bytes u < sat_add payload (slot_storage h count) then do {
        limit \<leftarrow> checked_sub (uh_applied u) protected;
        if limit \<le> retired then Some (Inl (sat_add payload (slot_storage h count)))
        else do {
          t \<leftarrow> rd (uh_entries u) retired;
          payload \<leftarrow> checked_sub payload (tx_weight h t);
          count \<leftarrow> checked_sub count 1;
          retire_loop h u protected payload count (retired + 1) } }
      else Some (Inr (payload, count, retired)))"
  by pat_completeness auto
termination
  by (relation "measure (\<lambda>(h, u, p, pb, c, r). uh_applied u - r)") (auto simp: checked_sub_def split: if_splits)

declare retire_loop.simps [simp del]

definition plan_retention :: "heap_env \<Rightarrow> undo_history \<Rightarrow> nat \<Rightarrow> nat \<Rightarrow> nat \<Rightarrow> (nat + retention_plan) option" where
  "plan_retention h u payload count protected = do {
     r \<leftarrow> retire_loop h u protected payload count 0;
     case r of
       Inl n \<Rightarrow> Some (Inl n)
     | Inr (payload, count, retired) \<Rightarrow> do {
         spare \<leftarrow> checked_sub (uh_max_bytes u) payload;
         let maximum_slots = spare div size_transaction h;
         if count \<le> uh_slots u \<and> uh_slots u \<le> maximum_slots
         then Some (Inr \<lparr>rp_retired = retired, rp_payload_bytes = payload, rp_slots = None\<rparr>)
         else do {
           let capacity = min (min (max (max (sat_mul (uh_slots u) 2) 4) count) (uh_max_entries u)) maximum_slots;
           let slots = deque_cap h capacity;
           let actual_bytes = sat_add payload (slot_storage h slots);
           if uh_max_bytes u < actual_bytes then Some (Inl actual_bytes)
           else Some (Inr \<lparr>rp_retired = retired, rp_payload_bytes = payload, rp_slots = Some slots\<rparr>) } } }"

text \<open>Coalescing is optional: \<open>None\<close> inside means that the run cannot be continued and a new
  transaction is tried.\<close>

definition prepare_merge ::
  "heap_env \<Rightarrow> undo_history \<Rightarrow> nat \<Rightarrow> transaction \<Rightarrow> text_edit list \<Rightarrow> prepared_undo option option" where
  "prepare_merge h u applied_bytes t edits = do {
     let previous = last (tx_edits t);
     let typed = rs_bytes (te_inserted (hd edits));
     let needed = sat_add (length (rs_bytes (te_inserted previous))) (length typed);
     fixed \<leftarrow> checked_sub (tx_weight h t) (rs_capacity (te_inserted previous));
     let maximum_capacity = uh_max_bytes u - sat_add fixed (slot_storage h 1);
     if needed \<le> maximum_capacity then do {
       let replacement =
         (if rs_capacity (te_inserted previous) < needed
          then Some \<lparr>rs_bytes = rs_bytes (te_inserted previous) @ typed,
                     rs_capacity = string_cap h (min (max (sat_mul (rs_capacity (te_inserted previous)) 2) needed) maximum_capacity)\<rparr>
          else None);
       let capacity = (case replacement of None \<Rightarrow> rs_capacity (te_inserted previous) | Some r \<Rightarrow> rs_capacity r);
       rest \<leftarrow> checked_sub applied_bytes (tx_weight h t);
       plan \<leftarrow> plan_retention h u (sat_add rest (sat_add fixed capacity)) (uh_applied u) 1;
       Some (case plan of
               Inl _ \<Rightarrow> None
             | Inr retention \<Rightarrow> Some \<lparr>pu_edits = edits, pu_open = True, pu_merge = True,
                                      pu_replacement = replacement, pu_retention = retention\<rparr>) }
     else Some None }"

definition prepare_fresh ::
  "heap_env \<Rightarrow> undo_history \<Rightarrow> nat \<Rightarrow> text_edit list \<Rightarrow> bool \<Rightarrow> (refusal_reason + prepared_undo) option" where
  "prepare_fresh h u applied_bytes edits coalescable = do {
     let may_extend = (coalescable \<and> length edits = 1 \<and>
       \<not> (\<exists>x \<in> set edits. 0x0a \<in> set (rs_bytes (te_inserted x)) \<or> rs_bytes (te_removed x) \<noteq> []));
     plan \<leftarrow> plan_retention h u (sat_add applied_bytes (edit_storage h edits)) (uh_applied u + 1) 0;
     Some (case plan of
             Inl n \<Rightarrow> Inl (UndoStorageTooLarge n (uh_max_bytes u))
           | Inr retention \<Rightarrow> Inr \<lparr>pu_edits = edits, pu_open = may_extend, pu_merge = False,
                                   pu_replacement = None, pu_retention = retention\<rparr>) }"

definition prepare ::
  "heap_env \<Rightarrow> undo_history \<Rightarrow> text_edit list \<Rightarrow> bool \<Rightarrow> (refusal_reason + prepared_undo option) option" where
  "prepare h u edits coalescable = do {
     let edits = filter (\<lambda>x. rs_bytes (te_removed x) \<noteq> rs_bytes (te_inserted x)) edits;
     if edits = [] then Some (Inr None)
     else do {
       let redo_bytes = fold (\<lambda>t n. sat_add n (tx_weight h t)) (drop (uh_applied u) (uh_entries u)) 0;
       applied_bytes \<leftarrow> checked_sub (uh_payload_bytes u) redo_bytes;
       merged \<leftarrow> (if coalescable \<and> 0 < uh_applied u then
                    case rd (uh_entries u) (uh_applied u - 1) of
                      None \<Rightarrow> Some None
                    | Some t \<Rightarrow> if tx_open t \<and> mergeable t edits then prepare_merge h u applied_bytes t edits
                                else Some None
                  else Some None);
       case merged of
         Some p \<Rightarrow> Some (Inr (Some p))
       | None \<Rightarrow> do {
           fresh \<leftarrow> prepare_fresh h u applied_bytes edits coalescable;
           Some (map_sum id Some fresh) } } }"

section \<open>Committing it\<close>

definition merge_last :: "heap_env \<Rightarrow> prepared_undo \<Rightarrow> nat \<Rightarrow> transaction \<Rightarrow> transaction" where
  "merge_last h p serial t =
     (let previous = last (tx_edits t);
          inserted = (case pu_replacement p of
                        Some r \<Rightarrow> r
                      | None \<Rightarrow> push_str h (rs_bytes (te_inserted (hd (pu_edits p)))) (te_inserted previous))
      in t\<lparr>tx_edits := butlast (tx_edits t) @ [previous\<lparr>te_inserted := inserted\<rparr>], tx_serial := serial\<rparr>)"

definition undo_commit :: "heap_env \<Rightarrow> prepared_undo \<Rightarrow> undo_history \<Rightarrow> undo_history option" where
  "undo_commit h p u = do {
     let kept = take (uh_applied u) (uh_entries u);
     let retired = rp_retired (pu_retention p);
     _ \<leftarrow> checked_sub (length kept) retired;
     let base = (if retired = 0 then uh_base_token u else Some (tx_serial (kept ! (retired - 1))));
     let kept = drop retired kept;
     let slots = (case rp_slots (pu_retention p) of
                    None \<Rightarrow> uh_slots u
                  | Some c \<Rightarrow> if length kept \<le> c then c else deque_grow h c (length kept));
     (entries, slots) \<leftarrow>
       (if pu_merge p then
          (if kept = [] \<or> tx_edits (last kept) = [] then None
           else Some (butlast kept @ [merge_last h p (uh_next_serial u) (last kept)], slots))
        else Some (kept @ [\<lparr>tx_serial = uh_next_serial u, tx_edits = pu_edits p, tx_open = pu_open p\<rparr>],
                   if length kept < slots then slots else deque_grow h slots (length kept + 1)));
     serial \<leftarrow> checked_add (uh_next_serial u) 1;
     Some (u\<lparr>uh_entries := entries, uh_slots := slots, uh_applied := length entries, uh_base_token := base,
             uh_next_serial := serial, uh_payload_bytes := rp_payload_bytes (pu_retention p)\<rparr>) }"

definition retained_bytes :: "heap_env \<Rightarrow> undo_history \<Rightarrow> nat" where
  "retained_bytes h u = sat_add (uh_payload_bytes u) (slot_storage h (uh_slots u))"

section \<open>Stepping\<close>

definition step_back :: "undo_history \<Rightarrow> (transaction option \<times> undo_history) option" where
  "step_back u =
     (if 0 < uh_applied u then do {
        u \<leftarrow> close_transaction u;
        Some (rd (uh_entries u) (uh_applied u - 1), u\<lparr>uh_applied := uh_applied u - 1\<rparr>) }
      else Some (None, u))"

definition step_forward :: "undo_history \<Rightarrow> transaction option \<times> undo_history" where
  "step_forward u =
     (case rd (uh_entries u) (uh_applied u) of
        None \<Rightarrow> (None, u)
      | Some t \<Rightarrow> let t = t\<lparr>tx_open := False\<rparr>
                  in (Some t, u\<lparr>uh_entries := (uh_entries u)[uh_applied u := t], uh_applied := uh_applied u + 1\<rparr>))"

definition undo_clear :: "undo_history \<Rightarrow> undo_history" where
  "undo_clear u = u\<lparr>uh_entries := [], uh_slots := 0, uh_applied := 0, uh_base_token := None, uh_payload_bytes := 0\<rparr>"

end
