(* ===== verification/Edit_Document.thy ===== *)
theory Edit_Document
  imports Edit_Undo
begin

text \<open>
  An editable document, \<open>TextDocument\<close> of \<open>festerm-document/src/text.rs\<close>: opening and saving bytes, the
  save points behind the dirty flag, and the edits, each of which is one undo transaction.  An
  operation that can refuse returns \<open>Inl\<close> the reason together with the document it leaves; \<open>None\<close> is
  a panic.
\<close>

section \<open>State\<close>

datatype saved_point = Unwritten | SavedAt "nat option"

record text_document =
  td_text :: bytes
  td_encoding :: encoding
  td_line_ending :: line_ending
  td_indentation :: indentation
  td_bounds :: document_bounds
  td_undo :: undo_history
  td_saved_point :: saved_point
  td_revision :: "64 word"

datatype edit_refusal = OutOfOrder | OutOfBounds | Stale | Refused refusal_reason

section \<open>Opening and saving\<close>

definition line_count :: "bytes \<Rightarrow> nat" where
  "line_count s = max (length (str_lines s)) 1"

definition check_lines :: "document_bounds \<Rightarrow> bytes \<Rightarrow> refusal_reason + unit" where
  "check_lines b s =
     (if db_max_lines b < line_count s then Inl (TooManyLines (line_count s) (db_max_lines b))
      else case first_overlong_line s (db_max_line_bytes b) of
             Some line \<Rightarrow> Inl (LineTooLong line (db_max_line_bytes b))
           | None \<Rightarrow> Inr ())"

definition BOM :: bytes where
  "BOM = [0xef, 0xbb, 0xbf]"

definition strip_bom :: "bytes \<Rightarrow> encoding \<times> bytes" where
  "strip_bom s = (if take 3 s = BOM then (Utf8Bom, drop 3 s) else (Utf8, s))"

definition from_bytes :: "bytes \<Rightarrow> document_bounds \<Rightarrow> (refusal_reason + text_document) option" where
  "from_bytes s b =
     (case check_declared_size b (length s) of
        Inl r \<Rightarrow> Some (Inl r)
      | Inr _ \<Rightarrow>
          let (enc, body) = strip_bom s
          in if 0 \<in> set body then Some (Inl BinaryContent)
             else if \<not> utf8 body then Some (Inl NotUtf8)
             else do {
               ending \<leftarrow> detect_line_ending body;
               let text = normalise_line_endings body;
               Some (case check_lines b text of
                       Inl r \<Rightarrow> Inl r
                     | Inr _ \<Rightarrow> Inr \<lparr>td_text = text, td_encoding = enc, td_line_ending = ending,
                                     td_indentation = detect_indentation text, td_bounds = b,
                                     td_undo = undo_new, td_saved_point = SavedAt None, td_revision = 0\<rparr>) })"

definition from_unsaved_bytes :: "bytes \<Rightarrow> document_bounds \<Rightarrow> (refusal_reason + text_document) option" where
  "from_unsaved_bytes s b = map_option (map_sum id (\<lambda>d. d\<lparr>td_saved_point := Unwritten\<rparr>)) (from_bytes s b)"

definition to_bytes :: "text_document \<Rightarrow> bytes" where
  "to_bytes d =
     (let body = (case td_line_ending d of
                    Lf \<Rightarrow> td_text d
                  | ending \<Rightarrow> concat (map (\<lambda>b. if b = 0x0a then ending_str ending else [b]) (td_text d)))
      in (if td_encoding d = Utf8Bom then BOM else []) @ body)"

definition is_dirty :: "text_document \<Rightarrow> bool" where
  "is_dirty d = (case td_saved_point d of Unwritten \<Rightarrow> True | SavedAt token \<Rightarrow> undo_token (td_undo d) \<noteq> token)"

definition doc_close_transaction :: "text_document \<Rightarrow> text_document option" where
  "doc_close_transaction d = do { u \<leftarrow> close_transaction (td_undo d); Some (d\<lparr>td_undo := u\<rparr>) }"

definition mark_saved :: "text_document \<Rightarrow> text_document option" where
  "mark_saved d = doc_close_transaction (d\<lparr>td_saved_point := SavedAt (undo_token (td_undo d))\<rparr>)"

definition save_point :: "text_document \<Rightarrow> nat option" where
  "save_point d = undo_token (td_undo d)"

definition mark_saved_at :: "nat option \<Rightarrow> text_document \<Rightarrow> text_document option" where
  "mark_saved_at point d = doc_close_transaction (d\<lparr>td_saved_point := SavedAt point\<rparr>)"

definition reload_from :: "bytes \<Rightarrow> text_document \<Rightarrow> ((refusal_reason + unit) \<times> text_document) option" where
  "reload_from s d = do {
     r \<leftarrow> from_bytes s (td_bounds d);
     Some (case r of
             Inl reason \<Rightarrow> (Inl reason, d)
           | Inr n \<Rightarrow> (Inr (), d\<lparr>td_text := td_text n, td_encoding := td_encoding n,
               td_line_ending := td_line_ending n, td_indentation := td_indentation n,
               td_undo := undo_clear (td_undo d), td_saved_point := SavedAt None, td_revision := td_revision d + 1\<rparr>)) }"

section \<open>Edits\<close>

definition check_bounds :: "document_bounds \<Rightarrow> bytes \<Rightarrow> refusal_reason + unit" where
  "check_bounds b s = (case check_declared_size b (length s) of Inl r \<Rightarrow> Inl r | Inr _ \<Rightarrow> check_lines b s)"

definition apply_transaction ::
  "heap_env \<Rightarrow> text_edit list \<Rightarrow> bool \<Rightarrow> text_document \<Rightarrow> ((refusal_reason + unit) \<times> text_document) option" where
  "apply_transaction h edits coalescable d = do {
     staged \<leftarrow> prepare h (td_undo d) edits coalescable;
     case staged of
       Inl r \<Rightarrow> Some (Inl r, d)
     | Inr None \<Rightarrow> Some (Inr (), d)
     | Inr (Some p) \<Rightarrow> do {
         n \<leftarrow> rewritten_length (length (td_text d)) (pu_edits p) Forward;
         case check_declared_size (td_bounds d) n of
           Inl r \<Rightarrow> Some (Inl r, d)
         | Inr _ \<Rightarrow> do {
             candidate \<leftarrow> rewrite_ordered_edits (td_text d) (pu_edits p) Forward;
             case check_bounds (td_bounds d) candidate of
               Inl r \<Rightarrow> Some (Inl r, d)
             | Inr _ \<Rightarrow> do {
                 u \<leftarrow> undo_commit h p (td_undo d);
                 Some (Inr (), d\<lparr>td_undo := u, td_text := candidate, td_revision := td_revision d + 1\<rparr>) } } } }"

definition edit_for :: "heap_env \<Rightarrow> bytes \<Rightarrow> nat \<Rightarrow> nat \<Rightarrow> rust_string \<Rightarrow> text_edit option" where
  "edit_for h text range_start range_end replacement = do {
     let start = floor_char_boundary text (min range_start (length text));
     let stop = max (floor_char_boundary text (min range_end (length text))) start;
     removed \<leftarrow> str_slice text start stop;
     Some \<lparr>te_start = start, te_removed = owned h removed, te_inserted = replacement\<rparr> }"

definition doc_replace ::
  "heap_env \<Rightarrow> nat \<Rightarrow> nat \<Rightarrow> bytes \<Rightarrow> text_document \<Rightarrow> ((refusal_reason + unit) \<times> text_document) option" where
  "doc_replace h range_start range_end replacement d = do {
     x \<leftarrow> edit_for h (td_text d) range_start range_end (owned h replacement);
     apply_transaction h [x] False d }"

definition char_count :: "bytes \<Rightarrow> nat" where
  "char_count s = length (filter (\<lambda>b. \<not> cont b) s)"

definition view_edit :: "heap_env \<Rightarrow> bytes \<Rightarrow> bytes \<Rightarrow> text_edit option" where
  "view_edit h text updated = do {
     let prefix = common_prefix text updated;
     text_rest \<leftarrow> str_slice text prefix (length text);
     updated_rest \<leftarrow> str_slice updated prefix (length updated);
     let suffix = common_suffix text_rest updated_rest;
     text_end \<leftarrow> checked_sub (length text) suffix;
     updated_end \<leftarrow> checked_sub (length updated) suffix;
     removed \<leftarrow> str_slice text prefix text_end;
     inserted \<leftarrow> str_slice updated prefix updated_end;
     Some \<lparr>te_start = prefix, te_removed = owned h removed, te_inserted = owned h inserted\<rparr> }"

definition sync_from_view ::
  "heap_env \<Rightarrow> bytes \<Rightarrow> text_document \<Rightarrow> ((refusal_reason + bool) \<times> text_document) option" where
  "sync_from_view h updated d =
     (if updated = td_text d then Some (Inr False, d)
      else do {
        x \<leftarrow> view_edit h (td_text d) updated;
        let coalescable = (rs_bytes (te_removed x) = [] \<and> char_count (rs_bytes (te_inserted x)) = 1);
        (r, d) \<leftarrow> apply_transaction h [x] coalescable d;
        Some (map_sum id (\<lambda>_. True) r, d) })"

text \<open>The search loop of \<open>replace_all\<close>; \<open>&self.text[search_from..]\<close> panics off a boundary.\<close>

function replace_loop :: "heap_env \<Rightarrow> bytes \<Rightarrow> bytes \<Rightarrow> bytes \<Rightarrow> nat \<Rightarrow> text_edit list option" where
  "replace_loop h query replacement text search_from =
     (if query = [] then Some [] else
      str_slice text search_from (length text) \<bind> (\<lambda>rest.
      case find_sub query rest of
        None \<Rightarrow> Some []
      | Some found \<Rightarrow>
          replace_loop h query replacement text (search_from + found + length query) \<bind> (\<lambda>xs.
          Some (\<lparr>te_start = search_from + found, te_removed = owned h query,
                 te_inserted = owned h replacement\<rparr> # xs))))"
  by pat_completeness auto
termination
  by (relation "measure (\<lambda>(h, q, r, s, n). length s + 1 - n)")
     (auto dest!: find_sub_SomeD simp: str_slice_def slice_def split: if_splits simp flip: length_greater_0_conv)

declare replace_loop.simps [simp del]

definition replace_all ::
  "heap_env \<Rightarrow> bytes \<Rightarrow> bytes \<Rightarrow> text_document \<Rightarrow> ((refusal_reason + nat) \<times> text_document) option" where
  "replace_all h query replacement d =
     (if query = [] then Some (Inr 0, d)
      else if query = replacement then Some (Inr (length (match_positions query (td_text d) 0)), d)
      else do {
        edits \<leftarrow> replace_loop h query replacement (td_text d) 0;
        if edits \<noteq> [] then do {
          (r, d) \<leftarrow> apply_transaction h edits False d;
          Some (map_sum id (\<lambda>_. length edits) r, d) }
        else Some (Inr 0, d) })"

fun validate_edits :: "bytes \<Rightarrow> text_edit list \<Rightarrow> nat \<Rightarrow> edit_refusal + unit" where
  "validate_edits text [] previous_end = Inr ()"
| "validate_edits text (x # xs) previous_end =
     (case checked_add (te_start x) (length (rs_bytes (te_removed x))) of
        None \<Rightarrow> Inl OutOfBounds
      | Some stop \<Rightarrow>
          if te_start x < previous_end then Inl OutOfOrder
          else if length text < stop \<or> \<not> is_char_boundary text (te_start x) \<or> \<not> is_char_boundary text stop
          then Inl OutOfBounds
          else if slice (te_start x) (stop - te_start x) text \<noteq> rs_bytes (te_removed x) then Inl Stale
          else validate_edits text xs stop)"

definition apply_edits ::
  "heap_env \<Rightarrow> text_edit list \<Rightarrow> text_document \<Rightarrow> ((edit_refusal + nat) \<times> text_document) option" where
  "apply_edits h edits d =
     (if edits = [] then Some (Inr 0, d)
      else case validate_edits (td_text d) edits 0 of
             Inl r \<Rightarrow> Some (Inl r, d)
           | Inr _ \<Rightarrow> do {
               (r, d) \<leftarrow> apply_transaction h edits False d;
               Some (map_sum Refused (\<lambda>_. length edits) r, d) })"

section \<open>Undo and redo\<close>

definition doc_undo :: "text_document \<Rightarrow> (bool \<times> text_document) option" where
  "doc_undo d = do {
     (t, u) \<leftarrow> step_back (td_undo d);
     case t of
       None \<Rightarrow> Some (False, d\<lparr>td_undo := u\<rparr>)
     | Some t \<Rightarrow> do {
         text \<leftarrow> replay_ordered_edits (td_text d) (tx_edits t) Undo;
         Some (True, d\<lparr>td_undo := u, td_text := text, td_revision := td_revision d + 1\<rparr>) } }"

definition doc_redo :: "text_document \<Rightarrow> (bool \<times> text_document) option" where
  "doc_redo d =
     (case step_forward (td_undo d) of
        (None, u) \<Rightarrow> Some (False, d\<lparr>td_undo := u\<rparr>)
      | (Some t, u) \<Rightarrow> do {
          text \<leftarrow> replay_ordered_edits (td_text d) (tx_edits t) Forward;
          Some (True, d\<lparr>td_undo := u, td_text := text, td_revision := td_revision d + 1\<rparr>) })"

section \<open>Positions\<close>

definition byte_offset_of_char :: "bytes \<Rightarrow> nat \<Rightarrow> nat" where
  "byte_offset_of_char s n =
     (case drop n (filter (\<lambda>i. \<not> cont (s ! i)) [0..<length s]) of [] \<Rightarrow> length s | i # _ \<Rightarrow> i)"

definition line_and_column :: "bytes \<Rightarrow> nat \<Rightarrow> (nat \<times> nat) option" where
  "line_and_column s offset = do {
     let offset = min offset (length s);
     before \<leftarrow> str_slice s 0 offset;
     let line = byte_count 0x0a before + 1;
     let line_start = extent ((=) 0x0a) before;
     rest \<leftarrow> str_slice s line_start offset;
     Some (line, char_count rest + 1) }"

end
