(* ===== verification/Edit_Rewrite.thy ===== *)
theory Edit_Rewrite
  imports Edit_Document
begin

text \<open>
  What playing edits over a text does.  Character boundaries are exactly the places where a valid string
  splits into two valid strings; an ordered set of edits that matches a text is played forwards to the
  text with every removed part replaced, and backwards to the text it came from, by the single-pass
  rewrite and by the in-place splices alike.
\<close>

section \<open>Boundaries of valid strings\<close>

lemma utf8_str_bytes: "utf8 s \<longleftrightarrow> (\<exists>cs. (\<forall>c \<in> set cs. is_scalar c) \<and> s = str_bytes cs)"
  unfolding utf8_def using from_utf8_sound from_utf8_str_bytes by fastforce

lemma utf8_Nil [simp]: "utf8 []"
  by (simp add: utf8_def)

lemma str_bytes_simps [simp]: "str_bytes [] = []" "str_bytes (c # cs) = encode_utf8 c @ str_bytes cs"
  "str_bytes (cs @ ds) = str_bytes cs @ str_bytes ds"
  by (simp_all add: str_bytes_def)

lemma from_utf8_bytes_append:
  "\<forall>c \<in> set cs. is_scalar c \<Longrightarrow> from_utf8 (str_bytes cs @ s) = map_option ((@) cs) (from_utf8 s)"
proof (induction cs)
  case Nil
  then show ?case by (cases "from_utf8 s") simp_all
qed (auto simp: from_utf8_encode_append option.map_comp comp_def intro!: option.map_cong)

lemma utf8_append [simp]: "utf8 a \<Longrightarrow> utf8 (a @ b) \<longleftrightarrow> utf8 b"
proof -
  assume "utf8 a"
  then obtain cs where "\<forall>c \<in> set cs. is_scalar c" "a = str_bytes cs" by (auto simp: utf8_str_bytes)
  then show ?thesis by (simp add: utf8_def from_utf8_bytes_append)
qed

lemma encode_shape:
  assumes "is_scalar c"
  obtains b bs where "encode_utf8 c = b # bs" "\<not> cont b" "\<forall>x \<in> set bs. cont x"
proof -
  obtain b bs where e: "encode_utf8 c = b # bs" by (cases "encode_utf8 c") simp_all
  then have "decode_step (b # bs) = Some (c, length (b # bs))" using decode_step_encode [OF assms, of "[]"] by simp
  then have "\<not> cont b \<and> (\<forall>x \<in> set bs. cont x)"
    by (auto simp: decode_step_def cont_def word_le_nat_alt word_less_nat_alt split: if_splits list.splits
        dest!: valid_second_cont)
  with e that show thesis by blast
qed

lemma utf8_first: "utf8 (b # s) \<Longrightarrow> \<not> cont b"
proof -
  assume "utf8 (b # s)"
  then obtain c cs where "is_scalar c" "b # s = encode_utf8 c @ str_bytes cs"
    by (auto simp: utf8_str_bytes) (metis list.distinct(1) list.exhaust list.set_intros(1) str_bytes_simps(1,2))
  then show ?thesis by (auto elim!: encode_shape)
qed

lemma boundary_splits: "utf8 s \<Longrightarrow> is_char_boundary s i \<Longrightarrow> utf8 (take i s) \<and> utf8 (drop i s)"
proof -
  assume "utf8 s" and i: "is_char_boundary s i"
  then obtain cs where cs: "\<forall>c \<in> set cs. is_scalar c" "s = str_bytes cs" by (auto simp: utf8_str_bytes)
  from cs i show ?thesis
  proof (induction cs arbitrary: s i)
    case Nil
    then show ?case by simp
  next
    case (Cons c cs)
    let ?e = "encode_utf8 c"
    show ?case
    proof (cases "length ?e \<le> i")
      case True
      have "is_char_boundary (str_bytes cs) (i - length ?e)"
        using Cons.prems True by (auto simp: is_char_boundary_def nth_append)
      from Cons.IH [OF _ refl this] Cons.prems True show ?thesis
        by (auto simp: utf8_def from_utf8_encode_append from_utf8_bytes_append)
    next
      case False
      obtain b bs where "encode_utf8 c = b # bs" "\<forall>x \<in> set bs. cont x"
        using Cons.prems(1) by (auto elim: encode_shape)
      with False have "i = 0" using Cons.prems
        by (cases i) (auto simp: is_char_boundary_def nth_append)
      moreover have "utf8 s" using Cons.prems by (auto simp: utf8_str_bytes intro!: exI [of _ "c # cs"])
      ultimately show ?thesis by simp
    qed
  qed
qed

lemma utf8_boundary: "utf8 a \<Longrightarrow> utf8 b \<Longrightarrow> is_char_boundary (a @ b) (length a)"
  by (cases b) (auto simp: is_char_boundary_def dest: utf8_first)

lemma boundary_ends [simp]: "is_char_boundary s 0" "is_char_boundary s (length s)"
  by (simp_all add: is_char_boundary_def)

lemma char_boundary_le: "is_char_boundary s i \<Longrightarrow> i \<le> length s"
  by (auto simp: is_char_boundary_def)

text \<open>A slice of a string written as three valid parts.\<close>

lemma slice_middle:
  assumes "utf8 a" "utf8 b" "utf8 c"
  shows "str_slice (a @ b @ c) (length a) (length a + length b) = Some b"
    "replace_range (a @ b @ c) (length a) (length a + length b) r = Some (a @ r @ c)"
  using utf8_boundary [of a "b @ c"] utf8_boundary [of "a @ b" c] assms
  by (auto simp: str_slice_def replace_range_def slice_def)

section \<open>Edits that match a text\<close>

text \<open>
  \<open>edits_fit pos xs rest\<close>: the edits are in ascending order without overlap and remove what \<open>rest\<close>, the
  text from offset \<open>pos\<close> on, holds there; \<open>edited pos xs rest\<close> is that text after them.
\<close>

fun edits_fit :: "nat \<Rightarrow> text_edit list \<Rightarrow> bytes \<Rightarrow> bool" where
  "edits_fit pos [] rest \<longleftrightarrow> utf8 rest"
| "edits_fit pos (x # xs) rest \<longleftrightarrow> pos \<le> te_start x \<and> te_end x - pos \<le> length rest \<and>
     slice (te_start x - pos) (length (rs_bytes (te_removed x))) rest = rs_bytes (te_removed x) \<and>
     utf8 (take (te_start x - pos) rest) \<and> utf8 (rs_bytes (te_removed x)) \<and> utf8 (rs_bytes (te_inserted x)) \<and>
     edits_fit (te_end x) xs (drop (te_end x - pos) rest)"

fun edited :: "nat \<Rightarrow> text_edit list \<Rightarrow> bytes \<Rightarrow> bytes" where
  "edited pos [] rest = rest"
| "edited pos (x # xs) rest =
     take (te_start x - pos) rest @ rs_bytes (te_inserted x) @ edited (te_end x) xs (drop (te_end x - pos) rest)"

lemma edits_fit_ConsE:
  assumes "edits_fit pos (x # xs) rest"
  obtains gap post where "rest = gap @ rs_bytes (te_removed x) @ post" "te_start x = pos + length gap"
    "utf8 gap" "utf8 (rs_bytes (te_removed x))" "utf8 (rs_bytes (te_inserted x))" "edits_fit (te_end x) xs post"
    "edited pos (x # xs) rest = gap @ rs_bytes (te_inserted x) @ edited (te_end x) xs post"
proof (rule that)
  let ?n = "te_start x - pos" and ?r = "rs_bytes (te_removed x)"
  have n: "te_end x - pos = ?n + length ?r" "?n + length ?r \<le> length rest" using assms by (simp_all add: te_end_def)
  have "take (length ?r) (drop ?n rest) = ?r" using assms by (simp add: slice_def)
  moreover have "drop (te_end x - pos) rest = drop (length ?r) (drop ?n rest)" using n by (simp add: add.commute)
  ultimately show "rest = take ?n rest @ ?r @ drop (te_end x - pos) rest"
    by (metis append_take_drop_id)
qed (use assms in \<open>auto simp: te_end_def\<close>)

lemma edits_fit_ConsI:
  assumes "rest = gap @ rs_bytes (te_removed x) @ post" "te_start x = pos + length gap"
    "utf8 gap" "utf8 (rs_bytes (te_removed x))" "utf8 (rs_bytes (te_inserted x))" "edits_fit (te_end x) xs post"
  shows "edits_fit pos (x # xs) rest"
    "edited pos (x # xs) rest = gap @ rs_bytes (te_inserted x) @ edited (te_end x) xs post"
  using assms by (auto simp: te_end_def slice_def)

lemma edits_fit_utf8: "edits_fit pos xs rest \<Longrightarrow> utf8 rest \<and> utf8 (edited pos xs rest)"
proof (induction xs arbitrary: pos rest)
  case (Cons x xs)
  from Cons.prems show ?case by (rule edits_fit_ConsE) (use Cons.IH in \<open>simp del: edited.simps\<close>)
qed simp

text \<open>The text an edit direction reads and the one it writes.\<close>

fun source_text :: "edit_direction \<Rightarrow> nat \<Rightarrow> text_edit list \<Rightarrow> bytes \<Rightarrow> bytes" where
  "source_text Forward pos xs rest = rest"
| "source_text Undo pos xs rest = edited pos xs rest"

fun target_text :: "edit_direction \<Rightarrow> nat \<Rightarrow> text_edit list \<Rightarrow> bytes \<Rightarrow> bytes" where
  "target_text Forward pos xs rest = edited pos xs rest"
| "target_text Undo pos xs rest = rest"

lemma edit_textsE:
  assumes "edits_fit pos (x # xs) rest"
  obtains gap post where "te_start x = pos + length gap" "utf8 gap"
    "utf8 (fst (edit_parts dir x))" "utf8 (snd (edit_parts dir x))" "edits_fit (te_end x) xs post"
    "utf8 (source_text dir (te_end x) xs post)"
    "source_text dir pos (x # xs) rest = gap @ fst (edit_parts dir x) @ source_text dir (te_end x) xs post"
    "target_text dir pos (x # xs) rest = gap @ snd (edit_parts dir x) @ target_text dir (te_end x) xs post"
  using assms by (rule edits_fit_ConsE) (cases dir; use edits_fit_utf8 that in \<open>auto simp del: edited.simps\<close>)

definition part_sum :: "(text_edit \<Rightarrow> bytes) \<Rightarrow> text_edit list \<Rightarrow> nat" where
  "part_sum f xs = sum_list (map (\<lambda>x. length (f x)) xs)"

lemma part_sum_simps [simp]: "part_sum f [] = 0" "part_sum f (x # xs) = length (f x) + part_sum f xs"
  by (simp_all add: part_sum_def)

lemma edit_texts_length:
  "edits_fit pos xs rest \<Longrightarrow>
     length (source_text dir pos xs rest) + part_sum (snd \<circ> edit_parts dir) xs =
     length (target_text dir pos xs rest) + part_sum (fst \<circ> edit_parts dir) xs \<and>
     part_sum (fst \<circ> edit_parts dir) xs \<le> length (source_text dir pos xs rest) \<and>
     part_sum (snd \<circ> edit_parts dir) xs \<le> length (target_text dir pos xs rest)"
proof (induction xs arbitrary: pos rest)
  case Nil
  then show ?case by (cases dir) simp_all
next
  case (Cons x xs)
  from Cons.prems show ?case
  proof (rule edit_textsE [where dir = dir])
    fix gap post
    assume "edits_fit (te_end x) xs post"
      "source_text dir pos (x # xs) rest = gap @ fst (edit_parts dir x) @ source_text dir (te_end x) xs post"
      "target_text dir pos (x # xs) rest = gap @ snd (edit_parts dir x) @ target_text dir (te_end x) xs post"
    with Cons.IH [of "te_end x" post] show ?thesis by simp
  qed
qed

section \<open>The single-pass rewrite\<close>

lemma rewritten_length_sum:
  assumes "part_sum (fst \<circ> edit_parts dir) xs \<le> n" "n - part_sum (fst \<circ> edit_parts dir) xs + part_sum (snd \<circ> edit_parts dir) xs \<le> usize_max"
    "n \<le> usize_max"
  shows "rewritten_length n xs dir =
    Some (n - part_sum (fst \<circ> edit_parts dir) xs + part_sum (snd \<circ> edit_parts dir) xs)"
proof -
  let ?f = "\<lambda>x (removed, inserted). checked_add removed (length (fst (edit_parts dir x))) \<bind> (\<lambda>removed.
      checked_add inserted (length (snd (edit_parts dir x))) \<bind> (\<lambda>inserted. Some (removed, inserted)))"
  have "r + part_sum (fst \<circ> edit_parts dir) xs \<le> usize_max \<Longrightarrow> i + part_sum (snd \<circ> edit_parts dir) xs \<le> usize_max \<Longrightarrow>
      foldM ?f xs (r, i) = Some (r + part_sum (fst \<circ> edit_parts dir) xs, i + part_sum (snd \<circ> edit_parts dir) xs)" for r i
    by (induction xs arbitrary: r i) (simp_all add: checked_add_def add.assoc)
  from this [of 0 0] assms show ?thesis by (simp add: rewritten_length_def checked_add_def)
qed

lemma rewrite_loop:
  assumes "edits_fit pos xs rest" "utf8 pre" "s = pre @ source_text dir pos xs rest"
  shows "\<exists>out oc sc tail. foldM (rewrite_step s dir) xs (acc, pos, length pre) = Some (acc @ out, oc, sc) \<and>
     str_slice s sc (length s) = Some tail \<and> out @ tail = target_text dir pos xs rest"
  using assms
proof (induction xs arbitrary: pos rest pre acc)
  case Nil
  then have "source_text dir pos [] rest = rest" "target_text dir pos [] rest = rest" by (cases dir; simp)+
  then show ?case using Nil slice_middle(1) [of pre rest "[]"] by simp
next
  case (Cons x xs)
  from Cons.prems(1) show ?case
  proof (rule edit_textsE [where dir = dir])
    fix gap post
    assume a: "te_start x = pos + length gap" "utf8 gap" "utf8 (fst (edit_parts dir x))" "edits_fit (te_end x) xs post"
      "utf8 (source_text dir (te_end x) xs post)"
      "source_text dir pos (x # xs) rest = gap @ fst (edit_parts dir x) @ source_text dir (te_end x) xs post"
      "target_text dir pos (x # xs) rest = gap @ snd (edit_parts dir x) @ target_text dir (te_end x) xs post"
    have s: "s = pre @ gap @ fst (edit_parts dir x) @ source_text dir (te_end x) xs post"
      using Cons.prems(3) a(6) by simp
    have "rewrite_step s dir x (acc, pos, length pre) =
        Some (acc @ gap @ snd (edit_parts dir x), te_end x, length (pre @ gap @ fst (edit_parts dir x)))"
      using a Cons.prems(2) s slice_middle(1) [of pre gap "fst (edit_parts dir x) @ source_text dir (te_end x) xs post"]
      by (simp add: rewrite_step_def)
    moreover have "utf8 (pre @ gap @ fst (edit_parts dir x))" using a Cons.prems(2) by simp
    ultimately show ?thesis
      using Cons.IH [OF a(4), of "pre @ gap @ fst (edit_parts dir x)" "acc @ gap @ snd (edit_parts dir x)"] s a(7)
      by fastforce
  qed
qed

lemma rewrite_correct:
  assumes "edits_fit 0 xs s" "length s \<le> usize_max" "length (edited 0 xs s) \<le> usize_max"
  shows "rewrite_ordered_edits (source_text dir 0 xs s) xs dir = Some (target_text dir 0 xs s)"
proof -
  have "length (source_text dir 0 xs s) \<le> usize_max" "length (target_text dir 0 xs s) \<le> usize_max"
    using assms(2,3) by (cases dir; simp)+
  then have "rewritten_length (length (source_text dir 0 xs s)) xs dir \<noteq> None"
    using edit_texts_length [OF assms(1), of dir] by (subst rewritten_length_sum) auto
  then show ?thesis
    using rewrite_loop [OF assms(1), of "[]" "source_text dir 0 xs s" dir "[]"]
    by (auto simp: rewrite_ordered_edits_def)
qed

section \<open>The in-place splices\<close>

lemma splice_loop:
  assumes "edits_fit pos xs rest" "utf8 pre" "length pre = pos" "s = pre @ source_text dir pos xs rest"
    "length xs = 1 \<or> (\<forall>x \<in> set xs. length (rs_bytes (te_removed x)) = length (rs_bytes (te_inserted x)))"
  shows "foldM (splice_edit dir) xs s = Some (pre @ target_text dir pos xs rest)"
  using assms
proof (induction xs arbitrary: pos rest pre s)
  case Nil
  then show ?case by (cases dir) simp_all
next
  case (Cons x xs)
  from Cons.prems(1) show ?case
  proof (rule edit_textsE [where dir = dir])
    fix gap post
    assume a: "te_start x = pos + length gap" "utf8 gap" "utf8 (fst (edit_parts dir x))" "utf8 (snd (edit_parts dir x))"
      "edits_fit (te_end x) xs post" "utf8 (source_text dir (te_end x) xs post)"
      "source_text dir pos (x # xs) rest = gap @ fst (edit_parts dir x) @ source_text dir (te_end x) xs post"
      "target_text dir pos (x # xs) rest = gap @ snd (edit_parts dir x) @ target_text dir (te_end x) xs post"
    have step: "splice_edit dir x s = Some ((pre @ gap @ snd (edit_parts dir x)) @ source_text dir (te_end x) xs post)"
      using a Cons.prems(2-4) slice_middle(2) [of "pre @ gap" "fst (edit_parts dir x)" "source_text dir (te_end x) xs post"]
      by (simp add: splice_edit_def)
    show ?thesis
    proof (cases "xs = []")
      case True
      then show ?thesis using step a(8) by (cases dir) simp_all
    next
      case False
      then have len: "length (fst (edit_parts dir x)) = length (snd (edit_parts dir x))"
          "\<forall>x \<in> set xs. length (rs_bytes (te_removed x)) = length (rs_bytes (te_inserted x))"
        using Cons.prems(5) by (cases dir; auto)+
      have "length (pre @ gap @ snd (edit_parts dir x)) = te_end x"
        using a(1) Cons.prems(3) len(1) Cons.prems(5) False by (cases dir) (auto simp: te_end_def)
      then show ?thesis
        using Cons.IH [OF a(5) _ _ refl, of "pre @ gap @ snd (edit_parts dir x)"] step a len(2) Cons.prems(2) by simp
    qed
  qed
qed

text \<open>Both replays agree: forwards they give the edited text, backwards the original.\<close>

lemma replay_correct:
  assumes "edits_fit 0 xs s" "length s \<le> usize_max" "length (edited 0 xs s) \<le> usize_max"
  shows "replay_ordered_edits (source_text dir 0 xs s) xs dir = Some (target_text dir 0 xs s)"
  using splice_loop [OF assms(1), of "[]" "source_text dir 0 xs s" dir] rewrite_correct [OF assms, of dir]
  by (simp add: replay_ordered_edits_def)

end
