(* ===== verification/Edit_Undo_Inv.thy ===== *)
theory Edit_Undo_Inv
  imports Edit_Rewrite
begin

text \<open>
  The undo history keeps its accounts: the payload is exactly the weight of the retained transactions,
  entries and bytes stay within their budgets, serial numbers grow.  Staging a transaction never
  panics, and committing what was staged keeps the invariant and leaves exactly the applied entries that
  were not retired, followed by (or merged with) the new one.
\<close>

section \<open>Accounts\<close>

definition string_ok :: "rust_string \<Rightarrow> bool" where
  "string_ok r \<longleftrightarrow> length (rs_bytes r) \<le> rs_capacity r"

definition edit_ok :: "text_edit \<Rightarrow> bool" where
  "edit_ok x \<longleftrightarrow> string_ok (te_removed x) \<and> string_ok (te_inserted x)"

definition edit_caps :: "text_edit list \<Rightarrow> nat" where
  "edit_caps xs = sum_list (map (\<lambda>x. rs_capacity (te_removed x) + rs_capacity (te_inserted x)) xs)"

lemma edit_caps_simps [simp]: "edit_caps [] = 0" "edit_caps (xs @ ys) = edit_caps xs + edit_caps ys"
  "edit_caps (x # xs) = rs_capacity (te_removed x) + rs_capacity (te_inserted x) + edit_caps xs"
  by (simp_all add: edit_caps_def)

definition raw_storage :: "heap_env \<Rightarrow> text_edit list \<Rightarrow> nat" where
  "raw_storage h xs = length xs * size_edit h + edit_caps xs"

lemma edit_storage_raw: "edit_storage h xs = min (raw_storage h xs) usize_max"
proof -
  have "xs \<noteq> [] \<Longrightarrow> fold (\<lambda>x n. sat_add (sat_add n (rs_capacity (te_removed x))) (rs_capacity (te_inserted x))) xs n =
      min (n + edit_caps xs) usize_max" for n
  proof (induction xs arbitrary: n)
    case (Cons x xs)
    then show ?case by (cases "xs = []") (auto simp: sat_add_def min_def)
  qed simp
  then show ?thesis by (cases "xs = []") (simp_all add: edit_storage_def raw_storage_def)
qed

definition weight_sum :: "heap_env \<Rightarrow> transaction list \<Rightarrow> nat" where
  "weight_sum h ts = sum_list (map (tx_weight h) ts)"

lemma weight_sum_simps [simp]: "weight_sum h [] = 0" "weight_sum h (ts @ us) = weight_sum h ts + weight_sum h us"
  "weight_sum h (t # ts) = tx_weight h t + weight_sum h ts"
  by (simp_all add: weight_sum_def)

lemma weight_sum_take_drop: "weight_sum h (take n ts) + weight_sum h (drop n ts) = weight_sum h ts"
  by (metis append_take_drop_id weight_sum_simps(2))

lemma fold_weights: "n \<le> usize_max \<Longrightarrow> fold (\<lambda>t n. sat_add n (tx_weight h t)) ts n = min (n + weight_sum h ts) usize_max"
  by (induction ts arbitrary: n) (auto simp: sat_add_def min_def)

section \<open>The invariant\<close>

definition tx_ok :: "transaction \<Rightarrow> bool" where
  "tx_ok t \<longleftrightarrow> tx_edits t \<noteq> [] \<and> list_all edit_ok (tx_edits t) \<and>
     (tx_open t \<longrightarrow> length (tx_edits t) = 1 \<and> rs_bytes (te_removed (hd (tx_edits t))) = [])"

definition serials_ok :: "undo_history \<Rightarrow> bool" where
  "serials_ok u \<longleftrightarrow> sorted_wrt (<) (map tx_serial (uh_entries u)) \<and>
     (\<forall>t \<in> set (uh_entries u). tx_serial t < uh_next_serial u) \<and>
     (\<forall>b. uh_base_token u = Some b \<longrightarrow> b < uh_next_serial u \<and> (\<forall>t \<in> set (uh_entries u). b < tx_serial t))"

definition undo_ok :: "heap_env \<Rightarrow> undo_history \<Rightarrow> bool" where
  "undo_ok h u \<longleftrightarrow> uh_applied u \<le> length (uh_entries u) \<and> length (uh_entries u) \<le> uh_max_entries u \<and>
     0 < uh_max_entries u \<and> length (uh_entries u) \<le> uh_slots u \<and> 2 * uh_max_bytes u < usize_max \<and>
     uh_payload_bytes u = weight_sum h (uh_entries u) \<and>
     uh_payload_bytes u + uh_slots u * size_transaction h \<le> uh_max_bytes u \<and>
     list_all tx_ok (uh_entries u) \<and> serials_ok u"

lemma undo_okD:
  assumes "undo_ok h u"
  shows "uh_applied u \<le> length (uh_entries u)" "uh_payload_bytes u = weight_sum h (uh_entries u)"
    "weight_sum h (uh_entries u) \<le> uh_max_bytes u" "2 * uh_max_bytes u < usize_max" "list_all tx_ok (uh_entries u)"
    "serials_ok u"
  using assms by (auto simp: undo_ok_def)

lemma undo_new_ok: "undo_ok h undo_new"
  by (simp add: undo_ok_def undo_new_def with_limits_def DEFAULT_MAX_ENTRIES_def DEFAULT_MAX_BYTES_def usize_max_def serials_ok_def)

lemma undo_clear_ok: "undo_ok h u \<Longrightarrow> undo_ok h (undo_clear u)"
  by (simp add: undo_ok_def undo_clear_def serials_ok_def)

text \<open>Changing only whether an entry may still be extended keeps everything.\<close>

lemma close_entry_ok:
  assumes "undo_ok h u" "i < length (uh_entries u)" "n \<le> length (uh_entries u)"
  shows "undo_ok h (u\<lparr>uh_entries := (uh_entries u)[i := (uh_entries u ! i)\<lparr>tx_open := False\<rparr>], uh_applied := n\<rparr>)"
proof -
  let ?t = "(uh_entries u ! i)\<lparr>tx_open := False\<rparr>"
  have same: "map f ((uh_entries u)[i := ?t]) = map f (uh_entries u)" if "f ?t = f (uh_entries u ! i)" for f :: "transaction \<Rightarrow> nat"
    using that assms(2) by (simp add: map_update list_update_same_conv)
  have "weight_sum h ((uh_entries u)[i := ?t]) = weight_sum h (uh_entries u)"
    unfolding weight_sum_def by (subst same) (simp_all add: tx_weight_def)
  moreover have "tx_ok ?t" using assms(1,2) by (auto simp: undo_ok_def tx_ok_def list_all_length)
  then have "list_all tx_ok ((uh_entries u)[i := ?t])"
    using assms(1) by (auto simp: undo_ok_def list_all_iff dest!: set_update_subset_insert [THEN subsetD])
  moreover have "serials_ok (u\<lparr>uh_entries := (uh_entries u)[i := ?t], uh_applied := n\<rparr>)"
  proof -
    have serials: "map tx_serial ((uh_entries u)[i := ?t]) = map tx_serial (uh_entries u)" by (rule same) simp
    have all: "(\<forall>t \<in> set ts. P (tx_serial t)) \<longleftrightarrow> (\<forall>n \<in> set (map tx_serial ts). P n)" for P ts by simp
    have "(\<forall>t \<in> set ((uh_entries u)[i := ?t]). P (tx_serial t)) \<longleftrightarrow> (\<forall>t \<in> set (uh_entries u). P (tx_serial t))" for P
      unfolding all serials ..
    from this [of "\<lambda>n. n < uh_next_serial u"] this [of "(<) _"] show ?thesis
      using undo_okD(6) [OF assms(1)] serials by (simp add: serials_ok_def)
  qed
  ultimately show ?thesis using assms by (simp add: undo_ok_def)
qed

section \<open>Retention\<close>

lemma slots_exact:
  assumes "2 * m < usize_max" "sat_add p (slot_storage h n) \<le> m"
  shows "p + n * size_transaction h \<le> m"
  using assms by (auto simp: sat_add_def slot_storage_def sat_mul_def min_def split: if_splits)

definition retire_post :: "heap_env \<Rightarrow> undo_history \<Rightarrow> nat \<Rightarrow> nat \<Rightarrow> nat \<Rightarrow> nat \<Rightarrow> nat + nat \<times> nat \<times> nat \<Rightarrow> bool" where
  "retire_post h u limit payload count retired r \<longleftrightarrow> (\<forall>payload' count' retired'. r = Inr (payload', count', retired') \<longrightarrow>
      retired \<le> retired' \<and> retired' \<le> limit \<and> count' + (retired' - retired) = count \<and>
      payload' + weight_sum h (take (retired' - retired) (drop retired (uh_entries u))) = payload \<and>
      count' \<le> uh_max_entries u \<and> payload' + count' * size_transaction h \<le> uh_max_bytes u)"

lemma retire_loop_ok:
  assumes "undo_ok h u" "protected \<le> uh_applied u" "retired \<le> uh_applied u - protected"
    "weight_sum h (drop retired (take (uh_applied u - protected) (uh_entries u))) \<le> payload"
    "uh_applied u - protected - retired \<le> count"
  shows "ok (retire_post h u (uh_applied u - protected) payload count retired)
    (retire_loop h u protected payload count retired)"
  using assms
proof (induction h u protected payload count retired rule: retire_loop.induct)
  case (1 h u protected payload count retired)
  note D = undo_okD [OF "1.prems"(1)]
  let ?over = "uh_max_entries u < count \<or> uh_max_bytes u < sat_add payload (slot_storage h count)"
  let ?limit = "uh_applied u - protected"
  show ?case
  proof (cases "?over \<and> retired < ?limit")
    case True
    then have r: "retired < length (uh_entries u)" using D(1) by linarith
    let ?t = "uh_entries u ! retired"
    have step: "drop retired (take ?limit (uh_entries u)) = ?t # drop (Suc retired) (take ?limit (uh_entries u))"
      using True r by (subst Cons_nth_drop_Suc [symmetric]) auto
    have w: "tx_weight h ?t \<le> payload" using "1.prems"(4) step by simp
    have pos: "0 < count" using True "1.prems"(5) by linarith
    have IH: "ok (retire_post h u ?limit (payload - tx_weight h ?t) (count - 1) (retired + 1))
        (retire_loop h u protected (payload - tx_weight h ?t) (count - 1) (retired + 1))"
      using "1.IH" [of ?limit ?t "payload - tx_weight h ?t" "count - 1"] "1.prems" True r w step
      by (auto simp: rd_def)
    have eq: "retire_loop h u protected payload count retired =
        retire_loop h u protected (payload - tx_weight h ?t) (count - 1) (retired + 1)"
      using True r w "1.prems"(2,5) by (subst retire_loop.simps) (auto simp: rd_def)
    have d: "drop retired (uh_entries u) = ?t # drop (Suc retired) (uh_entries u)"
      using r by (simp add: Cons_nth_drop_Suc)
    have "retire_post h u ?limit payload count retired x" if "retire_post h u ?limit (payload - tx_weight h ?t) (count - 1) (retired + 1) x" for x
      unfolding retire_post_def
    proof (intro allI impI)
      fix p c n assume x: "x = Inr (p, c, n)"
      then have "n - retired = Suc (n - Suc retired)" using that by (auto simp: retire_post_def)
      then show "retired \<le> n \<and> n \<le> ?limit \<and> c + (n - retired) = count \<and>
          p + weight_sum h (take (n - retired) (drop retired (uh_entries u))) = payload \<and>
          c \<le> uh_max_entries u \<and> p + c * size_transaction h \<le> uh_max_bytes u"
        using that x w d pos by (auto simp: retire_post_def)
    qed
    with IH show ?thesis unfolding eq by (rule ok_mono)
  next
    case False
    then show ?thesis using "1.prems"(2,3) slots_exact [OF D(4), of payload h count]
      by (subst retire_loop.simps) (auto simp: retire_post_def)
  qed
qed

definition plan_slots :: "undo_history \<Rightarrow> retention_plan \<Rightarrow> nat" where
  "plan_slots u rp = (case rp_slots rp of None \<Rightarrow> uh_slots u | Some c \<Rightarrow> c)"

lemma plan_retention_ok:
  assumes "undo_ok h u" "heap_ok h" "protected \<le> uh_applied u"
    "weight_sum h (take (uh_applied u - protected) (uh_entries u)) \<le> payload" "uh_applied u \<le> count + protected"
  shows "ok (\<lambda>r. case r of Inl n \<Rightarrow> True | Inr rp \<Rightarrow>
      rp_retired rp \<le> uh_applied u - protected \<and> rp_payload_bytes rp + weight_sum h (take (rp_retired rp) (uh_entries u)) = payload \<and>
      rp_retired rp \<le> count \<and> count - rp_retired rp \<le> uh_max_entries u \<and> count - rp_retired rp \<le> plan_slots u rp \<and>
      rp_payload_bytes rp + plan_slots u rp * size_transaction h \<le> uh_max_bytes u)
    (plan_retention h u payload count protected)"
proof -
  note D = undo_okD [OF assms(1)]
  have pos: "0 < size_transaction h" and cap: "n \<le> deque_cap h n" for n using assms(2) by (auto simp: heap_ok_def)
  obtain r where r: "retire_loop h u protected payload count 0 = Some r" "retire_post h u (uh_applied u - protected) payload count 0 r"
    using retire_loop_ok [OF assms(1,3), of 0 payload count] assms(4) le_diff_conv [THEN iffD2, OF assms(5)]
    by (auto simp: ok_iff)
  show ?thesis
  proof (cases r)
    case (Inl n)
    then show ?thesis using r(1) by (simp add: plan_retention_def)
  next
    case (Inr x)
    then obtain p c n where x: "x = (p, c, n)" by (cases x)
    then have f: "n \<le> uh_applied u - protected" "c + n = count" "p + weight_sum h (take n (uh_entries u)) = payload"
      "c \<le> uh_max_entries u" "p + c * size_transaction h \<le> uh_max_bytes u" using r(2) Inr by (auto simp: retire_post_def)
    let ?spare = "(uh_max_bytes u - p) div size_transaction h"
    have c: "c \<le> ?spare" using f(5) pos by (simp add: less_eq_div_iff_mult_less_eq)
    have s: "k \<le> ?spare \<Longrightarrow> p + k * size_transaction h \<le> uh_max_bytes u" for k
      using f(5) pos by (simp add: less_eq_div_iff_mult_less_eq)
    define k where "k = min (min (max (max (sat_mul (uh_slots u) 2) 4) c) (uh_max_entries u)) ?spare"
    have "c \<le> k" unfolding k_def using c f(4) by (intro min.boundedI max.coboundedI2 order_refl)
    then have k: "c \<le> deque_cap h k" using cap [of k] by (rule order_trans)
    have plan: "plan_retention h u payload count protected =
        (if c \<le> uh_slots u \<and> uh_slots u \<le> ?spare
         then Some (Inr \<lparr>rp_retired = n, rp_payload_bytes = p, rp_slots = None\<rparr>)
         else if uh_max_bytes u < sat_add p (slot_storage h (deque_cap h k))
         then Some (Inl (sat_add p (slot_storage h (deque_cap h k))))
         else Some (Inr \<lparr>rp_retired = n, rp_payload_bytes = p, rp_slots = Some (deque_cap h k)\<rparr>))"
    proof -
      have "checked_sub (uh_max_bytes u) p = Some (uh_max_bytes u - p)" using f(5) by simp
      then show ?thesis
        by (simp only: plan_retention_def r(1) Inr x Let_def bind.bind_lunit sum.case prod.case flip: k_def)
    qed
    have "count - n = c" using f(2) by simp
    then show ?thesis unfolding plan using f c s [of "uh_slots u"] k slots_exact [OF D(4), of p h "deque_cap h k"]
      by (simp add: plan_slots_def not_less)
  qed
qed

section \<open>Recording a transaction\<close>

text \<open>The base token once the first \<open>n\<close> entries are retired.\<close>

definition base_after :: "undo_history \<Rightarrow> nat \<Rightarrow> nat option" where
  "base_after u n = (if n = 0 then uh_base_token u else Some (tx_serial (uh_entries u ! (n - 1))))"

definition kept_entries :: "undo_history \<Rightarrow> nat \<Rightarrow> transaction list" where
  "kept_entries u n = drop n (take (uh_applied u) (uh_entries u))"

text \<open>\<open>extends t xs t'\<close>: \<open>t'\<close> is the single insertion \<open>t\<close> with the insertion \<open>xs\<close> typed right behind it.\<close>

definition extends :: "transaction \<Rightarrow> text_edit list \<Rightarrow> transaction \<Rightarrow> bool" where
  "extends t xs t' \<longleftrightarrow> (\<exists>x y r. xs = [x] \<and> rs_bytes (te_removed x) = [] \<and> tx_edits t = [y] \<and> rs_bytes (te_removed y) = [] \<and>
     te_start x = te_start y + length (rs_bytes (te_inserted y)) \<and> tx_edits t' = [y\<lparr>te_inserted := r\<rparr>] \<and>
     rs_bytes r = rs_bytes (te_inserted y) @ rs_bytes (te_inserted x))"

definition recorded :: "undo_history \<Rightarrow> bool \<Rightarrow> text_edit list \<Rightarrow> undo_history \<Rightarrow> bool" where
  "recorded u merged xs u' \<longleftrightarrow> uh_next_serial u' = uh_next_serial u + 1 \<and> uh_max_bytes u' = uh_max_bytes u \<and>
     uh_applied u' = length (uh_entries u') \<and>
     (\<exists>n t. n \<le> uh_applied u \<and> uh_base_token u' = base_after u n \<and> tx_serial t = uh_next_serial u \<and>
        (if merged then kept_entries u n \<noteq> [] \<and> extends (last (kept_entries u n)) xs t \<and> uh_entries u' = butlast (kept_entries u n) @ [t]
         else tx_edits t = xs \<and> uh_entries u' = kept_entries u n @ [t]))"

lemma kept_props:
  assumes "undo_ok h u" "n \<le> uh_applied u"
  shows "length (kept_entries u n) = uh_applied u - n" "list_all tx_ok (kept_entries u n)"
    "set (kept_entries u n) \<subseteq> set (uh_entries u)" "sorted_wrt (<) (map tx_serial (kept_entries u n))"
    "weight_sum h (take n (uh_entries u)) + weight_sum h (kept_entries u n) = weight_sum h (take (uh_applied u) (uh_entries u))"
    "\<And>b. base_after u n = Some b \<Longrightarrow> b < uh_next_serial u \<and> (\<forall>t \<in> set (kept_entries u n). b < tx_serial t)"
proof -
  note D = undo_okD [OF assms(1)]
  let ?es = "uh_entries u"
  show "length (kept_entries u n) = uh_applied u - n" using D(1) by (simp add: kept_entries_def)
  show sub: "set (kept_entries u n) \<subseteq> set ?es"
    by (auto simp: kept_entries_def dest: in_set_dropD in_set_takeD)
  then show "list_all tx_ok (kept_entries u n)" using D(5) by (auto simp: list_all_iff)
  have sorted: "sorted_wrt (<) (map tx_serial ?es)" using D(6) by (simp add: serials_ok_def)
  then show "sorted_wrt (<) (map tx_serial (kept_entries u n))"
    by (simp add: kept_entries_def drop_map take_map sorted_wrt_drop sorted_wrt_take flip: drop_map take_map)
  show "weight_sum h (take n ?es) + weight_sum h (kept_entries u n) = weight_sum h (take (uh_applied u) ?es)"
    using weight_sum_take_drop [of h n "take (uh_applied u) ?es"] assms(2) by (simp add: kept_entries_def min_absorb1)
  fix b assume b: "base_after u n = Some b"
  show "b < uh_next_serial u \<and> (\<forall>t \<in> set (kept_entries u n). b < tx_serial t)"
  proof (cases "n = 0")
    case True
    then show ?thesis using b sub D(6) by (auto simp: base_after_def serials_ok_def)
  next
    case False
    then have n: "n - 1 < length ?es" using assms(2) D(1) by linarith
    have "tx_serial (?es ! (n - 1)) < tx_serial t" if "t \<in> set (kept_entries u n)" for t
    proof -
      from that obtain j where j: "j < length (kept_entries u n)" "t = kept_entries u n ! j" by (auto simp: in_set_conv_nth)
      then have "n + j < uh_applied u" "t = ?es ! (n + j)" using D(1) by (auto simp: kept_entries_def)
      then show ?thesis using sorted False D(1) by (simp add: sorted_wrt_iff_nth_less)
    qed
    then show ?thesis using b False n D(6) by (auto simp: base_after_def serials_ok_def)
  qed
qed

lemma recorded_ok:
  assumes "undo_ok h u" "n \<le> uh_applied u" "front = kept_entries u n \<or> front = butlast (kept_entries u n)"
    "tx_ok t" "tx_serial t = uh_next_serial u"
    "length front + 1 \<le> uh_max_entries u" "length front + 1 \<le> slots"
    "payload = weight_sum h (front @ [t])" "payload + slots * size_transaction h \<le> uh_max_bytes u"
  shows "undo_ok h (u\<lparr>uh_entries := front @ [t], uh_slots := slots, uh_applied := length front + 1,
    uh_base_token := base_after u n, uh_next_serial := uh_next_serial u + 1, uh_payload_bytes := payload\<rparr>)"
proof -
  note D = undo_okD [OF assms(1)] and K = kept_props [OF assms(1,2)]
  have sub: "set front \<subseteq> set (kept_entries u n)" using assms(3) by (auto dest: in_set_butlastD)
  have "sorted_wrt (<) (map tx_serial front)" using assms(3) K(4)
    by (auto simp: butlast_conv_take sorted_wrt_take simp flip: take_map)
  moreover have "\<forall>t \<in> set front. tx_serial t < uh_next_serial u"
    using sub K(3) D(6) by (auto simp: serials_ok_def)
  ultimately have "serials_ok (u\<lparr>uh_entries := front @ [t], uh_slots := slots, uh_applied := length front + 1,
    uh_base_token := base_after u n, uh_next_serial := uh_next_serial u + 1, uh_payload_bytes := payload\<rparr>)"
    using assms(5) sub K(6) by (auto simp: serials_ok_def sorted_wrt_append less_SucI)
  moreover have "list_all tx_ok (front @ [t])" using assms(4) sub K(2) by (auto simp: list_all_iff)
  ultimately show ?thesis using assms(1,6-9) by (simp add: undo_ok_def)
qed

text \<open>What \<open>plan_retention\<close> grants for a payload and an entry count.\<close>

definition granted :: "heap_env \<Rightarrow> undo_history \<Rightarrow> nat \<Rightarrow> nat \<Rightarrow> retention_plan \<Rightarrow> bool" where
  "granted h u payload count rp \<longleftrightarrow> rp_payload_bytes rp + weight_sum h (take (rp_retired rp) (uh_entries u)) = payload \<and>
     rp_retired rp \<le> count \<and> count - rp_retired rp \<le> uh_max_entries u \<and> count - rp_retired rp \<le> plan_slots u rp \<and>
     rp_payload_bytes rp + plan_slots u rp * size_transaction h \<le> uh_max_bytes u"

lemma granted_payload:
  assumes "undo_ok h u" "granted h u payload count rp"
  shows "payload < usize_max" "payload - weight_sum h (take (rp_retired rp) (uh_entries u)) \<le> uh_max_bytes u"
proof -
  note D = undo_okD [OF assms(1)]
  have "weight_sum h (take (rp_retired rp) (uh_entries u)) \<le> uh_max_bytes u"
    using weight_sum_take_drop [of h "rp_retired rp" "uh_entries u"] D(3) by linarith
  then show "payload < usize_max" "payload - weight_sum h (take (rp_retired rp) (uh_entries u)) \<le> uh_max_bytes u"
    using assms(2) D(4) by (auto simp: granted_def)
qed

lemma commit_fresh:
  assumes u: "undo_ok h u" and serial: "uh_next_serial u < usize_max" and "pu_merge p = False"
    and xs: "pu_edits p \<noteq> []" "list_all edit_ok (pu_edits p)"
      "pu_open p \<longrightarrow> length (pu_edits p) = 1 \<and> rs_bytes (te_removed (hd (pu_edits p))) = []"
    and n: "rp_retired (pu_retention p) \<le> uh_applied u"
    and g: "granted h u (weight_sum h (take (uh_applied u) (uh_entries u)) + edit_storage h (pu_edits p))
        (uh_applied u + 1) (pu_retention p)"
  shows "ok (\<lambda>u'. undo_ok h u' \<and> recorded u False (pu_edits p) u') (undo_commit h p u)"
proof -
  let ?n = "rp_retired (pu_retention p)" and ?rp = "pu_retention p"
  let ?t = "\<lparr>tx_serial = uh_next_serial u, tx_edits = pu_edits p, tx_open = pu_open p\<rparr>"
  note K = kept_props [OF u n]
  have len: "length (kept_entries u ?n) < plan_slots u ?rp" "length (kept_entries u ?n) + 1 \<le> uh_max_entries u"
    using g n K(1) by (auto simp: granted_def)
  have "rp_payload_bytes ?rp = weight_sum h (kept_entries u ?n @ [?t])"
    using g K(5) by (simp add: granted_def tx_weight_def)
  then have "undo_ok h (u\<lparr>uh_entries := kept_entries u ?n @ [?t], uh_slots := plan_slots u ?rp,
      uh_applied := length (kept_entries u ?n) + 1, uh_base_token := base_after u ?n,
      uh_next_serial := uh_next_serial u + 1, uh_payload_bytes := rp_payload_bytes ?rp\<rparr>)"
    using len g xs by (intro recorded_ok [OF u n]) (simp_all add: tx_ok_def granted_def)
  moreover have "undo_commit h p u = Some (u\<lparr>uh_entries := kept_entries u ?n @ [?t], uh_slots := plan_slots u ?rp,
      uh_applied := length (kept_entries u ?n) + 1, uh_base_token := base_after u ?n,
      uh_next_serial := uh_next_serial u + 1, uh_payload_bytes := rp_payload_bytes ?rp\<rparr>)"
  proof -
    have "take (uh_applied u) (uh_entries u) ! (?n - 1) = uh_entries u ! (?n - 1)" if "?n \<noteq> 0" using n that by simp
    then show ?thesis using assms(3) serial n undo_okD(1) [OF u] len(1)
      by (auto simp: undo_commit_def checked_add_def base_after_def plan_slots_def Let_def K(1) min_absorb2
          simp flip: kept_entries_def split: option.splits)
  qed
  ultimately show ?thesis using n by (force simp: recorded_def)
qed

lemma kept_last:
  assumes "undo_ok h u" "0 < uh_applied u" "n \<le> uh_applied u - 1"
  shows "kept_entries u n = butlast (kept_entries u n) @ [uh_entries u ! (uh_applied u - 1)]"
    "weight_sum h (take n (uh_entries u)) + weight_sum h (butlast (kept_entries u n)) =
       weight_sum h (take (uh_applied u - 1) (uh_entries u))"
proof -
  note D = undo_okD [OF assms(1)]
  have "take (uh_applied u) (uh_entries u) = take (uh_applied u - 1) (uh_entries u) @ [uh_entries u ! (uh_applied u - 1)]"
    using D(1) assms(2) take_Suc_conv_app_nth [of "uh_applied u - 1" "uh_entries u"] by simp
  then have k: "kept_entries u n = drop n (take (uh_applied u - 1) (uh_entries u)) @ [uh_entries u ! (uh_applied u - 1)]"
    using D(1) assms(3) by (simp add: kept_entries_def)
  then show "kept_entries u n = butlast (kept_entries u n) @ [uh_entries u ! (uh_applied u - 1)]" by simp
  show "weight_sum h (take n (uh_entries u)) + weight_sum h (butlast (kept_entries u n)) =
       weight_sum h (take (uh_applied u - 1) (uh_entries u))"
    using k weight_sum_take_drop [of h n "take (uh_applied u - 1) (uh_entries u)"] assms(3) by (simp add: min_absorb1)
qed

lemma commit_merge:
  assumes u: "undo_ok h u" and serial: "uh_next_serial u < usize_max" and merge: "pu_merge p"
    and "0 < uh_applied u" and y: "tx_edits (uh_entries u ! (uh_applied u - 1)) = [y]" "rs_bytes (te_removed y) = []" "edit_ok y"
    and x: "pu_edits p = [x]" "rs_bytes (te_removed x) = []" "te_start x = te_start y + length (rs_bytes (te_inserted y))"
    and r: "r = (case pu_replacement p of Some r \<Rightarrow> r | None \<Rightarrow> push_str h (rs_bytes (te_inserted x)) (te_inserted y))"
      "rs_bytes r = rs_bytes (te_inserted y) @ rs_bytes (te_inserted x)" "string_ok r"
    and n: "rp_retired (pu_retention p) \<le> uh_applied u - 1"
    and g: "granted h u (weight_sum h (take (uh_applied u - 1) (uh_entries u)) + edit_storage h [y\<lparr>te_inserted := r\<rparr>])
        (uh_applied u) (pu_retention p)"
  shows "ok (\<lambda>u'. undo_ok h u' \<and> recorded u True (pu_edits p) u') (undo_commit h p u)"
proof -
  let ?n = "rp_retired (pu_retention p)" and ?rp = "pu_retention p" and ?t = "uh_entries u ! (uh_applied u - 1)"
  define t where "t = merge_last h p (uh_next_serial u) ?t"
  define front where "front = butlast (kept_entries u ?n)"
  have n': "?n \<le> uh_applied u" using n by simp
  note K = kept_props [OF u n'] and L = kept_last [OF u assms(4) n]
  have "t = ?t\<lparr>tx_edits := [y\<lparr>te_inserted := r\<rparr>], tx_serial := uh_next_serial u\<rparr>"
    using x y r(1) by (cases "pu_replacement p") (simp_all add: t_def merge_last_def)
  then have t: "tx_serial t = uh_next_serial u" "tx_edits t = [y\<lparr>te_inserted := r\<rparr>]" "tx_ok t"
    using y(2,3) r(3) by (simp_all add: tx_ok_def edit_ok_def)
  have len: "length front + 1 = uh_applied u - ?n" using L(1) K(1) by (metis front_def length_append_singleton Suc_eq_plus1)
  have "rp_payload_bytes ?rp = weight_sum h (front @ [t])"
    using g L(2) t(2) by (simp add: granted_def tx_weight_def front_def)
  then have "undo_ok h (u\<lparr>uh_entries := front @ [t], uh_slots := plan_slots u ?rp, uh_applied := length front + 1,
      uh_base_token := base_after u ?n, uh_next_serial := uh_next_serial u + 1, uh_payload_bytes := rp_payload_bytes ?rp\<rparr>)"
    using len g t by (intro recorded_ok [OF u n']) (simp_all add: granted_def front_def)
  moreover have "undo_commit h p u = Some (u\<lparr>uh_entries := front @ [t], uh_slots := plan_slots u ?rp, uh_applied := length front + 1,
      uh_base_token := base_after u ?n, uh_next_serial := uh_next_serial u + 1, uh_payload_bytes := rp_payload_bytes ?rp\<rparr>)"
  proof -
    have "take (uh_applied u) (uh_entries u) ! (?n - 1) = uh_entries u ! (?n - 1)" if "?n \<noteq> 0" using n' assms(4) by simp
    moreover have "last (kept_entries u ?n) = ?t" "kept_entries u ?n \<noteq> []" by (subst L(1), simp)+
    moreover have "length (kept_entries u ?n) \<le> plan_slots u ?rp" using g K(1) by (simp add: granted_def)
    ultimately show ?thesis using merge serial n' undo_okD(1) [OF u] len y(1)
      by (auto simp: undo_commit_def checked_add_def base_after_def plan_slots_def Let_def min_absorb2 K(1) t_def front_def
          simp flip: kept_entries_def split: option.splits)
  qed
  moreover have "extends (last (kept_entries u ?n)) (pu_edits p) t" using x y t r(2)
    by (subst L(1)) (auto simp: extends_def)
  moreover have "kept_entries u ?n \<noteq> []" by (subst L(1)) simp
  ultimately show ?thesis using n' t(1) unfolding recorded_def front_def by force
qed

section \<open>Staging\<close>

abbreviation inserted_bytes :: "text_edit \<Rightarrow> bytes" where
  "inserted_bytes x \<equiv> rs_bytes (te_inserted x)"

definition stages :: "heap_env \<Rightarrow> undo_history \<Rightarrow> text_edit list \<Rightarrow> prepared_undo \<Rightarrow> bool" where
  "stages h u xs p \<longleftrightarrow> pu_edits p = xs \<and> part_sum inserted_bytes xs \<le> uh_max_bytes u \<and>
     ok (\<lambda>u'. undo_ok h u' \<and> recorded u (pu_merge p) xs u') (undo_commit h p u)"

lemma plan_granted:
  assumes "undo_ok h u" "heap_ok h" "protected \<le> uh_applied u"
    "weight_sum h (take (uh_applied u - protected) (uh_entries u)) \<le> payload" "uh_applied u \<le> count + protected"
  shows "ok (\<lambda>r. \<forall>rp. r = Inr rp \<longrightarrow> rp_retired rp \<le> uh_applied u - protected \<and> granted h u payload count rp)
    (plan_retention h u payload count protected)"
  by (rule ok_mono [OF plan_retention_ok [OF assms]]) (auto simp: granted_def)

lemma take_last_weight:
  assumes "undo_ok h u" "0 < uh_applied u"
  shows "weight_sum h (take (uh_applied u) (uh_entries u)) =
    weight_sum h (take (uh_applied u - 1) (uh_entries u)) + tx_weight h (uh_entries u ! (uh_applied u - 1))"
  using undo_okD(1) [OF assms(1)] assms(2) take_Suc_conv_app_nth [of "uh_applied u - 1" "uh_entries u"] by simp

lemma entry_weight:
  assumes "undo_ok h u" "t \<in> set (uh_entries u)"
  shows "tx_weight h t \<le> uh_max_bytes u" "tx_weight h t = raw_storage h (tx_edits t)"
proof -
  note D = undo_okD [OF assms(1)]
  have "tx_weight h t \<le> weight_sum h (uh_entries u)" unfolding weight_sum_def using assms(2)
    by (intro member_le_sum_list) simp_all
  then show "tx_weight h t \<le> uh_max_bytes u" using D(3) by simp
  then show "tx_weight h t = raw_storage h (tx_edits t)" using D(4) by (auto simp: tx_weight_def edit_storage_raw)
qed

lemma prepare_merge_ok:
  assumes u: "undo_ok h u" and h: "heap_ok h" and serial: "uh_next_serial u < usize_max" and "0 < uh_applied u"
    and t: "t = uh_entries u ! (uh_applied u - 1)" "tx_open t" "mergeable t xs"
  shows "ok (\<lambda>m. \<forall>p. m = Some p \<longrightarrow> stages h u xs p)
    (prepare_merge h u (weight_sum h (take (uh_applied u) (uh_entries u))) t xs)"
proof -
  note D = undo_okD [OF u]
  have mem: "t \<in> set (uh_entries u)" using t(1) D(1) assms(4) by simp
  then have "tx_ok t" using D(5) by (simp add: list_all_iff)
  then obtain y where y: "tx_edits t = [y]" "rs_bytes (te_removed y) = []" "edit_ok y"
    using t(2) by (auto simp: tx_ok_def length_Suc_conv)
  obtain x where x: "xs = [x]" "rs_bytes (te_removed x) = []" "te_start x = te_start y + length (inserted_bytes y)"
    using t(3) y(1) by (auto simp: mergeable_def Let_def split: list.splits)
  define others where "others = size_edit h + rs_capacity (te_removed y)"
  have w: "tx_weight h t = others + rs_capacity (te_inserted y)" "tx_weight h t \<le> uh_max_bytes u"
    using entry_weight [OF u mem] y(1) by (simp_all add: raw_storage_def others_def)
  let ?room = "uh_max_bytes u - sat_add others (slot_storage h 1)"
  let ?needed = "sat_add (length (inserted_bytes y)) (length (inserted_bytes x))"
  define k where "k = min (max (sat_mul (rs_capacity (te_inserted y)) 2) ?needed) ?room"
  define rep where "rep = (if rs_capacity (te_inserted y) < ?needed
    then Some \<lparr>rs_bytes = inserted_bytes y @ inserted_bytes x, rs_capacity = string_cap h k\<rparr> else None)"
  define cap where "cap = (case rep of None \<Rightarrow> rs_capacity (te_inserted y) | Some r \<Rightarrow> rs_capacity r)"
  define payload where "payload = sat_add (weight_sum h (take (uh_applied u - 1) (uh_entries u))) (sat_add others cap)"
  have run: "prepare_merge h u (weight_sum h (take (uh_applied u) (uh_entries u))) t xs =
      (if ?needed \<le> ?room then plan_retention h u payload (uh_applied u) 1 \<bind>
         (\<lambda>plan. Some (case plan of Inl _ \<Rightarrow> None | Inr rp \<Rightarrow> Some \<lparr>pu_edits = xs, pu_open = True, pu_merge = True,
            pu_replacement = rep, pu_retention = rp\<rparr>)) else Some None)"
    unfolding x(1) prepare_merge_def payload_def cap_def rep_def k_def Let_def
    using w(1) take_last_weight [OF u assms(4)] y(1) by (simp add: t(1) cong: sum.case_cong)
  show ?thesis
  proof (cases "?needed \<le> ?room")
    case True
    then have needed: "?needed = length (inserted_bytes y) + length (inserted_bytes x)" "?needed \<le> uh_max_bytes u"
      using D(4) by (auto simp: sat_add_def min_def split: if_splits)
    have "?needed \<le> k" using True by (simp add: k_def)
    then have room: "?needed \<le> cap" using h
      by (auto simp: cap_def rep_def heap_ok_def intro: order_trans)
    have W: "weight_sum h (take (uh_applied u - 1) (uh_entries u)) \<le> uh_max_bytes u"
      using weight_sum_take_drop [of h "uh_applied u - 1" "uh_entries u"] D(3) by linarith
    have "ok (\<lambda>r. \<forall>rp. r = Inr rp \<longrightarrow> rp_retired rp \<le> uh_applied u - 1 \<and> granted h u payload (uh_applied u) rp)
        (plan_retention h u payload (uh_applied u) 1)"
      using assms(4) W D(4) by (intro plan_granted [OF u h]) (auto simp: payload_def sat_add_def)
    moreover have "stages h u xs \<lparr>pu_edits = xs, pu_open = True, pu_merge = True, pu_replacement = rep, pu_retention = rp\<rparr>"
      if rp: "rp_retired rp \<le> uh_applied u - 1" "granted h u payload (uh_applied u) rp" for rp
    proof -
      have exact: "payload = weight_sum h (take (uh_applied u - 1) (uh_entries u)) + (others + cap)"
        using granted_payload(1) [OF u rp(2)] by (auto simp: payload_def sat_add_def min_def split: if_splits)
      define r where "r = (case rep of Some r \<Rightarrow> r | None \<Rightarrow> push_str h (inserted_bytes x) (te_inserted y))"
      have r: "rs_bytes r = inserted_bytes y @ inserted_bytes x" "rs_capacity r = cap"
        using needed(1) by (auto simp: r_def rep_def cap_def push_str_def Let_def)
      have "edit_storage h [y\<lparr>te_inserted := r\<rparr>] = others + cap"
        using granted_payload(1) [OF u rp(2)] exact r(2) by (simp add: edit_storage_raw raw_storage_def others_def)
      then have "granted h u (weight_sum h (take (uh_applied u - 1) (uh_entries u)) + edit_storage h [y\<lparr>te_inserted := r\<rparr>]) (uh_applied u) rp"
        using rp(2) exact by simp
      moreover have "string_ok r" using r room needed(1) by (simp add: string_ok_def)
      ultimately have "ok (\<lambda>u'. undo_ok h u' \<and> recorded u True xs u')
          (undo_commit h \<lparr>pu_edits = xs, pu_open = True, pu_merge = True, pu_replacement = rep, pu_retention = rp\<rparr> u)"
        using commit_merge [OF u serial, of "\<lparr>pu_edits = xs, pu_open = True, pu_merge = True, pu_replacement = rep, pu_retention = rp\<rparr>" y x r]
          assms(4) y x t(1) r(1) rp(1) by (simp add: r_def)
      then show ?thesis using needed x(1) by (simp add: stages_def)
    qed
    ultimately show ?thesis using True unfolding run by (auto simp: ok_iff split: sum.splits)
  qed (simp add: run)
qed

lemma inserted_le_caps: "list_all edit_ok xs \<Longrightarrow> part_sum inserted_bytes xs \<le> edit_caps xs"
  by (induction xs) (auto simp: edit_ok_def string_ok_def)

lemma prepare_fresh_ok:
  assumes u: "undo_ok h u" and h: "heap_ok h" and serial: "uh_next_serial u < usize_max"
    and xs: "xs \<noteq> []" "list_all edit_ok xs"
  shows "ok (\<lambda>m. (\<forall>r. m = Inl r \<longrightarrow> (\<exists>n. r = UndoStorageTooLarge n (uh_max_bytes u))) \<and> (\<forall>p. m = Inr p \<longrightarrow> stages h u xs p \<and> \<not> pu_merge p))
    (prepare_fresh h u (weight_sum h (take (uh_applied u) (uh_entries u))) xs coalescable)"
proof -
  note D = undo_okD [OF u]
  let ?w = "weight_sum h (take (uh_applied u) (uh_entries u))"
  have W: "?w \<le> uh_max_bytes u" using weight_sum_take_drop [of h "uh_applied u" "uh_entries u"] D(3) by linarith
  define may_extend where "may_extend \<longleftrightarrow> coalescable \<and> length xs = 1 \<and>
    \<not> (\<exists>x \<in> set xs. 0x0a \<in> set (inserted_bytes x) \<or> rs_bytes (te_removed x) \<noteq> [])"
  have o: "may_extend \<longrightarrow> length xs = 1 \<and> rs_bytes (te_removed (hd xs)) = []"
    using xs(1) by (cases xs) (auto simp: may_extend_def)
  have "ok (\<lambda>r. \<forall>rp. r = Inr rp \<longrightarrow> rp_retired rp \<le> uh_applied u \<and> granted h u (sat_add ?w (edit_storage h xs)) (uh_applied u + 1) rp)
      (plan_retention h u (sat_add ?w (edit_storage h xs)) (uh_applied u + 1) 0)"
    using plan_granted [OF u h, of 0 "sat_add ?w (edit_storage h xs)" "uh_applied u + 1"] W D(4) by (simp add: sat_add_def)
  moreover have "stages h u xs \<lparr>pu_edits = xs, pu_open = may_extend, pu_merge = False, pu_replacement = None, pu_retention = rp\<rparr>"
    if rp: "rp_retired rp \<le> uh_applied u" "granted h u (sat_add ?w (edit_storage h xs)) (uh_applied u + 1) rp" for rp
  proof -
    have exact: "sat_add ?w (edit_storage h xs) = ?w + edit_storage h xs"
      using granted_payload(1) [OF u rp(2)] by (auto simp: sat_add_def min_def split: if_splits)
    then have g: "granted h u (?w + edit_storage h xs) (uh_applied u + 1) rp" using rp(2) by simp
    have "?w + edit_storage h xs - weight_sum h (take (rp_retired rp) (uh_entries u)) \<le> uh_max_bytes u"
      using granted_payload(2) [OF u g] .
    moreover have "weight_sum h (take (rp_retired rp) (uh_entries u)) \<le> ?w" using kept_props(5) [OF u rp(1), symmetric] by simp
    ultimately have "edit_storage h xs \<le> uh_max_bytes u" by linarith
    then have "part_sum inserted_bytes xs \<le> uh_max_bytes u"
      using D(4) inserted_le_caps [OF xs(2)] by (auto simp: edit_storage_raw raw_storage_def)
    then show ?thesis unfolding stages_def using commit_fresh [OF u serial, of
        "\<lparr>pu_edits = xs, pu_open = may_extend, pu_merge = False, pu_replacement = None, pu_retention = rp\<rparr>"] xs rp(1) g o
      by simp
  qed
  ultimately show ?thesis using o by (auto simp: prepare_fresh_def may_extend_def Let_def ok_iff simp del: One_nat_def split: sum.splits)
qed

lemma prepare_ok:
  assumes u: "undo_ok h u" and h: "heap_ok h" and serial: "uh_next_serial u < usize_max" and edits: "list_all edit_ok edits"
    and xs: "xs = filter (\<lambda>x. rs_bytes (te_removed x) \<noteq> rs_bytes (te_inserted x)) edits"
  shows "ok (\<lambda>m. (\<forall>r. m = Inl r \<longrightarrow> (\<exists>n. r = UndoStorageTooLarge n (uh_max_bytes u))) \<and> (m = Inr None \<longrightarrow> xs = []) \<and>
      (\<forall>p. m = Inr (Some p) \<longrightarrow> xs \<noteq> [] \<and> stages h u xs p \<and> (pu_merge p \<longrightarrow> coalescable))) (prepare h u edits coalescable)"
proof (cases "xs = []")
  case True
  then show ?thesis using xs by (simp add: prepare_def)
next
  case False
  note D = undo_okD [OF u]
  let ?w = "weight_sum h (take (uh_applied u) (uh_entries u))"
  let ?merge = "if coalescable \<and> 0 < uh_applied u then
      case rd (uh_entries u) (uh_applied u - 1) of
        None \<Rightarrow> Some None
      | Some t \<Rightarrow> if tx_open t \<and> mergeable t xs then prepare_merge h u ?w t xs else Some None
    else Some None"
  have split: "?w + weight_sum h (drop (uh_applied u) (uh_entries u)) = weight_sum h (uh_entries u)"
    by (rule weight_sum_take_drop)
  have "list_all edit_ok xs" using edits xs by (auto simp: list_all_iff)
  note fresh = prepare_fresh_ok [OF u h serial False this, of coalescable]
  have redo: "fold (\<lambda>t n. sat_add n (tx_weight h t)) (drop (uh_applied u) (uh_entries u)) 0 = weight_sum h (drop (uh_applied u) (uh_entries u))"
    using split D(3,4) by (subst fold_weights) simp_all
  have sub: "checked_sub (uh_payload_bytes u) (weight_sum h (drop (uh_applied u) (uh_entries u))) = Some ?w"
    using split D(2) by (simp add: checked_sub_def flip: split)
  have merge: "ok (\<lambda>m. \<forall>p. m = Some p \<longrightarrow> stages h u xs p) ?merge"
    using prepare_merge_ok [OF u h serial] D(1) by (auto simp: rd_def)
  have "prepare h u edits coalescable = ?merge \<bind> (\<lambda>merged. case merged of Some p \<Rightarrow> Some (Inr (Some p)) | None \<Rightarrow>
      prepare_fresh h u ?w xs coalescable \<bind> (\<lambda>fresh. Some (map_sum id Some fresh)))"
    using False unfolding prepare_def Let_def xs [symmetric] redo sub by simp
  moreover obtain m where m: "?merge = Some m" "\<forall>p. m = Some p \<longrightarrow> stages h u xs p" using merge by (auto simp only: ok_iff)
  ultimately have "prepare h u edits coalescable = (case m of Some p \<Rightarrow> Some (Inr (Some p)) | None \<Rightarrow>
      prepare_fresh h u ?w xs coalescable \<bind> (\<lambda>fresh. Some (map_sum id Some fresh)))" by (simp only: bind.bind_lunit)
  moreover have "coalescable" if "m = Some p" for p using m(1) that by (auto split: if_splits)
  ultimately show ?thesis using fresh m(2) False by (cases m) (auto simp: ok_iff map_sum_def split: sum.splits)
qed

end
