(* ===== verification/Edit_Timeline.thy ===== *)
theory Edit_Timeline
  imports Edit_Undo_Inv
begin

text \<open>
  A document as a timeline of texts.  Every entry of the undo history leads from one text to the next;
  the document shows the text at the applied position.  An accepted edit forgets the future and appends
  the edited text (or, when typing is coalesced, replaces the present one), undo and redo move along the
  timeline.  A book of tokens records which text each point of the history stood for, also the points
  that are gone.
\<close>

section \<open>Playing a subset of the edits\<close>

lemma edits_fit_shift:
  assumes "edits_fit (pos + length pre) xs post" "utf8 pre"
  shows "edits_fit pos xs (pre @ post) \<and> edited pos xs (pre @ post) = pre @ edited (pos + length pre) xs post"
proof (cases xs)
  case Nil
  then show ?thesis using assms by simp
next
  case (Cons x ys)
  from assms(1) [unfolded Cons] show ?thesis unfolding Cons
  proof (rule edits_fit_ConsE)
    fix gap tail
    assume a: "post = gap @ rs_bytes (te_removed x) @ tail" "te_start x = pos + length pre + length gap"
      "utf8 gap" "utf8 (rs_bytes (te_removed x))" "utf8 (rs_bytes (te_inserted x))" "edits_fit (te_end x) ys tail"
      "edited (pos + length pre) (x # ys) post = gap @ rs_bytes (te_inserted x) @ edited (te_end x) ys tail"
    show "edits_fit pos (x # ys) (pre @ post) \<and> edited pos (x # ys) (pre @ post) = pre @ edited (pos + length pre) (x # ys) post"
      using edits_fit_ConsI [of "pre @ post" "pre @ gap" x tail pos ys] a assms(2) by simp
  qed
qed

lemma edits_fit_filter:
  assumes "edits_fit pos xs rest"
  shows "edits_fit pos (filter (\<lambda>x. rs_bytes (te_removed x) \<noteq> rs_bytes (te_inserted x)) xs) rest \<and>
    edited pos (filter (\<lambda>x. rs_bytes (te_removed x) \<noteq> rs_bytes (te_inserted x)) xs) rest = edited pos xs rest"
  using assms
proof (induction xs arbitrary: pos rest)
  case (Cons x xs)
  let ?f = "filter (\<lambda>x. rs_bytes (te_removed x) \<noteq> rs_bytes (te_inserted x))"
  from Cons.prems show ?case
  proof (rule edits_fit_ConsE)
    fix gap post
    assume a: "rest = gap @ rs_bytes (te_removed x) @ post" "te_start x = pos + length gap"
      "utf8 gap" "utf8 (rs_bytes (te_removed x))" "utf8 (rs_bytes (te_inserted x))" "edits_fit (te_end x) xs post"
      "edited pos (x # xs) rest = gap @ rs_bytes (te_inserted x) @ edited (te_end x) xs post"
    note IH = Cons.IH [OF a(6)]
    have e: "te_end x = pos + length (gap @ rs_bytes (te_removed x))" using a(2) by (simp add: te_end_def)
    show ?thesis
    proof (cases "rs_bytes (te_removed x) = rs_bytes (te_inserted x)")
      case True
      then show ?thesis
        using edits_fit_shift [of pos "gap @ rs_bytes (te_removed x)" "?f xs" post] IH a by (simp add: e del: edited.simps)
    next
      case False
      then show ?thesis using edits_fit_ConsI [OF a(1-5), of "?f xs"] IH a(7) by (simp del: edited.simps edits_fit.simps)
    qed
  qed
qed simp

lemma extends_fit:
  assumes "extends t xs t'" "edits_fit 0 (tx_edits t) s" "edits_fit 0 xs (edited 0 (tx_edits t) s)"
  shows "edits_fit 0 (tx_edits t') s \<and> edited 0 (tx_edits t') s = edited 0 xs (edited 0 (tx_edits t) s)"
proof -
  obtain x y r where a: "xs = [x]" "rs_bytes (te_removed x) = []" "tx_edits t = [y]" "rs_bytes (te_removed y) = []"
    "te_start x = te_start y + length (rs_bytes (te_inserted y))" "tx_edits t' = [y\<lparr>te_inserted := r\<rparr>]"
    "rs_bytes r = rs_bytes (te_inserted y) @ rs_bytes (te_inserted x)"
    using assms(1) by (auto simp: extends_def)
  then show ?thesis using assms(2,3) by (auto simp: te_end_def slice_def)
qed

section \<open>Timelines\<close>

definition timeline :: "undo_history \<Rightarrow> bytes list \<Rightarrow> bool" where
  "timeline u ts \<longleftrightarrow> length ts = length (uh_entries u) + 1 \<and>
     (\<forall>i < length (uh_entries u). edits_fit 0 (tx_edits (uh_entries u ! i)) (ts ! i) \<and>
        edited 0 (tx_edits (uh_entries u ! i)) (ts ! i) = ts ! (i + 1))"

text \<open>The token of each point, and the book that gives every token its text.\<close>

definition token_at :: "undo_history \<Rightarrow> nat \<Rightarrow> nat option" where
  "token_at u i = (if i = 0 then uh_base_token u else Some (tx_serial (uh_entries u ! (i - 1))))"

definition booked :: "undo_history \<Rightarrow> bytes list \<Rightarrow> (nat option \<Rightarrow> bytes) \<Rightarrow> bool" where
  "booked u ts B \<longleftrightarrow> (\<forall>i \<le> length (uh_entries u). B (token_at u i) = ts ! i)"

text \<open>The points that survive an accepted edit: those between the retired ones and the present; when the
  edit was coalesced, the present one is replaced.\<close>

definition edited_timeline :: "undo_history \<Rightarrow> bool \<Rightarrow> bytes list \<Rightarrow> bytes \<Rightarrow> bytes list \<Rightarrow> bool" where
  "edited_timeline u merged ts s ts' \<longleftrightarrow>
     (\<exists>n \<le> uh_applied u. if merged then n < uh_applied u \<and> ts' = drop n (take (uh_applied u) ts) @ [s]
        else ts' = drop n (take (uh_applied u + 1) ts) @ [s])"

lemma token_at_applied: "undo_ok h u \<Longrightarrow> undo_token u = token_at u (uh_applied u)"
  by (auto simp: undo_ok_def undo_token_def token_at_def rd_def)

lemma token_at_less:
  "undo_ok h u \<Longrightarrow> i \<le> length (uh_entries u) \<Longrightarrow> token_at u i = None \<or> (\<exists>k < uh_next_serial u. token_at u i = Some k)"
  by (cases "uh_base_token u") (auto simp: undo_ok_def serials_ok_def token_at_def)

lemma kept_nth:
  "n \<le> uh_applied u \<Longrightarrow> uh_applied u \<le> length (uh_entries u) \<Longrightarrow> i < uh_applied u - n \<Longrightarrow> kept_entries u n ! i = uh_entries u ! (n + i)"
  by (simp add: kept_entries_def)

text \<open>The entries \<open>n\<close> to \<open>m\<close> are kept and an entry from text \<open>m\<close> to \<open>s'\<close> is appended.\<close>

lemma appended_timeline:
  assumes T: "timeline u ts" and es: "uh_entries u' = front @ [t]" "length front = m - n" "n \<le> m" "m \<le> length (uh_entries u)"
      "\<And>i. i < m - n \<Longrightarrow> front ! i = uh_entries u ! (n + i)"
    and t: "edits_fit 0 (tx_edits t) (ts ! m)" "edited 0 (tx_edits t) (ts ! m) = s'"
    and ts': "ts' = drop n (take (m + 1) ts) @ [s']"
  shows "timeline u' ts'" "ts' ! length (uh_entries u') = s'" "\<And>i. i \<le> m - n \<Longrightarrow> ts' ! i = ts ! (n + i)"
proof -
  have len: "length ts = length (uh_entries u) + 1" using T by (simp add: timeline_def)
  have nth: "ts' ! i = (if i \<le> m - n then ts ! (n + i) else s')" if "i \<le> m - n + 1" for i
    using that es(3,4) len by (auto simp: ts' nth_append)
  then show "\<And>i. i \<le> m - n \<Longrightarrow> ts' ! i = ts ! (n + i)" "ts' ! length (uh_entries u') = s'" using es by simp_all
  show "timeline u' ts'" unfolding timeline_def
  proof (intro conjI allI impI)
    show "length ts' = length (uh_entries u') + 1" using es len by (simp add: ts')
    fix i assume i: "i < length (uh_entries u')"
    have "edits_fit 0 (tx_edits (uh_entries u' ! i)) (ts' ! i) \<and> edited 0 (tx_edits (uh_entries u' ! i)) (ts' ! i) = ts' ! (i + 1)"
    proof (cases "i < m - n")
      case True
      then have "uh_entries u' ! i = uh_entries u ! (n + i)" using es(1,2,5) by (simp add: nth_append)
      moreover have "n + i < length (uh_entries u)" using True es(4) by linarith
      ultimately show ?thesis using T True es(3) nth by (simp add: timeline_def)
    next
      case False
      then have "i = m - n" "uh_entries u' ! i = t" using i es(1,2) by (auto simp: nth_append)
      then show ?thesis using es(3) t nth by simp
    qed
    then show "edits_fit 0 (tx_edits (uh_entries u' ! i)) (ts' ! i)"
      "edited 0 (tx_edits (uh_entries u' ! i)) (ts' ! i) = ts' ! (i + 1)" by simp_all
  qed
qed

lemma appended_booked:
  assumes u: "undo_ok h u" and B: "booked u ts B"
    and es: "uh_entries u' = front @ [t]" "length front = m - n" "n \<le> m" "m \<le> length (uh_entries u)"
      "\<And>i. i < m - n \<Longrightarrow> front ! i = uh_entries u ! (n + i)"
    and t: "tx_serial t = uh_next_serial u" "uh_base_token u' = base_after u n"
    and ts': "\<And>i. i \<le> m - n \<Longrightarrow> ts' ! i = ts ! (n + i)" "ts' ! length (uh_entries u') = s'"
  shows "booked u' ts' (B(Some (uh_next_serial u) := s'))"
  unfolding booked_def
proof (intro allI impI)
  fix i assume i: "i \<le> length (uh_entries u')"
  show "(B(Some (uh_next_serial u) := s')) (token_at u' i) = ts' ! i"
  proof (cases "i \<le> m - n")
    case True
    have "token_at u' i = token_at u (n + i)"
    proof (cases "i = 0")
      case False
      then have "uh_entries u' ! (i - 1) = uh_entries u ! (n + (i - 1))" using True es(1,2,5) by (simp add: nth_append)
      then show ?thesis using False by (simp add: token_at_def)
    qed (use t(2) in \<open>simp add: token_at_def base_after_def\<close>)
    moreover have "n + i \<le> length (uh_entries u)" using True es(3,4) by linarith
    ultimately show ?thesis using True B token_at_less [OF u, of "n + i"] ts'(1) by (auto simp: booked_def)
  next
    case False
    then have "i = length (uh_entries u')" using i es(1,2) by simp
    then show ?thesis using es(1,2) t(1) ts'(2) by (simp add: token_at_def nth_append)
  qed
qed

lemma recorded_timeline:
  assumes u: "undo_ok h u" and rec: "recorded u merged xs u'" and T: "timeline u ts" and s: "ts ! uh_applied u = s"
    and fit: "edits_fit 0 xs s" and B: "booked u ts B"
  shows "\<exists>ts'. timeline u' ts' \<and> ts' ! uh_applied u' = edited 0 xs s \<and> edited_timeline u merged ts (edited 0 xs s) ts' \<and>
    booked u' ts' (B(Some (uh_next_serial u) := edited 0 xs s))"
proof -
  let ?a = "uh_applied u" and ?es = "uh_entries u" and ?s = "edited 0 xs s"
  have a: "?a \<le> length ?es" using u by (simp add: undo_ok_def)
  obtain n t where n: "n \<le> ?a" "uh_base_token u' = base_after u n" "tx_serial t = uh_next_serial u"
    and c: "if merged then kept_entries u n \<noteq> [] \<and> extends (last (kept_entries u n)) xs t \<and> uh_entries u' = butlast (kept_entries u n) @ [t]
      else tx_edits t = xs \<and> uh_entries u' = kept_entries u n @ [t]"
    using rec by (auto simp: recorded_def)
  have len: "length (kept_entries u n) = ?a - n" using kept_props(1) [OF u n(1)] .
  have ap: "uh_applied u' = length (uh_entries u')" using rec by (simp add: recorded_def)
  have core: ?thesis if front: "uh_entries u' = front @ [t]" "length front = m - n" "n \<le> m" "m \<le> ?a"
      "\<And>i. i < m - n \<Longrightarrow> front ! i = ?es ! (n + i)" "edits_fit 0 (tx_edits t) (ts ! m)" "edited 0 (tx_edits t) (ts ! m) = ?s"
      "if merged then m + 1 = ?a else m = ?a" for front m
  proof -
    have m: "m \<le> length ?es" using front(4) a by simp
    note ts' = appended_timeline [OF T front(1-3) m front(5-7) refl]
    have "edited_timeline u merged ts ?s (drop n (take (m + 1) ts) @ [?s])"
      unfolding edited_timeline_def using front(3,8) n(1) by (intro exI [of _ n]) (auto split: if_splits)
    then show ?thesis using ts' appended_booked [OF u B front(1-3) m front(5) n(3,2) ts'(3,2)] ap by metis
  qed
  show ?thesis
  proof (cases merged)
    case False
    then show ?thesis using c core [of "kept_entries u n" ?a] len n(1) kept_nth [OF n(1) a] fit s by simp
  next
    case True
    then have m: "kept_entries u n \<noteq> []" "extends (last (kept_entries u n)) xs t" "uh_entries u' = butlast (kept_entries u n) @ [t]"
      using c by simp_all
    have pos: "n < ?a" using m(1) len by (metis length_greater_0_conv zero_less_diff)
    have l: "last (kept_entries u n) = ?es ! (?a - 1)" using m(1) len pos kept_nth [OF n(1) a, of "?a - n - 1"]
      by (simp add: last_conv_nth)
    have "edits_fit 0 (tx_edits (?es ! (?a - 1))) (ts ! (?a - 1))" "edited 0 (tx_edits (?es ! (?a - 1))) (ts ! (?a - 1)) = s"
      using T pos a s by (auto simp: timeline_def dest!: spec [of _ "?a - 1"])
    then show ?thesis using True core [of "butlast (kept_entries u n)" "?a - 1"] m l len pos kept_nth [OF n(1) a] fit
        extends_fit [OF m(2), of "ts ! (?a - 1)"] by (auto simp: nth_butlast)
  qed
qed

end
