(* ===== verification/Edit_Derive.thy ===== *)
theory Edit_Derive
  imports Edit_Timeline
begin

text \<open>
  The edits the document derives match its text: the clamped replacement of a range, the smallest edit
  that explains a view's text, all occurrences of a query, and a validated set of planned edits.
\<close>

section \<open>A single edit between two boundaries\<close>

lemma utf8_drop_boundary: "utf8 (drop k s) \<Longrightarrow> k \<le> length s \<Longrightarrow> is_char_boundary s k"
  by (cases "k = length s") (auto simp: is_char_boundary_def Cons_nth_drop_Suc [symmetric] dest: utf8_first)

lemma utf8_take_boundary: "utf8 s \<Longrightarrow> utf8 (take k s) \<Longrightarrow> k \<le> length s \<Longrightarrow> is_char_boundary s k"
  using utf8_append [of "take k s" "drop k s"] by (auto intro: utf8_drop_boundary)

lemma floor_boundary: "is_char_boundary s (floor_char_boundary s i)" "floor_char_boundary s i \<le> i"
  by (induction i) auto

lemma ceil_boundary:
  "i \<le> length s \<Longrightarrow> is_char_boundary s (ceil_char_boundary s i) \<and> i \<le> ceil_char_boundary s i \<and> ceil_char_boundary s i \<le> length s"
proof (induction s i rule: ceil_char_boundary.induct)
  case (1 s i)
  show ?case
  proof (cases "i < length s \<and> \<not> is_char_boundary s i")
    case True
    then show ?thesis using 1 by (subst (1 2 3) ceil_char_boundary.simps) simp
  next
    case False
    then have "ceil_char_boundary s i = i" by (subst ceil_char_boundary.simps) (rule if_not_P)
    then show ?thesis using False "1.prems" by (auto simp: le_less)
  qed
qed

lemma slice_utf8:
  assumes "utf8 s" "is_char_boundary s i" "is_char_boundary s j" "i \<le> j"
  shows "str_slice s i j = Some (slice i (j - i) s)" "utf8 (take i s)" "utf8 (slice i (j - i) s)" "utf8 (drop j s)"
    "s = take i s @ slice i (j - i) s @ drop j s"
proof -
  have j: "j \<le> length s" using assms(3) by (rule char_boundary_le)
  have "drop i s = slice i (j - i) s @ drop j s"
    using assms(4) append_take_drop_id [of "j - i" "drop i s"] by (simp add: slice_def)
  then show "s = take i s @ slice i (j - i) s @ drop j s" by (metis append_take_drop_id)
  have "take j s = take i s @ slice i (j - i) s" using assms(4) by (simp add: slice_def take_add [symmetric])
  then show "utf8 (take i s)" "utf8 (slice i (j - i) s)" "utf8 (drop j s)"
    using boundary_splits [OF assms(1,2)] boundary_splits [OF assms(1,3)] by simp_all
qed (use assms in \<open>simp add: str_slice_def\<close>)

lemma single_edit:
  assumes "utf8 s" "is_char_boundary s i" "is_char_boundary s j" "i \<le> j" "utf8 (rs_bytes (te_inserted x))"
    "te_start x = i" "rs_bytes (te_removed x) = slice i (j - i) s"
  shows "edits_fit 0 [x] s" "edited 0 [x] s = take i s @ rs_bytes (te_inserted x) @ drop j s"
proof -
  note S = slice_utf8 [OF assms(1-4)]
  have "length (take i s) = i" using char_boundary_le [OF assms(2)] by simp
  then show "edits_fit 0 [x] s" "edited 0 [x] s = take i s @ rs_bytes (te_inserted x) @ drop j s"
    using edits_fit_ConsI [of s "take i s" x "drop j s" 0 "[]"] S assms(5-7) by simp_all
qed

lemma owned_ok [simp]: "heap_ok h \<Longrightarrow> string_ok (owned h s)" "rs_bytes (owned h s) = s"
  by (simp_all add: owned_def string_ok_def heap_ok_def)

lemma edit_for_ok:
  assumes "heap_ok h" "utf8 s" "utf8 (rs_bytes r)" "string_ok r"
    and i: "i = floor_char_boundary s (min a (length s))" and j: "j = max (floor_char_boundary s (min b (length s))) i"
  shows "\<exists>x. edit_for h s a b r = Some x \<and> edit_ok x \<and> edits_fit 0 [x] s \<and> edited 0 [x] s = take i s @ rs_bytes r @ drop j s"
proof -
  have b: "is_char_boundary s i" "is_char_boundary s j" "i \<le> j"
    using floor_boundary(1) by (auto simp: i j max_def)
  let ?x = "\<lparr>te_start = i, te_removed = owned h (slice i (j - i) s), te_inserted = r\<rparr>"
  have "edit_for h s a b r = Some ?x" using slice_utf8(1) [OF assms(2) b] by (simp add: edit_for_def i j Let_def)
  moreover have "edit_ok ?x" using assms(1,4) by (simp add: edit_ok_def)
  ultimately show ?thesis using single_edit [OF assms(2) b, of ?x] assms(3) by simp
qed

section \<open>The smallest edit behind a changed view\<close>

lemma common_len_le: "common_len l r \<le> length l" "common_len l r \<le> length r"
  by (induction l r rule: common_len.induct) auto

lemma common_len_take: "k \<le> common_len l r \<Longrightarrow> take k l = take k r"
  by (induction l r arbitrary: k rule: common_len.induct) (auto simp: take_Cons split: nat.split if_splits)

lemma common_prefix_ok:
  assumes "utf8 l" "utf8 r"
  shows "take (common_prefix l r) l = take (common_prefix l r) r" "is_char_boundary l (common_prefix l r)"
    "is_char_boundary r (common_prefix l r)"
proof -
  let ?p = "common_prefix l r"
  have le: "?p \<le> common_len l r" by (simp add: common_prefix_def floor_boundary)
  show take: "take ?p l = take ?p r" by (rule common_len_take [OF le])
  show b: "is_char_boundary l ?p" by (simp add: common_prefix_def floor_boundary)
  show "is_char_boundary r ?p"
    using boundary_splits [OF assms(1) b] take le common_len_le(2) [of l r] by (intro utf8_take_boundary [OF assms(2)]) simp_all
qed

lemma common_suffix_ok:
  assumes "utf8 l"
  shows "common_suffix l r \<le> length l" "common_suffix l r \<le> length r"
    "drop (length l - common_suffix l r) l = drop (length r - common_suffix l r) r"
    "utf8 (drop (length l - common_suffix l r) l)"
proof -
  let ?c = "common_len (rev l) (rev r)" and ?s = "common_suffix l r"
  define b where "b = ceil_char_boundary l (length l - ?c)"
  have b: "is_char_boundary l b" "length l - ?c \<le> b" "b \<le> length l"
    using ceil_boundary [of "length l - ?c" l] by (simp_all add: b_def)
  have s: "?s = length l - b" by (simp add: common_suffix_def b_def)
  have c: "?s \<le> ?c" "?c \<le> length l" "?c \<le> length r"
    using s b common_len_le [of "rev l" "rev r"] by simp_all
  then show "?s \<le> length l" "?s \<le> length r" by simp_all
  have "rev (drop (length l - ?s) l) = rev (drop (length r - ?s) r)"
    using common_len_take [OF c(1)] c by (simp add: rev_drop)
  then show "drop (length l - ?s) l = drop (length r - ?s) r" by simp
  show "utf8 (drop (length l - ?s) l)" using boundary_splits [OF assms b(1)] s b(3) by simp
qed

lemma view_edit_ok:
  assumes h: "heap_ok h" and s: "utf8 s" and v: "utf8 v"
  shows "\<exists>x. view_edit h s v = Some x \<and> edit_ok x \<and> edits_fit 0 [x] s \<and> edited 0 [x] s = v"
proof -
  define p where "p = common_prefix s v"
  note P = common_prefix_ok [OF s v, folded p_def]
  let ?l = "drop p s" and ?r = "drop p v"
  have ul: "utf8 ?l" "utf8 ?r" using boundary_splits s v P by blast+
  define suf where "suf = common_suffix ?l ?r"
  note S = common_suffix_ok [OF ul(1), of ?r, folded suf_def]
  have p: "p \<le> length s" "p \<le> length v" using P(2,3) by (auto dest: char_boundary_le)
  let ?i = "length s - suf" and ?j = "length v - suf"
  have ij: "p \<le> ?i" "p \<le> ?j" "suf \<le> length s" "suf \<le> length v" using S(1,2) p by auto
  have ti: "drop ?i s = drop ?j v" "utf8 (drop ?i s)" using S(3,4) p ij by simp_all
  have bi: "is_char_boundary s ?i" "is_char_boundary v ?j" using ti by (auto intro!: utf8_drop_boundary)
  let ?x = "\<lparr>te_start = p, te_removed = owned h (slice p (?i - p) s), te_inserted = owned h (slice p (?j - p) v)\<rparr>"
  have "str_slice s p (length s) = Some ?l" "str_slice v p (length v) = Some ?r"
    using P p by (simp_all add: str_slice_def slice_def)
  then have "view_edit h s v = Some ?x"
    using ij slice_utf8(1) [OF s P(2) bi(1)] slice_utf8(1) [OF v P(3) bi(2)]
    by (simp add: view_edit_def Let_def suf_def flip: p_def)
  moreover have "edit_ok ?x" using h by (simp add: edit_ok_def)
  moreover have "edits_fit 0 [?x] s" "edited 0 [?x] s = take p s @ slice p (?j - p) v @ drop ?i s"
    using single_edit [OF s P(2) bi(1) ij(1), of ?x] slice_utf8(3) [OF v P(3) bi(2) ij(2)] by simp_all
  ultimately show ?thesis using slice_utf8(5) [OF v P(3) bi(2) ij(2)] P(1) ti(1) by auto
qed

section \<open>All occurrences of a query\<close>

text \<open>The reference: read the text from the left, put the replacement wherever the query stands.\<close>

function replaced :: "bytes \<Rightarrow> bytes \<Rightarrow> bytes \<Rightarrow> bytes" where
  "replaced q r s =
     (if s = [] \<or> q = [] then s
      else if take (length q) s = q then r @ replaced q r (drop (length q) s)
      else hd s # replaced q r (tl s))"
  by pat_completeness auto
termination by (relation "measure (\<lambda>(q, r, s). length s)") (auto simp flip: length_greater_0_conv)

declare replaced.simps [simp del]

lemma replaced_None: "find_sub q s = None \<Longrightarrow> replaced q r s = s"
proof (induction s)
  case (Cons b s)
  then show ?case by (subst replaced.simps) (auto split: if_splits)
qed (simp add: replaced.simps)

lemma replaced_Some:
  "q \<noteq> [] \<Longrightarrow> find_sub q s = Some i \<Longrightarrow> replaced q r s = take i s @ r @ replaced q r (drop (i + length q) s)"
proof (induction s arbitrary: i)
  case (Cons b s)
  show ?case
  proof (cases "take (length q) (b # s) = q")
    case True
    then show ?thesis using Cons.prems by (subst replaced.simps) auto
  next
    case False
    then obtain j where "find_sub q s = Some j" "i = Suc j" using Cons.prems by auto
    then show ?thesis using False Cons by (subst replaced.simps) auto
  qed
qed simp

lemma find_split:
  assumes "find_sub q s = Some i"
  shows "drop i s = q @ drop (i + length q) s" "s = take i s @ q @ drop (i + length q) s" "i + length q \<le> length s"
proof -
  note F = find_sub_SomeD [OF assms]
  then show "i + length q \<le> length s" by simp
  have "drop (length q) (drop i s) = drop (i + length q) s" by (simp add: add.commute)
  then show d: "drop i s = q @ drop (i + length q) s" using F by (metis append_take_drop_id slice_def)
  then show "s = take i s @ q @ drop (i + length q) s" by (metis append_take_drop_id)
qed

lemma find_boundary:
  assumes "utf8 s" "utf8 q" "q \<noteq> []" "find_sub q s = Some i"
  shows "s = take i s @ q @ drop (i + length q) s" "utf8 (take i s)" "utf8 (drop (i + length q) s)" "i + length q \<le> length s"
proof -
  note d = find_split(1) [OF assms(4)]
  show le: "i + length q \<le> length s" and "s = take i s @ q @ drop (i + length q) s" using find_split [OF assms(4)] by blast+
  obtain b q' where q: "q = b # q'" using assms(3) by (cases q) auto
  then have "\<not> cont (s ! i)" "i < length s" using utf8_first assms(2) d le by (auto simp: nth_via_drop)
  then have "is_char_boundary s i" by (simp add: is_char_boundary_def)
  from boundary_splits [OF assms(1) this] show "utf8 (take i s)" "utf8 (drop (i + length q) s)"
    using d assms(2) by simp_all
qed

lemma replace_loop_ok:
  assumes h: "heap_ok h" and "utf8 q" "q \<noteq> []" "utf8 r" "n \<le> length s" "utf8 (drop n s)"
  shows "\<exists>xs. replace_loop h q r s n = Some xs \<and> list_all edit_ok xs \<and> edits_fit n xs (drop n s) \<and>
    edited n xs (drop n s) = replaced q r (drop n s) \<and> map te_start xs = match_positions q s n"
  using assms
proof (induction h q r s n rule: replace_loop.induct)
  case (1 h q r s n)
  have sl: "str_slice s n (length s) = Some (drop n s)"
    using 1(6,7) utf8_drop_boundary [OF 1(7,6)] by (simp add: str_slice_def slice_def)
  show ?case
  proof (cases "find_sub q (drop n s)")
    case None
    then show ?thesis using 1(4,7) sl replaced_None [OF None]
      by (subst replace_loop.simps, subst match_positions.simps) simp
  next
    case (Some i)
    note F = find_boundary [OF 1(7,3,4) Some]
    let ?n = "n + i + length q"
    let ?x = "\<lparr>te_start = n + i, te_removed = owned h q, te_inserted = owned h r\<rparr>"
    have le: "?n \<le> length s" "i \<le> length (drop n s)" using F(4) 1(6) by simp_all
    have d: "drop (i + length q) (drop n s) = drop ?n s" by (simp add: ac_simps)
    obtain xs where xs: "replace_loop h q r s ?n = Some xs" "list_all edit_ok xs" "edits_fit ?n xs (drop ?n s)"
      "edited ?n xs (drop ?n s) = replaced q r (drop ?n s)" "map te_start xs = match_positions q s ?n"
      using "1.IH" [OF 1(4) sl Some] 1(2-5) le(1) F(3) d by auto
    have "replace_loop h q r s n = Some (?x # xs)" using 1(4) sl Some xs(1) by (subst replace_loop.simps) simp
    moreover have "edits_fit n (?x # xs) (drop n s)" "edited n (?x # xs) (drop n s) = take i (drop n s) @ r @ edited ?n xs (drop ?n s)"
      using edits_fit_ConsI [of "drop n s" "take i (drop n s)" ?x "drop ?n s" n xs] F 1(3,5) xs(3) le(2) d
      by (simp_all add: te_end_def del: take_drop)
    moreover have "match_positions q s n = te_start ?x # match_positions q s ?n"
      using 1(4) Some by (subst match_positions.simps) simp
    moreover have "edit_ok ?x" using 1(2) by (simp add: edit_ok_def)
    ultimately show ?thesis using xs replaced_Some [OF 1(4) Some, of r] d by (simp del: edits_fit.simps edited.simps)
  qed
qed

section \<open>Planned edits\<close>

definition strings_utf8 :: "text_edit \<Rightarrow> bool" where
  "strings_utf8 x \<longleftrightarrow> utf8 (rs_bytes (te_removed x)) \<and> utf8 (rs_bytes (te_inserted x))"

lemma validate_edits_fit:
  assumes "utf8 s" "list_all strings_utf8 xs" "is_char_boundary s n" "validate_edits s xs n = Inr ()"
  shows "edits_fit n xs (drop n s)"
  using assms
proof (induction xs arbitrary: n)
  case Nil
  then show ?case using boundary_splits by simp
next
  case (Cons x xs)
  let ?j = "te_end x"
  have j: "n \<le> te_start x" "?j \<le> length s" "is_char_boundary s (te_start x)" "is_char_boundary s ?j"
      "slice (te_start x) (length (rs_bytes (te_removed x))) s = rs_bytes (te_removed x)" "validate_edits s xs ?j = Inr ()"
    using Cons.prems(4) by (auto simp: te_end_def checked_add_def split: if_splits)
  have "edits_fit ?j xs (drop ?j s)" using Cons.IH [OF Cons.prems(1) _ j(4,6)] Cons.prems(2) by simp
  moreover have "utf8 (take (te_start x - n) (drop n s))"
    using slice_utf8(3) [OF Cons.prems(1,3) j(3,1)] by (simp add: slice_def)
  moreover have "slice (te_start x - n) (length (rs_bytes (te_removed x))) (drop n s) = rs_bytes (te_removed x)"
    using j(1,5) by (simp add: slice_def)
  ultimately show ?case using j(1,2) Cons.prems(2) by (simp add: strings_utf8_def te_end_def)
qed

end
