(* ===== verification/Edit_Doc_Inv.thy ===== *)
theory Edit_Doc_Inv
  imports Edit_Derive Machine
begin

text \<open>
  The invariant of a document and its operations.  Every text on the timeline is valid UTF-8 within the
  document's bounds, so that undo and redo never leave them; no operation panics; a refused edit changes
  nothing; tokens keep their texts.
\<close>

section \<open>Opening bytes\<close>

lemma encode_ascii: "c < 0x80 \<Longrightarrow> encode_utf8 c = [u8_of_nat c]"
  by (simp add: encode_utf8_def)

lemma encode_no_cr: "is_scalar c \<Longrightarrow> c \<noteq> 13 \<Longrightarrow> 0x0d \<notin> set (encode_utf8 c)"
proof -
  assume c: "is_scalar c" "c \<noteq> 13"
  show ?thesis
  proof (cases "c < 0x80")
    case True
    then have "unat (u8_of_nat c) = c" by simp
    then have "u8_of_nat c \<noteq> 0x0d" using c(2) by auto
    then show ?thesis using True by (simp add: encode_ascii)
  next
    case False
    obtain b bs where e: "encode_utf8 c = b # bs" "\<not> cont b" "\<forall>x \<in> set bs. cont x" using c(1) by (rule encode_shape)
    have "decode_step (b # bs) = Some (c, length (b # bs))" using decode_step_encode [OF c(1), of "[]"] e(1) by simp
    then have "b \<noteq> 0x0d" using False by (auto simp: decode_step_def split: if_splits)
    then show ?thesis using e by (auto simp: cont_def)
  qed
qed

lemma normalise_skip: "0x0d \<notin> set a \<Longrightarrow> normalise_loop (a @ s) = a @ normalise_loop s"
proof (induction a)
  case (Cons b a)
  then show ?case by (cases "a @ s") auto
qed simp

lemma normalise_cr: "normalise_loop (0x0d # s) = 0x0a # normalise_loop (if s \<noteq> [] \<and> hd s = 0x0a then tl s else s)"
  by (cases s) auto

lemma utf8_ascii: "b < 0x80 \<Longrightarrow> utf8 (b # s) \<longleftrightarrow> utf8 s"
proof -
  assume b: "b < 0x80"
  then have "unat b < 0x80" by (simp add: word_less_nat_alt)
  then have "is_scalar (unat b)" "encode_utf8 (unat b) = [b]"
    by (auto simp: is_scalar_def encode_ascii u8_of_nat_def)
  then show ?thesis using from_utf8_encode_append [of "unat b" s] by (simp add: utf8_def)
qed

lemma normalise_loop_utf8:
  "utf8 s \<Longrightarrow> utf8 (normalise_loop s)"
proof (induction "length s" arbitrary: s rule: less_induct)
  case less
  show ?case
  proof (cases s)
    case (Cons b r)
    show ?thesis
    proof (cases "b = 0x0d")
      case True
      have r: "utf8 r" using less.prems Cons True utf8_ascii [of b r] by simp
      let ?r = "if r \<noteq> [] \<and> hd r = 0x0a then tl r else r"
      have "utf8 ?r" using r by (cases r) (auto simp: utf8_ascii)
      moreover have "length ?r < length s" using Cons by auto
      ultimately have "utf8 (normalise_loop ?r)" using less.hyps by blast
      then show ?thesis using Cons True by (simp only: normalise_cr utf8_ascii) (simp add: utf8_ascii)
    next
      case False
      obtain c cs where c: "is_scalar c" "\<forall>c \<in> set cs. is_scalar c" "s = encode_utf8 c @ str_bytes cs"
        using less.prems Cons by (auto simp: utf8_str_bytes) (metis list.distinct(1) list.exhaust list.set_intros str_bytes_simps(1,2))
      have "c \<noteq> 13" using False c(3) Cons by (auto simp: encode_ascii u8_of_nat_def)
      then have "normalise_loop s = encode_utf8 c @ normalise_loop (str_bytes cs)"
        using c normalise_skip encode_no_cr by blast
      moreover have "utf8 (normalise_loop (str_bytes cs))"
        using c(2,3) by (intro less.hyps) (auto simp: utf8_str_bytes)
      moreover have "utf8 (encode_utf8 c)" using c(1) by (auto simp: utf8_str_bytes intro!: exI [of _ "[c]"])
      ultimately show ?thesis by simp
    qed
  qed simp
qed

lemma normalise_length: "length (normalise_loop s) \<le> length s"
  by (induction s rule: normalise_loop.induct) auto

lemma normalise_ok: "utf8 s \<Longrightarrow> utf8 (normalise_line_endings s)" "length (normalise_line_endings s) \<le> length s"
  by (simp_all add: normalise_line_endings_def normalise_loop_utf8 normalise_length)

text \<open>Every \<open>\r\n\<close> found accounts for one carriage return and one line feed.\<close>

lemma byte_count_simps [simp]: "byte_count b [] = 0" "byte_count b (s @ t) = byte_count b s + byte_count b t"
  "byte_count b (c # s) = (if b = c then 1 else 0) + byte_count b s"
  by (simp_all add: byte_count_def)

lemma crlf_counts:
  assumes "q = [0x0d, 0x0a]" "b = 0x0d \<or> b = 0x0a"
  shows "length (match_positions q s n) \<le> byte_count b (drop n s)"
  using assms
proof (induction q s n rule: match_positions.induct)
  case (1 q s n)
  show ?case
  proof (cases "find_sub q (drop n s)")
    case None
    then show ?thesis by (subst match_positions.simps) simp
  next
    case (Some i)
    have "drop n s = take i (drop n s) @ q @ drop (n + i + length q) s"
      using find_split(2) [OF Some] by (simp add: ac_simps)
    then have "byte_count b (drop n s) = byte_count b (take i (drop n s)) + byte_count b q + byte_count b (drop (n + i + length q) s)"
      by (metis add.assoc byte_count_simps(2))
    moreover have "byte_count b q = 1" using 1(2,3) by auto
    ultimately show ?thesis using "1.IH" [OF _ Some] 1(2,3) Some by (subst match_positions.simps) simp
  qed
qed

lemma detect_line_ending_total: "\<exists>e. detect_line_ending s = Some e"
  using crlf_counts [OF refl, of "0x0d" s 0] crlf_counts [OF refl, of "0x0a" s 0] by (simp add: detect_line_ending_def Let_def)

section \<open>The invariant\<close>

type_synonym book = "nat option \<Rightarrow> bytes"

definition text_ok :: "document_bounds \<Rightarrow> bytes \<Rightarrow> bool" where
  "text_ok b s \<longleftrightarrow> utf8 s \<and> check_bounds b s = Inr ()"

definition doc_ok :: "heap_env \<Rightarrow> bytes list \<Rightarrow> book \<Rightarrow> text_document \<Rightarrow> bool" where
  "doc_ok h ts B d \<longleftrightarrow> undo_ok h (td_undo d) \<and> timeline (td_undo d) ts \<and> booked (td_undo d) ts B \<and>
     td_text d = ts ! uh_applied (td_undo d) \<and> (\<forall>s \<in> set ts. text_ok (td_bounds d) s) \<and>
     db_max_bytes (td_bounds d) + uh_max_bytes (td_undo d) \<le> usize_max"

lemma doc_okD:
  assumes "doc_ok h ts B d"
  shows "undo_ok h (td_undo d)" "timeline (td_undo d) ts" "booked (td_undo d) ts B" "td_text d = ts ! uh_applied (td_undo d)"
    "\<And>i. i \<le> length (uh_entries (td_undo d)) \<Longrightarrow> text_ok (td_bounds d) (ts ! i)"
    "db_max_bytes (td_bounds d) + uh_max_bytes (td_undo d) \<le> usize_max"
    "uh_applied (td_undo d) \<le> length (uh_entries (td_undo d))"
  using assms by (auto simp: doc_ok_def undo_ok_def timeline_def)

lemma doc_ok_text: "doc_ok h ts B d \<Longrightarrow> text_ok (td_bounds d) (td_text d)"
  using doc_okD(4,5,7) by metis

lemma text_ok_length: "text_ok b s \<Longrightarrow> length s \<le> db_max_bytes b"
  by (auto simp: text_ok_def check_bounds_def check_declared_size_def split: if_splits)

lemma doc_texts_length:
  "doc_ok h ts B d \<Longrightarrow> i \<le> length (uh_entries (td_undo d)) \<Longrightarrow> length (ts ! i) \<le> usize_max"
  using doc_okD(5,6) text_ok_length by (meson add_leD1 le_trans)

definition bounds_ok :: "document_bounds \<Rightarrow> bool" where
  "bounds_ok b \<longleftrightarrow> db_max_bytes b + DEFAULT_MAX_BYTES \<le> usize_max"

lemma from_bytes_ok:
  assumes "bounds_ok b"
  shows "ok (\<lambda>r. \<forall>d. r = Inr d \<longrightarrow> doc_ok h [td_text d] (\<lambda>_. td_text d) d \<and> td_bounds d = b \<and> td_undo d = undo_new \<and>
    \<not> is_dirty d) (from_bytes s b)"
proof -
  obtain enc body where body: "strip_bom s = (enc, body)" by (cases "strip_bom s")
  then have len: "length body \<le> length s" by (auto simp: strip_bom_def split: if_splits)
  obtain e where e: "detect_line_ending body = Some e" using detect_line_ending_total by blast
  have fresh: "timeline undo_new [t]" "booked undo_new [t] (\<lambda>_. t)" "uh_applied undo_new = 0" "undo_token undo_new = None"
      "uh_max_bytes undo_new = DEFAULT_MAX_BYTES" if "utf8 t" for t
    by (simp_all add: undo_new_def with_limits_def timeline_def booked_def undo_token_def)
  have "text_ok b (normalise_line_endings body)" if "utf8 body" "check_lines b (normalise_line_endings body) = Inr ()"
      "check_declared_size b (length s) = Inr ()"
    using that normalise_ok(1) [OF that(1)] normalise_ok(2) [of body] len
    by (auto simp: text_ok_def check_bounds_def check_declared_size_def split: if_splits)
  then show ?thesis using e body assms fresh undo_new_ok [of h] normalise_ok(1)
    by (auto simp: from_bytes_def doc_ok_def bounds_ok_def is_dirty_def Let_def split: sum.splits prod.splits)
qed

section \<open>Edits\<close>

text \<open>An accepted edit leads to the text \<open>s\<close>: either nothing had to change, or a transaction was
  recorded, and the book has one more page.\<close>

definition accepted :: "heap_env \<Rightarrow> bytes list \<Rightarrow> book \<Rightarrow> bool \<Rightarrow> text_document \<Rightarrow> bytes \<Rightarrow> text_document \<Rightarrow> bool" where
  "accepted h ts B typing d s d' \<longleftrightarrow> td_text d' = s \<and> (d' = d \<or>
     (\<exists>ts' u merged. (merged \<longrightarrow> typing) \<and> doc_ok h ts' (B(Some (uh_next_serial (td_undo d)) := s)) d' \<and> edited_timeline (td_undo d) merged ts s ts' \<and>
        uh_next_serial u = uh_next_serial (td_undo d) + 1 \<and> uh_applied u = length (uh_entries u) \<and>
        d' = d\<lparr>td_undo := u, td_text := s, td_revision := td_revision d + 1\<rparr>))"

definition edit_post :: "heap_env \<Rightarrow> bytes list \<Rightarrow> book \<Rightarrow> bool \<Rightarrow> text_document \<Rightarrow> bytes \<Rightarrow> ('e + 'a) \<times> text_document \<Rightarrow> bool" where
  "edit_post h ts B typing d s = (\<lambda>(r, d'). (\<forall>e. r = Inl e \<longrightarrow> d' = d) \<and> (\<forall>x. r = Inr x \<longrightarrow> accepted h ts B typing d s d'))"

lemma edited_timeline_texts: "edited_timeline u merged ts s ts' \<Longrightarrow> t \<in> set ts' \<Longrightarrow> t = s \<or> t \<in> set ts"
  by (cases merged) (auto simp: edited_timeline_def dest!: in_set_dropD in_set_takeD)

lemma apply_transaction_ok:
  assumes d: "doc_ok h ts B d" and h: "heap_ok h" and serial: "uh_next_serial (td_undo d) < usize_max"
    and edits: "list_all edit_ok edits" "edits_fit 0 edits (td_text d)"
  shows "ok (edit_post h ts B coalescable d (edited 0 edits (td_text d))) (apply_transaction h edits coalescable d)"
proof -
  let ?u = "td_undo d" and ?s = "td_text d" and ?t = "edited 0 edits (td_text d)"
  define xs where "xs = filter (\<lambda>x. rs_bytes (te_removed x) \<noteq> rs_bytes (te_inserted x)) edits"
  note D = doc_okD [OF d] and T = doc_ok_text [OF d]
  have fit: "edits_fit 0 xs ?s" "edited 0 xs ?s = ?t" using edits_fit_filter [OF edits(2)] by (simp_all add: xs_def)
  obtain m where m: "prepare h ?u edits coalescable = Some m" "m = Inr None \<longrightarrow> xs = []"
      "\<forall>p. m = Inr (Some p) \<longrightarrow> stages h ?u xs p \<and> (pu_merge p \<longrightarrow> coalescable)"
    using prepare_ok [OF D(1) h serial edits(1) xs_def, of coalescable] by (auto simp: ok_iff)
  show ?thesis
  proof (cases "\<exists>p. m = Inr (Some p)")
    case False
    then show ?thesis using m(1,2) fit by (cases m) (auto simp: apply_transaction_def edit_post_def accepted_def split: option.splits)
  next
    case True
    then obtain p where p: "m = Inr (Some p)" by blast
    then have st: "pu_edits p = xs" "part_sum inserted_bytes xs \<le> uh_max_bytes ?u"
        "ok (\<lambda>u'. undo_ok h u' \<and> recorded ?u (pu_merge p) xs u') (undo_commit h p ?u)" "pu_merge p \<longrightarrow> coalescable" using m(3) by (auto simp: stages_def)
    obtain u' where u': "undo_commit h p ?u = Some u'" "undo_ok h u'" "recorded ?u (pu_merge p) xs u'" using st(3) by (auto simp: ok_iff)
    have sum: "part_sum (snd \<circ> edit_parts Forward) xs = part_sum inserted_bytes xs" by (simp add: part_sum_def)
    have len: "length ?s \<le> db_max_bytes (td_bounds d)" "length ?t \<le> usize_max" "length ?s \<le> usize_max"
      using edit_texts_length [OF fit(1), of Forward] text_ok_length [OF T] st(2) D(6) fit(2) sum by auto
    have "rewritten_length (length ?s) (pu_edits p) Forward \<noteq> None"
      using edit_texts_length [OF fit(1), of Forward] len fit(2) st(1) by (subst rewritten_length_sum) auto
    then obtain n where n: "rewritten_length (length ?s) (pu_edits p) Forward = Some n" by blast
    have rw: "rewrite_ordered_edits ?s (pu_edits p) Forward = Some ?t"
      using rewrite_correct [OF fit(1) len(3), of Forward] len(2) fit(2) st(1) by simp
    let ?d = "d\<lparr>td_undo := u', td_text := ?t, td_revision := td_revision d + 1\<rparr>"
    have "accepted h ts B coalescable d ?t ?d" if "check_bounds (td_bounds d) ?t = Inr ()"
    proof -
      obtain ts' where ts': "timeline u' ts'" "ts' ! uh_applied u' = ?t" "edited_timeline ?u (pu_merge p) ts ?t ts'"
          "booked u' ts' (B(Some (uh_next_serial ?u) := ?t))"
        using recorded_timeline [OF D(1) u'(3) D(2) D(4) [symmetric] fit(1) D(3)] fit(2) by auto
      have "text_ok (td_bounds d) ?t" using that edits_fit_utf8 [OF fit(1)] fit(2) by (simp add: text_ok_def)
      then have "\<forall>s \<in> set ts'. text_ok (td_bounds d) s"
        using edited_timeline_texts [OF ts'(3)] d by (auto simp: doc_ok_def)
      then have "doc_ok h ts' (B(Some (uh_next_serial ?u) := ?t)) ?d" using ts' u' D(6) by (simp add: doc_ok_def recorded_def)
      then show ?thesis using ts'(3) st(4) u'(3) unfolding accepted_def recorded_def by (auto intro!: exI [of _ ts'] exI [of _ "pu_merge p"])
    qed
    then show ?thesis using m(1) p n rw u'(1) by (auto simp: apply_transaction_def edit_post_def split: sum.splits)
  qed
qed

text \<open>A result whose success value is only renamed.\<close>

lemma edit_post_map:
  "ok (edit_post h ts B c d s) m \<Longrightarrow> ok (edit_post h ts B c d s) (m \<bind> (\<lambda>(r, d'). Some (map_sum f g r, d')))"
  by (auto simp: edit_post_def map_sum_def elim!: ok_mono split: sum.splits)

lemma edit_post_typing: "ok (edit_post h ts B c d s) m \<Longrightarrow> ok (edit_post h ts B True d s) m"
  by (erule ok_mono) (auto simp: edit_post_def accepted_def)

lemma edit_post_same: "edit_post h ts B c d (td_text d) (r, d)"
  by (simp add: edit_post_def accepted_def)

lemma doc_replace_ok:
  assumes d: "doc_ok h ts B d" "heap_ok h" "uh_next_serial (td_undo d) < usize_max" and r: "utf8 r"
    and i: "i = floor_char_boundary (td_text d) (min a (length (td_text d)))"
    and j: "j = max (floor_char_boundary (td_text d) (min b (length (td_text d)))) i"
  shows "ok (edit_post h ts B False d (take i (td_text d) @ r @ drop j (td_text d))) (doc_replace h a b r d)"
proof -
  have "utf8 (td_text d)" using doc_ok_text [OF d(1)] by (simp add: text_ok_def)
  then obtain x where x: "edit_for h (td_text d) a b (owned h r) = Some x" "edit_ok x" "edits_fit 0 [x] (td_text d)"
      "edited 0 [x] (td_text d) = take i (td_text d) @ r @ drop j (td_text d)"
    using edit_for_ok [OF d(2), of "td_text d" "owned h r" i a j b] r i j d(2) by auto
  show ?thesis using apply_transaction_ok [OF d, of "[x]" False] x by (simp add: doc_replace_def)
qed

lemma sync_ok:
  assumes d: "doc_ok h ts B d" "heap_ok h" "uh_next_serial (td_undo d) < usize_max" and v: "utf8 v"
  shows "ok (edit_post h ts B True d v) (sync_from_view h v d)"
proof (cases "v = td_text d")
  case True
  then show ?thesis by (simp add: sync_from_view_def edit_post_same)
next
  case False
  have "utf8 (td_text d)" using doc_ok_text [OF d(1)] by (simp add: text_ok_def)
  then obtain x where x: "view_edit h (td_text d) v = Some x" "edit_ok x" "edits_fit 0 [x] (td_text d)" "edited 0 [x] (td_text d) = v"
    using view_edit_ok [OF d(2) _ v] by blast
  show ?thesis
    using edit_post_map [OF edit_post_typing [OF apply_transaction_ok [OF d, of "[x]"]]] x False
    by (simp add: sync_from_view_def Let_def del: edited.simps edits_fit.simps ok_bind)
qed

lemma replaced_self: "replaced q q s = s"
proof (induction "length s" arbitrary: s rule: less_induct)
  case less
  show ?case
  proof (cases "s = [] \<or> q = []")
    case True
    then show ?thesis by (subst replaced.simps) simp
  next
    case False
    then have IH: "replaced q q (drop (length q) s) = drop (length q) s" "replaced q q (tl s) = tl s"
      using less [of "drop (length q) s"] less [of "tl s"] by simp_all
    show ?thesis
    proof (cases "take (length q) s = q")
      case True
      then show ?thesis using False IH append_take_drop_id [of "length q" s] by (subst replaced.simps) simp
    qed (use False IH in \<open>subst replaced.simps, simp\<close>)
  qed
qed

lemma replace_all_ok:
  assumes d: "doc_ok h ts B d" "heap_ok h" "uh_next_serial (td_undo d) < usize_max" and q: "utf8 q" "utf8 r"
  shows "ok (\<lambda>p. edit_post h ts B False d (replaced q r (td_text d)) p \<and>
      (\<forall>n. fst p = Inr n \<longrightarrow> n = length (match_positions q (td_text d) 0))) (replace_all h q r d)"
proof (cases "q = [] \<or> q = r")
  case True
  have "replaced q q s = s" for s by (rule replaced_self)
  moreover have "match_positions [] s n = []" "replaced [] r s = s" for s n
    by (simp_all add: match_positions.simps [of "[]"] replaced.simps [of "[]"])
  ultimately show ?thesis using True by (auto simp: replace_all_def edit_post_same)
next
  case False
  have "utf8 (td_text d)" using doc_ok_text [OF d(1)] by (simp add: text_ok_def)
  then obtain xs where xs: "replace_loop h q r (td_text d) 0 = Some xs" "list_all edit_ok xs" "edits_fit 0 xs (td_text d)"
      "edited 0 xs (td_text d) = replaced q r (td_text d)" "map te_start xs = match_positions q (td_text d) 0"
    using replace_loop_ok [OF d(2) q(1) _ q(2), of 0 "td_text d"] False by auto
  have len: "length (match_positions q (td_text d) 0) = length xs" by (simp flip: xs(5))
  show ?thesis
  proof (cases "xs = []")
    case True
    then show ?thesis using False xs len edit_post_same by (simp add: replace_all_def)
  next
    case ne: False
    obtain p where p: "apply_transaction h xs False d = Some p" "edit_post h ts B False d (replaced q r (td_text d)) p"
      using apply_transaction_ok [OF d xs(2,3), of False] xs(4) by (auto simp: ok_iff)
    have "ok (edit_post h ts B False d (replaced q r (td_text d))) (Some p \<bind> (\<lambda>(r, d'). Some (map_sum id (\<lambda>_. length xs) r, d')))"
      by (rule edit_post_map) (simp add: p(2))
    then show ?thesis using False ne xs(1) p len by (cases p; cases "fst p") (simp_all add: replace_all_def)
  qed
qed

lemma apply_edits_ok:
  assumes d: "doc_ok h ts B d" "heap_ok h" "uh_next_serial (td_undo d) < usize_max"
    and xs: "list_all edit_ok xs" "list_all strings_utf8 xs"
  shows "ok (edit_post h ts B False d (edited 0 xs (td_text d))) (apply_edits h xs d)"
proof (cases "xs = [] \<or> validate_edits (td_text d) xs 0 \<noteq> Inr ()")
  case True
  show ?thesis
  proof (cases "xs = []")
    case False
    then obtain e where "validate_edits (td_text d) xs 0 = Inl e" using True by (cases "validate_edits (td_text d) xs 0") auto
    then show ?thesis using False by (simp add: apply_edits_def edit_post_def)
  qed (simp add: apply_edits_def edit_post_same)
next
  case False
  have "utf8 (td_text d)" using doc_ok_text [OF d(1)] by (simp add: text_ok_def)
  then have "edits_fit 0 xs (td_text d)" using validate_edits_fit [of "td_text d" xs 0] xs(2) False by simp
  from edit_post_map [OF apply_transaction_ok [OF d xs(1) this]] show ?thesis
    using False by (simp add: apply_edits_def del: ok_bind)
qed

end
