(* ===== verification/Edit_Ops.thy ===== *)
theory Edit_Ops
  imports Edit_Doc_Inv
begin

text \<open>
  Undo, redo, saving and reloading on the timeline, and the public operations of a document taken
  together: any sequence of them runs without panic and keeps the invariant, and the book of tokens only
  grows, so that a token met again stands for the same text.
\<close>

section \<open>Moving along the timeline\<close>

definition closed_at :: "nat \<Rightarrow> nat \<Rightarrow> undo_history \<Rightarrow> undo_history" where
  "closed_at i n u = u\<lparr>uh_entries := (uh_entries u)[i := (uh_entries u ! i)\<lparr>tx_open := False\<rparr>], uh_applied := n\<rparr>"

lemma closed_fields [simp]:
  "length (uh_entries (closed_at i n u)) = length (uh_entries u)" "uh_applied (closed_at i n u) = n"
  "uh_next_serial (closed_at i n u) = uh_next_serial u" "uh_max_bytes (closed_at i n u) = uh_max_bytes u"
  by (simp_all add: closed_at_def)

lemma closed_entry [simp]:
  "k < length (uh_entries u) \<Longrightarrow> tx_edits (uh_entries (closed_at i n u) ! k) = tx_edits (uh_entries u ! k)"
  "k < length (uh_entries u) \<Longrightarrow> tx_serial (uh_entries (closed_at i n u) ! k) = tx_serial (uh_entries u ! k)"
  by (cases "k = i"; simp add: closed_at_def)+

lemma closed_token: "k \<le> length (uh_entries u) \<Longrightarrow> token_at (closed_at i n u) k = token_at u k"
  by (simp add: token_at_def) (simp add: closed_at_def)

lemma closed_doc:
  assumes "doc_ok h ts B d" "i < length (uh_entries (td_undo d))" "n \<le> length (uh_entries (td_undo d))"
    "td_bounds d' = td_bounds d" "td_undo d' = closed_at i n (td_undo d)" "td_text d' = ts ! n"
  shows "doc_ok h ts B d'"
proof -
  note D = doc_okD [OF assms(1)]
  have "undo_ok h (closed_at i n (td_undo d))" unfolding closed_at_def by (rule close_entry_ok [OF D(1) assms(2,3)])
  moreover have "timeline (closed_at i n (td_undo d)) ts" using D(2) by (simp add: timeline_def)
  moreover have "booked (closed_at i n (td_undo d)) ts B" using D(3) by (simp add: booked_def closed_token)
  ultimately show ?thesis using assms by (simp add: doc_ok_def)
qed

lemma close_transaction_eq:
  "undo_ok h u \<Longrightarrow> close_transaction u = Some (if 0 < uh_applied u then closed_at (uh_applied u - 1) (uh_applied u) u else u)"
  by (auto simp: close_transaction_def closed_at_def rd_def undo_ok_def)

text \<open>What moving keeps: everything but the position, the text shown and the revision.\<close>

definition moved :: "heap_env \<Rightarrow> bytes list \<Rightarrow> book \<Rightarrow> text_document \<Rightarrow> nat \<Rightarrow> text_document \<Rightarrow> bool" where
  "moved h ts B d n d' \<longleftrightarrow> doc_ok h ts B d' \<and> td_text d' = ts ! n \<and> uh_applied (td_undo d') = n \<and>
     length (uh_entries (td_undo d')) = length (uh_entries (td_undo d)) \<and> uh_next_serial (td_undo d') = uh_next_serial (td_undo d) \<and>
     td_bounds d' = td_bounds d \<and> td_line_ending d' = td_line_ending d \<and> td_encoding d' = td_encoding d \<and> td_saved_point d' = td_saved_point d"

lemma moved_refl: "doc_ok h ts B d \<Longrightarrow> moved h ts B d (uh_applied (td_undo d)) d"
  by (simp add: moved_def doc_okD)

lemma doc_undo_ok:
  assumes "doc_ok h ts B d"
  shows "ok (\<lambda>(b, d'). b = can_undo (td_undo d) \<and> moved h ts B d (uh_applied (td_undo d) - 1) d') (doc_undo d)"
proof (cases "0 < uh_applied (td_undo d)")
  case False
  then have "doc_undo d = Some (False, d)" by (simp add: doc_undo_def step_back_def)
  then show ?thesis using False moved_refl [OF assms] by (simp add: can_undo_def)
next
  case True
  note D = doc_okD [OF assms]
  let ?a = "uh_applied (td_undo d)" and ?u = "td_undo d"
  have a: "?a - 1 < length (uh_entries ?u)" "Suc (?a - 1) = ?a" using True D(7) by simp_all
  let ?es = "tx_edits (uh_entries ?u ! (?a - 1))"
  have e: "edits_fit 0 ?es (ts ! (?a - 1))" "edited 0 ?es (ts ! (?a - 1)) = td_text d"
    using D(2,4) a by (auto simp: timeline_def dest!: spec [of _ "?a - 1"])
  have len: "length (ts ! (?a - 1)) \<le> usize_max" "length (td_text d) \<le> usize_max"
    using doc_texts_length [OF assms, of "?a - 1"] doc_texts_length [OF assms, of ?a] a(1) D(4,7) by simp_all
  have r: "replay_ordered_edits (td_text d) ?es Undo = Some (ts ! (?a - 1))"
    using replay_correct [OF e(1) len(1), of Undo] e(2) len(2) by simp
  have "step_back ?u = Some (Some (uh_entries (closed_at (?a - 1) ?a ?u) ! (?a - 1)), closed_at (?a - 1) (?a - 1) ?u)"
    using True a(1) close_transaction_eq [OF D(1)] by (simp add: step_back_def rd_def) (simp add: closed_at_def)
  then have eq: "doc_undo d = Some (True, d\<lparr>td_undo := closed_at (?a - 1) (?a - 1) ?u, td_text := ts ! (?a - 1), td_revision := td_revision d + 1\<rparr>)"
    using r a(1) by (simp add: doc_undo_def)
  show ?thesis unfolding eq using True a(1)
    by (auto simp: can_undo_def moved_def intro: closed_doc [OF assms, of "?a - 1" "?a - 1"])
qed

lemma doc_redo_ok:
  assumes "doc_ok h ts B d"
  shows "ok (\<lambda>(b, d'). b = can_redo (td_undo d) \<and>
    moved h ts B d (if can_redo (td_undo d) then uh_applied (td_undo d) + 1 else uh_applied (td_undo d)) d') (doc_redo d)"
proof (cases "uh_applied (td_undo d) < length (uh_entries (td_undo d))")
  case False
  then have "doc_redo d = Some (False, d)" by (simp add: doc_redo_def step_forward_def rd_def)
  then show ?thesis using False moved_refl [OF assms] by (simp add: can_redo_def)
next
  case True
  note D = doc_okD [OF assms]
  let ?a = "uh_applied (td_undo d)" and ?u = "td_undo d"
  let ?es = "tx_edits (uh_entries ?u ! ?a)"
  have e: "edits_fit 0 ?es (td_text d)" "edited 0 ?es (td_text d) = ts ! (?a + 1)"
    using D(2,4) True by (auto simp: timeline_def)
  have len: "length (ts ! (?a + 1)) \<le> usize_max" "length (td_text d) \<le> usize_max"
    using doc_texts_length [OF assms, of "?a + 1"] doc_texts_length [OF assms, of ?a] True D(4,7) by simp_all
  have r: "replay_ordered_edits (td_text d) ?es Forward = Some (ts ! (?a + 1))"
    using replay_correct [OF e(1) len(2), of Forward] e(2) len(1) by simp
  have "step_forward ?u = (Some ((uh_entries ?u ! ?a)\<lparr>tx_open := False\<rparr>), closed_at ?a (?a + 1) ?u)"
    using True by (simp add: step_forward_def rd_def closed_at_def Let_def)
  then have eq: "doc_redo d = Some (True, d\<lparr>td_undo := closed_at ?a (?a + 1) ?u, td_text := ts ! (?a + 1), td_revision := td_revision d + 1\<rparr>)"
    using r by (simp add: doc_redo_def)
  show ?thesis unfolding eq using True
    by (auto simp: can_redo_def moved_def intro: closed_doc [OF assms, of ?a "?a + 1"])
qed

lemma doc_close_ok:
  assumes "doc_ok h ts B d"
  shows "ok (moved h ts B d (uh_applied (td_undo d))) (doc_close_transaction d)"
proof -
  note D = doc_okD [OF assms]
  let ?a = "uh_applied (td_undo d)"
  show ?thesis
  proof (cases "0 < ?a")
    case True
    then have a: "?a - 1 < length (uh_entries (td_undo d))" using D(7) by simp
    have "doc_ok h ts B (d\<lparr>td_undo := closed_at (?a - 1) ?a (td_undo d)\<rparr>)"
      using D(4,7) by (intro closed_doc [OF assms a, of ?a]) simp_all
    then show ?thesis using True D(4) close_transaction_eq [OF D(1)] by (simp add: doc_close_transaction_def moved_def)
  next
    case False
    then show ?thesis using moved_refl [OF assms] close_transaction_eq [OF D(1)] by (simp add: doc_close_transaction_def)
  qed
qed

lemma saved_point_ok: "doc_ok h ts B d \<Longrightarrow> doc_ok h ts B (d\<lparr>td_saved_point := p\<rparr>)"
  by (simp add: doc_ok_def)

lemma mark_saved_at_ok:
  assumes "doc_ok h ts B d"
  shows "ok (moved h ts B (d\<lparr>td_saved_point := SavedAt p\<rparr>) (uh_applied (td_undo d))) (mark_saved_at p d)"
  using doc_close_ok [OF saved_point_ok [OF assms]] by (simp add: mark_saved_at_def)

lemma mark_saved_eq: "mark_saved d = mark_saved_at (save_point d) d"
  by (simp add: mark_saved_def mark_saved_at_def save_point_def)

lemma reload_ok:
  assumes "doc_ok h ts B d" "db_max_bytes (td_bounds d) + DEFAULT_MAX_BYTES \<le> usize_max"
  shows "ok (\<lambda>(r, d'). (\<forall>e. r = Inl e \<longrightarrow> d' = d) \<and> (r = Inr () \<longrightarrow> doc_ok h [td_text d'] (\<lambda>_. td_text d') d' \<and>
      td_bounds d' = td_bounds d \<and> uh_next_serial (td_undo d') = uh_next_serial (td_undo d) \<and> \<not> is_dirty d')) (reload_from s d)"
proof -
  note D = doc_okD [OF assms(1)]
  obtain r where r: "from_bytes s (td_bounds d) = Some r" "\<forall>n. r = Inr n \<longrightarrow> doc_ok h [td_text n] (\<lambda>_. td_text n) n \<and> td_bounds n = td_bounds d"
    using from_bytes_ok [of "td_bounds d" h s] assms(2) by (auto simp: ok_iff bounds_ok_def)
  have "timeline (undo_clear u) [t]" "booked (undo_clear u) [t] (\<lambda>_. t)" "undo_token (undo_clear u) = None"
      "uh_applied (undo_clear u) = 0" "uh_max_bytes (undo_clear u) = uh_max_bytes u" "uh_next_serial (undo_clear u) = uh_next_serial u" for u t
    by (simp_all add: undo_clear_def timeline_def booked_def undo_token_def)
  then show ?thesis using r D(6) undo_clear_ok [OF D(1)]
    by (cases r) (auto simp: reload_from_def doc_ok_def is_dirty_def)
qed

section \<open>The public operations\<close>

datatype doc_op =
    Replace nat nat bytes
  | SyncFromView bytes
  | ReplaceAll bytes bytes
  | ApplyEdits "text_edit list"
  | UndoOp
  | RedoOp
  | CloseTransaction
  | MarkSaved
  | MarkSavedAt "nat option"
  | Reload bytes

fun doc_do :: "heap_env \<Rightarrow> doc_op \<Rightarrow> text_document \<Rightarrow> text_document option" where
  "doc_do h (Replace a b r) d = map_option snd (doc_replace h a b r d)"
| "doc_do h (SyncFromView v) d = map_option snd (sync_from_view h v d)"
| "doc_do h (ReplaceAll q r) d = map_option snd (replace_all h q r d)"
| "doc_do h (ApplyEdits xs) d = map_option snd (apply_edits h xs d)"
| "doc_do h UndoOp d = map_option snd (doc_undo d)"
| "doc_do h RedoOp d = map_option snd (doc_redo d)"
| "doc_do h CloseTransaction d = doc_close_transaction d"
| "doc_do h MarkSaved d = mark_saved d"
| "doc_do h (MarkSavedAt p) d = mark_saved_at p d"
| "doc_do h (Reload s) d = map_option snd (reload_from s d)"

text \<open>The arguments are Rust strings: valid UTF-8 that fits its capacity.\<close>

fun op_ok :: "doc_op \<Rightarrow> bool" where
  "op_ok (Replace a b r) \<longleftrightarrow> utf8 r"
| "op_ok (SyncFromView v) \<longleftrightarrow> utf8 v"
| "op_ok (ReplaceAll q r) \<longleftrightarrow> utf8 q \<and> utf8 r"
| "op_ok (ApplyEdits xs) \<longleftrightarrow> list_all edit_ok xs \<and> list_all strings_utf8 xs"
| "op_ok _ \<longleftrightarrow> True"

fun reloads :: "doc_op \<Rightarrow> bool" where
  "reloads (Reload s) \<longleftrightarrow> True"
| "reloads _ \<longleftrightarrow> False"

text \<open>\<open>grows\<close>: the later document knows everything the earlier one knew about tokens it had given out.\<close>

definition grows :: "text_document \<Rightarrow> book \<Rightarrow> text_document \<Rightarrow> book \<Rightarrow> bool" where
  "grows d B d' B' \<longleftrightarrow> uh_next_serial (td_undo d) \<le> uh_next_serial (td_undo d') \<and>
     (\<forall>k. k = None \<or> (\<exists>n < uh_next_serial (td_undo d). k = Some n) \<longrightarrow> B' k = B k) \<and>
     td_line_ending d' = td_line_ending d \<and> td_encoding d' = td_encoding d"

definition doc_inv :: "heap_env \<Rightarrow> text_document \<Rightarrow> bool" where
  "doc_inv h d \<longleftrightarrow> (\<exists>ts B. doc_ok h ts B d) \<and> db_max_bytes (td_bounds d) + DEFAULT_MAX_BYTES \<le> usize_max"

definition op_post :: "heap_env \<Rightarrow> bytes list \<Rightarrow> book \<Rightarrow> doc_op \<Rightarrow> text_document \<Rightarrow> text_document \<Rightarrow> bool" where
  "op_post h ts B op d d' \<longleftrightarrow> (\<exists>ts' B'. doc_ok h ts' B' d' \<and> (\<not> reloads op \<longrightarrow> grows d B d' B')) \<and> td_bounds d' = td_bounds d \<and>
     uh_next_serial (td_undo d') \<le> uh_next_serial (td_undo d) + 1"

lemma ok_snd: "ok P (map_option snd m) = ok (\<lambda>p. P (snd p)) m"
  by (cases m) simp_all

lemma op_post_same: "doc_ok h ts B d \<Longrightarrow> op_post h ts B op d d"
  by (auto simp: op_post_def grows_def)

lemma op_post_edit:
  assumes "doc_ok h ts B d" "edit_post h ts B c d s p"
  shows "op_post h ts B op d (snd p)"
proof -
  obtain r d' where p: "p = (r, d')" by (cases p)
  have "d' = d \<or> accepted h ts B c d s d'" using assms(2) p by (cases r) (auto simp: edit_post_def)
  then consider "d' = d" | ts' u where "doc_ok h ts' (B(Some (uh_next_serial (td_undo d)) := s)) d'"
      "uh_next_serial u = uh_next_serial (td_undo d) + 1" "d' = d\<lparr>td_undo := u, td_text := s, td_revision := td_revision d + 1\<rparr>"
    unfolding accepted_def by blast
  then show ?thesis
  proof cases
    case 2
    then have "td_bounds d' = td_bounds d" "td_line_ending d' = td_line_ending d" "td_encoding d' = td_encoding d"
      "uh_next_serial (td_undo d') = uh_next_serial (td_undo d) + 1" by simp_all
    then show ?thesis using 2(1) unfolding p op_post_def grows_def by fastforce
  qed (simp add: p op_post_same [OF assms(1)])
qed

lemma op_post_moved: "moved h ts B d n d' \<Longrightarrow> op_post h ts B op d d'"
  by (auto simp: moved_def op_post_def grows_def)

lemma doc_do_ok:
  assumes d: "doc_ok h ts B d" "heap_ok h" "uh_next_serial (td_undo d) < usize_max"
    and b: "db_max_bytes (td_bounds d) + DEFAULT_MAX_BYTES \<le> usize_max" and op: "op_ok op"
  shows "ok (op_post h ts B op d) (doc_do h op d)"
proof -
  have saved: "ok (op_post h ts B op d) (mark_saved_at p d)" for p
    by (rule ok_mono [OF mark_saved_at_ok [OF d(1)]]) (auto simp: moved_def op_post_def grows_def)
  have edit: "ok (\<lambda>p. op_post h ts B op d (snd p)) m" if "ok (edit_post h ts B c d s) m" for c and m :: "(('e + 'a) \<times> text_document) option" and s
    using that by (rule ok_mono) (rule op_post_edit [OF d(1)])
  show ?thesis
  proof (cases op)
    case (Replace a b r)
    then show ?thesis using edit [OF doc_replace_ok [OF d _ refl refl]] op by (simp add: ok_snd)
  next
    case (SyncFromView v)
    then show ?thesis using edit [OF sync_ok [OF d]] op by (simp add: ok_snd)
  next
    case (ReplaceAll q r)
    then show ?thesis using op by (auto simp: ok_snd intro!: ok_mono [OF replace_all_ok [OF d]] op_post_edit [OF d(1)])
  next
    case (ApplyEdits xs)
    then show ?thesis using edit [OF apply_edits_ok [OF d]] op by (simp add: ok_snd)
  next
    case UndoOp
    then show ?thesis by (auto simp: ok_snd intro!: ok_mono [OF doc_undo_ok [OF d(1)]] op_post_moved)
  next
    case RedoOp
    then show ?thesis by (auto simp: ok_snd intro!: ok_mono [OF doc_redo_ok [OF d(1)]] op_post_moved)
  next
    case CloseTransaction
    then show ?thesis by (auto intro!: ok_mono [OF doc_close_ok [OF d(1)]] op_post_moved)
  next
    case (Reload s)
    have "op_post h ts B (Reload s) d (snd p)" if "case p of (r, d') \<Rightarrow> (\<forall>e. r = Inl e \<longrightarrow> d' = d) \<and> (r = Inr () \<longrightarrow>
        doc_ok h [td_text d'] (\<lambda>_. td_text d') d' \<and> td_bounds d' = td_bounds d \<and> uh_next_serial (td_undo d') = uh_next_serial (td_undo d) \<and> \<not> is_dirty d')" for p
      using that d(1) by (cases p; cases "fst p") (auto simp: op_post_def)
    then show ?thesis unfolding Reload doc_do.simps ok_snd by (rule ok_mono [OF reload_ok [OF d(1) b]])
  qed (use saved in \<open>simp_all add: mark_saved_eq\<close>)
qed

section \<open>Sequences of operations\<close>

lemma grows_refl: "grows d B d B"
  by (simp add: grows_def)

lemma grows_trans: "grows d B d1 B1 \<Longrightarrow> grows d1 B1 d2 B2 \<Longrightarrow> grows d B d2 B2"
  unfolding grows_def by (metis order_trans less_le_trans)

lemma doc_run_ok:
  assumes "doc_ok h ts B d" "heap_ok h" "db_max_bytes (td_bounds d) + DEFAULT_MAX_BYTES \<le> usize_max"
    "uh_next_serial (td_undo d) + length ops \<le> usize_max" "list_all op_ok ops"
  shows "ok (\<lambda>d'. \<exists>ts' B'. doc_ok h ts' B' d' \<and> (list_all (\<lambda>op. \<not> reloads op) ops \<longrightarrow> grows d B d' B') \<and> td_bounds d' = td_bounds d \<and>
      uh_next_serial (td_undo d') \<le> uh_next_serial (td_undo d) + length ops) (foldM (doc_do h) ops d)"
  using assms
proof (induction ops arbitrary: ts B d)
  case Nil
  then show ?case using grows_refl by fastforce
next
  case (Cons op ops)
  have "ok (op_post h ts B op d) (doc_do h op d)" using Cons.prems by (intro doc_do_ok) auto
  then obtain d1 where d1: "doc_do h op d = Some d1" "op_post h ts B op d d1" by (auto simp: ok_iff)
  then obtain ts1 B1 where b: "doc_ok h ts1 B1 d1" "\<not> reloads op \<longrightarrow> grows d B d1 B1" "td_bounds d1 = td_bounds d"
      "uh_next_serial (td_undo d1) \<le> uh_next_serial (td_undo d) + 1" by (auto simp: op_post_def)
  have "ok (\<lambda>d'. \<exists>ts' B'. doc_ok h ts' B' d' \<and> (list_all (\<lambda>op. \<not> reloads op) ops \<longrightarrow> grows d1 B1 d' B') \<and> td_bounds d' = td_bounds d1 \<and>
      uh_next_serial (td_undo d') \<le> uh_next_serial (td_undo d1) + length ops) (foldM (doc_do h) ops d1)"
    using Cons.prems b by (intro Cons.IH [OF b(1)]) auto
  then show ?case using d1(1) b by (auto elim!: ok_mono) (metis add_Suc_right add_mono grows_trans le_trans order_refl plus_1_eq_Suc add.commute)+
qed

end
