(* ===== verification/Edit_Contract.thy ===== *)
theory Edit_Contract
  imports Edit_Ops
begin

text \<open>
  The contract of an undo stack as a locale, with its interpretation on documents; the line breaks of a
  text and how opening and saving treat them; what operations leave alone; a sample document.
\<close>

section \<open>Walking a timeline\<close>

text \<open>The contract of an undo stack: at each moment the document stands at one point of a timeline of
  contents, and the two moves go to the neighbouring points.\<close>

locale undoable =
  fixes go_back go_forth :: "'d \<Rightarrow> 'd option" and stands :: "'d \<Rightarrow> 't list \<Rightarrow> nat \<Rightarrow> bool" and shown :: "'d \<Rightarrow> 't"
  assumes at_shown: "stands d ts n \<Longrightarrow> n < length ts \<and> shown d = ts ! n"
    and back_at: "stands d ts n \<Longrightarrow> ok (\<lambda>d'. stands d' ts (n - 1)) (go_back d)"
    and forth_at: "stands d ts n \<Longrightarrow> ok (\<lambda>d'. stands d' ts (min (n + 1) (length ts - 1))) (go_forth d)"
begin

definition move :: "nat \<Rightarrow> bool \<Rightarrow> nat \<Rightarrow> nat" where
  "move m ahead n = (if ahead then min (n + 1) (m - 1) else n - 1)"

definition walk :: "bool list \<Rightarrow> 'd \<Rightarrow> 'd option" where
  "walk ms = foldM (\<lambda>ahead. if ahead then go_forth else go_back) ms"

lemma walk_at: "stands d ts n \<Longrightarrow> ok (\<lambda>d'. stands d' ts (fold (move (length ts)) ms n)) (walk ms d)"
proof (induction ms arbitrary: d n)
  case (Cons a ms)
  have "ok (\<lambda>d'. stands d' ts (move (length ts) a n)) (if a then go_forth d else go_back d)"
    using Cons.prems back_at forth_at by (simp add: move_def)
  then show ?case using Cons.IH by (auto simp: walk_def ok_iff)
qed (simp add: walk_def)

lemma walk_shows: "stands d ts n \<Longrightarrow> ok (\<lambda>d'. shown d' = ts ! fold (move (length ts)) ms n) (walk ms d)"
  using walk_at at_shown by (blast intro: ok_mono)

text \<open>As many steps forward as were taken back lead to the same content.\<close>

lemma move_back: "(move m False ^^ k) n = n - k"
  by (induction k) (simp_all add: move_def)

lemma move_forth: "n + k < m \<Longrightarrow> (move m True ^^ k) n = n + k"
  by (induction k) (simp_all add: move_def)

lemma back_and_forth:
  assumes "stands d ts n" "k \<le> n"
  shows "ok (\<lambda>d'. shown d' = shown d) (walk (replicate k False @ replicate k True) d)"
proof -
  have "fold (move (length ts)) (replicate k False @ replicate k True) n = n"
    using assms at_shown [OF assms(1)] by (simp add: move_back move_forth)
  then show ?thesis using walk_shows [OF assms(1), of "replicate k False @ replicate k True"] at_shown [OF assms(1)] by simp
qed

end

definition undo_move :: "text_document \<Rightarrow> text_document option" where
  "undo_move d = map_option snd (doc_undo d)"

definition redo_move :: "text_document \<Rightarrow> text_document option" where
  "redo_move d = map_option snd (doc_redo d)"

definition stands_at :: "heap_env \<Rightarrow> text_document \<Rightarrow> bytes list \<Rightarrow> nat \<Rightarrow> bool" where
  "stands_at h d ts n \<longleftrightarrow> (\<exists>B. doc_ok h ts B d) \<and> n = uh_applied (td_undo d)"

interpretation ed: undoable undo_move redo_move "stands_at h" td_text for h
proof
  fix d ts n assume "stands_at h d ts n"
  then obtain B where d: "doc_ok h ts B d" "n = uh_applied (td_undo d)" by (auto simp: stands_at_def)
  have len: "length ts = length (uh_entries (td_undo d)) + 1" using doc_okD(2) [OF d(1)] by (simp add: timeline_def)
  show "n < length ts \<and> td_text d = ts ! n" using d len doc_okD(4,7) [OF d(1)] by simp
  show "ok (\<lambda>d'. stands_at h d' ts (n - 1)) (undo_move d)" unfolding undo_move_def ok_snd
    by (rule ok_mono [OF doc_undo_ok [OF d(1)]]) (auto simp: moved_def stands_at_def d(2))
  have "(if can_redo (td_undo d) then n + 1 else n) = min (n + 1) (length ts - 1)"
    using len d(2) doc_okD(7) [OF d(1)] by (simp add: can_redo_def)
  then show "ok (\<lambda>d'. stands_at h d' ts (min (n + 1) (length ts - 1))) (redo_move d)" unfolding redo_move_def ok_snd
    by (intro ok_mono [OF doc_redo_ok [OF d(1)]]) (auto simp: moved_def stands_at_def d(2))
qed

section \<open>Saving gives back what was opened\<close>

text \<open>The line breaks of a text, from the left.\<close>

fun line_breaks :: "bytes \<Rightarrow> line_ending list" where
  "line_breaks [] = []"
| "line_breaks [b] = (if b = 0x0d then [Cr] else if b = 0x0a then [Lf] else [])"
| "line_breaks (b # c # s) =
     (if b = 0x0d then if c = 0x0a then Crlf # line_breaks s else Cr # line_breaks (c # s)
      else if b = 0x0a then Lf # line_breaks (c # s) else line_breaks (c # s))"

definition break_lines_with :: "line_ending \<Rightarrow> bytes \<Rightarrow> bytes" where
  "break_lines_with e s = concat (map (\<lambda>b. if b = 0x0a then ending_str e else [b]) s)"

lemma break_lines_simps [simp]: "break_lines_with e [] = []"
  "break_lines_with e (b # s) = (if b = 0x0a then ending_str e else [b]) @ break_lines_with e s"
  by (simp_all add: break_lines_with_def)

lemma break_lines_Lf: "break_lines_with Lf s = s"
  by (induction s) simp_all

lemma to_bytes_break: "to_bytes d = (if td_encoding d = Utf8Bom then BOM else []) @ break_lines_with (td_line_ending d) (td_text d)"
  by (cases "td_line_ending d") (simp_all add: to_bytes_def break_lines_Lf, simp_all add: break_lines_with_def)

lemma break_normalised: "set (line_breaks s) \<subseteq> {e} \<Longrightarrow> break_lines_with e (normalise_loop s) = s"
  by (induction s rule: line_breaks.induct) (auto split: if_splits)

lemma normalise_break: "0x0d \<notin> set s \<Longrightarrow> normalise_loop (break_lines_with e s) = s"
proof (induction s)
  case (Cons b s)
  have "break_lines_with Cr s = [] \<or> hd (break_lines_with Cr s) \<noteq> 0x0a" by (cases s) auto
  then show ?case using Cons by (cases e) (auto simp: normalise_cr normalise_skip [of "[_]", simplified])
qed simp

lemma normalise_line_loop: "normalise_line_endings s = normalise_loop s"
  using normalise_skip [of s "[]"] by (simp add: normalise_line_endings_def)

lemma breaks_append: "line_breaks (a @ 0x0d # t) = line_breaks a @ line_breaks (0x0d # t)"
  by (induction a rule: line_breaks.induct) (auto simp: neq_Nil_conv)

lemma find_crlf_None: "find_sub [0x0d, 0x0a] s = None \<Longrightarrow> Crlf \<notin> set (line_breaks s)"
  by (induction s rule: line_breaks.induct) (auto split: if_splits)

definition break_count :: "line_ending \<Rightarrow> bytes \<Rightarrow> nat" where
  "break_count e s = length (filter ((=) e) (line_breaks s))"

lemma find_crlf_least: "find_sub [0x0d, 0x0a] s = Some i \<Longrightarrow> find_sub [0x0d, 0x0a] (take i s) = None"
proof (induction s arbitrary: i)
  case (Cons b s)
  show ?case
  proof (cases "take 2 (b # s) = [0x0d, 0x0a]")
    case False
    then obtain j where j: "find_sub [0x0d, 0x0a] s = Some j" "i = Suc j" using Cons.prems by auto
    have "take 2 (b # take j s) \<noteq> [0x0d, 0x0a]" using False by (cases s; cases j) auto
    then show ?thesis using Cons.IH [OF j(1)] j(2) by simp
  qed (use Cons.prems in simp)
qed simp

lemma crlf_positions: "q = [0x0d, 0x0a] \<Longrightarrow> length (match_positions q s n) = break_count Crlf (drop n s)"
proof (induction q s n rule: match_positions.induct)
  case (1 q s n)
  show ?case
  proof (cases "find_sub q (drop n s)")
    case None
    then show ?thesis using find_crlf_None 1(2) by (subst match_positions.simps) (auto simp: break_count_def filter_empty_conv)
  next
    case (Some i)
    let ?a = "take i (drop n s)" and ?t = "drop (n + i + length q) s"
    have "drop n s = ?a @ q @ ?t" using find_split(2) [OF Some] by (simp add: ac_simps)
    then have "line_breaks (drop n s) = line_breaks ?a @ Crlf # line_breaks ?t"
      using breaks_append [of ?a "0x0a # ?t"] 1(2) by simp
    moreover have "Crlf \<notin> set (line_breaks ?a)" using find_crlf_least Some 1(2) by (intro find_crlf_None) simp
    ultimately have "break_count Crlf (drop n s) = Suc (break_count Crlf ?t)"
      by (auto simp: break_count_def filter_empty_conv)
    then show ?thesis using "1.IH" [OF _ Some 1(2)] 1(2) Some by (subst match_positions.simps) simp
  qed
qed

lemma byte_counts: "byte_count 0x0d s = break_count Cr s + break_count Crlf s" "byte_count 0x0a s = break_count Lf s + break_count Crlf s"
proof (induction s rule: line_breaks.induct)
  case (3 b c s)
  { case 1 then show ?case using 3 by (cases "b = 0x0d"; cases "b = 0x0a"; cases "c = 0x0a") (simp_all add: break_count_def) }
  { case 2 then show ?case using 3 by (cases "b = 0x0d"; cases "b = 0x0a"; cases "c = 0x0a") (simp_all add: break_count_def) }
qed (simp_all add: break_count_def)

lemma detect_uniform:
  assumes "set (line_breaks s) \<subseteq> {e}" "line_breaks s \<noteq> []"
  shows "detect_line_ending s = Some e"
proof -
  have n: "break_count e s = length (line_breaks s)" "f \<noteq> e \<Longrightarrow> break_count f s = 0" for f
    using assms(1) by (auto simp: break_count_def filter_id_conv filter_empty_conv intro!: arg_cong [of _ _ length])
  then show ?thesis using assms(2) crlf_positions [OF refl, of s 0] byte_counts [of s]
    by (cases e) (auto simp: detect_line_ending_def Let_def)
qed

lemma break_lines_plain: "line_breaks s = [] \<Longrightarrow> break_lines_with e s = s"
  by (induction s rule: line_breaks.induct) (auto split: if_splits)

lemma normalise_plain: "line_breaks s = [] \<Longrightarrow> normalise_loop s = s"
  by (induction s rule: line_breaks.induct) (auto split: if_splits)

section \<open>What operations leave alone\<close>

fun marks :: "doc_op \<Rightarrow> bool" where
  "marks MarkSaved \<longleftrightarrow> True"
| "marks (MarkSavedAt p) \<longleftrightarrow> True"
| "marks (Reload s) \<longleftrightarrow> True"
| "marks _ \<longleftrightarrow> False"

definition limits :: "text_document \<Rightarrow> nat \<times> nat" where
  "limits d = (uh_max_entries (td_undo d), uh_max_bytes (td_undo d))"

definition framed :: "text_document \<Rightarrow> text_document \<Rightarrow> bool" where
  "framed d d' \<longleftrightarrow> limits d' = limits d \<and> td_saved_point d' = td_saved_point d"

lemma framed_refl [simp]: "framed d d"
  by (simp add: framed_def)

lemma commit_frame: "undo_commit h p u = Some u' \<Longrightarrow> uh_max_entries u' = uh_max_entries u \<and> uh_max_bytes u' = uh_max_bytes u"
  by (auto simp: undo_commit_def Let_def split: bind_splits if_splits)

lemma transaction_frame: "apply_transaction h xs c d = Some (r, d') \<Longrightarrow> framed d d'"
  by (auto simp: apply_transaction_def framed_def limits_def dest!: commit_frame split: bind_splits sum.splits option.splits)

lemma close_frame: "close_transaction u = Some u' \<Longrightarrow> uh_max_entries u' = uh_max_entries u \<and> uh_max_bytes u' = uh_max_bytes u"
  by (auto simp: close_transaction_def split: bind_splits if_splits)

lemma step_back_frame: "step_back u = Some (t, u') \<Longrightarrow> uh_max_entries u' = uh_max_entries u \<and> uh_max_bytes u' = uh_max_bytes u"
  by (auto simp: step_back_def dest!: close_frame split: bind_splits if_splits)

lemma step_forward_frame: "step_forward u = (t, u') \<Longrightarrow> uh_max_entries u' = uh_max_entries u \<and> uh_max_bytes u' = uh_max_bytes u"
  by (auto simp: step_forward_def Let_def split: option.splits)

lemma undo_frame: "doc_undo d = Some (b, d') \<Longrightarrow> framed d d'"
  by (auto simp: doc_undo_def framed_def limits_def dest!: step_back_frame split: bind_splits option.splits)

lemma redo_frame: "doc_redo d = Some (b, d') \<Longrightarrow> framed d d'"
  by (auto simp: doc_redo_def framed_def limits_def dest!: step_forward_frame split: bind_splits option.splits prod.splits)

lemma edits_frame:
  "doc_replace h a b r d = Some (x, d') \<Longrightarrow> framed d d'"
  "sync_from_view h v d = Some (y, d') \<Longrightarrow> framed d d'"
  "replace_all h q r d = Some (z, d') \<Longrightarrow> framed d d'"
  "apply_edits h xs d = Some (w, d') \<Longrightarrow> framed d d'"
  by (auto simp: doc_replace_def sync_from_view_def replace_all_def apply_edits_def Let_def
      dest!: transaction_frame split: bind_splits if_splits sum.splits)

lemma doc_do_frame: "doc_do h op d = Some d' \<Longrightarrow> limits d' = limits d \<and> (\<not> marks op \<longrightarrow> td_saved_point d' = td_saved_point d)"
  by (cases op)
     (auto simp: framed_def mark_saved_eq mark_saved_at_def doc_close_transaction_def reload_from_def limits_def undo_clear_def
       dest!: edits_frame undo_frame redo_frame close_frame split: bind_splits sum.splits)

lemma doc_run_frame:
  "foldM (doc_do h) ops d = Some d' \<Longrightarrow> limits d' = limits d \<and> (list_all (\<lambda>op. \<not> marks op) ops \<longrightarrow> td_saved_point d' = td_saved_point d)"
  by (induction ops arbitrary: d) (auto dest!: doc_do_frame split: bind_splits)

section \<open>A sample document\<close>

definition sample_heap :: heap_env where
  "sample_heap = \<lparr>string_cap = \<lambda>n. n, string_grow = \<lambda>c n. n, deque_cap = \<lambda>n. n, deque_grow = \<lambda>c n. n,
     size_transaction = 40, size_edit = 56\<rparr>"

lemma sample_heap_ok: "heap_ok sample_heap"
  by (simp add: heap_ok_def sample_heap_def)

definition sample_document :: text_document where
  "sample_document = \<lparr>td_text = [0x61, 0x0a], td_encoding = Utf8, td_line_ending = Crlf, td_indentation = Spaces 4,
     td_bounds = default_bounds, td_undo = undo_new, td_saved_point = SavedAt None, td_revision = 0\<rparr>"

lemma sample_opens: "from_bytes [0x61, 0x0d, 0x0a] default_bounds = Some (Inr sample_document)"
proof -
  have "utf8 [0x61, 0x0d, 0x0a]" by (simp add: utf8_ascii)
  moreover have "detect_line_ending [0x61, 0x0d, 0x0a] = Some Crlf" by (rule detect_uniform) simp_all
  moreover have "str_lines [0x61, 0x0a] = [[0x61]]" by (simp add: str_lines_def strip_cr_def)
  ultimately show ?thesis
    by (simp add: from_bytes_def sample_document_def check_declared_size_def default_bounds_def strip_bom_def BOM_def
        normalise_line_loop check_lines_def line_count_def first_overlong_line_def detect_indentation_def count_indent_def upt_rec)
qed

lemma sample_bounds: "bounds_ok default_bounds"
  by (simp add: bounds_ok_def default_bounds_def DEFAULT_MAX_BYTES_def usize_max_def)

end
