(* ===== verification/Edit_Props.thy ===== *)
theory Edit_Props
  imports Edit_Contract
begin

text \<open>
  The properties of an editable document: it never panics and stays within its bounds, undo and redo walk
  exact texts, a clean document holds the saved text, saving gives back the bytes that were opened, and
  the view's text and the replacements arrive exactly.
\<close>

lemma doc_inv_run:
  assumes "heap_ok h" "doc_inv h d" "uh_next_serial (td_undo d) + length ops \<le> usize_max" "list_all op_ok ops"
    "foldM (doc_do h) ops d = Some d'"
  shows "doc_inv h d' \<and> td_bounds d' = td_bounds d"
  using assms doc_run_ok [of h _ _ d ops] by (fastforce simp: doc_inv_def ok_iff)

lemma opened_inv: "bounds_ok b \<Longrightarrow> from_bytes s b = Some (Inr d) \<Longrightarrow> doc_inv h d \<and> td_bounds d = b \<and> td_undo d = undo_new"
  using from_bytes_ok [of b h s] by (auto simp: doc_inv_def bounds_ok_def)

lemma undo_new_fields [simp]: "uh_next_serial undo_new = 1" "uh_max_entries undo_new = DEFAULT_MAX_ENTRIES"
  "uh_max_bytes undo_new = DEFAULT_MAX_BYTES" "uh_applied undo_new = 0" "uh_entries undo_new = []"
  by (simp_all add: undo_new_def with_limits_def DEFAULT_MAX_ENTRIES_def)

lemma retained_le: "undo_ok h u \<Longrightarrow> retained_bytes h u \<le> uh_max_bytes u"
  by (auto simp: undo_ok_def retained_bytes_def slot_storage_def sat_add_def sat_mul_def)

lemma sample_inv: "doc_inv h sample_document"
  using opened_inv [OF sample_bounds sample_opens] by blast

lemma sample_serial: "uh_next_serial (td_undo sample_document) = 1"
  by (simp add: sample_document_def)

text \<open>
  C28. Opening any bytes never panics.  On a document that opened, any sequence of edits, undos, redos, saves and
  reloads runs without panic; the text stays valid UTF-8 within the bounds it was opened with, also where
  undo and redo do not check them, and the undo history stays within its 2048 entries and 8 MiB.
\<close>

theorem document_operations_total:
  assumes "heap_ok h" "bounds_ok b" "list_all op_ok ops" "length ops < usize_max"
  shows "\<exists>r. from_bytes s b = Some r \<and> (\<forall>d. r = Inr d \<longrightarrow>
    (\<exists>d'. foldM (doc_do h) ops d = Some d' \<and> utf8 (td_text d') \<and> check_bounds b (td_text d') = Inr () \<and>
      length (uh_entries (td_undo d')) \<le> DEFAULT_MAX_ENTRIES \<and> retained_bytes h (td_undo d') \<le> DEFAULT_MAX_BYTES))"
proof -
  obtain r where r: "from_bytes s b = Some r" using from_bytes_ok [OF assms(2), of h s] by (auto simp: ok_iff)
  have "\<exists>d'. foldM (doc_do h) ops d = Some d' \<and> utf8 (td_text d') \<and> check_bounds b (td_text d') = Inr () \<and>
      length (uh_entries (td_undo d')) \<le> DEFAULT_MAX_ENTRIES \<and> retained_bytes h (td_undo d') \<le> DEFAULT_MAX_BYTES" if "r = Inr d" for d
  proof -
    have d: "doc_inv h d" "td_bounds d = b" "td_undo d = undo_new" using opened_inv [OF assms(2)] r that by auto
    then obtain d' ts B where d': "foldM (doc_do h) ops d = Some d'" "doc_ok h ts B d'" "td_bounds d' = b"
      using doc_run_ok [of h _ _ d ops] assms by (fastforce simp: doc_inv_def ok_iff)
    have "limits d' = (DEFAULT_MAX_ENTRIES, DEFAULT_MAX_BYTES)" using doc_run_frame [OF d'(1)] d(3) by (simp add: limits_def)
    then show ?thesis using d' doc_ok_text [OF d'(2)] retained_le [OF doc_okD(1) [OF d'(2)]] doc_okD(1) [OF d'(2)]
      by (auto simp: limits_def text_ok_def undo_ok_def)
  qed
  with r show ?thesis by blast
qed

theorem document_operations_total_witness:
  "\<exists>d'. foldM (doc_do sample_heap) [Replace 0 1 [0x62], UndoOp, RedoOp, MarkSaved] sample_document = Some d' \<and> utf8 (td_text d')"
  using document_operations_total [OF sample_heap_ok sample_bounds, of "[Replace 0 1 [0x62], UndoOp, RedoOp, MarkSaved]" "[0x61, 0x0d, 0x0a]"]
    sample_opens by (auto simp: utf8_ascii usize_max_def)

text \<open>
  C29. Undo and redo walk the line of texts that the recorded edits describe.  There is a text for every point of the
  history, each one obtained from the one before by replacing, at the recorded places, exactly the recorded removed
  text by the recorded inserted text; the document shows the text at the applied point.  Whatever sequence of undos
  and redos follows, none panics and the text is, byte for byte, the one at the point reached: one step earlier for an
  undo, one later for a redo, no step at the ends.
\<close>

theorem undo_redo_walk_texts:
  assumes "heap_ok h" "doc_inv h d"
  shows "\<exists>ts. length ts = length (uh_entries (td_undo d)) + 1 \<and> uh_applied (td_undo d) < length ts \<and>
    td_text d = ts ! uh_applied (td_undo d) \<and>
    (\<forall>i < length (uh_entries (td_undo d)). edits_fit 0 (tx_edits (uh_entries (td_undo d) ! i)) (ts ! i) \<and>
       ts ! (i + 1) = edited 0 (tx_edits (uh_entries (td_undo d) ! i)) (ts ! i)) \<and>
    (\<forall>ms. \<exists>d'. foldM (\<lambda>ahead. if ahead then redo_move else undo_move) ms d = Some d' \<and>
      td_text d' = ts ! fold (\<lambda>ahead n. if ahead then min (n + 1) (length ts - 1) else n - 1) ms (uh_applied (td_undo d)))"
proof -
  obtain ts B where d: "doc_ok h ts B d" using assms(2) by (auto simp: doc_inv_def)
  then have s: "stands_at h d ts (uh_applied (td_undo d))" by (auto simp: stands_at_def)
  have line: "length ts = length (uh_entries (td_undo d)) + 1"
    "\<forall>i < length (uh_entries (td_undo d)). edits_fit 0 (tx_edits (uh_entries (td_undo d) ! i)) (ts ! i) \<and>
       ts ! (i + 1) = edited 0 (tx_edits (uh_entries (td_undo d) ! i)) (ts ! i)"
    using doc_okD(2) [OF d] by (simp_all add: timeline_def)
  have move: "ed.move m = (\<lambda>ahead n. if ahead then min (n + 1) (m - 1) else n - 1)" for m by (rule ext)+ (simp add: ed.move_def)
  have "\<exists>d'. foldM (\<lambda>ahead. if ahead then redo_move else undo_move) ms d = Some d' \<and>
      td_text d' = ts ! fold (\<lambda>ahead n. if ahead then min (n + 1) (length ts - 1) else n - 1) ms (uh_applied (td_undo d))" for ms
    using ed.walk_shows [OF s, of ms] by (simp only: ok_iff ed.walk_def move)
  then show ?thesis using ed.at_shown [OF s] line by blast
qed

text \<open>The edits that are one transaction of their own, never part of a typing run.\<close>

fun one_transaction :: "doc_op \<Rightarrow> bool" where
  "one_transaction (Replace a b r) \<longleftrightarrow> True"
| "one_transaction (ReplaceAll q r) \<longleftrightarrow> True"
| "one_transaction (ApplyEdits xs) \<longleftrightarrow> True"
| "one_transaction _ \<longleftrightarrow> False"

definition freshly :: "heap_env \<Rightarrow> bytes list \<Rightarrow> text_document \<Rightarrow> text_document \<Rightarrow> bool" where
  "freshly h ts d d' \<longleftrightarrow> (\<exists>ts' B' n. n \<le> uh_applied (td_undo d) \<and> doc_ok h ts' B' d' \<and>
     ts' = drop n (take (uh_applied (td_undo d) + 1) ts) @ [td_text d'] \<and> uh_applied (td_undo d') = length (uh_entries (td_undo d')))"

lemma fresh_post:
  assumes "edit_post h ts B False d s (r, d')" "d' \<noteq> d"
  shows "freshly h ts d d'"
proof -
  have "accepted h ts B False d s d'" using assms by (cases r) (auto simp: edit_post_def)
  then obtain ts' u merged where a: "td_text d' = s" "doc_ok h ts' (B(Some (uh_next_serial (td_undo d)) := s)) d'"
      "\<not> merged \<and> edited_timeline (td_undo d) merged ts s ts'" "uh_applied u = length (uh_entries u)" "d' = d\<lparr>td_undo := u, td_text := s, td_revision := td_revision d + 1\<rparr>"
    using assms(2) unfolding accepted_def by blast
  obtain n where n: "n \<le> uh_applied (td_undo d)" "ts' = drop n (take (uh_applied (td_undo d) + 1) ts) @ [s]"
    using a(3) by (auto simp: edited_timeline_def)
  have "td_undo d' = u" using a(5) by simp
  then show ?thesis unfolding freshly_def using a(1,2,4) n by auto
qed

lemma fresh_edit:
  assumes "doc_ok h ts B d" "heap_ok h" "uh_next_serial (td_undo d) < usize_max" "op_ok op" "one_transaction op" "doc_do h op d = Some d'" "d' \<noteq> d"
  shows "freshly h ts d d'"
proof -
  note D = assms(1-3)
  consider a b r where "op = Replace a b r" | q r where "op = ReplaceAll q r" | xs where "op = ApplyEdits xs"
    using assms(5) by (cases op) auto
  then show ?thesis
  proof cases
    case 1
    then obtain x where "doc_replace h a b r d = Some (x, d')" using assms(6) by auto
    then show ?thesis using doc_replace_ok [OF D _ refl refl, of r a b] assms(4,7) 1 by (auto intro: fresh_post)
  next
    case 2
    then obtain x where "replace_all h q r d = Some (x, d')" using assms(6) by auto
    then show ?thesis using replace_all_ok [OF D, of q r] assms(4,7) 2 by (auto intro: fresh_post)
  next
    case 3
    then obtain x where "apply_edits h xs d = Some (x, d')" using assms(6) by auto
    then show ?thesis using apply_edits_ok [OF D, of xs] assms(4,7) 3 by (auto intro: fresh_post)
  qed
qed

text \<open>
  A replacement, a replace-all or a prepared set of edits that changed the text is undone by exactly one undo,
  which restores the earlier text byte for byte, and one redo brings the edited text back.
\<close>

theorem edit_undo_restores:
  assumes "heap_ok h" "doc_inv h d" "uh_next_serial (td_undo d) < usize_max" "op_ok op" "one_transaction op"
    "doc_do h op d = Some d'" "td_text d' \<noteq> td_text d"
  shows "\<exists>d1 d2. doc_undo d' = Some (True, d1) \<and> td_text d1 = td_text d \<and> doc_redo d1 = Some (True, d2) \<and> td_text d2 = td_text d'"
proof -
  obtain ts B where d: "doc_ok h ts B d" using assms(2) by (auto simp: doc_inv_def)
  let ?a = "uh_applied (td_undo d)"
  obtain ts' B' n where d': "n \<le> ?a" "doc_ok h ts' B' d'" "ts' = drop n (take (?a + 1) ts) @ [td_text d']"
      "uh_applied (td_undo d') = length (uh_entries (td_undo d'))"
    using fresh_edit [OF d assms(1,3-6)] assms(7) unfolding freshly_def by blast
  let ?a' = "uh_applied (td_undo d')"
  have len: "length ts = length (uh_entries (td_undo d)) + 1" "length ts' = ?a' + 1" "?a \<le> length (uh_entries (td_undo d))"
    using doc_okD(2,7) [OF d] doc_okD(2) [OF d'(2)] d'(4) by (simp_all add: timeline_def)
  have a': "?a' = ?a - n + 1" using len d'(1,3) by simp
  have before: "ts' ! (?a' - 1) = td_text d" using a' len d'(1,3) doc_okD(4) [OF d] by (simp add: nth_append)
  have undo: "can_undo (td_undo d')" using a' by (simp add: can_undo_def)
  obtain d1 where d1: "doc_undo d' = Some (True, d1)" "moved h ts' B' d' (?a' - 1) d1"
    using doc_undo_ok [OF d'(2)] undo by (auto simp: ok_iff)
  then have m: "doc_ok h ts' B' d1" "uh_applied (td_undo d1) = ?a' - 1" "length (uh_entries (td_undo d1)) = ?a'" "td_text d1 = td_text d"
    using before d'(4) by (auto simp: moved_def)
  have "can_redo (td_undo d1)" using m(2,3) a' by (simp add: can_redo_def)
  moreover have "ts' ! ?a' = td_text d'" using doc_okD(4) [OF d'(2)] by simp
  ultimately obtain d2 where "doc_redo d1 = Some (True, d2)" "td_text d2 = td_text d'"
    using doc_redo_ok [OF m(1)] m(2) a' by (auto simp: ok_iff moved_def)
  with d1(1) m(4) show ?thesis by blast
qed

definition sample_edited :: text_document where
  "sample_edited = sample_document\<lparr>td_text := [0x62, 0x0a], td_revision := 1, td_undo := undo_new\<lparr>uh_entries := [\<lparr>tx_serial = 1,
      tx_edits = [\<lparr>te_start = 0, te_removed = \<lparr>rs_bytes = [0x61], rs_capacity = 1\<rparr>, te_inserted = \<lparr>rs_bytes = [0x62], rs_capacity = 1\<rparr>\<rparr>],
      tx_open = False\<rparr>], uh_slots := 4, uh_applied := 1, uh_next_serial := 2, uh_payload_bytes := 58\<rparr>\<rparr>"

lemma sample_replace: "doc_do sample_heap (Replace 0 1 [0x62]) sample_document = Some sample_edited"
proof -
  have b: "floor_char_boundary [0x61, 0x0a] (Suc 0) = Suc 0" by (simp add: is_char_boundary_def cont_def)
  have l: "str_lines [0x62, 0x0a] = [[0x62]]" by (simp add: str_lines_def strip_cr_def)
  show ?thesis
    by (simp add: doc_replace_def edit_for_def sample_edited_def sample_document_def b str_slice_def is_char_boundary_def cont_def slice_def owned_def
        sample_heap_def apply_transaction_def prepare_def prepare_fresh_def plan_retention_def retire_loop.simps slot_storage_def
        sat_add_def sat_mul_def usize_max_def undo_new_def with_limits_def DEFAULT_MAX_BYTES_def DEFAULT_MAX_ENTRIES_def
        edit_storage_def Let_def checked_add_def rewritten_length_def check_declared_size_def default_bounds_def
        rewrite_ordered_edits_def rewrite_step_def te_end_def check_bounds_def check_lines_def line_count_def first_overlong_line_def l
        undo_commit_def)
qed

theorem edit_undo_restores_witness:
  "\<exists>d1 d2. doc_do sample_heap (Replace 0 1 [0x62]) sample_document = Some sample_edited \<and> doc_undo sample_edited = Some (True, d1) \<and>
    td_text d1 = td_text sample_document \<and> doc_redo d1 = Some (True, d2) \<and> td_text d2 = td_text sample_edited"
proof -
  have "td_text sample_edited \<noteq> td_text sample_document" by (simp add: sample_edited_def sample_document_def)
  then show ?thesis using edit_undo_restores [OF sample_heap_ok sample_inv _ _ _ sample_replace] sample_replace
    by (simp add: sample_serial usize_max_def utf8_ascii)
qed

theorem undo_redo_walk_texts_witness:
  "(\<exists>d'. foldM (\<lambda>ahead. if ahead then redo_move else undo_move) [False] sample_edited = Some d' \<and> td_text d' = [0x61, 0x0a]) \<and>
    (\<exists>d'. foldM (\<lambda>ahead. if ahead then redo_move else undo_move) [False, False, True] sample_edited = Some d' \<and> td_text d' = [0x62, 0x0a])"
proof -
  have inv: "doc_inv sample_heap sample_edited"
  proof -
    have "foldM (doc_do sample_heap) [Replace 0 1 [0x62]] sample_document = Some sample_edited"
      unfolding foldM.simps sample_replace by simp
    from doc_inv_run [OF sample_heap_ok sample_inv _ _ this] show ?thesis by (simp add: sample_serial usize_max_def utf8_ascii)
  qed
  have u: "uh_entries (td_undo sample_edited) = [\<lparr>tx_serial = 1,
      tx_edits = [\<lparr>te_start = 0, te_removed = \<lparr>rs_bytes = [0x61], rs_capacity = 1\<rparr>, te_inserted = \<lparr>rs_bytes = [0x62], rs_capacity = 1\<rparr>\<rparr>],
      tx_open = False\<rparr>]" "uh_applied (td_undo sample_edited) = 1" "td_text sample_edited = [0x62, 0x0a]"
    by (simp_all add: sample_edited_def)
  obtain ts where len: "length ts = length (uh_entries (td_undo sample_edited)) + 1"
    and here: "td_text sample_edited = ts ! uh_applied (td_undo sample_edited)"
    and line: "\<forall>i < length (uh_entries (td_undo sample_edited)). edits_fit 0 (tx_edits (uh_entries (td_undo sample_edited) ! i)) (ts ! i) \<and>
       ts ! (i + 1) = edited 0 (tx_edits (uh_entries (td_undo sample_edited) ! i)) (ts ! i)"
    and walk: "\<forall>ms. \<exists>d'. foldM (\<lambda>ahead. if ahead then redo_move else undo_move) ms sample_edited = Some d' \<and>
      td_text d' = ts ! fold (\<lambda>ahead n. if ahead then min (n + 1) (length ts - 1) else n - 1) ms (uh_applied (td_undo sample_edited))"
    using undo_redo_walk_texts [OF sample_heap_ok inv] by blast
  have now: "ts ! 1 = [0x62, 0x0a]" using here u by simp
  have "slice 0 1 (ts ! 0) = [0x61]" "0x62 # drop 1 (ts ! 0) = ts ! 1" "1 \<le> length (ts ! 0)"
    using line u(1) by (simp_all add: te_end_def)
  then have "ts ! 0 = [0x61, 0x0a]" using now by (cases "ts ! 0") (simp_all add: slice_def)
  then show ?thesis
    using walk [rule_format, of "[False]"] walk [rule_format, of "[False, False, True]"] now len u by simp
qed

text \<open>
  C30. A document that is not dirty holds the bytes that were saved.  A save point taken at some moment and recorded
  when the write has finished, after further edits, undos and redos, vouches for the content at that moment: whenever
  the document is clean afterwards, saving it again would write exactly the same bytes.
\<close>

theorem clean_document_holds_saved_bytes:
  assumes "heap_ok h" "doc_inv h d0" "uh_next_serial (td_undo d0) + length ops1 + length ops2 < usize_max"
    "list_all op_ok (ops1 @ ops2)" "list_all (\<lambda>op. \<not> reloads op) ops1" "list_all (\<lambda>op. \<not> marks op) ops2"
    "foldM (doc_do h) ops1 d0 = Some d1" "mark_saved_at (save_point d0) d1 = Some d2" "foldM (doc_do h) ops2 d2 = Some d3" "\<not> is_dirty d3"
  shows "to_bytes d3 = to_bytes d0"
proof -
  let ?ops = "ops1 @ MarkSavedAt (save_point d0) # ops2"
  have run: "foldM (doc_do h) ?ops d0 = Some d3" using assms(7-9) by (simp add: foldM_append)
  obtain ts B where d0: "doc_ok h ts B d0" using assms(2) by (auto simp: doc_inv_def)
  have "list_all (\<lambda>op. \<not> reloads op) ops2" using assms(6) by (induction ops2) (auto elim: reloads.elims)
  moreover have "list_all op_ok ?ops" "uh_next_serial (td_undo d0) + length ?ops \<le> usize_max" using assms(3,4) by simp_all
  moreover have "db_max_bytes (td_bounds d0) + DEFAULT_MAX_BYTES \<le> usize_max" using assms(2) by (simp add: doc_inv_def)
  ultimately obtain ts' B' where d3: "doc_ok h ts' B' d3" "grows d0 B d3 B'"
    using doc_run_ok [OF d0 assms(1), of ?ops] run assms(5) by auto
  have "td_saved_point d3 = SavedAt (save_point d0)"
    using doc_run_frame [OF assms(9)] assms(6,8) by (auto simp: mark_saved_at_def doc_close_transaction_def split: bind_splits)
  then have t: "undo_token (td_undo d3) = undo_token (td_undo d0)" using assms(10) by (simp add: is_dirty_def save_point_def)
  have shown: "C (undo_token (td_undo d)) = td_text d" if "doc_ok h us C d" for us C d
    using doc_okD [OF that] token_at_applied [OF doc_okD(1) [OF that]] by (simp add: booked_def)
  have "B' (undo_token (td_undo d0)) = B (undo_token (td_undo d0))"
    using d3(2) token_at_less [OF doc_okD(1,7) [OF d0]] token_at_applied [OF doc_okD(1) [OF d0]] by (auto simp: grows_def)
  then have "td_text d3 = td_text d0" using shown [OF d0] shown [OF d3(1)] t by simp
  then show ?thesis using d3(2) by (simp add: to_bytes_break grows_def)
qed

theorem clean_document_holds_saved_bytes_witness:
  "\<exists>d2. mark_saved_at (save_point sample_document) sample_edited = Some d2 \<and>
     (\<exists>d3. doc_do sample_heap UndoOp d2 = Some d3 \<and> \<not> is_dirty d3 \<and> to_bytes d3 = to_bytes sample_document)"
proof -
  define d2 where "d2 = sample_edited\<lparr>td_saved_point := SavedAt None\<rparr>"
  define d3 where "d3 = sample_document\<lparr>td_revision := 2, td_undo := (td_undo sample_edited)\<lparr>uh_applied := 0\<rparr>, td_saved_point := SavedAt None\<rparr>"
  have a: "mark_saved_at (save_point sample_document) sample_edited = Some d2"
    by (simp add: d2_def mark_saved_at_def save_point_def doc_close_transaction_def close_transaction_def rd_def
        sample_edited_def sample_document_def undo_token_def undo_new_def with_limits_def)
  have u: "doc_undo d2 = Some (True, d3)"
    by (simp add: d2_def d3_def doc_undo_def step_back_def close_transaction_def rd_def sample_edited_def sample_document_def
        replay_ordered_edits_def splice_edit_def replace_range_def is_char_boundary_def cont_def)
  have b: "foldM (doc_do sample_heap) [UndoOp] d2 = Some d3" by (simp add: u)
  have c: "\<not> is_dirty d3" by (simp add: d3_def is_dirty_def undo_token_def sample_edited_def undo_new_def with_limits_def)
  have r: "foldM (doc_do sample_heap) [Replace 0 1 [0x62]] sample_document = Some sample_edited"
    using sample_replace by (simp del: doc_do.simps)
  have "to_bytes d3 = to_bytes sample_document"
    by (rule clean_document_holds_saved_bytes [OF sample_heap_ok sample_inv _ _ _ _ r a b c])
       (simp_all add: sample_serial usize_max_def utf8_ascii)
  then show ?thesis using a u c by auto
qed

text \<open>
  C31. Opening and saving without an edit gives back the same bytes, for every file whose line breaks are of one kind
  (any of the three) or that has none, with or without a byte order mark.
\<close>

theorem unedited_save_is_identity:
  assumes "from_bytes s b = Some (Inr d)" "set (line_breaks (snd (strip_bom s))) \<subseteq> {e}"
  shows "to_bytes d = s"
proof -
  obtain enc body where body: "strip_bom s = (enc, body)" by (cases "strip_bom s")
  obtain f where f: "detect_line_ending body = Some f" using detect_line_ending_total by blast
  have d: "td_text d = normalise_loop body" "td_encoding d = enc" "td_line_ending d = f"
    using assms(1) body f by (auto simp: from_bytes_def normalise_line_loop Let_def split: sum.splits if_splits)
  have "break_lines_with f (normalise_loop body) = body"
  proof (cases "line_breaks body = []")
    case True
    then show ?thesis by (simp add: normalise_plain break_lines_plain)
  next
    case False
    then have "f = e" using detect_uniform [of body e] assms(2) body f by simp
    then show ?thesis using break_normalised [of body e] assms(2) body by simp
  qed
  moreover have "s = (if enc = Utf8Bom then BOM else []) @ body"
    using body append_take_drop_id [of 3 s] by (cases "take 3 s = BOM") (auto simp: strip_bom_def)
  ultimately show ?thesis using d by (simp add: to_bytes_break)
qed

theorem unedited_save_is_identity_witness: "to_bytes sample_document = [0x61, 0x0d, 0x0a]"
  by (rule unedited_save_is_identity [OF sample_opens, of Crlf]) (simp add: strip_bom_def BOM_def)

text \<open>
  Replace-all never panics.  When it is accepted, the text is the one read off from the left with every
  non-overlapping occurrence replaced, and the count returned is the number of occurrences; when it is refused, the
  document is unchanged.
\<close>

theorem replace_all_exact:
  assumes "heap_ok h" "doc_inv h d" "uh_next_serial (td_undo d) < usize_max" "utf8 q" "utf8 r"
  shows "\<exists>res d'. replace_all h q r d = Some (res, d') \<and> (\<forall>e. res = Inl e \<longrightarrow> d' = d) \<and>
    (\<forall>n. res = Inr n \<longrightarrow> td_text d' = replaced q r (td_text d) \<and> n = length (match_positions q (td_text d) 0))"
proof -
  obtain ts B where d: "doc_ok h ts B d" using assms(2) by (auto simp: doc_inv_def)
  show ?thesis using replace_all_ok [OF d assms(1,3-5)] by (auto simp: ok_iff edit_post_def accepted_def)
qed

theorem replace_all_exact_witness:
  "\<exists>res d'. replace_all sample_heap [0x61] [0x62, 0x62] sample_document = Some (res, d') \<and> (\<forall>e. res = Inl e \<longrightarrow> d' = sample_document) \<and>
    (\<forall>n. res = Inr n \<longrightarrow> td_text d' = replaced [0x61] [0x62, 0x62] (td_text sample_document) \<and>
      n = length (match_positions [0x61] (td_text sample_document) 0))"
  by (rule replace_all_exact [OF sample_heap_ok sample_inv]) (simp_all add: sample_serial usize_max_def utf8_ascii)

text \<open>
  Adopting the text of a view never panics and is exact: the single edit derived from the common prefix and suffix,
  cut back to character boundaries, leads to precisely the view's text when it is accepted, and a refusal leaves the
  document unchanged; the result tells whether the text differed.
\<close>

theorem view_sync_exact:
  assumes "heap_ok h" "doc_inv h d" "uh_next_serial (td_undo d) < usize_max" "utf8 v"
  shows "\<exists>res d'. sync_from_view h v d = Some (res, d') \<and> (\<forall>e. res = Inl e \<longrightarrow> d' = d) \<and>
    (\<forall>changed. res = Inr changed \<longrightarrow> td_text d' = v \<and> changed = (v \<noteq> td_text d))"
proof -
  obtain ts B where d: "doc_ok h ts B d" using assms(2) by (auto simp: doc_inv_def)
  obtain res d' where r: "sync_from_view h v d = Some (res, d')" "edit_post h ts B True d v (res, d')"
    using sync_ok [OF d assms(1,3,4)] by (auto simp: ok_iff)
  then have "changed = (v \<noteq> td_text d)" if "res = Inr changed" for changed
    using that by (auto simp: sync_from_view_def Let_def map_sum_def split: if_splits bind_splits sum.splits)
  with r show ?thesis by (auto simp: edit_post_def accepted_def)
qed

theorem view_sync_exact_witness:
  "\<exists>res d'. sync_from_view sample_heap [0x61, 0x62, 0x0a] sample_document = Some (res, d') \<and>
    (\<forall>e. res = Inl e \<longrightarrow> d' = sample_document) \<and>
    (\<forall>changed. res = Inr changed \<longrightarrow> td_text d' = [0x61, 0x62, 0x0a] \<and> changed = ([0x61, 0x62, 0x0a] \<noteq> td_text sample_document))"
  by (rule view_sync_exact [OF sample_heap_ok sample_inv]) (simp_all add: sample_serial usize_max_def utf8_ascii)

end
