(* ===== verification/Edit_Diff.thy ===== *)
theory Edit_Diff
  imports Edit_Text
begin

text \<open>
  The line comparison of two versions of a document, \<open>festerm-document/src/diff.rs\<close>: the common prefix
  and suffix, the table of longest common subsequences over the differing middle, the script walked
  from it, the two columns of paired lines, and the folding of long unchanged runs.
\<close>

section \<open>Data\<close>

datatype line_change = Unchanged | Removed | Added

primrec marker :: "line_change \<Rightarrow> bytes" where
  "marker Unchanged = ascii '' ''"
| "marker Removed = ascii ''-''"
| "marker Added = ascii ''+''"

record diff_line =
  dl_number :: nat
  dl_text :: bytes
  dl_change :: line_change

datatype comparison_row = Pair_Row "diff_line option" "diff_line option" | Collapsed nat

record line_comparison =
  lc_rows :: "comparison_row list"
  lc_change_count :: nat
  lc_truncated :: bool

type_synonym diff_pair = "diff_line option \<times> diff_line option"

datatype diff_step = Keep nat nat | Remove nat | Add nat

definition CONTEXT_LINES :: nat where
  "CONTEXT_LINES = 2"

definition MAX_ALIGNED_LINES :: nat where
  "MAX_ALIGNED_LINES = 2000"

section \<open>The common subsequence\<close>

definition line_prefix :: "bytes list \<Rightarrow> bytes list \<Rightarrow> nat" where
  "line_prefix l r = length (takeWhile (\<lambda>(one, other). one = other) (zip l r))"

definition line_suffix :: "bytes list \<Rightarrow> bytes list \<Rightarrow> nat" where
  "line_suffix l r = length (takeWhile (\<lambda>(one, other). one = other) (zip (rev l) (rev r)))"

text \<open>The table has \<open>u32\<close> entries, row by row; an entry past \<open>u32::MAX\<close> is a panic.\<close>

definition lcs_at :: "nat \<Rightarrow> nat \<Rightarrow> nat \<Rightarrow> nat" where
  "lcs_at width r c = r * (width + 1) + c"

definition lcs_fill :: "bytes list \<Rightarrow> bytes list \<Rightarrow> nat \<Rightarrow> nat \<Rightarrow> 32 word list \<Rightarrow> 32 word list option" where
  "lcs_fill mine source r c table = do {
     let position = lcs_at (length source);
     m \<leftarrow> rd mine r;
     s \<leftarrow> rd source c;
     entry \<leftarrow> (if m = s then do {
                 v \<leftarrow> rd table (position (r + 1) (c + 1));
                 if v = - 1 then None else Some (v + 1) }
               else do {
                 below \<leftarrow> rd table (position (r + 1) c);
                 beside \<leftarrow> rd table (position r (c + 1));
                 Some (max below beside) });
     wr table (position r c) entry }"

definition lcs_table :: "bytes list \<Rightarrow> bytes list \<Rightarrow> 32 word list option" where
  "lcs_table mine source = do {
     size \<leftarrow> checked_mul (length mine + 1) (length source + 1);
     foldM (\<lambda>r. foldM (lcs_fill mine source r) (rev [0..<length source])) (rev [0..<length mine])
       (replicate size 0) }"

function lcs_walk :: "bytes list \<Rightarrow> bytes list \<Rightarrow> 32 word list \<Rightarrow> nat \<Rightarrow> nat \<Rightarrow> nat \<Rightarrow> nat \<Rightarrow> diff_step list option" where
  "lcs_walk mine source table mine_offset source_offset r c =
     (if r < length mine \<and> c < length source then
        if mine ! r = source ! c then do {
          steps \<leftarrow> lcs_walk mine source table mine_offset source_offset (r + 1) (c + 1);
          Some (Keep (mine_offset + r) (source_offset + c) # steps) }
        else do {
          below \<leftarrow> rd table (lcs_at (length source) (r + 1) c);
          beside \<leftarrow> rd table (lcs_at (length source) r (c + 1));
          if beside \<le> below then do {
            steps \<leftarrow> lcs_walk mine source table mine_offset source_offset (r + 1) c;
            Some (Remove (mine_offset + r) # steps) }
          else do {
            steps \<leftarrow> lcs_walk mine source table mine_offset source_offset r (c + 1);
            Some (Add (source_offset + c) # steps) } }
      else Some (map (\<lambda>i. Remove (mine_offset + i)) [r..<length mine] @
                 map (\<lambda>i. Add (source_offset + i)) [c..<length source]))"
  by pat_completeness auto
termination
  by (relation "measure (\<lambda>(mine, source, t, mo, so, r, c). (length mine - r) + (length source - c))") auto

declare lcs_walk.simps [simp del]

definition longest_common_subsequence :: "bytes list \<Rightarrow> bytes list \<Rightarrow> nat \<Rightarrow> nat \<Rightarrow> diff_step list option" where
  "longest_common_subsequence mine source mine_offset source_offset = do {
     table \<leftarrow> lcs_table mine source;
     lcs_walk mine source table mine_offset source_offset 0 0 }"

section \<open>Pairing the lines\<close>

definition unchanged :: "nat \<Rightarrow> bytes \<Rightarrow> diff_line" where
  "unchanged index line = \<lparr>dl_number = index + 1, dl_text = line, dl_change = Unchanged\<rparr>"

definition push_unchanged :: "bytes list \<Rightarrow> bytes list \<Rightarrow> nat \<Rightarrow> nat \<Rightarrow> diff_pair list \<Rightarrow> diff_pair list option" where
  "push_unchanged mine source i j pairs = do {
     m \<leftarrow> rd mine i;
     s \<leftarrow> rd source j;
     Some (pairs @ [(Some (unchanged i m), Some (unchanged j s))]) }"

definition drain_pending :: "diff_pair list \<Rightarrow> diff_line list \<Rightarrow> diff_line list \<Rightarrow> diff_pair list" where
  "drain_pending pairs removals additions =
     pairs @ map (\<lambda>i. (rd removals i, rd additions i)) [0..<max (length removals) (length additions)]"

primrec align_step ::
  "bytes list \<Rightarrow> bytes list \<Rightarrow> diff_step \<Rightarrow> diff_pair list \<times> diff_line list \<times> diff_line list \<Rightarrow>
   (diff_pair list \<times> diff_line list \<times> diff_line list) option" where
  "align_step mine source (Remove i) = (\<lambda>(pairs, removals, additions). do {
     m \<leftarrow> rd mine i;
     Some (pairs, removals @ [\<lparr>dl_number = i + 1, dl_text = m, dl_change = Removed\<rparr>], additions) })"
| "align_step mine source (Add i) = (\<lambda>(pairs, removals, additions). do {
     s \<leftarrow> rd source i;
     Some (pairs, removals, additions @ [\<lparr>dl_number = i + 1, dl_text = s, dl_change = Added\<rparr>]) })"
| "align_step mine source (Keep i j) = (\<lambda>(pairs, removals, additions). do {
     pairs \<leftarrow> push_unchanged mine source i j (drain_pending pairs removals additions);
     Some (pairs, [], []) })"

definition align ::
  "bytes list \<Rightarrow> bytes list \<Rightarrow> nat \<times> nat \<Rightarrow> nat \<times> nat \<Rightarrow> nat \<Rightarrow> (diff_pair list \<times> bool) option" where
  "align mine source mine_middle source_middle common = do {
     pairs \<leftarrow> foldM (\<lambda>i. push_unchanged mine source i i) [0..<common] [];
     mine_lines \<leftarrow> rd_range mine (fst mine_middle) (snd mine_middle);
     source_lines \<leftarrow> rd_range source (fst source_middle) (snd source_middle);
     let too_large = (MAX_ALIGNED_LINES < length mine_lines \<or> MAX_ALIGNED_LINES < length source_lines);
     script \<leftarrow> (if too_large
                then Some (map (\<lambda>i. Remove (fst mine_middle + i)) [0..<length mine_lines] @
                           map (\<lambda>i. Add (fst source_middle + i)) [0..<length source_lines])
                else longest_common_subsequence mine_lines source_lines (fst mine_middle) (fst source_middle));
     (pairs, removals, additions) \<leftarrow> foldM (align_step mine source) script (pairs, [], []);
     let pairs = drain_pending pairs removals additions;
     rest \<leftarrow> checked_sub (length mine) (snd mine_middle);
     pairs \<leftarrow> foldM (\<lambda>i. push_unchanged mine source (snd mine_middle + i) (snd source_middle + i)) [0..<rest] pairs;
     Some (pairs, too_large) }"

section \<open>Folding and the comparison\<close>

definition line_is :: "line_change \<Rightarrow> diff_line option \<Rightarrow> bool" where
  "line_is c l = (case l of None \<Rightarrow> False | Some l \<Rightarrow> dl_change l = c)"

definition changed :: "diff_pair \<Rightarrow> bool" where
  "changed p \<longleftrightarrow> line_is Removed (fst p) \<or> line_is Added (snd p)"

definition fold_run :: "comparison_row list \<Rightarrow> bool \<Rightarrow> comparison_row list" where
  "fold_run run leading =
     (if length run \<le> CONTEXT_LINES * 2 + 1 then run
      else if leading
      then Collapsed (length run - CONTEXT_LINES) # drop (length run - CONTEXT_LINES) run
      else take CONTEXT_LINES run @ [Collapsed (length run - CONTEXT_LINES)])"

definition compare_step ::
  "diff_pair \<Rightarrow> comparison_row list \<times> nat \<times> comparison_row list \<Rightarrow> comparison_row list \<times> nat \<times> comparison_row list" where
  "compare_step p = (\<lambda>(rows, change_count, run).
     if changed p then (rows @ fold_run run True @ [Pair_Row (fst p) (snd p)], change_count + 1, [])
     else (rows, change_count, run @ [Pair_Row (fst p) (snd p)]))"

definition line_comparison_new :: "bytes \<Rightarrow> bytes \<Rightarrow> line_comparison option" where
  "line_comparison_new mine source = do {
     let mine_lines = str_lines mine;
     let source_lines = str_lines source;
     let common = line_prefix mine_lines source_lines;
     let suffix = line_suffix (drop common mine_lines) (drop common source_lines);
     mine_end \<leftarrow> checked_sub (length mine_lines) suffix;
     source_end \<leftarrow> checked_sub (length source_lines) suffix;
     (pairs, truncated) \<leftarrow> align mine_lines source_lines (common, mine_end) (common, source_end) common;
     let (rows, change_count, run) = fold compare_step pairs ([], 0, []);
     Some \<lparr>lc_rows = rows @ fold_run run False, lc_change_count = change_count, lc_truncated = truncated\<rparr> }"

definition is_identical :: "line_comparison \<Rightarrow> bool" where
  "is_identical c \<longleftrightarrow> lc_change_count c = 0"

definition row_changed :: "comparison_row \<Rightarrow> bool" where
  "row_changed r = (case r of Pair_Row l r \<Rightarrow> changed (l, r) | Collapsed _ \<Rightarrow> False)"

definition change_rows :: "line_comparison \<Rightarrow> nat list" where
  "change_rows c = filter (\<lambda>i. row_changed (lc_rows c ! i)) [0..<length (lc_rows c)]"

end
