(* ===== verification/Edit_Lcs.thy ===== *)
theory Edit_Lcs
  imports Edit_Diff "HOL-Library.Sublist"
begin

text \<open>
  The reference for the comparison: the length of a longest common subsequence by plain recursion, that
  it is the maximum over all common subsequences, and that the table holds exactly these lengths and
  the walk keeps exactly that many lines.
\<close>

section \<open>Longest common subsequences\<close>

fun lcs_len :: "'a list \<Rightarrow> 'a list \<Rightarrow> nat" where
  "lcs_len (x # xs) (y # ys) =
     (if x = y then Suc (lcs_len xs ys) else max (lcs_len xs (y # ys)) (lcs_len (x # xs) ys))"
| "lcs_len _ _ = 0"

lemma lcs_len_Nil2 [simp]: "lcs_len xs [] = 0"
  by (cases xs) simp_all

lemma lcs_len_le: "lcs_len xs ys \<le> length xs \<and> lcs_len xs ys \<le> length ys"
  by (induction xs ys rule: lcs_len.induct) auto

lemma lcs_len_upper: "subseq zs xs \<Longrightarrow> subseq zs ys \<Longrightarrow> length zs \<le> lcs_len xs ys"
proof (induction xs ys arbitrary: zs rule: lcs_len.induct)
  case (1 x xs y ys)
  show ?case
  proof (cases zs)
    case (Cons z ws)
    show ?thesis
    proof (cases "x = y")
      case True
      have "subseq ws xs" "subseq ws ys"
        using "1.prems" Cons by (auto split: if_splits dest: subseq_Cons')
      then show ?thesis using "1.IH"(1) True Cons by simp
    next
      case False
      then have "subseq zs xs \<or> subseq zs ys"
        using "1.prems" Cons by (cases "z = x") (auto dest: subseq_Cons2_neq)
      then show ?thesis using "1.IH"(2,3) "1.prems" False by (auto simp: le_max_iff_disj)
    qed
  qed simp
qed auto

lemma lcs_len_attained: "\<exists>zs. subseq zs xs \<and> subseq zs ys \<and> length zs = lcs_len xs ys"
proof (induction xs ys rule: lcs_len.induct)
  case (1 x xs y ys)
  show ?case
  proof (cases "x = y")
    case True
    then obtain zs where "subseq zs xs" "subseq zs ys" "length zs = lcs_len xs ys" using "1.IH"(1) by blast
    then show ?thesis using True by (intro exI [of _ "x # zs"]) auto
  next
    case False
    then show ?thesis using "1.IH"(2,3) by (auto simp: max_def)
  qed
qed auto

lemma lcs_len_prefix: "lcs_len (ps @ xs) (ps @ ys) = length ps + lcs_len xs ys"
  by (induction ps) auto

lemma subseq_butlast: "subseq zs (xs @ [x]) \<Longrightarrow> subseq (butlast zs) xs"
proof -
  assume "subseq zs (xs @ [x])"
  then obtain as bs where "zs = as @ bs" "subseq as xs" "subseq bs [x]" by (auto simp: subseq_append_iff)
  moreover have "bs = [] \<or> (\<exists>y. bs = [y])"
    using list_emb_length [OF \<open>subseq bs [x]\<close>] by (cases bs) auto
  ultimately show ?thesis
    using subseq_order.trans [of "butlast as" as xs] prefix_imp_subseq [OF prefixeq_butlast, of as]
    by (auto simp: butlast_append)
qed

lemma lcs_len_snoc: "lcs_len (xs @ [z]) (ys @ [z]) = Suc (lcs_len xs ys)"
proof (rule antisym)
  obtain zs where zs: "subseq zs (xs @ [z])" "subseq zs (ys @ [z])" "length zs = lcs_len (xs @ [z]) (ys @ [z])"
    using lcs_len_attained by blast
  have "length (butlast zs) \<le> lcs_len xs ys"
    by (rule lcs_len_upper [OF subseq_butlast [OF zs(1)] subseq_butlast [OF zs(2)]])
  then show "lcs_len (xs @ [z]) (ys @ [z]) \<le> Suc (lcs_len xs ys)" using zs(3) by simp
next
  obtain zs where zs: "subseq zs xs" "subseq zs ys" "length zs = lcs_len xs ys" using lcs_len_attained by blast
  have "length (zs @ [z]) \<le> lcs_len (xs @ [z]) (ys @ [z])" by (rule lcs_len_upper) (use zs in auto)
  then show "Suc (lcs_len xs ys) \<le> lcs_len (xs @ [z]) (ys @ [z])" using zs(3) by simp
qed

lemma lcs_len_suffix: "lcs_len (xs @ ss) (ys @ ss) = lcs_len xs ys + length ss"
proof (induction ss arbitrary: xs ys)
  case (Cons s ss)
  show ?case using Cons.IH [of "xs @ [s]" "ys @ [s]"] by (simp add: lcs_len_snoc)
qed simp

lemma lcs_len_refl: "lcs_len xs xs = length xs"
  by (induction xs) auto

section \<open>The table\<close>

definition filled :: "bytes list \<Rightarrow> bytes list \<Rightarrow> (nat \<Rightarrow> nat \<Rightarrow> bool) \<Rightarrow> 32 word list \<Rightarrow> bool" where
  "filled mine source S t \<longleftrightarrow> length t = (length mine + 1) * (length source + 1) \<and>
     (\<forall>i j. i \<le> length mine \<longrightarrow> j \<le> length source \<longrightarrow> S i j \<longrightarrow>
        unat (t ! lcs_at (length source) i j) = lcs_len (drop i mine) (drop j source))"

lemma filled_mono:
  "filled mine source S t \<Longrightarrow> (\<And>i j. i \<le> length mine \<Longrightarrow> j \<le> length source \<Longrightarrow> S' i j \<Longrightarrow> S i j) \<Longrightarrow>
     filled mine source S' t"
  by (simp add: filled_def)

lemma lcs_at_bound: "i \<le> m \<Longrightarrow> j \<le> n \<Longrightarrow> lcs_at n i j < (m + 1) * (n + 1)"
proof -
  assume "i \<le> m" "j \<le> n"
  then have "i * (n + 1) + j \<le> m * (n + 1) + n" by (intro add_mono mult_mono) auto
  then show ?thesis by (simp add: lcs_at_def algebra_simps)
qed

lemma lcs_at_inj: "j \<le> n \<Longrightarrow> j' \<le> n \<Longrightarrow> lcs_at n i j = lcs_at n i' j' \<Longrightarrow> i = i' \<and> j = j'"
proof -
  assume a: "j \<le> n" "j' \<le> n" "lcs_at n i j = lcs_at n i' j'"
  have "i = lcs_at n i j div (n + 1)" "j = lcs_at n i j mod (n + 1)"
    using a(1) by (simp_all del: mult_Suc_right add: lcs_at_def)
  moreover have "i' = lcs_at n i' j' div (n + 1)" "j' = lcs_at n i' j' mod (n + 1)"
    using a(2) by (simp_all del: mult_Suc_right add: lcs_at_def)
  ultimately show ?thesis using a(3) by simp
qed

lemma filled_rd:
  assumes "filled mine source S t" "i \<le> length mine" "j \<le> length source" "S i j"
  obtains v where "rd t (lcs_at (length source) i j) = Some v" "unat v = lcs_len (drop i mine) (drop j source)"
  using assms lcs_at_bound [of i "length mine" j "length source"] by (auto simp: filled_def rd_def)

lemma filled_wr:
  assumes "filled mine source S t" "r \<le> length mine" "c \<le> length source"
    and "unat v = lcs_len (drop r mine) (drop c source)" and "\<And>i j. S' i j \<Longrightarrow> S i j \<or> (i = r \<and> j = c)"
  shows "ok (filled mine source S') (wr t (lcs_at (length source) r c) v)"
proof -
  let ?p = "lcs_at (length source)"
  have b: "?p r c < length t" using lcs_at_bound [OF assms(2,3)] assms(1) by (simp add: filled_def)
  have "unat (t[?p r c := v] ! ?p i j) = lcs_len (drop i mine) (drop j source)"
    if "i \<le> length mine" "j \<le> length source" "S' i j" for i j
  proof (cases "i = r \<and> j = c")
    case True
    then show ?thesis using assms(4) b by simp
  next
    case False
    then have "?p r c \<noteq> ?p i j" using lcs_at_inj [OF assms(3) that(2), of r i] by auto
    then show ?thesis using assms(1) assms(5) [OF that(3)] that False by (auto simp: filled_def)
  qed
  then show ?thesis using assms(1) b by (simp add: wr_def filled_def)
qed

lemma drop_lcs:
  assumes "r < length mine" "c < length source"
  shows "lcs_len (drop r mine) (drop c source) =
    (if mine ! r = source ! c then Suc (lcs_len (drop (r + 1) mine) (drop (c + 1) source))
     else max (lcs_len (drop (r + 1) mine) (drop c source)) (lcs_len (drop r mine) (drop (c + 1) source)))"
  using assms by (simp add: Cons_nth_drop_Suc [symmetric, of r] Cons_nth_drop_Suc [symmetric, of c])

lemma unat_max: "unat (max a b) = max (unat a) (unat (b :: 'a::len word))"
  by (simp add: max_def word_le_nat_alt)

lemma lcs_fill_ok:
  assumes f: "filled mine source S t" and r: "r < length mine" and c: "c < length source"
    and S: "S (r + 1) (c + 1)" "S (r + 1) c" "S r (c + 1)" "\<And>i j. S' i j \<Longrightarrow> S i j \<or> (i = r \<and> j = c)"
    and small: "length mine \<le> MAX_ALIGNED_LINES"
  shows "ok (filled mine source S') (lcs_fill mine source r c t)"
proof -
  obtain a where a: "rd t (lcs_at (length source) (r + 1) (c + 1)) = Some a"
      "unat a = lcs_len (drop (r + 1) mine) (drop (c + 1) source)"
    using filled_rd [OF f, of "r + 1" "c + 1"] r c S(1) by auto
  obtain b where b: "rd t (lcs_at (length source) (r + 1) c) = Some b"
      "unat b = lcs_len (drop (r + 1) mine) (drop c source)"
    using filled_rd [OF f, of "r + 1" c] r c S(2) by auto
  obtain d where d: "rd t (lcs_at (length source) r (c + 1)) = Some d"
      "unat d = lcs_len (drop r mine) (drop (c + 1) source)"
    using filled_rd [OF f, of r "c + 1"] r c S(3) by auto
  have "unat a \<le> 2000"
    using a(2) lcs_len_le [of "drop (r + 1) mine" "drop (c + 1) source"] small
    unfolding MAX_ALIGNED_LINES_def length_drop by linarith
  then have "a \<noteq> - 1 \<and> unat (a + 1) = Suc (unat a)" by (auto simp: unat_word_ariths unsigned_minus_1_eq_mask mask_eq_exp_minus_1)
  moreover have "ok (filled mine source S') (wr t (lcs_at (length source) r c) v)"
    if "unat v = lcs_len (drop r mine) (drop c source)" for v
    by (rule filled_wr [OF f _ _ that S(4)]) (use r c in simp_all)
  ultimately show ?thesis
    using a b d r c drop_lcs [OF r c]
    by (simp add: lcs_fill_def rd_def [of mine] rd_def [of source] unat_max Let_def)
qed

text \<open>What is done when row \<open>r\<close> has been filled down to column \<open>k\<close>.\<close>

definition done_to :: "nat \<Rightarrow> nat \<Rightarrow> nat \<Rightarrow> nat \<Rightarrow> nat \<Rightarrow> nat \<Rightarrow> bool" where
  "done_to m n r k i j \<longleftrightarrow> i = m \<or> j = n \<or> r < i \<or> (i = r \<and> k \<le> j)"

lemma lcs_row_ok:
  assumes "filled mine source (done_to (length mine) (length source) r k) t" "k \<le> length source" "r < length mine"
    "length mine \<le> MAX_ALIGNED_LINES"
  shows "ok (filled mine source (done_to (length mine) (length source) r 0)) (foldM (lcs_fill mine source r) (rev [0..<k]) t)"
  using assms
proof (induction k arbitrary: t)
  case (Suc k)
  have "ok (filled mine source (done_to (length mine) (length source) r k)) (lcs_fill mine source r k t)"
    by (rule lcs_fill_ok [OF Suc.prems(1)]) (use Suc.prems in \<open>auto simp: done_to_def\<close>)
  then show ?case using Suc.IH Suc.prems by (auto simp: ok_iff)
qed simp

lemma lcs_rows_ok:
  assumes "filled mine source (\<lambda>i j. j = length source \<or> r \<le> i) t" "r \<le> length mine"
    "length mine \<le> MAX_ALIGNED_LINES"
  shows "ok (filled mine source (\<lambda>_ _. True))
    (foldM (\<lambda>row. foldM (lcs_fill mine source row) (rev [0..<length source])) (rev [0..<r]) t)"
  using assms
proof (induction r arbitrary: t)
  case 0
  then show ?case by (auto elim: filled_mono)
next
  case (Suc r)
  have "filled mine source (done_to (length mine) (length source) r (length source)) t"
    by (rule filled_mono [OF Suc.prems(1)]) (use Suc.prems(2) in \<open>auto simp: done_to_def\<close>)
  then have "ok (filled mine source (done_to (length mine) (length source) r 0))
      (foldM (lcs_fill mine source r) (rev [0..<length source]) t)"
    by (rule lcs_row_ok) (use Suc.prems in auto)
  then have "ok (filled mine source (\<lambda>i j. j = length source \<or> r \<le> i))
      (foldM (lcs_fill mine source r) (rev [0..<length source]) t)"
    by (rule ok_mono) (auto simp: done_to_def elim!: filled_mono)
  then show ?case using Suc.IH Suc.prems by (auto simp: ok_iff)
qed

lemma lcs_table_ok:
  assumes "length mine \<le> MAX_ALIGNED_LINES" "length source \<le> MAX_ALIGNED_LINES"
  shows "ok (filled mine source (\<lambda>_ _. True)) (lcs_table mine source)"
proof -
  let ?n = "(length mine + 1) * (length source + 1)"
  have "?n \<le> 2001 * 2001" using assms by (intro mult_mono) (auto simp: MAX_ALIGNED_LINES_def)
  then have "checked_mul (length mine + 1) (length source + 1) = Some ?n"
    by (simp add: checked_mul_def usize_max_def)
  moreover have "filled mine source (\<lambda>i j. j = length source \<or> length mine \<le> i) (replicate ?n 0)"
    unfolding filled_def using lcs_at_bound [of _ "length mine" _ "length source"]
    by (auto simp del: replicate_Suc mult_Suc mult_Suc_right add_Suc_right)
  ultimately show ?thesis
    using lcs_rows_ok [OF _ le_refl] assms(1) by (simp add: lcs_table_def)
qed

end
