(* ===== verification/Edit_Align.thy ===== *)
theory Edit_Align
  imports Edit_Lcs
begin

text \<open>
  The comparison lays out both sides completely: a script that plays over the two lists of lines, the
  pairs laid from it, and the rows that unfold to these pairs.
\<close>

section \<open>Scripts\<close>

primrec plays :: "bytes list \<Rightarrow> bytes list \<Rightarrow> diff_step list \<Rightarrow> nat \<Rightarrow> nat \<Rightarrow> nat \<Rightarrow> nat \<Rightarrow> bool" where
  "plays mine source [] i j i' j' \<longleftrightarrow> i = i' \<and> j = j'"
| "plays mine source (x # xs) i j i' j' \<longleftrightarrow>
     (case x of
        Keep a b \<Rightarrow> a = i \<and> b = j \<and> i < length mine \<and> j < length source \<and> mine ! i = source ! j \<and>
                    plays mine source xs (i + 1) (j + 1) i' j'
      | Remove a \<Rightarrow> a = i \<and> i < length mine \<and> plays mine source xs (i + 1) j i' j'
      | Add b \<Rightarrow> b = j \<and> j < length source \<and> plays mine source xs i (j + 1) i' j')"

definition kept :: "diff_step list \<Rightarrow> nat" where
  "kept xs = length (filter (\<lambda>x. case x of Keep _ _ \<Rightarrow> True | _ \<Rightarrow> False) xs)"

lemma kept_simps [simp]:
  "kept [] = 0" "kept (Keep a b # xs) = Suc (kept xs)" "kept (Remove a # xs) = kept xs" "kept (Add b # xs) = kept xs"
  "kept (map (\<lambda>i. Remove (f i)) is @ map (\<lambda>i. Add (g i)) js) = 0"
  by (simp_all add: kept_def comp_def)

lemma plays_append:
  "plays mine source xs i j i' j' \<Longrightarrow> plays mine source ys i' j' i'' j'' \<Longrightarrow> plays mine source (xs @ ys) i j i'' j''"
  by (induction xs arbitrary: i j) (auto split: diff_step.splits)

lemma plays_removes:
  "r \<le> n \<Longrightarrow> a + n \<le> length mine \<Longrightarrow> plays mine source (map (\<lambda>i. Remove (a + i)) [r..<n]) (a + r) j (a + n) j"
  by (induction r rule: inc_induct) (simp_all add: upt_conv_Cons)

lemma plays_adds:
  "r \<le> n \<Longrightarrow> b + n \<le> length source \<Longrightarrow> plays mine source (map (\<lambda>i. Add (b + i)) [r..<n]) i (b + r) i (b + n)"
  by (induction r rule: inc_induct) (simp_all add: upt_conv_Cons)

lemmas plays_replace = plays_append [OF plays_removes plays_adds]

text \<open>The walk over the table of the middle parts plays over the whole lists and keeps a longest common
  subsequence of the middle parts.\<close>

lemma lcs_walk_ok:
  assumes f: "filled mm sm (\<lambda>_ _. True) t"
    and m: "a + length mm \<le> length mine" "\<And>k. k < length mm \<Longrightarrow> mine ! (a + k) = mm ! k"
    and s: "b + length sm \<le> length source" "\<And>k. k < length sm \<Longrightarrow> source ! (b + k) = sm ! k"
    and rc: "r \<le> length mm" "c \<le> length sm"
  shows "ok (\<lambda>xs. plays mine source xs (a + r) (b + c) (a + length mm) (b + length sm) \<and>
      kept xs = lcs_len (drop r mm) (drop c sm)) (lcs_walk mm sm t a b r c)"
  using rc
proof (induction "(length mm - r) + (length sm - c)" arbitrary: r c rule: less_induct)
  case less
  show ?case
  proof (cases "r < length mm \<and> c < length sm")
    case False
    let ?xs = "map (\<lambda>i. Remove (a + i)) [r..<length mm] @ map (\<lambda>i. Add (b + i)) [c..<length sm]"
    have "plays mine source ?xs (a + r) (b + c) (a + length mm) (b + length sm)"
      by (rule plays_replace) (use less.prems m(1) s(1) in auto)
    moreover have "lcs_walk mm sm t a b r c = Some ?xs" using False by (subst lcs_walk.simps) auto
    moreover have "kept ?xs = lcs_len (drop r mm) (drop c sm)" using False by auto
    ultimately show ?thesis by simp
  next
    case True
    obtain below where below: "rd t (lcs_at (length sm) (r + 1) c) = Some below"
        "unat below = lcs_len (drop (r + 1) mm) (drop c sm)"
      by (rule filled_rd [OF f, of "r + 1" c]) (use True in auto)
    obtain beside where beside: "rd t (lcs_at (length sm) r (c + 1)) = Some beside"
        "unat beside = lcs_len (drop r mm) (drop (c + 1) sm)"
      by (rule filled_rd [OF f, of r "c + 1"]) (use True in auto)
    let ?P = "\<lambda>r c xs. plays mine source xs (a + r) (b + c) (a + length mm) (b + length sm) \<and>
      kept xs = lcs_len (drop r mm) (drop c sm)"
    have ih: "ok (?P (r + 1) (c + 1)) (lcs_walk mm sm t a b (r + 1) (c + 1))"
        "ok (?P (r + 1) c) (lcs_walk mm sm t a b (r + 1) c)" "ok (?P r (c + 1)) (lcs_walk mm sm t a b r (c + 1))"
      by (rule less.hyps; use True in linarith)+
    show ?thesis
      using ih True below beside drop_lcs [of r mm c sm] m s
      by (subst lcs_walk.simps) (auto simp: ok_iff word_le_nat_alt max_def)
  qed
qed

section \<open>Pairs\<close>

definition lefts :: "diff_pair list \<Rightarrow> diff_line list" where
  "lefts ps = concat (map (\<lambda>p. case fst p of None \<Rightarrow> [] | Some l \<Rightarrow> [l]) ps)"

definition rights :: "diff_pair list \<Rightarrow> diff_line list" where
  "rights ps = concat (map (\<lambda>p. case snd p of None \<Rightarrow> [] | Some r \<Rightarrow> [r]) ps)"

definition entry :: "diff_line \<Rightarrow> nat \<times> bytes" where
  "entry l = (dl_number l, dl_text l)"

text \<open>A pair is an unchanged line on both sides with the same text, or a removed line, an added line, or
  one beside the other.\<close>

definition pair_ok :: "diff_pair \<Rightarrow> bool" where
  "pair_ok p =
     (case p of
        (Some l, Some r) \<Rightarrow> (dl_change l = Unchanged \<and> dl_change r = Unchanged \<and> dl_text l = dl_text r) \<or>
                            (dl_change l = Removed \<and> dl_change r = Added)
      | (Some l, None) \<Rightarrow> dl_change l = Removed
      | (None, Some r) \<Rightarrow> dl_change r = Added
      | (None, None) \<Rightarrow> False)"

definition same_count :: "diff_pair list \<Rightarrow> nat" where
  "same_count ps = length (filter (\<lambda>p. \<not> changed p) ps)"

lemma pairs_simps [simp]:
  "lefts [] = []" "lefts (ps @ qs) = lefts ps @ lefts qs" "lefts ((l, r) # ps) = (case l of None \<Rightarrow> [] | Some l \<Rightarrow> [l]) @ lefts ps"
  "rights [] = []" "rights (ps @ qs) = rights ps @ rights qs"
  "rights ((l, r) # ps) = (case r of None \<Rightarrow> [] | Some r \<Rightarrow> [r]) @ rights ps"
  "same_count [] = 0" "same_count (ps @ qs) = same_count ps + same_count qs"
  by (simp_all add: lefts_def rights_def same_count_def)

definition laid :: "bytes list \<Rightarrow> bytes list \<Rightarrow> nat \<Rightarrow> nat \<Rightarrow> nat \<Rightarrow> diff_pair list \<times> diff_line list \<times> diff_line list \<Rightarrow> bool" where
  "laid mine source i j k st =
     (case st of (ps, rs, as) \<Rightarrow>
        map entry (lefts ps @ rs) = enumerate 1 (take i mine) \<and> map entry (rights ps @ as) = enumerate 1 (take j source) \<and>
        (\<forall>l \<in> set rs. dl_change l = Removed) \<and> (\<forall>l \<in> set as. dl_change l = Added) \<and>
        (\<forall>p \<in> set ps. pair_ok p) \<and> same_count ps = k)"

lemma enumerate_take_Suc: "i < length xs \<Longrightarrow> enumerate 1 (take (Suc i) xs) = enumerate 1 (take i xs) @ [(i + 1, xs ! i)]"
  by (simp add: take_Suc_conv_app_nth enumerate_append_eq)

lemma rd_upto:
  "concat (map (\<lambda>i. case rd xs i of None \<Rightarrow> [] | Some l \<Rightarrow> [l]) [0..<n]) = take n xs"
proof (induction n)
  case (Suc n)
  then show ?case by (cases "n < length xs") (auto simp: rd_def take_Suc_conv_app_nth)
qed simp

lemma drained:
  assumes "\<forall>l \<in> set rs. dl_change l = Removed" "\<forall>l \<in> set as. dl_change l = Added"
  defines "qs \<equiv> map (\<lambda>i. (rd rs i, rd as i)) [0..<max (length rs) (length as)]"
  shows "lefts qs = rs" "rights qs = as" "\<forall>p \<in> set qs. pair_ok p" "same_count qs = 0"
proof -
  show "lefts qs = rs" "rights qs = as"
    using rd_upto [of rs "max (length rs) (length as)"] rd_upto [of as "max (length rs) (length as)"]
    by (simp_all add: lefts_def rights_def qs_def comp_def)
  have "pair_ok p \<and> changed p" if p: "p \<in> set qs" for p
  proof -
    obtain i where "i < max (length rs) (length as)" "p = (rd rs i, rd as i)" using p by (auto simp: qs_def)
    then show ?thesis
      using assms(1,2) by (cases "i < length rs"; cases "i < length as") (auto simp: rd_def pair_ok_def changed_def line_is_def)
  qed
  then show "\<forall>p \<in> set qs. pair_ok p" "same_count qs = 0" by (auto simp: same_count_def)
qed

lemma drain_laid:
  "laid mine source i j k (ps, rs, as) \<Longrightarrow> laid mine source i j k (drain_pending ps rs as, [], [])"
  using drained [of rs as] by (auto simp: laid_def drain_pending_def)

lemma push_unchanged_laid:
  assumes "laid mine source i j k (ps, [], [])" "i < length mine" "j < length source" "mine ! i = source ! j"
  shows "ok (\<lambda>ps. laid mine source (i + 1) (j + 1) (k + 1) (ps, [], [])) (push_unchanged mine source i j ps)"
  using assms enumerate_take_Suc [OF assms(2)] enumerate_take_Suc [OF assms(3)]
  by (auto simp: laid_def push_unchanged_def rd_def unchanged_def entry_def pair_ok_def same_count_def changed_def line_is_def)

lemma align_step_laid:
  assumes "laid mine source i j k st" "plays mine source xs i j i' j'"
  shows "ok (laid mine source i' j' (k + kept xs)) (foldM (align_step mine source) xs st)"
  using assms
proof (induction xs arbitrary: i j k st)
  case (Cons x xs)
  obtain ps rs as where st: "st = (ps, rs, as)" by (cases st)
  show ?case
  proof (cases x)
    case (Keep a b)
    then have eq: "a = i" "b = j" "i < length mine" "j < length source" "mine ! i = source ! j"
      and rest: "plays mine source xs (i + 1) (j + 1) i' j'" using Cons.prems(2) by auto
    have "ok (\<lambda>ps. laid mine source (i + 1) (j + 1) (k + 1) (ps, [], []))
        (push_unchanged mine source i j (drain_pending ps rs as))"
      using push_unchanged_laid [OF drain_laid] Cons.prems(1) eq st by blast
    then show ?thesis using Cons.IH [OF _ rest, of "k + 1"] Keep st eq by (auto simp: ok_iff)
  next
    case (Remove a)
    then have "laid mine source (i + 1) j k (ps, rs @ [\<lparr>dl_number = i + 1, dl_text = mine ! i, dl_change = Removed\<rparr>], as)"
      using Cons.prems st enumerate_take_Suc [of i mine] by (auto simp: laid_def entry_def)
    then show ?thesis using Cons.IH Cons.prems(2) Remove st by (auto simp: rd_def)
  next
    case (Add b)
    then have "laid mine source i (j + 1) k (ps, rs, as @ [\<lparr>dl_number = j + 1, dl_text = source ! j, dl_change = Added\<rparr>])"
      using Cons.prems st enumerate_take_Suc [of j source] by (auto simp: laid_def entry_def)
    then show ?thesis using Cons.IH Cons.prems(2) Add st by (auto simp: rd_def)
  qed
qed simp

lemma push_run_laid:
  assumes "laid mine source i j k (ps, [], [])" "i + n \<le> length mine" "j + n \<le> length source"
    "\<And>t. t < n \<Longrightarrow> mine ! (i + t) = source ! (j + t)"
  shows "ok (\<lambda>ps. laid mine source (i + n) (j + n) (k + n) (ps, [], []))
    (foldM (\<lambda>t. push_unchanged mine source (i + t) (j + t)) [0..<n] ps)"
  using assms
proof (induction n)
  case (Suc n)
  then have "ok (\<lambda>ps. laid mine source (i + n) (j + n) (k + n) (ps, [], []))
      (foldM (\<lambda>t. push_unchanged mine source (i + t) (j + t)) [0..<n] ps)" by simp
  then show ?case
    using push_unchanged_laid [of mine source "i + n" "j + n" "k + n"] Suc.prems
    by (fastforce simp: foldM_append ok_iff)
qed simp

end
