(* ===== verification/Edit_Diff_Props.thy ===== *)
theory Edit_Diff_Props
  imports Edit_Align
begin

text \<open>
  The comparison of two documents is complete and minimal: the rows unfold to all the lines of both
  sides in order, and every line that can be kept is kept.
\<close>

section \<open>Common ends\<close>

lemma same_run:
  fixes l r :: "'a list"
  defines "n \<equiv> length (takeWhile (\<lambda>(one, other). one = other) (zip l r))"
  shows "n \<le> length l \<and> n \<le> length r \<and> take n l = take n r"
proof -
  have n: "n \<le> length (zip l r)" unfolding n_def by (rule length_takeWhile_le)
  moreover have "l ! i = r ! i" if "i < n" for i
    using that n nth_mem [of i "takeWhile (\<lambda>(one, other). one = other) (zip l r)"]
    by (auto simp: n_def takeWhile_nth dest!: set_takeWhileD)
  ultimately show ?thesis by (auto intro: nth_equalityI)
qed

lemma line_prefix_same: "line_prefix l r \<le> length l \<and> line_prefix l r \<le> length r \<and> take (line_prefix l r) l = take (line_prefix l r) r"
  unfolding line_prefix_def by (rule same_run)

lemma line_prefix_refl: "line_prefix l l = length l"
proof -
  have "takeWhile (\<lambda>(one, other). one = other) (zip l l) = zip l l"
    unfolding takeWhile_eq_all_conv by (auto simp: set_zip)
  then show ?thesis unfolding line_prefix_def by (simp only: length_zip)
qed

lemma line_suffix_same:
  "line_suffix l r \<le> length l \<and> line_suffix l r \<le> length r \<and>
   drop (length l - line_suffix l r) l = drop (length r - line_suffix l r) r"
  using same_run [of "rev l" "rev r"] unfolding line_suffix_def [symmetric] by (auto simp: take_rev)

section \<open>All lines are laid\<close>

definition script_for :: "bytes list \<Rightarrow> bytes list \<Rightarrow> nat \<Rightarrow> nat \<Rightarrow> nat \<Rightarrow> (diff_step list option \<times> bool)" where
  "script_for mine source p me se =
     (let mm = slice p (me - p) mine; sm = slice p (se - p) source;
          large = (MAX_ALIGNED_LINES < length mm \<or> MAX_ALIGNED_LINES < length sm)
      in (if large then Some (map (\<lambda>i. Remove (p + i)) [0..<length mm] @ map (\<lambda>i. Add (p + i)) [0..<length sm])
          else longest_common_subsequence mm sm p p, large))"

lemma script_for_ok:
  assumes "p \<le> me" "p \<le> se" "me \<le> length mine" "se \<le> length source" "script_for mine source p me se = (script, large)"
  shows "ok (\<lambda>xs. plays mine source xs p p me se \<and>
      (\<not> large \<longrightarrow> kept xs = lcs_len (slice p (me - p) mine) (slice p (se - p) source))) script"
proof -
  let ?mm = "slice p (me - p) mine" and ?sm = "slice p (se - p) source"
  have len: "length ?mm = me - p" "length ?sm = se - p" using assms by (auto simp: slice_def)
  show ?thesis
  proof (cases large)
    case True
    then show ?thesis
      using plays_replace [of 0 "me - p" p mine 0 "se - p" p source] assms by (auto simp: script_for_def Let_def len)
  next
    case False
    then have "ok (filled ?mm ?sm (\<lambda>_ _. True)) (lcs_table ?mm ?sm)"
      using assms by (intro lcs_table_ok) (auto simp: script_for_def Let_def)
    moreover have "script = longest_common_subsequence ?mm ?sm p p"
      using False assms by (auto simp: script_for_def Let_def)
    ultimately show ?thesis
      using lcs_walk_ok [of ?mm ?sm _ p mine p source 0 0] assms(1-4) len
      by (fastforce simp: longest_common_subsequence_def ok_iff slice_def)
  qed
qed

lemma split_ends: "p \<le> e \<Longrightarrow> e \<le> length xs \<Longrightarrow> xs = take p xs @ slice p (e - p) xs @ drop e xs"
  unfolding slice_def append_assoc [symmetric] take_add [symmetric] by simp

lemma lcs_len_middle:
  assumes "take p mine = take p source" "p \<le> me" "p \<le> se" "me \<le> length mine" "se \<le> length source"
    "drop me mine = drop se source"
  shows "lcs_len mine source = p + lcs_len (slice p (me - p) mine) (slice p (se - p) source) + (length mine - me)"
proof -
  have "length source - se = length mine - me" using arg_cong [OF assms(6), of length] by simp
  then show ?thesis
    using assms split_ends [of p me mine] split_ends [of p se source]
      lcs_len_prefix [of "take p mine" "slice p (me - p) mine @ drop me mine" "slice p (se - p) source @ drop me mine"]
    by (simp add: lcs_len_suffix min_absorb2 add.assoc)
qed

lemma align_ok:
  assumes p: "take p mine = take p source" and ends: "p \<le> me" "p \<le> se" "me \<le> length mine" "se \<le> length source"
    and s: "drop me mine = drop se source"
  shows "ok (\<lambda>(ps, truncated). \<exists>k. laid mine source (length mine) (length source) k (ps, [], []) \<and>
      (\<not> truncated \<longrightarrow> k = lcs_len mine source) \<and>
      (truncated \<longrightarrow> MAX_ALIGNED_LINES < me - p \<or> MAX_ALIGNED_LINES < se - p)) (align mine source (p, me) (p, se) p)"
proof -
  have "laid mine source 0 0 0 ([], [], [])" by (simp add: laid_def)
  moreover have "mine ! t = source ! t" if "t < p" for t using p that by (metis nth_take)
  ultimately obtain ps where ps: "foldM (\<lambda>t. push_unchanged mine source t t) [0..<p] [] = Some ps"
      "laid mine source p p p (ps, [], [])"
    using push_run_laid [of mine source 0 0 0 "[]" p] ends by (auto simp: ok_iff)
  obtain script large where script: "script_for mine source p me se = (script, large)" by (cases "script_for mine source p me se")
  then obtain xs where xs: "script = Some xs" "plays mine source xs p p me se"
      "\<not> large \<longrightarrow> kept xs = lcs_len (slice p (me - p) mine) (slice p (se - p) source)"
    using script_for_ok [OF ends script] by (auto simp: ok_iff)
  obtain qs rs as where st: "foldM (align_step mine source) xs (ps, [], []) = Some (qs, rs, as)"
      "laid mine source me se (p + kept xs) (qs, rs, as)"
    using align_step_laid [OF ps(2) xs(2)] by (auto simp: ok_iff)
  define n where "n = length mine - me"
  have n: "length mine = me + n" "length source = se + n"
    using arg_cong [OF s, of length] ends by (auto simp: n_def)
  have "mine ! (me + t) = source ! (se + t)" if "t < n" for t
    using arg_cong [OF s, of "\<lambda>xs. xs ! t"] that n by simp
  then obtain ps' where "foldM (\<lambda>i. push_unchanged mine source (me + i) (se + i)) [0..<n] (drain_pending qs rs as) = Some ps'"
      and laid: "laid mine source (length mine) (length source) (p + kept xs + n) (ps', [], [])"
    using push_run_laid [OF drain_laid [OF st(2)], of n] n by (auto simp: ok_iff)
  then have "align mine source (p, me) (p, se) p = Some (ps', large)"
    using ps(1) xs(1) st(1) ends script n by (auto simp: align_def rd_range_def script_for_def Let_def)
  moreover have "large \<Longrightarrow> MAX_ALIGNED_LINES < me - p \<or> MAX_ALIGNED_LINES < se - p"
    using script by (auto simp: script_for_def Let_def slice_def)
  ultimately show ?thesis using laid xs(3) lcs_len_middle [OF p ends s] n by auto
qed

section \<open>Rows\<close>

fun unfolds :: "comparison_row list \<Rightarrow> diff_pair list \<Rightarrow> bool" where
  "unfolds [] ps \<longleftrightarrow> ps = []"
| "unfolds (Pair_Row l r # rs) ps \<longleftrightarrow> ps \<noteq> [] \<and> hd ps = (l, r) \<and> unfolds rs (tl ps)"
| "unfolds (Collapsed n # rs) ps \<longleftrightarrow>
     n \<le> length ps \<and> (\<forall>p \<in> set (take n ps). \<not> changed p) \<and> unfolds rs (drop n ps)"

lemma unfolds_append: "unfolds rs ps \<Longrightarrow> unfolds rs' qs \<Longrightarrow> unfolds (rs @ rs') (ps @ qs)"
proof (induction rs ps rule: unfolds.induct)
  case (2 l r rs ps)
  then show ?case by (cases ps) auto
qed auto

lemma unfolds_changes: "unfolds rs ps \<Longrightarrow> length (filter row_changed rs) = length (filter changed ps)"
proof (induction rs ps rule: unfolds.induct)
  case (2 l r rs ps)
  then show ?case by (cases ps) (auto simp: row_changed_def)
next
  case (3 n rs ps)
  then have "filter changed (take n ps) = []" by (simp add: filter_empty_conv)
  then have "filter changed ps = filter changed (drop n ps)"
    by (metis append_take_drop_id filter_append self_append_conv2)
  then show ?case using 3 by (simp add: row_changed_def)
qed simp

abbreviation as_rows :: "diff_pair list \<Rightarrow> comparison_row list" where
  "as_rows ps \<equiv> map (\<lambda>p. Pair_Row (fst p) (snd p)) ps"

lemma unfolds_pairs: "unfolds (as_rows ps) ps"
  by (induction ps) auto

lemma unfolds_fold_run:
  assumes "\<forall>p \<in> set ps. \<not> changed p"
  shows "unfolds (fold_run (as_rows ps) leading) ps"
proof -
  have "unfolds (take n (as_rows ps) @ [Collapsed (length ps - n)]) (take n ps @ drop n ps)" for n
    by (rule unfolds_append) (use assms unfolds_pairs [of "take n ps"] in \<open>auto simp: take_map dest: in_set_dropD\<close>)
  moreover have "unfolds (Collapsed (length ps - n) # drop (length ps - n) (as_rows ps)) ps" for n
    using assms unfolds_pairs [of "drop (length ps - n) ps"] by (auto simp: drop_map dest: in_set_takeD)
  ultimately show ?thesis using unfolds_pairs by (auto simp: fold_run_def)
qed

definition compared :: "diff_pair list \<Rightarrow> comparison_row list \<times> nat \<times> comparison_row list \<Rightarrow> bool" where
  "compared ps st \<longleftrightarrow> (\<exists>qs run. ps = qs @ run \<and> (\<forall>p \<in> set run. \<not> changed p) \<and> unfolds (fst st) qs \<and>
     snd st = (length (filter changed qs), as_rows run))"

lemma compare_step_compared: "compared ps st \<Longrightarrow> compared (ps @ [p]) (compare_step p st)"
proof -
  assume "compared ps st"
  then obtain rs qs run where st: "st = (rs, length (filter changed qs), as_rows run)" "ps = qs @ run"
      "\<forall>p \<in> set run. \<not> changed p" "unfolds rs qs"
    by (cases st) (auto simp: compared_def)
  show ?thesis
  proof (cases "changed p")
    case True
    have "unfolds (rs @ fold_run (as_rows run) True @ as_rows [p]) (qs @ run @ [p])"
      by (intro unfolds_append unfolds_fold_run unfolds_pairs st)
    moreover have "filter changed run = []" using st(3) by (simp add: filter_empty_conv)
    ultimately show ?thesis
      unfolding compared_def using st True by (intro exI [of _ "qs @ run @ [p]"] exI [of _ "[]"]) (auto simp: compare_step_def)
  next
    case False
    then show ?thesis
      unfolding compared_def using st by (intro exI [of _ qs] exI [of _ "run @ [p]"]) (auto simp: compare_step_def)
  qed
qed

lemma compared_all: "compared ps (fold compare_step ps ([], 0, []))"
proof (induction ps rule: rev_induct)
  case Nil
  then show ?case by (auto simp: compared_def)
qed (simp add: compare_step_compared)

section \<open>The comparison\<close>

definition lays_out :: "diff_pair list \<Rightarrow> bytes list \<Rightarrow> bytes list \<Rightarrow> bool" where
  "lays_out ps mine source \<longleftrightarrow> (\<forall>p \<in> set ps. pair_ok p) \<and>
     map entry (lefts ps) = enumerate 1 mine \<and> map entry (rights ps) = enumerate 1 source"

lemma line_comparison_ok:
  "ok (\<lambda>c. \<exists>ps. lays_out ps (str_lines mine) (str_lines source) \<and> unfolds (lc_rows c) ps \<and>
      lc_change_count c = length (filter changed ps) \<and>
      (\<not> lc_truncated c \<longrightarrow> same_count ps = lcs_len (str_lines mine) (str_lines source)) \<and>
      (lc_truncated c \<longrightarrow> str_lines mine \<noteq> str_lines source \<and>
        MAX_ALIGNED_LINES < max (length (str_lines mine)) (length (str_lines source))))
    (line_comparison_new mine source)"
proof -
  let ?m = "str_lines mine" and ?s = "str_lines source"
  define p where "p = line_prefix ?m ?s"
  define q where "q = line_suffix (drop p ?m) (drop p ?s)"
  have p: "p \<le> length ?m" "p \<le> length ?s" "take p ?m = take p ?s" using line_prefix_same by (auto simp: p_def)
  have q: "q \<le> length ?m - p" "q \<le> length ?s - p" "drop (length ?m - q) ?m = drop (length ?s - q) ?s"
    using line_suffix_same [of "drop p ?m" "drop p ?s"] p unfolding q_def [symmetric] by (auto simp: algebra_simps)
  have pq: "p \<le> length ?m - q" "p \<le> length ?s - q" using p q by linarith+
  obtain ps tr k where al: "align ?m ?s (p, length ?m - q) (p, length ?s - q) p = Some (ps, tr)"
      "laid ?m ?s (length ?m) (length ?s) k (ps, [], [])" "\<not> tr \<longrightarrow> k = lcs_len ?m ?s"
      and tr: "tr \<longrightarrow> MAX_ALIGNED_LINES < length ?m - q - p \<or> MAX_ALIGNED_LINES < length ?s - q - p"
    using align_ok [OF p(3) _ _ _ _ q(3)] pq by (auto simp: ok_iff)
  obtain rs c run where f: "fold compare_step ps ([], 0, []) = (rs, c, run)" by (cases "fold compare_step ps ([], 0, [])")
  obtain qs run' where run: "ps = qs @ run'" "\<forall>p \<in> set run'. \<not> changed p" "unfolds rs qs" "c = length (filter changed qs)"
      "run = as_rows run'"
    using compared_all [of ps] f by (auto simp: compared_def)
  have "filter changed run' = []" using run(2) by (simp add: filter_empty_conv)
  then have c: "c = length (filter changed ps)" using run(1,4) by simp
  have "unfolds (rs @ fold_run run False) ps"
    using unfolds_append [OF run(3) unfolds_fold_run [OF run(2)]] run(1,5) by simp
  moreover have "lays_out ps ?m ?s" "same_count ps = k" using al(2) by (auto simp: laid_def lays_out_def)
  moreover have "line_comparison_new mine source =
      Some \<lparr>lc_rows = rs @ fold_run run False, lc_change_count = c, lc_truncated = tr\<rparr>"
    using al(1) p q f by (simp add: line_comparison_new_def Let_def flip: p_def q_def)
  moreover have "tr \<longrightarrow> ?m \<noteq> ?s \<and> MAX_ALIGNED_LINES < max (length ?m) (length ?s)"
    using tr line_prefix_refl [of ?m] by (auto simp: p_def)
  ultimately show ?thesis using c al(3) by auto
qed

lemma change_rows_count: "unfolds (lc_rows c) ps \<Longrightarrow> length (change_rows c) = length (filter changed ps)"
proof -
  assume u: "unfolds (lc_rows c) ps"
  have "filter row_changed (map ((!) (lc_rows c)) [0..<length (lc_rows c)]) =
      map ((!) (lc_rows c)) (filter (row_changed \<circ> (!) (lc_rows c)) [0..<length (lc_rows c)])"
    by (rule filter_map)
  then have "length (filter row_changed (lc_rows c)) = length (change_rows c)"
    unfolding map_nth by (simp add: change_rows_def comp_def)
  then show ?thesis using unfolds_changes [OF u] by simp
qed

lemma unchanged_texts:
  "\<forall>p \<in> set ps. pair_ok p \<and> \<not> changed p \<Longrightarrow> map dl_text (lefts ps) = map dl_text (rights ps)"
  by (induction ps) (auto simp: pair_ok_def changed_def line_is_def split: option.splits)

lemma side_lengths: "\<forall>p \<in> set ps. pair_ok p \<Longrightarrow> 2 * same_count ps + length (filter changed ps) \<le> length (lefts ps) + length (rights ps)"
proof (induction ps)
  case (Cons p ps)
  obtain l r where p: "p = (l, r)" by (cases p)
  have "2 * same_count [p] + length (filter changed [p]) \<le> length (lefts [p]) + length (rights [p])"
    using Cons.prems p by (cases l; cases r) (auto simp: pair_ok_def changed_def line_is_def same_count_def)
  moreover have "lefts (p # ps) = lefts [p] @ lefts ps" "rights (p # ps) = rights [p] @ rights ps"
      "same_count (p # ps) = same_count [p] + same_count ps" "filter changed (p # ps) = filter changed [p] @ filter changed ps"
    using pairs_simps(2,5,8) [of "[p]" ps] by simp_all
  ultimately show ?case using Cons by simp
qed simp

lemma lays_out_texts: "lays_out ps mine source \<Longrightarrow> mine = map dl_text (lefts ps) \<and> source = map dl_text (rights ps)"
proof -
  have "map snd (map entry xs) = map dl_text xs" for xs by (simp add: entry_def)
  then show "lays_out ps mine source \<Longrightarrow> ?thesis" unfolding lays_out_def by (metis map_snd_enumerate)
qed

text \<open>
  C35. The comparison never panics and hides nothing: its rows unfold (a collapsed row stands for that many unchanged
  pairs) to pairs that show all the lines of both versions, in order and with their own numbers, where a pair is
  either the same unchanged text on both sides or a removal and/or an addition; the change count is the number of
  changed pairs and of the rows offered to navigation.
\<close>

theorem comparison_shows_every_line:
  "\<exists>c ps. line_comparison_new mine source = Some c \<and> unfolds (lc_rows c) ps \<and>
     lays_out ps (str_lines mine) (str_lines source) \<and>
     lc_change_count c = length (filter changed ps) \<and> length (change_rows c) = lc_change_count c"
  using line_comparison_ok [of mine source] change_rows_count by (fastforce simp: ok_iff)

text \<open>
  C36. A comparison that was not cut short is minimal: no common subsequence of the two versions' lines is longer than
  the number of lines shown unchanged.  It is only cut short when a version has more than 2000 lines.
\<close>

theorem comparison_is_minimal:
  assumes "line_comparison_new mine source = Some c"
  shows "(lc_truncated c \<longrightarrow> MAX_ALIGNED_LINES < max (length (str_lines mine)) (length (str_lines source))) \<and>
    (\<not> lc_truncated c \<longrightarrow> (\<exists>ps. unfolds (lc_rows c) ps \<and> lays_out ps (str_lines mine) (str_lines source) \<and>
       (\<forall>zs. subseq zs (str_lines mine) \<and> subseq zs (str_lines source) \<longrightarrow> length zs \<le> same_count ps)))"
  using line_comparison_ok [of mine source] assms lcs_len_upper by (fastforce simp: less_max_iff_disj)

theorem comparison_is_minimal_witness:
  "\<exists>c ps. line_comparison_new [0x61, 0x0a, 0x62] [0x62, 0x0a, 0x63] = Some c \<and> unfolds (lc_rows c) ps \<and> 1 \<le> same_count ps"
proof -
  obtain c where c: "line_comparison_new [0x61, 0x0a, 0x62] [0x62, 0x0a, 0x63] = Some c"
    using line_comparison_ok [of "[0x61, 0x0a, 0x62]" "[0x62, 0x0a, 0x63]"] by (auto simp: ok_iff)
  note lines = str_lines_def strip_cr_def MAX_ALIGNED_LINES_def
  have "subseq [[0x62]] (str_lines [0x61, 0x0a, 0x62])" "subseq [[0x62]] (str_lines [0x62, 0x0a, 0x63])"
    by (simp_all add: lines)
  moreover have "\<not> MAX_ALIGNED_LINES < max (length (str_lines [0x61, 0x0a, 0x62])) (length (str_lines [0x62, 0x0a, 0x63]))"
    by (simp add: lines)
  ultimately show ?thesis using comparison_is_minimal [OF c] c by fastforce
qed

text \<open>
  The comparison reports no change exactly when the two versions have the same lines.
\<close>

theorem comparison_identical_iff:
  "\<exists>c. line_comparison_new mine source = Some c \<and> (is_identical c \<longleftrightarrow> str_lines mine = str_lines source)"
proof -
  obtain c ps where c: "line_comparison_new mine source = Some c"
      "lays_out ps (str_lines mine) (str_lines source)" "lc_change_count c = length (filter changed ps)"
      "\<not> lc_truncated c \<longrightarrow> same_count ps = lcs_len (str_lines mine) (str_lines source)"
      "lc_truncated c \<longrightarrow> str_lines mine \<noteq> str_lines source"
    using line_comparison_ok [of mine source] by (auto simp: ok_iff)
  note texts = lays_out_texts [OF c(2)]
  have ok: "\<forall>p \<in> set ps. pair_ok p" using c(2) by (simp add: lays_out_def)
  have "str_lines mine = str_lines source" if "filter changed ps = []"
    using that texts unchanged_texts [of ps] ok by (simp add: filter_empty_conv)
  moreover have "filter changed ps = []" if eq: "str_lines mine = str_lines source"
  proof -
    have "same_count ps = length (str_lines mine)" using c(4,5) eq by (auto simp: lcs_len_refl)
    moreover have "length (lefts ps) = length (str_lines mine)" "length (rights ps) = length (str_lines mine)"
      using arg_cong [OF conjunct1 [OF texts], of length] arg_cong [OF conjunct2 [OF texts], of length] eq by simp_all
    ultimately show ?thesis using side_lengths [OF ok] by simp
  qed
  moreover have "is_identical c \<longleftrightarrow> filter changed ps = []" by (simp add: is_identical_def c(3))
  ultimately show ?thesis using c(1) by blast
qed

end
