(* ===== verification/Vi_Buffer.thy ===== *)
theory Vi_Buffer
  imports Edit_Document
begin

text \<open>
  What the vi engine of \<open>festerm-document/src/vi.rs\<close> reads: the character-indexed view of the text
  that lives for one keystroke (\<open>Buffer\<close>), the borrowed view of the same text by byte offsets, the
  trait \<open>MotionText\<close> both implement, and the word motions written once over the trait.
\<close>

section \<open>Environment and characters\<close>

text \<open>\<open>char::is_alphanumeric\<close> is a table of the Unicode standard, a parameter here; \<open>vi_heap\<close> is the
  allocator the strings of the edits come from.\<close>

record vi_env =
  is_alphanumeric :: "scalar \<Rightarrow> bool"
  vi_heap :: heap_env

definition NL :: scalar where "NL = 10"

definition str_chars :: "bytes \<Rightarrow> str" where
  "str_chars s = (case from_utf8 s of None \<Rightarrow> [] | Some cs \<Rightarrow> cs)"

datatype vi_class = Blank | Word | Punct

definition char_class :: "vi_env \<Rightarrow> scalar \<Rightarrow> vi_class" where
  "char_class v c =
     (if c = 0x20 \<or> c = 0x09 \<or> c = 0x0a \<or> c = 0x0d then Blank
      else if is_alphanumeric v c \<or> c = 0x5f then Word else Punct)"

section \<open>The indexed view\<close>

record vi_buffer =
  vb_chars :: str
  vb_starts :: "nat list"

primrec byte_starts :: "nat \<Rightarrow> str \<Rightarrow> nat list" where
  "byte_starts b [] = [b]"
| "byte_starts b (c # cs) = b # byte_starts (b + len_utf8 c) cs"

definition buffer_of :: "bytes \<Rightarrow> vi_buffer" where
  "buffer_of s = \<lparr>vb_chars = str_chars s, vb_starts = byte_starts 0 (str_chars s)\<rparr>"

definition nchars :: "vi_buffer \<Rightarrow> nat" where
  "nchars b = length (vb_chars b)"

text \<open>The index is clamped to \<open>byte_starts\<close>, which has one entry more than there are characters.\<close>

definition byte_at :: "vi_buffer \<Rightarrow> nat \<Rightarrow> nat" where
  "byte_at b ci = vb_starts b ! min ci (nchars b)"

text \<open>\<open>binary_search\<close> on the strictly increasing starts: the position, or where it would be inserted.\<close>

definition ci_of_byte :: "vi_buffer \<Rightarrow> nat \<Rightarrow> nat" where
  "ci_of_byte b byte =
     (let i = length (filter (\<lambda>s. s < byte) (vb_starts b))
      in if i < length (vb_starts b) \<and> vb_starts b ! i = byte then i else i - 1)"

definition char_at :: "vi_buffer \<Rightarrow> nat \<Rightarrow> scalar option" where
  "char_at b ci = rd (vb_chars b) ci"

definition buf_slice :: "vi_buffer \<Rightarrow> nat \<Rightarrow> nat \<Rightarrow> bytes option" where
  "buf_slice b start stop =
     map_option str_bytes (rd_range (vb_chars b) (min start (nchars b)) (min stop (nchars b)))"

definition line_start :: "vi_buffer \<Rightarrow> nat \<Rightarrow> nat" where
  "line_start b ci = extent ((=) NL) (take (min ci (nchars b)) (vb_chars b))"

definition line_end :: "vi_buffer \<Rightarrow> nat \<Rightarrow> nat" where
  "line_end b ci = (let i = min ci (nchars b) in i + length (takeWhile ((\<noteq>) NL) (drop i (vb_chars b))))"

definition first_non_blank :: "vi_buffer \<Rightarrow> nat \<Rightarrow> nat" where
  "first_non_blank b start =
     start + length (takeWhile (\<lambda>c. c = 0x20 \<or> c = 0x09) (slice start (line_end b start - start) (vb_chars b)))"

definition line_index :: "vi_buffer \<Rightarrow> nat \<Rightarrow> nat" where
  "line_index b ci = length (filter ((=) NL) (take (min ci (nchars b)) (vb_chars b)))"

definition buf_line_count :: "vi_buffer \<Rightarrow> nat" where
  "buf_line_count b = length (filter ((=) NL) (vb_chars b)) + 1"

fun nth_start :: "str \<Rightarrow> nat \<Rightarrow> nat \<Rightarrow> nat" where
  "nth_start [] n i = i"
| "nth_start (c # cs) n i =
     (if c = NL then if n = 1 then i + 1 else nth_start cs (n - 1) (i + 1) else nth_start cs n (i + 1))"

definition nth_line_start :: "vi_buffer \<Rightarrow> nat \<Rightarrow> nat" where
  "nth_line_start b n = (if n = 0 then 0 else nth_start (vb_chars b) n 0)"

definition line_end_by_line :: "vi_buffer \<Rightarrow> nat \<Rightarrow> nat" where
  "line_end_by_line b n = line_end b (nth_line_start b n)"

definition linewise_register_text :: "vi_buffer \<Rightarrow> nat \<Rightarrow> nat \<Rightarrow> bytes option" where
  "linewise_register_text b first last_line = do {
     s \<leftarrow> buf_slice b (nth_line_start b first) (line_end_by_line b last_line);
     Some (s @ [0x0a]) }"

definition linewise_delete_range :: "vi_buffer \<Rightarrow> nat \<Rightarrow> nat \<Rightarrow> nat \<times> nat" where
  "linewise_delete_range b first last_line =
     (let start = nth_line_start b first; stop = line_end_by_line b last_line
      in if stop < nchars b then (start, stop + 1)
         else if 0 < start then (start - 1, stop)
         else (start, stop))"

section \<open>Texts a motion can run over\<close>

text \<open>
  The trait \<open>MotionText\<close> as a record of its methods; the outer option of \<open>mt_character\<close> and the options
  of \<open>mt_next\<close> and \<open>mt_previous\<close> are the panic of a slice off a character boundary.
\<close>

record motion_text =
  mt_end :: nat
  mt_character :: "nat \<Rightarrow> scalar option option"
  mt_next :: "nat \<Rightarrow> nat option"
  mt_previous :: "nat \<Rightarrow> nat option"

definition indexed_text :: "vi_buffer \<Rightarrow> motion_text" where
  "indexed_text b =
     \<lparr>mt_end = nchars b, mt_character = (\<lambda>i. Some (char_at b i)), mt_next = (\<lambda>i. Some (min (i + 1) (nchars b))),
      mt_previous = (\<lambda>i. Some (i - 1))\<rparr>"

definition str_character :: "bytes \<Rightarrow> nat \<Rightarrow> scalar option option" where
  "str_character s i = map_option (\<lambda>rest. map_option fst (decode_step rest)) (str_slice s i (length s))"

definition str_next :: "bytes \<Rightarrow> nat \<Rightarrow> nat option" where
  "str_next s i = map_option (\<lambda>c. case c of None \<Rightarrow> length s | Some c \<Rightarrow> i + len_utf8 c) (str_character s i)"

text \<open>The last of \<open>self[..position].char_indices()\<close>.\<close>

definition str_previous :: "bytes \<Rightarrow> nat \<Rightarrow> nat option" where
  "str_previous s i =
     map_option (\<lambda>prior. case str_chars prior of [] \<Rightarrow> 0 | cs \<Rightarrow> i - len_utf8 (last cs)) (str_slice s 0 i)"

definition borrowed_text :: "bytes \<Rightarrow> motion_text" where
  "borrowed_text s =
     \<lparr>mt_end = length s, mt_character = str_character s, mt_next = str_next s, mt_previous = str_previous s\<rparr>"

section \<open>Word motions\<close>

text \<open>\<open>class(text.character(i).expect(..))\<close>\<close>

definition class_at :: "vi_env \<Rightarrow> motion_text \<Rightarrow> nat \<Rightarrow> vi_class option" where
  "class_at v t i = do { c \<leftarrow> mt_character t i; map_option (char_class v) c }"

text \<open>\<open>while ci < n && class == .. { ci = next(ci) }\<close>; the loops end on every text because \<open>next\<close> and
  \<open>previous\<close> make progress, which is proved of both views.\<close>

partial_function (option) skip_while :: "vi_env \<Rightarrow> motion_text \<Rightarrow> (vi_class \<Rightarrow> bool) \<Rightarrow> nat \<Rightarrow> nat option" where
  "skip_while v t P ci =
     (if ci < mt_end t then class_at v t ci \<bind> (\<lambda>c.
        if P c then mt_next t ci \<bind> (\<lambda>ci. skip_while v t P ci) else Some ci)
      else Some ci)"

partial_function (option) skip_blanks :: "vi_env \<Rightarrow> motion_text \<Rightarrow> nat \<Rightarrow> nat option" where
  "skip_blanks v t ci =
     (if ci < mt_end t then class_at v t ci \<bind> (\<lambda>c.
        if c = Blank then mt_character t ci \<bind> (\<lambda>here.
          (if here = Some NL then
             if ci = 0 then Some True
             else mt_previous t ci \<bind> (\<lambda>p. mt_character t p \<bind> (\<lambda>prior. Some (prior = Some NL)))
           else Some False) \<bind> (\<lambda>empty_line.
          if empty_line then Some ci else mt_next t ci \<bind> (\<lambda>ci. skip_blanks v t ci)))
        else Some ci)
      else Some ci)"

primrec word_forward :: "vi_env \<Rightarrow> motion_text \<Rightarrow> bool \<Rightarrow> nat \<Rightarrow> nat \<Rightarrow> nat option" where
  "word_forward v t big 0 ci = Some (min ci (mt_end t))"
| "word_forward v t big (Suc count) ci =
     (if mt_end t \<le> ci then Some (mt_end t)
      else do {
        start_class \<leftarrow> class_at v t ci;
        after_word \<leftarrow> (if start_class \<noteq> Blank
                      then skip_while v t (\<lambda>c. if big then c \<noteq> Blank else c = start_class) ci
                      else Some ci);
        stop \<leftarrow> skip_blanks v t after_word;
        if stop = ci then Some (min stop (mt_end t)) else word_forward v t big count stop })"

text \<open>The inner loop of \<open>word_end\<close> looks one character ahead.\<close>

partial_function (option) run_ahead :: "vi_env \<Rightarrow> motion_text \<Rightarrow> (vi_class \<Rightarrow> bool) \<Rightarrow> nat \<Rightarrow> nat option" where
  "run_ahead v t P ci =
     mt_next t ci \<bind> (\<lambda>ahead.
     if ahead < mt_end t then class_at v t ahead \<bind> (\<lambda>c. if P c then run_ahead v t P ahead else Some ci)
     else Some ci)"

primrec word_end :: "vi_env \<Rightarrow> motion_text \<Rightarrow> bool \<Rightarrow> nat \<Rightarrow> nat \<Rightarrow> nat option" where
  "word_end v t big 0 ci = do { p \<leftarrow> mt_previous t (mt_end t); Some (min ci p) }"
| "word_end v t big (Suc count) ci = do {
     ahead \<leftarrow> mt_next t ci;
     if mt_end t \<le> ahead then mt_previous t (mt_end t)
     else do {
       ci \<leftarrow> skip_while v t (\<lambda>c. c = Blank) ahead;
       if mt_end t \<le> ci then mt_previous t (mt_end t)
       else do {
         c \<leftarrow> class_at v t ci;
         ci \<leftarrow> run_ahead v t (\<lambda>d. if big then d \<noteq> Blank else d = c) ci;
         word_end v t big count ci } } }"

partial_function (option) back_while :: "vi_env \<Rightarrow> motion_text \<Rightarrow> (vi_class \<Rightarrow> bool) \<Rightarrow> nat \<Rightarrow> nat option" where
  "back_while v t P ci =
     (if 0 < ci then class_at v t ci \<bind> (\<lambda>c.
        if P c then mt_previous t ci \<bind> (\<lambda>ci. back_while v t P ci) else Some ci)
      else Some ci)"

partial_function (option) run_back :: "vi_env \<Rightarrow> motion_text \<Rightarrow> (vi_class \<Rightarrow> bool) \<Rightarrow> nat \<Rightarrow> nat option" where
  "run_back v t P ci =
     (if 0 < ci then mt_previous t ci \<bind> (\<lambda>prior. class_at v t prior \<bind> (\<lambda>c.
        if P c then run_back v t P prior else Some ci))
      else Some ci)"

primrec word_back :: "vi_env \<Rightarrow> motion_text \<Rightarrow> bool \<Rightarrow> nat \<Rightarrow> nat \<Rightarrow> nat option" where
  "word_back v t big 0 ci = Some ci"
| "word_back v t big (Suc count) ci =
     (if ci = 0 then Some 0
      else do {
        ci \<leftarrow> mt_previous t ci;
        ci \<leftarrow> back_while v t (\<lambda>c. c = Blank) ci;
        c \<leftarrow> class_at v t ci;
        if c = Blank then Some 0
        else do {
          ci \<leftarrow> run_back v t (\<lambda>d. if big then d \<noteq> Blank else d = c) ci;
          word_back v t big count ci } })"

lemmas loop_simps [code] = skip_while.simps skip_blanks.simps run_ahead.simps back_while.simps run_back.simps

text \<open>The range of a text object \<open>iw\<close>, \<open>aw\<close>, \<open>iW\<close>, \<open>aW\<close>.\<close>

definition word_object :: "vi_env \<Rightarrow> vi_buffer \<Rightarrow> nat \<Rightarrow> bool \<Rightarrow> bool \<Rightarrow> nat \<times> nat" where
  "word_object v b ci inner big =
     (if nchars b = 0 then (0, 0)
      else
        let cs = vb_chars b; ci = min ci (nchars b - 1); here = char_class v (cs ! ci);
            within = (\<lambda>c. if here = Blank then char_class v c = Blank
                          else if big then char_class v c \<noteq> Blank else char_class v c = here);
            start = extent (\<lambda>c. \<not> within c) (take ci cs);
            stop = ci + 1 + length (takeWhile within (drop (ci + 1) cs));
            blank = (\<lambda>c. char_class v c = Blank \<and> c \<noteq> NL)
        in if inner then (start, stop)
           else
             let around = stop + length (takeWhile blank (drop stop cs))
             in if stop < around then (start, around)
                else (extent (\<lambda>c. \<not> blank c) (take start cs), stop))"

end
