(* ===== verification/Vi_Engine.thy ===== *)
theory Vi_Engine
  imports Vi_Buffer
begin

text \<open>
  The vi engine itself, \<open>ViEngine\<close> of \<open>festerm-document/src/vi.rs\<close>: its modes, pending
  stages, register and recording, the counts, the motions over the indexed view, and the helpers of the
  commands.  A step is a function from the engine, the text and the caret to a described action, the new
  caret and the engine; \<open>None\<close> is a panic (a slice with its ends out of order, an arithmetic overflow).
\<close>

section \<open>State\<close>

datatype vi_mode = Normal | Insert | Replace_Mode | Visual | VisualLine

datatype vi_key = Char_Key scalar | Ctrl_Key scalar | Escape_Key | Enter_Key | Backspace_Key

datatype search_intent = PromptForward | PromptBackward | Next | Previous | WordForward | WordBackward

text \<open>A refusal is identified by its headline; the wording of the detail is not modelled.\<close>

datatype vi_action = No_Action | Edit "text_edit list" | Undo_Action | Redo_Action | Search search_intent | Vi_Refused string

record vi_response =
  vr_action :: vi_action
  vr_warning :: "string option"
  vr_caret :: nat
  vr_mode :: vi_mode
  vr_pending :: bool

datatype operator = Delete | Change | Yank

datatype stage = Ready | AfterOperator operator | AfterG "operator option" | AfterTextObject operator bool | AwaitReplace

record register =
  rg_text :: bytes
  rg_linewise :: bool

datatype recording_state = Recording | OverLimit | OverLimitNotified

datatype last_change = No_Change | Recorded "vi_key list" | Change_OverLimit

record vi_engine =
  ve_mode :: vi_mode
  ve_stage :: stage
  ve_count :: "nat option"
  ve_operator_count :: "nat option"
  ve_register :: register
  ve_visual_anchor :: nat
  ve_record :: "vi_key list"
  ve_recording_state :: recording_state
  ve_last_change :: last_change
  ve_change_in_progress :: bool
  ve_replaying :: bool

definition MAX_VI_RECORDING_KEYS :: nat where
  "MAX_VI_RECORDING_KEYS = 8192"

definition vi_new :: vi_engine where
  "vi_new =
     \<lparr>ve_mode = Normal, ve_stage = Ready, ve_count = None, ve_operator_count = None,
      ve_register = \<lparr>rg_text = [], rg_linewise = False\<rparr>, ve_visual_anchor = 0, ve_record = [],
      ve_recording_state = Recording, ve_last_change = No_Change, ve_change_in_progress = False, ve_replaying = False\<rparr>"

definition vi_is_pending :: "vi_engine \<Rightarrow> bool" where
  "vi_is_pending e \<longleftrightarrow> ve_stage e \<noteq> Ready \<or> ve_count e \<noteq> None \<or> ve_operator_count e \<noteq> None"

definition repeat_is_refused :: "vi_engine \<Rightarrow> bool" where
  "repeat_is_refused e \<longleftrightarrow> ve_last_change e = Change_OverLimit"

definition reset_pending :: "vi_engine \<Rightarrow> vi_engine" where
  "reset_pending e = e\<lparr>ve_stage := Ready, ve_count := None, ve_operator_count := None\<rparr>"

definition respond :: "vi_engine \<Rightarrow> vi_action \<Rightarrow> nat \<Rightarrow> vi_response" where
  "respond e action caret =
     \<lparr>vr_action = action, vr_warning = None, vr_caret = caret, vr_mode = ve_mode e, vr_pending = vi_is_pending e\<rparr>"

type_synonym vi_step = "((vi_action \<times> nat) \<times> vi_engine) option"

definition refuse :: "nat \<Rightarrow> string \<Rightarrow> vi_engine \<Rightarrow> vi_step" where
  "refuse caret headline e = Some ((Vi_Refused headline, caret), reset_pending e)"

definition refuse_unsupported :: "nat \<Rightarrow> vi_engine \<Rightarrow> vi_step" where
  "refuse_unsupported caret e = refuse caret ''Unsupported command'' e"

definition still :: "nat \<Rightarrow> vi_engine \<Rightarrow> vi_step" where
  "still caret e = Some ((No_Action, caret), e)"

text \<open>\<open>ch as usize - '0'\<close>, appended to the count; the arithmetic overflows on a long enough run of digits.\<close>

definition is_digit :: "scalar \<Rightarrow> bool" where
  "is_digit c \<longleftrightarrow> 0x30 \<le> c \<and> c \<le> 0x39"

definition consume_count_digit :: "scalar \<Rightarrow> vi_engine \<Rightarrow> (bool \<times> vi_engine) option" where
  "consume_count_digit c e =
     (if is_digit c \<and> \<not> (c = 0x30 \<and> ve_count e = None) then do {
        tens \<leftarrow> checked_mul (case ve_count e of None \<Rightarrow> 0 | Some n \<Rightarrow> n) 10;
        n \<leftarrow> checked_add tens (c - 0x30);
        Some (True, e\<lparr>ve_count := Some n\<rparr>) }
      else Some (False, e))"

definition or_one :: "nat option \<Rightarrow> nat" where
  "or_one n = (case n of None \<Rightarrow> 1 | Some n \<Rightarrow> n)"

section \<open>Small helpers\<close>

definition ordered :: "nat \<Rightarrow> nat \<Rightarrow> nat \<times> nat" where
  "ordered a b = (if a \<le> b then (a, b) else (b, a))"

definition edit_at :: "vi_env \<Rightarrow> nat \<Rightarrow> bytes \<Rightarrow> bytes \<Rightarrow> text_edit" where
  "edit_at v start removed inserted =
     \<lparr>te_start = start, te_removed = owned (vi_heap v) removed, te_inserted = owned (vi_heap v) inserted\<rparr>"

definition insert_at :: "vi_env \<Rightarrow> nat \<Rightarrow> bytes \<Rightarrow> text_edit" where
  "insert_at v i s = edit_at v i [] s"

definition join_separator :: "vi_buffer \<Rightarrow> nat \<Rightarrow> nat \<Rightarrow> bytes" where
  "join_separator b end_of_first next_first =
     (if nchars b \<le> next_first \<or> char_at b next_first = Some NL then []
      else if 0 < end_of_first \<and> (char_at b (end_of_first - 1) = Some 0x20 \<or> char_at b (end_of_first - 1) = Some 0x09) then []
      else if char_at b next_first = Some 0x29 then []
      else [0x20])"

definition leading_blank_bytes :: "bytes \<Rightarrow> nat" where
  "leading_blank_bytes s = length (takeWhile (\<lambda>b. b = 0x20 \<or> b = 0x09) s)"

definition last_char_len :: "bytes \<Rightarrow> nat" where
  "last_char_len s = (case str_chars s of [] \<Rightarrow> 0 | cs \<Rightarrow> len_utf8 (last cs))"

definition caret_after_delete :: "vi_buffer \<Rightarrow> nat \<Rightarrow> nat \<Rightarrow> nat" where
  "caret_after_delete b start stop =
     (if (nchars b \<le> stop \<or> char_at b stop = Some NL) \<and> line_start b start < start
      then byte_at b (start - 1) else byte_at b start)"

definition vi_clamp_cursor :: "vi_buffer \<Rightarrow> nat \<Rightarrow> nat" where
  "vi_clamp_cursor b ci =
     (if line_end b ci \<le> ci \<and> line_start b ci < line_end b ci then byte_at b (line_end b ci - 1) else byte_at b ci)"

section \<open>Motions\<close>

datatype motion = Chars nat nat bool | Lines nat nat

definition isize_max :: nat where
  "isize_max = usize_max div 2"

text \<open>\<open>n as isize\<close> wraps; the sum with the line number and the negation can overflow.\<close>

definition as_isize :: "nat \<Rightarrow> int" where
  "as_isize n = (if n \<le> isize_max then int n else int n - int usize_max - 1)"

definition checked_isize :: "int \<Rightarrow> int option" where
  "checked_isize i = (if - int isize_max - 1 \<le> i \<and> i \<le> int isize_max then Some i else None)"

definition vertical :: "vi_buffer \<Rightarrow> nat \<Rightarrow> int \<Rightarrow> nat option" where
  "vertical b ci delta = do {
     target \<leftarrow> checked_isize (int (line_index b ci) + delta);
     let target_line = nat (min (max target 0) (int (buf_line_count b) - 1));
     col \<leftarrow> checked_sub ci (line_start b ci);
     let start = nth_line_start b target_line;
     let stop = line_end_by_line b target_line;
     Some (min (start + col) (if start < stop then stop - 1 else start)) }"

definition promote_exclusive :: "vi_buffer \<Rightarrow> nat \<Rightarrow> nat \<Rightarrow> nat option" where
  "promote_exclusive b start stop =
     (let end_line = line_index b (min stop (nchars b))
      in if end_line = 0 \<or> stop \<noteq> nth_line_start b end_line then None
         else if end_line \<le> line_index b start then None
         else Some (line_end_by_line b (end_line - 1)))"

text \<open>The inner option is the absence of a motion for the key.\<close>

definition resolve_motion :: "vi_env \<Rightarrow> vi_buffer \<Rightarrow> nat \<Rightarrow> scalar \<Rightarrow> nat option \<Rightarrow> operator option \<Rightarrow> motion option option" where
  "resolve_motion v b caret key count op =
     (let ci = ci_of_byte b caret; n = or_one count; t = indexed_text b;
          ahead = (\<lambda>inclusive m. map_option (\<lambda>target. Some (Chars ci target inclusive)) m);
          behind = (\<lambda>m. map_option (\<lambda>target. Some (Chars target ci False)) m);
          lines = buf_line_count b - 1
      in if key = 0x68 then behind (Some (max (ci - n) (line_start b ci)))
         else if key = 0x6c then do { sum \<leftarrow> checked_add ci n; ahead False (Some (min sum (line_end b ci))) }
         else if key = 0x77 \<or> key = 0x57 then
           (let big = (key = 0x57)
            in if op = Some Change \<and> map_option (char_class v) (char_at b ci) \<noteq> Some Blank
               then ahead True (word_end v t big n ci)
               else ahead False (word_forward v t big n ci))
         else if key = 0x62 \<or> key = 0x42 then behind (word_back v t (key = 0x42) n ci)
         else if key = 0x65 \<or> key = 0x45 then ahead True (word_end v t (key = 0x45) n ci)
         else if key = 0x30 then behind (Some (line_start b ci))
         else if key = 0x5e then
           (let (start, stop) = ordered (first_non_blank b (line_start b ci)) ci in Some (Some (Chars start stop False)))
         else if key = 0x24 then do {
           sum \<leftarrow> checked_add (line_index b ci) (n - 1);
           let line = min sum lines;
           let stop = line_end_by_line b line;
           ahead True (Some (if nth_line_start b line < stop then stop - 1 else stop)) }
         else if key = 0x6a then
           (if op \<noteq> None then do {
              sum \<leftarrow> checked_add (line_index b ci) n;
              Some (Some (Lines (line_index b ci) (min sum lines))) }
            else ahead False (vertical b ci (as_isize n)))
         else if key = 0x6b then
           (if op \<noteq> None then Some (Some (Lines (line_index b ci - n) (line_index b ci)))
            else do { delta \<leftarrow> checked_isize (- as_isize n); behind (vertical b ci delta) })
         else if key = 0x47 then
           (let line = (case count of Some c \<Rightarrow> min (c - 1) lines | None \<Rightarrow> lines)
            in if op \<noteq> None then
                 (let (first, last_line) = ordered (line_index b ci) line in Some (Some (Lines first last_line)))
               else (let target = first_non_blank b (nth_line_start b line) in Some (Some (Chars target target False))))
         else Some None)"

definition move_cursor :: "vi_buffer \<Rightarrow> nat \<Rightarrow> motion \<Rightarrow> nat" where
  "move_cursor b caret m =
     (let ci = ci_of_byte b caret
      in case m of
           Lines _ last_line \<Rightarrow> byte_at b (first_non_blank b (nth_line_start b last_line))
         | Chars start stop _ \<Rightarrow>
             vi_clamp_cursor b (min (if start = ci then stop else if stop = ci then start else stop) (nchars b)))"

end
