(* ===== verification/Vi_Steps.thy ===== *)
theory Vi_Steps
  imports Vi_Engine
begin

text \<open>
  The steps of the vi engine over the indexed text: the edit builders, the operators, and what one
  keystroke does in each mode and pending stage.
\<close>

section \<open>Edit builders\<close>

definition set_register :: "bytes \<Rightarrow> bool \<Rightarrow> vi_engine \<Rightarrow> vi_engine" where
  "set_register s linewise e = e\<lparr>ve_register := \<lparr>rg_text = s, rg_linewise = linewise\<rparr>\<rparr>"

definition enter_insert :: "nat \<Rightarrow> vi_engine \<Rightarrow> vi_step" where
  "enter_insert caret e = Some ((No_Action, caret), e\<lparr>ve_mode := Insert\<rparr>)"

definition vi_open_line :: "vi_env \<Rightarrow> vi_buffer \<Rightarrow> nat \<Rightarrow> bool \<Rightarrow> vi_engine \<Rightarrow> vi_step" where
  "vi_open_line v b caret below e =
     (let ci = ci_of_byte b caret;
          i = byte_at b (if below then line_end b ci else line_start b ci)
      in Some ((Edit [insert_at v i [0x0a]], if below then i + 1 else i), e\<lparr>ve_mode := Insert\<rparr>))"

definition delete_chars_forward :: "vi_env \<Rightarrow> vi_buffer \<Rightarrow> nat \<Rightarrow> nat \<Rightarrow> vi_engine \<Rightarrow> vi_step" where
  "delete_chars_forward v b caret count e =
     (let ci = ci_of_byte b caret; stop = line_end b ci
      in if stop \<le> ci then still caret e
         else do {
           sum \<leftarrow> checked_add ci count;
           let stop = min sum stop;
           removed \<leftarrow> buf_slice b ci stop;
           Some ((Edit [edit_at v caret removed []], caret_after_delete b ci stop), set_register removed False e) })"

definition delete_chars_back :: "vi_env \<Rightarrow> vi_buffer \<Rightarrow> nat \<Rightarrow> nat \<Rightarrow> vi_engine \<Rightarrow> vi_step" where
  "delete_chars_back v b caret count e =
     (let ci = ci_of_byte b caret; first = line_start b ci
      in if ci = first then still caret e
         else do {
           let start = max (ci - count) first;
           removed \<leftarrow> buf_slice b start ci;
           Some ((Edit [edit_at v (byte_at b start) removed []], byte_at b start), set_register removed False e) })"

definition delete_to_line_end :: "vi_env \<Rightarrow> vi_buffer \<Rightarrow> nat \<Rightarrow> bool \<Rightarrow> vi_engine \<Rightarrow> vi_step" where
  "delete_to_line_end v b caret change e =
     (let ci = ci_of_byte b caret
      in do {
        removed \<leftarrow> buf_slice b ci (line_end b ci);
        let e = set_register removed False e;
        let e = (if change then e\<lparr>ve_mode := Insert\<rparr> else e);
        let new_caret = (if change then caret else if line_start b ci < ci then byte_at b (ci - 1) else caret);
        Some ((Edit [edit_at v caret removed []], new_caret), e) })"

text \<open>One seam of \<open>J\<close>; \<open>end_of_first\<close> steps back over carriage returns, the caret over blanks.\<close>

definition back_over :: "(scalar \<Rightarrow> bool) \<Rightarrow> vi_buffer \<Rightarrow> nat \<Rightarrow> nat \<Rightarrow> nat" where
  "back_over P b floor i = max floor (extent (\<lambda>c. \<not> P c) (take i (vb_chars b)))"

definition join_seam :: "vi_env \<Rightarrow> vi_buffer \<Rightarrow> nat \<Rightarrow> (text_edit \<times> nat) option" where
  "join_seam v b line = do {
     let this_end = line_end_by_line b line;
     let next_first = first_non_blank b (this_end + 1);
     let end_of_first = back_over (\<lambda>c. c = 0x0d) b (nth_line_start b line) this_end;
     let caret_col = back_over (\<lambda>c. c = 0x20 \<or> c = 0x09) b (nth_line_start b line) end_of_first;
     removed \<leftarrow> buf_slice b end_of_first next_first;
     Some (edit_at v (byte_at b end_of_first) removed (join_separator b end_of_first next_first), byte_at b caret_col) }"

primrec join_loop :: "vi_env \<Rightarrow> vi_buffer \<Rightarrow> nat \<Rightarrow> nat \<Rightarrow> (text_edit \<times> nat) list option" where
  "join_loop v b 0 line = Some []"
| "join_loop v b (Suc joins) line =
     (if buf_line_count b \<le> line + 1 then Some []
      else do {
        seam \<leftarrow> join_seam v b line;
        seams \<leftarrow> join_loop v b joins (line + 1);
        Some (seam # seams) })"

definition join_lines :: "vi_env \<Rightarrow> vi_buffer \<Rightarrow> nat \<Rightarrow> nat option \<Rightarrow> vi_engine \<Rightarrow> vi_step" where
  "join_lines v b caret count e = do {
     let joins = (case count of None \<Rightarrow> 1 | Some n \<Rightarrow> max (n - 1) 1);
     seams \<leftarrow> join_loop v b joins (line_index b (ci_of_byte b caret));
     case seams of
       [] \<Rightarrow> still caret e
     | (_, join_caret) # _ \<Rightarrow> Some ((Edit (map fst seams), join_caret), e) }"

definition paste :: "vi_env \<Rightarrow> vi_buffer \<Rightarrow> nat \<Rightarrow> bool \<Rightarrow> vi_engine \<Rightarrow> vi_step" where
  "paste v b caret after e =
     (let s = rg_text (ve_register e); ci = ci_of_byte b caret; line = line_index b ci
      in if s = [] then still caret e
         else if rg_linewise (ve_register e) then
           (if after then
              (let stop = line_end_by_line b line
               in if stop < nchars b
                  then Some ((Edit [insert_at v (byte_at b (stop + 1)) s], byte_at b (first_non_blank b (stop + 1))), e)
                  else
                    let i = byte_at b stop; body = (if last s = 0x0a then butlast s else s)
                    in Some ((Edit [insert_at v i (0x0a # body)], i + 1), e))
            else
              let i = byte_at b (nth_line_start b line)
              in Some ((Edit [insert_at v i s], i + leading_blank_bytes s), e))
         else do {
           let i = byte_at b (if after then min (ci + 1) (line_end b ci) else ci);
           caret \<leftarrow> checked_sub (i + length s) (last_char_len s);
           Some ((Edit [insert_at v i s], caret), e) })"

definition apply_linewise :: "vi_env \<Rightarrow> vi_buffer \<Rightarrow> operator \<Rightarrow> nat \<Rightarrow> nat \<Rightarrow> vi_engine \<Rightarrow> vi_step" where
  "apply_linewise v b op first last_line e = do {
     let (first, last_line) = ordered first last_line;
     register_text \<leftarrow> linewise_register_text b first last_line;
     let e = set_register register_text True e;
     case op of
       Yank \<Rightarrow> Some ((No_Action, byte_at b (first_non_blank b (nth_line_start b first))), e)
     | Delete \<Rightarrow> do {
         let (start, stop) = linewise_delete_range b first last_line;
         removed \<leftarrow> buf_slice b start stop;
         removed_bytes \<leftarrow> checked_sub (byte_at b stop) (byte_at b start);
         new_caret \<leftarrow>
           (if last_line + 1 < buf_line_count b
            then checked_sub (byte_at b (first_non_blank b (nth_line_start b (last_line + 1)))) removed_bytes
            else if 0 < first then Some (byte_at b (first_non_blank b (nth_line_start b (first - 1))))
            else Some 0);
         Some ((Edit [edit_at v (byte_at b start) removed []], new_caret), e) }
     | Change \<Rightarrow> do {
         let start = nth_line_start b first;
         removed \<leftarrow> buf_slice b start (line_end_by_line b last_line);
         Some ((Edit [edit_at v (byte_at b start) removed []], byte_at b start), e\<lparr>ve_mode := Insert\<rparr>) } }"

definition apply_chars :: "vi_env \<Rightarrow> vi_buffer \<Rightarrow> operator \<Rightarrow> nat \<Rightarrow> nat \<Rightarrow> vi_engine \<Rightarrow> vi_step" where
  "apply_chars v b op start_ci end_ci e = do {
     removed \<leftarrow> buf_slice b start_ci end_ci;
     let start = byte_at b start_ci;
     let e = set_register removed False e;
     Some (case op of
             Yank \<Rightarrow> ((No_Action, start), e)
           | Delete \<Rightarrow> ((Edit [edit_at v start removed []], caret_after_delete b start_ci end_ci), e)
           | Change \<Rightarrow> ((Edit [edit_at v start removed []], start), e\<lparr>ve_mode := Insert\<rparr>)) }"

definition apply_operator :: "vi_env \<Rightarrow> vi_buffer \<Rightarrow> operator \<Rightarrow> motion \<Rightarrow> vi_engine \<Rightarrow> vi_step" where
  "apply_operator v b op m e =
     (case m of
        Lines first last_line \<Rightarrow> apply_linewise v b op first last_line e
      | Chars start stop inclusive \<Rightarrow>
          let stop = (if inclusive then min (stop + 1) (nchars b) else stop);
              stop = (if \<not> inclusive \<and> start < stop
                      then (case promote_exclusive b start stop of Some new_end \<Rightarrow> new_end | None \<Rightarrow> stop)
                      else stop)
          in apply_chars v b op start stop e)"

section \<open>Insert and Replace mode\<close>

definition step_left :: "vi_buffer \<Rightarrow> nat \<Rightarrow> nat" where
  "step_left b caret =
     (let ci = ci_of_byte b caret in if line_start b ci < ci then byte_at b (ci - 1) else caret)"

fun step_insert :: "vi_env \<Rightarrow> vi_buffer \<Rightarrow> vi_key \<Rightarrow> nat \<Rightarrow> vi_engine \<Rightarrow> vi_step" where
  "step_insert v b Escape_Key caret e = Some ((No_Action, step_left b caret), e\<lparr>ve_mode := Normal\<rparr>)"
| "step_insert v b (Char_Key c) caret e =
     Some ((Edit [insert_at v caret (encode_utf8 c)], caret + len_utf8 c), e)"
| "step_insert v b Enter_Key caret e = Some ((Edit [insert_at v caret [0x0a]], caret + 1), e)"
| "step_insert v b Backspace_Key caret e =
     (if caret = 0 then still caret e
      else do {
        let ci = ci_of_byte b caret;
        prior \<leftarrow> checked_sub ci 1;
        removed \<leftarrow> buf_slice b prior ci;
        Some ((Edit [edit_at v (byte_at b prior) removed []], byte_at b prior), e) })"
| "step_insert v b (Ctrl_Key _) caret e = still caret e"

fun step_replace :: "vi_env \<Rightarrow> vi_buffer \<Rightarrow> vi_key \<Rightarrow> nat \<Rightarrow> vi_engine \<Rightarrow> vi_step" where
  "step_replace v b Escape_Key caret e = Some ((No_Action, step_left b caret), e\<lparr>ve_mode := Normal\<rparr>)"
| "step_replace v b (Char_Key c) caret e =
     (let ci = ci_of_byte b caret
      in if ci < line_end b ci then do {
           removed \<leftarrow> buf_slice b ci (ci + 1);
           Some ((Edit [edit_at v caret removed (encode_utf8 c)], caret + len_utf8 c), e) }
         else Some ((Edit [insert_at v caret (encode_utf8 c)], caret + len_utf8 c), e))"
| "step_replace v b Enter_Key caret e = Some ((Edit [insert_at v caret [0x0a]], caret + 1), e)"
| "step_replace v b Backspace_Key caret e =
     (if caret = 0 then still caret e
      else do { prior \<leftarrow> checked_sub (ci_of_byte b caret) 1; still (byte_at b prior) e })"
| "step_replace v b (Ctrl_Key _) caret e = still caret e"

section \<open>Normal mode\<close>

definition apply_replace_char :: "vi_env \<Rightarrow> vi_buffer \<Rightarrow> vi_key \<Rightarrow> nat \<Rightarrow> vi_engine \<Rightarrow> vi_step" where
  "apply_replace_char v b key caret e =
     (let count = or_one (ve_count e); e = e\<lparr>ve_stage := Ready, ve_count := None\<rparr>;
          replace_with = (\<lambda>c. do {
            let ci = ci_of_byte b caret;
            sum \<leftarrow> checked_add ci count;
            if line_end b ci < sum then refuse caret ''Cannot replace past end of line'' e
            else do {
              removed \<leftarrow> buf_slice b ci sum;
              stop \<leftarrow> checked_sub sum 1;
              Some ((Edit [edit_at v caret removed (concat (replicate count (encode_utf8 c)))], byte_at b stop), e) } })
      in case key of
           Char_Key c \<Rightarrow> replace_with c
         | Enter_Key \<Rightarrow> replace_with NL
         | Escape_Key \<Rightarrow> still caret e
         | _ \<Rightarrow> refuse caret ''Unsupported replacement'' e)"

definition after_g :: "vi_env \<Rightarrow> vi_buffer \<Rightarrow> operator option \<Rightarrow> vi_key \<Rightarrow> nat \<Rightarrow> vi_engine \<Rightarrow> vi_step" where
  "after_g v b op key caret e =
     (let target_line = (case ve_count e of None \<Rightarrow> 0 | Some n \<Rightarrow> n - 1);
          e = e\<lparr>ve_count := None, ve_stage := Ready\<rparr>
      in if key = Char_Key 0x67 then
           (case op of
              None \<Rightarrow> still (byte_at b (first_non_blank b (nth_line_start b target_line))) e
            | Some op \<Rightarrow>
                let (first, last_line) = ordered (line_index b (ci_of_byte b caret)) (min target_line (buf_line_count b - 1))
                in apply_linewise v b op first last_line e)
         else refuse caret ''Unsupported g command'' (e\<lparr>ve_operator_count := None\<rparr>))"

definition after_text_object :: "vi_env \<Rightarrow> vi_buffer \<Rightarrow> operator \<Rightarrow> bool \<Rightarrow> vi_key \<Rightarrow> nat \<Rightarrow> vi_engine \<Rightarrow> vi_step" where
  "after_text_object v b op inner key caret e =
     (let e = e\<lparr>ve_stage := Ready, ve_count := None\<rparr>
      in if key = Char_Key 0x77 \<or> key = Char_Key 0x57 then
           (let (start, stop) = word_object v b (ci_of_byte b caret) inner (key = Char_Key 0x57)
            in apply_operator v b op (Chars start stop False) e)
         else refuse caret ''Unsupported text object'' e)"

fun doubled :: "operator \<Rightarrow> scalar \<Rightarrow> bool" where
  "doubled Delete c \<longleftrightarrow> c = 0x64"
| "doubled Change c \<longleftrightarrow> c = 0x63"
| "doubled Yank c \<longleftrightarrow> c = 0x79"

definition operate :: "vi_env \<Rightarrow> vi_buffer \<Rightarrow> operator \<Rightarrow> scalar \<Rightarrow> nat \<Rightarrow> vi_engine \<Rightarrow> vi_step" where
  "operate v b op c caret e = do {
     effective \<leftarrow> (if ve_operator_count e = None \<and> ve_count e = None then Some None
                  else map_option Some (checked_mul (or_one (ve_operator_count e)) (or_one (ve_count e))));
     let e = e\<lparr>ve_operator_count := None, ve_count := None\<rparr>;
     let count = or_one effective;
     if doubled op c then do {
       let e = e\<lparr>ve_stage := Ready\<rparr>;
       let here = line_index b (ci_of_byte b caret);
       sum \<leftarrow> checked_add here count;
       last_line \<leftarrow> checked_sub sum 1;
       apply_linewise v b op here (min last_line (buf_line_count b - 1)) e }
     else if c = 0x69 \<or> c = 0x61
     then Some ((No_Action, caret), e\<lparr>ve_stage := AfterTextObject op (c = 0x69), ve_count := Some count\<rparr>)
     else if c = 0x67 then Some ((No_Action, caret), e\<lparr>ve_stage := AfterG (Some op), ve_count := effective\<rparr>)
     else do {
       let e = e\<lparr>ve_stage := Ready\<rparr>;
       m \<leftarrow> resolve_motion v b caret c effective (Some op);
       case m of
         Some m \<Rightarrow> apply_operator v b op m e
       | None \<Rightarrow> refuse_unsupported caret e } }"

definition after_operator :: "vi_env \<Rightarrow> vi_buffer \<Rightarrow> operator \<Rightarrow> vi_key \<Rightarrow> nat \<Rightarrow> vi_engine \<Rightarrow> vi_step" where
  "after_operator v b op key caret e =
     (case key of
        Char_Key c \<Rightarrow> do {
          (digit, e) \<leftarrow> consume_count_digit c e;
          if digit then still caret e else operate v b op c caret e }
      | Escape_Key \<Rightarrow> still caret (reset_pending e)
      | _ \<Rightarrow> refuse caret ''Incomplete operator'' (reset_pending e))"

definition motion_keys :: "scalar list" where
  "motion_keys = map of_char ''hlwWbBeE0^$jkG''"

text \<open>A pure motion, in Normal and Visual mode.\<close>

definition cursor_motion :: "vi_env \<Rightarrow> vi_buffer \<Rightarrow> scalar \<Rightarrow> nat option \<Rightarrow> nat \<Rightarrow> vi_engine \<Rightarrow> vi_step" where
  "cursor_motion v b c count caret e = do {
     m \<leftarrow> resolve_motion v b caret c count None;
     case m of
       Some m \<Rightarrow> still (move_cursor b caret m) e
     | None \<Rightarrow> refuse_unsupported caret e }"

definition begin_operator :: "operator \<Rightarrow> nat option \<Rightarrow> nat \<Rightarrow> vi_engine \<Rightarrow> vi_step" where
  "begin_operator op count caret e =
     still caret (e\<lparr>ve_operator_count := count, ve_stage := AfterOperator op\<rparr>)"

definition search_key :: "scalar \<Rightarrow> search_intent option" where
  "search_key c =
     (if c = 0x2f then Some PromptForward else if c = 0x3f then Some PromptBackward
      else if c = 0x6e then Some Next else if c = 0x4e then Some Previous
      else if c = 0x2a then Some WordForward else if c = 0x23 then Some WordBackward else None)"

definition refused_key :: "scalar \<Rightarrow> string option" where
  "refused_key c =
     (if c = 0x22 then Some ''Named registers are not supported''
      else if c = 0x6d \<or> c = 0x60 \<or> c = 0x27 then Some ''Marks are not supported''
      else if c = 0x71 \<or> c = 0x40 then Some ''Macros are not supported'' else None)"

definition normal_command :: "vi_env \<Rightarrow> vi_buffer \<Rightarrow> scalar \<Rightarrow> nat option \<Rightarrow> nat \<Rightarrow> vi_engine \<Rightarrow> vi_step" where
  "normal_command v b c count caret e =
     (let ci = ci_of_byte b caret
      in if c = 0x69 then enter_insert caret e
         else if c = 0x49 then enter_insert (byte_at b (first_non_blank b (line_start b ci))) e
         else if c = 0x61 then enter_insert (byte_at b (min (ci + 1) (line_end b ci))) e
         else if c = 0x41 then enter_insert (byte_at b (line_end b ci)) e
         else if c = 0x6f then vi_open_line v b caret True e
         else if c = 0x4f then vi_open_line v b caret False e
         else if c = 0x52 then still caret (e\<lparr>ve_mode := Replace_Mode\<rparr>)
         else if c = 0x76 then still caret (e\<lparr>ve_mode := Visual, ve_visual_anchor := caret\<rparr>)
         else if c = 0x56 then still caret (e\<lparr>ve_mode := VisualLine, ve_visual_anchor := caret\<rparr>)
         else if c = 0x64 then begin_operator Delete count caret e
         else if c = 0x63 then begin_operator Change count caret e
         else if c = 0x79 then begin_operator Yank count caret e
         else if c = 0x67 then still caret (e\<lparr>ve_count := count, ve_stage := AfterG None\<rparr>)
         else if c = 0x78 then delete_chars_forward v b caret (or_one count) e
         else if c = 0x58 then delete_chars_back v b caret (or_one count) e
         else if c = 0x44 then delete_to_line_end v b caret False e
         else if c = 0x43 then delete_to_line_end v b caret True e
         else if c = 0x73 then do {
           ((action, new), e) \<leftarrow> delete_chars_forward v b caret (or_one count) e;
           Some ((action, new), case action of Edit _ \<Rightarrow> e\<lparr>ve_mode := Insert\<rparr> | _ \<Rightarrow> e) }
         else if c = 0x72 then still caret (e\<lparr>ve_count := count, ve_stage := AwaitReplace\<rparr>)
         else if c = 0x4a then join_lines v b caret count e
         else if c = 0x70 then paste v b caret True e
         else if c = 0x50 then paste v b caret False e
         else if c = 0x75 then Some ((Undo_Action, caret), e)
         else case search_key c of
           Some intent \<Rightarrow> Some ((Search intent, caret), e)
         | None \<Rightarrow>
             (case refused_key c of
                Some headline \<Rightarrow> refuse caret headline e
              | None \<Rightarrow>
                  if c \<in> set motion_keys then cursor_motion v b c count caret e
                  else refuse_unsupported caret e))"

definition normal_ready :: "vi_env \<Rightarrow> vi_buffer \<Rightarrow> vi_key \<Rightarrow> nat \<Rightarrow> vi_engine \<Rightarrow> vi_step" where
  "normal_ready v b key caret e =
     (case key of
        Char_Key c \<Rightarrow> do {
          (digit, e) \<leftarrow> consume_count_digit c e;
          if digit then still caret e else normal_command v b c (ve_count e) caret (e\<lparr>ve_count := None\<rparr>) }
      | Escape_Key \<Rightarrow> still caret (reset_pending e)
      | Ctrl_Key c \<Rightarrow>
          if c = 0x72 then Some ((Redo_Action, caret), e)
          else if c = 0x76 then refuse caret ''Blockwise visual is not supported'' e
          else still caret e
      | _ \<Rightarrow> still caret e)"

definition step_normal :: "vi_env \<Rightarrow> vi_buffer \<Rightarrow> vi_key \<Rightarrow> nat \<Rightarrow> vi_engine \<Rightarrow> vi_step" where
  "step_normal v b key caret e =
     (case ve_stage e of
        AwaitReplace \<Rightarrow> apply_replace_char v b key caret e
      | AfterG op \<Rightarrow> after_g v b op key caret e
      | AfterOperator op \<Rightarrow> after_operator v b op key caret e
      | AfterTextObject op inner \<Rightarrow> after_text_object v b op inner key caret e
      | Ready \<Rightarrow> normal_ready v b key caret e)"

section \<open>Visual mode\<close>

definition visual_bounds :: "vi_buffer \<Rightarrow> nat \<Rightarrow> vi_engine \<Rightarrow> nat \<times> nat" where
  "visual_bounds b caret e = ordered (ci_of_byte b (ve_visual_anchor e)) (ci_of_byte b caret)"

definition visual_operate :: "vi_env \<Rightarrow> vi_buffer \<Rightarrow> operator \<Rightarrow> nat \<Rightarrow> vi_engine \<Rightarrow> vi_step" where
  "visual_operate v b op caret e =
     (let (lo, hi) = visual_bounds b caret e;
          linewise = (ve_mode e = VisualLine);
          e = reset_pending (e\<lparr>ve_mode := Normal\<rparr>)
      in if linewise then apply_linewise v b op (line_index b lo) (line_index b hi) e
         else apply_operator v b op (Chars lo (min (hi + 1) (nchars b)) False) e)"

definition visual_replace :: "vi_env \<Rightarrow> vi_buffer \<Rightarrow> vi_key \<Rightarrow> nat \<Rightarrow> vi_engine \<Rightarrow> vi_step" where
  "visual_replace v b key caret e =
     (let e0 = e\<lparr>ve_stage := Ready\<rparr>
      in case key of
           Char_Key c \<Rightarrow> do {
             let (lo, hi) = visual_bounds b caret e0;
             let (start_ci, end_ci) =
               (if ve_mode e0 = VisualLine then (nth_line_start b (line_index b lo), line_end b hi)
                else (lo, min (hi + 1) (nchars b)));
             let inserted = concat (map (\<lambda>ci. if char_at b ci = Some NL then [0x0a] else encode_utf8 c) [start_ci..<end_ci]);
             removed \<leftarrow> buf_slice b start_ci end_ci;
             Some ((Edit [edit_at v (byte_at b start_ci) removed inserted], byte_at b start_ci), e0\<lparr>ve_mode := Normal\<rparr>) }
         | _ \<Rightarrow> refuse caret ''Unsupported replacement'' (e0\<lparr>ve_mode := Normal\<rparr>))"

definition visual_command :: "vi_env \<Rightarrow> vi_buffer \<Rightarrow> scalar \<Rightarrow> nat option \<Rightarrow> nat \<Rightarrow> vi_engine \<Rightarrow> vi_step" where
  "visual_command v b c count caret e =
     (if c = 0x76 then still caret (e\<lparr>ve_mode := Visual\<rparr>)
      else if c = 0x56 then still caret (e\<lparr>ve_mode := VisualLine\<rparr>)
      else if c = 0x69 then still caret (e\<lparr>ve_stage := AfterTextObject Delete True\<rparr>)
      else if c = 0x61 then still caret (e\<lparr>ve_stage := AfterTextObject Delete False\<rparr>)
      else if c = 0x67 then still caret (e\<lparr>ve_count := count, ve_stage := AfterG None\<rparr>)
      else if c = 0x64 \<or> c = 0x78 then visual_operate v b Delete caret e
      else if c = 0x63 \<or> c = 0x73 then visual_operate v b Change caret e
      else if c = 0x79 then visual_operate v b Yank caret e
      else if c = 0x72 then still caret (e\<lparr>ve_stage := AwaitReplace\<rparr>)
      else if c = 0x22 then refuse caret ''Named registers are not supported'' e
      else if c \<in> set motion_keys then cursor_motion v b c count caret e
      else refuse_unsupported caret e)"

definition visual_ready :: "vi_env \<Rightarrow> vi_buffer \<Rightarrow> vi_key \<Rightarrow> nat \<Rightarrow> vi_engine \<Rightarrow> vi_step" where
  "visual_ready v b key caret e =
     (case key of
        Escape_Key \<Rightarrow> still caret (reset_pending (e\<lparr>ve_mode := Normal\<rparr>))
      | Char_Key c \<Rightarrow> do {
          (digit, e) \<leftarrow> consume_count_digit c e;
          if digit then still caret e else visual_command v b c (ve_count e) caret (e\<lparr>ve_count := None\<rparr>) }
      | Ctrl_Key c \<Rightarrow> if c = 0x76 then refuse caret ''Blockwise visual is not supported'' e else still caret e
      | _ \<Rightarrow> still caret e)"

definition step_visual :: "vi_env \<Rightarrow> vi_buffer \<Rightarrow> vi_key \<Rightarrow> nat \<Rightarrow> vi_engine \<Rightarrow> vi_step" where
  "step_visual v b key caret e =
     (case ve_stage e of
        AfterTextObject _ inner \<Rightarrow>
          (let e = e\<lparr>ve_stage := Ready\<rparr>
           in if key = Char_Key 0x77 \<or> key = Char_Key 0x57 then
                (let (start, stop) = word_object v b (ci_of_byte b caret) inner (key = Char_Key 0x57)
                 in still (byte_at b (max (stop - 1) start)) (e\<lparr>ve_visual_anchor := byte_at b start\<rparr>))
              else refuse caret ''Unsupported text object'' e)
      | AwaitReplace \<Rightarrow> visual_replace v b key caret e
      | AfterG _ \<Rightarrow>
          (if key = Char_Key 0x67 then
             (let target_line = (case ve_count e of None \<Rightarrow> 0 | Some n \<Rightarrow> n - 1)
              in still (byte_at b (first_non_blank b (nth_line_start b target_line)))
                   (e\<lparr>ve_stage := Ready, ve_count := None\<rparr>))
           else refuse caret ''Unsupported g command'' (e\<lparr>ve_stage := Ready\<rparr>))
      | _ \<Rightarrow> visual_ready v b key caret e)"

definition vi_step :: "vi_env \<Rightarrow> vi_buffer \<Rightarrow> vi_key \<Rightarrow> nat \<Rightarrow> vi_engine \<Rightarrow> vi_step" where
  "vi_step v b key caret e =
     (case ve_mode e of
        Insert \<Rightarrow> step_insert v b key caret e
      | Replace_Mode \<Rightarrow> step_replace v b key caret e
      | Normal \<Rightarrow> step_normal v b key caret e
      | _ \<Rightarrow> step_visual v b key caret e)"

end
