(* ===== verification/Vi_Keys.thy ===== *)
theory Vi_Keys
  imports Vi_Steps
begin

text \<open>
  One keystroke of the vi engine: the borrowed motions that run over the text without building an index,
  the recording of the keys of a change, the repeat command that replays them in a second engine, and
  \<open>on_key\<close>.
\<close>

section \<open>Borrowed motions\<close>

definition floor_text_boundary :: "bytes \<Rightarrow> nat \<Rightarrow> nat" where
  "floor_text_boundary s caret = floor_char_boundary s (min caret (length s))"

definition line_start_byte :: "bytes \<Rightarrow> nat \<Rightarrow> nat option" where
  "line_start_byte s caret = map_option (extent ((=) 0x0a)) (str_slice s 0 caret)"

definition line_end_byte :: "bytes \<Rightarrow> nat \<Rightarrow> nat option" where
  "line_end_byte s caret =
     map_option (\<lambda>rest. caret + length (takeWhile ((\<noteq>) 0x0a) rest)) (str_slice s caret (length s))"

definition at_line_end :: "bytes \<Rightarrow> nat \<Rightarrow> bool option" where
  "at_line_end s i = map_option (\<lambda>c. c = None \<or> c = Some NL) (str_character s i)"

definition clamp_text_cursor :: "bytes \<Rightarrow> nat \<Rightarrow> nat option" where
  "clamp_text_cursor s caret = do {
     off \<leftarrow> at_line_end s caret;
     if off \<and> 0 < caret then do {
       prior \<leftarrow> str_previous s caret;
       c \<leftarrow> str_character s prior;
       Some (if c \<noteq> Some NL then prior else caret) }
     else Some caret }"

primrec borrowed_left :: "bytes \<Rightarrow> nat \<Rightarrow> nat \<Rightarrow> nat \<Rightarrow> nat option" where
  "borrowed_left s start 0 target = Some target"
| "borrowed_left s start (Suc n) target =
     (if target = start then Some target else str_previous s target \<bind> borrowed_left s start n)"

primrec borrowed_right :: "bytes \<Rightarrow> nat \<Rightarrow> nat \<Rightarrow> nat option" where
  "borrowed_right s 0 target = Some target"
| "borrowed_right s (Suc n) target = do {
     off \<leftarrow> at_line_end s target;
     if off then Some target else str_next s target \<bind> borrowed_right s n }"

primrec borrowed_ends :: "bytes \<Rightarrow> nat \<Rightarrow> nat \<Rightarrow> nat option" where
  "borrowed_ends s 0 stop = Some stop"
| "borrowed_ends s (Suc n) stop =
     (if stop = length s then Some stop else line_end_byte s (stop + 1) \<bind> borrowed_ends s n)"

primrec borrowed_down :: "bytes \<Rightarrow> nat \<Rightarrow> nat \<Rightarrow> nat option" where
  "borrowed_down s 0 start = Some start"
| "borrowed_down s (Suc n) start = do {
     stop \<leftarrow> line_end_byte s start;
     if stop = length s then Some start else borrowed_down s n (stop + 1) }"

primrec borrowed_up :: "bytes \<Rightarrow> nat \<Rightarrow> nat \<Rightarrow> nat option" where
  "borrowed_up s 0 start = Some start"
| "borrowed_up s (Suc n) start =
     (if start = 0 then Some start else line_start_byte s (start - 1) \<bind> borrowed_up s n)"

definition blank_prefix_end :: "bytes \<Rightarrow> nat \<Rightarrow> nat option" where
  "blank_prefix_end s start = map_option (\<lambda>rest. start + leading_blank_bytes rest) (str_slice s start (length s))"

text \<open>The target before it is clamped to the line; the inner option is the absence of a motion.\<close>

definition borrowed_target :: "vi_env \<Rightarrow> bytes \<Rightarrow> nat \<Rightarrow> scalar \<Rightarrow> nat option \<Rightarrow> nat option option" where
  "borrowed_target v s caret key count =
     (let n = or_one count; t = borrowed_text s; some = map_option Some
      in if key = 0x68 then some (do { start \<leftarrow> line_start_byte s caret; borrowed_left s start n caret })
         else if key = 0x6c then some (borrowed_right s n caret)
         else if key = 0x30 then some (line_start_byte s caret)
         else if key = 0x5e then some (do { start \<leftarrow> line_start_byte s caret; blank_prefix_end s start })
         else if key = 0x24 then some (do { stop \<leftarrow> line_end_byte s caret; borrowed_ends s (n - 1) stop })
         else if key = 0x6a \<or> key = 0x6b then some (do {
           start \<leftarrow> line_start_byte s caret;
           prior \<leftarrow> str_slice s start caret;
           target \<leftarrow> (if key = 0x6a then borrowed_down s n start else borrowed_up s n start);
           borrowed_right s (length (str_chars prior)) target })
         else if key = 0x47 then some (do {
           start \<leftarrow> (case count of Some c \<Rightarrow> borrowed_down s (c - 1) 0 | None \<Rightarrow> line_start_byte s (length s));
           blank_prefix_end s start })
         else if key = 0x77 \<or> key = 0x57 then some (word_forward v t (key = 0x57) n caret)
         else if key = 0x62 \<or> key = 0x42 then some (word_back v t (key = 0x42) n caret)
         else if key = 0x65 \<or> key = 0x45 then some (word_end v t (key = 0x45) n caret)
         else Some None)"

definition borrowed_motion :: "vi_env \<Rightarrow> bytes \<Rightarrow> nat \<Rightarrow> scalar \<Rightarrow> nat option \<Rightarrow> nat option option" where
  "borrowed_motion v s caret key count =
     (if isize_max < or_one count then Some None
      else do {
        target \<leftarrow> borrowed_target v s caret key count;
        case target of
          None \<Rightarrow> Some None
        | Some target \<Rightarrow> map_option Some (clamp_text_cursor s target) })"

definition borrowed_normal_motion ::
  "vi_env \<Rightarrow> vi_key \<Rightarrow> bytes \<Rightarrow> nat \<Rightarrow> vi_engine \<Rightarrow> ((vi_action \<times> nat) option \<times> vi_engine) option" where
  "borrowed_normal_motion v key s caret e =
     (case key of
        Char_Key c \<Rightarrow>
          if ve_mode e \<noteq> Normal \<or> ve_stage e \<noteq> Ready then Some (None, e)
          else do {
            (digit, e) \<leftarrow> consume_count_digit c e;
            if digit then Some (Some (No_Action, caret), e)
            else do {
              target \<leftarrow> borrowed_motion v s caret c (ve_count e);
              Some (case target of
                      None \<Rightarrow> (None, e)
                    | Some target \<Rightarrow> (Some (No_Action, target), e\<lparr>ve_count := None\<rparr>)) } }
      | _ \<Rightarrow> Some (None, e))"

section \<open>Recording\<close>

definition record_key :: "vi_key \<Rightarrow> vi_engine \<Rightarrow> vi_engine" where
  "record_key key e =
     (if \<not> ve_replaying e \<and> ve_recording_state e = Recording then
        if length (ve_record e) = MAX_VI_RECORDING_KEYS then e\<lparr>ve_record := [], ve_recording_state := OverLimit\<rparr>
        else e\<lparr>ve_record := ve_record e @ [key]\<rparr>
      else e)"

definition clear_recording :: "vi_engine \<Rightarrow> vi_engine" where
  "clear_recording e = e\<lparr>ve_record := [], ve_recording_state := Recording, ve_change_in_progress := False\<rparr>"

definition is_edit :: "vi_action \<Rightarrow> bool" where
  "is_edit a = (case a of Edit _ \<Rightarrow> True | _ \<Rightarrow> False)"

definition update_recording :: "vi_action \<Rightarrow> vi_engine \<Rightarrow> bool \<times> vi_engine" where
  "update_recording action e =
     (let e = (if is_edit action then e\<lparr>ve_change_in_progress := True\<rparr> else e);
          warn = (ve_change_in_progress e \<and> ve_recording_state e = OverLimit);
          e = (if warn then e\<lparr>ve_recording_state := OverLimitNotified, ve_last_change := Change_OverLimit\<rparr> else e)
      in if \<not> (ve_mode e = Normal \<and> \<not> vi_is_pending e) then (warn, e)
         else
           let e = (if ve_change_in_progress e
                    then e\<lparr>ve_last_change := (if ve_recording_state e = Recording then Recorded (ve_record e) else Change_OverLimit)\<rparr>
                    else e)
           in (warn, clear_recording e))"

definition REPEAT_UNAVAILABLE :: string where
  "REPEAT_UNAVAILABLE = ''Repeat unavailable''"

section \<open>Keystrokes\<close>

text \<open>
  What \<open>on_key\<close> does after the repeat, undo and redo keys have been taken out: the whole of it for an
  engine that replays.
\<close>

definition key_step :: "vi_env \<Rightarrow> vi_key \<Rightarrow> bytes \<Rightarrow> nat \<Rightarrow> vi_engine \<Rightarrow> (vi_response \<times> vi_engine) option" where
  "key_step v key s caret e = do {
     let e = record_key key e;
     let caret = floor_text_boundary s caret;
     (moved, e) \<leftarrow> borrowed_normal_motion v key s caret e;
     ((action, new_caret), e) \<leftarrow>
       (case moved of
          Some response \<Rightarrow> Some (response, e)
        | None \<Rightarrow> vi_step v (buffer_of s) key caret e);
     let (warn, e) = (if ve_replaying e then (False, e) else update_recording action e);
     Some ((respond e action new_caret)\<lparr>vr_warning := (if warn then Some REPEAT_UNAVAILABLE else None)\<rparr>, e) }"

definition single_edit_diff :: "vi_env \<Rightarrow> bytes \<Rightarrow> bytes \<Rightarrow> text_edit option option" where
  "single_edit_diff v old new =
     (if old = new then Some None
      else do {
        let run = (\<lambda>l r. sum_list (map (\<lambda>(c, _). len_utf8 c) (takeWhile (\<lambda>(left, right). left = right) (zip l r))));
        let start_byte = run (str_chars old) (str_chars new);
        old_rest \<leftarrow> str_slice old start_byte (length old);
        new_rest \<leftarrow> str_slice new start_byte (length new);
        let suffix = run (rev (str_chars old_rest)) (rev (str_chars new_rest));
        old_end \<leftarrow> checked_sub (length old) suffix;
        new_end \<leftarrow> checked_sub (length new) suffix;
        removed \<leftarrow> str_slice old start_byte old_end;
        inserted \<leftarrow> str_slice new start_byte new_end;
        Some (Some (edit_at v start_byte removed inserted)) })"

primrec replay_keys :: "vi_env \<Rightarrow> vi_key list \<Rightarrow> bytes \<Rightarrow> nat \<Rightarrow> vi_engine \<Rightarrow> (bytes \<times> nat \<times> vi_engine) option" where
  "replay_keys v [] current caret e = Some (current, caret, e)"
| "replay_keys v (key # keys) current caret e = do {
     (response, e) \<leftarrow> key_step v key current caret e;
     current \<leftarrow> (case vr_action response of
                   Edit edits \<Rightarrow> rewrite_ordered_edits current edits Forward
                 | _ \<Rightarrow> Some current);
     replay_keys v keys current (vr_caret response) e }"

definition repeat_last_change :: "vi_env \<Rightarrow> bytes \<Rightarrow> nat \<Rightarrow> vi_engine \<Rightarrow> (vi_response \<times> vi_engine) option" where
  "repeat_last_change v s caret e =
     (case ve_last_change e of
        No_Change \<Rightarrow> Some (respond e No_Action caret, e)
      | Change_OverLimit \<Rightarrow>
          (let e = clear_recording (reset_pending e) in Some (respond e (Vi_Refused REPEAT_UNAVAILABLE) caret, e))
      | Recorded keys \<Rightarrow> do {
          let sub = vi_new\<lparr>ve_register := ve_register e, ve_replaying := True\<rparr>;
          (current, caret, sub) \<leftarrow> replay_keys v keys s caret sub;
          let e = e\<lparr>ve_register := ve_register sub\<rparr>;
          edit \<leftarrow> single_edit_diff v s current;
          Some (respond e (case edit of Some edit \<Rightarrow> Edit [edit] | None \<Rightarrow> No_Action) caret, e) })"

definition on_key :: "vi_env \<Rightarrow> vi_key \<Rightarrow> bytes \<Rightarrow> nat \<Rightarrow> vi_engine \<Rightarrow> (vi_response \<times> vi_engine) option" where
  "on_key v key s caret e =
     (if \<not> ve_replaying e \<and> ve_mode e = Normal \<and> ve_stage e = Ready \<and> key = Char_Key 0x2e
      then repeat_last_change v s caret e
      else if \<not> ve_replaying e \<and> ve_mode e = Normal \<and> ve_stage e = Ready \<and> key = Char_Key 0x75 \<and> ve_count e = None
      then (let e = reset_pending e in Some (respond e Undo_Action caret, e))
      else if \<not> ve_replaying e \<and> ve_mode e = Normal \<and> ve_stage e = Ready \<and> key = Ctrl_Key 0x72
      then (let e = reset_pending e in Some (respond e Redo_Action caret, e))
      else key_step v key s caret e)"

end
