(* ===== verification/Find_Search.thy ===== *)
theory Find_Search
  imports Vi_Buffer
begin

text \<open>
  The shared regex search of \<open>festerm-document/src/search.rs\<close>: the translation of the vi case switches in
  a pattern, the bounded list of matches, and the walk from match to match.  The \<open>regex\<close> crate is a
  parameter.  Errors are identified by their headlines.
\<close>

section \<open>The regex engine\<close>

text \<open>
  What the sources read of a compiled \<open>Regex\<close>: the matches of \<open>find_iter\<close>, and the groups of the matches of
  \<open>captures_iter\<close> (by number and by name).  \<open>find\<close> and \<open>captures\<close> return the first of them.
  \<open>regex_build\<close> is \<open>RegexBuilder::build\<close> with the limits of the source, for a pattern and a case mode; a
  failure is the printed error.  \<open>regex_escape\<close> is \<open>regex::escape\<close>.
\<close>

record match_range =
  mr_start :: nat
  mr_end :: nat

record captures =
  cp_get :: "nat \<Rightarrow> match_range option"
  cp_name :: "str \<Rightarrow> match_range option"

record regex =
  find_iter :: "bytes \<Rightarrow> match_range list"
  captures_iter :: "bytes \<Rightarrow> captures list"

record search_env =
  regex_build :: "str \<Rightarrow> bool \<Rightarrow> str + regex"
  regex_escape :: "str \<Rightarrow> str"
  alphanumeric :: "scalar \<Rightarrow> bool"

definition first_of :: "'a list \<Rightarrow> 'a option" where
  "first_of xs = (case xs of [] \<Rightarrow> None | x # _ \<Rightarrow> Some x)"

definition mr_is_empty :: "match_range \<Rightarrow> bool" where
  "mr_is_empty m \<longleftrightarrow> mr_start m = mr_end m"

section \<open>Results and the walk over them\<close>

record search_outcome =
  so_matches :: "match_range list"
  so_truncated :: bool

definition valid_match :: "bytes \<Rightarrow> match_range \<Rightarrow> bool" where
  "valid_match s m \<longleftrightarrow> mr_start m \<le> mr_end m \<and> mr_end m \<le> length s \<and> is_char_boundary s (mr_start m) \<and> is_char_boundary s (mr_end m)"

definition valid_matches :: "search_outcome \<Rightarrow> bytes \<Rightarrow> match_range list" where
  "valid_matches out s = filter (valid_match s) (so_matches out)"

definition next_scalar_boundary :: "bytes \<Rightarrow> nat \<Rightarrow> nat option" where
  "next_scalar_boundary s i =
     (if length s \<le> i then Some (length s + 1)
      else map_option (\<lambda>c. case c of None \<Rightarrow> length s + 1 | Some c \<Rightarrow> i + len_utf8 c) (str_character s i))"

definition previous_scalar_boundary :: "bytes \<Rightarrow> nat \<Rightarrow> nat option" where
  "previous_scalar_boundary s i = (if i = 0 then Some 0 else str_previous s i)"

definition or_else :: "'a option \<Rightarrow> 'a option \<Rightarrow> 'a option" where
  "or_else a b = (case a of None \<Rightarrow> b | Some x \<Rightarrow> Some x)"

definition outcome_next :: "search_outcome \<Rightarrow> bytes \<Rightarrow> nat \<Rightarrow> match_range option option" where
  "outcome_next out s caret =
     (let caret = min caret (length s); ms = valid_matches out s in
      if \<not> is_char_boundary s caret then Some None
      else
        let current = find (\<lambda>m. mr_start m = caret) ms in do {
          threshold \<leftarrow> (case current of
              Some m \<Rightarrow> if mr_is_empty m then next_scalar_boundary s caret else Some (caret + 1)
            | None \<Rightarrow> Some (caret + 1));
          Some (or_else (find (\<lambda>m. threshold \<le> mr_start m) ms) (find (\<lambda>m. Some m \<noteq> current) ms)) })"

definition outcome_previous :: "search_outcome \<Rightarrow> bytes \<Rightarrow> nat \<Rightarrow> match_range option option" where
  "outcome_previous out s caret =
     (let caret = min caret (length s); ms = valid_matches out s in
      if \<not> is_char_boundary s caret then Some None
      else
        let current = find (\<lambda>m. mr_start m = caret) ms in do {
          candidate \<leftarrow>
            (if (case current of Some m \<Rightarrow> mr_is_empty m | None \<Rightarrow> False)
             then if 0 < caret
                  then map_option (\<lambda>threshold. find (\<lambda>m. mr_start m \<le> threshold) (rev ms)) (previous_scalar_boundary s caret)
                  else Some None
             else Some (find (\<lambda>m. mr_start m < caret) (rev ms)));
          Some (or_else candidate (find (\<lambda>m. Some m \<noteq> current) (rev ms))) })"

definition caret_after_match :: "bytes \<Rightarrow> match_range \<Rightarrow> nat" where
  "caret_after_match s m = min (mr_start m) (length s)"

section \<open>Searching\<close>

definition find_all :: "regex \<Rightarrow> bytes \<Rightarrow> nat \<Rightarrow> search_outcome" where
  "find_all r s limit =
     (if limit = 0 then \<lparr>so_matches = [], so_truncated = (first_of (find_iter r s) \<noteq> None)\<rparr>
      else \<lparr>so_matches = take limit (find_iter r s), so_truncated = (drop limit (find_iter r s) \<noteq> [])\<rparr>)"

definition search_next :: "regex \<Rightarrow> bytes \<Rightarrow> nat \<Rightarrow> nat \<Rightarrow> match_range option option" where
  "search_next r s caret limit = outcome_next (find_all r s limit) s caret"

definition search_previous :: "regex \<Rightarrow> bytes \<Rightarrow> nat \<Rightarrow> nat \<Rightarrow> match_range option option" where
  "search_previous r s caret limit = outcome_previous (find_all r s limit) s caret"

section \<open>Translation of patterns\<close>

datatype search_error = Backreference | Named_Backreference | Look_Around | Case_Switch_Position | Invalid_Regex

text \<open>The rest of a POSIX class, up to its \<open>:]\<close>, copied to the class and cut off the input.\<close>

fun copy_posix_class :: "scalar option \<Rightarrow> str \<Rightarrow> str \<Rightarrow> str \<times> str" where
  "copy_posix_class previous [] cls = (cls, [])"
| "copy_posix_class previous (ch # rest) cls =
     (if previous = Some 0x3a \<and> ch = 0x5d then (cls @ [ch], rest)
      else copy_posix_class (Some ch) rest (cls @ [ch]))"

lemma copy_posix_length: "length (snd (copy_posix_class previous cs cls)) \<le> length cs"
  by (induction previous cs cls rule: copy_posix_class.induct) auto

lemma copy_posix_shorter: "(a, b) = copy_posix_class previous cs cls \<Longrightarrow> length b \<le> length cs"
  using copy_posix_length [of previous cs cls] by (metis snd_conv)

text \<open>The stack of open classes holds for each whether a right bracket would still be literal in it.\<close>

definition mark_class_item :: "bool list \<Rightarrow> bool list" where
  "mark_class_item states = (case states of [] \<Rightarrow> [] | _ # outer \<Rightarrow> False # outer)"

definition literal_bracket :: "bool list \<Rightarrow> bool" where
  "literal_bracket states = (case states of [] \<Rightarrow> False | b # _ \<Rightarrow> b)"

function class_loop :: "str \<Rightarrow> str \<Rightarrow> str option \<Rightarrow> bool list \<Rightarrow> str \<times> str" where
  "class_loop cs cls switch states =
     (case cs of
        [] \<Rightarrow> (cls, [])
      | ch # rest \<Rightarrow>
          if ch = 0x5c then
            (case rest of
               [] \<Rightarrow> (cls @ [0x5c], [])
             | next # rest' \<Rightarrow>
                 if next = 0x5c then class_loop rest' (cls @ [0x5c, 0x5c]) switch (mark_class_item states)
                 else if next = 0x63 then class_loop rest' cls (Some [0x28, 0x3f, 0x69, 0x29]) states
                 else if next = 0x43 then class_loop rest' cls (Some [0x28, 0x3f, 0x2d, 0x69, 0x29]) states
                 else class_loop rest' (cls @ [0x5c, next]) switch (mark_class_item states))
          else if ch = 0x5b \<and> first_of rest = Some 0x3a then
            (case copy_posix_class None (tl rest) (cls @ [0x5b, 0x3a]) of
               (cls, rest') \<Rightarrow> class_loop rest' cls switch (mark_class_item states))
          else if ch = 0x5b then class_loop rest (cls @ [0x5b]) switch (True # mark_class_item states)
          else if ch = 0x5e \<and> literal_bracket states then class_loop rest (cls @ [0x5e]) switch states
          else if ch = 0x5d \<and> literal_bracket states then class_loop rest (cls @ [0x5d]) switch (mark_class_item states)
          else if ch = 0x5d then
            (if tl states = []
             then ((case switch of Some sw \<Rightarrow> sw @ cls @ [0x5d] | None \<Rightarrow> cls @ [0x5d]), rest)
             else class_loop rest (cls @ [0x5d]) switch (mark_class_item (tl states)))
          else class_loop rest (cls @ [ch]) switch (mark_class_item states))"
  by pat_completeness auto

termination
  by (relation "measure (\<lambda>(cs, _). length cs)") (auto simp: first_of_def split: list.splits dest!: copy_posix_shorter)

declare class_loop.simps [simp del]

lemma class_loop_length: "length (snd (class_loop cs cls switch states)) \<le> length cs"
proof (induction cs cls switch states rule: class_loop.induct)
  case (1 cs cls switch states)
  show ?case
  proof (cases cs)
    case Nil
    then show ?thesis by (simp add: class_loop.simps)
  next
    case (Cons ch rest)
    note IH = 1 [OF Cons]
    show ?thesis
    proof (cases "ch = 0x5c")
      case True
      then show ?thesis using IH(1-4) by (subst class_loop.simps) (auto simp: Cons le_SucI split: list.split)
    next
      case False
      note IH = IH(5-) [OF False]
      show ?thesis
      proof (cases "ch = 0x5b \<and> first_of rest = Some 0x3a")
        case True
        then show ?thesis using IH(1) [OF True surjective_pairing [symmetric]]
          by (subst class_loop.simps) (fastforce simp: Cons False split: prod.split dest: copy_posix_shorter [OF sym])
      next
        case posix: False
        show ?thesis using IH(2-) [OF posix] posix
          by (subst class_loop.simps) (auto simp: Cons False intro: le_SucI)
      qed
    qed
  qed
qed

lemma class_loop_shorter: "(a, b) = class_loop cs cls switch states \<Longrightarrow> length b \<le> length cs"
  using class_loop_length [of cs cls switch states] by (metis snd_conv)

function translate :: "str \<Rightarrow> str \<Rightarrow> search_error + str" where
  "translate cs out =
     (case cs of
        [] \<Rightarrow> Inr out
      | ch # rest \<Rightarrow>
          if ch = 0x5c then
            (case rest of
               [] \<Rightarrow> Inr (out @ [0x5c])
             | next # rest' \<Rightarrow>
                 if next = 0x5c then translate rest' (out @ [0x5c, 0x5c])
                 else if next = 0x63 then translate rest' (out @ [0x28, 0x3f, 0x69, 0x29])
                 else if next = 0x43 then translate rest' (out @ [0x28, 0x3f, 0x2d, 0x69, 0x29])
                 else if 0x31 \<le> next \<and> next \<le> 0x39 then Inl Backreference
                 else if next = 0x6b then Inl Named_Backreference
                 else translate rest' (out @ [0x5c, next]))
          else if ch = 0x5b then
            (case class_loop rest [0x5b] None [True] of (cls, rest') \<Rightarrow> translate rest' (out @ cls))
          else if ch = 0x28 \<and> first_of rest = Some 0x3f then
            (let rest' = tl rest in
             if first_of rest' = Some 0x3d \<or> first_of rest' = Some 0x21 then Inl Look_Around
             else if first_of rest' = Some 0x3c then
               if first_of (tl rest') = Some 0x3d \<or> first_of (tl rest') = Some 0x21 then Inl Look_Around
               else translate (tl rest') (out @ [0x28, 0x3f, 0x3c])
             else translate rest' (out @ [0x28, 0x3f]))
          else translate rest (out @ [ch]))"
  by pat_completeness auto

termination
  by (relation "measure (\<lambda>(cs, _). length cs)") (auto simp: first_of_def split: list.splits dest!: class_loop_shorter)

declare translate.simps [simp del]

definition analyze_pattern :: "str \<Rightarrow> search_error + str" where
  "analyze_pattern pattern = translate pattern []"

text \<open>Whether the text \<open>q\<close> occurs in \<open>s\<close>, \<open>str::contains\<close>.\<close>

primrec contains_text :: "str \<Rightarrow> str \<Rightarrow> bool" where
  "contains_text q [] \<longleftrightarrow> q = []"
| "contains_text q (c # cs) \<longleftrightarrow> take (length q) (c # cs) = q \<or> contains_text q cs"

definition unrecognized_flag :: str where
  "unrecognized_flag = map of_char ''unrecognized flag''"

definition classify_regex_error :: "str \<Rightarrow> str \<Rightarrow> str \<Rightarrow> search_error" where
  "classify_regex_error original translated error =
     (if original \<noteq> translated \<and> contains_text unrecognized_flag error then Case_Switch_Position else Invalid_Regex)"

definition compile_with_case :: "search_env \<Rightarrow> str \<Rightarrow> bool \<Rightarrow> search_error + regex" where
  "compile_with_case v pattern case_insensitive =
     (case analyze_pattern pattern of
        Inl x \<Rightarrow> Inl x
      | Inr translated \<Rightarrow>
          (case regex_build v translated case_insensitive of
             Inl error \<Rightarrow> Inl (classify_regex_error pattern translated error)
           | Inr r \<Rightarrow> Inr r))"

definition compile :: "search_env \<Rightarrow> str \<Rightarrow> search_error + regex" where
  "compile v pattern = compile_with_case v pattern False"

definition word_char :: "search_env \<Rightarrow> scalar \<Rightarrow> bool" where
  "word_char v c \<longleftrightarrow> alphanumeric v c \<or> c = 0x5f"

definition literal_word_pattern :: "search_env \<Rightarrow> str \<Rightarrow> str" where
  "literal_word_pattern v word =
     (let escaped = regex_escape v word in
      if word \<noteq> [] \<and> word_char v (hd word) \<and> word_char v (last word)
      then [0x5c, 0x62] @ escaped @ [0x5c, 0x62]
      else escaped)"

end
