(* ===== verification/Find_Substitute.thy ===== *)
theory Find_Substitute
  imports Find_Search Hyperlink
begin

text \<open>
  Substitution, \<open>festerm-document/src/substitute.rs\<close>: the parser of \<open>:s\<close> commands, the tokens of a
  replacement, and the plan of replacements over a text, which becomes the edits of one transaction.  Errors
  are identified by their headlines; \<open>None\<close> is a panic.
\<close>

section \<open>Results\<close>

datatype substitute_error =
    Missing_Delimiter | Unsupported_Range | Missing_Colon | Unterminated_Field | Case_Conversion | Expression
  | Capture_Too_Large | Unterminated_Capture | Unsupported_Flag | Duplicate_Flag | Contradictory_Flags
  | No_Visual_Selection | Outside_Document | Splits_Character | Plan_Too_Large | Plan_Out_Of_Order
  | Plan_Overlaps | Plan_Stale | Search_Failed search_error

type_synonym 'a outcome = "substitute_error + 'a"

definition bind_result :: "'a outcome \<Rightarrow> ('a \<Rightarrow> 'b outcome) \<Rightarrow> 'b outcome" where
  "bind_result m f = (case m of Inl x \<Rightarrow> Inl x | Inr a \<Rightarrow> f a)"

definition bind_partial :: "'a outcome option \<Rightarrow> ('a \<Rightarrow> 'b outcome option) \<Rightarrow> 'b outcome option" where
  "bind_partial m f = (case m of None \<Rightarrow> None | Some (Inl x) \<Rightarrow> Some (Inl x) | Some (Inr a) \<Rightarrow> f a)"

section \<open>Commands\<close>

datatype substitute_range = CurrentLine | WholeDocument | VisualSelection

record substitute_flags =
  sf_global :: bool
  sf_confirm :: bool
  sf_case_insensitive :: bool
  sf_case_sensitive :: bool
  sf_count_only :: bool

definition default_flags :: substitute_flags where
  "default_flags = \<lparr>sf_global = False, sf_confirm = False, sf_case_insensitive = False, sf_case_sensitive = False, sf_count_only = False\<rparr>"

datatype replacement_token = Literal str | WholeMatch | CaptureIndex nat | NamedCapture str

record substitute_command =
  sc_range :: substitute_range
  sc_pattern :: str
  sc_replacement :: str
  sc_flags :: substitute_flags
  sc_tokens :: "replacement_token list"

section \<open>Parsing\<close>

text \<open>The prefixes are \<open>:'<,'>s\<close>, \<open>:%s\<close> and \<open>:s\<close>.\<close>

definition parse_range :: "str \<Rightarrow> (substitute_range \<times> str) outcome" where
  "parse_range command =
     (case strip_prefix [0x3a, 0x27, 0x3c, 0x2c, 0x27, 0x3e, 0x73] command of
        Some rest \<Rightarrow> Inr (VisualSelection, rest)
      | None \<Rightarrow>
          (case strip_prefix [0x3a, 0x25, 0x73] command of
             Some rest \<Rightarrow> Inr (WholeDocument, rest)
           | None \<Rightarrow>
               (case strip_prefix [0x3a, 0x73] command of
                  Some rest \<Rightarrow> Inr (CurrentLine, rest)
                | None \<Rightarrow> Inl (if first_of command = Some 0x3a then Unsupported_Range else Missing_Colon))))"

text \<open>A field up to its \<open>/\<close>; \<open>\/\<close> and \<open>\\\<close> stand for the second character.\<close>

fun take_delimited :: "str \<Rightarrow> str \<Rightarrow> (str \<times> str) outcome" where
  "take_delimited [] field = Inl Unterminated_Field"
| "take_delimited (ch # rest) field =
     (if ch = 0x2f then Inr (field, rest)
      else if ch = 0x5c then
        (case rest of
           escaped # rest' \<Rightarrow>
             if escaped = 0x2f \<or> escaped = 0x5c then take_delimited rest' (field @ [escaped])
             else take_delimited rest (field @ [ch])
         | [] \<Rightarrow> take_delimited rest (field @ [ch]))
      else take_delimited rest (field @ [ch]))"

datatype backslash_pair = OneLiteralBackslash | TwoLiteralBackslashes

definition push_literal :: "replacement_token list \<Rightarrow> str \<Rightarrow> replacement_token list" where
  "push_literal tokens literal =
     (if literal = [] then tokens
      else case rev tokens of
             Literal previous # before \<Rightarrow> rev before @ [Literal (previous @ literal)]
           | _ \<Rightarrow> tokens @ [Literal literal])"

definition capture_number :: "str \<Rightarrow> nat" where
  "capture_number ds = foldl (\<lambda>n d. n * 10 + (d - 0x30)) 0 ds"

text \<open>
  After a backslash, and after a dollar sign: the tokens so far, the literal text not yet pushed, and the input
  that is left.
\<close>

definition parse_backslash ::
  "backslash_pair \<Rightarrow> str \<Rightarrow> replacement_token list \<Rightarrow> str \<Rightarrow> (str \<times> replacement_token list \<times> str) outcome" where
  "parse_backslash mode cs tokens literal =
     (case cs of
        [] \<Rightarrow> Inr ([], tokens, literal @ [0x5c])
      | ch # rest \<Rightarrow>
          if ch = 0x5c then
            Inr (rest, tokens, literal @ (case mode of OneLiteralBackslash \<Rightarrow> [0x5c] | TwoLiteralBackslashes \<Rightarrow> [0x5c, 0x5c]))
          else if 0x31 \<le> ch \<and> ch \<le> 0x39 then Inr (rest, push_literal tokens literal @ [CaptureIndex (ch - 0x30)], [])
          else if ch = 0x26 then Inr (rest, tokens, literal @ [0x26])
          else if ch \<in> {0x75, 0x55, 0x6c, 0x4c, 0x65, 0x45} then Inl Case_Conversion
          else if ch = 0x3d then Inl Expression
          else Inr (rest, tokens, literal @ [0x5c, ch]))"

definition parse_dollar ::
  "str \<Rightarrow> replacement_token list \<Rightarrow> str \<Rightarrow> (str \<times> replacement_token list \<times> str) outcome" where
  "parse_dollar cs tokens literal =
     (case cs of
        [] \<Rightarrow> Inr ([], tokens, literal @ [0x24])
      | ch # rest \<Rightarrow>
          if is_ascii_digit ch then
            let number = capture_number (takeWhile is_ascii_digit cs) in
            if number \<le> usize_max
            then Inr (dropWhile is_ascii_digit cs, push_literal tokens literal @ [CaptureIndex number], [])
            else Inl Capture_Too_Large
          else if ch = 0x7b then
            let name = takeWhile (\<lambda>c. c \<noteq> 0x7d) rest; after = dropWhile (\<lambda>c. c \<noteq> 0x7d) rest in
            if after = [] then Inl Unterminated_Capture
            else Inr (tl after, push_literal tokens literal @ [NamedCapture name], [])
          else Inr (cs, tokens, literal @ [0x24]))"

lemma parse_backslash_shorter: "parse_backslash mode cs tokens literal = Inr (rest, t, l) \<Longrightarrow> length rest \<le> length cs"
  by (auto simp: parse_backslash_def split: list.splits if_splits)

lemma parse_dollar_shorter: "parse_dollar cs tokens literal = Inr (rest, t, l) \<Longrightarrow> length rest \<le> length cs"
  using length_dropWhile_le [of is_ascii_digit cs] length_dropWhile_le [of "\<lambda>c. c \<noteq> 0x7d" "tl cs"]
  by (auto simp: parse_dollar_def Let_def split: list.splits if_splits)

function tokenize_loop :: "backslash_pair \<Rightarrow> str \<Rightarrow> replacement_token list \<Rightarrow> str \<Rightarrow> replacement_token list outcome" where
  "tokenize_loop mode cs tokens literal =
     (case cs of
        [] \<Rightarrow> Inr (push_literal tokens literal)
      | ch # rest \<Rightarrow>
          if ch = 0x5c then
            (case parse_backslash mode rest tokens literal of
               Inl x \<Rightarrow> Inl x
             | Inr (rest', tokens', literal') \<Rightarrow> tokenize_loop mode rest' tokens' literal')
          else if ch = 0x26 then tokenize_loop mode rest (push_literal tokens literal @ [WholeMatch]) []
          else if ch = 0x24 then
            (case parse_dollar rest tokens literal of
               Inl x \<Rightarrow> Inl x
             | Inr (rest', tokens', literal') \<Rightarrow> tokenize_loop mode rest' tokens' literal')
          else tokenize_loop mode rest tokens (literal @ [ch]))"
  by pat_completeness auto

termination
  by (relation "measure (\<lambda>(_, cs, _). length cs)") (auto dest!: parse_backslash_shorter parse_dollar_shorter)

declare tokenize_loop.simps [simp del]

definition tokenize_replacement :: "str \<Rightarrow> backslash_pair \<Rightarrow> replacement_token list outcome" where
  "tokenize_replacement replacement mode = tokenize_loop mode replacement [] []"

text \<open>A replacement up to its \<open>/\<close>: what is displayed, its tokens, and the flags behind it.\<close>

fun take_replacement_delimited :: "str \<Rightarrow> str \<Rightarrow> str \<Rightarrow> (str \<times> replacement_token list \<times> str) outcome" where
  "take_replacement_delimited [] display token_source = Inl Unterminated_Field"
| "take_replacement_delimited (ch # rest) display token_source =
     (if ch = 0x2f then
        bind_result (tokenize_replacement token_source OneLiteralBackslash) (\<lambda>tokens. Inr (display, tokens, rest))
      else if ch = 0x5c then
        (case rest of
           escaped # rest' \<Rightarrow>
             if escaped = 0x2f then take_replacement_delimited rest' (display @ [0x2f]) (token_source @ [0x2f])
             else if escaped = 0x5c then take_replacement_delimited rest' (display @ [0x5c]) (token_source @ [0x5c, 0x5c])
             else take_replacement_delimited rest (display @ [0x5c]) (token_source @ [0x5c])
         | [] \<Rightarrow> take_replacement_delimited rest (display @ [0x5c]) (token_source @ [0x5c]))
      else take_replacement_delimited rest (display @ [ch]) (token_source @ [ch]))"

definition validate_flags :: "substitute_flags \<Rightarrow> substitute_flags outcome" where
  "validate_flags f =
     (if sf_case_insensitive f \<and> sf_case_sensitive f then Inl Contradictory_Flags
      else if sf_confirm f \<and> sf_count_only f then Inl Contradictory_Flags
      else Inr f)"

definition set_flag :: "scalar \<Rightarrow> substitute_flags \<Rightarrow> substitute_flags outcome" where
  "set_flag c f =
     (if c = 0x67 then if sf_global f then Inl Duplicate_Flag else Inr (f\<lparr>sf_global := True\<rparr>)
      else if c = 0x63 then if sf_confirm f then Inl Duplicate_Flag else Inr (f\<lparr>sf_confirm := True\<rparr>)
      else if c = 0x69 then if sf_case_insensitive f then Inl Duplicate_Flag else Inr (f\<lparr>sf_case_insensitive := True\<rparr>)
      else if c = 0x49 then if sf_case_sensitive f then Inl Duplicate_Flag else Inr (f\<lparr>sf_case_sensitive := True\<rparr>)
      else if c = 0x6e then if sf_count_only f then Inl Duplicate_Flag else Inr (f\<lparr>sf_count_only := True\<rparr>)
      else Inl Unsupported_Flag)"

primrec parse_flags_from :: "str \<Rightarrow> substitute_flags \<Rightarrow> substitute_flags outcome" where
  "parse_flags_from [] f = validate_flags f"
| "parse_flags_from (c # cs) f = bind_result (set_flag c f) (parse_flags_from cs)"

definition parse_flags :: "str \<Rightarrow> substitute_flags outcome" where
  "parse_flags cs = parse_flags_from cs default_flags"

definition parse_substitute :: "str \<Rightarrow> substitute_command outcome" where
  "parse_substitute command =
     bind_result (parse_range command) (\<lambda>(addressed, rest).
       case strip_prefix [0x2f] rest of
         None \<Rightarrow> Inl Missing_Delimiter
       | Some rest \<Rightarrow>
           bind_result (take_delimited rest []) (\<lambda>(pattern, rest).
           bind_result (take_replacement_delimited rest [] []) (\<lambda>(replacement, tokens, flags_text).
           bind_result (parse_flags flags_text) (\<lambda>flags.
             Inr \<lparr>sc_range = addressed, sc_pattern = pattern, sc_replacement = replacement, sc_flags = flags, sc_tokens = tokens\<rparr>))))"

definition from_parts :: "str \<Rightarrow> str \<Rightarrow> substitute_range \<Rightarrow> substitute_flags \<Rightarrow> substitute_command outcome" where
  "from_parts pattern replacement addressed flags =
     bind_result (validate_flags flags) (\<lambda>flags.
     bind_result (tokenize_replacement replacement TwoLiteralBackslashes) (\<lambda>tokens.
       Inr \<lparr>sc_range = addressed, sc_pattern = pattern, sc_replacement = replacement, sc_flags = flags, sc_tokens = tokens\<rparr>))"

section \<open>Planning\<close>

text \<open>The ranges of the lines in \<open>start..stop\<close>, without their line feeds.\<close>

function line_ranges_from :: "bytes \<Rightarrow> nat \<Rightarrow> nat \<Rightarrow> (nat \<times> nat) list option" where
  "line_ranges_from s start stop =
     (if start < stop then do {
        piece \<leftarrow> str_slice s start stop;
        case find_sub [0x0a] piece of
          None \<Rightarrow> map_option ((#) (start, stop)) (line_ranges_from s stop stop)
        | Some newline \<Rightarrow> map_option ((#) (start, start + newline)) (line_ranges_from s (start + newline + 1) stop) }
      else Some [])"
  by pat_completeness auto

termination
  by (relation "measure (\<lambda>(_, start, stop). stop - start)") auto

declare line_ranges_from.simps [simp del]

definition line_ranges :: "bytes \<Rightarrow> nat \<Rightarrow> nat \<Rightarrow> (nat \<times> nat) list option" where
  "line_ranges s start stop =
     map_option (\<lambda>ranges. if start = stop then ranges @ [(start, stop)] else ranges) (line_ranges_from s start stop)"

definition validate_text_range :: "bytes \<Rightarrow> nat \<Rightarrow> nat \<Rightarrow> unit outcome" where
  "validate_text_range s start stop =
     (if stop < start \<or> length s < stop then Inl Outside_Document
      else if \<not> is_char_boundary s start \<or> \<not> is_char_boundary s stop then Inl Splits_Character
      else Inr ())"

record substitute_replacement =
  sr_range :: match_range
  sr_removed :: bytes
  sr_replacement :: bytes

record substitute_plan =
  sp_replacements :: "substitute_replacement list"
  sp_total_matches :: nat
  sp_truncated :: bool
  sp_count_only :: bool
  sp_requires_confirmation :: bool

text \<open>The text of a group of a match in the line it was found in.\<close>

definition group_text :: "bytes \<Rightarrow> match_range option \<Rightarrow> bytes" where
  "group_text line m = (case m of None \<Rightarrow> [] | Some m \<Rightarrow> slice (mr_start m) (mr_end m - mr_start m) line)"

primrec token_text :: "bytes \<Rightarrow> captures \<Rightarrow> replacement_token \<Rightarrow> bytes" where
  "token_text line c (Literal literal) = str_bytes literal"
| "token_text line c WholeMatch = group_text line (cp_get c 0)"
| "token_text line c (CaptureIndex index) = group_text line (cp_get c index)"
| "token_text line c (NamedCapture name) = group_text line (cp_name c name)"

primrec expand_replacement ::
  "bytes \<Rightarrow> captures \<Rightarrow> nat \<Rightarrow> replacement_token list \<Rightarrow> nat \<Rightarrow> bytes \<Rightarrow> (bytes \<times> nat) outcome option" where
  "expand_replacement line c limit [] planned expanded = Some (Inr (expanded, planned))"
| "expand_replacement line c limit (t # ts) planned expanded = do {
     grown \<leftarrow> checked_add planned (length (token_text line c t));
     if limit < grown then Some (Inl Plan_Too_Large)
     else expand_replacement line c limit ts grown (expanded @ token_text line c t) }"

text \<open>\<open>ReplacementAccumulator\<close>: the bytes planned and the replacements so far.\<close>

record replacement_accumulator =
  ra_planned_bytes :: nat
  ra_replacements :: "substitute_replacement list"

text \<open>The matched range must lie on boundaries of the text: a debug assertion and the slice that follows.\<close>

definition push_match ::
  "bytes \<Rightarrow> substitute_command \<Rightarrow> nat \<Rightarrow> nat \<Rightarrow> bytes \<Rightarrow> captures \<Rightarrow> replacement_accumulator \<Rightarrow> replacement_accumulator outcome option" where
  "push_match s cmd limit line_from line c acc =
     (case cp_get c 0 of
        None \<Rightarrow> Some (Inr acc)
      | Some found \<Rightarrow>
          if sf_count_only (sc_flags cmd) then Some (Inr acc)
          else
            let start = line_from + mr_start found; stop = line_from + mr_end found in
            if \<not> is_char_boundary s start \<or> \<not> is_char_boundary s stop then None
            else bind_partial (expand_replacement line c limit (sc_tokens cmd) (ra_planned_bytes acc) [])
              (\<lambda>(replacement, planned). do {
                 removed \<leftarrow> str_slice s start stop;
                 Some (Inr (acc\<lparr>ra_planned_bytes := planned,
                   ra_replacements := ra_replacements acc @
                     [\<lparr>sr_range = \<lparr>mr_start = start, mr_end = stop\<rparr>, sr_removed = removed, sr_replacement = replacement\<rparr>]\<rparr>)) }))"

text \<open>The matches of one line; the flag says that the limit was met and planning stops.\<close>

primrec plan_matches ::
  "bytes \<Rightarrow> substitute_command \<Rightarrow> nat \<Rightarrow> nat \<Rightarrow> nat \<Rightarrow> bytes \<Rightarrow> captures list \<Rightarrow> nat \<Rightarrow> replacement_accumulator \<Rightarrow>
    (bool \<times> nat \<times> replacement_accumulator) outcome option" where
  "plan_matches s cmd match_limit byte_limit line_from line [] matched acc = Some (Inr (False, matched, acc))"
| "plan_matches s cmd match_limit byte_limit line_from line (c # cs) matched acc =
     (if matched = match_limit then Some (Inr (True, matched, acc))
      else bind_partial (push_match s cmd byte_limit line_from line c acc)
             (plan_matches s cmd match_limit byte_limit line_from line cs (matched + 1)))"

definition line_matches :: "substitute_command \<Rightarrow> regex \<Rightarrow> bytes \<Rightarrow> captures list" where
  "line_matches cmd r line =
     (if sf_global (sc_flags cmd) then captures_iter r line
      else case first_of (captures_iter r line) of None \<Rightarrow> [] | Some c \<Rightarrow> [c])"

primrec plan_lines ::
  "bytes \<Rightarrow> substitute_command \<Rightarrow> regex \<Rightarrow> nat \<Rightarrow> nat \<Rightarrow> (nat \<times> nat) list \<Rightarrow> nat \<Rightarrow> replacement_accumulator \<Rightarrow>
    (bool \<times> nat \<times> replacement_accumulator) outcome option" where
  "plan_lines s cmd r match_limit byte_limit [] matched acc = Some (Inr (False, matched, acc))"
| "plan_lines s cmd r match_limit byte_limit (l # ls) matched acc = do {
     line \<leftarrow> str_slice s (fst l) (snd l);
     bind_partial (plan_matches s cmd match_limit byte_limit (fst l) line (line_matches cmd r line) matched acc)
       (\<lambda>(truncated, matched, acc).
          if truncated then Some (Inr (True, matched, acc))
          else plan_lines s cmd r match_limit byte_limit ls matched acc) }"

fun validate_replacement_order :: "match_range option \<Rightarrow> substitute_replacement list \<Rightarrow> unit outcome" where
  "validate_replacement_order previous [] = Inr ()"
| "validate_replacement_order previous (r # rs) =
     (let m = sr_range r;
          verdict = (case previous of
             None \<Rightarrow> Inr ()
           | Some p \<Rightarrow>
               if mr_start m < mr_start p then Inl Plan_Out_Of_Order
               else if mr_start m < mr_end p \<or> (mr_start m = mr_start p \<and> mr_end m = mr_end p) then Inl Plan_Overlaps
               else Inr ())
      in bind_result verdict (\<lambda>_. validate_replacement_order (Some m) rs))"

definition target_range ::
  "substitute_command \<Rightarrow> bytes \<Rightarrow> nat \<times> nat \<Rightarrow> (nat \<times> nat) option \<Rightarrow> (nat \<times> nat) outcome" where
  "target_range cmd s current_line visual_selection =
     (case sc_range cmd of
        CurrentLine \<Rightarrow> Inr current_line
      | WholeDocument \<Rightarrow> Inr (0, length s)
      | VisualSelection \<Rightarrow> (case visual_selection of None \<Rightarrow> Inl No_Visual_Selection | Some t \<Rightarrow> Inr t))"

definition plan_with_replacement_byte_limit ::
  "search_env \<Rightarrow> substitute_command \<Rightarrow> bytes \<Rightarrow> nat \<times> nat \<Rightarrow> (nat \<times> nat) option \<Rightarrow> nat \<Rightarrow> nat \<Rightarrow> substitute_plan outcome option" where
  "plan_with_replacement_byte_limit v cmd s current_line visual_selection match_limit byte_limit =
     bind_partial (Some (target_range cmd s current_line visual_selection)) (\<lambda>(start, stop).
     bind_partial (Some (validate_text_range s start stop)) (\<lambda>_.
     bind_partial (Some (map_sum Search_Failed id (compile_with_case v (sc_pattern cmd) (sf_case_insensitive (sc_flags cmd))))) (\<lambda>r. do {
       lines \<leftarrow> line_ranges s start stop;
       bind_partial (plan_lines s cmd r match_limit byte_limit lines 0 \<lparr>ra_planned_bytes = 0, ra_replacements = []\<rparr>)
         (\<lambda>(truncated, matched, acc).
       bind_partial (Some (validate_replacement_order None (ra_replacements acc))) (\<lambda>_.
         Some (Inr \<lparr>sp_replacements = ra_replacements acc, sp_total_matches = matched, sp_truncated = truncated,
           sp_count_only = sf_count_only (sc_flags cmd), sp_requires_confirmation = sf_confirm (sc_flags cmd)\<rparr>))) })))"

definition DEFAULT_REPLACEMENT_BYTE_LIMIT :: nat where
  "DEFAULT_REPLACEMENT_BYTE_LIMIT = 4 * 1024 * 1024"

definition plan ::
  "search_env \<Rightarrow> substitute_command \<Rightarrow> bytes \<Rightarrow> nat \<times> nat \<Rightarrow> (nat \<times> nat) option \<Rightarrow> nat \<Rightarrow> substitute_plan outcome option" where
  "plan v cmd s current_line visual_selection limit =
     plan_with_replacement_byte_limit v cmd s current_line visual_selection limit DEFAULT_REPLACEMENT_BYTE_LIMIT"

section \<open>From a plan to edits\<close>

definition replacement_edit :: "heap_env \<Rightarrow> bytes \<Rightarrow> substitute_replacement \<Rightarrow> text_edit outcome option" where
  "replacement_edit h s r =
     (let m = sr_range r in
      bind_partial (Some (validate_text_range s (mr_start m) (mr_end m))) (\<lambda>_. do {
        current \<leftarrow> str_slice s (mr_start m) (mr_end m);
        Some (if current \<noteq> sr_removed r then Inl Plan_Stale
              else Inr \<lparr>te_start = mr_start m, te_removed = owned h (sr_removed r), te_inserted = owned h (sr_replacement r)\<rparr>) }))"

primrec replacement_edits :: "heap_env \<Rightarrow> bytes \<Rightarrow> substitute_replacement list \<Rightarrow> text_edit list outcome option" where
  "replacement_edits h s [] = Some (Inr [])"
| "replacement_edits h s (r # rs) =
     bind_partial (replacement_edit h s r) (\<lambda>x. bind_partial (replacement_edits h s rs) (\<lambda>xs. Some (Inr (x # xs))))"

definition to_text_edits :: "heap_env \<Rightarrow> substitute_plan \<Rightarrow> bytes \<Rightarrow> text_edit list outcome option" where
  "to_text_edits h p s = replacement_edits h s (sp_replacements p)"

end
