(* ===== verification/Ex_Command.thy ===== *)
theory Ex_Command
  imports Find_Substitute
begin

text \<open>
  The command line of the editor, \<open>app/festerm/src/vi_command.rs\<close>: what a typed line means, what a prefix
  can become, and the command area with its bounded history.  Errors are identified by their headlines.
\<close>

section \<open>Commands\<close>

datatype command_error =
    Empty_Command | Line_Number_Too_Large | Not_Supported | Unexpected_Argument | Needs_Pattern | Unknown_Command
  | Substitution_Failed substitute_error

datatype go_to_line = Line_Number nat | Last_Line

datatype vi_command =
    Write | WriteAs "str option" | WriteQuit | Quit | QuitDiscarding | Refresh bool | Substitute substitute_command
  | GoToLine go_to_line

text \<open>\<open>char::is_whitespace\<close>: the property \<open>White_Space\<close>.\<close>

definition is_whitespace :: "scalar \<Rightarrow> bool" where
  "is_whitespace c \<longleftrightarrow> 0x09 \<le> c \<and> c \<le> 0x0d \<or> c \<in> {0x20, 0x85, 0xa0, 0x1680} \<or> 0x2000 \<le> c \<and> c \<le> 0x200a \<or>
     c \<in> {0x2028, 0x2029, 0x202f, 0x205f, 0x3000}"

definition trim :: "str \<Rightarrow> str" where
  "trim s = rev (dropWhile is_whitespace (rev (dropWhile is_whitespace s)))"

definition starts_with :: "str \<Rightarrow> str \<Rightarrow> bool" where
  "starts_with s p \<longleftrightarrow> take (length p) s = p"

definition is_substitution :: "str \<Rightarrow> bool" where
  "is_substitution line =
     (let rest = (case strip_prefix (lit '''<,'>'') line of
            Some rest \<Rightarrow> rest
          | None \<Rightarrow> (case strip_prefix (lit ''%'') line of Some rest \<Rightarrow> rest | None \<Rightarrow> line))
      in (case strip_prefix (lit ''s'') rest of
            None \<Rightarrow> False
          | Some rest \<Rightarrow> first_of rest = Some 0x2f))"

definition split_name :: "str \<Rightarrow> str \<times> str" where
  "split_name line = (takeWhile (\<lambda>c. \<not> is_whitespace c) line, dropWhile (\<lambda>c. \<not> is_whitespace c) line)"

definition reject_argument :: "str \<Rightarrow> command_error + unit" where
  "reject_argument argument = (if argument = [] then Inr () else Inl Unexpected_Argument)"

definition COMMAND_NAMES :: "str list" where
  "COMMAND_NAMES = map lit [''e'', ''edit'', ''q'', ''quit'', ''saveas'', ''w'', ''wq'', ''write'', ''x'']"

definition parse_named :: "str \<Rightarrow> str \<Rightarrow> command_error + vi_command" where
  "parse_named name argument =
     (if name \<in> {lit ''w'', lit ''write''} then Inr (if argument = [] then Write else WriteAs (Some argument))
      else if name = lit ''saveas'' then Inr (WriteAs (if argument = [] then None else Some argument))
      else if name \<in> {lit ''wq'', lit ''x'', lit ''xit''} then map_sum id (\<lambda>_. WriteQuit) (reject_argument argument)
      else if name \<in> {lit ''q'', lit ''quit''} then map_sum id (\<lambda>_. Quit) (reject_argument argument)
      else if name \<in> {lit ''q!'', lit ''quit!''} then map_sum id (\<lambda>_. QuitDiscarding) (reject_argument argument)
      else if name \<in> {lit ''e'', lit ''edit''} then map_sum id (\<lambda>_. Refresh False) (reject_argument argument)
      else if name \<in> {lit ''e!'', lit ''edit!''} then map_sum id (\<lambda>_. Refresh True) (reject_argument argument)
      else if name \<in> {lit ''set'', lit ''map'', lit ''nmap'', lit ''imap'', lit ''source'', lit ''so''} then Inl Not_Supported
      else if name \<in> {lit ''s'', lit ''%s'', lit '''<,'>s''} then Inl Needs_Pattern
      else Inl Unknown_Command)"

definition parse_line :: "str \<Rightarrow> command_error + vi_command" where
  "parse_line line =
     (let trimmed = trim line in
      if trimmed = [] then Inl Empty_Command
      else if trimmed = lit ''$'' then Inr (GoToLine Last_Line)
      else if list_all is_ascii_digit trimmed then
        let number = capture_number trimmed in
        if number \<le> usize_max then Inr (GoToLine (Line_Number (max number 1))) else Inl Line_Number_Too_Large
      else if is_substitution trimmed then map_sum Substitution_Failed Substitute (parse_substitute (0x3a # trimmed))
      else if starts_with trimmed (lit ''!'') then Inl Not_Supported
      else case split_name trimmed of (name, argument) \<Rightarrow> parse_named name (trim argument))"

definition completions :: "str \<Rightarrow> str list" where
  "completions p =
     (let p = dropWhile (\<lambda>c. c = 0x3a) p in
      if list_ex is_whitespace p then [] else filter (\<lambda>name. starts_with name p) COMMAND_NAMES)"

definition normal_mode_command :: "str \<Rightarrow> vi_command option" where
  "normal_mode_command keys =
     (if keys = [0x5a, 0x5a] then Some WriteQuit else if keys = [0x5a, 0x51] then Some QuitDiscarding else None)"

section \<open>The command area\<close>

datatype command_prompt = Ex | SearchForward | SearchBackward

text \<open>What is shown where the hint was; \<open>'o\<close> is the type of outcomes.\<close>

record 'o command_area =
  ca_prompt :: "command_prompt option"
  ca_input :: str
  ca_history :: "str list"
  ca_recall :: "nat option"
  ca_result :: "'o option"
  ca_focus_pending :: bool
  ca_was_focused :: bool

definition HISTORY_LIMIT :: nat where
  "HISTORY_LIMIT = 50"

definition area_new :: "'o command_area" where
  "area_new = \<lparr>ca_prompt = None, ca_input = [], ca_history = [], ca_recall = None, ca_result = None,
     ca_focus_pending = False, ca_was_focused = False\<rparr>"

definition area_open :: "command_prompt \<Rightarrow> 'o command_area \<Rightarrow> 'o command_area" where
  "area_open p a = a\<lparr>ca_prompt := Some p, ca_input := [], ca_recall := None, ca_result := None, ca_focus_pending := True\<rparr>"

definition area_close :: "'o command_area \<Rightarrow> 'o command_area" where
  "area_close a = a\<lparr>ca_prompt := None, ca_input := [], ca_recall := None, ca_focus_pending := False, ca_was_focused := False\<rparr>"

definition area_report :: "'o \<Rightarrow> 'o command_area \<Rightarrow> 'o command_area" where
  "area_report outcome a = a\<lparr>ca_result := Some outcome\<rparr>"

definition remember :: "str \<Rightarrow> 'o command_area \<Rightarrow> 'o command_area" where
  "remember line a =
     (if trim line = [] then a
      else if ca_history a \<noteq> [] \<and> last (ca_history a) = line then a
      else
        let history = ca_history a @ [line] in
        a\<lparr>ca_history := (if HISTORY_LIMIT < length history then tl history else history)\<rparr>)"

definition area_finish :: "'o \<Rightarrow> 'o command_area \<Rightarrow> 'o command_area" where
  "area_finish outcome a = (remember (ca_input a) (area_close a))\<lparr>ca_result := Some outcome\<rparr>"

definition recall_previous :: "'o command_area \<Rightarrow> (bool \<times> 'o command_area) option" where
  "recall_previous a =
     (if ca_history a = [] then Some (False, a)
      else do {
        let k = (case ca_recall a of None \<Rightarrow> 0 | Some i \<Rightarrow> if i + 1 < length (ca_history a) then i + 1 else i);
        i \<leftarrow> checked_sub (length (ca_history a) - 1) k;
        line \<leftarrow> rd (ca_history a) i;
        Some (True, a\<lparr>ca_recall := Some k, ca_input := line\<rparr>) })"

definition recall_next :: "'o command_area \<Rightarrow> (bool \<times> 'o command_area) option" where
  "recall_next a =
     (case ca_recall a of
        None \<Rightarrow> Some (False, a)
      | Some i \<Rightarrow>
          if i = 0 then Some (True, a\<lparr>ca_recall := None, ca_input := []\<rparr>)
          else do {
            k \<leftarrow> checked_sub (length (ca_history a)) i;
            line \<leftarrow> rd (ca_history a) k;
            Some (True, a\<lparr>ca_recall := Some (i - 1), ca_input := line\<rparr>) })"

definition area_complete :: "'o command_area \<Rightarrow> bool \<times> 'o command_area" where
  "area_complete a =
     (if ca_prompt a \<noteq> Some Ex then (False, a)
      else case completions (ca_input a) of
             [only] \<Rightarrow> if only = ca_input a then (False, a) else (True, a\<lparr>ca_input := only\<rparr>)
           | _ \<Rightarrow> (False, a))"

end
