(* ===== verification/Vi_View.thy ===== *)
theory Vi_View
  imports Vi_Keys Ex_Command
begin

text \<open>
  How a text view of the application feeds keys to its vi engine and carries out the answers on the shared
  document: \<open>feed_vi_key\<close> and \<open>apply_vi_edits\<close> of \<open>app/festerm/src/text_editor.rs\<close>, with the two-key
  commands of \<open>Ex_Command\<close>, and what Find and Replace hold for the view (\<open>FindState\<close>): the query, the last results that
  compiled, and the match the view stands on.  A search is handed back to the caller.
\<close>

section \<open>Find and Replace\<close>

definition MATCH_LIMIT :: nat where
  "MATCH_LIMIT = 2000"

datatype find_error = Find_Search search_error | Find_Substitution substitute_error | Find_Refused edit_refusal

record find_state =
  fi_open :: bool
  fi_replacing :: bool
  fi_query :: str
  fi_replacement :: str
  fi_outcome :: "search_outcome option"
  fi_searched :: "(str \<times> nat) option"
  fi_error :: "find_error option"
  fi_current :: "nat option"
  fi_focus_query :: bool
  fi_pending_selection :: "match_range option"

definition find_default :: find_state where
  "find_default = \<lparr>fi_open = False, fi_replacing = False, fi_query = [], fi_replacement = [], fi_outcome = None, fi_searched = None,
     fi_error = None, fi_current = None, fi_focus_query = False, fi_pending_selection = None\<rparr>"

definition find_open :: "bool \<Rightarrow> find_state \<Rightarrow> find_state" where
  "find_open replacing f = f\<lparr>fi_open := True, fi_replacing := replacing, fi_focus_query := True\<rparr>"

definition find_close :: "find_state \<Rightarrow> find_state" where
  "find_close f = f\<lparr>fi_open := False, fi_outcome := None, fi_searched := None, fi_error := None, fi_current := None\<rparr>"

definition find_refresh :: "search_env \<Rightarrow> bytes \<Rightarrow> nat \<Rightarrow> find_state \<Rightarrow> find_state" where
  "find_refresh v s revision f =
     (if fi_query f = [] then f\<lparr>fi_outcome := None, fi_searched := None, fi_error := None, fi_current := None\<rparr>
      else if fi_searched f = Some (fi_query f, revision) then f
      else case compile v (fi_query f) of
             Inr r \<Rightarrow>
               let outcome = find_all r s MATCH_LIMIT in
               f\<lparr>fi_current := map_option (\<lambda>_. 0) (first_of (so_matches outcome)), fi_outcome := Some outcome, fi_error := None,
                 fi_searched := Some (fi_query f, revision)\<rparr>
           | Inl x \<Rightarrow> f\<lparr>fi_error := Some (Find_Search x), fi_searched := Some (fi_query f, revision)\<rparr>)"

definition find_matches :: "find_state \<Rightarrow> match_range list" where
  "find_matches f = (case fi_outcome f of None \<Rightarrow> [] | Some out \<Rightarrow> so_matches out)"

text \<open>The summary \<open>1 of 12\<close>, \<open>1 of 2000+\<close> or \<open>No matches\<close>, as data.\<close>

datatype find_summary = No_Query | No_Matches | Position nat nat bool

definition summary :: "find_state \<Rightarrow> find_summary" where
  "summary f =
     (if fi_query f = [] then No_Query
      else if find_matches f = [] then No_Matches
      else Position (case fi_current f of None \<Rightarrow> 1 | Some i \<Rightarrow> i + 1) (length (find_matches f))
             (case fi_outcome f of None \<Rightarrow> False | Some out \<Rightarrow> so_truncated out))"

definition find_step :: "bool \<Rightarrow> find_state \<Rightarrow> match_range option \<times> find_state" where
  "find_step forward f =
     (let n = length (find_matches f) in
      if n = 0 then (None, f)
      else
        let i = (case fi_current f of
                   Some i \<Rightarrow> if forward then (i + 1) mod n else (i + n - 1) mod n
                 | None \<Rightarrow> if forward then 0 else n - 1)
        in (rd (find_matches f) i, f\<lparr>fi_current := Some i\<rparr>))"

section \<open>The view\<close>

text \<open>What is shown in the command area: texts by their headlines, or the data that is formatted into them.\<close>

datatype command_outcome =
    Warned string | Message string | Failed string | Edit_Failed edit_refusal | Command_Failed command_error
  | Substitution_Error substitute_error | Replacements nat | Summary find_summary | At_Line nat

record vi_view =
  vw_vi :: vi_engine
  vw_prefix :: "scalar option"
  vw_pending_command :: "vi_command option"
  vw_buffer :: bytes
  vw_caret_offset :: nat
  vw_vi_caret :: "nat option"
  vw_command :: "command_outcome command_area"
  vw_find :: find_state
  vw_search_backward :: bool
  vw_searching :: bool
  vw_close_after_save :: bool

definition command_report :: "command_outcome \<Rightarrow> vi_view \<Rightarrow> vi_view" where
  "command_report outcome w = w\<lparr>vw_command := area_report outcome (vw_command w)\<rparr>"

definition apply_vi_edits ::
  "vi_env \<Rightarrow> text_edit list \<Rightarrow> text_document \<Rightarrow> vi_view \<Rightarrow> (text_document \<times> vi_view) option" where
  "apply_vi_edits v edits d w =
     (if edits = [] then Some (d, w)
      else do {
        (r, d) \<leftarrow> apply_edits (vi_heap v) edits d;
        Some (case r of
                Inr _ \<Rightarrow> (d, w\<lparr>vw_buffer := td_text d, vw_find := (vw_find w)\<lparr>fi_searched := None\<rparr>\<rparr>)
              | Inl refusal \<Rightarrow> (d, command_report (Edit_Failed refusal) w)) })"

text \<open>The answer of the engine, carried out; the first component is a search for the caller to run.\<close>

definition carry_out ::
  "vi_env \<Rightarrow> vi_response \<Rightarrow> text_document \<Rightarrow> vi_view \<Rightarrow> (search_intent option \<times> text_document \<times> vi_view) option" where
  "carry_out v response d w =
     (let moved = (\<lambda>(d, w). (None, d, w\<lparr>vw_vi_caret := Some (vr_caret response), vw_caret_offset := vr_caret response\<rparr>))
      in case vr_action response of
           No_Action \<Rightarrow> Some (moved (d, w))
         | Edit edits \<Rightarrow> map_option moved (apply_vi_edits v edits d w)
         | Undo_Action \<Rightarrow> do {
             d \<leftarrow> doc_close_transaction d;
             (done, d) \<leftarrow> doc_undo d;
             Some (moved (d, if done then w\<lparr>vw_buffer := td_text d\<rparr> else w)) }
         | Redo_Action \<Rightarrow> do {
             d \<leftarrow> doc_close_transaction d;
             (done, d) \<leftarrow> doc_redo d;
             Some (moved (d, if done then w\<lparr>vw_buffer := td_text d\<rparr> else w)) }
         | Search intent \<Rightarrow> Some (Some intent, d, w)
         | Vi_Refused headline \<Rightarrow> Some (moved (d, command_report (Failed headline) w)))"

text \<open>The document is looked up in the registry; a view whose document is gone ignores the key.\<close>

definition engine_key ::
  "vi_env \<Rightarrow> vi_key \<Rightarrow> text_document option \<Rightarrow> vi_view \<Rightarrow> (search_intent option \<times> text_document option \<times> vi_view) option" where
  "engine_key v key doc w =
     (case doc of
        None \<Rightarrow> Some (None, None, w)
      | Some d \<Rightarrow> do {
          let repeat_was_refused = repeat_is_refused (vw_vi w);
          (response, engine) \<leftarrow> on_key v key (td_text d) (vw_caret_offset w) (vw_vi w);
          let w = w\<lparr>vw_vi := engine\<rparr>;
          let w = (case vr_warning response of
                     Some warning \<Rightarrow> command_report (Warned warning) w
                   | None \<Rightarrow>
                       if repeat_was_refused \<and> \<not> repeat_is_refused engine
                       then command_report (Message ''Repeat available again.'') w else w);
          (intent, d, w) \<leftarrow> carry_out v response d w;
          Some (intent, Some d, w) })"

definition feed_vi_key ::
  "vi_env \<Rightarrow> vi_key \<Rightarrow> text_document option \<Rightarrow> vi_view \<Rightarrow> (search_intent option \<times> text_document option \<times> vi_view) option" where
  "feed_vi_key v key doc w =
     (case key of
        Char_Key character \<Rightarrow>
          if ve_mode (vw_vi w) = Normal then
            case vw_prefix w of
              Some prefix \<Rightarrow>
                (let w = w\<lparr>vw_prefix := None\<rparr>
                 in case normal_mode_command [prefix, character] of
                      Some command \<Rightarrow> Some (None, doc, w\<lparr>vw_pending_command := Some command\<rparr>)
                    | None \<Rightarrow> engine_key v key doc w)
            | None \<Rightarrow>
                if character = 0x5a then Some (None, doc, w\<lparr>vw_prefix := Some 0x5a\<rparr>) else engine_key v key doc w
          else engine_key v key doc w
      | _ \<Rightarrow> engine_key v key doc w)"

end
