(* ===== verification/View_Command.thy ===== *)
theory View_Command
  imports Vi_View
begin

text \<open>
  The commands of a text view, \<open>app/festerm/src/text_editor.rs\<close>: the searches of the vi keys, the command line, the
  substitutions of \<open>:s\<close> and of the Replace field, line addresses, and the frame that puts them in order.  The document
  is looked up in the registry of open documents; commands for the application are handed back.
\<close>

datatype app_command = SaveTextDocument | SaveTextDocumentAs | CloseTab | DiscardAndCloseTab | RefreshTextDocument

definition finish :: "command_outcome \<Rightarrow> vi_view \<Rightarrow> vi_view" where
  "finish outcome w = w\<lparr>vw_command := area_finish outcome (vw_command w)\<rparr>"

section \<open>Searching\<close>

text \<open>The word the caret is inside, by its characters.\<close>

definition word_under_caret :: "search_env \<Rightarrow> bytes \<Rightarrow> nat \<Rightarrow> str option option" where
  "word_under_caret v s caret = do {
     let caret = min caret (length s);
     prior \<leftarrow> str_slice s 0 caret;
     rest \<leftarrow> str_slice s caret (length s);
     let word = rev (takeWhile (word_char v) (rev (str_chars prior))) @ takeWhile (word_char v) (str_chars rest);
     Some (if word = [] then None else Some word) }"

definition step_match :: "int \<Rightarrow> vi_view \<Rightarrow> vi_view" where
  "step_match direction w =
     (let ms = find_matches (vw_find w) in
      if ms = [] then command_report (Summary No_Matches) w
      else
        let current = (case fi_current (vw_find w) of None \<Rightarrow> 0 | Some i \<Rightarrow> i);
            next = (if direction = 0 then current else nat ((int current + direction) mod int (length ms)));
            w = w\<lparr>vw_find := (vw_find w)\<lparr>fi_current := Some next\<rparr>\<rparr>;
            w = (case rd ms next of
                   Some m \<Rightarrow> w\<lparr>vw_vi_caret := Some (mr_start m), vw_caret_offset := mr_start m\<rparr>
                 | None \<Rightarrow> w)
        in command_report (Summary (summary (vw_find w))) w)"

text \<open>The position of the first element with a property, and of the last.\<close>

definition find_position :: "('a \<Rightarrow> bool) \<Rightarrow> 'a list \<Rightarrow> nat option" where
  "find_position P xs = (let k = length (takeWhile (\<lambda>x. \<not> P x) xs) in if k < length xs then Some k else None)"

definition find_last :: "('a \<Rightarrow> bool) \<Rightarrow> 'a list \<Rightarrow> nat option" where
  "find_last P xs = map_option (\<lambda>k. length xs - 1 - k) (find_position P (rev xs))"

definition select_match_from_caret :: "vi_view \<Rightarrow> vi_view" where
  "select_match_from_caret w =
     (let ms = find_matches (vw_find w); caret = vw_caret_offset w;
          index = (if vw_search_backward w
                   then or_else (find_last (\<lambda>m. mr_start m < caret) ms) (checked_sub (length ms) 1)
                   else or_else (find_position (\<lambda>m. caret < mr_start m) ms) (Some 0));
          w = (case index of Some i \<Rightarrow> w\<lparr>vw_find := (vw_find w)\<lparr>fi_current := Some i\<rparr>\<rparr> | None \<Rightarrow> w)
      in step_match 0 w)"

definition doc_revision :: "text_document option \<Rightarrow> nat" where
  "doc_revision doc = (case doc of None \<Rightarrow> 0 | Some d \<Rightarrow> unat (td_revision d))"

definition refresh_view :: "search_env \<Rightarrow> text_document option \<Rightarrow> vi_view \<Rightarrow> vi_view" where
  "refresh_view v doc w = w\<lparr>vw_find := find_refresh v (vw_buffer w) (doc_revision doc) (vw_find w)\<rparr>"

definition open_prompt :: "command_prompt \<Rightarrow> vi_view \<Rightarrow> vi_view" where
  "open_prompt p w = w\<lparr>vw_command := area_open p (vw_command w)\<rparr>"

definition search_word :: "search_env \<Rightarrow> int \<Rightarrow> text_document option \<Rightarrow> vi_view \<Rightarrow> vi_view option" where
  "search_word v direction doc w = do {
     word \<leftarrow> word_under_caret v (vw_buffer w) (vw_caret_offset w);
     Some (case word of
             None \<Rightarrow> w
           | Some word \<Rightarrow>
               let w = w\<lparr>vw_find := (vw_find w)\<lparr>fi_query := literal_word_pattern v word, fi_searched := None\<rparr>, vw_searching := True\<rparr>
               in step_match direction (refresh_view v doc w)) }"

primrec run_search_intent :: "search_env \<Rightarrow> search_intent \<Rightarrow> text_document option \<Rightarrow> vi_view \<Rightarrow> vi_view option" where
  "run_search_intent v PromptForward doc w = Some (open_prompt SearchForward w)"
| "run_search_intent v PromptBackward doc w = Some (open_prompt SearchBackward w)"
| "run_search_intent v Next doc w = Some (step_match (if vw_search_backward w then -1 else 1) w)"
| "run_search_intent v Previous doc w = Some (step_match (if vw_search_backward w then 1 else -1) w)"
| "run_search_intent v WordForward doc w = search_word v 0 doc w"
| "run_search_intent v WordBackward doc w = search_word v (-1) doc w"

text \<open>A key of the view: the engine first, then the search it may ask for.\<close>

definition view_key ::
  "vi_env \<Rightarrow> search_env \<Rightarrow> vi_key \<Rightarrow> text_document option \<Rightarrow> vi_view \<Rightarrow> (text_document option \<times> vi_view) option" where
  "view_key v sv key doc w = do {
     (intent, doc, w) \<leftarrow> feed_vi_key v key doc w;
     case intent of
       None \<Rightarrow> Some (doc, w)
     | Some i \<Rightarrow> map_option (\<lambda>w. (doc, w)) (run_search_intent sv i doc w) }"

primrec view_keys ::
  "vi_env \<Rightarrow> search_env \<Rightarrow> vi_key list \<Rightarrow> text_document option \<Rightarrow> vi_view \<Rightarrow> (text_document option \<times> vi_view) option" where
  "view_keys v sv [] doc w = Some (doc, w)"
| "view_keys v sv (key # keys) doc w = view_key v sv key doc w \<bind> (\<lambda>(doc, w). view_keys v sv keys doc w)"

section \<open>Lines\<close>

definition current_line_range :: "vi_view \<Rightarrow> (nat \<times> nat) option" where
  "current_line_range w = do {
     let caret = min (vw_caret_offset w) (length (vw_buffer w));
     start \<leftarrow> line_start_byte (vw_buffer w) caret;
     stop \<leftarrow> line_end_byte (vw_buffer w) caret;
     Some (start, stop) }"

definition line_starts :: "bytes \<Rightarrow> nat list" where
  "line_starts s = filter (\<lambda>start. start < length s \<or> start = 0) (0 # map Suc (filter (\<lambda>i. s ! i = 0x0a) [0..<length s]))"

definition view_go_to_line :: "go_to_line \<Rightarrow> vi_view \<Rightarrow> vi_view" where
  "view_go_to_line line w =
     (let starts = line_starts (vw_buffer w);
          index = (case line of Last_Line \<Rightarrow> length starts - 1 | Line_Number n \<Rightarrow> min (n - 1) (length starts - 1));
          place = (case rd starts index of None \<Rightarrow> 0 | Some i \<Rightarrow> i)
      in finish (At_Line (index + 1)) (w\<lparr>vw_caret_offset := place, vw_vi_caret := Some place\<rparr>))"

section \<open>Substitution\<close>

definition planned_edits ::
  "search_env \<Rightarrow> heap_env \<Rightarrow> substitute_command \<Rightarrow> bytes \<Rightarrow> nat \<times> nat \<Rightarrow> (nat \<times> text_edit list) outcome option" where
  "planned_edits v h cmd s line =
     bind_partial (plan v cmd s line None MATCH_LIMIT) (\<lambda>p.
     bind_partial (to_text_edits h p s) (\<lambda>edits. Some (Inr (length (sp_replacements p), edits))))"

definition run_substitution ::
  "search_env \<Rightarrow> heap_env \<Rightarrow> substitute_command \<Rightarrow> text_document option \<Rightarrow> vi_view \<Rightarrow> (text_document option \<times> vi_view) option" where
  "run_substitution v h cmd doc w = do {
     line \<leftarrow> current_line_range w;
     edits \<leftarrow> planned_edits v h cmd (vw_buffer w) line;
     case edits of
       Inl x \<Rightarrow> Some (doc, finish (Substitution_Error x) w)
     | Inr (n, edits) \<Rightarrow>
         if sf_count_only (sc_flags cmd) \<or> edits = [] then Some (doc, finish (Replacements n) w)
         else case doc of
                None \<Rightarrow> Some (None, w)
              | Some d \<Rightarrow> do {
                  (r, d) \<leftarrow> apply_edits h edits d;
                  Some (Some d, case r of
                      Inr _ \<Rightarrow> finish (Replacements n) (w\<lparr>vw_buffer := td_text d, vw_find := (vw_find w)\<lparr>fi_searched := None\<rparr>\<rparr>)
                    | Inl x \<Rightarrow> finish (Edit_Failed x) w) } }"

definition find_failed :: "find_error \<Rightarrow> vi_view \<Rightarrow> vi_view" where
  "find_failed x w = w\<lparr>vw_find := (vw_find w)\<lparr>fi_error := Some x\<rparr>\<rparr>"

definition substitute ::
  "search_env \<Rightarrow> heap_env \<Rightarrow> match_range option \<Rightarrow> text_document option \<Rightarrow> vi_view \<Rightarrow> (text_document option \<times> vi_view) option" where
  "substitute v h only doc w =
     (case from_parts (fi_query (vw_find w)) (fi_replacement (vw_find w)) WholeDocument (default_flags\<lparr>sf_global := True\<rparr>) of
        Inl x \<Rightarrow> Some (doc, find_failed (Find_Substitution x) w)
      | Inr cmd \<Rightarrow> do {
          edits \<leftarrow> planned_edits v h cmd (vw_buffer w) (0, 0);
          case edits of
            Inl x \<Rightarrow> Some (doc, find_failed (Find_Substitution x) w)
          | Inr (_, edits) \<Rightarrow>
              let edits = (case only of None \<Rightarrow> edits | Some m \<Rightarrow> filter (\<lambda>x. te_start x = mr_start m) edits) in
              if edits = [] then Some (doc, w)
              else case doc of
                     None \<Rightarrow> Some (None, w)
                   | Some d \<Rightarrow> do {
                       (r, d) \<leftarrow> apply_edits h edits d;
                       Some (Some d, case r of
                           Inr _ \<Rightarrow> w\<lparr>vw_buffer := td_text d, vw_find := (vw_find w)\<lparr>fi_error := None, fi_searched := None\<rparr>\<rparr>
                         | Inl x \<Rightarrow> find_failed (Find_Refused x) (command_report (Edit_Failed x) w)) } })"

definition replace_current ::
  "search_env \<Rightarrow> heap_env \<Rightarrow> text_document option \<Rightarrow> vi_view \<Rightarrow> (text_document option \<times> vi_view) option" where
  "replace_current v h doc w =
     (case fi_current (vw_find w) of
        None \<Rightarrow> Some (doc, w)
      | Some i \<Rightarrow>
          (case rd (find_matches (vw_find w)) i of
             None \<Rightarrow> Some (doc, w)
           | Some m \<Rightarrow> substitute v h (Some m) doc w))"

definition replace_all_matches ::
  "search_env \<Rightarrow> heap_env \<Rightarrow> text_document option \<Rightarrow> vi_view \<Rightarrow> (text_document option \<times> vi_view) option" where
  "replace_all_matches v h doc w = substitute v h None doc w"

section \<open>The command line\<close>

primrec dispatch_command ::
  "search_env \<Rightarrow> heap_env \<Rightarrow> vi_command \<Rightarrow> text_document option \<Rightarrow> vi_view \<Rightarrow> (app_command option \<times> text_document option \<times> vi_view) option" where
  "dispatch_command v h Write doc w = Some (Some SaveTextDocument, doc, finish (Message ''Saving'') w)"
| "dispatch_command v h (WriteAs path) doc w = Some (Some SaveTextDocumentAs, doc, finish (Message ''Choose where to save.'') w)"
| "dispatch_command v h WriteQuit doc w = Some (Some SaveTextDocument, doc, finish (Message ''Saving'') (w\<lparr>vw_close_after_save := True\<rparr>))"
| "dispatch_command v h Quit doc w = Some (Some CloseTab, doc, w\<lparr>vw_command := area_close (vw_command w)\<rparr>)"
| "dispatch_command v h QuitDiscarding doc w = Some (Some DiscardAndCloseTab, doc, w\<lparr>vw_command := area_close (vw_command w)\<rparr>)"
| "dispatch_command v h (Refresh forced) doc w = Some (Some RefreshTextDocument, doc, w\<lparr>vw_command := area_close (vw_command w)\<rparr>)"
| "dispatch_command v h (Substitute cmd) doc w = map_option (\<lambda>r. (None, r)) (run_substitution v h cmd doc w)"
| "dispatch_command v h (GoToLine line) doc w = Some (None, doc, view_go_to_line line w)"

definition preview_search :: "search_env \<Rightarrow> text_document option \<Rightarrow> vi_view \<Rightarrow> vi_view" where
  "preview_search v doc w =
     (case ca_prompt (vw_command w) of
        None \<Rightarrow> w
      | Some p \<Rightarrow>
          if p = Ex then w
          else refresh_view v doc (w\<lparr>vw_find := (vw_find w)\<lparr>fi_query := ca_input (vw_command w)\<rparr>\<rparr>))"

definition run_command_line ::
  "search_env \<Rightarrow> heap_env \<Rightarrow> command_prompt \<Rightarrow> str \<Rightarrow> text_document option \<Rightarrow> vi_view \<Rightarrow>
    (app_command option \<times> text_document option \<times> vi_view) option" where
  "run_command_line v h p line doc w =
     (if p \<noteq> Ex then
        let w = preview_search v doc w;
            w = w\<lparr>vw_searching := True, vw_search_backward := (p = SearchBackward)\<rparr>;
            w = select_match_from_caret w
        in Some (None, doc, finish (Summary (summary (vw_find w))) w)
      else case parse_line line of
             Inl x \<Rightarrow> Some (None, doc, finish (Command_Failed x) w)
           | Inr command \<Rightarrow> dispatch_command v h command doc w)"

text \<open>\<open>:wq\<close> closes once the save has landed.\<close>

definition close_when_saved :: "bool \<Rightarrow> text_document option \<Rightarrow> vi_view \<Rightarrow> app_command option \<times> vi_view" where
  "close_when_saved conflict doc w =
     (if \<not> vw_close_after_save w then (None, w)
      else case doc of
             None \<Rightarrow> (None, w)
           | Some d \<Rightarrow>
               if is_dirty d \<or> conflict then (None, if conflict then w\<lparr>vw_close_after_save := False\<rparr> else w)
               else (Some CloseTab, w\<lparr>vw_close_after_save := False\<rparr>))"

section \<open>A frame\<close>

text \<open>What the command area reports while it is shown.\<close>

datatype command_area_event = Changed | Run command_prompt str | Cancelled

definition return_focus_to_body :: "bool \<Rightarrow> vi_view \<Rightarrow> vi_view" where
  "return_focus_to_body vi_keys w = (if vi_keys then w\<lparr>vw_vi_caret := Some (vw_caret_offset w)\<rparr> else w)"

primrec show_command_area ::
  "search_env \<Rightarrow> heap_env \<Rightarrow> bool \<Rightarrow> command_area_event \<Rightarrow> text_document option \<Rightarrow> vi_view \<Rightarrow>
    (app_command option \<times> text_document option \<times> vi_view) option" where
  "show_command_area v h vi_keys Changed doc w = Some (None, doc, preview_search v doc w)"
| "show_command_area v h vi_keys Cancelled doc w =
     (let w = (if fi_open (vw_find w) then w
               else w\<lparr>vw_find := (vw_find w)\<lparr>fi_query := [], fi_searched := None\<rparr>, vw_searching := False\<rparr>)
      in Some (None, doc, return_focus_to_body vi_keys w))"
| "show_command_area v h vi_keys (Run p line) doc w =
     map_option (\<lambda>(command, doc, w). (command, doc, return_focus_to_body vi_keys w)) (run_command_line v h p line doc w)"

definition highlighting_matches :: "vi_view \<Rightarrow> bool" where
  "highlighting_matches w \<longleftrightarrow>
     fi_open (vw_find w) \<or> (case ca_prompt (vw_command w) of None \<Rightarrow> False | Some p \<Rightarrow> p \<noteq> Ex) \<or>
     (fi_query (vw_find w) \<noteq> [] \<and> vw_searching w)"

text \<open>The caret is handed to the widget as a count of characters, read from the text before it.\<close>

definition hand_over_caret :: "vi_view \<Rightarrow> (nat option \<times> vi_view) option" where
  "hand_over_caret w =
     (case vw_vi_caret w of
        None \<Rightarrow> Some (None, w)
      | Some place \<Rightarrow> do {
          prior \<leftarrow> str_slice (vw_buffer w) 0 (min place (length (vw_buffer w)));
          Some (Some (length (str_chars prior)), w\<lparr>vw_vi_caret := None\<rparr>) })"

text \<open>The keys of a frame are for the view only with vi keys on, the command area shut and the body in focus.\<close>

definition route_vi_keys ::
  "vi_env \<Rightarrow> search_env \<Rightarrow> bool \<Rightarrow> bool \<Rightarrow> vi_key list \<Rightarrow> text_document option \<Rightarrow> vi_view \<Rightarrow> (text_document option \<times> vi_view) option" where
  "route_vi_keys v sv vi_keys focused keys doc w =
     (if \<not> vi_keys \<or> ca_prompt (vw_command w) \<noteq> None then Some (doc, w)
      else if \<not> focused then Some (doc, w)
      else view_keys v sv keys doc w)"

definition adopt_external_edits :: "text_document \<Rightarrow> vi_view \<Rightarrow> vi_view" where
  "adopt_external_edits d w = (if td_text d \<noteq> vw_buffer w then w\<lparr>vw_buffer := td_text d\<rparr> else w)"

definition area_events ::
  "search_env \<Rightarrow> heap_env \<Rightarrow> bool \<Rightarrow> command_area_event option \<Rightarrow> text_document option \<Rightarrow> vi_view \<Rightarrow>
    (app_command option \<times> text_document option \<times> vi_view) option" where
  "area_events v h vi_keys event doc w =
     (case event of None \<Rightarrow> Some (None, doc, w) | Some e \<Rightarrow> show_command_area v h vi_keys e doc w)"

definition run_pending ::
  "search_env \<Rightarrow> heap_env \<Rightarrow> app_command option \<Rightarrow> text_document option \<Rightarrow> vi_view \<Rightarrow>
    (app_command option \<times> text_document option \<times> vi_view) option" where
  "run_pending v h command doc w =
     (case vw_pending_command w of
        None \<Rightarrow> Some (command, doc, w)
      | Some pending \<Rightarrow> dispatch_command v h pending doc (w\<lparr>vw_pending_command := None\<rparr>))"

text \<open>
  One call of \<open>show\<close>, with the focus and the keys of the frame, the place of the caret it hands to the widget, and the event of the
  command area; the drawing, the bars and what the user does inside the widget are left out.
\<close>

definition show_view ::
  "vi_env \<Rightarrow> search_env \<Rightarrow> bool \<Rightarrow> bool \<Rightarrow> bool \<Rightarrow> vi_key list \<Rightarrow> command_area_event option \<Rightarrow> text_document option \<Rightarrow> vi_view \<Rightarrow>
    (app_command option \<times> nat option \<times> text_document option \<times> vi_view) option" where
  "show_view v sv vi_keys focused conflict keys event doc w =
     (case doc of
        None \<Rightarrow> Some (Some CloseTab, None, None, w)
      | Some d \<Rightarrow> do {
          (doc, w) \<leftarrow> route_vi_keys v sv vi_keys focused keys (Some d) (adopt_external_edits d w);
          (place, w) \<leftarrow> hand_over_caret (if highlighting_matches w then refresh_view sv doc w else w);
          (command, doc, w) \<leftarrow> area_events sv (vi_heap v) vi_keys event doc w;
          (command, doc, w) \<leftarrow> run_pending sv (vi_heap v) command doc w;
          let (closing, w) = close_when_saved conflict doc w;
          Some (or_else closing command, place, doc, w) })"

end
