(* ===== verification/Vi_Views.thy ===== *)
theory Vi_Views
  imports Vi_Buffer Edit_Derive
begin

text \<open>
  The contract of \<open>MotionText\<close> as a locale: positions stand for character indices, and the methods read and
  move by one character.  Inside it the word motions compute the positions of their plain counterparts
  over the list of characters; both views of a text, by index and by byte, are interpretations.
\<close>

section \<open>Positions\<close>

definition scalars :: "str \<Rightarrow> bool" where
  "scalars cs \<longleftrightarrow> (\<forall>c \<in> set cs. is_scalar c)"

definition offset :: "str \<Rightarrow> nat \<Rightarrow> nat" where
  "offset cs i = length (str_bytes (take i cs))"

lemma len_encode: "length (encode_utf8 c) = len_utf8 c"
  by (simp add: encode_utf8_def len_utf8_def)

lemma len_utf8_pos [simp]: "0 < len_utf8 c" "len_utf8 c \<noteq> 0"
  by (simp_all add: len_utf8_def)

lemma scalars_simps [simp]: "scalars []" "scalars (c # cs) \<longleftrightarrow> is_scalar c \<and> scalars cs" "scalars (cs @ ds) \<longleftrightarrow> scalars cs \<and> scalars ds"
  by (auto simp: scalars_def)

lemma scalars_parts [simp]: "scalars cs \<Longrightarrow> scalars (take i cs)" "scalars cs \<Longrightarrow> scalars (drop i cs)" "scalars cs \<Longrightarrow> scalars (rev cs)"
  "scalars cs \<Longrightarrow> scalars (slice a n cs)"
  by (auto simp: scalars_def slice_def dest: in_set_takeD in_set_dropD)

lemma scalars_nth: "scalars cs \<Longrightarrow> i < length cs \<Longrightarrow> is_scalar (cs ! i)"
  by (simp add: scalars_def)

lemma str_chars_bytes [simp]: "scalars cs \<Longrightarrow> str_chars (str_bytes cs) = cs"
  by (simp add: str_chars_def scalars_def from_utf8_str_bytes)

lemma utf8_scalars: "utf8 s \<longleftrightarrow> (\<exists>cs. scalars cs \<and> s = str_bytes cs)"
  by (simp add: utf8_str_bytes scalars_def)

lemma utf8_of_scalars [simp]: "scalars cs \<Longrightarrow> utf8 (str_bytes cs)"
  by (auto simp: utf8_scalars)

lemma offset_0 [simp]: "offset cs 0 = 0"
  by (simp add: offset_def)

lemma offset_all: "length cs \<le> i \<Longrightarrow> offset cs i = length (str_bytes cs)"
  by (simp add: offset_def)

lemma offset_Suc: "i < length cs \<Longrightarrow> offset cs (Suc i) = offset cs i + len_utf8 (cs ! i)"
  by (simp add: offset_def take_Suc_conv_app_nth len_encode)

lemma offset_less: "i < j \<Longrightarrow> j \<le> length cs \<Longrightarrow> offset cs i < offset cs j"
proof (induction j)
  case (Suc j)
  then show ?case using offset_Suc [of j cs] by (cases "i = j") auto
qed simp

lemma offset_min: "offset cs (min i (length cs)) = offset cs i"
  by (simp add: min_def offset_all)

lemma offset_mono: "i \<le> j \<Longrightarrow> offset cs i \<le> offset cs j"
proof -
  assume "i \<le> j"
  then have "min i (length cs) = min j (length cs) \<or> min i (length cs) < min j (length cs)" by (auto simp: min_def)
  then have "offset cs (min i (length cs)) \<le> offset cs (min j (length cs))"
    by (metis less_imp_le min.cobounded2 offset_less order_refl)
  then show ?thesis by (simp only: offset_min)
qed

lemma offset_le: "offset cs i \<le> length (str_bytes cs)"
  using offset_mono [of i "max i (length cs)" cs] by (simp add: offset_all)

lemma offset_inj: "i \<le> length cs \<Longrightarrow> j \<le> length cs \<Longrightarrow> offset cs i = offset cs j \<longleftrightarrow> i = j"
  using offset_less [of i j cs] offset_less [of j i cs] by (cases i j rule: linorder_cases) auto

lemma index_le_offset: "i \<le> length cs \<Longrightarrow> i \<le> offset cs i"
proof (induction i)
  case (Suc i)
  have "0 < len_utf8 (cs ! i)" by (rule len_utf8_pos)
  then show ?case using Suc offset_Suc [of i cs] by linarith
qed simp

lemma length_chars_le: "length cs \<le> length (str_bytes cs)"
  using index_le_offset [of "length cs" cs] by (simp add: offset_all)

text \<open>The offsets are exactly the character boundaries.\<close>

lemma bytes_split: "take (offset cs i) (str_bytes cs) = str_bytes (take i cs)" "drop (offset cs i) (str_bytes cs) = str_bytes (drop i cs)"
proof -
  have "str_bytes cs = str_bytes (take i cs) @ str_bytes (drop i cs)" by (metis append_take_drop_id str_bytes_simps(3))
  then show "take (offset cs i) (str_bytes cs) = str_bytes (take i cs)" "drop (offset cs i) (str_bytes cs) = str_bytes (drop i cs)"
    by (metis append_eq_conv_conj offset_def)+
qed

lemma offset_boundary [simp]: "scalars cs \<Longrightarrow> is_char_boundary (str_bytes cs) (offset cs i)"
  by (rule utf8_take_boundary) (simp_all add: bytes_split offset_le)

lemma boundary_offset:
  assumes "scalars cs" "is_char_boundary (str_bytes cs) k"
  obtains i where "i \<le> length cs" "k = offset cs i"
proof -
  have k: "k \<le> length (str_bytes cs)" using assms(2) by (rule char_boundary_le)
  obtain ds where ds: "scalars ds" "take k (str_bytes cs) = str_bytes ds"
    using boundary_splits [OF utf8_of_scalars [OF assms(1)] assms(2)] by (auto simp: utf8_scalars)
  obtain es where es: "scalars es" "drop k (str_bytes cs) = str_bytes es"
    using boundary_splits [OF utf8_of_scalars [OF assms(1)] assms(2)] by (auto simp: utf8_scalars)
  have "str_bytes cs = str_bytes (ds @ es)" using ds es by (metis append_take_drop_id str_bytes_simps(3))
  then have "cs = ds @ es" using assms(1) ds(1) es(1) by (metis scalars_simps(3) str_chars_bytes)
  moreover have "k = length (str_bytes ds)" using ds(2) k by (metis length_take min.absorb2)
  ultimately show thesis using that [of "length ds"] by (simp add: offset_def)
qed

lemma slice_offsets:
  assumes "scalars cs" "i \<le> j"
  shows "str_slice (str_bytes cs) (offset cs i) (offset cs j) = Some (str_bytes (slice i (j - i) cs))"
proof -
  have "slice (offset cs i) (offset cs j - offset cs i) (str_bytes cs) = str_bytes (slice i (j - i) cs)"
  proof -
    have o: "offset (take j cs) i = offset cs i" using assms(2) by (simp add: offset_def min_absorb1)
    have "slice (offset cs i) (offset cs j - offset cs i) (str_bytes cs) = drop (offset cs i) (take (offset cs j) (str_bytes cs))"
      using offset_mono [OF assms(2), of cs] by (simp add: slice_def drop_take)
    also have "\<dots> = drop (offset (take j cs) i) (str_bytes (take j cs))" by (simp only: bytes_split(1) o)
    also have "\<dots> = str_bytes (drop i (take j cs))" by (rule bytes_split(2))
    also have "\<dots> = str_bytes (slice i (j - i) cs)" by (simp add: slice_def drop_take)
    finally show ?thesis .
  qed
  then show ?thesis using assms offset_mono [OF assms(2), of cs] by (simp add: str_slice_def)
qed

lemma slice_to_end: "scalars cs \<Longrightarrow> str_slice (str_bytes cs) (offset cs i) (length (str_bytes cs)) = Some (str_bytes (drop i cs))"
  using slice_offsets [of cs i "max i (length cs)"] by (simp add: offset_all slice_def)

lemma slice_from_start: "scalars cs \<Longrightarrow> str_slice (str_bytes cs) 0 (offset cs i) = Some (str_bytes (take i cs))"
  using slice_offsets [of cs 0 i] by (simp add: slice_def)

section \<open>The contract\<close>

locale motion_view =
  fixes view :: "str \<Rightarrow> motion_text" and pos :: "str \<Rightarrow> nat \<Rightarrow> nat"
  assumes view_end: "scalars cs \<Longrightarrow> mt_end (view cs) = pos cs (length cs)"
    and view_char: "scalars cs \<Longrightarrow> i \<le> length cs \<Longrightarrow> mt_character (view cs) (pos cs i) = Some (rd cs i)"
    and view_next: "scalars cs \<Longrightarrow> i \<le> length cs \<Longrightarrow> mt_next (view cs) (pos cs i) = Some (pos cs (min (i + 1) (length cs)))"
    and view_previous: "scalars cs \<Longrightarrow> i \<le> length cs \<Longrightarrow> mt_previous (view cs) (pos cs i) = Some (pos cs (i - 1))"
    and pos_0: "pos cs 0 = 0"
    and pos_less: "i < j \<Longrightarrow> j \<le> length cs \<Longrightarrow> pos cs i < pos cs j"

interpretation indexed: motion_view "\<lambda>cs. indexed_text (buffer_of (str_bytes cs))" "\<lambda>cs i. i"
  by unfold_locales (auto simp: indexed_text_def nchars_def buffer_of_def char_at_def)

lemma str_character_offset: "scalars cs \<Longrightarrow> i \<le> length cs \<Longrightarrow> str_character (str_bytes cs) (offset cs i) = Some (rd cs i)"
proof -
  assume a: "scalars cs" "i \<le> length cs"
  show ?thesis
  proof (cases "i < length cs")
    case True
    then have "drop i cs = cs ! i # drop (Suc i) cs" by (simp add: Cons_nth_drop_Suc)
    then have "decode_step (str_bytes (drop i cs)) = Some (cs ! i, length (encode_utf8 (cs ! i)))"
      using scalars_nth [OF a(1) True] by (simp add: decode_step_encode)
    then show ?thesis using True a(1) by (simp add: str_character_def slice_to_end rd_def)
  qed (use a in \<open>simp add: str_character_def slice_to_end rd_def decode_step_def\<close>)
qed

lemma str_previous_offset: "scalars cs \<Longrightarrow> i \<le> length cs \<Longrightarrow> str_previous (str_bytes cs) (offset cs i) = Some (offset cs (i - 1))"
proof -
  assume a: "scalars cs" "i \<le> length cs"
  show ?thesis
  proof (cases i)
    case (Suc j)
    then have t: "take i cs = take j cs @ [cs ! j]" using a(2) by (simp add: take_Suc_conv_app_nth)
    then have "str_chars (str_bytes (take i cs)) = take j cs @ [cs ! j]" using a(1) by (metis scalars_parts(1) str_chars_bytes)
    then show ?thesis
      using slice_from_start [OF a(1), of i] offset_Suc [of j cs] a(2) Suc
      by (auto simp: str_previous_def split: list.splits dest!: arg_cong [where f = last])
  qed (use slice_from_start [OF a(1), of 0] in \<open>simp add: str_previous_def str_chars_def\<close>)
qed

interpretation borrowed: motion_view "\<lambda>cs. borrowed_text (str_bytes cs)" offset
proof
  fix cs :: str and i :: nat
  assume a: "scalars cs" "i \<le> length cs"
  show "mt_character (borrowed_text (str_bytes cs)) (offset cs i) = Some (rd cs i)"
    using a by (simp add: borrowed_text_def str_character_offset)
  show "mt_next (borrowed_text (str_bytes cs)) (offset cs i) = Some (offset cs (min (i + 1) (length cs)))"
    using a offset_Suc [of i cs] by (auto simp: borrowed_text_def str_next_def str_character_offset rd_def offset_all)
  show "mt_previous (borrowed_text (str_bytes cs)) (offset cs i) = Some (offset cs (i - 1))"
    using a by (simp add: borrowed_text_def str_previous_offset)
qed (auto simp: borrowed_text_def offset_all offset_less)

section \<open>The motions over the characters\<close>

text \<open>What the loops of the word motions find in the list of characters.\<close>

function blanks_from :: "vi_env \<Rightarrow> str \<Rightarrow> nat \<Rightarrow> nat" where
  "blanks_from v cs i =
     (if i < length cs \<and> char_class v (cs ! i) = Blank \<and> \<not> (cs ! i = NL \<and> (i = 0 \<or> cs ! (i - 1) = NL))
      then blanks_from v cs (i + 1) else i)"
  by pat_completeness auto
termination by (relation "measure (\<lambda>(v, cs, i). length cs - i)") auto

declare blanks_from.simps [simp del]

definition run_from :: "(scalar \<Rightarrow> bool) \<Rightarrow> str \<Rightarrow> nat \<Rightarrow> nat" where
  "run_from P cs i = i + length (takeWhile P (drop i cs))"

primrec back_from :: "(scalar \<Rightarrow> bool) \<Rightarrow> str \<Rightarrow> nat \<Rightarrow> nat" where
  "back_from P cs 0 = 0"
| "back_from P cs (Suc i) = (if P (cs ! Suc i) then back_from P cs i else Suc i)"

primrec back_run :: "(scalar \<Rightarrow> bool) \<Rightarrow> str \<Rightarrow> nat \<Rightarrow> nat" where
  "back_run P cs 0 = 0"
| "back_run P cs (Suc i) = (if P (cs ! i) then back_run P cs i else Suc i)"

definition joins_class :: "vi_env \<Rightarrow> bool \<Rightarrow> vi_class \<Rightarrow> scalar \<Rightarrow> bool" where
  "joins_class v big c d \<longleftrightarrow> (if big then char_class v d \<noteq> Blank else char_class v d = c)"

primrec forward_from :: "vi_env \<Rightarrow> str \<Rightarrow> bool \<Rightarrow> nat \<Rightarrow> nat \<Rightarrow> nat" where
  "forward_from v cs big 0 i = min i (length cs)"
| "forward_from v cs big (Suc n) i =
     (if length cs \<le> i then length cs
      else
        let c = char_class v (cs ! i);
            stop = blanks_from v cs (if c \<noteq> Blank then run_from (joins_class v big c) cs i else i)
        in if stop = i then min stop (length cs) else forward_from v cs big n stop)"

primrec end_from :: "vi_env \<Rightarrow> str \<Rightarrow> bool \<Rightarrow> nat \<Rightarrow> nat \<Rightarrow> nat" where
  "end_from v cs big 0 i = min i (length cs - 1)"
| "end_from v cs big (Suc n) i =
     (if length cs \<le> i + 1 then length cs - 1
      else
        let j = run_from (\<lambda>c. char_class v c = Blank) cs (i + 1)
        in if length cs \<le> j then length cs - 1
           else end_from v cs big n (run_from (joins_class v big (char_class v (cs ! j))) cs (j + 1) - 1))"

primrec back_to :: "vi_env \<Rightarrow> str \<Rightarrow> bool \<Rightarrow> nat \<Rightarrow> nat \<Rightarrow> nat" where
  "back_to v cs big 0 i = i"
| "back_to v cs big (Suc n) i =
     (if i = 0 then 0
      else
        let j = back_from (\<lambda>c. char_class v c = Blank) cs (i - 1); c = char_class v (cs ! j)
        in if c = Blank then 0 else back_to v cs big n (back_run (joins_class v big c) cs j))"

lemma run_from_bounds: "i \<le> length cs \<Longrightarrow> i \<le> run_from P cs i \<and> run_from P cs i \<le> length cs"
  using length_takeWhile_le [of P "drop i cs"] by (auto simp: run_from_def)

lemma run_from_step: "run_from P cs i = (if i < length cs \<and> P (cs ! i) then run_from P cs (i + 1) else i)"
  by (cases "i < length cs") (simp_all add: run_from_def Cons_nth_drop_Suc [symmetric])

lemma blanks_from_bounds: "i \<le> length cs \<Longrightarrow> i \<le> blanks_from v cs i \<and> blanks_from v cs i \<le> length cs"
proof (induction v cs i rule: blanks_from.induct)
  case (1 v cs i)
  then show ?case by (subst (1 2) blanks_from.simps) auto
qed

lemma back_bounds: "back_from P cs i \<le> i" "back_run P cs i \<le> i"
  by (induction i) (auto intro: le_SucI)

lemma forward_from_bounds: "i \<le> length cs \<Longrightarrow> i \<le> forward_from v cs big n i \<and> forward_from v cs big n i \<le> length cs"
proof (induction n arbitrary: i)
  case (Suc n)
  define w where "w = (if char_class v (cs ! i) \<noteq> Blank then run_from (joins_class v big (char_class v (cs ! i))) cs i else i)"
  define stop where "stop = blanks_from v cs w"
  have "i \<le> w" "w \<le> length cs" using run_from_bounds [OF Suc.prems] Suc.prems by (auto simp: w_def)
  then have "i \<le> stop" "stop \<le> length cs" using blanks_from_bounds [of w cs v] by (auto simp: stop_def)
  moreover have "forward_from v cs big (Suc n) i =
      (if length cs \<le> i then length cs else if stop = i then min stop (length cs) else forward_from v cs big n stop)"
    by (simp add: Let_def w_def stop_def)
  ultimately show ?case using Suc.IH [of stop] Suc.prems by auto
qed simp

lemma end_from_bounds: "i \<le> length cs \<Longrightarrow> i \<le> Suc (end_from v cs big n i) \<and> end_from v cs big n i \<le> length cs - 1"
proof (induction n arbitrary: i)
  case (Suc n)
  show ?case
  proof (cases "length cs \<le> i + 1")
    case False
    define j where "j = run_from (\<lambda>c. char_class v c = Blank) cs (i + 1)"
    define k where "k = run_from (joins_class v big (char_class v (cs ! j))) cs (j + 1)"
    have j: "i + 1 \<le> j" "j \<le> length cs" using run_from_bounds [of "i + 1" cs] False by (auto simp: j_def)
    have k: "j < length cs \<Longrightarrow> j + 1 \<le> k \<and> k \<le> length cs" using run_from_bounds [of "j + 1" cs] by (simp add: k_def)
    have e: "end_from v cs big (Suc n) i = (if length cs \<le> j then length cs - 1 else end_from v cs big n (k - 1))"
      using False by (simp add: Let_def j_def k_def)
    show ?thesis
    proof (cases "j < length cs")
      case True
      then have "k - 1 \<le> length cs" "i \<le> k - 1" using j k by linarith+
      then show ?thesis using Suc.IH [of "k - 1"] True unfolding e by simp
    qed (use e j False in auto)
  qed (use Suc.prems in auto)
qed auto

lemma back_to_bounds: "back_to v cs big n i \<le> i"
proof (induction n arbitrary: i)
  case (Suc n)
  let ?j = "back_from (\<lambda>c. char_class v c = Blank) cs (i - 1)"
  have "back_run P cs ?j \<le> i" for P
    using back_bounds(1) [of "\<lambda>c. char_class v c = Blank" cs "i - 1"] back_bounds(2) [of P cs ?j] by linarith
  then show ?case using Suc.IH by (auto simp: Let_def intro: order_trans)
qed simp

context motion_view
begin

lemma pos_eq: "i \<le> length cs \<Longrightarrow> j \<le> length cs \<Longrightarrow> pos cs i = pos cs j \<longleftrightarrow> i = j"
  using pos_less [of i j cs] pos_less [of j i cs] by (cases i j rule: linorder_cases) auto

lemma pos_lt: "i \<le> length cs \<Longrightarrow> j \<le> length cs \<Longrightarrow> pos cs i < pos cs j \<longleftrightarrow> i < j"
  using pos_less [of i j cs] pos_less [of j i cs] by (cases i j rule: linorder_cases) auto

lemma pos_le: "i \<le> length cs \<Longrightarrow> j \<le> length cs \<Longrightarrow> pos cs i \<le> pos cs j \<longleftrightarrow> i \<le> j"
  using pos_lt [of j cs i] by (simp add: not_less [symmetric])

lemma pos_pos: "i \<le> length cs \<Longrightarrow> 0 < pos cs i \<longleftrightarrow> 0 < i"
  using pos_lt [of 0 cs i] by (simp add: pos_0)

lemma pos_min: "i \<le> length cs \<Longrightarrow> j \<le> length cs \<Longrightarrow> min (pos cs i) (pos cs j) = pos cs (min i j)"
  using pos_le [of i cs j] by (auto simp: min_def)

lemmas pos_simps = pos_eq pos_lt pos_le pos_pos pos_min view_end view_char view_next view_previous

lemma class_at_pos: "scalars cs \<Longrightarrow> i \<le> length cs \<Longrightarrow> class_at v (view cs) (pos cs i) = map_option (char_class v) (rd cs i)"
  by (simp add: class_at_def view_char)

lemma skip_while_pos:
  assumes "scalars cs" "i \<le> length cs"
  shows "skip_while v (view cs) P (pos cs i) = Some (pos cs (run_from (\<lambda>c. P (char_class v c)) cs i))"
  using assms(2)
proof (induction "length cs - i" arbitrary: i)
  case 0
  then show ?case using assms(1) by (subst skip_while.simps) (simp add: pos_simps run_from_def)
next
  case (Suc n)
  then have i: "i < length cs" "min (i + 1) (length cs) = i + 1" by simp_all
  have "skip_while v (view cs) P (pos cs (i + 1)) = Some (pos cs (run_from (\<lambda>c. P (char_class v c)) cs (i + 1)))"
    by (rule Suc.hyps(1)) (use Suc.hyps(2) i in simp_all)
  then show ?case
    using assms(1) i by (subst skip_while.simps, subst run_from_step) (simp add: pos_simps class_at_pos rd_def)
qed

lemma skip_blanks_pos:
  assumes "scalars cs" "i \<le> length cs"
  shows "skip_blanks v (view cs) (pos cs i) = Some (pos cs (blanks_from v cs i))"
  using assms(2)
proof (induction "length cs - i" arbitrary: i)
  case 0
  then show ?case using assms(1) by (subst skip_blanks.simps, subst blanks_from.simps) (simp add: pos_simps)
next
  case (Suc n)
  then have i: "i < length cs" "min (i + 1) (length cs) = i + 1" by simp_all
  have "skip_blanks v (view cs) (pos cs (i + 1)) = Some (pos cs (blanks_from v cs (i + 1)))"
    by (rule Suc.hyps(1)) (use Suc.hyps(2) i in simp_all)
  moreover have "pos cs i = 0 \<longleftrightarrow> i = 0" using pos_pos [of i cs] i by auto
  ultimately show ?case
    using assms(1) i by (subst skip_blanks.simps, subst blanks_from.simps) (auto simp: pos_simps class_at_pos rd_def)
qed

lemma run_ahead_pos:
  assumes "scalars cs" "i < length cs"
  shows "run_ahead v (view cs) P (pos cs i) = Some (pos cs (run_from (\<lambda>c. P (char_class v c)) cs (i + 1) - 1))"
  using assms(2)
proof (induction "length cs - i" arbitrary: i)
  case (Suc n)
  then have m: "min (i + 1) (length cs) = i + 1" by simp
  show ?case
  proof (cases "i + 1 < length cs")
    case True
    have "run_ahead v (view cs) P (pos cs (i + 1)) = Some (pos cs (run_from (\<lambda>c. P (char_class v c)) cs (i + 1 + 1) - 1))"
      by (rule Suc.hyps(1)) (use Suc.hyps(2) True in simp_all)
    then show ?thesis
      using assms(1) True m by (subst run_ahead.simps, subst run_from_step) (simp add: pos_simps class_at_pos rd_def)
  next
    case False
    then show ?thesis using assms(1) Suc.prems m
      by (subst run_ahead.simps, subst run_from_step) (simp add: pos_simps)
  qed
qed simp

lemma back_while_pos:
  assumes "scalars cs" "i < length cs"
  shows "back_while v (view cs) P (pos cs i) = Some (pos cs (back_from (\<lambda>c. P (char_class v c)) cs i))"
  using assms(2)
proof (induction i)
  case 0
  then show ?case by (subst back_while.simps) (simp add: pos_0)
next
  case (Suc i)
  then show ?case using assms(1) by (subst back_while.simps) (simp add: pos_simps class_at_pos rd_def)
qed

lemma run_back_pos:
  assumes "scalars cs" "i < length cs"
  shows "run_back v (view cs) P (pos cs i) = Some (pos cs (back_run (\<lambda>c. P (char_class v c)) cs i))"
  using assms(2)
proof (induction i)
  case 0
  then show ?case by (subst run_back.simps) (simp add: pos_0)
next
  case (Suc i)
  then show ?case using assms(1) by (subst run_back.simps) (simp add: pos_simps class_at_pos rd_def)
qed

lemma joins_class_eta: "(\<lambda>d. (\<lambda>e. if big then e \<noteq> Blank else e = c) (char_class v d)) = joins_class v big c"
  by (rule ext) (simp add: joins_class_def)

lemma word_forward_pos:
  assumes "scalars cs" "i \<le> length cs"
  shows "word_forward v (view cs) big n (pos cs i) = Some (pos cs (forward_from v cs big n i))"
  using assms(2)
proof (induction n arbitrary: i)
  case (Suc n)
  define w where "w = (if char_class v (cs ! i) \<noteq> Blank then run_from (joins_class v big (char_class v (cs ! i))) cs i else i)"
  have w: "w \<le> length cs" using run_from_bounds [OF Suc.prems] Suc.prems by (auto simp: w_def)
  have "(if char_class v (cs ! i) \<noteq> Blank
      then skip_while v (view cs) (\<lambda>e. if big then e \<noteq> Blank else e = char_class v (cs ! i)) (pos cs i)
      else Some (pos cs i)) = Some (pos cs w)"
    using skip_while_pos [OF assms(1) Suc.prems] joins_class_eta by (simp add: w_def)
  moreover have "blanks_from v cs w \<le> length cs" using blanks_from_bounds [OF w] by simp
  ultimately show ?case
    using Suc assms(1) w by (simp add: pos_simps class_at_pos rd_def skip_blanks_pos Let_def flip: w_def)
qed (use assms(1) in \<open>simp add: pos_simps\<close>)

lemma word_end_pos:
  assumes "scalars cs" "i \<le> length cs"
  shows "word_end v (view cs) big n (pos cs i) = Some (pos cs (end_from v cs big n i))"
  using assms(2)
proof (induction n arbitrary: i)
  case (Suc n)
  have last: "mt_previous (view cs) (pos cs (length cs)) = Some (pos cs (length cs - 1))"
    using assms(1) by (simp add: view_previous)
  show ?case
  proof (cases "length cs \<le> i + 1")
    case True
    then show ?thesis using assms(1) Suc.prems last by (simp add: pos_simps min_absorb2)
  next
    case False
    define j where "j = run_from (\<lambda>c. char_class v c = Blank) cs (i + 1)"
    define k where "k = run_from (joins_class v big (char_class v (cs ! j))) cs (j + 1)"
    have j: "j \<le> length cs" using run_from_bounds [of "i + 1" cs] False by (auto simp: j_def)
    have step: "mt_next (view cs) (pos cs i) = Some (pos cs (i + 1))" "pos cs (i + 1) < pos cs (length cs)"
      using view_next [OF assms(1) Suc.prems] False by (simp_all add: pos_less)
    have skip: "skip_while v (view cs) (\<lambda>c. c = Blank) (pos cs (i + 1)) = Some (pos cs j)"
      using skip_while_pos [OF assms(1), of "i + 1" v "\<lambda>c. c = Blank"] False by (simp add: j_def)
    have e: "end_from v cs big (Suc n) i = (if length cs \<le> j then length cs - 1 else end_from v cs big n (k - 1))"
      using False by (simp add: Let_def j_def k_def)
    show ?thesis
    proof (cases "j < length cs")
      case True
      have "run_ahead v (view cs) (\<lambda>d. if big then d \<noteq> Blank else d = char_class v (cs ! j)) (pos cs j) = Some (pos cs (k - 1))"
        using run_ahead_pos [OF assms(1) True, of v "\<lambda>d. if big then d \<noteq> Blank else d = char_class v (cs ! j)"] joins_class_eta
        by (simp add: k_def)
      moreover have "k \<le> length cs" using run_from_bounds [of "j + 1" cs] True by (simp add: k_def)
      ultimately show ?thesis
        unfolding e using Suc.IH [of "k - 1"] assms(1) True step skip pos_less [OF True order_refl]
        by (simp add: view_end class_at_pos rd_def)
    next
      case False
      then show ?thesis unfolding e using assms(1) step skip j last by (simp add: view_end)
    qed
  qed
qed (use assms(1) in \<open>simp add: pos_simps\<close>)

lemma word_back_pos:
  assumes "scalars cs" "i \<le> length cs"
  shows "word_back v (view cs) big n (pos cs i) = Some (pos cs (back_to v cs big n i))"
  using assms(2)
proof (induction n arbitrary: i)
  case (Suc n)
  show ?case
  proof (cases "i = 0")
    case False
    define j where "j = back_from (\<lambda>c. char_class v c = Blank) cs (i - 1)"
    define k where "k = back_run (joins_class v big (char_class v (cs ! j))) cs j"
    have j: "j < length cs" "i - 1 < length cs"
      using back_bounds(1) [of "\<lambda>c. char_class v c = Blank" cs "i - 1"] Suc.prems False unfolding j_def by linarith+
    have k: "k \<le> length cs" using back_bounds(2) [of "joins_class v big (char_class v (cs ! j))" cs j] j by (simp add: k_def)
    have step: "mt_previous (view cs) (pos cs i) = Some (pos cs (i - 1))" "pos cs i \<noteq> 0"
      using view_previous [OF assms(1) Suc.prems] pos_pos [OF Suc.prems] False by simp_all
    have skip: "back_while v (view cs) (\<lambda>c. c = Blank) (pos cs (i - 1)) = Some (pos cs j)"
      using back_while_pos [OF assms(1) j(2), of v "\<lambda>c. c = Blank"] by (simp add: j_def)
    have run: "run_back v (view cs) (\<lambda>d. if big then d \<noteq> Blank else d = char_class v (cs ! j)) (pos cs j) = Some (pos cs k)"
      using run_back_pos [OF assms(1) j(1), of v "\<lambda>d. if big then d \<noteq> Blank else d = char_class v (cs ! j)"] joins_class_eta
      by (simp add: k_def)
    have "back_to v cs big (Suc n) i = (if char_class v (cs ! j) = Blank then 0 else back_to v cs big n k)"
      using False by (simp add: Let_def j_def k_def)
    then show ?thesis
      using Suc.IH [OF k] assms(1) step skip run j by (simp add: class_at_pos rd_def pos_0)
  qed (simp add: pos_0)
qed simp

end

end
