(* ===== verification/Vi_Index.thy ===== *)
theory Vi_Index
  imports Vi_Views
begin

text \<open>
  The index of a text (\<open>Buffer\<close> in \<open>festerm-document/src/vi.rs\<close>): characters against byte offsets, and
  the structure of the lines, by which a line number, the start of its line and the end of its line
  determine each other.
\<close>

section \<open>Characters and bytes\<close>

definition indexed_ok :: "vi_buffer \<Rightarrow> bool" where
  "indexed_ok b \<longleftrightarrow> scalars (vb_chars b) \<and> vb_starts b = byte_starts 0 (vb_chars b)"

lemma buffer_of_ok [simp]: "scalars cs \<Longrightarrow> indexed_ok (buffer_of (str_bytes cs))" "scalars cs \<Longrightarrow> vb_chars (buffer_of (str_bytes cs)) = cs"
  by (simp_all add: indexed_ok_def buffer_of_def)

lemma length_byte_starts [simp]: "length (byte_starts k cs) = Suc (length cs)"
  by (induction cs arbitrary: k) auto

lemma offset_Cons: "offset (c # cs) (Suc i) = len_utf8 c + offset cs i"
  by (simp add: offset_def len_encode)

lemma nth_byte_starts: "i \<le> length cs \<Longrightarrow> byte_starts k cs ! i = k + offset cs i"
proof (induction cs arbitrary: k i)
  case (Cons c cs)
  then show ?case by (cases i) (simp_all add: offset_Cons)
qed simp

lemma byte_starts_offsets: "byte_starts 0 cs = map (offset cs) [0..<Suc (length cs)]"
  by (rule nth_equalityI) (simp_all add: nth_byte_starts del: upt_Suc)

lemma byte_at_offset: "indexed_ok b \<Longrightarrow> byte_at b i = offset (vb_chars b) i"
  by (simp add: indexed_ok_def byte_at_def nchars_def nth_byte_starts offset_min)

lemma ci_of_offset:
  assumes "indexed_ok b" "i \<le> nchars b"
  shows "ci_of_byte b (offset (vb_chars b) i) = i"
proof -
  have "filter (\<lambda>j. offset (vb_chars b) j < offset (vb_chars b) i) [0..<Suc (nchars b)] = filter (\<lambda>j. j < i) [0..<Suc (nchars b)]"
    by (rule filter_cong) (use assms(2) in \<open>auto simp: nchars_def borrowed.pos_lt\<close>)
  also have "\<dots> = filter (\<lambda>j. j < i) ([0..<i] @ [i..<Suc (nchars b)])"
    using assms(2) upt_add_eq_append [of 0 i "Suc (nchars b) - i"] by (simp del: upt_Suc)
  also have "\<dots> = [0..<i]" by (simp add: filter_empty_conv del: upt_Suc)
  finally have "filter (\<lambda>j. offset (vb_chars b) j < offset (vb_chars b) i) [0..<Suc (nchars b)] = [0..<i]" .
  then have "length (filter (\<lambda>s. s < offset (vb_chars b) i) (vb_starts b)) = i"
    using assms(1) by (simp add: indexed_ok_def byte_starts_offsets filter_map o_def nchars_def del: upt_Suc)
  then show ?thesis using assms by (simp add: ci_of_byte_def Let_def indexed_ok_def nchars_def nth_byte_starts)
qed

lemma ci_of_byte_le: "indexed_ok b \<Longrightarrow> ci_of_byte b k \<le> nchars b"
proof -
  assume ok: "indexed_ok b"
  have "length (filter (\<lambda>s. s < k) (vb_starts b)) \<le> Suc (nchars b)"
    using length_filter_le [of "\<lambda>s. s < k" "vb_starts b"] ok unfolding indexed_ok_def nchars_def
    by (metis length_byte_starts)
  moreover have "length (vb_starts b) = Suc (nchars b)" using ok by (simp add: indexed_ok_def nchars_def)
  ultimately show ?thesis by (auto simp: ci_of_byte_def Let_def)
qed

lemma buf_slice_exact:
  "start \<le> stop \<Longrightarrow> start \<le> nchars b \<Longrightarrow> buf_slice b start stop = Some (str_bytes (slice start (min stop (nchars b) - start) (vb_chars b)))"
  by (simp add: buf_slice_def rd_range_def nchars_def min_def)

section \<open>Ends of lines\<close>

definition begins :: "str \<Rightarrow> nat \<Rightarrow> nat" where
  "begins cs i = extent ((=) NL) (take i cs)"

definition ends :: "str \<Rightarrow> nat \<Rightarrow> nat" where
  "ends cs i = i + length (takeWhile ((\<noteq>) NL) (drop i cs))"

lemma line_start_begins: "line_start b i = begins (vb_chars b) i"
  by (simp add: line_start_def begins_def nchars_def min_def)

lemma line_end_ends: "i \<le> nchars b \<Longrightarrow> line_end b i = ends (vb_chars b) i"
  by (simp add: line_end_def ends_def Let_def min_def)

lemma begins_le: "begins cs i \<le> i"
  using extent_le [of "(=) NL" "take i cs"] by (simp add: begins_def)

lemma begins_newline: "0 < begins cs i \<Longrightarrow> cs ! (begins cs i - 1) = NL"
proof -
  assume a: "0 < begins cs i"
  have "begins cs i - 1 < i" using begins_le [of cs i] a by linarith
  then show ?thesis using extent_last [of "(=) NL" "take i cs"] a by (simp add: begins_def)
qed

lemma begins_inside: "begins cs i \<le> j \<Longrightarrow> j < i \<Longrightarrow> i \<le> length cs \<Longrightarrow> cs ! j \<noteq> NL"
  using extent_above [of "(=) NL" "take i cs" j] by (auto simp: begins_def)

lemma begins_unique:
  assumes "k \<le> i" "i \<le> length cs" "0 < k \<Longrightarrow> cs ! (k - 1) = NL" "\<And>j. k \<le> j \<Longrightarrow> j < i \<Longrightarrow> cs ! j \<noteq> NL"
  shows "begins cs i = k"
  unfolding begins_def by (rule extent_unique) (use assms in \<open>auto simp: eq_commute [of NL]\<close>)

lemma ends_bounds: "i \<le> ends cs i" "i \<le> length cs \<Longrightarrow> ends cs i \<le> length cs"
  using length_takeWhile_le [of "(\<noteq>) NL" "drop i cs"] by (auto simp: ends_def)

lemma ends_newline: "i \<le> length cs \<Longrightarrow> ends cs i < length cs \<Longrightarrow> cs ! ends cs i = NL"
  using nth_length_takeWhile [of "(\<noteq>) NL" "drop i cs"] by (simp add: ends_def)

lemma ends_inside: "i \<le> length cs \<Longrightarrow> i \<le> j \<Longrightarrow> j < ends cs i \<Longrightarrow> cs ! j \<noteq> NL"
proof -
  assume a: "i \<le> length cs" "i \<le> j" "j < ends cs i"
  then have l: "j - i < length (takeWhile ((\<noteq>) NL) (drop i cs))" by (simp add: ends_def)
  then have "takeWhile ((\<noteq>) NL) (drop i cs) ! (j - i) = cs ! j"
    using a by (simp add: takeWhile_nth)
  then show ?thesis using nth_mem [OF l] set_takeWhileD by metis
qed

lemma ends_unique:
  assumes "i \<le> k" "k \<le> length cs" "k < length cs \<Longrightarrow> cs ! k = NL" "\<And>j. i \<le> j \<Longrightarrow> j < k \<Longrightarrow> cs ! j \<noteq> NL"
  shows "ends cs i = k"
proof (rule linorder_cases [of "ends cs i" k])
  assume "ends cs i < k"
  then show ?thesis using assms ends_newline [of i cs] ends_bounds(1) [of i cs] by auto
next
  assume "k < ends cs i"
  then show ?thesis using assms ends_inside [of i cs k] ends_bounds(2) [of i cs] by auto
qed

text \<open>The ends of a line are the same from every place on it.\<close>

lemma begins_same: "begins cs i \<le> j \<Longrightarrow> j \<le> i \<Longrightarrow> i \<le> length cs \<Longrightarrow> begins cs j = begins cs i"
  by (rule begins_unique) (auto dest: begins_newline begins_inside)

lemma ends_same: "i \<le> j \<Longrightarrow> j \<le> ends cs i \<Longrightarrow> i \<le> length cs \<Longrightarrow> ends cs j = ends cs i"
  by (rule ends_unique) (auto intro: ends_newline dest: ends_bounds(2) ends_inside [of i cs, OF _ order_trans])

lemma begins_ends: "i \<le> length cs \<Longrightarrow> begins cs (ends cs i) = begins cs i"
proof (rule begins_unique)
  fix j
  assume a: "i \<le> length cs" "begins cs i \<le> j" "j < ends cs i"
  then show "cs ! j \<noteq> NL" using begins_inside [of cs i j] ends_inside [of i cs j] by (cases "j < i") auto
qed (use begins_le [of cs i] ends_bounds [of i cs] begins_newline [of cs i] in auto)

lemma ends_begins: "i \<le> length cs \<Longrightarrow> ends cs (begins cs i) = ends cs i"
proof (rule ends_unique)
  fix j
  assume a: "i \<le> length cs" "begins cs i \<le> j" "j < ends cs i"
  then show "cs ! j \<noteq> NL" using begins_inside [of cs i j] ends_inside [of i cs j] by (cases "j < i") auto
qed (use begins_le [of cs i] ends_bounds [of i cs] ends_newline [of i cs] in auto)

section \<open>Line numbers\<close>

definition newlines :: "str \<Rightarrow> nat \<Rightarrow> nat" where
  "newlines cs i = length (filter ((=) NL) (take i cs))"

lemma line_index_newlines: "line_index b i = newlines (vb_chars b) i"
  by (simp add: line_index_def newlines_def nchars_def min_def)

lemma line_count_newlines: "buf_line_count b = newlines (vb_chars b) (nchars b) + 1"
  by (simp add: buf_line_count_def newlines_def nchars_def)

lemma newlines_split: "i \<le> j \<Longrightarrow> newlines cs j = newlines cs i + length (filter ((=) NL) (slice i (j - i) cs))"
proof -
  assume "i \<le> j"
  then have "take j cs = take i cs @ slice i (j - i) cs" by (metis le_add_diff_inverse slice_def take_add)
  then show ?thesis by (simp add: newlines_def)
qed

lemma newlines_mono: "i \<le> j \<Longrightarrow> newlines cs i \<le> newlines cs j"
  using newlines_split [of i j cs] by linarith

lemma newlines_Suc: "i < length cs \<Longrightarrow> newlines cs (Suc i) = newlines cs i + (if cs ! i = NL then 1 else 0)"
  by (simp add: newlines_def take_Suc_conv_app_nth)

lemma newlines_same: "i \<le> j \<Longrightarrow> j \<le> length cs \<Longrightarrow> (\<And>k. i \<le> k \<Longrightarrow> k < j \<Longrightarrow> cs ! k \<noteq> NL) \<Longrightarrow> newlines cs j = newlines cs i"
proof (induction j)
  case (Suc j)
  then show ?case by (cases "i = Suc j") (auto simp: newlines_Suc)
qed simp

lemma newlines_begins: "i \<le> length cs \<Longrightarrow> newlines cs (begins cs i) = newlines cs i"
  by (rule newlines_same [symmetric]) (auto simp: begins_le dest: begins_inside)

lemma newlines_ends: "i \<le> length cs \<Longrightarrow> newlines cs (ends cs i) = newlines cs i"
  by (rule newlines_same) (auto simp: ends_bounds dest: ends_inside)

lemma newlines_below: "i \<le> length cs \<Longrightarrow> ends cs i < length cs \<Longrightarrow> newlines cs (ends cs i + 1) = newlines cs i + 1"
  using newlines_Suc [of "ends cs i" cs] ends_newline [of i cs] newlines_ends [of i cs] by simp

lemma newlines_last: "i \<le> length cs \<Longrightarrow> ends cs i = length cs \<longleftrightarrow> newlines cs i = newlines cs (length cs)"
proof -
  assume a: "i \<le> length cs"
  show ?thesis
  proof
    assume "ends cs i = length cs"
    then show "newlines cs i = newlines cs (length cs)" using newlines_ends [OF a] by simp
  next
    assume n: "newlines cs i = newlines cs (length cs)"
    show "ends cs i = length cs"
    proof (rule ccontr)
      assume "ends cs i \<noteq> length cs"
      then have l: "ends cs i < length cs" using ends_bounds(2) [OF a] by simp
      then have "newlines cs (ends cs i + 1) \<le> newlines cs (length cs)" by (intro newlines_mono) simp
      then show False using newlines_below [OF a l] n by simp
    qed
  qed
qed

text \<open>A line number names a line when some place is on it.\<close>

lemma line_exists:
  assumes "m \<le> newlines cs (length cs)"
  obtains i where "i \<le> length cs" "newlines cs i = m"
  using assms
proof (induction m arbitrary: thesis)
  case 0
  show ?case by (rule "0.prems"(1) [of 0]) (simp_all add: newlines_def)
next
  case (Suc m)
  obtain i where i: "i \<le> length cs" "newlines cs i = m" using Suc.IH Suc.prems(2) by auto
  then have "ends cs i \<noteq> length cs" using newlines_last [of i cs] Suc.prems(2) by auto
  then have "ends cs i < length cs" using ends_bounds(2) [OF i(1)] by simp
  then show ?case using Suc.prems(1) [of "ends cs i + 1"] newlines_below i by simp
qed

lemma nth_start_newlines:
  "q \<le> length cs \<Longrightarrow> 0 < newlines cs q \<Longrightarrow> nth_start cs (newlines cs q) i = i + begins cs q"
proof (induction cs arbitrary: q i)
  case (Cons c cs)
  then obtain p where q: "q = Suc p" by (cases q) (simp_all add: newlines_def)
  have p: "p \<le> length cs" using Cons.prems(1) q by simp
  have e: "begins cs p = 0 \<longleftrightarrow> newlines cs p = 0"
    by (auto simp: begins_def newlines_def extent_0 filter_empty_conv)
  have b: "begins (c # cs) q = (if begins cs p = 0 then if c = NL then 1 else 0 else Suc (begins cs p))"
    by (auto simp: begins_def q Let_def)
  have n: "newlines (c # cs) q = (if c = NL then 1 else 0) + newlines cs p" by (auto simp: newlines_def q)
  show ?case using Cons.IH [OF p] Cons.prems(2) e unfolding b n by auto
qed (simp add: newlines_def)

lemma nth_line_start_index: "i \<le> nchars b \<Longrightarrow> nth_line_start b (line_index b i) = line_start b i"
  using nth_start_newlines [of i "vb_chars b" 0]
  by (auto simp: nth_line_start_def line_index_newlines line_start_begins nchars_def begins_def newlines_def extent_0 filter_empty_conv)

section \<open>Lines by number\<close>

lemma line_start_le: "line_start b i \<le> i"
  by (simp add: line_start_begins begins_le)

lemma line_end_bounds: "i \<le> nchars b \<Longrightarrow> i \<le> line_end b i" "line_end b i \<le> nchars b"
proof -
  show "i \<le> nchars b \<Longrightarrow> i \<le> line_end b i" by (simp add: line_end_ends ends_bounds)
  have "ends (vb_chars b) (min i (nchars b)) \<le> length (vb_chars b)" by (rule ends_bounds(2)) (simp add: nchars_def)
  then show "line_end b i \<le> nchars b" by (simp add: line_end_def ends_def Let_def nchars_def)
qed

lemma first_non_blank_bounds: "i \<le> nchars b \<Longrightarrow> i \<le> first_non_blank b i" "i \<le> nchars b \<Longrightarrow> first_non_blank b i \<le> line_end b i"
proof -
  let ?s = "slice i (line_end b i - i) (vb_chars b)"
  have "length (takeWhile (\<lambda>c. c = 0x20 \<or> c = 0x09) ?s) \<le> length ?s" by (rule length_takeWhile_le)
  moreover have "length ?s \<le> line_end b i - i" by (simp add: slice_def)
  ultimately show "i \<le> nchars b \<Longrightarrow> i \<le> first_non_blank b i" "i \<le> nchars b \<Longrightarrow> first_non_blank b i \<le> line_end b i"
    using line_end_bounds(1) [of i b] by (auto simp: first_non_blank_def)
qed

lemma first_non_blank_le: "i \<le> nchars b \<Longrightarrow> first_non_blank b i \<le> nchars b"
  using first_non_blank_bounds(2) [of i b] line_end_bounds(2) [of b i] by linarith

lemma line_index_le: "line_index b i \<le> buf_line_count b - 1"
proof (cases "i \<le> nchars b")
  case True
  then show ?thesis using newlines_mono [of i "nchars b" "vb_chars b"] by (simp add: line_index_newlines line_count_newlines)
qed (simp add: line_index_newlines line_count_newlines newlines_def nchars_def)

lemma line_index_mono: "i \<le> j \<Longrightarrow> line_index b i \<le> line_index b j"
  by (simp add: line_index_newlines newlines_mono)

lemma line_count_pos: "0 < buf_line_count b"
  by (simp add: line_count_newlines)

text \<open>A place on a line given by its number.\<close>

lemma place_on_line:
  assumes "m \<le> buf_line_count b - 1"
  obtains i where "i \<le> nchars b" "line_index b i = m" "nth_line_start b m = line_start b i" "line_end_by_line b m = line_end b i"
proof -
  obtain i where i: "i \<le> nchars b" "newlines (vb_chars b) i = m"
    using line_exists [of m "vb_chars b"] assms by (auto simp: line_count_newlines nchars_def)
  then have s: "nth_line_start b m = line_start b i" using nth_line_start_index [of i b] by (simp add: line_index_newlines)
  moreover have "line_start b i \<le> nchars b" using line_start_le [of b i] i(1) by linarith
  ultimately show thesis
    using that [of i] i
    by (simp add: line_end_by_line_def line_index_newlines line_end_ends line_start_begins ends_begins nchars_def)
qed

lemma nth_start_le: "nth_start cs m i \<le> i + length cs"
proof (induction cs m i rule: nth_start.induct)
  case (2 c cs n i)
  then show ?case by (cases "c = NL") auto
qed simp

lemma nth_line_start_le: "nth_line_start b m \<le> nchars b"
  using nth_start_le [of "vb_chars b" m 0] by (simp add: nth_line_start_def nchars_def)

lemma nth_line_start_galois:
  assumes "m \<le> buf_line_count b - 1" "i \<le> nchars b"
  shows "nth_line_start b m \<le> i \<longleftrightarrow> m \<le> line_index b i"
proof -
  let ?cs = "vb_chars b"
  obtain p where p: "p \<le> nchars b" "line_index b p = m" "nth_line_start b m = line_start b p"
    using place_on_line [OF assms(1)] by blast
  have s: "newlines ?cs (begins ?cs p) = m" using p newlines_begins [of p ?cs] by (simp add: nchars_def line_index_newlines)
  show ?thesis
  proof
    assume "nth_line_start b m \<le> i"
    then show "m \<le> line_index b i" using s newlines_mono [of "begins ?cs p" i ?cs] p(3) by (simp add: line_index_newlines line_start_begins)
  next
    assume m: "m \<le> line_index b i"
    show "nth_line_start b m \<le> i"
    proof (rule ccontr)
      assume "\<not> nth_line_start b m \<le> i"
      then have i: "i \<le> begins ?cs p - 1" "0 < begins ?cs p" using p(3) by (simp_all add: line_start_begins)
      have "begins ?cs p \<le> length ?cs" using begins_le [of ?cs p] p(1) by (simp add: nchars_def)
      then have "newlines ?cs (begins ?cs p) = newlines ?cs (begins ?cs p - 1) + 1"
        using newlines_Suc [of "begins ?cs p - 1" ?cs] begins_newline [OF i(2)] i(2) by simp
      then show False using newlines_mono [OF i(1), of ?cs] s m by (simp add: line_index_newlines)
    qed
  qed
qed

lemma line_index_nth: "m \<le> buf_line_count b - 1 \<Longrightarrow> line_index b (nth_line_start b m) = m"
proof -
  assume m: "m \<le> buf_line_count b - 1"
  then obtain i where i: "i \<le> nchars b" "line_index b i = m" "nth_line_start b m = line_start b i" by (rule place_on_line)
  then show ?thesis using newlines_begins [of i "vb_chars b"] by (simp add: line_index_newlines line_start_begins nchars_def)
qed

lemma nth_line_start_mono: "m \<le> k \<Longrightarrow> k \<le> buf_line_count b - 1 \<Longrightarrow> nth_line_start b m \<le> nth_line_start b k"
  by (subst nth_line_start_galois) (simp_all add: line_index_nth nth_line_start_le)

lemma line_end_by_line_bounds:
  "nth_line_start b m \<le> line_end_by_line b m" "line_end_by_line b m \<le> nchars b"
  using line_end_bounds(1) [of "nth_line_start b m" b] line_end_bounds(2) [of b "nth_line_start b m"] nth_line_start_le [of b m] by (auto simp: line_end_by_line_def)

lemma line_index_end: "m \<le> buf_line_count b - 1 \<Longrightarrow> line_index b (line_end_by_line b m) = m"
proof -
  assume m: "m \<le> buf_line_count b - 1"
  then obtain i where i: "i \<le> nchars b" "line_index b i = m" "line_end_by_line b m = line_end b i" by (rule place_on_line)
  then show ?thesis using newlines_ends [of i "vb_chars b"] by (simp add: line_index_newlines line_end_ends nchars_def)
qed

lemma line_end_next:
  assumes "m \<le> buf_line_count b - 1"
  shows "line_end_by_line b m < nchars b \<longleftrightarrow> m < buf_line_count b - 1"
    "m < buf_line_count b - 1 \<Longrightarrow> nth_line_start b (m + 1) = line_end_by_line b m + 1"
proof -
  let ?cs = "vb_chars b"
  obtain i where i: "i \<le> nchars b" "line_index b i = m" "line_end_by_line b m = line_end b i" using assms by (rule place_on_line)
  have e: "line_end_by_line b m = ends ?cs i" "newlines ?cs i = m" "i \<le> length ?cs"
    using i by (simp_all add: line_end_ends line_index_newlines nchars_def)
  show *: "line_end_by_line b m < nchars b \<longleftrightarrow> m < buf_line_count b - 1"
    using newlines_last [OF e(3)] ends_bounds(2) [OF e(3)] newlines_mono [OF e(3), of ?cs] e(1,2)
    by (auto simp: line_count_newlines nchars_def)
  assume "m < buf_line_count b - 1"
  then have l: "ends ?cs i < length ?cs" using * e(1) by (simp add: nchars_def)
  have "line_index b (ends ?cs i + 1) = m + 1" using newlines_below [OF e(3) l] e(2) by (simp add: line_index_newlines)
  moreover have "line_start b (ends ?cs i + 1) = ends ?cs i + 1"
    unfolding line_start_begins by (rule begins_unique) (use l ends_newline [OF e(3) l] in auto)
  ultimately show "nth_line_start b (m + 1) = line_end_by_line b m + 1"
    using nth_line_start_index [of "ends ?cs i + 1" b] l e(1) by (simp add: nchars_def)
qed

lemma line_end_by_line_mono: "m \<le> k \<Longrightarrow> k \<le> buf_line_count b - 1 \<Longrightarrow> line_end_by_line b m \<le> line_end_by_line b k"
proof (cases "m = k")
  case False
  assume a: "m \<le> k" "k \<le> buf_line_count b - 1"
  then have "line_end_by_line b m + 1 = nth_line_start b (m + 1)" using False line_end_next(2) [of m b] by simp
  also have "\<dots> \<le> nth_line_start b k" using nth_line_start_mono [of "m + 1" k b] a False by simp
  also have "\<dots> \<le> line_end_by_line b k" by (rule line_end_by_line_bounds)
  finally show ?thesis by simp
qed simp

lemma on_its_line: "i \<le> nchars b \<Longrightarrow> nth_line_start b (line_index b i) \<le> i" "i \<le> nchars b \<Longrightarrow> line_end_by_line b (line_index b i) = line_end b i"
  by (simp_all add: nth_line_start_index line_start_le line_end_by_line_def line_end_ends line_start_begins begins_le ends_begins nchars_def
      order_trans [OF begins_le])

end
