(* ===== verification/Vi_Motions.thy ===== *)
theory Vi_Motions
  imports Vi_Keys Vi_Index Edit_Doc_Inv
begin

text \<open>
  The motions that run over the borrowed text compute what the motions over the index compute: each
  loop of \<open>borrowed_motion\<close> ends at the offset of the character its counterpart in \<open>resolve_motion\<close> and
  \<open>move_cursor\<close> ends at.
\<close>

section \<open>Lines of bytes\<close>

lemma ascii_byte_iff: "is_scalar c \<Longrightarrow> w < 0x80 \<Longrightarrow> w \<in> set (encode_utf8 c) \<longleftrightarrow> c = unat w"
proof -
  assume c: "is_scalar c" and w: "w < 0x80"
  show ?thesis
  proof (cases "c < 0x80")
    case True
    then have u: "unat (u8_of_nat c) = c" by simp
    have "w = u8_of_nat c \<longleftrightarrow> unat w = c" using u by (metis unsigned_word_eqI)
    then show ?thesis using True by (auto simp: encode_ascii)
  next
    case False
    obtain b bs where e: "encode_utf8 c = b # bs" "\<not> cont b" "\<forall>x \<in> set bs. cont x" using c by (rule encode_shape)
    have "decode_step (b # bs) = Some (c, length (b # bs))" using decode_step_encode [OF c, of "[]"] e(1) by simp
    then have "\<not> b < 0x80" using False by (auto simp: decode_step_def word_less_nat_alt split: if_splits)
    moreover have "\<not> cont w" using w by (auto simp: cont_def word_le_nat_alt word_less_nat_alt)
    moreover have "unat w < 0x80" using w by (simp add: word_less_nat_alt)
    ultimately show ?thesis using e False w by auto
  qed
qed

lemma newline_byte: "is_scalar c \<Longrightarrow> (0x0a :: u8) \<in> set (encode_utf8 c) \<longleftrightarrow> c = NL"
  by (simp add: ascii_byte_iff NL_def)

lemma extent_bytes: "scalars cs \<Longrightarrow> extent ((=) 0x0a) (str_bytes cs) = offset cs (extent ((=) NL) cs)"
proof (induction cs rule: rev_induct)
  case (snoc c cs)
  show ?case
  proof (cases "c = NL")
    case True
    then have "encode_utf8 c = [0x0a]" by (simp add: NL_def encode_utf8_def u8_of_nat_def)
    then show ?thesis using True by (simp add: extent_append offset_all)
  next
    case False
    then have z: "extent ((=) 0x0a) (encode_utf8 c) = 0" using snoc.prems newline_byte [of c] by (auto simp: extent_0)
    have "extent ((=) 0x0a) (str_bytes cs @ encode_utf8 c) = offset cs (extent ((=) NL) cs)"
      using snoc by (simp only: extent_append z if_True scalars_simps refl)
    moreover have "offset (cs @ [c]) (extent ((=) NL) cs) = offset cs (extent ((=) NL) cs)"
      using extent_le [of "(=) NL" cs] by (simp add: offset_def)
    moreover have "extent ((=) NL) (cs @ [c]) = extent ((=) NL) cs" "str_bytes (cs @ [c]) = str_bytes cs @ encode_utf8 c"
      using False by (simp_all add: extent_append)
    ultimately show ?thesis by (simp only:)
  qed
qed simp

lemma takeWhile_bytes:
  "scalars cs \<Longrightarrow> (\<And>c. c \<in> set cs \<Longrightarrow> Q c \<Longrightarrow> \<forall>x \<in> set (encode_utf8 c). P x) \<Longrightarrow>
   (\<And>c. c \<in> set cs \<Longrightarrow> \<not> Q c \<Longrightarrow> \<not> P (hd (encode_utf8 c))) \<Longrightarrow> takeWhile P (str_bytes cs) = str_bytes (takeWhile Q cs)"
proof (induction cs)
  case (Cons c cs)
  show ?case
  proof (cases "Q c")
    case True
    have "takeWhile P (str_bytes cs) = str_bytes (takeWhile Q cs)" by (rule Cons.IH) (use Cons.prems in auto)
    moreover have "\<forall>x \<in> set (encode_utf8 c). P x" using Cons.prems(2) [OF _ True] by simp
    ultimately show ?thesis using True by simp
  next
    case False
    then show ?thesis using Cons.prems(3) [of c] by (cases "encode_utf8 c") auto
  qed
qed simp

lemma hd_ascii: "c < 0x80 \<Longrightarrow> hd (encode_utf8 c) = u8_of_nat c"
  by (simp add: encode_ascii)

lemma line_bytes: "scalars cs \<Longrightarrow> takeWhile ((\<noteq>) 0x0a) (str_bytes cs) = str_bytes (takeWhile ((\<noteq>) NL) cs)"
proof (rule takeWhile_bytes)
  show "\<And>c. scalars cs \<Longrightarrow> c \<in> set cs \<Longrightarrow> NL \<noteq> c \<Longrightarrow> \<forall>x \<in> set (encode_utf8 c). 0x0a \<noteq> x"
    using newline_byte by (auto simp: scalars_def)
qed (auto simp: NL_def encode_utf8_def u8_of_nat_def)

abbreviation vi_blank :: "scalar \<Rightarrow> bool" where
  "vi_blank c \<equiv> c = 0x20 \<or> c = 0x09"

lemma blank_bytes: "scalars cs \<Longrightarrow> leading_blank_bytes (str_bytes cs) = length (str_bytes (takeWhile vi_blank cs))"
proof -
  assume s: "scalars cs"
  have "takeWhile (\<lambda>b. b = 0x20 \<or> b = 0x09) (str_bytes cs) = str_bytes (takeWhile vi_blank cs)"
  proof (rule takeWhile_bytes [OF s])
    fix c
    assume c: "c \<in> set cs" "\<not> vi_blank c"
    have i: "is_scalar c" using s c(1) by (simp add: scalars_def)
    have "hd (encode_utf8 c) \<in> set (encode_utf8 c)" by simp
    moreover have "0x20 \<notin> set (encode_utf8 c)" "0x09 \<notin> set (encode_utf8 c)"
      using c(2) i by (simp_all add: ascii_byte_iff)
    ultimately show "\<not> (hd (encode_utf8 c) = 0x20 \<or> hd (encode_utf8 c) = 0x09)" by metis
  qed (auto simp: encode_utf8_def u8_of_nat_def)
  then show ?thesis by (simp add: leading_blank_bytes_def)
qed

lemma offset_drop: "i \<le> length cs \<Longrightarrow> offset cs i + length (str_bytes (take k (drop i cs))) = offset cs (i + k)"
  by (simp add: offset_def take_add)

lemma line_start_byte_offset: "scalars cs \<Longrightarrow> i \<le> length cs \<Longrightarrow> line_start_byte (str_bytes cs) (offset cs i) = Some (offset cs (begins cs i))"
proof -
  assume a: "scalars cs" "i \<le> length cs"
  have "extent ((=) NL) (take i cs) \<le> i" using extent_le [of "(=) NL" "take i cs"] by simp
  then have "offset (take i cs) (extent ((=) NL) (take i cs)) = offset cs (begins cs i)" by (simp add: offset_def begins_def min_absorb1)
  then show ?thesis using a by (simp add: line_start_byte_def slice_from_start extent_bytes)
qed

lemma line_end_byte_offset: "scalars cs \<Longrightarrow> i \<le> length cs \<Longrightarrow> line_end_byte (str_bytes cs) (offset cs i) = Some (offset cs (ends cs i))"
proof -
  assume a: "scalars cs" "i \<le> length cs"
  have "offset cs i + length (str_bytes (takeWhile ((\<noteq>) NL) (drop i cs))) = offset cs (ends cs i)"
    unfolding ends_def using offset_drop [OF a(2)] takeWhile_eq_take [of "(\<noteq>) NL" "drop i cs"] by metis
  then show ?thesis unfolding line_end_byte_def slice_to_end [OF a(1)] option.map line_bytes [OF scalars_parts(2) [OF a(1)]] by simp
qed

section \<open>The loops\<close>

abbreviation text_of :: "vi_buffer \<Rightarrow> bytes" where
  "text_of b \<equiv> str_bytes (vb_chars b)"

lemma indexed_scalars [simp]: "indexed_ok b \<Longrightarrow> scalars (vb_chars b)"
  by (simp add: indexed_ok_def)

lemma offset_newline: "cs ! i = NL \<Longrightarrow> i < length cs \<Longrightarrow> offset cs i + 1 = offset cs (i + 1)"
  using offset_Suc [of i cs] by (simp add: NL_def len_utf8_def)

lemma at_line_end_offset:
  "scalars cs \<Longrightarrow> i \<le> length cs \<Longrightarrow> at_line_end (str_bytes cs) (offset cs i) = Some (ends cs i = i)"
proof -
  assume a: "scalars cs" "i \<le> length cs"
  have "ends cs i = i \<longleftrightarrow> i = length cs \<or> cs ! i = NL"
    using ends_newline [OF a(2)] ends_inside [OF a(2) order_refl] ends_bounds(1) [of i cs] ends_bounds(2) [OF a(2)] a(2)
    by (cases "ends cs i = i") (auto dest: le_neq_implies_less)
  then show ?thesis using a by (auto simp: at_line_end_def str_character_offset rd_def)
qed

lemma borrowed_left_offset:
  assumes "scalars cs" "i \<le> length cs"
  shows "begins cs i \<le> t \<Longrightarrow> t \<le> i \<Longrightarrow>
    borrowed_left (str_bytes cs) (offset cs (begins cs i)) n (offset cs t) = Some (offset cs (max (t - n) (begins cs i)))"
proof (induction n arbitrary: t)
  case (Suc n)
  have t: "t \<le> length cs" "begins cs i \<le> length cs" using Suc.prems assms begins_le [of cs i] by linarith+
  show ?case
  proof (cases "t = begins cs i")
    case False
    then have "begins cs i \<le> t - 1" "t - 1 \<le> i" using Suc.prems by linarith+
    then have "borrowed_left (str_bytes cs) (offset cs (begins cs i)) n (offset cs (t - 1)) = Some (offset cs (max (t - 1 - n) (begins cs i)))"
      by (rule Suc.IH)
    then show ?thesis using False t assms by (simp add: offset_inj str_previous_offset)
  qed simp
qed (simp add: max_def)

lemma ends_step: "t < ends cs t \<Longrightarrow> t \<le> length cs \<Longrightarrow> ends cs (t + 1) = ends cs t"
  by (rule ends_same) simp_all

lemma borrowed_right_offset:
  assumes "scalars cs"
  shows "t \<le> length cs \<Longrightarrow> borrowed_right (str_bytes cs) n (offset cs t) = Some (offset cs (min (t + n) (ends cs t)))"
proof (induction n arbitrary: t)
  case 0
  then show ?case using ends_bounds(1) [of t cs] by (simp add: min_def)
next
  case (Suc n)
  show ?case
  proof (cases "ends cs t = t")
    case True
    then show ?thesis using Suc.prems assms by (simp add: at_line_end_offset)
  next
    case False
    then have l: "t < ends cs t" "t < length cs" using ends_bounds(1) [of t cs] ends_bounds(2) [OF Suc.prems] by linarith+
    have "str_next (str_bytes cs) (offset cs t) = Some (offset cs (t + 1))"
      using borrowed.view_next [OF assms Suc.prems] l by (simp add: borrowed_text_def)
    moreover have "borrowed_right (str_bytes cs) n (offset cs (t + 1)) = Some (offset cs (min (t + 1 + n) (ends cs t)))"
      using Suc.IH [of "t + 1"] ends_step [OF l(1) Suc.prems] l by simp
    ultimately show ?thesis using False Suc.prems assms by (simp add: at_line_end_offset)
  qed
qed

lemma offset_total: "i \<le> length cs \<Longrightarrow> offset cs i = length (str_bytes cs) \<longleftrightarrow> i = length cs"
  using offset_inj [of i cs "length cs"] by (simp add: offset_all)

text \<open>From the end of a line to the start of the next.\<close>

lemma line_crossing:
  assumes "indexed_ok b" "m < buf_line_count b - 1"
  shows "offset (vb_chars b) (line_end_by_line b m) + 1 = offset (vb_chars b) (nth_line_start b (m + 1))"
    "offset (vb_chars b) (line_end_by_line b m) \<noteq> length (text_of b)"
proof -
  have m: "m \<le> buf_line_count b - 1" using assms(2) by simp
  obtain i where i: "i \<le> nchars b" "line_end_by_line b m = line_end b i" using m by (rule place_on_line)
  have l: "line_end_by_line b m < nchars b" using line_end_next(1) [OF m] assms(2) by simp
  then have "vb_chars b ! line_end_by_line b m = NL"
    using ends_newline [of i "vb_chars b"] i by (simp add: line_end_ends nchars_def)
  then show "offset (vb_chars b) (line_end_by_line b m) + 1 = offset (vb_chars b) (nth_line_start b (m + 1))"
    using offset_newline [of "vb_chars b" "line_end_by_line b m"] l line_end_next(2) [OF m assms(2)] by (simp add: nchars_def)
  show "offset (vb_chars b) (line_end_by_line b m) \<noteq> length (text_of b)"
    using l offset_total [of "line_end_by_line b m" "vb_chars b"] by (simp add: nchars_def)
qed

lemma line_end_byte_line:
  "indexed_ok b \<Longrightarrow> line_end_byte (text_of b) (offset (vb_chars b) (nth_line_start b m)) = Some (offset (vb_chars b) (line_end_by_line b m))"
  using nth_line_start_le [of b m] by (simp add: line_end_byte_offset line_end_by_line_def line_end_ends nchars_def)

lemma last_line_end:
  "indexed_ok b \<Longrightarrow> m = buf_line_count b - 1 \<Longrightarrow> offset (vb_chars b) (line_end_by_line b m) = length (text_of b)"
  using line_end_next(1) [of m b] line_end_by_line_bounds(2) [of b m] by (simp add: offset_all nchars_def)

lemma borrowed_ends_offset:
  "indexed_ok b \<Longrightarrow> m \<le> buf_line_count b - 1 \<Longrightarrow>
   borrowed_ends (text_of b) n (offset (vb_chars b) (line_end_by_line b m)) =
     Some (offset (vb_chars b) (line_end_by_line b (min (m + n) (buf_line_count b - 1))))"
proof (induction n arbitrary: m)
  case (Suc n)
  show ?case
  proof (cases "m = buf_line_count b - 1")
    case True
    then show ?thesis using Suc.prems by (simp add: last_line_end min_def)
  next
    case False
    then show ?thesis
      using Suc.IH [of "m + 1"] Suc.prems line_crossing [of b m] line_end_byte_line [of b "m + 1"] by simp
  qed
qed (simp add: min_def)

lemma borrowed_down_offset:
  "indexed_ok b \<Longrightarrow> m \<le> buf_line_count b - 1 \<Longrightarrow>
   borrowed_down (text_of b) n (offset (vb_chars b) (nth_line_start b m)) =
     Some (offset (vb_chars b) (nth_line_start b (min (m + n) (buf_line_count b - 1))))"
proof (induction n arbitrary: m)
  case (Suc n)
  show ?case
  proof (cases "m = buf_line_count b - 1")
    case True
    then show ?thesis using Suc.prems by (simp add: line_end_byte_line last_line_end min_def)
  next
    case False
    then show ?thesis using Suc.IH [of "m + 1"] Suc.prems line_crossing [of b m] by (simp add: line_end_byte_line)
  qed
qed (simp add: min_def)

lemma nth_line_start_0: "m \<le> buf_line_count b - 1 \<Longrightarrow> nth_line_start b m = 0 \<longleftrightarrow> m = 0"
  using nth_line_start_galois [of m b 0] by (simp add: line_index_newlines newlines_def)

lemma borrowed_up_offset:
  "indexed_ok b \<Longrightarrow> m \<le> buf_line_count b - 1 \<Longrightarrow>
   borrowed_up (text_of b) n (offset (vb_chars b) (nth_line_start b m)) = Some (offset (vb_chars b) (nth_line_start b (m - n)))"
proof (induction n arbitrary: m)
  case (Suc n)
  show ?case
  proof (cases m)
    case 0
    then show ?thesis by (simp add: nth_line_start_def)
  next
    case (Suc k)
    let ?cs = "vb_chars b"
    have k: "k < buf_line_count b - 1" "k \<le> buf_line_count b - 1" using Suc Suc.prems by simp_all
    have p: "offset ?cs (nth_line_start b m) - 1 = offset ?cs (line_end_by_line b k)" "offset ?cs (nth_line_start b m) \<noteq> 0"
      using line_crossing(1) [OF Suc.prems(1) k(1)] Suc by simp_all
    have "begins ?cs (line_end_by_line b k) = nth_line_start b k"
      using nth_line_start_index [OF line_end_by_line_bounds(2), of b k] line_index_end [OF k(2)] by (simp add: line_start_begins)
    then have "line_start_byte (text_of b) (offset ?cs (line_end_by_line b k)) = Some (offset ?cs (nth_line_start b k))"
      using line_start_byte_offset [of ?cs "line_end_by_line b k"] line_end_by_line_bounds(2) [of b k] Suc.prems(1)
      by (simp add: nchars_def)
    then show ?thesis using Suc.IH [OF Suc.prems(1) k(2)] p Suc by simp
  qed
qed simp

section \<open>Clamping to a line\<close>

lemma clamp_text_cursor_offset:
  assumes "indexed_ok b" "i \<le> nchars b"
  shows "clamp_text_cursor (text_of b) (offset (vb_chars b) i) = Some (vi_clamp_cursor b i)"
proof -
  let ?cs = "vb_chars b"
  have i: "i \<le> length ?cs" and s: "scalars ?cs" using assms by (simp_all add: nchars_def)
  have prior: "line_start b i < i \<longleftrightarrow> 0 < i \<and> ?cs ! (i - 1) \<noteq> NL"
  proof
    assume "line_start b i < i"
    then show "0 < i \<and> ?cs ! (i - 1) \<noteq> NL" using begins_inside [of ?cs i "i - 1"] i by (auto simp: line_start_begins)
  next
    assume "0 < i \<and> ?cs ! (i - 1) \<noteq> NL"
    then show "line_start b i < i"
      using begins_newline [of ?cs i] begins_le [of ?cs i] by (auto simp: line_start_begins le_less)
  qed
  have "offset ?cs i = 0 \<longleftrightarrow> i = 0" using borrowed.pos_pos [OF i] by auto
  then have "clamp_text_cursor (text_of b) (offset ?cs i) =
      Some (if ends ?cs i = i \<and> line_start b i < i then offset ?cs (i - 1) else offset ?cs i)"
    unfolding clamp_text_cursor_def prior
    using s i by (auto simp: at_line_end_offset str_previous_offset str_character_offset rd_def)
  moreover have "vi_clamp_cursor b i = (if ends ?cs i = i \<and> line_start b i < i then offset ?cs (i - 1) else offset ?cs i)"
    using ends_bounds(1) [of i ?cs] assms by (auto simp: vi_clamp_cursor_def line_end_ends byte_at_offset)
  ultimately show ?thesis by simp
qed

text \<open>Inside a line, or on an empty one, the clamp does nothing; at the end of another it steps back.\<close>

lemma clamp_inside: "i < line_end b i \<Longrightarrow> vi_clamp_cursor b i = byte_at b i"
  by (simp add: vi_clamp_cursor_def)

lemma clamp_end:
  assumes "m \<le> buf_line_count b - 1"
  shows "vi_clamp_cursor b (line_end_by_line b m) =
    (if nth_line_start b m < line_end_by_line b m then byte_at b (line_end_by_line b m - 1) else byte_at b (line_end_by_line b m))"
proof -
  let ?e = "line_end_by_line b m"
  have "line_start b ?e = nth_line_start b m"
    using nth_line_start_index [OF line_end_by_line_bounds(2), of b m] line_index_end [OF assms] by simp
  moreover have "line_end b ?e = ?e"
    using on_its_line(2) [OF line_end_by_line_bounds(2), of b m] line_index_end [OF assms] by simp
  ultimately show ?thesis by (simp add: vi_clamp_cursor_def)
qed

lemma clamp_within_line:
  assumes "m \<le> buf_line_count b - 1" "nth_line_start b m \<le> i" "i < line_end_by_line b m \<or> i = nth_line_start b m \<and> i = line_end_by_line b m"
  shows "vi_clamp_cursor b i = byte_at b i"
proof (cases "i < line_end_by_line b m")
  case True
  let ?cs = "vb_chars b" and ?s = "nth_line_start b m"
  have s: "?s \<le> length ?cs" using nth_line_start_le [of b m] by (simp add: nchars_def)
  have n: "i \<le> nchars b" using True line_end_by_line_bounds(2) [of b m] by simp
  have "ends ?cs i = ends ?cs ?s"
    by (rule ends_same) (use True assms s in \<open>simp_all add: line_end_by_line_def line_end_ends nchars_def\<close>)
  then have "line_end b i = line_end_by_line b m" using s n by (simp add: line_end_by_line_def line_end_ends nchars_def)
  then show ?thesis using True by (simp add: clamp_inside)
next
  case False
  then show ?thesis using assms clamp_end [OF assms(1)] by auto
qed

lemma blank_prefix_end_offset:
  assumes "indexed_ok b" "i \<le> nchars b"
  shows "blank_prefix_end (text_of b) (offset (vb_chars b) i) = Some (offset (vb_chars b) (first_non_blank b i))"
proof -
  let ?cs = "vb_chars b"
  let ?d = "drop i ?cs"
  have i: "i \<le> length ?cs" using assms(2) by (simp add: nchars_def)
  have sl: "slice i (line_end b i - i) ?cs = takeWhile ((\<noteq>) NL) ?d"
    using assms(2) by (simp add: line_end_ends slice_def ends_def flip: takeWhile_eq_take)
  have "takeWhile vi_blank (takeWhile ((\<noteq>) NL) ds) = takeWhile vi_blank ds" for ds by (induction ds) (auto simp: NL_def)
  then have f: "first_non_blank b i = i + length (takeWhile vi_blank ?d)" using sl by (simp only: first_non_blank_def)
  have "offset ?cs i + length (str_bytes (takeWhile vi_blank ?d)) = offset ?cs (first_non_blank b i)"
    unfolding f using offset_drop [OF i] takeWhile_eq_take [of vi_blank ?d] by metis
  then show ?thesis using assms(1) by (simp add: blank_prefix_end_def slice_to_end blank_bytes)
qed

section \<open>The motions agree\<close>

text \<open>The borrowed motion of a key stops at character \<open>t\<close> before the clamp, and the indexed motion moves there too.\<close>

definition reaches :: "vi_env \<Rightarrow> vi_buffer \<Rightarrow> nat \<Rightarrow> scalar \<Rightarrow> nat option \<Rightarrow> nat \<Rightarrow> bool" where
  "reaches v b i key count t \<longleftrightarrow> t \<le> nchars b \<and>
     borrowed_target v (text_of b) (offset (vb_chars b) i) key count = Some (Some (offset (vb_chars b) t)) \<and>
     (\<exists>m. resolve_motion v b (offset (vb_chars b) i) key count None = Some (Some m) \<and>
        move_cursor b (offset (vb_chars b) i) m = vi_clamp_cursor b t)"

lemma move_chars:
  assumes "indexed_ok b" "i \<le> nchars b" "t \<le> nchars b"
  shows "move_cursor b (offset (vb_chars b) i) (Chars i t x) = vi_clamp_cursor b t"
    "move_cursor b (offset (vb_chars b) i) (Chars t i x) = vi_clamp_cursor b t"
    "move_cursor b (offset (vb_chars b) i) (Chars t t x) = vi_clamp_cursor b t"
  using assms by (simp_all add: move_cursor_def ci_of_offset Let_def min_def)

lemma reachesI:
  assumes "indexed_ok b" "i \<le> nchars b" "t \<le> nchars b"
    "borrowed_target v (text_of b) (offset (vb_chars b) i) key count = Some (Some (offset (vb_chars b) t))"
    "resolve_motion v b (offset (vb_chars b) i) key count None \<in> {Some (Some (Chars i t x)), Some (Some (Chars t i x)), Some (Some (Chars t t x))}"
  shows "reaches v b i key count t"
  using assms move_chars [OF assms(1-3), of x] by (auto simp: reaches_def)

lemma reaches_left:
  assumes "indexed_ok b" "i \<le> nchars b"
  shows "reaches v b i 0x68 count (max (i - or_one count) (line_start b i))"
proof (rule reachesI [where x = False, OF assms])
  let ?cs = "vb_chars b"
  have l: "begins ?cs i \<le> i" by (rule begins_le)
  then show "max (i - or_one count) (line_start b i) \<le> nchars b" using assms(2) by (simp add: line_start_begins)
  show "borrowed_target v (text_of b) (offset ?cs i) 0x68 count = Some (Some (offset ?cs (max (i - or_one count) (line_start b i))))"
    using assms l by (simp add: borrowed_target_def line_start_byte_offset nchars_def borrowed_left_offset line_start_begins)
qed (use assms in \<open>simp add: resolve_motion_def ci_of_offset Let_def\<close>)

lemma reaches_right:
  assumes "indexed_ok b" "i \<le> nchars b" "or_one count + nchars b \<le> isize_max"
  shows "reaches v b i 0x6c count (min (i + or_one count) (line_end b i))"
proof (rule reachesI [where x = False, OF assms(1,2)])
  show "min (i + or_one count) (line_end b i) \<le> nchars b" using line_end_bounds(2) [of b i] by simp
  show "borrowed_target v (text_of b) (offset (vb_chars b) i) 0x6c count =
      Some (Some (offset (vb_chars b) (min (i + or_one count) (line_end b i))))"
    using assms by (simp add: borrowed_target_def borrowed_right_offset nchars_def line_end_ends)
  have "i + or_one count \<le> usize_max" using assms(2,3) by (simp add: isize_max_def)
  then show "resolve_motion v b (offset (vb_chars b) i) 0x6c count None
      \<in> {Some (Some (Chars i (min (i + or_one count) (line_end b i)) False)), Some (Some (Chars (min (i + or_one count) (line_end b i)) i False)),
         Some (Some (Chars (min (i + or_one count) (line_end b i)) (min (i + or_one count) (line_end b i)) False))}"
    using assms by (simp add: resolve_motion_def ci_of_offset Let_def checked_add_def)
qed

lemma reaches_words:
  assumes "indexed_ok b" "i \<le> nchars b" "key \<in> {0x77, 0x57, 0x62, 0x42, 0x65, 0x45}"
  shows "\<exists>t. reaches v b i key count t"
proof -
  let ?cs = "vb_chars b"
  have i: "i \<le> length ?cs" "scalars ?cs" using assms by (simp_all add: nchars_def)
  have ix: "indexed_text b = indexed_text (buffer_of (text_of b))"
    using assms(1) by (simp add: indexed_text_def nchars_def char_at_def)
  consider big where "key = (if big then 0x57 else 0x77)" | big where "key = (if big then 0x42 else 0x62)" | big where "key = (if big then 0x45 else 0x65)"
    using assms(3) by (metis empty_iff insert_iff)
  then show ?thesis
  proof cases
    case (1 big)
    have f: "forward_from v ?cs big (or_one count) i \<le> nchars b" using forward_from_bounds [OF i(1)] by (simp add: nchars_def)
    have "reaches v b i key count (forward_from v ?cs big (or_one count) i)"
      by (rule reachesI [where x = False, OF assms(1,2) f])
        (use 1 assms borrowed.word_forward_pos [OF i(2,1)] indexed.word_forward_pos [OF i(2,1)] in
          \<open>cases big; simp add: borrowed_target_def resolve_motion_def ci_of_offset Let_def ix\<close>)+
    then show ?thesis by blast
  next
    case (2 big)
    have f: "back_to v ?cs big (or_one count) i \<le> nchars b" using back_to_bounds [of v ?cs big "or_one count" i] assms(2) by simp
    have "reaches v b i key count (back_to v ?cs big (or_one count) i)"
      by (rule reachesI [where x = False, OF assms(1,2) f])
        (use 2 assms borrowed.word_back_pos [OF i(2,1)] indexed.word_back_pos [OF i(2,1)] in
          \<open>cases big; simp add: borrowed_target_def resolve_motion_def ci_of_offset Let_def ix\<close>)+
    then show ?thesis by blast
  next
    case (3 big)
    have f: "end_from v ?cs big (or_one count) i \<le> nchars b"
      using end_from_bounds [OF i(1), of v big "or_one count"] unfolding nchars_def by linarith
    have "reaches v b i key count (end_from v ?cs big (or_one count) i)"
      by (rule reachesI [where x = True, OF assms(1,2) f])
        (use 3 assms borrowed.word_end_pos [OF i(2,1)] indexed.word_end_pos [OF i(2,1)] in
          \<open>cases big; simp add: borrowed_target_def resolve_motion_def ci_of_offset Let_def ix\<close>)+
    then show ?thesis by blast
  qed
qed

lemma reaches_line_start:
  assumes "indexed_ok b" "i \<le> nchars b"
  shows "reaches v b i 0x30 count (line_start b i)"
proof (rule reachesI [where x = False, OF assms])
  show "line_start b i \<le> nchars b" using line_start_le [of b i] assms(2) by linarith
qed (use assms in \<open>simp_all add: borrowed_target_def resolve_motion_def ci_of_offset Let_def line_start_byte_offset line_start_begins nchars_def\<close>)

lemma reaches_first_non_blank:
  assumes "indexed_ok b" "i \<le> nchars b"
  shows "reaches v b i 0x5e count (first_non_blank b (line_start b i))"
proof (rule reachesI [where x = False, OF assms])
  have l: "line_start b i \<le> nchars b" using line_start_le [of b i] assms(2) by linarith
  then show "first_non_blank b (line_start b i) \<le> nchars b" by (rule first_non_blank_le)
  show "borrowed_target v (text_of b) (offset (vb_chars b) i) 0x5e count = Some (Some (offset (vb_chars b) (first_non_blank b (line_start b i))))"
    using assms l blank_prefix_end_offset [OF assms(1) l]
    by (simp add: borrowed_target_def line_start_byte_offset nchars_def line_start_begins)
qed (use assms in \<open>simp_all add: resolve_motion_def ci_of_offset Let_def ordered_def\<close>)

text \<open>The indexed motions that stop on the last character of a line move where the clamp moves the end of it.\<close>

lemma move_to_line_end:
  assumes "indexed_ok b" "i \<le> nchars b" "m \<le> buf_line_count b - 1"
  shows "move_cursor b (offset (vb_chars b) i)
      (Chars i (if nth_line_start b m < line_end_by_line b m then line_end_by_line b m - 1 else line_end_by_line b m) x) =
    vi_clamp_cursor b (line_end_by_line b m)"
proof -
  let ?t = "if nth_line_start b m < line_end_by_line b m then line_end_by_line b m - 1 else line_end_by_line b m"
  have "?t \<le> nchars b" using line_end_by_line_bounds(2) [of b m] by auto
  moreover have "vi_clamp_cursor b ?t = byte_at b ?t"
    by (rule clamp_within_line [OF assms(3)]) (use line_end_by_line_bounds(1) [of b m] in auto)
  ultimately show ?thesis using move_chars(1) [OF assms(1,2)] clamp_end [OF assms(3)] by simp
qed

lemma reaches_line_end:
  assumes "indexed_ok b" "i \<le> nchars b" "or_one count + nchars b \<le> isize_max"
  shows "reaches v b i 0x24 count (line_end_by_line b (min (line_index b i + (or_one count - 1)) (buf_line_count b - 1)))"
proof -
  let ?cs = "vb_chars b" and ?m = "min (line_index b i + (or_one count - 1)) (buf_line_count b - 1)"
  have "line_index b i \<le> i" by (simp add: line_index_newlines newlines_def order_trans [OF length_filter_le])
  then have c: "checked_add (line_index b i) (or_one count - 1) = Some (line_index b i + (or_one count - 1))"
    using assms(2,3) by (simp add: checked_add_def isize_max_def)
  have "line_end_byte (text_of b) (offset ?cs i) = Some (offset ?cs (line_end_by_line b (line_index b i)))"
    using assms by (simp add: line_end_byte_offset on_its_line(2) line_end_ends nchars_def)
  then have "borrowed_target v (text_of b) (offset ?cs i) 0x24 count = Some (Some (offset ?cs (line_end_by_line b ?m)))"
    using borrowed_ends_offset [OF assms(1) line_index_le] by (simp add: borrowed_target_def)
  moreover have "resolve_motion v b (offset ?cs i) 0x24 count None =
      Some (Some (Chars i (if nth_line_start b ?m < line_end_by_line b ?m then line_end_by_line b ?m - 1 else line_end_by_line b ?m) True))"
    using assms c by (simp add: resolve_motion_def ci_of_offset Let_def)
  ultimately show ?thesis
    using move_to_line_end [OF assms(1,2), of ?m] line_end_by_line_bounds(2) [of b ?m] by (simp add: reaches_def)
qed

text \<open>Vertical motions: the column is kept, and clamped to the target line.\<close>

lemma vertical_exact:
  assumes "i \<le> nchars b" "- int isize_max - 1 \<le> int (line_index b i) + d" "int (line_index b i) + d \<le> int isize_max"
  defines "m \<equiv> nat (min (max (int (line_index b i) + d) 0) (int (buf_line_count b) - 1))"
  shows "\<exists>t. vertical b i d = Some t \<and> t \<le> nchars b \<and>
    vi_clamp_cursor b t = vi_clamp_cursor b (min (nth_line_start b m + (i - line_start b i)) (line_end_by_line b m))"
proof -
  let ?s = "nth_line_start b m" and ?e = "line_end_by_line b m"
  let ?t = "min (?s + (i - line_start b i)) (if ?s < ?e then ?e - 1 else ?s)"
  have m: "m \<le> buf_line_count b - 1" using line_count_pos [of b] by (simp add: m_def)
  have se: "?s \<le> ?e" "?e \<le> nchars b" by (rule line_end_by_line_bounds)+
  have v: "vertical b i d = Some ?t"
    using assms(2,3) line_start_le [of b i] by (simp add: vertical_def checked_isize_def Let_def m_def)
  have t: "vi_clamp_cursor b ?t = byte_at b ?t" by (rule clamp_within_line [OF m]) (use se in auto)
  have "vi_clamp_cursor b ?t = vi_clamp_cursor b (min (?s + (i - line_start b i)) ?e)"
  proof (cases "?s + (i - line_start b i) < ?e")
    case True
    then have "?t = min (?s + (i - line_start b i)) ?e" using se by auto
    then show ?thesis by simp
  next
    case False
    then have "min (?s + (i - line_start b i)) ?e = ?e" "?t = (if ?s < ?e then ?e - 1 else ?e)" using se by auto
    then show ?thesis using t clamp_end [OF m] by simp
  qed
  then show ?thesis using v se by auto
qed

lemma column_of: "indexed_ok b \<Longrightarrow> i \<le> nchars b \<Longrightarrow>
    str_slice (text_of b) (offset (vb_chars b) (begins (vb_chars b) i)) (offset (vb_chars b) i) = Some p \<Longrightarrow> length (str_chars p) = i - line_start b i"
  using slice_offsets [of "vb_chars b" "begins (vb_chars b) i" i] begins_le [of "vb_chars b" i]
  by (auto simp: line_start_begins slice_def nchars_def)

lemma borrowed_vertical:
  assumes "indexed_ok b" "i \<le> nchars b" "m \<le> buf_line_count b - 1"
  shows "borrowed_right (text_of b) (i - line_start b i) (offset (vb_chars b) (nth_line_start b m)) =
    Some (offset (vb_chars b) (min (nth_line_start b m + (i - line_start b i)) (line_end_by_line b m)))"
  using borrowed_right_offset [of "vb_chars b" "nth_line_start b m" "i - line_start b i"] nth_line_start_le [of b m] assms(1)
  by (simp add: nchars_def line_end_by_line_def line_end_ends)

lemma reaches_vertical:
  assumes "indexed_ok b" "i \<le> nchars b" "or_one count + nchars b \<le> isize_max" "key = 0x6a \<or> key = 0x6b"
  shows "\<exists>t. reaches v b i key count t"
proof -
  let ?cs = "vb_chars b" and ?n = "or_one count"
  define d where "d = (if key = 0x6a then int ?n else - int ?n)"
  define m where "m = (if key = 0x6a then min (line_index b i + ?n) (buf_line_count b - 1) else line_index b i - ?n)"
  define t where "t = min (nth_line_start b m + (i - line_start b i)) (line_end_by_line b m)"
  have li: "line_index b i \<le> i" by (simp add: line_index_newlines newlines_def order_trans [OF length_filter_le])
  have m: "m \<le> buf_line_count b - 1" "m = nat (min (max (int (line_index b i) + d) 0) (int (buf_line_count b) - 1))"
    using line_index_le [of b i] line_count_pos [of b] by (auto simp: m_def d_def)
  have "- int isize_max - 1 \<le> int (line_index b i) + d" "int (line_index b i) + d \<le> int isize_max"
    using assms(2,3) li by (auto simp: d_def)
  then obtain u where u: "vertical b i d = Some u" "u \<le> nchars b" "vi_clamp_cursor b u = vi_clamp_cursor b t"
    using vertical_exact [OF assms(2), of d] m(2) by (auto simp: t_def)
  have n: "as_isize ?n = int ?n" "checked_isize (- int ?n) = Some (- int ?n)" "?n \<le> isize_max"
    using assms(3) by (simp_all add: as_isize_def checked_isize_def)
  have r: "resolve_motion v b (offset ?cs i) key count None = Some (Some (if key = 0x6a then Chars i u False else Chars u i False))"
    using assms(1,2,4) n u(1) by (auto simp: resolve_motion_def ci_of_offset Let_def d_def)
  have s: "line_start_byte (text_of b) (offset ?cs i) = Some (offset ?cs (nth_line_start b (line_index b i)))"
    using assms(1,2) by (simp add: line_start_byte_offset nth_line_start_index line_start_begins nchars_def)
  have target: "(if key = 0x6a then borrowed_down (text_of b) ?n (offset ?cs (nth_line_start b (line_index b i)))
      else borrowed_up (text_of b) ?n (offset ?cs (nth_line_start b (line_index b i)))) = Some (offset ?cs (nth_line_start b m))"
    using borrowed_down_offset [OF assms(1) line_index_le] borrowed_up_offset [OF assms(1) line_index_le] by (simp add: m_def)
  obtain p where p: "str_slice (text_of b) (offset ?cs (nth_line_start b (line_index b i))) (offset ?cs i) = Some p"
    using slice_offsets [OF indexed_scalars [OF assms(1)] begins_le] nth_line_start_index [OF assms(2)] by (simp add: line_start_begins)
  then have "length (str_chars p) = i - line_start b i"
    using column_of [OF assms(1,2)] nth_line_start_index [OF assms(2)] by (simp add: line_start_begins)
  then have "borrowed_target v (text_of b) (offset ?cs i) key count = Some (Some (offset ?cs t))"
    using assms(4) s p target borrowed_vertical [OF assms(1,2) m(1)] by (auto simp: borrowed_target_def t_def)
  moreover have "t \<le> nchars b" using line_end_by_line_bounds(2) [of b m] by (simp add: t_def)
  ultimately show ?thesis
    using r u move_chars(1,2) [OF assms(1,2) u(2), of False] by (auto simp: reaches_def)
qed

lemma reaches_line:
  assumes "indexed_ok b" "i \<le> nchars b"
  shows "\<exists>t. reaches v b i 0x47 count t"
proof -
  let ?cs = "vb_chars b"
  define m where "m = (case count of Some c \<Rightarrow> min (c - 1) (buf_line_count b - 1) | None \<Rightarrow> buf_line_count b - 1)"
  have "line_start_byte (text_of b) (length (text_of b)) = Some (offset ?cs (nth_line_start b (buf_line_count b - 1)))"
    using line_start_byte_offset [of ?cs "length ?cs"] nth_line_start_index [of "nchars b" b] assms(1)
    by (simp add: offset_all line_index_newlines line_count_newlines nchars_def line_start_begins)
  moreover have "borrowed_down (text_of b) n 0 = Some (offset ?cs (nth_line_start b (min n (buf_line_count b - 1))))" for n
    using borrowed_down_offset [OF assms(1), of 0 n] by (simp add: nth_line_start_def)
  ultimately have "(case count of Some c \<Rightarrow> borrowed_down (text_of b) (c - 1) 0 | None \<Rightarrow> line_start_byte (text_of b) (length (text_of b))) =
      Some (offset ?cs (nth_line_start b m))"
    by (simp add: m_def split: option.splits)
  then have "borrowed_target v (text_of b) (offset ?cs i) 0x47 count = Some (Some (offset ?cs (first_non_blank b (nth_line_start b m))))"
    using blank_prefix_end_offset [OF assms(1) nth_line_start_le] by (simp add: borrowed_target_def)
  then have "reaches v b i 0x47 count (first_non_blank b (nth_line_start b m))"
    by (intro reachesI [where x = False, OF assms]) (use assms in \<open>cases count; simp add: first_non_blank_le nth_line_start_le resolve_motion_def ci_of_offset Let_def m_def\<close>)+
  then show ?thesis by blast
qed

lemma motion_reaches:
  assumes "indexed_ok b" "i \<le> nchars b" "or_one count + nchars b \<le> isize_max" "key \<in> set motion_keys"
  shows "\<exists>t. reaches v b i key count t"
proof -
  consider "key = 0x68" | "key = 0x6c" | "key = 0x30" | "key = 0x5e" | "key = 0x24" | "key = 0x47" | "key = 0x6a \<or> key = 0x6b"
    | "key \<in> {0x77, 0x57, 0x62, 0x42, 0x65, 0x45}"
    using assms(4) by (auto simp: motion_keys_def)
  then show ?thesis
  proof cases
    case 1 then show ?thesis using reaches_left [OF assms(1,2)] by blast
  next
    case 2 then show ?thesis using reaches_right [OF assms(1-3)] by blast
  next
    case 3 then show ?thesis using reaches_line_start [OF assms(1,2)] by blast
  next
    case 4 then show ?thesis using reaches_first_non_blank [OF assms(1,2)] by blast
  next
    case 5 then show ?thesis using reaches_line_end [OF assms(1-3)] by blast
  next
    case 6 then show ?thesis using reaches_line [OF assms(1,2)] by blast
  next
    case 7 then show ?thesis by (rule reaches_vertical [OF assms(1-3)])
  next
    case 8 then show ?thesis by (rule reaches_words [OF assms(1,2)])
  qed
qed

lemma no_motion:
  assumes "key \<notin> set motion_keys"
  shows "borrowed_target v s caret key count = Some None" "resolve_motion v b caret key count op = Some None"
  using assms by (simp_all add: borrowed_target_def resolve_motion_def motion_keys_def Let_def)

lemma borrowed_motion_indexed:
  assumes "indexed_ok b" "i \<le> nchars b" "or_one count + nchars b \<le> isize_max"
  shows "borrowed_motion v (text_of b) (offset (vb_chars b) i) key count =
    map_option (map_option (move_cursor b (offset (vb_chars b) i))) (resolve_motion v b (offset (vb_chars b) i) key count None)"
proof (cases "key \<in> set motion_keys")
  case True
  then obtain t where t: "reaches v b i key count t" using motion_reaches [OF assms] by blast
  then show ?thesis
    using assms clamp_text_cursor_offset [OF assms(1), of t] by (auto simp: reaches_def borrowed_motion_def)
next
  case False
  then show ?thesis by (simp add: borrowed_motion_def no_motion)
qed

end
