(* ===== verification/Vi_Safe.thy ===== *)
theory Vi_Safe
  imports Vi_Motions Edit_Doc_Inv
begin

text \<open>
  One step of the vi engine from a caret on a character boundary: no panic, an edit that the document
  accepts as it stands, a caret on a boundary where nothing is edited, and the engine's invariant kept.
\<close>

section \<open>The invariant of the engine\<close>

definition count_below :: "nat \<Rightarrow> nat option \<Rightarrow> bool" where
  "count_below n c \<longleftrightarrow> (case c of None \<Rightarrow> True | Some k \<Rightarrow> 0 < k \<and> k < n)"

definition pending_ok :: "vi_engine \<Rightarrow> bool" where
  "pending_ok e \<longleftrightarrow>
     (case ve_stage e of
        Ready \<Rightarrow> ve_operator_count e = None \<and>
          (if ve_mode e \<in> {Insert, Replace_Mode} then ve_count e = None else count_below (10 ^ 9) (ve_count e))
      | AfterOperator _ \<Rightarrow> ve_mode e = Normal \<and> count_below (10 ^ 9) (ve_count e) \<and> count_below (10 ^ 9) (ve_operator_count e)
      | AfterG _ \<Rightarrow> ve_mode e \<notin> {Insert, Replace_Mode} \<and> ve_operator_count e = None \<and> count_below (10 ^ 18) (ve_count e)
      | AfterTextObject _ _ \<Rightarrow> ve_mode e \<notin> {Insert, Replace_Mode} \<and> ve_operator_count e = None \<and> (ve_mode e \<noteq> Normal \<longrightarrow> ve_count e = None)
      | AwaitReplace \<Rightarrow> ve_mode e \<notin> {Insert, Replace_Mode} \<and> ve_operator_count e = None \<and> count_below (10 ^ 9) (ve_count e) \<and>
          (ve_mode e \<noteq> Normal \<longrightarrow> ve_count e = None))"

definition vi_ok :: "vi_engine \<Rightarrow> bool" where
  "vi_ok e \<longleftrightarrow> utf8 (rg_text (ve_register e)) \<and> pending_ok e"

text \<open>A digit extends a count only below \<open>10\<^sup>8\<close>.\<close>

definition count_room :: "vi_key \<Rightarrow> vi_engine \<Rightarrow> bool" where
  "count_room key e \<longleftrightarrow>
     (case key of
        Char_Key c \<Rightarrow> is_digit c \<and> (ve_stage e = Ready \<or> (\<exists>op. ve_stage e = AfterOperator op)) \<longrightarrow> count_below (10 ^ 8) (ve_count e)
      | _ \<Rightarrow> True)"

definition key_ok :: "vi_key \<Rightarrow> bool" where
  "key_ok key \<longleftrightarrow> (case key of Char_Key c \<Rightarrow> is_scalar c | Ctrl_Key c \<Rightarrow> is_scalar c | _ \<Rightarrow> True)"

definition keeps_recording :: "vi_engine \<Rightarrow> vi_engine \<Rightarrow> bool" where
  "keeps_recording e e' \<longleftrightarrow> ve_record e' = ve_record e \<and> ve_recording_state e' = ve_recording_state e \<and>
     ve_last_change e' = ve_last_change e \<and> ve_change_in_progress e' = ve_change_in_progress e \<and> ve_replaying e' = ve_replaying e"

definition edits_safe :: "bytes \<Rightarrow> text_edit list \<Rightarrow> bool" where
  "edits_safe s xs \<longleftrightarrow> validate_edits s xs 0 = Inr () \<and> list_all edit_ok xs \<and> list_all strings_utf8 xs"

definition answer_ok :: "vi_buffer \<Rightarrow> vi_action \<Rightarrow> nat \<Rightarrow> bool" where
  "answer_ok b a c \<longleftrightarrow> (case a of Edit xs \<Rightarrow> edits_safe (text_of b) xs | _ \<Rightarrow> is_char_boundary (text_of b) c)"

definition step_post :: "vi_buffer \<Rightarrow> vi_engine \<Rightarrow> (vi_action \<times> nat) \<times> vi_engine \<Rightarrow> bool" where
  "step_post b e = (\<lambda>((a, c), e'). answer_ok b a c \<and> vi_ok e' \<and> keeps_recording e e')"

text \<open>The setting of a step: the text fits the address space with room to spare, the caret is on a character.\<close>

definition place_ok :: "vi_env \<Rightarrow> vi_buffer \<Rightarrow> nat \<Rightarrow> bool" where
  "place_ok v b i \<longleftrightarrow> heap_ok (vi_heap v) \<and> indexed_ok b \<and> length (text_of b) \<le> 2 ^ 62 \<and> i \<le> nchars b"

abbreviation at :: "vi_buffer \<Rightarrow> nat \<Rightarrow> nat" where
  "at b i \<equiv> offset (vb_chars b) i"

lemma place_okD: "place_ok v b i \<Longrightarrow> heap_ok (vi_heap v)" "place_ok v b i \<Longrightarrow> indexed_ok b" "place_ok v b i \<Longrightarrow> length (text_of b) \<le> 2 ^ 62"
  "place_ok v b i \<Longrightarrow> i \<le> nchars b" "place_ok v b i \<Longrightarrow> i \<le> length (vb_chars b)" "place_ok v b i \<Longrightarrow> nchars b \<le> 2 ^ 62"
  using length_chars_le [of "vb_chars b"] by (auto simp: place_ok_def nchars_def)

lemma place_simps: "place_ok v b i \<Longrightarrow> ci_of_byte b (at b i) = i" "place_ok v b i \<Longrightarrow> byte_at b j = at b j"
  by (simp_all add: place_ok_def ci_of_offset byte_at_offset)

lemma boundary_at [simp]: "indexed_ok b \<Longrightarrow> is_char_boundary (text_of b) (at b i)"
  by simp

lemma answer_ok_simps [simp]:
  "answer_ok b (Edit xs) c \<longleftrightarrow> edits_safe (text_of b) xs"
  "answer_ok b No_Action c \<longleftrightarrow> is_char_boundary (text_of b) c"
  "answer_ok b Undo_Action c \<longleftrightarrow> is_char_boundary (text_of b) c"
  "answer_ok b Redo_Action c \<longleftrightarrow> is_char_boundary (text_of b) c"
  "answer_ok b (Search i) c \<longleftrightarrow> is_char_boundary (text_of b) c"
  "answer_ok b (Vi_Refused h) c \<longleftrightarrow> is_char_boundary (text_of b) c"
  by (simp_all add: answer_ok_def)

lemma keeps_refl [simp]: "keeps_recording e e"
  by (simp add: keeps_recording_def)

lemma keeps_updates [simp]:
  "keeps_recording e (f\<lparr>ve_mode := m\<rparr>) \<longleftrightarrow> keeps_recording e f" "keeps_recording e (f\<lparr>ve_stage := s\<rparr>) \<longleftrightarrow> keeps_recording e f"
  "keeps_recording e (f\<lparr>ve_count := c\<rparr>) \<longleftrightarrow> keeps_recording e f" "keeps_recording e (f\<lparr>ve_operator_count := c\<rparr>) \<longleftrightarrow> keeps_recording e f"
  "keeps_recording e (f\<lparr>ve_register := r\<rparr>) \<longleftrightarrow> keeps_recording e f" "keeps_recording e (f\<lparr>ve_visual_anchor := a\<rparr>) \<longleftrightarrow> keeps_recording e f"
  "keeps_recording e (reset_pending f) \<longleftrightarrow> keeps_recording e f" "keeps_recording e (set_register x l f) \<longleftrightarrow> keeps_recording e f"
  by (simp_all add: keeps_recording_def reset_pending_def set_register_def)

lemma keeps_trans: "keeps_recording e f \<Longrightarrow> keeps_recording f g \<Longrightarrow> keeps_recording e g"
  by (simp add: keeps_recording_def)

lemma count_below_simps [simp]: "count_below n None" "count_below n (Some k) \<longleftrightarrow> 0 < k \<and> k < n"
  by (simp_all add: count_below_def)

section \<open>Edits of ranges\<close>

lemma utf8_joined [simp]: "utf8 a \<Longrightarrow> utf8 c \<Longrightarrow> utf8 (a @ c)"
  by (auto simp: utf8_scalars) (metis scalars_simps(3) str_bytes_simps(3))

lemma utf8_encode [simp]: "is_scalar c \<Longrightarrow> utf8 (encode_utf8 c)"
  unfolding utf8_scalars by (rule exI [of _ "[c]"]) simp

lemma utf8_newline [simp]: "utf8 [0x0a]"
  by (simp add: utf8_ascii)

lemma edit_at_ok: "heap_ok (vi_heap v) \<Longrightarrow> edit_ok (edit_at v p r s)"
  by (simp add: edit_ok_def edit_at_def owned_def string_ok_def heap_ok_def)

lemma validate_range:
  assumes "indexed_ok b" "length (text_of b) \<le> 2 ^ 62" "i \<le> j" "j \<le> nchars b" "p \<le> i"
  shows "validate_edits (text_of b) (edit_at v (at b i) (str_bytes (slice i (j - i) (vb_chars b))) s # xs) (at b p) =
    validate_edits (text_of b) xs (at b j)"
proof -
  let ?cs = "vb_chars b" and ?r = "str_bytes (slice i (j - i) (vb_chars b))"
  have l: "at b j \<le> length (text_of b)" "at b p \<le> at b i" by (rule offset_le, rule offset_mono [OF assms(5)])
  have r: "str_slice (text_of b) (at b i) (at b j) = Some ?r" by (rule slice_offsets) (use assms in simp_all)
  then have sl: "slice (at b i) (at b j - at b i) (text_of b) = ?r" by (simp add: str_slice_def split: if_splits)
  have len: "at b i + length ?r = at b j"
    using offset_drop [of i ?cs "j - i"] assms(3,4) by (simp add: slice_def nchars_def)
  have "checked_add (at b i) (length ?r) = Some (at b j)"
    unfolding checked_add_def len using l(1) assms(2) by (simp add: usize_max_def)
  then show ?thesis using l sl assms(1) by (simp add: edit_at_def owned_def)
qed

lemma range_edit_safe:
  assumes "place_ok v b k" "i \<le> j" "j \<le> nchars b" "utf8 s"
  shows "edits_safe (text_of b) [edit_at v (at b i) (str_bytes (slice i (j - i) (vb_chars b))) s]"
proof -
  have "validate_edits (text_of b) [edit_at v (at b i) (str_bytes (slice i (j - i) (vb_chars b))) s] (at b 0) = Inr ()"
    using validate_range [OF place_okD(2) [OF assms(1)] place_okD(3) [OF assms(1)] assms(2,3), of 0 v s "[]"] by simp
  then show ?thesis
    using assms place_okD(2) [OF assms(1)] edit_at_ok [OF place_okD(1) [OF assms(1)]]
    by (simp add: edits_safe_def strings_utf8_def edit_at_def owned_def)
qed

lemma insert_edit_safe: "place_ok v b k \<Longrightarrow> i \<le> nchars b \<Longrightarrow> utf8 s \<Longrightarrow> edits_safe (text_of b) [insert_at v (at b i) s]"
  using range_edit_safe [of v b k i i s] by (simp add: insert_at_def slice_def)

lemma ok_buf_slice:
  "start \<le> stop \<Longrightarrow> stop \<le> nchars b \<Longrightarrow> buf_slice b start stop = Some (str_bytes (slice start (stop - start) (vb_chars b)))"
  by (simp add: buf_slice_exact)

lemma utf8_slice [simp]: "indexed_ok b \<Longrightarrow> utf8 (str_bytes (slice i n (vb_chars b)))"
  by simp

section \<open>Edit builders\<close>

text \<open>The engine that runs a builder has nothing pending.\<close>

definition vi_idle :: "vi_engine \<Rightarrow> bool" where
  "vi_idle e \<longleftrightarrow> ve_stage e = Ready \<and> ve_count e = None \<and> ve_operator_count e = None \<and> utf8 (rg_text (ve_register e))"

lemma idle_ok: "vi_idle e \<Longrightarrow> vi_ok e" "vi_idle e \<Longrightarrow> vi_ok (e\<lparr>ve_mode := m\<rparr>)" "vi_idle e \<Longrightarrow> vi_ok (e\<lparr>ve_visual_anchor := a\<rparr>)"
  "vi_idle e \<Longrightarrow> vi_ok (e\<lparr>ve_mode := m, ve_visual_anchor := a\<rparr>)"
  by (simp_all add: vi_idle_def vi_ok_def pending_ok_def)

lemma idle_updates [simp]:
  "vi_idle (e\<lparr>ve_mode := m\<rparr>) \<longleftrightarrow> vi_idle e" "vi_idle (e\<lparr>ve_visual_anchor := a\<rparr>) \<longleftrightarrow> vi_idle e" "utf8 r \<Longrightarrow> vi_idle e \<Longrightarrow> vi_idle (set_register r l e)"
  by (simp_all add: vi_idle_def set_register_def)

lemma reset_idle: "utf8 (rg_text (ve_register e)) \<Longrightarrow> vi_idle (reset_pending e)"
  by (simp add: vi_idle_def reset_pending_def)

lemma reset_idle_id [simp]: "vi_idle e \<Longrightarrow> vi_idle (reset_pending e)"
  by (rule reset_idle) (simp add: vi_idle_def)

lemma refuse_post [simp]: "ok (step_post b e) (refuse c h f) \<longleftrightarrow> is_char_boundary (text_of b) c \<and> vi_ok (reset_pending f) \<and> keeps_recording e f"
  by (simp add: refuse_def step_post_def)

lemma still_post [simp]: "ok (step_post b e) (still c f) \<longleftrightarrow> is_char_boundary (text_of b) c \<and> vi_ok f \<and> keeps_recording e f"
  by (simp add: still_def step_post_def)

lemma refuse_unsupported_post [simp]:
  "ok (step_post b e) (refuse_unsupported c f) \<longleftrightarrow> is_char_boundary (text_of b) c \<and> vi_ok (reset_pending f) \<and> keeps_recording e f"
  by (simp add: refuse_unsupported_def)

lemma step_postI: "answer_ok b a c \<Longrightarrow> vi_ok f \<Longrightarrow> keeps_recording e f \<Longrightarrow> step_post b e ((a, c), f)"
  by (simp add: step_post_def)

lemma enter_insert_ok: "indexed_ok b \<Longrightarrow> vi_idle e \<Longrightarrow> ok (step_post b e) (enter_insert (at b j) e)"
  by (simp add: enter_insert_def step_post_def idle_ok)

lemma line_bounds:
  assumes "place_ok v b i"
  shows "line_start b i \<le> i" "i \<le> line_end b i" "line_end b i \<le> nchars b" "line_start b i \<le> nchars b"
  using line_start_le [of b i] line_end_bounds(1) [of i b] line_end_bounds(2) [of b i] place_okD(4) [OF assms] by linarith+

lemma vi_open_line_ok: "place_ok v b i \<Longrightarrow> vi_idle e \<Longrightarrow> ok (step_post b e) (vi_open_line v b (at b i) below e)"
  using line_bounds [of v b i]
  by (auto simp: vi_open_line_def place_simps idle_ok Let_def intro!: step_postI insert_edit_safe)

lemma delete_chars_forward_ok:
  assumes "place_ok v b i" "vi_idle e" "0 < n" "n < 10 ^ 9"
  shows "ok (\<lambda>p. step_post b e p \<and> vi_idle (snd p)) (delete_chars_forward v b (at b i) n e)"
proof (cases "line_end b i \<le> i")
  case True
  then show ?thesis
    using assms place_okD(2) [OF assms(1)] by (simp add: delete_chars_forward_def place_simps Let_def still_def step_post_def idle_ok)
next
  case False
  let ?stop = "min (i + n) (line_end b i)"
  have s: "i \<le> ?stop" "?stop \<le> nchars b" using False line_bounds [OF assms(1)] by auto
  have "i + n \<le> usize_max" using place_okD(4,6) [OF assms(1)] assms(4) by (simp add: usize_max_def)
  then show ?thesis
    using False assms s range_edit_safe [OF assms(1) s, of "[]"] place_okD(2) [OF assms(1)]
    by (auto simp: delete_chars_forward_def place_simps Let_def checked_add_def ok_buf_slice intro!: step_postI idle_ok(1))
qed

lemma delete_chars_back_ok:
  assumes "place_ok v b i" "vi_idle e"
  shows "ok (step_post b e) (delete_chars_back v b (at b i) n e)"
proof (cases "i = line_start b i")
  case True
  then show ?thesis
    using assms place_okD(2) [OF assms(1)] by (simp add: delete_chars_back_def place_simps Let_def idle_ok)
next
  case False
  let ?start = "max (i - n) (line_start b i)"
  have s: "?start \<le> i" "i \<le> nchars b" using line_bounds [OF assms(1)] place_okD(4) [OF assms(1)] by auto
  then show ?thesis
    using False assms range_edit_safe [OF assms(1) s, of "[]"] place_okD(2) [OF assms(1)]
    by (auto simp: delete_chars_back_def place_simps Let_def ok_buf_slice intro!: step_postI idle_ok(1))
qed

lemma delete_to_line_end_ok:
  assumes "place_ok v b i" "vi_idle e"
  shows "ok (step_post b e) (delete_to_line_end v b (at b i) change e)"
proof -
  have s: "i \<le> line_end b i" "line_end b i \<le> nchars b" using line_bounds [OF assms(1)] by auto
  then show ?thesis
    using assms range_edit_safe [OF assms(1) s, of "[]"] place_okD(2) [OF assms(1)]
    by (auto simp: delete_to_line_end_def place_simps Let_def ok_buf_slice intro!: step_postI idle_ok)
qed

section \<open>Joining lines\<close>

lemma back_over_bounds: "lo \<le> i \<Longrightarrow> lo \<le> back_over P b lo i \<and> back_over P b lo i \<le> i"
  using extent_le [of "\<lambda>c. \<not> P c" "take i (vb_chars b)"] by (auto simp: back_over_def)

lemma back_over_stops: "j < i \<Longrightarrow> i \<le> nchars b \<Longrightarrow> \<not> P (vb_chars b ! j) \<Longrightarrow> j < back_over P b lo i"
  using extent_above [of "\<lambda>c. \<not> P c" "take i (vb_chars b)" j]
  by (fastforce simp: back_over_def nchars_def less_max_iff_disj not_le [symmetric])

lemma blank_before_first:
  assumes "i \<le> j" "j < first_non_blank b i" "i \<le> nchars b"
  shows "vi_blank (vb_chars b ! j)"
proof -
  let ?s = "slice i (line_end b i - i) (vb_chars b)"
  have j: "j - i < length (takeWhile vi_blank ?s)" using assms by (simp add: first_non_blank_def)
  then have "?s ! (j - i) \<in> set (takeWhile vi_blank ?s)" using nth_mem [OF j] by (simp only: takeWhile_nth)
  then have "vi_blank (?s ! (j - i))" by (rule set_takeWhileD [THEN conjunct2])
  moreover have "?s ! (j - i) = vb_chars b ! j"
    using j length_takeWhile_le [of vi_blank ?s] assms(1,3) by (simp add: slice_def nchars_def)
  ultimately show ?thesis by simp
qed

lemma first_before_end:
  assumes "m \<le> buf_line_count b - 1"
  shows "first_non_blank b (nth_line_start b m) \<le> back_over (\<lambda>c. c = 0x0d) b (nth_line_start b m) (line_end_by_line b m)"
proof -
  let ?s = "nth_line_start b m" and ?e = "line_end_by_line b m"
  let ?f = "first_non_blank b ?s"
  have f: "?s \<le> ?f" "?f \<le> ?e" using first_non_blank_bounds [OF nth_line_start_le, of b m] by (simp_all add: line_end_by_line_def)
  show ?thesis
  proof (cases "?f = ?s")
    case True
    then show ?thesis using back_over_bounds [OF line_end_by_line_bounds(1), of b m "\<lambda>c. c = 0x0d"] by simp
  next
    case False
    then have "vi_blank (vb_chars b ! (?f - 1))" using blank_before_first [of ?s "?f - 1" b] f(1) nth_line_start_le [of b m] by simp
    then have "?f - 1 < back_over (\<lambda>c. c = 0x0d) b ?s ?e"
      using False f line_end_by_line_bounds(2) [of b m] by (intro back_over_stops) auto
    then show ?thesis by simp
  qed
qed

lemma utf8_separator [simp]: "utf8 (join_separator b i j)"
  by (simp add: join_separator_def utf8_ascii)

lemma join_loop_ok:
  assumes "place_ok v b i"
  shows "m \<le> buf_line_count b - 1 \<Longrightarrow> p \<le> first_non_blank b (nth_line_start b m) \<Longrightarrow>
    ok (\<lambda>seams. validate_edits (text_of b) (map fst seams) (at b p) = Inr () \<and>
      list_all edit_ok (map fst seams) \<and> list_all strings_utf8 (map fst seams)) (join_loop v b joins m)"
proof (induction joins arbitrary: m p)
  case (Suc joins)
  show ?case
  proof (cases "buf_line_count b \<le> m + 1")
    case False
    then have m: "m < buf_line_count b - 1" "m + 1 \<le> buf_line_count b - 1" by simp_all
    let ?e = "line_end_by_line b m" and ?s = "nth_line_start b m"
    let ?f = "first_non_blank b (?e + 1)" and ?i = "back_over (\<lambda>c. c = 0x0d) b ?s ?e"
    have n: "nth_line_start b (m + 1) = ?e + 1" using line_end_next(2) [OF Suc.prems(1) m(1)] .
    have f: "?e + 1 \<le> ?f" "?f \<le> nchars b"
      using first_non_blank_bounds(1) [OF nth_line_start_le, of b "m + 1"] first_non_blank_le [OF nth_line_start_le, of b "m + 1"] by (simp_all only: n)
    have i: "?i \<le> ?e" using back_over_bounds [OF line_end_by_line_bounds(1)] by blast
    have p: "p \<le> ?i" using first_before_end [OF Suc.prems(1)] Suc.prems(2) by linarith
    define x where "x = edit_at v (at b ?i) (str_bytes (slice ?i (?f - ?i) (vb_chars b))) (join_separator b ?i ?f)"
    have "?i \<le> ?f" using i f(1) by simp
    then obtain c where seam: "join_seam v b m = Some (x, c)"
      using f(2) place_simps(2) [OF assms] by (simp add: join_seam_def Let_def ok_buf_slice x_def)
    have v: "validate_edits (text_of b) (x # xs) (at b p) = validate_edits (text_of b) xs (at b ?f)" for xs
      unfolding x_def using \<open>?i \<le> ?f\<close> f(2) p by (intro validate_range place_okD(2,3) [OF assms])
    have "edit_ok x" "strings_utf8 x"
      using edit_at_ok [OF place_okD(1) [OF assms]] place_okD(2) [OF assms] by (simp_all add: x_def strings_utf8_def edit_at_def owned_def)
    then show ?thesis using Suc.IH [of "m + 1" ?f] m(2) False seam v n by (auto simp: ok_iff)
  qed simp
qed simp

lemma join_lines_ok:
  assumes "place_ok v b i" "vi_idle e"
  shows "ok (step_post b e) (join_lines v b (at b i) count e)"
proof -
  let ?joins = "case count of None \<Rightarrow> 1 | Some n \<Rightarrow> max (n - 1) 1"
  obtain seams where s: "join_loop v b ?joins (line_index b i) = Some seams" "edits_safe (text_of b) (map fst seams)"
    using join_loop_ok [OF assms(1), of "line_index b i" 0 ?joins] line_index_le [of b i] by (auto simp: ok_iff edits_safe_def)
  then show ?thesis
    using assms place_okD(2) [OF assms(1)]
    by (auto simp: join_lines_def place_simps Let_def idle_ok split: list.splits intro!: step_postI)
qed

section \<open>Pasting\<close>

lemma utf8_butlast_newline: "utf8 s \<Longrightarrow> s \<noteq> [] \<Longrightarrow> last s = 0x0a \<Longrightarrow> utf8 (butlast s)"
proof -
  assume a: "utf8 s" "s \<noteq> []" "last s = 0x0a"
  obtain cs where cs: "scalars cs" "s = str_bytes cs" using a(1) by (auto simp: utf8_scalars)
  then obtain ds c where d: "cs = ds @ [c]" using a(2) by (cases cs rule: rev_cases) auto
  then have "last (encode_utf8 c) = 0x0a" using a(3) cs(2) by simp
  then have "(0x0a :: u8) \<in> set (encode_utf8 c)" by (metis encode_utf8_nonempty last_in_set)
  then have "c = NL" using newline_byte cs(1) d by auto
  then have "encode_utf8 c = [0x0a]" by (simp add: NL_def encode_utf8_def u8_of_nat_def)
  then have "butlast s = str_bytes ds" using cs(2) d by (simp add: butlast_append)
  then show ?thesis using cs(1) d by simp
qed

lemma utf8_cons_newline: "utf8 (0x0a # s) \<longleftrightarrow> utf8 s"
  by (simp add: utf8_ascii)

lemma last_char_len_le: "utf8 s \<Longrightarrow> last_char_len s \<le> length s"
proof -
  assume "utf8 s"
  then obtain cs where cs: "scalars cs" "s = str_bytes cs" by (auto simp: utf8_scalars)
  then have "last_char_len s = (if cs = [] then 0 else len_utf8 (last cs))" by (simp add: last_char_len_def split: list.splits)
  then show ?thesis using cs(2) by (cases cs rule: rev_cases) (simp_all add: len_encode)
qed

lemma paste_ok:
  assumes "place_ok v b i" "vi_idle e"
  shows "ok (step_post b e) (paste v b (at b i) after e)"
proof -
  let ?s = "rg_text (ve_register e)" and ?line = "line_index b i"
  have u: "utf8 ?s" using assms(2) by (simp add: vi_idle_def)
  have ins: "edits_safe (text_of b) [insert_at v (at b j) s]" if "utf8 s" "j \<le> nchars b" for j s
    using insert_edit_safe [OF assms(1) that(2,1)] .
  have l: "line_end_by_line b ?line \<le> nchars b" "nth_line_start b ?line \<le> nchars b"
    by (rule line_end_by_line_bounds nth_line_start_le)+
  consider "?s = []" | "?s \<noteq> []" "rg_linewise (ve_register e)" | "?s \<noteq> []" "\<not> rg_linewise (ve_register e)" by blast
  then show ?thesis
  proof cases
    case 1
    then show ?thesis using assms place_okD(2) [OF assms(1)] by (simp add: paste_def Let_def idle_ok)
  next
    case 2
    then show ?thesis
      using assms u l
      by (auto simp: paste_def Let_def place_simps idle_ok utf8_cons_newline utf8_butlast_newline intro!: step_postI ins)
  next
    case 3
    have "min (i + 1) (line_end b i) \<le> nchars b" "i \<le> nchars b" using line_bounds(3) [OF assms(1)] place_okD(4) [OF assms(1)] by auto
    moreover have "last_char_len ?s \<le> k + length ?s" for k using last_char_len_le [OF u] by simp
    ultimately show ?thesis
      using 3 assms u by (auto simp: paste_def Let_def place_simps idle_ok intro!: step_postI ins)
  qed
qed

section \<open>Operators\<close>

lemma apply_chars_ok:
  assumes "place_ok v b k" "vi_idle e" "i \<le> j" "i \<le> nchars b"
  shows "ok (step_post b e) (apply_chars v b op i j e)"
proof -
  have s: "i \<le> min j (nchars b)" "min j (nchars b) \<le> nchars b" using assms by auto
  have "buf_slice b i j = Some (str_bytes (slice i (min j (nchars b) - i) (vb_chars b)))" using assms(3,4) by (rule buf_slice_exact)
  then show ?thesis
    using assms(1,2) range_edit_safe [OF assms(1) s, of "[]"] place_okD(2) [OF assms(1)]
    by (cases op) (auto simp: apply_chars_def place_simps(2) Let_def intro!: step_postI idle_ok)
qed

lemma delete_range_bounds:
  assumes "first \<le> last_line" "last_line \<le> buf_line_count b - 1" "linewise_delete_range b first last_line = (i, j)"
  shows "i \<le> j" "j \<le> nchars b" "last_line < buf_line_count b - 1 \<Longrightarrow> j = nth_line_start b (last_line + 1)"
proof -
  have se: "nth_line_start b first \<le> line_end_by_line b last_line" "line_end_by_line b last_line \<le> nchars b"
    using nth_line_start_mono [OF assms(1,2)] line_end_by_line_bounds [of b last_line] by linarith+
  then show "i \<le> j" "j \<le> nchars b" using assms(3) by (auto simp: linewise_delete_range_def Let_def split: if_splits)
  assume "last_line < buf_line_count b - 1"
  then show "j = nth_line_start b (last_line + 1)"
    using assms(3) line_end_next [OF assms(2)] by (auto simp: linewise_delete_range_def Let_def split: if_splits)
qed

lemma apply_linewise_ok:
  assumes "place_ok v b k" "vi_idle e" "m \<le> buf_line_count b - 1" "n \<le> buf_line_count b - 1"
  shows "ok (step_post b e) (apply_linewise v b op m n e)"
proof -
  obtain first last_line where fl: "ordered m n = (first, last_line)" by (cases "ordered m n")
  then have o: "first \<le> last_line" "last_line \<le> buf_line_count b - 1" using assms(3,4) by (auto simp: ordered_def split: if_splits)
  let ?s = "nth_line_start b first" and ?e = "line_end_by_line b last_line"
  have se: "?s \<le> ?e" "?e \<le> nchars b" using nth_line_start_mono [OF o] line_end_by_line_bounds [of b last_line] by linarith+
  define r where "r = str_bytes (slice ?s (?e - ?s) (vb_chars b))"
  have r: "buf_slice b ?s ?e = Some r" using ok_buf_slice [OF se] by (simp add: r_def)
  have reg: "linewise_register_text b first last_line = Some (r @ [0x0a])" using r by (simp add: linewise_register_text_def)
  have ur: "utf8 (r @ [0x0a])" using place_okD(2) [OF assms(1)] by (simp add: r_def)
  let ?f = "set_register (r @ [0x0a]) True e"
  have f: "vi_idle ?f" "keeps_recording e ?f" using assms(2) ur by simp_all
  show ?thesis
  proof (cases op)
    case Yank
    then show ?thesis
      using fl reg f place_okD(2) [OF assms(1)] assms(1) by (auto simp: apply_linewise_def place_simps(2) intro!: step_postI idle_ok)
  next
    case Change
    have "edits_safe (text_of b) [edit_at v (at b ?s) r []]" using range_edit_safe [OF assms(1) se, of "[]"] by (simp add: r_def)
    then show ?thesis using Change fl reg r f assms(1) by (auto simp: apply_linewise_def place_simps(2) Let_def intro!: step_postI idle_ok)
  next
    case Delete
    obtain i j where ij: "linewise_delete_range b first last_line = (i, j)" by (cases "linewise_delete_range b first last_line")
    note B = delete_range_bounds [OF o ij]
    have "edits_safe (text_of b) [edit_at v (at b i) (str_bytes (slice i (j - i) (vb_chars b))) []]"
      using range_edit_safe [OF assms(1) B(1,2), of "[]"] by simp
    moreover have "at b j - at b i \<le> at b (first_non_blank b (nth_line_start b (last_line + 1)))" if "last_line + 1 < buf_line_count b"
    proof -
      have "at b j \<le> at b (first_non_blank b (nth_line_start b (last_line + 1)))"
        using B(3) that first_non_blank_bounds(1) [OF nth_line_start_le, of b "last_line + 1"] by (intro offset_mono) simp
      then show ?thesis by linarith
    qed
    ultimately show ?thesis
      using Delete fl reg ij f assms(1) ok_buf_slice [OF B(1,2)] offset_mono [OF B(1), of "vb_chars b"]
      by (auto simp: apply_linewise_def place_simps(2) Let_def intro!: step_postI idle_ok)
  qed
qed

definition motion_ok :: "vi_buffer \<Rightarrow> motion \<Rightarrow> bool" where
  "motion_ok b m \<longleftrightarrow>
     (case m of
        Lines first last_line \<Rightarrow> first \<le> buf_line_count b - 1 \<and> last_line \<le> buf_line_count b - 1
      | Chars i j inclusive \<Rightarrow> i \<le> nchars b \<and> j \<le> nchars b \<and> i \<le> (if inclusive then j + 1 else j))"

lemma promote_exclusive_bounds:
  assumes "promote_exclusive b i j = Some k" "i \<le> nchars b"
  shows "i \<le> k"
proof -
  let ?l = "line_index b (min j (nchars b))"
  have l: "line_index b i < ?l" "k = line_end_by_line b (?l - 1)"
    using assms(1) by (auto simp: promote_exclusive_def Let_def split: if_splits)
  have "line_end_by_line b (line_index b i) \<le> line_end_by_line b (?l - 1)"
    using l(1) line_index_le [of b "min j (nchars b)"] by (intro line_end_by_line_mono) simp_all
  then show ?thesis using on_its_line(2) [OF assms(2)] line_end_bounds(1) [OF assms(2)] l(2) by simp
qed

lemma apply_operator_ok:
  assumes "place_ok v b k" "vi_idle e" "motion_ok b m"
  shows "ok (step_post b e) (apply_operator v b op m e)"
proof (cases m)
  case (Lines first last_line)
  then show ?thesis using apply_linewise_ok [OF assms(1,2)] assms(3) by (simp add: apply_operator_def motion_ok_def)
next
  case (Chars i j inclusive)
  then have i: "i \<le> nchars b" "i \<le> (if inclusive then min (j + 1) (nchars b) else j)" using assms(3) by (auto simp: motion_ok_def split: if_splits)
  let ?j = "if inclusive then min (j + 1) (nchars b) else j"
  let ?stop = "if \<not> inclusive \<and> i < ?j then (case promote_exclusive b i ?j of Some k \<Rightarrow> k | None \<Rightarrow> ?j) else ?j"
  have "i \<le> ?stop" using i promote_exclusive_bounds [OF _ i(1)] by (auto split: option.splits)
  then show ?thesis using apply_chars_ok [OF assms(1,2) _ i(1), of ?stop op] Chars by (simp add: apply_operator_def Let_def)
qed

end
