(* ===== verification/Vi_Total.thy ===== *)
theory Vi_Total
  imports Vi_Safe
begin

text \<open>
  Every keystroke of the vi engine, in every mode and stage, meets the contract of a step: motions under
  operators resolve to ranges in order, counts stay within their bounds, and the recording is kept.
\<close>

section \<open>Motions under an operator\<close>

lemma motion_room:
  assumes "place_ok v b i" "count_below (10 ^ 18) count"
  shows "or_one count + nchars b \<le> isize_max" "j \<le> nchars b \<Longrightarrow> checked_add j (or_one count) = Some (j + or_one count)"
    "j \<le> nchars b \<Longrightarrow> checked_add j (or_one count - 1) = Some (j + (or_one count - 1))"
  using place_okD(6) [OF assms(1)] assms(2)
  by (auto simp: or_one_def isize_max_def usize_max_def checked_add_def split: option.splits)

lemma line_index_small: "line_index b i \<le> nchars b"
  by (simp add: line_index_newlines newlines_def nchars_def order_trans [OF length_filter_le])

lemma resolve_total:
  assumes "place_ok v b i" "count_below (10 ^ 18) count"
  shows "\<exists>m. resolve_motion v b (at b i) key count None = Some m"
proof (cases "key \<in> set motion_keys")
  case True
  then obtain t where "reaches v b i key count t"
    using motion_reaches [OF place_okD(2) [OF assms(1)] place_okD(4) [OF assms(1)] motion_room(1) [OF assms] True] by blast
  then show ?thesis by (auto simp: reaches_def)
qed (simp add: no_motion)

definition motion_fine :: "vi_buffer \<Rightarrow> motion option \<Rightarrow> bool" where
  "motion_fine b m \<longleftrightarrow> (case m of None \<Rightarrow> True | Some m \<Rightarrow> motion_ok b m)"

lemma words_fine:
  assumes "place_ok v b i"
  shows "ok (\<lambda>t. motion_ok b (Chars i t False)) (word_forward v (indexed_text b) big n i)"
    "ok (\<lambda>t. motion_ok b (Chars t i False)) (word_back v (indexed_text b) big n i)"
    "ok (\<lambda>t. motion_ok b (Chars i t True)) (word_end v (indexed_text b) big n i)"
proof -
  let ?cs = "vb_chars b"
  have i: "scalars ?cs" "i \<le> length ?cs" using place_okD(2,5) [OF assms] by simp_all
  have ix: "indexed_text b = indexed_text (buffer_of (text_of b))"
    using i(1) by (simp add: indexed_text_def nchars_def char_at_def)
  show "ok (\<lambda>t. motion_ok b (Chars i t False)) (word_forward v (indexed_text b) big n i)"
    using indexed.word_forward_pos [OF i] forward_from_bounds [OF i(2)] i(2) by (simp add: ix motion_ok_def nchars_def)
  show "ok (\<lambda>t. motion_ok b (Chars t i False)) (word_back v (indexed_text b) big n i)"
    using indexed.word_back_pos [OF i] back_to_bounds i(2) order_trans [OF back_to_bounds i(2)] by (simp add: ix motion_ok_def nchars_def)
  have "end_from v ?cs big n i \<le> length ?cs" "i \<le> end_from v ?cs big n i + 1"
    using end_from_bounds [OF i(2), of v big n] by linarith+
  then show "ok (\<lambda>t. motion_ok b (Chars i t True)) (word_end v (indexed_text b) big n i)"
    using indexed.word_end_pos [OF i] i(2) by (simp add: ix motion_ok_def nchars_def)
qed

lemma end_of_line_fine:
  assumes "i \<le> nchars b" "m \<le> buf_line_count b - 1" "line_index b i \<le> m"
  shows "motion_ok b (Chars i (if nth_line_start b m < line_end_by_line b m then line_end_by_line b m - 1 else line_end_by_line b m) True)"
proof -
  have "i \<le> line_end_by_line b m"
    using line_end_by_line_mono [OF assms(3,2)] on_its_line(2) [OF assms(1)] line_end_bounds(1) [OF assms(1)] by linarith
  then show ?thesis using line_end_by_line_bounds(2) [of b m] assms(1) by (auto simp: motion_ok_def)
qed

lemma resolve_motion_ok:
  assumes p: "place_ok v b i" and c: "count_below (10 ^ 18) count"
  shows "ok (motion_fine b) (resolve_motion v b (at b i) key count (Some op))"
proof -
  note room = motion_room [OF p c] and L = line_bounds [OF p] and n = place_okD(4) [OF p]
  have lines: "line_index b i \<le> buf_line_count b - 1" by (rule line_index_le)
  have ahead: "ok (motion_fine b) (map_option (\<lambda>t. Some (Chars i t x)) m)" if "ok (\<lambda>t. motion_ok b (Chars i t x)) m" for m x
    using that by (auto simp: ok_iff motion_fine_def)
  have behind: "ok (motion_fine b) (map_option (\<lambda>t. Some (Chars t i x)) m)" if "ok (\<lambda>t. motion_ok b (Chars t i x)) m" for m x
    using that by (auto simp: ok_iff motion_fine_def)
  consider "key \<notin> set motion_keys" | "key = 0x68" | "key = 0x6c" | "key = 0x77 \<or> key = 0x57" | "key = 0x62 \<or> key = 0x42" | "key = 0x65 \<or> key = 0x45"
    | "key = 0x30" | "key = 0x5e" | "key = 0x24" | "key = 0x6a" | "key = 0x6b" | "key = 0x47"
    by (auto simp: motion_keys_def)
  then show ?thesis
  proof cases
    case 1
    then show ?thesis by (simp add: no_motion motion_fine_def)
  next
    case 2
    then show ?thesis using L n by (auto simp: resolve_motion_def place_simps(1) [OF p] Let_def motion_fine_def motion_ok_def)
  next
    case 3
    then show ?thesis using L n room(2) by (auto simp: resolve_motion_def place_simps(1) [OF p] Let_def motion_fine_def motion_ok_def)
  next
    case 4
    then show ?thesis using ahead [OF words_fine(1) [OF p]] ahead [OF words_fine(3) [OF p]]
      by (auto simp: resolve_motion_def place_simps(1) [OF p] Let_def)
  next
    case 5
    then show ?thesis using behind [OF words_fine(2) [OF p]] by (auto simp: resolve_motion_def place_simps(1) [OF p] Let_def)
  next
    case 6
    then show ?thesis using ahead [OF words_fine(3) [OF p]] by (auto simp: resolve_motion_def place_simps(1) [OF p] Let_def)
  next
    case 7
    then show ?thesis using L n by (auto simp: resolve_motion_def place_simps(1) [OF p] Let_def motion_fine_def motion_ok_def)
  next
    case 8
    then show ?thesis using first_non_blank_le [OF L(4)] n
      by (auto simp: resolve_motion_def place_simps(1) [OF p] Let_def motion_fine_def motion_ok_def ordered_def)
  next
    case 9
    then show ?thesis
      using room(3) [OF line_index_small, of i] end_of_line_fine [OF n, of "min (line_index b i + (or_one count - 1)) (buf_line_count b - 1)"] lines
      by (auto simp: resolve_motion_def place_simps(1) [OF p] Let_def motion_fine_def split: if_splits)
  next
    case 10
    then show ?thesis using room(2) [OF line_index_small, of i] lines
      by (simp add: resolve_motion_def place_simps(1) [OF p] Let_def motion_fine_def motion_ok_def)
  next
    case 11
    then show ?thesis using lines by (simp add: resolve_motion_def place_simps(1) [OF p] Let_def motion_fine_def motion_ok_def)
  next
    case 12
    then show ?thesis using lines
      by (cases count) (simp_all add: resolve_motion_def place_simps(1) [OF p] Let_def motion_fine_def motion_ok_def ordered_def)
  qed
qed

lemma cursor_motion_ok:
  assumes "place_ok v b i" "vi_idle e" "count_below (10 ^ 9) count"
  shows "ok (step_post b e) (cursor_motion v b c count (at b i) e)"
proof -
  have "count_below (10 ^ 18) count" using assms(3) by (auto simp: count_below_def split: option.splits)
  then obtain m where "resolve_motion v b (at b i) c count None = Some m" using resolve_total [OF assms(1)] by blast
  moreover have "is_char_boundary (text_of b) (move_cursor b k m)" for k m
    using assms(1) place_okD(2) [OF assms(1)]
    by (auto simp: move_cursor_def vi_clamp_cursor_def place_simps(2) [OF assms(1)] Let_def split: motion.splits)
  ultimately show ?thesis
    using assms(2) place_okD(2) [OF assms(1)] by (auto simp: cursor_motion_def idle_ok split: option.splits)
qed

section \<open>Insert and Replace mode\<close>

lemma typing_idle: "vi_ok e \<Longrightarrow> ve_mode e \<in> {Insert, Replace_Mode} \<Longrightarrow> vi_idle e"
  by (auto simp: vi_ok_def pending_ok_def vi_idle_def split: stage.splits if_splits)

lemma at_0: "place_ok v b i \<Longrightarrow> at b i = 0 \<longleftrightarrow> i = 0"
  using borrowed.pos_pos [of i "vb_chars b"] place_okD(5) [of v b i] by auto

lemma step_left_boundary: "place_ok v b i \<Longrightarrow> is_char_boundary (text_of b) (step_left b (at b i))"
  using place_okD(2) [of v b i] by (auto simp: step_left_def place_simps Let_def)

lemma backspace_ok:
  assumes "place_ok v b i" "i \<noteq> 0"
  shows "buf_slice b (i - 1) i = Some (str_bytes (slice (i - 1) 1 (vb_chars b)))"
    "edits_safe (text_of b) [edit_at v (at b (i - 1)) (str_bytes (slice (i - 1) 1 (vb_chars b))) []]"
  using ok_buf_slice [of "i - 1" i b] range_edit_safe [OF assms(1), of "i - 1" i "[]"] place_okD(4) [OF assms(1)] assms(2) by simp_all

lemma step_insert_ok:
  assumes "place_ok v b i" "vi_idle e" "key_ok key"
  shows "ok (step_post b e) (step_insert v b key (at b i) e)"
proof (cases key)
  case Backspace_Key
  then show ?thesis
    using assms backspace_ok [OF assms(1)] place_okD(2) [OF assms(1)]
    by (cases "i = 0") (auto simp: place_simps at_0 idle_ok Let_def intro!: step_postI)
qed (use assms insert_edit_safe [OF assms(1) place_okD(4) [OF assms(1)]] place_okD(2) [OF assms(1)] step_left_boundary [OF assms(1)] in
    \<open>auto simp: idle_ok key_ok_def intro!: step_postI\<close>)

lemma replace_here_ok:
  assumes "place_ok v b i" "i < line_end b i" "is_scalar c"
  shows "buf_slice b i (i + 1) = Some (str_bytes (slice i 1 (vb_chars b)))"
    "edits_safe (text_of b) [edit_at v (at b i) (str_bytes (slice i 1 (vb_chars b))) (encode_utf8 c)]"
  using ok_buf_slice [of i "i + 1" b] range_edit_safe [OF assms(1), of i "i + 1" "encode_utf8 c"] line_bounds [OF assms(1)] assms(2,3) by simp_all

lemma step_replace_ok:
  assumes "place_ok v b i" "vi_idle e" "key_ok key"
  shows "ok (step_post b e) (step_replace v b key (at b i) e)"
proof (cases key)
  case (Char_Key c)
  then show ?thesis
    using assms replace_here_ok [OF assms(1)] insert_edit_safe [OF assms(1) place_okD(4) [OF assms(1)]]
    by (auto simp: place_simps(1) idle_ok key_ok_def Let_def intro!: step_postI)
next
  case Backspace_Key
  then show ?thesis
    using assms place_okD(2) [OF assms(1)] by (cases "i = 0") (auto simp: place_simps at_0 idle_ok Let_def)
qed (use assms insert_edit_safe [OF assms(1) place_okD(4) [OF assms(1)]] place_okD(2) [OF assms(1)] step_left_boundary [OF assms(1)] in
    \<open>auto simp: idle_ok intro!: step_postI\<close>)

section \<open>Normal mode\<close>

lemma utf8_copies: "is_scalar c \<Longrightarrow> utf8 (concat (replicate n (encode_utf8 c)))"
  by (induction n) (simp_all add: utf8_scalars [of "[]"] exI [of _ "[]"])

lemma count_below_mono: "count_below m c \<Longrightarrow> m \<le> n \<Longrightarrow> count_below n c"
  by (auto simp: count_below_def split: option.splits)

lemma or_one_below: "count_below n c \<Longrightarrow> 1 < n \<Longrightarrow> 0 < or_one c \<and> or_one c < n"
  by (auto simp: count_below_def or_one_def split: option.splits)

lemma apply_replace_char_ok:
  assumes "place_ok v b i" "utf8 (rg_text (ve_register e))" "ve_operator_count e = None" "count_below (10 ^ 9) (ve_count e)" "key_ok key"
  shows "ok (step_post b e) (apply_replace_char v b key (at b i) e)"
proof -
  let ?n = "or_one (ve_count e)" and ?e = "e\<lparr>ve_stage := Ready, ve_count := None\<rparr>"
  have n: "0 < ?n" "?n < 10 ^ 9" using or_one_below [OF assms(4)] by simp_all
  have sum: "checked_add i ?n = Some (i + ?n)" using n(2) place_okD(4,6) [OF assms(1)] by (simp add: checked_add_def usize_max_def)
  have e: "vi_idle ?e" using assms(2,3) by (simp add: vi_idle_def)
  have fits: "buf_slice b i (i + ?n) = Some (str_bytes (slice i ?n (vb_chars b)))"
    "edits_safe (text_of b) [edit_at v (at b i) (str_bytes (slice i ?n (vb_chars b))) s]" if "i + ?n \<le> line_end b i" "utf8 s" for s
    using that line_bounds(3) [OF assms(1)] ok_buf_slice [of i "i + ?n" b] range_edit_safe [OF assms(1), of i "i + ?n" s] by simp_all
  have "is_scalar NL" by (simp add: NL_def is_scalar_def)
  then show ?thesis
    using assms n sum e fits place_okD(2) [OF assms(1)] utf8_copies idle_ok(1) [OF e] idle_ok(1) [OF reset_idle_id [OF e]]
    by (cases key) (auto simp: apply_replace_char_def place_simps(1) Let_def key_ok_def not_less ok_if intro!: step_postI)
qed

lemma after_g_ok:
  assumes "place_ok v b i" "utf8 (rg_text (ve_register e))" "ve_operator_count e = None"
  shows "ok (step_post b e) (after_g v b op key (at b i) e)"
proof -
  let ?e = "e\<lparr>ve_count := None, ve_stage := Ready\<rparr>"
  have e: "vi_idle ?e" "vi_idle (reset_pending (?e\<lparr>ve_operator_count := None\<rparr>))" using assms(2,3) by (simp_all add: vi_idle_def reset_pending_def)
  obtain m n where mn: "ordered (line_index b i) (min (case ve_count e of None \<Rightarrow> 0 | Some n \<Rightarrow> n - 1) (buf_line_count b - 1)) = (m, n)"
    by fastforce
  then have "m \<le> buf_line_count b - 1" "n \<le> buf_line_count b - 1"
    using line_index_le [of b i] by (auto simp: ordered_def split: if_splits)
  then have "ok (step_post b ?e) (apply_linewise v b p m n ?e)" for p by (rule apply_linewise_ok [OF assms(1) e(1)])
  moreover have "step_post b ?e x \<Longrightarrow> step_post b e x" for x
    by (auto simp: step_post_def keeps_recording_def)
  ultimately have "ok (step_post b e) (apply_linewise v b p m n ?e)" for p by (metis ok_mono)
  then show ?thesis
    using assms(1) e mn place_okD(2) [OF assms(1)] by (cases op) (auto simp: after_g_def place_simps Let_def idle_ok)
qed

lemma word_object_bounds:
  assumes "word_object v b ci inner big = (i, j)"
  shows "i \<le> j" "j \<le> nchars b" "i \<le> nchars b"
proof -
  have "i \<le> j \<and> j \<le> nchars b"
  proof (cases "nchars b = 0")
    case False
    let ?cs = "vb_chars b" and ?c = "min ci (nchars b - 1)"
    have c: "?c < length ?cs" using False by (cases ?cs) (auto simp: nchars_def)
    have e: "extent P (take k ?cs) \<le> k" for P k using extent_le [of P "take k ?cs"] by simp
    have w: "k + length (takeWhile P (drop k ?cs)) \<le> length ?cs" if "k \<le> length ?cs" for P k
      using length_takeWhile_le [of P "drop k ?cs"] that by simp
    define here where "here = char_class v (?cs ! ?c)"
    define P where "P = (\<lambda>c. if here = Blank then char_class v c = Blank else if big then char_class v c \<noteq> Blank else char_class v c = here)"
    define Q where "Q = (\<lambda>c. char_class v c = Blank \<and> c \<noteq> NL)"
    define start where "start = extent (\<lambda>c. \<not> P c) (take ?c ?cs)"
    define stop where "stop = ?c + 1 + length (takeWhile P (drop (?c + 1) ?cs))"
    have s: "start \<le> ?c" "?c < stop" "stop \<le> length ?cs" using e [of "\<lambda>c. \<not> P c" ?c] w [of "?c + 1" P] c by (simp_all add: start_def stop_def)
    have "(i, j) = (if inner then (start, stop) else if stop < stop + length (takeWhile Q (drop stop ?cs))
        then (start, stop + length (takeWhile Q (drop stop ?cs))) else (extent (\<lambda>c. \<not> Q c) (take start ?cs), stop))"
      unfolding assms [symmetric] word_object_def Let_def here_def P_def Q_def start_def stop_def using False by (simp only: if_False)
    then show ?thesis
      using s e [of "\<lambda>c. \<not> Q c" start] w [OF s(3), of Q] by (auto simp: nchars_def split: if_splits)
  qed (use assms in \<open>simp add: word_object_def\<close>)
  then show "i \<le> j" "j \<le> nchars b" "i \<le> nchars b" by simp_all
qed

lemma text_object_fine: "word_object v b ci inner big = (i, j) \<Longrightarrow> motion_ok b (Chars i j False)"
  using word_object_bounds by (simp add: motion_ok_def)

lemma step_post_pair: "step_post b e ((a, c), f) \<longleftrightarrow> answer_ok b a c \<and> vi_ok f \<and> keeps_recording e f"
  by (simp add: step_post_def)

lemma step_post_same: "keeps_recording e f \<Longrightarrow> ok (step_post b f) m \<Longrightarrow> ok (step_post b e) m"
  by (erule ok_mono) (auto simp: step_post_def intro: keeps_trans)

lemma after_text_object_ok:
  assumes "place_ok v b i" "utf8 (rg_text (ve_register e))" "ve_operator_count e = None"
  shows "ok (step_post b e) (after_text_object v b op inner key (at b i) e)"
proof -
  let ?e = "e\<lparr>ve_stage := Ready, ve_count := None\<rparr>"
  have e: "vi_idle ?e" using assms(2,3) by (simp add: vi_idle_def)
  have "ok (step_post b e) (apply_operator v b op (Chars m n False) ?e)" if "word_object v b i inner (key = Char_Key 0x57) = (m, n)" for m n
    by (rule step_post_same [OF _ apply_operator_ok [OF assms(1) e text_object_fine [OF that]]]) simp
  then show ?thesis
    using e assms(1) place_okD(2) [OF assms(1)] by (auto simp: after_text_object_def place_simps(1) Let_def idle_ok split: prod.splits)
qed

lemma consume_count_digit_ok:
  assumes "is_digit c \<Longrightarrow> count_below (10 ^ 8) (ve_count e)" "count_below (10 ^ 9) (ve_count e)"
  shows "\<exists>d k. consume_count_digit c e = Some (d, e\<lparr>ve_count := k\<rparr>) \<and> count_below (10 ^ 9) k \<and> (\<not> d \<longrightarrow> k = ve_count e)"
proof (cases "is_digit c \<and> \<not> (c = 0x30 \<and> ve_count e = None)")
  case True
  define k where "k = (case ve_count e of None \<Rightarrow> 0 | Some n \<Rightarrow> n) * 10 + (c - 0x30)"
  have k: "0 < k" "k < 10 ^ 9"
    using True assms(1) by (auto simp: k_def is_digit_def count_below_def split: option.splits)
  then have "consume_count_digit c e = Some (True, e\<lparr>ve_count := Some k\<rparr>)"
    using True by (simp add: consume_count_digit_def checked_mul_def checked_add_def usize_max_def k_def)
  then show ?thesis using k by (intro exI [of _ True] exI [of _ "Some k"]) simp
next
  case False
  then have "consume_count_digit c e = Some (False, e)" unfolding consume_count_digit_def by (simp only: if_False)
  then show ?thesis using assms(2) by (intro exI [of _ False] exI [of _ "ve_count e"]) simp
qed

lemma operate_ok:
  assumes "place_ok v b i" "utf8 (rg_text (ve_register e))" "ve_mode e = Normal"
    "count_below (10 ^ 9) (ve_count e)" "count_below (10 ^ 9) (ve_operator_count e)"
  shows "ok (step_post b e) (operate v b op c (at b i) e)"
proof -
  define eff where "eff = (if ve_operator_count e = None \<and> ve_count e = None then None
      else Some (or_one (ve_operator_count e) * or_one (ve_count e)))"
  have o: "0 < or_one (ve_operator_count e)" "or_one (ve_operator_count e) < 10 ^ 9" "0 < or_one (ve_count e)" "or_one (ve_count e) < 10 ^ 9"
    using or_one_below [OF assms(4)] or_one_below [OF assms(5)] by simp_all
  have p: "or_one (ve_operator_count e) * or_one (ve_count e) < 10 ^ 9 * 10 ^ 9"
    by (rule mult_strict_mono) (use o in simp_all)
  have eff: "count_below (10 ^ 18) eff" using o(1,3) p by (simp add: eff_def)
  have head: "(if ve_operator_count e = None \<and> ve_count e = None then Some None
      else map_option Some (checked_mul (or_one (ve_operator_count e)) (or_one (ve_count e)))) = Some eff"
    using p by (simp add: eff_def checked_mul_def usize_max_def)
  let ?f = "e\<lparr>ve_operator_count := None, ve_count := None\<rparr>"
  let ?e = "?f\<lparr>ve_stage := Ready\<rparr>"
  have e: "vi_idle ?e" using assms(2) by (simp add: vi_idle_def)
  have lift: "ok (step_post b ?e) m \<Longrightarrow> ok (step_post b e) m" for m by (erule step_post_same [rotated]) simp
  note B = place_okD(2) [OF assms(1)] and room = motion_room(2) [OF assms(1) eff line_index_small]
  show ?thesis
  proof (cases "doubled op c")
    case True
    let ?l = "min (line_index b i + or_one eff - 1) (buf_line_count b - 1)"
    have "0 < or_one eff" using or_one_below [OF eff] by simp
    then have "ok (step_post b e) (apply_linewise v b op (line_index b i) ?l ?e)" "1 \<le> line_index b i + or_one eff"
      using apply_linewise_ok [OF assms(1) e line_index_le, of ?l op] by (auto intro: lift)
    then show ?thesis using True head room place_simps(1) [OF assms(1)] by (simp add: operate_def Let_def)
  next
    case False
    obtain m where m: "resolve_motion v b (at b i) c eff (Some op) = Some m" "motion_fine b m"
      using resolve_motion_ok [OF assms(1) eff] by (auto simp: ok_iff)
    have "ok (step_post b e) (apply_operator v b op k ?e)" if "m = Some k" for k
      using apply_operator_ok [OF assms(1) e, of k] m(2) that by (auto simp: motion_fine_def intro: lift)
    moreover have "vi_ok (?f\<lparr>ve_stage := AfterTextObject op x, ve_count := n\<rparr>)" "vi_ok (?f\<lparr>ve_stage := AfterG (Some op), ve_count := eff\<rparr>)"
        "vi_ok (reset_pending ?e)" for x n
      using assms(2,3) eff idle_ok(1) [OF reset_idle_id [OF e]] by (simp_all add: vi_ok_def pending_ok_def)
    ultimately show ?thesis
      using False m(1) B by (cases m) (simp_all add: operate_def head Let_def step_post_pair)
  qed
qed

lemma after_operator_ok:
  assumes "place_ok v b i" "vi_ok e" "ve_stage e = AfterOperator op" "count_room key e"
  shows "ok (step_post b e) (after_operator v b op key (at b i) e)"
proof -
  have p: "ve_mode e = Normal" "count_below (10 ^ 9) (ve_count e)" "count_below (10 ^ 9) (ve_operator_count e)" "utf8 (rg_text (ve_register e))"
    using assms(2,3) by (auto simp: vi_ok_def pending_ok_def)
  have r: "vi_idle (reset_pending e)" using p(4) by (rule reset_idle)
  note B = place_okD(2) [OF assms(1)]
  show ?thesis
  proof (cases key)
    case (Char_Key c)
    then have room: "is_digit c \<Longrightarrow> count_below (10 ^ 8) (ve_count e)" using assms(3,4) by (auto simp: count_room_def)
    obtain d k where k: "consume_count_digit c e = Some (d, e\<lparr>ve_count := k\<rparr>)" "count_below (10 ^ 9) k" "\<not> d \<longrightarrow> k = ve_count e"
      using consume_count_digit_ok [OF room p(2)] by blast
    have "vi_ok (e\<lparr>ve_count := k\<rparr>)" using k(2) p assms(3) by (simp add: vi_ok_def pending_ok_def)
    moreover have "\<not> d \<Longrightarrow> e\<lparr>ve_count := k\<rparr> = e" using k(3) by simp
    ultimately show ?thesis
      using Char_Key k(1) operate_ok [OF assms(1) p(4,1,2,3)] B by (cases d) (simp_all add: after_operator_def)
  qed (use B r in \<open>simp_all add: after_operator_def idle_ok\<close>)
qed

lemma ok_ifI: "(c \<Longrightarrow> ok P m) \<Longrightarrow> (\<not> c \<Longrightarrow> ok P n) \<Longrightarrow> ok P (if c then m else n)"
  by simp

lemma substitute_ok:
  assumes "place_ok v b i" "vi_idle e" "0 < n" "n < 10 ^ 9"
  shows "ok (step_post b e) (do {
     ((action, new), e) \<leftarrow> delete_chars_forward v b (at b i) n e;
     Some ((action, new), case action of Edit _ \<Rightarrow> e\<lparr>ve_mode := Insert\<rparr> | _ \<Rightarrow> e) })"
  using delete_chars_forward_ok [OF assms]
  by (auto simp: ok_iff step_post_def idle_ok split: vi_action.splits)

lemma normal_command_ok:
  assumes "place_ok v b i" "vi_idle e" "ve_mode e = Normal" "count_below (10 ^ 9) count"
  shows "ok (step_post b e) (normal_command v b c count (at b i) e)"
proof -
  note B = place_okD(2) [OF assms(1)]
  have n: "0 < or_one count" "or_one count < 10 ^ 9" using or_one_below [OF assms(4)] by simp_all
  have r: "vi_ok (reset_pending e)" using assms(2) by (simp add: idle_ok)
  have pend: "vi_ok (e\<lparr>ve_operator_count := count, ve_stage := AfterOperator op\<rparr>)" "vi_ok (e\<lparr>ve_count := count, ve_stage := AfterG None\<rparr>)"
      "vi_ok (e\<lparr>ve_count := count, ve_stage := AwaitReplace\<rparr>)" for op
    using assms(2-4) count_below_mono [OF assms(4), of "10 ^ 18"] by (simp_all add: vi_idle_def vi_ok_def pending_ok_def)
  have other: "ok (step_post b e) (case search_key c of Some intent \<Rightarrow> Some ((Search intent, at b i), e)
      | None \<Rightarrow> (case refused_key c of Some headline \<Rightarrow> refuse (at b i) headline e
        | None \<Rightarrow> if c \<in> set motion_keys then cursor_motion v b c count (at b i) e else refuse_unsupported (at b i) e))"
    using cursor_motion_ok [OF assms(1,2,4)] B r idle_ok(1) [OF assms(2)] by (auto simp: step_post_pair split: option.splits)
  have delete: "ok (step_post b e) (delete_chars_forward v b (at b i) (or_one count) e)"
    using delete_chars_forward_ok [OF assms(1,2) n] by (rule ok_mono) simp
  have stay: "ok (step_post b e) (still (at b i) (e\<lparr>ve_mode := m\<rparr>))" "ok (step_post b e) (still (at b i) (e\<lparr>ve_mode := m, ve_visual_anchor := a\<rparr>))"
      "ok (step_post b e) (still (at b i) (e\<lparr>ve_count := count, ve_stage := AfterG None\<rparr>))"
      "ok (step_post b e) (still (at b i) (e\<lparr>ve_count := count, ve_stage := AwaitReplace\<rparr>))"
      "ok (step_post b e) (begin_operator op count (at b i) e)" "ok (step_post b e) (Some ((Undo_Action, at b i), e))" for m a op
    using B pend idle_ok [OF assms(2)] by (simp_all add: begin_operator_def step_post_pair)
  show ?thesis
    unfolding normal_command_def Let_def place_simps(1) [OF assms(1)] place_simps(2) [OF assms(1)]
    by (intro ok_ifI stay delete other enter_insert_ok [OF B assms(2)] vi_open_line_ok [OF assms(1,2)] delete_chars_back_ok [OF assms(1,2)]
        delete_to_line_end_ok [OF assms(1,2)] substitute_ok [OF assms(1,2) n] join_lines_ok [OF assms(1,2)] paste_ok [OF assms(1,2)])
qed

lemma ready_counts: "vi_ok e \<Longrightarrow> ve_stage e = Ready \<Longrightarrow> ve_mode e \<notin> {Insert, Replace_Mode} \<Longrightarrow>
    ve_operator_count e = None \<and> count_below (10 ^ 9) (ve_count e) \<and> utf8 (rg_text (ve_register e))"
  by (simp add: vi_ok_def pending_ok_def)

lemma ready_idle: "vi_ok e \<Longrightarrow> ve_stage e = Ready \<Longrightarrow> ve_mode e \<notin> {Insert, Replace_Mode} \<Longrightarrow> vi_idle (e\<lparr>ve_count := None\<rparr>)"
  by (simp add: vi_ok_def pending_ok_def vi_idle_def)

lemma ready_count_ok:
  "vi_ok e \<Longrightarrow> ve_stage e = Ready \<Longrightarrow> ve_mode e \<notin> {Insert, Replace_Mode} \<Longrightarrow> count_below (10 ^ 9) k \<Longrightarrow> vi_ok (e\<lparr>ve_count := k\<rparr>)"
  by (simp add: vi_ok_def pending_ok_def)

text \<open>A digit is taken into the count; any other key runs its command with the count taken out.\<close>

lemma digit_or_command:
  assumes "indexed_ok b" "vi_ok e" "ve_stage e = Ready" "ve_mode e \<notin> {Insert, Replace_Mode}" "count_room (Char_Key c) e"
    and cmd: "ok (step_post b (e\<lparr>ve_count := None\<rparr>)) (f (ve_count e) (e\<lparr>ve_count := None\<rparr>))"
  shows "ok (step_post b e) (do {
      (digit, e) \<leftarrow> consume_count_digit c e;
      if digit then still (at b i) e else f (ve_count e) (e\<lparr>ve_count := None\<rparr>) })"
proof -
  have room: "is_digit c \<Longrightarrow> count_below (10 ^ 8) (ve_count e)" using assms(3,5) by (auto simp: count_room_def)
  have n: "count_below (10 ^ 9) (ve_count e)" using ready_counts [OF assms(2-4)] by simp
  obtain d k where k: "consume_count_digit c e = Some (d, e\<lparr>ve_count := k\<rparr>)" "count_below (10 ^ 9) k" "\<not> d \<longrightarrow> k = ve_count e"
    using consume_count_digit_ok [OF room n] by blast
  have "ok (step_post b e) (f (ve_count e) (e\<lparr>ve_count := None\<rparr>))" by (rule step_post_same [OF _ cmd]) simp
  then show ?thesis using k ready_count_ok [OF assms(2-4) k(2)] assms(1) by (cases d) simp_all
qed

lemma normal_ready_ok:
  assumes "place_ok v b i" "vi_ok e" "ve_stage e = Ready" "ve_mode e = Normal" "count_room key e"
  shows "ok (step_post b e) (normal_ready v b key (at b i) e)"
proof -
  note B = place_okD(2) [OF assms(1)]
  have m: "ve_mode e \<notin> {Insert, Replace_Mode}" using assms(4) by simp
  have r: "vi_ok (reset_pending e)" using ready_counts [OF assms(2,3) m] by (simp add: reset_idle idle_ok)
  show ?thesis
  proof (cases key)
    case (Char_Key c)
    have "ok (step_post b (e\<lparr>ve_count := None\<rparr>)) (normal_command v b c (ve_count e) (at b i) (e\<lparr>ve_count := None\<rparr>))"
      using normal_command_ok [OF assms(1) ready_idle [OF assms(2,3) m]] ready_counts [OF assms(2,3) m] assms(4) by simp
    then show ?thesis
      using digit_or_command [OF B assms(2,3) m, of c "\<lambda>count. normal_command v b c count (at b i)" i] assms(5) Char_Key
      by (simp only: normal_ready_def vi_key.case)
  qed (use B r assms(2) in \<open>auto simp: normal_ready_def step_post_pair\<close>)
qed

lemma step_normal_ok:
  assumes "place_ok v b i" "vi_ok e" "ve_mode e = Normal" "count_room key e" "key_ok key"
  shows "ok (step_post b e) (step_normal v b key (at b i) e)"
proof (cases "ve_stage e")
  case Ready
  then show ?thesis using normal_ready_ok [OF assms(1,2) Ready assms(3,4)] by (simp add: step_normal_def)
next
  case (AfterOperator op)
  then show ?thesis using after_operator_ok [OF assms(1,2) AfterOperator assms(4)] by (simp add: step_normal_def)
next
  case (AfterG op)
  then show ?thesis using after_g_ok [OF assms(1)] assms(2) by (simp add: step_normal_def vi_ok_def pending_ok_def)
next
  case (AfterTextObject op inner)
  then show ?thesis using after_text_object_ok [OF assms(1)] assms(2) by (simp add: step_normal_def vi_ok_def pending_ok_def)
next
  case AwaitReplace
  then show ?thesis using apply_replace_char_ok [OF assms(1)] assms(2,5) by (simp add: step_normal_def vi_ok_def pending_ok_def)
qed

section \<open>Visual mode\<close>

lemma visual_bounds_ok:
  assumes "place_ok v b i" "visual_bounds b (at b i) e = (lo, hi)"
  shows "lo \<le> hi" "hi \<le> nchars b" "lo \<le> nchars b"
proof -
  have "lo \<le> hi \<and> hi \<le> nchars b"
    using assms(2) ci_of_byte_le [OF place_okD(2) [OF assms(1)], of "ve_visual_anchor e"] place_okD(4) [OF assms(1)]
    by (auto simp: visual_bounds_def place_simps(1) [OF assms(1)] ordered_def split: if_splits)
  then show "lo \<le> hi" "hi \<le> nchars b" "lo \<le> nchars b" by simp_all
qed

lemma visual_operate_ok:
  assumes "place_ok v b i" "utf8 (rg_text (ve_register e))"
  shows "ok (step_post b e) (visual_operate v b op (at b i) e)"
proof -
  let ?e = "reset_pending (e\<lparr>ve_mode := Normal\<rparr>)"
  have e: "vi_idle ?e" using assms(2) by (simp add: reset_idle)
  obtain lo hi where lh: "visual_bounds b (at b i) e = (lo, hi)" by fastforce
  note L = visual_bounds_ok [OF assms(1) lh]
  have "motion_ok b (Chars lo (min (hi + 1) (nchars b)) False)" using L by (simp add: motion_ok_def)
  then have "ok (step_post b ?e) (apply_operator v b op (Chars lo (min (hi + 1) (nchars b)) False) ?e)"
    by (rule apply_operator_ok [OF assms(1) e])
  moreover have "ok (step_post b ?e) (apply_linewise v b op (line_index b lo) (line_index b hi) ?e)"
    by (rule apply_linewise_ok [OF assms(1) e line_index_le line_index_le])
  ultimately show ?thesis
    using step_post_same [of e ?e b] lh by (simp add: visual_operate_def Let_def)
qed

lemma utf8_concat: "\<forall>x \<in> set xs. utf8 (f x) \<Longrightarrow> utf8 (concat (map f xs))"
  by (induction xs) (simp_all add: utf8_scalars [of "[]"] exI [of _ "[]"])

lemma visual_replace_ok:
  assumes "place_ok v b i" "vi_idle (e\<lparr>ve_stage := Ready\<rparr>)" "key_ok key"
  shows "ok (step_post b e) (visual_replace v b key (at b i) e)"
proof -
  let ?e = "e\<lparr>ve_stage := Ready\<rparr>"
  note B = place_okD(2) [OF assms(1)]
  show ?thesis
  proof (cases key)
    case (Char_Key c)
    obtain lo hi where lh: "visual_bounds b (at b i) ?e = (lo, hi)" by fastforce
    note L = visual_bounds_ok [OF assms(1) lh]
    obtain p q where pq: "(p, q) = (if ve_mode ?e = VisualLine then (nth_line_start b (line_index b lo), line_end b hi) else (lo, min (hi + 1) (nchars b)))"
      by (metis surj_pair)
    have o: "p \<le> q" "q \<le> nchars b"
      using pq L on_its_line(1) [OF L(3)] line_end_bounds(1) [OF L(2)] line_end_bounds(2) [of b hi] by (auto split: if_splits)
    have "is_scalar c" using assms(3) Char_Key by (simp add: key_ok_def)
    then have "utf8 (concat (map (\<lambda>ci. if char_at b ci = Some NL then [0x0a] else encode_utf8 c) [p..<q]))" by (simp add: utf8_concat)
    then show ?thesis
      using Char_Key lh pq [symmetric] ok_buf_slice [OF o] range_edit_safe [OF assms(1) o] idle_ok [OF assms(2)]
      by (simp add: visual_replace_def Let_def step_post_pair place_simps(2) [OF assms(1)])
  qed (use B assms(2) idle_ok [OF assms(2)] in \<open>simp_all add: visual_replace_def idle_ok\<close>)
qed

lemma visual_command_ok:
  assumes "place_ok v b i" "vi_idle e" "ve_mode e \<in> {Visual, VisualLine}" "count_below (10 ^ 9) count"
  shows "ok (step_post b e) (visual_command v b c count (at b i) e)"
proof -
  note B = place_okD(2) [OF assms(1)]
  have u: "utf8 (rg_text (ve_register e))" using assms(2) by (simp add: vi_idle_def)
  have pend: "vi_ok (e\<lparr>ve_stage := AfterTextObject op x\<rparr>)" "vi_ok (e\<lparr>ve_count := count, ve_stage := AfterG None\<rparr>)"
      "vi_ok (e\<lparr>ve_stage := AwaitReplace\<rparr>)" for op x
    using assms(2-4) count_below_mono [OF assms(4), of "10 ^ 18"] by (auto simp: vi_idle_def vi_ok_def pending_ok_def)
  have stay: "ok (step_post b e) (still (at b i) (e\<lparr>ve_mode := m\<rparr>))" "ok (step_post b e) (still (at b i) (e\<lparr>ve_stage := AfterTextObject op x\<rparr>))"
      "ok (step_post b e) (still (at b i) (e\<lparr>ve_count := count, ve_stage := AfterG None\<rparr>))"
      "ok (step_post b e) (still (at b i) (e\<lparr>ve_stage := AwaitReplace\<rparr>))"
      "ok (step_post b e) (refuse (at b i) h e)" "ok (step_post b e) (refuse_unsupported (at b i) e)" for m op x h
    using B pend idle_ok [OF assms(2)] idle_ok(1) [OF reset_idle_id [OF assms(2)]] by simp_all
  show ?thesis
    unfolding visual_command_def by (intro ok_ifI stay visual_operate_ok [OF assms(1) u] cursor_motion_ok [OF assms(1,2,4)])
qed

lemma visual_ready_ok:
  assumes "place_ok v b i" "vi_ok e" "ve_stage e = Ready" "ve_mode e \<in> {Visual, VisualLine}" "count_room key e"
  shows "ok (step_post b e) (visual_ready v b key (at b i) e)"
proof -
  note B = place_okD(2) [OF assms(1)]
  have m: "ve_mode e \<notin> {Insert, Replace_Mode}" using assms(4) by auto
  have u: "utf8 (rg_text (ve_register e))" using ready_counts [OF assms(2,3) m] by simp
  have r: "vi_ok (reset_pending (e\<lparr>ve_mode := Normal\<rparr>))" "vi_ok (reset_pending e)" using u by (simp_all add: reset_idle idle_ok)
  show ?thesis
  proof (cases key)
    case (Char_Key c)
    have "ok (step_post b (e\<lparr>ve_count := None\<rparr>)) (visual_command v b c (ve_count e) (at b i) (e\<lparr>ve_count := None\<rparr>))"
      using visual_command_ok [OF assms(1) ready_idle [OF assms(2,3) m]] ready_counts [OF assms(2,3) m] assms(4) by simp
    then show ?thesis
      using digit_or_command [OF B assms(2,3) m, of c "\<lambda>count. visual_command v b c count (at b i)" i] assms(5) Char_Key
      by (simp only: visual_ready_def vi_key.case)
  qed (use B r assms(2) in \<open>auto simp: visual_ready_def\<close>)
qed

lemma step_visual_ok:
  assumes "place_ok v b i" "vi_ok e" "ve_mode e \<in> {Visual, VisualLine}" "count_room key e" "key_ok key"
  shows "ok (step_post b e) (step_visual v b key (at b i) e)"
proof (cases "ve_stage e")
  case Ready
  then show ?thesis using visual_ready_ok [OF assms(1,2) Ready assms(3,4)] by (simp add: step_visual_def)
next
  case (AfterOperator op)
  then show ?thesis using assms(2,3) by (auto simp: vi_ok_def pending_ok_def)
next
  case (AfterG op)
  then have "vi_idle (e\<lparr>ve_stage := Ready, ve_count := None\<rparr>)" "vi_idle (reset_pending (e\<lparr>ve_stage := Ready\<rparr>))"
    using assms(2) by (auto simp: vi_ok_def pending_ok_def vi_idle_def reset_pending_def)
  then show ?thesis using AfterG place_okD(2) [OF assms(1)] by (simp add: step_visual_def idle_ok Let_def place_simps(2) [OF assms(1)])
next
  case (AfterTextObject op inner)
  then have e: "vi_idle (e\<lparr>ve_stage := Ready\<rparr>)" using assms(2,3) by (auto simp: vi_ok_def pending_ok_def vi_idle_def)
  then show ?thesis
    using AfterTextObject place_okD(2) [OF assms(1)] idle_ok [OF e] idle_ok(1) [OF reset_idle_id [OF e]]
    by (simp add: step_visual_def Let_def place_simps(2) [OF assms(1)] split: prod.splits)
next
  case AwaitReplace
  then have "vi_idle (e\<lparr>ve_stage := Ready\<rparr>)" using assms(2,3) by (auto simp: vi_ok_def pending_ok_def vi_idle_def)
  then show ?thesis using AwaitReplace visual_replace_ok [OF assms(1) _ assms(5)] by (simp add: step_visual_def)
qed

theorem vi_step_ok:
  assumes "place_ok v b i" "vi_ok e" "count_room key e" "key_ok key"
  shows "ok (step_post b e) (vi_step v b key (at b i) e)"
  using step_insert_ok [OF assms(1) typing_idle [OF assms(2)] assms(4)] step_replace_ok [OF assms(1) typing_idle [OF assms(2)] assms(4)]
    step_normal_ok [OF assms(1,2) _ assms(3,4)] step_visual_ok [OF assms(1,2) _ assms(3,4)]
  by (cases "ve_mode e") (simp_all add: vi_step_def)

end
