(* ===== verification/Vi_Record.thy ===== *)
theory Vi_Record
  imports Vi_Total
begin

text \<open>
  Keystrokes with their recording: the borrowed motions in front of the steps, the bounded record of a
  change, and the repeat command, whose replay is handed over as one edit.
\<close>

section \<open>Borrowed motions of Normal mode\<close>

lemma move_cursor_boundary: "place_ok v b i \<Longrightarrow> is_char_boundary (text_of b) (move_cursor b k m)"
  using place_okD(2) [of v b i]
  by (auto simp: move_cursor_def vi_clamp_cursor_def place_simps(2) Let_def split: motion.splits)

lemma borrowed_motion_ok:
  assumes "place_ok v b i" "count_below (10 ^ 9) count"
  shows "ok (\<lambda>m. \<forall>t. m = Some t \<longrightarrow> is_char_boundary (text_of b) t) (borrowed_motion v (text_of b) (at b i) c count)"
proof -
  have k: "count_below (10 ^ 18) count" by (rule count_below_mono [OF assms(2)]) simp
  obtain m where "resolve_motion v b (at b i) c count None = Some m" using resolve_total [OF assms(1) k] by blast
  then show ?thesis
    using borrowed_motion_indexed [OF place_okD(2) [OF assms(1)] place_okD(4) [OF assms(1)] motion_room(1) [OF assms(1) k]]
      move_cursor_boundary [OF assms(1)] by auto
qed

lemma borrowed_normal_motion_ok:
  assumes "place_ok v b i" "vi_ok e" "count_room key e"
  shows "ok (\<lambda>(moved, f). (moved = None \<longrightarrow> f = e) \<and> (\<forall>r. moved = Some r \<longrightarrow> step_post b e (r, f)))
    (borrowed_normal_motion v key (text_of b) (at b i) e)"
proof (cases "\<exists>c. key = Char_Key c \<and> ve_mode e = Normal \<and> ve_stage e = Ready")
  case True
  then obtain c where c: "key = Char_Key c" and e: "ve_mode e = Normal" "ve_stage e = Ready" by blast
  then have m: "ve_mode e \<notin> {Insert, Replace_Mode}" by simp
  have n: "count_below (10 ^ 9) (ve_count e)" using ready_counts [OF assms(2) e(2) m] by simp
  have room: "is_digit c \<Longrightarrow> count_below (10 ^ 8) (ve_count e)" using assms(3) c e by (auto simp: count_room_def)
  obtain d k where k: "consume_count_digit c e = Some (d, e\<lparr>ve_count := k\<rparr>)" "count_below (10 ^ 9) k" "\<not> d \<longrightarrow> k = ve_count e"
    using consume_count_digit_ok [OF room n] by blast
  obtain t where t: "borrowed_motion v (text_of b) (at b i) c (ve_count e) = Some t" "\<forall>x. t = Some x \<longrightarrow> is_char_boundary (text_of b) x"
    using borrowed_motion_ok [OF assms(1) n] by (auto simp: ok_iff)
  have f: "vi_ok (e\<lparr>ve_count := None\<rparr>)" "vi_ok (e\<lparr>ve_count := k\<rparr>)"
    using ready_count_ok [OF assms(2) e(2) m] k(2) by simp_all
  show ?thesis
  proof (cases d)
    case True
    then show ?thesis using c e k f place_okD(2) [OF assms(1)] by (simp add: borrowed_normal_motion_def step_post_pair)
  next
    case False
    then have "e\<lparr>ve_count := k\<rparr> = e" using k(3) by simp
    then show ?thesis using c e k(1) f t False by (cases t) (simp_all add: borrowed_normal_motion_def step_post_pair)
  qed
next
  case False
  then show ?thesis by (auto simp: borrowed_normal_motion_def split: vi_key.splits)
qed

section \<open>The record\<close>

definition record_ok :: "vi_engine \<Rightarrow> bool" where
  "record_ok e \<longleftrightarrow> length (ve_record e) \<le> MAX_VI_RECORDING_KEYS \<and> list_all key_ok (ve_record e) \<and>
     (ve_recording_state e \<noteq> Recording \<longrightarrow> ve_record e = []) \<and>
     (\<forall>ks. ve_last_change e = Recorded ks \<longrightarrow> length ks \<le> MAX_VI_RECORDING_KEYS \<and> list_all key_ok ks)"

definition engine_ok :: "vi_engine \<Rightarrow> bool" where
  "engine_ok e \<longleftrightarrow> vi_ok e \<and> record_ok e"

lemma vi_ok_cong:
  "ve_mode f = ve_mode e \<Longrightarrow> ve_stage f = ve_stage e \<Longrightarrow> ve_count f = ve_count e \<Longrightarrow> ve_operator_count f = ve_operator_count e \<Longrightarrow>
   ve_register f = ve_register e \<Longrightarrow> vi_ok f \<longleftrightarrow> vi_ok e"
  by (cases "ve_stage e") (simp_all add: vi_ok_def pending_ok_def)

lemma record_key_ok: "engine_ok e \<Longrightarrow> key_ok key \<Longrightarrow> engine_ok (record_key key e)"
  using vi_ok_cong [of "record_key key e" e] by (auto simp: engine_ok_def record_ok_def record_key_def MAX_VI_RECORDING_KEYS_def)

lemma record_key_frame [simp]:
  "ve_mode (record_key key e) = ve_mode e" "ve_stage (record_key key e) = ve_stage e" "ve_count (record_key key e) = ve_count e"
  "ve_operator_count (record_key key e) = ve_operator_count e" "ve_register (record_key key e) = ve_register e"
  "ve_replaying (record_key key e) = ve_replaying e" "ve_visual_anchor (record_key key e) = ve_visual_anchor e"
  by (simp_all add: record_key_def)

lemma count_room_record [simp]: "count_room k (record_key key e) \<longleftrightarrow> count_room k e"
  by (simp add: count_room_def split: vi_key.splits)

lemma pending_frame [simp]:
  "vi_is_pending (e\<lparr>ve_change_in_progress := c\<rparr>) = vi_is_pending e"
  "vi_is_pending (e\<lparr>ve_recording_state := r, ve_last_change := l\<rparr>) = vi_is_pending e"
  by (simp_all add: vi_is_pending_def)

text \<open>The recording after a step, field by field.\<close>

definition noted :: "vi_action \<Rightarrow> vi_engine \<Rightarrow> vi_engine" where
  "noted a e =
     (let changed = is_edit a \<or> ve_change_in_progress e;
          over = (changed \<and> ve_recording_state e = OverLimit);
          settled = (ve_mode e = Normal \<and> \<not> vi_is_pending e)
      in e\<lparr>ve_record := (if settled then [] else ve_record e),
           ve_recording_state := (if settled then Recording else if over then OverLimitNotified else ve_recording_state e),
           ve_last_change := (if settled \<and> changed then (if ve_recording_state e = Recording then Recorded (ve_record e) else Change_OverLimit)
                              else if over then Change_OverLimit else ve_last_change e),
           ve_change_in_progress := \<not> settled \<and> changed\<rparr>)"

lemma update_recording_noted:
  "update_recording a e = ((is_edit a \<or> ve_change_in_progress e) \<and> ve_recording_state e = OverLimit, noted a e)"
  by (cases "is_edit a"; cases "ve_change_in_progress e"; cases "ve_recording_state e"; cases "ve_mode e = Normal"; cases "vi_is_pending e")
    (simp_all add: update_recording_def noted_def clear_recording_def Let_def)

lemma noted_frame [simp]:
  "ve_mode (noted a e) = ve_mode e" "ve_stage (noted a e) = ve_stage e" "ve_count (noted a e) = ve_count e"
  "ve_operator_count (noted a e) = ve_operator_count e" "ve_register (noted a e) = ve_register e"
  "ve_replaying (noted a e) = ve_replaying e" "ve_visual_anchor (noted a e) = ve_visual_anchor e"
  by (simp_all add: noted_def Let_def)

lemma noted_ok: "engine_ok e \<Longrightarrow> engine_ok (noted a e)"
proof -
  assume e: "engine_ok e"
  then have "vi_ok (noted a e)" using vi_ok_cong [of "noted a e" e] by (simp add: engine_ok_def)
  moreover have "record_ok (noted a e)" using e by (auto simp: engine_ok_def record_ok_def noted_def Let_def split: if_splits)
  ultimately show ?thesis by (simp add: engine_ok_def)
qed

lemma keeps_record: "keeps_recording e f \<Longrightarrow> record_ok f = record_ok e"
  by (simp add: keeps_recording_def record_ok_def)

text \<open>What a keystroke promises.\<close>

definition key_post :: "bytes \<Rightarrow> vi_response \<times> vi_engine \<Rightarrow> bool" where
  "key_post s = (\<lambda>(r, f). engine_ok f \<and> vr_mode r = ve_mode f \<and> vr_pending r = vi_is_pending f \<and>
     (case vr_action r of Edit xs \<Rightarrow> edits_safe s xs | _ \<Rightarrow> is_char_boundary s (vr_caret r)))"

definition text_fits :: "bytes \<Rightarrow> bool" where
  "text_fits s \<longleftrightarrow> utf8 s \<and> length s \<le> 2 ^ 62"

lemma place_of:
  assumes "heap_ok (vi_heap v)" "text_fits s"
  obtains i where "place_ok v (buffer_of s) i" "text_of (buffer_of s) = s" "floor_text_boundary s caret = at (buffer_of s) i"
proof -
  obtain cs where cs: "scalars cs" "s = str_bytes cs" using assms(2) by (auto simp: text_fits_def utf8_scalars)
  have "is_char_boundary s (floor_text_boundary s caret)" by (simp add: floor_text_boundary_def floor_boundary)
  then obtain i where "i \<le> length cs" "floor_text_boundary s caret = offset cs i" using boundary_offset [OF cs(1)] cs(2) by metis
  then show thesis using that [of i] cs assms by (simp add: place_ok_def text_fits_def nchars_def)
qed

lemma key_step_ok:
  assumes "heap_ok (vi_heap v)" "text_fits s" "engine_ok e" "count_room key e" "key_ok key"
  shows "ok (\<lambda>p. key_post s p \<and> ve_replaying (snd p) = ve_replaying e) (key_step v key s caret e)"
proof -
  let ?b = "buffer_of s" and ?e = "record_key key e"
  obtain i where i: "place_ok v ?b i" "text_of ?b = s" "floor_text_boundary s caret = at ?b i" using place_of [OF assms(1,2)] by blast
  have e: "engine_ok ?e" "vi_ok ?e" "count_room key ?e" using record_key_ok [OF assms(3,5)] assms(4) by (simp_all add: engine_ok_def)
  obtain moved f where mf: "borrowed_normal_motion v key s (at ?b i) ?e = Some (moved, f)" "moved = None \<Longrightarrow> f = ?e"
      "\<And>r. moved = Some r \<Longrightarrow> step_post ?b ?e (r, f)"
    using borrowed_normal_motion_ok [OF i(1) e(2,3)] i(2) by (auto simp: ok_iff)
  have "ok (step_post ?b ?e) (case moved of Some r \<Rightarrow> Some (r, f) | None \<Rightarrow> vi_step v ?b key (at ?b i) f)"
    using mf vi_step_ok [OF i(1) e(2,3) assms(5)] by (cases moved) simp_all
  then obtain a c g where g: "(case moved of Some r \<Rightarrow> Some (r, f) | None \<Rightarrow> vi_step v ?b key (at ?b i) f) = Some ((a, c), g)"
      "answer_ok ?b a c" "vi_ok g" "keeps_recording ?e g"
    by (auto simp: ok_iff step_post_def)
  define h where "h = (if ve_replaying g then g else noted a g)"
  have "snd (if ve_replaying g then (False, g) else update_recording a g) = h" by (simp add: h_def update_recording_noted)
  then obtain w where w: "(if ve_replaying g then (False, g) else update_recording a g) = (w, h)" by (metis prod.collapse)
  have "engine_ok g" using g(3,4) e(1) keeps_record by (auto simp: engine_ok_def)
  then have "engine_ok h" "ve_replaying h = ve_replaying e" using noted_ok g(4) by (simp_all add: h_def keeps_recording_def)
  moreover have "key_step v key s caret e = Some ((respond h a c)\<lparr>vr_warning := (if w then Some REPEAT_UNAVAILABLE else None)\<rparr>, h)"
    using mf(1) g(1) w i(3) by (simp add: key_step_def Let_def)
  ultimately show ?thesis using g(2) i(2) by (cases a) (simp_all add: key_post_def respond_def)
qed

section \<open>One edit between two texts\<close>

definition common :: "str \<Rightarrow> str \<Rightarrow> nat" where
  "common xs ys = length (takeWhile (\<lambda>(x, y). x = y) (zip xs ys))"

lemma common_le: "common xs ys \<le> length xs" "common xs ys \<le> length ys"
  using length_takeWhile_le [of "\<lambda>(x, y). x = y" "zip xs ys"] by (simp_all add: common_def)

lemma common_take: "take (common xs ys) xs = take (common xs ys) ys"
proof (induction xs arbitrary: ys)
  case (Cons x xs)
  then show ?case by (cases ys) (simp_all add: common_def)
qed (simp add: common_def)

lemma common_bytes:
  "sum_list (map (\<lambda>(c, _). len_utf8 c) (takeWhile (\<lambda>(x, y). x = y) (zip xs ys))) = offset xs (common xs ys)"
proof (induction xs arbitrary: ys)
  case (Cons x xs)
  then show ?case by (cases ys) (simp_all add: common_def offset_def len_encode)
qed (simp add: common_def)

lemma str_bytes_length_rev: "length (str_bytes (rev ys)) = length (str_bytes ys)"
  by (induction ys) simp_all

lemma offset_rev: "k \<le> length xs \<Longrightarrow> length (str_bytes xs) - offset (rev xs) k = offset xs (length xs - k)"
proof -
  assume k: "k \<le> length xs"
  have "xs = take (length xs - k) xs @ drop (length xs - k) xs" by simp
  then have "length (str_bytes xs) = offset xs (length xs - k) + length (str_bytes (drop (length xs - k) xs))"
    by (metis length_append offset_def str_bytes_simps(3))
  moreover have "take k (rev xs) = rev (drop (length xs - k) xs)" using k by (simp add: rev_drop)
  ultimately show ?thesis by (simp add: offset_def str_bytes_length_rev)
qed

text \<open>The difference of two texts is one edit that the old text accepts and that leads to the new text.\<close>

lemma single_edit_diff_ok:
  assumes "heap_ok (vi_heap v)" "text_fits old" "utf8 new"
  shows "ok (\<lambda>d. case d of None \<Rightarrow> old = new | Some x \<Rightarrow> old \<noteq> new \<and> edits_safe old [x] \<and> edited 0 [x] old = new) (single_edit_diff v old new)"
proof (cases "old = new")
  case False
  obtain cs ds where cs: "scalars cs" "old = str_bytes cs" and ds: "scalars ds" "new = str_bytes ds"
    using assms(2,3) by (auto simp: text_fits_def utf8_scalars)
  define p where "p = common cs ds"
  define q where "q = common (rev (drop p cs)) (rev (drop p ds))"
  have p: "p \<le> length cs" "p \<le> length ds" "take p cs = take p ds" using common_le common_take by (auto simp: p_def)
  then have o: "offset cs p = offset ds p" by (simp add: offset_def)
  have q: "q \<le> length cs - p" "q \<le> length ds - p" using common_le [of "rev (drop p cs)" "rev (drop p ds)"] by (auto simp: q_def)
  have tails: "drop (length cs - q) cs = drop (length ds - q) ds"
  proof -
    have "rev (take q (rev (drop p cs))) = rev (take q (rev (drop p ds)))" using common_take [of "rev (drop p cs)"] by (simp add: q_def)
    then show ?thesis using p q by (simp add: take_rev)
  qed
  have ends: "length (str_bytes xs) - offset (rev (drop p xs)) q = offset xs (length xs - q)" if "p \<le> length xs" "q \<le> length xs - p" for xs
  proof -
    have "length (str_bytes xs) = offset xs p + length (str_bytes (drop p xs))"
      by (metis append_take_drop_id length_append offset_def str_bytes_simps(3))
    moreover have "offset (rev (drop p xs)) q \<le> length (str_bytes (drop p xs))"
      using offset_le [of "rev (drop p xs)" q] by (simp add: str_bytes_length_rev)
    moreover have "offset xs p + offset (drop p xs) (length xs - p - q) = offset xs (length xs - q)"
      using offset_drop [OF that(1), of "length xs - p - q"] that by (simp add: offset_def)
    ultimately show ?thesis using offset_rev [of q "drop p xs"] that by simp
  qed
  have suffix: "offset (rev (drop p cs)) q = offset (rev (drop p ds)) q"
    using common_take [of "rev (drop p cs)" "rev (drop p ds)"] by (simp add: offset_def q_def)
  have le: "offset (rev (drop p xs)) q \<le> length (str_bytes xs)" if "p \<le> length xs" for xs
  proof -
    have "length (str_bytes (rev (drop p xs))) \<le> length (str_bytes xs)"
      by (metis append_take_drop_id le_add2 length_append str_bytes_length_rev str_bytes_simps(3))
    then show ?thesis using offset_le [of "rev (drop p xs)" q] by linarith
  qed
  define r where "r = str_bytes (slice p (length cs - q - p) cs)"
  define s where "s = str_bytes (slice p (length ds - q - p) ds)"
  have d: "single_edit_diff v old new = Some (Some (edit_at v (offset cs p) r s))"
    using False cs ds o p q suffix le [OF p(1)] le [OF p(2)] ends [OF p(1) q(1)] ends [OF p(2) q(2)]
      slice_to_end [OF cs(1), of p] slice_to_end [OF ds(1), of p] slice_offsets [OF cs(1), of p "length cs - q"] slice_offsets [OF ds(1), of p "length ds - q"]
    by (simp add: single_edit_diff_def common_bytes r_def s_def Let_def flip: p_def q_def)
  have b: "place_ok v (buffer_of old) p" using assms cs p(1) by (simp add: place_ok_def text_fits_def nchars_def)
  have safe: "edits_safe old [edit_at v (offset cs p) r s]"
    using range_edit_safe [OF b, of p "length cs - q" s] cs ds p q by (simp add: r_def s_def nchars_def)
  have e: "offset cs p + length r = offset cs (length cs - q)"
    using offset_drop [OF p(1), of "length cs - q - p"] le_add_diff_inverse [of p "length cs - q"] p(1) q(1) by (simp add: r_def slice_def)
  have "edited 0 [edit_at v (offset cs p) r s] old = str_bytes (take p cs) @ s @ str_bytes (drop (length cs - q) cs)"
    using cs(2) e by (simp add: edit_at_def owned_def te_end_def bytes_split)
  also have "\<dots> = str_bytes (take p ds @ slice p (length ds - q - p) ds @ drop (length ds - q) ds)"
    using p(3) tails by (simp add: s_def)
  also have "take p ds @ slice p (length ds - q - p) ds @ drop (length ds - q) ds = ds"
  proof -
    have "take p ds @ slice p (length ds - q - p) ds = take (length ds - q) ds"
      using take_add [of p "length ds - q - p" ds] p(2) q(2) by (simp add: slice_def)
    then show ?thesis by (metis append.assoc append_take_drop_id)
  qed
  finally show ?thesis using d safe False ds(2) by simp
qed (simp add: single_edit_diff_def)

section \<open>Repeating a change\<close>

text \<open>Nothing in the replay runs out of room: wherever it stands, the next key leaves the count and the text
  within their bounds.\<close>

definition key_room :: "vi_env \<Rightarrow> vi_key \<Rightarrow> bytes \<Rightarrow> nat \<Rightarrow> vi_engine \<Rightarrow> bool" where
  "key_room v key s caret e \<longleftrightarrow> count_room key e \<and> length s \<le> 2 ^ 62 \<and>
     (case key_step v key s caret e of
        None \<Rightarrow> True
      | Some (r, _) \<Rightarrow> (case vr_action r of Edit xs \<Rightarrow> length (edited 0 xs s) \<le> usize_max | _ \<Rightarrow> True))"

definition replay_room :: "vi_env \<Rightarrow> vi_key list \<Rightarrow> bytes \<Rightarrow> nat \<Rightarrow> vi_engine \<Rightarrow> bool" where
  "replay_room v keys s caret e \<longleftrightarrow>
     (\<forall>n < length keys. case replay_keys v (take n keys) s caret e of
        None \<Rightarrow> True
      | Some (t, c, f) \<Rightarrow> key_room v (keys ! n) t c f)"

lemma replay_room_Cons:
  assumes "replay_room v (key # keys) s caret e"
  shows "key_room v key s caret e"
    "key_step v key s caret e = Some (r, f) \<Longrightarrow>
       (case vr_action r of Edit xs \<Rightarrow> rewrite_ordered_edits s xs Forward | _ \<Rightarrow> Some s) = Some t \<Longrightarrow> replay_room v keys t (vr_caret r) f"
proof -
  have all: "\<And>n. n < length (key # keys) \<Longrightarrow> case replay_keys v (take n (key # keys)) s caret e of
      None \<Rightarrow> True | Some (t, c, f) \<Rightarrow> key_room v ((key # keys) ! n) t c f"
    using assms by (simp only: replay_room_def)
  show "key_room v key s caret e" using all [of 0] by simp
  assume k: "key_step v key s caret e = Some (r, f)" "(case vr_action r of Edit xs \<Rightarrow> rewrite_ordered_edits s xs Forward | _ \<Rightarrow> Some s) = Some t"
  have "case replay_keys v (take n keys) t (vr_caret r) f of None \<Rightarrow> True | Some (t, c, f) \<Rightarrow> key_room v (keys ! n) t c f"
    if "n < length keys" for n
    using all [of "Suc n"] k that by (auto split: option.splits)
  then show "replay_room v keys t (vr_caret r) f" by (simp add: replay_room_def)
qed

lemma edits_safe_fit: "utf8 s \<Longrightarrow> edits_safe s xs \<Longrightarrow> edits_fit 0 xs s"
  using validate_edits_fit [of s xs 0] by (simp add: edits_safe_def)

lemma rewrite_safe:
  assumes "text_fits s" "edits_safe s xs" "length (edited 0 xs s) \<le> usize_max"
  shows "rewrite_ordered_edits s xs Forward = Some (edited 0 xs s)" "utf8 (edited 0 xs s)"
proof -
  have f: "edits_fit 0 xs s" using edits_safe_fit assms(1,2) by (simp add: text_fits_def)
  show "utf8 (edited 0 xs s)" using edits_fit_utf8 [OF f] by simp
  have "length s \<le> usize_max" using assms(1) by (simp add: text_fits_def usize_max_def)
  then show "rewrite_ordered_edits s xs Forward = Some (edited 0 xs s)" using rewrite_correct [OF f _ assms(3), of Forward] by simp
qed

lemma replay_keys_ok:
  assumes "heap_ok (vi_heap v)"
  shows "utf8 s \<Longrightarrow> engine_ok e \<Longrightarrow> list_all key_ok keys \<Longrightarrow> replay_room v keys s caret e \<Longrightarrow> length s \<le> usize_max \<Longrightarrow>
    ok (\<lambda>(t, c, f). utf8 t \<and> length t \<le> usize_max \<and> engine_ok f) (replay_keys v keys s caret e)"
proof (induction keys arbitrary: s caret e)
  case (Cons key keys)
  note room = replay_room_Cons [OF Cons.prems(4)]
  have fits: "text_fits s" and c: "count_room key e" using room(1) Cons.prems(1) by (auto simp: key_room_def text_fits_def)
  obtain r f where rf: "key_step v key s caret e = Some (r, f)" "key_post s (r, f)"
    using key_step_ok [OF assms fits Cons.prems(2) c, of caret] Cons.prems(3) by (auto simp: ok_iff)
  have "\<exists>t. (case vr_action r of Edit xs \<Rightarrow> rewrite_ordered_edits s xs Forward | _ \<Rightarrow> Some s) = Some t \<and> utf8 t \<and> length t \<le> usize_max"
    using rf rewrite_safe [OF fits] room(1) Cons.prems(1,5) by (cases "vr_action r") (auto simp: key_post_def key_room_def)
  then obtain t where t: "(case vr_action r of Edit xs \<Rightarrow> rewrite_ordered_edits s xs Forward | _ \<Rightarrow> Some s) = Some t" "utf8 t" "length t \<le> usize_max" by blast
  have "engine_ok f" using rf(2) by (simp add: key_post_def)
  then show ?case using Cons.IH [OF t(2) _ _ _ t(3)] Cons.prems(3) room(2) [OF rf(1) t(1)] rf(1) t(1) by simp
qed simp

definition replayer :: "vi_engine \<Rightarrow> vi_engine" where
  "replayer e = vi_new\<lparr>ve_register := ve_register e, ve_replaying := True\<rparr>"

lemma replayer_ok: "engine_ok e \<Longrightarrow> engine_ok (replayer e)"
  by (simp add: engine_ok_def vi_ok_def pending_ok_def record_ok_def replayer_def vi_new_def)

text \<open>The repeat command answers with one edit from the text to the replayed text, or with nothing where they are the same.\<close>

lemma repeat_exact:
  assumes "heap_ok (vi_heap v)" "text_fits s" "engine_ok e" "ve_last_change e = Recorded keys" "replay_room v keys s caret (replayer e)"
  obtains t c f r where "replay_keys v keys s caret (replayer e) = Some (t, c, f)" "utf8 t" "length t \<le> usize_max" "engine_ok f"
    "repeat_last_change v s caret e = Some (r, e\<lparr>ve_register := ve_register f\<rparr>)" "vr_caret r = c"
    "if t = s then vr_action r = No_Action else \<exists>x. vr_action r = Edit [x] \<and> edits_safe s [x] \<and> edited 0 [x] s = t"
proof -
  have k: "list_all key_ok keys" using assms(3,4) by (simp add: engine_ok_def record_ok_def)
  have u: "utf8 s" "length s \<le> usize_max" using assms(2) by (simp_all add: text_fits_def usize_max_def)
  obtain t c f where t: "replay_keys v keys s caret (replayer e) = Some (t, c, f)" "utf8 t" "length t \<le> usize_max" "engine_ok f"
    using replay_keys_ok [OF assms(1) u(1) replayer_ok [OF assms(3)] k assms(5) u(2)] by (auto simp: ok_iff)
  obtain d where d: "single_edit_diff v s t = Some d"
      "case d of None \<Rightarrow> s = t | Some x \<Rightarrow> s \<noteq> t \<and> edits_safe s [x] \<and> edited 0 [x] s = t"
    using single_edit_diff_ok [OF assms(1,2) t(2)] by (auto simp: ok_iff)
  let ?e = "e\<lparr>ve_register := ve_register f\<rparr>"
  have "repeat_last_change v s caret e = Some (respond ?e (case d of Some x \<Rightarrow> Edit [x] | None \<Rightarrow> No_Action) c, ?e)"
    using t(1) d(1) assms(4) by (simp add: repeat_last_change_def replayer_def Let_def)
  then show thesis using that t d(2) by (cases d) (auto simp: respond_def)
qed

end
