(* ===== verification/Vi_Session.thy ===== *)
theory Vi_Session
  imports Vi_Record Vi_View Edit_Props
begin

text \<open>
  Editing sessions: the keys of a view, one after the other, on its document.  Every session stays within
  the invariants of the engine and of the document, the view shows the document's text, and an edit of the
  engine fails only where the document would exceed its bounds.
\<close>

section \<open>One key\<close>

definition repeats :: "vi_key \<Rightarrow> vi_engine \<Rightarrow> bool" where
  "repeats key e \<longleftrightarrow> \<not> ve_replaying e \<and> ve_mode e = Normal \<and> ve_stage e = Ready \<and> key = Char_Key 0x2e"

definition engine_room :: "vi_env \<Rightarrow> vi_key \<Rightarrow> bytes \<Rightarrow> nat \<Rightarrow> vi_engine \<Rightarrow> bool" where
  "engine_room v key s caret e \<longleftrightarrow>
     (if repeats key e then case ve_last_change e of Recorded keys \<Rightarrow> replay_room v keys s caret (replayer e) | _ \<Rightarrow> True
      else count_room key e)"

definition live_ok :: "vi_engine \<Rightarrow> bool" where
  "live_ok e \<longleftrightarrow> engine_ok e \<and> \<not> ve_replaying e"

definition reply_ok :: "bytes \<Rightarrow> vi_response \<times> vi_engine \<Rightarrow> bool" where
  "reply_ok s = (\<lambda>(r, f). live_ok f \<and> (\<forall>xs. vr_action r = Edit xs \<longrightarrow> edits_safe s xs))"

lemma reset_engine_ok: "engine_ok e \<Longrightarrow> engine_ok (reset_pending e)"
  by (auto simp: engine_ok_def vi_ok_def reset_pending_def pending_ok_def record_ok_def)

lemma clear_engine_ok: "engine_ok e \<Longrightarrow> engine_ok (clear_recording e)"
  using vi_ok_cong [of "clear_recording e" e] by (auto simp: engine_ok_def record_ok_def clear_recording_def)

lemma on_key_ok:
  assumes "heap_ok (vi_heap v)" "text_fits s" "live_ok e" "key_ok key" "engine_room v key s caret e"
  shows "ok (reply_ok s) (on_key v key s caret e)"
proof (cases "repeats key e")
  case True
  then have r: "on_key v key s caret e = repeat_last_change v s caret e" by (simp add: on_key_def repeats_def)
  show ?thesis
  proof (cases "ve_last_change e")
    case (Recorded keys)
    then have room: "replay_room v keys s caret (replayer e)" using assms(5) True by (simp add: engine_room_def)
    have e: "engine_ok e" "\<not> ve_replaying e" using assms(3) by (simp_all add: live_ok_def)
    obtain t c f q where q: "engine_ok f" "repeat_last_change v s caret e = Some (q, e\<lparr>ve_register := ve_register f\<rparr>)"
        "if t = s then vr_action q = No_Action else \<exists>x. vr_action q = Edit [x] \<and> edits_safe s [x] \<and> edited 0 [x] s = t"
      by (rule repeat_exact [OF assms(1,2) e(1) Recorded room]) blast
    have "pending_ok (e\<lparr>ve_register := x\<rparr>) = pending_ok e" for x by (cases "ve_stage e") (simp_all add: pending_ok_def)
    then have "live_ok (e\<lparr>ve_register := ve_register f\<rparr>)"
      using e q(1) by (simp add: live_ok_def engine_ok_def vi_ok_def record_ok_def)
    then show ?thesis using r q(2,3) by (auto simp: reply_ok_def split: if_splits)
  next
    case No_Change
    then show ?thesis using r assms(3) by (simp add: repeat_last_change_def reply_ok_def respond_def)
  next
    case Change_OverLimit
    have "ve_replaying (clear_recording (reset_pending e)) = ve_replaying e" by (simp add: clear_recording_def reset_pending_def)
    then show ?thesis
      using r assms(3) Change_OverLimit clear_engine_ok [OF reset_engine_ok, of e]
      by (simp add: repeat_last_change_def reply_ok_def respond_def live_ok_def Let_def)
  qed
next
  case False
  then have c: "count_room key e" using assms(5) by (simp add: engine_room_def)
  have "ok (reply_ok s) (key_step v key s caret e)"
    using key_step_ok [OF assms(1,2) _ c assms(4), of caret] assms(3)
    by (auto simp: live_ok_def reply_ok_def key_post_def elim!: ok_mono)
  moreover have "live_ok (reset_pending e)" using assms(3) reset_engine_ok [of e] by (simp add: live_ok_def reset_pending_def)
  ultimately show ?thesis
    using False by (auto simp: on_key_def repeats_def reply_ok_def respond_def Let_def)
qed

section \<open>A key on a document\<close>

definition document_fits :: "vi_env \<Rightarrow> text_document \<Rightarrow> bool" where
  "document_fits v d \<longleftrightarrow> doc_inv (vi_heap v) d \<and> db_max_bytes (td_bounds d) \<le> 2 ^ 62"

lemma document_text_fits: "document_fits v d \<Longrightarrow> text_fits (td_text d)"
  using doc_ok_text text_ok_length by (fastforce simp: document_fits_def doc_inv_def text_fits_def text_ok_def)

text \<open>An edit of the engine is refused for the bounds only.\<close>

definition edits_fail_by_bounds :: "command_outcome option \<Rightarrow> bool" where
  "edits_fail_by_bounds r \<longleftrightarrow> (case r of Some (Edit_Failed f) \<Rightarrow> (\<exists>b. f = Refused b) | _ \<Rightarrow> True)"

definition session_ok :: "vi_env \<Rightarrow> text_document \<Rightarrow> vi_view \<Rightarrow> bool" where
  "session_ok v d w \<longleftrightarrow> document_fits v d \<and> live_ok (vw_vi w) \<and> vw_buffer w = td_text d \<and> edits_fail_by_bounds (ca_result (vw_command w))"

definition carried :: "vi_env \<Rightarrow> text_document \<Rightarrow> text_document \<Rightarrow> vi_view \<Rightarrow> bool" where
  "carried v d d' w \<longleftrightarrow> session_ok v d' w \<and> td_bounds d' = td_bounds d \<and> uh_next_serial (td_undo d') \<le> uh_next_serial (td_undo d) + 1"

lemma session_frame:
  "vw_vi w' = vw_vi w \<Longrightarrow> vw_buffer w' = vw_buffer w \<Longrightarrow> vw_command w' = vw_command w \<Longrightarrow> session_ok v d w' \<longleftrightarrow> session_ok v d w"
  by (simp add: session_ok_def)

lemma op_post_fits: "op_post (vi_heap v) ts B op d d' \<Longrightarrow> document_fits v d \<Longrightarrow>
    document_fits v d' \<and> td_bounds d' = td_bounds d \<and> uh_next_serial (td_undo d') \<le> uh_next_serial (td_undo d) + 1"
  by (auto simp: op_post_def document_fits_def doc_inv_def)

lemma edits_answered:
  assumes "heap_ok (vi_heap v)" "document_fits v d" "uh_next_serial (td_undo d) < usize_max" "edits_safe (td_text d) xs" "xs \<noteq> []"
  obtains r d' where "apply_edits (vi_heap v) xs d = Some (r, d')" "document_fits v d'" "td_bounds d' = td_bounds d"
    "uh_next_serial (td_undo d') \<le> uh_next_serial (td_undo d) + 1" "\<And>x. r = Inl x \<Longrightarrow> (\<exists>b. x = Refused b) \<and> d' = d"
proof -
  obtain ts B where d: "doc_ok (vi_heap v) ts B d" using assms(2) by (auto simp: document_fits_def doc_inv_def)
  have e: "list_all edit_ok xs" "list_all strings_utf8 xs" "validate_edits (td_text d) xs 0 = Inr ()" using assms(4) by (simp_all add: edits_safe_def)
  obtain r d' where r: "apply_edits (vi_heap v) xs d = Some (r, d')" "edit_post (vi_heap v) ts B False d (edited 0 xs (td_text d)) (r, d')"
    using apply_edits_ok [OF d assms(1,3) e(1,2)] by (auto simp: ok_iff)
  obtain q where q: "apply_transaction (vi_heap v) xs False d = Some q" "r = map_sum Refused (\<lambda>_. length xs) (fst q)"
    using r(1) assms(5) e(3) by (cases "apply_transaction (vi_heap v) xs False d") (auto simp: apply_edits_def)
  have "op_post (vi_heap v) ts B (ApplyEdits xs) d d'" using op_post_edit [OF d r(2)] by simp
  note f = op_post_fits [OF this assms(2)]
  have "\<exists>b. x = Refused b" if "r = Inl x" for x using q(2) that by (cases "fst q") auto
  moreover have "d' = d" if "r = Inl x" for x using r(2) that by (simp add: edit_post_def)
  ultimately show thesis using that [OF r(1)] f by simp
qed

lemma apply_vi_edits_ok:
  assumes "heap_ok (vi_heap v)" "session_ok v d w" "uh_next_serial (td_undo d) < usize_max" "edits_safe (td_text d) xs"
  shows "ok (\<lambda>(d', w'). carried v d d' w') (apply_vi_edits v xs d w)"
proof (cases "xs = []")
  case False
  have fits: "document_fits v d" using assms(2) by (simp add: session_ok_def)
  obtain r d' where r: "apply_edits (vi_heap v) xs d = Some (r, d')" "document_fits v d'" "td_bounds d' = td_bounds d"
      "uh_next_serial (td_undo d') \<le> uh_next_serial (td_undo d) + 1" "\<And>x. r = Inl x \<Longrightarrow> (\<exists>b. x = Refused b) \<and> d' = d"
    by (rule edits_answered [OF assms(1) fits assms(3,4) False]) blast
  show ?thesis
    using r(1-4) r(5) False assms(2)
    by (cases r) (auto simp: apply_vi_edits_def carried_def session_ok_def command_report_def area_report_def edits_fail_by_bounds_def)
qed (use assms in \<open>simp add: apply_vi_edits_def carried_def\<close>)

lemma moved_fits:
  assumes "moved (vi_heap v) ts B d n d'" "document_fits v d"
  shows "document_fits v d'" "doc_ok (vi_heap v) ts B d'" "td_text d' = ts ! n" "uh_applied (td_undo d') = n" "td_bounds d' = td_bounds d"
    "uh_next_serial (td_undo d') \<le> uh_next_serial (td_undo d)"
  using assms by (auto simp: moved_def document_fits_def doc_inv_def doc_ok_def)

text \<open>Undo and redo from the keys: a step that finds nothing leaves the text as it is.\<close>

lemma history_key_ok:
  assumes "session_ok v d w" and m: "m = doc_undo \<or> m = doc_redo"
  shows "\<exists>c found d'. doc_close_transaction d = Some c \<and> m c = Some (found, d') \<and> carried v d d' (if found then w\<lparr>vw_buffer := td_text d'\<rparr> else w)"
proof -
  have fits: "document_fits v d" and b: "vw_buffer w = td_text d" using assms(1) by (simp_all add: session_ok_def)
  obtain ts B where d: "doc_ok (vi_heap v) ts B d" using fits by (auto simp: document_fits_def doc_inv_def)
  obtain c where c: "doc_close_transaction d = Some c" "moved (vi_heap v) ts B d (uh_applied (td_undo d)) c"
    using doc_close_ok [OF d] by (auto simp: ok_iff)
  note C = moved_fits [OF c(2) fits]
  have same: "td_text c = td_text d" using C(3) doc_okD(4) [OF d] by simp
  obtain found d' n where f: "m c = Some (found, d')" "moved (vi_heap v) ts B c n d'" "\<not> found \<Longrightarrow> n = uh_applied (td_undo c)"
    using m doc_undo_ok [OF C(2)] doc_redo_ok [OF C(2)] by (auto simp: ok_iff can_undo_def)
  note D = moved_fits [OF f(2) C(1)]
  have "\<not> found \<Longrightarrow> td_text d' = td_text d" using f(3) D(3) doc_okD(4) [OF C(2)] same by simp
  then show ?thesis using c(1) f(1) D C(5,6) assms(1) b by (cases found) (auto simp: carried_def session_ok_def)
qed

lemma carry_out_ok:
  assumes "heap_ok (vi_heap v)" "session_ok v d w" "uh_next_serial (td_undo d) < usize_max"
    "\<And>xs. vr_action r = Edit xs \<Longrightarrow> edits_safe (td_text d) xs"
  shows "ok (\<lambda>(i, d', w'). carried v d d' w') (carry_out v r d w)"
proof -
  have frame: "session_ok v x (y\<lparr>vw_vi_caret := a, vw_caret_offset := c\<rparr>) = session_ok v x y" for x y a c
    by (rule session_frame) simp_all
  show ?thesis
  proof (cases "vr_action r")
    case (Edit xs)
    then show ?thesis using apply_vi_edits_ok [OF assms(1-3), of xs] assms(4) frame by (auto simp: carry_out_def ok_iff carried_def)
  next
    case Undo_Action
    then show ?thesis using history_key_ok [OF assms(2), of doc_undo] frame by (auto simp: carry_out_def carried_def)
  next
    case Redo_Action
    then show ?thesis using history_key_ok [OF assms(2), of doc_redo] frame by (auto simp: carry_out_def carried_def)
  qed (use assms(2) frame in \<open>simp_all add: carry_out_def carried_def command_report_def area_report_def session_ok_def edits_fail_by_bounds_def\<close>)
qed

lemma engine_key_ok:
  assumes "heap_ok (vi_heap v)" "session_ok v d w" "uh_next_serial (td_undo d) < usize_max" "key_ok key"
    "engine_room v key (td_text d) (vw_caret_offset w) (vw_vi w)"
  shows "ok (\<lambda>(i, doc, w'). \<exists>d'. doc = Some d' \<and> carried v d d' w') (engine_key v key (Some d) w)"
proof -
  have s: "text_fits (td_text d)" "live_ok (vw_vi w)" using assms(2) document_text_fits by (auto simp: session_ok_def)
  obtain r f where r: "on_key v key (td_text d) (vw_caret_offset w) (vw_vi w) = Some (r, f)" "live_ok f"
      "\<And>xs. vr_action r = Edit xs \<Longrightarrow> edits_safe (td_text d) xs"
    using on_key_ok [OF assms(1) s assms(4,5)] by (auto simp: ok_iff reply_ok_def)
  define w' where "w' = (case vr_warning r of Some x \<Rightarrow> command_report (Warned x) (w\<lparr>vw_vi := f\<rparr>)
     | None \<Rightarrow> if repeat_is_refused (vw_vi w) \<and> \<not> repeat_is_refused f
         then command_report (Message ''Repeat available again.'') (w\<lparr>vw_vi := f\<rparr>) else w\<lparr>vw_vi := f\<rparr>)"
  have "session_ok v d w'"
    using assms(2) r(2) by (auto simp: w'_def session_ok_def command_report_def area_report_def edits_fail_by_bounds_def split: option.splits)
  from carry_out_ok [OF assms(1) this assms(3), of r] r(3)
  obtain i d' w2 where "carry_out v r d w' = Some (i, d', w2)" "carried v d d' w2" by (auto simp: ok_iff)
  then show ?thesis using r(1) by (simp add: engine_key_def Let_def flip: w'_def)
qed

lemma feed_vi_key_ok:
  assumes "heap_ok (vi_heap v)" "session_ok v d w" "uh_next_serial (td_undo d) < usize_max" "key_ok key"
    "engine_room v key (td_text d) (vw_caret_offset w) (vw_vi w)"
  shows "ok (\<lambda>(i, doc, w'). \<exists>d'. doc = Some d' \<and> carried v d d' w') (feed_vi_key v key (Some d) w)"
proof -
  have keep: "carried v d d (w\<lparr>vw_prefix := p\<rparr>)" "carried v d d (w\<lparr>vw_prefix := p, vw_pending_command := c\<rparr>)" for p c
    using assms(2) by (simp_all add: carried_def session_ok_def)
  have room: "engine_room v key (td_text d) (vw_caret_offset (w\<lparr>vw_prefix := p\<rparr>)) (vw_vi (w\<lparr>vw_prefix := p\<rparr>))" for p using assms(5) by simp
  have "session_ok v d (w\<lparr>vw_prefix := p\<rparr>)" for p using assms(2) by (simp add: session_ok_def)
  then have eng: "ok (\<lambda>(i, doc, w'). \<exists>d'. doc = Some d' \<and> carried v d d' w') (engine_key v key (Some d) (w\<lparr>vw_prefix := p\<rparr>))"
      "ok (\<lambda>(i, doc, w'). \<exists>d'. doc = Some d' \<and> carried v d d' w') (engine_key v key (Some d) w)" for p
    using engine_key_ok [OF assms(1) _ assms(3,4) room] engine_key_ok [OF assms] by simp_all
  show ?thesis using keep eng by (auto simp: feed_vi_key_def Let_def split: vi_key.split option.split)
qed

section \<open>Sessions\<close>

definition view_new :: "text_document \<Rightarrow> vi_view" where
  "view_new d =
     \<lparr>vw_vi = vi_new, vw_prefix = None, vw_pending_command = None, vw_buffer = td_text d, vw_caret_offset = 0,
      vw_vi_caret = None, vw_command = area_new, vw_find = find_default, vw_search_backward = False, vw_searching = False,
      vw_close_after_save = False\<rparr>"

text \<open>The states a view and its document reach from a fresh view: keys with room, and the caret put anywhere
  in between (a click, a search).\<close>

inductive vi_session :: "vi_env \<Rightarrow> text_document \<Rightarrow> nat \<Rightarrow> text_document \<Rightarrow> vi_view \<Rightarrow> bool" for v d0 where
  opened: "vi_session v d0 0 d0 (view_new d0)"
| caret: "vi_session v d0 n d w \<Longrightarrow> vi_session v d0 n d (w\<lparr>vw_caret_offset := c\<rparr>)"
| key: "vi_session v d0 n d w \<Longrightarrow> key_ok key \<Longrightarrow> engine_room v key (td_text d) (vw_caret_offset w) (vw_vi w) \<Longrightarrow>
    feed_vi_key v key (Some d) w = Some (i, Some d', w') \<Longrightarrow> vi_session v d0 (n + 1) d' w'"

lemma view_new_ok: "document_fits v d \<Longrightarrow> session_ok v d (view_new d)"
  by (simp add: session_ok_def view_new_def live_ok_def engine_ok_def vi_ok_def pending_ok_def record_ok_def vi_new_def edits_fail_by_bounds_def area_new_def
      utf8_scalars [of "[]"] exI [of _ "[]"])

lemma vi_session_ok:
  assumes "vi_session v d0 n d w" "heap_ok (vi_heap v)" "document_fits v d0" "uh_next_serial (td_undo d0) + n \<le> usize_max"
  shows "session_ok v d w \<and> td_bounds d = td_bounds d0 \<and> uh_next_serial (td_undo d) \<le> uh_next_serial (td_undo d0) + n"
  using assms(1,4)
proof (induction rule: vi_session.induct)
  case opened
  then show ?case using assms(3) view_new_ok by simp
next
  case (caret n d w c)
  then show ?case by (simp add: session_ok_def)
next
  case (key n d w k i d' w')
  then have s: "session_ok v d w" "uh_next_serial (td_undo d) < usize_max" by auto
  have "carried v d d' w'" using feed_vi_key_ok [OF assms(2) s key.hyps(2,3)] key.hyps(4) by (auto simp: ok_iff)
  then show ?case using key by (auto simp: carried_def)
qed

end
