(* ===== verification/Find_Plan.thy ===== *)
theory Find_Plan
  imports Find_Substitute Vi_Views Edit_Doc_Inv
begin

text \<open>
  The plan of a substitution, as a function of the text and the matches alone: planning never panics, the plan
  holds the replacements of the first matches up to the limit, in order, and its edits give the text in which
  every addressed line has its matches replaced.
\<close>

section \<open>What the regex engine promises\<close>

text \<open>
  Matches and groups lie on character boundaries of the searched text; the matches of an iteration do not overlap,
  come in order, and an empty match is not reported twice at one place; the iteration over captures meets the
  matches of the iteration over ranges.
\<close>

definition apart :: "match_range \<Rightarrow> match_range \<Rightarrow> bool" where
  "apart m n \<longleftrightarrow> mr_end m \<le> mr_start n \<and> mr_start m < mr_start n"

definition captures_ok :: "bytes \<Rightarrow> captures \<Rightarrow> bool" where
  "captures_ok s c \<longleftrightarrow> cp_get c 0 \<noteq> None \<and> (\<forall>i m. cp_get c i = Some m \<longrightarrow> valid_match s m) \<and> (\<forall>x m. cp_name c x = Some m \<longrightarrow> valid_match s m)"

definition regex_ok :: "regex \<Rightarrow> bool" where
  "regex_ok r \<longleftrightarrow> (\<forall>s. utf8 s \<longrightarrow> list_all (valid_match s) (find_iter r s) \<and> sorted_wrt apart (find_iter r s) \<and>
     list_all (captures_ok s) (captures_iter r s) \<and> map (\<lambda>c. cp_get c 0) (captures_iter r s) = map Some (find_iter r s))"

definition search_engine_ok :: "search_env \<Rightarrow> bool" where
  "search_engine_ok v \<longleftrightarrow> (\<forall>p b r. regex_build v p b = Inr r \<longrightarrow> regex_ok r)"

section \<open>Edits within a stretch of text\<close>

fun within :: "nat \<Rightarrow> nat \<Rightarrow> text_edit list \<Rightarrow> bool" where
  "within x y [] \<longleftrightarrow> x \<le> y"
| "within x y (e # es) \<longleftrightarrow> x \<le> te_start e \<and> within (te_end e) y es"

definition edits_begin :: "nat \<Rightarrow> text_edit list \<Rightarrow> bool" where
  "edits_begin y es \<longleftrightarrow> es = [] \<or> y \<le> te_start (hd es)"

lemma te_end_ge: "te_start e \<le> te_end e"
  by (simp add: te_end_def)

lemma within_le: "within x y es \<Longrightarrow> x \<le> y"
  by (induction es arbitrary: x) (auto, meson order_trans te_end_ge)

lemma within_mono: "within x y es \<Longrightarrow> y \<le> z \<Longrightarrow> within x z es"
  by (induction es arbitrary: x) auto

lemma within_from: "within x y es \<Longrightarrow> w \<le> x \<Longrightarrow> within w y es"
  by (cases es) auto

lemma within_begins: "within x y es \<Longrightarrow> w \<le> x \<Longrightarrow> edits_begin w es"
  by (cases es) (auto simp: edits_begin_def)

lemma within_append: "within x y es \<Longrightarrow> within y z fs \<Longrightarrow> within x z (es @ fs)"
  by (induction es arbitrary: x) (auto intro: within_from)

lemma slice_append_drop: "x \<le> y \<Longrightarrow> slice x (y - x) s @ drop y s = drop x s"
  by (simp add: slice_def) (metis add.commute append_take_drop_id drop_drop le_add_diff_inverse2)

lemma edited_skip: "x \<le> y \<Longrightarrow> y \<le> length s \<Longrightarrow> edits_begin y es \<Longrightarrow> edited x es (drop x s) = slice x (y - x) s @ edited y es (drop y s)"
proof (cases es)
  case Nil
  assume "x \<le> y"
  then show ?thesis using Nil slice_append_drop [of x y s] by simp
next
  case (Cons e fs)
  assume a: "x \<le> y" "y \<le> length s" "edits_begin y es"
  then have e: "y \<le> te_start e" "te_start e \<le> te_end e" using Cons te_end_ge by (auto simp: edits_begin_def)
  have "take (te_start e - x) (drop x s) = slice x (y - x) s @ take (te_start e - y) (drop y s)"
    using a(1,2) e(1) take_add [of "y - x" "te_start e - y" "drop x s"] by (simp add: slice_def add.commute)
  then show ?thesis using a(1) e by (simp add: Cons)
qed

lemma edited_append:
  "within x y es \<Longrightarrow> y \<le> length s \<Longrightarrow> edits_begin y fs \<Longrightarrow>
     edited x (es @ fs) (drop x s) = edited x es (slice x (y - x) s) @ edited y fs (drop y s)"
proof (induction es arbitrary: x)
  case Nil
  then show ?case using edited_skip [of x y s fs] by simp
next
  case (Cons e es)
  have e: "x \<le> te_start e" "te_start e \<le> te_end e" "te_end e \<le> y" using Cons.prems within_le te_end_ge by auto
  have s: "drop (te_end e - x) (slice x (y - x) s) = slice (te_end e) (y - te_end e) s"
    using e by (simp add: slice_def drop_take)
  have t: "take (te_start e - x) (slice x (y - x) s) = take (te_start e - x) (drop x s)" using e by (simp add: slice_def)
  show ?case using Cons.IH [of "te_end e"] Cons.prems e by (simp add: s t)
qed

section \<open>Lines\<close>

text \<open>A stretch of text with every line, apart from an empty one behind the last line feed, put through \<open>F\<close>.\<close>

function lines_through :: "(bytes \<Rightarrow> bytes) \<Rightarrow> bytes \<Rightarrow> bytes" where
  "lines_through F p =
     (if p = [] then []
      else case find_sub [0x0a] p of
             None \<Rightarrow> F p
           | Some k \<Rightarrow> F (take k p) @ [0x0a] @ lines_through F (drop (Suc k) p))"
  by pat_completeness auto

termination
  by (relation "measure (\<lambda>(_, p). length p)") auto

declare lines_through.simps [simp del]

definition text_through :: "(bytes \<Rightarrow> bytes) \<Rightarrow> bytes \<Rightarrow> bytes" where
  "text_through F p = (if p = [] then F [] else lines_through F p)"

lemma utf8_split_newline:
  assumes "utf8 p" "find_sub [0x0a] p = Some k"
  shows "utf8 (take k p)" "utf8 (drop (Suc k) p)" "p = take k p @ 0x0a # drop (Suc k) p" "k < length p"
proof -
  have k: "k + 1 \<le> length p" "slice k 1 p = [0x0a]" using find_sub_SomeD [OF assms(2)] by simp_all
  then have n: "p ! k = 0x0a" by (simp add: slice_def take_Suc_conv_app_nth hd_drop_conv_nth [symmetric] take_Suc split: if_splits)
  show "k < length p" using k by simp
  show p: "p = take k p @ 0x0a # drop (Suc k) p" using id_take_nth_drop [of k p] k n by simp
  have "is_char_boundary p k" using k(1) n by (simp add: is_char_boundary_def cont_def)
  from boundary_splits [OF assms(1) this] show "utf8 (take k p)" by simp
  have "utf8 (take k p @ 0x0a # drop (Suc k) p)" using p assms(1) by simp
  then show "utf8 (drop (Suc k) p)" using \<open>utf8 (take k p)\<close> utf8_ascii [of "0x0a" "drop (Suc k) p"] by simp
qed

lemma slice_take: "k \<le> n \<Longrightarrow> take k (slice a n s) = slice a k s"
  by (simp add: slice_def min_def)

lemma drop_slice: "drop k (slice a n s) = slice (a + k) (n - k) s"
  by (simp add: slice_def drop_take add.commute)

text \<open>
  The lines of a stretch between two boundaries lie in it one after the other, with a line feed in between;
  edits given line by line act line by line.
\<close>

definition lines_ok :: "bytes \<Rightarrow> nat \<Rightarrow> nat \<Rightarrow> (nat \<times> nat) list \<Rightarrow> bool" where
  "lines_ok s a b ls \<longleftrightarrow> sorted_wrt (\<lambda>l m. snd l < fst m) ls \<and>
     (\<forall>l \<in> set ls. a \<le> fst l \<and> fst l \<le> snd l \<and> snd l \<le> b \<and> is_char_boundary s (fst l) \<and> is_char_boundary s (snd l))"

definition edits_through :: "bytes \<Rightarrow> (nat \<times> nat \<Rightarrow> text_edit list) \<Rightarrow> (bytes \<Rightarrow> bytes) \<Rightarrow> nat \<times> nat \<Rightarrow> bool" where
  "edits_through s E F l \<longleftrightarrow> within (fst l) (snd l) (E l) \<and>
     edited (fst l) (E l) (slice (fst l) (snd l - fst l) s) = F (slice (fst l) (snd l - fst l) s)"

lemma line_ranges_from_ok:
  assumes "utf8 s" "is_char_boundary s a" "is_char_boundary s b" "a \<le> b"
  shows "\<exists>ls. line_ranges_from s a b = Some ls \<and> lines_ok s a b ls \<and>
    (\<forall>E F. (\<forall>l. fst l \<le> snd l \<and> is_char_boundary s (fst l) \<and> is_char_boundary s (snd l) \<longrightarrow> edits_through s E F l) \<longrightarrow>
       within a b (concat (map E ls)) \<and>
       edited a (concat (map E ls)) (drop a s) = lines_through F (slice a (b - a) s) @ drop b s)"
  using assms
proof (induction "b - a" arbitrary: a rule: less_induct)
  case less
  let ?p = "slice a (b - a) s"
  note S = slice_utf8 [OF less.prems]
  have b: "b \<le> length s" using less.prems(3) by (rule char_boundary_le)
  then have len: "length ?p = b - a" by (simp add: slice_def)
  show ?case
  proof (cases "a < b")
    case False
    then show ?thesis using less.prems
      by (subst line_ranges_from.simps) (auto simp: lines_ok_def lines_through.simps slice_def)
  next
    case ab: True
    show ?thesis
    proof (cases "find_sub [0x0a] ?p")
      case None
      have "line_ranges_from s a b = Some [(a, b)]"
        using ab S(1) None by (subst line_ranges_from.simps) (simp add: line_ranges_from.simps [of s b b])
      moreover have "lines_ok s a b [(a, b)]" using less.prems by (simp add: lines_ok_def)
      moreover have "within a b (E (a, b)) \<and> edited a (E (a, b)) (drop a s) = lines_through F ?p @ drop b s"
        if "\<forall>l. fst l \<le> snd l \<and> is_char_boundary s (fst l) \<and> is_char_boundary s (snd l) \<longrightarrow> edits_through s E F l" for E F
      proof -
        have e: "edits_through s E F (a, b)" using that less.prems by simp
        then have "edited a (E (a, b) @ []) (drop a s) = F ?p @ drop b s"
          using edited_append [of a b "E (a, b)" s "[]"] b by (simp add: edits_through_def edits_begin_def)
        moreover have "lines_through F ?p = F ?p" using None ab len by (subst lines_through.simps) auto
        ultimately show ?thesis using e by (simp add: edits_through_def)
      qed
      ultimately show ?thesis by (intro exI [of _ "[(a, b)]"]) simp
    next
      case (Some k)
      note N = utf8_split_newline [OF S(3) Some]
      let ?m = "a + k" and ?n = "a + k + 1"
      have k: "k < b - a" using N(4) len by simp
      have parts: "take k ?p = slice a k s" "drop (Suc k) ?p = slice ?n (b - ?n) s"
        using k by (simp_all add: slice_take drop_slice)
      have "utf8 (take ?m s)" using S(2) N(1) parts(1) by (simp add: slice_def take_add)
      then have m: "is_char_boundary s ?m" using utf8_take_boundary [OF less.prems(1)] k b by simp
      have "drop ?n s = slice ?n (b - ?n) s @ drop b s" using slice_append_drop [of ?n b s] k by simp
      then have n: "is_char_boundary s ?n" using utf8_drop_boundary [of ?n s] N(2) S(4) k b parts(2) by simp
      have nl: "slice ?m 1 s = [0x0a]" using find_sub_SomeD [OF Some] k by (simp add: slice_def drop_take add.commute take_Suc split: if_splits)
      obtain ls where ls: "line_ranges_from s ?n b = Some ls" "lines_ok s ?n b ls"
        "\<And>E F. (\<forall>l. fst l \<le> snd l \<and> is_char_boundary s (fst l) \<and> is_char_boundary s (snd l) \<longrightarrow> edits_through s E F l) \<Longrightarrow>
           within ?n b (concat (map E ls)) \<and>
           edited ?n (concat (map E ls)) (drop ?n s) = lines_through F (slice ?n (b - ?n) s) @ drop b s"
        using less.hyps [of ?n] less.prems n k by fastforce
      have "line_ranges_from s a b = Some ((a, ?m) # ls)"
        using ab S(1) Some ls(1) by (subst line_ranges_from.simps) simp
      moreover have "lines_ok s a b ((a, ?m) # ls)" using ls(2) less.prems(2) m k by (fastforce simp: lines_ok_def)
      moreover have "within a b (E (a, ?m) @ concat (map E ls)) \<and>
          edited a (E (a, ?m) @ concat (map E ls)) (drop a s) = lines_through F ?p @ drop b s"
        if h: "\<forall>l. fst l \<le> snd l \<and> is_char_boundary s (fst l) \<and> is_char_boundary s (snd l) \<longrightarrow> edits_through s E F l" for E F
      proof -
        have e: "edits_through s E F (a, ?m)" using h less.prems m by simp
        note R = ls(3) [OF h]
        have w: "within ?m b (concat (map E ls))" using R within_from by fastforce
        have "edited a (E (a, ?m) @ concat (map E ls)) (drop a s) = F (slice a k s) @ edited ?m (concat (map E ls)) (drop ?m s)"
          using edited_append [of a ?m "E (a, ?m)" s] e within_begins [OF w] k b by (simp add: edits_through_def)
        also have "edited ?m (concat (map E ls)) (drop ?m s) = [0x0a] @ edited ?n (concat (map E ls)) (drop ?n s)"
          using edited_skip [of ?m ?n s] within_begins [of ?n b "concat (map E ls)" ?n] R k b nl by simp
        finally show ?thesis
          using R within_append [OF _ w] e Some k by (subst lines_through.simps) (auto simp: parts edits_through_def)
      qed
      ultimately show ?thesis by (intro exI [of _ "(a, ?m) # ls"]) simp
    qed
  qed
qed

lemma line_ranges_ok:
  assumes "utf8 s" "is_char_boundary s a" "is_char_boundary s b" "a \<le> b"
  obtains ls where "line_ranges s a b = Some ls" "lines_ok s a b ls"
    "\<And>E F. (\<forall>l. fst l \<le> snd l \<and> is_char_boundary s (fst l) \<and> is_char_boundary s (snd l) \<longrightarrow> edits_through s E F l) \<Longrightarrow>
       within a b (concat (map E ls)) \<and>
       edited a (concat (map E ls)) (drop a s) = text_through F (slice a (b - a) s) @ drop b s"
proof (cases "a = b")
  case True
  have "line_ranges s a b = Some [(a, b)]" by (simp add: True line_ranges_def line_ranges_from.simps [of s b b])
  moreover have "lines_ok s a b [(a, b)]" using assms by (simp add: lines_ok_def)
  moreover have "within a b (concat (map E [(a, b)])) \<and>
       edited a (concat (map E [(a, b)])) (drop a s) = text_through F (slice a (b - a) s) @ drop b s"
    if h: "\<forall>l. fst l \<le> snd l \<and> is_char_boundary s (fst l) \<and> is_char_boundary s (snd l) \<longrightarrow> edits_through s E F l" for E F
  proof -
    have "edits_through s E F (b, b)" using h assms(3) by simp
    then show ?thesis using edited_append [of b b "E (b, b)" s "[]"] char_boundary_le [OF assms(3)]
      by (simp add: edits_through_def edits_begin_def True text_through_def slice_def)
  qed
  ultimately show thesis by (rule that)
next
  case False
  obtain ls where "line_ranges_from s a b = Some ls" "lines_ok s a b ls"
    "\<And>E F. (\<forall>l. fst l \<le> snd l \<and> is_char_boundary s (fst l) \<and> is_char_boundary s (snd l) \<longrightarrow> edits_through s E F l) \<Longrightarrow>
       within a b (concat (map E ls)) \<and>
       edited a (concat (map E ls)) (drop a s) = lines_through F (slice a (b - a) s) @ drop b s"
    using line_ranges_from_ok [OF assms] by metis
  moreover have "slice a (b - a) s \<noteq> []" using False assms(4) char_boundary_le [OF assms(3)] by (simp add: slice_def)
  ultimately show thesis using that False by (simp add: line_ranges_def text_through_def)
qed

end
