(* ===== verification/Find_Result.thy ===== *)
theory Find_Result
  imports Find_Plan
begin

text \<open>
  The replacements of a plan, match by match: what planning computes in every case, that the order check of the
  source never fails, and what the edits of the plan do to the text.
\<close>

section \<open>The replacements of a line\<close>

definition whole_match :: "captures \<Rightarrow> match_range" where
  "whole_match c = (case cp_get c 0 of Some m \<Rightarrow> m | None \<Rightarrow> \<lparr>mr_start = 0, mr_end = 0\<rparr>)"

definition expansion :: "replacement_token list \<Rightarrow> bytes \<Rightarrow> captures \<Rightarrow> bytes" where
  "expansion tokens line c = concat (map (token_text line c) tokens)"

definition replacement :: "replacement_token list \<Rightarrow> nat \<Rightarrow> bytes \<Rightarrow> captures \<Rightarrow> substitute_replacement" where
  "replacement tokens a line c =
     \<lparr>sr_range = \<lparr>mr_start = a + mr_start (whole_match c), mr_end = a + mr_end (whole_match c)\<rparr>,
      sr_removed = group_text line (Some (whole_match c)), sr_replacement = expansion tokens line c\<rparr>"

text \<open>A line with its matches replaced.\<close>

primrec replaced_from :: "replacement_token list \<Rightarrow> bytes \<Rightarrow> nat \<Rightarrow> captures list \<Rightarrow> bytes" where
  "replaced_from tokens line i [] = drop i line"
| "replaced_from tokens line i (c # cs) =
     slice i (mr_start (whole_match c) - i) line @ expansion tokens line c @ replaced_from tokens line (mr_end (whole_match c)) cs"

definition substituted :: "substitute_command \<Rightarrow> regex \<Rightarrow> bytes \<Rightarrow> bytes" where
  "substituted cmd r line = replaced_from (sc_tokens cmd) line 0 (line_matches cmd r line)"

definition edit_of :: "heap_env \<Rightarrow> substitute_replacement \<Rightarrow> text_edit" where
  "edit_of h r = \<lparr>te_start = mr_start (sr_range r), te_removed = owned h (sr_removed r), te_inserted = owned h (sr_replacement r)\<rparr>"

definition good_matches :: "bytes \<Rightarrow> captures list \<Rightarrow> bool" where
  "good_matches line cs \<longleftrightarrow> list_all (captures_ok line) cs \<and> sorted_wrt apart (map whole_match cs)"

lemma whole_match_ok: "captures_ok line c \<Longrightarrow> cp_get c 0 = Some (whole_match c) \<and> valid_match line (whole_match c)"
  by (auto simp: captures_ok_def whole_match_def split: option.splits)

lemma good_matches_Cons: "good_matches line (c # cs) \<longleftrightarrow> captures_ok line c \<and> (\<forall>d \<in> set cs. apart (whole_match c) (whole_match d)) \<and> good_matches line cs"
  by (auto simp: good_matches_def)

lemma line_matches_good: "regex_ok r \<Longrightarrow> utf8 line \<Longrightarrow> good_matches line (line_matches cmd r line)"
proof -
  assume r: "regex_ok r" "utf8 line"
  let ?cs = "captures_iter r line"
  have c: "list_all (captures_ok line) ?cs" "map (\<lambda>c. cp_get c 0) ?cs = map Some (find_iter r line)" "sorted_wrt apart (find_iter r line)"
    using r by (auto simp: regex_ok_def)
  have "map Some (map whole_match ?cs) = map Some (find_iter r line)"
    using c(1) by (simp add: c(2) [symmetric] list_all_iff) (metis whole_match_ok)
  then have w: "map whole_match ?cs = find_iter r line" by (rule inj_map_eq_map [OF inj_Some, THEN iffD1])
  with c show ?thesis by (auto simp: good_matches_def line_matches_def first_of_def list_all_iff w split: list.splits)
qed

lemma group_length: "valid_match line m \<Longrightarrow> length (group_text line (Some m)) = mr_end m - mr_start m"
  by (auto simp: group_text_def valid_match_def slice_def)

lemma replacement_edit_fields:
  assumes "captures_ok line c" "heap_ok h"
  shows "te_start (edit_of h (replacement ts a line c)) = a + mr_start (whole_match c)"
    "te_end (edit_of h (replacement ts a line c)) = a + mr_end (whole_match c)"
    "rs_bytes (te_inserted (edit_of h (replacement ts a line c))) = expansion ts line c"
  using whole_match_ok [OF assms(1)] assms(2)
  by (auto simp: edit_of_def replacement_def te_end_def group_length) (simp add: valid_match_def)

lemma line_edits:
  assumes "heap_ok h"
  shows "good_matches line cs \<Longrightarrow> i \<le> length line \<Longrightarrow> (\<forall>c \<in> set cs. i \<le> mr_start (whole_match c)) \<Longrightarrow>
    within (a + i) (a + length line) (map (edit_of h \<circ> replacement ts a line) cs) \<and>
    edited (a + i) (map (edit_of h \<circ> replacement ts a line) cs) (drop i line) = replaced_from ts line i cs"
proof (induction cs arbitrary: i)
  case (Cons c cs)
  have c: "captures_ok line c" "\<forall>d \<in> set cs. apart (whole_match c) (whole_match d)" "good_matches line cs"
    using Cons.prems(1) by (simp_all add: good_matches_Cons)
  have m: "mr_start (whole_match c) \<le> mr_end (whole_match c)" "mr_end (whole_match c) \<le> length line"
    using whole_match_ok [OF c(1)] by (simp_all add: valid_match_def)
  have "\<forall>d \<in> set cs. mr_end (whole_match c) \<le> mr_start (whole_match d)" using c(2) by (auto simp: apart_def)
  from Cons.IH [OF c(3) m(2) this] show ?case
    using Cons.prems(3) m by (simp add: replacement_edit_fields [OF c(1) assms] slice_def)
qed simp

section \<open>Planning\<close>

text \<open>What a list of replacements does to the accumulator.\<close>

definition weigh :: "substitute_replacement list \<Rightarrow> nat" where
  "weigh rs = sum_list (map (length \<circ> sr_replacement) rs)"

definition charge ::
  "substitute_command \<Rightarrow> nat \<Rightarrow> substitute_replacement list \<Rightarrow> replacement_accumulator \<Rightarrow> replacement_accumulator outcome" where
  "charge cmd limit rs acc =
     (if sf_count_only (sc_flags cmd) then Inr acc
      else if limit < ra_planned_bytes acc + weigh rs then Inl Plan_Too_Large
      else Inr (acc\<lparr>ra_planned_bytes := ra_planned_bytes acc + weigh rs, ra_replacements := ra_replacements acc @ rs\<rparr>))"

lemma weigh_simps [simp]: "weigh [] = 0" "weigh (r # rs) = length (sr_replacement r) + weigh rs" "weigh (rs @ qs) = weigh rs + weigh qs"
  by (simp_all add: weigh_def)

lemma charge_Nil: "ra_planned_bytes acc \<le> limit \<Longrightarrow> charge cmd limit [] acc = Inr acc"
  by (simp add: charge_def)

lemma charge_append: "bind_result (charge cmd limit rs acc) (charge cmd limit qs) = charge cmd limit (rs @ qs) acc"
  by (simp add: charge_def bind_result_def)

lemma charge_bound: "charge cmd limit rs acc = Inr acc' \<Longrightarrow> ra_planned_bytes acc \<le> limit \<Longrightarrow> ra_planned_bytes acc' \<le> limit"
  by (auto simp: charge_def split: if_splits)

lemma bind_partial_result: "bind_partial (Some m) (\<lambda>x. Some (f x)) = Some (bind_result m f)"
  by (auto simp: bind_partial_def bind_result_def split: sum.splits)

definition tokens_fit :: "replacement_token list \<Rightarrow> bool" where
  "tokens_fit ts \<longleftrightarrow> (\<forall>l. Literal l \<in> set ts \<longrightarrow> scalars l \<and> length (str_bytes l) \<le> 2 ^ 62)"

lemma group_text_ok:
  assumes "utf8 line" "length line \<le> 2 ^ 62" "\<And>x. m = Some x \<Longrightarrow> valid_match line x"
  shows "length (group_text line m) \<le> 2 ^ 62 \<and> utf8 (group_text line m)"
proof (cases m)
  case (Some x)
  note x = assms(3) [OF Some]
  show ?thesis using slice_utf8(3) [OF assms(1)] x assms(2) by (simp add: Some group_text_def valid_match_def slice_def)
qed (simp add: group_text_def)

lemma token_text_ok:
  assumes "captures_ok line c" "tokens_fit ts" "t \<in> set ts" "utf8 line" "length line \<le> 2 ^ 62"
  shows "length (token_text line c t) \<le> 2 ^ 62" "utf8 (token_text line c t)"
proof -
  have "length (token_text line c t) \<le> 2 ^ 62 \<and> utf8 (token_text line c t)"
  proof (cases t)
    case (Literal l)
    then show ?thesis using assms(2,3) by (auto simp: tokens_fit_def)
  next
    case WholeMatch
    then show ?thesis using group_text_ok [OF assms(4,5), of "cp_get c 0"] assms(1) by (simp add: captures_ok_def)
  next
    case (CaptureIndex i)
    then show ?thesis using group_text_ok [OF assms(4,5), of "cp_get c i"] assms(1) by (simp add: captures_ok_def)
  next
    case (NamedCapture x)
    then show ?thesis using group_text_ok [OF assms(4,5), of "cp_name c x"] assms(1) by (simp add: captures_ok_def)
  qed
  then show "length (token_text line c t) \<le> 2 ^ 62" "utf8 (token_text line c t)" by simp_all
qed

lemma expand_replacement_ok:
  assumes "limit \<le> 2 ^ 62"
  shows "\<forall>t \<in> set ts. length (token_text line c t) \<le> 2 ^ 62 \<Longrightarrow> planned \<le> limit \<Longrightarrow>
    expand_replacement line c limit ts planned out =
      Some (if limit < planned + length (expansion ts line c) then Inl Plan_Too_Large
            else Inr (out @ expansion ts line c, planned + length (expansion ts line c)))"
proof (induction ts arbitrary: planned out)
  case (Cons t ts)
  let ?n = "planned + length (token_text line c t)"
  have "checked_add planned (length (token_text line c t)) = Some ?n"
    using Cons.prems assms by (simp add: checked_add_def usize_max_def)
  then show ?case using Cons.IH [of ?n] Cons.prems by (simp add: expansion_def)
qed (simp add: expansion_def)

text \<open>A line of the text, its offset, and the matches found in it.\<close>

definition line_at :: "bytes \<Rightarrow> nat \<Rightarrow> bytes \<Rightarrow> bool" where
  "line_at s a line \<longleftrightarrow> utf8 s \<and> length s \<le> 2 ^ 62 \<and> is_char_boundary s a \<and> is_char_boundary s (a + length line) \<and>
     line = slice a (length line) s"

lemma line_at_utf8: "line_at s a line \<Longrightarrow> utf8 line \<and> length line \<le> 2 ^ 62"
  using slice_utf8(3) [of s a "a + length line"] char_boundary_le [of s "a + length line"] by (auto simp: line_at_def)

lemma line_at_match:
  assumes "line_at s a line" "valid_match line m"
  shows "is_char_boundary s (a + mr_start m)" "is_char_boundary s (a + mr_end m)"
    "str_slice s (a + mr_start m) (a + mr_end m) = Some (group_text line (Some m))"
proof -
  have l: "utf8 s" "is_char_boundary s a" "line = slice a (length line) s" "a + length line \<le> length s"
    using assms(1) char_boundary_le by (auto simp: line_at_def)
  have b: "is_char_boundary s (a + i)" if i: "is_char_boundary line i" for i
  proof -
    have i': "i \<le> length line" using i by (rule char_boundary_le)
    have "take (a + i) s = take a s @ take i line"
      using arg_cong [OF l(3), of "take i"] i' by (simp add: take_add slice_def min_def)
    then have "utf8 (take (a + i) s)"
      using boundary_splits [OF l(1,2)] boundary_splits [of line i] i line_at_utf8 [OF assms(1)] by simp
    then show ?thesis using utf8_take_boundary [OF l(1)] l(4) i' by simp
  qed
  show "is_char_boundary s (a + mr_start m)" "is_char_boundary s (a + mr_end m)" using b assms(2) by (simp_all add: valid_match_def)
  moreover have "slice (a + mr_start m) (mr_end m - mr_start m) s = group_text line (Some m)"
  proof -
    have "mr_start m + (mr_end m - mr_start m) \<le> length line" using assms(2) by (simp add: valid_match_def)
    moreover have "group_text line (Some m) = slice (mr_start m) (mr_end m - mr_start m) (slice a (length line) s)"
      using arg_cong [OF l(3), of "slice (mr_start m) (mr_end m - mr_start m)"] by (simp add: group_text_def)
    ultimately show ?thesis by (simp add: slice_def drop_take add.commute min_def)
  qed
  ultimately show "str_slice s (a + mr_start m) (a + mr_end m) = Some (group_text line (Some m))"
    using assms(2) by (simp add: str_slice_def valid_match_def)
qed

lemma push_match_ok:
  assumes l: "line_at s a line" and c: "captures_ok line c" and t: "tokens_fit (sc_tokens cmd)"
    and b: "limit \<le> 2 ^ 62" "ra_planned_bytes acc \<le> limit"
  shows "push_match s cmd limit a line c acc = Some (charge cmd limit [replacement (sc_tokens cmd) a line c] acc)"
proof (cases "sf_count_only (sc_flags cmd)")
  case True
  then show ?thesis using whole_match_ok [OF c] by (simp add: push_match_def charge_def)
next
  case False
  note w = whole_match_ok [OF c]
  have "\<forall>t \<in> set (sc_tokens cmd). length (token_text line c t) \<le> 2 ^ 62"
    using token_text_ok(1) [OF c t] line_at_utf8 [OF l] by simp
  from expand_replacement_ok [OF b(1) this b(2)] show ?thesis
    using False w line_at_match [OF l, of "whole_match c"]
    by (simp add: push_match_def charge_def bind_partial_def replacement_def)
qed

lemma plan_matches_ok:
  assumes l: "line_at s a line" and t: "tokens_fit (sc_tokens cmd)" and b: "byte_limit \<le> 2 ^ 62"
  shows "list_all (captures_ok line) cs \<Longrightarrow> n \<le> limit \<Longrightarrow> ra_planned_bytes acc \<le> byte_limit \<Longrightarrow>
    plan_matches s cmd limit byte_limit a line cs n acc =
      Some (bind_result (charge cmd byte_limit (map (replacement (sc_tokens cmd) a line) (take (limit - n) cs)) acc)
        (\<lambda>acc. Inr (limit - n < length cs, n + min (limit - n) (length cs), acc)))"
proof (induction cs arbitrary: n acc)
  case Nil
  then show ?case by (simp add: charge_Nil bind_result_def)
next
  case (Cons c cs)
  let ?r = "replacement (sc_tokens cmd) a line"
  show ?case
  proof (cases "n = limit")
    case True
    then show ?thesis using Cons.prems by (simp add: charge_Nil bind_result_def)
  next
    case False
    then have n: "limit - n = Suc (limit - Suc n)" "Suc n \<le> limit" using Cons.prems by simp_all
    note p = push_match_ok [OF l _ t b Cons.prems(3), of c]
    show ?thesis
    proof (cases "charge cmd byte_limit [?r c] acc")
      case (Inl x)
      have "charge cmd byte_limit (?r c # qs) acc = Inl x" for qs
        using charge_append [of cmd byte_limit "[?r c]" acc qs] Inl by (simp add: bind_result_def)
      then show ?thesis using False p Inl Cons.prems by (simp add: n(1) bind_partial_def bind_result_def)
    next
      case (Inr acc')
      have "charge cmd byte_limit (?r c # qs) acc = charge cmd byte_limit qs acc'" for qs
        using charge_append [of cmd byte_limit "[?r c]" acc qs] Inr by (simp add: bind_result_def)
      then show ?thesis
        using False p Inr Cons.prems Cons.IH [OF _ n(2), of acc'] charge_bound [OF Inr]
        by (simp add: n(1) bind_partial_def)
    qed
  qed
qed

text \<open>All the replacements of a list of lines.\<close>

definition line_replacements :: "bytes \<Rightarrow> substitute_command \<Rightarrow> regex \<Rightarrow> nat \<times> nat \<Rightarrow> substitute_replacement list" where
  "line_replacements s cmd r l =
     (let line = slice (fst l) (snd l - fst l) s in map (replacement (sc_tokens cmd) (fst l) line) (line_matches cmd r line))"

definition all_replacements :: "bytes \<Rightarrow> substitute_command \<Rightarrow> regex \<Rightarrow> (nat \<times> nat) list \<Rightarrow> substitute_replacement list" where
  "all_replacements s cmd r ls = concat (map (line_replacements s cmd r) ls)"

lemma lines_ok_line_at:
  assumes "lines_ok s a b ls" "l \<in> set ls" "utf8 s" "length s \<le> 2 ^ 62"
  shows "line_at s (fst l) (slice (fst l) (snd l - fst l) s)" "str_slice s (fst l) (snd l) = Some (slice (fst l) (snd l - fst l) s)"
proof -
  have l: "fst l \<le> snd l" "is_char_boundary s (fst l)" "is_char_boundary s (snd l)" using assms(1,2) by (auto simp: lines_ok_def)
  then show "line_at s (fst l) (slice (fst l) (snd l - fst l) s)"
    using assms(3,4) char_boundary_le [OF l(3)] by (simp add: line_at_def slice_def)
  show "str_slice s (fst l) (snd l) = Some (slice (fst l) (snd l - fst l) s)" using slice_utf8(1) [OF assms(3) l(2,3,1)] .
qed

lemma plan_lines_ok:
  assumes s: "utf8 s" "length s \<le> 2 ^ 62" and r: "regex_ok r" and t: "tokens_fit (sc_tokens cmd)" and b: "byte_limit \<le> 2 ^ 62"
  shows "lines_ok s x y ls \<Longrightarrow> n \<le> limit \<Longrightarrow> ra_planned_bytes acc \<le> byte_limit \<Longrightarrow>
    plan_lines s cmd r limit byte_limit ls n acc =
      Some (bind_result (charge cmd byte_limit (take (limit - n) (all_replacements s cmd r ls)) acc)
        (\<lambda>acc. Inr (limit - n < length (all_replacements s cmd r ls), n + min (limit - n) (length (all_replacements s cmd r ls)), acc)))"
proof (induction ls arbitrary: n acc)
  case Nil
  then show ?case by (simp add: all_replacements_def charge_Nil bind_result_def)
next
  case (Cons l ls)
  let ?line = "slice (fst l) (snd l - fst l) s" and ?rest = "all_replacements s cmd r ls"
  let ?cs = "line_matches cmd r ?line"
  let ?here = "line_replacements s cmd r l"
  note l = lines_ok_line_at [OF Cons.prems(1) _ s, of l]
  have ok: "lines_ok s x y ls" using Cons.prems(1) by (simp add: lines_ok_def)
  have cs: "list_all (captures_ok ?line) ?cs"
    using line_matches_good [OF r, of ?line cmd] line_at_utf8 [OF l(1)] by (simp add: good_matches_def)
  have here: "map (replacement (sc_tokens cmd) (fst l) ?line) (take k ?cs) = take k ?here" "length ?cs = length ?here" for k
    by (simp_all add: line_replacements_def Let_def take_map)
  have all: "all_replacements s cmd r (l # ls) = ?here @ ?rest" by (simp add: all_replacements_def)
  note m = plan_matches_ok [OF l(1) t b cs Cons.prems(2,3), unfolded here]
  show ?case
  proof (cases "limit - n < length ?here")
    case True
    then show ?thesis using l(2) m by (cases "charge cmd byte_limit (take (limit - n) ?here) acc") (simp_all add: all bind_partial_def bind_result_def)
  next
    case False
    then have k: "n + length ?here \<le> limit" "take (limit - n) ?here = ?here" "min (limit - n) (length ?here) = length ?here" using Cons.prems by simp_all
    show ?thesis
    proof (cases "charge cmd byte_limit ?here acc")
      case (Inl e)
      then have "charge cmd byte_limit (?here @ qs) acc = Inl e" for qs
        using charge_append [of cmd byte_limit ?here acc qs] by (simp add: bind_result_def)
      then show ?thesis using l(2) m False Inl k by (simp add: all bind_partial_def bind_result_def)
    next
      case (Inr acc')
      then have c: "charge cmd byte_limit (?here @ qs) acc = charge cmd byte_limit qs acc'" for qs
        using charge_append [of cmd byte_limit ?here acc qs] by (simp add: bind_result_def)
      note IH = Cons.IH [OF ok k(1) charge_bound [OF Inr Cons.prems(3)]]
      have p: "plan_lines s cmd r limit byte_limit (l # ls) n acc = plan_lines s cmd r limit byte_limit ls (n + length ?here) acc'"
        using l(2) m False Inr k by (simp add: bind_partial_def bind_result_def)
      let ?j = "n + length ?here"
      have "take (limit - n) (?here @ ?rest) = ?here @ take (limit - ?j) ?rest"
        "(limit - n < length (?here @ ?rest)) = (limit - ?j < length ?rest)"
        "n + min (limit - n) (length (?here @ ?rest)) = ?j + min (limit - ?j) (length ?rest)"
        using False k(1) by auto
      then show ?thesis unfolding p IH all by (simp only: c)
    qed
  qed
qed

section \<open>The edits of a plan\<close>

definition rep_ok :: "bytes \<Rightarrow> substitute_replacement \<Rightarrow> bool" where
  "rep_ok s r \<longleftrightarrow> valid_match s (sr_range r) \<and> utf8 (sr_replacement r) \<and>
     str_slice s (mr_start (sr_range r)) (mr_end (sr_range r)) = Some (sr_removed r)"

definition reps_ok :: "bytes \<Rightarrow> substitute_replacement list \<Rightarrow> bool" where
  "reps_ok s rs \<longleftrightarrow> list_all (rep_ok s) rs \<and> sorted_wrt apart (map sr_range rs)"

lemma expansion_utf8:
  assumes "line_at s a line" "captures_ok line c" "tokens_fit ts"
  shows "utf8 (expansion ts line c)"
proof -
  have "\<forall>t \<in> set ts. utf8 (token_text line c t)"
    using token_text_ok(2) [OF assms(2,3)] line_at_utf8 [OF assms(1)] by simp
  then show ?thesis by (induction ts) (simp_all add: expansion_def)
qed

lemma replacement_rep_ok:
  assumes "line_at s a line" "captures_ok line c" "tokens_fit ts"
  shows "rep_ok s (replacement ts a line c)"
  using line_at_match [OF assms(1)] whole_match_ok [OF assms(2)] expansion_utf8 [OF assms] char_boundary_le
  by (auto simp: rep_ok_def replacement_def valid_match_def)

lemma line_replacements_ok:
  assumes "regex_ok r" "tokens_fit (sc_tokens cmd)" "line_at s (fst l) (slice (fst l) (snd l - fst l) s)" "fst l \<le> snd l" "snd l \<le> length s"
  shows "reps_ok s (line_replacements s cmd r l)"
    "\<forall>x \<in> set (line_replacements s cmd r l). fst l \<le> mr_start (sr_range x) \<and> mr_end (sr_range x) \<le> snd l"
proof -
  let ?line = "slice (fst l) (snd l - fst l) s"
  have g: "list_all (captures_ok ?line) (line_matches cmd r ?line)" "sorted_wrt apart (map whole_match (line_matches cmd r ?line))"
    using line_matches_good [OF assms(1), of ?line cmd] line_at_utf8 [OF assms(3)] by (simp_all add: good_matches_def)
  have "apart (sr_range (replacement ts a line c)) (sr_range (replacement ts a line d)) \<longleftrightarrow> apart (whole_match c) (whole_match d)" for ts a line c d
    by (simp add: apart_def replacement_def)
  then show "reps_ok s (line_replacements s cmd r l)"
    using g replacement_rep_ok [OF assms(3) _ assms(2)] by (auto simp: reps_ok_def line_replacements_def Let_def list_all_iff sorted_wrt_map)
  have "mr_end (whole_match c) \<le> snd l - fst l" if "c \<in> set (line_matches cmd r ?line)" for c
    using g(1) whole_match_ok [of ?line c] that assms(4,5) by (auto simp: list_all_iff valid_match_def slice_def)
  then show "\<forall>x \<in> set (line_replacements s cmd r l). fst l \<le> mr_start (sr_range x) \<and> mr_end (sr_range x) \<le> snd l"
    using assms(4) by (fastforce simp: line_replacements_def Let_def replacement_def)
qed

lemma all_replacements_ok:
  assumes "regex_ok r" "tokens_fit (sc_tokens cmd)" "utf8 s" "length s \<le> 2 ^ 62"
  shows "lines_ok s a b ls \<Longrightarrow> reps_ok s (all_replacements s cmd r ls)"
proof (induction ls)
  case Nil
  then show ?case by (simp add: reps_ok_def all_replacements_def)
next
  case (Cons l ls)
  have at: "line_at s (fst m) (slice (fst m) (snd m - fst m) s)" "fst m \<le> snd m" "snd m \<le> length s" if "m \<in> set (l # ls)" for m
    using lines_ok_line_at(1) [OF Cons.prems that assms(3,4)] Cons.prems that char_boundary_le [of s "snd m"] by (auto simp: lines_ok_def)
  note here = line_replacements_ok [OF assms(1,2) at, of l]
  have "apart (sr_range x) (sr_range y)"
    if x: "x \<in> set (line_replacements s cmd r l)" and y: "y \<in> set (all_replacements s cmd r ls)" for x y
  proof -
    obtain m where m: "m \<in> set ls" "y \<in> set (line_replacements s cmd r m)" using y by (auto simp: all_replacements_def)
    have "snd l < fst m" using Cons.prems m(1) by (simp add: lines_ok_def)
    moreover have "mr_end (sr_range x) \<le> snd l" "mr_start (sr_range x) \<le> mr_end (sr_range x)"
      using here x by (auto simp: reps_ok_def list_all_iff rep_ok_def valid_match_def)
    moreover have "fst m \<le> mr_start (sr_range y)" using line_replacements_ok(2) [OF assms(1,2) at, of m] m by simp
    ultimately show ?thesis by (simp add: apart_def)
  qed
  moreover have "lines_ok s a b ls" using Cons.prems by (simp add: lines_ok_def)
  ultimately show ?case using Cons.IH here(1) by (fastforce simp: reps_ok_def all_replacements_def sorted_wrt_append)
qed

lemma order_checked:
  "sorted_wrt apart (map sr_range rs) \<Longrightarrow> (\<forall>p. previous = Some p \<longrightarrow> (\<forall>x \<in> set rs. apart p (sr_range x))) \<Longrightarrow>
     validate_replacement_order previous rs = Inr ()"
  by (induction rs arbitrary: previous) (auto simp: bind_result_def apart_def Let_def split: option.splits)

lemma replacement_edits_ok: "list_all (rep_ok s) rs \<Longrightarrow> replacement_edits h s rs = Some (Inr (map (edit_of h) rs))"
  by (induction rs) (simp_all add: replacement_edit_def rep_ok_def bind_partial_def validate_text_range_def valid_match_def edit_of_def)

lemma rep_ok_edit:
  assumes "rep_ok s r" "heap_ok h" "length s \<le> 2 ^ 62"
  shows "te_end (edit_of h r) = mr_end (sr_range r)" "validate_edits s (edit_of h r # xs) n =
    (if mr_start (sr_range r) < n then Inl OutOfOrder else validate_edits s xs (mr_end (sr_range r)))"
proof -
  have r: "mr_start (sr_range r) \<le> mr_end (sr_range r)" "mr_end (sr_range r) \<le> length s"
      "sr_removed r = slice (mr_start (sr_range r)) (mr_end (sr_range r) - mr_start (sr_range r)) s"
    using assms(1) by (auto simp: rep_ok_def valid_match_def str_slice_def split: if_splits)
  then have "mr_start (sr_range r) + length (sr_removed r) = mr_end (sr_range r)" by (simp add: slice_def)
  then show "te_end (edit_of h r) = mr_end (sr_range r)" "validate_edits s (edit_of h r # xs) n =
    (if mr_start (sr_range r) < n then Inl OutOfOrder else validate_edits s xs (mr_end (sr_range r)))"
    using r assms by (auto simp: te_end_def edit_of_def checked_add_def usize_max_def rep_ok_def valid_match_def)
qed

lemma plan_edits_valid:
  assumes "heap_ok h" "length s \<le> 2 ^ 62"
  shows "reps_ok s rs \<Longrightarrow> (\<forall>x \<in> set rs. n \<le> mr_start (sr_range x)) \<Longrightarrow> validate_edits s (map (edit_of h) rs) n = Inr ()"
proof (induction rs arbitrary: n)
  case (Cons r rs)
  then have r: "rep_ok s r" "reps_ok s rs" "\<forall>x \<in> set rs. mr_end (sr_range r) \<le> mr_start (sr_range x)"
    by (auto simp: reps_ok_def apart_def)
  show ?case using Cons.IH [OF r(2,3)] Cons.prems(2) by (simp del: validate_edits.simps add: rep_ok_edit(2) [OF r(1) assms])
qed simp

lemma edit_of_ok:
  assumes "rep_ok s r" "utf8 s" "heap_ok h"
  shows "edit_ok (edit_of h r)" "strings_utf8 (edit_of h r)"
proof -
  have "utf8 (sr_removed r)" "utf8 (sr_replacement r)"
    using assms(1) slice_utf8(3) [OF assms(2), of "mr_start (sr_range r)" "mr_end (sr_range r)"]
    by (auto simp: rep_ok_def valid_match_def str_slice_def)
  then show "edit_ok (edit_of h r)" "strings_utf8 (edit_of h r)"
    using assms(3) by (simp_all add: strings_utf8_def edit_ok_def edit_of_def)
qed

lemma edited_take: "a \<le> length s \<Longrightarrow> edits_begin a es \<Longrightarrow> edited 0 es s = take a s @ edited a es (drop a s)"
  using edited_skip [of 0 a s es] by (simp add: slice_def)

text \<open>The edits of all replacements put every addressed line through the substitution.\<close>

lemma plan_edits_result:
  assumes "heap_ok h" "regex_ok r" "utf8 s" "length s \<le> 2 ^ 62" "is_char_boundary s a" "is_char_boundary s b" "a \<le> b"
    and ls: "line_ranges s a b = Some ls"
  shows "edited 0 (map (edit_of h) (all_replacements s cmd r ls)) s =
    take a s @ text_through (substituted cmd r) (slice a (b - a) s) @ drop b s"
proof -
  let ?E = "\<lambda>l. map (edit_of h) (line_replacements s cmd r l)"
  have E: "edits_through s ?E (substituted cmd r) l"
    if l: "fst l \<le> snd l" "is_char_boundary s (fst l)" "is_char_boundary s (snd l)" for l
  proof -
    let ?line = "slice (fst l) (snd l - fst l) s"
    have u: "utf8 ?line" using slice_utf8(3) [OF assms(3) l(2,3,1)] .
    have n: "fst l + length ?line = snd l" using l(1) char_boundary_le [OF l(3)] by (simp add: slice_def)
    show ?thesis
      using line_edits [OF assms(1) line_matches_good [OF assms(2) u], where i = 0 and a = "fst l" and ts = "sc_tokens cmd" and cmd1 = cmd] n
      by (simp add: edits_through_def line_replacements_def Let_def substituted_def)
  qed
  have ls': "within a b (concat (map ?E ls)) \<and>
      edited a (concat (map ?E ls)) (drop a s) = text_through (substituted cmd r) (slice a (b - a) s) @ drop b s"
  proof (rule line_ranges_ok [OF assms(3,5,6,7)], goal_cases)
    case (1 ls')
    then show ?case using 1(3) [of ?E "substituted cmd r"] E ls by simp
  qed
  have "map (edit_of h) (all_replacements s cmd r ls) = concat (map ?E ls)"
    by (simp add: all_replacements_def map_concat comp_def)
  then show ?thesis
    using ls' edited_take [of a s] char_boundary_le [OF assms(5)] within_begins [of a b _ a] by simp
qed

section \<open>Plans\<close>

definition planned ::
  "search_env \<Rightarrow> substitute_command \<Rightarrow> bytes \<Rightarrow> nat \<Rightarrow> nat \<Rightarrow> nat \<Rightarrow> regex \<Rightarrow> nat \<times> nat \<Rightarrow> (nat \<times> nat) list \<Rightarrow> substitute_plan \<Rightarrow> bool" where
  "planned v cmd s limit byte_limit n r t ls p \<longleftrightarrow>
     compile_with_case v (sc_pattern cmd) (sf_case_insensitive (sc_flags cmd)) = Inr r \<and>
     fst t \<le> snd t \<and> is_char_boundary s (fst t) \<and> is_char_boundary s (snd t) \<and> line_ranges s (fst t) (snd t) = Some ls \<and>
     n = length (all_replacements s cmd r ls) \<and>
     sp_replacements p = (if sf_count_only (sc_flags cmd) then [] else take limit (all_replacements s cmd r ls)) \<and>
     sp_total_matches p = min limit n \<and> sp_truncated p = (limit < n) \<and> weigh (sp_replacements p) \<le> byte_limit"

lemma plan_ok:
  assumes "search_engine_ok v" "utf8 s" "length s \<le> 2 ^ 62" "tokens_fit (sc_tokens cmd)" "byte_limit \<le> 2 ^ 62"
  shows "\<exists>res. plan_with_replacement_byte_limit v cmd s current visual limit byte_limit = Some res \<and>
    (\<forall>p. res = Inr p \<longrightarrow> (\<exists>t n r ls. target_range cmd s current visual = Inr t \<and> planned v cmd s limit byte_limit n r t ls p \<and> regex_ok r \<and>
       reps_ok s (sp_replacements p)))"
proof (cases "target_range cmd s current visual")
  case (Inl x)
  then show ?thesis by (simp add: plan_with_replacement_byte_limit_def bind_partial_def)
next
  case t: (Inr t)
  show ?thesis
  proof (cases "validate_text_range s (fst t) (snd t)")
    case (Inl x)
    then show ?thesis by (simp add: t plan_with_replacement_byte_limit_def bind_partial_def split_beta)
  next
    case (Inr u)
    then have v: "validate_text_range s (fst t) (snd t) = Inr ()" by simp
    then have b: "is_char_boundary s (fst t)" "is_char_boundary s (snd t)" "fst t \<le> snd t" by (auto simp: validate_text_range_def split: if_splits)
    show ?thesis
    proof (cases "compile_with_case v (sc_pattern cmd) (sf_case_insensitive (sc_flags cmd))")
      case (Inl x)
      then show ?thesis by (simp add: t v plan_with_replacement_byte_limit_def bind_partial_def split_beta)
    next
      case c: (Inr r)
      then have r: "regex_ok r"
        using assms(1) by (auto simp: search_engine_ok_def compile_with_case_def split: sum.splits)
      obtain ls where ls: "line_ranges s (fst t) (snd t) = Some ls" "lines_ok s (fst t) (snd t) ls" using line_ranges_ok [OF assms(2) b] by metis
      let ?all = "all_replacements s cmd r ls"
      have all: "reps_ok s ?all" using all_replacements_ok [OF r assms(4,2,3) ls(2)] .
      then have tk: "reps_ok s (take limit ?all)" by (auto simp: reps_ok_def list_all_iff take_map [symmetric] dest: in_set_takeD)
      let ?acc = "\<lparr>ra_planned_bytes = 0, ra_replacements = []\<rparr> :: replacement_accumulator"
      note pl = plan_lines_ok [OF assms(2,3) r assms(4,5) ls(2), of 0 limit ?acc]
      have unfold: "plan_with_replacement_byte_limit v cmd s current visual limit byte_limit =
        bind_partial (plan_lines s cmd r limit byte_limit ls 0 ?acc) (\<lambda>(truncated, matched, acc).
          bind_partial (Some (validate_replacement_order None (ra_replacements acc))) (\<lambda>_.
            Some (Inr \<lparr>sp_replacements = ra_replacements acc, sp_total_matches = matched, sp_truncated = truncated,
              sp_count_only = sf_count_only (sc_flags cmd), sp_requires_confirmation = sf_confirm (sc_flags cmd)\<rparr>)))"
        by (simp add: t v c ls(1) plan_with_replacement_byte_limit_def bind_partial_def split_beta)
      have order: "validate_replacement_order None (take limit ?all) = Inr ()" "validate_replacement_order None [] = Inr ()"
        using tk order_checked [of "take limit ?all" None] by (simp_all add: reps_ok_def)
      have n: "reps_ok s []" by (simp add: reps_ok_def)
      show ?thesis
        unfolding unfold using pl c b ls(1) order tk r n
        by (auto simp: charge_def bind_partial_def bind_result_def planned_def t)
    qed
  qed
qed

end
