(* ===== verification/Find_Laws.thy ===== *)
theory Find_Laws
  imports Find_Result
begin

text \<open>
  The walk from match to match, and the patterns and commands that reach the regex engine: \<open>n\<close> and \<open>N\<close> go round
  the matches, the pattern of \<open>*\<close> passes the translation unchanged, and printed commands parse back.
\<close>

section \<open>Going round the matches\<close>

lemma next_boundary:
  assumes "utf8 s" "is_char_boundary s i"
  shows "\<exists>t. next_scalar_boundary s i = Some t \<and> (\<forall>j. is_char_boundary s j \<longrightarrow> (t \<le> j \<longleftrightarrow> i < j))"
proof -
  obtain cs where cs: "scalars cs" "s = str_bytes cs" using assms(1) by (auto simp: utf8_scalars)
  obtain k where k: "k \<le> length cs" "i = offset cs k" using assms(2) unfolding cs(2) by (rule boundary_offset [OF cs(1)])
  have j: "(offset cs (Suc k) \<le> j \<longleftrightarrow> i < j)" if b: "is_char_boundary s j" and l: "k < length cs" for j
  proof -
    obtain m where "m \<le> length cs" "j = offset cs m" using b unfolding cs(2) by (rule boundary_offset [OF cs(1)])
    then show ?thesis using k l by (simp add: borrowed.pos_lt borrowed.pos_le Suc_le_eq)
  qed
  show ?thesis
  proof (cases "k < length cs")
    case True
    have "i < length s" using k cs offset_less [of k "length cs" cs] True by (simp add: offset_all)
    moreover have "str_character s i = Some (Some (cs ! k))"
      using str_character_offset [OF cs(1) k(1)] True by (simp add: cs(2) k(2) rd_def)
    ultimately show ?thesis using j True offset_Suc [OF True] by (simp add: next_scalar_boundary_def k(2))
  next
    case False
    then have "i = length s" using k cs by (simp add: offset_all)
    then show ?thesis using char_boundary_le [of s] by (fastforce simp: next_scalar_boundary_def)
  qed
qed

lemma previous_boundary:
  assumes "utf8 s" "is_char_boundary s i" "0 < i"
  shows "\<exists>t. previous_scalar_boundary s i = Some t \<and> (\<forall>j. is_char_boundary s j \<longrightarrow> (j \<le> t \<longleftrightarrow> j < i))"
proof -
  obtain cs where cs: "scalars cs" "s = str_bytes cs" using assms(1) by (auto simp: utf8_scalars)
  obtain k where k: "k \<le> length cs" "i = offset cs k" using assms(2) unfolding cs(2) by (rule boundary_offset [OF cs(1)])
  then have k0: "0 < k" using assms(3) by (cases k) simp_all
  have "(j \<le> offset cs (k - 1) \<longleftrightarrow> j < i)" if b: "is_char_boundary s j" for j
  proof -
    obtain m where "m \<le> length cs" "j = offset cs m" using b unfolding cs(2) by (rule boundary_offset [OF cs(1)])
    then show ?thesis using k k0 by (auto simp: borrowed.pos_lt borrowed.pos_le)
  qed
  then show ?thesis using str_previous_offset [OF cs(1) k(1)] assms(3) by (simp add: previous_scalar_boundary_def cs(2) k(2))
qed

definition matches_ok :: "bytes \<Rightarrow> match_range list \<Rightarrow> bool" where
  "matches_ok s ms \<longleftrightarrow> utf8 s \<and> list_all (valid_match s) ms \<and> sorted_wrt apart ms"

lemma matches_ok_valid: "matches_ok s (so_matches out) \<Longrightarrow> valid_matches out s = so_matches out"
  by (simp add: matches_ok_def valid_matches_def list_all_iff)

lemma find_all_ok: "regex_ok r \<Longrightarrow> utf8 s \<Longrightarrow> matches_ok s (so_matches (find_all r s limit))"
  by (auto simp: matches_ok_def regex_ok_def find_all_def list_all_iff dest: in_set_takeD)

lemma start_boundary: "matches_ok s ms \<Longrightarrow> m \<in> set ms \<Longrightarrow> is_char_boundary s (mr_start m)"
  by (auto simp: matches_ok_def list_all_iff valid_match_def)

lemma find_cong: "(\<And>x. x \<in> set xs \<Longrightarrow> P x = Q x) \<Longrightarrow> find P xs = find Q xs"
  by (induction xs) auto

text \<open>The zero-width case of the source comes to the same: boundaries past the current one, or before it.\<close>

lemma outcome_next_eq:
  assumes "matches_ok s (so_matches out)" "is_char_boundary s caret"
  shows "outcome_next out s caret =
    Some (or_else (find (\<lambda>m. caret < mr_start m) (so_matches out))
      (find (\<lambda>m. Some m \<noteq> find (\<lambda>m. mr_start m = caret) (so_matches out)) (so_matches out)))"
proof -
  have b: "\<And>m. m \<in> set (so_matches out) \<Longrightarrow> is_char_boundary s (mr_start m)" using start_boundary [OF assms(1)] .
  obtain t where t: "next_scalar_boundary s caret = Some t" "\<And>j. is_char_boundary s j \<Longrightarrow> t \<le> j \<longleftrightarrow> caret < j"
    using next_boundary [OF _ assms(2)] assms(1) by (auto simp: matches_ok_def)
  have f: "find (\<lambda>m. t \<le> mr_start m) (so_matches out) = find (\<lambda>m. caret < mr_start m) (so_matches out)"
    "find (\<lambda>m. Suc caret \<le> mr_start m) (so_matches out) = find (\<lambda>m. caret < mr_start m) (so_matches out)"
    using t(2) b by (auto intro: find_cong)
  have "min caret (length s) = caret" using char_boundary_le [OF assms(2)] by simp
  then show ?thesis using assms(2) t(1) f
    by (auto simp: outcome_next_def matches_ok_valid [OF assms(1)] Let_def split: option.split)
qed

lemma outcome_previous_eq:
  assumes "matches_ok s (so_matches out)" "is_char_boundary s caret"
  shows "outcome_previous out s caret =
    Some (or_else (find (\<lambda>m. mr_start m < caret) (rev (so_matches out)))
      (find (\<lambda>m. Some m \<noteq> find (\<lambda>m. mr_start m = caret) (so_matches out)) (rev (so_matches out))))"
proof (cases "caret = 0")
  case True
  have "find (\<lambda>m. False) xs = None" for xs :: "match_range list" by (induction xs) simp_all
  then show ?thesis using True assms(2) by (simp add: outcome_previous_def matches_ok_valid [OF assms(1)] Let_def or_else_def)
next
  case False
  have b: "\<And>m. m \<in> set (so_matches out) \<Longrightarrow> is_char_boundary s (mr_start m)" using start_boundary [OF assms(1)] .
  obtain t where t: "previous_scalar_boundary s caret = Some t" "\<And>j. is_char_boundary s j \<Longrightarrow> j \<le> t \<longleftrightarrow> j < caret"
    using previous_boundary [OF _ assms(2)] assms(1) False by (auto simp: matches_ok_def)
  have f: "find (\<lambda>m. mr_start m \<le> t) (rev (so_matches out)) = find (\<lambda>m. mr_start m < caret) (rev (so_matches out))"
    using t(2) b by (auto intro: find_cong)
  have "min caret (length s) = caret" using char_boundary_le [OF assms(2)] by simp
  then show ?thesis using assms(2) t(1) f False
    by (simp add: outcome_previous_def matches_ok_valid [OF assms(1)] Let_def)
qed

text \<open>The starts of the matches are strictly ascending, so a position finds its neighbours.\<close>

lemma starts_less: "matches_ok s ms \<Longrightarrow> i < length ms \<Longrightarrow> j < length ms \<Longrightarrow> mr_start (ms ! i) < mr_start (ms ! j) \<longleftrightarrow> i < j"
  unfolding matches_ok_def using sorted_wrt_nth_less [of apart ms] by (metis apart_def linorder_neqE_nat order_less_asym')

lemma starts_eq: "matches_ok s ms \<Longrightarrow> i < length ms \<Longrightarrow> j < length ms \<Longrightarrow> mr_start (ms ! i) = mr_start (ms ! j) \<longleftrightarrow> i = j"
  using starts_less by (metis less_irrefl linorder_neqE_nat)

lemma find_nth: "k < length xs \<Longrightarrow> P (xs ! k) \<Longrightarrow> (\<And>j. j < k \<Longrightarrow> \<not> P (xs ! j)) \<Longrightarrow> find P xs = Some (xs ! k)"
  by (auto simp: find_Some_iff)

lemma current_match: "matches_ok s ms \<Longrightarrow> i < length ms \<Longrightarrow> find (\<lambda>m. mr_start m = mr_start (ms ! i)) ms = Some (ms ! i)"
  by (rule find_nth) (auto simp: starts_eq)

lemma outcome_next_round:
  assumes "matches_ok s (so_matches out)" "i < length (so_matches out)" "1 < length (so_matches out)"
  shows "outcome_next out s (mr_start (so_matches out ! i)) = Some (Some (so_matches out ! (Suc i mod length (so_matches out))))"
proof -
  let ?ms = "so_matches out"
  have e: "outcome_next out s (mr_start (?ms ! i)) =
      Some (or_else (find (\<lambda>m. mr_start (?ms ! i) < mr_start m) ?ms) (find (\<lambda>m. Some m \<noteq> Some (?ms ! i)) ?ms))"
    using outcome_next_eq [OF assms(1)] start_boundary [OF assms(1)] current_match [OF assms(1,2)] assms(2) by simp
  show ?thesis
  proof (cases "Suc i < length ?ms")
    case True
    then have "find (\<lambda>m. mr_start (?ms ! i) < mr_start m) ?ms = Some (?ms ! Suc i)"
      using assms by (intro find_nth) (auto simp: starts_less)
    then show ?thesis using True by (simp add: e or_else_def)
  next
    case False
    then have i: "Suc i = length ?ms" using assms(2) by simp
    have "find (\<lambda>m. mr_start (?ms ! i) < mr_start m) ?ms = None"
      using assms i by (auto simp: find_None_iff in_set_conv_nth starts_less)
    moreover have "?ms ! 0 \<noteq> ?ms ! i" using starts_eq [OF assms(1), of 0 i] assms i by fastforce
    then have "find (\<lambda>m. Some m \<noteq> Some (?ms ! i)) ?ms = Some (?ms ! 0)" using assms(3) by (intro find_nth) auto
    ultimately show ?thesis by (simp add: e or_else_def i)
  qed
qed

lemma find_rev_nth:
  assumes "k < length xs" "P (xs ! k)" "\<And>j. k < j \<Longrightarrow> j < length xs \<Longrightarrow> \<not> P (xs ! j)"
  shows "find P (rev xs) = Some (xs ! k)"
proof -
  have "rev xs ! (length xs - Suc k) = xs ! k" using assms(1) by (simp add: rev_nth)
  moreover have "\<not> P (rev xs ! j)" if "j < length xs - Suc k" for j using that assms(1,3) by (simp add: rev_nth)
  ultimately show ?thesis using find_nth [of "length xs - Suc k" "rev xs" P] assms(1,2) by simp
qed

lemma outcome_previous_round:
  assumes "matches_ok s (so_matches out)" "i < length (so_matches out)" "1 < length (so_matches out)"
  shows "outcome_previous out s (mr_start (so_matches out ! (Suc i mod length (so_matches out)))) = Some (Some (so_matches out ! i))"
proof -
  let ?ms = "so_matches out"
  let ?k = "Suc i mod length ?ms"
  have k: "?k < length ?ms" using assms(3) by (metis mod_less_divisor less_trans zero_less_one)
  have e: "outcome_previous out s (mr_start (?ms ! ?k)) =
      Some (or_else (find (\<lambda>m. mr_start m < mr_start (?ms ! ?k)) (rev ?ms)) (find (\<lambda>m. Some m \<noteq> Some (?ms ! ?k)) (rev ?ms)))"
    using outcome_previous_eq [OF assms(1)] start_boundary [OF assms(1)] current_match [OF assms(1) k] k by simp
  show ?thesis
  proof (cases "Suc i < length ?ms")
    case True
    then have "find (\<lambda>m. mr_start m < mr_start (?ms ! ?k)) (rev ?ms) = Some (?ms ! i)"
      using assms by (intro find_rev_nth) (auto simp: starts_less)
    then show ?thesis by (simp add: e or_else_def)
  next
    case False
    then have l: "Suc i = length ?ms" using assms(2) by simp
    then have i: "Suc i = length ?ms" "?k = 0" by simp_all
    have "find (\<lambda>m. mr_start m < mr_start (?ms ! ?k)) (rev ?ms) = None"
      using assms i starts_less [OF assms(1), of _ 0] by (fastforce simp: find_None_iff in_set_conv_nth)
    moreover have "?ms ! i \<noteq> ?ms ! 0" using starts_eq [OF assms(1), of i 0] assms i by fastforce
    then have "find (\<lambda>m. Some m \<noteq> Some (?ms ! ?k)) (rev ?ms) = Some (?ms ! i)" unfolding i(2) using assms(2) i(1) by (intro find_rev_nth) auto
    ultimately show ?thesis by (simp add: e or_else_def)
  qed
qed

text \<open>Repeated \<open>n\<close>, with the caret put on each match that is found.\<close>

primrec search_walk :: "nat \<Rightarrow> regex \<Rightarrow> bytes \<Rightarrow> nat \<Rightarrow> nat \<Rightarrow> nat option" where
  "search_walk 0 r s limit caret = Some caret"
| "search_walk (Suc k) r s limit caret =
     (case search_next r s caret limit of
        Some (Some m) \<Rightarrow> search_walk k r s limit (caret_after_match s m)
      | _ \<Rightarrow> None)"

lemma search_walk_round:
  assumes "regex_ok r" "utf8 s" "ms = so_matches (find_all r s limit)" "1 < length ms"
  shows "i < length ms \<Longrightarrow> search_walk k r s limit (mr_start (ms ! i)) = Some (mr_start (ms ! ((i + k) mod length ms)))"
proof (induction k arbitrary: i)
  case (Suc k)
  let ?j = "Suc i mod length ms"
  have j: "?j < length ms" using assms(4) by (metis mod_less_divisor less_trans zero_less_one)
  have ms: "matches_ok s ms" using find_all_ok [OF assms(1,2)] assms(3) by simp
  have "search_next r s (mr_start (ms ! i)) limit = Some (Some (ms ! ?j))"
    using outcome_next_round [of s "find_all r s limit" i] ms Suc.prems assms(3,4) by (simp add: search_next_def)
  moreover have "caret_after_match s (ms ! ?j) = mr_start (ms ! ?j)"
    using start_boundary [OF ms nth_mem [OF j]] char_boundary_le by (simp add: caret_after_match_def)
  moreover have "(?j + k) mod length ms = (i + Suc k) mod length ms" by (simp add: mod_add_left_eq)
  ultimately show ?case using Suc.IH [OF j] by simp
qed simp

section \<open>The pattern of a word\<close>

text \<open>
  \<open>regex::escape\<close> puts a backslash before every meta character and nothing else; the documentation lists the
  meta characters.
\<close>

definition meta_characters :: "scalar list" where
  "meta_characters = map of_char [CHR 0x5c, CHR ''.'', CHR ''+'', CHR ''*'', CHR ''?'', CHR ''('', CHR '')'', CHR ''|'', CHR ''['', CHR '']'',
     CHR ''{'', CHR ''}'', CHR ''^'', CHR ''$'', CHR ''#'', CHR ''&'', CHR ''-'', CHR ''~'']"

definition escape_ok :: "search_env \<Rightarrow> bool" where
  "escape_ok v \<longleftrightarrow> (\<forall>w. regex_escape v w = concat (map (\<lambda>c. if c \<in> set meta_characters then [0x5c, c] else [c]) w))"

lemma translate_escaped:
  "translate (concat (map (\<lambda>c. if c \<in> set meta_characters then [0x5c, c] else [c]) w) @ rest) out =
     translate rest (out @ concat (map (\<lambda>c. if c \<in> set meta_characters then [0x5c, c] else [c]) w))"
proof (induction w arbitrary: out)
  case (Cons c w)
  let ?e = "concat (map (\<lambda>c. if c \<in> set meta_characters then [0x5c, c] else [c]) w)"
  show ?case
  proof (cases "c \<in> set meta_characters")
    case True
    then have "translate (0x5c # c # ?e @ rest) out = translate (?e @ rest) (out @ [0x5c, c])"
      by (subst translate.simps) (auto simp: meta_characters_def)
    then show ?thesis using True Cons.IH [of "out @ [0x5c, c]"] by simp
  next
    case False
    then have "c \<notin> {0x5c, 0x5b, 0x28}" by (auto simp: meta_characters_def)
    then have "translate (c # ?e @ rest) out = translate (?e @ rest) (out @ [c])" by (subst translate.simps) simp
    then show ?thesis using False Cons.IH [of "out @ [c]"] by simp
  qed
qed simp

lemma word_pattern_unchanged:
  assumes "escape_ok v"
  shows "analyze_pattern (literal_word_pattern v w) = Inr (literal_word_pattern v w)"
proof -
  let ?e = "concat (map (\<lambda>c. if c \<in> set meta_characters then [0x5c, c] else [c]) w)"
  have e: "regex_escape v w = ?e" using assms by (simp add: escape_ok_def)
  have "translate [0x5c, 0x62] out = Inr (out @ [0x5c, 0x62])" for out by (simp add: translate.simps)
  moreover have "translate (0x5c # 0x62 # cs) [] = translate cs [0x5c, 0x62]" for cs by (subst translate.simps) simp
  moreover have "translate [] out = Inr out" for out by (simp add: translate.simps)
  ultimately show ?thesis
    using translate_escaped [of w "[0x5c, 0x62]" "[0x5c, 0x62]"] translate_escaped [of w "[]" "[]"]
    by (simp add: analyze_pattern_def literal_word_pattern_def Let_def e)
qed

text \<open>
  Printing substitution commands: a pattern with its delimiters escaped, a list of tokens in the syntax of
  the command line, and that parsing gives them back.
\<close>

section \<open>Patterns\<close>

definition escape_field :: "str \<Rightarrow> str" where
  "escape_field p = concat (map (\<lambda>c. if c = 0x2f \<or> c = 0x5c then [0x5c, c] else [c]) p)"

lemma take_delimited_field: "take_delimited (escape_field p @ 0x2f # rest) field = Inr (field @ p, rest)"
  by (induction p arbitrary: field) (auto simp: escape_field_def)

section \<open>Replacements\<close>

text \<open>
  A token as it is typed, as the source of the tokens after the delimiter escapes are undone, and as it is
  displayed.
\<close>

primrec typed_token :: "replacement_token \<Rightarrow> str" where
  "typed_token (Literal l) = concat (map (\<lambda>c. if c = 0x2f \<or> c = 0x5c \<or> c = 0x26 then [0x5c, c] else [c]) l)"
| "typed_token WholeMatch = [0x26]"
| "typed_token (CaptureIndex n) = [0x5c, 0x30 + n]"
| "typed_token (NamedCapture x) = [0x24, 0x7b] @ x @ [0x7d]"

primrec token_source :: "replacement_token \<Rightarrow> str" where
  "token_source (Literal l) = concat (map (\<lambda>c. if c = 0x5c \<or> c = 0x26 then [0x5c, c] else [c]) l)"
| "token_source WholeMatch = [0x26]"
| "token_source (CaptureIndex n) = [0x5c, 0x30 + n]"
| "token_source (NamedCapture x) = [0x24, 0x7b] @ x @ [0x7d]"

primrec shown_token :: "replacement_token \<Rightarrow> str" where
  "shown_token (Literal l) = concat (map (\<lambda>c. if c = 0x26 then [0x5c, c] else [c]) l)"
| "shown_token WholeMatch = [0x26]"
| "shown_token (CaptureIndex n) = [0x5c, 0x30 + n]"
| "shown_token (NamedCapture x) = [0x24, 0x7b] @ x @ [0x7d]"

text \<open>
  Tokens that have a spelling: references to the groups 1 to 9, names without a closing brace, delimiter or
  backslash, and literals without a dollar sign, not empty and never two in a row.
\<close>

fun spellable :: "replacement_token list \<Rightarrow> bool" where
  "spellable [] \<longleftrightarrow> True"
| "spellable (Literal l # ts) \<longleftrightarrow> l \<noteq> [] \<and> 0x24 \<notin> set l \<and> (\<forall>m us. ts \<noteq> Literal m # us) \<and> spellable ts"
| "spellable (CaptureIndex n # ts) \<longleftrightarrow> 1 \<le> n \<and> n \<le> 9 \<and> spellable ts"
| "spellable (NamedCapture x # ts) \<longleftrightarrow> 0x7d \<notin> set x \<and> 0x2f \<notin> set x \<and> 0x5c \<notin> set x \<and> spellable ts"
| "spellable (WholeMatch # ts) \<longleftrightarrow> spellable ts"

lemma take_plain:
  "0x2f \<notin> set x \<Longrightarrow> 0x5c \<notin> set x \<Longrightarrow>
     take_replacement_delimited (x @ rest) d t = take_replacement_delimited rest (d @ x) (t @ x)"
  by (induction x arbitrary: d t) auto

lemma take_literal:
  "take_replacement_delimited (typed_token (Literal l) @ rest) d t =
     take_replacement_delimited rest (d @ shown_token (Literal l)) (t @ token_source (Literal l))"
  by (induction l arbitrary: d t) auto

lemma take_token:
  assumes "spellable (k # ks)"
  shows "take_replacement_delimited (typed_token k @ rest) d t =
    take_replacement_delimited rest (d @ shown_token k) (t @ token_source k)"
proof (cases k)
  case (Literal l)
  then show ?thesis using take_literal by simp
next
  case (NamedCapture x)
  then show ?thesis using assms take_plain [of "[0x24, 0x7b] @ x @ [0x7d]" rest d t] by simp
next
  case (CaptureIndex n)
  then have "n \<noteq> 44" "n \<noteq> 47" using assms by auto
  then show ?thesis using CaptureIndex by simp
qed simp

lemma spellable_tl: "spellable (k # ks) \<Longrightarrow> spellable ks"
  by (cases k) auto

lemma take_tokens:
  "spellable ks \<Longrightarrow> take_replacement_delimited (concat (map typed_token ks) @ rest) d t =
     take_replacement_delimited rest (d @ concat (map shown_token ks)) (t @ concat (map token_source ks))"
proof (induction ks arbitrary: d t)
  case (Cons k ks)
  then show ?case using take_token [OF Cons.prems, of "concat (map typed_token ks) @ rest"] spellable_tl by simp
qed simp

section \<open>Tokens\<close>

lemma tokenize_literal:
  "0x24 \<notin> set l \<Longrightarrow> tokenize_loop OneLiteralBackslash (token_source (Literal l) @ rest) ts pend =
     tokenize_loop OneLiteralBackslash rest ts (pend @ l)"
proof (induction l arbitrary: pend)
  case (Cons c l)
  let ?s = "token_source (Literal l) @ rest"
  have "tokenize_loop OneLiteralBackslash (token_source (Literal (c # l)) @ rest) ts pend = tokenize_loop OneLiteralBackslash ?s ts (pend @ [c])"
    using Cons.prems by (auto simp: tokenize_loop.simps [of _ "_ # _"] parse_backslash_def)
  then show ?case using Cons.IH [of "pend @ [c]"] Cons.prems by simp
qed simp

definition pending :: "str \<Rightarrow> replacement_token list" where
  "pending pend = (if pend = [] then [] else [Literal pend])"

definition settled_tokens :: "replacement_token list \<Rightarrow> bool" where
  "settled_tokens ts \<longleftrightarrow> (\<forall>l us. ts \<noteq> us @ [Literal l])"

lemma push_settled: "settled_tokens ts \<Longrightarrow> push_literal ts pend = ts @ pending pend"
  by (cases ts rule: rev_cases) (auto simp: settled_tokens_def push_literal_def pending_def split: replacement_token.splits)

lemma takeWhile_name: "0x7d \<notin> set x \<Longrightarrow> takeWhile (\<lambda>c. c \<noteq> 0x7d) (x @ 0x7d # rest) = x \<and> dropWhile (\<lambda>c. c \<noteq> 0x7d) (x @ 0x7d # rest) = 0x7d # rest"
  for x :: str
  by (induction x) auto

lemma tokenize_other:
  assumes "spellable (k # ks)" "\<And>l. k \<noteq> Literal l"
  shows "tokenize_loop OneLiteralBackslash (token_source k @ rest) ts pend = tokenize_loop OneLiteralBackslash rest (push_literal ts pend @ [k]) []"
  using assms takeWhile_name
  by (cases k) (auto simp: tokenize_loop.simps [of _ "_ # _"] parse_backslash_def parse_dollar_def is_ascii_digit_def Let_def)

lemma tokenize_tokens:
  "spellable ks \<Longrightarrow> settled_tokens ts \<Longrightarrow> (pend = [] \<or> (\<forall>m us. ks \<noteq> Literal m # us)) \<Longrightarrow>
     tokenize_loop OneLiteralBackslash (concat (map token_source ks)) ts pend = Inr (ts @ pending pend @ ks)"
proof (induction ks arbitrary: ts pend)
  case Nil
  then show ?case by (simp add: tokenize_loop.simps push_settled)
next
  case (Cons k ks)
  show ?case
  proof (cases "\<exists>l. k = Literal l")
    case True
    then obtain l where k: "k = Literal l" by blast
    then have "pend = []" "l \<noteq> []" using Cons.prems by auto
    then show ?thesis using Cons tokenize_literal [of l "concat (map token_source ks)" ts "[]"] by (simp add: k pending_def)
  next
    case False
    then have "settled_tokens ((ts @ pending pend) @ [k])" by (auto simp: settled_tokens_def)
    then show ?thesis
      using Cons.IH [of "(ts @ pending pend) @ [k]" "[]"] tokenize_other [OF Cons.prems(1)] False spellable_tl [OF Cons.prems(1)] push_settled [OF Cons.prems(2)]
      by (simp add: pending_def)
  qed
qed

section \<open>Commands\<close>

primrec print_range :: "substitute_range \<Rightarrow> str" where
  "print_range CurrentLine = [0x3a, 0x73]"
| "print_range WholeDocument = [0x3a, 0x25, 0x73]"
| "print_range VisualSelection = [0x3a, 0x27, 0x3c, 0x2c, 0x27, 0x3e, 0x73]"

definition print_flags :: "substitute_flags \<Rightarrow> str" where
  "print_flags f = (if sf_global f then [0x67] else []) @ (if sf_confirm f then [0x63] else []) @
     (if sf_case_insensitive f then [0x69] else []) @ (if sf_case_sensitive f then [0x49] else []) @ (if sf_count_only f then [0x6e] else [])"

definition print_command :: "substitute_range \<Rightarrow> str \<Rightarrow> replacement_token list \<Rightarrow> substitute_flags \<Rightarrow> str" where
  "print_command addressed p ks f =
     print_range addressed @ [0x2f] @ escape_field p @ [0x2f] @ concat (map typed_token ks) @ [0x2f] @ print_flags f"

lemma parse_flags_print: "validate_flags f = Inr f \<Longrightarrow> parse_flags (print_flags f) = Inr f"
  by (cases f) (auto simp: parse_flags_def print_flags_def default_flags_def bind_result_def set_flag_def)

lemma parse_range_print: "parse_range (print_range a @ 0x2f # rest) = Inr (a, 0x2f # rest)"
  by (cases a) (simp_all add: parse_range_def strip_prefix_def)

lemma parse_print_command:
  assumes "spellable ks" "validate_flags f = Inr f"
  shows "parse_substitute (print_command addressed p ks f) =
    Inr \<lparr>sc_range = addressed, sc_pattern = p, sc_replacement = concat (map shown_token ks), sc_flags = f, sc_tokens = ks\<rparr>"
proof -
  have "take_replacement_delimited (concat (map typed_token ks) @ 0x2f # print_flags f) [] [] =
      Inr (concat (map shown_token ks), ks, print_flags f)"
    using take_tokens [OF assms(1), of "0x2f # print_flags f" "[]" "[]"] tokenize_tokens [OF assms(1), of "[]" "[]"]
    by (simp add: tokenize_replacement_def bind_result_def settled_tokens_def pending_def)
  then show ?thesis
    using parse_range_print [of addressed] take_delimited_field [of p _ "[]"] parse_flags_print [OF assms(2)]
    by (simp add: parse_substitute_def print_command_def bind_result_def strip_prefix_def)
qed

end
