(* ===== verification/Find_Props.thy ===== *)
theory Find_Props
  imports Find_Laws Edit_Props
begin

text \<open>
  The properties of search and substitution: a planned substitution applied to its document gives exactly the
  substituted text, plans are bounded, printed commands parse back, and repeated search visits every match.
\<close>

section \<open>A sample\<close>

text \<open>The empty pattern, which matches at every character boundary.\<close>

definition sample_captures :: "nat \<Rightarrow> captures" where
  "sample_captures i = \<lparr>cp_get = (\<lambda>n. if n = 0 then Some \<lparr>mr_start = i, mr_end = i\<rparr> else None), cp_name = (\<lambda>_. None)\<rparr>"

definition sample_places :: "bytes \<Rightarrow> nat list" where
  "sample_places s = filter (is_char_boundary s) [0..<Suc (length s)]"

definition sample_regex :: regex where
  "sample_regex = \<lparr>find_iter = (\<lambda>s. map (\<lambda>i. \<lparr>mr_start = i, mr_end = i\<rparr>) (sample_places s)),
     captures_iter = (\<lambda>s. map sample_captures (sample_places s))\<rparr>"

definition sample_search :: search_env where
  "sample_search = \<lparr>regex_build = (\<lambda>_ _. Inr sample_regex),
     regex_escape = (\<lambda>w. concat (map (\<lambda>c. if c \<in> set meta_characters then [0x5c, c] else [c]) w)),
     alphanumeric = (\<lambda>c. 0x61 \<le> c \<and> c \<le> 0x7a)\<rparr>"

lemma sample_regex_ok: "regex_ok sample_regex"
proof -
  have "sorted_wrt (<) (sample_places s)" for s unfolding sample_places_def by (rule sorted_wrt_filter) (rule sorted_wrt_upt)
  then have "sorted_wrt (\<lambda>i j. i \<le> j \<and> i < j) (sample_places s)" for s by (rule sorted_wrt_mono_rel [rotated]) simp
  moreover have "set (sample_places s) = {i. is_char_boundary s i}" for s
    using char_boundary_le [of s] by (auto simp: sample_places_def less_Suc_eq_le simp del: upt_Suc)
  ultimately show ?thesis
    by (auto simp: regex_ok_def sample_regex_def sample_captures_def captures_ok_def valid_match_def list_all_iff
        sorted_wrt_map apart_def char_boundary_le comp_def split: if_splits)
qed

lemma sample_engine: "search_engine_ok sample_search"
  using sample_regex_ok by (simp add: search_engine_ok_def sample_search_def)

section \<open>Substitution\<close>

lemma plan_applies:
  assumes d: "doc_ok h ts B d" "heap_ok h" "length (td_text d) \<le> 2 ^ 62" "uh_next_serial (td_undo d) < usize_max"
    and p: "planned v cmd (td_text d) limit byte_limit n r (a, b) ls p" "regex_ok r" "reps_ok (td_text d) (sp_replacements p)"
  shows "\<exists>xs r' d'. to_text_edits h p (td_text d) = Some (Inr xs) \<and> apply_edits h xs d = Some (r', d') \<and>
    (\<forall>e. r' = Inl e \<longrightarrow> (\<exists>x. e = Refused x) \<and> d' = d) \<and>
    (\<forall>n. r' = Inr n \<longrightarrow> n = length (sp_replacements p) \<and> (\<not> sp_truncated p \<and> \<not> sf_count_only (sc_flags cmd) \<longrightarrow>
       td_text d' = take a (td_text d) @ text_through (substituted cmd r) (slice a (b - a) (td_text d)) @ drop b (td_text d)))"
proof -
  let ?s = "td_text d" and ?rs = "sp_replacements p" and ?xs = "map (edit_of h) (sp_replacements p)"
  have s: "utf8 ?s" using doc_ok_text [OF d(1)] by (simp add: text_ok_def)
  have rs: "list_all (rep_ok ?s) ?rs" using p(3) by (simp add: reps_ok_def)
  have valid: "validate_edits ?s ?xs 0 = Inr ()" using plan_edits_valid [OF d(2,3) p(3)] by simp
  have ok: "list_all edit_ok ?xs" "list_all strings_utf8 ?xs" using rs edit_of_ok [OF _ s d(2)] by (simp_all add: list_all_iff)
  obtain r' d' where a: "apply_edits h ?xs d = Some (r', d')" "edit_post h ts B False d (edited 0 ?xs ?s) (r', d')"
    using apply_edits_ok [OF d(1,2,4) ok] by (auto simp: ok_iff)
  have refused: "\<exists>x. e = Refused x" if "r' = Inl e" for e
    using a(1) valid that by (auto simp: apply_edits_def map_sum_def split: if_splits bind_splits sum.splits)
  have number: "n = length ?rs" if "r' = Inr n" for n
    using a(1) valid that by (auto simp: apply_edits_def map_sum_def split: if_splits bind_splits sum.splits)
  have exact: "td_text d' = take a ?s @ text_through (substituted cmd r) (slice a (b - a) ?s) @ drop b ?s"
    if "r' = Inr n" "\<not> sp_truncated p" "\<not> sf_count_only (sc_flags cmd)" for n
  proof -
    have "?rs = all_replacements ?s cmd r ls" using p(1) that(2,3) by (simp add: planned_def)
    then show ?thesis using plan_edits_result [OF d(2) p(2) s d(3), of a b ls cmd] p(1) a(2) that(1)
      by (simp add: planned_def edit_post_def accepted_def)
  qed
  have "to_text_edits h p ?s = Some (Inr ?xs)" using replacement_edits_ok [OF rs] by (simp add: to_text_edits_def)
  then show ?thesis using a refused number exact
    by (intro exI [of _ ?xs] exI [of _ r'] exI [of _ d']) (auto simp: edit_post_def)
qed

text \<open>
  C8. Planning a substitution never panics, whatever the command, the ranges the view supplies and the limits.  The edits of
  a plan are accepted by the document it was planned for, which refuses them only where the new text would exceed its
  bounds, never as stale, out of order or out of range; a refusal changes nothing.  When they are accepted and the
  plan was neither cut short nor only counting, the new text is the old one with every match of every addressed line
  (the first of each line without the flag g) replaced by its expansion, and nothing else changed.
\<close>

theorem substitution_exact:
  assumes "search_engine_ok v" "heap_ok h" "doc_inv h d" "length (td_text d) \<le> 2 ^ 62" "uh_next_serial (td_undo d) < usize_max"
    "tokens_fit (sc_tokens cmd)"
  shows "\<exists>res. plan v cmd (td_text d) current visual limit = Some res \<and>
    (\<forall>p. res = Inr p \<longrightarrow>
      (\<exists>r a b. compile_with_case v (sc_pattern cmd) (sf_case_insensitive (sc_flags cmd)) = Inr r \<and>
         target_range cmd (td_text d) current visual = Inr (a, b) \<and>
      (\<exists>xs r' d'. to_text_edits h p (td_text d) = Some (Inr xs) \<and> apply_edits h xs d = Some (r', d') \<and>
       (\<forall>e. r' = Inl e \<longrightarrow> (\<exists>x. e = Refused x) \<and> d' = d) \<and>
       (\<forall>n. r' = Inr n \<longrightarrow> n = length (sp_replacements p) \<and> (\<not> sp_truncated p \<and> \<not> sf_count_only (sc_flags cmd) \<longrightarrow>
          td_text d' = take a (td_text d) @ text_through (substituted cmd r) (slice a (b - a) (td_text d)) @ drop b (td_text d))))))"
proof -
  obtain ts B where d: "doc_ok h ts B d" using assms(3) by (auto simp: doc_inv_def)
  have s: "utf8 (td_text d)" using doc_ok_text [OF d] by (simp add: text_ok_def)
  have l: "DEFAULT_REPLACEMENT_BYTE_LIMIT \<le> 2 ^ 62" by (simp add: DEFAULT_REPLACEMENT_BYTE_LIMIT_def)
  obtain res where res: "plan v cmd (td_text d) current visual limit = Some res"
    "\<And>p. res = Inr p \<Longrightarrow> \<exists>t n r ls. target_range cmd (td_text d) current visual = Inr t \<and>
       planned v cmd (td_text d) limit DEFAULT_REPLACEMENT_BYTE_LIMIT n r t ls p \<and> regex_ok r \<and> reps_ok (td_text d) (sp_replacements p)"
    using plan_ok [OF assms(1) s assms(4,6) l, of current visual limit] unfolding plan_def by blast
  show ?thesis
  proof (intro exI [of _ res] conjI allI impI res(1))
    fix p
    assume "res = Inr p"
    then obtain a b n r ls where t: "target_range cmd (td_text d) current visual = Inr (a, b)"
        "planned v cmd (td_text d) limit DEFAULT_REPLACEMENT_BYTE_LIMIT n r (a, b) ls p" "regex_ok r" "reps_ok (td_text d) (sp_replacements p)"
      using res(2) by (metis surj_pair)
    moreover have "compile_with_case v (sc_pattern cmd) (sf_case_insensitive (sc_flags cmd)) = Inr r" using t(2) by (simp add: planned_def)
    ultimately show "\<exists>r a b. compile_with_case v (sc_pattern cmd) (sf_case_insensitive (sc_flags cmd)) = Inr r \<and>
         target_range cmd (td_text d) current visual = Inr (a, b) \<and>
      (\<exists>xs r' d'. to_text_edits h p (td_text d) = Some (Inr xs) \<and> apply_edits h xs d = Some (r', d') \<and>
       (\<forall>e. r' = Inl e \<longrightarrow> (\<exists>x. e = Refused x) \<and> d' = d) \<and>
       (\<forall>n. r' = Inr n \<longrightarrow> n = length (sp_replacements p) \<and> (\<not> sp_truncated p \<and> \<not> sf_count_only (sc_flags cmd) \<longrightarrow>
          td_text d' = take a (td_text d) @ text_through (substituted cmd r) (slice a (b - a) (td_text d)) @ drop b (td_text d))))"
      using plan_applies [OF d assms(2,4,5) t(2-4)] by blast
  qed
qed

definition sample_command :: substitute_command where
  "sample_command = \<lparr>sc_range = WholeDocument, sc_pattern = [], sc_replacement = [0x78], sc_flags = default_flags\<lparr>sf_global := True\<rparr>,
     sc_tokens = [Literal [0x78]]\<rparr>"

lemma sample_tokens: "tokens_fit (sc_tokens sample_command)"
  by (simp add: tokens_fit_def sample_command_def is_scalar_def encode_utf8_def)

lemma sample_target: "target_range sample_command (td_text sample_document) current visual = Inr (0, 2)"
  by (simp add: target_range_def sample_command_def sample_document_def)

theorem substitution_exact_witness:
  "\<exists>res. plan sample_search sample_command (td_text sample_document) (0, 0) None 100 = Some res \<and>
    (\<forall>p. res = Inr p \<longrightarrow> (\<exists>xs r' d'. to_text_edits sample_heap p (td_text sample_document) = Some (Inr xs) \<and>
       apply_edits sample_heap xs sample_document = Some (r', d')))"
  using substitution_exact [OF sample_engine sample_heap_ok sample_inv _ _ sample_tokens, of "(0, 0)" None 100]
  by (fastforce simp: sample_serial usize_max_def sample_document_def)

text \<open>
  C27. The plan of a substitution is bounded whatever the text holds: it counts at most as many matches as the caller
  allows and says that it was cut short exactly when there are more, its replacements together stay within four
  mebibytes, there is one for every counted match, and a plan that only counts replaces nothing.
\<close>

theorem substitution_plan_bounded:
  assumes "search_engine_ok v" "utf8 s" "length s \<le> 2 ^ 62" "tokens_fit (sc_tokens cmd)"
    "plan v cmd s current visual limit = Some (Inr p)"
  shows "sp_total_matches p \<le> limit \<and> (sp_truncated p \<longrightarrow> sp_total_matches p = limit) \<and>
    (\<exists>r a b ls. target_range cmd s current visual = Inr (a, b) \<and> line_ranges s a b = Some ls \<and>
       compile_with_case v (sc_pattern cmd) (sf_case_insensitive (sc_flags cmd)) = Inr r \<and>
       sp_truncated p = (limit < sum_list (map (\<lambda>l. length (line_matches cmd r (slice (fst l) (snd l - fst l) s))) ls))) \<and>
    sum_list (map (length \<circ> sr_replacement) (sp_replacements p)) \<le> 4 * 1024 * 1024 \<and>
    length (sp_replacements p) = (if sf_count_only (sc_flags cmd) then 0 else sp_total_matches p)"
proof -
  have l: "DEFAULT_REPLACEMENT_BYTE_LIMIT \<le> 2 ^ 62" by (simp add: DEFAULT_REPLACEMENT_BYTE_LIMIT_def)
  obtain a b n r ls where t: "target_range cmd s current visual = Inr (a, b)"
      "planned v cmd s limit DEFAULT_REPLACEMENT_BYTE_LIMIT n r (a, b) ls p"
    using plan_ok [OF assms(1-4) l, of current visual limit] assms(5) unfolding plan_def by auto
  have "n = sum_list (map (\<lambda>l. length (line_matches cmd r (slice (fst l) (snd l - fst l) s))) ls)"
    using t(2) by (simp add: planned_def all_replacements_def length_concat line_replacements_def Let_def comp_def)
  then show ?thesis using t by (auto simp: planned_def weigh_def DEFAULT_REPLACEMENT_BYTE_LIMIT_def)
qed

text \<open>Two places match in the line, and the limit of one cuts the plan short.\<close>

definition sample_global :: substitute_command where
  "sample_global = \<lparr>sc_range = CurrentLine, sc_pattern = [], sc_replacement = [0xe9], sc_flags = default_flags\<lparr>sf_global := True\<rparr>,
     sc_tokens = [Literal [0xe9]]\<rparr>"

lemma sample_planned:
  "plan sample_search sample_global [0x61, 0x0a] (0, 1) None 1 =
    Some (Inr \<lparr>sp_replacements = [\<lparr>sr_range = \<lparr>mr_start = 0, mr_end = 0\<rparr>, sr_removed = [], sr_replacement = [0xc3, 0xa9]\<rparr>], sp_total_matches = 1,
      sp_truncated = True, sp_count_only = False, sp_requires_confirmation = False\<rparr>)"
  by (simp add: plan_def plan_with_replacement_byte_limit_def bind_partial_def target_range_def sample_global_def validate_text_range_def
      compile_with_case_def analyze_pattern_def translate.simps sample_search_def line_ranges_def line_ranges_from.simps str_slice_def
      default_flags_def line_matches_def first_of_def sample_regex_def sample_places_def slice_def is_char_boundary_def cont_def
      sample_captures_def push_match_def checked_add_def usize_max_def encode_utf8_def DEFAULT_REPLACEMENT_BYTE_LIMIT_def bind_result_def u8_of_nat_def)

theorem substitution_plan_bounded_witness:
  "\<exists>p. plan sample_search sample_global [0x61, 0x0a] (0, 1) None 1 = Some (Inr p) \<and> sp_truncated p \<and> sp_total_matches p = 1 \<and>
    length (sp_replacements p) = 1 \<and> sum_list (map (length \<circ> sr_replacement) (sp_replacements p)) = 2 \<and>
    (\<exists>r a b ls. target_range sample_global [0x61, 0x0a] (0, 1) None = Inr (a, b) \<and> line_ranges [0x61, 0x0a] a b = Some ls \<and>
       compile_with_case sample_search [] False = Inr r \<and>
       1 < sum_list (map (\<lambda>l. length (line_matches sample_global r (slice (fst l) (snd l - fst l) [0x61, 0x0a]))) ls))"
proof -
  have t: "tokens_fit (sc_tokens sample_global)" by (simp add: sample_global_def tokens_fit_def is_scalar_def encode_utf8_def)
  have s: "utf8 [0x61, 0x0a]" "length [0x61, 0x0a :: u8] \<le> 2 ^ 62" by (simp_all add: utf8_ascii)
  have c: "sc_pattern sample_global = []" "sf_case_insensitive (sc_flags sample_global) = False" "sf_count_only (sc_flags sample_global) = False"
    by (simp_all add: sample_global_def default_flags_def)
  obtain p where p: "plan sample_search sample_global [0x61, 0x0a] (0, 1) None 1 = Some (Inr p)" "sp_truncated p"
      "sum_list (map (length \<circ> sr_replacement) (sp_replacements p)) = 2"
    by (rule that [OF sample_planned]) (simp_all add: comp_def)
  note b = substitution_plan_bounded [OF sample_engine s t p(1), unfolded c]
  then have "sp_total_matches p = 1" "length (sp_replacements p) = 1" using p(2) by simp_all
  then show ?thesis using p b by blast
qed

text \<open>
  C16. Substitution commands survive printing: for every range, every pattern, every list of replacement tokens that has a
  spelling and every flag set without a contradiction, the command line with the delimiters and backslashes escaped
  parses to exactly that range, pattern, token list and flags.
\<close>

theorem substitute_command_roundtrip:
  assumes "spellable ks" "validate_flags f = Inr f"
  shows "parse_substitute (print_command addressed p ks f) =
    Inr \<lparr>sc_range = addressed, sc_pattern = p, sc_replacement = concat (map shown_token ks), sc_flags = f, sc_tokens = ks\<rparr>"
  using assms by (rule parse_print_command)

theorem substitute_command_roundtrip_witness:
  "parse_substitute [0x3a, 0x25, 0x73, 0x2f, 0x5c, 0x2f, 0x2f, 0x5c, 0x31, 0x5c, 0x26, 0x2f, 0x67] =
     Inr \<lparr>sc_range = WholeDocument, sc_pattern = [0x2f], sc_replacement = [0x5c, 0x31, 0x5c, 0x26], sc_flags = default_flags\<lparr>sf_global := True\<rparr>,
       sc_tokens = [CaptureIndex 1, Literal [0x26]]\<rparr>"
  using substitute_command_roundtrip [of "[CaptureIndex 1, Literal [0x26]]" "default_flags\<lparr>sf_global := True\<rparr>" WholeDocument "[0x2f]"]
  by (simp add: print_command_def escape_field_def print_flags_def default_flags_def validate_flags_def)

section \<open>Search\<close>

text \<open>
  C14. Searching on makes progress and reaches everything: with the caret on one of several collected matches, the next
  search finds the match behind it, from the last one the first, the previous search takes each of these steps back, and
  repeating the search reaches every match, in fewer steps than there are matches.  Empty matches do not hold it up.
\<close>

theorem search_visits_every_match:
  assumes "regex_ok r" "utf8 s" "ms = so_matches (find_all r s limit)" "1 < length ms" "i < length ms"
  shows "search_next r s (mr_start (ms ! i)) limit = Some (Some (ms ! (Suc i mod length ms))) \<and>
    search_previous r s (mr_start (ms ! (Suc i mod length ms))) limit = Some (Some (ms ! i)) \<and>
    (\<forall>j < length ms. \<exists>k < length ms. search_walk k r s limit (mr_start (ms ! i)) = Some (mr_start (ms ! j)))"
proof -
  have ms: "matches_ok s (so_matches (find_all r s limit))" by (rule find_all_ok [OF assms(1,2)])
  have k: "\<exists>k < length ms. (i + k) mod length ms = j" if "j < length ms" for j
    using that assms(5) by (intro exI [of _ "(if i \<le> j then j - i else length ms + j - i)"]) auto
  have "\<exists>k < length ms. search_walk k r s limit (mr_start (ms ! i)) = Some (mr_start (ms ! j))" if "j < length ms" for j
    using k [OF that] search_walk_round [OF assms(1-4,5)] by metis
  moreover have "search_next r s (mr_start (ms ! i)) limit = Some (Some (ms ! (Suc i mod length ms)))"
    using outcome_next_round [OF ms] assms(3-5) by (simp add: search_next_def)
  moreover have "search_previous r s (mr_start (ms ! (Suc i mod length ms))) limit = Some (Some (ms ! i))"
    using outcome_previous_round [OF ms] assms(3-5) by (simp add: search_previous_def)
  ultimately show ?thesis by blast
qed

lemma sample_matches: "so_matches (find_all sample_regex [0x61, 0x62] 10) = map (\<lambda>i. \<lparr>mr_start = i, mr_end = i\<rparr>) [0, 1, 2]"
  by (simp add: find_all_def sample_regex_def sample_places_def is_char_boundary_def cont_def)

theorem search_visits_every_match_witness:
  "search_next sample_regex [0x61, 0x62] 2 10 = Some (Some \<lparr>mr_start = 0, mr_end = 0\<rparr>) \<and>
   search_previous sample_regex [0x61, 0x62] 0 10 = Some (Some \<lparr>mr_start = 2, mr_end = 2\<rparr>)"
  using search_visits_every_match [OF sample_regex_ok _ sample_matches [symmetric], of 2] by (simp add: utf8_ascii)

end
