(* ===== verification/View_Frame.thy ===== *)
theory View_Frame
  imports View_Command Vi_Session Find_Props
begin

text \<open>
  The frames of a view on a document: what each command and the frame around it keep of the session, of the caret and
  of the collected matches.
\<close>

section \<open>The tokens of a typed replacement\<close>

definition literals :: "replacement_token list \<Rightarrow> str" where
  "literals ts = concat (map (\<lambda>t. case t of Literal l \<Rightarrow> l | _ \<Rightarrow> []) ts)"

lemma literals_simps [simp]:
  "literals [] = []" "literals (Literal l # ts) = l @ literals ts" "literals (ts @ us) = literals ts @ literals us"
  "literals (WholeMatch # ts) = literals ts" "literals (CaptureIndex n # ts) = literals ts" "literals (NamedCapture m # ts) = literals ts"
  by (simp_all add: literals_def)

lemma literals_push [simp]: "literals (push_literal ts l) = literals ts @ l"
proof (cases "rev ts")
  case Nil
  then show ?thesis by (simp add: push_literal_def)
next
  case (Cons t us)
  then have "ts = rev us @ [t]" by (metis rev.simps(2) rev_rev_ident)
  then show ?thesis by (cases t) (simp_all add: push_literal_def)
qed

lemma literal_part: "Literal l \<in> set ts \<Longrightarrow> scalars (literals ts) \<Longrightarrow> scalars l \<and> length l \<le> length (literals ts)"
  by (induction ts) (auto simp: literals_def split: replacement_token.splits)

lemma parse_backslash_literals:
  "parse_backslash mode cs ts l = Inr (rest, us, k) \<Longrightarrow> scalars cs \<Longrightarrow> scalars (literals ts @ l) \<Longrightarrow>
    scalars rest \<and> scalars (literals us @ k) \<and> length (literals us @ k) + length rest \<le> length (literals ts @ l) + Suc (length cs)"
  by (auto simp: parse_backslash_def is_scalar_def split: list.splits if_splits backslash_pair.splits)

lemma scalars_while: "scalars cs \<Longrightarrow> scalars (dropWhile P cs)" "scalars cs \<Longrightarrow> scalars (tl cs)"
  by (auto simp: scalars_def list_all_iff dest: set_dropWhileD list.set_sel(2) [rotated]) (metis list.sel(2) list.set_sel(2))

lemma parse_dollar_literals:
  "parse_dollar cs ts l = Inr (rest, us, k) \<Longrightarrow> scalars cs \<Longrightarrow> scalars (literals ts @ l) \<Longrightarrow>
    scalars rest \<and> scalars (literals us @ k) \<and> length (literals us @ k) + length rest \<le> length (literals ts @ l) + Suc (length cs)"
  using length_dropWhile_le [of is_ascii_digit cs] length_dropWhile_le [of "\<lambda>c. c \<noteq> 0x7d" "tl cs"]
  by (auto simp: parse_dollar_def is_scalar_def Let_def scalars_while split: list.splits if_splits)

lemma tokenize_loop_literals:
  "tokenize_loop mode cs ts l = Inr us \<Longrightarrow> scalars cs \<Longrightarrow> scalars (literals ts @ l) \<Longrightarrow>
    scalars (literals us) \<and> length (literals us) \<le> length (literals ts @ l) + length cs"
proof (induction mode cs ts l rule: tokenize_loop.induct)
  case (1 mode cs ts l)
  show ?case
  proof (cases cs)
    case Nil
    then show ?thesis using "1.prems" by (auto simp: tokenize_loop.simps [of mode "[]"])
  next
    case (Cons ch rest)
    then have r: "scalars rest" "is_scalar ch" using "1.prems"(2) by simp_all
    consider "ch = 0x5c" | "ch = 0x26" | "ch = 0x24" | "ch \<notin> {0x5c, 0x26, 0x24}" by auto
    then show ?thesis
    proof cases
      case c: 1
      then obtain cs' ts' l' where s: "parse_backslash mode rest ts l = Inr (cs', ts', l')" "tokenize_loop mode cs' ts' l' = Inr us"
        using "1.prems"(1) unfolding Cons by (auto simp: tokenize_loop.simps [of mode "_ # _"] split: sum.splits)
      note k = parse_backslash_literals [OF s(1) r(1) "1.prems"(3)]
      have "scalars (literals us) \<and> length (literals us) \<le> length (literals ts' @ l') + length cs'"
        using "1.IH"(1) [OF Cons c s(1) refl refl s(2)] k by blast
      then show ?thesis using k Cons by simp
    next
      case c: 2
      then have "tokenize_loop mode rest (push_literal ts l @ [WholeMatch]) [] = Inr us"
        using "1.prems"(1) unfolding Cons by (simp add: tokenize_loop.simps [of mode "_ # _"])
      then show ?thesis using "1.IH"(2) [OF Cons _ c] c r "1.prems"(3) Cons by simp
    next
      case c: 3
      then obtain cs' ts' l' where s: "parse_dollar rest ts l = Inr (cs', ts', l')" "tokenize_loop mode cs' ts' l' = Inr us"
        using "1.prems"(1) unfolding Cons by (auto simp: tokenize_loop.simps [of mode "_ # _"] split: sum.splits)
      note k = parse_dollar_literals [OF s(1) r(1) "1.prems"(3)]
      have "scalars (literals us) \<and> length (literals us) \<le> length (literals ts' @ l') + length cs'"
        using "1.IH"(3) [OF Cons _ _ c s(1) refl refl s(2)] c k by simp
      then show ?thesis using k Cons by simp
    next
      case c: 4
      then have "tokenize_loop mode rest ts (l @ [ch]) = Inr us" using "1.prems"(1) unfolding Cons by (simp add: tokenize_loop.simps [of mode "_ # _"])
      then show ?thesis using "1.IH"(4) [OF Cons] c r "1.prems"(3) Cons by simp
    qed
  qed
qed

lemma bytes_length: "length (str_bytes l) \<le> 4 * length l"
  by (induction l) (auto simp: len_encode len_utf8_def)

lemma tokenize_fit:
  assumes "tokenize_replacement cs mode = Inr ts" "scalars cs" "length cs \<le> 2 ^ 60"
  shows "tokens_fit ts"
proof -
  have t: "scalars (literals ts)" "length (literals ts) \<le> 2 ^ 60"
    using tokenize_loop_literals [of mode cs "[]" "[]" ts] assms by (simp_all add: tokenize_replacement_def)
  have "scalars l \<and> length (str_bytes l) \<le> 2 ^ 62" if "Literal l \<in> set ts" for l
    using literal_part [OF that t(1)] t(2) bytes_length [of l] by auto
  then show ?thesis by (simp add: tokens_fit_def)
qed

lemma take_replacement_source:
  "take_replacement_delimited cs display source = Inr (shown, ts, rest) \<Longrightarrow> scalars cs \<Longrightarrow> scalars source \<Longrightarrow>
    \<exists>cs'. tokenize_replacement cs' OneLiteralBackslash = Inr ts \<and> scalars cs' \<and> length cs' \<le> length cs + length source"
proof (induction cs display source rule: take_replacement_delimited.induct)
  case (2 ch cs display source)
  show ?case
  proof (cases "ch = 0x2f")
    case True
    then have "tokenize_replacement source OneLiteralBackslash = Inr ts"
      using "2.prems"(1) by (auto simp: bind_result_def split: sum.splits)
    then show ?thesis using "2.prems" by (intro exI [of _ source]) simp
  next
    case False
    have bs: "is_scalar 0x5c" "is_scalar 0x2f" by (simp_all add: is_scalar_def)
    show ?thesis
    proof (cases "ch = 0x5c")
      case False
      then show ?thesis using "2.IH"(5) \<open>ch \<noteq> 0x2f\<close> "2.prems" by auto
    next
      case True
      show ?thesis
      proof (cases cs)
        case Nil
        then show ?thesis using "2.IH"(1) True \<open>ch \<noteq> 0x2f\<close> "2.prems" bs by simp
      next
        case (Cons x xs)
        consider "x = 0x2f" | "x = 0x5c" | "x \<noteq> 0x2f" "x \<noteq> 0x5c" by blast
        then show ?thesis
        proof cases
          case 1
          then show ?thesis using "2.IH"(2) [OF \<open>ch \<noteq> 0x2f\<close> True Cons] True Cons "2.prems" bs by fastforce
        next
          case x: 2
          then show ?thesis using "2.IH"(3) [OF \<open>ch \<noteq> 0x2f\<close> True Cons] True Cons "2.prems" bs by fastforce
        next
          case 3
          then show ?thesis using "2.IH"(4) [OF \<open>ch \<noteq> 0x2f\<close> True Cons] True Cons "2.prems" bs by fastforce
        qed
      qed
    qed
  qed
qed simp

lemma take_delimited_scalars:
  "take_delimited cs field = Inr (p, rest) \<Longrightarrow> scalars cs \<Longrightarrow> scalars rest \<and> length rest \<le> length cs"
proof (induction cs field rule: take_delimited.induct)
  case (2 ch cs field)
  note step = "2.prems"(1) [unfolded take_delimited.simps(2)]
  have "scalars cs" using "2.prems"(2) by simp
  then show ?case using step "2.IH"
    by (auto simp del: take_delimited.simps split: if_splits list.splits)
qed simp

text \<open>The line the user typed: characters, and no more than a quarter of the address space of them.\<close>

definition line_fits :: "str \<Rightarrow> bool" where
  "line_fits line \<longleftrightarrow> scalars line \<and> length line < 2 ^ 60"

lemma strip_prefix_scalars: "strip_prefix p cs = Some rest \<Longrightarrow> scalars cs \<Longrightarrow> scalars rest \<and> length rest \<le> length cs"
  by (auto simp: strip_prefix_def split: if_splits)

lemma parse_substitute_fit:
  assumes "parse_substitute cs = Inr cmd" "scalars cs" "length cs \<le> 2 ^ 60"
  shows "tokens_fit (sc_tokens cmd)"
proof -
  obtain a rest rest' p cs' shown ts fl f where s: "parse_range cs = Inr (a, rest)" "strip_prefix [0x2f] rest = Some rest'"
      "take_delimited rest' [] = Inr (p, cs')" "take_replacement_delimited cs' [] [] = Inr (shown, ts, fl)" "sc_tokens cmd = ts"
    using assms(1) by (auto simp: parse_substitute_def bind_result_def split: sum.splits option.splits)
  have "scalars rest \<and> length rest \<le> length cs"
    using s(1) assms(2) by (auto simp: parse_range_def split: option.splits if_splits dest: strip_prefix_scalars)
  then have "scalars cs' \<and> length cs' \<le> length cs"
    using strip_prefix_scalars [OF s(2)] take_delimited_scalars [OF s(3)] by force
  then show ?thesis using take_replacement_source [OF s(4)] s(5) assms(3) tokenize_fit by fastforce
qed

lemma trim_scalars: "scalars cs \<Longrightarrow> scalars (trim cs) \<and> length (trim cs) \<le> length cs"
  using length_dropWhile_le [of is_whitespace cs] length_dropWhile_le [of is_whitespace "rev (dropWhile is_whitespace cs)"]
  by (simp add: trim_def scalars_while)

lemma parse_line_fit: "parse_line line = Inr (Substitute cmd) \<Longrightarrow> line_fits line \<Longrightarrow> tokens_fit (sc_tokens cmd)"
proof -
  assume a: "parse_line line = Inr (Substitute cmd)" "line_fits line"
  then have "parse_substitute (0x3a # trim line) = Inr cmd"
    by (auto simp: parse_line_def parse_named_def reject_argument_def Let_def map_sum_def split: if_splits sum.splits prod.splits)
  then show ?thesis
    using parse_substitute_fit trim_scalars [of line] a(2) by (force simp: line_fits_def is_scalar_def)
qed

section \<open>Places\<close>

text \<open>The caret, the caret still to be handed over and the collected matches lie on character boundaries of the text.\<close>

definition on_boundary :: "bytes \<Rightarrow> nat \<Rightarrow> bool" where
  "on_boundary s i \<longleftrightarrow> is_char_boundary s (min i (length s))"

definition places_ok :: "vi_view \<Rightarrow> bool" where
  "places_ok w \<longleftrightarrow> on_boundary (vw_buffer w) (vw_caret_offset w) \<and>
     (\<forall>i. vw_vi_caret w = Some i \<longrightarrow> on_boundary (vw_buffer w) i) \<and>
     list_all (valid_match (vw_buffer w)) (find_matches (vw_find w))"

lemma match_on_boundary: "valid_match s m \<Longrightarrow> on_boundary s (mr_start m)"
  by (simp add: valid_match_def on_boundary_def)

lemma find_refresh_matches:
  assumes "search_engine_ok v" "utf8 s" "list_all (valid_match s) (find_matches f)"
  shows "list_all (valid_match s) (find_matches (find_refresh v s revision f))"
proof -
  have "regex_ok r" if "compile v (fi_query f) = Inr r" for r
    using assms(1) that by (auto simp: search_engine_ok_def compile_def compile_with_case_def split: sum.splits)
  then have "list_all (valid_match s) (so_matches (find_all r s MATCH_LIMIT))" if "compile v (fi_query f) = Inr r" for r
    using find_all_ok [OF _ assms(2)] that by (auto simp: matches_ok_def)
  then show ?thesis using assms(3) by (auto simp: find_refresh_def find_matches_def Let_def split: sum.splits)
qed

text \<open>What the searches of a view leave alone: the engine, the text, and the reports of refused edits.\<close>

definition looks :: "vi_view \<Rightarrow> vi_view \<Rightarrow> bool" where
  "looks w w' \<longleftrightarrow> vw_vi w' = vw_vi w \<and> vw_buffer w' = vw_buffer w \<and> vw_pending_command w' = vw_pending_command w \<and>
     (\<forall>x. ca_result (vw_command w') = Some (Edit_Failed x) \<longrightarrow> ca_result (vw_command w) = Some (Edit_Failed x))"

lemma looks_refl [simp]: "looks w w"
  by (simp add: looks_def)

lemma looks_trans: "looks u w \<Longrightarrow> looks w x \<Longrightarrow> looks u x"
  by (simp add: looks_def)

lemma looks_session: "looks w w' \<Longrightarrow> session_ok v d w \<Longrightarrow> session_ok v d w'"
  by (auto simp: looks_def session_ok_def edits_fail_by_bounds_def split: option.splits command_outcome.splits)

lemma looks_simps [simp]:
  "looks w (command_report (Summary x) w)" "looks w (finish (Summary x) w)" "looks w (finish (Message m) w)"
  "looks w (finish (Replacements n) w)" "looks w (finish (At_Line n) w)" "looks w (finish (Command_Failed e) w)"
  "looks w (finish (Substitution_Error y) w)"
  by (simp_all add: looks_def command_report_def area_report_def finish_def area_finish_def)

lemma places_frame:
  "vw_buffer w' = vw_buffer w \<Longrightarrow> vw_caret_offset w' = vw_caret_offset w \<Longrightarrow> vw_vi_caret w' = vw_vi_caret w \<Longrightarrow>
    vw_find w' = vw_find w \<Longrightarrow> places_ok w' = places_ok w"
  by (simp add: places_ok_def)

lemma finish_places [simp]: "places_ok (finish x w) = places_ok w" "places_ok (command_report x w) = places_ok w"
  by (rule places_frame; simp add: finish_def command_report_def)+

lemma step_match_ok:
  assumes "places_ok w"
  shows "places_ok (step_match k w) \<and> looks w (step_match k w)"
proof (cases "find_matches (vw_find w) = []")
  case True
  then show ?thesis using assms by (simp add: step_match_def)
next
  case False
  have "on_boundary (vw_buffer w) (mr_start m)" if "rd (find_matches (vw_find w)) i = Some m" for i m
    using assms that by (auto simp: places_ok_def list_all_length rd_def intro!: match_on_boundary split: if_splits)
  then show ?thesis using assms False
    by (auto simp: step_match_def Let_def places_ok_def looks_def command_report_def area_report_def find_matches_def split: option.splits)
qed

lemma select_match_ok:
  assumes "places_ok w"
  shows "places_ok (select_match_from_caret w) \<and> looks w (select_match_from_caret w)"
proof -
  have "places_ok (w\<lparr>vw_find := (vw_find w)\<lparr>fi_current := i\<rparr>\<rparr>) \<and> looks w (w\<lparr>vw_find := (vw_find w)\<lparr>fi_current := i\<rparr>\<rparr>)" for i
    using assms by (simp add: places_ok_def looks_def find_matches_def)
  then have "places_ok (step_match 0 (w\<lparr>vw_find := (vw_find w)\<lparr>fi_current := i\<rparr>\<rparr>)) \<and> looks w (step_match 0 (w\<lparr>vw_find := (vw_find w)\<lparr>fi_current := i\<rparr>\<rparr>))" for i
    using step_match_ok looks_trans by blast
  then show ?thesis using step_match_ok [OF assms, of 0]
    unfolding select_match_from_caret_def Let_def by (simp split: option.split)
qed

lemma refresh_view_ok:
  assumes "search_engine_ok sv" "places_ok w" "utf8 (vw_buffer w)"
  shows "places_ok (refresh_view sv doc w) \<and> looks w (refresh_view sv doc w)"
  using assms find_refresh_matches [OF assms(1,3), of "vw_find w"] by (simp add: places_ok_def looks_def refresh_view_def)

lemma preview_search_ok:
  assumes "search_engine_ok sv" "places_ok w" "utf8 (vw_buffer w)"
  shows "places_ok (preview_search sv doc w) \<and> looks w (preview_search sv doc w)"
proof -
  let ?w = "w\<lparr>vw_find := (vw_find w)\<lparr>fi_query := ca_input (vw_command w)\<rparr>\<rparr>"
  have "places_ok ?w" "looks w ?w" using assms(2) by (simp_all add: places_ok_def looks_def find_matches_def)
  then show ?thesis using refresh_view_ok [OF assms(1), of ?w doc] assms(2,3) looks_trans
    by (auto simp: preview_search_def Let_def split: option.split)
qed

section \<open>Lines\<close>

lemma line_starts_boundary:
  assumes "utf8 s" "i \<in> set (line_starts s)"
  shows "is_char_boundary s i"
proof (cases "i = 0")
  case False
  then obtain k where k: "i = Suc k" "k < length s" "s ! k = 0x0a" "i < length s" using assms(2) by (auto simp: line_starts_def)
  have "is_char_boundary s k" using k by (simp add: is_char_boundary_def cont_def)
  then have "utf8 (drop k s)" using boundary_splits [OF assms(1)] by blast
  moreover have "drop k s = 0x0a # drop i s" using k Cons_nth_drop_Suc [of k s] by simp
  ultimately have "utf8 (drop i s)" using utf8_ascii [of "0x0a" "drop i s"] by simp
  then show ?thesis using k(4) by (intro utf8_drop_boundary) simp_all
qed simp

lemma go_to_line_ok:
  assumes "places_ok w" "utf8 (vw_buffer w)"
  shows "places_ok (view_go_to_line l w) \<and> looks w (view_go_to_line l w)"
proof -
  have "on_boundary (vw_buffer w) (case rd (line_starts (vw_buffer w)) k of None \<Rightarrow> 0 | Some i \<Rightarrow> i)" for k
    using line_starts_boundary [OF assms(2)] char_boundary_le
    by (auto simp: on_boundary_def rd_def min_def split: option.split)
  then show ?thesis using assms(1) by (auto simp: view_go_to_line_def Let_def places_ok_def looks_def finish_def area_finish_def split: go_to_line.split)
qed

lemma current_line_ok: "places_ok w \<Longrightarrow> \<exists>a b. current_line_range w = Some (a, b)"
  by (simp add: current_line_range_def places_ok_def on_boundary_def line_start_byte_def line_end_byte_def str_slice_def Let_def)

section \<open>Substitution\<close>

lemma planned_edits_ok:
  assumes "search_engine_ok sv" "heap_ok h" "utf8 s" "length s \<le> 2 ^ 62" "tokens_fit (sc_tokens cmd)"
  shows "\<exists>res. planned_edits sv h cmd s l = Some res \<and> (\<forall>n xs. res = Inr (n, xs) \<longrightarrow> edits_safe s xs)"
proof -
  have "DEFAULT_REPLACEMENT_BYTE_LIMIT \<le> 2 ^ 62" by (simp add: DEFAULT_REPLACEMENT_BYTE_LIMIT_def)
  then obtain res where res: "plan sv cmd s l None MATCH_LIMIT = Some res" "\<And>p. res = Inr p \<Longrightarrow> reps_ok s (sp_replacements p)"
    using plan_ok [OF assms(1,3-5), of _ l None MATCH_LIMIT] unfolding plan_def by blast
  show ?thesis
  proof (cases res)
    case (Inl x)
    then show ?thesis using res(1) by (simp add: planned_edits_def bind_partial_def)
  next
    case (Inr p)
    let ?rs = "sp_replacements p"
    have r: "reps_ok s ?rs" using res(2) Inr .
    then have rs: "list_all (rep_ok s) ?rs" by (simp add: reps_ok_def)
    have "to_text_edits h p s = Some (Inr (map (edit_of h) ?rs))" using replacement_edits_ok [OF rs] by (simp add: to_text_edits_def)
    moreover have "edits_safe s (map (edit_of h) ?rs)"
      using plan_edits_valid [OF assms(2,4) r] rs edit_of_ok [OF _ assms(3,2)] by (simp add: edits_safe_def list_all_iff)
    ultimately show ?thesis using res(1) Inr by (simp add: planned_edits_def bind_partial_def)
  qed
qed

text \<open>What a command leaves behind; an unchanged text keeps the places in order.\<close>

definition frame_post :: "vi_env \<Rightarrow> text_document \<Rightarrow> vi_view \<Rightarrow> text_document option \<times> vi_view \<Rightarrow> bool" where
  "frame_post v d w = (\<lambda>(doc, w'). vw_pending_command w' = vw_pending_command w \<and>
     (\<exists>d'. doc = Some d' \<and> carried v d d' w' \<and> (td_text d' = td_text d \<longrightarrow> places_ok w')))"

lemma looks_post: "session_ok v d w \<Longrightarrow> places_ok w' \<Longrightarrow> looks w w' \<Longrightarrow> frame_post v d w (Some d, w')"
  using looks_session by (simp add: frame_post_def carried_def looks_def)

lemma session_text: "session_ok v d w \<Longrightarrow> utf8 (vw_buffer w) \<and> length (vw_buffer w) \<le> 2 ^ 62"
  using document_text_fits [of v d] by (simp add: session_ok_def text_fits_def)

lemma run_substitution_ok:
  assumes "heap_ok (vi_heap v)" "search_engine_ok sv" "session_ok v d w" "uh_next_serial (td_undo d) < usize_max" "places_ok w"
    "tokens_fit (sc_tokens cmd)"
  shows "ok (frame_post v d w) (run_substitution sv (vi_heap v) cmd (Some d) w)"
proof -
  obtain a b where l: "current_line_range w = Some (a, b)" using current_line_ok [OF assms(5)] by blast
  have s: "utf8 (vw_buffer w)" "length (vw_buffer w) \<le> 2 ^ 62" and b: "vw_buffer w = td_text d" and fits: "document_fits v d"
    using session_text [OF assms(3)] assms(3) by (simp_all add: session_ok_def)
  obtain res where res: "planned_edits sv (vi_heap v) cmd (vw_buffer w) (a, b) = Some res" "\<And>n xs. res = Inr (n, xs) \<Longrightarrow> edits_safe (vw_buffer w) xs"
    using planned_edits_ok [OF assms(2,1) s assms(6), of "(a, b)"] by blast
  show ?thesis
  proof (cases res)
    case (Inl x)
    then show ?thesis using l res(1) looks_post [OF assms(3)] assms(5) by (simp add: run_substitution_def)
  next
    case (Inr q)
    obtain n xs where q: "q = (n, xs)" by (cases q)
    have safe: "edits_safe (td_text d) xs" using res(2) Inr q b by simp
    show ?thesis
    proof (cases "sf_count_only (sc_flags cmd) \<or> xs = []")
      case True
      then show ?thesis using l res(1) Inr q looks_post [OF assms(3)] assms(5) by (simp add: run_substitution_def)
    next
      case False
      then have x: "xs \<noteq> []" "\<not> sf_count_only (sc_flags cmd)" by simp_all
      obtain r d' where r: "apply_edits (vi_heap v) xs d = Some (r, d')" "document_fits v d'" "td_bounds d' = td_bounds d"
          "uh_next_serial (td_undo d') \<le> uh_next_serial (td_undo d) + 1" "\<And>x. r = Inl x \<Longrightarrow> (\<exists>b. x = Refused b) \<and> d' = d"
        by (rule edits_answered [OF assms(1) fits assms(4) safe x(1)]) blast
      let ?w = "case r of Inr _ \<Rightarrow> finish (Replacements n) (w\<lparr>vw_buffer := td_text d', vw_find := (vw_find w)\<lparr>fi_searched := None\<rparr>\<rparr>)
        | Inl y \<Rightarrow> finish (Edit_Failed y) w"
      have "session_ok v d' ?w" using r(2,5) assms(3)
        by (auto simp: session_ok_def finish_def area_finish_def edits_fail_by_bounds_def split: sum.split)
      moreover have "vw_pending_command ?w = vw_pending_command w" by (simp add: finish_def split: sum.split)
      moreover have "places_ok ?w" if "td_text d' = td_text d"
        using that assms(5) b by (auto simp: places_ok_def find_matches_def finish_def split: sum.split)
      ultimately show ?thesis using l res(1) Inr q x r(1,3,4) by (simp add: run_substitution_def frame_post_def carried_def)
    qed
  qed
qed

text \<open>Replace and Replace All of the Find bar, with a query and a replacement the field can hold.\<close>

lemma find_failed_ok: "places_ok w \<Longrightarrow> places_ok (find_failed x w) \<and> looks w (find_failed x w)"
  by (simp add: places_ok_def looks_def find_failed_def find_matches_def)

lemma edits_safe_filter:
  "edits_safe s xs \<Longrightarrow> edits_safe s (filter P xs)"
proof -
  have le: "validate_edits s xs k = Inr () \<Longrightarrow> j \<le> k \<Longrightarrow> validate_edits s xs j = Inr ()" for xs j k
    by (cases xs) (auto simp: Let_def split: if_splits option.splits)
  have "validate_edits s xs k = Inr () \<Longrightarrow> list_all edit_ok xs \<Longrightarrow> validate_edits s (filter P xs) k = Inr ()" for xs k
  proof (induction xs arbitrary: k)
    case (Cons x xs)
    obtain e where e: "checked_add (te_start x) (length (rs_bytes (te_removed x))) = Some e" "k \<le> e" "validate_edits s xs e = Inr ()"
      using Cons.prems(1) by (auto simp: checked_add_def split: if_splits option.splits)
    have "validate_edits s (filter P xs) e = Inr ()" using Cons.IH [OF e(3)] Cons.prems(2) by simp
    then show ?case using Cons.prems(1) e le [OF _ e(2)] by (auto split: if_splits)
  qed simp
  moreover assume "edits_safe s xs"
  ultimately show ?thesis by (simp add: edits_safe_def list_all_iff)
qed

lemma replace_ok:
  assumes "heap_ok (vi_heap v)" "search_engine_ok sv" "session_ok v d w" "uh_next_serial (td_undo d) < usize_max" "places_ok w"
    "line_fits (fi_replacement (vw_find w))"
  shows "ok (frame_post v d w) (substitute sv (vi_heap v) only (Some d) w)"
proof -
  let ?parts = "from_parts (fi_query (vw_find w)) (fi_replacement (vw_find w)) WholeDocument (default_flags\<lparr>sf_global := True\<rparr>)"
  have s: "utf8 (vw_buffer w)" "length (vw_buffer w) \<le> 2 ^ 62" and b: "vw_buffer w = td_text d" and fits: "document_fits v d"
    using session_text [OF assms(3)] assms(3) by (simp_all add: session_ok_def)
  have failed: "frame_post v d w (Some d, find_failed x w)" for x using looks_post [OF assms(3)] find_failed_ok [OF assms(5)] by simp
  show ?thesis
  proof (cases ?parts)
    case (Inl x)
    then show ?thesis using failed by (simp add: substitute_def)
  next
    case (Inr cmd)
    then have t: "tokens_fit (sc_tokens cmd)"
      using assms(6) by (auto simp: from_parts_def bind_result_def line_fits_def split: sum.splits intro: tokenize_fit)
    obtain res where res: "planned_edits sv (vi_heap v) cmd (vw_buffer w) (0, 0) = Some res" "\<And>n xs. res = Inr (n, xs) \<Longrightarrow> edits_safe (vw_buffer w) xs"
      using planned_edits_ok [OF assms(2,1) s t, of "(0, 0)"] by blast
    show ?thesis
    proof (cases res)
      case (Inl x)
      then show ?thesis using failed res(1) Inr by (simp add: substitute_def)
    next
      case q: (Inr q)
      define xs where "xs = (case only of None \<Rightarrow> snd q | Some m \<Rightarrow> filter (\<lambda>x. te_start x = mr_start m) (snd q))"
      have safe: "edits_safe (td_text d) xs" using res(2) [of "fst q" "snd q"] q b edits_safe_filter by (simp add: xs_def split: option.split)
      show ?thesis
      proof (cases "xs = []")
        case True
        then show ?thesis using Inr res(1) q looks_post [OF assms(3,5)] by (simp add: substitute_def split_beta xs_def)
      next
        case False
        obtain r d' where r: "apply_edits (vi_heap v) xs d = Some (r, d')" "document_fits v d'" "td_bounds d' = td_bounds d"
            "uh_next_serial (td_undo d') \<le> uh_next_serial (td_undo d) + 1" "\<And>x. r = Inl x \<Longrightarrow> (\<exists>b. x = Refused b) \<and> d' = d"
          by (rule edits_answered [OF assms(1) fits assms(4) safe False]) blast
        let ?w = "case r of Inr _ \<Rightarrow> w\<lparr>vw_buffer := td_text d', vw_find := (vw_find w)\<lparr>fi_error := None, fi_searched := None\<rparr>\<rparr>
          | Inl y \<Rightarrow> find_failed (Find_Refused y) (command_report (Edit_Failed y) w)"
        have "session_ok v d' ?w" using r(2,5) assms(3)
          by (auto simp: session_ok_def find_failed_def command_report_def area_report_def edits_fail_by_bounds_def split: sum.split)
        moreover have "vw_pending_command ?w = vw_pending_command w" by (simp add: find_failed_def command_report_def split: sum.split)
        moreover have "places_ok ?w" if "td_text d' = td_text d"
          using that assms(5) b by (auto simp: places_ok_def find_matches_def find_failed_def command_report_def split: sum.split)
        ultimately show ?thesis using Inr res(1) q False r(1,3,4)
          by (simp add: substitute_def split_beta xs_def frame_post_def carried_def)
      qed
    qed
  qed
qed

section \<open>Commands and frames\<close>

definition command_fits :: "vi_command \<Rightarrow> bool" where
  "command_fits c \<longleftrightarrow> (\<forall>cmd. c = Substitute cmd \<longrightarrow> tokens_fit (sc_tokens cmd))"

definition command_post :: "vi_env \<Rightarrow> text_document \<Rightarrow> vi_view \<Rightarrow> app_command option \<times> text_document option \<times> vi_view \<Rightarrow> bool" where
  "command_post v d w = (\<lambda>(_, doc, w'). frame_post v d w (doc, w'))"

lemma area_closed: "looks w (w\<lparr>vw_command := area_close (vw_command w)\<rparr>)"
  by (simp add: looks_def area_close_def)

lemma dispatch_ok:
  assumes "heap_ok (vi_heap v)" "search_engine_ok sv" "session_ok v d w" "uh_next_serial (td_undo d) < usize_max" "places_ok w" "command_fits c"
  shows "ok (command_post v d w) (dispatch_command sv (vi_heap v) c (Some d) w)"
proof -
  have closing: "frame_post v d w (Some d, w\<lparr>vw_command := area_close (vw_command w)\<rparr>)"
    using looks_post [OF assms(3) _ area_closed] places_frame [of "w\<lparr>vw_command := area_close (vw_command w)\<rparr>" w] assms(5) by simp
  have told: "frame_post v d w (Some d, finish (Message m) w)" for m using looks_post [OF assms(3)] assms(5) by simp
  have "frame_post v d w (Some d, finish (Message m) (w\<lparr>vw_close_after_save := True\<rparr>))" for m
    using assms(3) looks_post [of v d "w\<lparr>vw_close_after_save := True\<rparr>" "finish (Message m) (w\<lparr>vw_close_after_save := True\<rparr>)"]
      places_frame [of "w\<lparr>vw_close_after_save := True\<rparr>" w] assms(5) by (simp add: session_ok_def frame_post_def)
  moreover have "frame_post v d w (Some d, view_go_to_line l w)" for l
    using looks_post [OF assms(3)] go_to_line_ok [OF assms(5)] session_text [OF assms(3)] by blast
  moreover have "ok (frame_post v d w) (run_substitution sv (vi_heap v) cmd (Some d) w)" if "c = Substitute cmd" for cmd
    using run_substitution_ok [OF assms(1-5)] assms(6) that by (simp add: command_fits_def)
  ultimately show ?thesis using closing told by (cases c) (auto simp: command_post_def ok_iff)
qed

lemma run_command_line_ok:
  assumes "heap_ok (vi_heap v)" "search_engine_ok sv" "session_ok v d w" "uh_next_serial (td_undo d) < usize_max" "places_ok w" "line_fits line"
  shows "ok (command_post v d w) (run_command_line sv (vi_heap v) p line (Some d) w)"
proof (cases "p = Ex")
  case True
  have "command_fits c" if "parse_line line = Inr c" for c
    using parse_line_fit assms(6) that by (auto simp: command_fits_def)
  then show ?thesis using True dispatch_ok [OF assms(1-5)] looks_post [OF assms(3)] assms(5)
    by (auto simp: run_command_line_def command_post_def split: sum.split)
next
  case False
  let ?u = "preview_search sv (Some d) w"
  let ?w = "?u\<lparr>vw_searching := True, vw_search_backward := (p = SearchBackward)\<rparr>"
  have u: "places_ok ?u" "looks w ?u" using preview_search_ok [OF assms(2,5)] session_text [OF assms(3)] by blast+
  have "places_ok ?w" "looks ?u ?w" using u(1) places_frame [of ?w ?u] by (simp_all add: looks_def)
  then have "places_ok (select_match_from_caret ?w)" "looks w (select_match_from_caret ?w)"
    using select_match_ok [of ?w] u(2) looks_trans by blast+
  then have "frame_post v d w (Some d, finish (Summary x) (select_match_from_caret ?w))" for x
    using looks_post [OF assms(3)] looks_trans looks_simps(2) finish_places by blast
  then show ?thesis using False by (simp add: run_command_line_def Let_def command_post_def)
qed

lemma post_moved:
  assumes "frame_post v d w (doc, w')" "vw_vi w'' = vw_vi w'" "vw_buffer w'' = vw_buffer w'" "vw_command w'' = vw_command w'"
    "places_ok w' \<Longrightarrow> places_ok w''"
  shows "frame_post v d (w\<lparr>vw_pending_command := vw_pending_command w''\<rparr>) (doc, w'')"
  using assms session_frame [of w'' w'] by (auto simp: frame_post_def carried_def)

lemma returned_places: "places_ok w \<Longrightarrow> places_ok (return_focus_to_body k w)"
  by (simp add: places_ok_def return_focus_to_body_def)

lemma returned_post: "frame_post v d w (doc, w') \<Longrightarrow> frame_post v d w (doc, return_focus_to_body k w')"
proof -
  assume a: "frame_post v d w (doc, w')"
  have "vw_pending_command (return_focus_to_body k w') = vw_pending_command w'" by (simp add: return_focus_to_body_def)
  then have p: "w\<lparr>vw_pending_command := vw_pending_command (return_focus_to_body k w')\<rparr> = w" using a by (simp add: frame_post_def)
  show ?thesis using post_moved [OF a, of "return_focus_to_body k w'"] returned_places unfolding p by (simp add: return_focus_to_body_def)
qed

text \<open>The line of an event is one that can be typed.\<close>

definition event_fits :: "command_area_event option \<Rightarrow> bool" where
  "event_fits event \<longleftrightarrow> (\<forall>p line. event = Some (Run p line) \<longrightarrow> line_fits line)"

lemma area_events_ok:
  assumes "heap_ok (vi_heap v)" "search_engine_ok sv" "session_ok v d w" "uh_next_serial (td_undo d) < usize_max" "places_ok w" "event_fits event"
  shows "ok (command_post v d w) (area_events sv (vi_heap v) k event (Some d) w)"
proof (cases event)
  case None
  then show ?thesis using looks_post [OF assms(3,5) looks_refl] by (simp add: area_events_def command_post_def)
next
  case (Some e)
  show ?thesis
  proof (cases e)
    case Changed
    then show ?thesis using Some preview_search_ok [OF assms(2,5)] session_text [OF assms(3)] looks_post [OF assms(3)]
      by (simp add: area_events_def command_post_def)
  next
    case (Run p line)
    then have "line_fits line" using Some assms(6) by (simp add: event_fits_def)
    then show ?thesis using Some Run run_command_line_ok [OF assms(1-5)] returned_post
      by (auto simp: area_events_def command_post_def ok_iff) fastforce
  next
    case Cancelled
    let ?w = "if fi_open (vw_find w) then w else w\<lparr>vw_find := (vw_find w)\<lparr>fi_query := [], fi_searched := None\<rparr>, vw_searching := False\<rparr>"
    have "places_ok ?w" "looks w ?w" using assms(5) by (simp_all add: places_ok_def looks_def find_matches_def)
    then show ?thesis using Some Cancelled returned_post [OF looks_post [OF assms(3)]] by (simp add: area_events_def command_post_def)
  qed
qed

lemma hand_over_ok:
  assumes "places_ok w"
  shows "\<exists>place. hand_over_caret w = Some (place, w\<lparr>vw_vi_caret := None\<rparr>)"
  using assms by (auto simp: hand_over_caret_def places_ok_def on_boundary_def str_slice_def split: option.split)

end
