(* ===== verification/Vi_Typing.thy ===== *)
theory Vi_Typing
  imports Vi_Record
begin

text \<open>
  What the commands do to the text, key by key: typing in Insert mode, and deleting a line and putting it back.
\<close>

section \<open>Typing\<close>

definition typed_keys :: "str \<Rightarrow> vi_key list" where
  "typed_keys ts = Char_Key 0x69 # map Char_Key ts @ [Escape_Key]"

definition spliced :: "bytes \<Rightarrow> nat \<Rightarrow> bytes \<Rightarrow> bytes" where
  "spliced s k ins = take k s @ ins @ drop k s"

lemma floor_exact: "is_char_boundary s k \<Longrightarrow> floor_text_boundary s k = k"
proof -
  assume "is_char_boundary s k"
  moreover from this have "k \<le> length s" by (rule char_boundary_le)
  ultimately show ?thesis by (cases k) (simp_all add: floor_text_boundary_def min_absorb1)
qed

lemma insert_rewrites:
  assumes "utf8 s" "is_char_boundary s k" "utf8 x" "length s + length x \<le> usize_max"
  shows "rewrite_ordered_edits s [insert_at v k x] Forward = Some (spliced s k x)" "utf8 (spliced s k x)"
    "is_char_boundary (spliced s k x) (k + length x)"
proof -
  have k: "k \<le> length s" using assms(2) by (rule char_boundary_le)
  have parts: "utf8 (take k s)" "utf8 (drop k s)" using boundary_splits [OF assms(1,2)] by auto
  have fit: "edits_fit 0 [insert_at v k x] s"
    by (rule validate_edits_fit [of s _ 0, simplified])
      (use assms k in \<open>simp_all add: strings_utf8_def insert_at_def edit_at_def owned_def utf8_scalars [of "[]"] exI [of _ "[]"] checked_add_def slice_def\<close>)
  have e: "edited 0 [insert_at v k x] s = spliced s k x" by (simp add: insert_at_def edit_at_def owned_def te_end_def spliced_def)
  show "rewrite_ordered_edits s [insert_at v k x] Forward = Some (spliced s k x)"
  proof -
    have "length (edited 0 [insert_at v k x] s) \<le> usize_max" using assms(4) k by (simp add: e spliced_def del: edited.simps)
    then show ?thesis using rewrite_correct [OF fit, of Forward] assms(4) by (simp add: e del: edited.simps)
  qed
  show u: "utf8 (spliced s k x)" using parts assms(3) by (simp add: spliced_def)
  show "is_char_boundary (spliced s k x) (k + length x)"
    by (rule utf8_take_boundary) (use u parts assms(3) k in \<open>simp_all add: spliced_def\<close>)
qed

text \<open>The engine that types: it records unless it replays, and its record has room.\<close>

definition records :: "nat \<Rightarrow> vi_engine \<Rightarrow> bool" where
  "records n e \<longleftrightarrow> ve_replaying e \<or> ve_recording_state e = Recording \<and> length (ve_record e) + n \<le> MAX_VI_RECORDING_KEYS"

definition typed_into :: "str \<Rightarrow> vi_engine \<Rightarrow> vi_engine" where
  "typed_into ts e =
     (if ve_replaying e then e
      else e\<lparr>ve_record := ve_record e @ map Char_Key ts, ve_change_in_progress := (ve_change_in_progress e \<or> ts \<noteq> [])\<rparr>)"

lemma insert_key_step:
  assumes "is_char_boundary s k" "ve_mode e = Insert" "records 1 e"
  shows "\<exists>r. key_step v (Char_Key c) s k e = Some (r, typed_into [c] e) \<and> vr_action r = Edit [insert_at v k (encode_utf8 c)] \<and>
    vr_caret r = k + len_utf8 c"
proof -
  let ?e = "record_key (Char_Key c) e"
  have m: "ve_mode ?e = Insert" using assms(2) by simp
  have "(if ve_replaying ?e then ?e else noted (Edit [insert_at v k (encode_utf8 c)]) ?e) = typed_into [c] e"
    using assms(2,3) by (auto simp: records_def typed_into_def record_key_def noted_def is_edit_def Let_def)
  then show ?thesis
    using m floor_exact [OF assms(1)]
    by (auto simp: key_step_def borrowed_normal_motion_def vi_step_def update_recording_noted respond_def Let_def)
qed

lemma typed_into_append: "typed_into ts (typed_into us e) = typed_into (us @ ts) e"
  by (auto simp: typed_into_def)

lemma spliced_append: "k \<le> length s \<Longrightarrow> spliced (spliced s k a) (k + length a) c = spliced s k (a @ c)"
  by (simp add: spliced_def)

lemma insert_run:
  "utf8 s \<Longrightarrow> is_char_boundary s k \<Longrightarrow> scalars ts \<Longrightarrow> length s + length (str_bytes ts) \<le> usize_max \<Longrightarrow> ve_mode e = Insert \<Longrightarrow>
   records (length ts) e \<Longrightarrow>
   replay_keys v (map Char_Key ts) s k e = Some (spliced s k (str_bytes ts), k + length (str_bytes ts), typed_into ts e)"
proof (induction ts arbitrary: s k e)
  case Nil
  then show ?case by (simp add: spliced_def typed_into_def)
next
  case (Cons c ts)
  let ?x = "encode_utf8 c"
  let ?s = "spliced s k ?x"
  have k: "k \<le> length s" using Cons.prems(2) by (rule char_boundary_le)
  have "records 1 e" using Cons.prems(6) by (auto simp: records_def)
  then obtain r where r: "key_step v (Char_Key c) s k e = Some (r, typed_into [c] e)" "vr_action r = Edit [insert_at v k ?x]"
      "vr_caret r = k + length ?x"
    using insert_key_step [OF Cons.prems(2,5)] by (auto simp: len_encode)
  have "utf8 ?x" using Cons.prems(3) by simp
  note R = insert_rewrites [OF Cons.prems(1,2) this]
  have l: "length s + length ?x \<le> usize_max" "length ?s + length (str_bytes ts) \<le> usize_max" using Cons.prems(4) k by (simp_all add: spliced_def)
  have e: "ve_mode (typed_into [c] e) = Insert" "records (length ts) (typed_into [c] e)"
    using Cons.prems(5,6) by (auto simp: typed_into_def records_def)
  have "replay_keys v (map Char_Key ts) ?s (k + length ?x) (typed_into [c] e) =
      Some (spliced ?s (k + length ?x) (str_bytes ts), k + length ?x + length (str_bytes ts), typed_into ts (typed_into [c] e))"
    by (rule Cons.IH) (use Cons.prems(3) R(2,3) l e in simp_all)
  then show ?case using r R(1) l(1) spliced_append [OF k] by (simp add: typed_into_append)
qed

text \<open>The whole of \<open>i\<close>, the text, and Escape.\<close>

definition settled :: "vi_engine \<Rightarrow> bool" where
  "settled e \<longleftrightarrow> vi_idle e \<and> ve_mode e = Normal \<and> ve_record e = [] \<and> ve_recording_state e = Recording \<and> \<not> ve_change_in_progress e"

definition after_insert :: "str \<Rightarrow> vi_engine \<Rightarrow> vi_engine" where
  "after_insert ts e = (if ve_replaying e \<or> ts = [] then e else e\<lparr>ve_last_change := Recorded (typed_keys ts)\<rparr>)"

lemma replay_append:
  "replay_keys v (xs @ ys) s k e = replay_keys v xs s k e \<bind> (\<lambda>(t, c, f). replay_keys v ys t c f)"
proof (induction xs arbitrary: s k e)
  case (Cons x xs)
  have "(m \<bind> (\<lambda>t. replay_keys v (xs @ ys) t a f)) = (m \<bind> (\<lambda>t. replay_keys v xs t a f)) \<bind> (\<lambda>(t, c, f). replay_keys v ys t c f)" for m a f
    by (cases m) (simp_all add: Cons.IH)
  then show ?case by (cases "key_step v x s k e") (auto split: prod.split)
qed simp

lemma insert_command:
  assumes "is_char_boundary s k" "settled e"
  shows "\<exists>r. key_step v (Char_Key 0x69) s k e =
      Some (r, if ve_replaying e then e\<lparr>ve_mode := Insert\<rparr> else e\<lparr>ve_mode := Insert, ve_record := [Char_Key 0x69]\<rparr>) \<and>
    vr_action r = No_Action \<and> vr_caret r = k"
proof -
  let ?e = "record_key (Char_Key 0x69) e"
  have m: "ve_mode ?e = Normal" "ve_stage ?e = Ready" "ve_count ?e = None" using assms(2) by (simp_all add: settled_def vi_idle_def)
  have d: "consume_count_digit 0x69 ?e = Some (False, ?e)" by (simp add: consume_count_digit_def is_digit_def)
  have "borrowed_motion v s k 0x69 None = Some None"
    by (simp add: borrowed_motion_def no_motion motion_keys_def or_one_def isize_max_def usize_max_def)
  then have b: "borrowed_normal_motion v (Char_Key 0x69) s k ?e = Some (None, ?e)" using m d by (simp add: borrowed_normal_motion_def)
  have st: "vi_step v (buffer_of s) (Char_Key 0x69) k ?e = Some ((No_Action, k), ?e\<lparr>ve_mode := Insert\<rparr>)"
    using m d by (simp add: vi_step_def step_normal_def normal_ready_def normal_command_def enter_insert_def Let_def)
  have "(if ve_replaying (?e\<lparr>ve_mode := Insert\<rparr>) then ?e\<lparr>ve_mode := Insert\<rparr> else noted No_Action (?e\<lparr>ve_mode := Insert\<rparr>)) =
      (if ve_replaying e then e\<lparr>ve_mode := Insert\<rparr> else e\<lparr>ve_mode := Insert, ve_record := [Char_Key 0x69]\<rparr>)"
    using assms(2) by (auto simp: settled_def record_key_def noted_def is_edit_def Let_def MAX_VI_RECORDING_KEYS_def)
  then show ?thesis using floor_exact [OF assms(1)] b st by (auto simp: key_step_def update_recording_noted respond_def Let_def)
qed

lemma escape_command:
  assumes "is_char_boundary s k" "settled e" "ve_replaying e \<or> length ts + 2 \<le> MAX_VI_RECORDING_KEYS"
  shows "\<exists>r. key_step v Escape_Key s k
      (typed_into ts (if ve_replaying e then e\<lparr>ve_mode := Insert\<rparr> else e\<lparr>ve_mode := Insert, ve_record := [Char_Key 0x69]\<rparr>)) =
    Some (r, after_insert ts e) \<and> vr_action r = No_Action"
proof -
  define f where "f = typed_into ts (if ve_replaying e then e\<lparr>ve_mode := Insert\<rparr> else e\<lparr>ve_mode := Insert, ve_record := [Char_Key 0x69]\<rparr>)"
  let ?e = "record_key Escape_Key f"
  have m: "ve_mode ?e = Insert" by (simp add: f_def typed_into_def)
  have st: "vi_step v (buffer_of s) Escape_Key k ?e = Some ((No_Action, step_left (buffer_of s) k), ?e\<lparr>ve_mode := Normal\<rparr>)"
    using m by (simp add: vi_step_def)
  have n: "\<not> vi_is_pending (?e\<lparr>ve_mode := Normal\<rparr>)" using assms(2) by (auto simp: vi_is_pending_def f_def typed_into_def settled_def vi_idle_def)
  have "(if ve_replaying (?e\<lparr>ve_mode := Normal\<rparr>) then ?e\<lparr>ve_mode := Normal\<rparr> else noted No_Action (?e\<lparr>ve_mode := Normal\<rparr>)) = after_insert ts e"
  proof (cases "ve_replaying e")
    case True
    then show ?thesis using assms(2) by (simp add: f_def typed_into_def after_insert_def settled_def record_key_def)
  next
    case False
    have rk: "?e = e\<lparr>ve_mode := Insert, ve_record := typed_keys ts, ve_change_in_progress := (ts \<noteq> [])\<rparr>"
      using False assms(2,3) by (simp add: f_def typed_into_def settled_def record_key_def typed_keys_def)
    show ?thesis using False n assms(2) by (simp add: rk noted_def is_edit_def Let_def after_insert_def settled_def)
  qed
  then show ?thesis
    unfolding f_def [symmetric] using floor_exact [OF assms(1)] st
    by (auto simp: key_step_def borrowed_normal_motion_def update_recording_noted respond_def Let_def)
qed

lemma typing_exact:
  assumes "utf8 s" "is_char_boundary s k" "scalars ts" "length s + length (str_bytes ts) \<le> usize_max" "settled e"
    "ve_replaying e \<or> length ts + 2 \<le> MAX_VI_RECORDING_KEYS"
  shows "\<exists>c. replay_keys v (typed_keys ts) s k e = Some (spliced s k (str_bytes ts), c, after_insert ts e)"
proof -
  define i where "i = (if ve_replaying e then e\<lparr>ve_mode := Insert\<rparr> else e\<lparr>ve_mode := Insert, ve_record := [Char_Key 0x69]\<rparr>)"
  obtain r where r: "key_step v (Char_Key 0x69) s k e = Some (r, i)" "vr_action r = No_Action" "vr_caret r = k"
    using insert_command [OF assms(2,5), of v] by (auto simp: i_def)
  have t: "replay_keys v (map Char_Key ts) s k i = Some (spliced s k (str_bytes ts), k + length (str_bytes ts), typed_into ts i)"
    by (rule insert_run [OF assms(1-4)]) (use assms(5,6) in \<open>auto simp: i_def records_def settled_def\<close>)
  have b: "is_char_boundary (spliced s k (str_bytes ts)) (k + length (str_bytes ts))"
    using insert_rewrites(3) [OF assms(1,2) _ assms(4)] assms(3) by simp
  obtain q where q: "key_step v Escape_Key (spliced s k (str_bytes ts)) (k + length (str_bytes ts)) (typed_into ts i) = Some (q, after_insert ts e)"
      "vr_action q = No_Action"
    using escape_command [OF b, of e ts v] assms(5,6) by (auto simp: i_def)
  show ?thesis
    unfolding typed_keys_def using r t q by (simp add: replay_append)
qed

lemma count_room_idle: "ve_count e = None \<Longrightarrow> count_room key e"
  by (simp add: count_room_def split: vi_key.split)

lemma length_spliced: "length (spliced s k x) = length s + length x"
  by (simp add: spliced_def min_def)

lemma len_utf8_at_most: "len_utf8 c \<le> 4"
  by (simp add: len_utf8_def)

text \<open>Typed text has room to be replayed wherever it fits.\<close>

lemma typing_room:
  assumes "utf8 s" "is_char_boundary s k" "scalars ts" "length s + length (str_bytes ts) \<le> 2 ^ 62" "settled e" "ve_replaying e"
  shows "replay_room v (typed_keys ts) s k e"
  unfolding replay_room_def
proof (intro allI impI)
  fix n
  assume n: "n < length (typed_keys ts)"
  let ?i = "e\<lparr>ve_mode := Insert\<rparr>"
  have c: "ve_count e = None" using assms(5) by (simp add: settled_def vi_idle_def)
  obtain r where r: "key_step v (Char_Key 0x69) s k e = Some (r, ?i)" "vr_action r = No_Action" "vr_caret r = k"
    using insert_command [OF assms(2,5), of v] assms(6) by auto
  show "case replay_keys v (take n (typed_keys ts)) s k e of None \<Rightarrow> True | Some (t, c, f) \<Rightarrow> key_room v (typed_keys ts ! n) t c f"
  proof (cases n)
    case 0
    then show ?thesis using r c assms(4) by (simp add: typed_keys_def key_room_def count_room_idle)
  next
    case (Suc m)
    then have m: "m \<le> length ts" using n by (simp add: typed_keys_def)
    let ?us = "take m ts"
    let ?t = "spliced s k (str_bytes ?us)" and ?c = "k + length (str_bytes ?us)"
    have k: "k \<le> length s" using assms(2) by (rule char_boundary_le)
    have l: "length (str_bytes ts) = length (str_bytes ?us) + length (str_bytes (drop m ts))"
      by (metis append_take_drop_id length_append str_bytes_simps(3))
    have fit: "length s + length (str_bytes ?us) \<le> 2 ^ 62" using l assms(4) by simp
    then have u: "length s + length (str_bytes ?us) \<le> usize_max" by (simp add: usize_max_def)
    have "replay_keys v (map Char_Key ?us) s k ?i = Some (?t, ?c, ?i)"
      using insert_run [OF assms(1,2) scalars_parts(1) [OF assms(3)] u, of ?i v] assms(6) by (simp add: records_def typed_into_def)
    then have rep: "replay_keys v (take n (typed_keys ts)) s k e = Some (?t, ?c, ?i)"
      using r Suc m by (simp add: typed_keys_def take_map)
    have b: "is_char_boundary ?t ?c" using insert_rewrites(3) [OF assms(1,2) _ u] assms(3) by simp
    have len: "length ?t \<le> 2 ^ 62" using fit k by (simp add: spliced_def)
    show ?thesis
    proof (cases "m < length ts")
      case True
      then have key: "typed_keys ts ! n = Char_Key (ts ! m)" using Suc by (simp add: typed_keys_def nth_append)
      obtain q where "key_step v (Char_Key (ts ! m)) ?t ?c ?i = Some (q, typed_into [ts ! m] ?i)" "vr_action q = Edit [insert_at v ?c (encode_utf8 (ts ! m))]"
        using insert_key_step [OF b, of ?i v "ts ! m"] assms(6) by (auto simp: records_def)
      moreover have "edited 0 [insert_at v ?c x] ?t = spliced ?t ?c x" for x by (simp add: insert_at_def edit_at_def owned_def te_end_def spliced_def)
      moreover have "length (spliced ?t ?c (encode_utf8 (ts ! m))) \<le> usize_max"
        using len len_utf8_at_most [of "ts ! m"] by (simp add: length_spliced len_encode usize_max_def)
      ultimately show ?thesis using rep key len c by (simp add: key_room_def count_room_idle del: edited.simps)
    next
      case False
      then have key: "typed_keys ts ! n = Escape_Key" using Suc m by (simp add: typed_keys_def nth_append)
      have "typed_into ?us ?i = ?i" using assms(6) by (simp add: typed_into_def)
      then obtain q where "key_step v Escape_Key ?t ?c ?i = Some (q, after_insert ?us e)" "vr_action q = No_Action"
        using escape_command [OF b assms(5), of ?us v] assms(6) by auto
      then show ?thesis using rep key len c by (simp add: key_room_def count_room_idle)
    qed
  qed
qed

section \<open>Deleting a line and putting it back\<close>

lemma key_step_via:
  assumes "is_char_boundary s k" "borrowed_normal_motion v key s k (record_key key e) = Some (None, record_key key e)"
    "vi_step v (buffer_of s) key k (record_key key e) = Some ((a, c), g)"
  shows "\<exists>r. key_step v key s k e = Some (r, if ve_replaying g then g else noted a g) \<and> vr_action r = a \<and> vr_caret r = c"
  using assms floor_exact [OF assms(1)] by (auto simp: key_step_def update_recording_noted respond_def Let_def)

lemma command_not_borrowed:
  assumes "\<not> is_digit c" "c \<notin> set motion_keys" "ve_count e = None"
  shows "borrowed_normal_motion v (Char_Key c) s k e = Some (None, e)"
  using assms by (simp add: borrowed_normal_motion_def consume_count_digit_def borrowed_motion_def no_motion or_one_def isize_max_def usize_max_def)

text \<open>The characters without the lines \<open>[a, b)\<close>.\<close>

definition cut :: "str \<Rightarrow> nat \<Rightarrow> nat \<Rightarrow> str" where
  "cut cs a b = take a cs @ drop b cs"

lemma offset_cut: "a \<le> b \<Longrightarrow> b + j \<le> length cs \<Longrightarrow> offset (cut cs a b) (a + j) = offset cs (b + j) - (offset cs b - offset cs a)"
proof -
  assume *: "a \<le> b" "b + j \<le> length cs"
  have "offset (cut cs a b) (a + j) = offset cs a + length (str_bytes (take j (drop b cs)))" using * by (simp add: offset_def cut_def)
  moreover have "offset cs b + length (str_bytes (take j (drop b cs))) = offset cs (b + j)" using * by (intro offset_drop) simp
  ultimately show ?thesis using offset_mono [OF *(1), of cs] by linarith
qed

lemma linewise_delete_exact:
  assumes "place_ok v b i" "vi_idle e" "m < buf_line_count b - 1"
  defines "p \<equiv> nth_line_start b m" and "q \<equiv> nth_line_start b (m + 1)"
  shows "apply_linewise v b Delete m m e =
    Some ((Edit [edit_at v (at b p) (str_bytes (slice p (q - p) (vb_chars b))) []],
       at b (first_non_blank b q) - (at b q - at b p)), set_register (str_bytes (slice p (q - p) (vb_chars b))) True e)"
    "p \<le> q" "q \<le> nchars b"
proof -
  let ?cs = "vb_chars b"
  have m: "m \<le> buf_line_count b - 1" using assms(3) by simp
  have l: "line_end_by_line b m < nchars b" "q = line_end_by_line b m + 1" "p \<le> line_end_by_line b m"
    using line_end_next [OF m] assms(3) line_end_by_line_bounds(1) [of b m] by (simp_all add: q_def p_def)
  then show pq: "p \<le> q" "q \<le> nchars b" by simp_all
  obtain k where k: "k \<le> nchars b" "line_end_by_line b m = line_end b k" using m by (rule place_on_line)
  have nl: "?cs ! line_end_by_line b m = NL" using ends_newline [of k ?cs] k l(1) by (simp add: line_end_ends nchars_def)
  have "slice p (q - p) ?cs = slice p (line_end_by_line b m - p) ?cs @ [NL]"
  proof -
    have "q - p = Suc (line_end_by_line b m - p)" using l by simp
    then show ?thesis using l nl by (simp add: slice_def take_Suc_conv_app_nth nchars_def)
  qed
  then have reg: "linewise_register_text b m m = Some (str_bytes (slice p (q - p) ?cs))"
    using ok_buf_slice [of p "line_end_by_line b m" b] l by (simp add: linewise_register_text_def p_def NL_def encode_utf8_def u8_of_nat_def)
  have next_line: "Suc m < buf_line_count b" "nth_line_start b (Suc m) = q" using assms(3) by (simp_all add: q_def)
  have "linewise_delete_range b m m = (p, q)" using l by (simp add: linewise_delete_range_def Let_def p_def)
  moreover have "at b p \<le> at b q" by (rule offset_mono [OF pq(1)])
  moreover have "at b q - at b p \<le> at b (first_non_blank b q)"
    using offset_mono [OF first_non_blank_bounds(1) [OF pq(2)], of ?cs] by linarith
  ultimately show "apply_linewise v b Delete m m e =
    Some ((Edit [edit_at v (at b p) (str_bytes (slice p (q - p) (vb_chars b))) []],
       at b (first_non_blank b q) - (at b q - at b p)), set_register (str_bytes (slice p (q - p) (vb_chars b))) True e)"
    using reg ok_buf_slice [OF pq] next_line place_simps(2) [OF assms(1)]
    by (simp add: apply_linewise_def ordered_def Let_def)
qed

text \<open>Where the line was cut, the next line begins.\<close>

lemma begins_cut:
  assumes "indexed_ok b" "m < buf_line_count b - 1"
  defines "p \<equiv> nth_line_start b m" and "q \<equiv> nth_line_start b (m + 1)"
  shows "begins (cut (vb_chars b) p q) (p + (first_non_blank b q - q)) = p"
proof (rule begins_unique)
  let ?cs = "vb_chars b"
  have m: "m \<le> buf_line_count b - 1" using assms(2) by simp
  have q: "q \<le> nchars b" "p \<le> q" using nth_line_start_le [of b "m + 1"] nth_line_start_mono [of m "m + 1" b] assms(2) by (simp_all add: p_def q_def)
  have f: "q \<le> first_non_blank b q" "first_non_blank b q \<le> nchars b" using first_non_blank_bounds(1) [OF q(1)] first_non_blank_le [OF q(1)] by auto
  show "p \<le> p + (first_non_blank b q - q)" by simp
  show "p + (first_non_blank b q - q) \<le> length (cut ?cs p q)" using q f by (simp add: cut_def nchars_def)
  show "cut ?cs p q ! (p - 1) = NL" if "0 < p"
  proof -
    obtain k where k: "k \<le> nchars b" "nth_line_start b m = line_start b k" using m by (rule place_on_line)
    then have "?cs ! (p - 1) = NL" using begins_newline [of ?cs k] that by (simp add: p_def line_start_begins)
    then show ?thesis using that q by (simp add: cut_def nth_append nchars_def)
  qed
  fix j
  assume j: "p \<le> j" "j < p + (first_non_blank b q - q)"
  then have "vi_blank (?cs ! (q + (j - p)))" using blank_before_first [of q "q + (j - p)" b] q f by simp
  moreover have "cut ?cs p q ! j = ?cs ! (q + (j - p))" using j q f by (simp add: cut_def nth_append nchars_def)
  ultimately show "cut ?cs p q ! j \<noteq> NL" by (auto simp: NL_def)
qed

lemma cut_restored:
  assumes "p \<le> q" "q \<le> length cs"
  shows "take p (cut cs p q) @ slice p (q - p) cs @ drop p (cut cs p q) = cs"
proof -
  have "take p cs @ slice p (q - p) cs @ drop q cs = cs"
    using take_add [of p "q - p" cs] assms(1) by (metis append.assoc append_take_drop_id le_add_diff_inverse slice_def)
  then show ?thesis using assms by (simp add: cut_def)
qed

text \<open>The engine around a command: Normal mode, nothing counted, and what the register holds.\<close>

definition at_ease :: "stage \<Rightarrow> register \<Rightarrow> vi_engine \<Rightarrow> bool" where
  "at_ease st r e \<longleftrightarrow> ve_mode e = Normal \<and> ve_stage e = st \<and> ve_count e = None \<and> ve_operator_count e = None \<and> ve_register e = r \<and> utf8 (rg_text r)"

lemma at_ease_recording [simp]:
  "at_ease st r (record_key key e) = at_ease st r e" "at_ease st r (if x then e else noted a e) = at_ease st r e"
  by (simp_all add: at_ease_def)

lemma delete_key:
  assumes "is_char_boundary s k" "at_ease Ready r e"
  shows "\<exists>q f. key_step v (Char_Key 0x64) s k e = Some (q, f) \<and> vr_action q = No_Action \<and> vr_caret q = k \<and> at_ease (AfterOperator Delete) r f"
proof -
  let ?e = "record_key (Char_Key 0x64) e" and ?g = "record_key (Char_Key 0x64) e\<lparr>ve_operator_count := None, ve_stage := AfterOperator Delete\<rparr>"
  have m: "ve_mode ?e = Normal" "ve_stage ?e = Ready" "ve_count ?e = None" using assms(2) by (simp_all add: at_ease_def)
  have b: "borrowed_normal_motion v (Char_Key 0x64) s k ?e = Some (None, ?e)"
    by (rule command_not_borrowed) (use m(3) in \<open>simp_all add: is_digit_def motion_keys_def\<close>)
  have st: "vi_step v (buffer_of s) (Char_Key 0x64) k ?e = Some ((No_Action, k), ?g)"
    using m by (simp add: vi_step_def step_normal_def normal_ready_def consume_count_digit_def is_digit_def normal_command_def begin_operator_def still_def Let_def)
  have "at_ease (AfterOperator Delete) r ?g" using assms(2) by (simp add: at_ease_def)
  then show ?thesis using key_step_via [OF assms(1) b st] by auto
qed

lemma doubled_delete_key:
  assumes "place_ok v b i" "b = buffer_of s" "text_of b = s" "at_ease (AfterOperator Delete) r e" "line_index b i = m" "m < buf_line_count b - 1"
  defines "p \<equiv> nth_line_start b m" and "q \<equiv> nth_line_start b (m + 1)"
  shows "\<exists>a f. key_step v (Char_Key 0x64) s (at b i) e = Some (a, f) \<and> vr_action a = Edit [edit_at v (at b p) (str_bytes (slice p (q - p) (vb_chars b))) []] \<and>
      vr_caret a = at b (first_non_blank b q) - (at b q - at b p) \<and>
      at_ease Ready \<lparr>rg_text = str_bytes (slice p (q - p) (vb_chars b)), rg_linewise = True\<rparr> f"
proof -
  let ?e = "record_key (Char_Key 0x64) e"
  let ?f = "?e\<lparr>ve_operator_count := None, ve_count := None, ve_stage := Ready\<rparr>"
  have m: "ve_mode ?e = Normal" "ve_stage ?e = AfterOperator Delete" "ve_count ?e = None" "ve_operator_count ?e = None"
    using assms(4) by (simp_all add: at_ease_def)
  have f: "vi_idle ?f" using assms(4) by (simp add: vi_idle_def at_ease_def)
  have "m \<le> nchars b" using line_index_small [of b i] assms(5) by simp
  then have c: "checked_add m 1 = Some (m + 1)" using place_okD(6) [OF assms(1)] by (simp add: checked_add_def usize_max_def)
  note D = linewise_delete_exact [OF assms(1) f assms(6)]
  have st: "vi_step v (buffer_of s) (Char_Key 0x64) (at b i) ?e = Some ((Edit [edit_at v (at b p) (str_bytes (slice p (q - p) (vb_chars b))) []],
       at b (first_non_blank b q) - (at b q - at b p)), set_register (str_bytes (slice p (q - p) (vb_chars b))) True ?f)"
    unfolding assms(2) [symmetric] p_def q_def
    using m c D(1) assms(5,6) place_simps(1) [OF assms(1)]
    by (simp add: vi_step_def step_normal_def after_operator_def consume_count_digit_def is_digit_def operate_def or_one_def Let_def min_absorb1)
  have b: "borrowed_normal_motion v (Char_Key 0x64) s (at b i) ?e = Some (None, ?e)" using m by (simp add: borrowed_normal_motion_def)
  have "is_char_boundary s (at b i)" using boundary_at [OF place_okD(2) [OF assms(1)], of i] assms(3) by simp
  moreover have "at_ease Ready \<lparr>rg_text = str_bytes (slice p (q - p) (vb_chars b)), rg_linewise = True\<rparr> (set_register (str_bytes (slice p (q - p) (vb_chars b))) True ?f)"
    using m place_okD(2) [OF assms(1)] by (simp add: at_ease_def set_register_def)
  ultimately show ?thesis using key_step_via [OF _ b st] by auto
qed

lemma put_line_key:
  assumes "place_ok v b i" "b = buffer_of s" "text_of b = s" "at_ease Ready \<lparr>rg_text = t, rg_linewise = True\<rparr> e" "t \<noteq> []"
  shows "\<exists>a f. key_step v (Char_Key 0x50) s (at b i) e = Some (a, f) \<and> vr_action a = Edit [insert_at v (at b (line_start b i)) t]"
proof -
  let ?e = "record_key (Char_Key 0x50) e"
  have m: "ve_mode ?e = Normal" "ve_stage ?e = Ready" "ve_count ?e = None" "ve_register ?e = \<lparr>rg_text = t, rg_linewise = True\<rparr>"
    using assms(4) by (simp_all add: at_ease_def)
  have b: "borrowed_normal_motion v (Char_Key 0x50) s (at b i) ?e = Some (None, ?e)"
    by (rule command_not_borrowed) (use m(3) in \<open>simp_all add: is_digit_def motion_keys_def\<close>)
  have l: "nth_line_start b (line_index b i) = line_start b i" by (rule nth_line_start_index [OF place_okD(4) [OF assms(1)]])
  have "\<exists>c g. vi_step v (buffer_of s) (Char_Key 0x50) (at b i) ?e = Some ((Edit [insert_at v (at b (line_start b i)) t], c), g)"
    unfolding assms(2) [symmetric] using m l assms(5) place_simps [OF assms(1)]
    by (simp add: vi_step_def step_normal_def normal_ready_def consume_count_digit_def is_digit_def normal_command_def paste_def Let_def)
  then obtain c g where st: "vi_step v (buffer_of s) (Char_Key 0x50) (at b i) ?e = Some ((Edit [insert_at v (at b (line_start b i)) t], c), g)" by blast
  have "is_char_boundary s (at b i)" using boundary_at [OF place_okD(2) [OF assms(1)], of i] assms(3) by simp
  from key_step_via [OF this b st] show ?thesis by auto
qed

lemma cut_rewrites:
  assumes "place_ok v b i" "x \<le> y" "y \<le> nchars b"
  shows "rewrite_ordered_edits (text_of b) [edit_at v (at b x) (str_bytes (slice x (y - x) (vb_chars b))) []] Forward =
    Some (str_bytes (cut (vb_chars b) x y))"
proof -
  let ?cs = "vb_chars b" and ?e = "edit_at v (at b x) (str_bytes (slice x (y - x) (vb_chars b))) []"
  have y: "at b x + length (str_bytes (slice x (y - x) ?cs)) = at b y"
    using offset_drop [of x ?cs "y - x"] assms(2,3) by (simp add: slice_def nchars_def)
  have "edited 0 [?e] (text_of b) = take (at b x) (text_of b) @ drop (at b y) (text_of b)" using y by (simp add: edit_at_def owned_def te_end_def)
  then have e: "edited 0 [?e] (text_of b) = str_bytes (cut ?cs x y)" by (simp add: bytes_split cut_def)
  have len: "length (str_bytes (cut ?cs x y)) \<le> length (text_of b)"
  proof -
    have "length (take (at b x) (text_of b) @ drop (at b y) (text_of b)) \<le> length (text_of b)"
      using offset_mono [OF assms(2), of ?cs] offset_le [of ?cs y] by simp
    then show ?thesis by (simp add: bytes_split cut_def)
  qed
  have fits: "text_fits (text_of b)" using place_okD(2,3) [OF assms(1)] by (simp add: text_fits_def)
  have "length (edited 0 [?e] (text_of b)) \<le> usize_max" unfolding e using len place_okD(3) [OF assms(1)] by (simp add: usize_max_def)
  moreover have "edits_safe (text_of b) [?e]" using range_edit_safe [OF assms, of "[]"] by simp
  ultimately show ?thesis using rewrite_safe(1) [OF fits] e by metis
qed

lemma delete_put_exact:
  assumes "heap_ok (vi_heap v)" "scalars cs" "length (str_bytes cs) \<le> 2 ^ 62" "at_ease Ready r e" "i \<le> length cs" "ends cs i < length cs"
  shows "\<exists>c f. replay_keys v (map Char_Key [0x64, 0x64, 0x50]) (str_bytes cs) (offset cs i) e = Some (str_bytes cs, c, f)"
proof -
  define b where "b = buffer_of (str_bytes cs)"
  have p: "place_ok v b i" "vb_chars b = cs" using assms by (simp_all add: b_def place_ok_def nchars_def)
  define m where "m = line_index b i"
  define x where "x = nth_line_start b m"
  define y where "y = nth_line_start b (m + 1)"
  define ds where "ds = cut cs x y"
  define j where "j = x + (first_non_blank b y - y)"
  define l where "l = str_bytes (slice x (y - x) cs)"
  have m: "m < buf_line_count b - 1"
    using line_end_next(1) [OF line_index_le, of b i] on_its_line(2) [OF place_okD(4) [OF p(1)]] assms(5,6) p(2) by (simp add: m_def line_end_ends nchars_def)
  have xy: "x < y" "y \<le> nchars b"
    using line_end_next(2) [OF _ m] m line_end_by_line_bounds [of b m] nth_line_start_le [of b "m + 1"] by (simp_all add: x_def y_def)
  have fy: "y \<le> first_non_blank b y" "first_non_blank b y \<le> length cs"
    using first_non_blank_bounds(1) [OF xy(2)] first_non_blank_le [OF xy(2)] p(2) by (simp_all add: nchars_def)
  obtain q1 f1 where k1: "key_step v (Char_Key 0x64) (str_bytes cs) (offset cs i) e = Some (q1, f1)" "vr_action q1 = No_Action"
      "vr_caret q1 = offset cs i" "at_ease (AfterOperator Delete) r f1"
    using delete_key [OF offset_boundary [OF assms(2)] assms(4)] by blast
  obtain q2 f2 where k2: "key_step v (Char_Key 0x64) (str_bytes cs) (offset cs i) f1 = Some (q2, f2)"
      "vr_action q2 = Edit [edit_at v (offset cs x) l []]" "vr_caret q2 = offset cs (first_non_blank b y) - (offset cs y - offset cs x)"
      "at_ease Ready \<lparr>rg_text = l, rg_linewise = True\<rparr> f2"
    using doubled_delete_key [OF p(1) b_def _ k1(4) m_def [symmetric] m] p(2) unfolding x_def y_def l_def by (metis b_def)
  have r2: "rewrite_ordered_edits (str_bytes cs) [edit_at v (offset cs x) l []] Forward = Some (str_bytes ds)"
    using cut_rewrites [OF p(1) less_imp_le [OF xy(1)] xy(2)] p(2) by (simp add: l_def ds_def)
  have sd: "scalars ds" "x \<le> length ds" "j \<le> length ds"
    using assms(2) xy fy p(2) by (simp_all add: ds_def cut_def j_def nchars_def)
  have oj: "vr_caret q2 = offset ds j"
    using offset_cut [of x y "first_non_blank b y - y" cs] xy fy k2(3) by (simp add: ds_def j_def)
  have len: "length (str_bytes ds) + length l = length (str_bytes cs)"
  proof -
    have "length (str_bytes (take x ds @ slice x (y - x) cs @ drop x ds)) = length (str_bytes cs)"
      using cut_restored [of x y cs] xy p(2) by (simp add: ds_def nchars_def)
    moreover have "length (str_bytes ds) = length (str_bytes (take x ds)) + length (str_bytes (drop x ds))"
      by (metis append_take_drop_id length_append str_bytes_simps(3))
    ultimately show ?thesis by (simp add: l_def)
  qed
  define c where "c = buffer_of (str_bytes ds)"
  have pc: "place_ok v c j" "vb_chars c = ds" using sd assms(1,3) len by (simp_all add: c_def place_ok_def nchars_def)
  have ls: "line_start c j = x"
    using begins_cut [OF place_okD(2) [OF p(1)] m] pc(2) p(2) by (simp add: line_start_begins ds_def j_def x_def y_def)
  have "slice x (y - x) cs \<noteq> []" using xy p(2) by (auto simp: slice_def nchars_def)
  then have "l \<noteq> []" by (cases "slice x (y - x) cs") (simp_all add: l_def)
  then obtain q3 f3 where k3: "key_step v (Char_Key 0x50) (str_bytes ds) (offset ds j) f2 = Some (q3, f3)" "vr_action q3 = Edit [insert_at v (offset ds x) l]"
    using put_line_key [OF pc(1) c_def _ k2(4)] pc(2) ls by (metis c_def)
  have "rewrite_ordered_edits (str_bytes ds) [insert_at v (offset ds x) l] Forward = Some (spliced (str_bytes ds) (offset ds x) l)"
    by (rule insert_rewrites(1)) (use sd assms(2,3) len in \<open>simp_all add: l_def usize_max_def\<close>)
  moreover have "spliced (str_bytes ds) (offset ds x) l = str_bytes cs"
    using cut_restored [of x y cs] xy p(2) by (simp add: spliced_def bytes_split l_def ds_def nchars_def flip: str_bytes_simps(3))
  ultimately show ?thesis using k1 k2 r2 k3 oj by simp
qed

end
