(* ===== verification/View_Props.thy ===== *)
theory View_Props
  imports View_Frame Vi_Props
begin

text \<open>
  The properties of a text view's frames: command lines are safe, searches land on the nearest match, and the caret
  decides whether a frame that changed the text survives.
\<close>

section \<open>A sample\<close>

text \<open>A view of the sample document with the caret on its second character, and \<open>:s\<close> with the empty pattern and an
  accented letter for it.\<close>

definition sample_view :: vi_view where
  "sample_view = (view_new sample_document)\<lparr>vw_caret_offset := 1\<rparr>"

definition sample_line :: str where
  "sample_line = [0x73, 0x2f, 0x2f, 0xe9, 0x2f]"

definition sample_substitute :: substitute_command where
  "sample_substitute = \<lparr>sc_range = CurrentLine, sc_pattern = [], sc_replacement = [0xe9], sc_flags = default_flags, sc_tokens = [Literal [0xe9]]\<rparr>"

lemma sample_parsed: "parse_line sample_line = Inr (Substitute sample_substitute)"
  by (simp add: sample_line_def sample_substitute_def parse_line_def trim_def is_whitespace_def lit_def is_ascii_digit_def is_substitution_def
      strip_prefix_def first_of_def parse_substitute_def parse_range_def bind_result_def tokenize_replacement_def tokenize_loop.simps push_literal_def
      parse_flags_def validate_flags_def default_flags_def)

lemma sample_session: "session_ok sample_vi sample_document sample_view" "places_ok sample_view"
  using view_new_ok [OF sample_fits]
  by (simp_all add: sample_view_def session_ok_def places_ok_def on_boundary_def view_new_def find_matches_def find_default_def
      is_char_boundary_def cont_def sample_document_def)

section \<open>Frames\<close>

lemma adopt_synced: "vw_buffer w = td_text d \<Longrightarrow> adopt_external_edits d w = w"
  by (simp add: adopt_external_edits_def)

lemma no_keys: "route_vi_keys v sv k focused [] doc w = Some (doc, w)"
  by (simp add: route_vi_keys_def)

lemma handed_places: "places_ok w \<Longrightarrow> places_ok (w\<lparr>vw_vi_caret := None\<rparr>) \<and> looks w (w\<lparr>vw_vi_caret := None\<rparr>)"
  by (simp add: places_ok_def looks_def)

lemma shown_places:
  assumes "search_engine_ok sv" "places_ok w" "utf8 (vw_buffer w)"
  shows "places_ok (if highlighting_matches w then refresh_view sv doc w else w) \<and> looks w (if highlighting_matches w then refresh_view sv doc w else w)"
  using refresh_view_ok [OF assms] assms(2) by simp

text \<open>The commands of the two-key commands of Normal mode.\<close>

lemma run_pending_ok:
  assumes "frame_post v d w (doc, w')" "vw_pending_command w \<in> {None, Some WriteQuit, Some QuitDiscarding}"
  shows "\<exists>c' w''. run_pending sv h c doc w' = Some (c', doc, w'') \<and> frame_post v d (w\<lparr>vw_pending_command := None\<rparr>) (doc, w'')"
proof -
  obtain d' where p: "vw_pending_command w' = vw_pending_command w" "doc = Some d'" "carried v d d' w'" "td_text d' = td_text d \<longrightarrow> places_ok w'"
    using assms(1) by (auto simp: frame_post_def)
  let ?u = "w'\<lparr>vw_pending_command := None\<rparr>"
  have post: "frame_post v d (w\<lparr>vw_pending_command := None\<rparr>) (doc, x)" if "looks ?u x" "places_ok ?u \<Longrightarrow> places_ok x" for x
  proof -
    have "session_ok v d' ?u" "places_ok ?u = places_ok w'" using p(3) by (simp_all add: carried_def session_ok_def places_ok_def)
    then show ?thesis using that p looks_session [OF that(1), of v d'] by (auto simp: frame_post_def carried_def looks_def)
  qed
  have a: "looks ?u (?u\<lparr>vw_command := area_close (vw_command ?u)\<rparr>)" by (rule area_closed)
  have "looks ?u (finish (Message m) (?u\<lparr>vw_close_after_save := True\<rparr>))" for m
    by (simp add: looks_def finish_def area_finish_def)
  then have f: "frame_post v d (w\<lparr>vw_pending_command := None\<rparr>) (doc, finish (Message m) (?u\<lparr>vw_close_after_save := True\<rparr>))" for m
    by (rule post) (simp add: places_ok_def finish_def)
  have "frame_post v d (w\<lparr>vw_pending_command := None\<rparr>) (doc, ?u\<lparr>vw_command := area_close (vw_command ?u)\<rparr>)"
    using a by (rule post) (simp add: places_ok_def)
  moreover have "frame_post v d (w\<lparr>vw_pending_command := None\<rparr>) (doc, w')" if "vw_pending_command w = None"
    using assms(1) that by (simp add: frame_post_def)
  ultimately show ?thesis using assms(2) p(1) f by (auto simp: run_pending_def)
qed

lemma close_when_saved_keeps: "close_when_saved b doc w = (c, w') \<Longrightarrow> looks w w' \<and> places_ok w' = places_ok w"
  by (auto simp: close_when_saved_def looks_def places_ok_def split: if_splits option.splits)

text \<open>
  C7. A frame of a text view that shows the document and holds the caret and the collected matches on character boundaries never
  panics, whatever event the command area reports: a search being typed, cancelled or run, any command line at
  all.  Afterwards the view shows the document's text again, a refused substitution was refused for the document's
  bounds only, at most one undo step was added, and unless the text changed the boundaries are kept.
\<close>

theorem command_frames_never_panic:
  assumes "heap_ok (vi_heap v)" "search_engine_ok sv" "session_ok v d w" "uh_next_serial (td_undo d) < usize_max" "places_ok w"
    "event_fits event" "vw_pending_command w \<in> {None, Some WriteQuit, Some QuitDiscarding}"
  shows "\<exists>command place d' w'. show_view v sv vi_keys focused conflict [] event (Some d) w = Some (command, place, Some d', w') \<and>
    session_ok v d' w' \<and> td_bounds d' = td_bounds d \<and> uh_next_serial (td_undo d') \<le> uh_next_serial (td_undo d) + 1 \<and>
    (td_text d' = td_text d \<longrightarrow> places_ok w')"
proof -
  have b: "vw_buffer w = td_text d" using assms(3) by (simp add: session_ok_def)
  define u where "u = (if highlighting_matches w then refresh_view sv (Some d) w else w)"
  have u: "places_ok u" "looks w u" using shown_places [OF assms(2,5)] session_text [OF assms(3)] by (simp_all add: u_def)
  obtain place where place: "hand_over_caret u = Some (place, u\<lparr>vw_vi_caret := None\<rparr>)" using hand_over_ok [OF u(1)] by blast
  let ?x = "u\<lparr>vw_vi_caret := None\<rparr>"
  have x: "places_ok ?x" "looks w ?x" using handed_places [OF u(1)] looks_trans u(2) by blast+
  obtain c doc y where y: "area_events sv (vi_heap v) vi_keys event (Some d) ?x = Some (c, doc, y)" "frame_post v d ?x (doc, y)"
    using area_events_ok [OF assms(1,2) looks_session [OF x(2) assms(3)] assms(4) x(1) assms(6), of vi_keys]
    by (auto simp: ok_iff command_post_def)
  have "vw_pending_command ?x \<in> {None, Some WriteQuit, Some QuitDiscarding}" using assms(7) x(2) by (simp add: looks_def)
  then obtain c' z where z: "run_pending sv (vi_heap v) c doc y = Some (c', doc, z)" "frame_post v d (?x\<lparr>vw_pending_command := None\<rparr>) (doc, z)"
    using run_pending_ok [OF y(2)] by blast
  obtain c'' w' where w': "close_when_saved conflict doc z = (c'', w')" by force
  note k = close_when_saved_keeps [OF w']
  obtain d' where d': "doc = Some d'" "carried v d d' z" "td_text d' = td_text d \<longrightarrow> places_ok z" using z(2) by (auto simp: frame_post_def)
  have "show_view v sv vi_keys focused conflict [] event (Some d) w = Some (or_else c'' c', place, Some d', w')"
    using place y(1) z(1) w' d'(1) by (simp add: show_view_def adopt_synced [OF b] no_keys u_def [symmetric])
  then show ?thesis using d'(2,3) k looks_session by (auto simp: carried_def)
qed

theorem command_frames_never_panic_witness:
  "\<exists>command place d' w'. show_view sample_vi sample_search True True False [] (Some (Run Ex sample_line)) (Some sample_document) sample_view =
     Some (command, place, Some d', w') \<and> vw_buffer w' = td_text d'"
proof -
  have "event_fits (Some (Run Ex sample_line))" by (simp add: event_fits_def line_fits_def sample_line_def is_scalar_def)
  moreover have "uh_next_serial (td_undo sample_document) < usize_max" by (simp add: sample_serial usize_max_def)
  moreover have "vw_pending_command sample_view \<in> {None, Some WriteQuit, Some QuitDiscarding}" by (simp add: sample_view_def view_new_def)
  ultimately show ?thesis
    using command_frames_never_panic [OF sample_vi_heap sample_engine sample_session(1) _ sample_session(2)] unfolding session_ok_def by blast
qed

section \<open>Carets left behind\<close>

lemma refresh_keeps [simp]:
  "vw_buffer (refresh_view sv doc w) = vw_buffer w" "vw_vi_caret (refresh_view sv doc w) = vw_vi_caret w"
  "vw_pending_command (refresh_view sv doc w) = vw_pending_command w"
  by (simp_all add: refresh_view_def)

lemma hand_over_None: "hand_over_caret w = None \<longleftrightarrow> (\<exists>i. vw_vi_caret w = Some i \<and> \<not> on_boundary (vw_buffer w) i)"
  by (auto simp: hand_over_caret_def on_boundary_def str_slice_def bind_eq_None_conv split: option.splits)

text \<open>A frame without an event, after its keys: it fails exactly at the caret.\<close>

lemma quiet_frame_None:
  assumes "route_vi_keys v sv k focused keys (Some d) (adopt_external_edits d w) = Some (doc, u)" "vw_pending_command u = None"
  shows "show_view v sv k focused conflict keys None (Some d) w = None \<longleftrightarrow> (\<exists>i. vw_vi_caret u = Some i \<and> \<not> on_boundary (vw_buffer u) i)"
proof -
  define x where "x = (if highlighting_matches u then refresh_view sv doc u else u)"
  have x: "vw_buffer x = vw_buffer u" "vw_vi_caret x = vw_vi_caret u" "vw_pending_command x = None" using assms(2) by (simp_all add: x_def)
  have p: "vw_pending_command y = None" if "hand_over_caret x = Some (place, y)" for place y
    using that x(3) by (auto simp: hand_over_caret_def split: option.splits bind_splits)
  have "show_view v sv k focused conflict keys None (Some d) w = None \<longleftrightarrow> hand_over_caret x = None"
  proof (cases "hand_over_caret x")
    case None
    then show ?thesis using assms(1) by (simp add: show_view_def x_def [symmetric])
  next
    case (Some q)
    obtain place y where "q = (place, y)" by (cases q)
    moreover obtain closing z where "close_when_saved conflict doc y = (closing, z)" by force
    ultimately show ?thesis using Some assms(1) p [of place y]
      by (simp add: show_view_def x_def [symmetric] area_events_def run_pending_def)
  qed
  then show ?thesis using hand_over_None [of x] x by simp
qed

text \<open>
  C38. The vi key u undoes without moving the caret: when a step was undone, the frame that handled the key panics exactly
  when the old caret is not on a character boundary of the restored text, because the caret is handed to the widget by
  slicing the text there.
\<close>

theorem undo_key_panics_off_boundary:
  assumes "ca_prompt (vw_command w) = None" "vw_prefix w = None" "vw_pending_command w = None" "vw_buffer w = td_text d"
    "\<not> ve_replaying (vw_vi w)" "ve_mode (vw_vi w) = Normal" "ve_stage (vw_vi w) = Ready" "ve_count (vw_vi w) = None"
    "doc_close_transaction d = Some c" "doc_undo c = Some (True, d')"
  shows "show_view v sv True True conflict [Char_Key 0x75] None (Some d) w = None \<longleftrightarrow> \<not> on_boundary (td_text d') (vw_caret_offset w)"
proof -
  have r: "on_key v (Char_Key 0x75) s i (vw_vi w) = Some (respond (reset_pending (vw_vi w)) Undo_Action i, reset_pending (vw_vi w))" for s i
    using assms(5-8) by (simp add: on_key_def Let_def)
  obtain u where u: "route_vi_keys v sv True True [Char_Key 0x75] (Some d) w = Some (Some d', u)" "vw_buffer u = td_text d'"
      "vw_vi_caret u = Some (vw_caret_offset w)" "vw_pending_command u = None"
    using assms(1-4,6,9,10)
    by (simp add: route_vi_keys_def view_key_def feed_vi_key_def engine_key_def r respond_def carry_out_def command_report_def area_report_def Let_def)
  show ?thesis using quiet_frame_None [of v sv True True "[Char_Key 0x75]" d w "Some d'" u conflict] u adopt_synced [OF assms(4)] by simp
qed

text \<open>A line that starts with an accented letter, after an \<open>a\<close> was typed in front of it, and the caret moved to the letter.\<close>

definition sample_prefixed :: text_document where
  "sample_prefixed = sample_document\<lparr>td_text := [0x61, 0xc3, 0xa9, 0x0a], td_undo := undo_new\<lparr>uh_entries := [\<lparr>tx_serial = 1,
      tx_edits = [\<lparr>te_start = 0, te_removed = \<lparr>rs_bytes = [], rs_capacity = 0\<rparr>, te_inserted = \<lparr>rs_bytes = [0x61], rs_capacity = 1\<rparr>\<rparr>],
      tx_open = False\<rparr>], uh_slots := 4, uh_applied := 1, uh_next_serial := 2, uh_payload_bytes := 57\<rparr>\<rparr>"

lemma sample_unprefixed:
  "doc_close_transaction sample_prefixed = Some sample_prefixed"
  "doc_undo sample_prefixed = Some (True, sample_prefixed\<lparr>td_text := [0xc3, 0xa9, 0x0a], td_revision := 1,
     td_undo := (td_undo sample_prefixed)\<lparr>uh_applied := 0\<rparr>\<rparr>)"
  by (simp_all add: sample_prefixed_def doc_close_transaction_def doc_undo_def step_back_def close_transaction_def rd_def sample_document_def
      replay_ordered_edits_def splice_edit_def replace_range_def is_char_boundary_def cont_def)

theorem undo_key_panics_off_boundary_witness:
  "show_view sample_vi sample_search True True False [Char_Key 0x75] None (Some sample_prefixed) ((view_new sample_prefixed)\<lparr>vw_caret_offset := 1\<rparr>) = None"
  using undo_key_panics_off_boundary [OF _ _ _ _ _ _ _ _ sample_unprefixed, of "(view_new sample_prefixed)\<lparr>vw_caret_offset := 1\<rparr>" sample_vi sample_search False]
  by (simp add: view_new_def vi_new_def area_new_def on_boundary_def is_char_boundary_def cont_def)

text \<open>
  C39. A substitution leaves the caret where it was: after a frame that ran \<open>:s\<close>, the next frame panics
  exactly when the old caret is not on a character boundary of the new text.
\<close>

theorem substitution_strands_caret:
  assumes "parse_line line = Inr (Substitute cmd)" "vw_pending_command w = None" "vw_buffer w = td_text d" "\<not> vw_close_after_save w"
    "show_view v sv True focused conflict [] (Some (Run Ex line)) (Some d) w = Some (command, place, Some d', w')"
  shows "show_view v sv True focused' conflict [] None (Some d') w' = None \<longleftrightarrow> \<not> on_boundary (td_text d') (vw_caret_offset w)"
proof -
  define x where "x = (if highlighting_matches w then refresh_view sv (Some d) w else w)"
  have x: "vw_caret_offset x = vw_caret_offset w" "vw_pending_command x = None" "vw_close_after_save x = vw_close_after_save w"
    using assms(2) by (simp_all add: x_def refresh_view_def)
  obtain q y where y: "hand_over_caret x = Some (q, y)" using assms(5) by (auto simp: show_view_def adopt_synced [OF assms(3)] no_keys x_def [symmetric] split: bind_splits)
  have y': "vw_caret_offset y = vw_caret_offset w" "vw_pending_command y = None" "\<not> vw_close_after_save y"
    using y x assms(4) by (auto simp: hand_over_caret_def split: option.splits bind_splits)
  obtain doc z where z: "run_substitution sv (vi_heap v) cmd (Some d) y = Some (doc, z)"
    using assms(1,5) y by (auto simp: show_view_def adopt_synced [OF assms(3)] no_keys x_def [symmetric] area_events_def run_command_line_def split: bind_splits)
  have z': "vw_caret_offset z = vw_caret_offset y" "vw_pending_command z = vw_pending_command y" "vw_close_after_save z = vw_close_after_save y"
    using z by (auto simp: run_substitution_def finish_def split: bind_splits sum.splits if_splits)
  have "w' = return_focus_to_body True z"
    using assms(1,5) y z y' z' by (simp add: show_view_def adopt_synced [OF assms(3)] no_keys x_def [symmetric] area_events_def run_command_line_def
        run_pending_def close_when_saved_def return_focus_to_body_def)
  then have w': "vw_vi_caret w' = Some (vw_caret_offset w)" "vw_pending_command w' = None" using y' z' by (simp_all add: return_focus_to_body_def)
  let ?a = "adopt_external_edits d' w'"
  have "vw_buffer ?a = td_text d'" "vw_vi_caret ?a = vw_vi_caret w'" "vw_pending_command ?a = vw_pending_command w'" by (auto simp: adopt_external_edits_def)
  then show ?thesis using quiet_frame_None [OF no_keys] w' by simp
qed

definition sample_edit :: text_edit where
  "sample_edit = \<lparr>te_start = 0, te_removed = \<lparr>rs_bytes = [], rs_capacity = 0\<rparr>, te_inserted = \<lparr>rs_bytes = [0xc3, 0xa9], rs_capacity = 2\<rparr>\<rparr>"

definition sample_accented :: text_document where
  "sample_accented = sample_document\<lparr>td_text := [0xc3, 0xa9, 0x61, 0x0a], td_revision := 1, td_undo := undo_new\<lparr>uh_entries := [\<lparr>tx_serial = 1,
      tx_edits = [sample_edit], tx_open = False\<rparr>], uh_slots := 4, uh_applied := 1, uh_next_serial := 2, uh_payload_bytes := 58\<rparr>\<rparr>"

lemma sample_substitution:
  "plan sample_search sample_substitute [0x61, 0x0a] (0, 1) None MATCH_LIMIT =
    Some (Inr \<lparr>sp_replacements = [\<lparr>sr_range = \<lparr>mr_start = 0, mr_end = 0\<rparr>, sr_removed = [], sr_replacement = [0xc3, 0xa9]\<rparr>], sp_total_matches = 1,
      sp_truncated = False, sp_count_only = False, sp_requires_confirmation = False\<rparr>)"
  by (simp add: plan_def plan_with_replacement_byte_limit_def bind_partial_def target_range_def sample_substitute_def validate_text_range_def
      compile_with_case_def analyze_pattern_def translate.simps sample_search_def line_ranges_def line_ranges_from.simps str_slice_def
      default_flags_def line_matches_def first_of_def sample_regex_def sample_places_def slice_def is_char_boundary_def cont_def MATCH_LIMIT_def
      sample_captures_def push_match_def checked_add_def usize_max_def encode_utf8_def DEFAULT_REPLACEMENT_BYTE_LIMIT_def bind_result_def u8_of_nat_def)

lemma sample_edits:
  "planned_edits sample_search sample_heap sample_substitute [0x61, 0x0a] (0, 1) = Some (Inr (1, [sample_edit]))"
  by (simp add: planned_edits_def bind_partial_def sample_substitution [unfolded One_nat_def] to_text_edits_def replacement_edit_def str_slice_def slice_def owned_def
      sample_heap_def Let_def validate_text_range_def sample_edit_def)

lemma sample_applied: "apply_edits sample_heap [sample_edit] sample_document = Some (Inr 1, sample_accented)"
proof -
  have l: "str_lines [0xc3, 0xa9, 0x61, 0x0a] = [[0xc3, 0xa9, 0x61]]" by (simp add: str_lines_def strip_cr_def)
  show ?thesis
    by (simp add: apply_edits_def sample_accented_def sample_edit_def sample_document_def str_slice_def is_char_boundary_def cont_def slice_def
        sample_heap_def apply_transaction_def prepare_def prepare_fresh_def plan_retention_def retire_loop.simps slot_storage_def
        sat_add_def sat_mul_def usize_max_def undo_new_def with_limits_def DEFAULT_MAX_BYTES_def DEFAULT_MAX_ENTRIES_def
        edit_storage_def Let_def checked_add_def rewritten_length_def check_declared_size_def default_bounds_def
        rewrite_ordered_edits_def rewrite_step_def te_end_def check_bounds_def check_lines_def line_count_def first_overlong_line_def l
        undo_commit_def)
qed

lemma sample_current_line: "current_line_range sample_view = Some (0, 1)"
  by (simp add: current_line_range_def sample_view_def view_new_def sample_document_def line_start_byte_def line_end_byte_def str_slice_def
      is_char_boundary_def cont_def slice_def)

lemma sample_run:
  "\<exists>w'. show_view sample_vi sample_search True True False [] (Some (Run Ex sample_line)) (Some sample_document) sample_view =
     Some (None, None, Some sample_accented, w')"
proof -
  have h: "highlighting_matches sample_view = False" "adopt_external_edits sample_document sample_view = sample_view"
      "hand_over_caret sample_view = Some (None, sample_view)" "vi_heap sample_vi = sample_heap" "sf_count_only (sc_flags sample_substitute) = False"
      "vw_buffer sample_view = [0x61, 0x0a]" "vw_pending_command sample_view = None" "vw_close_after_save sample_view = False"
    by (simp_all add: highlighting_matches_def sample_view_def view_new_def find_default_def area_new_def adopt_external_edits_def hand_over_caret_def
        sample_vi_def sample_substitute_def default_flags_def sample_document_def)
  show ?thesis
    by (simp add: show_view_def no_keys h area_events_def run_command_line_def sample_parsed run_substitution_def sample_current_line sample_edits [unfolded One_nat_def]
        sample_applied [unfolded One_nat_def] run_pending_def close_when_saved_def return_focus_to_body_def finish_def or_else_def)
qed

theorem substitution_strands_caret_witness:
  "\<exists>w'. show_view sample_vi sample_search True True False [] (Some (Run Ex sample_line)) (Some sample_document) sample_view =
     Some (None, None, Some sample_accented, w') \<and>
   show_view sample_vi sample_search True True False [] None (Some sample_accented) w' = None"
proof -
  obtain w' where r: "show_view sample_vi sample_search True True False [] (Some (Run Ex sample_line)) (Some sample_document) sample_view =
     Some (None, None, Some sample_accented, w')" using sample_run by blast
  have "vw_pending_command sample_view = None" "vw_buffer sample_view = td_text sample_document" "\<not> vw_close_after_save sample_view"
    by (simp_all add: sample_view_def view_new_def)
  then have "show_view sample_vi sample_search True True False [] None (Some sample_accented) w' = None"
    using substitution_strands_caret [OF sample_parsed _ _ _ r]
    by (simp add: sample_accented_def sample_view_def on_boundary_def is_char_boundary_def cont_def)
  with r show ?thesis by blast
qed

section \<open>Searches\<close>

lemma find_position_Some:
  assumes "find_position P xs = Some k"
  shows "k < length xs \<and> P (xs ! k) \<and> (\<forall>j < k. \<not> P (xs ! j))"
proof -
  have k: "k = length (takeWhile (\<lambda>x. \<not> P x) xs)" "k < length xs" using assms by (auto simp: find_position_def Let_def split: if_splits)
  have "\<not> P (xs ! j)" if "j < k" for j
    using that k(1) takeWhile_nth [of j "\<lambda>x. \<not> P x" xs] nth_mem [of j "takeWhile (\<lambda>x. \<not> P x) xs"] set_takeWhileD by metis
  then show ?thesis using k nth_length_takeWhile [of "\<lambda>x. \<not> P x" xs] by auto
qed

lemma find_position_None: "find_position P xs = None \<Longrightarrow> x \<in> set xs \<Longrightarrow> \<not> P x"
proof -
  assume "find_position P xs = None" "x \<in> set xs"
  then have "length (takeWhile (\<lambda>x. \<not> P x) xs) = length xs" using length_takeWhile_le [of "\<lambda>x. \<not> P x" xs]
    by (auto simp: find_position_def Let_def split: if_splits)
  then have "takeWhile (\<lambda>x. \<not> P x) xs = xs" by (metis append_eq_conv_conj takeWhile_dropWhile_id take_all_iff order_refl)
  then show ?thesis using \<open>x \<in> set xs\<close> by (metis set_takeWhileD)
qed

lemma find_last_Some:
  assumes "find_last P xs = Some k"
  shows "k < length xs \<and> P (xs ! k) \<and> (\<forall>j. k < j \<and> j < length xs \<longrightarrow> \<not> P (xs ! j))"
proof -
  obtain i where i: "find_position P (rev xs) = Some i" "k = length xs - 1 - i" using assms by (auto simp: find_last_def)
  note p = find_position_Some [OF i(1)]
  have "\<not> P (xs ! j)" if "k < j" "j < length xs" for j
  proof -
    have "length xs - 1 - j < i" using that i(2) by simp
    then show ?thesis using p that by (auto simp: rev_nth)
  qed
  then show ?thesis using p i(2) by (auto simp: rev_nth)
qed

lemma find_last_None: "find_last P xs = None \<Longrightarrow> x \<in> set xs \<Longrightarrow> \<not> P x"
  using find_position_None [of P "rev xs" x] by (simp add: find_last_def)

lemma starts_sorted: "matches_ok s ms \<Longrightarrow> i \<le> j \<Longrightarrow> j < length ms \<Longrightarrow> mr_start (ms ! i) \<le> mr_start (ms ! j)"
  by (cases "i = j") (auto simp: matches_ok_def apart_def list_all_length valid_match_def dest!: sorted_wrt_nth_less [of _ _ i j])

text \<open>The match nearest to the caret, in the direction of the search and past the ends of the text.\<close>

definition nearest :: "bool \<Rightarrow> nat \<Rightarrow> match_range list \<Rightarrow> match_range \<Rightarrow> bool" where
  "nearest backward caret ms m \<longleftrightarrow> m \<in> set ms \<and>
     (let ahead = (\<lambda>n. if backward then mr_start n < caret else caret < mr_start n);
          before = (\<lambda>a b. if backward then mr_start b \<le> mr_start a else mr_start a \<le> mr_start b)
      in if list_ex ahead ms then ahead m \<and> list_all (\<lambda>n. ahead n \<longrightarrow> before m n) ms else list_all (before m) ms)"

definition selected :: "bool \<Rightarrow> nat \<Rightarrow> match_range list \<Rightarrow> nat option" where
  "selected backward caret ms =
     (if backward then or_else (find_last (\<lambda>m. mr_start m < caret) ms) (checked_sub (length ms) 1)
      else or_else (find_position (\<lambda>m. caret < mr_start m) ms) (Some 0))"

lemma selected_nearest:
  assumes "matches_ok s ms" "ms \<noteq> []"
  obtains k where "selected backward caret ms = Some k" "k < length ms" "nearest backward caret ms (ms ! k)"
proof (cases backward)
  case True
  show thesis
  proof (cases "find_last (\<lambda>m. mr_start m < caret) ms")
    case None
    have none: "\<not> list_ex (\<lambda>m. mr_start m < caret) ms" using find_last_None [OF None] by (auto simp: list_ex_iff)
    let ?k = "length ms - 1"
    have "list_all (\<lambda>n. mr_start n \<le> mr_start (ms ! ?k)) ms" using starts_sorted [OF assms(1)] assms(2) by (auto simp: list_all_length)
    then have "nearest backward caret ms (ms ! ?k)" using none True assms(2) by (simp add: nearest_def)
    then show thesis using that [of ?k] None True assms(2) by (cases ms) (simp_all add: selected_def or_else_def checked_sub_def)
  next
    case (Some k)
    note k = find_last_Some [OF Some]
    have "mr_start (ms ! j) \<le> mr_start (ms ! k)" if "j < length ms" "mr_start (ms ! j) < caret" for j
      using starts_sorted [OF assms(1), of j k] k that by (meson not_le_imp_less)
    then have "nearest backward caret ms (ms ! k)" using k True by (auto simp: nearest_def list_all_length list_ex_iff)
    then show thesis using that [of k] Some True k by (simp add: selected_def or_else_def)
  qed
next
  case False
  show thesis
  proof (cases "find_position (\<lambda>m. caret < mr_start m) ms")
    case None
    have none: "\<not> list_ex (\<lambda>m. caret < mr_start m) ms" using find_position_None [OF None] by (auto simp: list_ex_iff)
    have "list_all (\<lambda>n. mr_start (ms ! 0) \<le> mr_start n) ms" using starts_sorted [OF assms(1)] by (auto simp: list_all_length)
    then have "nearest backward caret ms (ms ! 0)" using none False assms(2) by (simp add: nearest_def)
    then show thesis using that [of 0] None False assms(2) by (simp add: selected_def or_else_def)
  next
    case (Some k)
    note k = find_position_Some [OF Some]
    have "mr_start (ms ! k) \<le> mr_start (ms ! j)" if "j < length ms" "caret < mr_start (ms ! j)" for j
      using starts_sorted [OF assms(1), of k j] k that by (meson not_le_imp_less)
    then have "nearest backward caret ms (ms ! k)" using k False by (auto simp: nearest_def list_all_length list_ex_iff)
    then show thesis using that [of k] Some False k by (simp add: selected_def or_else_def)
  qed
qed

lemma step_to_selected:
  assumes "rd (find_matches (vw_find w)) k = Some m"
  shows "vw_caret_offset (step_match 0 (w\<lparr>vw_find := (vw_find w)\<lparr>fi_current := Some k\<rparr>\<rparr>)) = mr_start m"
    "vw_vi_caret (step_match 0 (w\<lparr>vw_find := (vw_find w)\<lparr>fi_current := Some k\<rparr>\<rparr>)) = Some (mr_start m)"
  using assms by (auto simp: step_match_def Let_def command_report_def find_matches_def rd_def split: option.splits if_splits)

text \<open>Behind all the matches the nearest one is the first.\<close>

lemma first_when_past:
  assumes "matches_ok s ms" "nearest backward caret ms m"
  shows "\<not> backward \<Longrightarrow> list_all (\<lambda>m. mr_start m \<le> caret) ms \<Longrightarrow> ms \<noteq> [] \<Longrightarrow> mr_start m = mr_start (hd ms)"
proof -
  assume a: "\<not> backward" "list_all (\<lambda>m. mr_start m \<le> caret) ms" "ms \<noteq> []"
  then have "\<not> list_ex (\<lambda>n. caret < mr_start n) ms" by (auto simp: list_all_iff list_ex_iff)
  then have m: "m \<in> set ms" "\<forall>n \<in> set ms. mr_start m \<le> mr_start n" using assms(2) a(1) by (auto simp: nearest_def list_all_iff)
  obtain i where "i < length ms" "m = ms ! i" using m(1) by (auto simp: in_set_conv_nth)
  then have "mr_start (hd ms) \<le> mr_start m" using starts_sorted [OF assms(1), of 0 i] a(3) by (simp add: hd_conv_nth)
  then show ?thesis using m(2) a(3) by (simp add: le_antisym)
qed

text \<open>The collected results describe the query and the text, unless they are out of date.\<close>

definition results_current :: "search_env \<Rightarrow> str \<Rightarrow> text_document option \<Rightarrow> vi_view \<Rightarrow> bool" where
  "results_current sv query doc w \<longleftrightarrow> fi_searched (vw_find w) = Some (query, doc_revision doc) \<longrightarrow>
     (\<forall>r. compile sv query = Inr r \<longrightarrow> fi_outcome (vw_find w) = Some (find_all r (vw_buffer w) MATCH_LIMIT))"

lemma refreshed_outcome:
  assumes "compile sv (fi_query (vw_find w)) = Inr r" "results_current sv (fi_query (vw_find w)) doc w" "fi_query (vw_find w) \<noteq> []"
  shows "fi_outcome (vw_find (refresh_view sv doc w)) = Some (find_all r (vw_buffer w) MATCH_LIMIT)"
  using assms by (auto simp: refresh_view_def find_refresh_def results_current_def Let_def)

text \<open>
  C15. A search from the prompt lands on the match nearest to the caret among the first 2000 of the text, which are all
  that a view collects: going forwards the first of them behind the caret, or the first of the text when none of them is
  left, going backwards the last one before it, or the last of them.  Where the text has no more than 2000 matches, this
  is the nearest of all matches; where it has more and the caret is behind the 2000th, a search forwards goes back to the
  first match, although others follow.  The caret stands on the start of the match found, in the view and for the widget.
\<close>

theorem search_prompt_lands:
  assumes "search_engine_ok sv" "utf8 (vw_buffer w)" "ca_prompt (vw_command w) = Some p" "p \<noteq> Ex" "ca_input (vw_command w) = query"
    "query \<noteq> []" "compile sv query = Inr r" "results_current sv query doc w" "find_iter r (vw_buffer w) = ns" "ns \<noteq> []"
  shows "\<exists>w' m. run_command_line sv h p line doc w = Some (None, doc, w') \<and>
    nearest (p = SearchBackward) (vw_caret_offset w) (take 2000 ns) m \<and>
    (length ns \<le> 2000 \<longrightarrow> nearest (p = SearchBackward) (vw_caret_offset w) ns m) \<and>
    (2000 < length ns \<and> p = SearchForward \<and> list_all (\<lambda>m. mr_start m \<le> vw_caret_offset w) (take 2000 ns) \<longrightarrow> mr_start m = mr_start (hd ns)) \<and>
    vw_caret_offset w' = mr_start m \<and> vw_vi_caret w' = Some (mr_start m)"
proof -
  define ms where "ms = take 2000 ns"
  have found: "so_matches (find_all r (vw_buffer w) MATCH_LIMIT) = ms" "ms \<noteq> []"
    using assms(9,10) by (simp_all add: ms_def find_all_def MATCH_LIMIT_def)
  let ?q = "w\<lparr>vw_find := (vw_find w)\<lparr>fi_query := query\<rparr>\<rparr>"
  define u where "u = (refresh_view sv doc ?q)\<lparr>vw_searching := True, vw_search_backward := (p = SearchBackward)\<rparr>"
  have "fi_outcome (vw_find (refresh_view sv doc ?q)) = Some (find_all r (vw_buffer w) MATCH_LIMIT)"
    using refreshed_outcome [of sv ?q r doc] assms(6-8) by (simp add: results_current_def)
  then have ms: "find_matches (vw_find u) = ms" using found(1) by (simp add: u_def find_matches_def)
  have u: "vw_caret_offset u = vw_caret_offset w" "vw_search_backward u = (p = SearchBackward)" by (simp_all add: u_def refresh_view_def)
  have "regex_ok r" using assms(1,7) by (auto simp: search_engine_ok_def compile_def compile_with_case_def split: sum.splits)
  then have ok: "matches_ok (vw_buffer w) ms" using find_all_ok [OF _ assms(2), of r MATCH_LIMIT] found(1) by simp
  obtain k where k: "selected (p = SearchBackward) (vw_caret_offset w) ms = Some k" "k < length ms"
      "nearest (p = SearchBackward) (vw_caret_offset w) ms (ms ! k)"
    by (rule selected_nearest [OF ok found(2)])
  let ?s = "step_match 0 (u\<lparr>vw_find := (vw_find u)\<lparr>fi_current := Some k\<rparr>\<rparr>)"
  have "select_match_from_caret u = ?s"
    using k(1) by (simp add: select_match_from_caret_def ms u selected_def split: if_splits)
  then have "run_command_line sv h p line doc w = Some (None, doc, finish (Summary (summary (vw_find ?s))) ?s)"
    using assms(3-5) by (simp add: run_command_line_def preview_search_def u_def [symmetric] Let_def)
  moreover have "rd (find_matches (vw_find u)) k = Some (ms ! k)" using ms k(2) by (simp add: rd_def)
  moreover have "p = SearchForward \<and> list_all (\<lambda>m. mr_start m \<le> vw_caret_offset w) ms \<longrightarrow> mr_start (ms ! k) = mr_start (hd ns)"
    using first_when_past [OF ok k(3)] found(2) by (auto simp: ms_def)
  ultimately show ?thesis using k(3) step_to_selected [of u k]
    by (intro exI [of _ "finish (Summary (summary (vw_find ?s))) ?s"] exI [of _ "ms ! k"]) (auto simp: finish_def ms_def)
qed

lemma sample_found:
  "compile sample_search query = Inr r \<Longrightarrow> r = sample_regex" "so_matches (find_all sample_regex [0x61, 0x0a] MATCH_LIMIT) = map (\<lambda>i. \<lparr>mr_start = i, mr_end = i\<rparr>) [0, 1, 2]"
  by (auto simp: compile_def compile_with_case_def sample_search_def find_all_def sample_regex_def sample_places_def is_char_boundary_def cont_def MATCH_LIMIT_def
      split: sum.splits if_splits)

theorem search_prompt_lands_witness:
  "\<exists>w'. run_command_line sample_search sample_heap SearchForward [0x61] (Some sample_document)
     (sample_view\<lparr>vw_command := (area_open SearchForward area_new)\<lparr>ca_input := [0x61]\<rparr>\<rparr>) = Some (None, Some sample_document, w') \<and> vw_caret_offset w' = 2"
proof -
  let ?w = "sample_view\<lparr>vw_command := (area_open SearchForward area_new)\<lparr>ca_input := [0x61]\<rparr>\<rparr>" and ?ns = "map (\<lambda>i. \<lparr>mr_start = i, mr_end = i\<rparr>) [0, 1, 2]"
  have c: "compile sample_search [0x61] = Inr sample_regex"
    by (simp add: compile_def compile_with_case_def analyze_pattern_def translate.simps sample_search_def)
  have w: "vw_buffer ?w = [0x61, 0x0a]" "vw_caret_offset ?w = 1" "results_current sample_search [0x61] (Some sample_document) ?w"
    by (simp_all add: sample_view_def view_new_def sample_document_def results_current_def find_default_def)
  have ns: "find_iter sample_regex [0x61, 0x0a] = ?ns" by (simp add: sample_regex_def sample_places_def is_char_boundary_def cont_def)
  have "nearest False 1 ?ns m \<Longrightarrow> mr_start m = 2" for m by (auto simp: nearest_def)
  then show ?thesis
    using search_prompt_lands [OF sample_engine _ _ _ _ _ c, of ?w SearchForward "Some sample_document" ?ns sample_heap "[0x61]"] w ns
    by (fastforce simp: area_open_def utf8_ascii)
qed

text \<open>
  C40. The key * searches the word under the caret but always lands on its first occurrence in the text, wherever
  the caret is; # lands on the last one of the first 2000 occurrences.
\<close>

theorem word_search_ignores_caret:
  assumes "word_under_caret sv (vw_buffer w) (vw_caret_offset w) = Some (Some word)" "compile sv (literal_word_pattern sv word) = Inr r"
    "literal_word_pattern sv word \<noteq> []" "so_matches (find_all r (vw_buffer w) MATCH_LIMIT) = ms" "ms \<noteq> []"
  shows "(\<exists>w'. run_search_intent sv WordForward doc w = Some w' \<and> vw_caret_offset w' = mr_start (hd ms)) \<and>
    (\<exists>w'. run_search_intent sv WordBackward doc w = Some w' \<and> vw_caret_offset w' = mr_start (last ms))"
proof -
  let ?q = "w\<lparr>vw_find := (vw_find w)\<lparr>fi_query := literal_word_pattern sv word, fi_searched := None\<rparr>, vw_searching := True\<rparr>"
  let ?u = "refresh_view sv doc ?q"
  have "fi_outcome (vw_find ?u) = Some (find_all r (vw_buffer w) MATCH_LIMIT)" "fi_current (vw_find ?u) = Some 0"
    using assms(2-5) by (auto simp: refresh_view_def find_refresh_def Let_def first_of_def split: list.split)
  then have u: "find_matches (vw_find ?u) = ms" "fi_current (vw_find ?u) = Some 0" using assms(4) by (simp_all add: find_matches_def)
  have "0 < int (length ms)" using assms(5) by simp
  then have m: "nat (- 1 mod int (length ms)) = length ms - 1" using zmod_minus1 [of "int (length ms)"] by linarith
  have "vw_caret_offset (step_match (- 1) x) = mr_start (last ms)" "vw_caret_offset (step_match 0 x) = mr_start (hd ms)"
    if "find_matches (vw_find x) = ms" "fi_current (vw_find x) = Some 0" for x
    using that assms(5) m by (simp_all add: step_match_def Let_def command_report_def rd_def last_conv_nth hd_conv_nth)
  note this [OF u]
  then show ?thesis using assms(1) by (simp add: search_word_def Let_def)
qed

theorem word_search_ignores_caret_witness:
  "(\<exists>w'. run_search_intent sample_search WordForward None sample_view = Some w' \<and> vw_caret_offset w' = 0) \<and>
   (\<exists>w'. run_search_intent sample_search WordBackward None sample_view = Some w' \<and> vw_caret_offset w' = 2)"
proof -
  have chars: "str_chars [0x61] = [0x61]" "str_chars [0x0a] = [0x0a]"
    using str_chars_bytes [of "[0x61]"] str_chars_bytes [of "[0x0a]"] by (simp_all add: is_scalar_def encode_utf8_def u8_of_nat_def)
  have u: "word_under_caret sample_search (vw_buffer sample_view) (vw_caret_offset sample_view) = Some (Some [0x61])"
    by (simp add: word_under_caret_def sample_view_def view_new_def sample_document_def str_slice_def is_char_boundary_def cont_def slice_def
        word_char_def sample_search_def chars)
  have l: "literal_word_pattern sample_search [0x61] = [0x5c, 0x62, 0x61, 0x5c, 0x62]"
    by (simp add: literal_word_pattern_def word_char_def sample_search_def meta_characters_def Let_def)
  have c: "compile sample_search (literal_word_pattern sample_search [0x61]) = Inr sample_regex" "literal_word_pattern sample_search [0x61] \<noteq> []"
    by (simp_all add: l compile_def compile_with_case_def analyze_pattern_def translate.simps) (simp add: sample_search_def)
  have "vw_buffer sample_view = [0x61, 0x0a]" by (simp add: sample_view_def view_new_def sample_document_def)
  then show ?thesis using word_search_ignores_caret [OF u c, of _ None] sample_found(2) by simp
qed

end
