(* ===== verification/Ex_Area.thy ===== *)
theory Ex_Area
  imports Ex_Command Find_Laws Machine
begin

text \<open>
  What typed lines mean and what the command area keeps: printed commands come back through the command line, only
  names that run are offered, and the history is bounded and walked line by line.
\<close>

section \<open>Lines\<close>

lemma trim_solid:
  assumes "s \<noteq> []" "\<not> is_whitespace (hd s)" "\<not> is_whitespace (last s)"
  shows "trim s = s"
proof -
  have "dropWhile is_whitespace s = s" using assms by (cases s) simp_all
  moreover have "dropWhile is_whitespace (rev s) = rev s" using assms by (cases s rule: rev_cases) simp_all
  ultimately show ?thesis by (simp add: trim_def)
qed

lemma print_flags_solid: "\<not> is_whitespace (last (0x2f # print_flags f))"
  by (simp add: print_flags_def is_whitespace_def)

lemma print_command_tail: "print_command a p ks f = 0x3a # tl (print_command a p ks f)"
  by (cases a) (simp_all add: print_command_def)

lemma print_command_is_substitution: "is_substitution (tl (print_command a p ks f))"
  by (cases a) (simp_all add: print_command_def is_substitution_def strip_prefix_def lit_def first_of_def)

lemma substitution_first:
  "s \<noteq> [] \<Longrightarrow> hd s \<in> {0x73, 0x25, 0x27} \<Longrightarrow> \<not> is_whitespace (hd s) \<and> s \<noteq> lit ''$'' \<and> \<not> list_all is_ascii_digit s"
  by (cases s) (auto simp: lit_def is_ascii_digit_def is_whitespace_def)

lemma parse_line_substitution:
  assumes "spellable ks" "validate_flags f = Inr f"
  shows "parse_line (tl (print_command a p ks f)) =
    Inr (Substitute \<lparr>sc_range = a, sc_pattern = p, sc_replacement = concat (map shown_token ks), sc_flags = f, sc_tokens = ks\<rparr>)"
proof -
  let ?c = "tl (print_command a p ks f)"
  have h: "?c \<noteq> []" "hd ?c \<in> {0x73, 0x25, 0x27}" by (cases a; simp add: print_command_def)+
  have "last ?c = last (0x2f # print_flags f)"
    by (cases a) (simp_all add: print_command_def)
  then have t: "trim ?c = ?c" using h(1) substitution_first [OF h] print_flags_solid [of f] by (intro trim_solid) simp_all
  show ?thesis
    using t h(1) substitution_first [OF h] print_command_is_substitution [of a p ks f] parse_print_command [OF assms, of a p] print_command_tail [of a p ks f]
    by (simp add: parse_line_def Let_def)
qed

text \<open>Every name that is offered is a command that runs without an argument.\<close>

lemma names_parse: "name \<in> set COMMAND_NAMES \<Longrightarrow> \<exists>c. parse_line name = Inr c"
  by (auto simp: COMMAND_NAMES_def lit_def parse_line_def trim_def is_whitespace_def is_ascii_digit_def is_substitution_def strip_prefix_def
      first_of_def starts_with_def split_name_def parse_named_def reject_argument_def)

lemma completions_parse:
  assumes "name \<in> set (completions p)"
  shows "(\<exists>c. parse_line name = Inr c) \<and> starts_with name (dropWhile (\<lambda>c. c = 0x3a) p)"
  using assms names_parse by (auto simp: completions_def Let_def split: if_splits)

text \<open>A line address: a decimal number is a line, the first one for 0.\<close>

lemma capture_number_append: "capture_number (ds @ [d]) = capture_number ds * 10 + (d - 0x30)"
  by (simp add: capture_number_def)

fun decimal_text :: "nat \<Rightarrow> str" where
  "decimal_text n = (if n < 10 then [0x30 + n] else decimal_text (n div 10) @ [0x30 + n mod 10])"

declare decimal_text.simps [simp del]

lemma decimal_text_digits: "decimal_text n \<noteq> [] \<and> list_all is_ascii_digit (decimal_text n) \<and> capture_number (decimal_text n) = n"
proof (induction n rule: decimal_text.induct)
  case (1 n)
  show ?case
  proof (cases "n < 10")
    case True
    then show ?thesis by (simp add: decimal_text.simps [of n] is_ascii_digit_def capture_number_def)
  next
    case False
    then show ?thesis using 1 by (simp add: decimal_text.simps [of n] is_ascii_digit_def capture_number_append)
  qed
qed

lemma parse_line_address: "parse_line (decimal_text n) = (if n \<le> usize_max then Inr (GoToLine (Line_Number (max n 1))) else Inl Line_Number_Too_Large)"
proof -
  let ?t = "decimal_text n"
  note d = decimal_text_digits [of n]
  have "\<not> is_whitespace c" if "c \<in> set ?t" for c using d that by (auto simp: list_all_iff is_ascii_digit_def is_whitespace_def)
  then have "trim ?t = ?t" using d by (intro trim_solid) simp_all
  moreover have "?t \<noteq> lit ''$''" using d by (auto simp: lit_def is_ascii_digit_def)
  ultimately show ?thesis using d by (simp add: parse_line_def Let_def)
qed

section \<open>History\<close>

text \<open>
  The history holds at most fifty lines, none blank and no two equal ones in a row; a recalled index points into it
  and the input shows the line it points to, counted from the end.
\<close>

definition area_ok :: "'o command_area \<Rightarrow> bool" where
  "area_ok a \<longleftrightarrow> length (ca_history a) \<le> HISTORY_LIMIT \<and> list_all (\<lambda>l. trim l \<noteq> []) (ca_history a) \<and>
     successively (\<noteq>) (ca_history a) \<and> (\<forall>i. ca_recall a = Some i \<longrightarrow> i < length (ca_history a))"

lemma successively_snoc: "successively P (xs @ [x]) \<longleftrightarrow> successively P xs \<and> (xs = [] \<or> P (last xs) x)"
  by (simp add: successively_append_iff)

lemma successively_tl: "successively P xs \<Longrightarrow> successively P (tl xs)"
  by (cases xs) (auto simp: successively_Cons)

lemma list_all_tl: "list_all P xs \<Longrightarrow> list_all P (tl xs)"
  by (cases xs) simp_all

lemma remember_ok:
  assumes "area_ok a" "ca_recall a = None"
  shows "area_ok (remember l a)" "ca_recall (remember l a) = None"
  using assms by (auto simp: remember_def area_ok_def HISTORY_LIMIT_def Let_def successively_snoc intro!: successively_tl list_all_tl)

lemma recall_previous_ok: "area_ok a \<Longrightarrow> ok (\<lambda>(_, b). area_ok b) (recall_previous a)"
  by (auto simp: recall_previous_def area_ok_def Let_def rd_def checked_sub_def split: option.splits if_splits)

lemma recall_next_ok: "area_ok a \<Longrightarrow> ok (\<lambda>(_, b). area_ok b) (recall_next a)"
  by (auto simp: recall_next_def area_ok_def rd_def checked_sub_def split: option.splits)

text \<open>The keys and calls that reach the area; the text field may change the input at any time.\<close>

datatype 'o area_op = Open_Area command_prompt | Close_Area | Report_Outcome 'o | Finish_Line 'o | Key_Up | Key_Down | Key_Tab | Type_Text str

primrec area_do :: "'o area_op \<Rightarrow> 'o command_area \<Rightarrow> 'o command_area option" where
  "area_do (Open_Area p) a = Some (area_open p a)"
| "area_do Close_Area a = Some (area_close a)"
| "area_do (Report_Outcome x) a = Some (area_report x a)"
| "area_do (Finish_Line x) a = Some (area_finish x a)"
| "area_do Key_Up a = map_option snd (recall_previous a)"
| "area_do Key_Down a = map_option snd (recall_next a)"
| "area_do Key_Tab a = Some (snd (area_complete a))"
| "area_do (Type_Text s) a = Some (a\<lparr>ca_input := s\<rparr>)"

lemma area_close_ok: "area_ok a \<Longrightarrow> area_ok (area_close a) \<and> ca_recall (area_close a) = None"
  by (simp add: area_close_def area_ok_def)

lemma area_do_ok: "area_ok a \<Longrightarrow> ok area_ok (area_do x a)"
proof (cases x)
  case Key_Up
  assume "area_ok a"
  then show ?thesis using recall_previous_ok [of a] Key_Up by (auto simp: ok_iff)
next
  case Key_Down
  assume "area_ok a"
  then show ?thesis using recall_next_ok [of a] Key_Down by (auto simp: ok_iff)
next
  case (Finish_Line y)
  assume "area_ok a"
  then show ?thesis using remember_ok [of "area_close a" "ca_input a"] area_close_ok [of a] Finish_Line
    by (simp add: area_finish_def area_ok_def)
qed (auto simp: area_open_def area_close_def area_report_def area_complete_def area_ok_def split: list.split)

interpretation ca: machine area_do "\<lambda>_. True" area_ok
  by unfold_locales (rule area_do_ok)

lemma area_new_ok: "area_ok area_new"
  by (simp add: area_new_def area_ok_def HISTORY_LIMIT_def)

text \<open>Up walks to older lines, one by one, and Down back again, ending on the empty line.\<close>

definition recalled :: "'o command_area \<Rightarrow> nat \<Rightarrow> 'o command_area" where
  "recalled a k = (if k = 0 then a else a\<lparr>ca_recall := Some (k - 1), ca_input := ca_history a ! (length (ca_history a) - k)\<rparr>)"

lemma foldM_snoc_replicate: "foldM f (replicate (Suc k) x) s = foldM f (replicate k x) s \<bind> f x"
proof -
  have "replicate (Suc k) x = replicate k x @ [x]" by (simp add: replicate_append_same)
  moreover have "foldM f [x] t = f x t" for t by (cases "f x t") simp_all
  ultimately show ?thesis by (cases "foldM f (replicate k x) s") (simp_all add: foldM_append del: replicate.simps foldM.simps)
qed

lemma walk_up:
  assumes "ca_recall a = None"
  shows "k \<le> length (ca_history a) \<Longrightarrow> foldM area_do (replicate k Key_Up) a = Some (recalled a k)"
proof (induction k)
  case (Suc k)
  then have "recall_previous (recalled a k) = Some (True, recalled a (Suc k))"
    using assms by (auto simp: recall_previous_def recalled_def rd_def checked_sub_def Let_def)
  then show ?case using Suc by (simp add: foldM_snoc_replicate del: replicate.simps)
qed (simp add: recalled_def)

lemma walk_down:
  assumes "ca_recall a = None" "0 < k" "k \<le> length (ca_history a)"
  shows "foldM area_do (replicate k Key_Down) (recalled a k) = Some (a\<lparr>ca_input := []\<rparr>)"
  using assms(2,3)
proof (induction k)
  case (Suc k)
  show ?case
  proof (cases "k = 0")
    case True
    then show ?thesis using assms(1) by (simp add: recalled_def recall_next_def)
  next
    case False
    then have "recall_next (recalled a (Suc k)) = Some (True, recalled a k)"
      using Suc.prems by (auto simp: recall_next_def recalled_def rd_def checked_sub_def)
    then show ?thesis using Suc False by simp
  qed
qed simp

section \<open>The command line\<close>

text \<open>
  The command line means what it shows: every substitution command, printed without its colon, is read as that
  substitution; every number is read as that line (the first one for 0), and refused where it does not fit the machine;
  every name that completion offers continues what was typed and is a command that runs.
\<close>

theorem command_line_reads:
  "(spellable ks \<and> validate_flags f = Inr f \<longrightarrow> parse_line (tl (print_command a p ks f)) =
      Inr (Substitute \<lparr>sc_range = a, sc_pattern = p, sc_replacement = concat (map shown_token ks), sc_flags = f, sc_tokens = ks\<rparr>)) \<and>
   parse_line (decimal_text n) = (if n \<le> usize_max then Inr (GoToLine (Line_Number (max n 1))) else Inl Line_Number_Too_Large) \<and>
   (name \<in> set (completions typed) \<longrightarrow> (\<exists>c. parse_line name = Inr c) \<and> starts_with name (dropWhile (\<lambda>c. c = 0x3a) typed))"
  using parse_line_substitution parse_line_address completions_parse by blast

theorem command_line_reads_witness:
  "parse_line (tl (print_command WholeDocument [0x61] [WholeMatch] default_flags)) =
      Inr (Substitute \<lparr>sc_range = WholeDocument, sc_pattern = [0x61], sc_replacement = [0x26], sc_flags = default_flags, sc_tokens = [WholeMatch]\<rparr>)"
  using command_line_reads [of "[WholeMatch]" default_flags WholeDocument "[0x61]"] by (simp add: validate_flags_def default_flags_def)

text \<open>
  C26. Whatever is typed, opened, finished, recalled and completed, the command area never panics, and its history holds at most
  fifty lines, none of them blank and no two equal ones in a row.  From a freshly opened area the k-th press of Up
  shows the k-th newest line, and as many presses of Down lead back to the empty line.
\<close>

theorem command_history_walk:
  assumes "k \<le> length (ca_history a)" "0 < k"
  shows "(\<exists>b. foldM area_do ops area_new = Some b \<and> length (ca_history b) \<le> 50 \<and> list_all (\<lambda>l. trim l \<noteq> []) (ca_history b) \<and>
      successively (\<noteq>) (ca_history b)) \<and>
    (\<exists>b. foldM area_do (replicate k Key_Up) (area_open p a) = Some b \<and> ca_input b = ca_history a ! (length (ca_history a) - k) \<and>
      foldM area_do (replicate k Key_Down) b = Some (area_open p a))"
proof
  show "\<exists>b. foldM area_do ops area_new = Some b \<and> length (ca_history b) \<le> 50 \<and> list_all (\<lambda>l. trim l \<noteq> []) (ca_history b) \<and>
      successively (\<noteq>) (ca_history b)"
    using ca.run_inv [OF area_new_ok, of ops] by (auto simp: ok_iff area_ok_def HISTORY_LIMIT_def list_all_iff)
  have n: "ca_recall (area_open p a) = None" "ca_history (area_open p a) = ca_history a" "(area_open p a)\<lparr>ca_input := []\<rparr> = area_open p a"
    by (simp_all add: area_open_def)
  show "\<exists>b. foldM area_do (replicate k Key_Up) (area_open p a) = Some b \<and> ca_input b = ca_history a ! (length (ca_history a) - k) \<and>
      foldM area_do (replicate k Key_Down) b = Some (area_open p a)"
    using walk_up [OF n(1), of k] walk_down [OF n(1) assms(2)] assms by (simp add: n) (simp add: recalled_def n)
qed

theorem command_history_walk_witness:
  "\<exists>b. foldM area_do [Key_Up] (area_open Ex ((area_new :: unit command_area)\<lparr>ca_history := [[0x77]]\<rparr>)) = Some b \<and> ca_input b = [0x77]"
  using command_history_walk [of 1 "(area_new :: unit command_area)\<lparr>ca_history := [[0x77]]\<rparr>" "[]" Ex] by auto

end
