(* ===== verification/Admission.thy ===== *)
theory Admission
  imports Prelude
begin

text \<open>
  The admission boundary of automation, \<open>crates/festerm-admission/src/lib.rs\<close>: one process-wide mutex that is
  poisoned by a panic of its holder, and the epoch of an attachment, three atomics that are written under
  the mutex, or without it once it is poisoned.  The operations are given once as the code reads, and once as the
  single accesses to the atomics, which threads interleave; a generation that was captured is never current again
  after a transition, and nothing is admitted after a poisoning panic.  Accesses interleave; every release store and acquire load
  of the code is one step.
\<close>

section \<open>The operations\<close>

type_synonym thread = nat

record admission =
  ad_holder :: "thread option"
  ad_poisoned :: bool

text \<open>A lock taken by another thread blocks (\<open>None\<close>); a poisoned one is refused for ever.\<close>

definition automation_admission_lock :: "thread \<Rightarrow> admission \<Rightarrow> (bool \<times> admission) option" where
  "automation_admission_lock t a =
     (if ad_holder a \<noteq> None then None
      else if ad_poisoned a then Some (False, a)
      else Some (True, a\<lparr>ad_holder := Some t\<rparr>))"

datatype admission_try_error = Busy | Poisoned

definition try_automation_admission_lock :: "thread \<Rightarrow> admission \<Rightarrow> admission_try_error + admission" where
  "try_automation_admission_lock t a =
     (if ad_holder a \<noteq> None then Inl Busy
      else if ad_poisoned a then Inl Poisoned
      else Inr (a\<lparr>ad_holder := Some t\<rparr>))"

record epoch =
  ep_generation :: "64 word"
  ep_running :: bool
  ep_failed :: bool

definition epoch_new :: epoch where
  "epoch_new = \<lparr>ep_generation = 0, ep_running = False, ep_failed = False\<rparr>"

definition fail_closed :: "epoch \<Rightarrow> epoch" where
  "fail_closed e = e\<lparr>ep_failed := True, ep_running := False\<rparr>"

definition next_generation :: "64 word \<Rightarrow> 64 word option" where
  "next_generation g = (if g = - 1 then None else Some (g + 1))"

definition transition_under_admission :: "bool \<Rightarrow> epoch \<Rightarrow> epoch" where
  "transition_under_admission running e =
     (let e = e\<lparr>ep_running := False\<rparr> in
      if ep_failed e then e
      else case next_generation (ep_generation e) of
             None \<Rightarrow> fail_closed e
           | Some next \<Rightarrow> e\<lparr>ep_generation := next, ep_running := running\<rparr>)"

definition capture_under_admission :: "epoch \<Rightarrow> 64 word option" where
  "capture_under_admission e = (if ep_failed e \<or> \<not> ep_running e then None else Some (ep_generation e))"

text \<open>With the lock taken and given back: a lock held elsewhere blocks, a poisoned one disables the epoch.\<close>

definition transition :: "thread \<Rightarrow> bool \<Rightarrow> admission \<Rightarrow> epoch \<Rightarrow> epoch option" where
  "transition t running a e = do {
     (guard, a) \<leftarrow> automation_admission_lock t a;
     Some (if guard then transition_under_admission running e else fail_closed e) }"

definition capture :: "thread \<Rightarrow> admission \<Rightarrow> epoch \<Rightarrow> (64 word option \<times> epoch) option" where
  "capture t a e = do {
     (guard, a) \<leftarrow> automation_admission_lock t a;
     Some (if guard then (capture_under_admission e, e) else (None, fail_closed e)) }"

definition is_current :: "64 word \<Rightarrow> epoch \<Rightarrow> bool" where
  "is_current g e \<longleftrightarrow> \<not> ep_failed e \<and> ep_running e \<and> ep_generation e = g"

section \<open>Single accesses\<close>

text \<open>
  What a thread is about to do.  A flag \<open>own\<close> says that the operation took the lock itself and gives it back at
  its end; otherwise it runs under the guard of its caller.  \<open>None\<close> stands for a disabling without the lock.
\<close>

datatype activity =
    Idle | Holding
  | Stop bool bool | Test_Failed bool bool | Advance bool bool | Publish "64 word" bool bool | Start bool bool
  | Disable "bool option" | Disable_Running "bool option" | Refuse_Capture | Refuse_Running
  | Read_Failed bool | Read_Running bool | Read_Generation bool
  | Check_Failed "64 word" | Check_Running "64 word" | Check_Generation "64 word"

datatype event = Transitioned thread | Captured thread "64 word" | Not_Captured thread | Checked thread "64 word" bool | Panicked thread

definition after :: "bool \<Rightarrow> activity" where
  "after own = (if own then Idle else Holding)"

definition after_disabling :: "bool option \<Rightarrow> activity" where
  "after_disabling guard = (case guard of None \<Rightarrow> Idle | Some own \<Rightarrow> after own)"

fun access :: "thread \<Rightarrow> activity \<Rightarrow> epoch \<Rightarrow> (event option \<times> activity \<times> epoch) option" where
  "access t Idle e = None"
| "access t Holding e = None"
| "access t (Stop running own) e = Some (None, Test_Failed running own, e\<lparr>ep_running := False\<rparr>)"
| "access t (Test_Failed running own) e =
     (if ep_failed e then Some (Some (Transitioned t), after own, e) else Some (None, Advance running own, e))"
| "access t (Advance running own) e =
     (case next_generation (ep_generation e) of
        None \<Rightarrow> Some (None, Disable (Some own), e)
      | Some next \<Rightarrow> Some (None, Publish next running own, e))"
| "access t (Publish next running own) e = Some (None, Start running own, e\<lparr>ep_generation := next\<rparr>)"
| "access t (Start running own) e = Some (Some (Transitioned t), after own, e\<lparr>ep_running := running\<rparr>)"
| "access t (Disable guard) e = Some (None, Disable_Running guard, e\<lparr>ep_failed := True\<rparr>)"
| "access t (Disable_Running guard) e = Some (Some (Transitioned t), after_disabling guard, e\<lparr>ep_running := False\<rparr>)"
| "access t Refuse_Capture e = Some (None, Refuse_Running, e\<lparr>ep_failed := True\<rparr>)"
| "access t Refuse_Running e = Some (Some (Not_Captured t), Idle, e\<lparr>ep_running := False\<rparr>)"
| "access t (Read_Failed own) e =
     (if ep_failed e then Some (Some (Not_Captured t), after own, e) else Some (None, Read_Running own, e))"
| "access t (Read_Running own) e =
     (if \<not> ep_running e then Some (Some (Not_Captured t), after own, e) else Some (None, Read_Generation own, e))"
| "access t (Read_Generation own) e = Some (Some (Captured t (ep_generation e)), after own, e)"
| "access t (Check_Failed g) e =
     (if ep_failed e then Some (Some (Checked t g False), Holding, e) else Some (None, Check_Running g, e))"
| "access t (Check_Running g) e =
     (if \<not> ep_running e then Some (Some (Checked t g False), Holding, e) else Some (None, Check_Generation g, e))"
| "access t (Check_Generation g) e = Some (Some (Checked t g (ep_generation e = g)), Holding, e)"

section \<open>Threads\<close>

record boundary =
  bo_admission :: admission
  bo_epoch :: epoch
  bo_activity :: "thread \<Rightarrow> activity"

definition boundary_new :: boundary where
  "boundary_new = \<lparr>bo_admission = \<lparr>ad_holder = None, ad_poisoned = False\<rparr>, bo_epoch = epoch_new, bo_activity = (\<lambda>_. Idle)\<rparr>"

definition set_activity :: "thread \<Rightarrow> activity \<Rightarrow> boundary \<Rightarrow> boundary" where
  "set_activity t x c = c\<lparr>bo_activity := (bo_activity c)(t := x)\<rparr>"

text \<open>The lock is given back when its holder has nothing more to do under it.\<close>

definition release :: "thread \<Rightarrow> activity \<Rightarrow> admission \<Rightarrow> admission" where
  "release t x a = (if x = Idle \<and> ad_holder a = Some t then a\<lparr>ad_holder := None\<rparr> else a)"

inductive step :: "boundary \<Rightarrow> event option \<Rightarrow> boundary \<Rightarrow> bool" where
  lock: "bo_activity c t = Idle \<Longrightarrow> automation_admission_lock t (bo_admission c) = Some (True, a) \<Longrightarrow> x \<in> {Holding, Stop r True, Read_Failed True} \<Longrightarrow>
    step c None (set_activity t x (c\<lparr>bo_admission := a\<rparr>))"
| refuse: "bo_activity c t = Idle \<Longrightarrow> automation_admission_lock t (bo_admission c) = Some (False, a) \<Longrightarrow> x \<in> {Idle, Disable None, Refuse_Capture} \<Longrightarrow>
    step c None (set_activity t x (c\<lparr>bo_admission := a\<rparr>))"
| attempt: "bo_activity c t = Idle \<Longrightarrow> try_automation_admission_lock t (bo_admission c) = Inr a \<Longrightarrow>
    step c None (set_activity t Holding (c\<lparr>bo_admission := a\<rparr>))"
| guarded: "bo_activity c t = Holding \<Longrightarrow> x \<in> {Stop r False, Read_Failed False, Check_Failed g} \<Longrightarrow> step c None (set_activity t x c)"
| unlock: "bo_activity c t = Holding \<Longrightarrow> step c None (set_activity t Idle (c\<lparr>bo_admission := release t Idle (bo_admission c)\<rparr>))"
| panic: "bo_activity c t = Holding \<Longrightarrow>
    step c (Some (Panicked t)) (set_activity t Idle (c\<lparr>bo_admission := \<lparr>ad_holder = None, ad_poisoned = True\<rparr>\<rparr>))"
| access: "access t (bo_activity c t) (bo_epoch c) = Some (ev, x, e) \<Longrightarrow>
    step c ev (set_activity t x (c\<lparr>bo_admission := release t x (bo_admission c), bo_epoch := e\<rparr>))"

text \<open>A run and the events it shows, in their order.\<close>

inductive run :: "boundary \<Rightarrow> event list \<Rightarrow> boundary \<Rightarrow> bool" where
  here: "run c [] c"
| more: "run c evs c' \<Longrightarrow> step c' ev c'' \<Longrightarrow> run c (evs @ (case ev of None \<Rightarrow> [] | Some x \<Rightarrow> [x])) c''"

section \<open>One operation alone\<close>

text \<open>The accesses of an operation, run without interruption, are the operation.\<close>

fun alone :: "nat \<Rightarrow> thread \<Rightarrow> activity \<Rightarrow> epoch \<Rightarrow> (event option \<times> activity \<times> epoch) option" where
  "alone 0 t x e = None"
| "alone (Suc n) t x e = access t x e \<bind> (\<lambda>(ev, y, f). if ev = None then alone n t y f else Some (ev, y, f))"

lemma transition_alone:
  "alone 6 t (Stop running own) e = Some (Some (Transitioned t), after own, transition_under_admission running e)"
  by (simp add: numeral_eq_Suc transition_under_admission_def fail_closed_def after_disabling_def Let_def split: option.split)

lemma capture_alone:
  "alone 3 t (Read_Failed own) e =
     Some (Some (case capture_under_admission e of None \<Rightarrow> Not_Captured t | Some g \<Rightarrow> Captured t g), after own, e)"
  by (simp add: numeral_eq_Suc capture_under_admission_def)

lemma check_alone: "alone 3 t (Check_Failed g) e = Some (Some (Checked t g (is_current g e)), Holding, e)"
  by (simp add: numeral_eq_Suc is_current_def)

lemma fail_alone:
  "alone 2 t (Disable guard) e = Some (Some (Transitioned t), after_disabling guard, fail_closed e)"
  "alone 2 t Refuse_Capture e = Some (Some (Not_Captured t), Idle, fail_closed e)"
  by (simp_all add: numeral_eq_Suc fail_closed_def)

section \<open>Invariant\<close>

definition guarded_activity :: "activity \<Rightarrow> bool" where
  "guarded_activity x \<longleftrightarrow> x \<notin> {Idle, Disable None, Disable_Running None, Refuse_Capture, Refuse_Running}"

lemma guarded_simps [simp]: "\<not> guarded_activity Idle" "guarded_activity Holding"
  by (simp_all add: guarded_activity_def)

definition captured :: "event list \<Rightarrow> 64 word set" where
  "captured evs = {g. \<exists>t. Captured t g \<in> set evs}"

definition expired :: "event list \<Rightarrow> 64 word \<Rightarrow> bool" where
  "expired evs g \<longleftrightarrow> (\<exists>i j t u. i < j \<and> j < length evs \<and> evs ! i = Captured t g \<and> evs ! j = Transitioned u)"

definition panicked :: "event list \<Rightarrow> bool" where
  "panicked evs \<longleftrightarrow> (\<exists>t. Panicked t \<in> set evs)"

lemma expired_snoc: "expired (evs @ [ev]) g \<longleftrightarrow> expired evs g \<or> (\<exists>u. ev = Transitioned u) \<and> g \<in> captured evs"
proof
  assume "expired (evs @ [ev]) g"
  then obtain i j t u where i: "i < j" "j < Suc (length evs)" "(evs @ [ev]) ! i = Captured t g" "(evs @ [ev]) ! j = Transitioned u"
    by (auto simp: expired_def)
  then show "expired evs g \<or> (\<exists>u. ev = Transitioned u) \<and> g \<in> captured evs"
    by (auto simp: less_Suc_eq nth_append expired_def captured_def split: if_splits) (metis nth_mem)+
next
  assume "expired evs g \<or> (\<exists>u. ev = Transitioned u) \<and> g \<in> captured evs"
  then show "expired (evs @ [ev]) g"
  proof
    assume "expired evs g"
    then show ?thesis unfolding expired_def by (metis length_append_singleton less_SucI less_trans nth_append)
  next
    assume "(\<exists>u. ev = Transitioned u) \<and> g \<in> captured evs"
    then obtain u t i where "ev = Transitioned u" "i < length evs" "evs ! i = Captured t g" by (auto simp: captured_def in_set_conv_nth)
    then have "i < length evs \<and> length evs < length (evs @ [ev]) \<and> (evs @ [ev]) ! i = Captured t g \<and> (evs @ [ev]) ! length evs = Transitioned u"
      by (simp add: nth_append)
    then show ?thesis unfolding expired_def by blast
  qed
qed

lemma captured_snoc: "captured (evs @ [ev]) = captured evs \<union> {g. \<exists>t. ev = Captured t g}"
  by (auto simp: captured_def)

lemma panicked_snoc: "panicked (evs @ [ev]) \<longleftrightarrow> panicked evs \<or> (\<exists>t. ev = Panicked t)"
  by (auto simp: panicked_def)

text \<open>What holds of the epoch where a thread stands.\<close>

primrec stands :: "event list \<Rightarrow> epoch \<Rightarrow> activity \<Rightarrow> bool" where
  "stands evs e Idle \<longleftrightarrow> True"
| "stands evs e Holding \<longleftrightarrow> True"
| "stands evs e (Stop r own) \<longleftrightarrow> True"
| "stands evs e (Test_Failed r own) \<longleftrightarrow> True"
| "stands evs e (Advance r own) \<longleftrightarrow> \<not> ep_failed e"
| "stands evs e (Publish n r own) \<longleftrightarrow> \<not> ep_failed e \<and> next_generation (ep_generation e) = Some n"
| "stands evs e (Start r own) \<longleftrightarrow> \<not> ep_failed e \<and> (\<forall>g \<in> captured evs. g < ep_generation e)"
| "stands evs e (Disable guard) \<longleftrightarrow> True"
| "stands evs e (Disable_Running guard) \<longleftrightarrow> ep_failed e"
| "stands evs e Refuse_Capture \<longleftrightarrow> True"
| "stands evs e Refuse_Running \<longleftrightarrow> ep_failed e"
| "stands evs e (Read_Failed own) \<longleftrightarrow> True"
| "stands evs e (Read_Running own) \<longleftrightarrow> \<not> ep_failed e"
| "stands evs e (Read_Generation own) \<longleftrightarrow> \<not> ep_failed e \<and> ep_running e"
| "stands evs e (Check_Failed g) \<longleftrightarrow> True"
| "stands evs e (Check_Running g) \<longleftrightarrow> \<not> ep_failed e"
| "stands evs e (Check_Generation g) \<longleftrightarrow> \<not> ep_failed e \<and> ep_running e"

definition history_ok :: "event list \<Rightarrow> epoch \<Rightarrow> bool" where
  "history_ok evs e \<longleftrightarrow> (\<forall>g \<in> captured evs. g \<le> ep_generation e) \<and> (\<forall>g. expired evs g \<longrightarrow> ep_failed e \<or> g < ep_generation e)"

definition boundary_ok :: "event list \<Rightarrow> boundary \<Rightarrow> bool" where
  "boundary_ok evs c \<longleftrightarrow>
     (\<forall>t. guarded_activity (bo_activity c t) \<longrightarrow> ad_holder (bo_admission c) = Some t) \<and>
     (ad_poisoned (bo_admission c) \<longrightarrow> ad_holder (bo_admission c) = None) \<and>
     (\<forall>t. \<not> guarded_activity (bo_activity c t) \<and> bo_activity c t \<noteq> Idle \<longrightarrow> ad_poisoned (bo_admission c)) \<and>
     (panicked evs \<longrightarrow> ad_poisoned (bo_admission c)) \<and>
     (\<forall>t. stands evs (bo_epoch c) (bo_activity c t)) \<and> history_ok evs (bo_epoch c)"

text \<open>An event of an access fits the events before it.\<close>

definition event_ok :: "event list \<Rightarrow> event \<Rightarrow> bool" where
  "event_ok evs ev \<longleftrightarrow> (\<forall>t g. ev = Checked t g True \<longrightarrow> \<not> expired evs g \<and> \<not> panicked evs) \<and> (\<forall>t g. ev = Captured t g \<longrightarrow> \<not> panicked evs)"

lemma next_greater: "next_generation g = Some n \<Longrightarrow> g < n"
proof -
  assume "next_generation g = Some n"
  then have "g \<noteq> - 1" "n = g + 1" by (auto simp: next_generation_def split: if_splits)
  moreover have "1 + g \<noteq> 0" using \<open>g \<noteq> - 1\<close> by (metis add.commute add_eq_0_iff)
  ultimately show ?thesis using unatSuc [of g] by (simp add: word_less_nat_alt add.commute)
qed

section \<open>Steps\<close>

text \<open>Threads other than the one that acts are idle, or disable the epoch of a poisoned boundary.\<close>

lemma boundary_okD:
  assumes "boundary_ok evs c"
  shows "guarded_activity (bo_activity c t) \<Longrightarrow> ad_holder (bo_admission c) = Some t"
    "ad_poisoned (bo_admission c) \<Longrightarrow> ad_holder (bo_admission c) = None"
    "\<not> guarded_activity (bo_activity c t) \<Longrightarrow> bo_activity c t \<noteq> Idle \<Longrightarrow> ad_poisoned (bo_admission c)"
    "panicked evs \<Longrightarrow> ad_poisoned (bo_admission c)"
    "stands evs (bo_epoch c) (bo_activity c t)" "history_ok evs (bo_epoch c)"
  using assms unfolding boundary_ok_def by blast+

lemma others_apart:
  assumes "boundary_ok evs c" "bo_activity c t \<noteq> Idle" "u \<noteq> t"
  shows "\<not> guarded_activity (bo_activity c u)"
  using boundary_okD [OF assms(1)] assms(2,3) by (metis option.distinct(1) option.inject)

lemma stands_failed: "\<not> guarded_activity x \<Longrightarrow> stands evs e x \<Longrightarrow> (ep_failed e \<longrightarrow> ep_failed f) \<Longrightarrow> stands evs' f x"
  by (cases x) (auto simp: guarded_activity_def)

definition appended :: "event list \<Rightarrow> event option \<Rightarrow> event list" where
  "appended evs ev = evs @ (case ev of None \<Rightarrow> [] | Some x \<Rightarrow> [x])"

lemma access_failed: "access t x e = Some (ev, y, f) \<Longrightarrow> ep_failed e \<Longrightarrow> ep_failed f"
  by (cases x) (auto split: if_splits option.splits)

text \<open>The events so far and the epoch, across one access.\<close>

lemma access_history:
  assumes "access t x e = Some (ev, y, f)" "stands evs e x" "history_ok evs e"
  shows "history_ok (appended evs ev) f \<and> stands (appended evs ev) f y"
proof (cases x)
  case (Publish n r own)
  then have n: "ep_generation e < n" "\<not> ep_failed e" using assms(2) next_greater by simp_all
  have f: "f = e\<lparr>ep_generation := n\<rparr>" "ev = None" "y = Start r own" using assms(1) Publish by simp_all
  show ?thesis using assms(3) n by (force simp: f appended_def history_ok_def)
next
  case (Start r own)
  then show ?thesis using assms by (auto simp: appended_def history_ok_def expired_snoc captured_snoc after_def)
qed (use assms in \<open>auto simp: appended_def history_ok_def expired_snoc captured_snoc after_def after_disabling_def split: if_splits option.splits\<close>)

lemma access_event:
  assumes "access t x e = Some (Some ev, y, f)" "stands evs e x" "history_ok evs e" "guarded_activity x \<longrightarrow> \<not> panicked evs"
  shows "event_ok evs ev \<and> \<not> panicked [ev]"
  using assms by (cases x) (auto simp: event_ok_def history_ok_def guarded_activity_def panicked_def split: if_splits option.splits)

lemma access_activity:
  assumes "access t x e = Some (ev, y, f)"
  shows "x \<noteq> Idle" "guarded_activity x \<Longrightarrow> guarded_activity y \<or> y = Idle" "\<not> guarded_activity x \<Longrightarrow> \<not> guarded_activity y"
  using assms by (cases x; auto simp: guarded_activity_def after_def after_disabling_def split: if_splits option.splits)+

lemma access_step_ok:
  assumes ok: "boundary_ok evs c" and a: "access t (bo_activity c t) (bo_epoch c) = Some (ev, x, e)"
  shows "boundary_ok (appended evs ev) (set_activity t x (c\<lparr>bo_admission := release t x (bo_admission c), bo_epoch := e\<rparr>)) \<and>
    (\<forall>y. ev = Some y \<longrightarrow> event_ok evs y)"
proof -
  let ?x = "bo_activity c t"
  note y = access_activity [OF a]
  note s = boundary_okD(5) [OF ok, of t] boundary_okD(6) [OF ok]
  note h = access_history [OF a s]
  have g: "guarded_activity ?x \<longrightarrow> \<not> panicked evs" using boundary_okD(1,2,4) [OF ok] by fastforce
  have others: "stands (appended evs ev) e (bo_activity c u)" if "u \<noteq> t" for u
    by (rule stands_failed [OF others_apart [OF ok y(1) that] boundary_okD(5) [OF ok]]) (use access_failed [OF a] in blast)
  have p: "panicked (appended evs ev) = panicked evs"
    using access_event [of t ?x "bo_epoch c" _ x e evs] a s g by (cases ev) (auto simp: appended_def panicked_def)
  have "event_ok evs z" if "ev = Some z" for z using access_event a s g that by blast
  moreover have "boundary_ok (appended evs ev) (set_activity t x (c\<lparr>bo_admission := release t x (bo_admission c), bo_epoch := e\<rparr>))"
  proof -
    let ?a = "release t x (bo_admission c)"
    have "ad_poisoned ?a = ad_poisoned (bo_admission c)" by (simp add: release_def)
    moreover have "ad_holder ?a = (if x = Idle \<and> ad_holder (bo_admission c) = Some t then None else ad_holder (bo_admission c))" by (simp add: release_def)
    moreover have "ad_holder (bo_admission c) = Some t" if "guarded_activity x" using that y boundary_okD(1) [OF ok] by blast
    moreover have "ad_poisoned (bo_admission c)" if "\<not> guarded_activity x" "x \<noteq> Idle" using that y boundary_okD(3) [OF ok] by blast
    moreover have "\<not> guarded_activity (bo_activity c u)" if "u \<noteq> t" for u using others_apart [OF ok y(1) that] .
    moreover have "ad_poisoned (bo_admission c)" if "u \<noteq> t" "bo_activity c u \<noteq> Idle" for u
      using boundary_okD(3) [OF ok] others_apart [OF ok y(1) that(1)] that(2) by blast
    ultimately show ?thesis
      using h others p boundary_okD(2,4) [OF ok] unfolding boundary_ok_def set_activity_def by auto
  qed
  ultimately show ?thesis by blast
qed

text \<open>A guard that is dropped, in order or by a panic.\<close>

lemma guard_dropped:
  assumes "boundary_ok evs c" "bo_activity c t = Holding" "ad_holder a = None" "ad_poisoned (bo_admission c) \<or> panicked evs' \<longrightarrow> ad_poisoned a"
    "evs' = evs \<or> evs' = evs @ [Panicked t]"
  shows "boundary_ok evs' (set_activity t Idle (c\<lparr>bo_admission := a\<rparr>))"
proof -
  have "\<not> guarded_activity (bo_activity c u)" if "u \<noteq> t" for u using others_apart [OF assms(1) _ that] assms(2) by simp
  moreover have "stands evs' (bo_epoch c) (bo_activity c u)" for u
    using boundary_okD(5) [OF assms(1), of u] assms(5) by (cases "bo_activity c u") (auto simp: captured_snoc)
  moreover have "history_ok evs' (bo_epoch c)" using boundary_okD(6) [OF assms(1)] assms(5) by (auto simp: history_ok_def captured_snoc expired_snoc)
  moreover have "ad_poisoned (bo_admission c)" if "u \<noteq> t" "bo_activity c u \<noteq> Idle" for u
    using boundary_okD(3) [OF assms(1)] others_apart [OF assms(1) _ that(1)] assms(2) that(2) by simp
  ultimately show ?thesis using assms(3,4) unfolding boundary_ok_def set_activity_def by auto
qed

lemma step_ok:
  assumes "boundary_ok evs c" "step c ev c'"
  shows "boundary_ok (appended evs ev) c' \<and> (\<forall>y. ev = Some y \<longrightarrow> event_ok evs y)"
  using assms(2)
proof cases
  case (access t x e)
  then show ?thesis using access_step_ok [OF assms(1)] by blast
next
  case (panic t)
  then show ?thesis using guard_dropped [OF assms(1) panic(3)] by (simp add: appended_def event_ok_def)
next
  case (unlock t)
  have "ad_holder (bo_admission c) = Some t" using boundary_okD(1) [OF assms(1)] unlock by (simp add: guarded_activity_def)
  then show ?thesis using unlock guard_dropped [OF assms(1) unlock(3), of "release t Idle (bo_admission c)" evs] boundary_okD(4) [OF assms(1)]
    by (simp add: appended_def release_def)
qed (use assms(1) in \<open>auto simp: boundary_ok_def set_activity_def appended_def automation_admission_lock_def try_automation_admission_lock_def
      guarded_activity_def split: if_splits\<close>)

lemma run_ok:
  assumes "run c evs c'" "c = boundary_new"
  shows "boundary_ok evs c' \<and> (\<forall>i < length evs. event_ok (take i evs) (evs ! i))"
  using assms
proof (induction rule: run.induct)
  case (here c)
  then show ?case by (simp add: boundary_ok_def boundary_new_def guarded_activity_def panicked_def history_ok_def captured_def expired_def)
next
  case (more c evs c' ev c'')
  then have s: "boundary_ok (appended evs ev) c''" "\<And>y. ev = Some y \<Longrightarrow> event_ok evs y" using step_ok by blast+
  have "event_ok (take i (appended evs ev)) (appended evs ev ! i)" if "i < length (appended evs ev)" for i
    using that more s(2) by (cases ev) (auto simp: appended_def nth_append less_Suc_eq)
  then show ?case using s(1) by (simp add: appended_def)
qed

section \<open>Freshness\<close>

text \<open>
  Whatever threads do at the admission boundary, access by access: once a transition has followed the capture of a
  generation, no later check of that generation succeeds, and after a panic that poisoned the boundary no generation is
  captured and no check succeeds any more.
\<close>

theorem captured_generation_expires:
  assumes "run boundary_new evs c"
  shows "(i < j \<and> j < k \<and> k < length evs \<and> evs ! i = Captured t g \<and> evs ! j = Transitioned u \<longrightarrow> evs ! k \<noteq> Checked w g True) \<and>
    (i < k \<and> k < length evs \<and> evs ! i = Panicked t \<longrightarrow> evs ! k \<noteq> Checked w g True \<and> evs ! k \<noteq> Captured w g)"
proof -
  have ok: "event_ok (take k evs) (evs ! k)" if "k < length evs" using run_ok [OF assms refl] that by blast
  have "expired (take k evs) g" if "i < j" "j < k" "k < length evs" "evs ! i = Captured t g" "evs ! j = Transitioned u"
    unfolding expired_def using that by (intro exI [of _ i] exI [of _ j] exI [of _ t] exI [of _ u]) simp
  moreover have "panicked (take k evs)" if "i < k" "k < length evs" "evs ! i = Panicked t"
    unfolding panicked_def using that nth_mem [of i "take k evs"] by (intro exI [of _ t]) simp
  ultimately show ?thesis using ok by (auto simp: event_ok_def)
qed

lemma run_append: "run b vs c \<Longrightarrow> run a us b \<Longrightarrow> run a (us @ vs) c"
proof (induction rule: run.induct)
  case (more c evs c' ev c'')
  then show ?case using run.more [of a "us @ evs" c' ev c''] by simp
qed simp

lemma access_silent: "access t x e = Some (None, y, f) \<Longrightarrow> y \<noteq> Idle"
  by (cases x) (auto split: if_splits option.splits)

lemma run_step: "step a ev b \<Longrightarrow> run b evs c \<Longrightarrow> run a ((case ev of None \<Rightarrow> [] | Some x \<Rightarrow> [x]) @ evs) c"
  using run_append [of b evs c a] run.more [OF run.here, of a ev b] by simp

lemma run_alone:
  "alone n t x e = Some (Some ev, y, f) \<Longrightarrow>
    run (set_activity t x (c\<lparr>bo_epoch := e\<rparr>)) [ev] (set_activity t y (c\<lparr>bo_admission := release t y (bo_admission c), bo_epoch := f\<rparr>))"
proof (induction n arbitrary: x e)
  case (Suc n)
  then obtain ev' y' f' where a: "access t x e = Some (ev', y', f')" "if ev' = None then alone n t y' f' = Some (Some ev, y, f) else (ev', y', f') = (Some ev, y, f)"
    by (auto split: bind_splits if_splits)
  have "step (set_activity t x (c\<lparr>bo_epoch := e\<rparr>)) ev' (set_activity t y' (c\<lparr>bo_admission := release t y' (bo_admission c), bo_epoch := f'\<rparr>))"
    using step.access [of t "set_activity t x (c\<lparr>bo_epoch := e\<rparr>)" ev' y' f'] a(1) by (simp add: set_activity_def)
  note s = run_step [OF this]
  show ?case
  proof (cases "ev' = None")
    case True
    then have "y' \<noteq> Idle" using access_silent a(1) by blast
    then have "release t y' (bo_admission c) = bo_admission c" by (simp add: release_def)
    then show ?thesis using s [of "[ev]"] Suc.IH [of y' f'] a(2) True by simp
  next
    case False
    then have "(ev', y', f') = (Some ev, y, f)" using a(2) by simp
    then show ?thesis using s [OF run.here] by simp
  qed
qed simp

text \<open>From the lock to its release, or without the lock where it is poisoned.\<close>

lemma operation_run:
  assumes "bo_activity c t = Idle" "automation_admission_lock t (bo_admission c) = Some (guard, a)"
    "alone n t x (bo_epoch c) = Some (Some ev, Idle, e)" "x \<in> (if guard then {Stop r True, Read_Failed True} else {Disable None, Refuse_Capture})"
  shows "run c [ev] (c\<lparr>bo_epoch := e\<rparr>)"
proof -
  let ?c = "c\<lparr>bo_admission := a\<rparr>"
  have "step c None (set_activity t x ?c)"
    using step.lock [OF assms(1), of a x r] step.refuse [OF assms(1), of a x] assms(2,4) by (auto split: if_splits)
  moreover have "release t Idle a = bo_admission c"
    using assms(2) by (auto simp: automation_admission_lock_def release_def intro: admission.equality split: if_splits)
  then have "set_activity t Idle (?c\<lparr>bo_admission := release t Idle (bo_admission ?c), bo_epoch := e\<rparr>) = c\<lparr>bo_epoch := e\<rparr>"
    using assms(1) by (cases c) (auto simp: set_activity_def)
  moreover have "?c\<lparr>bo_epoch := bo_epoch c\<rparr> = ?c" by simp
  ultimately show ?thesis using run_step [of c None "set_activity t x ?c" "[ev]"] run_alone [OF assms(3), of ?c] by simp
qed

lemma transition_run:
  assumes "bo_activity c t = Idle" "transition t running (bo_admission c) (bo_epoch c) = Some e"
  shows "run c [Transitioned t] (c\<lparr>bo_epoch := e\<rparr>)"
proof -
  obtain guard a where l: "automation_admission_lock t (bo_admission c) = Some (guard, a)"
      "e = (if guard then transition_under_admission running (bo_epoch c) else fail_closed (bo_epoch c))"
    using assms(2) by (auto simp: transition_def split: bind_splits)
  show ?thesis
    using operation_run [OF assms(1) l(1), of 6 "Stop running True" "Transitioned t" e running] operation_run [OF assms(1) l(1), of 2 "Disable None" "Transitioned t" e]
      l(2) by (cases guard) (simp_all add: transition_alone fail_alone after_def after_disabling_def)
qed

lemma capture_run:
  assumes "bo_activity c t = Idle" "capture t (bo_admission c) (bo_epoch c) = Some (r, e)"
  shows "run c [case r of None \<Rightarrow> Not_Captured t | Some g \<Rightarrow> Captured t g] (c\<lparr>bo_epoch := e\<rparr>)"
proof -
  obtain guard a where l: "automation_admission_lock t (bo_admission c) = Some (guard, a)"
      "(r, e) = (if guard then (capture_under_admission (bo_epoch c), bo_epoch c) else (None, fail_closed (bo_epoch c)))"
    using assms(2) by (auto simp: capture_def split: bind_splits)
  show ?thesis
    using operation_run [OF assms(1) l(1), of 3 "Read_Failed True" "case r of None \<Rightarrow> Not_Captured t | Some g \<Rightarrow> Captured t g" e]
      operation_run [OF assms(1) l(1), of 2 Refuse_Capture "Not_Captured t" e] l(2)
    by (cases guard) (simp_all add: capture_alone fail_alone after_def)
qed

lemma check_run:
  assumes "bo_activity c t = Idle" "automation_admission_lock t (bo_admission c) = Some (True, a)"
  shows "\<exists>c'. run c [Checked t g (is_current g (bo_epoch c))] c'"
proof -
  let ?c = "c\<lparr>bo_admission := a\<rparr>"
  have "step c None (set_activity t Holding ?c)" using step.lock [OF assms, of Holding] by simp
  moreover have "step (set_activity t Holding ?c) None (set_activity t (Check_Failed g) ?c)"
    using step.guarded [of "set_activity t Holding ?c" t "Check_Failed g" False g] by (simp add: set_activity_def)
  moreover have "?c\<lparr>bo_epoch := bo_epoch c\<rparr> = ?c" by simp
  ultimately show ?thesis using run_step [of c None "set_activity t Holding ?c"] run_step [of "set_activity t Holding ?c" None "set_activity t (Check_Failed g) ?c"]
    run_alone [OF check_alone, of t g "bo_epoch c" ?c] by fastforce
qed

text \<open>Two threads: one starts the attachment, captures its generation and checks it, the other stops it in between.\<close>

theorem captured_generation_expires_witness:
  "\<exists>b c. run boundary_new [Transitioned 0, Captured 0 1, Transitioned 1, Checked 0 1 b] c \<and> \<not> b"
proof -
  let ?e = "\<lparr>ep_generation = 1, ep_running = True, ep_failed = False\<rparr>" and ?f = "\<lparr>ep_generation = 2, ep_running = False, ep_failed = False\<rparr>"
  let ?c = "\<lambda>e. boundary_new\<lparr>bo_epoch := e\<rparr>"
  note defs = boundary_new_def epoch_new_def transition_def capture_def automation_admission_lock_def transition_under_admission_def
    capture_under_admission_def next_generation_def
  have "run boundary_new [Transitioned 0] (?c ?e)" using transition_run [of boundary_new 0 True ?e] by (simp add: defs)
  moreover have "run (?c ?e) [Captured 0 1] (?c ?e)" using capture_run [of "?c ?e" 0 "Some 1" ?e] by (simp add: defs)
  moreover have "run (?c ?e) [Transitioned 1] (?c ?f)" using transition_run [of "?c ?e" 1 False ?f] by (simp add: defs)
  moreover obtain b c where "run (?c ?f) [Checked 0 1 b] c" using check_run [of "?c ?f" 0 _ 1] by (auto simp: defs)
  ultimately have run: "run boundary_new [Transitioned 0, Captured 0 1, Transitioned 1, Checked 0 1 b] c"
    using run_append [OF _ run_append [OF _ run_append]] by fastforce
  then have "\<not> b" using captured_generation_expires [OF run, of 1 2 3 0 1 1 0] by simp
  with run show ?thesis by blast
qed

end
