(* ===== verification/Spec2Isabelle.thy ===== *)
theory Spec2Isabelle
  imports Text_Props Input_Props Report_Props Document_Props Edit_Props Edit_Diff_Props View_Props Ex_Area Admission
begin

text \<open>
  A verification development of fesTerm: the terminal core (\<open>crates/festerm-core\<close>), the editable documents
  with their search, substitution and vi engine (\<open>crates/festerm-document\<close>), the vi side of a text view
  (\<open>app/festerm\<close>), and the admission boundary of automation (\<open>crates/festerm-admission\<close>).

  \<^bold>\<open>The program.\<close>  A session delivers bytes to \<open>Terminal::ingest\<close>.  The parser turns them one by one into
  operations, the UTF-8 decoder supplies the characters between them, and \<open>Terminal::apply\<close> carries an
  operation out on the active screen buffer; rows that leave the primary screen go to the scrollback.
  Replies and typed input leave through bounded queues.  A resize rewraps history and screen together.
  Documents are UTF-8 texts with a bounded undo history of transactions; views edit them by derived edits,
  by planned substitutions and by the vi engine, which answers every keystroke with edits and a caret.
  Automation may observe or drive a session only under the admission lock and with a current generation.

  \<^bold>\<open>How code is modelled.\<close>  A struct is a record, an enum a datatype, an operation a function on them, in the
  order and with the branches of the source.  A panic (an index, slice or \<open>expect\<close> that fails, an arithmetic
  overflow in a checked build) is \<open>None\<close>; an error value is the left side of a sum.  Bytes and control-sequence
  parameters are words; \<open>usize\<close> is \<open>nat\<close> with the 64-bit maximum written out where the source saturates,
  checks, or could overflow.  The UTF-8 text of a document is its list of bytes, with the character
  boundaries that slicing demands; text that the source only reads by characters is its list of scalar values.
  Loops are structural recursion, \<open>foldM\<close>, a measured \<open>function\<close>, or (the word scanners of the vi engine)
  \<open>partial_function (option)\<close>, whose termination is a theorem of its own.  No definition of the model uses fuel.

  \<^bold>\<open>What the code takes from elsewhere\<close> is an argument.  \<open>env\<close> (\<open>Prelude\<close>): Unicode widths and grapheme
  counts, \<open>CompactString\<close> and \<open>Vec\<close> capacities, sizes of types, the success of allocations, URL parsing.
  \<open>heap_env\<close> (\<open>Edit_Undo\<close>): capacities of strings and deques.  \<open>vi_env\<close> (\<open>Vi_Buffer\<close>): \<open>char::is_alphanumeric\<close>.
  \<open>search_env\<close> (\<open>Find_Search\<close>): the \<open>regex\<close> crate (building, escaping, the matches and captures of a text).
  The hypotheses on them state documented behaviour only: capacities hold the content and short strings stay
  within 512 bytes (\<open>env_ok\<close>, \<open>caps_ok\<close>, \<open>vec_ok\<close>, \<open>heap_ok\<close>), U+FFFD is one column wide, matches are in order, do not
  overlap and lie on character boundaries (\<open>regex_ok\<close>, \<open>search_engine_ok\<close>).  An environment is fixed within one
  call; the calls of a terminal may each have their own, so that the allocator answers differently from call to
  call.  \<open>Sample\<close>, \<open>Sample_Facts\<close>, \<open>Edit_Contract\<close> and \<open>Find_Props\<close> hold instances that satisfy the hypotheses, on which
  the witnesses evaluate.

  \<^bold>\<open>Theories of the terminal core.\<close>
  \<^item> \<open>Prelude\<close>, \<open>Machine\<close>: shared types, the weakest precondition \<open>ok\<close> of the option monad, loops,
    and two contracts: \<open>machine\<close> (a step that never fails on a valid state) and \<open>bounded_log\<close>.
  \<^item> \<open>Cell\<close> (\<open>lib.rs\<close>, \<open>cell.rs\<close>, \<open>modes.rs\<close>, \<open>colors.rs\<close>), \<open>Utf8\<close> (\<open>unicode.rs\<close>), \<open>Hyperlink\<close>
    (\<open>hyperlink.rs\<close>), with \<open>Text_Props\<close>: the decoder accepts exactly well-formed UTF-8 and inverts the encoder;
    file targets are confined to plain absolute paths.
  \<^item> \<open>Parser\<close> (\<open>parser.rs\<close>), \<open>Parser_Proofs\<close>, \<open>Parser_Props\<close>: every byte is consumed without a panic in bounded
    state; printed control sequences parse back.
  \<^item> \<open>Input\<close> (\<open>input.rs\<close>, \<open>replies.rs\<close>), \<open>Input_Props\<close>: encoding of keys, mouse and paste; the queues, which
    interpret \<open>bounded_queue\<close>.
  \<^item> \<open>Screen\<close> (\<open>screen.rs\<close>), \<open>Screen_Rows\<close> (the ring as a \<open>row_store\<close>), \<open>Screen_Inv\<close>, \<open>Wide\<close>, \<open>Screen_Props\<close>: every
    operation keeps a screen that recovery accepts and never leaves half of a wide character.
  \<^item> \<open>History\<close> (\<open>history.rs\<close>), \<open>History_Inv\<close>, \<open>History_Spec\<close>, \<open>History_Lookup\<close>, \<open>History_Reflow\<close>, \<open>History_Split\<close>,
    \<open>History_Props\<close>: the history refines a \<open>bounded_log\<close> of rows, which forgets oldest rows only for its byte limit;
    lookup, reflow and splitting read and rearrange exactly those rows.
  \<^item> \<open>Buffer\<close>, \<open>Terminal_Core\<close>, \<open>Terminal_Ops\<close>, \<open>Terminal_Modes\<close>, \<open>Terminal\<close> (\<open>terminal.rs\<close>), with \<open>Terminal_Inv\<close>,
    \<open>Terminal_Steps\<close>, \<open>Terminal_Total\<close>, \<open>Terminal_Api\<close>, \<open>Snapshot\<close>, \<open>Terminal_Props\<close>, \<open>Report_Props\<close>,
    \<open>Document_Props\<close>: the terminal interprets \<open>machine\<close> twice, for bytes and for public calls, so that no
    reachable terminal panics; printing, scrolling, reset, resize, reports and snapshots are exact, and no operation
    on the alternate screen reaches the primary one.

  \<^bold>\<open>Theories of the documents.\<close>
  \<^item> \<open>Edit_Text\<close> (\<open>text.rs\<close>, \<open>bounds.rs\<close>), \<open>Edit_Undo\<close> (\<open>undo.rs\<close>), \<open>Edit_Document\<close> (\<open>text.rs\<close>), with \<open>Edit_Rewrite\<close>,
    \<open>Edit_Undo_Inv\<close>, \<open>Edit_Timeline\<close>, \<open>Edit_Derive\<close>, \<open>Edit_Doc_Inv\<close>, \<open>Edit_Ops\<close>, \<open>Edit_Contract\<close>, \<open>Edit_Props\<close>: a
    document is a timeline of texts, each leading to the next by the recorded edits, along which undo and redo move
    (locale \<open>undoable\<close>); no operation panics, a clean document holds the saved bytes, an unedited save is the identity.
  \<^item> \<open>Edit_Diff\<close> (\<open>diff.rs\<close>), \<open>Edit_Lcs\<close>, \<open>Edit_Align\<close>, \<open>Edit_Diff_Props\<close>: the comparison is complete and minimal.
  \<^item> \<open>Vi_Buffer\<close>, \<open>Vi_Engine\<close>, \<open>Vi_Steps\<close>, \<open>Vi_Keys\<close> (\<open>vi.rs\<close>) and \<open>Vi_View\<close> (\<open>text_editor.rs\<close>), with \<open>Vi_Views\<close>
    (\<open>MotionText\<close> as the locale \<open>motion_view\<close>, interpreted on the index and on the borrowed text), \<open>Vi_Index\<close>,
    \<open>Vi_Motions\<close>, \<open>Vi_Safe\<close>, \<open>Vi_Total\<close>, \<open>Vi_Record\<close>, \<open>Vi_Session\<close>, \<open>Vi_Typing\<close>, \<open>Vi_Props\<close>: sessions of keystrokes
    never panic and only ever produce edits the document accepts.
  \<^item> \<open>Find_Search\<close> (\<open>search.rs\<close>), \<open>Find_Substitute\<close> (\<open>substitute.rs\<close>), with \<open>Find_Plan\<close>, \<open>Find_Result\<close>, \<open>Find_Laws\<close>,
    \<open>Find_Props\<close>: searching visits every collected match; a planned substitution is bounded and gives exactly the
    replaced text; printed commands parse back.
  \<^item> \<open>Ex_Command\<close>, \<open>Ex_Area\<close> (\<open>vi_command.rs\<close>): the command line, its completion and its bounded history.
  \<^item> \<open>Vi_View\<close>, \<open>View_Command\<close>, \<open>View_Frame\<close>, \<open>View_Props\<close> (\<open>text_editor.rs\<close>): Find and Replace, the vi keys and the
    commands of a text view, frame by frame; when a frame panics, and where searches land.

  \<^bold>\<open>Automation.\<close>  \<open>Admission\<close> (\<open>festerm-admission\<close>): the admission lock with poisoning and the epoch of an attachment,
  as the code reads and as single accesses of interleaved threads; a captured generation is never current again
  after a transition.

  \<^bold>\<open>Bounds in the theorems.\<close>  Row numbers and charged bytes of the history must fit a \<open>usize\<close> (\<open>push_fits\<close>,
  \<open>reflow_fits\<close>); a document's byte bound plus the undo budget must fit one (\<open>bounds_ok\<close>), and its serial numbers
  must not run out.  For the vi engine a text is at most \<open>2 ^ 62\<close> bytes and a count typed so far is below
  \<open>10 ^ 8\<close> when a further digit arrives (\<open>count_room\<close>), which the source leaves unchecked.  A view collects the first
  2000 matches of a pattern (\<open>MATCH_LIMIT\<close>), and searches move among these.  Replacement texts and lines of a
  substitution fit a \<open>usize\<close> (\<open>tokens_fit\<close>, \<open>line_fits\<close>).

  \<^bold>\<open>Not modelled.\<close>  Rendering, windows, tabs and dialogs (GUI toolkits); SSH, SFTP, local processes, serial
  lines, the session daemon, dev tunnels and mobile shells (operating-system and network I/O over third-party
  crates); configuration (serde); Markdown and syntax highlighting (third-party parsers); platform bindings.
  Debug formatting, \<open>debug_assert!\<close>, test instrumentation, the wording of messages beyond their headlines, the
  cloning of an undo history, and the real capacities that \<open>restore_recovery_snapshot_allocations\<close> brings to the
  recorded ones are left out of the modelled files; sums of cell counts in anchors of the history are taken without
  the overflow that only about \<open>2 ^ 64\<close> cells could cause.  Of a frame of a text view, the drawing, the bars and the
  editing inside the widget are left out.
\<close>

end
